(* ===== verification/Prelude.thy ===== *)
theory Prelude
  imports Complex_Main "HOL-Library.List_Lexorder" "HOL-Library.Char_ord"
begin

text \<open>
  Shared vocabulary of the development.

  Python values: a \<open>str\<close> is a \<^typ>\<open>string\<close> (a label outside ASCII is written as its UTF-8
  bytes; only equality and order of strings are used, and byte order agrees with code point
  order), an \<open>int\<close> is an \<^typ>\<open>int\<close> (or a \<^typ>\<open>nat\<close> where the code only counts upwards), a
  \<open>float\<close> is an exact \<^typ>\<open>real\<close>: rounding, NaN and infinities are not modelled, and the
  \<open>float("-inf")\<close> sentinels of the source become \<^const>\<open>None\<close>.

  A clock is never read inside a definition: each reading of the source's injected clock is an
  argument, in the order in which the code takes it.

  Exceptions are values of \<open>py_error\<close>, on the left of a sum.

  The \<open>OrderedDict\<close>s and the insertion-ordered \<open>dict\<close>s that the source uses as LRU tables are
  association lists, oldest entry first; the operations are below, with their laws in the
  collection \<open>od_simps\<close>.

  The two locales at the end are the contracts several agents promise: a state that keeps an
  invariant under each of its operations, and, built on it, a table that stays within its cap.
\<close>

named_theorems od_simps \<open>laws of the ordered dictionary operations\<close>
named_theorems config_simps \<open>projections of closed configurations, for witnesses\<close>

datatype py_error = ValueError | KeyError | TypeError | RuntimeError | NotImplementedError
  | IndexError | AttributeError | OSError | OverflowError | StopIteration

type_synonym ('k, 'v) odict = "('k \<times> 'v) list"

section \<open>Texts with separators\<close>

lemma append_sep_inject:
  "c \<notin> set a \<Longrightarrow> c \<notin> set b \<Longrightarrow> a @ c # x = b @ c # y \<longleftrightarrow> a = b \<and> x = y"
proof (induction a arbitrary: b)
  case Nil
  then show ?case by (cases b) auto
next
  case (Cons d a)
  then show ?case by (cases b) auto
qed

lemma append_sep_inject_last:
  "c \<notin> set x \<Longrightarrow> c \<notin> set y \<Longrightarrow> a @ c # x = b @ c # y \<longleftrightarrow> a = b \<and> x = y"
  using append_sep_inject [of c "rev x" "rev y" "rev a" "rev b"]
  by (metis append_eq_append_conv2 append_same_eq rev_append rev_is_rev_conv rev_rev_ident
      rev_singleton_conv set_rev append.assoc append_Cons append_Nil rev.simps(2))

section \<open>Printing integers\<close>

text \<open>\<open>str(n)\<close> for an \<open>int\<close>, as f-strings print it.\<close>

definition digit_char :: "nat \<Rightarrow> char" where
  "digit_char d = char_of (48 + d)"

fun show_nat :: "nat \<Rightarrow> string" where
  "show_nat n = (if n < 10 then [digit_char n] else show_nat (n div 10) @ [digit_char (n mod 10)])"

declare show_nat.simps [simp del]

definition show_int :: "int \<Rightarrow> string" where
  "show_int i = (if i < 0 then CHR ''-'' # show_nat (nat (- i)) else show_nat (nat i))"

definition char_digit :: "char \<Rightarrow> nat" where
  "char_digit c = of_char c - 48"

definition read_nat :: "string \<Rightarrow> nat" where
  "read_nat = foldl (\<lambda>n c. 10 * n + char_digit c) 0"

lemma char_digit_char [simp]: "d < 10 \<Longrightarrow> char_digit (digit_char d) = d"
  by (simp add: char_digit_def digit_char_def)

lemma read_show_nat [simp]: "read_nat (show_nat n) = n"
proof (induction n rule: show_nat.induct)
  case (1 n)
  then show ?case
    by (subst show_nat.simps) (auto simp: read_nat_def)
qed

lemma show_nat_inject [simp]: "show_nat m = show_nat n \<longleftrightarrow> m = n"
  by (metis read_show_nat)

lemma show_nat_chars: "c \<in> set (show_nat n) \<Longrightarrow> \<exists>d < 10. c = digit_char d"
proof (induction n rule: show_nat.induct)
  case (1 n)
  show ?case
  proof (cases "n < 10 \<or> c = digit_char (n mod 10)")
    case True
    then have "c = digit_char (n mod 10)"
      using "1.prems" by (auto simp: show_nat.simps [of n])
    then show ?thesis by (intro exI [of _ "n mod 10"]) simp
  next
    case False
    with 1 show ?thesis by (simp add: show_nat.simps [of n])
  qed
qed

lemma show_nat_nonempty [simp]: "show_nat n \<noteq> []"
  by (simp add: show_nat.simps [of n])

lemma show_int_nonempty [simp]: "show_int i \<noteq> []"
  by (simp add: show_int_def)

lemmas show_simps = show_int_def show_nat.simps digit_char_def

lemma digit_char_neq [simp]:
  "d < 10 \<Longrightarrow> digit_char d \<noteq> CHR ''-''" "d < 10 \<Longrightarrow> digit_char d \<noteq> CHR ''|''"
  by (auto simp: digit_char_def dest!: arg_cong [where f = "of_char :: char \<Rightarrow> nat"])

lemma show_int_inject [simp]: "show_int i = show_int j \<longleftrightarrow> i = j"
proof -
  have "CHR ''-'' # s \<noteq> show_nat n" for s n
  proof
    assume "CHR ''-'' # s = show_nat n"
    then have "CHR ''-'' \<in> set (show_nat n)" by (metis list.set_intros(1))
    then show False by (metis show_nat_chars digit_char_neq(1))
  qed
  then show ?thesis
    by (auto simp: show_int_def dest: not_sym)
qed

section \<open>Ordered dictionaries\<close>

abbreviation od_keys :: "('k, 'v) odict \<Rightarrow> 'k list" where
  "od_keys d \<equiv> map fst d"

definition od_wf :: "('k, 'v) odict \<Rightarrow> bool" where
  "od_wf d = distinct (od_keys d)"

text \<open>\<open>d[k] = v\<close>: in place when the key is present, at the end otherwise.\<close>

fun od_set :: "'k \<Rightarrow> 'v \<Rightarrow> ('k, 'v) odict \<Rightarrow> ('k, 'v) odict" where
  "od_set k v [] = [(k, v)]"
| "od_set k v ((a, b) # d) = (if a = k then (k, v) # d else (a, b) # od_set k v d)"

text \<open>\<open>d.pop(k, None)\<close>.\<close>

definition od_del :: "'k \<Rightarrow> ('k, 'v) odict \<Rightarrow> ('k, 'v) odict" where
  "od_del k d = filter (\<lambda>p. fst p \<noteq> k) d"

text \<open>\<open>d.move_to_end(k)\<close>, on a key that is present.\<close>

definition od_touch :: "'k \<Rightarrow> ('k, 'v) odict \<Rightarrow> ('k, 'v) odict" where
  "od_touch k d = (case map_of d k of None \<Rightarrow> d | Some v \<Rightarrow> od_del k d @ [(k, v)])"

text \<open>\<open>while len(d) > n: d.popitem(last=False)\<close>.\<close>

fun od_trim :: "nat \<Rightarrow> ('k, 'v) odict \<Rightarrow> ('k, 'v) odict" where
  "od_trim n [] = []"
| "od_trim n (p # d) = (if n < length (p # d) then od_trim n d else p # d)"

lemma od_wf_Nil [simp]: "od_wf []"
  by (simp add: od_wf_def)

lemma od_wf_tl [intro]: "od_wf d \<Longrightarrow> od_wf (tl d)"
  by (cases d) (auto simp: od_wf_def)

lemma map_of_od_set [od_simps]: "map_of (od_set k v d) = (map_of d)(k \<mapsto> v)"
  by (induction k v d rule: od_set.induct) auto

lemma keys_od_set [od_simps]:
  "od_keys (od_set k v d) = (if k \<in> fst ` set d then od_keys d else od_keys d @ [k])"
  by (induction k v d rule: od_set.induct) auto

lemma od_wf_set [intro]: "od_wf d \<Longrightarrow> od_wf (od_set k v d)"
  by (auto simp: od_wf_def keys_od_set)

lemma length_od_set [od_simps]:
  "length (od_set k v d) = (if k \<in> fst ` set d then length d else Suc (length d))"
  by (induction k v d rule: od_set.induct) auto

lemma od_set_fresh [od_simps]: "k \<notin> fst ` set d \<Longrightarrow> od_set k v d = d @ [(k, v)]"
  by (induction k v d rule: od_set.induct) auto

lemma map_of_od_del [od_simps]: "map_of (od_del k d) = (map_of d)(k := None)"
  by (induction d) (auto simp: od_del_def)

lemma od_wf_del [intro]: "od_wf d \<Longrightarrow> od_wf (od_del k d)"
  by (simp add: od_wf_def od_del_def distinct_map_filter)

lemma length_od_del_le: "length (od_del k d) \<le> length d"
  by (simp add: od_del_def)

lemma fst_set_od_del [od_simps]: "fst ` set (od_del k d) = fst ` set d - {k}"
  by (auto simp: od_del_def)

lemma length_od_del_present:
  "od_wf d \<Longrightarrow> k \<in> fst ` set d \<Longrightarrow> Suc (length (od_del k d)) = length d"
proof (induction d)
  case Nil
  then show ?case by simp
next
  case (Cons p d)
  have "fst p \<notin> fst ` set d"
    using Cons.prems(1) by (simp add: od_wf_def)
  then have "filter (\<lambda>q. fst q \<noteq> fst p) d = d"
    by (intro filter_True) (metis image_eqI)
  with Cons show ?case
    by (cases "fst p = k") (auto simp: od_wf_def od_del_def)
qed

lemma length_od_del_Some [od_simps]:
  "map_of d k = Some v \<Longrightarrow> od_wf d \<Longrightarrow> Suc (length (od_del k d)) = length d"
  by (rule length_od_del_present) (auto dest: map_of_SomeD intro: rev_image_eqI)

lemma od_wf_length_card: "od_wf d \<Longrightarrow> fst ` set d \<subseteq> K \<Longrightarrow> finite K \<Longrightarrow> length d \<le> card K"
  by (metis card_mono distinct_card length_map od_wf_def set_map)

lemma fst_set_od_set [od_simps]: "fst ` set (od_set k v d) = insert k (fst ` set d)"
  by (induction k v d rule: od_set.induct) auto

lemma map_of_od_touch [od_simps]: "map_of (od_touch k d) = map_of d"
  by (auto simp: od_touch_def od_simps map_add_def split: option.splits intro!: ext)

lemma od_wf_touch [intro]: "od_wf d \<Longrightarrow> od_wf (od_touch k d)"
  by (auto simp: od_touch_def od_wf_def od_del_def distinct_map_filter split: option.splits)

lemma fst_set_od_touch [od_simps]: "fst ` set (od_touch k d) = fst ` set d"
  by (auto simp: od_touch_def od_del_def split: option.splits dest: map_of_SomeD
      intro: rev_image_eqI)

lemma length_od_touch [od_simps]: "od_wf d \<Longrightarrow> length (od_touch k d) = length d"
  by (auto simp: od_touch_def split: option.splits
      dest!: map_of_SomeD intro!: length_od_del_present intro: rev_image_eqI)

lemma set_od_set_sub: "set (od_set k v d) \<subseteq> insert (k, v) (set d)"
  by (induction k v d rule: od_set.induct) auto

lemma od_del_od_set [od_simps]: "od_del k (od_set k v d) = od_del k d"
  by (induction k v d rule: od_set.induct) (auto simp: od_del_def)

lemma od_touch_od_set [od_simps]: "od_touch k (od_set k v d) = od_del k d @ [(k, v)]"
  by (simp add: od_touch_def od_simps)

lemma od_del_fresh [od_simps]: "k \<notin> fst ` set d \<Longrightarrow> od_del k d = d"
  unfolding od_del_def by (rule filter_True) (metis image_eqI)

lemma od_touch_snoc [od_simps]: "k \<notin> fst ` set d \<Longrightarrow> od_touch k (d @ [(k, v)]) = d @ [(k, v)]"
  using od_touch_od_set [of k v d] by (simp add: od_set_fresh od_del_fresh)

lemma od_wf_snoc [intro]: "od_wf d \<Longrightarrow> k \<notin> fst ` set d \<Longrightarrow> od_wf (d @ [(k, v)])"
  by (simp add: od_wf_def)

lemma od_wf_del_snoc [intro]: "od_wf d \<Longrightarrow> od_wf (od_del k d @ [(k, v)])"
  by (intro od_wf_snoc od_wf_del) (simp_all add: od_simps)

lemma od_trim_drop: "od_trim n d = drop (length d - n) d"
  by (induction n d rule: od_trim.induct) (auto simp: Suc_diff_le)

lemma length_od_trim [od_simps]: "length (od_trim n d) = min (length d) n"
  by (simp add: od_trim_drop)

lemma od_wf_trim [intro]: "od_wf d \<Longrightarrow> od_wf (od_trim n d)"
  by (simp add: od_wf_def od_trim_drop flip: drop_map)

lemma set_od_trim_subset: "set (od_trim n d) \<subseteq> set d"
  by (simp add: od_trim_drop set_drop_subset)

lemma od_trim_id [od_simps]: "length d \<le> n \<Longrightarrow> od_trim n d = d"
  by (simp add: od_trim_drop)

lemma od_trim_snoc: "0 < n \<Longrightarrow> od_trim n (d @ [p]) = od_trim (n - 1) d @ [p]"
  by (simp add: od_trim_drop)

lemma map_of_None_keys: "map_of d k = None \<longleftrightarrow> k \<notin> fst ` set d"
  by (rule map_of_eq_None_iff)

text \<open>\<open>while d and d[0] < c: d.popleft()\<close> on a list in time order keeps what is not older than \<open>c\<close>.\<close>

lemma dropWhile_sorted_filter:
  "sorted (map f xs) \<Longrightarrow> dropWhile (\<lambda>x. f x < c) xs = filter (\<lambda>x. c \<le> f x) xs"
  for f :: "'a \<Rightarrow> 'b :: linorder"
proof (induction xs)
  case Nil
  then show ?case by simp
next
  case (Cons x xs)
  then show ?case
    by (cases "f x < c") (auto simp: filter_id_conv not_less intro!: filter_True [symmetric])
qed

lemma sorted_dropWhile_map: "sorted (map f xs) \<Longrightarrow> sorted (map f (dropWhile P xs))"
  by (metis dropWhile_eq_drop drop_map sorted_wrt_drop)

lemma od_wf_dropWhile [intro]: "od_wf d \<Longrightarrow> od_wf (dropWhile P d)"
  by (metis dropWhile_eq_drop drop_map distinct_drop od_wf_def)

section \<open>Contracts shared by the agents\<close>

text \<open>A state machine with a step for each input, and an invariant every step keeps.\<close>

locale invariant_steps =
  fixes step :: "'s \<Rightarrow> 'i \<Rightarrow> 's" and inv :: "'s \<Rightarrow> bool"
  assumes inv_step: "inv s \<Longrightarrow> inv (step s i)"
begin

lemma inv_run: "inv s \<Longrightarrow> inv (foldl step s is)"
  by (induction "is" arbitrary: s) (auto intro: inv_step)

end

text \<open>
  The ``bounded state'' doctrine stated in the module comments of the agents: a table with a
  size and a cap that no operation changes and no operation exceeds.
\<close>

locale bounded_table = invariant_steps +
  fixes size_of :: "'a \<Rightarrow> nat" and cap_of :: "'a \<Rightarrow> nat"
  assumes within: "inv s \<Longrightarrow> size_of s \<le> cap_of s"
    and cap_step: "cap_of (step s i) = cap_of s"
begin

lemma cap_run: "cap_of (foldl step s is) = cap_of s"
  by (induction "is" arbitrary: s) (auto simp: cap_step)

lemma bounded_run: "inv s \<Longrightarrow> size_of (foldl step s is) \<le> cap_of s"
  using within [OF inv_run] by (simp add: cap_run)

end

end
