(* ===== verification/Dedup.thy ===== *)
theory Dedup
  imports Prelude
begin

text \<open>
  The request-id deduper of \<open>swarm/sdk/dedup.py\<close>: its table, constructor and \<open>seen\<close>, the
  abstract sliding window it implements, and the refinement between the two.
\<close>

section \<open>The deduper\<close>

record deduper =
  dd_window_s :: real
  dd_max_keys :: nat
  dd_seen :: "(string, real) odict"

text \<open>\<open>RequestIdDeduper.__init__\<close>.\<close>

definition deduper_init :: "real \<Rightarrow> int \<Rightarrow> py_error + deduper" where
  "deduper_init window_s max_keys =
     (if window_s \<le> 0 then Inl ValueError
      else if max_keys \<le> 0 then Inl ValueError
      else Inr \<lparr>dd_window_s = window_s, dd_max_keys = nat max_keys, dd_seen = []\<rparr>)"

text \<open>\<open>RequestIdDeduper.seen\<close>; \<open>now\<close> is the reading of the injected clock.\<close>

definition dedup_seen :: "string \<Rightarrow> real \<Rightarrow> deduper \<Rightarrow> bool \<times> deduper" where
  "dedup_seen request_id now s =
     (if request_id = [] then (False, s)
      else
        let cutoff = now - dd_window_s s;
            aged = dropWhile (\<lambda>p. snd p < cutoff) (dd_seen s);
            fresh = (False, s\<lparr>dd_seen :=
              od_trim (dd_max_keys s) (od_touch request_id (od_set request_id now aged))\<rparr>)
        in case map_of aged request_id of
             Some ts \<Rightarrow> if cutoff \<le> ts then (True, s\<lparr>dd_seen := aged\<rparr>) else fresh
           | None \<Rightarrow> fresh)"

text \<open>\<open>RequestIdDeduper.size\<close>.\<close>

definition dedup_size :: "deduper \<Rightarrow> nat" where
  "dedup_size s = length (dd_seen s)"

fun dedup_run :: "deduper \<Rightarrow> (string \<times> real) list \<Rightarrow> bool list" where
  "dedup_run s [] = []"
| "dedup_run s ((r, t) # tr) = (let (b, s') = dedup_seen r t s in b # dedup_run s' tr)"

section \<open>Bounded state\<close>

definition dedup_inv :: "deduper \<Rightarrow> bool" where
  "dedup_inv s \<longleftrightarrow> od_wf (dd_seen s) \<and> length (dd_seen s) \<le> dd_max_keys s"

lemma dedup_init_inv: "deduper_init w m = Inr s \<Longrightarrow> dedup_inv s"
  by (auto simp: deduper_init_def dedup_inv_def split: if_splits)

lemma dedup_seen_inv: "dedup_inv s \<Longrightarrow> dedup_inv (snd (dedup_seen r t s))"
  using order.trans [OF length_dropWhile_le]
  by (auto simp: dedup_seen_def dedup_inv_def Let_def od_simps split: option.splits)

lemma dedup_seen_frame [simp]:
  "dd_window_s (snd (dedup_seen r t s)) = dd_window_s s"
  "dd_max_keys (snd (dedup_seen r t s)) = dd_max_keys s"
  by (auto simp: dedup_seen_def Let_def split: option.splits)

interpretation dedup_table: bounded_table
  "\<lambda>s i. snd (dedup_seen (fst i) (snd i) s)" dedup_inv dedup_size dd_max_keys
  by unfold_locales (simp_all add: dedup_seen_inv dedup_size_def, simp add: dedup_inv_def)

section \<open>The abstract sliding window\<close>

text \<open>
  What the deduper promises: a memory without a cap, that only forgets by age.
\<close>

definition window_seen ::
  "real \<Rightarrow> string \<Rightarrow> real \<Rightarrow> (string \<rightharpoonup> real) \<Rightarrow> bool \<times> (string \<rightharpoonup> real)" where
  "window_seen w r now m =
     (if r = [] then (False, m)
      else case m r of
             Some ts \<Rightarrow> if now - w \<le> ts then (True, m) else (False, m(r \<mapsto> now))
           | None \<Rightarrow> (False, m(r \<mapsto> now)))"

fun window_run :: "real \<Rightarrow> (string \<rightharpoonup> real) \<Rightarrow> (string \<times> real) list \<Rightarrow> bool list" where
  "window_run w m [] = []"
| "window_run w m ((r, t) # tr) = (let (b, m') = window_seen w r t m in b # window_run w m' tr)"

text \<open>
  The simulation, at time \<open>t\<close> and for the keys \<open>K\<close> used so far: the table holds, in time
  order, the entries of the memory that are still inside the window.
\<close>

definition dedup_sim :: "real \<Rightarrow> string set \<Rightarrow> deduper \<Rightarrow> (string \<rightharpoonup> real) \<Rightarrow> bool" where
  "dedup_sim t K s m \<longleftrightarrow>
     od_wf (dd_seen s) \<and> sorted (map snd (dd_seen s)) \<and> (\<forall>k ts. (k, ts) \<in> set (dd_seen s) \<longrightarrow> ts \<le> t)
     \<and> fst ` set (dd_seen s) \<subseteq> K
     \<and> (\<forall>k ts. (k, ts) \<in> set (dd_seen s) \<longrightarrow> m k = Some ts)
     \<and> (\<forall>k ts. m k = Some ts \<longrightarrow> t - dd_window_s s \<le> ts \<longrightarrow> (k, ts) \<in> set (dd_seen s))"

lemma dedup_sim_length:
  "dedup_sim t K s m \<Longrightarrow> finite K \<Longrightarrow> length (dd_seen s) \<le> card K"
  by (rule od_wf_length_card) (simp_all add: dedup_sim_def)

lemma dedup_simI:
  assumes "dd_seen s = d"
    and "od_wf d" "sorted (map snd d)" "\<And>k ts. (k, ts) \<in> set d \<Longrightarrow> ts \<le> t" "fst ` set d \<subseteq> K"
    and "\<And>k ts. (k, ts) \<in> set d \<Longrightarrow> m k = Some ts"
    and "\<And>k ts. m k = Some ts \<Longrightarrow> t - dd_window_s s \<le> ts \<Longrightarrow> (k, ts) \<in> set d"
  shows "dedup_sim t K s m"
  unfolding dedup_sim_def assms(1) using assms(2-) by blast

lemma dedup_simD:
  assumes "dedup_sim t K s m"
  shows "od_wf (dd_seen s)" "sorted (map snd (dd_seen s))" "fst ` set (dd_seen s) \<subseteq> K"
    "\<And>k ts. (k, ts) \<in> set (dd_seen s) \<Longrightarrow> ts \<le> t"
    "\<And>k ts. (k, ts) \<in> set (dd_seen s) \<Longrightarrow> m k = Some ts"
    "\<And>k ts. m k = Some ts \<Longrightarrow> t - dd_window_s s \<le> ts \<Longrightarrow> (k, ts) \<in> set (dd_seen s)"
  using assms unfolding dedup_sim_def by blast+

text \<open>Ageing out the head of the table keeps the simulation, at the later time.\<close>

lemma dedup_sim_age:
  assumes sim: "dedup_sim t K s m" and "t \<le> t'"
  defines "a \<equiv> dropWhile (\<lambda>p. snd p < t' - dd_window_s s) (dd_seen s)"
  shows "dedup_sim t' K (s\<lparr>dd_seen := a\<rparr>) m"
    and "(k, ts) \<in> set a \<Longrightarrow> t' - dd_window_s s \<le> ts"
proof -
  note D = dedup_simD [OF sim]
  have a: "a = filter (\<lambda>p. t' - dd_window_s s \<le> snd p) (dd_seen s)"
    unfolding a_def by (rule dropWhile_sorted_filter [OF D(2)])
  then show "(k, ts) \<in> set a \<Longrightarrow> t' - dd_window_s s \<le> ts" by simp
  show "dedup_sim t' K (s\<lparr>dd_seen := a\<rparr>) m"
  proof (rule dedup_simI [where d = a])
    show "dd_seen (s\<lparr>dd_seen := a\<rparr>) = a" by simp
    show "od_wf a" unfolding a_def using D(1) by (rule od_wf_dropWhile)
    show "sorted (map snd a)" unfolding a_def using D(2) by (rule sorted_dropWhile_map)
    show "fst ` set a \<subseteq> K" using D(3) by (auto simp: a)
    show "ts \<le> t'" if "(k, ts) \<in> set a" for k ts
      using that D(4) [of k ts] \<open>t \<le> t'\<close> by (simp add: a)
    show "m k = Some ts" if "(k, ts) \<in> set a" for k ts
      using that D(5) by (simp add: a)
    show "(k, ts) \<in> set a" if "m k = Some ts" "t' - dd_window_s (s\<lparr>dd_seen := a\<rparr>) \<le> ts" for k ts
      using that D(6) [of k ts] \<open>t \<le> t'\<close> by (simp add: a)
  qed
qed

lemma dedup_sim_snoc:
  assumes sim: "dedup_sim t K (s\<lparr>dd_seen := a\<rparr>) m" and "r \<notin> fst ` set a" "r \<in> K" "0 \<le> dd_window_s s"
  shows "dedup_sim t K (s\<lparr>dd_seen := a @ [(r, t)]\<rparr>) (m(r \<mapsto> t))"
proof -
  note D = dedup_simD [OF sim, simplified]
  have fresh: "(r, ts) \<notin> set a" for ts using assms(2) by force
  show ?thesis
  proof (rule dedup_simI [where d = "a @ [(r, t)]"])
    show "dd_seen (s\<lparr>dd_seen := a @ [(r, t)]\<rparr>) = a @ [(r, t)]" by simp
    show "od_wf (a @ [(r, t)])" using D(1) assms(2) by (rule od_wf_snoc)
    show "sorted (map snd (a @ [(r, t)]))" using D(2,4) by (auto simp: sorted_append)
    show "fst ` set (a @ [(r, t)]) \<subseteq> K" using D(3) assms(3) by auto
    show "ts \<le> t" if "(k, ts) \<in> set (a @ [(r, t)])" for k ts using that D(4) by auto
    show "(m(r \<mapsto> t)) k = Some ts" if "(k, ts) \<in> set (a @ [(r, t)])" for k ts
      using that D(5) fresh by auto
    show "(k, ts) \<in> set (a @ [(r, t)])"
      if "(m(r \<mapsto> t)) k = Some ts" "t - dd_window_s (s\<lparr>dd_seen := a @ [(r, t)]\<rparr>) \<le> ts" for k ts
      using that D(6) [of k ts] by (auto split: if_splits)
  qed
qed

lemma dedup_sim_step:
  assumes sim: "dedup_sim t K s m" and "t \<le> t'" and "r \<in> K" "finite K" "card K \<le> dd_max_keys s"
    and w: "0 \<le> dd_window_s s"
  shows "fst (dedup_seen r t' s) = fst (window_seen (dd_window_s s) r t' m)
    \<and> dedup_sim t' K (snd (dedup_seen r t' s)) (snd (window_seen (dd_window_s s) r t' m))"
proof -
  define a where "a = dropWhile (\<lambda>p. snd p < t' - dd_window_s s) (dd_seen s)"
  note sim_a = dedup_sim_age(1) [OF sim \<open>t \<le> t'\<close>, folded a_def]
  note young = dedup_sim_age(2) [OF sim \<open>t \<le> t'\<close>, folded a_def]
  note D = dedup_simD [OF sim_a, simplified]
  consider "r = []" | ts where "r \<noteq> []" "map_of a r = Some ts" | "r \<noteq> []" "map_of a r = None"
    by (cases "r = []"; cases "map_of a r") auto
  then show ?thesis
  proof cases
    case 1
    have "dedup_sim t' K s m"
    proof -
      note E = dedup_simD [OF sim]
      show ?thesis
      proof (rule dedup_simI [OF refl E(1,2) _ E(3,5)])
        show "ts \<le> t'" if "(k, ts) \<in> set (dd_seen s)" for k ts
          using E(4) [OF that] \<open>t \<le> t'\<close> by linarith
        show "(k, ts) \<in> set (dd_seen s)" if "m k = Some ts" "t' - dd_window_s s \<le> ts" for k ts
          using E(6) [OF that(1)] that(2) \<open>t \<le> t'\<close> by linarith
      qed
    qed
    with 1 show ?thesis by (simp add: dedup_seen_def window_seen_def)
  next
    case 2
    then have mem: "(r, ts) \<in> set a" by (simp add: map_of_SomeD)
    then have "m r = Some ts" "t' - dd_window_s s \<le> ts" using D(5) young by auto
    with 2 sim_a show ?thesis
      by (simp add: dedup_seen_def window_seen_def Let_def flip: a_def)
  next
    case 3
    then have fresh: "r \<notin> fst ` set a" by (simp add: map_of_None_keys)
    have "length (a @ [(r, t')]) \<le> card K"
      using dedup_sim_length [OF dedup_sim_snoc [OF sim_a fresh \<open>r \<in> K\<close> w] \<open>finite K\<close>] by simp
    with assms(5) have len: "length (a @ [(r, t')]) \<le> dd_max_keys s" by simp
    have res: "dedup_seen r t' s = (False, s\<lparr>dd_seen := a @ [(r, t')]\<rparr>)"
      using 3 fresh len by (simp add: dedup_seen_def Let_def flip: a_def) (simp add: od_simps)
    have "\<not> t' - dd_window_s s \<le> ts" if "m r = Some ts" for ts
      using D(6) [OF that] fresh by force
    then have "window_seen (dd_window_s s) r t' m = (False, m(r \<mapsto> t'))"
      using 3(1) by (auto simp: window_seen_def split: option.splits)
    with res dedup_sim_snoc [OF sim_a fresh \<open>r \<in> K\<close> w] show ?thesis by simp
  qed
qed

lemma dedup_run_refines:
  assumes "dedup_sim t K s m" and "sorted (t # map snd tr)" and "fst ` set tr \<subseteq> K"
    and "finite K" and "card K \<le> dd_max_keys s"
    and "0 \<le> dd_window_s s"
  shows "dedup_run s tr = window_run (dd_window_s s) m tr"
  using assms
proof (induction tr arbitrary: t s m)
  case Nil
  then show ?case by simp
next
  case (Cons p tr)
  obtain r t' where p: "p = (r, t')" by force
  let ?s = "snd (dedup_seen r t' s)" and ?m = "snd (window_seen (dd_window_s s) r t' m)"
  from dedup_sim_step [OF Cons.prems(1), of t' r] Cons.prems
  have "fst (dedup_seen r t' s) = fst (window_seen (dd_window_s s) r t' m)"
    and sim: "dedup_sim t' K ?s ?m" by (auto simp: p)
  moreover have "dedup_run ?s tr = window_run (dd_window_s s) ?m tr"
    using Cons.IH [OF sim] Cons.prems by (simp add: p)
  ultimately show ?case by (simp add: p case_prod_unfold Let_def)
qed

text \<open>
  The deduper is the sliding window it promises. Under a clock that does not run backwards
  and with no more distinct request ids than the table may hold, the answers of any sequence
  of \<open>seen\<close> calls are those of an unbounded memory that forgets by age only: the cap never
  costs a duplicate.
\<close>

lemma dedup_refines_window:
  assumes "deduper_init w m = Inr s" and "sorted (map snd tr)"
    and "card (fst ` set tr) \<le> nat m"
  shows "dedup_run s tr = window_run w Map.empty tr"
proof (cases tr)
  case Nil
  then show ?thesis by simp
next
  case (Cons p tr')
  from assms(1) have s: "dd_seen s = []" "dd_max_keys s = nat m" "dd_window_s s = w" "0 \<le> w"
    by (auto simp: deduper_init_def split: if_splits)
  have "dedup_sim (snd p) (fst ` set tr) s Map.empty"
    by (simp add: dedup_sim_def s)
  moreover have "sorted (snd p # map snd tr)" using assms(2) by (simp add: Cons)
  ultimately show ?thesis
    using dedup_run_refines assms(3) s by (metis List.finite_set finite_imageI order_refl)
qed

text \<open>
  The table never holds more than \<open>max_keys\<close> ids, whatever ids arrive and even if the clock
  runs backwards.
\<close>

lemma dedup_bounded:
  assumes "deduper_init w m = Inr s"
  shows "dedup_size (foldl (\<lambda>s i. snd (dedup_seen (fst i) (snd i) s)) s tr) \<le> nat m"
  using dedup_table.bounded_run [OF dedup_init_inv [OF assms], of tr] assms
  by (auto simp: deduper_init_def split: if_splits)

end
