(* ===== verification/Debounce.thy ===== *)
theory Debounce
  imports Prelude
begin

text \<open>
  The alert debouncer of \<open>swarm/sdk/_alert_debouncer.py\<close> (\<open>SecAlertDebouncer\<close> inherits it
  unchanged): its decision, its bounded table of buckets, and the tally it keeps of what it
  suppresses.
\<close>

record decision =
  dc_emit :: bool
  dc_reason :: string
  dc_suppressed :: int

type_synonym bucket_key = "string \<times> string"

record debouncer =
  db_ttl_s :: real
  db_critical_bypass :: bool
  db_max_buckets :: nat
  db_buckets :: "(bucket_key, real \<times> int) odict"

text \<open>\<open>_BaseAlertDebouncer.__init__\<close>.\<close>

definition debouncer_init :: "int \<Rightarrow> bool \<Rightarrow> int \<Rightarrow> py_error + debouncer" where
  "debouncer_init ttl_s critical_bypass max_buckets =
     (if max_buckets < 1 then Inl ValueError
      else if ttl_s < 0 then Inl ValueError
      else Inr \<lparr>db_ttl_s = real_of_int ttl_s, db_critical_bypass = critical_bypass,
                db_max_buckets = nat max_buckets, db_buckets = []\<rparr>)"

text \<open>\<open>_evict_overflow_locked\<close>.\<close>

definition evict_overflow :: "debouncer \<Rightarrow> debouncer" where
  "evict_overflow s = s\<lparr>db_buckets := od_trim (db_max_buckets s) (db_buckets s)\<rparr>"

text \<open>\<open>(str(kind), str(subject or ""))\<close>.\<close>

definition bucket_key :: "string \<Rightarrow> string option \<Rightarrow> bucket_key" where
  "bucket_key kind subject = (kind, case subject of None \<Rightarrow> [] | Some s \<Rightarrow> s)"

text \<open>\<open>decide\<close>; \<open>now\<close> is the reading of the clock.\<close>

definition decide ::
  "string \<Rightarrow> string option \<Rightarrow> string \<Rightarrow> string \<Rightarrow> real \<Rightarrow> debouncer \<Rightarrow> decision \<times> debouncer" where
  "decide kind subject severity reason now s =
     (if severity = ''critical'' \<and> db_critical_bypass s
      then (\<lparr>dc_emit = True, dc_reason = reason, dc_suppressed = 0\<rparr>, s)
      else if db_ttl_s s = 0
      then (\<lparr>dc_emit = True, dc_reason = reason, dc_suppressed = 0\<rparr>, s)
      else
        let key = bucket_key kind subject in
        case map_of (db_buckets s) key of
          None \<Rightarrow>
            (\<lparr>dc_emit = True, dc_reason = reason, dc_suppressed = 0\<rparr>,
             evict_overflow (s\<lparr>db_buckets := od_set key (now, 0) (db_buckets s)\<rparr>))
        | Some (last_emit, suppressed) \<Rightarrow>
            if db_ttl_s s \<le> now - last_emit
            then
              (\<lparr>dc_emit = True,
                dc_reason = (if 0 < suppressed
                  then reason @ '' (suppressed: '' @ show_int suppressed @ '')'' else reason),
                dc_suppressed = suppressed\<rparr>,
               s\<lparr>db_buckets := od_touch key (od_set key (now, 0) (db_buckets s))\<rparr>)
            else
              (\<lparr>dc_emit = False, dc_reason = reason, dc_suppressed = suppressed + 1\<rparr>,
               s\<lparr>db_buckets := od_touch key (od_set key (last_emit, suppressed + 1) (db_buckets s))\<rparr>))"

text \<open>\<open>reset\<close> and \<open>__len__\<close>.\<close>

definition debouncer_reset :: "debouncer \<Rightarrow> debouncer" where
  "debouncer_reset s = s\<lparr>db_buckets := []\<rparr>"

definition debouncer_len :: "debouncer \<Rightarrow> nat" where
  "debouncer_len s = length (db_buckets s)"

section \<open>Bounded state\<close>

definition debouncer_inv :: "debouncer \<Rightarrow> bool" where
  "debouncer_inv s \<longleftrightarrow> od_wf (db_buckets s) \<and> length (db_buckets s) \<le> db_max_buckets s"

record alert_call =
  ac_kind :: string
  ac_subject :: "string option"
  ac_severity :: string
  ac_reason :: string
  ac_now :: real

definition decide_call :: "alert_call \<Rightarrow> debouncer \<Rightarrow> decision \<times> debouncer" where
  "decide_call c = decide (ac_kind c) (ac_subject c) (ac_severity c) (ac_reason c) (ac_now c)"

definition call_key :: "alert_call \<Rightarrow> bucket_key" where
  "call_key c = bucket_key (ac_kind c) (ac_subject c)"

lemma decide_frame [simp]:
  "db_ttl_s (snd (decide k su sv r t s)) = db_ttl_s s"
  "db_critical_bypass (snd (decide k su sv r t s)) = db_critical_bypass s"
  "db_max_buckets (snd (decide k su sv r t s)) = db_max_buckets s"
  by (auto simp: decide_def evict_overflow_def Let_def split: option.splits)

lemma decide_inv: "debouncer_inv s \<Longrightarrow> debouncer_inv (snd (decide k su sv r t s))"
  by (auto simp: decide_def evict_overflow_def debouncer_inv_def Let_def od_simps
      split: option.splits)

interpretation debounce_table: bounded_table
  "\<lambda>s c. snd (decide_call c s)" debouncer_inv debouncer_len db_max_buckets
  by unfold_locales (simp_all add: decide_call_def decide_inv debouncer_len_def, simp add: debouncer_inv_def)

section \<open>The suppression tally\<close>

text \<open>A call that goes through the gate (no critical bypass).\<close>

definition gated :: "debouncer \<Rightarrow> alert_call \<Rightarrow> bool" where
  "gated s c \<longleftrightarrow> \<not> (ac_severity c = ''critical'' \<and> db_critical_bypass s)"

text \<open>The keys in play fit in the table, so nothing is evicted.\<close>

definition db_room :: "bucket_key set \<Rightarrow> debouncer \<Rightarrow> bool" where
  "db_room K s \<longleftrightarrow> od_wf (db_buckets s) \<and> fst ` set (db_buckets s) \<subseteq> K \<and> finite K \<and> card K \<le> db_max_buckets s"

text \<open>The life of one bucket, \<open>(last emission, suppressed since)\<close>, as a function of the gated calls.\<close>

definition bucket_step :: "real \<Rightarrow> real \<Rightarrow> (real \<times> int) option \<Rightarrow> (bool \<times> int) \<times> (real \<times> int)" where
  "bucket_step ttl now b = (case b of
     None \<Rightarrow> ((True, 0), (now, 0))
   | Some (t0, n) \<Rightarrow> if ttl \<le> now - t0 then ((True, n), (now, 0)) else ((False, n + 1), (t0, n + 1)))"

lemma decide_call_gated:
  assumes "db_room K s" "call_key c \<in> K" "gated s c" "db_ttl_s s \<noteq> 0"
  shows "(let (d, s') = decide_call c s; (r, b) = bucket_step (db_ttl_s s) (ac_now c) (map_of (db_buckets s) (call_key c))
     in (dc_emit d, dc_suppressed d) = r \<and> map_of (db_buckets s') = (map_of (db_buckets s))(call_key c \<mapsto> b)
        \<and> db_room K s')"
proof -
  let ?d = "od_set (call_key c) (ac_now c, 0) (db_buckets s)"
  have "od_wf ?d" "fst ` set ?d \<subseteq> K"
    using assms by (auto simp: db_room_def od_simps)
  then have len: "length ?d \<le> db_max_buckets s"
    using od_wf_length_card [of ?d K] assms(1) by (simp add: db_room_def)
  show ?thesis
  proof (cases "map_of (db_buckets s) (call_key c)")
    case None
    with assms len \<open>od_wf ?d\<close> \<open>fst ` set ?d \<subseteq> K\<close> show ?thesis
      by (auto simp: decide_call_def decide_def bucket_step_def call_key_def gated_def db_room_def
          evict_overflow_def Let_def od_trim_id map_of_od_set)
  next
    case (Some b)
    obtain t0 n where b: "b = (t0, n)" by force
    show ?thesis
      using assms Some unfolding b
      by (auto simp: decide_call_def decide_def bucket_step_def call_key_def gated_def db_room_def
          Let_def map_of_od_set map_of_od_touch fst_set_od_touch fst_set_od_set)
  qed
qed

lemma decide_call_bypass:
  assumes "\<not> gated s c"
  shows "decide_call c s = (\<lparr>dc_emit = True, dc_reason = ac_reason c, dc_suppressed = 0\<rparr>, s)"
  using assms by (auto simp: decide_call_def decide_def gated_def)

fun decide_run :: "debouncer \<Rightarrow> alert_call list \<Rightarrow> decision list \<times> debouncer" where
  "decide_run s [] = ([], s)"
| "decide_run s (c # cs) =
     (let (d, s1) = decide_call c s; (ds, s2) = decide_run s1 cs in (d # ds, s2))"

definition tally :: "debouncer \<Rightarrow> bucket_key \<Rightarrow> alert_call list \<Rightarrow> int" where
  "tally s k cs = int (length (filter (\<lambda>c. call_key c = k \<and> gated s c) cs))"

lemma tally_nonneg [simp]: "0 \<le> tally s k cs"
  by (simp add: tally_def)

text \<open>
  While a bucket is open every gated call on its key is suppressed and counted, whatever the
  other keys do in between.
\<close>

lemma open_bucket_run:
  assumes "db_room K s" "call_key ` set cs \<subseteq> K" "0 < db_ttl_s s"
    and "map_of (db_buckets s) k = Some (t0, n)"
    and "\<forall>c \<in> set cs. call_key c = k \<longrightarrow> gated s c \<longrightarrow> ac_now c - t0 < db_ttl_s s"
  shows "map_of (db_buckets (snd (decide_run s cs))) k = Some (t0, n + tally s k cs)
    \<and> db_room K (snd (decide_run s cs)) \<and> db_ttl_s (snd (decide_run s cs)) = db_ttl_s s
    \<and> db_critical_bypass (snd (decide_run s cs)) = db_critical_bypass s
    \<and> (\<forall>i < length cs. call_key (cs ! i) = k \<longrightarrow> gated s (cs ! i) \<longrightarrow> \<not> dc_emit (fst (decide_run s cs) ! i))"
  using assms
proof (induction cs arbitrary: s n)
  case Nil
  then show ?case by (simp add: tally_def)
next
  case (Cons c cs)
  obtain d s1 where step: "decide_call c s = (d, s1)" by force
  have frame: "db_ttl_s s1 = db_ttl_s s" "db_critical_bypass s1 = db_critical_bypass s"
    using decide_frame(1,2) step unfolding decide_call_def by (metis snd_conv)+
  then have same: "gated s1 = gated s" by (simp add: gated_def fun_eq_iff)
  define hit where "hit \<longleftrightarrow> call_key c = k \<and> gated s c"
  have room1: "db_room K s1" and look1: "map_of (db_buckets s1) k = Some (t0, if hit then n + 1 else n)"
    and quiet: "hit \<Longrightarrow> \<not> dc_emit d"
  proof -
    consider "\<not> gated s c" | "gated s c" by blast
    then have "db_room K s1 \<and> map_of (db_buckets s1) k = Some (t0, if hit then n + 1 else n) \<and> (hit \<longrightarrow> \<not> dc_emit d)"
    proof cases
      case 1
      with decide_call_bypass [OF 1] step Cons.prems(1,4) show ?thesis by (simp add: hit_def)
    next
      case 2
      have "call_key c \<in> K" "db_ttl_s s \<noteq> 0" using Cons.prems(2,3) by auto
      from decide_call_gated [OF Cons.prems(1) this(1) 2 this(2)] step Cons.prems(4,5) 2
      show ?thesis
        by (auto simp: bucket_step_def hit_def Let_def split: prod.splits if_splits)
    qed
    then show "db_room K s1" "map_of (db_buckets s1) k = Some (t0, if hit then n + 1 else n)"
      "hit \<Longrightarrow> \<not> dc_emit d" by auto
  qed
  note IH = Cons.IH [OF room1 _ _ look1, unfolded same frame]
  have tl: "tally s1 k cs = tally s k cs" by (simp add: tally_def same)
  have "n + tally s k (c # cs) = (if hit then n + 1 else n) + tally s k cs"
    by (simp add: tally_def hit_def)
  with IH Cons.prems quiet show ?case
    by (auto simp: step case_prod_unfold Let_def tl hit_def nth_Cons split: nat.splits)
qed

text \<open>
  A debounced alert is never lost silently. From an emission at \<open>t0\<close>, every further
  gated call on the same key within the TTL is suppressed, and the first one after the TTL is
  emitted carrying exactly the number of calls suppressed in between, provided the keys in
  play fit in the table.
\<close>

lemma debounce_tally_exact:
  assumes room: "db_room K s" "call_key ` set cs \<subseteq> K" "call_key c \<in> K" "0 < db_ttl_s s"
    and opened: "map_of (db_buckets s) (call_key c) = Some (t0, 0)"
    and inside: "\<forall>x \<in> set cs. call_key x = call_key c \<longrightarrow> gated s x \<longrightarrow> ac_now x - t0 < db_ttl_s s"
    and later: "gated s c" "db_ttl_s s \<le> ac_now c - t0"
  shows "fst (decide_call c (snd (decide_run s cs))) =
      \<lparr>dc_emit = True,
       dc_reason = (if 0 < tally s (call_key c) cs
         then ac_reason c @ '' (suppressed: '' @ show_int (tally s (call_key c) cs) @ '')''
         else ac_reason c),
       dc_suppressed = tally s (call_key c) cs\<rparr>"
proof -
  from open_bucket_run [OF room(1,2,4) opened inside]
  show ?thesis
    using later room(4) tally_nonneg [of s "call_key c" cs]
    by (auto simp: decide_call_def decide_def gated_def Let_def simp flip: call_key_def)
qed

end
