(* ===== verification/Ledger.thy ===== *)
theory Ledger
  imports Prelude
begin

text \<open>
  The idempotency ledger of \<open>swarm/agents/reactor.py\<close>: the contract the \<open>Ledger\<close> protocol
  promises to its clients (the reactors and the consensus agent), the bounded
  \<open>InMemoryLedger\<close> that provides it, and what a client that asks before it acts gets from it.
\<close>

type_synonym ledger_key = "string \<times> string"

section \<open>The contract\<close>

text \<open>
  \<open>room\<close> counts the keys a ledger can still take without forgetting one; a ledger never
  forgets before it has run out of room.
\<close>

locale ledger =
  fixes seen :: "'l \<Rightarrow> 'k \<Rightarrow> bool" and mark :: "'l \<Rightarrow> 'k \<Rightarrow> 'l"
    and room :: "'l \<Rightarrow> nat" and ok :: "'l \<Rightarrow> bool"
  assumes ok_mark: "ok l \<Longrightarrow> ok (mark l k)"
    and seen_mark: "ok l \<Longrightarrow> seen (mark l k) k"
    and seen_keep: "ok l \<Longrightarrow> 0 < room l \<Longrightarrow> seen l j \<Longrightarrow> seen (mark l k) j"
    and seen_only: "ok l \<Longrightarrow> seen (mark l k) j \<Longrightarrow> j = k \<or> seen l j"
    and room_mark: "ok l \<Longrightarrow> room l \<le> Suc (room (mark l k))"
begin

lemma seen_marks_keep:
  "ok l \<Longrightarrow> length ks \<le> room l \<Longrightarrow> seen l j \<Longrightarrow> seen (foldl mark l ks) j"
proof (induction ks arbitrary: l)
  case Nil
  then show ?case by simp
next
  case (Cons k ks)
  from Cons.prems room_mark [of l k] have "length ks \<le> room (mark l k)" by simp
  with Cons show ?case by (auto intro!: Cons.IH ok_mark seen_keep)
qed

text \<open>Once marked, a key stays seen through as many further marks as there was room for.\<close>

lemma seen_after_mark:
  "ok l \<Longrightarrow> length ks \<le> room (mark l k) \<Longrightarrow> seen (foldl mark (mark l k) ks) k"
  by (rule seen_marks_keep) (auto intro: ok_mark seen_mark)

end

section \<open>Clients that ask before they act\<close>

text \<open>
  \<open>claims l ks l'\<close>: starting from ledger \<open>l\<close>, a client found each key of \<open>ks\<close> unseen when it came
  to it, marked it, and left the ledger \<open>l'\<close>.
\<close>

fun claims :: "('l \<Rightarrow> 'k \<Rightarrow> bool) \<Rightarrow> ('l \<Rightarrow> 'k \<Rightarrow> 'l) \<Rightarrow> 'l \<Rightarrow> 'k list \<Rightarrow> 'l \<Rightarrow> bool" where
  "claims seen mark l [] l' = (l' = l)"
| "claims seen mark l (k # ks) l' = (\<not> seen l k \<and> claims seen mark (mark l k) ks l')"

lemma claims_append:
  "claims seen mark l (ks @ js) l' \<longleftrightarrow> (\<exists>m. claims seen mark l ks m \<and> claims seen mark m js l')"
  by (induction ks arbitrary: l) auto

text \<open>Runs of an agent: outputs in order, and the state it ends in.\<close>

fun run_agent :: "('s \<Rightarrow> 'i \<Rightarrow> 'm list \<times> 's) \<Rightarrow> 's \<Rightarrow> 'i list \<Rightarrow> 'm list \<times> 's" where
  "run_agent step s [] = ([], s)"
| "run_agent step s (i # is) =
     (let (out, s1) = step s i; (outs, s2) = run_agent step s1 is in (out @ outs, s2))"

text \<open>
  An agent whose every decisive message carries a key it has just claimed decides each key at
  most once, as long as the ledger has room for the decisions taken.
\<close>

locale single_publication = ledger +
  fixes step :: "'s \<Rightarrow> 'i \<Rightarrow> 'm list \<times> 's" and led :: "'s \<Rightarrow> 'a"
    and decided :: "'m \<Rightarrow> 'b option" and inv :: "'s \<Rightarrow> bool"
  assumes step_claims: "inv s \<Longrightarrow> step s i = (out, s') \<Longrightarrow>
      claims seen mark (led s) (List.map_filter decided out) (led s') \<and> inv s'"
begin

lemma claims_distinct:
  "claims seen mark l ks l' \<Longrightarrow> ok l \<Longrightarrow> length ks \<le> room l \<Longrightarrow>
    distinct ks \<and> (\<forall>k \<in> set ks. \<not> seen l k)"
proof (induction ks arbitrary: l)
  case Nil
  then show ?case by simp
next
  case (Cons k ks)
  from Cons.prems room_mark [of l k] have "length ks \<le> room (mark l k)" by simp
  with Cons ok_mark have "distinct ks" and new: "\<forall>j \<in> set ks. \<not> seen (mark l k) j" by auto
  moreover have "k \<notin> set ks" using new seen_mark Cons.prems(2) by blast
  moreover have "\<not> seen l j" if "j \<in> set ks" for j
    using new that seen_keep [of l j k] Cons.prems by auto
  ultimately show ?case using Cons.prems by auto
qed

lemma run_claims:
  "inv s \<Longrightarrow> run_agent step s is = (outs, s') \<Longrightarrow>
    claims seen mark (led s) (List.map_filter decided outs) (led s') \<and> inv s'"
proof (induction "is" arbitrary: s outs)
  case Nil
  then show ?case by (auto simp: map_filter_def)
next
  case (Cons i "is")
  obtain out s1 where 1: "step s i = (out, s1)" by force
  obtain outs' where 2: "run_agent step s1 is = (outs', s')" and outs: "outs = out @ outs'"
    using Cons.prems 1 by (auto split: prod.splits)
  from step_claims [OF Cons.prems(1) 1] Cons.IH [OF _ 2] show ?case
    by (auto simp: outs map_filter_def claims_append)
qed

lemma decides_once:
  assumes "inv s" "ok (led s)" "run_agent step s is = (outs, s')"
    and "length (List.map_filter decided outs) \<le> room (led s)"
  shows "distinct (List.map_filter decided outs)"
  using claims_distinct run_claims assms by blast

lemma decides_only_unseen:
  assumes "inv s" "ok (led s)" "run_agent step s is = (outs, s')"
    and "length (List.map_filter decided outs) \<le> room (led s)" "seen (led s) k"
  shows "k \<notin> set (List.map_filter decided outs)"
  using claims_distinct run_claims assms by blast

end

section \<open>The in-memory ledger\<close>

record mem_ledger =
  ml_max_size :: nat
  ml_seen :: "(ledger_key, unit) odict"

text \<open>\<open>InMemoryLedger.__init__\<close>, \<open>already_processed\<close> and \<open>mark_processed\<close>.\<close>

definition mem_ledger_init :: "int \<Rightarrow> py_error + mem_ledger" where
  "mem_ledger_init max_size =
     (if max_size < 1 then Inl ValueError
      else Inr \<lparr>ml_max_size = nat max_size, ml_seen = []\<rparr>)"

definition already_processed :: "mem_ledger \<Rightarrow> ledger_key \<Rightarrow> bool" where
  "already_processed l k \<longleftrightarrow> map_of (ml_seen l) k \<noteq> None"

definition mark_processed :: "mem_ledger \<Rightarrow> ledger_key \<Rightarrow> mem_ledger" where
  "mark_processed l k =
     (if already_processed l k then l\<lparr>ml_seen := od_touch k (ml_seen l)\<rparr>
      else l\<lparr>ml_seen := od_trim (ml_max_size l) (od_set k () (ml_seen l))\<rparr>)"

definition ledger_room :: "mem_ledger \<Rightarrow> nat" where
  "ledger_room l = ml_max_size l - length (ml_seen l)"

definition ledger_ok :: "mem_ledger \<Rightarrow> bool" where
  "ledger_ok l \<longleftrightarrow> od_wf (ml_seen l) \<and> length (ml_seen l) \<le> ml_max_size l \<and> 0 < ml_max_size l"

lemma ledger_ok_init: "mem_ledger_init n = Inr l \<Longrightarrow> ledger_ok l \<and> ledger_room l = nat n"
  by (auto simp: mem_ledger_init_def ledger_ok_def ledger_room_def split: if_splits)

lemma already_processed_set: "already_processed l k \<longleftrightarrow> k \<in> fst ` set (ml_seen l)"
  by (simp add: already_processed_def map_of_None_keys)

lemma ml_max_size_mark [simp]: "ml_max_size (mark_processed l k) = ml_max_size l"
  by (simp add: mark_processed_def)

lemma ledger_ok_mark: "ledger_ok l \<Longrightarrow> ledger_ok (mark_processed l k)"
  by (auto simp: ledger_ok_def mark_processed_def already_processed_set od_simps)

lemma mark_fresh_eq:
  "ledger_ok l \<Longrightarrow> \<not> already_processed l k \<Longrightarrow>
    ml_seen (mark_processed l k) = od_trim (ml_max_size l - 1) (ml_seen l) @ [(k, ())]"
  by (simp add: mark_processed_def already_processed_set od_set_fresh od_trim_snoc ledger_ok_def)

lemma mark_seen_eq:
  "already_processed l k \<Longrightarrow> already_processed (mark_processed l k) j \<longleftrightarrow> already_processed l j"
  by (simp add: mark_processed_def already_processed_set fst_set_od_touch)

lemma mark_length_seen:
  "ledger_ok l \<Longrightarrow> already_processed l k \<Longrightarrow> length (ml_seen (mark_processed l k)) = length (ml_seen l)"
  by (simp add: mark_processed_def length_od_touch ledger_ok_def)

interpretation mem: ledger already_processed mark_processed ledger_room ledger_ok
proof
  show "ledger_ok (mark_processed l k)" if "ledger_ok l" for l k
    using that by (rule ledger_ok_mark)
  show "already_processed (mark_processed l k) k" if "ledger_ok l" for l k
    using that
    by (cases "already_processed l k")
      (simp add: mark_seen_eq, simp add: mark_fresh_eq already_processed_set [of "mark_processed l k"])
  show "already_processed (mark_processed l k) j"
    if "ledger_ok l" "0 < ledger_room l" "already_processed l j" for l j k
  proof (cases "already_processed l k")
    case True
    with that show ?thesis by (simp add: mark_seen_eq)
  next
    case False
    from that(2) have "length (ml_seen l) \<le> ml_max_size l - 1" by (simp add: ledger_room_def)
    with False that show ?thesis
      by (simp add: mark_fresh_eq od_trim_id already_processed_set [of "mark_processed l k"])
        (simp add: already_processed_set)
  qed
  show "j = k \<or> already_processed l j"
    if "ledger_ok l" "already_processed (mark_processed l k) j" for l j k
  proof (cases "already_processed l k")
    case True
    with that show ?thesis by (simp add: mark_seen_eq)
  next
    case False
    with that have "j \<in> insert k (fst ` set (od_trim (ml_max_size l - 1) (ml_seen l)))"
      by (simp add: mark_fresh_eq already_processed_set [of "mark_processed l k"])
    then show ?thesis
      using set_od_trim_subset [of "ml_max_size l - 1" "ml_seen l"] by (auto simp: already_processed_set)
  qed
  show "ledger_room l \<le> Suc (ledger_room (mark_processed l k))" if "ledger_ok l" for l k
  proof (cases "already_processed l k")
    case True
    with that show ?thesis by (simp add: ledger_room_def mark_length_seen)
  next
    case False
    with that show ?thesis
      by (simp add: ledger_room_def mark_fresh_eq length_od_trim ledger_ok_def)
  qed
qed

interpretation ledger_table: bounded_table mark_processed ledger_ok "\<lambda>l. length (ml_seen l)" ml_max_size
  by unfold_locales (simp_all add: ledger_ok_mark, simp add: ledger_ok_def)

text \<open>
  A ledger entry survives as many later entries as the cap leaves room for: a key marked in
  a fresh ledger of size \<open>n\<close> is still recognised after any \<open>n - 1\<close> further marks.
\<close>

lemma ledger_remembers:
  assumes "mem_ledger_init n = Inr l" and "length ks < nat n"
  shows "already_processed (foldl mark_processed (mark_processed l k) ks) k"
proof (rule mem.seen_after_mark)
  show "ledger_ok l" using ledger_ok_init [OF assms(1)] by simp
  then show "length ks \<le> ledger_room (mark_processed l k)"
    using mem.room_mark [of l k] ledger_ok_init [OF assms(1)] assms(2) by simp
qed

end
