(* ===== verification/Json.thy ===== *)
theory Json
  imports Prelude
begin

text \<open>
  Message payloads. On the bus a payload is a \<open>dict[str, Any]\<close> of JSON values; the payload
  classes of \<open>swarm/agents/payloads.py\<close> read it with \<open>data["k"]\<close>, \<open>data.get("k", v)\<close>, \<open>str\<close>,
  \<open>int\<close>, \<open>float\<close>, \<open>bool\<close> and \<open>dict\<close>. Those built-ins are modelled on the JSON constructors;
  what they do to texts of numbers, and how floats and containers print, is a parameter (\<open>pylib\<close>).
\<close>

datatype jval =
    JNull
  | JBool bool
  | JInt int
  | JFloat real
  | JStr string
  | JArr "jval list"
  | JObj "(string \<times> jval) list"

type_synonym jobj = "(string \<times> jval) list"

type_synonym 'a res = "py_error + 'a"

section \<open>Exceptions\<close>

definition res_bind :: "'a res \<Rightarrow> ('a \<Rightarrow> 'b res) \<Rightarrow> 'b res" where
  "res_bind m f = (case m of Inl e \<Rightarrow> Inl e | Inr a \<Rightarrow> f a)"

definition require :: "bool \<Rightarrow> 'a res \<Rightarrow> 'a res" where
  "require b m = (if b then m else Inl ValueError)"

fun res_map :: "('a \<Rightarrow> 'b res) \<Rightarrow> 'a list \<Rightarrow> 'b list res" where
  "res_map f [] = Inr []"
| "res_map f (x # xs) = res_bind (f x) (\<lambda>y. res_bind (res_map f xs) (\<lambda>ys. Inr (y # ys)))"

lemma res_bind_simps [simp]: "res_bind (Inr a) f = f a" "res_bind (Inl e) f = Inl e"
  by (simp_all add: res_bind_def)

lemma res_bind_Inr_iff: "res_bind m f = Inr b \<longleftrightarrow> (\<exists>a. m = Inr a \<and> f a = Inr b)"
  by (auto simp: res_bind_def split: sum.splits)

lemma require_Inr_iff: "require b m = Inr a \<longleftrightarrow> b \<and> m = Inr a"
  by (simp add: require_def)

lemma require_True [simp]: "b \<Longrightarrow> require b m = m"
  by (simp add: require_def)

lemmas res_iffs = res_bind_Inr_iff require_Inr_iff

lemma res_map_Inr [simp]: "(\<And>x. x \<in> set xs \<Longrightarrow> f x = Inr (g x)) \<Longrightarrow> res_map f xs = Inr (map g xs)"
  by (induction xs) auto

lemma res_map_length: "res_map f xs = Inr ys \<Longrightarrow> length ys = length xs"
  by (induction xs arbitrary: ys) (auto simp: res_iffs)

lemma res_map_nth: "res_map f xs = Inr ys \<Longrightarrow> i < length xs \<Longrightarrow> f (xs ! i) = Inr (ys ! i)"
  by (induction xs arbitrary: ys i) (auto simp: res_iffs nth_Cons split: nat.splits)

section \<open>Python built-ins on JSON values\<close>

record pylib =
  pl_repr :: "jval \<Rightarrow> string"
  pl_int :: "string \<Rightarrow> int option"
  pl_float :: "string \<Rightarrow> real option"
  pl_dict :: "jval \<Rightarrow> jobj res"

definition truncate :: "real \<Rightarrow> int" where
  "truncate r = (if r < 0 then \<lceil>r\<rceil> else \<lfloor>r\<rfloor>)"

fun py_str :: "pylib \<Rightarrow> jval \<Rightarrow> string" where
  "py_str L JNull = ''None''"
| "py_str L (JBool b) = (if b then ''True'' else ''False'')"
| "py_str L (JInt i) = show_int i"
| "py_str L (JStr s) = s"
| "py_str L j = pl_repr L j"

fun py_int :: "pylib \<Rightarrow> jval \<Rightarrow> int res" where
  "py_int L (JInt i) = Inr i"
| "py_int L (JBool b) = Inr (if b then 1 else 0)"
| "py_int L (JFloat r) = Inr (truncate r)"
| "py_int L (JStr s) = (case pl_int L s of None \<Rightarrow> Inl ValueError | Some i \<Rightarrow> Inr i)"
| "py_int L j = Inl TypeError"

text \<open>\<open>float(v)\<close>: an integer that rounds beyond the largest double raises.\<close>

fun py_float :: "pylib \<Rightarrow> jval \<Rightarrow> real res" where
  "py_float L (JInt i) = (if 2 ^ 1024 - 2 ^ 970 \<le> \<bar>i\<bar> then Inl OverflowError else Inr (real_of_int i))"
| "py_float L (JBool b) = Inr (if b then 1 else 0)"
| "py_float L (JFloat r) = Inr r"
| "py_float L (JStr s) = (case pl_float L s of None \<Rightarrow> Inl ValueError | Some r \<Rightarrow> Inr r)"
| "py_float L j = Inl TypeError"

text \<open>\<open>float(v)\<close> under a handler for \<open>TypeError\<close> and \<open>ValueError\<close>: no number, unless the error is another one.\<close>

definition float_caught :: "pylib \<Rightarrow> jval \<Rightarrow> real option res" where
  "float_caught L j =
     (case py_float L j of
        Inl e \<Rightarrow> (if e \<in> {TypeError, ValueError} then Inr None else Inl e)
      | Inr x \<Rightarrow> Inr (Some x))"

lemma float_caught_JFloat [simp]: "float_caught L (JFloat x) = Inr (Some x)"
  by (simp add: float_caught_def)

lemma float_caught_Some: "float_caught L j = Inr (Some x) \<longleftrightarrow> py_float L j = Inr x"
  by (auto simp: float_caught_def split: sum.splits)

lemma float_caught_Inl: "float_caught L j = Inl e \<longleftrightarrow> py_float L j = Inl e \<and> e = OverflowError"
  by (cases j) (auto simp: float_caught_def split: option.splits)

fun py_bool :: "jval \<Rightarrow> bool" where
  "py_bool JNull = False"
| "py_bool (JBool b) = b"
| "py_bool (JInt i) = (i \<noteq> 0)"
| "py_bool (JFloat r) = (r \<noteq> 0)"
| "py_bool (JStr s) = (s \<noteq> [])"
| "py_bool (JArr js) = (js \<noteq> [])"
| "py_bool (JObj d) = (d \<noteq> [])"

text \<open>\<open>dict(v)\<close>: a copy of a dict; a list or a text is a library matter, a scalar is not iterable.\<close>

fun py_dict :: "pylib \<Rightarrow> jval \<Rightarrow> jobj res" where
  "py_dict L (JObj d) = Inr d"
| "py_dict L (JArr js) = (if js = [] then Inr [] else pl_dict L (JArr js))"
| "py_dict L (JStr s) = (if s = [] then Inr [] else pl_dict L (JStr s))"
| "py_dict L j = Inl TypeError"

text \<open>\<open>for x in v\<close>.\<close>

fun py_iter :: "jval \<Rightarrow> jval list res" where
  "py_iter (JArr js) = Inr js"
| "py_iter (JStr s) = Inr (map (\<lambda>c. JStr [c]) s)"
| "py_iter (JObj d) = Inr (map (\<lambda>p. JStr (fst p)) d)"
| "py_iter j = Inl TypeError"

text \<open>A value can be a dictionary key unless it is a container.\<close>

fun hashable :: "jval \<Rightarrow> bool" where
  "hashable (JArr js) = False"
| "hashable (JObj d) = False"
| "hashable j = True"

section \<open>Reading a payload\<close>

definition jget :: "jobj \<Rightarrow> string \<Rightarrow> jval res" where
  "jget d k = (case map_of d k of None \<Rightarrow> Inl KeyError | Some j \<Rightarrow> Inr j)"

definition jget_or :: "jobj \<Rightarrow> string \<Rightarrow> jval \<Rightarrow> jval" where
  "jget_or d k v = (case map_of d k of None \<Rightarrow> v | Some j \<Rightarrow> j)"

definition get_str :: "pylib \<Rightarrow> jobj \<Rightarrow> string \<Rightarrow> string res" where
  "get_str L d k = res_bind (jget d k) (\<lambda>j. Inr (py_str L j))"

definition get_int :: "pylib \<Rightarrow> jobj \<Rightarrow> string \<Rightarrow> int res" where
  "get_int L d k = res_bind (jget d k) (py_int L)"

definition get_float :: "pylib \<Rightarrow> jobj \<Rightarrow> string \<Rightarrow> real res" where
  "get_float L d k = res_bind (jget d k) (py_float L)"

definition get_dict :: "pylib \<Rightarrow> jobj \<Rightarrow> string \<Rightarrow> jobj res" where
  "get_dict L d k = res_bind (jget d k) (py_dict L)"

text \<open>\<open>str(data.get(k, ""))\<close>, \<open>dict(data.get(k) or {})\<close>, \<open>[str(x) for x in (data.get(k) or [])]\<close>.\<close>

definition str_or :: "pylib \<Rightarrow> jobj \<Rightarrow> string \<Rightarrow> string \<Rightarrow> string" where
  "str_or L d k v = py_str L (jget_or d k (JStr v))"

definition dict_or_empty :: "pylib \<Rightarrow> jobj \<Rightarrow> string \<Rightarrow> jobj res" where
  "dict_or_empty L d k = (let j = jget_or d k JNull in if py_bool j then py_dict L j else Inr [])"

definition strs_or_empty :: "pylib \<Rightarrow> jobj \<Rightarrow> string \<Rightarrow> string list res" where
  "strs_or_empty L d k = (let j = jget_or d k JNull in
     if py_bool j then res_bind (py_iter j) (\<lambda>js. Inr (map (py_str L) js)) else Inr [])"

text \<open>A value that must be a dict (\<open>isinstance\<close>, or an attribute only dicts have).\<close>

definition as_dict_or :: "py_error \<Rightarrow> jval \<Rightarrow> jobj res" where
  "as_dict_or e j = (case j of JObj d \<Rightarrow> Inr d | _ \<Rightarrow> Inl e)"

lemma as_dict_or_Inr_iff: "as_dict_or e j = Inr d \<longleftrightarrow> j = JObj d"
  by (auto simp: as_dict_or_def split: jval.splits)

lemma as_dict_or_JObj [simp]: "as_dict_or e (JObj d) = Inr d"
  by (simp add: as_dict_or_def)

text \<open>\<open>None if data.get(k) is None else str(data.get(k))\<close>.\<close>

definition opt_str :: "pylib \<Rightarrow> jobj \<Rightarrow> string \<Rightarrow> string option" where
  "opt_str L d k = (let j = jget_or d k JNull in if j = JNull then None else Some (py_str L j))"

definition jopt :: "string option \<Rightarrow> jval" where
  "jopt s = (case s of None \<Rightarrow> JNull | Some t \<Rightarrow> JStr t)"

definition jstrs :: "string list \<Rightarrow> jval" where
  "jstrs ss = JArr (map JStr ss)"

lemma jopt_eq_JNull [simp]: "jopt s = JNull \<longleftrightarrow> s = None"
  by (simp add: jopt_def split: option.splits)

lemma opt_str_jopt: "map_of d k = Some (jopt s) \<Longrightarrow> opt_str L d k = s"
  by (cases s) (auto simp: opt_str_def jget_or_def jopt_def)

lemma strs_or_empty_jstrs: "map_of d k = Some (jstrs ss) \<Longrightarrow> strs_or_empty L d k = Inr ss"
  by (auto simp: strs_or_empty_def jget_or_def jstrs_def o_def)

lemma dict_or_empty_JObj: "map_of d k = Some (JObj m) \<Longrightarrow> dict_or_empty L d k = Inr m"
  by (auto simp: dict_or_empty_def jget_or_def)

lemmas json_simps = jget_def jget_or_def get_str_def get_int_def get_float_def get_dict_def
  str_or_def opt_str_jopt strs_or_empty_jstrs dict_or_empty_JObj

end
