(* ===== verification/Wire_Records.thy ===== *)
theory Wire_Records
  imports Json
begin

text \<open>
  The storage-side payload classes of \<open>swarm/agents/payloads.py\<close>: scrape requests and results,
  normalized records, storage confirmations, freshness events and match outcomes. Each class is
  a record; its \<open>__post_init__\<close> is a check that returns the value or \<open>ValueError\<close>, and its
  \<open>as_dict\<close> and \<open>from_dict\<close> go to and from a JSON object. A field that \<open>from_dict\<close> copies without
  conversion (\<open>data.get("league_id")\<close>) is a \<^typ>\<open>jval\<close>: its annotation is not checked by the code.
\<close>

definition allowed_planes :: "string list" where
  "allowed_planes = [''reference'', ''schedule'', ''live'', ''editorial'', ''market'']"

definition allowed_record_types :: "string list" where
  "allowed_record_types = [''fixture'', ''match_detail'', ''lineup'', ''odds'']"

section \<open>Scraping\<close>

record scrape_request =
  sq_source :: string
  sq_target :: string
  sq_league_id :: jval
  sq_competition_id :: jval
  sq_requested_at :: string
  sq_metadata :: jobj

definition scrape_request_as_dict :: "scrape_request \<Rightarrow> jobj" where
  "scrape_request_as_dict p =
     [(''source'', JStr (sq_source p)),
      (''target'', JStr (sq_target p)),
      (''league_id'', sq_league_id p),
      (''competition_id'', sq_competition_id p),
      (''requested_at'', JStr (sq_requested_at p)),
      (''metadata'', JObj (sq_metadata p))]"

definition scrape_request_from_dict :: "pylib \<Rightarrow> jobj \<Rightarrow> scrape_request res" where
  "scrape_request_from_dict L d =
     res_bind (get_str L d ''source'') (\<lambda>source.
     res_bind (get_str L d ''target'') (\<lambda>target.
     res_bind (dict_or_empty L d ''metadata'') (\<lambda>metadata.
     Inr \<lparr>sq_source = source,
        sq_target = target,
        sq_league_id = jget_or d ''league_id'' JNull,
        sq_competition_id = jget_or d ''competition_id'' JNull,
        sq_requested_at = str_or L d ''requested_at'' [],
        sq_metadata = metadata\<rparr>)))"

record scrape_raw =
  sw_source :: string
  sw_target :: string
  sw_bytes_sha256 :: string
  sw_http_status :: int
  sw_content_type :: string
  sw_bytes_b64 :: string
  sw_bytes_ref :: string
  sw_league_id :: jval
  sw_competition_id :: jval
  sw_fetched_at :: string
  sw_wire_bytes :: int
  sw_decoded_bytes :: int

definition scrape_raw_as_dict :: "scrape_raw \<Rightarrow> jobj" where
  "scrape_raw_as_dict p =
     [(''source'', JStr (sw_source p)),
      (''target'', JStr (sw_target p)),
      (''bytes_sha256'', JStr (sw_bytes_sha256 p)),
      (''http_status'', JInt (sw_http_status p)),
      (''content_type'', JStr (sw_content_type p)),
      (''bytes_b64'', JStr (sw_bytes_b64 p)),
      (''bytes_ref'', JStr (sw_bytes_ref p)),
      (''league_id'', sw_league_id p),
      (''competition_id'', sw_competition_id p),
      (''fetched_at'', JStr (sw_fetched_at p)),
      (''wire_bytes'', JInt (sw_wire_bytes p)),
      (''decoded_bytes'', JInt (sw_decoded_bytes p))]"

definition scrape_raw_from_dict :: "pylib \<Rightarrow> jobj \<Rightarrow> scrape_raw res" where
  "scrape_raw_from_dict L d =
     res_bind (get_str L d ''source'') (\<lambda>source.
     res_bind (get_str L d ''target'') (\<lambda>target.
     res_bind (get_str L d ''bytes_sha256'') (\<lambda>bytes_sha256.
     res_bind (get_int L d ''http_status'') (\<lambda>http_status.
     res_bind (py_int L (jget_or d ''wire_bytes'' (JInt 0))) (\<lambda>wire_bytes.
     res_bind (py_int L (jget_or d ''decoded_bytes'' (JInt 0))) (\<lambda>decoded_bytes.
     Inr \<lparr>sw_source = source,
        sw_target = target,
        sw_bytes_sha256 = bytes_sha256,
        sw_http_status = http_status,
        sw_content_type = str_or L d ''content_type'' [],
        sw_bytes_b64 = str_or L d ''bytes_b64'' [],
        sw_bytes_ref = str_or L d ''bytes_ref'' [],
        sw_league_id = jget_or d ''league_id'' JNull,
        sw_competition_id = jget_or d ''competition_id'' JNull,
        sw_fetched_at = str_or L d ''fetched_at'' [],
        sw_wire_bytes = wire_bytes,
        sw_decoded_bytes = decoded_bytes\<rparr>))))))"

record scrape_classified =
  sc_raw :: scrape_raw
  sc_label :: string
  sc_confidence :: real
  sc_classifier_id :: string

definition scrape_classified_as_dict :: "scrape_classified \<Rightarrow> jobj" where
  "scrape_classified_as_dict p =
     [(''raw'', JObj (scrape_raw_as_dict (sc_raw p))),
      (''label'', JStr (sc_label p)),
      (''confidence'', JFloat (sc_confidence p)),
      (''classifier_id'', JStr (sc_classifier_id p))]"

text \<open>
  \<open>ScrapeRaw.from_dict(data["raw"])\<close> subscripts whatever \<open>raw\<close> is: on a value that is not an
  object the first subscript, \<open>data["source"]\<close>, is a \<open>TypeError\<close>.
\<close>

definition scrape_classified_from_dict :: "pylib \<Rightarrow> jobj \<Rightarrow> scrape_classified res" where
  "scrape_classified_from_dict L d =
     res_bind (jget d ''raw'') (\<lambda>r.
     res_bind (case r of JObj m \<Rightarrow> scrape_raw_from_dict L m | _ \<Rightarrow> Inl TypeError) (\<lambda>raw.
     res_bind (get_str L d ''label'') (\<lambda>label.
     res_bind (get_float L d ''confidence'') (\<lambda>confidence.
     res_bind (get_str L d ''classifier_id'') (\<lambda>classifier_id.
     Inr \<lparr>sc_raw = raw, sc_label = label, sc_confidence = confidence,
          sc_classifier_id = classifier_id\<rparr>)))))"

section \<open>Storage\<close>

record normalized_record =
  nr_record_type :: string
  nr_plane :: string
  nr_source :: string
  nr_source_match_id :: string
  nr_stable_id :: string
  nr_extractor_version :: string
  nr_payload :: jobj
  nr_league_id :: jval
  nr_competition_id :: jval
  nr_canonical_version :: int
  nr_raw_sha256 :: string
  nr_captured_at :: string

text \<open>\<open>NormalizedRecord.__post_init__\<close>, \<open>as_dict\<close> and \<open>from_dict\<close>.\<close>

definition normalized_record_check :: "normalized_record \<Rightarrow> normalized_record res" where
  "normalized_record_check p =
     require (nr_plane p \<in> set allowed_planes) (
     require (nr_record_type p \<in> set allowed_record_types) (
     Inr p))"

definition normalized_record_as_dict :: "normalized_record \<Rightarrow> jobj" where
  "normalized_record_as_dict p =
     [(''record_type'', JStr (nr_record_type p)),
      (''plane'', JStr (nr_plane p)),
      (''source'', JStr (nr_source p)),
      (''source_match_id'', JStr (nr_source_match_id p)),
      (''stable_id'', JStr (nr_stable_id p)),
      (''extractor_version'', JStr (nr_extractor_version p)),
      (''payload'', JObj (nr_payload p)),
      (''league_id'', nr_league_id p),
      (''competition_id'', nr_competition_id p),
      (''canonical_version'', JInt (nr_canonical_version p)),
      (''raw_sha256'', JStr (nr_raw_sha256 p)),
      (''captured_at'', JStr (nr_captured_at p))]"

definition normalized_record_from_dict :: "pylib \<Rightarrow> jobj \<Rightarrow> normalized_record res" where
  "normalized_record_from_dict L d =
     res_bind (get_str L d ''record_type'') (\<lambda>record_type.
     res_bind (get_str L d ''plane'') (\<lambda>plane.
     res_bind (get_str L d ''source'') (\<lambda>source.
     res_bind (get_str L d ''source_match_id'') (\<lambda>source_match_id.
     res_bind (get_str L d ''stable_id'') (\<lambda>stable_id.
     res_bind (get_str L d ''extractor_version'') (\<lambda>extractor_version.
     res_bind (get_dict L d ''payload'') (\<lambda>payload.
     res_bind (py_int L (jget_or d ''canonical_version'' (JInt 1))) (\<lambda>canonical_version.
     normalized_record_check \<lparr>nr_record_type = record_type,
        nr_plane = plane,
        nr_source = source,
        nr_source_match_id = source_match_id,
        nr_stable_id = stable_id,
        nr_extractor_version = extractor_version,
        nr_payload = payload,
        nr_league_id = jget_or d ''league_id'' JNull,
        nr_competition_id = jget_or d ''competition_id'' JNull,
        nr_canonical_version = canonical_version,
        nr_raw_sha256 = str_or L d ''raw_sha256'' [],
        nr_captured_at = str_or L d ''captured_at'' []\<rparr>))))))))"

record match_stored =
  ms_record_id :: int
  ms_record_type :: string
  ms_plane :: string
  ms_source :: string
  ms_stable_id :: string
  ms_change_kind :: string
  ms_stored_at :: string

definition match_stored_as_dict :: "match_stored \<Rightarrow> jobj" where
  "match_stored_as_dict p =
     [(''record_id'', JInt (ms_record_id p)),
      (''record_type'', JStr (ms_record_type p)),
      (''plane'', JStr (ms_plane p)),
      (''source'', JStr (ms_source p)),
      (''stable_id'', JStr (ms_stable_id p)),
      (''change_kind'', JStr (ms_change_kind p)),
      (''stored_at'', JStr (ms_stored_at p))]"

definition match_stored_from_dict :: "pylib \<Rightarrow> jobj \<Rightarrow> match_stored res" where
  "match_stored_from_dict L d =
     res_bind (get_int L d ''record_id'') (\<lambda>record_id.
     res_bind (get_str L d ''record_type'') (\<lambda>record_type.
     res_bind (get_str L d ''plane'') (\<lambda>plane.
     res_bind (get_str L d ''source'') (\<lambda>source.
     res_bind (get_str L d ''stable_id'') (\<lambda>stable_id.
     res_bind (get_str L d ''change_kind'') (\<lambda>change_kind.
     Inr \<lparr>ms_record_id = record_id,
        ms_record_type = record_type,
        ms_plane = plane,
        ms_source = source,
        ms_stable_id = stable_id,
        ms_change_kind = change_kind,
        ms_stored_at = str_or L d ''stored_at'' []\<rparr>))))))"

record freshness_event =
  fe_event_id :: string
  fe_record_id :: int
  fe_source :: string
  fe_stable_id :: string
  fe_record_type :: string
  fe_plane :: string
  fe_change_kind :: string
  fe_diff :: jobj
  fe_emitted_at :: string

definition freshness_event_as_dict :: "freshness_event \<Rightarrow> jobj" where
  "freshness_event_as_dict p =
     [(''event_id'', JStr (fe_event_id p)),
      (''record_id'', JInt (fe_record_id p)),
      (''source'', JStr (fe_source p)),
      (''stable_id'', JStr (fe_stable_id p)),
      (''record_type'', JStr (fe_record_type p)),
      (''plane'', JStr (fe_plane p)),
      (''change_kind'', JStr (fe_change_kind p)),
      (''diff'', JObj (fe_diff p)),
      (''emitted_at'', JStr (fe_emitted_at p))]"

definition freshness_event_from_dict :: "pylib \<Rightarrow> jobj \<Rightarrow> freshness_event res" where
  "freshness_event_from_dict L d =
     res_bind (get_str L d ''event_id'') (\<lambda>event_id.
     res_bind (get_int L d ''record_id'') (\<lambda>record_id.
     res_bind (get_str L d ''source'') (\<lambda>source.
     res_bind (get_str L d ''stable_id'') (\<lambda>stable_id.
     res_bind (get_str L d ''record_type'') (\<lambda>record_type.
     res_bind (get_str L d ''plane'') (\<lambda>plane.
     res_bind (get_str L d ''change_kind'') (\<lambda>change_kind.
     res_bind (dict_or_empty L d ''diff'') (\<lambda>diff.
     Inr \<lparr>fe_event_id = event_id,
        fe_record_id = record_id,
        fe_source = source,
        fe_stable_id = stable_id,
        fe_record_type = record_type,
        fe_plane = plane,
        fe_change_kind = change_kind,
        fe_diff = diff,
        fe_emitted_at = str_or L d ''emitted_at'' []\<rparr>))))))))"

section \<open>Match outcomes\<close>

text \<open>\<open>derive_match_outcome\<close>; \<open>home + away > 2.5\<close> on integers is \<open>2 < home + away\<close>.\<close>

record match_result =
  mr_outcome_1x2 :: string
  mr_outcome_ou_2_5 :: string
  mr_outcome_btts :: string

definition derive_match_outcome :: "int \<Rightarrow> int \<Rightarrow> match_result" where
  "derive_match_outcome final_home final_away =
     \<lparr>mr_outcome_1x2 =
        (if final_home > final_away then ''H''
         else if final_home < final_away then ''A'' else ''D''),
      mr_outcome_ou_2_5 = (if real_of_int (final_home + final_away) > 2.5 then ''over'' else ''under''),
      mr_outcome_btts = (if final_home > 0 \<and> final_away > 0 then ''yes'' else ''no'')\<rparr>"

record match_outcome =
  mo_match_id :: string
  mo_stable_id :: string
  mo_source :: string
  mo_final_home :: int
  mo_final_away :: int
  mo_outcome_1x2 :: string
  mo_settled_at :: string
  mo_league_id :: jval
  mo_competition_id :: jval
  mo_outcome_ou_2_5 :: jval
  mo_outcome_btts :: jval
  mo_record_id :: "int option"

text \<open>\<open>MatchOutcome.__post_init__\<close>, \<open>as_dict\<close> and \<open>from_dict\<close>.\<close>

definition match_outcome_check :: "match_outcome \<Rightarrow> match_outcome res" where
  "match_outcome_check p =
     require (0 \<le> mo_final_home p \<and> 0 \<le> mo_final_away p) (
     require (mo_outcome_1x2 p \<in> {''H'', ''D'', ''A''}) (
     Inr p))"

definition match_outcome_as_dict :: "match_outcome \<Rightarrow> jobj" where
  "match_outcome_as_dict p =
     [(''match_id'', JStr (mo_match_id p)),
      (''stable_id'', JStr (mo_stable_id p)),
      (''source'', JStr (mo_source p)),
      (''final_home'', JInt (mo_final_home p)),
      (''final_away'', JInt (mo_final_away p)),
      (''outcome_1x2'', JStr (mo_outcome_1x2 p)),
      (''settled_at'', JStr (mo_settled_at p)),
      (''league_id'', mo_league_id p),
      (''competition_id'', mo_competition_id p),
      (''outcome_ou_2_5'', mo_outcome_ou_2_5 p),
      (''outcome_btts'', mo_outcome_btts p),
      (''record_id'', (case mo_record_id p of None \<Rightarrow> JNull | Some i \<Rightarrow> JInt i))]"

definition match_outcome_from_dict :: "pylib \<Rightarrow> jobj \<Rightarrow> match_outcome res" where
  "match_outcome_from_dict L d =
     res_bind (get_str L d ''match_id'') (\<lambda>match_id.
     res_bind (get_str L d ''stable_id'') (\<lambda>stable_id.
     res_bind (get_str L d ''source'') (\<lambda>source.
     res_bind (get_int L d ''final_home'') (\<lambda>final_home.
     res_bind (get_int L d ''final_away'') (\<lambda>final_away.
     res_bind (get_str L d ''outcome_1x2'') (\<lambda>outcome_1x2.
     res_bind (get_str L d ''settled_at'') (\<lambda>settled_at.
     res_bind (let j = jget_or d ''record_id'' JNull in
       if j = JNull then Inr None else res_bind (py_int L j) (\<lambda>i. Inr (Some i))) (\<lambda>record_id.
     match_outcome_check \<lparr>mo_match_id = match_id,
        mo_stable_id = stable_id,
        mo_source = source,
        mo_final_home = final_home,
        mo_final_away = final_away,
        mo_outcome_1x2 = outcome_1x2,
        mo_settled_at = settled_at,
        mo_league_id = jget_or d ''league_id'' JNull,
        mo_competition_id = jget_or d ''competition_id'' JNull,
        mo_outcome_ou_2_5 = jget_or d ''outcome_ou_2_5'' JNull,
        mo_outcome_btts = jget_or d ''outcome_btts'' JNull,
        mo_record_id = record_id\<rparr>))))))))"

section \<open>Round trips\<close>

lemma scrape_request_wire: "scrape_request_from_dict L (scrape_request_as_dict p) = Inr p"
  by (cases p) (simp add: scrape_request_from_dict_def scrape_request_as_dict_def json_simps)

lemma scrape_raw_wire: "scrape_raw_from_dict L (scrape_raw_as_dict p) = Inr p"
  by (cases p) (simp add: scrape_raw_from_dict_def scrape_raw_as_dict_def json_simps)

lemma normalized_record_wire: "normalized_record_check p = Inr p \<Longrightarrow> normalized_record_from_dict L (normalized_record_as_dict p) = Inr p"
  by (cases p) (simp add: normalized_record_from_dict_def normalized_record_as_dict_def json_simps)

lemma match_stored_wire: "match_stored_from_dict L (match_stored_as_dict p) = Inr p"
  by (cases p) (simp add: match_stored_from_dict_def match_stored_as_dict_def json_simps)

lemma freshness_event_wire: "freshness_event_from_dict L (freshness_event_as_dict p) = Inr p"
  by (cases p) (simp add: freshness_event_from_dict_def freshness_event_as_dict_def json_simps)

lemma scrape_classified_wire: "scrape_classified_from_dict L (scrape_classified_as_dict p) = Inr p"
  by (simp add: scrape_classified_from_dict_def scrape_classified_as_dict_def json_simps scrape_raw_wire)

lemma match_outcome_wire:
  "match_outcome_check p = Inr p \<Longrightarrow> match_outcome_from_dict L (match_outcome_as_dict p) = Inr p"
  by (cases p)
    (auto simp: match_outcome_from_dict_def match_outcome_as_dict_def json_simps Let_def split: option.splits)

section \<open>What a decoded payload satisfies\<close>

lemma normalized_record_decoded:
  "normalized_record_from_dict L d = Inr p \<Longrightarrow> normalized_record_check p = Inr p"
  by (auto simp: normalized_record_from_dict_def normalized_record_check_def res_iffs)

lemma match_outcome_decoded: "match_outcome_from_dict L d = Inr p \<Longrightarrow> match_outcome_check p = Inr p"
  by (auto simp: match_outcome_from_dict_def match_outcome_check_def res_iffs)

text \<open>
  The storage payloads are sound and stable on the wire: a decoded record is on one of the
  five planes and of one of the four types, a decoded outcome has non-negative scores and a
  1x2 label, and both decode to themselves when they are published again; the outcome derived
  from any final score always has such a label.
\<close>

lemma records_wire_stable:
  "(normalized_record_from_dict L d1 = Inr r \<longrightarrow>
      nr_plane r \<in> set allowed_planes \<and> nr_record_type r \<in> set allowed_record_types \<and>
      normalized_record_from_dict M (normalized_record_as_dict r) = Inr r) \<and>
   (match_outcome_from_dict L d2 = Inr q \<longrightarrow>
      0 \<le> mo_final_home q \<and> 0 \<le> mo_final_away q \<and>
      match_outcome_from_dict M (match_outcome_as_dict q) = Inr q) \<and>
   (0 \<le> h \<and> 0 \<le> a \<longrightarrow>
      match_outcome_check (o1\<lparr>mo_final_home := h, mo_final_away := a,
        mo_outcome_1x2 := mr_outcome_1x2 (derive_match_outcome h a)\<rparr>) \<noteq> Inl ValueError)"
proof (intro conjI impI)
  assume "normalized_record_from_dict L d1 = Inr r"
  note ok = normalized_record_decoded [OF this]
  then show "nr_plane r \<in> set allowed_planes" "nr_record_type r \<in> set allowed_record_types"
    "normalized_record_from_dict M (normalized_record_as_dict r) = Inr r"
    by (auto simp: normalized_record_check_def res_iffs intro: normalized_record_wire)
next
  assume "match_outcome_from_dict L d2 = Inr q"
  note ok = match_outcome_decoded [OF this]
  then show "0 \<le> mo_final_home q" "0 \<le> mo_final_away q"
    "match_outcome_from_dict M (match_outcome_as_dict q) = Inr q"
    by (auto simp: match_outcome_check_def res_iffs intro: match_outcome_wire)
next
  assume "0 \<le> h \<and> 0 \<le> a"
  then show "match_outcome_check (o1\<lparr>mo_final_home := h, mo_final_away := a,
      mo_outcome_1x2 := mr_outcome_1x2 (derive_match_outcome h a)\<rparr>) \<noteq> Inl ValueError"
    by (auto simp: match_outcome_check_def derive_match_outcome_def)
qed

end
