(* ===== verification/Wire_Predict.thy ===== *)
theory Wire_Predict
  imports Json
begin

text \<open>
  The prediction-side payload classes of \<open>swarm/agents/payloads.py\<close>: requests, votes, consensus
  finals, training events, proofreader verdicts and approvals, with the deterministic prediction
  id and the cut of over-long details. What SHA-256 computes is a parameter.
\<close>

definition allowed_markets :: "string list" where
  "allowed_markets = [''1x2'', ''ah'', ''ou_2_5'', ''btts'']"

definition allowed_verdicts :: "string list" where
  "allowed_verdicts = [''accept'', ''warn'', ''reject'']"

section \<open>Prediction ids\<close>

text \<open>\<open>derive_prediction_id\<close>; \<open>hexdigest\<close> is SHA-256 of the UTF-8 text in hexadecimal.\<close>

definition prediction_blob :: "string \<Rightarrow> string \<Rightarrow> string \<Rightarrow> string \<Rightarrow> string" where
  "prediction_blob match_id market request_id calibration_version =
     match_id @ ''|'' @ market @ ''|'' @ request_id @ ''|'' @ calibration_version"

definition derive_prediction_id ::
  "(string \<Rightarrow> string) \<Rightarrow> string \<Rightarrow> string \<Rightarrow> string \<Rightarrow> string \<Rightarrow> string" where
  "derive_prediction_id hexdigest match_id market request_id calibration_version =
     take 32 (hexdigest (prediction_blob match_id market request_id calibration_version))"

section \<open>Flag details\<close>

text \<open>
  \<open>truncate_proof_detail\<close>. Lengths are counted in characters, as \<open>len\<close> does; the suffix starts
  with the one-character ellipsis U+2026, which no HOL \<^typ>\<open>char\<close> is, so the text type is a
  parameter and the suffix an argument.
\<close>

definition proof_flag_detail_max_len :: int where
  "proof_flag_detail_max_len = 1024"

definition truncate_proof_detail :: "'c list \<Rightarrow> 'c list option \<Rightarrow> int \<Rightarrow> 'c list" where
  "truncate_proof_detail suffix detail max_len =
     (case detail of
        None \<Rightarrow> []
      | Some t \<Rightarrow>
          if t = [] then []
          else if int (length t) \<le> max_len then t
          else take (nat (max 0 (max_len - int (length suffix)))) t @ suffix)"

section \<open>Requests, votes and finals\<close>

record predict_request =
  rq_request_id :: string
  rq_match_id :: string
  rq_market :: string
  rq_league_id :: jval
  rq_profile_id :: jval
  rq_requested_at :: string
  rq_kind_schema_version :: int
  rq_qa_correlation_id :: "string option"
  rq_features :: jobj
  rq_metadata :: jobj

text \<open>\<open>PredictRequest.__post_init__\<close>, \<open>as_dict\<close> and \<open>from_dict\<close>.\<close>

definition predict_request_check :: "predict_request \<Rightarrow> predict_request res" where
  "predict_request_check p =
     require (rq_market p \<in> set allowed_markets) (
     require (rq_request_id p \<noteq> []) (
     require (rq_match_id p \<noteq> []) (
     require (rq_kind_schema_version p \<in> {1, 2}) (
     Inr p))))"

definition predict_request_as_dict :: "predict_request \<Rightarrow> jobj" where
  "predict_request_as_dict p =
     [(''request_id'', JStr (rq_request_id p)),
      (''match_id'', JStr (rq_match_id p)),
      (''market'', JStr (rq_market p)),
      (''league_id'', rq_league_id p),
      (''profile_id'', rq_profile_id p),
      (''requested_at'', JStr (rq_requested_at p)),
      (''kind_schema_version'', JInt (rq_kind_schema_version p)),
      (''qa_correlation_id'', jopt (rq_qa_correlation_id p)),
      (''features'', JObj (rq_features p)),
      (''metadata'', JObj (rq_metadata p))]"

definition predict_request_from_dict :: "pylib \<Rightarrow> jobj \<Rightarrow> predict_request res" where
  "predict_request_from_dict L d =
     res_bind (get_str L d ''request_id'') (\<lambda>request_id.
     res_bind (get_str L d ''match_id'') (\<lambda>match_id.
     res_bind (get_str L d ''market'') (\<lambda>market.
     res_bind (py_int L (jget_or d ''kind_schema_version'' (JInt 1))) (\<lambda>kind_schema_version.
     res_bind (dict_or_empty L d ''features'') (\<lambda>features.
     res_bind (dict_or_empty L d ''metadata'') (\<lambda>metadata.
     predict_request_check \<lparr>rq_request_id = request_id,
        rq_match_id = match_id,
        rq_market = market,
        rq_league_id = jget_or d ''league_id'' JNull,
        rq_profile_id = jget_or d ''profile_id'' JNull,
        rq_requested_at = str_or L d ''requested_at'' [],
        rq_kind_schema_version = kind_schema_version,
        rq_qa_correlation_id = opt_str L d ''qa_correlation_id'',
        rq_features = features,
        rq_metadata = metadata\<rparr>))))))"

record predict_vote =
  pv_request_id :: string
  pv_match_id :: string
  pv_market :: string
  pv_predictor_id :: string
  pv_distribution :: jobj
  pv_confidence :: real
  pv_produced_at :: string
  pv_features_version :: string
  pv_league_id :: jval
  pv_profile_id :: jval
  pv_metadata :: jobj

text \<open>\<open>PredictVote.__post_init__\<close>, \<open>as_dict\<close> and \<open>from_dict\<close>.\<close>

definition predict_vote_check :: "predict_vote \<Rightarrow> predict_vote res" where
  "predict_vote_check p =
     require (pv_market p \<in> set allowed_markets) (
     require (pv_predictor_id p \<noteq> []) (
     require (map_of (pv_distribution p) ''market_outcomes'' \<noteq> None) (
     Inr p)))"

definition predict_vote_as_dict :: "predict_vote \<Rightarrow> jobj" where
  "predict_vote_as_dict p =
     [(''request_id'', JStr (pv_request_id p)),
      (''match_id'', JStr (pv_match_id p)),
      (''market'', JStr (pv_market p)),
      (''predictor_id'', JStr (pv_predictor_id p)),
      (''distribution'', JObj (pv_distribution p)),
      (''confidence'', JFloat (pv_confidence p)),
      (''produced_at'', JStr (pv_produced_at p)),
      (''features_version'', JStr (pv_features_version p)),
      (''league_id'', pv_league_id p),
      (''profile_id'', pv_profile_id p),
      (''metadata'', JObj (pv_metadata p))]"

definition predict_vote_from_dict :: "pylib \<Rightarrow> jobj \<Rightarrow> predict_vote res" where
  "predict_vote_from_dict L d =
     res_bind (get_str L d ''request_id'') (\<lambda>request_id.
     res_bind (get_str L d ''match_id'') (\<lambda>match_id.
     res_bind (get_str L d ''market'') (\<lambda>market.
     res_bind (get_str L d ''predictor_id'') (\<lambda>predictor_id.
     res_bind (get_dict L d ''distribution'') (\<lambda>distribution.
     res_bind (get_float L d ''confidence'') (\<lambda>confidence.
     res_bind (dict_or_empty L d ''metadata'') (\<lambda>metadata.
     predict_vote_check \<lparr>pv_request_id = request_id,
        pv_match_id = match_id,
        pv_market = market,
        pv_predictor_id = predictor_id,
        pv_distribution = distribution,
        pv_confidence = confidence,
        pv_produced_at = str_or L d ''produced_at'' [],
        pv_features_version = str_or L d ''features_version'' [],
        pv_league_id = jget_or d ''league_id'' JNull,
        pv_profile_id = jget_or d ''profile_id'' JNull,
        pv_metadata = metadata\<rparr>)))))))"

record predict_final =
  pf_request_id :: string
  pf_prediction_id :: string
  pf_match_id :: string
  pf_market :: string
  pf_distribution :: jobj
  pf_weights :: "(string \<times> real) list"
  pf_contributing_models :: "string list"
  pf_calibration_version :: int
  pf_swarm_confidence :: real
  pf_degraded :: bool
  pf_degraded_reason :: string
  pf_produced_at :: string
  pf_league_id :: jval
  pf_profile_id :: jval

text \<open>\<open>PredictFinal.__post_init__\<close>, \<open>as_dict\<close> and \<open>from_dict\<close>.\<close>

definition predict_final_check :: "predict_final \<Rightarrow> predict_final res" where
  "predict_final_check p =
     require (pf_market p \<in> set allowed_markets) (
     require (map_of (pf_distribution p) ''market_outcomes'' \<noteq> None) (
     Inr p))"

definition predict_final_as_dict :: "predict_final \<Rightarrow> jobj" where
  "predict_final_as_dict p =
     [(''request_id'', JStr (pf_request_id p)),
      (''prediction_id'', JStr (pf_prediction_id p)),
      (''match_id'', JStr (pf_match_id p)),
      (''market'', JStr (pf_market p)),
      (''distribution'', JObj (pf_distribution p)),
      (''weights'', JObj (map (\<lambda>(k, v). (k, JFloat v)) (pf_weights p))),
      (''contributing_models'', jstrs (pf_contributing_models p)),
      (''calibration_version'', JInt (pf_calibration_version p)),
      (''swarm_confidence'', JFloat (pf_swarm_confidence p)),
      (''degraded'', JBool (pf_degraded p)),
      (''degraded_reason'', JStr (pf_degraded_reason p)),
      (''produced_at'', JStr (pf_produced_at p)),
      (''league_id'', pf_league_id p),
      (''profile_id'', pf_profile_id p)]"

definition predict_final_from_dict :: "pylib \<Rightarrow> jobj \<Rightarrow> predict_final res" where
  "predict_final_from_dict L d =
     res_bind (get_str L d ''request_id'') (\<lambda>request_id.
     res_bind (get_str L d ''prediction_id'') (\<lambda>prediction_id.
     res_bind (get_str L d ''match_id'') (\<lambda>match_id.
     res_bind (get_str L d ''market'') (\<lambda>market.
     res_bind (get_dict L d ''distribution'') (\<lambda>distribution.
     res_bind (res_bind (dict_or_empty L d ''weights'')
       (res_map (\<lambda>(k, v). res_bind (py_float L v) (\<lambda>w. Inr (k, w))))) (\<lambda>weights.
     res_bind (strs_or_empty L d ''contributing_models'') (\<lambda>contributing_models.
     res_bind (py_int L (jget_or d ''calibration_version'' (JInt 0))) (\<lambda>calibration_version.
     res_bind (get_float L d ''swarm_confidence'') (\<lambda>swarm_confidence.
     predict_final_check \<lparr>pf_request_id = request_id,
        pf_prediction_id = prediction_id,
        pf_match_id = match_id,
        pf_market = market,
        pf_distribution = distribution,
        pf_weights = weights,
        pf_contributing_models = contributing_models,
        pf_calibration_version = calibration_version,
        pf_swarm_confidence = swarm_confidence,
        pf_degraded = py_bool (jget_or d ''degraded'' (JBool False)),
        pf_degraded_reason = str_or L d ''degraded_reason'' [],
        pf_produced_at = str_or L d ''produced_at'' [],
        pf_league_id = jget_or d ''league_id'' JNull,
        pf_profile_id = jget_or d ''profile_id'' JNull\<rparr>)))))))))"

record model_trained =
  mt_predictor_id :: string
  mt_profile_id :: string
  mt_league_id :: jval
  mt_model_version :: string
  mt_trained_at :: string
  mt_metric :: string
  mt_metric_value :: real
  mt_samples :: int
  mt_metadata :: jobj

definition model_trained_as_dict :: "model_trained \<Rightarrow> jobj" where
  "model_trained_as_dict p =
     [(''predictor_id'', JStr (mt_predictor_id p)),
      (''profile_id'', JStr (mt_profile_id p)),
      (''league_id'', mt_league_id p),
      (''model_version'', JStr (mt_model_version p)),
      (''trained_at'', JStr (mt_trained_at p)),
      (''metric'', JStr (mt_metric p)),
      (''metric_value'', JFloat (mt_metric_value p)),
      (''samples'', JInt (mt_samples p)),
      (''metadata'', JObj (mt_metadata p))]"

definition model_trained_from_dict :: "pylib \<Rightarrow> jobj \<Rightarrow> model_trained res" where
  "model_trained_from_dict L d =
     res_bind (get_str L d ''predictor_id'') (\<lambda>predictor_id.
     res_bind (get_str L d ''profile_id'') (\<lambda>profile_id.
     res_bind (get_str L d ''model_version'') (\<lambda>model_version.
     res_bind (get_str L d ''trained_at'') (\<lambda>trained_at.
     res_bind (py_float L (jget_or d ''metric_value'' (JFloat 0))) (\<lambda>metric_value.
     res_bind (py_int L (jget_or d ''samples'' (JInt 0))) (\<lambda>samples.
     res_bind (dict_or_empty L d ''metadata'') (\<lambda>metadata.
     Inr \<lparr>mt_predictor_id = predictor_id,
        mt_profile_id = profile_id,
        mt_league_id = jget_or d ''league_id'' JNull,
        mt_model_version = model_version,
        mt_trained_at = trained_at,
        mt_metric = str_or L d ''metric'' ''accuracy'',
        mt_metric_value = metric_value,
        mt_samples = samples,
        mt_metadata = metadata\<rparr>)))))))"

section \<open>Verdicts and approvals\<close>

record verdict =
  vd_request_id :: string
  vd_prediction_id :: string
  vd_match_id :: string
  vd_market :: string
  vd_proofreader_id :: string
  vd_verdict :: string
  vd_score :: real
  vd_checked_at :: string
  vd_flags :: "string list"
  vd_checks_run :: "string list"
  vd_rationale :: string
  vd_calibration_version :: int

text \<open>\<open>ProofreaderVerdict.__post_init__\<close>, \<open>as_dict\<close> and \<open>from_dict\<close>.\<close>

definition verdict_check :: "verdict \<Rightarrow> verdict res" where
  "verdict_check p =
     require (vd_verdict p \<in> set allowed_verdicts) (
     require (0 \<le> vd_score p \<and> vd_score p \<le> 1) (
     require (set (vd_flags p) \<subseteq> set (vd_checks_run p)) (
     Inr p)))"

definition verdict_as_dict :: "verdict \<Rightarrow> jobj" where
  "verdict_as_dict p =
     [(''request_id'', JStr (vd_request_id p)),
      (''prediction_id'', JStr (vd_prediction_id p)),
      (''match_id'', JStr (vd_match_id p)),
      (''market'', JStr (vd_market p)),
      (''proofreader_id'', JStr (vd_proofreader_id p)),
      (''verdict'', JStr (vd_verdict p)),
      (''score'', JFloat (vd_score p)),
      (''checked_at'', JStr (vd_checked_at p)),
      (''flags'', jstrs (vd_flags p)),
      (''checks_run'', jstrs (vd_checks_run p)),
      (''rationale'', JStr (vd_rationale p)),
      (''calibration_version'', JInt (vd_calibration_version p))]"

definition verdict_from_dict :: "pylib \<Rightarrow> jobj \<Rightarrow> verdict res" where
  "verdict_from_dict L d =
     res_bind (get_str L d ''request_id'') (\<lambda>request_id.
     res_bind (get_str L d ''prediction_id'') (\<lambda>prediction_id.
     res_bind (get_str L d ''match_id'') (\<lambda>match_id.
     res_bind (get_str L d ''market'') (\<lambda>market.
     res_bind (get_str L d ''proofreader_id'') (\<lambda>proofreader_id.
     res_bind (get_str L d ''verdict'') (\<lambda>verdict.
     res_bind (get_float L d ''score'') (\<lambda>score.
     res_bind (get_str L d ''checked_at'') (\<lambda>checked_at.
     res_bind (strs_or_empty L d ''flags'') (\<lambda>flags.
     res_bind (strs_or_empty L d ''checks_run'') (\<lambda>checks_run.
     res_bind (py_int L (jget_or d ''calibration_version'' (JInt 0))) (\<lambda>calibration_version.
     verdict_check \<lparr>vd_request_id = request_id,
        vd_prediction_id = prediction_id,
        vd_match_id = match_id,
        vd_market = market,
        vd_proofreader_id = proofreader_id,
        vd_verdict = verdict,
        vd_score = score,
        vd_checked_at = checked_at,
        vd_flags = flags,
        vd_checks_run = checks_run,
        vd_rationale = str_or L d ''rationale'' [],
        vd_calibration_version = calibration_version\<rparr>)))))))))))"

record approved =
  ap_request_id :: string
  ap_prediction_id :: string
  ap_match_id :: string
  ap_market :: string
  ap_approved_at :: string
  ap_approved_by :: "string list"
  ap_verdict_count :: int
  ap_quorum :: int
  ap_final :: jobj
  ap_calibration_version :: int
  ap_calibration_state_horizon :: "string option"
  ap_schema_version :: int
  ap_qa_correlation_id :: jval
  ap_citation_signature :: "string option"
  ap_citation_key_id :: "string option"

text \<open>
  \<open>PredictApproved.__post_init__\<close>: the market is lowered first (\<open>str.lower\<close>, on ASCII letters),
  then the counts and the embedded final are checked.
\<close>

definition lower_char :: "char \<Rightarrow> char" where
  "lower_char c = (if 65 \<le> (of_char c :: nat) \<and> (of_char c :: nat) \<le> 90
     then char_of ((of_char c :: nat) + 32) else c)"

definition py_lower :: "string \<Rightarrow> string" where
  "py_lower = map lower_char"

definition approved_check :: "approved \<Rightarrow> approved res" where
  "approved_check p0 =
     (let p = p0\<lparr>ap_market := py_lower (ap_market p0)\<rparr> in
     require (ap_approved_by p \<noteq> []) (
     require (int (length (ap_approved_by p)) \<le> ap_verdict_count p) (
     require (1 \<le> ap_quorum p) (
     require (ap_quorum p \<le> int (length (ap_approved_by p))) (
     require (map_of (ap_final p) ''prediction_id'' \<noteq> None) (
     require (map_of (ap_final p) ''prediction_id'' = Some (JStr (ap_prediction_id p))) (
     Inr p)))))))"

definition approved_as_dict :: "approved \<Rightarrow> jobj" where
  "approved_as_dict p =
     [(''request_id'', JStr (ap_request_id p)),
      (''prediction_id'', JStr (ap_prediction_id p)),
      (''match_id'', JStr (ap_match_id p)),
      (''market'', JStr (ap_market p)),
      (''approved_at'', JStr (ap_approved_at p)),
      (''approved_by'', jstrs (ap_approved_by p)),
      (''verdict_count'', JInt (ap_verdict_count p)),
      (''quorum'', JInt (ap_quorum p)),
      (''final'', JObj (ap_final p)),
      (''calibration_version'', JInt (ap_calibration_version p)),
      (''calibration_state_horizon'', jopt (ap_calibration_state_horizon p)),
      (''schema_version'', JInt (ap_schema_version p)),
      (''qa_correlation_id'', ap_qa_correlation_id p),
      (''citation_signature'', jopt (ap_citation_signature p)),
      (''citation_key_id'', jopt (ap_citation_key_id p))]"

definition approved_from_dict :: "pylib \<Rightarrow> jobj \<Rightarrow> approved res" where
  "approved_from_dict L d =
     res_bind (get_str L d ''request_id'') (\<lambda>request_id.
     res_bind (get_str L d ''prediction_id'') (\<lambda>prediction_id.
     res_bind (get_str L d ''match_id'') (\<lambda>match_id.
     res_bind (get_str L d ''market'') (\<lambda>market.
     res_bind (get_str L d ''approved_at'') (\<lambda>approved_at.
     res_bind (strs_or_empty L d ''approved_by'') (\<lambda>approved_by.
     res_bind (get_int L d ''verdict_count'') (\<lambda>verdict_count.
     res_bind (get_int L d ''quorum'') (\<lambda>quorum.
     res_bind (get_dict L d ''final'') (\<lambda>final.
     res_bind (py_int L (jget_or d ''calibration_version'' (JInt 0))) (\<lambda>calibration_version.
     res_bind (py_int L (jget_or d ''schema_version'' (JInt 1))) (\<lambda>schema_version.
     approved_check \<lparr>ap_request_id = request_id,
        ap_prediction_id = prediction_id,
        ap_match_id = match_id,
        ap_market = market,
        ap_approved_at = approved_at,
        ap_approved_by = approved_by,
        ap_verdict_count = verdict_count,
        ap_quorum = quorum,
        ap_final = final,
        ap_calibration_version = calibration_version,
        ap_calibration_state_horizon = opt_str L d ''calibration_state_horizon'',
        ap_schema_version = schema_version,
        ap_qa_correlation_id = jget_or d ''qa_correlation_id'' JNull,
        ap_citation_signature = opt_str L d ''citation_signature'',
        ap_citation_key_id = opt_str L d ''citation_key_id''\<rparr>)))))))))))"

section \<open>Round trips\<close>

lemma lower_char_idem [simp]: "lower_char (lower_char c) = lower_char c"
proof (cases "65 \<le> (of_char c :: nat) \<and> (of_char c :: nat) \<le> 90")
  case True
  then have "(of_char (char_of ((of_char c :: nat) + 32)) :: nat) = of_char c + 32"
    by (simp add: of_char_of)
  with True show ?thesis by (simp add: lower_char_def)
next
  case False
  then show ?thesis by (auto simp: lower_char_def)
qed

lemma py_lower_idem [simp]: "py_lower (py_lower s) = py_lower s"
  by (simp add: py_lower_def)

lemma predict_request_wire: "predict_request_check p = Inr p \<Longrightarrow> predict_request_from_dict L (predict_request_as_dict p) = Inr p"
  by (cases p) (simp add: predict_request_from_dict_def predict_request_as_dict_def json_simps)

lemma predict_vote_wire: "predict_vote_check p = Inr p \<Longrightarrow> predict_vote_from_dict L (predict_vote_as_dict p) = Inr p"
  by (cases p) (simp add: predict_vote_from_dict_def predict_vote_as_dict_def json_simps)

lemma model_trained_wire: "model_trained_from_dict L (model_trained_as_dict p) = Inr p"
  by (cases p) (simp add: model_trained_from_dict_def model_trained_as_dict_def json_simps)

lemma verdict_wire: "verdict_check p = Inr p \<Longrightarrow> verdict_from_dict L (verdict_as_dict p) = Inr p"
  by (cases p) (simp add: verdict_from_dict_def verdict_as_dict_def json_simps)

lemma predict_final_wire:
  "predict_final_check p = Inr p \<Longrightarrow> predict_final_from_dict L (predict_final_as_dict p) = Inr p"
proof (cases p)
  case (fields a b c d e ws)
  assume "predict_final_check p = Inr p"
  moreover have "res_map (\<lambda>(k, v). res_bind (py_float L v) (\<lambda>w. Inr (k, w)))
      (map (\<lambda>(k, v). (k, JFloat v)) ws) = Inr ws"
    by (induction ws) auto
  ultimately show ?thesis
    by (simp add: fields predict_final_from_dict_def predict_final_as_dict_def json_simps)
qed

lemma approved_wire: "approved_check p = Inr p \<Longrightarrow> approved_from_dict L (approved_as_dict p) = Inr p"
  by (cases p) (simp add: approved_from_dict_def approved_as_dict_def json_simps)

lemma approved_check_idem: "approved_check p = Inr q \<Longrightarrow> approved_check q = Inr q"
  by (auto simp: approved_check_def res_iffs Let_def)

section \<open>What a decoded payload satisfies\<close>

lemma predict_request_decoded: "predict_request_from_dict L d = Inr p \<Longrightarrow> predict_request_check p = Inr p"
  by (auto simp: predict_request_from_dict_def predict_request_check_def res_iffs)

lemma predict_vote_decoded: "predict_vote_from_dict L d = Inr p \<Longrightarrow> predict_vote_check p = Inr p"
  by (auto simp: predict_vote_from_dict_def predict_vote_check_def res_iffs)

lemma predict_final_decoded: "predict_final_from_dict L d = Inr p \<Longrightarrow> predict_final_check p = Inr p"
  by (auto simp: predict_final_from_dict_def predict_final_check_def res_iffs)

lemma verdict_decoded: "verdict_from_dict L d = Inr p \<Longrightarrow> verdict_check p = Inr p"
  by (auto simp: verdict_from_dict_def verdict_check_def res_iffs)

lemma approved_decoded: "approved_from_dict L d = Inr p \<Longrightarrow> approved_check p = Inr p"
  unfolding approved_from_dict_def res_bind_Inr_iff by (blast dest: approved_check_idem)

text \<open>
  The prediction payloads are stable on the wire: whatever a consumer manages to decode as
  a vote, a final, a verdict or an approval, it can publish again with \<open>as_dict\<close>, and every later
  consumer decodes exactly the same value, whatever the library does with texts and containers.
\<close>

lemma predict_wire_stable:
  "(predict_vote_from_dict L d1 = Inr v \<longrightarrow> predict_vote_from_dict M (predict_vote_as_dict v) = Inr v) \<and>
   (predict_final_from_dict L d2 = Inr f \<longrightarrow> predict_final_from_dict M (predict_final_as_dict f) = Inr f) \<and>
   (verdict_from_dict L d3 = Inr w \<longrightarrow> verdict_from_dict M (verdict_as_dict w) = Inr w) \<and>
   (approved_from_dict L d4 = Inr a \<longrightarrow> approved_from_dict M (approved_as_dict a) = Inr a)"
  by (simp add: predict_vote_wire predict_vote_decoded predict_final_wire predict_final_decoded
      verdict_wire verdict_decoded approved_wire approved_decoded)

definition example_lib :: pylib where
  "example_lib = \<lparr>pl_repr = (\<lambda>_. ''?''), pl_int = (\<lambda>_. None), pl_float = (\<lambda>_. None),
     pl_dict = (\<lambda>_. Inl ValueError)\<rparr>"

section \<open>Identity of predictions\<close>

text \<open>
  Distinct predictions get distinct ids: when neither match ids, markets nor calibration
  versions contain the separator and the digest prefix does not collide on the two texts, equal
  prediction ids force the same match, market, request and calibration version.
\<close>

lemma prediction_id_identifies:
  assumes "CHR ''|'' \<notin> set m1" "CHR ''|'' \<notin> set m2" "CHR ''|'' \<notin> set k1" "CHR ''|'' \<notin> set k2"
    and "CHR ''|'' \<notin> set v1" "CHR ''|'' \<notin> set v2"
    and no_collision: "prediction_blob m1 k1 r1 v1 \<noteq> prediction_blob m2 k2 r2 v2 \<Longrightarrow>
      take 32 (h (prediction_blob m1 k1 r1 v1)) \<noteq> take 32 (h (prediction_blob m2 k2 r2 v2))"
    and "derive_prediction_id h m1 k1 r1 v1 = derive_prediction_id h m2 k2 r2 v2"
  shows "m1 = m2 \<and> k1 = k2 \<and> r1 = r2 \<and> v1 = v2"
proof -
  have "prediction_blob m1 k1 r1 v1 = prediction_blob m2 k2 r2 v2"
    using assms(7,8) by (auto simp: derive_prediction_id_def)
  with assms(1-6) show ?thesis
    by (simp add: prediction_blob_def append_sep_inject append_sep_inject_last)
qed

text \<open>
  A separator inside a match id breaks that identity whatever the digest: two predictions
  on different matches and requests share one id.
\<close>

lemma prediction_id_separator_collision:
  "derive_prediction_id h ''m|1x2|x'' ''1x2'' ''r'' v = derive_prediction_id h ''m'' ''1x2'' ''x|1x2|r'' v"
  by (simp add: derive_prediction_id_def prediction_blob_def)

section \<open>Cut details\<close>

text \<open>
  A flag detail never outgrows the bound that has room for the suffix, keeps a prefix of the
  text when it is cut, and is left alone when it fits; with a bound shorter than the suffix an
  over-long text becomes the whole suffix, which is longer than the bound.
\<close>

lemma truncate_proof_detail_bounds:
  "(int (length suffix) \<le> n \<longrightarrow> int (length (truncate_proof_detail suffix d n)) \<le> n) \<and>
   (int (length t) \<le> n \<longrightarrow> truncate_proof_detail suffix (Some t) n = t) \<and>
   (n < int (length t) \<longrightarrow> t \<noteq> [] \<longrightarrow> (\<exists>k. truncate_proof_detail suffix (Some t) n = take k t @ suffix)) \<and>
   (n < int (length suffix) \<longrightarrow> n < int (length t) \<longrightarrow> t \<noteq> [] \<longrightarrow>
      truncate_proof_detail suffix (Some t) n = suffix)"
  by (auto simp: truncate_proof_detail_def split: option.splits)

end
