(* ===== verification/Ack_Routing.thy ===== *)
theory Ack_Routing
  imports Json
begin

text \<open>
  \<open>swarm/agents/maint/_ack_routing.py\<close>: which agents must acknowledge a maintenance event of each
  kind. The three tables are transcribed entry by entry; a consumer set is a list without
  repetition. \<open>expected_ack_set\<close> is \<^const>\<open>None\<close> where the source raises \<open>KeyError\<close>.
\<close>

section \<open>The tables\<close>

definition ack_routing_table :: "(string \<times> string list) list" where
  "ack_routing_table =
     [
      (''retrain_request'', []), (''retrain_approve'', []),
      (''denylist_clear'', [''sec.rate.v1'']), (''baseline_reset'', [''sec.scrape.v1'']),
      (''quarantine_erase'', [''maint.backup.v1'']), (''quarantine_clear'', [''maint.sec.v1'']),
      (''manual_scale_pin'', [''maint.scaler.v1'']), (''dlq_replay'', [''maint.dlq.v1'']),
      (''dlq_drop_request'', [''maint.dlq.v1'']), (''dlq_unfreeze'', [''maint.dlq.v1'']),
      (''denylist_decimate_now'', [''maint.sec.v1'']),
      (''maint_pause'', [''maint.dlq.v1'', ''maint.scaler.v1'', ''maint.schema.v1'', ''maint.sec.v1'']),
      (''maint_resume'', [''maint.dlq.v1'', ''maint.scaler.v1'', ''maint.schema.v1'', ''maint.sec.v1'']),
      (''backup_now'', []), (''backup_rotate_key'', []), (''restore'', [''maint.backup.v1'']),
      (''allowlist_extend'', []), (''allowlist_approve'', []), (''allowlist_show'', []),
      (''allowlist_rehash'', []), (''allowlist_rotate_key'', []),
      (''nlp_kill_pattern_armed'', [''nlp.answer.v1'']),
      (''nlp_kill_pattern_disarmed'', [''nlp.answer.v1'']),
      (''nlp_flame_armed'', [''nlp.dispatcher.v1'']), (''scale_decision'', []),
      (''scale_throttled'', []), (''maint_clock_source_changed'', []),
      (''trainer_warmup_hint'', []), (''manual_scale_pin_expired'', []),
      (''maint_scaler_default_applied'', []), (''dlq_replayed'', []),
      (''dlq_replay_policy_loaded'', []), (''dlq_escalated'', []),
      (''dlq_topic_disabled_drained'', []), (''dlq_dropped'', []), (''dlq_consumer_broken'', []),
      (''dlq_topic_unfrozen'', []), (''backup_started'', []), (''backup_completed'', []),
      (''backup_verify_orphan_swept'', []), (''prune_started'', []), (''prune_completed'', []),
      (''prune_skipped'', []), (''quarantine_pruned'', []), (''pattern_allowlist_expired'', []),
      (''pii_erased'', []), (''backup_cold_verify_completed'', []),
      (''backup_cold_verify_failed'', []), (''backup_restore_started'', []),
      (''backup_restore_completed'', []), (''backup_age_alert'', []),
      (''backup_key_rotated'', []), (''backup_offsite_uploaded'', []),
      (''backup_offsite_failed'', []), (''backup_verify_failed'', []),
      (''backup_verify_key_rotated'', []), (''denylist_decimate'', []),
      (''denylist_cap_cleared'', []), (''maint_paused'', []), (''maint_resumed'', []),
      (''maint_plane_throttled'', []), (''maint_plane_recovered'', []),
      (''maint_silence_alert'', []), (''maint_unknown_kind'', []),
      (''pattern_allowlist_pending'', []), (''pattern_allowlist_added'', []),
      (''pattern_allowlist_promoted'', []), (''pattern_allowlist_legacy_hit'', []),
      (''schema_drift_detected'', []), (''backup_model_uploaded'', []),
      (''backup_model_offsite_failed'', []), (''backup_model_cold_verify_completed'', []),
      (''backup_model_cold_verify_failed'', []), (''backup_model_lineage_legacy'', []),
      (''backup_model_lineage_drift'', []), (''spool_entry_aged_out'', []),
      (''spool_entry_retired_kind'', []), (''backup_legacy_manifest'', []),
      (''backup_pg_secret_expired'', []), (''backup_key_compromise_acknowledged'', []),
      (''backup_legacy_no_file_manifest'', []), (''spool_flush_partial'', []),
      (''opsctl_key_revoked'', []), (''opsctl_key_rotated'', []), (''audit_chain_verify'', []),
      (''verify_forensic_captured'', []), (''spool_flush_acks_reconciled'', []),
      (''backup_offsite_upload_id_expired'', [])]"

definition kinds_pending_consumer_landing :: "(string \<times> string) list" where
  "kinds_pending_consumer_landing =
     [
      (''retrain_request'', ''Phase 5.x (trainer-as-agent) + Phase 8.2 (scaler warm-up)''),
      (''retrain_approve'', ''Phase 5.x (trainer-as-agent)''),
      (''backup_now'', ''Phase 8.3 (maint.backup.v1)''),
      (''backup_rotate_key'', ''Phase 8.3 (maint.backup.v1)''),
      (''allowlist_extend'', ''Phase 8.7 (maint.sec.v1 allowlist surface)''),
      (''allowlist_approve'', ''Phase 8.7 (maint.sec.v1 allowlist surface)''),
      (''allowlist_show'', ''Phase 8.7 (maint.sec.v1 allowlist surface)''),
      (''allowlist_rehash'', ''Phase 8.16.10 (maint.sec.v1 rehash consumer)''),
      (''allowlist_rotate_key'', ''Phase 8.16.10 (maint.sec.v1 rotation consumer)''),
      (''trainer_warmup_hint'', ''Phase 5.x (trainer-as-agent) pre-warm consumer'')]"

definition kinds_notification_only :: "string list" where
  "kinds_notification_only =
     [
      ''scale_decision'', ''scale_throttled'', ''manual_scale_pin_expired'',
      ''maint_scaler_default_applied'', ''nlp_kill_pattern_armed'', ''nlp_kill_pattern_disarmed'',
      ''nlp_flame_captured'', ''maint_clock_source_changed'', ''dlq_replayed'',
      ''dlq_replay_policy_loaded'', ''dlq_escalated'', ''dlq_topic_disabled_drained'',
      ''dlq_dropped'', ''dlq_consumer_broken'', ''dlq_topic_unfrozen'', ''backup_started'',
      ''backup_completed'', ''backup_verify_orphan_swept'', ''prune_started'',
      ''prune_completed'', ''prune_skipped'', ''quarantine_pruned'',
      ''pattern_allowlist_expired'', ''pattern_allowlist_legacy_hit'', ''pii_erased'',
      ''backup_cold_verify_completed'', ''backup_cold_verify_failed'', ''backup_restore_started'',
      ''backup_restore_completed'', ''backup_age_alert'', ''backup_key_rotated'',
      ''backup_offsite_uploaded'', ''backup_offsite_failed'', ''backup_verify_failed'',
      ''backup_verify_key_rotated'', ''denylist_decimate'', ''denylist_cap_cleared'',
      ''maint_paused'', ''maint_resumed'', ''maint_plane_throttled'', ''maint_plane_recovered'',
      ''maint_silence_alert'', ''maint_unknown_kind'', ''pattern_allowlist_pending'',
      ''pattern_allowlist_added'', ''pattern_allowlist_promoted'', ''schema_drift_detected'',
      ''backup_model_uploaded'', ''backup_model_offsite_failed'',
      ''backup_model_cold_verify_completed'', ''backup_model_cold_verify_failed'',
      ''backup_model_lineage_legacy'', ''backup_model_lineage_drift'', ''spool_entry_aged_out'',
      ''spool_entry_retired_kind'', ''backup_legacy_manifest'', ''backup_pg_secret_expired'',
      ''backup_key_compromise_acknowledged'', ''backup_legacy_no_file_manifest'',
      ''spool_flush_partial'', ''opsctl_key_revoked'', ''opsctl_key_rotated'',
      ''audit_chain_verify'', ''verify_forensic_captured'', ''spool_flush_acks_reconciled'',
      ''backup_offsite_upload_id_expired'']"

definition known_maint_event_kinds :: "string list" where
  "known_maint_event_kinds = map fst ack_routing_table"

section \<open>The look-ups\<close>

definition expected_ack_set :: "string \<Rightarrow> string list option" where
  "expected_ack_set kind = map_of ack_routing_table kind"

definition is_pending_consumer_landing :: "string \<Rightarrow> bool" where
  "is_pending_consumer_landing kind = (map_of kinds_pending_consumer_landing kind \<noteq> None)"

definition is_notification_only :: "string \<Rightarrow> bool" where
  "is_notification_only kind = List.member kinds_notification_only kind"

text \<open>The kinds on which the tables disagree with each other.\<close>

definition kill_pattern_kinds :: "string list" where
  "kill_pattern_kinds = [''nlp_kill_pattern_armed'', ''nlp_kill_pattern_disarmed'']"

text \<open>The kinds an acknowledgement is awaited for.\<close>

definition routed :: "string list" where
  "routed = map fst (filter (\<lambda>(k, v). v \<noteq> []) ack_routing_table)"

lemma unconsumed_routed:
  "filter (\<lambda>k. k \<in> set kinds_notification_only \<or> k \<in> set (map fst kinds_pending_consumer_landing)) routed
     = kill_pattern_kinds"
  by (simp add: routed_def ack_routing_table_def kill_pattern_kinds_def kinds_notification_only_def
      kinds_pending_consumer_landing_def)

lemma kill_pattern_routes:
  "list_all (\<lambda>k. expected_ack_set k = Some [''nlp.answer.v1'']) kill_pattern_kinds"
  "expected_ack_set ''nlp_flame_captured'' = None"
  by (simp_all add: expected_ack_set_def ack_routing_table_def kill_pattern_kinds_def
      map_of_Cons_code del: map_of.simps)

text \<open>
  Nobody waits for an acknowledgement of a kind that is declared to have no consumer
  (pending or notification-only), with one exception on which the tables contradict each other:
  the two kill-pattern kinds are declared notification-only and yet wait for \<open>nlp.answer.v1\<close>. On
  \<open>nlp_flame_captured\<close>, also declared notification-only, the look-up raises.
\<close>

lemma unconsumed_kinds_route_nowhere:
  "(is_pending_consumer_landing k \<or> is_notification_only k \<longrightarrow>
     expected_ack_set k = None \<or> expected_ack_set k = Some [] \<or> k \<in> set kill_pattern_kinds)
   \<and> list_all (\<lambda>k. is_notification_only k \<and> expected_ack_set k = Some [''nlp.answer.v1'']) kill_pattern_kinds
   \<and> is_notification_only ''nlp_flame_captured'' \<and> expected_ack_set ''nlp_flame_captured'' = None"
proof -
  have "expected_ack_set k = None \<or> expected_ack_set k = Some []"
    if "is_pending_consumer_landing k \<or> is_notification_only k" "k \<notin> set kill_pattern_kinds"
  proof (rule ccontr)
    assume "\<not> (expected_ack_set k = None \<or> expected_ack_set k = Some [])"
    then obtain v where "(k, v) \<in> set ack_routing_table" "v \<noteq> []"
      by (auto simp: expected_ack_set_def dest: map_of_SomeD)
    then have "k \<in> set routed"
      by (force simp: routed_def)
    moreover have "k \<in> set kinds_notification_only \<or> k \<in> set (map fst kinds_pending_consumer_landing)"
      using that(1) by (auto simp: is_notification_only_def is_pending_consumer_landing_def map_of_None_keys)
    ultimately have "k \<in> set kill_pattern_kinds"
      unfolding unconsumed_routed [symmetric] by simp
    with that(2) show False by simp
  qed
  moreover have "list_all is_notification_only (''nlp_flame_captured'' # kill_pattern_kinds)"
    by (simp add: is_notification_only_def kinds_notification_only_def kill_pattern_kinds_def)
  ultimately show ?thesis
    using kill_pattern_routes by (auto simp: list_all_iff)
qed

end
