(* ===== verification/Wire_Ops.thy ===== *)
theory Wire_Ops
  imports Ack_Routing Wire_Predict
begin

text \<open>
  The operations-side payload classes of \<open>swarm/agents/payloads.py\<close>: maintenance events and
  their acknowledgements, questions, security alerts, quarantine samples, denylist and
  configuration events, with the dual-emit routing of \<open>swarm/sdk/_dual_emit_helper.py\<close> and the
  registries of \<open>swarm/sdk/wire_contracts.py\<close> that the alert class consults.
\<close>

section \<open>Vocabularies\<close>

definition allowed_maint_kinds :: "string list" where
  "allowed_maint_kinds =
     [
      ''retrain_request'', ''recalibration_request'', ''denylist_clear'', ''baseline_reset'',
      ''quarantine_erase'', ''nlp_kill_pattern_armed'', ''nlp_kill_pattern_disarmed'',
      ''nlp_flame_armed'', ''nlp_flame_captured'']"

definition allowed_drift_reasons :: "string list" where
  "allowed_drift_reasons =
     [
      ''brier_floor'', ''logloss_floor'', ''feature_ks'']"

definition allowed_qa_verdicts :: "string list" where
  "allowed_qa_verdicts =
     [
      ''pass'', ''sanitized'']"

definition allowed_sec_severities :: "string list" where
  "allowed_sec_severities =
     [
      ''info'', ''warn'', ''error'', ''critical'']"

definition sec_alert_producers :: "string list" where
  "sec_alert_producers =
     [
      ''sec.input.v1'', ''sec.scrape.v1'', ''sec.rate.v1'', ''maint.deadmans.v1'',
      ''maint.dlq.v1'', ''maint.scaler.v1'', ''maint.schema.v1'', ''maint.backup.v1'',
      ''maint.storage.v1'', ''source.watcher.v1'', ''telemetry.v1'', ''ops_console'']"

definition known_sec_alert_kinds :: "string list" where
  "known_sec_alert_kinds =
     [
      ''prompt_injection'', ''payload_oversize'', ''charset_anomaly'', ''language_spoof'',
      ''homoglyph_attack'', ''classifier_degraded'', ''classifier_load_shed'', ''pattern_reload'',
      ''quarantine_overflow'', ''quarantine_storage_slow'', ''dom_size_delta'', ''suspicious_js'',
      ''encoded_redirect'', ''content_type_mismatch'', ''inflate_ratio_outlier'', ''seed_drift'',
      ''baseline_warmup'', ''baseline_reset'', ''rate_burst'', ''rate_throttled'',
      ''rate_redis_degraded'', ''rate_script_reloaded'', ''denylist_added'', ''denylist_removed'',
      ''denylist_growth_anomaly'', ''subject_map_churn'', ''maint_silence_alert'',
      ''maint_self_dlq_alert'', ''maint_ack_oversize'', ''maint_scaler_unconfigured_agent'',
      ''maint_scaler_orphan_cfg'', ''vram_footprint_unknown'', ''scaler_noise_window_active'',
      ''schema_auto_apply_misconfigured'', ''maint_schema_sample_rate_too_high'',
      ''maint_storage_pressure'', ''dlq_backlog_high'', ''dlq_state_pressure'',
      ''dlq_recursion_blocked'', ''maint_advisory_lock_held_long'',
      ''advisory_lock_key_collision'', ''backup_clock_skew'', ''backup_age_alert'',
      ''backup_verify_failed'', ''backup_disk_pressure'', ''backup_unencrypted'',
      ''backup_dump_file_corrupted'', ''backup_model_lineage_missing'', ''spool_entry_aged_out'',
      ''spool_entry_retired_kind'', ''summarizer_unreachable'', ''summarizer_cost_capped'',
      ''consumer_likely_broken'', ''maint_plane_lag_high'', ''backup_commit_sha_unavailable'',
      ''backup_dump_too_old'', ''backup_migration_drop_detected'', ''maint_pause_rejected'',
      ''backup_pg_secret_expired'', ''maint_ack_legacy_schema'',
      ''maint_audit_partition_missing'', ''scaler_target_forbidden'',
      ''backup_verify_pg_version_mismatch'', ''opsctl_signature_invalid'',
      ''opsctl_unauthorized'', ''opsctl_key_rotation_overdue'', ''opsctl_operators_unreadable'',
      ''opsctl_key_rate_limited'', ''fail_safe_age_version_mismatch_local'',
      ''maint_clock_source_unsupported'', ''audit_row_oversize'', ''audit_log_integrity_break'',
      ''verify_concurrency_blocked'', ''offsite_credential_rotation_required'',
      ''spool_flush_acks_incomplete'', ''backup_offsite_lifecycle_too_aggressive'',
      ''backup_offsite_preflight_failed'', ''allowlist_hmac_key_rotation_overdue'']"

definition sec_alert_kinds_by_producer :: "string \<Rightarrow> string list option" where
  "sec_alert_kinds_by_producer =
     [''telemetry.v1'' \<mapsto> [''maint_silence_alert''],
      ''ops_console'' \<mapsto> [''maint_ack_legacy_schema'', ''nlp_kill_pattern_armed'']]"

section \<open>Dual-emit routing\<close>

definition maint_event_topic :: string where
  "maint_event_topic = ''maint.event.v1''"

definition sec_alert_topic :: string where
  "sec_alert_topic = ''sec.alert.v1''"

definition kind_topic_table :: "string \<Rightarrow> string list option" where
  "kind_topic_table =
     [''backup_completed'' \<mapsto> [maint_event_topic],
      ''backup_verify_failed'' \<mapsto> [maint_event_topic, sec_alert_topic],
      ''opsctl_signature_invalid'' \<mapsto> [sec_alert_topic]]"

text \<open>\<open>derive_event_correlation_id\<close>, \<open>_known_kind_membership\<close> and \<open>route_topics_for_kind\<close>.\<close>

definition derive_event_correlation_id ::
  "(string \<Rightarrow> string) \<Rightarrow> string \<Rightarrow> string option \<Rightarrow> string \<Rightarrow> string" where
  "derive_event_correlation_id hexdigest kind target produced_at =
     take 16 (hexdigest (kind @ ''|'' @ (case target of None \<Rightarrow> [] | Some t \<Rightarrow> t) @ ''|'' @ produced_at))"

definition known_kind_membership :: "string \<Rightarrow> bool \<times> bool" where
  "known_kind_membership kind =
     (List.member known_maint_event_kinds kind, List.member known_sec_alert_kinds kind)"

definition route_topics_for_kind :: "string \<Rightarrow> string list res" where
  "route_topics_for_kind kind =
     (if kind = [] then Inl ValueError
      else case kind_topic_table kind of
        Some topics \<Rightarrow> Inr topics
      | None \<Rightarrow>
          (case known_kind_membership kind of
             (True, True) \<Rightarrow> Inr [maint_event_topic, sec_alert_topic]
           | (True, False) \<Rightarrow> Inr [maint_event_topic]
           | (False, True) \<Rightarrow> Inr [sec_alert_topic]
           | (False, False) \<Rightarrow> Inl ValueError))"

section \<open>Maintenance events and acknowledgements\<close>

record maint_event =
  me_kind :: string
  me_target :: string
  me_reason :: string
  me_league_id :: jval
  me_market :: jval
  me_metric :: string
  me_metric_value :: real
  me_threshold :: real
  me_sample_size :: int
  me_produced_at :: string

text \<open>\<open>MaintEvent.__post_init__\<close>, \<open>as_dict\<close> and \<open>from_dict\<close>.\<close>

definition maint_event_check :: "maint_event \<Rightarrow> maint_event res" where
  "maint_event_check p =
     require (me_kind p \<in> set allowed_maint_kinds) (
     require (\<not> (me_kind p = ''retrain_request'' \<and> me_reason p \<notin> set allowed_drift_reasons)) (
     require (me_target p \<noteq> []) (
     Inr p)))"

definition maint_event_as_dict :: "maint_event \<Rightarrow> jobj" where
  "maint_event_as_dict p =
     [(''kind'', JStr (me_kind p)),
      (''target'', JStr (me_target p)),
      (''reason'', JStr (me_reason p)),
      (''league_id'', me_league_id p),
      (''market'', me_market p),
      (''metric'', JStr (me_metric p)),
      (''metric_value'', JFloat (me_metric_value p)),
      (''threshold'', JFloat (me_threshold p)),
      (''sample_size'', JInt (me_sample_size p)),
      (''produced_at'', JStr (me_produced_at p))]"

definition maint_event_from_dict :: "pylib \<Rightarrow> jobj \<Rightarrow> maint_event res" where
  "maint_event_from_dict L d =
     res_bind (get_str L d ''kind'') (\<lambda>kind.
     res_bind (get_str L d ''target'') (\<lambda>target.
     res_bind (get_str L d ''reason'') (\<lambda>reason.
     res_bind (py_float L (jget_or d ''metric_value'' (JFloat 0))) (\<lambda>metric_value.
     res_bind (py_float L (jget_or d ''threshold'' (JFloat 0))) (\<lambda>threshold.
     res_bind (py_int L (jget_or d ''sample_size'' (JInt 0))) (\<lambda>sample_size.
     maint_event_check \<lparr>me_kind = kind,
        me_target = target,
        me_reason = reason,
        me_league_id = jget_or d ''league_id'' JNull,
        me_market = jget_or d ''market'' JNull,
        me_metric = str_or L d ''metric'' [],
        me_metric_value = metric_value,
        me_threshold = threshold,
        me_sample_size = sample_size,
        me_produced_at = str_or L d ''produced_at'' []\<rparr>))))))"

record maint_ack =
  ma_request_id :: string
  ma_accepted :: bool
  ma_accepted_by :: string
  ma_processed_at :: string
  ma_attempt :: int
  ma_reason :: string
  ma_details :: "jobj option"
  ma_trace_id :: "string option"
  ma_schema_version :: int

text \<open>
  \<open>MaintAck\<close>: \<open>as_dict\<close> leaves out an empty reason, missing details and a missing trace id;
  \<open>from_dict\<close> reads a trace id only when it is truthy.
\<close>

definition maint_ack_check :: "maint_ack \<Rightarrow> maint_ack res" where
  "maint_ack_check p =
     require (ma_request_id p \<noteq> []) (
     require (ma_accepted_by p \<noteq> []) (
     require (ma_processed_at p \<noteq> []) (
     require (1 \<le> ma_attempt p) (
     require (1 \<le> ma_schema_version p) (
     Inr p)))))"

definition maint_ack_as_dict :: "maint_ack \<Rightarrow> jobj" where
  "maint_ack_as_dict p =
     [(''request_id'', JStr (ma_request_id p)),
      (''accepted'', JBool (ma_accepted p)),
      (''accepted_by'', JStr (ma_accepted_by p)),
      (''processed_at'', JStr (ma_processed_at p)),
      (''attempt'', JInt (ma_attempt p)),
      (''schema_version'', JInt (ma_schema_version p))]
     @ (if ma_reason p \<noteq> [] then [(''reason'', JStr (ma_reason p))] else [])
     @ (case ma_details p of None \<Rightarrow> [] | Some d \<Rightarrow> [(''details'', JObj d)])
     @ (case ma_trace_id p of None \<Rightarrow> [] | Some t \<Rightarrow> [(''trace_id'', JStr t)])"

definition maint_ack_from_dict :: "pylib \<Rightarrow> jobj \<Rightarrow> maint_ack res" where
  "maint_ack_from_dict L d =
     res_bind (get_str L d ''request_id'') (\<lambda>request_id.
     res_bind (jget d ''accepted'') (\<lambda>accepted.
     res_bind (get_str L d ''accepted_by'') (\<lambda>accepted_by.
     res_bind (get_str L d ''processed_at'') (\<lambda>processed_at.
     res_bind (py_int L (jget_or d ''attempt'' (JInt 1))) (\<lambda>attempt.
     res_bind (py_int L (jget_or d ''schema_version'' (JInt 1))) (\<lambda>schema_version.
     maint_ack_check \<lparr>ma_request_id = request_id,
        ma_accepted = py_bool accepted,
        ma_accepted_by = accepted_by,
        ma_processed_at = processed_at,
        ma_attempt = attempt,
        ma_reason = str_or L d ''reason'' [],
        ma_details = (case jget_or d ''details'' JNull of JObj m \<Rightarrow> Some m | _ \<Rightarrow> None),
        ma_trace_id = (let j = jget_or d ''trace_id'' JNull in
          if py_bool j then Some (py_str L j) else None),
        ma_schema_version = schema_version\<rparr>))))))"

section \<open>Questions\<close>

record qa_request =
  qr_request_id :: string
  qr_raw_text :: string
  qr_ip :: string
  qr_locale :: string
  qr_client_id :: jval
  qr_received_at :: string

definition qa_request_as_dict :: "qa_request \<Rightarrow> jobj" where
  "qa_request_as_dict p =
     [(''request_id'', JStr (qr_request_id p)),
      (''raw_text'', JStr (qr_raw_text p)),
      (''ip'', JStr (qr_ip p)),
      (''locale'', JStr (qr_locale p)),
      (''client_id'', qr_client_id p),
      (''received_at'', JStr (qr_received_at p))]"

definition qa_request_from_dict :: "pylib \<Rightarrow> jobj \<Rightarrow> qa_request res" where
  "qa_request_from_dict L d =
     res_bind (get_str L d ''request_id'') (\<lambda>request_id.
     res_bind (get_str L d ''raw_text'') (\<lambda>raw_text.
     res_bind (get_str L d ''ip'') (\<lambda>ip.
     Inr \<lparr>qr_request_id = request_id,
        qr_raw_text = raw_text,
        qr_ip = ip,
        qr_locale = str_or L d ''locale'' ''tr'',
        qr_client_id = jget_or d ''client_id'' JNull,
        qr_received_at = str_or L d ''received_at'' []\<rparr>)))"

record qa_request_v1 =
  qv_request_id :: string
  qv_sanitized_text :: string
  qv_locale :: string
  qv_sec_verdict :: string
  qv_answer_format :: "string option"
  qv_input_source :: "string option"
  qv_keyboard_hint :: "string option"
  qv_sec_steps_run :: "string list"
  qv_client_id :: jval
  qv_conversation_id :: jval
  qv_request_metadata :: "jobj option"
  qv_emitted_at :: string

text \<open>
  \<open>QaRequestV1\<close>: the locale \<open>tr\<close> is normalised to \<open>tr-TR\<close>; \<open>str.strip\<close> is modelled on ASCII white
  space.
\<close>

definition is_space :: "char \<Rightarrow> bool" where
  "is_space c \<longleftrightarrow> (let n = (of_char c :: nat) in n = 32 \<or> 9 \<le> n \<and> n \<le> 13 \<or> 28 \<le> n \<and> n \<le> 31)"

definition py_strip :: "string \<Rightarrow> string" where
  "py_strip s = rev (dropWhile is_space (rev (dropWhile is_space s)))"

definition one_of_or_none :: "string list \<Rightarrow> string option \<Rightarrow> bool" where
  "one_of_or_none vs v = (case v of None \<Rightarrow> True | Some s \<Rightarrow> s \<in> set vs)"

definition qa_request_v1_check :: "qa_request_v1 \<Rightarrow> qa_request_v1 res" where
  "qa_request_v1_check p0 =
     require (qv_sec_verdict p0 \<in> set allowed_qa_verdicts) (
     let p = (if qv_locale p0 = ''tr'' then p0\<lparr>qv_locale := ''tr-TR''\<rparr> else p0) in
     require (qv_locale p = ''tr-TR'') (
     require (one_of_or_none [''plain'', ''markdown_safe'', ''screen_reader'', ''whatsapp_4096'',
       ''sms_160'', ''tts_neutral''] (qv_answer_format p)) (
     require (one_of_or_none [''keyboard'', ''voice'', ''paste'', ''unknown''] (qv_input_source p)) (
     require (one_of_or_none [''q'', ''f'', ''swipe'', ''unknown''] (qv_keyboard_hint p)) (
     Inr p)))))"

definition qa_request_v1_as_dict :: "qa_request_v1 \<Rightarrow> jobj" where
  "qa_request_v1_as_dict p =
     [(''request_id'', JStr (qv_request_id p)),
      (''sanitized_text'', JStr (qv_sanitized_text p)),
      (''locale'', JStr (qv_locale p)),
      (''sec_verdict'', JStr (qv_sec_verdict p))]
     @ (case qv_answer_format p of None \<Rightarrow> [] | Some f \<Rightarrow> [(''answer_format'', JStr f)])
     @ [(''input_source'', jopt (qv_input_source p)),
      (''keyboard_hint'', jopt (qv_keyboard_hint p)),
      (''sec_steps_run'', jstrs (qv_sec_steps_run p)),
      (''client_id'', qv_client_id p),
      (''conversation_id'', qv_conversation_id p)]
     @ (case qv_request_metadata p of None \<Rightarrow> [] | Some m \<Rightarrow> [(''request_metadata'', JObj m)])
     @ [(''emitted_at'', JStr (qv_emitted_at p))]"

definition keyboard_hint_class :: "qa_request_v1 \<Rightarrow> string" where
  "keyboard_hint_class p = (case qv_keyboard_hint p of
     Some h \<Rightarrow> if h \<in> {''q'', ''f'', ''swipe''} then h else ''unknown'' | None \<Rightarrow> ''unknown'')"

definition safe_log_payload :: "qa_request_v1 \<Rightarrow> jobj" where
  "safe_log_payload p =
     [(''request_id'', JStr (qv_request_id p)),
      (''locale'', JStr (qv_locale p)),
      (''input_source'', jopt (qv_input_source p)),
      (''keyboard_hint_class'', JStr (keyboard_hint_class p)),
      (''conversation_id'', qv_conversation_id p),
      (''answer_format'', jopt (qv_answer_format p))]"

definition qa_request_v1_from_dict :: "pylib \<Rightarrow> jobj \<Rightarrow> qa_request_v1 res" where
  "qa_request_v1_from_dict L d =
     res_bind (get_str L d ''request_id'') (\<lambda>request_id.
     res_bind (get_str L d ''sanitized_text'') (\<lambda>sanitized_text.
     res_bind (get_str L d ''locale'') (\<lambda>locale.
     res_bind (get_str L d ''sec_verdict'') (\<lambda>sec_verdict.
     res_bind (strs_or_empty L d ''sec_steps_run'') (\<lambda>sec_steps_run.
     qa_request_v1_check \<lparr>qv_request_id = request_id,
        qv_sanitized_text = sanitized_text,
        qv_locale = locale,
        qv_sec_verdict = sec_verdict,
        qv_answer_format = opt_str L d ''answer_format'',
        qv_input_source = opt_str L d ''input_source'',
        qv_keyboard_hint = map_option (\<lambda>s. py_lower (py_strip s)) (opt_str L d ''keyboard_hint''),
        qv_sec_steps_run = sec_steps_run,
        qv_client_id = jget_or d ''client_id'' JNull,
        qv_conversation_id = jget_or d ''conversation_id'' JNull,
        qv_request_metadata = (case jget_or d ''request_metadata'' JNull of JObj m \<Rightarrow> Some m | _ \<Rightarrow> None),
        qv_emitted_at = str_or L d ''emitted_at'' []\<rparr>)))))"

section \<open>Alerts\<close>

record sec_alert =
  sa_alert_id :: string
  sa_kind :: string
  sa_severity :: string
  sa_source :: string
  sa_reason :: string
  sa_produced_at :: string
  sa_subject :: jval
  sa_request_id :: jval
  sa_client_id :: jval
  sa_ip :: jval
  sa_evidence_ref :: jval
  sa_event_correlation_id :: jval

text \<open>
  \<open>_OPEN_ENUM_KIND_RE.match\<close>: the pattern is \<open>^[a-z][a-z0-9_]{0,63}$\<close>, whose \<open>$\<close> also matches
  just before a final line feed.
\<close>

definition kind_char :: "char \<Rightarrow> bool" where
  "kind_char c \<longleftrightarrow> (let n = (of_char c :: nat) in 97 \<le> n \<and> n \<le> 122 \<or> 48 \<le> n \<and> n \<le> 57 \<or> n = 95)"

definition kind_word :: "string \<Rightarrow> bool" where
  "kind_word s = (case s of [] \<Rightarrow> False
     | c # cs \<Rightarrow> 97 \<le> (of_char c :: nat) \<and> (of_char c :: nat) \<le> 122 \<and> length cs \<le> 63 \<and> list_all kind_char cs)"

definition open_enum_kind :: "string \<Rightarrow> bool" where
  "open_enum_kind s \<longleftrightarrow> kind_word s \<or> s \<noteq> [] \<and> last s = CHR 0x0A \<and> kind_word (butlast s)"

definition kind_allowed :: "string \<Rightarrow> string \<Rightarrow> bool" where
  "kind_allowed source kind = (case sec_alert_kinds_by_producer source of
     None \<Rightarrow> True | Some allowed \<Rightarrow> kind \<in> set allowed)"

definition sec_alert_check :: "(string \<Rightarrow> string) \<Rightarrow> sec_alert \<Rightarrow> sec_alert res" where
  "sec_alert_check hexdigest p =
     require (sa_severity p \<in> set allowed_sec_severities) (
     require (sa_source p \<in> set sec_alert_producers) (
     require (sa_kind p \<noteq> []) (
     require (open_enum_kind (sa_kind p)) (
     require (kind_allowed (sa_source p) (sa_kind p)) (
     Inr (if sa_event_correlation_id p = JNull
       then
         let topics = (case route_topics_for_kind (sa_kind p) of Inl e \<Rightarrow> [] | Inr ts \<Rightarrow> ts) in
         if maint_event_topic \<in> set topics \<and> sec_alert_topic \<in> set topics
         then p\<lparr>sa_event_correlation_id :=
           JStr (derive_event_correlation_id hexdigest (sa_kind p) (Some (sa_source p)) (sa_produced_at p))\<rparr>
         else p
       else p))))))"

definition sec_alert_as_dict :: "sec_alert \<Rightarrow> jobj" where
  "sec_alert_as_dict p =
     [(''alert_id'', JStr (sa_alert_id p)),
      (''kind'', JStr (sa_kind p)),
      (''severity'', JStr (sa_severity p)),
      (''source'', JStr (sa_source p)),
      (''reason'', JStr (sa_reason p)),
      (''produced_at'', JStr (sa_produced_at p)),
      (''subject'', sa_subject p),
      (''request_id'', sa_request_id p),
      (''client_id'', sa_client_id p),
      (''ip'', sa_ip p),
      (''evidence_ref'', sa_evidence_ref p),
      (''event_correlation_id'', sa_event_correlation_id p)]"

definition sec_alert_from_dict :: "(string \<Rightarrow> string) \<Rightarrow> pylib \<Rightarrow> jobj \<Rightarrow> sec_alert res" where
  "sec_alert_from_dict hexdigest L d =
     res_bind (get_str L d ''alert_id'') (\<lambda>alert_id.
     res_bind (get_str L d ''kind'') (\<lambda>kind.
     res_bind (get_str L d ''severity'') (\<lambda>severity.
     res_bind (get_str L d ''source'') (\<lambda>source.
     res_bind (get_str L d ''reason'') (\<lambda>reason.
     res_bind (get_str L d ''produced_at'') (\<lambda>produced_at.
     sec_alert_check hexdigest \<lparr>sa_alert_id = alert_id,
        sa_kind = kind,
        sa_severity = severity,
        sa_source = source,
        sa_reason = reason,
        sa_produced_at = produced_at,
        sa_subject = jget_or d ''subject'' JNull,
        sa_request_id = jget_or d ''request_id'' JNull,
        sa_client_id = jget_or d ''client_id'' JNull,
        sa_ip = jget_or d ''ip'' JNull,
        sa_evidence_ref = jget_or d ''evidence_ref'' JNull,
        sa_event_correlation_id = jget_or d ''event_correlation_id'' JNull\<rparr>))))))"

section \<open>Quarantine, denylist and configuration events\<close>

record quarantine_sample =
  qs_quarantine_id :: string
  qs_source :: string
  qs_raw_bytes_b64 :: string
  qs_verdict :: string
  qs_reasons :: "string list"
  qs_detected_at :: string
  qs_pii_redacted :: bool
  qs_client_id :: jval
  qs_ip :: jval
  qs_bytes_sha256 :: string

text \<open>\<open>QuarantineSample.__post_init__\<close>, \<open>as_dict\<close> and \<open>from_dict\<close>.\<close>

definition quarantine_sample_check :: "quarantine_sample \<Rightarrow> quarantine_sample res" where
  "quarantine_sample_check p =
     require (qs_source p \<in> {''qa'', ''scrape''}) (
     require (qs_verdict p = ''quarantine'') (
     require (qs_reasons p \<noteq> []) (
     Inr p)))"

definition quarantine_sample_as_dict :: "quarantine_sample \<Rightarrow> jobj" where
  "quarantine_sample_as_dict p =
     [(''quarantine_id'', JStr (qs_quarantine_id p)),
      (''source'', JStr (qs_source p)),
      (''raw_bytes_b64'', JStr (qs_raw_bytes_b64 p)),
      (''verdict'', JStr (qs_verdict p)),
      (''reasons'', jstrs (qs_reasons p)),
      (''detected_at'', JStr (qs_detected_at p)),
      (''pii_redacted'', JBool (qs_pii_redacted p)),
      (''client_id'', qs_client_id p),
      (''ip'', qs_ip p),
      (''bytes_sha256'', JStr (qs_bytes_sha256 p))]"

definition quarantine_sample_from_dict :: "pylib \<Rightarrow> jobj \<Rightarrow> quarantine_sample res" where
  "quarantine_sample_from_dict L d =
     res_bind (get_str L d ''quarantine_id'') (\<lambda>quarantine_id.
     res_bind (get_str L d ''source'') (\<lambda>source.
     res_bind (get_str L d ''raw_bytes_b64'') (\<lambda>raw_bytes_b64.
     res_bind (get_str L d ''verdict'') (\<lambda>verdict.
     res_bind (strs_or_empty L d ''reasons'') (\<lambda>reasons.
     res_bind (get_str L d ''detected_at'') (\<lambda>detected_at.
     quarantine_sample_check \<lparr>qs_quarantine_id = quarantine_id,
        qs_source = source,
        qs_raw_bytes_b64 = raw_bytes_b64,
        qs_verdict = verdict,
        qs_reasons = reasons,
        qs_detected_at = detected_at,
        qs_pii_redacted = py_bool (jget_or d ''pii_redacted'' (JBool False)),
        qs_client_id = jget_or d ''client_id'' JNull,
        qs_ip = jget_or d ''ip'' JNull,
        qs_bytes_sha256 = str_or L d ''bytes_sha256'' []\<rparr>))))))"

record denylist_event =
  de_event_id :: string
  de_action :: string
  de_subject :: string
  de_reason :: string
  de_decided_at :: string
  de_ttl_s :: int

text \<open>\<open>DenylistEvent.__post_init__\<close>, \<open>as_dict\<close> and \<open>from_dict\<close>.\<close>

definition denylist_event_check :: "denylist_event \<Rightarrow> denylist_event res" where
  "denylist_event_check p =
     require (de_action p \<in> {''add'', ''remove''}) (
     require (de_subject p \<noteq> []) (
     require (\<not> (de_action p = ''add'' \<and> de_ttl_s p \<le> 0)) (
     Inr p)))"

definition denylist_event_as_dict :: "denylist_event \<Rightarrow> jobj" where
  "denylist_event_as_dict p =
     [(''event_id'', JStr (de_event_id p)),
      (''action'', JStr (de_action p)),
      (''subject'', JStr (de_subject p)),
      (''reason'', JStr (de_reason p)),
      (''decided_at'', JStr (de_decided_at p)),
      (''ttl_s'', JInt (de_ttl_s p))]"

definition denylist_event_from_dict :: "pylib \<Rightarrow> jobj \<Rightarrow> denylist_event res" where
  "denylist_event_from_dict L d =
     res_bind (get_str L d ''event_id'') (\<lambda>event_id.
     res_bind (get_str L d ''action'') (\<lambda>action.
     res_bind (get_str L d ''subject'') (\<lambda>subject.
     res_bind (get_str L d ''reason'') (\<lambda>reason.
     res_bind (get_str L d ''decided_at'') (\<lambda>decided_at.
     res_bind (py_int L (jget_or d ''ttl_s'' (JInt 0))) (\<lambda>ttl_s.
     denylist_event_check \<lparr>de_event_id = event_id,
        de_action = action,
        de_subject = subject,
        de_reason = reason,
        de_decided_at = decided_at,
        de_ttl_s = ttl_s\<rparr>))))))"

record sec_config_event =
  ce_config_name :: string
  ce_sha256 :: string
  ce_mtime_ns :: int
  ce_emitted_at :: string

text \<open>\<open>SecConfigEvent.__post_init__\<close>, \<open>as_dict\<close> and \<open>from_dict\<close>.\<close>

definition sec_config_event_check :: "sec_config_event \<Rightarrow> sec_config_event res" where
  "sec_config_event_check p =
     require (ce_config_name p \<in> {''injection_patterns'', ''endpoint_costs''}) (
     require (length (ce_sha256 p) = 64) (
     require (0 \<le> ce_mtime_ns p) (
     Inr p)))"

definition sec_config_event_as_dict :: "sec_config_event \<Rightarrow> jobj" where
  "sec_config_event_as_dict p =
     [(''config_name'', JStr (ce_config_name p)),
      (''sha256'', JStr (ce_sha256 p)),
      (''mtime_ns'', JInt (ce_mtime_ns p)),
      (''emitted_at'', JStr (ce_emitted_at p))]"

definition sec_config_event_from_dict :: "pylib \<Rightarrow> jobj \<Rightarrow> sec_config_event res" where
  "sec_config_event_from_dict L d =
     res_bind (get_str L d ''config_name'') (\<lambda>config_name.
     res_bind (get_str L d ''sha256'') (\<lambda>sha256.
     res_bind (py_int L (jget_or d ''mtime_ns'' (JInt 0))) (\<lambda>mtime_ns.
     res_bind (get_str L d ''emitted_at'') (\<lambda>emitted_at.
     sec_config_event_check \<lparr>ce_config_name = config_name,
        ce_sha256 = sha256,
        ce_mtime_ns = mtime_ns,
        ce_emitted_at = emitted_at\<rparr>))))"

section \<open>Round trips\<close>

lemma maint_event_wire: "maint_event_check p = Inr p \<Longrightarrow> maint_event_from_dict L (maint_event_as_dict p) = Inr p"
  by (cases p) (simp add: maint_event_from_dict_def maint_event_as_dict_def json_simps)

lemma qa_request_wire: "qa_request_from_dict L (qa_request_as_dict p) = Inr p"
  by (cases p) (simp add: qa_request_from_dict_def qa_request_as_dict_def json_simps)

lemma quarantine_sample_wire: "quarantine_sample_check p = Inr p \<Longrightarrow> quarantine_sample_from_dict L (quarantine_sample_as_dict p) = Inr p"
  by (cases p) (simp add: quarantine_sample_from_dict_def quarantine_sample_as_dict_def json_simps)

lemma denylist_event_wire: "denylist_event_check p = Inr p \<Longrightarrow> denylist_event_from_dict L (denylist_event_as_dict p) = Inr p"
  by (cases p) (simp add: denylist_event_from_dict_def denylist_event_as_dict_def json_simps)

lemma sec_config_event_wire: "sec_config_event_check p = Inr p \<Longrightarrow> sec_config_event_from_dict L (sec_config_event_as_dict p) = Inr p"
  by (cases p) (simp add: sec_config_event_from_dict_def sec_config_event_as_dict_def json_simps)

section \<open>What a decoded payload satisfies\<close>

lemma maint_event_decoded: "maint_event_from_dict L d = Inr p \<Longrightarrow> maint_event_check p = Inr p"
  by (auto simp: maint_event_from_dict_def maint_event_check_def res_iffs)

lemma denylist_event_decoded: "denylist_event_from_dict L d = Inr p \<Longrightarrow> denylist_event_check p = Inr p"
  by (auto simp: denylist_event_from_dict_def denylist_event_check_def res_iffs)

lemma quarantine_sample_decoded:
  "quarantine_sample_from_dict L d = Inr p \<Longrightarrow> quarantine_sample_check p = Inr p"
  by (auto simp: quarantine_sample_from_dict_def quarantine_sample_check_def res_iffs)

lemma sec_config_event_decoded:
  "sec_config_event_from_dict L d = Inr p \<Longrightarrow> sec_config_event_check p = Inr p"
  by (auto simp: sec_config_event_from_dict_def sec_config_event_check_def res_iffs)

lemma sec_alert_check_idem: "sec_alert_check h p = Inr q \<Longrightarrow> sec_alert_check h q = Inr q"
  by (auto simp: sec_alert_check_def res_iffs Let_def split: if_splits)

lemma sec_alert_decoded: "sec_alert_from_dict h L d = Inr p \<Longrightarrow> sec_alert_check h p = Inr p"
  unfolding sec_alert_from_dict_def res_bind_Inr_iff by (blast dest: sec_alert_check_idem)

lemma sec_alert_wire: "sec_alert_check h p = Inr p \<Longrightarrow> sec_alert_from_dict h L (sec_alert_as_dict p) = Inr p"
  by (cases p) (simp add: sec_alert_from_dict_def sec_alert_as_dict_def json_simps)

lemma py_str_nonempty: "\<forall>j. pl_repr L j \<noteq> [] \<Longrightarrow> py_bool j \<Longrightarrow> py_str L j \<noteq> []"
  by (cases j) auto

lemma maint_ack_rebuilt:
  "maint_ack_from_dict L (maint_ack_as_dict p) =
     maint_ack_check (p\<lparr>ma_trace_id := if ma_trace_id p = Some [] then None else ma_trace_id p\<rparr>)"
  by (cases p) (auto simp: maint_ack_from_dict_def maint_ack_as_dict_def json_simps Let_def split: option.splits)

text \<open>
  An acknowledgement that passes its checks survives \<open>as_dict\<close> and \<open>from_dict\<close> exactly when
  its trace id is not the empty text (which is written but read back as missing); one that was
  decoded never has that trace id, as no value prints as the empty text, so from then on it is
  stable.
\<close>

lemma maint_ack_round_trip:
  "(maint_ack_check p = Inr p \<longrightarrow>
      (maint_ack_from_dict L (maint_ack_as_dict p) = Inr p \<longleftrightarrow> ma_trace_id p \<noteq> Some [])) \<and>
   ((\<forall>j. pl_repr M j \<noteq> []) \<longrightarrow> maint_ack_from_dict M d = Inr q \<longrightarrow> maint_ack_from_dict L (maint_ack_as_dict q) = Inr q)"
proof -
  have "maint_ack_check r = Inr s \<Longrightarrow> r = s" for r s
    by (auto simp: maint_ack_check_def res_iffs)
  moreover have "p\<lparr>ma_trace_id := None\<rparr> \<noteq> p" if "ma_trace_id p = Some []"
    using that by (metis maint_ack.select_convs(8) maint_ack.surjective maint_ack.update_convs(8) option.distinct(1))
  moreover have "maint_ack_check q = Inr q \<and> ma_trace_id q \<noteq> Some []"
    if "\<forall>j. pl_repr M j \<noteq> []" "maint_ack_from_dict M d = Inr q"
    using that by (auto simp: maint_ack_from_dict_def maint_ack_check_def res_iffs Let_def py_str_nonempty
        split: if_splits)
  ultimately show ?thesis
    by (auto simp: maint_ack_rebuilt)
qed

text \<open>
  The operations payloads are stable on the wire: a maintenance event, a security alert, a
  quarantine sample, a denylist event or a configuration event that one consumer decodes can be
  published again and is decoded to the same value by the next.
\<close>

lemma ops_wire_stable:
  "(maint_event_from_dict L d1 = Inr e \<longrightarrow> maint_event_from_dict M (maint_event_as_dict e) = Inr e) \<and>
   (sec_alert_from_dict h L d2 = Inr a \<longrightarrow> sec_alert_from_dict h M (sec_alert_as_dict a) = Inr a) \<and>
   (quarantine_sample_from_dict L d3 = Inr q \<longrightarrow> quarantine_sample_from_dict M (quarantine_sample_as_dict q) = Inr q) \<and>
   (denylist_event_from_dict L d4 = Inr n \<longrightarrow> denylist_event_from_dict M (denylist_event_as_dict n) = Inr n) \<and>
   (sec_config_event_from_dict L d5 = Inr c \<longrightarrow> sec_config_event_from_dict M (sec_config_event_as_dict c) = Inr c)"
  by (simp add: maint_event_wire maint_event_decoded sec_alert_wire sec_alert_decoded
      quarantine_sample_wire quarantine_sample_decoded denylist_event_wire denylist_event_decoded
      sec_config_event_wire sec_config_event_decoded)

text \<open>
  The alert class enforces the vocabulary it documents, up to one final line feed: a decoded
  alert has a registered producer and severity, a producer that is pinned emits only its pinned
  kinds, and the kind is a lowercase word of at most 64 characters that may be followed by a line
  feed; an alert whose kind ends in a line feed is indeed accepted.
\<close>

lemma sec_alert_vocabulary:
  "(sec_alert_from_dict h L d = Inr a \<longrightarrow>
      sa_severity a \<in> set allowed_sec_severities \<and> sa_source a \<in> set sec_alert_producers \<and>
      (\<forall>ks. sec_alert_kinds_by_producer (sa_source a) = Some ks \<longrightarrow> sa_kind a \<in> set ks) \<and>
      (kind_word (sa_kind a) \<or> (\<exists>w. kind_word w \<and> sa_kind a = w @ [CHR 0x0A]))) \<and>
   (kind_word w \<longrightarrow> sa_severity b = ''info'' \<longrightarrow> sa_source b = ''sec.rate.v1'' \<longrightarrow>
      sec_alert_check h (b\<lparr>sa_kind := w @ [CHR 0x0A]\<rparr>) \<noteq> Inl ValueError)"
proof (intro conjI impI)
  assume "sec_alert_from_dict h L d = Inr a"
  from sec_alert_decoded [OF this]
  have c: "sa_severity a \<in> set allowed_sec_severities" "sa_source a \<in> set sec_alert_producers"
    "\<forall>ks. sec_alert_kinds_by_producer (sa_source a) = Some ks \<longrightarrow> sa_kind a \<in> set ks" "open_enum_kind (sa_kind a)"
    by (auto simp: sec_alert_check_def res_iffs kind_allowed_def split: option.splits)
  then show "sa_severity a \<in> set allowed_sec_severities" "sa_source a \<in> set sec_alert_producers"
    "\<forall>ks. sec_alert_kinds_by_producer (sa_source a) = Some ks \<longrightarrow> sa_kind a \<in> set ks" by simp_all
  from c(4) show "kind_word (sa_kind a) \<or> (\<exists>w. kind_word w \<and> sa_kind a = w @ [CHR 0x0A])"
    unfolding open_enum_kind_def by (metis append_butlast_last_id)
next
  assume "kind_word w" "sa_severity b = ''info''" "sa_source b = ''sec.rate.v1''"
  then show "sec_alert_check h (b\<lparr>sa_kind := w @ [CHR 0x0A]\<rparr>) \<noteq> Inl ValueError"
    by (simp add: sec_alert_check_def open_enum_kind_def allowed_sec_severities_def sec_alert_producers_def
        kind_allowed_def sec_alert_kinds_by_producer_def)
qed

end
