(* ===== verification/Bus_Types.thy ===== *)
theory Bus_Types
  imports Json
begin

text \<open>
  Bus messages: the envelope and the message of \<open>swarm/sdk/types.py\<close>, the body that
  \<open>swarm/sdk/codec.py\<close> writes and reads, and the interface a codec promises to the bus. A fresh id
  or a time stamp that the source draws from \<open>uuid4\<close> or the wall clock is an argument. Turning a
  body into JSON text and back is the standard library's (it keeps an object up to the order
  of its keys).
\<close>

type_synonym topic = string

record envelope =
  en_message_id :: string
  en_trace_id :: string
  en_topic :: topic
  en_producer :: string
  en_created_at :: string
  en_schema_version :: int
  en_attempt :: int

record message =
  msg_envelope :: envelope
  msg_payload :: jobj

definition envelope_schema_version :: int where
  "envelope_schema_version = 1"

definition envelope_as_dict :: "envelope \<Rightarrow> jobj" where
  "envelope_as_dict e =
     [(''message_id'', JStr (en_message_id e)),
      (''trace_id'', JStr (en_trace_id e)),
      (''topic'', JStr (en_topic e)),
      (''producer'', JStr (en_producer e)),
      (''created_at'', JStr (en_created_at e)),
      (''schema_version'', JInt (en_schema_version e)),
      (''attempt'', JInt (en_attempt e))]"

text \<open>What a message takes from its surroundings: ids and the time.\<close>

record fresh =
  fr_message_id :: string
  fr_trace_id :: string
  fr_now :: string

text \<open>\<open>Envelope.from_dict\<close>: \<open>str(data.get(k) or new())\<close> replaces a missing or empty value.\<close>

definition or_fresh :: "pylib \<Rightarrow> jobj \<Rightarrow> string \<Rightarrow> string \<Rightarrow> string" where
  "or_fresh L d k new = (let j = jget_or d k JNull in if py_bool j then py_str L j else new)"

definition envelope_from_dict :: "pylib \<Rightarrow> fresh \<Rightarrow> jobj \<Rightarrow> envelope res" where
  "envelope_from_dict L fr d =
     res_bind (py_int L (jget_or d ''schema_version'' (JInt envelope_schema_version))) (\<lambda>schema_version.
     res_bind (py_int L (jget_or d ''attempt'' (JInt 0))) (\<lambda>attempt.
     Inr \<lparr>en_message_id = or_fresh L d ''message_id'' (fr_message_id fr),
        en_trace_id = or_fresh L d ''trace_id'' (fr_trace_id fr),
        en_topic = str_or L d ''topic'' [],
        en_producer = str_or L d ''producer'' [],
        en_created_at = or_fresh L d ''created_at'' (fr_now fr),
        en_schema_version = schema_version,
        en_attempt = attempt\<rparr>))"

text \<open>\<open>Message.new\<close> and \<open>with_envelope\<close>.\<close>

definition message_new :: "fresh \<Rightarrow> topic \<Rightarrow> jobj \<Rightarrow> string \<Rightarrow> string option \<Rightarrow> message" where
  "message_new fr topic payload producer trace_id =
     \<lparr>msg_envelope =
        \<lparr>en_message_id = fr_message_id fr,
         en_trace_id = (case trace_id of Some t \<Rightarrow> if t = [] then fr_trace_id fr else t | None \<Rightarrow> fr_trace_id fr),
         en_topic = topic, en_producer = producer, en_created_at = fr_now fr,
         en_schema_version = envelope_schema_version, en_attempt = 0\<rparr>,
      msg_payload = payload\<rparr>"

definition with_envelope :: "message \<Rightarrow> envelope \<Rightarrow> message" where
  "with_envelope m e = \<lparr>msg_envelope = e, msg_payload = msg_payload m\<rparr>"

text \<open>An agent's output before its envelope is drawn: the arguments of \<open>Message.new\<close>.\<close>

record emission =
  em_topic :: topic
  em_payload :: jobj
  em_producer :: string
  em_trace :: "string option"

definition seal :: "fresh \<Rightarrow> emission \<Rightarrow> message" where
  "seal fr e = message_new fr (em_topic e) (em_payload e) (em_producer e) (em_trace e)"

section \<open>The codec\<close>

text \<open>\<open>JsonCodec.encode\<close> and \<open>decode\<close>, between a message and the JSON body.\<close>

definition codec_encode :: "message \<Rightarrow> jval" where
  "codec_encode m =
     JObj [(''envelope'', JObj (envelope_as_dict (msg_envelope m))), (''payload'', JObj (msg_payload m))]"

definition or_empty :: "jobj \<Rightarrow> string \<Rightarrow> jval" where
  "or_empty body k = (let j = jget_or body k JNull in if py_bool j then j else JObj [])"

definition codec_decode :: "pylib \<Rightarrow> fresh \<Rightarrow> jval \<Rightarrow> message res" where
  "codec_decode L fr raw = (case raw of
     JObj body \<Rightarrow>
       res_bind (case or_empty body ''envelope'' of JObj d \<Rightarrow> envelope_from_dict L fr d | _ \<Rightarrow> Inl AttributeError)
         (\<lambda>env. case or_empty body ''payload'' of
            JObj payload \<Rightarrow> Inr \<lparr>msg_envelope = env, msg_payload = payload\<rparr>
          | _ \<Rightarrow> Inl ValueError)
   | _ \<Rightarrow> Inl AttributeError)"

definition message_ok :: "message \<Rightarrow> bool" where
  "message_ok m \<longleftrightarrow> en_message_id (msg_envelope m) \<noteq> [] \<and> en_trace_id (msg_envelope m) \<noteq> []
     \<and> en_created_at (msg_envelope m) \<noteq> []"

text \<open>What the bus relies on: a message that was encoded is decoded to itself.\<close>

locale codec =
  fixes enc :: "'m \<Rightarrow> 'raw" and dec :: "'raw \<Rightarrow> 'm res" and good :: "'m \<Rightarrow> bool"
  assumes dec_enc: "good m \<Longrightarrow> dec (enc m) = Inr m"
begin

end

lemma codec_decode_encode: "message_ok m \<Longrightarrow> codec_decode L fr (codec_encode m) = Inr m"
proof (cases m)
  case (fields e p)
  assume "message_ok m"
  then show ?thesis
    unfolding fields
    by (cases e) (simp add: codec_decode_def codec_encode_def or_empty_def message_ok_def
        envelope_from_dict_def envelope_as_dict_def or_fresh_def json_simps)
qed

interpretation json: codec codec_encode "codec_decode L fr" message_ok for L fr
  by unfold_locales (rule codec_decode_encode)

end
