(* ===== verification/Bus.thy ===== *)
theory Bus
  imports Bus_Types
begin

text \<open>
  The in-process transport of \<open>swarm/sdk/bus.py\<close>: \<open>InMemoryBus\<close>, with its streams, group
  offsets and pending entries, against the consumer-group contract stated in the module comment:
  reading claims, acknowledging releases, and what is claimed can be reclaimed. The encoded form of a
  message and its decoder are parameters, used through the \<open>codec\<close> interface.
\<close>

definition dlq_suffix :: string where
  "dlq_suffix = ''.dlq''"

definition ends_with :: "string \<Rightarrow> string \<Rightarrow> bool" where
  "ends_with s suffix \<longleftrightarrow> length suffix \<le> length s \<and> drop (length s - length suffix) s = suffix"

definition dlq_for :: "topic \<Rightarrow> topic" where
  "dlq_for name = (if ends_with name dlq_suffix then name else name @ dlq_suffix)"

lemma ends_with_append [simp]: "ends_with (s @ t) t"
  by (simp add: ends_with_def)

lemma dlq_for_idem: "dlq_for (dlq_for t) = dlq_for t"
  by (simp add: dlq_for_def)

section \<open>State\<close>

type_synonym group_key = "topic \<times> string"

record delivery =
  dl_handle :: string
  dl_topic :: topic
  dl_message :: message

record 'r pending_entry =
  pe_raw :: 'r
  pe_consumer :: string
  pe_delivered_at :: real

text \<open>\<open>defaultdict\<close>s are total functions.\<close>

record 'r mem_bus =
  mb_streams :: "topic \<Rightarrow> (string \<times> 'r) list"
  mb_offsets :: "group_key \<Rightarrow> nat option"
  mb_pending :: "group_key \<Rightarrow> (string, 'r pending_entry) odict"
  mb_next_id :: nat

definition bus_init :: "'r mem_bus" where
  "bus_init = \<lparr>mb_streams = (\<lambda>_. []), mb_offsets = (\<lambda>_. None), mb_pending = (\<lambda>_. []), mb_next_id = 0\<rparr>"

section \<open>Operations\<close>

definition ensure_group :: "topic \<Rightarrow> string \<Rightarrow> 'r mem_bus \<Rightarrow> 'r mem_bus" where
  "ensure_group t g b =
     (case mb_offsets b (t, g) of
        None \<Rightarrow> b\<lparr>mb_offsets := (mb_offsets b)((t, g) \<mapsto> 0)\<rparr>
      | Some _ \<Rightarrow> b)"

text \<open>\<open>publish\<close>; \<open>millis\<close> is \<open>int(time.time() * 1000)\<close>.\<close>

definition bus_handle :: "int \<Rightarrow> nat \<Rightarrow> string" where
  "bus_handle millis n = show_int millis @ ''-'' @ show_nat n"

definition publish :: "(message \<Rightarrow> 'r) \<Rightarrow> int \<Rightarrow> message \<Rightarrow> 'r mem_bus \<Rightarrow> 'r mem_bus" where
  "publish enc millis msg b =
     (let raw = enc msg; n = Suc (mb_next_id b); t = en_topic (msg_envelope msg) in
      b\<lparr>mb_next_id := n,
        mb_streams := (mb_streams b)(t := mb_streams b t @ [(bus_handle millis n, raw)])\<rparr>)"

text \<open>
  \<open>read\<close>: each entry is claimed before it is decoded; when a decode raises, the entries
  claimed so far stay claimed and the offset is not advanced.
\<close>

fun claim_batch ::
  "('r \<Rightarrow> message res) \<Rightarrow> topic \<Rightarrow> string \<Rightarrow> real \<Rightarrow> (string \<times> 'r) list \<Rightarrow> (string, 'r pending_entry) odict
   \<Rightarrow> delivery list res \<times> (string, 'r pending_entry) odict" where
  "claim_batch dec t consumer now [] pend = (Inr [], pend)"
| "claim_batch dec t consumer now ((h, raw) # batch) pend =
     (let pend1 = od_set h \<lparr>pe_raw = raw, pe_consumer = consumer, pe_delivered_at = now\<rparr> pend in
      case dec raw of
        Inl e \<Rightarrow> (Inl e, pend1)
      | Inr m \<Rightarrow>
          (let (r, pend2) = claim_batch dec t consumer now batch pend1 in
           (res_bind r (\<lambda>ds. Inr (\<lparr>dl_handle = h, dl_topic = t, dl_message = m\<rparr> # ds)), pend2)))"

definition bus_read ::
  "('r \<Rightarrow> message res) \<Rightarrow> topic \<Rightarrow> string \<Rightarrow> string \<Rightarrow> nat \<Rightarrow> real \<Rightarrow> 'r mem_bus
   \<Rightarrow> delivery list res \<times> 'r mem_bus" where
  "bus_read dec t g consumer n now b0 =
     (let b = ensure_group t g b0;
          off = the (mb_offsets b (t, g));
          (r, pend) = claim_batch dec t consumer now (take n (drop off (mb_streams b t))) (mb_pending b (t, g));
          b1 = b\<lparr>mb_pending := (mb_pending b)((t, g) := pend)\<rparr> in
      case r of
        Inl e \<Rightarrow> (Inl e, b1)
      | Inr out \<Rightarrow> (Inr out, b1\<lparr>mb_offsets := (mb_offsets b1)((t, g) \<mapsto> off + length out)\<rparr>))"

definition bus_ack :: "topic \<Rightarrow> string \<Rightarrow> string \<Rightarrow> 'r mem_bus \<Rightarrow> 'r mem_bus" where
  "bus_ack t g h b = b\<lparr>mb_pending := (mb_pending b)((t, g) := od_del h (mb_pending b (t, g)))\<rparr>"

text \<open>
  \<open>reclaim\<close>: a full scan, oldest first, of the entries idle since the cutoff; \<open>tick i\<close> is the clock
  reading that becomes the new delivery time of the \<open>i\<close>-th entry taken over.
\<close>

fun reclaim_scan ::
  "('r \<Rightarrow> message res) \<Rightarrow> topic \<Rightarrow> string \<Rightarrow> nat \<Rightarrow> real \<Rightarrow> (nat \<Rightarrow> real) \<Rightarrow> nat
   \<Rightarrow> (string, 'r pending_entry) odict \<Rightarrow> delivery list res \<times> (string, 'r pending_entry) odict" where
  "reclaim_scan dec t consumer n cutoff tick taken [] = (Inr [], [])"
| "reclaim_scan dec t consumer n cutoff tick taken ((h, pe) # pend) =
     (if n \<le> taken then (Inr [], (h, pe) # pend)
      else if pe_delivered_at pe \<le> cutoff then
        let pe1 = pe\<lparr>pe_consumer := consumer, pe_delivered_at := tick taken\<rparr> in
        (case dec (pe_raw pe) of
           Inl e \<Rightarrow> (Inl e, (h, pe1) # pend)
         | Inr m \<Rightarrow>
             (let (r, pend1) = reclaim_scan dec t consumer n cutoff tick (Suc taken) pend in
              (res_bind r (\<lambda>ds. Inr (\<lparr>dl_handle = h, dl_topic = t, dl_message = m\<rparr> # ds)), (h, pe1) # pend1)))
      else
        (let (r, pend1) = reclaim_scan dec t consumer n cutoff tick taken pend in (r, (h, pe) # pend1)))"

definition bus_reclaim ::
  "('r \<Rightarrow> message res) \<Rightarrow> topic \<Rightarrow> string \<Rightarrow> string \<Rightarrow> int \<Rightarrow> nat \<Rightarrow> real \<Rightarrow> (nat \<Rightarrow> real) \<Rightarrow> 'r mem_bus
   \<Rightarrow> delivery list res \<times> 'r mem_bus" where
  "bus_reclaim dec t g consumer idle_ms n now tick b0 =
     (let cutoff = now - real_of_int idle_ms / 1000;
          b = ensure_group t g b0;
          (r, pend) = reclaim_scan dec t consumer n cutoff tick 0 (mb_pending b (t, g)) in
      (r, b\<lparr>mb_pending := (mb_pending b)((t, g) := pend)\<rparr>))"

definition bus_length :: "topic \<Rightarrow> 'r mem_bus \<Rightarrow> nat" where
  "bus_length t b = length (mb_streams b t)"

definition pending_count :: "topic \<Rightarrow> string \<Rightarrow> 'r mem_bus \<Rightarrow> nat" where
  "pending_count t g b = length (mb_pending b (t, g))"

datatype bus_op =
    Publish int message
  | Read topic string string nat real
  | Ack topic string string
  | Reclaim topic string string int nat real "nat \<Rightarrow> real"

fun bus_step :: "(message \<Rightarrow> 'r) \<Rightarrow> ('r \<Rightarrow> message res) \<Rightarrow> 'r mem_bus \<Rightarrow> bus_op \<Rightarrow> delivery list res \<times> 'r mem_bus" where
  "bus_step enc dec b (Publish ms m) = (Inr [], publish enc ms m b)"
| "bus_step enc dec b (Read t g c n now) = bus_read dec t g c n now b"
| "bus_step enc dec b (Ack t g h) = (Inr [], bus_ack t g h b)"
| "bus_step enc dec b (Reclaim t g c idle n now tick) = bus_reclaim dec t g c idle n now tick b"

section \<open>The contract\<close>

text \<open>
  What a consumer group sees of a topic: the messages not yet read, in order of publication, and
  the ones that are claimed and not acknowledged.
\<close>

record group_view =
  gv_unread :: "(string \<times> message) list"
  gv_claimed :: "(string \<times> message) list"

text \<open>One operation, seen from the group \<open>(t, g)\<close>, and what it returns when it is the group's own.\<close>

fun view_step :: "group_key \<Rightarrow> string \<Rightarrow> bus_op \<Rightarrow> group_view \<Rightarrow> group_view" where
  "view_step k h (Publish ms m) v =
     (if en_topic (msg_envelope m) = fst k then v\<lparr>gv_unread := gv_unread v @ [(h, m)]\<rparr> else v)"
| "view_step k h (Read t g c n now) v =
     (if (t, g) = k then v\<lparr>gv_unread := drop n (gv_unread v), gv_claimed := gv_claimed v @ take n (gv_unread v)\<rparr>
      else v)"
| "view_step k h (Ack t g h') v =
     (if (t, g) = k then v\<lparr>gv_claimed := filter (\<lambda>p. fst p \<noteq> h') (gv_claimed v)\<rparr> else v)"
| "view_step k h (Reclaim t g c idle n now tick) v = v"

definition as_delivery :: "topic \<Rightarrow> string \<times> message \<Rightarrow> delivery" where
  "as_delivery t p = \<lparr>dl_handle = fst p, dl_topic = t, dl_message = snd p\<rparr>"

fun view_result :: "group_view \<Rightarrow> bus_op \<Rightarrow> delivery list \<Rightarrow> bool" where
  "view_result v (Read t g c n now) ds = (ds = map (as_delivery t) (take n (gv_unread v)))"
| "view_result v (Reclaim t g c idle n now tick) ds =
     (length ds \<le> n \<and> set ds \<subseteq> set (map (as_delivery t) (gv_claimed v)) \<and> distinct (map dl_handle ds))"
| "view_result v op ds = (ds = [])"

text \<open>
  Who holds each claimed message, and since when. A reclaim hands the first \<open>n\<close> messages that have been held for at least \<open>idle\<close>
  milliseconds, in the order of their first claim, to its consumer and restarts their clock; the others stay as they are.
\<close>

type_synonym lease = "string \<times> message \<times> string \<times> real"

definition overdue :: "int \<Rightarrow> real \<Rightarrow> lease \<Rightarrow> bool" where
  "overdue idle now = (\<lambda>(h, m, c, since). real_of_int idle \<le> (now - since) * 1000)"

fun hand_over :: "string \<Rightarrow> int \<Rightarrow> nat \<Rightarrow> real \<Rightarrow> (nat \<Rightarrow> real) \<Rightarrow> nat \<Rightarrow> lease list \<Rightarrow> lease list" where
  "hand_over c idle n now tick i [] = []"
| "hand_over c idle n now tick i (l # ls) =
     (if overdue idle now l \<and> i < n then (fst l, fst (snd l), c, tick i) # hand_over c idle n now tick (Suc i) ls
      else l # hand_over c idle n now tick i ls)"

fun lease_step :: "group_key \<Rightarrow> bus_op \<Rightarrow> (string \<times> message) list \<Rightarrow> lease list \<Rightarrow> lease list" where
  "lease_step k (Publish ms m) unread ls = ls"
| "lease_step k (Read t g c n now) unread ls =
     (if (t, g) = k then ls @ map (\<lambda>(h, m). (h, m, c, now)) (take n unread) else ls)"
| "lease_step k (Ack t g h) unread ls = (if (t, g) = k then filter (\<lambda>l. fst l \<noteq> h) ls else ls)"
| "lease_step k (Reclaim t g c idle n now tick) unread ls =
     (if (t, g) = k then hand_over c idle n now tick 0 ls else ls)"

fun lease_result :: "lease list \<Rightarrow> bus_op \<Rightarrow> delivery list \<Rightarrow> bool" where
  "lease_result ls (Reclaim t g c idle n now tick) ds =
     (ds = map (\<lambda>l. as_delivery t (fst l, fst (snd l))) (take n (filter (overdue idle now) ls)))"
| "lease_result ls op ds = True"

definition leases_of :: "('r \<Rightarrow> message res) \<Rightarrow> 'r mem_bus \<Rightarrow> group_key \<Rightarrow> lease list" where
  "leases_of dec b k = map (\<lambda>(h, pe). (h, projr (dec (pe_raw pe)), pe_consumer pe, pe_delivered_at pe)) (mb_pending b k)"

definition offset_of :: "'r mem_bus \<Rightarrow> group_key \<Rightarrow> nat" where
  "offset_of b k = (case mb_offsets b k of None \<Rightarrow> 0 | Some n \<Rightarrow> n)"

definition view_of :: "('r \<Rightarrow> message res) \<Rightarrow> 'r mem_bus \<Rightarrow> group_key \<Rightarrow> group_view" where
  "view_of dec b k =
     \<lparr>gv_unread = map (\<lambda>(h, raw). (h, projr (dec raw))) (drop (offset_of b k) (mb_streams b (fst k))),
      gv_claimed = map (\<lambda>(h, pe). (h, projr (dec (pe_raw pe)))) (mb_pending b k)\<rparr>"

section \<open>Handles\<close>

lemma bus_handle_inject: "bus_handle ms n = bus_handle ms' n' \<Longrightarrow> n = n'"
proof -
  have "CHR ''-'' \<notin> set (show_nat i)" for i
    using show_nat_chars digit_char_neq(1) by metis
  then show "bus_handle ms n = bus_handle ms' n' \<Longrightarrow> n = n'"
    by (simp add: bus_handle_def append_sep_inject_last)
qed

definition handle_le :: "nat \<Rightarrow> string \<Rightarrow> bool" where
  "handle_le n h \<longleftrightarrow> (\<exists>ms i. i \<le> n \<and> h = bus_handle ms i)"

lemma handle_le_Suc: "handle_le n h \<Longrightarrow> handle_le (Suc n) h"
  by (auto simp: handle_le_def intro: le_SucI)

lemma handle_le_new: "handle_le (Suc n) (bus_handle ms (Suc n))" "\<not> handle_le n (bus_handle ms (Suc n))"
  by (auto simp: handle_le_def dest: bus_handle_inject)

section \<open>Refinement\<close>

definition stream_ok ::
  "(message \<Rightarrow> 'r) \<Rightarrow> (message \<Rightarrow> bool) \<Rightarrow> nat \<Rightarrow> topic \<Rightarrow> (string \<times> 'r) list \<Rightarrow> bool" where
  "stream_ok enc good n t s \<longleftrightarrow> distinct (map fst s) \<and>
     (\<forall>(h, raw) \<in> set s. handle_le n h \<and> (\<exists>m. good m \<and> en_topic (msg_envelope m) = t \<and> raw = enc m))"

definition claims_ok :: "(string \<times> 'r) list \<Rightarrow> (string, 'r pending_entry) odict \<Rightarrow> bool" where
  "claims_ok taken pend \<longleftrightarrow> od_wf pend \<and> (\<forall>(h, pe) \<in> set pend. (h, pe_raw pe) \<in> set taken)"

definition bus_ok :: "(message \<Rightarrow> 'r) \<Rightarrow> (message \<Rightarrow> bool) \<Rightarrow> 'r mem_bus \<Rightarrow> bool" where
  "bus_ok enc good b \<longleftrightarrow> (\<forall>t. stream_ok enc good (mb_next_id b) t (mb_streams b t)) \<and>
     (\<forall>k. offset_of b k \<le> length (mb_streams b (fst k)) \<and>
        claims_ok (take (offset_of b k) (mb_streams b (fst k))) (mb_pending b k))"

lemma bus_okD:
  assumes "bus_ok enc good b"
  shows "stream_ok enc good (mb_next_id b) t (mb_streams b t)" "offset_of b k \<le> length (mb_streams b (fst k))"
    "claims_ok (take (offset_of b k) (mb_streams b (fst k))) (mb_pending b k)"
  using assms unfolding bus_ok_def by blast+

lemma bus_okI:
  assumes "\<And>t. stream_ok enc good (mb_next_id b) t (mb_streams b t)"
    and "\<And>k. offset_of b k \<le> length (mb_streams b (fst k))"
    and "\<And>k. claims_ok (take (offset_of b k) (mb_streams b (fst k))) (mb_pending b k)"
  shows "bus_ok enc good b"
  using assms unfolding bus_ok_def by blast

fun op_ok :: "(message \<Rightarrow> bool) \<Rightarrow> bus_op \<Rightarrow> bool" where
  "op_ok good (Publish ms m) = good m"
| "op_ok good op = True"

text \<open>The handle a publication gets.\<close>

fun op_handle :: "'r mem_bus \<Rightarrow> bus_op \<Rightarrow> string" where
  "op_handle b (Publish ms m) = bus_handle ms (Suc (mb_next_id b))"
| "op_handle b op = []"

fun op_group :: "bus_op \<Rightarrow> group_key" where
  "op_group (Read t g c n now) = (t, g)"
| "op_group (Ack t g h) = (t, g)"
| "op_group (Reclaim t g c idle n now tick) = (t, g)"
| "op_group (Publish ms m) = (en_topic (msg_envelope m), [])"

lemma bus_ok_init: "bus_ok enc good bus_init"
  by (rule bus_okI) (simp_all add: bus_init_def stream_ok_def claims_ok_def offset_of_def)

lemma offset_ensure [simp]: "offset_of (ensure_group t g b) = offset_of b"
  by (auto simp: offset_of_def ensure_group_def fun_eq_iff split: option.splits)

lemma ensure_frame [simp]:
  "mb_streams (ensure_group t g b) = mb_streams b" "mb_pending (ensure_group t g b) = mb_pending b"
  "mb_next_id (ensure_group t g b) = mb_next_id b" "the (mb_offsets (ensure_group t g b) (t, g)) = offset_of b (t, g)"
  by (auto simp: ensure_group_def offset_of_def split: option.splits)

locale message_codec = codec enc dec good for enc :: "message \<Rightarrow> 'raw" and dec and good
begin

lemma dec_stream: "stream_ok enc good n t s \<Longrightarrow> (h, raw) \<in> set s \<Longrightarrow> \<exists>m. dec raw = Inr m"
  by (fastforce simp: stream_ok_def dest: dec_enc)

lemma claim_batch_eq:
  assumes "\<And>h raw. (h, raw) \<in> set batch \<Longrightarrow> \<exists>m. dec raw = Inr m"
    and "distinct (map fst batch)" "fst ` set batch \<inter> fst ` set pend = {}"
  shows "claim_batch dec t c now batch pend =
    (Inr (map (\<lambda>(h, raw). as_delivery t (h, projr (dec raw))) batch),
     pend @ map (\<lambda>(h, raw). (h, \<lparr>pe_raw = raw, pe_consumer = c, pe_delivered_at = now\<rparr>)) batch)"
  using assms
proof (induction batch arbitrary: pend)
  case Nil
  then show ?case by simp
next
  case (Cons p batch)
  obtain h raw where p: "p = (h, raw)" by force
  let ?pe = "\<lparr>pe_raw = raw, pe_consumer = c, pe_delivered_at = now\<rparr>"
  obtain m where m: "dec raw = Inr m" using Cons.prems(1) [of h raw] p by auto
  have "od_set h ?pe pend = pend @ [(h, ?pe)]"
    using Cons.prems(3) by (intro od_set_fresh) (auto simp: p)
  moreover have "claim_batch dec t c now batch (pend @ [(h, ?pe)]) =
    (Inr (map (\<lambda>(h, raw). as_delivery t (h, projr (dec raw))) batch),
     (pend @ [(h, ?pe)]) @ map (\<lambda>(h, raw). (h, \<lparr>pe_raw = raw, pe_consumer = c, pe_delivered_at = now\<rparr>)) batch)"
    using Cons.prems by (intro Cons.IH) (auto simp: p)
  ultimately show ?case by (simp add: p m as_delivery_def)
qed

lemma reclaim_scan_eq:
  assumes "\<And>h pe. (h, pe) \<in> set pend \<Longrightarrow> \<exists>m. dec (pe_raw pe) = Inr m" and "od_wf pend"
  shows "\<exists>ds pend'. reclaim_scan dec t c n cutoff tick taken pend = (Inr ds, pend') \<and>
     map (\<lambda>(h, pe). (h, pe_raw pe)) pend' = map (\<lambda>(h, pe). (h, pe_raw pe)) pend \<and>
     length ds \<le> n - taken \<and> distinct (map dl_handle ds) \<and>
     set ds \<subseteq> set (map (\<lambda>(h, pe). as_delivery t (h, projr (dec (pe_raw pe)))) pend)"
  using assms
proof (induction pend arbitrary: taken)
  case Nil
  then show ?case by simp
next
  case (Cons p pend)
  obtain h pe where p: "p = (h, pe)" by force
  obtain m where m: "dec (pe_raw pe) = Inr m" using Cons.prems(1) [of h pe] p by auto
  have wf: "od_wf pend" "h \<notin> fst ` set pend" using Cons.prems(2) by (auto simp: od_wf_def p)
  obtain ds pend' where IH: "reclaim_scan dec t c n cutoff tick k pend = (Inr ds, pend')"
      "map (\<lambda>(h, pe). (h, pe_raw pe)) pend' = map (\<lambda>(h, pe). (h, pe_raw pe)) pend"
      "length ds \<le> n - k" "distinct (map dl_handle ds)"
      "set ds \<subseteq> set (map (\<lambda>(h, pe). as_delivery t (h, projr (dec (pe_raw pe)))) pend)"
    if "k = (if pe_delivered_at pe \<le> cutoff then Suc taken else taken)" for k
    using Cons.IH [of "if pe_delivered_at pe \<le> cutoff then Suc taken else taken"] wf Cons.prems(1) by fastforce
  have "dl_handle ` set (map (\<lambda>(h, pe). as_delivery t (h, projr (dec (pe_raw pe)))) pend) = fst ` set pend"
    by (force simp: as_delivery_def)
  then have new: "h \<notin> dl_handle ` set ds" if "set ds \<subseteq> set (map (\<lambda>(h, pe). as_delivery t (h, projr (dec (pe_raw pe)))) pend)" for ds
    using wf(2) that by (metis image_mono subsetD)
  show ?case
  proof (cases "n \<le> taken \<or> \<not> pe_delivered_at pe \<le> cutoff")
    case True
    then show ?thesis using IH [OF refl] by (auto simp: p)
  next
    case False
    then show ?thesis using IH [OF refl] new by (auto simp: p m as_delivery_def split: prod.splits)
  qed
qed

abbreviation lease :: "string \<times> 'raw pending_entry \<Rightarrow> lease" where
  "lease \<equiv> \<lambda>(h, pe). (h, projr (dec (pe_raw pe)), pe_consumer pe, pe_delivered_at pe)"

lemma reclaim_scan_leases:
  assumes "\<And>h pe. (h, pe) \<in> set pend \<Longrightarrow> \<exists>m. dec (pe_raw pe) = Inr m"
    and "reclaim_scan dec t c n (now - real_of_int idle / 1000) tick taken pend = (Inr ds, pend')"
  shows "map lease pend' = hand_over c idle n now tick taken (map lease pend) \<and>
    ds = map (\<lambda>l. as_delivery t (fst l, fst (snd l)))
      (take (n - taken) (filter (overdue idle now) (map lease pend)))"
  using assms
proof (induction pend arbitrary: taken ds pend')
  case Nil
  then show ?case by simp
next
  case (Cons p pend)
  obtain h pe where p: "p = (h, pe)" by force
  obtain m where m: "dec (pe_raw pe) = Inr m" using Cons.prems(1) [of h pe] p by auto
  have rest: "\<And>h pe. (h, pe) \<in> set pend \<Longrightarrow> \<exists>m. dec (pe_raw pe) = Inr m" using Cons.prems(1) by auto
  have due: "pe_delivered_at pe \<le> now - real_of_int idle / 1000 \<longleftrightarrow> overdue idle now (lease (h, pe))"
    by (auto simp: overdue_def field_simps)
  have full: "hand_over c idle n now tick i ls = ls" if "n \<le> i" for i ls
    using that by (induction ls arbitrary: i) auto
  show ?case
  proof (cases "n \<le> taken")
    case True
    then show ?thesis using Cons.prems(2) full [OF True] by (simp add: p)
  next
    case room: False
    show ?thesis
    proof (cases "overdue idle now (lease (h, pe))")
      case True
      obtain r1 pend1 where s: "reclaim_scan dec t c n (now - real_of_int idle / 1000) tick (Suc taken) pend = (r1, pend1)" by force
      with Cons.prems(2) room True due m obtain ds1 where "r1 = Inr ds1" and
        out: "ds = \<lparr>dl_handle = h, dl_topic = t, dl_message = m\<rparr> # ds1" "pend' = (h, pe\<lparr>pe_consumer := c, pe_delivered_at := tick taken\<rparr>) # pend1"
        by (cases r1) (auto simp: p)
      with s have s1: "reclaim_scan dec t c n (now - real_of_int idle / 1000) tick (Suc taken) pend = (Inr ds1, pend1)" by simp
      have ih: "map lease pend1 = hand_over c idle n now tick (Suc taken) (map lease pend)"
        "ds1 = map (\<lambda>l. as_delivery t (fst l, fst (snd l)))
          (take (n - Suc taken) (filter (overdue idle now) (map lease pend)))"
        using Cons.IH [OF _ s1] rest by blast+
      have "n - taken = Suc (n - Suc taken)" using room by simp
      then show ?thesis
        using room True m ih(1) by (simp add: p out ih(2) as_delivery_def)
    next
      case False
      obtain r1 pend1 where s: "reclaim_scan dec t c n (now - real_of_int idle / 1000) tick taken pend = (r1, pend1)" by force
      with Cons.prems(2) room False due have "r1 = Inr ds" "pend' = (h, pe) # pend1"
        by (auto simp: p)
      with s have s1: "reclaim_scan dec t c n (now - real_of_int idle / 1000) tick taken pend = (Inr ds, pend1)" by simp
      have "map lease pend1 = hand_over c idle n now tick taken (map lease pend)"
        "ds = map (\<lambda>l. as_delivery t (fst l, fst (snd l)))
          (take (n - taken) (filter (overdue idle now) (map lease pend)))"
        using Cons.IH [OF _ s1] rest by blast+
      then show ?thesis using \<open>pend' = (h, pe) # pend1\<close> room False by (simp add: p)
    qed
  qed
qed

lemma publish_refines:
  assumes "bus_ok enc good b" "good m"
  shows "bus_ok enc good (publish enc ms m b)"
    and "view_of dec (publish enc ms m b) k = view_step k (bus_handle ms (Suc (mb_next_id b))) (Publish ms m) (view_of dec b k)"
proof -
  let ?t = "en_topic (msg_envelope m)" and ?h = "bus_handle ms (Suc (mb_next_id b))" and ?b = "publish enc ms m b"
  note ok = bus_okD [OF assms(1)]
  have off: "offset_of ?b k = offset_of b k" for k
    by (simp add: offset_of_def publish_def Let_def)
  have pend: "mb_pending ?b = mb_pending b" and nid: "mb_next_id ?b = Suc (mb_next_id b)"
    and str: "mb_streams ?b t = mb_streams b t @ (if t = ?t then [(?h, enc m)] else [])" for t
    by (simp_all add: publish_def Let_def)
  have tk: "take (offset_of b k) (mb_streams ?b (fst k)) = take (offset_of b k) (mb_streams b (fst k))" for k
    using ok(2) [of k] by (simp add: str)
  show "bus_ok enc good ?b"
  proof (rule bus_okI)
    show "stream_ok enc good (mb_next_id ?b) t (mb_streams ?b t)" for t
      using ok(1) [of t] assms(2) handle_le_new [of "mb_next_id b" ms]
      by (auto simp: stream_ok_def nid str intro: handle_le_Suc)
    show "offset_of ?b k \<le> length (mb_streams ?b (fst k))" for k
      using ok(2) [of k] by (simp add: str off)
    show "claims_ok (take (offset_of ?b k) (mb_streams ?b (fst k))) (mb_pending ?b k)" for k
      using ok(3) [of k] by (simp add: off tk pend)
  qed
  show "view_of dec ?b k = view_step k ?h (Publish ms m) (view_of dec b k)"
    using ok(2) [of k] by (auto simp: view_of_def off str pend dec_enc [OF assms(2)])
qed

lemma unread_fresh:
  assumes "bus_ok enc good b"
  shows "distinct (map fst (take n (drop (offset_of b (t, g)) (mb_streams b t))))"
    and "fst ` set (take n (drop (offset_of b (t, g)) (mb_streams b t))) \<inter> fst ` set (mb_pending b (t, g)) = {}"
proof -
  note ok = bus_okD [OF assms(1)]
  let ?off = "offset_of b (t, g)" and ?s = "mb_streams b t"
  have dist: "distinct (map fst ?s)" using ok(1) [of t] by (simp add: stream_ok_def)
  then show "distinct (map fst (take n (drop ?off ?s)))" by (simp flip: take_map drop_map)
  have "distinct (map fst (take ?off ?s @ drop ?off ?s))" using dist by simp
  then have "fst ` set (take ?off ?s) \<inter> fst ` set (drop ?off ?s) = {}"
    unfolding map_append distinct_append set_map by blast
  moreover have "fst ` set (mb_pending b (t, g)) \<subseteq> fst ` set (take ?off ?s)"
    using ok(3) [of "(t, g)"] by (force simp: claims_ok_def)
  moreover have "fst ` set (take n (drop ?off ?s)) \<subseteq> fst ` set (drop ?off ?s)"
    by (intro image_mono set_take_subset)
  ultimately show "fst ` set (take n (drop ?off ?s)) \<inter> fst ` set (mb_pending b (t, g)) = {}" by blast
qed

lemma read_run:
  fixes t g c :: string and n :: nat and now :: real
  assumes "bus_ok enc good b"
  defines "batch \<equiv> take n (drop (offset_of b (t, g)) (mb_streams b t))"
  defines "new \<equiv> map (\<lambda>(h, raw). (h, \<lparr>pe_raw = raw, pe_consumer = c, pe_delivered_at = now\<rparr>)) batch"
  shows "bus_read dec t g c n now b = (Inr (map (\<lambda>(h, raw). as_delivery t (h, projr (dec raw))) batch),
    (ensure_group t g b)\<lparr>mb_pending := (mb_pending b)((t, g) := mb_pending b (t, g) @ new),
      mb_offsets := (mb_offsets (ensure_group t g b))((t, g) \<mapsto> offset_of b (t, g) + length batch)\<rparr>)"
proof -
  note ok = bus_okD [OF assms(1)]
  have "claim_batch dec t c now batch (mb_pending b (t, g)) =
      (Inr (map (\<lambda>(h, raw). as_delivery t (h, projr (dec raw))) batch), mb_pending b (t, g) @ new)"
    unfolding new_def
  proof (rule claim_batch_eq)
    show "\<exists>m. dec raw = Inr m" if "(h, raw) \<in> set batch" for h raw
      using that dec_stream [OF ok(1) [of t]] unfolding batch_def by (meson in_set_dropD in_set_takeD)
  qed (use unread_fresh [OF assms(1)] in \<open>simp_all add: batch_def\<close>)
  then show ?thesis by (simp add: bus_read_def Let_def batch_def)
qed

lemma read_refines:
  assumes "bus_ok enc good b" "bus_read dec t g c n now b = (r, b')"
  shows "bus_ok enc good b' \<and> r = Inr (map (as_delivery t) (take n (gv_unread (view_of dec b (t, g))))) \<and>
    (\<forall>k. view_of dec b' k = view_step k h (Read t g c n now) (view_of dec b k))"
proof -
  note ok = bus_okD [OF assms(1)]
  let ?off = "offset_of b (t, g)" and ?s = "mb_streams b t"
  let ?batch = "take n (drop ?off ?s)"
  let ?new = "map (\<lambda>(h, raw). (h, \<lparr>pe_raw = raw, pe_consumer = c, pe_delivered_at = now\<rparr>)) ?batch"
  have b': "b' = (ensure_group t g b)\<lparr>mb_pending := (mb_pending b)((t, g) := mb_pending b (t, g) @ ?new),
      mb_offsets := (mb_offsets (ensure_group t g b))((t, g) \<mapsto> ?off + length ?batch)\<rparr>"
    and r: "r = Inr (map (\<lambda>(h, raw). as_delivery t (h, projr (dec raw))) ?batch)"
    using assms(2) read_run [OF assms(1), of t g c n now] by simp_all
  have off: "offset_of b' k = (if k = (t, g) then ?off + length ?batch else offset_of b k)" for k
    by (auto simp: b' offset_of_def ensure_group_def split: option.splits)
  have str: "mb_streams b' = mb_streams b" "mb_next_id b' = mb_next_id b"
    and pend: "mb_pending b' k = (if k = (t, g) then mb_pending b k @ ?new else mb_pending b k)" for k
    by (simp_all add: b')
  have tk: "take (?off + length ?batch) ?s = take ?off ?s @ ?batch"
    by (cases "length (drop ?off ?s) \<le> n") (simp_all add: take_add min_def)
  have "bus_ok enc good b'"
  proof (rule bus_okI)
    show "stream_ok enc good (mb_next_id b') t' (mb_streams b' t')" for t'
      using ok(1) by (simp add: str)
    show "offset_of b' k \<le> length (mb_streams b' (fst k))" for k
      using ok(2) [of k] by (auto simp: off str)
    show "claims_ok (take (offset_of b' k) (mb_streams b' (fst k))) (mb_pending b' k)" for k
    proof (cases "k = (t, g)")
      case True
      have keys: "od_keys ?new = od_keys ?batch" by (simp add: o_def case_prod_unfold)
      have "distinct (od_keys ?batch)" by (rule unread_fresh [OF assms(1)])
      moreover have "set (od_keys (mb_pending b (t, g))) \<inter> set (od_keys ?batch) = {}"
        unfolding set_map using unread_fresh(2) [OF assms(1)] by blast
      moreover have "distinct (od_keys (mb_pending b (t, g)))"
        using ok(3) [of "(t, g)"] by (simp add: claims_ok_def od_wf_def)
      ultimately have "od_wf (mb_pending b (t, g) @ ?new)"
        unfolding od_wf_def map_append keys by simp
      moreover have "(h, pe_raw pe) \<in> set ?batch" if "(h, pe) \<in> set ?new" for h pe
        using that by auto
      ultimately have "claims_ok (take ?off ?s @ ?batch) (mb_pending b (t, g) @ ?new)"
        using ok(3) [of "(t, g)"] unfolding claims_ok_def fst_conv set_append by blast
      then show ?thesis
        unfolding True off str pend by (simp only: simp_thms if_True fst_conv tk)
    qed (use ok(3) [of k] in \<open>simp add: off str pend\<close>)
  qed
  moreover have "view_of dec b' k = view_step k h (Read t g c n now) (view_of dec b k)" for k
  proof (cases "k = (t, g)")
    case True
    have "drop (?off + length ?batch) ?s = drop n (drop ?off ?s)"
      by (cases "length (drop ?off ?s) \<le> n") (simp_all add: min_def add.commute)
    then show ?thesis
      by (simp add: True view_of_def off str pend take_map drop_map case_prod_unfold o_def)
  qed (simp add: view_of_def off str pend)
  ultimately show ?thesis
    by (simp add: r view_of_def take_map drop_map case_prod_unfold o_def)
qed

lemma ack_refines:
  assumes "bus_ok enc good b"
  shows "bus_ok enc good (bus_ack t g h' b)"
    and "view_of dec (bus_ack t g h' b) k = view_step k h (Ack t g h') (view_of dec b k)"
proof -
  note ok = bus_okD [OF assms(1)]
  have off: "offset_of (bus_ack t g h' b) k = offset_of b k" for k
    by (simp add: offset_of_def bus_ack_def)
  have str: "mb_streams (bus_ack t g h' b) = mb_streams b" "mb_next_id (bus_ack t g h' b) = mb_next_id b"
    and pend: "mb_pending (bus_ack t g h' b) k = (if k = (t, g) then od_del h' (mb_pending b k) else mb_pending b k)" for k
    by (simp_all add: bus_ack_def)
  show "bus_ok enc good (bus_ack t g h' b)"
  proof (rule bus_okI)
    show "claims_ok (take (offset_of (bus_ack t g h' b) k) (mb_streams (bus_ack t g h' b) (fst k)))
        (mb_pending (bus_ack t g h' b) k)" for k
      using ok(3) [of k] by (auto simp: off str pend claims_ok_def) (auto simp: od_del_def)
  qed (use ok in \<open>simp_all add: off str\<close>)
  show "view_of dec (bus_ack t g h' b) k = view_step k h (Ack t g h') (view_of dec b k)"
    by (auto simp: view_of_def off str pend od_del_def filter_map o_def case_prod_unfold)
qed

lemma reclaim_refines:
  assumes "bus_ok enc good b" "bus_reclaim dec t g c idle n now tick b = (r, b')"
  shows "bus_ok enc good b' \<and> (\<exists>ds. r = Inr ds \<and> view_result (view_of dec b (t, g)) (Reclaim t g c idle n now tick) ds) \<and>
    (\<forall>k. view_of dec b' k = view_of dec b k)"
proof -
  note ok = bus_okD [OF assms(1)]
  have decp: "\<exists>m. dec (pe_raw pe) = Inr m" if "(h, pe) \<in> set (mb_pending b (t, g))" for h pe
    using that ok(3) [of "(t, g)"] dec_stream [OF ok(1) [of t]] by (fastforce simp: claims_ok_def dest: in_set_takeD)
  have wf: "od_wf (mb_pending b (t, g))" using ok(3) [of "(t, g)"] by (simp add: claims_ok_def)
  have "\<exists>ds pend'. reclaim_scan dec t c n (now - real_of_int idle / 1000) tick 0 (mb_pending b (t, g)) = (Inr ds, pend') \<and>
     map (\<lambda>(h, pe). (h, pe_raw pe)) pend' = map (\<lambda>(h, pe). (h, pe_raw pe)) (mb_pending b (t, g)) \<and>
     length ds \<le> n - 0 \<and> distinct (map dl_handle ds) \<and>
     set ds \<subseteq> set (map (\<lambda>(h, pe). as_delivery t (h, projr (dec (pe_raw pe)))) (mb_pending b (t, g)))"
    by (rule reclaim_scan_eq) (fact decp, fact wf)
  then obtain ds pend' where scan:
    "reclaim_scan dec t c n (now - real_of_int idle / 1000) tick 0 (mb_pending b (t, g)) = (Inr ds, pend')"
    and same: "map (\<lambda>(h, pe). (h, pe_raw pe)) pend' = map (\<lambda>(h, pe). (h, pe_raw pe)) (mb_pending b (t, g))"
    and ds: "length ds \<le> n - 0" "distinct (map dl_handle ds)"
      "set ds \<subseteq> set (map (\<lambda>(h, pe). as_delivery t (h, projr (dec (pe_raw pe)))) (mb_pending b (t, g)))"
    by blast
  have r: "r = Inr ds" and b': "b' = (ensure_group t g b)\<lparr>mb_pending := (mb_pending b)((t, g) := pend')\<rparr>"
    using assms(2) by (simp_all add: bus_reclaim_def Let_def scan)
  have off: "offset_of b' k = offset_of b k" for k
    by (auto simp: b' offset_of_def ensure_group_def split: option.splits)
  have str: "mb_streams b' = mb_streams b" "mb_next_id b' = mb_next_id b"
    and pend: "mb_pending b' k = (if k = (t, g) then pend' else mb_pending b k)" for k
    by (simp_all add: b')
  have keys: "od_keys pend' = od_keys (mb_pending b (t, g))"
    using arg_cong [OF same, of "map fst"] by (simp add: o_def case_prod_unfold)
  have mem: "(h, pe_raw pe) \<in> set (map (\<lambda>(h, pe). (h, pe_raw pe)) (mb_pending b (t, g)))" if "(h, pe) \<in> set pend'" for h pe
    using that unfolding same [symmetric] by force
  have "bus_ok enc good b'"
  proof (rule bus_okI)
    show "claims_ok (take (offset_of b' k) (mb_streams b' (fst k))) (mb_pending b' k)" for k
      using ok(3) [of k] mem keys by (fastforce simp: off str pend claims_ok_def od_wf_def)
  qed (use ok in \<open>simp_all add: off str\<close>)
  moreover have "map (\<lambda>(h, pe). (h, projr (dec (pe_raw pe)))) pend' = map (\<lambda>(h, pe). (h, projr (dec (pe_raw pe)))) (mb_pending b (t, g))"
    using arg_cong [OF same, of "map (\<lambda>(h, raw). (h, projr (dec raw)))"] by (simp add: o_def case_prod_unfold)
  then have "view_of dec b' k = view_of dec b k" for k
    by (simp add: view_of_def off str pend)
  ultimately show ?thesis
    using ds by (auto simp: r view_of_def as_delivery_def image_iff case_prod_unfold)
qed

lemma step_refines:
  assumes "bus_ok enc good b" "op_ok good op" "bus_step enc dec b op = (r, b')"
  shows "bus_ok enc good b' \<and> (\<forall>k. view_of dec b' k = view_step k (op_handle b op) op (view_of dec b k)) \<and>
    (\<exists>ds. r = Inr ds \<and> view_result (view_of dec b (op_group op)) op ds)"
proof (cases op)
  case (Publish ms m)
  with assms publish_refines [OF assms(1), of m ms] show ?thesis by auto
next
  case (Read t g c n now)
  with assms read_refines [OF assms(1), of t g c n now r b' "op_handle b op"] show ?thesis
    by (simp del: view_step.simps)
next
  case (Ack t g h)
  with assms ack_refines(1) [OF assms(1)] ack_refines(2) [OF assms(1), of t g h _ "[]"] show ?thesis
    by (auto simp del: view_step.simps)
next
  case (Reclaim t g c idle n now tick)
  with assms reclaim_refines [OF assms(1), of t g c idle n now tick r b'] show ?thesis
    by (simp del: view_result.simps)
qed

text \<open>The holders and their times, operation by operation.\<close>

lemma step_leases:
  assumes "bus_ok enc good b" "op_ok good op" "bus_step enc dec b op = (r, b')"
  shows "leases_of dec b' k = lease_step k op (gv_unread (view_of dec b k)) (leases_of dec b k) \<and>
    (\<forall>ds. r = Inr ds \<longrightarrow> lease_result (leases_of dec b (op_group op)) op ds)"
proof (cases op)
  case (Publish ms m)
  with assms(3) show ?thesis by (auto simp: leases_of_def publish_def Let_def)
next
  case (Ack t g h)
  with assms(3) show ?thesis by (auto simp: leases_of_def bus_ack_def od_del_def filter_map o_def case_prod_unfold)
next
  case (Reclaim t g c idle n now tick)
  note ok = bus_okD [OF assms(1)]
  have decp: "\<exists>m. dec (pe_raw pe) = Inr m" if "(h, pe) \<in> set (mb_pending b (t, g))" for h pe
    using that ok(3) [of "(t, g)"] dec_stream [OF ok(1) [of t]] by (fastforce simp: claims_ok_def dest: in_set_takeD)
  obtain r' pend where scan: "reclaim_scan dec t c n (now - real_of_int idle / 1000) tick 0 (mb_pending b (t, g)) = (r', pend)" by force
  obtain ds where ds: "r = Inr ds" using step_refines [OF assms] by blast
  have out: "r' = r" "b' = (ensure_group t g b)\<lparr>mb_pending := (mb_pending b)((t, g) := pend)\<rparr>"
    using assms(3) by (simp_all add: Reclaim bus_reclaim_def Let_def scan)
  from reclaim_scan_leases [OF decp scan [unfolded out(1) ds]] show ?thesis
    by (auto simp: Reclaim out(2) ds leases_of_def)
next
  case (Read t g c n now)
  have "b' = snd (bus_read dec t g c n now b)" using assms(3) by (simp add: Read)
  then show ?thesis
    by (auto simp: Read read_run [OF assms(1)] leases_of_def view_of_def take_map drop_map case_prod_unfold o_def)
qed

definition held :: "'raw mem_bus \<Rightarrow> group_key \<Rightarrow> (string \<times> message) set" where
  "held b k = set (gv_unread (view_of dec b k)) \<union> set (gv_claimed (view_of dec b k))"

lemma view_step_held:
  assumes "p \<in> set (gv_unread v) \<union> set (gv_claimed v)" "\<And>t g h'. op = Ack t g h' \<Longrightarrow> (t, g) = k \<Longrightarrow> h' \<noteq> fst p"
  shows "p \<in> set (gv_unread (view_step k h op v)) \<union> set (gv_claimed (view_step k h op v))"
  using assms
proof (cases op)
  case (Read t g c n now)
  have "set (gv_unread v) = set (take n (gv_unread v)) \<union> set (drop n (gv_unread v))"
    by (metis append_take_drop_id set_append)
  with assms(1) show ?thesis by (auto simp: Read)
qed auto

lemma run_held:
  assumes "bus_ok enc good b" "list_all (op_ok good) ops" "p \<in> held b k" "Ack (fst k) (snd k) (fst p) \<notin> set ops"
  shows "p \<in> held (foldl (\<lambda>b op. snd (bus_step enc dec b op)) b ops) k"
  using assms
proof (induction ops arbitrary: b)
  case (Cons op ops)
  obtain r b' where step: "bus_step enc dec b op = (r, b')" by force
  from Cons.prems have "op_ok good op" by simp
  note ref = step_refines [OF Cons.prems(1) this step]
  have noack: "\<And>t g h'. op = Ack t g h' \<Longrightarrow> (t, g) = k \<Longrightarrow> h' \<noteq> fst p"
    using Cons.prems(4) by auto
  have "p \<in> set (gv_unread (view_step k (op_handle b op) op (view_of dec b k))) \<union>
      set (gv_claimed (view_step k (op_handle b op) op (view_of dec b k)))"
    by (rule view_step_held) (use Cons.prems(3) noack in \<open>auto simp: held_def\<close>)
  moreover have "view_of dec b' k = view_step k (op_handle b op) op (view_of dec b k)"
    using ref by blast
  ultimately have "p \<in> held b' k" by (simp add: held_def)
  with Cons ref step show ?case by simp
qed simp

end

interpretation json_bus: message_codec codec_encode "codec_decode L fr" message_ok for L fr
  by unfold_locales

text \<open>
  C5: the in-process bus implements the consumer-group contract. From every state in which the
  streams hold encoded messages, each operation succeeds, keeps that invariant, and acts on every
  group exactly like the abstract queue: a publication is appended to the unread messages of its
  topic, a read takes the first \<open>n\<close> unread messages in order and claims them for its consumer at its time, an acknowledgement
  drops one claim, and a reclaim returns the first \<open>n\<close> of the claimed messages that have been held for at least the idle time, none twice,
  leaves them claimed, now by its consumer and from its own time on, and touches no other claim; no operation touches another group.
\<close>

theorem bus_implements_groups:
  assumes "bus_ok codec_encode message_ok b" "op_ok message_ok op"
    and "bus_step codec_encode (codec_decode L fr) b op = (r, b')"
  shows "bus_ok codec_encode message_ok b' \<and>
    (\<forall>k. view_of (codec_decode L fr) b' k =
      view_step k (op_handle b op) op (view_of (codec_decode L fr) b k)) \<and>
    (\<forall>k. leases_of (codec_decode L fr) b' k =
      lease_step k op (gv_unread (view_of (codec_decode L fr) b k)) (leases_of (codec_decode L fr) b k)) \<and>
    (\<exists>ds. r = Inr ds \<and> view_result (view_of (codec_decode L fr) b (op_group op)) op ds \<and>
      lease_result (leases_of (codec_decode L fr) b (op_group op)) op ds)"
  using json_bus.step_refines [OF assms] json_bus.step_leases [OF assms] by blast

definition example_fresh :: fresh where
  "example_fresh = \<lparr>fr_message_id = ''m1'', fr_trace_id = ''t1'', fr_now = ''2026-01-01''\<rparr>"

definition plain_lib :: pylib where
  "plain_lib = \<lparr>pl_repr = (\<lambda>_. ''?''), pl_int = (\<lambda>_. None), pl_float = (\<lambda>_. None),
     pl_dict = (\<lambda>_. Inl ValueError)\<rparr>"

definition example_message :: message where
  "example_message = message_new example_fresh ''predict.vote'' [(''k'', JInt 1)] ''pred.elo.v1'' None"

lemma example_message_ok: "message_ok example_message"
  by (simp add: example_message_def message_new_def message_ok_def example_fresh_def)

lemma example_message_topic [simp]: "en_topic (msg_envelope example_message) = ''predict.vote''"
  by (simp add: example_message_def message_new_def)

lemma view_of_init [simp]: "view_of dec bus_init k = \<lparr>gv_unread = [], gv_claimed = []\<rparr>"
  by (simp add: view_of_def bus_init_def)

lemma next_id_init [simp]: "mb_next_id bus_init = 0"
  by (simp add: bus_init_def)

theorem bus_implements_groups_witness:
  "\<exists>r b'. bus_step codec_encode (codec_decode plain_lib example_fresh) bus_init (Publish 7 example_message) = (r, b') \<and>
     bus_ok codec_encode message_ok b' \<and>
     gv_unread (view_of (codec_decode plain_lib example_fresh) b' (''predict.vote'', ''g'')) =
       [(bus_handle 7 1, example_message)]"
proof -
  obtain r b' where step: "bus_step codec_encode (codec_decode plain_lib example_fresh) bus_init (Publish 7 example_message) = (r, b')"
    by force
  from bus_implements_groups [OF bus_ok_init _ step] example_message_ok step show ?thesis
    by (simp del: split_paired_All)
qed

text \<open>
  Nothing is lost in transit. A message that a group has not read, or has read and not
  acknowledged, is still unread or claimed after any sequence of operations of any groups
  that does not acknowledge that very message in that group.
\<close>

lemma bus_loses_nothing:
  assumes "bus_ok codec_encode message_ok b" "list_all (op_ok message_ok) ops"
    and "p \<in> set (gv_unread (view_of (codec_decode L fr) b (t, g))) \<union> set (gv_claimed (view_of (codec_decode L fr) b (t, g)))"
    and "Ack t g (fst p) \<notin> set ops"
    and "b' = foldl (\<lambda>b op. snd (bus_step codec_encode (codec_decode L fr) b op)) b ops"
  shows "p \<in> set (gv_unread (view_of (codec_decode L fr) b' (t, g))) \<union> set (gv_claimed (view_of (codec_decode L fr) b' (t, g)))"
  using json_bus.run_held [OF assms(1,2), of p L fr "(t, g)"] assms(3-5)
  by (simp add: json_bus.held_def)

end
