(* ===== verification/Runner.thy ===== *)
theory Runner
  imports Bus
begin

text \<open>
  \<open>AgentRunner\<close> of \<open>swarm/sdk/runner.py\<close> over the in-process bus: one agent, one consumer group,
  retries, dead letters, the flush tick and the heartbeat tick. An agent is its handler functions
  over its own state; a handler that raises may still have changed that state. Requests to stop,
  signal handlers, the in-flight counter (incremented and decremented within one delivery) and the
  registry are not modelled, nor is the latency sample.
\<close>

declare split_paired_All [simp del]

section \<open>Agents, configuration, state\<close>

record 's agent =
  ag_name :: string
  ag_subscribes :: "topic list"
  ag_handle :: "message \<Rightarrow> 's \<Rightarrow> message list res \<times> 's"
  ag_flush :: "('s \<Rightarrow> message list res \<times> 's) option"
  ag_on_heartbeat :: "('s \<Rightarrow> message list res \<times> 's) option"

record runner_cfg =
  rc_group_prefix :: string
  rc_instance_id :: string
  rc_heartbeat_sec :: int
  rc_max_in_flight :: nat
  rc_retry_budget :: int
  rc_pending_claim_sec :: int
  rc_max_schema_version :: int
  rc_flush_interval_sec :: real

text \<open>The codec, and the wall-clock reading that stamps the \<open>n\<close>-th publication.\<close>

record 'r transport =
  tr_enc :: "message \<Rightarrow> 'r"
  tr_dec :: "'r \<Rightarrow> message res"
  tr_millis :: "nat \<Rightarrow> int"

record ('s, 'r) runner =
  rn_bus :: "'r mem_bus"
  rn_agent :: 's
  rn_metrics :: "string \<Rightarrow> nat"
  rn_last_reclaim :: "topic \<Rightarrow> real"
  rn_last_flush :: real
  rn_last_heartbeat :: real

definition group_name :: "runner_cfg \<Rightarrow> 's agent \<Rightarrow> string" where
  "group_name C A = rc_group_prefix C @ '':'' @ ag_name A"

definition inc :: "string \<Rightarrow> ('s, 'r) runner \<Rightarrow> ('s, 'r) runner" where
  "inc k w = w\<lparr>rn_metrics := (rn_metrics w)(k := rn_metrics w k + 1)\<rparr>"

definition send :: "'r transport \<Rightarrow> message \<Rightarrow> ('s, 'r) runner \<Rightarrow> ('s, 'r) runner" where
  "send T m w = w\<lparr>rn_bus := publish (tr_enc T) (tr_millis T (mb_next_id (rn_bus w))) m (rn_bus w)\<rparr>"

definition send_output :: "'r transport \<Rightarrow> ('s, 'r) runner \<Rightarrow> message \<Rightarrow> ('s, 'r) runner" where
  "send_output T w m = inc ''msg_published'' (send T m w)"

definition ack_delivery :: "runner_cfg \<Rightarrow> 's agent \<Rightarrow> delivery \<Rightarrow> ('s, 'r) runner \<Rightarrow> ('s, 'r) runner" where
  "ack_delivery C A d w = w\<lparr>rn_bus := bus_ack (dl_topic d) (group_name C A) (dl_handle d) (rn_bus w)\<rparr>"

section \<open>One delivery\<close>

definition dlq_message :: "delivery \<Rightarrow> string \<Rightarrow> message" where
  "dlq_message d reason =
     (let env = msg_envelope (dl_message d) in
      \<lparr>msg_envelope = env\<lparr>en_topic := dlq_for (en_topic env)\<rparr>,
       msg_payload =
         [(''original_topic'', JStr (en_topic env)),
          (''reason'', JStr reason),
          (''attempts'', JInt (en_attempt env + 1)),
          (''payload'', JObj (msg_payload (dl_message d)))]\<rparr>)"

definition to_dlq :: "'r transport \<Rightarrow> delivery \<Rightarrow> string \<Rightarrow> ('s, 'r) runner \<Rightarrow> ('s, 'r) runner" where
  "to_dlq T d reason w = inc ''msg_dlq'' (send T (dlq_message d reason) w)"

definition retry_message :: "delivery \<Rightarrow> message" where
  "retry_message d =
     (let env = msg_envelope (dl_message d) in
      \<lparr>msg_envelope = env\<lparr>en_attempt := en_attempt env + 1\<rparr>, msg_payload = msg_payload (dl_message d)\<rparr>)"

definition handle_failure ::
  "'r transport \<Rightarrow> runner_cfg \<Rightarrow> 's agent \<Rightarrow> delivery \<Rightarrow> ('s, 'r) runner \<Rightarrow> ('s, 'r) runner" where
  "handle_failure T C A d w =
     (if rc_retry_budget C \<le> en_attempt (msg_envelope (dl_message d)) + 1
      then ack_delivery C A d (to_dlq T d ''retry_budget_exhausted'' w)
      else ack_delivery C A d (inc ''msg_retried'' (send T (retry_message d) w)))"

definition process ::
  "'r transport \<Rightarrow> runner_cfg \<Rightarrow> 's agent \<Rightarrow> ('s, 'r) runner \<Rightarrow> delivery \<Rightarrow> ('s, 'r) runner" where
  "process T C A w0 d =
     (let w = inc ''msg_consumed'' w0; msg = dl_message d in
      if rc_max_schema_version C < en_schema_version (msg_envelope msg)
      then ack_delivery C A d (to_dlq T d ''schema_version_unsupported'' w)
      else case ag_handle A msg (rn_agent w) of
          (Inl e, s) \<Rightarrow> handle_failure T C A d (inc ''msg_failed'' (w\<lparr>rn_agent := s\<rparr>))
        | (Inr outputs, s) \<Rightarrow> ack_delivery C A d (foldl (send_output T) (w\<lparr>rn_agent := s\<rparr>) outputs))"

section \<open>One iteration of the loop\<close>

record readings =
  rd_now :: real
  rd_read :: "topic \<Rightarrow> real"
  rd_reclaim :: "topic \<Rightarrow> real"
  rd_tick :: "topic \<Rightarrow> nat \<Rightarrow> real"
  rd_beat :: real
  rd_beat_done :: real

definition reclaim_interval :: "runner_cfg \<Rightarrow> real" where
  "reclaim_interval C = max 1 (real_of_int (rc_pending_claim_sec C) / 2)"

text \<open>The throttled reclaim of one topic; the flag is \<open>did_work\<close>. A decode error escapes.\<close>

definition reclaim_topic ::
  "'r transport \<Rightarrow> runner_cfg \<Rightarrow> 's agent \<Rightarrow> readings \<Rightarrow> topic \<Rightarrow> ('s, 'r) runner \<Rightarrow> bool res \<times> ('s, 'r) runner" where
  "reclaim_topic T C A R t w =
     (if reclaim_interval C \<le> rd_now R - rn_last_reclaim w t
      then
        (let (r, b) = bus_reclaim (tr_dec T) t (group_name C A) (rc_instance_id C)
               (rc_pending_claim_sec C * 1000) (rc_max_in_flight C) (rd_reclaim R t) (rd_tick R t) (rn_bus w);
             w1 = w\<lparr>rn_last_reclaim := (rn_last_reclaim w)(t := rd_now R), rn_bus := b\<rparr> in
         case r of
           Inl e \<Rightarrow> (Inl e, w1)
         | Inr ds \<Rightarrow> (Inr (ds \<noteq> []), foldl (process T C A) w1 ds))
      else (Inr False, w))"

definition read_topic ::
  "'r transport \<Rightarrow> runner_cfg \<Rightarrow> 's agent \<Rightarrow> real \<Rightarrow> topic \<Rightarrow> ('s, 'r) runner \<Rightarrow> bool res \<times> ('s, 'r) runner" where
  "read_topic T C A now t w =
     (let (r, b) = bus_read (tr_dec T) t (group_name C A) (rc_instance_id C) (rc_max_in_flight C) now (rn_bus w);
          w1 = w\<lparr>rn_bus := b\<rparr> in
      case r of
        Inl e \<Rightarrow> (Inl e, w1)
      | Inr ds \<Rightarrow> (Inr (ds \<noteq> []), foldl (process T C A) w1 ds))"

definition then_or :: "bool res \<times> 'w \<Rightarrow> ('w \<Rightarrow> bool res \<times> 'w) \<Rightarrow> bool res \<times> 'w" where
  "then_or p k = (case p of
     (Inl e, w) \<Rightarrow> (Inl e, w)
   | (Inr a, w) \<Rightarrow> (let (r, w') = k w in (res_bind r (\<lambda>b. Inr (a \<or> b)), w')))"

fun poll_topics ::
  "'r transport \<Rightarrow> runner_cfg \<Rightarrow> 's agent \<Rightarrow> readings \<Rightarrow> topic list \<Rightarrow> ('s, 'r) runner \<Rightarrow> bool res \<times> ('s, 'r) runner" where
  "poll_topics T C A R [] w = (Inr False, w)"
| "poll_topics T C A R (t # ts) w =
     then_or (reclaim_topic T C A R t w) (\<lambda>w1.
     then_or (read_topic T C A (rd_read R t) t w1) (\<lambda>w2.
     poll_topics T C A R ts w2))"

text \<open>The output of a tick: a failure is counted and swallowed.\<close>

definition run_tick ::
  "'r transport \<Rightarrow> string \<Rightarrow> ('s \<Rightarrow> message list res \<times> 's) \<Rightarrow> ('s, 'r) runner \<Rightarrow> bool \<times> ('s, 'r) runner" where
  "run_tick T failed tick w =
     (case tick (rn_agent w) of
        (Inl e, s) \<Rightarrow> (False, inc failed (w\<lparr>rn_agent := s\<rparr>))
      | (Inr outputs, s) \<Rightarrow> (outputs \<noteq> [], foldl (send_output T) (w\<lparr>rn_agent := s\<rparr>) outputs))"

definition flush_tick ::
  "'r transport \<Rightarrow> runner_cfg \<Rightarrow> 's agent \<Rightarrow> readings \<Rightarrow> ('s, 'r) runner \<Rightarrow> bool \<times> ('s, 'r) runner" where
  "flush_tick T C A R w =
     (case ag_flush A of
        None \<Rightarrow> (False, w)
      | Some tick \<Rightarrow>
          if rc_flush_interval_sec C \<le> rd_now R - rn_last_flush w
          then run_tick T ''flush_failed'' tick (w\<lparr>rn_last_flush := rd_now R\<rparr>)
          else (False, w))"

definition maybe_heartbeat ::
  "'r transport \<Rightarrow> runner_cfg \<Rightarrow> 's agent \<Rightarrow> readings \<Rightarrow> ('s, 'r) runner \<Rightarrow> bool \<times> ('s, 'r) runner" where
  "maybe_heartbeat T C A R w =
     (if real_of_int (rc_heartbeat_sec C) \<le> rd_beat R - rn_last_heartbeat w
      then let w1 = w\<lparr>rn_last_heartbeat := rd_beat_done R\<rparr> in
        (case ag_on_heartbeat A of
           None \<Rightarrow> (False, w1)
         | Some tick \<Rightarrow> run_tick T ''heartbeat_failed'' tick w1)
      else (False, w))"

definition runner_step ::
  "'r transport \<Rightarrow> runner_cfg \<Rightarrow> 's agent \<Rightarrow> readings \<Rightarrow> ('s, 'r) runner \<Rightarrow> bool res \<times> ('s, 'r) runner" where
  "runner_step T C A R w =
     then_or (poll_topics T C A R (ag_subscribes A) w) (\<lambda>w1.
       let (d1, w2) = flush_tick T C A R w1; (d2, w3) = maybe_heartbeat T C A R w2 in (Inr (d1 \<or> d2), w3))"

section \<open>What one delivery does\<close>

text \<open>The messages one delivery leads to, and the agent state after it.\<close>

definition settle :: "runner_cfg \<Rightarrow> 's agent \<Rightarrow> delivery \<Rightarrow> 's \<Rightarrow> message list \<times> 's" where
  "settle C A d s =
     (let env = msg_envelope (dl_message d) in
      if rc_max_schema_version C < en_schema_version env then ([dlq_message d ''schema_version_unsupported''], s)
      else case ag_handle A (dl_message d) s of
          (Inl e, s') \<Rightarrow>
            (if rc_retry_budget C \<le> en_attempt env + 1 then [dlq_message d ''retry_budget_exhausted'']
             else [retry_message d], s')
        | (Inr outputs, s') \<Rightarrow> (outputs, s'))"

lemma runner_frames [simp]:
  "rn_bus (inc k w) = rn_bus w" "rn_agent (inc k w) = rn_agent w" "rn_agent (send T m w) = rn_agent w"
  "rn_agent (ack_delivery C A d w) = rn_agent w"
  "rn_bus (ack_delivery C A d w) = bus_ack (dl_topic d) (group_name C A) (dl_handle d) (rn_bus w)"
  by (simp_all add: inc_def send_def ack_delivery_def)

abbreviation publish_next :: "'r transport \<Rightarrow> 'r mem_bus \<Rightarrow> message \<Rightarrow> 'r mem_bus" where
  "publish_next T b m \<equiv> publish (tr_enc T) (tr_millis T (mb_next_id b)) m b"

lemma send_bus [simp]: "rn_bus (send T m w) = publish_next T (rn_bus w) m"
  by (simp add: send_def)

lemma send_outputs:
  "rn_bus (foldl (send_output T) w ms) = foldl (publish_next T) (rn_bus w) ms"
  "rn_agent (foldl (send_output T) w ms) = rn_agent w"
  by (induction ms arbitrary: w) (simp_all add: send_output_def)

lemma process_settle:
  "rn_bus (process T C A w d) =
     bus_ack (dl_topic d) (group_name C A) (dl_handle d) (foldl (publish_next T) (rn_bus w) (fst (settle C A d (rn_agent w))))"
  "rn_agent (process T C A w d) = snd (settle C A d (rn_agent w))"
  by (auto simp: process_def settle_def Let_def to_dlq_def handle_failure_def send_outputs
      split: prod.splits sum.splits)

section \<open>Deliveries on the JSON bus\<close>

definition json_transport :: "pylib \<Rightarrow> fresh \<Rightarrow> (nat \<Rightarrow> int) \<Rightarrow> jval transport" where
  "json_transport L fr ms = \<lparr>tr_enc = codec_encode, tr_dec = codec_decode L fr, tr_millis = ms\<rparr>"

lemma json_transport_simps [simp]:
  "tr_enc (json_transport L fr ms) = codec_encode" "tr_dec (json_transport L fr ms) = codec_decode L fr"
  by (simp_all add: json_transport_def)

abbreviation json_ok :: "jval mem_bus \<Rightarrow> bool" where
  "json_ok \<equiv> bus_ok codec_encode message_ok"

abbreviation seen_by :: "pylib \<Rightarrow> fresh \<Rightarrow> jval mem_bus \<Rightarrow> group_key \<Rightarrow> group_view" where
  "seen_by L fr \<equiv> view_of (codec_decode L fr)"

text \<open>The messages waiting for a group, without their handles.\<close>

definition waiting :: "pylib \<Rightarrow> fresh \<Rightarrow> jval mem_bus \<Rightarrow> group_key \<Rightarrow> message list" where
  "waiting L fr b k = map snd (gv_unread (seen_by L fr b k))"

abbreviation on_topic :: "topic \<Rightarrow> message list \<Rightarrow> message list" where
  "on_topic t \<equiv> filter (\<lambda>m. en_topic (msg_envelope m) = t)"

lemma publish_view:
  assumes "json_ok b" "message_ok m"
  shows "json_ok (publish codec_encode ms m b)"
    and "waiting L fr (publish codec_encode ms m b) k = waiting L fr b k @ on_topic (fst k) [m]"
    and "gv_claimed (seen_by L fr (publish codec_encode ms m b) k) = gv_claimed (seen_by L fr b k)"
  using json_bus.publish_refines [OF assms] by (simp_all add: waiting_def)

lemma publish_all_view:
  assumes "json_ok b" "list_all message_ok ms"
  shows "json_ok (foldl (publish_next (json_transport L fr mi)) b ms)
    \<and> waiting L fr (foldl (publish_next (json_transport L fr mi)) b ms) k = waiting L fr b k @ on_topic (fst k) ms
    \<and> gv_claimed (seen_by L fr (foldl (publish_next (json_transport L fr mi)) b ms) k) = gv_claimed (seen_by L fr b k)"
  using assms
proof (induction ms arbitrary: b)
  case (Cons m ms)
  let ?b = "publish codec_encode (tr_millis (json_transport L fr mi) (mb_next_id b)) m b"
  from Cons.prems have m: "message_ok m" and ms: "list_all message_ok ms" by simp_all
  from Cons.IH [OF publish_view(1) [OF Cons.prems(1) m] ms] show ?case
    using publish_view(2,3) [OF Cons.prems(1) m] by simp
qed simp

lemma ack_view:
  assumes "json_ok b"
  shows "json_ok (bus_ack t g h b)" "waiting L fr (bus_ack t g h b) k = waiting L fr b k"
    and "gv_claimed (seen_by L fr (bus_ack t g h b) k) =
      (if (t, g) = k then filter (\<lambda>p. fst p \<noteq> h) (gv_claimed (seen_by L fr b k)) else gv_claimed (seen_by L fr b k))"
  using json_bus.ack_refines(1) [OF assms] json_bus.ack_refines(2) [OF assms, of L fr t g h k "[]"]
  by (auto simp: waiting_def)

lemma process_view:
  assumes "json_ok (rn_bus w)" "list_all message_ok (fst (settle C A d (rn_agent w)))"
    and "b' = rn_bus (process (json_transport L fr mi) C A w d)"
  shows "json_ok b' \<and>
    waiting L fr b' k = waiting L fr (rn_bus w) k @ on_topic (fst k) (fst (settle C A d (rn_agent w))) \<and>
    gv_claimed (seen_by L fr b' k) =
      (if k = (dl_topic d, group_name C A)
       then filter (\<lambda>p. fst p \<noteq> dl_handle d) (gv_claimed (seen_by L fr (rn_bus w) k))
       else gv_claimed (seen_by L fr (rn_bus w) k))"
proof -
  note p = publish_all_view [OF assms(1,2), of L fr mi k]
  from p have "json_ok (foldl (publish_next (json_transport L fr mi)) (rn_bus w) (fst (settle C A d (rn_agent w))))"
    by blast
  note a = ack_view [OF this, where t = "dl_topic d" and g = "group_name C A" and h = "dl_handle d"]
  show ?thesis
    using p a unfolding assms(3) process_settle by auto
qed

lemma read_view:
  assumes "json_ok b" "bus_read (codec_decode L fr) t g c n now b = (r, b')"
  shows "json_ok b'" "r = Inr (map (as_delivery t) (take n (gv_unread (seen_by L fr b (t, g)))))"
    "seen_by L fr b' k = (if (t, g) = k then
        \<lparr>gv_unread = drop n (gv_unread (seen_by L fr b k)),
         gv_claimed = gv_claimed (seen_by L fr b k) @ take n (gv_unread (seen_by L fr b k))\<rparr>
      else seen_by L fr b k)"
  using json_bus.read_refines [OF assms, of "[]"] by auto

text \<open>
  One delivery is settled completely. Whatever the handler does, the delivery's claim is
  released in the runner's own group and no other claim changes, and what reaches the waiting
  messages of every group is exactly what the branch taken calls for: the outputs in order, one retry
  with the attempt counter raised, or one dead letter (at once when the schema version is too new).
\<close>

lemma delivery_settled:
  assumes "json_ok (rn_bus w)" "list_all message_ok (fst (settle C A d (rn_agent w)))"
    and "w' = process (json_transport L fr mi) C A w d"
  shows "json_ok (rn_bus w') \<and> rn_agent w' = snd (settle C A d (rn_agent w)) \<and>
    (\<forall>k. waiting L fr (rn_bus w') k =
        waiting L fr (rn_bus w) k @ on_topic (fst k) (fst (settle C A d (rn_agent w))) \<and>
      gv_claimed (seen_by L fr (rn_bus w') k) =
        (if k = (dl_topic d, group_name C A)
         then filter (\<lambda>p. fst p \<noteq> dl_handle d) (gv_claimed (seen_by L fr (rn_bus w) k))
         else gv_claimed (seen_by L fr (rn_bus w) k)))"
  using process_view [OF assms(1,2)] by (auto simp: assms(3) process_settle(2))

definition echo_agent :: "unit agent" where
  "echo_agent = \<lparr>ag_name = ''echo'', ag_subscribes = [''predict.vote''],
     ag_handle = (\<lambda>m s. (Inr [m], s)), ag_flush = None, ag_on_heartbeat = None\<rparr>"

definition failing_agent :: "unit agent" where
  "failing_agent = echo_agent\<lparr>ag_handle := \<lambda>m s. (Inl RuntimeError, s)\<rparr>"

definition example_runner_cfg :: runner_cfg where
  "example_runner_cfg = \<lparr>rc_group_prefix = ''swarm'', rc_instance_id = ''echo.1'', rc_heartbeat_sec = 5,
     rc_max_in_flight = 32, rc_retry_budget = 3, rc_pending_claim_sec = 60, rc_max_schema_version = 1,
     rc_flush_interval_sec = 1 / 10\<rparr>"

definition example_runner :: "message \<Rightarrow> (unit, jval) runner" where
  "example_runner m = \<lparr>rn_bus = publish codec_encode 7 m bus_init, rn_agent = (), rn_metrics = (\<lambda>_. 0),
     rn_last_reclaim = (\<lambda>_. 0), rn_last_flush = 0, rn_last_heartbeat = 0\<rparr>"

lemma example_runner_ok: "message_ok m \<Longrightarrow> json_ok (rn_bus (example_runner m))"
  by (simp add: example_runner_def publish_view(1) [OF bus_ok_init])

definition example_delivery :: delivery where
  "example_delivery = \<lparr>dl_handle = ''7-1'', dl_topic = ''predict.vote'', dl_message = example_message\<rparr>"

lemma settle_echo: "fst (settle example_runner_cfg echo_agent example_delivery ()) = [example_message]"
  by (simp add: settle_def echo_agent_def example_delivery_def example_runner_cfg_def)
    (simp add: example_message_def message_new_def envelope_schema_version_def)

section \<open>A message that always fails\<close>

text \<open>Successive reads of one topic, one for each clock reading.\<close>

definition drive :: "'r transport \<Rightarrow> runner_cfg \<Rightarrow> 's agent \<Rightarrow> topic \<Rightarrow> real list \<Rightarrow> ('s, 'r) runner \<Rightarrow> ('s, 'r) runner" where
  "drive T C A t nows w = foldl (\<lambda>w now. snd (read_topic T C A now t w)) w nows"

lemma read_topic_none:
  assumes "json_ok (rn_bus w)" "gv_unread (seen_by L fr (rn_bus w) (t, group_name C A)) = []"
    and "w' = snd (read_topic (json_transport L fr mi) C A now t w)"
  shows "json_ok (rn_bus w') \<and> (\<forall>k. seen_by L fr (rn_bus w') k = seen_by L fr (rn_bus w) k)"
proof -
  obtain r b where read: "bus_read (codec_decode L fr) t (group_name C A) (rc_instance_id C) (rc_max_in_flight C) now (rn_bus w) = (r, b)"
    by force
  note v = read_view [OF assms(1) read]
  have "w' = w\<lparr>rn_bus := b\<rparr>"
    using v(2) by (simp add: assms(2,3) read_topic_def read)
  then show ?thesis
    using v(1) v(3) assms(2) by auto
qed

lemma drive_none:
  "json_ok (rn_bus w) \<Longrightarrow> gv_unread (seen_by L fr (rn_bus w) (t, group_name C A)) = [] \<Longrightarrow>
    json_ok (rn_bus (drive (json_transport L fr mi) C A t nows w)) \<and>
    (\<forall>k. seen_by L fr (rn_bus (drive (json_transport L fr mi) C A t nows w)) k = seen_by L fr (rn_bus w) k)"
proof (induction nows arbitrary: w)
  case (Cons now nows)
  let ?w = "snd (read_topic (json_transport L fr mi) C A now t w)"
  from read_topic_none [OF Cons.prems refl]
  have "json_ok (rn_bus ?w)" "\<And>k. seen_by L fr (rn_bus ?w) k = seen_by L fr (rn_bus w) k" by blast+
  with Cons show ?case by (simp add: drive_def)
qed (simp add: drive_def)

text \<open>Reading the one message that waits, and settling it.\<close>

lemma read_topic_one:
  assumes "json_ok (rn_bus w)" "0 < rc_max_in_flight C"
    and view: "seen_by L fr (rn_bus w) (t, group_name C A) = \<lparr>gv_unread = [(h, m)], gv_claimed = []\<rparr>"
    and set: "settle C A \<lparr>dl_handle = h, dl_topic = t, dl_message = m\<rparr> (rn_agent w) = ([x], s)" "message_ok x"
    and w': "w' = snd (read_topic (json_transport L fr mi) C A now t w)"
  shows "json_ok (rn_bus w') \<and>
    waiting L fr (rn_bus w') (t, group_name C A) = on_topic t [x] \<and>
    gv_claimed (seen_by L fr (rn_bus w') (t, group_name C A)) = [] \<and>
    (\<forall>k. k \<noteq> (t, group_name C A) \<longrightarrow> waiting L fr (rn_bus w') k = waiting L fr (rn_bus w) k @ on_topic (fst k) [x])"
proof -
  let ?k = "(t, group_name C A)" and ?d = "\<lparr>dl_handle = h, dl_topic = t, dl_message = m\<rparr>"
  obtain r b where read: "bus_read (codec_decode L fr) t (group_name C A) (rc_instance_id C) (rc_max_in_flight C) now (rn_bus w) = (r, b)"
    by force
  note v = read_view [OF assms(1) read]
  have one: "take (rc_max_in_flight C) [(h, m)] = [(h, m)]" "drop (rc_max_in_flight C) [(h, m)] = []"
    using assms(2) by (cases "rc_max_in_flight C"; simp)+
  have w'_eq: "w' = process (json_transport L fr mi) C A (w\<lparr>rn_bus := b\<rparr>) ?d"
    using v(2) by (simp add: w' read_topic_def read view one as_delivery_def)
  have ok: "json_ok (rn_bus (w\<lparr>rn_bus := b\<rparr>))" using v(1) by simp
  have outs: "list_all message_ok (fst (settle C A ?d (rn_agent (w\<lparr>rn_bus := b\<rparr>))))"
    using set by simp
  have bview: "seen_by L fr b ?k = \<lparr>gv_unread = [], gv_claimed = [(h, m)]\<rparr>"
    and bother: "k \<noteq> ?k \<Longrightarrow> seen_by L fr b k = seen_by L fr (rn_bus w) k" for k
    using v(3) view one by auto
  note p = process_view [OF ok outs, OF refl, of L fr mi, folded w'_eq]
  show ?thesis
    using p [of ?k] bview p bother set by (simp add: waiting_def)
qed

definition fails_on :: "'s agent \<Rightarrow> jobj \<Rightarrow> bool" where
  "fails_on A p \<longleftrightarrow> (\<forall>m s. msg_payload m = p \<longrightarrow> (\<exists>e s'. ag_handle A m s = (Inl e, s')))"

definition with_attempt :: "message \<Rightarrow> int \<Rightarrow> message" where
  "with_attempt m n = m\<lparr>msg_envelope := (msg_envelope m)\<lparr>en_attempt := n\<rparr>\<rparr>"

text \<open>The dead letter of a message after its last attempt.\<close>

definition dead_letter :: "message \<Rightarrow> int \<Rightarrow> message" where
  "dead_letter m budget = dlq_message \<lparr>dl_handle = [], dl_topic = en_topic (msg_envelope m),
     dl_message = with_attempt m (budget - 1)\<rparr> ''retry_budget_exhausted''"

lemma dlq_message_ok: "message_ok (dl_message d) \<Longrightarrow> message_ok (dlq_message d r)"
  by (simp add: message_ok_def dlq_message_def Let_def)

lemma with_attempt_ok [simp]: "message_ok (with_attempt m n) = message_ok m"
  by (simp add: message_ok_def with_attempt_def)

lemma settle_poison:
  assumes "fails_on A (msg_payload m)" "en_schema_version (msg_envelope m) \<le> rc_max_schema_version C"
  shows "\<exists>s'. settle C A \<lparr>dl_handle = h, dl_topic = t, dl_message = with_attempt m n\<rparr> s =
    ([if rc_retry_budget C \<le> n + 1
      then dlq_message \<lparr>dl_handle = h, dl_topic = t, dl_message = with_attempt m n\<rparr> ''retry_budget_exhausted''
      else with_attempt m (n + 1)], s')"
proof -
  obtain e s' where "ag_handle A (with_attempt m n) s = (Inl e, s')"
    using assms(1) unfolding fails_on_def by (metis message.select_convs(2) message.surjective message.update_convs(1) with_attempt_def)
  with assms(2) show ?thesis
    by (simp add: settle_def with_attempt_def retry_message_def Let_def)
qed

lemma poison_rounds:
  assumes "json_ok (rn_bus w)" "0 < rc_max_in_flight C" "message_ok m" "en_topic (msg_envelope m) = t"
    and "dlq_for t \<noteq> t" "fails_on A (msg_payload m)" "en_schema_version (msg_envelope m) \<le> rc_max_schema_version C"
    and "seen_by L fr (rn_bus w) (t, group_name C A) = \<lparr>gv_unread = [(h, with_attempt m n)], gv_claimed = []\<rparr>"
    and "n < rc_retry_budget C" "nat (rc_retry_budget C - n) \<le> length nows"
    and "w' = drive (json_transport L fr mi) C A t nows w"
  shows "gv_unread (seen_by L fr (rn_bus w') (t, group_name C A)) = [] \<and>
    gv_claimed (seen_by L fr (rn_bus w') (t, group_name C A)) = [] \<and>
    waiting L fr (rn_bus w') (dlq_for t, q) = waiting L fr (rn_bus w) (dlq_for t, q) @ [dead_letter m (rc_retry_budget C)]"
  using assms
proof (induction nows arbitrary: w n h w')
  case Nil
  then show ?case by simp
next
  case (Cons now nows)
  let ?k = "(t, group_name C A)" and ?d = "\<lparr>dl_handle = h, dl_topic = t, dl_message = with_attempt m n\<rparr>"
  let ?w = "snd (read_topic (json_transport L fr mi) C A now t w)"
  let ?x = "if rc_retry_budget C \<le> n + 1 then dlq_message ?d ''retry_budget_exhausted'' else with_attempt m (n + 1)"
  obtain s' where s': "settle C A ?d (rn_agent w) = ([?x], s')"
    using settle_poison [OF Cons.prems(6,7)] by blast
  have x: "message_ok ?x" using Cons.prems(3) by (simp add: dlq_message_ok)
  note one = read_topic_one [OF Cons.prems(1,2,8) s' x, OF refl, of mi now]
  have w': "w' = drive (json_transport L fr mi) C A t nows ?w" using Cons.prems(11) by (simp add: drive_def)
  have neq: "(dlq_for t, q) \<noteq> ?k" using Cons.prems(5) by auto
  show ?case
  proof (cases "rc_retry_budget C \<le> n + 1")
    case True
    then have last: "n = rc_retry_budget C - 1" using Cons.prems(9) by simp
    have topic: "en_topic (msg_envelope ?x) = dlq_for t"
      using True Cons.prems(4) by (simp add: dlq_message_def with_attempt_def Let_def)
    have dl: "?x = dead_letter m (rc_retry_budget C)"
      using True by (simp add: dead_letter_def last dlq_message_def)
    have none: "gv_unread (seen_by L fr (rn_bus ?w) ?k) = []"
      using one topic Cons.prems(5) by (simp add: waiting_def)
    from one have "json_ok (rn_bus ?w)" by blast
    from drive_none [OF this none, of mi nows] have
      "seen_by L fr (rn_bus w') k = seen_by L fr (rn_bus ?w) k" for k unfolding w' by blast
    moreover have "waiting L fr (rn_bus ?w) (dlq_for t, q) = waiting L fr (rn_bus w) (dlq_for t, q) @ [?x]"
      using one neq topic by simp
    ultimately show ?thesis
      using one none dl by (simp add: waiting_def)
  next
    case False
    then have x_eq: "?x = with_attempt m (n + 1)" by simp
    have topic: "en_topic (msg_envelope (with_attempt m (n + 1))) = t" using Cons.prems(4) by (simp add: with_attempt_def)
    have "waiting L fr (rn_bus ?w) ?k = [with_attempt m (n + 1)]"
      using one topic unfolding x_eq by simp
    then obtain h' where h': "gv_unread (seen_by L fr (rn_bus ?w) ?k) = [(h', with_attempt m (n + 1))]"
      by (auto simp: waiting_def)
    then have view: "seen_by L fr (rn_bus ?w) ?k = \<lparr>gv_unread = [(h', with_attempt m (n + 1))], gv_claimed = []\<rparr>"
      using one by simp
    from one have ok: "json_ok (rn_bus ?w)" by blast
    have "nat (rc_retry_budget C - (n + 1)) \<le> length nows" using Cons.prems(9,10) by simp
    moreover have "waiting L fr (rn_bus ?w) (dlq_for t, q) = waiting L fr (rn_bus w) (dlq_for t, q)"
      using one neq topic Cons.prems(5) unfolding x_eq by simp
    ultimately show ?thesis
      using Cons.IH [OF ok Cons.prems(2-7) view _ _ w'] False by simp
  qed
qed

text \<open>
  C6: a poison message ends in the dead-letter topic. A message whose payload the handler
  always rejects, waiting alone on a topic that is not itself a dead-letter topic, is gone from its group
  after as many reads as the retry budget allows, and exactly one dead letter, with the original
  topic, payload and the full attempt count, has reached the groups of the dead-letter topic; further
  reads change nothing.
\<close>

theorem poison_message_dead_lettered:
  assumes "json_ok (rn_bus w)" "0 < rc_max_in_flight C" "1 \<le> rc_retry_budget C"
    and "message_ok m" "en_topic (msg_envelope m) = t" "en_attempt (msg_envelope m) = 0" "dlq_for t \<noteq> t"
    and "fails_on A (msg_payload m)" "en_schema_version (msg_envelope m) \<le> rc_max_schema_version C"
    and "seen_by L fr (rn_bus w) (t, group_name C A) = \<lparr>gv_unread = [(h, m)], gv_claimed = []\<rparr>"
    and "nat (rc_retry_budget C) \<le> length nows"
    and "w' = drive (json_transport L fr mi) C A t nows w"
  shows "gv_unread (seen_by L fr (rn_bus w') (t, group_name C A)) = [] \<and>
    gv_claimed (seen_by L fr (rn_bus w') (t, group_name C A)) = [] \<and>
    waiting L fr (rn_bus w') (dlq_for t, q) = waiting L fr (rn_bus w) (dlq_for t, q) @ [dead_letter m (rc_retry_budget C)]"
proof -
  have m: "with_attempt m 0 = m" using assms(6) by (simp add: with_attempt_def)
  show ?thesis
    by (rule poison_rounds [where n = 0, OF assms(1,2,4,5,7-9)]) (use assms m in simp_all)
qed

lemma failing_agent_fails: "fails_on failing_agent p"
  by (simp add: fails_on_def failing_agent_def)

theorem poison_message_dead_lettered_witness:
  "waiting plain_lib example_fresh
     (rn_bus (drive (json_transport plain_lib example_fresh (\<lambda>_. 7)) example_runner_cfg failing_agent ''predict.vote'' [1, 2, 3]
        (example_runner example_message))) (''predict.vote.dlq'', ''q'') = [dead_letter example_message 3]"
proof -
  have dlq: "dlq_for ''predict.vote'' = ''predict.vote.dlq''"
    by (simp add: dlq_for_def ends_with_def dlq_suffix_def)
  have view: "seen_by plain_lib example_fresh (rn_bus (example_runner example_message)) k =
      (if fst k = ''predict.vote'' then \<lparr>gv_unread = [(bus_handle 7 1, example_message)], gv_claimed = []\<rparr>
       else \<lparr>gv_unread = [], gv_claimed = []\<rparr>)" for k
    by (simp add: example_runner_def json_bus.publish_refines(2) [OF bus_ok_init example_message_ok])
  have a: "en_attempt (msg_envelope example_message) = 0" "en_schema_version (msg_envelope example_message) = 1"
    by (simp_all add: example_message_def message_new_def envelope_schema_version_def)
  show ?thesis
    using poison_message_dead_lettered [where w = "example_runner example_message" and C = example_runner_cfg
        and m = example_message and t = "''predict.vote''" and A = failing_agent and L = plain_lib and fr = example_fresh
        and h = "bus_handle 7 1" and nows = "[1, 2, 3]" and mi = "\<lambda>_. 7" and q = "''q''",
        OF example_runner_ok _ _ example_message_ok _ _ _ failing_agent_fails _ _ _ refl, OF example_message_ok]
    by (simp add: example_runner_cfg_def dlq view a waiting_def)
qed

text \<open>
  On a dead-letter topic the retry budget protects nobody: \<open>dlq_for\<close> keeps the name, so
  when the handler of its consumer always raises and the attempts are used up, each read publishes the
  letter again, wrapped once more, on the same topic, and after any number of reads one is waiting.
\<close>

lemma dead_letter_consumer_never_settles:
  assumes "json_ok (rn_bus w)" "0 < rc_max_in_flight C" "dlq_for t = t"
    and "\<forall>p. fails_on A p" "message_ok m" "en_topic (msg_envelope m) = t"
    and "rc_retry_budget C \<le> en_attempt (msg_envelope m) + 1"
    and "seen_by L fr (rn_bus w) (t, group_name C A) = \<lparr>gv_unread = [(h, m)], gv_claimed = []\<rparr>"
    and "w' = drive (json_transport L fr mi) C A t nows w"
  shows "length (waiting L fr (rn_bus w') (t, group_name C A)) = 1"
  using assms
proof (induction nows arbitrary: w h m w')
  case Nil
  then show ?case by (simp add: drive_def waiting_def)
next
  case (Cons now nows)
  let ?k = "(t, group_name C A)" and ?d = "\<lparr>dl_handle = h, dl_topic = t, dl_message = m\<rparr>"
  let ?w = "snd (read_topic (json_transport L fr mi) C A now t w)"
  obtain e s where "ag_handle A m (rn_agent w) = (Inl e, s)"
    using Cons.prems(4) unfolding fails_on_def by blast
  then have "\<exists>r s'. settle C A ?d (rn_agent w) = ([dlq_message ?d r], s')"
    using Cons.prems(7) by (simp add: settle_def Let_def) blast
  then obtain r s' where s': "settle C A ?d (rn_agent w) = ([dlq_message ?d r], s')" by blast
  have x: "message_ok (dlq_message ?d r)" using Cons.prems(5) by (simp add: dlq_message_ok)
  have topic: "en_topic (msg_envelope (dlq_message ?d r)) = t" "en_attempt (msg_envelope (dlq_message ?d r)) = en_attempt (msg_envelope m)"
    using Cons.prems(3,6) by (simp_all add: dlq_message_def Let_def)
  note one = read_topic_one [OF Cons.prems(1,2,8) s' x, OF refl, of mi now]
  then obtain h' where "gv_unread (seen_by L fr (rn_bus ?w) ?k) = [(h', dlq_message ?d r)]"
    using topic by (auto simp: waiting_def)
  then have view: "seen_by L fr (rn_bus ?w) ?k = \<lparr>gv_unread = [(h', dlq_message ?d r)], gv_claimed = []\<rparr>"
    using one by simp
  from one have ok: "json_ok (rn_bus ?w)" by blast
  have "w' = drive (json_transport L fr mi) C A t nows ?w" using Cons.prems(9) by (simp add: drive_def)
  with Cons.IH [OF ok Cons.prems(2,3,4) x topic(1) _ view this] topic(2) Cons.prems(7) show ?case by simp
qed

end
