(* ===== verification/Cache.thy ===== *)
theory Cache
  imports Bus_Types Wire_Records Wire_Predict
begin

text \<open>
  The cache of \<open>swarm/agents/cache.py\<close>: the \<open>CacheBackend\<close> contract, the in-memory backend that
  provides it, the keys, and the handlers of \<open>CacheAgent\<close> for stored records and approved
  predictions. A time-to-live is a number of seconds; \<open>json.dumps\<close> is a parameter.
\<close>

section \<open>The contract\<close>

text \<open>Reading may drop an expired entry, so it returns the backend too.\<close>

datatype cache_op = CSet string string real real | CGet string real | CInvalidate string

fun sets_key :: "string \<Rightarrow> cache_op \<Rightarrow> bool" where
  "sets_key k (CSet j v ttl now) = (j = k)"
| "sets_key k op = False"

locale cache_backend =
  fixes cset :: "string \<Rightarrow> string \<Rightarrow> real \<Rightarrow> real \<Rightarrow> 'b \<Rightarrow> 'b"
    and cget :: "string \<Rightarrow> real \<Rightarrow> 'b \<Rightarrow> string option \<times> 'b"
    and cinvalidate :: "string \<Rightarrow> 'b \<Rightarrow> 'b"
  assumes get_set: "t \<le> now + ttl \<Longrightarrow> fst (cget k t (cset k v ttl now b)) = Some v"
    and get_set_expired: "now + ttl < t \<Longrightarrow> fst (cget k t (cset k v ttl now b)) = None"
    and get_set_other: "j \<noteq> k \<Longrightarrow> fst (cget j t (cset k v ttl now b)) = fst (cget j t b)"
    and get_invalidate: "fst (cget j t (cinvalidate k b)) = (if j = k then None else fst (cget j t b))"
    and get_none_keep: "fst (cget j t b) = None \<Longrightarrow> fst (cget j t (snd (cget k u b))) = None"
begin

fun cache_step :: "'b \<Rightarrow> cache_op \<Rightarrow> 'b" where
  "cache_step b (CSet k v ttl now) = cset k v ttl now b"
| "cache_step b (CGet k now) = snd (cget k now b)"
| "cache_step b (CInvalidate k) = cinvalidate k b"

lemma step_keeps_none:
  "\<not> sets_key k op \<Longrightarrow> fst (cget k t b) = None \<Longrightarrow> fst (cget k t (cache_step b op)) = None"
  by (cases op) (auto simp: get_set_other get_invalidate get_none_keep)

lemma run_keeps_none:
  "list_all (\<lambda>op. \<not> sets_key k op) ops \<Longrightarrow> fst (cget k t b) = None \<Longrightarrow>
    fst (cget k t (foldl cache_step b ops)) = None"
  by (induction ops arbitrary: b) (auto simp: step_keeps_none)

text \<open>No stale read: an invalidated key stays absent until somebody sets it again.\<close>

lemma no_stale_read:
  "list_all (\<lambda>op. \<not> sets_key k op) ops \<Longrightarrow> fst (cget k t (foldl cache_step (cinvalidate k b) ops)) = None"
  by (rule run_keeps_none) (simp_all add: get_invalidate)

end

section \<open>The in-memory backend\<close>

record mem_cache =
  mc_data :: "(string, string \<times> real) odict"

definition mem_cache_init :: mem_cache where
  "mem_cache_init = \<lparr>mc_data = []\<rparr>"

definition cache_set :: "string \<Rightarrow> string \<Rightarrow> real \<Rightarrow> real \<Rightarrow> mem_cache \<Rightarrow> mem_cache" where
  "cache_set key value ttl_sec now b = b\<lparr>mc_data := od_set key (value, now + ttl_sec) (mc_data b)\<rparr>"

definition cache_get :: "string \<Rightarrow> real \<Rightarrow> mem_cache \<Rightarrow> string option \<times> mem_cache" where
  "cache_get key now b =
     (case map_of (mc_data b) key of
        None \<Rightarrow> (None, b)
      | Some (value, expires) \<Rightarrow>
          if expires < now then (None, b\<lparr>mc_data := od_del key (mc_data b)\<rparr>) else (Some value, b))"

definition cache_invalidate :: "string \<Rightarrow> mem_cache \<Rightarrow> mem_cache" where
  "cache_invalidate key b = b\<lparr>mc_data := od_del key (mc_data b)\<rparr>"

definition cache_len :: "mem_cache \<Rightarrow> nat" where
  "cache_len b = length (mc_data b)"

lemmas cache_defs = cache_set_def cache_get_def cache_invalidate_def

interpretation mem_cache: cache_backend cache_set cache_get cache_invalidate
  by unfold_locales (auto simp: cache_defs od_simps split: option.splits if_splits)

section \<open>Keys\<close>

definition make_record_key :: "string \<Rightarrow> string \<Rightarrow> string \<Rightarrow> string" where
  "make_record_key source key_id record_type = ''record:'' @ source @ '':'' @ key_id @ '':'' @ record_type"

definition make_prediction_key :: "string \<Rightarrow> string \<Rightarrow> string \<Rightarrow> string" where
  "make_prediction_key match_id market prediction_id =
     ''prediction:'' @ match_id @ '':'' @ market @ '':'' @ prediction_id"

section \<open>The agent\<close>

record cache_cfg =
  cc_record_ttl_sec :: int
  cc_prediction_ttl_sec :: int

definition is_caught :: "py_error \<Rightarrow> bool" where
  "is_caught e \<longleftrightarrow> e \<in> {KeyError, TypeError, ValueError}"

text \<open>
  \<open>_handle_stored\<close> and \<open>_handle_approved\<close>; they publish nothing. An exception outside the tuple of
  the \<open>except\<close> clause escapes and leaves the backend alone.
\<close>

definition handle_stored :: "pylib \<Rightarrow> cache_cfg \<Rightarrow> real \<Rightarrow> jobj \<Rightarrow> mem_cache \<Rightarrow> unit res \<times> mem_cache" where
  "handle_stored L C now payload b =
     (case match_stored_from_dict L payload of
        Inl e \<Rightarrow> (if is_caught e then Inr () else Inl e, b)
      | Inr stored \<Rightarrow>
          if ms_change_kind stored = ''unchanged'' then (Inr (), b)
          else
            (Inr (), cache_set (make_record_key (ms_source stored) (ms_stable_id stored) (ms_record_type stored))
               (''id='' @ show_int (ms_record_id stored)) (real_of_int (cc_record_ttl_sec C)) now b))"

definition handle_approved ::
  "pylib \<Rightarrow> (jobj \<Rightarrow> string) \<Rightarrow> cache_cfg \<Rightarrow> real \<Rightarrow> jobj \<Rightarrow> mem_cache \<Rightarrow> unit res \<times> mem_cache" where
  "handle_approved L dumps C now payload b =
     (case approved_from_dict L payload of
        Inl e \<Rightarrow> (if is_caught e then Inr () else Inl e, b)
      | Inr approved \<Rightarrow>
          (Inr (), cache_set (make_prediction_key (ap_match_id approved) (ap_market approved) (ap_prediction_id approved))
             (dumps (ap_final approved)) (real_of_int (cc_prediction_ttl_sec C)) now b))"

text \<open>
  An approved prediction is served for exactly its time to live: after the approval of a
  decodable payload the key of its match, lowered market and prediction id returns the embedded
  final until the time to live has passed and nothing afterwards, and every other key is
  untouched; a payload that does not decode leaves the cache alone.
\<close>

lemma approved_prediction_served:
  assumes "handle_approved L dumps C now payload b = (r, b')"
  shows "(\<forall>a. approved_from_dict L payload = Inr a \<longrightarrow>
      (\<forall>t. fst (cache_get (make_prediction_key (ap_match_id a) (ap_market a) (ap_prediction_id a)) t b') =
        (if t \<le> now + real_of_int (cc_prediction_ttl_sec C) then Some (dumps (ap_final a)) else None)) \<and>
      (\<forall>k t. k \<noteq> make_prediction_key (ap_match_id a) (ap_market a) (ap_prediction_id a) \<longrightarrow>
        fst (cache_get k t b') = fst (cache_get k t b))) \<and>
    ((\<exists>e. approved_from_dict L payload = Inl e) \<longrightarrow> b' = b)"
  using assms
  by (auto simp: handle_approved_def mem_cache.get_set mem_cache.get_set_expired mem_cache.get_set_other
      split: if_splits)

end
