(* ===== verification/Reactors.thy ===== *)
theory Reactors
  imports Cache Ledger
begin

text \<open>
  The freshness reactors of \<open>swarm/agents/reactor.py\<close>: the guards of \<open>ReactorBase.handle\<close> (payload,
  plane scope, age, ledger; check, react, mark) around the four concrete reactions. A reactor's own
  state is its \<open>world\<close>; what a reaction reads from clocks and look-ups is its argument.
  Parsing an ISO time stamp is a parameter that returns seconds, or \<^const>\<open>None\<close> where
  \<open>fromisoformat\<close> raises \<open>ValueError\<close>.
\<close>

definition freshness_events :: topic where
  "freshness_events = ''freshness.events.v1''"

definition model_trained_topic :: topic where
  "model_trained_topic = ''models.events.v1''"

definition predict_request_topic :: topic where
  "predict_request_topic = ''predict.request''"

section \<open>The base class\<close>

record 'w reactor =
  ra_name :: string
  ra_allowed_planes :: "string list"
  ra_publishes :: "topic list"
  ra_max_age_sec :: int
  ra_ledger :: mem_ledger
  ra_world :: 'w

definition reactor_init ::
  "string \<Rightarrow> string list \<Rightarrow> topic list \<Rightarrow> int \<Rightarrow> mem_ledger \<Rightarrow> 'w \<Rightarrow> 'w reactor res" where
  "reactor_init name planes publishes max_age led world =
     require (name \<noteq> []) (
     require (freshness_events \<notin> set publishes) (
     require (planes \<noteq> []) (
     Inr \<lparr>ra_name = name, ra_allowed_planes = planes, ra_publishes = publishes,
          ra_max_age_sec = max_age, ra_ledger = led, ra_world = world\<rparr>)))"

text \<open>Which branch of \<open>handle\<close> a message takes.\<close>

datatype handled =
    Malformed | OutOfScope | Stale | Duplicate
  | Raised py_error
  | Reacted string "emission list"

type_synonym ('e, 'w) reaction = "'e \<Rightarrow> freshness_event \<Rightarrow> message \<Rightarrow> 'w \<Rightarrow> emission list res \<times> 'w"

definition too_old :: "(string \<Rightarrow> real option) \<Rightarrow> real \<Rightarrow> int \<Rightarrow> freshness_event \<Rightarrow> message \<Rightarrow> bool" where
  "too_old parse_ts now max_age ev msg =
     (let ts_str = (if fe_emitted_at ev \<noteq> [] then fe_emitted_at ev else en_created_at (msg_envelope msg)) in
      case parse_ts ts_str of
        Some ts \<Rightarrow> real_of_int max_age < now - ts
      | None \<Rightarrow> False)"

definition reactor_handle ::
  "pylib \<Rightarrow> (string \<Rightarrow> real option) \<Rightarrow> ('e, 'w) reaction \<Rightarrow> real \<Rightarrow> 'e \<Rightarrow> message \<Rightarrow> 'w reactor \<Rightarrow> handled \<times> 'w reactor" where
  "reactor_handle L parse_ts react now env msg r =
     (case freshness_event_from_dict L (msg_payload msg) of
        Inl e \<Rightarrow> (if is_caught e then Malformed else Raised e, r)
      | Inr ev \<Rightarrow>
          if fe_plane ev \<notin> set (ra_allowed_planes r) then (OutOfScope, r)
          else if too_old parse_ts now (ra_max_age_sec r) ev msg then (Stale, r)
          else if already_processed (ra_ledger r) (ra_name r, fe_event_id ev) then (Duplicate, r)
          else
            (case react env ev msg (ra_world r) of
               (Inl e, w) \<Rightarrow> (Raised e, r\<lparr>ra_world := w\<rparr>)
             | (Inr out, w) \<Rightarrow>
                 (Reacted (fe_event_id ev) out,
                  r\<lparr>ra_world := w, ra_ledger := mark_processed (ra_ledger r) (ra_name r, fe_event_id ev)\<rparr>)))"

section \<open>Each event is reacted to once\<close>

type_synonym 'e reactor_input = "real \<times> 'e \<times> message"

text \<open>The trace of a step: the claimed ledger key with what the reaction published.\<close>

definition reactor_step ::
  "pylib \<Rightarrow> (string \<Rightarrow> real option) \<Rightarrow> ('e, 'w) reaction \<Rightarrow> 'w reactor \<Rightarrow> 'e reactor_input
   \<Rightarrow> (ledger_key \<times> emission list) list \<times> 'w reactor" where
  "reactor_step L parse_ts react r i =
     (let (h, r') = reactor_handle L parse_ts react (fst i) (fst (snd i)) (snd (snd i)) r in
      (case h of Reacted event_id out \<Rightarrow> [((ra_name r, event_id), out)] | _ \<Rightarrow> [], r'))"

lemma reactor_handle_frame:
  "reactor_handle L parse_ts react now env msg r = (h, r') \<Longrightarrow>
    ra_name r' = ra_name r \<and> ra_allowed_planes r' = ra_allowed_planes r \<and> ra_max_age_sec r' = ra_max_age_sec r"
  by (auto simp: reactor_handle_def split: sum.splits if_splits prod.splits)

lemma reactor_step_claims:
  assumes "reactor_step L parse_ts react r i = (out, r')"
  shows "claims already_processed mark_processed (ra_ledger r) (List.map_filter (\<lambda>p. Some (fst p)) out) (ra_ledger r')"
  using assms
  by (auto simp: reactor_step_def reactor_handle_def map_filter_def
      split: sum.splits if_splits prod.splits)

interpretation reactor: single_publication already_processed mark_processed ledger_room ledger_ok
  "reactor_step L parse_ts react" ra_ledger "\<lambda>p. Some (fst p)" "\<lambda>_. True" for L parse_ts react
  by unfold_locales (auto dest: reactor_step_claims)

lemma map_filter_Some [simp]: "List.map_filter (\<lambda>p. Some (f p)) xs = map f xs"
  by (simp add: map_filter_def)

text \<open>
  A reactor reacts to an event at most once. Over any sequence of deliveries (repeated,
  reordered, with reactions that raise in between) no event id is reacted to twice, and none that
  was already in the ledger, as long as the ledger has room for the reactions of the run.
\<close>

lemma reactor_reacts_once:
  assumes "ledger_ok (ra_ledger r)" "run_agent (reactor_step L parse_ts react) r is = (outs, r')"
    and "length outs \<le> ledger_room (ra_ledger r)"
  shows "distinct (map fst outs) \<and> (\<forall>k \<in> set (map fst outs). \<not> already_processed (ra_ledger r) k)"
  using reactor.decides_once [OF TrueI assms(1,2)] reactor.decides_only_unseen [OF TrueI assms(1,2)] assms(3)
  unfolding map_filter_Some length_map by blast

text \<open>
  Check, react, mark: a reaction that raises leaves the ledger as it was, so the event is
  not a duplicate when it is delivered again; and an event that was reacted to is one.
\<close>

lemma failed_reaction_is_retried:
  assumes "ledger_ok (ra_ledger r)" "freshness_event_from_dict L (msg_payload msg) = Inr ev"
    and "reactor_handle L parse_ts react now env msg r = (h, r')"
    and "reactor_handle L parse_ts react now2 env2 msg r' = (h2, r2)"
    and "\<not> too_old parse_ts now2 (ra_max_age_sec r) ev msg"
  shows "((\<exists>e. h = Raised e) \<longrightarrow> h2 \<notin> {Malformed, OutOfScope, Stale, Duplicate}) \<and>
    ((\<exists>i out. h = Reacted i out) \<longrightarrow> h2 = Duplicate \<and> r2 = r')"
  using assms mem.seen_mark [OF assms(1)]
  by (auto simp: reactor_handle_def split: if_splits sum.splits prod.splits)

section \<open>Feature store and cache invalidation\<close>

text \<open>\<open>FeatureStoreReactor.react\<close> and \<open>CacheInvalidationReactor.react\<close>.\<close>

definition feature_store_react :: "(unit, int set) reaction" where
  "feature_store_react env ev msg dirty = (Inr [], insert (fe_record_id ev) dirty)"

definition cache_invalidation_react :: "(unit, mem_cache) reaction" where
  "cache_invalidation_react env ev msg cache =
     (Inr [], cache_invalidate (make_record_key (fe_source ev) (fe_stable_id ev) (fe_record_type ev)) cache)"

definition feature_store_reactor :: "mem_ledger \<Rightarrow> int set reactor res" where
  "feature_store_reactor led = reactor_init ''reactor.feature_store'' [''schedule'', ''live''] [] (24 * 3600) led {}"

definition cache_invalidation_reactor :: "mem_cache \<Rightarrow> mem_ledger \<Rightarrow> mem_cache reactor res" where
  "cache_invalidation_reactor cache led =
     reactor_init ''reactor.cache_invalidate''
       [''schedule'', ''live'', ''market'', ''editorial'', ''reference''] [] (24 * 3600) led cache"

text \<open>
  The cache never serves a record older than a change it was told about: once the
  invalidation reactor has reacted to an event, the key of its record reads as absent,
  through any further sequence of cache operations that does not set this key again, and the
  reaction has changed no other key.
\<close>

lemma invalidation_prevents_stale_reads:
  assumes "freshness_event_from_dict L (msg_payload msg) = Inr ev"
    and "reactor_handle L parse_ts cache_invalidation_react now () msg r = (Reacted i out, r')"
    and "k = make_record_key (fe_source ev) (fe_stable_id ev) (fe_record_type ev)"
    and "list_all (\<lambda>op. \<not> sets_key k op) ops"
  shows "fst (cache_get k t (foldl mem_cache.cache_step (ra_world r') ops)) = None \<and>
    (\<forall>j u. j \<noteq> k \<longrightarrow> fst (cache_get j u (ra_world r')) = fst (cache_get j u (ra_world r)))"
proof -
  have "ra_world r' = cache_invalidate k (ra_world r)"
    using assms(1-3) by (auto simp: reactor_handle_def cache_invalidation_react_def split: if_splits)
  with assms(4) show ?thesis
    by (simp add: mem_cache.no_stale_read mem_cache.get_invalidate)
qed

section \<open>Retraining\<close>

record trainer =
  tr_predictor_ids :: "string list"
  tr_debounce_sec :: real
  tr_accuracy_floor :: real
  tr_last_trained :: "string \<times> jval \<Rightarrow> real option"

text \<open>What one call reads: the clock, the look-up of accuracies, and the printed versions and times.\<close>

record trainer_env =
  te_clock :: real
  te_accuracy :: "string \<Rightarrow> jval \<Rightarrow> real res"
  te_version :: "string \<Rightarrow> string"
  te_iso :: "real \<Rightarrow> string"

definition trainer_reactor :: "string list \<Rightarrow> real \<Rightarrow> real \<Rightarrow> mem_ledger \<Rightarrow> trainer reactor res" where
  "trainer_reactor predictor_ids debounce floor0 led =
     res_bind
       (reactor_init ''reactor.trainer'' [''schedule'', ''live''] [model_trained_topic] (24 * 3600) led
          \<lparr>tr_predictor_ids = predictor_ids, tr_debounce_sec = debounce, tr_accuracy_floor = floor0,
           tr_last_trained = (\<lambda>_. None)\<rparr>)
       (\<lambda>r. require (predictor_ids \<noteq> []) (Inr r))"

record training =
  tg_predictor :: string
  tg_league :: jval
  tg_time :: real
  tg_accuracy :: real

definition or_default :: "jval \<Rightarrow> string \<Rightarrow> jval" where
  "or_default j d = (if py_bool j then j else JStr d)"

definition training_emission :: "trainer_env \<Rightarrow> freshness_event \<Rightarrow> message \<Rightarrow> training \<Rightarrow> emission" where
  "training_emission env ev msg g =
     \<lparr>em_topic = model_trained_topic,
      em_payload =
        [(''predictor_id'', JStr (tg_predictor g)),
         (''profile_id'', or_default (tg_league g) ''default''),
         (''league_id'', tg_league g),
         (''model_version'', JStr (te_version env (tg_predictor g))),
         (''trained_at'', JStr (te_iso env (tg_time g))),
         (''metric'', JStr ''accuracy''),
         (''metric_value'', JFloat (tg_accuracy g)),
         (''samples'', JInt 0),
         (''metadata'', JObj [(''trigger'', JStr ''freshness''), (''event_id'', JStr (fe_event_id ev)),
            (''record_id'', JInt (fe_record_id ev))])],
      em_producer = ''reactor.trainer'',
      em_trace = Some (en_trace_id (msg_envelope msg))\<rparr>"

text \<open>
  The loop of \<open>TrainerReactor.react\<close>: debounce, accuracy floor, stamp. A look-up that raises
  leaves the stamps made so far and discards the output.
\<close>

fun trainer_loop :: "trainer_env \<Rightarrow> jval \<Rightarrow> string list \<Rightarrow> trainer \<Rightarrow> training list res \<times> trainer" where
  "trainer_loop env league [] w = (Inr [], w)"
| "trainer_loop env league (p # ps) w =
     (if \<not> hashable league then (Inl TypeError, w)
      else if (case tr_last_trained w (p, league) of
                 None \<Rightarrow> False | Some t \<Rightarrow> te_clock env - t < tr_debounce_sec w)
      then trainer_loop env league ps w
      else case te_accuracy env p league of
          Inl e \<Rightarrow> (Inl e, w)
        | Inr acc \<Rightarrow>
            if acc < tr_accuracy_floor w then trainer_loop env league ps w
            else
              let w1 = w\<lparr>tr_last_trained := (tr_last_trained w)((p, league) \<mapsto> te_clock env)\<rparr>;
                  (r, w2) = trainer_loop env league ps w1 in
              (res_bind r (\<lambda>gs. Inr (\<lparr>tg_predictor = p, tg_league = league, tg_time = te_clock env,
                 tg_accuracy = acc\<rparr> # gs)), w2))"

definition event_league :: "freshness_event \<Rightarrow> jval" where
  "event_league ev = jget_or (fe_diff ev) ''league_id'' JNull"

definition trainer_trainings :: "trainer_env \<Rightarrow> freshness_event \<Rightarrow> trainer \<Rightarrow> training list res \<times> trainer" where
  "trainer_trainings env ev w =
     (if fe_change_kind ev \<notin> {''created'', ''updated''} then (Inr [], w)
      else trainer_loop env (event_league ev) (tr_predictor_ids w) w)"

definition trainer_react :: "(trainer_env, trainer) reaction" where
  "trainer_react env ev msg w =
     (let (r, w1) = trainer_trainings env ev w in
      (res_bind r (\<lambda>gs. Inr (map (training_emission env ev msg) gs)), w1))"

text \<open>Trainings of a run of reactions, whichever of them raised.\<close>

fun trainer_run :: "trainer \<Rightarrow> (trainer_env \<times> freshness_event) list \<Rightarrow> training list" where
  "trainer_run w [] = []"
| "trainer_run w ((env, ev) # is) =
     (let (r, w1) = trainer_trainings env ev w in
      (case r of Inl e \<Rightarrow> [] | Inr gs \<Rightarrow> gs) @ trainer_run w1 is)"

lemma trainer_frame:
  "trainer_loop env lg ps w = (r, w') \<Longrightarrow> tr_debounce_sec w' = tr_debounce_sec w \<and>
     tr_accuracy_floor w' = tr_accuracy_floor w \<and> tr_predictor_ids w' = tr_predictor_ids w"
  by (induction env lg ps w arbitrary: r rule: trainer_loop.induct)
    (auto split: if_splits sum.splits prod.splits option.splits)

text \<open>Times at which a slice was trained, and what the stamp says about them.\<close>

definition slice_times :: "string \<times> jval \<Rightarrow> training list \<Rightarrow> real list" where
  "slice_times k gs = map tg_time (filter (\<lambda>g. (tg_predictor g, tg_league g) = k) gs)"

text \<open>From the last stamp on, each time is at least the debounce after the one before.\<close>

fun spaced :: "real \<Rightarrow> real option \<Rightarrow> real list \<Rightarrow> bool" where
  "spaced d s [] = True"
| "spaced d s (t # ts) = ((case s of None \<Rightarrow> True | Some t0 \<Rightarrow> d \<le> t - t0) \<and> spaced d (Some t) ts)"

definition last_time :: "real option \<Rightarrow> real list \<Rightarrow> real option" where
  "last_time s ts = (if ts = [] then s else Some (last ts))"

lemma last_time_simps [simp]: "last_time s [] = s" "last_time s (t # ts) = last_time (Some t) ts"
  by (simp_all add: last_time_def)

lemma spaced_append: "spaced d s (xs @ ys) \<longleftrightarrow> spaced d s xs \<and> spaced d (last_time s xs) ys"
  by (induction xs arbitrary: s) auto

text \<open>The stamp of a slice only moves forward by at least the debounce.\<close>

definition stamp_after :: "real \<Rightarrow> real option \<Rightarrow> real option \<Rightarrow> bool" where
  "stamp_after d s s' \<longleftrightarrow> s' = s \<or> (\<exists>t'. s' = Some t' \<and> (case s of None \<Rightarrow> True | Some t \<Rightarrow> t + d \<le> t'))"

lemma stamp_after_refl [simp]: "stamp_after d s s"
  by (simp add: stamp_after_def)

lemma stamp_after_trans: "0 \<le> d \<Longrightarrow> stamp_after d s s1 \<Longrightarrow> stamp_after d s1 s2 \<Longrightarrow> stamp_after d s s2"
  by (cases s; cases s1) (auto simp: stamp_after_def)

lemma spaced_earlier: "0 \<le> d \<Longrightarrow> stamp_after d s s1 \<Longrightarrow> spaced d s1 ts \<Longrightarrow> spaced d s ts"
  by (cases ts; cases s) (auto simp: stamp_after_def)

lemma trainer_loop_spaced:
  assumes "trainer_loop env lg ps w = (r, w')" "0 \<le> tr_debounce_sec w"
  shows "stamp_after (tr_debounce_sec w) (tr_last_trained w k) (tr_last_trained w' k) \<and>
    (\<forall>gs. r = Inr gs \<longrightarrow> spaced (tr_debounce_sec w) (tr_last_trained w k) (slice_times k gs) \<and>
      tr_last_trained w' k = last_time (tr_last_trained w k) (slice_times k gs) \<and>
      (\<forall>g \<in> set gs. tr_accuracy_floor w \<le> tg_accuracy g))"
  using assms
proof (induction env lg ps w arbitrary: r w' rule: trainer_loop.induct)
  case (1 env league w)
  then show ?case by (auto simp: slice_times_def)
next
  case (2 env league p ps w)
  let ?hot = "case tr_last_trained w (p, league) of None \<Rightarrow> False | Some t \<Rightarrow> te_clock env - t < tr_debounce_sec w"
  consider "\<not> hashable league" | "hashable league" ?hot
    | e where "hashable league" "\<not> ?hot" "te_accuracy env p league = Inl e"
    | acc where "hashable league" "\<not> ?hot" "te_accuracy env p league = Inr acc" "acc < tr_accuracy_floor w"
    | acc where "hashable league" "\<not> ?hot" "te_accuracy env p league = Inr acc" "\<not> acc < tr_accuracy_floor w"
    by (cases "te_accuracy env p league") (blast+)
  then show ?case
  proof cases
    case 1
    with "2.prems" show ?thesis by auto
  next
    case 2
    with "2.prems" "2.IH"(1) show ?thesis by auto
  next
    case 3
    with "2.prems" show ?thesis by auto
  next
    case 4
    with "2.prems" "2.IH"(2) show ?thesis by auto
  next
    case (5 acc)
    define w1 where "w1 = w\<lparr>tr_last_trained := (tr_last_trained w)((p, league) \<mapsto> te_clock env)\<rparr>"
    obtain r2 w2 where rest: "trainer_loop env league ps w1 = (r2, w2)" by force
    have IH: "stamp_after (tr_debounce_sec w) (tr_last_trained w1 k) (tr_last_trained w2 k) \<and>
      (\<forall>gs. r2 = Inr gs \<longrightarrow> spaced (tr_debounce_sec w) (tr_last_trained w1 k) (slice_times k gs) \<and>
        tr_last_trained w2 k = last_time (tr_last_trained w1 k) (slice_times k gs) \<and>
        (\<forall>g \<in> set gs. tr_accuracy_floor w \<le> tg_accuracy g))"
      using "2.IH"(3) [OF _ 5(2) 5(3) 5(4) w1_def, of r2 w2] rest 5(1) "2.prems"(2) by (simp add: w1_def)
    have here: "stamp_after (tr_debounce_sec w) (tr_last_trained w k) (tr_last_trained w1 k)"
      using 5(2) by (auto simp: w1_def stamp_after_def split: option.splits)
    have res: "w' = w2" "r = res_bind r2 (\<lambda>gs. Inr (\<lparr>tg_predictor = p, tg_league = league, tg_time = te_clock env, tg_accuracy = acc\<rparr> # gs))"
      using "2.prems"(1) 5 rest by (simp_all add: w1_def Let_def)
    have "stamp_after (tr_debounce_sec w) (tr_last_trained w k) (tr_last_trained w2 k)"
      using stamp_after_trans [OF "2.prems"(2) here] IH by blast
    moreover have "spaced (tr_debounce_sec w) (tr_last_trained w k) [te_clock env]" if "k = (p, league)"
      using 5(2) that by (auto split: option.splits)
    ultimately show ?thesis
      using IH 5(4) unfolding res
      by (cases "k = (p, league)") (auto simp: res_iffs slice_times_def w1_def split: option.splits)
  qed
qed

lemma trainer_trainings_spaced:
  assumes "trainer_trainings env ev w = (r, w')" "0 \<le> tr_debounce_sec w"
  shows "stamp_after (tr_debounce_sec w) (tr_last_trained w k) (tr_last_trained w' k)"
    and "r = Inr gs \<Longrightarrow> spaced (tr_debounce_sec w) (tr_last_trained w k) (slice_times k gs) \<and>
      tr_last_trained w' k = last_time (tr_last_trained w k) (slice_times k gs) \<and>
      (\<forall>g \<in> set gs. tr_accuracy_floor w \<le> tg_accuracy g)"
    and "tr_debounce_sec w' = tr_debounce_sec w" "tr_accuracy_floor w' = tr_accuracy_floor w"
proof -
  have loop: "trainer_loop env (event_league ev) (tr_predictor_ids w) w = (r, w')
      \<or> trainer_loop env (event_league ev) [] w = (r, w')"
    using assms(1) by (auto simp: trainer_trainings_def split: if_splits)
  then obtain ps where ps: "trainer_loop env (event_league ev) ps w = (r, w')" by blast
  note s = trainer_loop_spaced [OF ps assms(2), of k]
  show "stamp_after (tr_debounce_sec w) (tr_last_trained w k) (tr_last_trained w' k)"
    using s by blast
  show "r = Inr gs \<Longrightarrow> spaced (tr_debounce_sec w) (tr_last_trained w k) (slice_times k gs) \<and>
      tr_last_trained w' k = last_time (tr_last_trained w k) (slice_times k gs) \<and>
      (\<forall>g \<in> set gs. tr_accuracy_floor w \<le> tg_accuracy g)"
    using s by blast
  show "tr_debounce_sec w' = tr_debounce_sec w" "tr_accuracy_floor w' = tr_accuracy_floor w"
    using trainer_frame [OF ps] by simp_all
qed

text \<open>
  Retraining is debounced and floored. In any run of reactions, whatever the clock
  readings and whichever reactions raise, the trainings published for one (predictor, league) slice
  are at least the debounce apart, the first one also from the last stamp of the initial
  state, and none is published for an accuracy below the floor.
\<close>

lemma trainings_debounced:
  assumes "0 \<le> tr_debounce_sec w"
  shows "spaced (tr_debounce_sec w) (tr_last_trained w k) (slice_times k (trainer_run w is)) \<and>
    (\<forall>g \<in> set (trainer_run w is). tr_accuracy_floor w \<le> tg_accuracy g)"
  using assms
proof (induction "is" arbitrary: w)
  case Nil
  then show ?case by (simp add: slice_times_def)
next
  case (Cons i "is")
  obtain env ev where i: "i = (env, ev)" by force
  obtain r w1 where step: "trainer_trainings env ev w = (r, w1)" by force
  note t = trainer_trainings_spaced [OF step Cons.prems]
  have IH: "spaced (tr_debounce_sec w) (tr_last_trained w1 k) (slice_times k (trainer_run w1 is)) \<and>
    (\<forall>g \<in> set (trainer_run w1 is). tr_accuracy_floor w \<le> tg_accuracy g)"
    using Cons.IH [of w1] Cons.prems t(3,4) by simp
  show ?case
  proof (cases r)
    case (Inl e)
    with IH t(1) [of k] Cons.prems show ?thesis
      by (auto simp: i step intro: spaced_earlier)
  next
    case (Inr gs)
    from t(2) [OF this, of k] IH show ?thesis
      by (auto simp: i step Inr slice_times_def spaced_append)
  qed
qed

definition example_event :: freshness_event where
  "example_event = \<lparr>fe_event_id = ''e1'', fe_record_id = 5, fe_source = ''tff'', fe_stable_id = ''s1'',
     fe_record_type = ''odds'', fe_plane = ''live'', fe_change_kind = ''updated'', fe_diff = [],
     fe_emitted_at = []\<rparr>"

definition example_trainer :: trainer where
  "example_trainer = \<lparr>tr_predictor_ids = [''elo'', ''xgb''], tr_debounce_sec = 60, tr_accuracy_floor = 1 / 2,
     tr_last_trained = (\<lambda>_. None)\<rparr>"

definition example_trainer_env :: "real \<Rightarrow> bool \<Rightarrow> trainer_env" where
  "example_trainer_env now broken = \<lparr>te_clock = now,
     te_accuracy = (\<lambda>p l. if broken \<and> p = ''xgb'' then Inl RuntimeError else Inr 1),
     te_version = (\<lambda>_. ''v''), te_iso = (\<lambda>_. ''t'')\<rparr>"

lemmas example_trainer_defs = example_event_def example_trainer_def example_trainer_env_def

text \<open>A slice stamped within the debounce is not trained.\<close>

lemma recent_stamp_silent:
  assumes "trainer_loop env lg ps w = (r, w')" "tr_last_trained w (p, lg) = Some t" "te_clock env - t < tr_debounce_sec w"
    and "r = Inr gs"
  shows "p \<notin> tg_predictor ` set gs"
  using assms
proof (induction env lg ps w arbitrary: r w' gs rule: trainer_loop.induct)
  case (1 env league w)
  then show ?case by auto
next
  case (2 env league q ps w)
  show ?case
  proof (cases "p = q")
    case True
    with 2 show ?thesis by (auto split: if_splits)
  next
    case False
    with 2 show ?thesis
      by (fastforce simp: Let_def res_iffs split: if_splits sum.splits prod.splits option.splits)
  qed
qed

text \<open>
  A reaction that raises half-way loses what it had decided. When the reaction on an event
  raises after stamping a predictor's slice, nothing is published, and as the stamp stays, no
  retry of the event within the debounce publishes a training for that predictor.
\<close>

lemma raising_reaction_loses_training:
  assumes "trainer_trainings env ev w = (Inl e, w1)"
    and "tr_last_trained w1 (p, event_league ev) = Some (te_clock env)"
    and "te_clock env2 - te_clock env < tr_debounce_sec w"
    and "trainer_trainings env2 ev w1 = (Inr gs, w2)"
  shows "fst (trainer_react env ev msg w) = Inl e \<and> p \<notin> tg_predictor ` set gs"
proof -
  have q: "fe_change_kind ev \<in> {''created'', ''updated''}"
    and loop: "trainer_loop env (event_league ev) (tr_predictor_ids w) w = (Inl e, w1)"
    using assms(1) by (auto simp: trainer_trainings_def split: if_splits)
  have "te_clock env2 - te_clock env < tr_debounce_sec w1"
    using assms(3) trainer_frame [OF loop] by simp
  moreover have "trainer_loop env2 (event_league ev) (tr_predictor_ids w1) w1 = (Inr gs, w2)"
    using assms(4) q by (auto simp: trainer_trainings_def split: if_splits)
  ultimately have "p \<notin> tg_predictor ` set gs"
    using recent_stamp_silent [OF _ assms(2)] by blast
  then show ?thesis by (simp add: trainer_react_def assms(1))
qed

section \<open>Live prediction requests\<close>

definition plane_markets :: "string \<Rightarrow> string list" where
  "plane_markets plane =
     (if plane = ''live'' then [''1x2'', ''ah'']
      else if plane = ''market'' then [''ah'', ''ou_2_5'', ''btts''] else [])"

definition live_request_id :: "string \<Rightarrow> string \<Rightarrow> string" where
  "live_request_id event_id market = ''r-'' @ event_id @ ''-'' @ market"

definition live_request :: "string \<Rightarrow> freshness_event \<Rightarrow> string \<Rightarrow> predict_request" where
  "live_request requested_at ev market =
     \<lparr>rq_request_id = live_request_id (fe_event_id ev) market,
      rq_match_id = fe_stable_id ev,
      rq_market = market,
      rq_league_id = event_league ev,
      rq_profile_id = event_league ev,
      rq_requested_at = requested_at,
      rq_kind_schema_version = 2,
      rq_qa_correlation_id = None,
      rq_features = [],
      rq_metadata = [(''trigger'', JStr ''freshness''), (''event_id'', JStr (fe_event_id ev))]\<rparr>"

definition request_emission :: "message \<Rightarrow> predict_request \<Rightarrow> emission" where
  "request_emission msg req =
     \<lparr>em_topic = predict_request_topic, em_payload = predict_request_as_dict req,
      em_producer = ''reactor.live_predictor'', em_trace = Some (en_trace_id (msg_envelope msg))\<rparr>"

text \<open>\<open>LivePredictorReactor.react\<close>; \<open>printed m\<close> is the clock reading printed for the request on market \<open>m\<close>.\<close>

definition live_predictor_react :: "(string \<Rightarrow> string, unit) reaction" where
  "live_predictor_react printed ev msg w =
     (res_bind (res_map (\<lambda>m. predict_request_check (live_request (printed m) ev m)) (plane_markets (fe_plane ev)))
        (\<lambda>reqs. Inr (map (request_emission msg) reqs)), w)"

definition live_predictor_reactor :: "mem_ledger \<Rightarrow> unit reactor res" where
  "live_predictor_reactor led =
     reactor_init ''reactor.live_predictor'' [''live'', ''market''] [predict_request_topic] (24 * 3600) led ()"

definition emitted_request_id :: "emission \<Rightarrow> jval" where
  "emitted_request_id e = jget_or (em_payload e) ''request_id'' JNull"

lemma plane_markets_plain: "m \<in> set (plane_markets p) \<Longrightarrow> CHR ''-'' \<notin> set m"
  by (auto simp: plane_markets_def split: if_splits)

lemma live_request_id_inject:
  "m \<in> set (plane_markets p) \<Longrightarrow> n \<in> set (plane_markets q) \<Longrightarrow>
    live_request_id i m = live_request_id j n \<longleftrightarrow> i = j \<and> m = n"
  by (simp add: live_request_id_def append_sep_inject_last plane_markets_plain)

lemma live_predictor_out:
  assumes "live_predictor_react printed ev msg w = (Inr out, w')"
  shows "map emitted_request_id out = map (\<lambda>m. JStr (live_request_id (fe_event_id ev) m)) (plane_markets (fe_plane ev))"
proof -
  obtain reqs where reqs: "res_map (\<lambda>m. predict_request_check (live_request (printed m) ev m)) (plane_markets (fe_plane ev)) = Inr reqs"
    and out: "out = map (request_emission msg) reqs"
    using assms by (auto simp: live_predictor_react_def res_iffs)
  have "predict_request_check p = Inr q \<Longrightarrow> q = p" for p q
    by (auto simp: predict_request_check_def res_iffs)
  then have "reqs ! i = live_request (printed (plane_markets (fe_plane ev) ! i)) ev (plane_markets (fe_plane ev) ! i)"
    if "i < length (plane_markets (fe_plane ev))" for i
    using res_map_nth [OF reqs that] by blast
  then have "reqs = map (\<lambda>m. live_request (printed m) ev m) (plane_markets (fe_plane ev))"
    using res_map_length [OF reqs] by (intro nth_equalityI) simp_all
  then show ?thesis
    by (simp add: out emitted_request_id_def request_emission_def predict_request_as_dict_def jget_or_def live_request_def)
qed

lemma live_step_out:
  assumes "reactor_step L parse_ts live_predictor_react r i = (out, r')" "(k, es) \<in> set out"
  shows "\<exists>p. map emitted_request_id es = map (\<lambda>m. JStr (live_request_id (snd k) m)) (plane_markets p)"
  using assms live_predictor_out
  by (fastforce simp: reactor_step_def reactor_handle_def split: sum.splits if_splits prod.splits)

lemma live_run_out:
  "run_agent (reactor_step L parse_ts live_predictor_react) r is = (outs, r') \<Longrightarrow> (k, es) \<in> set outs \<Longrightarrow>
    ra_name r = fst k \<and> (\<exists>p. map emitted_request_id es = map (\<lambda>m. JStr (live_request_id (snd k) m)) (plane_markets p))"
proof (induction "is" arbitrary: r outs)
  case (Cons i "is")
  obtain out r1 where 1: "reactor_step L parse_ts live_predictor_react r i = (out, r1)" by force
  obtain outs2 where 2: "run_agent (reactor_step L parse_ts live_predictor_react) r1 is = (outs2, r')" "outs = out @ outs2"
    using Cons.prems(1) 1 by (auto split: prod.splits)
  have "ra_name r1 = ra_name r" "(k, es) \<in> set out \<Longrightarrow> ra_name r = fst k"
    using 1 reactor_handle_frame by (fastforce simp: reactor_step_def split: prod.splits handled.splits)+
  with Cons.IH [OF 2(1)] Cons.prems(2) 2(2) live_step_out [OF 1, of k es] show ?case by auto
qed simp

lemma distinct_concat_disjoint:
  assumes "distinct (map f ps)" "\<And>p. p \<in> set ps \<Longrightarrow> distinct (g p)"
    and "\<And>p q x. p \<in> set ps \<Longrightarrow> q \<in> set ps \<Longrightarrow> x \<in> set (g p) \<Longrightarrow> x \<in> set (g q) \<Longrightarrow> f p = f q"
  shows "distinct (concat (map g ps))"
  using assms
proof (induction ps)
  case (Cons p ps)
  have "set (g p) \<inter> set (concat (map g ps)) = {}"
    using Cons.prems(1,3) by (fastforce simp: image_iff)
  with Cons show ?case by simp
qed simp

text \<open>
  The live path is idempotent end to end: over any sequence of deliveries, repeated ones
  included, all the prediction requests published carry different request ids, as long as the
  ledger has room for the events reacted to.
\<close>

lemma live_requests_unique:
  assumes "ledger_ok (ra_ledger r)" "run_agent (reactor_step L parse_ts live_predictor_react) r is = (outs, r')"
    and "length outs \<le> ledger_room (ra_ledger r)"
  shows "distinct (map emitted_request_id (concat (map snd outs)))"
proof -
  have keys: "distinct (map fst outs)"
    using reactor.decides_once [OF TrueI assms(1,2)] assms(3) by simp
  have run: "ra_name r = fst (fst p) \<and>
      (\<exists>q. map emitted_request_id (snd p) = map (\<lambda>m. JStr (live_request_id (snd (fst p)) m)) (plane_markets q))"
    if "p \<in> set outs" for p
    by (rule live_run_out [OF assms(2)]) (use that in simp)
  have "distinct (concat (map (\<lambda>p. map emitted_request_id (snd p)) outs))"
  proof (rule distinct_concat_disjoint [OF keys])
    show "distinct (map emitted_request_id (snd p))" if mem: "p \<in> set outs" for p
    proof -
      obtain q where q: "map emitted_request_id (snd p) = map (\<lambda>m. JStr (live_request_id (snd (fst p)) m)) (plane_markets q)"
        using run [OF mem] by blast
      have "distinct (plane_markets q)" by (simp add: plane_markets_def)
      then show ?thesis
        unfolding q by (auto simp: distinct_map inj_on_def live_request_id_def)
    qed
    show "fst p = fst q"
      if p: "p \<in> set outs" and q: "q \<in> set outs" and x: "x \<in> set (map emitted_request_id (snd p))" "x \<in> set (map emitted_request_id (snd q))"
      for p q x
    proof -
      have n: "fst (fst p) = fst (fst q)" using run [OF p] run [OF q] by simp
      obtain a where a: "map emitted_request_id (snd p) = map (\<lambda>m. JStr (live_request_id (snd (fst p)) m)) (plane_markets a)"
        using run [OF p] by blast
      obtain b where b: "map emitted_request_id (snd q) = map (\<lambda>m. JStr (live_request_id (snd (fst q)) m)) (plane_markets b)"
        using run [OF q] by blast
      from x obtain m n where "m \<in> set (plane_markets a)" "n \<in> set (plane_markets b)"
        "live_request_id (snd (fst p)) m = live_request_id (snd (fst q)) n"
        unfolding a b by auto
      then have "snd (fst p) = snd (fst q)" by (simp add: live_request_id_inject)
      with n show ?thesis by (simp add: prod_eq_iff)
    qed
  qed
  then show ?thesis by (simp add: map_concat o_def)
qed

section \<open>A run\<close>

end
