(* ===== verification/Calibration.thy ===== *)
theory Calibration
  imports Bus_Types Wire_Predict
begin

text \<open>
  \<open>swarm/agents/predictors/_base.py\<close>: the isotonic calibration table and its look-up, the
  calibration store, the softmax that turns scores into probabilities, and the shell every
  predictor agent runs in. The model a concrete predictor computes is a parameter.
\<close>

section \<open>Calibration tables\<close>

record calibration_table =
  ct_profile_id :: jval
  ct_market :: string
  ct_version :: int
  ct_x :: "real list"
  ct_y :: "real list"

text \<open>Indexing a tuple: an index past the end raises.\<close>

definition py_index :: "'a list \<Rightarrow> nat \<Rightarrow> 'a res" where
  "py_index ys i = (if i < length ys then Inr (ys ! i) else Inl IndexError)"

text \<open>The loop of \<open>apply\<close>.\<close>

function knot_search :: "real list \<Rightarrow> real \<Rightarrow> nat \<Rightarrow> nat \<Rightarrow> nat" where
  "knot_search x p lo hi =
     (if lo < hi then
        let mid = (lo + hi) div 2 in
        if x ! mid < p then knot_search x p (mid + 1) hi else knot_search x p lo mid
      else lo)"
  by pat_completeness auto
termination
  by (relation "measure (\<lambda>(x, p, lo, hi). hi - lo)") auto

declare knot_search.simps [simp del]

definition table_apply :: "calibration_table \<Rightarrow> real \<Rightarrow> real res" where
  "table_apply t p =
     (let x = ct_x t; y = ct_y t in
      if x = [] then Inr p
      else if p \<le> x ! 0 then py_index y 0
      else if x ! (length x - 1) \<le> p then (if y = [] then Inl IndexError else Inr (y ! (length y - 1)))
      else py_index y (max (knot_search x p 0 (length x - 1) - 1) 0))"

text \<open>The search returns the first knot that is not below \<open>p\<close>.\<close>

lemma knot_search_spec:
  assumes "sorted x" "hi < length x" "lo \<le> hi" "\<forall>i < lo. x ! i < p" "p \<le> x ! hi"
  shows "knot_search x p lo hi \<le> hi \<and> p \<le> x ! knot_search x p lo hi \<and> (\<forall>i < knot_search x p lo hi. x ! i < p)"
  using assms
proof (induction x p lo hi rule: knot_search.induct)
  case (1 x p lo hi)
  show ?case
  proof (cases "lo < hi")
    case False
    then have "knot_search x p lo hi = lo" by (subst knot_search.simps) simp
    with "1.prems" False show ?thesis by auto
  next
    case True
    let ?mid = "(lo + hi) div 2"
    have mid: "lo \<le> ?mid" "?mid < hi" using True by auto
    show ?thesis
    proof (cases "x ! ?mid < p")
      case below: True
      have "x ! i \<le> x ! ?mid" if "i \<le> ?mid" for i
        using sorted_nth_mono [OF "1.prems"(1) that] mid "1.prems"(2) by simp
      then have "\<forall>i < ?mid + 1. x ! i < p"
        using below by (metis Suc_eq_plus1 less_Suc_eq_le order_le_less_trans)
      with "1.IH"(1) [OF True refl below] "1.prems" mid True below show ?thesis
        by (simp add: knot_search.simps [of x p lo hi])
    next
      case False
      with "1.IH"(2) [OF True refl False] "1.prems" mid True show ?thesis
        by (simp add: knot_search.simps [of x p lo hi])
    qed
  qed
qed

text \<open>The number of knots below \<open>p\<close>.\<close>

definition knots_below :: "real list \<Rightarrow> real \<Rightarrow> nat" where
  "knots_below x p = length (takeWhile (\<lambda>k. k < p) x)"

lemma knot_search_below:
  assumes "sorted x" "x \<noteq> []" "p \<le> x ! (length x - 1)"
  shows "knot_search x p 0 (length x - 1) = knots_below x p"
proof -
  let ?n = "knot_search x p 0 (length x - 1)"
  have "length x - 1 < length x" using assms(2) by (cases x) auto
  with knot_search_spec [OF assms(1) this, of 0 p] assms(3)
  have n: "?n \<le> length x - 1" "p \<le> x ! ?n" "\<forall>i < ?n. x ! i < p" by auto
  then have "takeWhile (\<lambda>k. k < p) x = take ?n x"
    using \<open>length x - 1 < length x\<close> by (intro takeWhile_eq_take_P_nth) auto
  then show ?thesis
    using n(1) \<open>length x - 1 < length x\<close> by (simp add: knots_below_def)
qed

definition table_ok :: "calibration_table \<Rightarrow> bool" where
  "table_ok t \<longleftrightarrow> sorted (ct_x t) \<and> sorted (ct_y t) \<and> length (ct_y t) = length (ct_x t)"

text \<open>The table as a function: below the first knot, above the last one, and between.\<close>

definition table_step :: "calibration_table \<Rightarrow> real \<Rightarrow> nat" where
  "table_step t p =
     (if p \<le> ct_x t ! 0 then 0 else if ct_x t ! (length (ct_x t) - 1) \<le> p then length (ct_x t) - 1
      else knots_below (ct_x t) p - 1)"

lemma table_apply_step:
  assumes "table_ok t" "ct_x t \<noteq> []"
  shows "table_apply t p = Inr (ct_y t ! table_step t p) \<and> table_step t p < length (ct_x t)"
proof -
  have len: "0 < length (ct_x t)" using assms(2) by simp
  have "knots_below (ct_x t) p \<le> length (ct_x t)"
    by (simp add: knots_below_def length_takeWhile_le)
  then have "knots_below (ct_x t) p - 1 < length (ct_x t)" using len by linarith
  with assms len show ?thesis
    using knot_search_below [of "ct_x t" p]
    by (auto simp: table_apply_def table_step_def table_ok_def py_index_def Let_def not_le)
qed

lemma table_step_mono:
  assumes "table_ok t" "ct_x t \<noteq> []" "p \<le> q"
  shows "table_step t p \<le> table_step t q"
proof -
  have "takeWhile (\<lambda>k. k < p) (ct_x t) = takeWhile (\<lambda>k. k < p) (takeWhile (\<lambda>k. k < q) (ct_x t))"
    unfolding takeWhile_takeWhile using assms(3) by (intro takeWhile_cong) auto
  then have "knots_below (ct_x t) p \<le> knots_below (ct_x t) q"
    unfolding knots_below_def by (metis length_takeWhile_le)
  moreover have "knots_below (ct_x t) p \<le> length (ct_x t)" for p
    by (simp add: knots_below_def length_takeWhile_le)
  ultimately show ?thesis
    using assms(3) by (auto simp: table_step_def diff_le_mono)
qed

text \<open>
  Calibration is an isotonic step function. A well-formed table never raises, maps every
  probability to one of its values and larger probabilities to values at least as large; between
  the first and the last knot the value is the one of the last knot strictly below the
  probability, so an inner knot itself gets its predecessor's value; an empty table is the identity.
\<close>

lemma calibration_isotonic:
  assumes "table_ok t"
  shows "(ct_x t = [] \<longrightarrow> table_apply t p = Inr p) \<and>
    (ct_x t \<noteq> [] \<longrightarrow>
      (\<exists>v w. table_apply t p = Inr v \<and> table_apply t q = Inr w \<and> v \<in> set (ct_y t) \<and> (p \<le> q \<longrightarrow> v \<le> w)) \<and>
      (ct_x t ! 0 < p \<longrightarrow> p < ct_x t ! (length (ct_x t) - 1) \<longrightarrow>
        table_apply t p = Inr (ct_y t ! (knots_below (ct_x t) p - 1))))"
proof (intro conjI impI)
  show "table_apply t p = Inr p" if "ct_x t = []" using that by (simp add: table_apply_def)
next
  assume ne: "ct_x t \<noteq> []"
  note s = table_apply_step [OF assms ne]
  have len: "length (ct_y t) = length (ct_x t)" "sorted (ct_y t)" using assms by (simp_all add: table_ok_def)
  have "ct_y t ! table_step t p \<le> ct_y t ! table_step t q" if "p \<le> q"
    using sorted_nth_mono [OF len(2) table_step_mono [OF assms ne that]] s [of q] len(1) by simp
  then show "\<exists>v w. table_apply t p = Inr v \<and> table_apply t q = Inr w \<and> v \<in> set (ct_y t) \<and> (p \<le> q \<longrightarrow> v \<le> w)"
    using s [of p] s [of q] len(1) by auto
  show "table_apply t p = Inr (ct_y t ! (knots_below (ct_x t) p - 1))"
    if "ct_x t ! 0 < p" "p < ct_x t ! (length (ct_x t) - 1)"
    using s [of p] that by (simp add: table_step_def)
qed

text \<open>
  An inner knot does not map to its own value: on a strictly increasing table the
  probability at knot \<open>i\<close> gets the value of knot \<open>i - 1\<close>, against the comment \<open>x[i] -> y[i]\<close>, while
  the two end knots do map to theirs.
\<close>

lemma calibration_knot_shift:
  assumes "table_ok t" "sorted_wrt (<) (ct_x t)" "0 < i" "i < length (ct_x t) - 1"
  shows "table_apply t (ct_x t ! i) = Inr (ct_y t ! (i - 1)) \<and>
    table_apply t (ct_x t ! 0) = Inr (ct_y t ! 0) \<and>
    table_apply t (ct_x t ! (length (ct_x t) - 1)) = Inr (ct_y t ! (length (ct_x t) - 1))"
proof -
  have ne: "ct_x t \<noteq> []" and i: "i < length (ct_x t)" using assms(4) by auto
  have "takeWhile (\<lambda>k. k < ct_x t ! i) (ct_x t) = take i (ct_x t)"
    using i by (intro takeWhile_eq_take_P_nth) (auto simp: sorted_wrt_nth_less [OF assms(2)])
  then have "knots_below (ct_x t) (ct_x t ! i) = i"
    using i by (simp add: knots_below_def)
  moreover have "ct_x t ! 0 < ct_x t ! i" "ct_x t ! i < ct_x t ! (length (ct_x t) - 1)"
    "ct_x t ! 0 < ct_x t ! (length (ct_x t) - 1)"
    using assms(3,4) by (auto intro!: sorted_wrt_nth_less [OF assms(2)])
  ultimately show ?thesis
    using table_apply_step [OF assms(1) ne] by (simp add: table_step_def)
qed

section \<open>The store\<close>

text \<open>What the consensus agent relies on: the latest table of a slice is the last one stored.\<close>

locale calibration_store =
  fixes latest :: "'s \<Rightarrow> jval \<Rightarrow> string \<Rightarrow> calibration_table res" and upsert :: "calibration_table \<Rightarrow> 's \<Rightarrow> 's res"
  assumes latest_upsert: "upsert t s = Inr s' \<Longrightarrow>
      latest s' profile market =
        (if profile = ct_profile_id t \<and> market = ct_market t then Inr t else latest s profile market)"
    and latest_slice: "latest s profile market = Inr t \<Longrightarrow> hashable profile"
    and latest_total: "hashable profile \<Longrightarrow> \<exists>t. latest s profile market = Inr t"
begin

fun upserts :: "calibration_table list \<Rightarrow> 's \<Rightarrow> 's res" where
  "upserts [] s = Inr s"
| "upserts (t # ts) s = res_bind (upsert t s) (upserts ts)"

end

type_synonym mem_calibration = "(jval \<times> string, calibration_table) odict"

definition empty_table :: "jval \<Rightarrow> string \<Rightarrow> calibration_table" where
  "empty_table profile_id market =
     \<lparr>ct_profile_id = profile_id, ct_market = market, ct_version = 0, ct_x = [], ct_y = []\<rparr>"

definition calibration_latest :: "mem_calibration \<Rightarrow> jval \<Rightarrow> string \<Rightarrow> calibration_table res" where
  "calibration_latest s profile_id market =
     (if \<not> hashable profile_id then Inl TypeError
      else Inr (case map_of s (profile_id, market) of None \<Rightarrow> empty_table profile_id market | Some t \<Rightarrow> t))"

definition calibration_upsert :: "calibration_table \<Rightarrow> mem_calibration \<Rightarrow> mem_calibration res" where
  "calibration_upsert t s =
     (if \<not> hashable (ct_profile_id t) then Inl TypeError
      else Inr (od_set (ct_profile_id t, ct_market t) t s))"

interpretation mem_calibration: calibration_store calibration_latest calibration_upsert
  by unfold_locales (auto simp: calibration_latest_def calibration_upsert_def od_simps split: if_splits)

section \<open>Softmax\<close>

definition softmax :: "(string, real) odict \<Rightarrow> (string, real) odict" where
  "softmax scores =
     (if scores = [] then []
      else
        let m = Max (snd ` set scores);
            exps = map (\<lambda>(k, v). (k, exp (v - m))) scores;
            z = sum_list (map snd exps) in
        if z \<le> 0 then map (\<lambda>(k, v). (k, 1 / real (length scores))) scores
        else map (\<lambda>(k, v). (k, v / z)) exps)"

lemma sum_list_exp_pos: "xs \<noteq> [] \<Longrightarrow> 0 < sum_list (map (\<lambda>p. exp (f p :: real)) xs)"
  by (induction xs rule: list_nonempty_induct) (auto intro: add_pos_pos)

lemma softmax_eq:
  assumes "scores \<noteq> []"
  shows "softmax scores =
    map (\<lambda>(k, v). (k, exp v / sum_list (map (\<lambda>p. exp (snd p)) scores))) scores"
proof -
  let ?m = "Max (snd ` set scores)"
  have "sum_list (map snd (map (\<lambda>(k, v). (k, exp (v - m))) ps)) = sum_list (map (\<lambda>p. exp (snd p)) ps) / exp m"
    for m :: real and ps :: "(string, real) odict"
    by (induction ps) (auto simp: exp_diff add_divide_distrib case_prod_unfold)
  then have z: "sum_list (map snd (map (\<lambda>(k, v). (k, exp (v - ?m))) scores)) =
      sum_list (map (\<lambda>p. exp (snd p)) scores) / exp ?m" .
  have "0 < sum_list (map (\<lambda>p. exp (snd p :: real)) scores) / exp ?m"
    using sum_list_exp_pos [OF assms] by simp
  then show ?thesis
    using assms unfolding softmax_def Let_def z
    by (auto simp: exp_diff)
qed

text \<open>
  Softmax is a probability distribution over the same outcomes: the keys and their order
  are kept, every probability is positive, they sum to one, the ranking of the scores is kept, and adding
  a constant to every score changes nothing; the uniform fallback is never taken.
\<close>

lemma softmax_distribution:
  assumes "scores \<noteq> []"
  shows "od_keys (softmax scores) = od_keys scores \<and>
    (\<forall>v \<in> set (map snd (softmax scores)). 0 < v) \<and>
    sum_list (map snd (softmax scores)) = 1 \<and>
    (\<forall>i j. i < length scores \<longrightarrow> j < length scores \<longrightarrow>
      (snd (softmax scores ! i) \<le> snd (softmax scores ! j) \<longleftrightarrow> snd (scores ! i) \<le> snd (scores ! j))) \<and>
    softmax (map (\<lambda>(k, v). (k, v + c)) scores) = softmax scores"
proof -
  let ?z = "sum_list (map (\<lambda>p. exp (snd p)) scores)"
  have z: "0 < ?z" by (rule sum_list_exp_pos [OF assms])
  have "sum_list (map (\<lambda>p. exp (snd p) / ?z) ps) = sum_list (map (\<lambda>p. exp (snd p)) ps) / ?z"
    for ps :: "(string, real) odict"
    by (induction ps) (auto simp: add_divide_distrib)
  from this [of scores] have sum: "sum_list (map snd (softmax scores)) = 1"
    using z by (simp add: softmax_eq [OF assms] o_def case_prod_unfold)
  have "sum_list (map (\<lambda>p. exp (snd p)) (map (\<lambda>(k, v). (k, v + c)) ps)) =
      exp c * sum_list (map (\<lambda>p. exp (snd p)) ps)" for ps :: "(string, real) odict"
    by (induction ps) (auto simp: exp_add distrib_left)
  from this [of scores] have shift: "softmax (map (\<lambda>(k, v). (k, v + c)) scores) = softmax scores"
    using assms by (auto simp: softmax_eq o_def case_prod_unfold exp_add)
  show ?thesis
    using sum shift z by (auto simp: softmax_eq [OF assms] o_def case_prod_unfold divide_le_cancel)
qed

section \<open>The predictor shell\<close>

record predictor =
  pr_predictor_id :: string
  pr_supported_markets :: "string list"
  pr_features_version :: string

definition predictor_init :: "string \<Rightarrow> string list \<Rightarrow> string \<Rightarrow> predictor res" where
  "predictor_init predictor_id supported features_version =
     require (predictor_id \<noteq> []) (
     require (features_version \<noteq> []) (
     Inr \<lparr>pr_predictor_id = predictor_id, pr_supported_markets = supported, pr_features_version = features_version\<rparr>))"

definition predict_vote_topic :: topic where
  "predict_vote_topic = ''predict.vote''"

text \<open>
  \<open>handle\<close>: the model is a function of the request and its features that may raise and returns
  a distribution and a confidence. The result is a vote, nothing (a malformed or unsupported
  request, or an abstention), or an exception.
\<close>

definition predictor_vote ::
  "pylib \<Rightarrow> (predict_request \<Rightarrow> jobj \<Rightarrow> (jobj \<times> jval) res) \<Rightarrow> string \<Rightarrow> predictor \<Rightarrow> jobj \<Rightarrow> predict_vote option res" where
  "predictor_vote L predict produced_at a payload =
     (case predict_request_from_dict L payload of
        Inl e \<Rightarrow> (if e \<in> {KeyError, TypeError, ValueError} then Inr None else Inl e)
      | Inr req \<Rightarrow>
          if rq_market req \<notin> set (pr_supported_markets a) then Inr None
          else
            res_bind (predict req (rq_features req)) (\<lambda>(distribution, confidence).
            res_bind (as_dict_or ValueError (jget_or distribution ''market_outcomes'' JNull)) (\<lambda>outcomes.
                if outcomes = [] then Inr None
                else
                  res_bind (res_map (\<lambda>p. py_float L (snd p)) outcomes) (\<lambda>vs.
                  require (99 / 100 \<le> sum_list vs \<and> sum_list vs \<le> 101 / 100) (
                  res_bind (py_float L confidence) (\<lambda>conf.
                  res_bind (predict_vote_check
                    \<lparr>pv_request_id = rq_request_id req, pv_match_id = rq_match_id req, pv_market = rq_market req,
                     pv_predictor_id = pr_predictor_id a, pv_distribution = distribution, pv_confidence = conf,
                     pv_produced_at = produced_at, pv_features_version = pr_features_version a,
                     pv_league_id = rq_league_id req, pv_profile_id = rq_profile_id req, pv_metadata = []\<rparr>)
                    (\<lambda>vote. Inr (Some vote))))))))"

definition predictor_handle ::
  "pylib \<Rightarrow> (predict_request \<Rightarrow> jobj \<Rightarrow> (jobj \<times> jval) res) \<Rightarrow> string \<Rightarrow> predictor \<Rightarrow> message \<Rightarrow> emission list res" where
  "predictor_handle L predict produced_at a msg =
     res_bind (predictor_vote L predict produced_at a (msg_payload msg)) (\<lambda>v. Inr (case v of
        None \<Rightarrow> []
      | Some vote \<Rightarrow> [\<lparr>em_topic = predict_vote_topic, em_payload = predict_vote_as_dict vote,
          em_producer = pr_predictor_id a, em_trace = Some (en_trace_id (msg_envelope msg))\<rparr>]))"

text \<open>
  Whatever the model computes, what a predictor publishes can be used: at most one message,
  on the vote topic, that decodes to a vote for the request's own request id, match and market,
  from this predictor, with a distribution whose outcome probabilities are numbers that sum to one within
  one percent.
\<close>

lemma predictor_votes_sound:
  assumes "predictor_init pid ms fv = Inr a"
    and "predict_request_from_dict L (msg_payload msg) = Inr req"
    and "predictor_handle L predict produced_at a msg = Inr out"
  shows "out = [] \<or> (\<exists>e vote outcomes vs. out = [e] \<and> em_topic e = predict_vote_topic \<and>
    predict_vote_from_dict M (em_payload e) = Inr vote \<and>
    pv_request_id vote = rq_request_id req \<and> pv_match_id vote = rq_match_id req \<and>
    pv_market vote = rq_market req \<and> rq_market req \<in> set ms \<and> pv_predictor_id vote = pid \<and>
    map_of (pv_distribution vote) ''market_outcomes'' = Some (JObj outcomes) \<and>
    res_map (\<lambda>p. py_float L (snd p)) outcomes = Inr vs \<and> 99 / 100 \<le> sum_list vs \<and> sum_list vs \<le> 101 / 100)"
proof -
  have a: "pr_predictor_id a = pid" "pr_supported_markets a = ms"
    using assms(1) by (auto simp: predictor_init_def res_iffs)
  from assms(3) obtain v where v: "predictor_vote L predict produced_at a (msg_payload msg) = Inr v"
    and out: "out = (case v of None \<Rightarrow> [] | Some vote \<Rightarrow> [\<lparr>em_topic = predict_vote_topic,
      em_payload = predict_vote_as_dict vote, em_producer = pid, em_trace = Some (en_trace_id (msg_envelope msg))\<rparr>])"
    unfolding predictor_handle_def res_bind_Inr_iff a by blast
  show ?thesis
  proof (cases v)
    case None
    then show ?thesis by (simp add: out)
  next
    case (Some vote)
    have "predict_vote_check vote = Inr vote \<and>
      pv_request_id vote = rq_request_id req \<and> pv_match_id vote = rq_match_id req \<and>
      pv_market vote = rq_market req \<and> rq_market req \<in> set ms \<and> pv_predictor_id vote = pid \<and>
      (\<exists>outcomes vs. map_of (pv_distribution vote) ''market_outcomes'' = Some (JObj outcomes) \<and>
        res_map (\<lambda>p. py_float L (snd p)) outcomes = Inr vs \<and> 99 / 100 \<le> sum_list vs \<and> sum_list vs \<le> 101 / 100)"
      using v unfolding Some predictor_vote_def
      by (auto simp: assms(2) a res_iffs as_dict_or_Inr_iff predict_vote_check_def jget_or_def split: if_splits option.splits)
    then show ?thesis
      using predict_vote_wire [of vote M] by (auto simp: out Some)
  qed
qed

definition example_predictor :: predictor where
  "example_predictor = \<lparr>pr_predictor_id = ''pred.elo.v1'', pr_supported_markets = [''1x2''], pr_features_version = ''v1''\<rparr>"

definition example_request :: predict_request where
  "example_request = \<lparr>rq_request_id = ''r1'', rq_match_id = ''m1'', rq_market = ''1x2'', rq_league_id = JNull,
     rq_profile_id = JNull, rq_requested_at = ''t'', rq_kind_schema_version = 2, rq_qa_correlation_id = None,
     rq_features = [], rq_metadata = []\<rparr>"

definition example_request_message :: message where
  "example_request_message = message_new \<lparr>fr_message_id = ''i'', fr_trace_id = ''t'', fr_now = ''n''\<rparr> ''predict.request''
     (predict_request_as_dict example_request) ''api'' None"

lemma example_request_decodes:
  "predict_request_from_dict L (msg_payload example_request_message) = Inr example_request"
  by (simp add: example_request_message_def message_new_def predict_request_wire
      predict_request_check_def example_request_def allowed_markets_def)

end
