(* ===== verification/Fusion.thy ===== *)
theory Fusion
  imports Calibration
begin

text \<open>
  The two fusion routines of \<open>swarm/agents/consensus.py\<close>: the weighted average of the votes'
  outcome probabilities and the average of their score grids, on the JSON values the votes carry.
\<close>

section \<open>Outcome probabilities\<close>

definition market_outcomes :: "string \<Rightarrow> string list" where
  "market_outcomes market =
     (if market = ''1x2'' then [''H'', ''D'', ''A'']
      else if market = ''ah'' then [''home'', ''away'']
      else if market = ''ou_2_5'' then [''over'', ''under'']
      else if market = ''btts'' then [''yes'', ''no''] else [])"

text \<open>\<open>float(pmf.get(o, 0.0))\<close> with \<open>pmf = v.distribution.get("market_outcomes") or {}\<close>.\<close>

definition vote_pmf :: "predict_vote \<Rightarrow> jval" where
  "vote_pmf v = (let j = jget_or (pv_distribution v) ''market_outcomes'' JNull in if py_bool j then j else JObj [])"

definition outcome_prob :: "pylib \<Rightarrow> predict_vote \<Rightarrow> string \<Rightarrow> real res" where
  "outcome_prob L v o1 =
     res_bind (as_dict_or AttributeError (vote_pmf v)) (\<lambda>pmf. py_float L (jget_or pmf o1 (JFloat 0)))"

definition weight_of :: "(string, real) odict \<Rightarrow> predict_vote \<Rightarrow> real" where
  "weight_of weights v = max 0 (case map_of weights (pv_predictor_id v) of None \<Rightarrow> 1 | Some w \<Rightarrow> w)"

text \<open>The accumulation loop: the sums per outcome, and the total weight.\<close>

fun fuse_votes ::
  "pylib \<Rightarrow> string list \<Rightarrow> (string, real) odict \<Rightarrow> predict_vote list \<Rightarrow> real list \<Rightarrow> real \<Rightarrow> (real list \<times> real) res" where
  "fuse_votes L outcomes weights [] fused z = Inr (fused, z)"
| "fuse_votes L outcomes weights (v # vs) fused z =
     (let w = weight_of weights v in
      if w \<le> 0 then fuse_votes L outcomes weights vs fused z
      else
        res_bind (res_map (outcome_prob L v) outcomes) (\<lambda>ps.
        fuse_votes L outcomes weights vs (map2 (\<lambda>f p. f + w * p) fused ps) (z + w)))"

definition normalized :: "real \<Rightarrow> real list \<Rightarrow> real list" where
  "normalized z fs = (if 0 < z then map (\<lambda>f. f / z) fs else fs)"

definition fuse_distributions ::
  "pylib \<Rightarrow> predict_vote list \<Rightarrow> (string, real) odict \<Rightarrow> string \<Rightarrow> (string, real) odict res" where
  "fuse_distributions L votes weights market =
     (let outcomes = market_outcomes market in
      res_bind (fuse_votes L outcomes weights votes (map (\<lambda>_. 0) outcomes) 0) (\<lambda>(fused, z).
      let fused1 = normalized z fused in
      Inr (zip outcomes (normalized (sum_list fused1) fused1))))"

text \<open>The closed form: for each outcome the weighted sum over the votes that count.\<close>

definition voting :: "(string, real) odict \<Rightarrow> predict_vote list \<Rightarrow> predict_vote list" where
  "voting weights votes = filter (\<lambda>v. 0 < weight_of weights v) votes"

definition prob :: "pylib \<Rightarrow> predict_vote \<Rightarrow> string \<Rightarrow> real" where
  "prob L v o1 = projr (outcome_prob L v o1)"

definition weighted_sum :: "pylib \<Rightarrow> (string, real) odict \<Rightarrow> predict_vote list \<Rightarrow> string \<Rightarrow> real" where
  "weighted_sum L weights votes o1 = sum_list (map (\<lambda>v. weight_of weights v * prob L v o1) (voting weights votes))"

definition readable :: "pylib \<Rightarrow> string list \<Rightarrow> predict_vote \<Rightarrow> bool" where
  "readable L outcomes v \<longleftrightarrow> list_all (\<lambda>o1. outcome_prob L v o1 = Inr (prob L v o1)) outcomes"

lemma weighted_sum_Cons:
  "weighted_sum L weights (v # vs) o1 =
     (if 0 < weight_of weights v then weight_of weights v * prob L v o1 else 0) + weighted_sum L weights vs o1"
  by (simp add: weighted_sum_def voting_def)

lemma voting_Cons: "voting weights (v # vs) = (if 0 < weight_of weights v then v # voting weights vs else voting weights vs)"
  by (simp add: voting_def)

lemma fuse_votes_closed:
  assumes "list_all (readable L outcomes) (voting weights votes)" "length fused = length outcomes"
  shows "fuse_votes L outcomes weights votes fused z =
    Inr (map2 (\<lambda>f o1. f + weighted_sum L weights votes o1) fused outcomes,
         z + sum_list (map (weight_of weights) (voting weights votes)))"
  using assms
proof (induction votes arbitrary: fused z)
  case Nil
  have "map2 (\<lambda>f o1. f) fused outcomes = fused"
    using Nil(2) by (intro nth_equalityI) auto
  then show ?case by (simp add: weighted_sum_def voting_def)
next
  case (Cons v vs)
  show ?case
  proof (cases "weight_of weights v \<le> 0")
    case True
    with Cons show ?thesis by (simp add: weighted_sum_Cons voting_Cons not_less)
  next
    case False
    let ?w = "weight_of weights v"
    have pos: "0 < ?w" using False by simp
    have r: "readable L outcomes v" and rs: "list_all (readable L outcomes) (voting weights vs)"
      using Cons.prems(1) pos by (simp_all add: voting_Cons)
    have "res_map (outcome_prob L v) outcomes = Inr (map (prob L v) outcomes)"
      using r by (intro res_map_Inr) (auto simp: readable_def list_all_iff)
    moreover have "map2 (\<lambda>f o1. f + weighted_sum L weights vs o1) (map2 (\<lambda>f p. f + ?w * p) fused (map (prob L v) outcomes)) outcomes =
        map2 (\<lambda>f o1. f + weighted_sum L weights (v # vs) o1) fused outcomes"
      using Cons.prems(2) pos by (intro nth_equalityI) (auto simp: weighted_sum_Cons algebra_simps)
    ultimately show ?thesis
      using False Cons.IH [OF rs, of "map2 (\<lambda>f p. f + ?w * p) fused (map (prob L v) outcomes)" "z + ?w"] Cons.prems(2) pos
      by (simp add: voting_Cons algebra_simps)
  qed
qed

lemma sum_list_map_divide: "sum_list (map (\<lambda>x. f x / (c :: real)) xs) = sum_list (map f xs) / c"
  by (induction xs) (auto simp: add_divide_distrib)

lemma sum_list_map_pos: "xs \<noteq> [] \<Longrightarrow> (\<And>x. x \<in> set xs \<Longrightarrow> 0 < (f x :: real)) \<Longrightarrow> 0 < sum_list (map f xs)"
  by (induction xs rule: list_nonempty_induct) (auto intro: add_pos_pos)

text \<open>When the total mass is positive, both normalisations amount to one division by it.\<close>

lemma fuse_distributions_closed:
  assumes "list_all (readable L (market_outcomes market)) (voting weights votes)"
    and "0 < sum_list (map (weighted_sum L weights votes) (market_outcomes market))"
  shows "fuse_distributions L votes weights market =
    Inr (map (\<lambda>o1. (o1, weighted_sum L weights votes o1 /
      sum_list (map (weighted_sum L weights votes) (market_outcomes market)))) (market_outcomes market))"
proof -
  let ?os = "market_outcomes market" and ?ws = "weighted_sum L weights votes"
  let ?Z = "sum_list (map (weight_of weights) (voting weights votes))" and ?S = "sum_list (map ?ws ?os)"
  have sums: "map2 (\<lambda>f o1. f + ?ws o1) (map (\<lambda>_. 0) ?os) ?os = map ?ws ?os"
    by (simp add: zip_map1 zip_same_conv_map case_prod_unfold o_def)
  have "voting weights votes \<noteq> []"
  proof
    assume "voting weights votes = []"
    then have "?ws = (\<lambda>_. 0)" by (simp add: weighted_sum_def fun_eq_iff)
    with assms(2) show False by simp
  qed
  then have Z: "0 < ?Z"
    by (rule sum_list_map_pos) (simp add: voting_def)
  have "fuse_votes L ?os weights votes (map (\<lambda>_. 0) ?os) 0 = Inr (map ?ws ?os, ?Z)"
    by (subst fuse_votes_closed [OF assms(1)]) (simp_all add: sums)
  moreover have "normalized ?Z (map ?ws ?os) = map (\<lambda>o1. ?ws o1 / ?Z) ?os"
    using Z by (simp add: normalized_def)
  moreover have "normalized (?S / ?Z) (map (\<lambda>o1. ?ws o1 / ?Z) ?os) = map (\<lambda>o1. ?ws o1 / ?S) ?os"
    using Z assms(2) by (simp add: normalized_def)
  moreover have "zip ?os (map (\<lambda>o1. ?ws o1 / ?S) ?os) = map (\<lambda>o1. (o1, ?ws o1 / ?S)) ?os"
    by (simp add: zip_map2 zip_same_conv_map)
  ultimately show ?thesis
    by (simp add: fuse_distributions_def Let_def sum_list_map_divide)
qed

lemma weighted_sum_nonneg:
  "(\<And>v. v \<in> set (voting weights votes) \<Longrightarrow> 0 \<le> prob L v o1) \<Longrightarrow> 0 \<le> weighted_sum L weights votes o1"
  unfolding weighted_sum_def by (intro sum_list_nonneg) (auto simp: voting_def)

lemma weighted_sum_bounds:
  assumes "\<And>v. v \<in> set (voting weights votes) \<Longrightarrow> lo \<le> prob L v o1 \<and> prob L v o1 \<le> hi"
  shows "sum_list (map (weight_of weights) (voting weights votes)) * lo \<le> weighted_sum L weights votes o1 \<and>
    weighted_sum L weights votes o1 \<le> sum_list (map (weight_of weights) (voting weights votes)) * hi"
proof -
  have "(\<And>v. v \<in> set vs \<Longrightarrow> lo \<le> prob L v o1 \<and> prob L v o1 \<le> hi \<and> 0 < weight_of weights v) \<Longrightarrow>
      sum_list (map (weight_of weights) vs) * lo \<le> sum_list (map (\<lambda>v. weight_of weights v * prob L v o1) vs) \<and>
      sum_list (map (\<lambda>v. weight_of weights v * prob L v o1) vs) \<le> sum_list (map (weight_of weights) vs) * hi" for vs
  proof (induction vs)
    case (Cons v vs)
    have "weight_of weights v * lo \<le> weight_of weights v * prob L v o1"
      "weight_of weights v * prob L v o1 \<le> weight_of weights v * hi"
      using Cons.prems [of v] by (simp_all add: mult_left_mono)
    with Cons show ?case by (auto simp: distrib_right intro: add_mono)
  qed simp
  from this [of "voting weights votes"] assms show ?thesis
    by (simp add: weighted_sum_def voting_def)
qed

lemma weighted_sum_total:
  assumes "\<And>v. v \<in> set (voting weights votes) \<Longrightarrow> sum_list (map (prob L v) outcomes) = 1"
  shows "sum_list (map (weighted_sum L weights votes) outcomes) = sum_list (map (weight_of weights) (voting weights votes))"
proof -
  have "sum_list (map (\<lambda>o1. sum_list (map (\<lambda>v. weight_of weights v * prob L v o1) vs)) outcomes) =
      sum_list (map (\<lambda>v. weight_of weights v * sum_list (map (prob L v) outcomes)) vs)" for vs
    by (induction vs) (auto simp: sum_list_addf sum_list_const_mult)
  from this [of "voting weights votes"] have
    "sum_list (map (weighted_sum L weights votes) outcomes) =
      sum_list (map (\<lambda>v. weight_of weights v * sum_list (map (prob L v) outcomes)) (voting weights votes))"
    by (simp add: weighted_sum_def [abs_def])
  also have "\<dots> = sum_list (map (weight_of weights) (voting weights votes))"
    using assms by (intro arg_cong [where f = sum_list] map_cong) auto
  finally show ?thesis .
qed

text \<open>Votes that fuse: readable, non-negative, of positive total mass.\<close>

definition fusible :: "pylib \<Rightarrow> (string, real) odict \<Rightarrow> predict_vote list \<Rightarrow> string \<Rightarrow> bool" where
  "fusible L weights votes market \<longleftrightarrow>
     list_all (readable L (market_outcomes market)) (voting weights votes) \<and>
     list_all (\<lambda>v. list_all (\<lambda>o1. 0 \<le> prob L v o1) (market_outcomes market)) (voting weights votes) \<and>
     0 < sum_list (map (weighted_sum L weights votes) (market_outcomes market))"

definition is_pmf :: "string \<Rightarrow> (string, real) odict \<Rightarrow> bool" where
  "is_pmf market ds \<longleftrightarrow> map fst ds = market_outcomes market \<and>
     list_all (\<lambda>p. 0 \<le> p \<and> p \<le> 1) (map snd ds) \<and> sum_list (map snd ds) = 1"

lemma is_pmfI:
  assumes "map fst ds = market_outcomes market" "\<And>p. p \<in> set (map snd ds) \<Longrightarrow> 0 \<le> p" "sum_list (map snd ds) = 1"
  shows "is_pmf market ds"
  using assms member_le_sum_list [of _ "map snd ds"] by (auto simp: is_pmf_def list_all_iff)

lemma fuse_distributions_pmf:
  assumes "fusible L weights votes market"
  shows "\<exists>ds. fuse_distributions L votes weights market = Inr ds \<and> is_pmf market ds"
proof -
  let ?os = "market_outcomes market" and ?ws = "weighted_sum L weights votes"
  let ?S = "sum_list (map ?ws ?os)"
  have a: "list_all (readable L ?os) (voting weights votes)" "0 < ?S"
    using assms by (simp_all add: fusible_def)
  have nonneg: "0 \<le> ?ws o1" if "o1 \<in> set ?os" for o1
    using assms that by (auto simp: fusible_def list_all_iff intro!: weighted_sum_nonneg)
  have "is_pmf market (map (\<lambda>o1. (o1, ?ws o1 / ?S)) ?os)"
    using a(2) nonneg by (intro is_pmfI) (auto simp: o_def sum_list_map_divide)
  with fuse_distributions_closed [OF a] show ?thesis by blast
qed

text \<open>
  The fused distribution is the normalised weighted average of the votes. When the votes
  with a positive weight carry readable, non-negative probabilities of positive total mass, the result
  lists the outcomes of the market in their order with probabilities between zero and one that sum
  to one; and when each of these votes sums to one, every fused probability lies between the
  smallest and the largest one voted.
\<close>

lemma fused_distribution_average:
  assumes "list_all (readable L (market_outcomes market)) (voting weights votes)"
    and "\<forall>v \<in> set (voting weights votes). \<forall>o1 \<in> set (market_outcomes market). 0 \<le> prob L v o1"
    and "0 < sum_list (map (weighted_sum L weights votes) (market_outcomes market))"
  shows "\<exists>ds. fuse_distributions L votes weights market = Inr ds \<and> map fst ds = market_outcomes market \<and>
    (\<forall>p \<in> set (map snd ds). 0 \<le> p \<and> p \<le> 1) \<and> sum_list (map snd ds) = 1 \<and>
    ((\<forall>v \<in> set (voting weights votes). sum_list (map (prob L v) (market_outcomes market)) = 1) \<longrightarrow>
      (\<forall>(o1, p) \<in> set ds. \<forall>lo hi. (\<forall>v \<in> set (voting weights votes). lo \<le> prob L v o1 \<and> prob L v o1 \<le> hi) \<longrightarrow>
        lo \<le> p \<and> p \<le> hi))"
proof -
  let ?os = "market_outcomes market" and ?ws = "weighted_sum L weights votes"
  let ?S = "sum_list (map ?ws ?os)" and ?Z = "sum_list (map (weight_of weights) (voting weights votes))"
  let ?ds = "map (\<lambda>o1. (o1, ?ws o1 / ?S)) ?os"
  have nonneg: "0 \<le> ?ws o1" if "o1 \<in> set ?os" for o1
    using assms(2) that by (intro weighted_sum_nonneg) auto
  have le: "?ws o1 \<le> ?S" if "o1 \<in> set ?os" for o1
    using that nonneg by (intro member_le_sum_list) auto
  have convex: "lo \<le> ?ws o1 / ?S \<and> ?ws o1 / ?S \<le> hi"
    if "\<forall>v \<in> set (voting weights votes). sum_list (map (prob L v) ?os) = 1"
      and "\<forall>v \<in> set (voting weights votes). lo \<le> prob L v o1 \<and> prob L v o1 \<le> hi" for o1 lo hi
  proof -
    have "?S = ?Z" using that(1) by (intro weighted_sum_total) simp
    with weighted_sum_bounds [of weights votes lo L o1 hi] that(2) assms(3) show ?thesis
      by (simp add: pos_le_divide_eq pos_divide_le_eq mult.commute)
  qed
  have "sum_list (map snd ?ds) = 1"
    using assms(3) by (simp add: o_def sum_list_map_divide)
  moreover have "\<forall>p \<in> set (map snd ?ds). 0 \<le> p \<and> p \<le> 1"
    using nonneg le assms(3) by (auto simp: pos_divide_le_eq)
  ultimately show ?thesis
    using fuse_distributions_closed [OF assms(1,3)] convex
    by (intro exI [of _ ?ds]) (simp add: o_def del: split_paired_All, blast)
qed

definition example_vote :: "string \<Rightarrow> real \<Rightarrow> predict_vote" where
  "example_vote pid p =
     \<lparr>pv_request_id = ''r1'', pv_match_id = ''m1'', pv_market = ''btts'', pv_predictor_id = pid,
      pv_distribution = [(''market_outcomes'', JObj [(''yes'', JFloat p), (''no'', JFloat (1 - p))])],
      pv_confidence = 1 / 2, pv_produced_at = ''t'', pv_features_version = ''v1'', pv_league_id = JNull,
      pv_profile_id = JNull, pv_metadata = []\<rparr>"

lemma example_vote_probs:
  "outcome_prob L (example_vote pid p) ''yes'' = Inr p" "outcome_prob L (example_vote pid p) ''no'' = Inr (1 - p)"
  by (simp_all add: outcome_prob_def vote_pmf_def example_vote_def jget_or_def)

section \<open>Score grids\<close>

text \<open>A usable grid is a non-empty list whose first element is a list.\<close>

definition usable_grid :: "predict_vote \<Rightarrow> jval list option" where
  "usable_grid v = (case jget_or (pv_distribution v) ''score_grid'' JNull of
     JArr (JArr r # rows) \<Rightarrow> Some (JArr r # rows)
   | _ \<Rightarrow> None)"

definition row_length :: "jval \<Rightarrow> nat option" where
  "row_length row = (case row of JArr cells \<Rightarrow> Some (length cells) | _ \<Rightarrow> None)"

definition row_cells :: "jval \<Rightarrow> jval list" where
  "row_cells row = (case row of JArr cells \<Rightarrow> cells | _ \<Rightarrow> [])"

text \<open>The collecting loop: grids of the shape of the first well-formed one, and who diverges.\<close>

fun collect_grids ::
  "(nat \<times> nat) option \<Rightarrow> predict_vote list \<Rightarrow> jval list list list \<times> string list" where
  "collect_grids expected [] = ([], [])"
| "collect_grids expected (v # vs) =
     (case usable_grid v of
        None \<Rightarrow> collect_grids expected vs
      | Some g \<Rightarrow>
          let shape = (length g, length (row_cells (hd g)));
              ragged = list_ex (\<lambda>row. row_length row \<noteq> Some (snd shape)) g;
              dropped = ragged \<or> (case expected of None \<Rightarrow> False | Some e \<Rightarrow> shape \<noteq> e) in
          if dropped then (let (gs, bad) = collect_grids expected vs in (gs, pv_predictor_id v # bad))
          else (let (gs, bad) = collect_grids (Some shape) vs in (map row_cells g # gs, bad)))"

definition add_grid :: "real list list \<Rightarrow> real list list \<Rightarrow> real list list" where
  "add_grid = map2 (map2 (+))"

definition grid_total :: "real list list \<Rightarrow> real" where
  "grid_total g = sum_list (map sum_list g)"

definition zero_grid :: "'a list list \<Rightarrow> real list list" where
  "zero_grid g = replicate (length g) (replicate (length (hd g)) 0)"

definition fuse_score_grids :: "pylib \<Rightarrow> predict_vote list \<Rightarrow> (real list list option \<times> string list) res" where
  "fuse_score_grids L votes =
     (case collect_grids None votes of
        ([], bad) \<Rightarrow> Inr (None, bad)
      | (g # gs, bad) \<Rightarrow>
          res_bind (res_map (res_map (res_map (py_float L))) (g # gs)) (\<lambda>cells.
          let total = foldl add_grid (zero_grid g) cells;
              mean = map (map (\<lambda>c. c / real (length (g # gs)))) total;
              s = grid_total mean in
          Inr (Some (if 0 < s then map (map (\<lambda>c. c / s)) mean else mean), bad)))"

definition grid_shape :: "nat \<Rightarrow> nat \<Rightarrow> 'a list list \<Rightarrow> bool" where
  "grid_shape r c g \<longleftrightarrow> length g = r \<and> (\<forall>row \<in> set g. length row = c)"

lemma ragged_shape:
  "\<not> list_ex (\<lambda>row. row_length row \<noteq> Some c) g \<Longrightarrow> grid_shape (length g) c (map row_cells g)"
  by (auto simp: grid_shape_def list_ex_iff row_length_def row_cells_def split: jval.splits)

lemma collect_grids_shape:
  "collect_grids expected vs = (gs, bad) \<Longrightarrow>
    (case expected of Some (r, c) \<Rightarrow> (\<forall>g \<in> set gs. grid_shape r c g) | None \<Rightarrow>
       gs \<noteq> [] \<longrightarrow> (\<forall>g \<in> set gs. grid_shape (length (hd gs)) (length (hd (hd gs))) g) \<and> hd gs \<noteq> [])"
proof (induction expected vs arbitrary: gs bad rule: collect_grids.induct)
  case (1 expected)
  then show ?case by (auto split: option.splits)
next
  case (2 expected v vs)
  show ?case
  proof (cases "usable_grid v")
    case None
    with 2 show ?thesis by simp
  next
    case (Some g)
    define shape where "shape = (length g, length (row_cells (hd g)))"
    define ragged where "ragged = list_ex (\<lambda>row. row_length row \<noteq> Some (snd shape)) g"
    define dropped where "dropped = (ragged \<or> (case expected of None \<Rightarrow> False | Some e \<Rightarrow> shape \<noteq> e))"
    have g: "g \<noteq> []" using Some by (auto simp: usable_grid_def split: jval.splits list.splits)
    show ?thesis
    proof (cases dropped)
      case True
      obtain gs' bad' where r: "collect_grids expected vs = (gs', bad')" by force
      have eq: "gs = gs'"
        using "2.prems" True r by (simp add: Some Let_def flip: shape_def ragged_def) (simp add: dropped_def)
      show ?thesis
        using "2.IH"(2) [OF Some shape_def ragged_def dropped_def True r] unfolding eq .
    next
      case False
      obtain gs' bad' where r: "collect_grids (Some shape) vs = (gs', bad')" by force
      have gs: "gs = map row_cells g # gs'"
        using "2.prems" False r by (simp add: Some Let_def flip: shape_def ragged_def) (simp add: dropped_def)
      have ok: "grid_shape (fst shape) (snd shape) (map row_cells g)"
        using False ragged_shape [of "snd shape" g] by (simp add: dropped_def ragged_def shape_def)
      moreover have "\<forall>h \<in> set gs'. grid_shape (fst shape) (snd shape) h"
        using "2.IH"(3) [OF Some shape_def ragged_def dropped_def False r] by (simp add: case_prod_unfold)
      moreover have "fst shape = length g" "snd shape = length (hd (map row_cells g))"
        using g by (simp_all add: shape_def hd_map)
      ultimately show ?thesis
        using False g by (auto simp: gs dropped_def split: option.splits)
    qed
  qed
qed

lemma res_map_shape:
  assumes "grid_shape r c g" "res_map (res_map (py_float L)) g = Inr cells"
  shows "grid_shape r c cells"
proof -
  have "length cells = length g" using res_map_length [OF assms(2)] .
  moreover have "length (cells ! i) = length (g ! i)" if "i < length g" for i
    using res_map_length [OF res_map_nth [OF assms(2) that]] .
  moreover have "length (g ! i) = c" if "i < length g" for i
    using assms(1) nth_mem [OF that] by (auto simp: grid_shape_def)
  ultimately show ?thesis
    using assms(1) by (auto simp: grid_shape_def in_set_conv_nth)
qed

lemma add_grid_shape: "grid_shape r c a \<Longrightarrow> grid_shape r c b \<Longrightarrow> grid_shape r c (add_grid a b)"
  by (auto simp: grid_shape_def add_grid_def set_zip)

lemma add_grids_shape:
  "grid_shape r c a \<Longrightarrow> \<forall>b \<in> set bs. grid_shape r c b \<Longrightarrow> grid_shape r c (foldl add_grid a bs)"
  by (induction bs arbitrary: a) (auto simp: add_grid_shape)

lemma map_grid_shape: "grid_shape r c a \<Longrightarrow> grid_shape r c (map (map f) a)"
  by (auto simp: grid_shape_def)

lemma grid_total_divide: "grid_total (map (map (\<lambda>c. c / s)) g) = grid_total g / s"
proof -
  have "sum_list (map (\<lambda>c. c / s) row) = sum_list row / s" for row :: "real list"
    by (induction row) (auto simp: add_divide_distrib)
  then show ?thesis
    by (induction g) (auto simp: grid_total_def add_divide_distrib)
qed

text \<open>
  A divergent score grid never corrupts the fused one. Whenever fusing succeeds with a
  grid, that grid has the rows and columns of the first well-formed grid among the votes, every
  grid that was averaged has that shape, and its cells sum to one unless their total was not
  positive; without a usable grid there is none.
\<close>

lemma fused_grid_shape:
  assumes "fuse_score_grids L votes = Inr (r, bad)" and "collect_grids None votes = (gs, bad')"
  shows "bad = bad' \<and> (gs = [] \<longrightarrow> r = None) \<and>
    (gs \<noteq> [] \<longrightarrow> (\<exists>g. r = Some g \<and> grid_shape (length (hd gs)) (length (hd (hd gs))) g \<and>
       (\<forall>h \<in> set gs. grid_shape (length (hd gs)) (length (hd (hd gs))) h) \<and>
       (grid_total g = 1 \<or> grid_total g \<le> 0)))"
proof (cases gs)
  case Nil
  with assms show ?thesis by (auto simp: fuse_score_grids_def)
next
  case (Cons g0 rest)
  let ?r = "length g0" and ?c = "length (hd g0)"
  note shapes = collect_grids_shape [OF assms(2), simplified, unfolded Cons, simplified]
  obtain cells where cells: "res_map (res_map (res_map (py_float L))) gs = Inr cells"
    and bad: "bad = bad'"
    and r: "r = Some (let mean = map (map (\<lambda>c. c / real (length gs))) (foldl add_grid (zero_grid g0) cells);
       s = grid_total mean in if 0 < s then map (map (\<lambda>c. c / s)) mean else mean)"
    using assms(1) unfolding fuse_score_grids_def assms(2) Cons
    by (auto simp: res_bind_Inr_iff Let_def simp del: res_map.simps)
  define mean where "mean = map (map (\<lambda>c. c / real (length gs))) (foldl add_grid (zero_grid g0) cells)"
  have "\<forall>b \<in> set cells. grid_shape ?r ?c b"
  proof
    fix b assume "b \<in> set cells"
    then obtain i where i: "i < length gs" "b = cells ! i"
      using res_map_length [OF cells] by (metis in_set_conv_nth)
    from res_map_nth [OF cells i(1)] have "res_map (res_map (py_float L)) (gs ! i) = Inr b"
      by (simp add: i(2))
    moreover have "grid_shape ?r ?c (gs ! i)"
      using shapes i(1) Cons nth_mem [OF i(1)] by auto
    ultimately show "grid_shape ?r ?c b" by (rule res_map_shape [rotated])
  qed
  moreover have "grid_shape ?r ?c (zero_grid g0)"
    by (auto simp: grid_shape_def zero_grid_def)
  ultimately have m: "grid_shape ?r ?c mean"
    unfolding mean_def by (intro map_grid_shape add_grids_shape)
  have r': "r = Some (if 0 < grid_total mean then map (map (\<lambda>c. c / grid_total mean)) mean else mean)"
    using r by (simp add: Let_def mean_def)
  have "\<forall>h \<in> set gs. grid_shape ?r ?c h" using shapes Cons by auto
  then show ?thesis
    using m Cons by (auto simp: r' bad map_grid_shape grid_total_divide)
qed

end
