(* ===== verification/Consensus.thy ===== *)
theory Consensus
  imports Fusion Ledger
begin

text \<open>
  The consensus agent of \<open>swarm/agents/consensus.py\<close>: pending windows per
  \<open>(match_id, market, request_id)\<close>, the vote handler with its overflow, late-vote and re-vote
  branches, the window flushes, and finalisation. A call that closes windows is modelled by the
  list of its outcomes in order; \<open>outcomes_result\<close> says what the caller sees of them.
\<close>

section \<open>State\<close>

type_synonym fusion_key = "string \<times> string \<times> string"

record pending =
  pn_match_id :: string
  pn_market :: string
  pn_request_id :: string
  pn_league_id :: jval
  pn_profile_id :: jval
  pn_first_seen_ms :: real
  pn_votes :: "predict_vote list"
  pn_voters :: "string set"
  pn_prediction_id :: "string option"
  pn_calibration_version :: int
  pn_calibration_table :: "calibration_table option"

record consensus =
  cs_expected :: "string list"
  cs_ledger :: mem_ledger
  cs_calibration :: mem_calibration
  cs_weights :: "(string, real) odict"
  cs_window_ms :: real
  cs_min_voters :: int
  cs_min_confidence :: real
  cs_max_pending :: int
  cs_overflow_interval_ms :: real
  cs_overflow_last :: "real option"
  cs_pending :: "(fusion_key, pending) odict"

text \<open>\<open>__init__\<close>: the configuration's values are arguments.\<close>

definition consensus_init ::
  "string list \<Rightarrow> mem_ledger \<Rightarrow> mem_calibration \<Rightarrow> (string, real) odict \<Rightarrow> real \<Rightarrow> int \<Rightarrow> real \<Rightarrow> int \<Rightarrow> real \<Rightarrow> consensus res" where
  "consensus_init expected led cal weights window min_voters min_confidence max_pending overflow_sec =
     require (expected \<noteq> []) (
     Inr \<lparr>cs_expected = expected, cs_ledger = led, cs_calibration = cal, cs_weights = weights,
        cs_window_ms = window, cs_min_voters = min_voters, cs_min_confidence = min_confidence,
        cs_max_pending = max_pending, cs_overflow_interval_ms = overflow_sec * 1000,
        cs_overflow_last = None, cs_pending = []\<rparr>)"

definition proof_flag_topic :: topic where
  "proof_flag_topic = ''proof.flag''"

definition predict_final_topic :: topic where
  "predict_final_topic = ''predict.final''"

definition consensus_name :: string where
  "consensus_name = ''consensus.v1''"

definition new_pending :: "string \<Rightarrow> string \<Rightarrow> string \<Rightarrow> jval \<Rightarrow> jval \<Rightarrow> real \<Rightarrow> pending" where
  "new_pending match_id market request_id league profile now =
     \<lparr>pn_match_id = match_id, pn_market = market, pn_request_id = request_id,
      pn_league_id = league, pn_profile_id = profile, pn_first_seen_ms = now, pn_votes = [], pn_voters = {},
      pn_prediction_id = None, pn_calibration_version = 0, pn_calibration_table = None\<rparr>"

text \<open>\<open>a or b\<close>, and \<open>_resolve_profile\<close>.\<close>

definition py_or :: "jval \<Rightarrow> jval \<Rightarrow> jval" where
  "py_or a b = (if py_bool a then a else b)"

definition resolve_profile :: "pending \<Rightarrow> jval" where
  "resolve_profile p = py_or (py_or (pn_profile_id p) (pn_league_id p)) (JStr ''default'')"

text \<open>The block that caches the calibration table and the prediction id on first use.\<close>

definition resolve_prediction :: "(string \<Rightarrow> string) \<Rightarrow> mem_calibration \<Rightarrow> pending \<Rightarrow> pending res" where
  "resolve_prediction H store p =
     (case pn_prediction_id p of
        Some pid \<Rightarrow> Inr p
      | None \<Rightarrow>
          res_bind (calibration_latest store (resolve_profile p) (pn_market p)) (\<lambda>cal.
          Inr (p\<lparr>pn_calibration_table := Some cal, pn_calibration_version := ct_version cal,
            pn_prediction_id := Some (derive_prediction_id H (pn_match_id p) (pn_market p) (pn_request_id p)
              (show_int (ct_version cal)))\<rparr>)))"

section \<open>Flags\<close>

definition flag_emission :: "jobj \<Rightarrow> string option \<Rightarrow> emission" where
  "flag_emission payload trace =
     \<lparr>em_topic = proof_flag_topic, em_payload = payload, em_producer = consensus_name,
      em_trace = Some (case trace of None \<Rightarrow> [] | Some t \<Rightarrow> t)\<rparr>"

definition overflow_flag :: "int \<Rightarrow> pending \<Rightarrow> string \<Rightarrow> emission" where
  "overflow_flag max_pending evicted trace =
     flag_emission
       [(''kind'', JStr ''consensus_overflow''), (''agent'', JStr consensus_name),
        (''match_id'', JStr (pn_match_id evicted)), (''market'', JStr (pn_market evicted)),
        (''request_id'', JStr (pn_request_id evicted)), (''max_pending'', JInt max_pending)] (Some trace)"

definition late_vote_flag :: "predict_vote \<Rightarrow> string \<Rightarrow> string \<Rightarrow> emission" where
  "late_vote_flag vote prediction_id trace =
     flag_emission
       [(''kind'', JStr ''late_vote_dropped''), (''agent'', JStr consensus_name),
        (''predictor_id'', JStr (pv_predictor_id vote)), (''match_id'', JStr (pv_match_id vote)),
        (''market'', JStr (pv_market vote)), (''request_id'', JStr (pv_request_id vote)),
        (''prediction_id'', JStr prediction_id)] (Some trace)"

definition no_votes_flag :: "pending \<Rightarrow> string \<Rightarrow> string option \<Rightarrow> emission" where
  "no_votes_flag p prediction_id trace =
     flag_emission
       [(''kind'', JStr ''consensus_no_votes''), (''agent'', JStr consensus_name),
        (''match_id'', JStr (pn_match_id p)), (''market'', JStr (pn_market p)),
        (''request_id'', JStr (pn_request_id p)), (''prediction_id'', JStr prediction_id)] trace"

definition mismatch_flag :: "pending \<Rightarrow> string \<Rightarrow> string option \<Rightarrow> string \<Rightarrow> emission" where
  "mismatch_flag p prediction_id trace predictor_id =
     flag_emission
       [(''kind'', JStr ''predictor_grid_shape_mismatch''), (''agent'', JStr consensus_name),
        (''predictor_id'', JStr predictor_id), (''match_id'', JStr (pn_match_id p)),
        (''market'', JStr (pn_market p)), (''request_id'', JStr (pn_request_id p)),
        (''prediction_id'', JStr prediction_id)] trace"

section \<open>Finalisation\<close>

text \<open>
  What a call did, in order: flags it returned, a window it could not even identify, or a
  window it closed (its prediction id is marked in the ledger) with the messages or the exception.
\<close>

datatype outcome =
    Notes "emission list"
  | Failed py_error
  | Closed string "emission list res"

fun outcome_result :: "outcome \<Rightarrow> emission list res" where
  "outcome_result (Notes es) = Inr es"
| "outcome_result (Failed e) = Inl e"
| "outcome_result (Closed pid r) = r"

fun outcomes_result :: "outcome list \<Rightarrow> emission list res" where
  "outcomes_result [] = Inr []"
| "outcomes_result (x # xs) =
     res_bind (outcome_result x) (\<lambda>es. res_bind (outcomes_result xs) (\<lambda>fs. Inr (es @ fs)))"

definition vote_weights :: "(string, real) odict \<Rightarrow> predict_vote list \<Rightarrow> (string, real) odict" where
  "vote_weights weights votes =
     foldl (\<lambda>d v. od_set (pv_predictor_id v)
       (case map_of weights (pv_predictor_id v) of None \<Rightarrow> 1 | Some w \<Rightarrow> w) d) [] votes"

text \<open>Isotonic calibration of each outcome, renormalised; the raw probabilities if nothing is left.\<close>

definition calibrate :: "calibration_table \<Rightarrow> (string, real) odict \<Rightarrow> (string, real) odict res" where
  "calibrate cal raw =
     res_bind (res_map (\<lambda>(o1, p). res_bind (table_apply cal p) (\<lambda>q. Inr (o1, q))) raw) (\<lambda>calibrated.
     let z = sum_list (map snd calibrated) in
     Inr (if 0 < z then map (\<lambda>(o1, p). (o1, p / z)) calibrated else raw))"

definition degraded_reason :: "consensus \<Rightarrow> pending \<Rightarrow> string" where
  "degraded_reason s p =
     (if int (card (pn_voters p)) < cs_min_voters s
      then ''only '' @ show_int (int (card (pn_voters p))) @ ''/'' @ show_int (int (length (cs_expected s))) @
           '' predictors voted (min_voters='' @ show_int (cs_min_voters s) @ '')''
      else [])"

definition grid_json :: "real list list option \<Rightarrow> jval" where
  "grid_json g = (case g of None \<Rightarrow> JNull | Some rows \<Rightarrow> JArr (map (\<lambda>row. JArr (map JFloat row)) rows))"

definition final_payload ::
  "consensus \<Rightarrow> pending \<Rightarrow> string \<Rightarrow> calibration_table \<Rightarrow> string \<Rightarrow> (string, real) odict \<Rightarrow> real list list option \<Rightarrow> predict_final" where
  "final_payload s p prediction_id cal produced_at calibrated grid =
     \<lparr>pf_request_id = pn_request_id p, pf_prediction_id = prediction_id, pf_match_id = pn_match_id p,
      pf_market = pn_market p,
      pf_distribution = [(''market_outcomes'', JObj (map (\<lambda>(o1, q). (o1, JFloat q)) calibrated)),
        (''score_grid'', grid_json grid)],
      pf_weights = vote_weights (cs_weights s) (pn_votes p),
      pf_contributing_models = sorted_list_of_set (pn_voters p),
      pf_calibration_version = ct_version cal,
      pf_swarm_confidence = sum_list (map pv_confidence (pn_votes p)) / real (length (pn_votes p)),
      pf_degraded = (int (card (pn_voters p)) < cs_min_voters s),
      pf_degraded_reason = degraded_reason s p,
      pf_produced_at = produced_at,
      pf_league_id = pn_league_id p, pf_profile_id = resolve_profile p\<rparr>"

text \<open>The fusing half of \<open>_finalize\<close>, after the prediction has been marked.\<close>

definition fuse_window ::
  "pylib \<Rightarrow> string \<Rightarrow> string option \<Rightarrow> consensus \<Rightarrow> pending \<Rightarrow> string \<Rightarrow> emission list res" where
  "fuse_window L produced_at trace s p prediction_id =
     (if pn_votes p = [] then Inr [no_votes_flag p prediction_id trace]
      else
        res_bind (fuse_distributions L (pn_votes p) (vote_weights (cs_weights s) (pn_votes p)) (pn_market p)) (\<lambda>raw.
        res_bind (case pn_calibration_table p of
            Some cal \<Rightarrow> Inr cal
          | None \<Rightarrow> calibration_latest (cs_calibration s) (resolve_profile p) (pn_market p)) (\<lambda>cal.
        res_bind (calibrate cal raw) (\<lambda>calibrated.
        res_bind (fuse_score_grids L (pn_votes p)) (\<lambda>(grid, mismatches).
        res_bind (predict_final_check (final_payload s p prediction_id cal produced_at calibrated grid)) (\<lambda>final.
        Inr (\<lparr>em_topic = predict_final_topic, em_payload = predict_final_as_dict final,
               em_producer = consensus_name, em_trace = Some (case trace of None \<Rightarrow> [] | Some t \<Rightarrow> t)\<rparr>
             # map (mismatch_flag p prediction_id trace) (sorted_list_of_set (set mismatches)))))))))"

text \<open>
  \<open>_finalize\<close>: identify, ask the ledger, mark, fuse. \<open>stamp\<close> is the wall clock's reading when a
  prediction is published.
\<close>

definition finalize ::
  "pylib \<Rightarrow> (string \<Rightarrow> string) \<Rightarrow> (string \<Rightarrow> string) \<Rightarrow> string option \<Rightarrow> pending \<Rightarrow> consensus \<Rightarrow> outcome \<times> consensus" where
  "finalize L H stamp trace p s =
     (case resolve_prediction H (cs_calibration s) p of
        Inl e \<Rightarrow> (Failed e, s)
      | Inr q \<Rightarrow>
          let prediction_id = the (pn_prediction_id q) in
          if already_processed (cs_ledger s) (consensus_name, prediction_id) then (Notes [], s)
          else
            (Closed prediction_id (fuse_window L (stamp prediction_id) trace s q prediction_id),
             s\<lparr>cs_ledger := mark_processed (cs_ledger s) (consensus_name, prediction_id)\<rparr>))"

text \<open>The loop of the flushes: the first exception ends it, and the windows after it are gone.\<close>

fun finalize_all ::
  "pylib \<Rightarrow> (string \<Rightarrow> string) \<Rightarrow> (string \<Rightarrow> string) \<Rightarrow> pending list \<Rightarrow> consensus \<Rightarrow> outcome list \<times> consensus" where
  "finalize_all L H stamp [] s = ([], s)"
| "finalize_all L H stamp (p # ps) s =
     (let (x, s1) = finalize L H stamp None p s in
      case outcome_result x of
        Inl e \<Rightarrow> ([x], s1)
      | Inr es \<Rightarrow> (let (xs, s2) = finalize_all L H stamp ps s1 in (x # xs, s2)))"

definition window_over :: "consensus \<Rightarrow> real \<Rightarrow> pending \<Rightarrow> bool" where
  "window_over s now p \<longleftrightarrow> cs_window_ms s \<le> now - pn_first_seen_ms p"

definition flush_expired ::
  "pylib \<Rightarrow> (string \<Rightarrow> string) \<Rightarrow> (string \<Rightarrow> string) \<Rightarrow> real \<Rightarrow> consensus \<Rightarrow> outcome list \<times> consensus" where
  "flush_expired L H stamp now s =
     finalize_all L H stamp (filter (window_over s now) (map snd (cs_pending s)))
       (s\<lparr>cs_pending := filter (\<lambda>kp. \<not> window_over s now (snd kp)) (cs_pending s)\<rparr>)"

definition flush_all ::
  "pylib \<Rightarrow> (string \<Rightarrow> string) \<Rightarrow> (string \<Rightarrow> string) \<Rightarrow> consensus \<Rightarrow> outcome list \<times> consensus" where
  "flush_all L H stamp s = finalize_all L H stamp (map snd (cs_pending s)) (s\<lparr>cs_pending := []\<rparr>)"

section \<open>Messages\<close>

definition note_request :: "real \<Rightarrow> predict_request \<Rightarrow> consensus \<Rightarrow> consensus" where
  "note_request now req s =
     (let key = (rq_match_id req, rq_market req, rq_request_id req) in
      if map_of (cs_pending s) key \<noteq> None then s
      else s\<lparr>cs_pending := od_set key
        (new_pending (rq_match_id req) (rq_market req) (rq_request_id req) (rq_league_id req) (rq_profile_id req) now)
        (cs_pending s)\<rparr>)"

text \<open>The overflow branch: evict the oldest window, and flag it unless a flag was raised recently.\<close>

definition evict_oldest :: "real \<Rightarrow> string \<Rightarrow> consensus \<Rightarrow> (emission list \<times> consensus) res" where
  "evict_oldest now trace s =
     (if int (length (cs_pending s)) < cs_max_pending s then Inr ([], s)
      else case cs_pending s of
        [] \<Rightarrow> Inl StopIteration
      | (k, evicted) # rest \<Rightarrow>
          let suppress = 0 < cs_overflow_interval_ms s \<and>
            (case cs_overflow_last s of None \<Rightarrow> False | Some t \<Rightarrow> now - t < cs_overflow_interval_ms s) in
          Inr (if suppress then [] else [overflow_flag (cs_max_pending s) evicted trace],
            s\<lparr>cs_pending := rest,
              cs_overflow_last := if suppress then cs_overflow_last s else Some now\<rparr>))"

text \<open>Finding or opening the window of a vote.\<close>

definition adopt_profile :: "predict_vote \<Rightarrow> pending \<Rightarrow> pending" where
  "adopt_profile vote p =
     (if pn_profile_id p = JNull \<and> pv_profile_id vote \<noteq> JNull
      then p\<lparr>pn_profile_id := pv_profile_id vote, pn_league_id := py_or (pn_league_id p) (pv_league_id vote)\<rparr>
      else p)"

definition vote_key :: "predict_vote \<Rightarrow> fusion_key" where
  "vote_key vote = (pv_match_id vote, pv_market vote, pv_request_id vote)"

definition open_window ::
  "real \<Rightarrow> real \<Rightarrow> string \<Rightarrow> predict_vote \<Rightarrow> consensus \<Rightarrow> (emission list \<times> pending \<times> consensus) res" where
  "open_window overflow_now now trace vote s =
     (case map_of (cs_pending s) (vote_key vote) of
        Some p \<Rightarrow> Inr ([], adopt_profile vote p, s)
      | None \<Rightarrow>
          res_bind (evict_oldest overflow_now trace s) (\<lambda>(flags, s1).
          Inr (flags, new_pending (pv_match_id vote) (pv_market vote) (pv_request_id vote)
            (pv_league_id vote) (pv_profile_id vote) now, s1)))"

text \<open>A re-vote replaces the predictor's first vote in place.\<close>

fun replace_vote :: "predict_vote \<Rightarrow> predict_vote list \<Rightarrow> predict_vote list" where
  "replace_vote vote [] = []"
| "replace_vote vote (v # vs) =
     (if pv_predictor_id v = pv_predictor_id vote then vote # vs else v # replace_vote vote vs)"

definition cast_vote :: "predict_vote \<Rightarrow> pending \<Rightarrow> pending" where
  "cast_vote vote p =
     (if pv_predictor_id vote \<in> pn_voters p then p\<lparr>pn_votes := replace_vote vote (pn_votes p)\<rparr>
      else p\<lparr>pn_votes := pn_votes p @ [vote], pn_voters := insert (pv_predictor_id vote) (pn_voters p)\<rparr>)"

text \<open>What a handler reads from the clocks: at an eviction, at a new window, and when publishing.\<close>

record consensus_clock =
  cc_overflow_ms :: real
  cc_now_ms :: real
  cc_stamp :: "string \<Rightarrow> string"

definition handle_vote ::
  "pylib \<Rightarrow> (string \<Rightarrow> string) \<Rightarrow> consensus_clock \<Rightarrow> string \<Rightarrow> predict_vote \<Rightarrow> consensus \<Rightarrow> outcome list \<times> consensus" where
  "handle_vote L H clock trace vote s =
     (if pv_confidence vote < cs_min_confidence s then ([], s)
      else
        let key = vote_key vote in
        case open_window (cc_overflow_ms clock) (cc_now_ms clock) trace vote s of
          Inl e \<Rightarrow> ([Failed e], s)
        | Inr (flags, p, s1) \<Rightarrow>
            (case resolve_prediction H (cs_calibration s1) p of
               Inl e \<Rightarrow> ([Failed e], s1\<lparr>cs_pending := od_set key p (cs_pending s1)\<rparr>)
             | Inr q \<Rightarrow>
                 let prediction_id = the (pn_prediction_id q) in
                 if already_processed (cs_ledger s1) (consensus_name, prediction_id)
                 then ([Notes (flags @ [late_vote_flag vote prediction_id trace])],
                       s1\<lparr>cs_pending := od_del key (cs_pending s1)\<rparr>)
                 else
                   let p1 = cast_vote vote q in
                   if \<not> set (cs_expected s1) \<subseteq> pn_voters p1
                   then ([Notes flags], s1\<lparr>cs_pending := od_set key p1 (cs_pending s1)\<rparr>)
                   else
                     let (x, s2) = finalize L H (cc_stamp clock) (Some trace) p1
                       (s1\<lparr>cs_pending := od_del key (cs_pending s1)\<rparr>) in
                     ([Notes flags, x], s2)))"

definition consensus_handle ::
  "pylib \<Rightarrow> (string \<Rightarrow> string) \<Rightarrow> consensus_clock \<Rightarrow> message \<Rightarrow> consensus \<Rightarrow> outcome list \<times> consensus" where
  "consensus_handle L H clock msg s =
     (if en_topic (msg_envelope msg) = ''predict.request'' then
        (case predict_request_from_dict L (msg_payload msg) of
           Inl e \<Rightarrow> (if e \<in> {KeyError, TypeError, ValueError} then [] else [Failed e], s)
         | Inr req \<Rightarrow> ([], note_request (cc_now_ms clock) req s))
      else
        (case predict_vote_from_dict L (msg_payload msg) of
           Inl e \<Rightarrow> (if e \<in> {KeyError, TypeError, ValueError} then [] else [Failed e], s)
         | Inr vote \<Rightarrow> handle_vote L H clock (en_trace_id (msg_envelope msg)) vote s))"

section \<open>Each prediction is published once\<close>

datatype consensus_input =
    Deliver consensus_clock message
  | Flush_Expired "string \<Rightarrow> string" real
  | Flush_All "string \<Rightarrow> string"
  | Recalibrate mem_calibration

definition consensus_step ::
  "pylib \<Rightarrow> (string \<Rightarrow> string) \<Rightarrow> consensus \<Rightarrow> consensus_input \<Rightarrow> outcome list \<times> consensus" where
  "consensus_step L H s i = (case i of
     Deliver clock msg \<Rightarrow> consensus_handle L H clock msg s
   | Flush_Expired stamp now \<Rightarrow> flush_expired L H stamp now s
   | Flush_All stamp \<Rightarrow> flush_all L H stamp s
   | Recalibrate store \<Rightarrow> ([], s\<lparr>cs_calibration := store\<rparr>))"

fun outcome_key :: "outcome \<Rightarrow> ledger_key option" where
  "outcome_key (Closed pid r) = Some (consensus_name, pid)"
| "outcome_key _ = None"

abbreviation cs_claims :: "consensus \<Rightarrow> outcome list \<Rightarrow> consensus \<Rightarrow> bool" where
  "cs_claims s out s' \<equiv>
     claims already_processed mark_processed (cs_ledger s) (List.map_filter outcome_key out) (cs_ledger s')"

lemma finalize_claims: "finalize L H stamp trace p s = (x, s') \<Longrightarrow> cs_claims s [x] s'"
  by (auto simp: finalize_def Let_def map_filter_def split: sum.splits if_splits)

lemma cs_claims_Cons: "cs_claims s [x] s1 \<Longrightarrow> cs_claims s1 xs s2 \<Longrightarrow> cs_claims s (x # xs) s2"
  by (auto simp: map_filter_def claims_append split: option.splits)

lemma finalize_all_claims: "finalize_all L H stamp ps s = (xs, s') \<Longrightarrow> cs_claims s xs s'"
proof (induction ps arbitrary: s xs s')
  case Nil
  then show ?case by (simp add: map_filter_def)
next
  case (Cons p ps)
  obtain x s1 where 1: "finalize L H stamp None p s = (x, s1)" by force
  show ?case
  proof (cases "outcome_result x")
    case (Inl e)
    with Cons.prems 1 finalize_claims [OF 1] show ?thesis by simp
  next
    case (Inr es)
    obtain ys s2 where 2: "finalize_all L H stamp ps s1 = (ys, s2)" by force
    have "xs = x # ys" "s' = s2" using Cons.prems by (simp_all add: 1 2 Inr)
    then show ?thesis using cs_claims_Cons [OF finalize_claims [OF 1] Cons.IH [OF 2]] by simp
  qed
qed

lemma evict_oldest_frame:
  "evict_oldest now trace s = Inr (flags, s') \<Longrightarrow>
    cs_ledger s' = cs_ledger s \<and> cs_calibration s' = cs_calibration s \<and> cs_expected s' = cs_expected s \<and>
    cs_weights s' = cs_weights s \<and> cs_max_pending s' = cs_max_pending s \<and> cs_min_voters s' = cs_min_voters s"
  by (auto simp: evict_oldest_def Let_def split: if_splits list.splits prod.splits)

lemma open_window_frame:
  "open_window t1 t2 trace vote s = Inr (flags, p, s') \<Longrightarrow>
    cs_ledger s' = cs_ledger s \<and> cs_calibration s' = cs_calibration s \<and> cs_expected s' = cs_expected s \<and>
    cs_weights s' = cs_weights s \<and> cs_max_pending s' = cs_max_pending s \<and> cs_min_voters s' = cs_min_voters s"
  by (auto simp: open_window_def res_iffs split: option.splits dest: evict_oldest_frame)

lemma handle_vote_claims:
  assumes "handle_vote L H clock trace vote s = (out, s')"
  shows "cs_claims s out s'"
proof (cases "pv_confidence vote < cs_min_confidence s")
  case True
  with assms show ?thesis by (simp add: handle_vote_def map_filter_def)
next
  case False
  show ?thesis
  proof (cases "open_window (cc_overflow_ms clock) (cc_now_ms clock) trace vote s")
    case (Inl e)
    with assms False show ?thesis by (auto simp: handle_vote_def map_filter_def Let_def)
  next
    case (Inr fps)
    obtain flags p s1 where fps: "fps = (flags, p, s1)" by (cases fps)
    note frame = open_window_frame [OF Inr [unfolded fps]]
    have quiet: "cs_claims s [Notes es] t" "cs_claims s [Failed e] t" if "cs_ledger t = cs_ledger s" for t es e
      using that by (simp_all add: map_filter_def)
    show ?thesis
    proof (cases "resolve_prediction H (cs_calibration s1) p")
      case (Inl e)
      with assms False Inr fps frame show ?thesis
        by (auto simp: handle_vote_def Let_def intro!: quiet)
    next
      case r: (Inr q)
      let ?key = "vote_key vote" and ?id = "the (pn_prediction_id q)" and ?p1 = "cast_vote vote q"
      obtain x s2 where f: "finalize L H (cc_stamp clock) (Some trace) ?p1 (s1\<lparr>cs_pending := od_del ?key (cs_pending s1)\<rparr>) = (x, s2)"
        by force
      have "cs_claims s [Notes flags, x] s2"
        using finalize_claims [OF f] frame by (simp add: map_filter_def)
      then show ?thesis
        using assms False Inr fps r frame f
        by (auto simp: handle_vote_def Let_def split: if_splits intro!: quiet)
    qed
  qed
qed

lemma consensus_step_claims: "consensus_step L H s i = (out, s') \<Longrightarrow> cs_claims s out s'"
proof (cases i)
  case (Deliver clock msg)
  moreover assume "consensus_step L H s i = (out, s')"
  ultimately show ?thesis
    by (auto simp: consensus_step_def consensus_handle_def note_request_def map_filter_def Let_def
        dest!: handle_vote_claims split: if_splits sum.splits)
qed (auto simp: consensus_step_def flush_expired_def flush_all_def map_filter_def dest!: finalize_all_claims)

interpretation consensus: single_publication already_processed mark_processed ledger_room ledger_ok
  "consensus_step L H" cs_ledger outcome_key "\<lambda>_. True" for L H
  by unfold_locales (auto dest: consensus_step_claims)

text \<open>The prediction ids of the \<open>predict.final\<close> messages among what was done.\<close>

fun outcome_emissions :: "outcome \<Rightarrow> emission list" where
  "outcome_emissions (Notes es) = es"
| "outcome_emissions (Failed e) = []"
| "outcome_emissions (Closed pid r) = (case r of Inl e \<Rightarrow> [] | Inr es \<Rightarrow> es)"

definition final_ids :: "outcome \<Rightarrow> jval list" where
  "final_ids x = map (\<lambda>e. jget_or (em_payload e) ''prediction_id'' JNull)
     (filter (\<lambda>e. em_topic e = predict_final_topic) (outcome_emissions x))"

text \<open>An outcome publishes at most one final, and only for the prediction it closed.\<close>

definition outcome_ok :: "outcome \<Rightarrow> bool" where
  "outcome_ok x \<longleftrightarrow> (case x of
     Closed pid r \<Rightarrow> final_ids x = [] \<or> final_ids x = [JStr pid]
   | _ \<Rightarrow> final_ids x = [])"

lemma topics_differ [simp]: "proof_flag_topic \<noteq> predict_final_topic"
  by (simp add: proof_flag_topic_def predict_final_topic_def)

lemma flags_no_final [simp]: "em_topic (flag_emission d t) = proof_flag_topic"
  by (simp add: flag_emission_def)

lemma filter_no_final [simp]:
  "filter (\<lambda>e. em_topic e = predict_final_topic) (map (mismatch_flag p pid trace) ids) = []"
  by (simp add: mismatch_flag_def filter_empty_conv)

lemma predict_final_check_eq: "predict_final_check p = Inr q \<Longrightarrow> q = p"
  by (auto simp: predict_final_check_def res_iffs)

lemma final_payload_id:
  "jget_or (predict_final_as_dict (final_payload s p pid cal ts c g)) ''prediction_id'' JNull = JStr pid"
  by (simp add: predict_final_as_dict_def final_payload_def jget_or_def)

text \<open>What a window that is fused without an exception publishes.\<close>

definition final_emission :: "predict_final \<Rightarrow> string option \<Rightarrow> emission" where
  "final_emission final trace =
     \<lparr>em_topic = predict_final_topic, em_payload = predict_final_as_dict final,
      em_producer = consensus_name, em_trace = Some (case trace of None \<Rightarrow> [] | Some t \<Rightarrow> t)\<rparr>"

lemma fuse_window_published:
  assumes "fuse_window L ts trace s p pid = Inr es" "pn_votes p \<noteq> []"
  shows "\<exists>raw cal calibrated grid bad final.
    fuse_distributions L (pn_votes p) (vote_weights (cs_weights s) (pn_votes p)) (pn_market p) = Inr raw \<and>
    (pn_calibration_table p = None \<longrightarrow> calibration_latest (cs_calibration s) (resolve_profile p) (pn_market p) = Inr cal) \<and>
    (\<forall>t. pn_calibration_table p = Some t \<longrightarrow> cal = t) \<and>
    calibrate cal raw = Inr calibrated \<and> fuse_score_grids L (pn_votes p) = Inr (grid, bad) \<and>
    final = final_payload s p pid cal ts calibrated grid \<and> predict_final_check final = Inr final \<and>
    es = final_emission final trace # map (mismatch_flag p pid trace) (sorted_list_of_set (set bad))"
proof -
  from assms obtain raw cal calibrated grid bad final where
    1: "fuse_distributions L (pn_votes p) (vote_weights (cs_weights s) (pn_votes p)) (pn_market p) = Inr raw"
    and 2: "(case pn_calibration_table p of Some t \<Rightarrow> Inr t
        | None \<Rightarrow> calibration_latest (cs_calibration s) (resolve_profile p) (pn_market p)) = Inr cal"
    and 3: "calibrate cal raw = Inr calibrated" "fuse_score_grids L (pn_votes p) = Inr (grid, bad)"
    and 4: "predict_final_check (final_payload s p pid cal ts calibrated grid) = Inr final"
    and 5: "es = final_emission final trace # map (mismatch_flag p pid trace) (sorted_list_of_set (set bad))"
    by (auto simp: fuse_window_def res_iffs final_emission_def)
  show ?thesis
    by (intro exI conjI, rule 1) (use 2 3 4 5 predict_final_check_eq [OF 4] in \<open>auto split: option.splits\<close>)
qed

lemma final_ids_published:
  "final_ids (Closed pid (Inr (final_emission (final_payload s p i cal ts c g) trace # map (mismatch_flag p pid trace) ids))) = [JStr i]"
  by (simp add: final_ids_def final_emission_def final_payload_id)

lemma fuse_window_ok: "outcome_ok (Closed pid (fuse_window L ts trace s p pid))"
proof (cases "fuse_window L ts trace s p pid")
  case (Inl e)
  then show ?thesis by (simp add: outcome_ok_def final_ids_def)
next
  case (Inr es)
  show ?thesis
  proof (cases "pn_votes p = []")
    case True
    with Inr show ?thesis
      by (auto simp: outcome_ok_def final_ids_def fuse_window_def no_votes_flag_def)
  next
    case False
    from fuse_window_published [OF Inr False] Inr show ?thesis
      by (auto simp: outcome_ok_def final_ids_published)
  qed
qed

lemma finalize_ok: "finalize L H stamp trace p s = (x, s') \<Longrightarrow> outcome_ok x"
  using fuse_window_ok
  by (auto simp: finalize_def Let_def split: sum.splits if_splits) (simp_all add: outcome_ok_def final_ids_def)

lemma finalize_all_ok: "finalize_all L H stamp ps s = (xs, s') \<Longrightarrow> list_all outcome_ok xs"
  by (induction ps arbitrary: s xs s') (auto split: prod.splits sum.splits dest: finalize_ok)

lemma evict_oldest_ok:
  "evict_oldest now trace s = Inr (flags, s') \<Longrightarrow> \<forall>e \<in> set flags. em_topic e = proof_flag_topic"
  by (auto simp: evict_oldest_def Let_def overflow_flag_def split: if_splits list.splits prod.splits)

lemma open_window_ok:
  "open_window t1 t2 trace vote s = Inr (flags, p, s') \<Longrightarrow> \<forall>e \<in> set flags. em_topic e = proof_flag_topic"
  by (auto simp: open_window_def res_iffs split: option.splits dest: evict_oldest_ok)

lemma notes_ok: "\<forall>e \<in> set es. em_topic e = proof_flag_topic \<Longrightarrow> outcome_ok (Notes es)"
  by (auto simp: outcome_ok_def final_ids_def filter_empty_conv)

lemma failed_ok [simp]: "outcome_ok (Failed e)"
  by (simp add: outcome_ok_def final_ids_def)

lemma handle_vote_ok:
  assumes "handle_vote L H clock trace vote s = (out, s')"
  shows "list_all outcome_ok out"
proof (cases "pv_confidence vote < cs_min_confidence s")
  case True
  with assms show ?thesis by (simp add: handle_vote_def)
next
  case False
  show ?thesis
  proof (cases "open_window (cc_overflow_ms clock) (cc_now_ms clock) trace vote s")
    case (Inl e)
    with assms False show ?thesis by (auto simp: handle_vote_def Let_def)
  next
    case (Inr fps)
    obtain flags p s1 where fps: "fps = (flags, p, s1)" by (cases fps)
    note flags = open_window_ok [OF Inr [unfolded fps]]
    have late: "outcome_ok (Notes (flags @ [late_vote_flag vote pid trace]))" for pid
      using flags by (intro notes_ok) (auto simp: late_vote_flag_def)
    show ?thesis
      using assms False Inr fps notes_ok [OF flags] late
      by (auto simp: handle_vote_def Let_def split: sum.splits if_splits prod.splits dest: finalize_ok)
  qed
qed

lemma consensus_step_ok: "consensus_step L H s i = (out, s') \<Longrightarrow> list_all outcome_ok out"
  by (auto simp: consensus_step_def consensus_handle_def flush_expired_def flush_all_def
      split: consensus_input.splits if_splits sum.splits dest: handle_vote_ok finalize_all_ok)

lemma consensus_run_ok: "run_agent (consensus_step L H) s is = (outs, s') \<Longrightarrow> list_all outcome_ok outs"
  by (induction "is" arbitrary: s outs s') (auto split: prod.splits dest: consensus_step_ok)

lemma final_ids_distinct:
  assumes "list_all outcome_ok xs" "distinct (List.map_filter outcome_key xs)"
  shows "distinct (concat (map final_ids xs)) \<and>
    set (concat (map final_ids xs)) \<subseteq> (\<lambda>k. JStr (snd k)) ` set (List.map_filter outcome_key xs)"
  using assms
proof (induction xs)
  case Nil
  then show ?case by simp
next
  case (Cons x xs)
  show ?case
  proof (cases "\<exists>pid r. x = Closed pid r \<and> final_ids x = [JStr pid]")
    case True
    then obtain pid r where x: "x = Closed pid r" "final_ids x = [JStr pid]" by blast
    have fresh: "(consensus_name, pid) \<notin> set (List.map_filter outcome_key xs)"
      and IH: "distinct (concat (map final_ids xs))"
      "set (concat (map final_ids xs)) \<subseteq> (\<lambda>k. JStr (snd k)) ` set (List.map_filter outcome_key xs)"
      using Cons x by (auto simp: map_filter_simps)
    have "fst k = consensus_name" if "k \<in> set (List.map_filter outcome_key xs)" for k
      using that by (auto simp: map_filter_def elim!: outcome_key.elims)
    with fresh have "JStr pid \<notin> (\<lambda>k. JStr (snd k)) ` set (List.map_filter outcome_key xs)"
      by (metis (mono_tags, lifting) imageE jval.inject(4) prod.collapse)
    with IH show ?thesis by (auto simp: x(1) x(2) [unfolded x(1)] map_filter_simps)
  next
    case False
    then have "final_ids x = []" using Cons.prems(1) by (cases x) (auto simp: outcome_ok_def)
    with Cons show ?thesis by (cases x) (auto simp: map_filter_simps)
  qed
qed


section \<open>What a window publishes\<close>

lemma calibrate_pmf:
  assumes "is_pmf market raw" "table_ok cal" "\<forall>y \<in> set (ct_y cal). 0 \<le> y"
  shows "\<exists>ds. calibrate cal raw = Inr ds \<and> is_pmf market ds"
proof -
  define f where "f p = (if ct_x cal = [] then p else ct_y cal ! table_step cal p)" for p
  have ap: "table_apply cal p = Inr (f p)" for p
    using table_apply_step [OF assms(2)] by (auto simp: f_def table_apply_def)
  have f_nonneg: "0 \<le> f p" if "0 \<le> p" for p
    using table_apply_step [OF assms(2), of p] assms(2,3) that
    by (auto simp: f_def table_ok_def)
  let ?cs = "map (\<lambda>(o1, p). (o1, f p)) raw" and ?z = "sum_list (map (\<lambda>kp. f (snd kp)) raw)"
  have raw: "map fst raw = market_outcomes market" "\<forall>p \<in> set (map snd raw). 0 \<le> p"
    using assms(1) by (auto simp: is_pmf_def list_all_iff)
  have cal: "calibrate cal raw = Inr (if 0 < ?z then map (\<lambda>(o1, p). (o1, p / ?z)) ?cs else raw)"
    by (simp add: calibrate_def ap case_prod_unfold o_def Let_def)
  show ?thesis
  proof (cases "0 < ?z")
    case True
    have "is_pmf market (map (\<lambda>(o1, p). (o1, p / ?z)) ?cs)"
    proof (rule is_pmfI)
      show "sum_list (map snd (map (\<lambda>(o1, p). (o1, p / ?z)) ?cs)) = 1"
        using True by (simp add: case_prod_unfold o_def sum_list_map_divide)
    qed (use raw True f_nonneg in \<open>auto simp: case_prod_unfold o_def\<close>)
    with cal True show ?thesis by auto
  next
    case False
    with cal assms(1) show ?thesis by auto
  qed
qed

lemma fuse_window_succeeds:
  assumes "pn_votes p \<noteq> []" "pn_market p \<in> set allowed_markets"
    and "fusible L (vote_weights (cs_weights s) (pn_votes p)) (pn_votes p) (pn_market p)"
    and "fuse_score_grids L (pn_votes p) = Inr (grid, bad)"
    and "pn_calibration_table p = Some cal" "table_ok cal" "\<forall>y \<in> set (ct_y cal). 0 \<le> y"
  shows "\<exists>ds. is_pmf (pn_market p) ds \<and>
    fuse_window L ts trace s p pid = Inr (final_emission (final_payload s p pid cal ts ds grid) trace
      # map (mismatch_flag p pid trace) (sorted_list_of_set (set bad))) \<and>
    predict_final_check (final_payload s p pid cal ts ds grid) = Inr (final_payload s p pid cal ts ds grid)"
proof -
  from fuse_distributions_pmf [OF assms(3)] obtain raw where
    1: "fuse_distributions L (pn_votes p) (vote_weights (cs_weights s) (pn_votes p)) (pn_market p) = Inr raw" "is_pmf (pn_market p) raw"
    by blast
  from calibrate_pmf [OF 1(2) assms(6,7)] obtain ds where 2: "calibrate cal raw = Inr ds" "is_pmf (pn_market p) ds" by blast
  have 3: "predict_final_check (final_payload s p pid cal ts ds grid) = Inr (final_payload s p pid cal ts ds grid)"
    using assms(2) by (simp add: predict_final_check_def final_payload_def)
  show ?thesis
    using assms(1,4,5) 1 2 3 by (intro exI [of _ ds]) (simp add: fuse_window_def final_emission_def)
qed

text \<open>
  C11: a window with votes that fuse always publishes a valid candidate. Fusing raises nothing;
  its first message is one \<open>predict.final\<close> that every consumer decodes, for the window's match, market and
  request, under the id it was closed with; its outcome probabilities are the market's, lie between zero and one and sum to
  one; it names every voter once in order, is marked degraded exactly when too few voted and says why
  exactly then; and the rest are one flag per predictor whose grid diverged.
\<close>

theorem consensus_final_sound:
  assumes "pn_votes p \<noteq> []" "pn_market p \<in> set allowed_markets" "finite (pn_voters p)"
    and "fusible L (vote_weights (cs_weights s) (pn_votes p)) (pn_votes p) (pn_market p)"
    and "fuse_score_grids L (pn_votes p) = Inr (grid, bad)"
    and "pn_calibration_table p = Some cal" "table_ok cal" "\<forall>y \<in> set (ct_y cal). 0 \<le> y"
  shows "\<exists>e flags final ds. fuse_window L ts trace s p pid = Inr (e # flags) \<and>
    em_topic e = predict_final_topic \<and> predict_final_from_dict M (em_payload e) = Inr final \<and>
    pf_prediction_id final = pid \<and> pf_match_id final = pn_match_id p \<and> pf_market final = pn_market p \<and>
    pf_request_id final = pn_request_id p \<and> pf_calibration_version final = ct_version cal \<and>
    map_of (pf_distribution final) ''market_outcomes'' = Some (JObj (map (\<lambda>(o1, q). (o1, JFloat q)) ds)) \<and>
    is_pmf (pn_market p) ds \<and>
    set (pf_contributing_models final) = pn_voters p \<and> sorted_wrt (<) (pf_contributing_models final) \<and>
    pf_degraded final = (int (card (pn_voters p)) < cs_min_voters s) \<and>
    (pf_degraded_reason final \<noteq> [] \<longleftrightarrow> pf_degraded final) \<and>
    length flags = card (set bad)"
proof -
  from fuse_window_succeeds [OF assms(1,2,4-8), of ts trace pid] obtain ds where
    ds: "is_pmf (pn_market p) ds"
    and w: "fuse_window L ts trace s p pid = Inr (final_emission (final_payload s p pid cal ts ds grid) trace
      # map (mismatch_flag p pid trace) (sorted_list_of_set (set bad)))"
    and check: "predict_final_check (final_payload s p pid cal ts ds grid) = Inr (final_payload s p pid cal ts ds grid)"
    by blast
  show ?thesis
    using ds assms(3) predict_final_wire [OF check, of M]
    by (intro exI [of _ "final_emission (final_payload s p pid cal ts ds grid) trace"]
          exI [of _ "map (mismatch_flag p pid trace) (sorted_list_of_set (set bad))"]
          exI [of _ "final_payload s p pid cal ts ds grid"] exI [of _ ds])
      (simp add: w, simp add: final_emission_def final_payload_def degraded_reason_def)
qed

definition example_pending :: pending where
  "example_pending = (new_pending ''m1'' ''btts'' ''r1'' JNull JNull 0)
     \<lparr>pn_votes := [example_vote ''a'' (1 / 4), example_vote ''b'' (3 / 4)], pn_voters := {''a'', ''b''},
      pn_prediction_id := Some ''p1'', pn_calibration_table := Some (empty_table (JStr ''default'') ''btts'')\<rparr>"

definition example_consensus :: consensus where
  "example_consensus = \<lparr>cs_expected = [''a'', ''b'', ''c''], cs_ledger = \<lparr>ml_max_size = 4, ml_seen = []\<rparr>,
     cs_calibration = [], cs_weights = [(''b'', 3)], cs_window_ms = 100, cs_min_voters = 3, cs_min_confidence = 0,
     cs_max_pending = 1, cs_overflow_interval_ms = 1000, cs_overflow_last = None,
     cs_pending = [((''m1'', ''btts'', ''r1''), example_pending)]\<rparr>"

lemma example_weights: "vote_weights (cs_weights example_consensus) (pn_votes example_pending) = [(''a'', 1), (''b'', 3)]"
  by (simp add: vote_weights_def example_consensus_def example_pending_def example_vote_def)

lemma example_fusible:
  "fusible L [(''a'', 1), (''b'', 3)] [example_vote ''a'' (1 / 4), example_vote ''b'' (3 / 4)] ''btts''"
proof -
  have w: "weight_of [(''a'', 1), (''b'', 3)] (example_vote ''a'' p) = 1"
    "weight_of [(''a'', 1), (''b'', 3)] (example_vote ''b'' p) = 3" for p
    by (simp_all add: weight_of_def example_vote_def)
  show ?thesis
    by (simp add: fusible_def readable_def market_outcomes_def voting_def w prob_def example_vote_probs weighted_sum_def)
qed

lemma example_grids: "fuse_score_grids L [example_vote a p, example_vote b q] = Inr (None, [])"
  by (simp add: fuse_score_grids_def usable_grid_def example_vote_def jget_or_def)

theorem consensus_final_sound_witness:
  "\<exists>e final. fuse_window example_lib ''t'' None example_consensus example_pending ''p1'' = Inr [e] \<and>
     predict_final_from_dict example_lib (em_payload e) = Inr final \<and> pf_degraded final \<and> pf_degraded_reason final \<noteq> []"
proof -
  have votes: "pn_votes example_pending = [example_vote ''a'' (1 / 4), example_vote ''b'' (3 / 4)]"
    "pn_market example_pending = ''btts''" "pn_voters example_pending = {''a'', ''b''}"
    "pn_calibration_table example_pending = Some (empty_table (JStr ''default'') ''btts'')"
    by (simp_all add: example_pending_def new_pending_def)
  have 1: "pn_votes example_pending \<noteq> []" "pn_market example_pending \<in> set allowed_markets" "finite (pn_voters example_pending)"
    by (simp_all add: votes allowed_markets_def)
  have 2: "fusible example_lib (vote_weights (cs_weights example_consensus) (pn_votes example_pending))
      (pn_votes example_pending) (pn_market example_pending)"
    "fuse_score_grids example_lib (pn_votes example_pending) = Inr (None, [])"
    unfolding example_weights unfolding votes by (rule example_fusible, rule example_grids)
  have 3: "table_ok (empty_table q m)" "\<forall>y \<in> set (ct_y (empty_table q m)). 0 \<le> y" for q m
    by (simp_all add: table_ok_def empty_table_def)
  show ?thesis
    using consensus_final_sound [OF 1 2 votes(4) 3, of "''t''" None "''p1''" example_lib]
    by (auto simp: votes example_consensus_def)
qed

section \<open>Flushing\<close>

lemma finalize_pending [simp]: "finalize L H stamp trace p s = (x, s') \<Longrightarrow> cs_pending s' = cs_pending s"
  by (auto simp: finalize_def Let_def split: sum.splits if_splits)

lemma finalize_calibration: "finalize L H stamp trace p s = (x, s') \<Longrightarrow> cs_calibration s' = cs_calibration s"
  by (auto simp: finalize_def Let_def split: sum.splits if_splits)

lemma finalize_all_pending: "finalize_all L H stamp ps s = (xs, s') \<Longrightarrow> cs_pending s' = cs_pending s"
  by (induction ps arbitrary: s xs s') (auto split: prod.splits sum.splits)

lemma finalize_seen_only:
  assumes "ledger_ok (cs_ledger s)" "finalize L H stamp trace p s = (x, s')"
  shows "ledger_ok (cs_ledger s') \<and>
    (already_processed (cs_ledger s') k \<longrightarrow> already_processed (cs_ledger s) k \<or> outcome_key x = Some k)"
proof -
  have only: "k = j \<or> already_processed (cs_ledger s) k" if "already_processed (mark_processed (cs_ledger s) j) k" for j
    by (rule mem.seen_only [OF assms(1) that])
  show ?thesis
    using assms mem.ok_mark [OF assms(1)]
    by (auto simp: finalize_def Let_def split: sum.splits if_splits simp del: split_paired_All dest: only)
qed

lemma finalize_answers:
  assumes "finalize L H stamp trace p s = (x, s')" "outcome_result x = Inr es"
  shows "\<exists>q pid. resolve_prediction H (cs_calibration s) p = Inr q \<and> pn_prediction_id q = Some pid \<and>
    (already_processed (cs_ledger s) (consensus_name, pid) \<or>
     x = Closed pid (Inr es) \<and> fuse_window L (stamp pid) trace s q pid = Inr es)"
proof -
  have "pn_prediction_id q \<noteq> None" if "resolve_prediction H (cs_calibration s) p = Inr q" for q
    using that by (auto simp: resolve_prediction_def res_iffs split: option.splits)
  with assms show ?thesis
    by (fastforce simp: finalize_def Let_def split: sum.splits if_splits)
qed

lemma finalize_answers_nonempty:
  assumes "finalize L H stamp trace p s = (x, s')" "outcome_result x = Inr es" "x = Closed pid r"
  shows "es \<noteq> []"
  using assms fuse_window_published
  by (auto simp: finalize_def Let_def fuse_window_def res_iffs split: sum.splits if_splits)

text \<open>The prediction id a window stands for, once its calibration is resolved.\<close>

definition window_id :: "(string \<Rightarrow> string) \<Rightarrow> mem_calibration \<Rightarrow> pending \<Rightarrow> string option" where
  "window_id H store p = (case resolve_prediction H store p of Inl e \<Rightarrow> None | Inr q \<Rightarrow> pn_prediction_id q)"

lemma finalize_all_answers:
  assumes "ledger_ok (cs_ledger s)" "finalize_all L H stamp ps s = (xs, s')" "outcomes_result xs = Inr es"
    and "p \<in> set ps"
  shows "\<exists>pid. window_id H (cs_calibration s) p = Some pid \<and>
    (already_processed (cs_ledger s) (consensus_name, pid) \<or> (\<exists>fs. fs \<noteq> [] \<and> Closed pid (Inr fs) \<in> set xs))"
  using assms
proof (induction ps arbitrary: s xs es)
  case Nil
  then show ?case by simp
next
  case (Cons p1 ps)
  obtain x s1 where 1: "finalize L H stamp None p1 s = (x, s1)" by force
  obtain e1 where x: "outcome_result x = Inr e1"
    using Cons.prems(2,3) 1 by (cases "outcome_result x") auto
  obtain ys where 2: "finalize_all L H stamp ps s1 = (ys, s')" and xs: "xs = x # ys"
    using Cons.prems(2) 1 x by (auto split: prod.splits)
  obtain e2 where ys: "outcomes_result ys = Inr e2"
    using Cons.prems(3) xs x by (auto simp: res_iffs)
  have cal: "cs_calibration s1 = cs_calibration s" by (rule finalize_calibration [OF 1])
  note led = finalize_seen_only [OF Cons.prems(1) 1]
  show ?case
  proof (cases "p = p1")
    case True
    with finalize_answers [OF 1 x] finalize_answers_nonempty [OF 1 x] show ?thesis by (auto simp: window_id_def xs)
  next
    case False
    with Cons.prems(4) have "p \<in> set ps" by simp
    from Cons.IH [OF _ 2 ys this] led obtain pid where pid: "window_id H (cs_calibration s) p = Some pid"
      and or: "already_processed (cs_ledger s1) (consensus_name, pid) \<or> (\<exists>fs. fs \<noteq> [] \<and> Closed pid (Inr fs) \<in> set ys)"
      by (auto simp: cal)
    have "\<exists>fs. fs \<noteq> [] \<and> x = Closed pid (Inr fs)" if "outcome_key x = Some (consensus_name, pid)"
      using that x finalize_answers_nonempty [OF 1 x] by (cases x) auto
    with or led [of "(consensus_name, pid)"] have
      "already_processed (cs_ledger s) (consensus_name, pid) \<or> (\<exists>fs. fs \<noteq> [] \<and> Closed pid (Inr fs) \<in> set xs)"
      by (auto simp: xs)
    with pid show ?thesis by blast
  qed
qed

text \<open>
  No window waits for ever. A flush that raises nothing leaves exactly the windows whose
  time is not over, and each one that was over had already been closed under its prediction id, or is closed now with at
  least one message.
\<close>

lemma flush_answers_expired:
  assumes "ledger_ok (cs_ledger s)" "flush_expired L H stamp now s = (xs, s')" "outcomes_result xs = Inr es"
  shows "cs_pending s' = filter (\<lambda>kp. \<not> window_over s now (snd kp)) (cs_pending s) \<and>
    (\<forall>p \<in> snd ` set (cs_pending s). window_over s now p \<longrightarrow>
      (\<exists>pid. window_id H (cs_calibration s) p = Some pid \<and>
        (already_processed (cs_ledger s) (consensus_name, pid) \<or> (\<exists>fs. fs \<noteq> [] \<and> Closed pid (Inr fs) \<in> set xs))))"
proof (intro conjI ballI impI)
  let ?s = "s\<lparr>cs_pending := filter (\<lambda>kp. \<not> window_over s now (snd kp)) (cs_pending s)\<rparr>"
  let ?ready = "filter (window_over s now) (map snd (cs_pending s))"
  have run: "finalize_all L H stamp ?ready ?s = (xs, s')" using assms(2) by (simp add: flush_expired_def)
  show "cs_pending s' = filter (\<lambda>kp. \<not> window_over s now (snd kp)) (cs_pending s)"
    using finalize_all_pending [OF run] by simp
  fix p assume "p \<in> snd ` set (cs_pending s)" "window_over s now p"
  then have "p \<in> set ?ready" by auto
  from finalize_all_answers [OF _ run assms(3) this] assms(1)
  show "\<exists>pid. window_id H (cs_calibration s) p = Some pid \<and>
      (already_processed (cs_ledger s) (consensus_name, pid) \<or> (\<exists>fs. fs \<noteq> [] \<and> Closed pid (Inr fs) \<in> set xs))"
    by simp
qed

lemma example_fused:
  "\<exists>e. fuse_window L ts trace example_consensus example_pending pid = Inr [e] \<and> em_topic e = predict_final_topic"
proof -
  have votes: "pn_votes example_pending = [example_vote ''a'' (1 / 4), example_vote ''b'' (3 / 4)]"
    "pn_market example_pending = ''btts''"
    "pn_calibration_table example_pending = Some (empty_table (JStr ''default'') ''btts'')"
    by (simp_all add: example_pending_def new_pending_def)
  have 1: "pn_votes example_pending \<noteq> []" "pn_market example_pending \<in> set allowed_markets"
    by (simp_all add: votes allowed_markets_def)
  have 2: "fusible L (vote_weights (cs_weights example_consensus) (pn_votes example_pending))
      (pn_votes example_pending) (pn_market example_pending)"
    "fuse_score_grids L (pn_votes example_pending) = Inr (None, [])"
    unfolding example_weights unfolding votes by (rule example_fusible, rule example_grids)
  have 3: "table_ok (empty_table q m)" "\<forall>y \<in> set (ct_y (empty_table q m)). 0 \<le> y" for q m
    by (simp_all add: table_ok_def empty_table_def)
  from fuse_window_succeeds [OF 1 2 votes(3) 3, of ts trace pid] show ?thesis
    by (auto simp: final_emission_def)
qed

lemma fuse_window_pending: "fuse_window L ts trace (s\<lparr>cs_pending := d\<rparr>) p pid = fuse_window L ts trace s p pid"
proof -
  have "final_payload (s\<lparr>cs_pending := d\<rparr>) = final_payload s"
    by (intro ext) (simp add: final_payload_def degraded_reason_def)
  then show ?thesis by (simp add: fuse_window_def cong: option.case_cong)
qed

lemma example_flush:
  "\<exists>e s'. flush_expired L H stamp 200 example_consensus = ([Closed ''p1'' (Inr [e])], s') \<and>
     em_topic e = predict_final_topic \<and> cs_pending s' = []"
proof -
  let ?s = "example_consensus\<lparr>cs_pending := []\<rparr>"
  obtain e where e: "fuse_window L (stamp ''p1'') None ?s example_pending ''p1'' = Inr [e]" "em_topic e = predict_final_topic"
    using example_fused [of L "stamp ''p1''" None "''p1''"] unfolding fuse_window_pending by blast
  have over: "cs_pending example_consensus = [((''m1'', ''btts'', ''r1''), example_pending)]"
    "window_over example_consensus 200 example_pending"
    by (simp_all add: window_over_def example_consensus_def example_pending_def new_pending_def)
  have "resolve_prediction H c example_pending = Inr example_pending" "pn_prediction_id example_pending = Some ''p1''" for c
    by (simp_all add: resolve_prediction_def example_pending_def)
  moreover have "\<not> already_processed (cs_ledger ?s) k" for k
    by (simp add: example_consensus_def already_processed_def)
  ultimately show ?thesis
    by (simp add: flush_expired_def over finalize_def e Let_def)
qed


text \<open>
  An exception in a flush costs every window that was due after it. When a flush raises, the caller
  gets none of the messages built before, all windows that were over are gone, the ones after
  the failing window were never finalised (the ledger is the one before them), and the failing window, if it had
  been identified, is marked as published, so none of its votes will ever be counted.
\<close>

lemma failed_flush_loses_windows:
  assumes "ledger_ok (cs_ledger s)" "flush_expired L H stamp now s = (xs, s')" "outcomes_result xs = Inl e"
  shows "cs_pending s' = filter (\<lambda>kp. \<not> window_over s now (snd kp)) (cs_pending s) \<and>
    (\<exists>ran due. filter (window_over s now) (map snd (cs_pending s)) = ran @ due \<and> length ran = length xs \<and>
       (xs, s') = finalize_all L H stamp ran (s\<lparr>cs_pending := cs_pending s'\<rparr>)) \<and>
    (\<forall>pid r. last xs = Closed pid r \<longrightarrow> already_processed (cs_ledger s') (consensus_name, pid))"
proof -
  let ?s = "s\<lparr>cs_pending := filter (\<lambda>kp. \<not> window_over s now (snd kp)) (cs_pending s)\<rparr>"
  have split: "\<exists>ran due. ps = ran @ due \<and> length ran = length ys \<and> (ys, t') = finalize_all L H stamp ran t \<and>
      (\<forall>pid r. last ys = Closed pid r \<longrightarrow> already_processed (cs_ledger t') (consensus_name, pid))"
    if "ledger_ok (cs_ledger t)" "finalize_all L H stamp ps t = (ys, t')" "outcomes_result ys = Inl e" for ps t ys t'
    using that
  proof (induction ps arbitrary: t ys)
    case Nil
    then show ?case by simp
  next
    case (Cons p ps)
    obtain x t1 where 1: "finalize L H stamp None p t = (x, t1)" by force
    have marked: "already_processed (cs_ledger t1) (consensus_name, pid)" if "x = Closed pid r" for pid r
      using 1 that mem.seen_mark [OF Cons.prems(1)] by (auto simp: finalize_def Let_def split: sum.splits if_splits)
    show ?case
    proof (cases "outcome_result x")
      case (Inl e')
      with Cons.prems(2) 1 marked show ?thesis
        by (intro exI [of _ "[p]"] exI [of _ ps]) auto
    next
      case (Inr es)
      obtain zs where 2: "finalize_all L H stamp ps t1 = (zs, t')" and ys: "ys = x # zs"
        using Cons.prems(2) 1 Inr by (auto split: prod.splits)
      have err: "outcomes_result zs = Inl e"
        using Cons.prems(3) ys Inr by (cases "outcomes_result zs") auto
      then have "zs \<noteq> []" by auto
      from Cons.IH [OF _ 2 err] finalize_seen_only [OF Cons.prems(1) 1] obtain ran due where
        IH: "ps = ran @ due" "length ran = length zs" "(zs, t') = finalize_all L H stamp ran t1"
        "\<forall>pid r. last zs = Closed pid r \<longrightarrow> already_processed (cs_ledger t') (consensus_name, pid)" by blast
      have "finalize_all L H stamp (p # ran) t = (ys, t')"
        using 1 Inr ys by (simp flip: IH(3))
      with IH ys \<open>zs \<noteq> []\<close> show ?thesis
        by (intro exI [of _ "p # ran"] exI [of _ due]) auto
    qed
  qed
  have run: "finalize_all L H stamp (filter (window_over s now) (map snd (cs_pending s))) ?s = (xs, s')"
    using assms(2) by (simp add: flush_expired_def)
  have pend: "cs_pending s' = filter (\<lambda>kp. \<not> window_over s now (snd kp)) (cs_pending s)"
    using finalize_all_pending [OF run] by simp
  from split [OF _ run assms(3)] assms(1) show ?thesis
    unfolding pend by fastforce
qed

section \<open>Bounds and late votes\<close>

lemma evict_oldest_length:
  "evict_oldest now trace s = Inr (flags, s') \<Longrightarrow> 0 < cs_max_pending s \<Longrightarrow>
    int (length (cs_pending s)) \<le> cs_max_pending s \<Longrightarrow> int (length (cs_pending s')) < cs_max_pending s"
  by (auto simp: evict_oldest_def Let_def split: if_splits list.splits prod.splits)

lemma open_window_length:
  assumes "open_window t1 t2 trace vote s = Inr (flags, p, s')" "0 < cs_max_pending s"
    and "int (length (cs_pending s)) \<le> cs_max_pending s"
  shows "int (length (od_set (vote_key vote) q (cs_pending s'))) \<le> cs_max_pending s \<and>
    int (length (cs_pending s')) \<le> cs_max_pending s"
proof (cases "map_of (cs_pending s) (vote_key vote)")
  case None
  with assms obtain e where "evict_oldest t1 trace s = Inr (e, s')"
    by (auto simp: open_window_def res_iffs)
  from evict_oldest_length [OF this assms(2,3)] show ?thesis by (auto simp: od_simps)
next
  case (Some p)
  then have "vote_key vote \<in> fst ` set (cs_pending s)" by (metis map_of_None_keys option.distinct(1))
  with Some assms show ?thesis by (auto simp: open_window_def od_simps)
qed

lemma handle_vote_length:
  assumes "handle_vote L H clock trace vote s = (out, s')" "0 < cs_max_pending s"
    and "int (length (cs_pending s)) \<le> cs_max_pending s"
  shows "int (length (cs_pending s')) \<le> cs_max_pending s"
proof (cases "pv_confidence vote < cs_min_confidence s")
  case True
  with assms show ?thesis by (simp add: handle_vote_def)
next
  case False
  show ?thesis
  proof (cases "open_window (cc_overflow_ms clock) (cc_now_ms clock) trace vote s")
    case (Inl e)
    with assms False show ?thesis by (auto simp: handle_vote_def Let_def)
  next
    case (Inr fps)
    obtain flags p s1 where fps: "fps = (flags, p, s1)" by (cases fps)
    note len = open_window_length [OF Inr [unfolded fps] assms(2,3)]
    have del: "int (length (od_del (vote_key vote) (cs_pending s1))) \<le> cs_max_pending s"
      using conjunct2 [OF len] length_od_del_le [of "vote_key vote" "cs_pending s1"] by linarith
    show ?thesis
      using assms(1) False Inr fps len del
      by (auto simp: handle_vote_def Let_def split: sum.splits if_splits prod.splits)
  qed
qed

lemma note_requests_length:
  "distinct (map (\<lambda>r. (rq_match_id r, rq_market r, rq_request_id r)) rs) \<Longrightarrow>
   \<forall>r \<in> set rs. map_of (cs_pending s) (rq_match_id r, rq_market r, rq_request_id r) = None \<Longrightarrow>
   length (cs_pending (foldl (\<lambda>s r. note_request now r s) s rs)) = length (cs_pending s) + length rs"
proof (induction rs arbitrary: s)
  case Nil
  then show ?case by simp
next
  case (Cons r rs)
  let ?key = "\<lambda>r. (rq_match_id r, rq_market r, rq_request_id r)"
  let ?s = "note_request now r s"
  have 1: "length (cs_pending ?s) = Suc (length (cs_pending s))"
    using Cons.prems(2) by (simp add: note_request_def Let_def od_simps map_of_None_keys)
  have "?key q \<noteq> ?key r" if "q \<in> set rs" for q
    using Cons.prems(1) that by (metis (mono_tags, lifting) distinct.simps(2) image_eqI list.set_map list.simps(9))
  then have "\<forall>q \<in> set rs. map_of (cs_pending ?s) (?key q) = None"
    using Cons.prems(2) by (auto simp: note_request_def Let_def od_simps simp del: prod.inject)
  with Cons 1 show ?case by simp
qed

text \<open>
  \<open>max_pending\<close> bounds what votes open, not what requests open. With a positive bound no vote ever
  takes the table of windows past it; but every distinct request adds a window whatever the bound is, so
  \<open>n\<close> requests without votes leave \<open>n\<close> windows pending.
\<close>

lemma pending_bounded_for_votes_only:
  "(0 < cs_max_pending s \<longrightarrow> int (length (cs_pending s)) \<le> cs_max_pending s \<longrightarrow>
      int (length (cs_pending (snd (handle_vote L H clock trace vote s)))) \<le> cs_max_pending s) \<and>
   (distinct (map (\<lambda>r. (rq_match_id r, rq_market r, rq_request_id r)) rs) \<longrightarrow> cs_pending s = [] \<longrightarrow>
      length (cs_pending (foldl (\<lambda>s r. note_request now r s) s rs)) = length rs)"
  using handle_vote_length [of L H clock trace vote s] note_requests_length [of rs s now]
  by (cases "handle_vote L H clock trace vote s") auto

text \<open>
  A late vote can throw out a live window. When the table is full, a vote whose prediction
  was already published first evicts the oldest window, with all the votes in it, and only then is found to be
  late and dropped: the evicted window is lost, nothing takes its place and the ledger does not change.
\<close>

lemma late_vote_evicts_live_window:
  assumes "cs_pending s = (k, live) # rest" "cs_max_pending s \<le> int (length (cs_pending s))"
    and "map_of (cs_pending s) (vote_key vote) = None" "cs_min_confidence s \<le> pv_confidence vote"
    and "window_id H (cs_calibration s) (new_pending (pv_match_id vote) (pv_market vote) (pv_request_id vote)
      (pv_league_id vote) (pv_profile_id vote) (cc_now_ms clock)) = Some pid"
    and "already_processed (cs_ledger s) (consensus_name, pid)"
  shows "\<exists>flags s'. handle_vote L H clock trace vote s = ([Notes flags], s') \<and>
    cs_pending s' = rest \<and> cs_ledger s' = cs_ledger s \<and> (\<forall>e \<in> set flags. em_topic e = proof_flag_topic)"
proof -
  let ?p = "new_pending (pv_match_id vote) (pv_market vote) (pv_request_id vote) (pv_league_id vote) (pv_profile_id vote) (cc_now_ms clock)"
  obtain q where q: "resolve_prediction H (cs_calibration s) ?p = Inr q" "pn_prediction_id q = Some pid"
    using assms(5) by (auto simp: window_id_def split: sum.splits)
  have rest: "od_del (vote_key vote) rest = rest"
    using assms(1,3) by (intro od_del_fresh) (auto simp: map_of_None_keys split: if_splits)
  obtain flags s1 where ev: "evict_oldest (cc_overflow_ms clock) trace s = Inr (flags, s1)" "cs_pending s1 = rest"
    using assms(1,2) by (auto simp: evict_oldest_def Let_def)
  note frame = evict_oldest_frame [OF ev(1)] and ok = evict_oldest_ok [OF ev(1)]
  have "open_window (cc_overflow_ms clock) (cc_now_ms clock) trace vote s = Inr (flags, ?p, s1)"
    using assms(3) ev by (simp add: open_window_def)
  then have "handle_vote L H clock trace vote s =
      ([Notes (flags @ [late_vote_flag vote pid trace])], s1\<lparr>cs_pending := rest\<rparr>)"
    using assms(4,6) q frame rest ev(2) by (simp add: handle_vote_def Let_def)
  with frame ok show ?thesis by (auto simp: late_vote_flag_def)
qed

lemma fresh_vote_closes:
  assumes "set (cs_expected s) = {pv_predictor_id vote}" "map_of (cs_pending s) (vote_key vote) = None"
    and "int (length (cs_pending s)) < cs_max_pending s" "cs_min_confidence s \<le> pv_confidence vote"
    and "resolve_prediction H (cs_calibration s) (new_pending (pv_match_id vote) (pv_market vote) (pv_request_id vote)
      (pv_league_id vote) (pv_profile_id vote) (cc_now_ms clock)) = Inr q" "pn_prediction_id q = Some pid"
    and "\<not> already_processed (cs_ledger s) (consensus_name, pid)" "pn_votes q = []" "pn_voters q = {}"
  shows "handle_vote L H clock trace vote s =
    ([Notes [], Closed pid (fuse_window L (cc_stamp clock pid) (Some trace) s (cast_vote vote q) pid)],
     s\<lparr>cs_ledger := mark_processed (cs_ledger s) (consensus_name, pid)\<rparr>)"
proof -
  let ?p = "new_pending (pv_match_id vote) (pv_market vote) (pv_request_id vote) (pv_league_id vote) (pv_profile_id vote) (cc_now_ms clock)"
  have "vote_key vote \<notin> fst ` set (cs_pending s)" using assms(2) by (simp add: map_of_None_keys)
  then have s: "s\<lparr>cs_pending := od_del (vote_key vote) (cs_pending s)\<rparr> = s" by (simp add: od_simps)
  have "open_window (cc_overflow_ms clock) (cc_now_ms clock) trace vote s = Inr ([], ?p, s)"
    using assms(2,3) by (simp add: open_window_def evict_oldest_def)
  moreover have c: "pn_prediction_id (cast_vote vote q) = Some pid" "pn_voters (cast_vote vote q) = {pv_predictor_id vote}"
    using assms(6,9) by (simp_all add: cast_vote_def)
  moreover have "finalize L H (cc_stamp clock) (Some trace) (cast_vote vote q) s =
      (Closed pid (fuse_window L (cc_stamp clock pid) (Some trace) s (cast_vote vote q) pid),
       s\<lparr>cs_ledger := mark_processed (cs_ledger s) (consensus_name, pid)\<rparr>)"
    using assms(7) c by (simp add: finalize_def resolve_prediction_def Let_def)
  ultimately show ?thesis
    using assms(1,4-7) by (simp add: handle_vote_def Let_def s)
qed

text \<open>
  A recalibration re-opens a published request. The guard against a second publication is the
  prediction id, and that contains the calibration version: when the table of the market changes after a
  request was published, the same vote for the same match, market and request is not late, and is published a second
  time under another id, although the contract of \<open>PredictFinal\<close> is one publication per match, market and request.
\<close>

lemma recalibration_republishes:
  assumes "ledger_ok (cs_ledger s)" "set (cs_expected s) = {pv_predictor_id vote}"
    and "map_of (cs_pending s) (vote_key vote) = None" "int (length (cs_pending s)) < cs_max_pending s"
    and "cs_min_confidence s \<le> pv_confidence vote"
    and "resolve_prediction H (cs_calibration s) (new_pending (pv_match_id vote) (pv_market vote) (pv_request_id vote)
      (pv_league_id vote) (pv_profile_id vote) (cc_now_ms clock)) = Inr q1" "pn_prediction_id q1 = Some pid1"
    and "resolve_prediction H store (new_pending (pv_match_id vote) (pv_market vote) (pv_request_id vote)
      (pv_league_id vote) (pv_profile_id vote) (cc_now_ms clock2)) = Inr q2" "pn_prediction_id q2 = Some pid2"
    and "pid1 \<noteq> pid2" "\<not> already_processed (cs_ledger s) (consensus_name, pid1)"
    and "\<not> already_processed (cs_ledger s) (consensus_name, pid2)"
    and "s1 = s\<lparr>cs_ledger := mark_processed (cs_ledger s) (consensus_name, pid1)\<rparr>"
    and "s2 = s1\<lparr>cs_calibration := store\<rparr>"
  shows "handle_vote L H clock trace vote s =
      ([Notes [], Closed pid1 (fuse_window L (cc_stamp clock pid1) (Some trace) s (cast_vote vote q1) pid1)], s1) \<and>
    fst (handle_vote L H clock2 trace vote s2) =
      [Notes [], Closed pid2 (fuse_window L (cc_stamp clock2 pid2) (Some trace) s2 (cast_vote vote q2) pid2)]"
proof -
  have new: "pn_votes q = [] \<and> pn_voters q = {}"
    if "resolve_prediction H c (new_pending a b d e f now) = Inr q" for c a b d e f now q
    using that by (auto simp: resolve_prediction_def new_pending_def res_iffs)
  let ?s1 = "s\<lparr>cs_ledger := mark_processed (cs_ledger s) (consensus_name, pid1)\<rparr>"
  have "\<not> already_processed (mark_processed (cs_ledger s) (consensus_name, pid1)) (consensus_name, pid2)"
    using mem.seen_only [OF assms(1)] assms(10,12) by blast
  then have "handle_vote L H clock2 trace vote (?s1\<lparr>cs_calibration := store\<rparr>) =
      ([Notes [], Closed pid2 (fuse_window L (cc_stamp clock2 pid2) (Some trace) (?s1\<lparr>cs_calibration := store\<rparr>) (cast_vote vote q2) pid2)],
       ?s1\<lparr>cs_calibration := store, cs_ledger := mark_processed (cs_ledger ?s1) (consensus_name, pid2)\<rparr>)"
    using assms(2-5,8,9) new [OF assms(8)] by (subst fresh_vote_closes) auto
  moreover have "handle_vote L H clock trace vote s =
      ([Notes [], Closed pid1 (fuse_window L (cc_stamp clock pid1) (Some trace) s (cast_vote vote q1) pid1)], ?s1)"
    using assms(2-7,11) new [OF assms(6)] by (intro fresh_vote_closes) auto
  ultimately show ?thesis by (simp add: assms(13,14))
qed

end
