(* ===== verification/Aggregator.thy ===== *)
theory Aggregator
  imports Consensus
begin

text \<open>
  The proofreader aggregator of \<open>swarm/agents/proofreader/aggregator.py\<close>: candidates with their
  verdicts and running tallies, the two handlers, eviction, finalisation and the flushes. It reuses the
  outcomes of the consensus agent, whose candidates it decides on. The citation key's file and
  HMAC-SHA256 are parameters.
\<close>

section \<open>The citation signature\<close>

text \<open>\<open>bytes.strip\<close>, and \<open>str.strip\<close> on ASCII, which also takes the separators 28 to 31.\<close>

definition strip_codes :: "nat set \<Rightarrow> string \<Rightarrow> string" where
  "strip_codes ws s = rev (dropWhile (\<lambda>c. of_char c \<in> ws) (rev (dropWhile (\<lambda>c. of_char c \<in> ws) s)))"

definition bytes_strip :: "string \<Rightarrow> string" where
  "bytes_strip = strip_codes {9, 10, 11, 12, 13, 32}"

definition str_strip :: "string \<Rightarrow> string" where
  "str_strip = strip_codes {9, 10, 11, 12, 13, 28, 29, 30, 31, 32}"

definition citation_key_id :: "(string \<Rightarrow> string) \<Rightarrow> string \<Rightarrow> string" where
  "citation_key_id hexdigest key = take 16 (hexdigest key)"

definition mock_citation_key :: string where
  "mock_citation_key = ''negelir:mock:predict:citation:hmac:v1''"

text \<open>
  \<open>_load_predict_citation_hmac_key\<close>: the configured path, the bytes of that file (\<^const>\<open>None\<close> where reading
  raises \<open>OSError\<close>) and the profile.
\<close>

definition load_citation_key ::
  "(string \<Rightarrow> string) \<Rightarrow> string \<Rightarrow> string option \<Rightarrow> string \<Rightarrow> (string \<times> string) res" where
  "load_citation_key hexdigest path file profile =
     (let key = (if str_strip path = [] then [] else case file of None \<Rightarrow> [] | Some bytes \<Rightarrow> bytes_strip bytes) in
      if key \<noteq> [] then Inr (key, citation_key_id hexdigest key)
      else if py_lower profile = ''mock'' then Inr (mock_citation_key, citation_key_id hexdigest mock_citation_key)
      else Inl RuntimeError)"

definition join_bar :: "string list \<Rightarrow> string" where
  "join_bar ss = (case ss of [] \<Rightarrow> [] | s # rest \<Rightarrow> s @ concat (map (\<lambda>t. CHR ''|'' # t) rest))"

definition model_versions_canonical :: "predict_final \<Rightarrow> string" where
  "model_versions_canonical f = join_bar (sort (pf_contributing_models f))"

definition citation_blob :: "predict_final \<Rightarrow> string" where
  "citation_blob f = pf_prediction_id f @ ''|'' @ pf_produced_at f @ ''|'' @ model_versions_canonical f @ ''|'' @
     show_int (pf_calibration_version f)"

definition compute_citation_signature :: "(string \<Rightarrow> string \<Rightarrow> string) \<Rightarrow> predict_final \<Rightarrow> string \<Rightarrow> string" where
  "compute_citation_signature hmac f key = hmac key (citation_blob f)"

section \<open>Candidates\<close>

record candidate =
  ca_prediction_id :: string
  ca_request_id :: string
  ca_match_id :: string
  ca_market :: string
  ca_first_seen_ms :: real
  ca_final :: "predict_final option"
  ca_verdicts :: "(string, verdict) odict"
  ca_accept_warn :: int
  ca_rejects :: int

definition new_candidate :: "string \<Rightarrow> string \<Rightarrow> string \<Rightarrow> string \<Rightarrow> real \<Rightarrow> candidate" where
  "new_candidate prediction_id request_id match_id market now =
     \<lparr>ca_prediction_id = prediction_id, ca_request_id = request_id, ca_match_id = match_id, ca_market = market,
      ca_first_seen_ms = now, ca_final = None, ca_verdicts = [], ca_accept_warn = 0, ca_rejects = 0\<rparr>"

definition accept_warn :: "verdict \<Rightarrow> bool" where
  "accept_warn v \<longleftrightarrow> vd_verdict v \<in> {''accept'', ''warn''}"

definition rejects :: "verdict \<Rightarrow> bool" where
  "rejects v \<longleftrightarrow> vd_verdict v = ''reject''"

text \<open>\<open>set_verdict\<close>: undo the tally of the verdict it replaces, then count the new one.\<close>

definition uncount :: "verdict option \<Rightarrow> candidate \<Rightarrow> candidate" where
  "uncount prev c = (case prev of
     None \<Rightarrow> c
   | Some v \<Rightarrow>
       if accept_warn v then c\<lparr>ca_accept_warn := ca_accept_warn c - 1\<rparr>
       else if rejects v then c\<lparr>ca_rejects := ca_rejects c - 1\<rparr> else c)"

definition set_verdict :: "verdict \<Rightarrow> candidate \<Rightarrow> candidate" where
  "set_verdict v c =
     (let c1 = uncount (map_of (ca_verdicts c) (vd_proofreader_id v)) c;
          c2 = c1\<lparr>ca_verdicts := od_set (vd_proofreader_id v) v (ca_verdicts c1)\<rparr> in
      if accept_warn v then c2\<lparr>ca_accept_warn := ca_accept_warn c2 + 1\<rparr>
      else if rejects v then c2\<lparr>ca_rejects := ca_rejects c2 + 1\<rparr> else c2)"

definition has_reject :: "candidate \<Rightarrow> bool" where
  "has_reject c \<longleftrightarrow> 0 < ca_rejects c"

definition approvers :: "candidate \<Rightarrow> string list" where
  "approvers c = sort (map vd_proofreader_id (filter accept_warn (map snd (ca_verdicts c))))"

definition rejecters :: "candidate \<Rightarrow> string list" where
  "rejecters c = sort (map vd_proofreader_id (filter rejects (map snd (ca_verdicts c))))"

section \<open>The agent\<close>

record aggregator =
  ag_ledger :: mem_ledger
  ag_window_ms :: real
  ag_quorum :: int
  ag_max_pending :: int
  ag_pending :: "(string, candidate) odict"
  ag_overflow :: "candidate list"

definition aggregator_init :: "mem_ledger \<Rightarrow> real \<Rightarrow> int \<Rightarrow> int \<Rightarrow> aggregator res" where
  "aggregator_init led window quorum max_pending =
     require (1 \<le> quorum) (
     Inr \<lparr>ag_ledger = led, ag_window_ms = window, ag_quorum = quorum, ag_max_pending = max_pending,
        ag_pending = [], ag_overflow = []\<rparr>)"

definition aggregator_name :: string where
  "aggregator_name = ''proofreader_aggregator.v1''"

definition predict_approved_topic :: topic where
  "predict_approved_topic = ''predict.approved.v1''"

definition verdict_topic :: topic where
  "verdict_topic = ''predict.proofreader_verdict.v1''"

text \<open>
  What a call reads from outside: the monotonic clock, and for each approval the wall clock and the signing
  key; and the HMAC.
\<close>

record aggregator_env =
  ae_now_ms :: real
  ae_stamp :: "string \<Rightarrow> string"
  ae_key :: "string \<Rightarrow> (string \<times> string) res"
  ae_hmac :: "string \<Rightarrow> string \<Rightarrow> string"

definition agg_emission :: "topic \<Rightarrow> jobj \<Rightarrow> string option \<Rightarrow> emission" where
  "agg_emission t payload trace =
     \<lparr>em_topic = t, em_payload = payload, em_producer = aggregator_name,
      em_trace = Some (case trace of None \<Rightarrow> [] | Some i \<Rightarrow> i)\<rparr>"

text \<open>The fields every flag about a candidate starts with.\<close>

definition candidate_flag :: "string \<Rightarrow> candidate \<Rightarrow> jobj \<Rightarrow> string option \<Rightarrow> emission" where
  "candidate_flag kind c extra trace =
     agg_emission proof_flag_topic
       ([(''kind'', JStr kind), (''agent'', JStr aggregator_name), (''prediction_id'', JStr (ca_prediction_id c)),
         (''match_id'', JStr (ca_match_id c)), (''market'', JStr (ca_market c)),
         (''request_id'', JStr (ca_request_id c))] @ extra) trace"

definition duplicate_flag :: "candidate \<Rightarrow> string option \<Rightarrow> emission" where
  "duplicate_flag c = candidate_flag ''proofreader_duplicate_approval'' c []"

definition rejected_flag :: "candidate \<Rightarrow> string option \<Rightarrow> emission" where
  "rejected_flag c = candidate_flag ''proofreader_rejected'' c
     [(''rejected_by'', jstrs (rejecters c)), (''verdict_count'', JInt (int (length (ca_verdicts c))))]"

definition no_quorum_flag :: "int \<Rightarrow> candidate \<Rightarrow> string option \<Rightarrow> emission" where
  "no_quorum_flag quorum c = candidate_flag ''proofreader_no_quorum'' c
     [(''verdict_count'', JInt (int (length (ca_verdicts c)))), (''accept_warn_count'', JInt (ca_accept_warn c)),
      (''quorum'', JInt quorum), (''final_present'', JBool (ca_final c \<noteq> None))]"

definition candidate_overflow_flag :: "candidate \<Rightarrow> string option \<Rightarrow> emission" where
  "candidate_overflow_flag c = candidate_flag ''proofreader_overflow'' c
     [(''verdict_count'', JInt (int (length (ca_verdicts c)))), (''final_present'', JBool (ca_final c \<noteq> None))]"

definition late_verdict_flag :: "verdict \<Rightarrow> string \<Rightarrow> emission" where
  "late_verdict_flag v trace =
     agg_emission proof_flag_topic
       [(''kind'', JStr ''proofreader_late_verdict_dropped''), (''agent'', JStr aggregator_name),
        (''proofreader_id'', JStr (vd_proofreader_id v)), (''prediction_id'', JStr (vd_prediction_id v)),
        (''match_id'', JStr (vd_match_id v)), (''market'', JStr (vd_market v)),
        (''request_id'', JStr (vd_request_id v))] (Some trace)"

definition approval :: "aggregator_env \<Rightarrow> int \<Rightarrow> candidate \<Rightarrow> predict_final \<Rightarrow> approved res" where
  "approval env quorum c f =
     res_bind (ae_key env (ca_prediction_id c)) (\<lambda>(key, key_id).
     approved_check
       \<lparr>ap_request_id = ca_request_id c, ap_prediction_id = ca_prediction_id c, ap_match_id = ca_match_id c,
        ap_market = ca_market c, ap_approved_at = ae_stamp env (ca_prediction_id c), ap_approved_by = approvers c,
        ap_verdict_count = int (length (ca_verdicts c)), ap_quorum = quorum, ap_final = predict_final_as_dict f,
        ap_calibration_version = pf_calibration_version f, ap_calibration_state_horizon = None,
        ap_schema_version = 3, ap_qa_correlation_id = JNull,
        ap_citation_signature = Some (compute_citation_signature (ae_hmac env) f key),
        ap_citation_key_id = Some key_id\<rparr>)"

text \<open>\<open>_finalize\<close> after the mark: reject, approve, or no quorum.\<close>

definition decide_candidate :: "aggregator_env \<Rightarrow> string option \<Rightarrow> int \<Rightarrow> candidate \<Rightarrow> emission list res" where
  "decide_candidate env trace quorum c =
     (if has_reject c then Inr [rejected_flag c trace]
      else case ca_final c of
          None \<Rightarrow> Inr [no_quorum_flag quorum c trace]
        | Some f \<Rightarrow>
            if quorum \<le> ca_accept_warn c then
              res_bind (approval env quorum c f) (\<lambda>a. Inr [agg_emission predict_approved_topic (approved_as_dict a) trace])
            else Inr [no_quorum_flag quorum c trace])"

definition agg_finalize :: "aggregator_env \<Rightarrow> string option \<Rightarrow> candidate \<Rightarrow> aggregator \<Rightarrow> outcome \<times> aggregator" where
  "agg_finalize env trace c s =
     (let key = (aggregator_name, ca_prediction_id c) in
      if already_processed (ag_ledger s) key then (Notes [duplicate_flag c trace], s)
      else (Closed (ca_prediction_id c) (decide_candidate env trace (ag_quorum s) c),
            s\<lparr>ag_ledger := mark_processed (ag_ledger s) key\<rparr>))"

text \<open>\<open>_maybe_finalize_locked\<close>: nothing without the candidate; a reject or the quorum decides.\<close>

definition maybe_finalize :: "aggregator_env \<Rightarrow> string \<Rightarrow> candidate \<Rightarrow> aggregator \<Rightarrow> outcome \<times> aggregator" where
  "maybe_finalize env trace c s =
     (if ca_final c = None then (Notes [], s)
      else if has_reject c \<or> ag_quorum s \<le> ca_accept_warn c
      then agg_finalize env (Some trace) c (s\<lparr>ag_pending := od_del (ca_prediction_id c) (ag_pending s)\<rparr>)
      else (Notes [], s))"

definition evict_if_full :: "aggregator \<Rightarrow> aggregator res" where
  "evict_if_full s =
     (if int (length (ag_pending s)) < ag_max_pending s then Inr s
      else case ag_pending s of
        [] \<Rightarrow> Inl StopIteration
      | (k, c) # rest \<Rightarrow> Inr (s\<lparr>ag_pending := rest, ag_overflow := ag_overflow s @ [c]\<rparr>))"

text \<open>Finding or opening the candidate of a message.\<close>

definition open_candidate :: "candidate \<Rightarrow> aggregator \<Rightarrow> (candidate \<times> aggregator) res" where
  "open_candidate fresh s =
     (case map_of (ag_pending s) (ca_prediction_id fresh) of
        Some c \<Rightarrow> Inr (c, s)
      | None \<Rightarrow> res_bind (evict_if_full s) (\<lambda>s1. Inr (fresh, s1)))"

text \<open>
  The common tail of both handlers: store the candidate, finalise it if it is ripe, then
  drain the overflow buffer; an exception of the finalisation leaves the buffer undrained.
\<close>

definition settle :: "aggregator_env \<Rightarrow> string \<Rightarrow> candidate \<Rightarrow> aggregator \<Rightarrow> outcome list \<times> aggregator" where
  "settle env trace c s =
     (let (x, s1) = maybe_finalize env trace c (s\<lparr>ag_pending := od_set (ca_prediction_id c) c (ag_pending s)\<rparr>) in
      case outcome_result x of
        Inl e \<Rightarrow> ([x], s1)
      | Inr es \<Rightarrow>
          ([Notes (map (\<lambda>v. candidate_overflow_flag v (Some trace)) (ag_overflow s1)), x], s1\<lparr>ag_overflow := []\<rparr>))"

definition handle_final :: "aggregator_env \<Rightarrow> string \<Rightarrow> predict_final \<Rightarrow> aggregator \<Rightarrow> outcome list \<times> aggregator" where
  "handle_final env trace f s =
     (if already_processed (ag_ledger s) (aggregator_name, pf_prediction_id f) then ([], s)
      else
        case open_candidate (new_candidate (pf_prediction_id f) (pf_request_id f) (pf_match_id f) (pf_market f) (ae_now_ms env)) s of
          Inl e \<Rightarrow> ([Failed e], s)
        | Inr (c, s1) \<Rightarrow> settle env trace (if ca_final c = None then c\<lparr>ca_final := Some f\<rparr> else c) s1)"

definition handle_verdict :: "aggregator_env \<Rightarrow> string \<Rightarrow> verdict \<Rightarrow> aggregator \<Rightarrow> outcome list \<times> aggregator" where
  "handle_verdict env trace v s =
     (if already_processed (ag_ledger s) (aggregator_name, vd_prediction_id v)
      then ([Notes [late_verdict_flag v trace]], s)
      else
        case open_candidate (new_candidate (vd_prediction_id v) (vd_request_id v) (vd_match_id v) (vd_market v) (ae_now_ms env)) s of
          Inl e \<Rightarrow> ([Failed e], s)
        | Inr (c, s1) \<Rightarrow> settle env trace (set_verdict v c) s1)"

definition aggregator_handle :: "pylib \<Rightarrow> aggregator_env \<Rightarrow> message \<Rightarrow> aggregator \<Rightarrow> outcome list \<times> aggregator" where
  "aggregator_handle L env msg s =
     (let t = en_topic (msg_envelope msg); trace = en_trace_id (msg_envelope msg);
          malformed = (\<lambda>e. (if e \<in> {KeyError, TypeError, ValueError} then [] else [Failed e], s)) in
      if t = predict_final_topic then
        (case predict_final_from_dict L (msg_payload msg) of Inl e \<Rightarrow> malformed e | Inr f \<Rightarrow> handle_final env trace f s)
      else if t = verdict_topic then
        (case verdict_from_dict L (msg_payload msg) of Inl e \<Rightarrow> malformed e | Inr v \<Rightarrow> handle_verdict env trace v s)
      else ([], s))"

fun agg_finalize_all :: "aggregator_env \<Rightarrow> candidate list \<Rightarrow> aggregator \<Rightarrow> outcome list \<times> aggregator" where
  "agg_finalize_all env [] s = ([], s)"
| "agg_finalize_all env (c # cs) s =
     (let (x, s1) = agg_finalize env None c s in
      case outcome_result x of
        Inl e \<Rightarrow> ([x], s1)
      | Inr es \<Rightarrow> (let (xs, s2) = agg_finalize_all env cs s1 in (x # xs, s2)))"

definition agg_flush_expired :: "aggregator_env \<Rightarrow> real \<Rightarrow> aggregator \<Rightarrow> outcome list \<times> aggregator" where
  "agg_flush_expired env now s =
     (let due = (\<lambda>c. ag_window_ms s \<le> now - ca_first_seen_ms c) in
      agg_finalize_all env (filter due (map snd (ag_pending s)))
        (s\<lparr>ag_pending := filter (\<lambda>kc. \<not> due (snd kc)) (ag_pending s)\<rparr>))"

definition agg_flush_all :: "aggregator_env \<Rightarrow> aggregator \<Rightarrow> outcome list \<times> aggregator" where
  "agg_flush_all env s = agg_finalize_all env (map snd (ag_pending s)) (s\<lparr>ag_pending := []\<rparr>)"

section \<open>The running tallies\<close>

definition tally_ok :: "candidate \<Rightarrow> bool" where
  "tally_ok c \<longleftrightarrow> od_wf (ca_verdicts c) \<and>
     list_all (\<lambda>kv. vd_proofreader_id (snd kv) = fst kv) (ca_verdicts c) \<and>
     ca_accept_warn c = int (length (filter accept_warn (map snd (ca_verdicts c)))) \<and>
     ca_rejects c = int (length (filter rejects (map snd (ca_verdicts c)))) \<and>
     (\<forall>f. ca_final c = Some f \<longrightarrow> pf_prediction_id f = ca_prediction_id c)"

lemma accept_not_reject: "accept_warn v \<Longrightarrow> \<not> rejects v"
  by (auto simp: accept_warn_def rejects_def)

text \<open>How replacing a value changes the number of values with a property.\<close>

lemma count_od_set:
  "od_wf d \<Longrightarrow> int (length (filter P (map snd (od_set k v d)))) =
     int (length (filter P (map snd d))) -
     (case map_of d k of None \<Rightarrow> 0 | Some w \<Rightarrow> if P w then 1 else 0) + (if P v then 1 else 0)"
proof (induction d)
  case Nil
  then show ?case by simp
next
  case (Cons p d)
  have "od_wf d" using Cons.prems by (simp add: od_wf_def)
  then show ?case using Cons.IH by (cases p) auto
qed

lemma list_all_od_set: "list_all P d \<Longrightarrow> P (k, v) \<Longrightarrow> list_all P (od_set k v d)"
  by (induction k v d rule: od_set.induct) auto

lemma set_verdict_fields:
  "ca_verdicts (set_verdict v c) = od_set (vd_proofreader_id v) v (ca_verdicts c)"
  "ca_prediction_id (set_verdict v c) = ca_prediction_id c" "ca_final (set_verdict v c) = ca_final c"
  "ca_match_id (set_verdict v c) = ca_match_id c" "ca_market (set_verdict v c) = ca_market c"
  by (simp_all add: set_verdict_def uncount_def Let_def split: option.splits)

lemma set_verdict_tally:
  assumes "tally_ok c"
  shows "tally_ok (set_verdict v c)"
proof -
  let ?k = "vd_proofreader_id v"
  have wf: "od_wf (ca_verdicts c)" using assms by (simp add: tally_ok_def)
  have "ca_accept_warn (set_verdict v c) = ca_accept_warn c -
      (case map_of (ca_verdicts c) ?k of None \<Rightarrow> 0 | Some w \<Rightarrow> if accept_warn w then 1 else 0) + (if accept_warn v then 1 else 0)"
    by (simp add: set_verdict_def uncount_def Let_def split: option.splits)
  moreover have "ca_rejects (set_verdict v c) = ca_rejects c -
      (case map_of (ca_verdicts c) ?k of None \<Rightarrow> 0 | Some w \<Rightarrow> if rejects w then 1 else 0) + (if rejects v then 1 else 0)"
    by (simp add: set_verdict_def uncount_def Let_def accept_not_reject split: option.splits)
  ultimately show ?thesis
    using assms count_od_set [OF wf, of accept_warn ?k v] count_od_set [OF wf, of rejects ?k v]
    by (simp add: tally_ok_def set_verdict_fields od_wf_set list_all_od_set)
qed

lemma new_candidate_tally: "tally_ok (new_candidate a b c d t)"
  by (simp add: tally_ok_def new_candidate_def)

lemma set_verdicts_tally: "tally_ok c \<Longrightarrow> tally_ok (foldl (\<lambda>c v. set_verdict v c) c vs)"
  by (induction vs arbitrary: c) (auto intro: set_verdict_tally)

text \<open>The specification: what counts is each proofreader's latest verdict.\<close>

definition latest_verdict :: "verdict list \<Rightarrow> string \<Rightarrow> verdict option" where
  "latest_verdict vs = foldl (\<lambda>m v. m(vd_proofreader_id v \<mapsto> v)) (\<lambda>_. None) vs"

lemma set_verdicts_map:
  "map_of (ca_verdicts (foldl (\<lambda>c v. set_verdict v c) c vs)) =
     foldl (\<lambda>m v. m(vd_proofreader_id v \<mapsto> v)) (map_of (ca_verdicts c)) vs"
  by (induction vs arbitrary: c) (simp_all add: set_verdict_fields od_simps)

lemma count_as_card:
  assumes "od_wf d"
  shows "length (filter P (map snd d)) = card {k. \<exists>v. map_of d k = Some v \<and> P v}"
proof -
  let ?ks = "map fst (filter (\<lambda>p. P (snd p)) d)"
  have "map_of d k = Some v \<longleftrightarrow> (k, v) \<in> set d" for k v
    using assms by (simp add: od_wf_def)
  then have "{k. \<exists>v. map_of d k = Some v \<and> P v} = set ?ks"
    by force
  moreover have "distinct ?ks"
    using assms by (simp add: od_wf_def distinct_map_filter)
  moreover have "length (filter P (map snd d)) = length ?ks"
    by (simp add: filter_map o_def)
  ultimately show ?thesis
    using distinct_card [of ?ks] by simp
qed

text \<open>
  The running tallies are a recount. After any sequence of verdicts, repeated or changed by the same
  proofreader, the two counters are the numbers of proofreaders whose latest verdict accepts or warns, and
  rejects; a reject is seen exactly when some latest verdict is one, and the approvers are the accepting
  proofreaders, each once, in order.
\<close>

lemma tallies_recount:
  assumes "c = foldl (\<lambda>c v. set_verdict v c) (new_candidate pid rid mid market now) vs"
  shows "ca_accept_warn c = int (card {k. \<exists>v. latest_verdict vs k = Some v \<and> accept_warn v}) \<and>
    ca_rejects c = int (card {k. \<exists>v. latest_verdict vs k = Some v \<and> rejects v}) \<and>
    (has_reject c \<longleftrightarrow> (\<exists>k v. latest_verdict vs k = Some v \<and> rejects v)) \<and>
    set (approvers c) = {k. \<exists>v. latest_verdict vs k = Some v \<and> accept_warn v} \<and> sorted_wrt (<) (approvers c)"
proof -
  have ok: "tally_ok c" unfolding assms by (intro set_verdicts_tally new_candidate_tally)
  have m: "map_of (ca_verdicts c) = latest_verdict vs"
    unfolding assms set_verdicts_map latest_verdict_def by (simp add: new_candidate_def)
  have wf: "od_wf (ca_verdicts c)" using ok by (simp add: tally_ok_def)
  have rej: "has_reject c \<longleftrightarrow> (\<exists>k v. latest_verdict vs k = Some v \<and> rejects v)"
    using ok wf unfolding m [symmetric] has_reject_def tally_ok_def
    by (simp add: filter_empty_conv od_wf_def) force
  have ap: "approvers c = sort (map fst (filter (\<lambda>p. accept_warn (snd p)) (ca_verdicts c)))"
    using ok by (auto simp: approvers_def tally_ok_def filter_map o_def list_all_iff intro!: arg_cong [where f = sort] map_cong)
  have "distinct (map fst (filter (\<lambda>p. accept_warn (snd p)) (ca_verdicts c)))"
    using wf by (simp add: od_wf_def distinct_map_filter)
  then have "sorted_wrt (<) (approvers c)"
    by (simp add: ap strict_sorted_iff)
  moreover have "set (approvers c) = {k. \<exists>v. latest_verdict vs k = Some v \<and> accept_warn v}"
    using wf unfolding ap m [symmetric] by (force simp: od_wf_def dest: map_of_SomeD)
  ultimately show ?thesis
    using ok rej count_as_card [OF wf] unfolding m by (simp add: tally_ok_def)
qed

definition example_verdict :: "string \<Rightarrow> string \<Rightarrow> verdict" where
  "example_verdict who what = \<lparr>vd_request_id = ''r1'', vd_prediction_id = ''p1'', vd_match_id = ''m1'', vd_market = ''btts'',
     vd_proofreader_id = who, vd_verdict = what, vd_score = 1, vd_checked_at = ''t'', vd_flags = [], vd_checks_run = [],
     vd_rationale = [], vd_calibration_version = 0\<rparr>"

section \<open>Runs\<close>

datatype aggregator_input =
    Agg_Deliver aggregator_env message
  | Agg_Flush aggregator_env real
  | Agg_Flush_All aggregator_env

definition aggregator_step :: "pylib \<Rightarrow> aggregator \<Rightarrow> aggregator_input \<Rightarrow> outcome list \<times> aggregator" where
  "aggregator_step L s i = (case i of
     Agg_Deliver env msg \<Rightarrow> aggregator_handle L env msg s
   | Agg_Flush env now \<Rightarrow> agg_flush_expired env now s
   | Agg_Flush_All env \<Rightarrow> agg_flush_all env s)"

text \<open>
  The invariant: each pending candidate is stored under its id with tallies that are a recount, and holds
  only a final with that id.
\<close>

definition agg_ok :: "aggregator \<Rightarrow> bool" where
  "agg_ok s \<longleftrightarrow> 1 \<le> ag_quorum s \<and> od_wf (ag_pending s) \<and>
     (\<forall>kc \<in> set (ag_pending s). ca_prediction_id (snd kc) = fst kc \<and> tally_ok (snd kc))"

lemma agg_ok_init: "aggregator_init led window quorum max_pending = Inr s \<Longrightarrow>
    agg_ok s \<and> ag_ledger s = led \<and> ag_quorum s = quorum"
  by (auto simp: aggregator_init_def agg_ok_def res_iffs)

fun agg_key :: "outcome \<Rightarrow> ledger_key option" where
  "agg_key (Closed pid r) = Some (aggregator_name, pid)"
| "agg_key _ = None"

text \<open>
  What the aggregator has heard of a prediction: the verdict a message brings, unless the prediction is decided
  already, and all of them since its candidate was opened last (a candidate that is decided, evicted or flushed takes its verdicts along).
\<close>

definition verdict_heard :: "pylib \<Rightarrow> aggregator \<Rightarrow> aggregator_input \<Rightarrow> string \<Rightarrow> verdict list" where
  "verdict_heard L s i pid = (case i of
     Agg_Deliver env msg \<Rightarrow>
       if en_topic (msg_envelope msg) = verdict_topic then
         (case verdict_from_dict L (msg_payload msg) of
            Inl _ \<Rightarrow> []
          | Inr v \<Rightarrow> if vd_prediction_id v = pid \<and> \<not> already_processed (ag_ledger s) (aggregator_name, pid) then [v] else [])
       else []
   | _ \<Rightarrow> [])"

fun heard :: "pylib \<Rightarrow> (string \<Rightarrow> verdict list) \<Rightarrow> aggregator \<Rightarrow> aggregator_input list \<Rightarrow> string \<Rightarrow> verdict list" where
  "heard L H s [] = H"
| "heard L H s (i # is) =
     (let s' = snd (aggregator_step L s i) in
      heard L (\<lambda>pid. if map_of (ag_pending s') pid = None then [] else H pid @ verdict_heard L s i pid) s' is)"

definition final_heard :: "pylib \<Rightarrow> aggregator_input \<Rightarrow> predict_final set" where
  "final_heard L i = (case i of
     Agg_Deliver env msg \<Rightarrow>
       if en_topic (msg_envelope msg) = predict_final_topic
       then (case predict_final_from_dict L (msg_payload msg) of Inl _ \<Rightarrow> {} | Inr f \<Rightarrow> {f}) else {}
   | _ \<Rightarrow> {})"

text \<open>
  What an approval must satisfy, for the verdicts heard of each prediction and the finals heard: it decodes for every
  consumer, its approvers are exactly the proofreaders whose latest verdict accepts or warns, each named once and at least as many as the
  quorum, no proofreader's latest verdict is a reject, and it embeds one of those finals, with its own id.
\<close>

definition approval_ok :: "(string \<Rightarrow> verdict list) \<Rightarrow> predict_final set \<Rightarrow> int \<Rightarrow> string \<Rightarrow> emission \<Rightarrow> bool" where
  "approval_ok V F quorum pid e \<longleftrightarrow> (\<exists>a f. (\<forall>M. approved_from_dict M (em_payload e) = Inr a) \<and>
     ap_prediction_id a = pid \<and> quorum \<le> int (length (ap_approved_by a)) \<and> distinct (ap_approved_by a) \<and>
     set (ap_approved_by a) = {k. \<exists>v. latest_verdict (V pid) k = Some v \<and> vd_verdict v \<in> {''accept'', ''warn''}} \<and>
     (\<forall>k v. latest_verdict (V pid) k = Some v \<longrightarrow> vd_verdict v \<noteq> ''reject'') \<and>
     ap_verdict_count a = int (card (dom (latest_verdict (V pid)))) \<and>
     f \<in> F \<and> pf_prediction_id f = pid \<and> ap_final a = predict_final_as_dict f)"

definition agg_outcome_ok :: "(string \<Rightarrow> verdict list) \<Rightarrow> predict_final set \<Rightarrow> int \<Rightarrow> outcome \<Rightarrow> bool" where
  "agg_outcome_ok V F quorum x \<longleftrightarrow> (\<forall>e \<in> set (outcome_emissions x). em_topic e = predict_approved_topic \<longrightarrow>
     (\<exists>pid. x = Closed pid (Inr [e]) \<and> approval_ok V F quorum pid e))"

text \<open>A candidate that holds what was heard.\<close>

definition recorded :: "(string \<Rightarrow> verdict list) \<Rightarrow> predict_final set \<Rightarrow> candidate \<Rightarrow> bool" where
  "recorded V F c \<longleftrightarrow> tally_ok c \<and> map_of (ca_verdicts c) = latest_verdict (V (ca_prediction_id c)) \<and>
     (case ca_final c of None \<Rightarrow> True | Some f \<Rightarrow> f \<in> F)"

lemma flags_not_approved [simp]:
  "proof_flag_topic \<noteq> predict_approved_topic" "em_topic (candidate_flag k c x t) = proof_flag_topic"
  "em_topic (late_verdict_flag v trace) = proof_flag_topic"
  by (simp_all add: proof_flag_topic_def predict_approved_topic_def candidate_flag_def agg_emission_def late_verdict_flag_def)

lemma approvers_distinct:
  "tally_ok c \<Longrightarrow> distinct (approvers c) \<and> int (length (approvers c)) = ca_accept_warn c \<and>
    set (approvers c) \<subseteq> fst ` set (ca_verdicts c) \<and> length (approvers c) \<le> length (ca_verdicts c)"
proof -
  assume ok: "tally_ok c"
  have "map vd_proofreader_id (filter accept_warn (map snd (ca_verdicts c))) = map fst (filter (\<lambda>p. accept_warn (snd p)) (ca_verdicts c))"
    using ok by (auto simp: tally_ok_def filter_map o_def list_all_iff)
  then have "approvers c = sort (map fst (filter (\<lambda>p. accept_warn (snd p)) (ca_verdicts c)))"
    by (simp add: approvers_def)
  with ok show ?thesis
    by (auto simp: tally_ok_def od_wf_def distinct_map_filter filter_map o_def)
qed

lemma approvers_latest:
  assumes "tally_ok c" "map_of (ca_verdicts c) = latest_verdict vs"
  shows "set (approvers c) = {k. \<exists>v. latest_verdict vs k = Some v \<and> vd_verdict v \<in> {''accept'', ''warn''}}"
    and "\<not> has_reject c \<Longrightarrow> latest_verdict vs k = Some v \<Longrightarrow> vd_verdict v \<noteq> ''reject''"
    and "length (ca_verdicts c) = card (dom (latest_verdict vs))"
proof -
  have wf: "distinct (map fst (ca_verdicts c))" and who: "list_all (\<lambda>kv. vd_proofreader_id (snd kv) = fst kv) (ca_verdicts c)"
    and rej: "ca_rejects c = int (length (filter rejects (map snd (ca_verdicts c))))"
    using assms(1) by (simp_all add: tally_ok_def od_wf_def)
  have latest: "latest_verdict vs k = Some v \<longleftrightarrow> (k, v) \<in> set (ca_verdicts c)" for k v
    using assms(2) wf by (simp flip: assms(2))
  show "set (approvers c) = {k. \<exists>v. latest_verdict vs k = Some v \<and> vd_verdict v \<in> {''accept'', ''warn''}}"
    using who by (force simp: approvers_def latest accept_warn_def list_all_iff)
  show "vd_verdict v \<noteq> ''reject''" if "\<not> has_reject c" "latest_verdict vs k = Some v"
    using that rej latest by (auto simp: has_reject_def filter_empty_conv rejects_def)
  show "length (ca_verdicts c) = card (dom (latest_verdict vs))"
    using wf by (metis assms(2) distinct_card dom_map_of_conv_image_fst length_map set_map)
qed

lemma approval_sound:
  assumes "tally_ok c" "1 \<le> quorum" "\<not> has_reject c" "ca_final c = Some f" "quorum \<le> ca_accept_warn c"
    and "ae_key env (ca_prediction_id c) = Inr (key, key_id)"
  shows "\<exists>a. approval env quorum c f = Inr a \<and>
    (recorded V F c \<longrightarrow> approval_ok V F quorum (ca_prediction_id c) (agg_emission predict_approved_topic (approved_as_dict a) trace))"
proof -
  note ap = approvers_distinct [OF assms(1)]
  have id: "pf_prediction_id f = ca_prediction_id c" using assms(1,4) by (simp add: tally_ok_def)
  have "approvers c \<noteq> []" using ap assms(2,5) by auto
  then obtain a where a: "approval env quorum c f = Inr a"
    using ap assms(2,5,6) id
    by (simp add: approval_def approved_check_def Let_def predict_final_as_dict_def)
  then have fields: "ap_prediction_id a = ca_prediction_id c" "ap_approved_by a = approvers c"
    "ap_final a = predict_final_as_dict f" "ap_verdict_count a = int (length (ca_verdicts c))"
    and check: "approved_check a = Inr a"
    using assms(6) approved_check_idem by (auto simp: approval_def res_iffs approved_check_def Let_def)
  have "approval_ok V F quorum (ca_prediction_id c) (agg_emission predict_approved_topic (approved_as_dict a) trace)" if "recorded V F c"
  proof -
    have m: "map_of (ca_verdicts c) = latest_verdict (V (ca_prediction_id c))" "f \<in> F"
      using that assms(4) by (simp_all add: recorded_def)
    note latest = approvers_latest [OF assms(1) m(1)]
    show ?thesis
      unfolding approval_ok_def agg_emission_def emission.simps
      using approved_wire [OF check] fields ap id assms(5) m(2) latest(1,3) latest(2) [OF assms(3)]
      by (intro exI [of _ a] exI [of _ f] conjI allI impI) simp_all
  qed
  with a show ?thesis by blast
qed

lemma decide_ok:
  assumes "recorded V F c" "1 \<le> quorum"
  shows "agg_outcome_ok V F quorum (Closed (ca_prediction_id c) (decide_candidate env trace quorum c))"
proof (cases "\<exists>f. \<not> has_reject c \<and> ca_final c = Some f \<and> quorum \<le> ca_accept_warn c")
  case False
  then show ?thesis
    by (auto simp: agg_outcome_ok_def decide_candidate_def rejected_flag_def no_quorum_flag_def split: option.splits)
next
  case True
  then obtain f where f: "\<not> has_reject c" "ca_final c = Some f" "quorum \<le> ca_accept_warn c" by blast
  show ?thesis
  proof (cases "ae_key env (ca_prediction_id c)")
    case (Inl e)
    with f show ?thesis by (simp add: agg_outcome_ok_def decide_candidate_def approval_def)
  next
    case (Inr kk)
    then obtain key key_id where "ae_key env (ca_prediction_id c) = Inr (key, key_id)" by (cases kk) auto
    from approval_sound [OF _ assms(2) f(1,2,3) this, of V F trace] f assms(1) show ?thesis
      by (auto simp: agg_outcome_ok_def decide_candidate_def recorded_def)
  qed
qed

text \<open>Each outcome list claims the ids it decides, keeps the invariant and the record, and publishes only sound approvals.\<close>

definition agg_kept :: "(string \<Rightarrow> verdict list) \<Rightarrow> predict_final set \<Rightarrow> aggregator \<Rightarrow> bool" where
  "agg_kept V F s \<longleftrightarrow> agg_ok s \<and> (\<forall>kc \<in> set (ag_pending s). recorded V F (snd kc))"

definition agg_good :: "(string \<Rightarrow> verdict list) \<Rightarrow> predict_final set \<Rightarrow> aggregator \<Rightarrow> outcome list \<times> aggregator \<Rightarrow> bool" where
  "agg_good V F s r \<longleftrightarrow> (case r of (xs, s') \<Rightarrow>
     claims already_processed mark_processed (ag_ledger s) (List.map_filter agg_key xs) (ag_ledger s') \<and>
     agg_kept V F s' \<and> ag_quorum s' = ag_quorum s \<and> list_all (agg_outcome_ok V F (ag_quorum s)) xs)"

lemma agg_good_frame:
  "ag_ledger t = ag_ledger s \<Longrightarrow> ag_quorum t = ag_quorum s \<Longrightarrow> agg_good V F t r \<Longrightarrow> agg_good V F s r"
  by (auto simp: agg_good_def)

lemma agg_good_quiet:
  "agg_kept V F t \<Longrightarrow> ag_ledger t = ag_ledger s \<Longrightarrow> ag_quorum t = ag_quorum s \<Longrightarrow>
     \<forall>e \<in> set es. em_topic e = proof_flag_topic \<Longrightarrow> agg_good V F s ([Notes es], t)"
  "agg_kept V F t \<Longrightarrow> ag_ledger t = ag_ledger s \<Longrightarrow> ag_quorum t = ag_quorum s \<Longrightarrow> agg_good V F s ([], t)"
  "agg_kept V F t \<Longrightarrow> ag_ledger t = ag_ledger s \<Longrightarrow> ag_quorum t = ag_quorum s \<Longrightarrow> agg_good V F s ([Failed e], t)"
  by (auto simp: agg_good_def map_filter_simps agg_outcome_ok_def)

lemma agg_good_Cons:
  "agg_good V F s ([x], s1) \<Longrightarrow> agg_good V F s1 (xs, s2) \<Longrightarrow> agg_good V F s (x # xs, s2)"
  by (auto simp: agg_good_def map_filter_simps claims_append split: option.splits)

lemma agg_kept_frame: "ag_pending t = ag_pending s \<Longrightarrow> ag_quorum t = ag_quorum s \<Longrightarrow> agg_kept V F t = agg_kept V F s"
  by (simp add: agg_kept_def agg_ok_def)

lemma agg_finalize_good:
  assumes "agg_finalize env trace c s = (x, s')" "agg_kept V F s" "recorded V F c"
  shows "agg_good V F s ([x], s')"
proof -
  have q: "1 \<le> ag_quorum s" using assms(2) by (simp add: agg_kept_def agg_ok_def)
  have k: "agg_kept V F (s\<lparr>ag_ledger := l\<rparr>)" for l using assms(2) by (subst agg_kept_frame [of _ s]) simp_all
  note d = decide_ok [OF assms(3) q, of env trace]
  show ?thesis
    using assms(1,2) d k
    by (auto simp: agg_finalize_def Let_def duplicate_flag_def agg_good_def map_filter_simps
        agg_outcome_ok_def split: if_splits)
qed

lemma agg_kept_pending_subset:
  "agg_kept V F s \<Longrightarrow> od_wf d \<Longrightarrow> set d \<subseteq> set (ag_pending s) \<Longrightarrow> agg_kept V F (s\<lparr>ag_pending := d\<rparr>)"
  by (auto simp: agg_kept_def agg_ok_def)

lemma agg_finalize_all_good:
  "agg_kept V F s \<Longrightarrow> list_all (recorded V F) cs \<Longrightarrow> agg_good V F s (agg_finalize_all env cs s)"
proof (induction cs arbitrary: s)
  case Nil
  then show ?case by (simp add: agg_good_quiet(2))
next
  case (Cons c cs)
  obtain x s1 where 1: "agg_finalize env None c s = (x, s1)" by force
  have g: "agg_good V F s ([x], s1)" using agg_finalize_good [OF 1] Cons.prems by simp
  show ?case
  proof (cases "outcome_result x")
    case (Inl e)
    with 1 g show ?thesis by simp
  next
    case (Inr es)
    have "agg_kept V F s1" using g by (simp add: agg_good_def)
    with Cons have "agg_good V F s1 (agg_finalize_all env cs s1)" by simp
    with agg_good_Cons [OF g] show ?thesis
      by (cases "agg_finalize_all env cs s1") (simp add: 1 Inr)
  qed
qed

lemma od_del_subset: "set (od_del k d) \<subseteq> set d"
  by (auto simp: od_del_def)

lemma maybe_finalize_good:
  assumes "maybe_finalize env trace c s = (x, s')" "agg_kept V F s" "recorded V F c"
  shows "agg_good V F s ([x], s')"
proof (cases "ca_final c \<noteq> None \<and> (has_reject c \<or> ag_quorum s \<le> ca_accept_warn c)")
  case True
  let ?t = "s\<lparr>ag_pending := od_del (ca_prediction_id c) (ag_pending s)\<rparr>"
  have t: "agg_kept V F ?t"
    using assms(2) by (intro agg_kept_pending_subset od_wf_del od_del_subset) (simp_all add: agg_kept_def agg_ok_def)
  have "agg_finalize env (Some trace) c ?t = (x, s')"
    using assms(1) True by (auto simp: maybe_finalize_def)
  from agg_good_frame [OF _ _ agg_finalize_good [OF this t assms(3)], of s] show ?thesis by simp
next
  case False
  with assms show ?thesis
    by (auto simp: maybe_finalize_def agg_good_quiet split: if_splits)
qed

text \<open>Storing a candidate repairs the record where only its own entry was out of date.\<close>

lemma od_set_others: "od_wf d \<Longrightarrow> set (od_set k c d) \<subseteq> insert (k, c) {kc \<in> set d. fst kc \<noteq> k}"
  by (induction k c d rule: od_set.induct) (auto simp: od_wf_def rev_image_eqI)

lemma agg_kept_store:
  assumes "agg_ok s" "\<forall>kc \<in> set (ag_pending s). fst kc \<noteq> ca_prediction_id c \<longrightarrow> recorded V F (snd kc)" "recorded V F c"
  shows "agg_kept V F (s\<lparr>ag_pending := od_set (ca_prediction_id c) c (ag_pending s)\<rparr>)"
proof -
  have "od_wf (ag_pending s)" using assms(1) by (simp add: agg_ok_def)
  note others = subsetD [OF od_set_others [OF this, of "ca_prediction_id c" c]]
  show ?thesis using assms od_wf_set by (fastforce simp: agg_kept_def agg_ok_def recorded_def dest: others)
qed

lemma settle_good:
  assumes "agg_ok s" "\<forall>kc \<in> set (ag_pending s). fst kc \<noteq> ca_prediction_id c \<longrightarrow> recorded V F (snd kc)" "recorded V F c"
  shows "agg_good V F s (settle env trace c s)"
proof -
  let ?t = "s\<lparr>ag_pending := od_set (ca_prediction_id c) c (ag_pending s)\<rparr>"
  note t = agg_kept_store [OF assms]
  obtain x s1 where 1: "maybe_finalize env trace c ?t = (x, s1)" by force
  have g: "agg_good V F ?t ([x], s1)" by (rule maybe_finalize_good [OF 1 t assms(3)])
  then have gs: "agg_good V F s ([x], s1)" by (rule agg_good_frame [rotated 2]) simp_all
  show ?thesis
  proof (cases "outcome_result x")
    case (Inl e)
    with 1 gs show ?thesis by (simp add: settle_def)
  next
    case (Inr es)
    let ?o = "map (\<lambda>v. candidate_overflow_flag v (Some trace)) (ag_overflow s1)"
    have k: "agg_kept V F (s1\<lparr>ag_overflow := []\<rparr>)"
      using gs by (subst agg_kept_frame [of _ s1]) (simp_all add: agg_good_def)
    have "agg_good V F s ([Notes ?o], ?t)"
      using t by (intro agg_good_quiet) (auto simp: candidate_overflow_flag_def)
    moreover have "agg_good V F ?t ([x], s1\<lparr>ag_overflow := []\<rparr>)"
      using g k by (auto simp: agg_good_def)
    ultimately have "agg_good V F s ([Notes ?o, x], s1\<lparr>ag_overflow := []\<rparr>)" by (rule agg_good_Cons)
    with 1 Inr show ?thesis by (simp add: settle_def)
  qed
qed

lemma latest_verdict_simps [simp]:
  "latest_verdict [] = Map.empty" "latest_verdict (vs @ [v]) = (latest_verdict vs)(vd_proofreader_id v \<mapsto> v)"
  by (simp_all add: latest_verdict_def)

lemma recorded_mono: "recorded V F c \<Longrightarrow> F \<subseteq> G \<Longrightarrow> recorded V G c"
  by (auto simp: recorded_def split: option.splits)

lemma open_candidate_ok:
  assumes "open_candidate (new_candidate p r m k now) s = Inr (c, s')" "agg_kept V F s"
    and "map_of (ag_pending s) p = None \<Longrightarrow> V p = []"
  shows "agg_kept V F s' \<and> recorded V F c \<and> ca_prediction_id c = p \<and> ag_ledger s' = ag_ledger s \<and> ag_quorum s' = ag_quorum s"
proof (cases "map_of (ag_pending s) p")
  case None
  then have e: "evict_if_full s = Inr s'" and c: "c = new_candidate p r m k now"
    using assms(1) by (auto simp: open_candidate_def res_iffs new_candidate_def)
  have "recorded V F c" using assms(3) [OF None] new_candidate_tally [of p r m k now]
    by (simp add: c recorded_def new_candidate_def)
  moreover have "agg_kept V F s'"
    using e assms(2) by (auto simp: evict_if_full_def agg_kept_def agg_ok_def od_wf_def split: if_splits list.splits)
  ultimately show ?thesis
    using e by (auto simp: c new_candidate_def evict_if_full_def split: if_splits list.splits)
next
  case (Some d)
  then have "s' = s" "c = d" using assms(1) by (auto simp: open_candidate_def new_candidate_def)
  with assms(2) map_of_SomeD [OF Some] show ?thesis by (auto simp: agg_kept_def agg_ok_def)
qed

lemma agg_kept_ok: "agg_kept V F s \<Longrightarrow> agg_ok s"
  by (simp add: agg_kept_def)

lemma agg_kept_mono: "agg_kept V F s \<Longrightarrow> F \<subseteq> G \<Longrightarrow> agg_kept V G s"
  using recorded_mono by (fastforce simp: agg_kept_def)

lemma handle_final_good:
  assumes kept: "agg_kept V F s" and fresh: "map_of (ag_pending s) (pf_prediction_id f) = None \<Longrightarrow> V (pf_prediction_id f) = []"
  shows "agg_good V (insert f F) s (handle_final env trace f s)"
proof (cases "already_processed (ag_ledger s) (aggregator_name, pf_prediction_id f)")
  case True
  with agg_kept_mono [OF kept subset_insertI [of F f]] show ?thesis by (auto simp: handle_final_def agg_good_quiet)
next
  case False
  show ?thesis
  proof (cases "open_candidate (new_candidate (pf_prediction_id f) (pf_request_id f) (pf_match_id f) (pf_market f) (ae_now_ms env)) s")
    case (Inl e)
    with agg_kept_mono [OF kept subset_insertI [of F f]] False show ?thesis by (auto simp: handle_final_def agg_good_quiet)
  next
    case (Inr cs)
    obtain c s1 where cs: "cs = (c, s1)" by (cases cs)
    note o = open_candidate_ok [OF Inr [unfolded cs] kept fresh]
    let ?c = "if ca_final c = None then c\<lparr>ca_final := Some f\<rparr> else c"
    have "recorded V (insert f F) ?c" using o by (auto simp: recorded_def tally_ok_def split: option.splits)
    moreover have "agg_kept V (insert f F) s1" using o by (auto intro: agg_kept_mono)
    ultimately have "agg_good V (insert f F) s1 (settle env trace ?c s1)"
      by (intro settle_good) (auto simp: agg_kept_def)
    from agg_good_frame [OF _ _ this, of s] o show ?thesis
      using False Inr cs by (simp add: handle_final_def)
  qed
qed

lemma handle_verdict_good:
  fixes v :: verdict and s :: aggregator and H :: "string \<Rightarrow> verdict list"
  defines "p \<equiv> vd_prediction_id v"
  defines "V \<equiv> (if already_processed (ag_ledger s) (aggregator_name, p) then H else H(p := H p @ [v]))"
  assumes kept: "agg_kept H F s" and fresh: "map_of (ag_pending s) p = None \<Longrightarrow> H p = []"
  shows "agg_good V F s (handle_verdict env trace v s)"
proof (cases "already_processed (ag_ledger s) (aggregator_name, p)")
  case True
  with kept show ?thesis by (simp add: handle_verdict_def agg_good_quiet p_def V_def)
next
  case False
  have V: "V = H(p := H p @ [v])" using False by (simp add: V_def)
  have others: "recorded V F (snd kc)" if "kc \<in> set (ag_pending t)" "fst kc \<noteq> p" "agg_kept H F t" for kc t
    using that by (auto simp: V agg_kept_def agg_ok_def recorded_def)
  show ?thesis
  proof (cases "open_candidate (new_candidate p (vd_request_id v) (vd_match_id v) (vd_market v) (ae_now_ms env)) s")
    case (Inl e)
    then have "map_of (ag_pending s) p = None" by (auto simp: open_candidate_def new_candidate_def split: option.splits)
    then have "fst kc \<noteq> p" if "kc \<in> set (ag_pending s)" for kc using that by (auto simp: map_of_eq_None_iff)
    then have "agg_kept V F s" using others kept by (auto simp: agg_kept_def)
    with Inl False show ?thesis by (simp add: handle_verdict_def agg_good_quiet p_def)
  next
    case (Inr cs)
    obtain c s1 where cs: "cs = (c, s1)" by (cases cs)
    note o = open_candidate_ok [OF Inr [unfolded cs] kept fresh]
    have "recorded V F (set_verdict v c)"
      using o by (simp add: recorded_def set_verdict_tally set_verdict_fields od_simps V)
    moreover have "ca_prediction_id (set_verdict v c) = p" using o by (simp add: set_verdict_fields)
    ultimately have "agg_good V F s1 (settle env trace (set_verdict v c) s1)"
      using o others [of _ s1] by (intro settle_good) (auto simp: agg_kept_ok)
    from agg_good_frame [OF _ _ this, of s] o show ?thesis
      using False Inr cs by (simp add: handle_verdict_def p_def)
  qed
qed

lemma od_wf_filter [intro]: "od_wf d \<Longrightarrow> od_wf (filter P d)"
  by (simp add: od_wf_def distinct_map_filter)

text \<open>One step, with what it adds to what was heard.\<close>

lemma aggregator_step_good:
  assumes kept: "agg_kept H F s" and fresh: "\<And>p. map_of (ag_pending s) p = None \<Longrightarrow> H p = []"
  shows "agg_good (\<lambda>p. H p @ verdict_heard L s i p) (final_heard L i \<union> F) s (aggregator_step L s i)"
proof -
  have topics: "predict_final_topic \<noteq> verdict_topic" by (simp add: predict_final_topic_def verdict_topic_def)
  have flush: "agg_good H F s (agg_finalize_all env cs (s\<lparr>ag_pending := d\<rparr>))"
    if "set cs \<subseteq> snd ` set (ag_pending s)" "od_wf d" "set d \<subseteq> set (ag_pending s)" for env cs d
  proof -
    have "list_all (recorded H F) cs" using kept that(1) by (fastforce simp: agg_kept_def list_all_iff)
    from agg_good_frame [OF _ _ agg_finalize_all_good [OF agg_kept_pending_subset [OF kept that(2,3)] this], of s]
    show ?thesis by simp
  qed
  have ok: "od_wf (ag_pending s)" using kept by (simp add: agg_kept_def agg_ok_def)
  show ?thesis
  proof (cases i)
    case (Agg_Deliver env msg)
    let ?t = "en_topic (msg_envelope msg)"
    have step: "aggregator_step L s i = aggregator_handle L env msg s" by (simp add: aggregator_step_def Agg_Deliver)
    have idle: "agg_good H F s ([], s)" "agg_good H F s ([Failed e], s)" for e using kept by (simp_all add: agg_good_quiet)
    have quiet: "agg_good H F s (if e \<in> {KeyError, TypeError, ValueError} then [] else [Failed e], s)" for e
      using idle by simp
    consider (final) f where "?t = predict_final_topic" "predict_final_from_dict L (msg_payload msg) = Inr f"
      | (verdict) v where "?t = verdict_topic" "verdict_from_dict L (msg_payload msg) = Inr v"
      | (bad_final) e where "?t = predict_final_topic" "predict_final_from_dict L (msg_payload msg) = Inl e"
      | (bad_verdict) e where "?t = verdict_topic" "verdict_from_dict L (msg_payload msg) = Inl e"
      | (neither) "?t \<noteq> predict_final_topic" "?t \<noteq> verdict_topic"
      by (cases "predict_final_from_dict L (msg_payload msg)"; cases "verdict_from_dict L (msg_payload msg)"; blast)
    then show ?thesis
    proof cases
      case final
      have "verdict_heard L s i = (\<lambda>_. [])" "final_heard L i = {f}"
        using final topics by (auto simp: verdict_heard_def final_heard_def Agg_Deliver)
      then show ?thesis
        using handle_final_good [OF kept fresh, of f env "en_trace_id (msg_envelope msg)"] final
        by (simp add: step aggregator_handle_def Let_def)
    next
      case verdict
      have "(\<lambda>p. H p @ verdict_heard L s i p) =
          (if already_processed (ag_ledger s) (aggregator_name, vd_prediction_id v) then H
           else H(vd_prediction_id v := H (vd_prediction_id v) @ [v]))" "final_heard L i = {}"
        using verdict topics by (auto simp: verdict_heard_def final_heard_def Agg_Deliver fun_eq_iff)
      then show ?thesis
        using handle_verdict_good [OF kept fresh, of v env "en_trace_id (msg_envelope msg)"] verdict topics
        by (simp add: step aggregator_handle_def Let_def)
    next
      case bad_final
      then have "verdict_heard L s i = (\<lambda>_. [])" "final_heard L i = {}"
        using topics by (auto simp: verdict_heard_def final_heard_def Agg_Deliver)
      then show ?thesis using quiet idle bad_final topics by (simp add: step aggregator_handle_def Let_def)
    next
      case bad_verdict
      then have "verdict_heard L s i = (\<lambda>_. [])" "final_heard L i = {}"
        using topics by (auto simp: verdict_heard_def final_heard_def Agg_Deliver)
      then show ?thesis using quiet idle bad_verdict topics by (simp add: step aggregator_handle_def Let_def)
    next
      case neither
      then have "verdict_heard L s i = (\<lambda>_. [])" "final_heard L i = {}"
        by (auto simp: verdict_heard_def final_heard_def Agg_Deliver)
      then show ?thesis using idle neither by (simp add: step aggregator_handle_def Let_def)
    qed
  next
    case (Agg_Flush env now)
    then show ?thesis
      using ok by (auto simp: aggregator_step_def agg_flush_expired_def verdict_heard_def final_heard_def Let_def intro!: flush)
  next
    case (Agg_Flush_All env)
    then show ?thesis
      using ok by (auto simp: aggregator_step_def agg_flush_all_def verdict_heard_def final_heard_def intro!: flush)
  qed
qed

lemma latest_verdict_map:
  "distinct (map fst d) \<Longrightarrow> list_all (\<lambda>kv. vd_proofreader_id (snd kv) = fst kv) d \<Longrightarrow> latest_verdict (map snd d) = map_of d"
proof (induction d rule: rev_induct)
  case (snoc x d)
  obtain k v where x: "x = (k, v)" by (cases x)
  have "map_of d k = None" using snoc.prems(1) by (simp add: x map_of_eq_None_iff)
  then have "(map_of d)(k \<mapsto> v) = map_of (d @ [x])" by (auto simp: x map_add_def fun_eq_iff split: option.split)
  then show ?case using snoc by (simp add: x)
qed simp

text \<open>Every state of the invariant records something.\<close>

lemma agg_ok_kept:
  assumes "agg_ok s"
  obtains H where "agg_kept H UNIV s" "\<And>p. map_of (ag_pending s) p = None \<Longrightarrow> H p = []"
proof
  let ?H = "\<lambda>p. case map_of (ag_pending s) p of None \<Rightarrow> [] | Some c \<Rightarrow> map snd (ca_verdicts c)"
  show "?H p = []" if "map_of (ag_pending s) p = None" for p using that by simp
  have "recorded ?H UNIV c" if "(k, c) \<in> set (ag_pending s)" for k c
  proof -
    have "map_of (ag_pending s) k = Some c" "ca_prediction_id c = k" "tally_ok c"
      using that assms by (auto simp: agg_ok_def od_wf_def)
    then show ?thesis using latest_verdict_map [of "ca_verdicts c"]
      by (simp add: recorded_def tally_ok_def od_wf_def split: option.split)
  qed
  then show "agg_kept ?H UNIV s" using assms by (auto simp: agg_kept_def)
qed

interpretation aggregator: single_publication already_processed mark_processed ledger_room ledger_ok
  "aggregator_step L" ag_ledger agg_key agg_ok for L
proof unfold_locales
  fix s i out s'
  assume ok: "agg_ok s" and step: "aggregator_step L s i = (out, s')"
  obtain H where "agg_kept H UNIV s" "\<And>p. map_of (ag_pending s) p = None \<Longrightarrow> H p = []" using agg_ok_kept [OF ok] by blast
  from aggregator_step_good [OF this, of L i]
  show "claims already_processed mark_processed (ag_ledger s) (List.map_filter agg_key out) (ag_ledger s') \<and> agg_ok s'"
    by (auto simp: agg_good_def step dest: agg_kept_ok)
qed

lemma recorded_forget:
  "recorded V F c \<Longrightarrow> (map_of (ag_pending s) (ca_prediction_id c) \<noteq> None) \<Longrightarrow>
     recorded (\<lambda>p. if map_of (ag_pending s) p = None then [] else V p) F c"
  by (auto simp: recorded_def split: option.splits)

lemma heard_kept:
  assumes "agg_kept H F s" "\<And>p. map_of (ag_pending s) p = None \<Longrightarrow> H p = []" "run_agent (aggregator_step L) s is = (outs, s')"
  shows "agg_kept (heard L H s is) (\<Union> (final_heard L ` set is) \<union> F) s' \<and> ag_quorum s' = ag_quorum s \<and>
    (\<forall>p. map_of (ag_pending s') p = None \<longrightarrow> heard L H s is p = [])"
  using assms
proof (induction "is" arbitrary: s H F outs)
  case Nil
  then show ?case by simp
next
  case (Cons i "is")
  obtain out s1 where 1: "aggregator_step L s i = (out, s1)" by force
  obtain outs' where 2: "run_agent (aggregator_step L) s1 is = (outs', s')"
    using Cons.prems(3) 1 by (auto split: prod.splits)
  let ?V = "\<lambda>p. H p @ verdict_heard L s i p"
  let ?H = "\<lambda>p. if map_of (ag_pending s1) p = None then [] else ?V p"
  have g: "agg_kept ?V (final_heard L i \<union> F) s1" "ag_quorum s1 = ag_quorum s"
    using aggregator_step_good [OF Cons.prems(1,2), of L i] 1 by (simp_all add: agg_good_def)
  have "recorded ?H (final_heard L i \<union> F) c" if "(k, c) \<in> set (ag_pending s1)" for k c
  proof (rule recorded_forget)
    show "recorded ?V (final_heard L i \<union> F) c" using g(1) that by (auto simp: agg_kept_def)
    have "ca_prediction_id c = k" using g(1) that by (auto simp: agg_kept_def agg_ok_def)
    then show "map_of (ag_pending s1) (ca_prediction_id c) \<noteq> None" using weak_map_of_SomeI [OF that] by simp
  qed
  then have "agg_kept ?H (final_heard L i \<union> F) s1" using g(1) by (auto simp: agg_kept_def)
  from Cons.IH [OF this _ 2] g(2) show ?case by (simp add: 1 Un_ac)
qed

text \<open>
  C3: nothing is approved without a quorum. Take any run from a new aggregator and the step after it. A \<open>predict.approved.v1\<close> message of
  that step is the only message of its decision and decodes for every consumer. Among the verdicts delivered for its prediction since the
  aggregator last opened a candidate for it, the latest of each proofreader counts: none of these is a reject, the approval names exactly the
  proofreaders of those that accept or warn, each once and as many as the quorum asks for, and it states how many proofreaders voted. It embeds
  a final that was delivered, with its own prediction id.
\<close>

theorem approvals_sound:
  assumes "aggregator_init led window quorum max_pending = Inr s0"
    and "run_agent (aggregator_step L) s0 is = (outs, s)" and "aggregator_step L s i = (out, s')"
    and "x \<in> set out" "e \<in> set (outcome_emissions x)" "em_topic e = predict_approved_topic"
  shows "\<exists>pid a f latest. latest = latest_verdict (heard L (\<lambda>_. []) s0 is pid @ verdict_heard L s i pid) \<and>
    x = Closed pid (Inr [e]) \<and> (\<forall>M. approved_from_dict M (em_payload e) = Inr a) \<and> ap_prediction_id a = pid \<and>
    quorum \<le> int (length (ap_approved_by a)) \<and> distinct (ap_approved_by a) \<and>
    set (ap_approved_by a) = {k. \<exists>v. latest k = Some v \<and> vd_verdict v \<in> {''accept'', ''warn''}} \<and>
    (\<forall>k v. latest k = Some v \<longrightarrow> vd_verdict v \<noteq> ''reject'') \<and> ap_verdict_count a = int (card (dom latest)) \<and>
    f \<in> \<Union> (final_heard L ` set (is @ [i])) \<and> pf_prediction_id f = pid \<and> ap_final a = predict_final_as_dict f"
proof -
  have init: "agg_kept (\<lambda>_. []) {} s0" "ag_quorum s0 = quorum"
    using agg_ok_init [OF assms(1)] assms(1) by (auto simp: agg_kept_def aggregator_init_def res_iffs)
  note h = heard_kept [OF init(1) refl assms(2)]
  let ?V = "\<lambda>p. heard L (\<lambda>_. []) s0 is p @ verdict_heard L s i p"
  let ?F = "final_heard L i \<union> (\<Union> (final_heard L ` set is) \<union> {})"
  have "list_all (agg_outcome_ok ?V ?F quorum) out"
    using aggregator_step_good [of "heard L (\<lambda>_. []) s0 is" "\<Union> (final_heard L ` set is) \<union> {}" s L i] h init(2) assms(3)
    by (simp add: agg_good_def)
  then obtain pid where "x = Closed pid (Inr [e])" "approval_ok ?V ?F quorum pid e"
    using assms(4-6) by (auto simp: list_all_iff agg_outcome_ok_def)
  then show ?thesis unfolding approval_ok_def by (elim exE conjE) (intro exI conjI, rule refl, assumption+, auto)
qed


section \<open>Two consequences of the order of its steps\<close>

lemma settle_decides:
  assumes "ca_final c = Some f" "has_reject c \<or> ag_quorum s \<le> ca_accept_warn c"
    and "\<not> already_processed (ag_ledger s) (aggregator_name, ca_prediction_id c)"
  shows "settle env trace c s =
    (let r = decide_candidate env (Some trace) (ag_quorum s) c;
         s1 = s\<lparr>ag_pending := od_del (ca_prediction_id c) (ag_pending s),
                ag_ledger := mark_processed (ag_ledger s) (aggregator_name, ca_prediction_id c)\<rparr> in
     case r of Inl e \<Rightarrow> ([Closed (ca_prediction_id c) r], s1)
     | Inr es \<Rightarrow> ([Notes (map (\<lambda>v. candidate_overflow_flag v (Some trace)) (ag_overflow s)), Closed (ca_prediction_id c) r],
         s1\<lparr>ag_overflow := []\<rparr>))"
  using assms
  by (cases "decide_candidate env (Some trace) (ag_quorum s) c")
    (simp_all add: settle_def maybe_finalize_def agg_finalize_def Let_def od_simps)

text \<open>
  A missing signing key costs the prediction. The aggregator marks a prediction before it loads the
  citation key; when the verdict that completes the quorum finds no key, the exception leaves the
  handler, the candidate is gone, and although nothing was published every later verdict is dropped as late
  and every later final is ignored.
\<close>

lemma missing_key_burns_approval:
  assumes "ledger_ok (ag_ledger s)" "\<not> already_processed (ag_ledger s) (aggregator_name, vd_prediction_id v)"
    and "map_of (ag_pending s) (vd_prediction_id v) = Some c" "ca_prediction_id c = vd_prediction_id v"
    and "ca_final c = Some f" "\<not> has_reject (set_verdict v c)" "ag_quorum s \<le> ca_accept_warn (set_verdict v c)"
    and "ae_key env (vd_prediction_id v) = Inl RuntimeError"
    and "vd_prediction_id w = vd_prediction_id v" "pf_prediction_id g = vd_prediction_id v"
  shows "\<exists>s'. handle_verdict env trace v s = ([Closed (vd_prediction_id v) (Inl RuntimeError)], s') \<and>
    map_of (ag_pending s') (vd_prediction_id v) = None \<and>
    handle_verdict env2 trace2 w s' = ([Notes [late_verdict_flag w trace2]], s') \<and>
    handle_final env2 trace2 g s' = ([], s')"
proof -
  let ?s = "s\<lparr>ag_pending := od_del (vd_prediction_id v) (ag_pending s),
    ag_ledger := mark_processed (ag_ledger s) (aggregator_name, vd_prediction_id v)\<rparr>"
  have c: "ca_prediction_id (set_verdict v c) = vd_prediction_id v" "ca_final (set_verdict v c) = Some f"
    using assms(4,5) by (simp_all add: set_verdict_fields)
  have "decide_candidate env (Some trace) (ag_quorum s) (set_verdict v c) = Inl RuntimeError"
    using assms(6-8) c by (simp add: decide_candidate_def approval_def)
  then have "handle_verdict env trace v s = ([Closed (vd_prediction_id v) (Inl RuntimeError)], ?s)"
    using assms(2,3,7) c
    by (simp add: handle_verdict_def open_candidate_def new_candidate_def settle_decides)
  then show ?thesis
    using mem.seen_mark [OF assms(1)] assms(9,10)
    by (simp add: handle_verdict_def handle_final_def od_simps)
qed

text \<open>
  An approval is named by whoever came first. When a verdict opens the candidate, the approval takes
  match, market and request id from that verdict, whatever the final it embeds says: with a quorum of one, an
  accepting verdict followed by the final approves the verdict's match with the final of another.
\<close>

lemma approval_named_by_first_message:
  assumes "ag_quorum s = 1" "accept_warn v" "\<not> already_processed (ag_ledger s) (aggregator_name, vd_prediction_id v)"
    and "map_of (ag_pending s) (vd_prediction_id v) = None" "int (length (ag_pending s)) < ag_max_pending s"
    and "pf_prediction_id f = vd_prediction_id v" "ae_key env (vd_prediction_id v) = Inr (key, key_id)"
    and "handle_verdict env trace v s = (out1, s1)" "handle_final env trace f s1 = (out2, s2)"
  shows "\<exists>e flags a. out2 = [Notes flags, Closed (vd_prediction_id v) (Inr [e])] \<and> em_topic e = predict_approved_topic \<and>
    approved_from_dict M (em_payload e) = Inr a \<and> ap_match_id a = vd_match_id v \<and>
    ap_request_id a = vd_request_id v \<and> ap_market a = py_lower (vd_market v) \<and> ap_final a = predict_final_as_dict f"
proof -
  let ?pid = "vd_prediction_id v"
  let ?n = "new_candidate ?pid (vd_request_id v) (vd_match_id v) (vd_market v) (ae_now_ms env)"
  let ?c = "set_verdict v ?n"
  have c: "ca_prediction_id ?c = ?pid" "ca_final ?c = None" "ca_accept_warn ?c = 1" "\<not> has_reject ?c"
    "ca_match_id ?c = vd_match_id v" "ca_market ?c = vd_market v" "ca_request_id ?c = vd_request_id v"
    using assms(2) accept_not_reject [OF assms(2)]
    by (auto simp: set_verdict_def uncount_def new_candidate_def has_reject_def Let_def)
  have t: "tally_ok ?c" by (rule set_verdict_tally [OF new_candidate_tally])
  have "handle_verdict env trace v s = ([Notes (map (\<lambda>x. candidate_overflow_flag x (Some trace)) (ag_overflow s)), Notes []],
      s\<lparr>ag_pending := od_set ?pid ?c (ag_pending s), ag_overflow := []\<rparr>)"
    using assms(3-5) c(1,2)
    by (simp add: handle_verdict_def open_candidate_def evict_if_full_def settle_def maybe_finalize_def new_candidate_def)
  then have s1: "s1 = s\<lparr>ag_pending := od_set ?pid ?c (ag_pending s), ag_overflow := []\<rparr>" using assms(8) by simp
  let ?d = "?c\<lparr>ca_final := Some f\<rparr>"
  have d: "tally_ok ?d" "\<not> has_reject ?d" "ca_final ?d = Some f" "1 \<le> ca_accept_warn ?d" "ca_prediction_id ?d = ?pid"
    using c t assms(6) by (simp_all add: tally_ok_def has_reject_def)
  have key: "ae_key env (ca_prediction_id ?d) = Inr (key, key_id)" using c assms(7) by simp
  obtain a where a: "approval env 1 ?d f = Inr a"
    using approval_sound [OF d(1) _ d(2-4) key, of "\<lambda>_. []" "{}" None] by auto
  then have fields: "ap_match_id a = vd_match_id v" "ap_request_id a = vd_request_id v" "ap_market a = py_lower (vd_market v)"
    "ap_final a = predict_final_as_dict f" and check: "approved_check a = Inr a"
    using key c approved_check_idem by (auto simp: approval_def res_iffs approved_check_def Let_def)
  have "decide_candidate env (Some trace) 1 ?d = Inr [agg_emission predict_approved_topic (approved_as_dict a) (Some trace)]"
    using a d by (simp add: decide_candidate_def)
  then have "handle_final env trace f s1 = (let e = agg_emission predict_approved_topic (approved_as_dict a) (Some trace) in
      ([Notes [], Closed ?pid (Inr [e])], s1\<lparr>ag_pending := od_del ?pid (ag_pending s1),
        ag_ledger := mark_processed (ag_ledger s1) (aggregator_name, ?pid), ag_overflow := []\<rparr>))"
    using assms(1,3,6) c d
    by (simp add: handle_final_def open_candidate_def new_candidate_def s1 od_simps settle_decides Let_def)
  then show ?thesis
    using assms(9) fields approved_wire [OF check, of M] by (simp add: agg_emission_def Let_def)
qed

section \<open>Concrete runs\<close>

definition example_aggregator :: aggregator where
  "example_aggregator = \<lparr>ag_ledger = \<lparr>ml_max_size = 4, ml_seen = []\<rparr>, ag_window_ms = 100, ag_quorum = 1,
     ag_max_pending = 2, ag_pending = [], ag_overflow = []\<rparr>"

definition example_env :: "(string \<times> string) res \<Rightarrow> aggregator_env" where
  "example_env key = \<lparr>ae_now_ms = 0, ae_stamp = (\<lambda>_. ''t''), ae_key = (\<lambda>_. key), ae_hmac = (\<lambda>k m. m)\<rparr>"

definition example_final :: predict_final where
  "example_final = \<lparr>pf_request_id = ''r1'', pf_prediction_id = ''p1'', pf_match_id = ''m2'', pf_market = ''btts'',
     pf_distribution = [(''market_outcomes'', JObj [])], pf_weights = [], pf_contributing_models = [''a''],
     pf_calibration_version = 0, pf_swarm_confidence = 1, pf_degraded = False, pf_degraded_reason = [],
     pf_produced_at = ''t'', pf_league_id = JNull, pf_profile_id = JNull\<rparr>"

definition agg_message :: "topic \<Rightarrow> jobj \<Rightarrow> message" where
  "agg_message t d = message_new \<lparr>fr_message_id = ''i'', fr_trace_id = ''t'', fr_now = ''n''\<rparr> t d ''x'' None"

definition accept_message :: message where
  "accept_message = agg_message verdict_topic (verdict_as_dict (example_verdict ''a'' ''accept''))"

definition final_message :: message where
  "final_message = agg_message predict_final_topic (predict_final_as_dict example_final)"

lemma example_accepts: "accept_warn (example_verdict a ''accept'')"
  by (simp add: accept_warn_def example_verdict_def)

lemma example_aggregator_fields:
  "ag_quorum example_aggregator = 1" "ag_pending example_aggregator = []" "ag_max_pending example_aggregator = 2"
  "ledger_ok (ag_ledger example_aggregator)" "\<not> already_processed (ag_ledger example_aggregator) k"
  "ledger_room (ag_ledger example_aggregator) = 4"
  by (simp_all add: example_aggregator_def ledger_ok_def already_processed_def ledger_room_def)

lemma example_verdict_fields:
  "vd_prediction_id (example_verdict a w) = ''p1''" "vd_match_id (example_verdict a w) = ''m1''"
  "vd_proofreader_id (example_verdict a w) = a" "pf_prediction_id example_final = ''p1''"
  by (simp_all add: example_verdict_def example_final_def)

lemma example_delivers:
  "aggregator_step L s (Agg_Deliver env accept_message) = handle_verdict env ''t'' (example_verdict ''a'' ''accept'') s"
  "aggregator_step L s (Agg_Deliver env final_message) = handle_final env ''t'' example_final s"
proof -
  have "verdict_check (example_verdict ''a'' ''accept'') = Inr (example_verdict ''a'' ''accept'')"
    "predict_final_check example_final = Inr example_final"
    by (simp_all add: verdict_check_def example_verdict_def allowed_verdicts_def predict_final_check_def
        example_final_def allowed_markets_def)
  then show "aggregator_step L s (Agg_Deliver env accept_message) = handle_verdict env ''t'' (example_verdict ''a'' ''accept'') s"
    "aggregator_step L s (Agg_Deliver env final_message) = handle_final env ''t'' example_final s"
    by (simp_all add: aggregator_step_def aggregator_handle_def accept_message_def final_message_def agg_message_def
        message_new_def verdict_topic_def predict_final_topic_def verdict_wire predict_final_wire Let_def)
qed

text \<open>A verdict and then its final, with a quorum of one.\<close>

lemma example_steps:
  "\<exists>s1 s' flags1 flags2 e. run_agent (aggregator_step example_lib) example_aggregator
      [Agg_Deliver (example_env (Inr (''k'', ''i''))) accept_message] = ([Notes flags1, Notes []], s1) \<and>
    aggregator_step example_lib s1 (Agg_Deliver (example_env (Inr (''k'', ''i''))) final_message) =
      ([Notes flags2, Closed ''p1'' (Inr [e])], s') \<and> em_topic e = predict_approved_topic"
proof -
  let ?env = "example_env (Inr (''k'', ''i''))" and ?v = "example_verdict ''a'' ''accept''"
  let ?n = "new_candidate ''p1'' (vd_request_id ?v) ''m1'' (vd_market ?v) (ae_now_ms ?env)"
  let ?c = "set_verdict ?v ?n"
  have c: "ca_prediction_id ?c = ''p1''" "ca_final ?c = None" "ca_accept_warn ?c = 1" "\<not> has_reject ?c"
    using accept_not_reject [OF example_accepts] example_accepts
    by (auto simp: set_verdict_def uncount_def new_candidate_def has_reject_def Let_def)
  have t: "tally_ok (?c\<lparr>ca_final := Some example_final\<rparr>)"
    using set_verdict_tally [OF new_candidate_tally, of ?v "''p1''" "vd_request_id ?v" "''m1''" "vd_market ?v" "ae_now_ms ?env"] c
    by (simp add: tally_ok_def example_verdict_fields)
  have 1: "handle_verdict ?env ''t'' ?v example_aggregator = ([Notes [], Notes []], example_aggregator\<lparr>ag_pending := [(''p1'', ?c)]\<rparr>)"
    using c by (simp add: handle_verdict_def open_candidate_def evict_if_full_def settle_def maybe_finalize_def
        example_aggregator_fields example_verdict_fields new_candidate_def) (simp add: example_aggregator_def)
  let ?d = "?c\<lparr>ca_final := Some example_final\<rparr>"
  have d: "1 \<le> ca_accept_warn ?d" "\<not> has_reject ?d" "ca_final ?d = Some example_final" "ca_prediction_id ?d = ''p1''"
    using c by (simp_all add: has_reject_def)
  obtain a where a: "approval ?env 1 ?d example_final = Inr a"
    using approval_sound [OF t _ d(2,3,1), of ?env "''k''" "''i''" "\<lambda>_. []" "{}" None] by (auto simp: example_env_def)
  have "decide_candidate ?env (Some ''t'') 1 ?d = Inr [agg_emission predict_approved_topic (approved_as_dict a) (Some ''t'')]"
    using a d by (simp add: decide_candidate_def)
  then have 2: "\<exists>s2. handle_final ?env ''t'' example_final (example_aggregator\<lparr>ag_pending := [(''p1'', ?c)]\<rparr>) =
      ([Notes [], Closed ''p1'' (Inr [agg_emission predict_approved_topic (approved_as_dict a) (Some ''t'')])], s2)"
    using c d by (simp add: handle_final_def open_candidate_def new_candidate_def example_verdict_fields
        example_aggregator_fields settle_decides Let_def) (simp add: example_aggregator_def)
  then show ?thesis
    by (auto simp: example_delivers 1 agg_emission_def)
qed

lemma example_run:
  "\<exists>s' flags1 flags2 e. run_agent (aggregator_step example_lib) example_aggregator
      [Agg_Deliver (example_env (Inr (''k'', ''i''))) accept_message, Agg_Deliver (example_env (Inr (''k'', ''i''))) final_message] =
        ([Notes flags1, Notes [], Notes flags2, Closed ''p1'' (Inr [e])], s')"
proof -
  obtain s1 s' f1 f2 e where "run_agent (aggregator_step example_lib) example_aggregator
      [Agg_Deliver (example_env (Inr (''k'', ''i''))) accept_message] = ([Notes f1, Notes []], s1)"
    and "aggregator_step example_lib s1 (Agg_Deliver (example_env (Inr (''k'', ''i''))) final_message) =
      ([Notes f2, Closed ''p1'' (Inr [e])], s')"
    using example_steps by blast
  then show ?thesis by (auto split: prod.splits)
qed

lemma example_init: "aggregator_init \<lparr>ml_max_size = 4, ml_seen = []\<rparr> 100 1 2 = Inr example_aggregator"
  by (simp add: aggregator_init_def example_aggregator_def)

theorem approvals_sound_witness:
  "\<exists>(e :: emission) a. em_topic e = predict_approved_topic \<and> approved_from_dict example_lib (em_payload e) = Inr a \<and>
    ap_prediction_id a = ''p1'' \<and> ap_approved_by a \<noteq> []"
proof -
  obtain s1 s' f1 f2 e where r: "run_agent (aggregator_step example_lib) example_aggregator
      [Agg_Deliver (example_env (Inr (''k'', ''i''))) accept_message] = ([Notes f1, Notes []], s1)"
    "aggregator_step example_lib s1 (Agg_Deliver (example_env (Inr (''k'', ''i''))) final_message) =
      ([Notes f2, Closed ''p1'' (Inr [e])], s')" "em_topic e = predict_approved_topic"
    using example_steps by blast
  from approvals_sound [OF example_init r(1,2), of "Closed ''p1'' (Inr [e])" e] r(3)
  obtain a where "\<forall>M. approved_from_dict M (em_payload e) = Inr a" "ap_prediction_id a = ''p1''" "1 \<le> int (length (ap_approved_by a))"
    by auto
  with r(3) have "em_topic e = predict_approved_topic \<and> approved_from_dict example_lib (em_payload e) = Inr a \<and>
      ap_prediction_id a = ''p1'' \<and> ap_approved_by a \<noteq> []" by auto
  then show ?thesis by blast
qed


end
