(* ===== verification/Grids.thy ===== *)
theory Grids
  imports Fusion Calibration
begin

text \<open>
  The score-grid arithmetic of \<open>swarm/agents/predictors/_grid.py\<close>: Poisson probabilities by their recurrence,
  the joint grid with the Dixon-Coles correction, and the projections of a grid onto the four
  markets. An index outside a row raises, as in the source. A number is an exact real, except that \<open>flush\<close>
  turns an exponential and the products of the recurrence and of the joint grid that fall below
  the smallest double into zero, as the source's arithmetic does. The reference definitions
  are the Poisson density and the sum of a grid's cells over a set of scores (\<open>cells_sum\<close>).
\<close>

section \<open>Sums over cells\<close>

definition cells_sum :: "(nat \<Rightarrow> nat \<Rightarrow> bool) \<Rightarrow> nat \<Rightarrow> real list list \<Rightarrow> real" where
  "cells_sum P i0 g = (\<Sum>(i, row) \<leftarrow> enumerate i0 g. \<Sum>(j, p) \<leftarrow> enumerate 0 row. if P i j then p else 0)"

definition json_row :: "real list \<Rightarrow> jval" where
  "json_row row = JArr (map JFloat row)"

lemma sum_list_enumerate: "(\<Sum>(i, x) \<leftarrow> enumerate k xs. f i x) = (\<Sum>i < length xs. (f (k + i) (xs ! i) :: real))"
proof (induction xs arbitrary: k)
  case (Cons x xs)
  show ?case using Cons [of "Suc k"] by (simp add: sum.lessThan_Suc_shift del: sum.lessThan_Suc)
qed simp

lemma sum_list_lessThan: "sum_list xs = (\<Sum>i < length xs. (xs ! i :: real))"
  by (simp add: sum_list_sum_nth lessThan_atLeast0)

lemma cells_sum_square:
  assumes "grid_shape r c g"
  shows "cells_sum P 0 g = (\<Sum>i < r. \<Sum>j < c. if P i j then g ! i ! j else 0)"
  using assms by (simp add: cells_sum_def sum_list_enumerate grid_shape_def)

lemma cells_sum_all: "cells_sum (\<lambda>i j. True) 0 g = grid_total g"
  by (simp add: cells_sum_def sum_list_enumerate grid_total_def sum_list_lessThan [of "map sum_list g"] sum_list_lessThan [of "g ! i" for i])

lemma cells_sum_disjoint:
  assumes "grid_shape r c g" "\<And>i j. P i j \<Longrightarrow> \<not> Q i j"
  shows "cells_sum P 0 g + cells_sum Q 0 g = cells_sum (\<lambda>i j. P i j \<or> Q i j) 0 g"
  unfolding cells_sum_square [OF assms(1)] using assms(2)
  by (auto simp flip: sum.distrib intro!: sum.cong)

lemma cells_sum_nonneg: "list_all (list_all (\<lambda>p. 0 \<le> p)) g \<Longrightarrow> 0 \<le> cells_sum P 0 g"
  unfolding cells_sum_def sum_list_enumerate by (auto simp: list_all_length intro!: sum_nonneg)

section \<open>Poisson probabilities\<close>

text \<open>A double of magnitude at most \<open>2^-1075\<close> rounds to zero.\<close>

definition flush :: "real \<Rightarrow> real" where
  "flush x = (if \<bar>x\<bar> \<le> 1 / 2 ^ 1075 then 0 else x)"

fun poisson_loop :: "real \<Rightarrow> nat \<Rightarrow> real \<Rightarrow> nat \<Rightarrow> real list" where
  "poisson_loop lam k p 0 = []"
| "poisson_loop lam k p (Suc n) = (let q = flush (flush (p * lam) / real k) in q # poisson_loop lam (Suc k) q n)"

definition poisson_pmf :: "real \<Rightarrow> nat \<Rightarrow> real list" where
  "poisson_pmf lam max_k =
     (if lam \<le> 0 then 1 # replicate max_k 0
      else let p = flush (exp (- lam)) in p # poisson_loop lam 1 p max_k)"

definition poisson_density :: "real \<Rightarrow> nat \<Rightarrow> real" where
  "poisson_density lam k = exp (- lam) * lam ^ k / fact k"

text \<open>Rates whose probabilities stay far above the smallest double, so that products of two of them do as well.\<close>

definition in_range :: "real \<Rightarrow> nat \<Rightarrow> bool" where
  "in_range lam n \<longleftrightarrow> 0 < lam \<and> (\<forall>k \<le> n. 1 / 2 ^ 500 < poisson_density lam k)"

lemma in_range_pos: "in_range lam n \<Longrightarrow> 0 < lam"
  by (simp add: in_range_def)

lemma flush_large: "1 / 2 ^ 1000 < x \<Longrightarrow> flush x = x"
proof -
  have "1 / 2 ^ 1075 < (1 / 2 ^ 1000 :: real)" by (intro divide_strict_left_mono power_strict_increasing) simp_all
  then show "1 / 2 ^ 1000 < x \<Longrightarrow> flush x = x" by (simp add: flush_def)
qed

lemma flush_tiny: "\<bar>x\<bar> \<le> 1 / 2 ^ 1075 \<Longrightarrow> flush x = 0"
  by (simp add: flush_def)

lemma tiny_powers: "1 / 2 ^ 1000 < (1 / 2 ^ 500 :: real)"
  by (intro divide_strict_left_mono power_strict_increasing) simp_all

lemma flush_density:
  assumes "1 / 2 ^ 500 < poisson_density lam (Suc k)"
  shows "flush (flush (poisson_density lam k * lam) / real (Suc k)) = poisson_density lam (Suc k)"
proof -
  have "poisson_density lam k * lam / real (Suc k) = poisson_density lam (Suc k)"
    by (simp add: poisson_density_def field_simps)
  then have step: "poisson_density lam k * lam = poisson_density lam (Suc k) * real (Suc k)"
    by (simp add: nonzero_divide_eq_eq del: of_nat_Suc)
  have "0 < (1 / 2 ^ 500 :: real)" by simp
  with assms have pos: "0 < poisson_density lam (Suc k)" by linarith
  then have "poisson_density lam (Suc k) * 1 \<le> poisson_density lam (Suc k) * real (Suc k)"
    by (intro mult_left_mono) simp_all
  with assms tiny_powers have "1 / 2 ^ 1000 < poisson_density lam (Suc k) * real (Suc k)" by linarith
  from flush_large [OF this] have "flush (poisson_density lam k * lam) / real (Suc k) = poisson_density lam (Suc k)"
    unfolding step by (simp del: of_nat_Suc)
  with assms tiny_powers show ?thesis by (simp add: flush_large)
qed

lemma poisson_loop_density:
  assumes "\<forall>j \<le> k + n. 1 / 2 ^ 500 < poisson_density lam j"
  shows "poisson_loop lam (Suc k) (poisson_density lam k) n = map (poisson_density lam) [Suc k..<Suc k + n]"
  using assms
proof (induction n arbitrary: k)
  case (Suc n)
  have "poisson_loop lam (Suc (Suc k)) (poisson_density lam (Suc k)) n = map (poisson_density lam) [Suc (Suc k)..<Suc (Suc k) + n]"
    using Suc.prems by (intro Suc.IH) simp
  moreover have "flush (flush (poisson_density lam k * lam) / real (Suc k)) = poisson_density lam (Suc k)"
    using Suc.prems by (intro flush_density) simp
  ultimately show ?case
    by (simp add: Let_def upt_conv_Cons del: upt_Suc of_nat_Suc)
qed simp

lemma poisson_pmf_density:
  assumes "in_range lam n"
  shows "poisson_pmf lam n = map (poisson_density lam) [0..<Suc n]"
proof -
  have "flush (exp (- lam)) = poisson_density lam 0"
    using assms tiny_powers by (auto simp: in_range_def poisson_density_def intro!: flush_large)
  moreover have "poisson_loop lam (Suc 0) (poisson_density lam 0) n = map (poisson_density lam) [Suc 0..<Suc 0 + n]"
    using assms by (intro poisson_loop_density) (simp add: in_range_def)
  ultimately show ?thesis
    using in_range_pos [OF assms] by (simp add: poisson_pmf_def Let_def upt_conv_Cons del: upt_Suc)
qed

lemma poisson_density_pos: "0 < lam \<Longrightarrow> 0 < poisson_density lam k"
  by (simp add: poisson_density_def)

text \<open>The rates of football: between a twentieth and two hundred goals, for up to eight goals.\<close>

lemma exp_bound: "exp (200 :: real) \<le> 2 ^ 400"
proof -
  have "exp (200 :: real) = exp (real 200 * 1)" by simp
  also have "\<dots> = exp 1 ^ 200" by (rule exp_of_nat_mult)
  also have "\<dots> \<le> 4 ^ 200" using exp_le by (intro power_mono) simp_all
  also have "\<dots> = (2 ^ 400 :: real)" by simp
  finally show ?thesis .
qed

lemma football_rates:
  assumes "1 / 20 \<le> lam" "lam \<le> 200"
  shows "in_range lam 8"
  unfolding in_range_def
proof (intro conjI allI impI)
  show "0 < lam" using assms by simp
  fix k :: nat assume k: "k \<le> 8"
  have "1 / 2 ^ 400 \<le> 1 / exp (200 :: real)" using exp_bound by (intro divide_left_mono) simp_all
  also have "\<dots> \<le> exp (- lam)" using assms by (simp add: exp_minus field_simps)
  finally have e: "1 / 2 ^ 400 \<le> exp (- lam)" .
  have "(1 / 2 ^ 40 :: real) \<le> (1 / 20) ^ 8" by (simp add: power_divide)
  also have "\<dots> \<le> (1 / 20) ^ k" using k by (intro power_decreasing) simp_all
  also have "\<dots> \<le> lam ^ k" using assms by (intro power_mono) simp_all
  finally have p: "1 / 2 ^ 40 \<le> lam ^ k" .
  have "(fact k :: real) \<le> fact 8" using k by (intro fact_mono) simp_all
  also have "\<dots> \<le> 2 ^ 16" by (simp add: fact_numeral)
  finally have f: "(fact k :: real) \<le> 2 ^ 16" .
  have "(1 / 2 ^ 500 :: real) < 1 / 2 ^ 400 * (1 / 2 ^ 40) / 2 ^ 16" by simp
  also have "\<dots> \<le> exp (- lam) * lam ^ k / fact k"
    using e p f by (intro frac_le mult_mono) simp_all
  finally show "1 / 2 ^ 500 < poisson_density lam k" by (simp add: poisson_density_def)
qed

section \<open>The joint grid\<close>

definition max_goals_default :: nat where
  "max_goals_default = 8"

definition dc_correction :: "nat \<Rightarrow> nat \<Rightarrow> real \<Rightarrow> real \<Rightarrow> real \<Rightarrow> real" where
  "dc_correction h a lam_h lam_a rho =
     (if h = 0 \<and> a = 0 then 1 - lam_h * lam_a * rho
      else if h = 0 \<and> a = 1 then 1 + lam_h * rho
      else if h = 1 \<and> a = 0 then 1 + lam_a * rho
      else if h = 1 \<and> a = 1 then 1 - rho
      else 1)"

definition grid_cell :: "real \<Rightarrow> real \<Rightarrow> real option \<Rightarrow> real list \<Rightarrow> real list \<Rightarrow> nat \<Rightarrow> nat \<Rightarrow> real" where
  "grid_cell lam_h lam_a dc_rho h_pmf a_pmf h a =
     (case dc_rho of
        None \<Rightarrow> flush (h_pmf ! h * a_pmf ! a)
      | Some rho \<Rightarrow>
          let v = flush (h_pmf ! h * a_pmf ! a) * dc_correction h a lam_h lam_a rho in
          if v < 0 then 0 else v)"

definition score_grid :: "real \<Rightarrow> real \<Rightarrow> real option \<Rightarrow> nat \<Rightarrow> real list list" where
  "score_grid lam_h lam_a dc_rho max_goals =
     (let h_pmf = poisson_pmf lam_h max_goals;
          a_pmf = poisson_pmf lam_a max_goals;
          grid = map (\<lambda>h. map (grid_cell lam_h lam_a dc_rho h_pmf a_pmf h) [0..<max_goals + 1]) [0..<max_goals + 1];
          total = grid_total grid in
      if 0 < total then map (map (\<lambda>v. v * (1 / total))) grid else grid)"

definition raw_cell :: "real \<Rightarrow> real \<Rightarrow> real option \<Rightarrow> nat \<Rightarrow> nat \<Rightarrow> real" where
  "raw_cell lam_h lam_a dc_rho h a =
     max 0 (poisson_density lam_h h * poisson_density lam_a a *
       (case dc_rho of None \<Rightarrow> 1 | Some rho \<Rightarrow> dc_correction h a lam_h lam_a rho))"

lemma grid_cell_raw:
  assumes "in_range lam_h n" "in_range lam_a n" "h \<le> n" "a \<le> n"
  shows "grid_cell lam_h lam_a rho (poisson_pmf lam_h n) (poisson_pmf lam_a n) h a = raw_cell lam_h lam_a rho h a"
proof -
  have p: "poisson_pmf lam_h n ! h = poisson_density lam_h h" "poisson_pmf lam_a n ! a = poisson_density lam_a a"
    using assms by (simp_all add: poisson_pmf_density nth_append del: upt_Suc)
  have "(1 / 2 ^ 1000 :: real) = 1 / 2 ^ 500 * (1 / 2 ^ 500)" by (simp flip: power_add)
  also have "\<dots> < poisson_density lam_h h * poisson_density lam_a a"
    using assms by (intro mult_strict_mono) (auto simp: in_range_def intro: less_imp_le order.strict_trans2)
  finally have large: "1 / 2 ^ 1000 < poisson_density lam_h h * poisson_density lam_a a" .
  have "0 < poisson_density lam_h h * poisson_density lam_a a"
    using assms by (simp add: poisson_density_pos in_range_pos)
  then show ?thesis
    unfolding grid_cell_def raw_cell_def p flush_large [OF large] by (auto simp: Let_def split: option.splits)
qed

definition raw_grid :: "real \<Rightarrow> real \<Rightarrow> real option \<Rightarrow> nat \<Rightarrow> real list list" where
  "raw_grid lam_h lam_a rho n = map (\<lambda>h. map (raw_cell lam_h lam_a rho h) [0..<Suc n]) [0..<Suc n]"

lemma raw_grid_shape: "grid_shape (Suc n) (Suc n) (raw_grid lam_h lam_a rho n)"
  by (auto simp: grid_shape_def raw_grid_def)

lemma raw_grid_nonneg: "list_all (list_all (\<lambda>p. 0 \<le> p)) (raw_grid lam_h lam_a rho n)"
  by (auto simp: raw_grid_def list_all_iff raw_cell_def)

text \<open>A score of two goals each is not corrected, so some mass is left.\<close>

lemma raw_grid_total_pos:
  assumes "0 < lam_h" "0 < lam_a" "rho = None \<or> 2 \<le> n"
  shows "0 < grid_total (raw_grid lam_h lam_a rho n)"
proof -
  define k where "k = (if rho = None then 0 else 2 :: nat)"
  have k: "k \<le> n" using assms(3) by (auto simp: k_def)
  have "0 < raw_cell lam_h lam_a rho k k"
    using assms(1,2) by (auto simp: raw_cell_def k_def dc_correction_def poisson_density_pos split: option.splits)
  also have "\<dots> \<le> sum_list (map (raw_cell lam_h lam_a rho k) [0..<Suc n])"
    using k by (intro member_le_sum_list) (auto simp: raw_cell_def simp del: upt_Suc)
  also have "\<dots> = sum_list (raw_grid lam_h lam_a rho n ! k)"
    using k by (simp add: raw_grid_def nth_append del: upt_Suc)
  also have "\<dots> \<le> grid_total (raw_grid lam_h lam_a rho n)"
    unfolding grid_total_def using k raw_grid_nonneg [of lam_h lam_a rho n] raw_grid_shape [of n lam_h lam_a rho]
    by (intro member_le_sum_list)
      (auto simp: list_all_iff grid_shape_def less_Suc_eq_le intro!: sum_list_nonneg imageI)
  finally show ?thesis .
qed

lemma score_grid_raw:
  assumes "in_range lam_h n" "in_range lam_a n" "rho = None \<or> 2 \<le> n"
  shows "score_grid lam_h lam_a rho n =
    map (map (\<lambda>v. v / grid_total (raw_grid lam_h lam_a rho n))) (raw_grid lam_h lam_a rho n)"
proof -
  have "map (\<lambda>h. map (grid_cell lam_h lam_a rho (poisson_pmf lam_h n) (poisson_pmf lam_a n) h) [0..<n + 1]) [0..<n + 1] =
      raw_grid lam_h lam_a rho n"
    unfolding raw_grid_def Suc_eq_plus1
    by (intro map_cong refl) (simp add: grid_cell_raw assms(1,2) del: upt_Suc)
  then show ?thesis
    using raw_grid_total_pos [OF in_range_pos in_range_pos assms(3), OF assms(1,2)] unfolding score_grid_def Let_def by simp
qed

lemma score_grid_pmf:
  assumes "in_range lam_h n" "in_range lam_a n" "rho = None \<or> 2 \<le> n"
  shows "grid_shape (n + 1) (n + 1) (score_grid lam_h lam_a rho n) \<and>
    list_all (list_all (\<lambda>p. 0 \<le> p \<and> p \<le> 1)) (score_grid lam_h lam_a rho n) \<and>
    grid_total (score_grid lam_h lam_a rho n) = 1"
proof -
  let ?g = "raw_grid lam_h lam_a rho n"
  note total = raw_grid_total_pos [OF in_range_pos in_range_pos assms(3), OF assms(1,2)] and nonneg = raw_grid_nonneg [of lam_h lam_a rho n]
  have "v \<le> grid_total ?g" if "row \<in> set ?g" "v \<in> set row" for row v
  proof -
    have "v \<le> sum_list row" using that nonneg by (intro member_le_sum_list) (auto simp: list_all_iff)
    also have "\<dots> \<le> grid_total ?g"
      unfolding grid_total_def using that nonneg
      by (intro member_le_sum_list) (auto simp: list_all_iff intro!: sum_list_nonneg)
    finally show ?thesis .
  qed
  then have "list_all (list_all (\<lambda>p. 0 \<le> p \<and> p \<le> 1)) (score_grid lam_h lam_a rho n)"
    using total nonneg by (auto simp: score_grid_raw [OF assms] list_all_iff pos_divide_le_eq)
  moreover have "grid_total (score_grid lam_h lam_a rho n) = 1"
    using total by (simp add: score_grid_raw [OF assms] grid_total_divide)
  ultimately show ?thesis
    using map_grid_shape [OF raw_grid_shape] by (simp add: score_grid_raw [OF assms])
qed

lemma score_grid_cells:
  assumes "in_range lam_h n" "in_range lam_a n" "rho = None \<or> 2 \<le> n"
  shows "\<exists>z > 0. \<forall>h \<le> n. \<forall>a \<le> n. score_grid lam_h lam_a rho n ! h ! a = raw_cell lam_h lam_a rho h a / z"
proof (intro exI conjI allI impI)
  show "0 < grid_total (raw_grid lam_h lam_a rho n)" by (rule raw_grid_total_pos [OF in_range_pos in_range_pos assms(3), OF assms(1,2)])
  show "score_grid lam_h lam_a rho n ! h ! a = raw_cell lam_h lam_a rho h a / grid_total (raw_grid lam_h lam_a rho n)"
    if "h \<le> n" "a \<le> n" for h a
    using that raw_grid_shape [of n lam_h lam_a rho] unfolding score_grid_raw [OF assms]
    by (simp add: grid_shape_def raw_grid_def nth_append del: upt_Suc)
qed

text \<open>
  The score grid is a probability distribution over scores. For goal rates in range (and, with
  the Dixon-Coles correction, room for two goals each) the grid is square, every cell is between zero and
  one, the cells sum to one, and cell \<open>(h, a)\<close> is proportional to the product of the two Poisson
  densities, times the correction where there is one, cut off below at zero; the loop that computes the densities by their
  recurrence agrees with \<open>exp(-lam) * lam^k / k!\<close>.
\<close>

lemma score_grid_distribution:
  assumes "in_range lam_h n" "in_range lam_a n" "rho = None \<or> 2 \<le> n"
  shows "grid_shape (n + 1) (n + 1) (score_grid lam_h lam_a rho n) \<and>
    list_all (list_all (\<lambda>p. 0 \<le> p \<and> p \<le> 1)) (score_grid lam_h lam_a rho n) \<and>
    grid_total (score_grid lam_h lam_a rho n) = 1 \<and>
    poisson_pmf lam_h n = map (\<lambda>k. exp (- lam_h) * lam_h ^ k / fact k) [0..<n + 1] \<and>
    (\<exists>z > 0. \<forall>h \<le> n. \<forall>a \<le> n. score_grid lam_h lam_a rho n ! h ! a =
       max 0 (exp (- lam_h) * lam_h ^ h / fact h * (exp (- lam_a) * lam_a ^ a / fact a) *
         (case rho of None \<Rightarrow> 1 | Some r \<Rightarrow> dc_correction h a lam_h lam_a r)) / z)"
  using score_grid_pmf [OF assms] score_grid_cells [OF assms] poisson_pmf_density [OF assms(1)]
  by (simp add: poisson_density_def [abs_def] raw_cell_def del: upt_Suc)

text \<open>A rate so large that \<open>exp(-lam)\<close> is zero as a double leaves a grid of zeros.\<close>

lemma zero_loop: "poisson_loop lam k 0 n = replicate n 0"
  by (induction n arbitrary: k) (simp_all add: Let_def flush_def)

lemma huge_rate_empties_grid:
  assumes "0 < lam_h" "exp (- lam_h) \<le> 1 / 2 ^ 1075"
  shows "score_grid lam_h lam_a rho n = replicate (n + 1) (replicate (n + 1) 0)"
proof -
  have "poisson_pmf lam_h n = replicate (n + 1) 0"
    using assms by (simp add: poisson_pmf_def zero_loop flush_tiny Let_def)
  then have "grid_cell lam_h lam_a rho (poisson_pmf lam_h n) q h a = 0" if "h \<le> n" for q h a
    using that by (simp add: grid_cell_def flush_def nth_append del: replicate_Suc split: option.split)
  then have "map (\<lambda>h. map (grid_cell lam_h lam_a rho (poisson_pmf lam_h n) q h) [0..<n + 1]) [0..<n + 1] =
      replicate (n + 1) (replicate (n + 1) 0)" for q
    by (intro nth_equalityI) (simp_all del: upt_Suc replicate_Suc)
  moreover have "grid_total (replicate (n + 1) (replicate (n + 1) 0)) = 0"
    by (simp add: grid_total_def sum_list_replicate del: replicate_Suc)
  ultimately show ?thesis by (simp add: score_grid_def del: replicate_Suc upt_Suc)
qed

section \<open>Projections onto the markets\<close>

definition row_sum :: "nat list \<Rightarrow> real list \<Rightarrow> real res" where
  "row_sum cols row = res_bind (res_map (py_index row) cols) (\<lambda>cells. Inr (sum_list cells))"

definition project_1x2 :: "real list list \<Rightarrow> (string, real) odict res" where
  "project_1x2 grid =
     res_bind (res_map (\<lambda>(h, row).
         res_bind (row_sum [0..<h] row) (\<lambda>wins. res_bind (py_index row h) (\<lambda>draw. Inr (wins, draw))))
       (enumerate 0 grid)) (\<lambda>rows.
     let p_h = sum_list (map fst rows);
         p_d = sum_list (map snd rows);
         p_a = max 0 (1 - p_h - p_d) in
     Inr [(''H'', p_h), (''D'', p_d), (''A'', p_a)])"

definition project_ah_home :: "real list list \<Rightarrow> (string, real) odict res" where
  "project_ah_home grid =
     res_bind (res_map (\<lambda>(h, row). row_sum [0..<h] row) (enumerate 0 grid)) (\<lambda>rows.
     let p_home = sum_list rows in
     Inr [(''home'', p_home), (''away'', max 0 (1 - p_home))])"

definition project_ou25 :: "real list list \<Rightarrow> (string, real) odict res" where
  "project_ou25 grid =
     (let n = length grid in
      res_bind (res_map (\<lambda>(h, row). row_sum [3 - h..<n] row) (enumerate 0 grid)) (\<lambda>rows.
      let over = sum_list rows in
      Inr [(''over'', over), (''under'', max 0 (1 - over))]))"

definition project_btts :: "real list list \<Rightarrow> (string, real) odict res" where
  "project_btts grid =
     (let n = length grid in
      res_bind (res_map (row_sum [1..<n]) (drop 1 grid)) (\<lambda>rows.
      let yes = sum_list rows in
      Inr [(''yes'', yes), (''no'', max 0 (1 - yes))]))"

definition py_max :: "real list \<Rightarrow> real res" where
  "py_max xs = (if xs = [] then Inl ValueError else Inr (Max (set xs)))"

definition modal_mass :: "real list list \<Rightarrow> real res" where
  "modal_mass grid = res_bind (res_map py_max grid) py_max"

lemma row_sum_cells:
  "\<forall>j \<in> set cols. j < length row \<Longrightarrow> distinct cols \<Longrightarrow> row_sum cols row = Inr (\<Sum>j \<in> set cols. row ! j)"
  by (simp add: row_sum_def py_index_def sum_list_distinct_conv_sum_set)

lemma sum_if_columns: "(\<Sum>j < (c :: nat). if P j then f j else (0 :: real)) = (\<Sum>j \<in> {j. P j \<and> j < c}. f j)"
proof -
  have "(\<Sum>j < c. if P j then f j else 0) = (\<Sum>j \<in> {j \<in> {..<c}. P j}. f j)"
    by (rule sum.inter_filter [symmetric]) simp
  also have "{j \<in> {..<c}. P j} = {j. P j \<and> j < c}" by auto
  finally show ?thesis .
qed

lemma cells_sum_columns:
  assumes "grid_shape r c g"
  shows "cells_sum P 0 g = (\<Sum>i < r. \<Sum>j \<in> {j. P i j \<and> j < c}. g ! i ! j)"
  unfolding cells_sum_square [OF assms] sum_if_columns ..

lemma enumerate_rows:
  assumes "grid_shape r c g" "\<And>i row. i < r \<Longrightarrow> length row = c \<Longrightarrow> f i row = Inr (k i row)"
  shows "res_map (\<lambda>(i, row). f i row) (enumerate 0 g) = Inr (map (\<lambda>(i, row). k i row) (enumerate 0 g))"
  using assms by (intro res_map_Inr) (auto simp: in_set_enumerate_eq grid_shape_def)

lemma rows_sum:
  assumes "grid_shape r c g"
  shows "(\<Sum>(i, row) \<leftarrow> enumerate 0 g. \<Sum>j \<in> {j. P i j \<and> j < c}. row ! j) = cells_sum P 0 g"
  using assms by (simp add: sum_list_enumerate cells_sum_columns [OF assms] grid_shape_def)

lemma btts_rows:
  assumes "grid_shape n n g"
  shows "(\<Sum>row \<leftarrow> drop 1 g. \<Sum>j \<in> set [1..<n]. row ! j) = cells_sum (\<lambda>i j. 1 \<le> i \<and> 1 \<le> j) 0 g"
proof (cases g)
  case Nil
  then show ?thesis by (simp add: cells_sum_def)
next
  case (Cons r0 rows)
  have n: "n = Suc (length rows)" using assms Cons by (simp add: grid_shape_def)
  have "cells_sum (\<lambda>i j. 1 \<le> i \<and> 1 \<le> j) 0 g = (\<Sum>i < n. \<Sum>j \<in> {j. (1 \<le> i \<and> 1 \<le> j) \<and> j < n}. g ! i ! j)"
    by (rule cells_sum_columns [OF assms])
  also have "\<dots> = (\<Sum>i < length rows. \<Sum>j \<in> set [1..<n]. rows ! i ! j)"
    unfolding n sum.lessThan_Suc_shift Cons by (auto intro!: sum.cong simp del: upt_Suc sum.op_ivl_Suc)
  finally show ?thesis by (simp add: Cons sum_list_lessThan)
qed

text \<open>The projections as sums over cells: the rows and columns the loops visit.\<close>

lemma project_sums:
  assumes "grid_shape n n g"
  shows "project_1x2 g = (let h = cells_sum (\<lambda>i j. j < i) 0 g; d = cells_sum (\<lambda>i j. i = j) 0 g in
      Inr [(''H'', h), (''D'', d), (''A'', max 0 (1 - h - d))])"
    and "project_ah_home g = (let h = cells_sum (\<lambda>i j. j < i) 0 g in
      Inr [(''home'', h), (''away'', max 0 (1 - h))])"
    and "project_ou25 g = (let p = cells_sum (\<lambda>i j. 3 \<le> i + j) 0 g in
      Inr [(''over'', p), (''under'', max 0 (1 - p))])"
    and "project_btts g = (let p = cells_sum (\<lambda>i j. 1 \<le> i \<and> 1 \<le> j) 0 g in
      Inr [(''yes'', p), (''no'', max 0 (1 - p))])"
proof -
  have len: "length g = n" using assms by (simp add: grid_shape_def)
  have wins: "row_sum [0..<i] row = Inr (\<Sum>j \<in> {j. j < i \<and> j < n}. row ! j)"
    if "i < n" "length row = n" for i and row :: "real list"
  proof -
    have "{j. j < i \<and> j < n} = set [0..<i]" using that by auto
    with that show ?thesis by (simp add: row_sum_cells)
  qed
  have draws: "py_index row i = Inr (\<Sum>j \<in> {j. i = j \<and> j < n}. row ! j)" if "i < n" "length row = n" for i and row :: "real list"
  proof -
    have "{j. i = j \<and> j < n} = {i}" using that by auto
    with that show ?thesis by (simp add: py_index_def)
  qed
  have overs: "row_sum [3 - i..<n] row = Inr (\<Sum>j \<in> {j. 3 \<le> i + j \<and> j < n}. row ! j)"
    if "length row = n" for i and row :: "real list"
  proof -
    have "{j. 3 \<le> i + j \<and> j < n} = set [3 - i..<n]" by auto
    with that show ?thesis by (simp add: row_sum_cells)
  qed
  note rows = rows_sum [OF assms]
  have "res_map (\<lambda>(h, row). res_bind (row_sum [0..<h] row) (\<lambda>wins. res_bind (py_index row h) (\<lambda>draw. Inr (wins, draw))))
      (enumerate 0 g) = Inr (map (\<lambda>(i, row). (\<Sum>j \<in> {j. j < i \<and> j < n}. row ! j, \<Sum>j \<in> {j. i = j \<and> j < n}. row ! j)) (enumerate 0 g))"
    by (rule enumerate_rows [OF assms]) (simp add: wins draws)
  then show "project_1x2 g = (let h = cells_sum (\<lambda>i j. j < i) 0 g; d = cells_sum (\<lambda>i j. i = j) 0 g in
      Inr [(''H'', h), (''D'', d), (''A'', max 0 (1 - h - d))])"
    using rows [of "\<lambda>i j. j < i"] rows [of "(=)"] by (simp add: project_1x2_def Let_def o_def case_prod_unfold)
  have "res_map (\<lambda>(h, row). row_sum [0..<h] row) (enumerate 0 g) =
      Inr (map (\<lambda>(i, row). \<Sum>j \<in> {j. j < i \<and> j < n}. row ! j) (enumerate 0 g))"
    by (rule enumerate_rows [OF assms]) (simp add: wins)
  then show "project_ah_home g = (let h = cells_sum (\<lambda>i j. j < i) 0 g in Inr [(''home'', h), (''away'', max 0 (1 - h))])"
    by (simp add: project_ah_home_def Let_def rows)
  have "res_map (\<lambda>(h, row). row_sum [3 - h..<n] row) (enumerate 0 g) =
      Inr (map (\<lambda>(i, row). \<Sum>j \<in> {j. 3 \<le> i + j \<and> j < n}. row ! j) (enumerate 0 g))"
    by (rule enumerate_rows [OF assms]) (simp add: overs)
  then show "project_ou25 g = (let p = cells_sum (\<lambda>i j. 3 \<le> i + j) 0 g in Inr [(''over'', p), (''under'', max 0 (1 - p))])"
    by (simp add: project_ou25_def Let_def len rows)
  have "res_map (row_sum [1..<n]) (drop 1 g) = Inr (map (\<lambda>row. \<Sum>j \<in> set [1..<n]. row ! j) (drop 1 g))"
    using assms by (intro res_map_Inr row_sum_cells) (auto simp: grid_shape_def dest: in_set_dropD)
  moreover have "(\<Sum>row \<leftarrow> drop 1 g. \<Sum>j \<in> set [1..<n]. row ! j) = cells_sum (\<lambda>i j. 1 \<le> i \<and> 1 \<le> j) 0 g"
    unfolding btts_rows [OF assms] ..
  ultimately show "project_btts g = (let p = cells_sum (\<lambda>i j. 1 \<le> i \<and> 1 \<le> j) 0 g in Inr [(''yes'', p), (''no'', max 0 (1 - p))])"
    by (simp add: project_btts_def Let_def len)
qed

text \<open>
  A grid of zeros votes for the away side: when \<open>exp(-lam)\<close> of the home rate is zero as a double, the
  1X2 projection gives all its mass to the away side, however many goals the home side is expected to score.
\<close>

lemma huge_home_rate_votes_away:
  assumes "0 < lam_h" "exp (- lam_h) \<le> 1 / 2 ^ 1075"
  shows "project_1x2 (score_grid lam_h lam_a rho n) = Inr [(''H'', 0), (''D'', 0), (''A'', 1)]"
proof -
  let ?g = "replicate (n + 1) (replicate (n + 1) (0 :: real))"
  have shape: "grid_shape (n + 1) (n + 1) ?g" by (simp add: grid_shape_def del: replicate_Suc)
  have "cells_sum P 0 ?g = 0" for P
    unfolding cells_sum_square [OF shape] by (intro sum.neutral ballI) (simp del: replicate_Suc)
  then show ?thesis
    unfolding huge_rate_empties_grid [OF assms] project_sums(1) [OF shape] by (simp add: Let_def)
qed

lemma cells_sum_remainder:
  assumes "grid_shape n n g" "list_all (list_all (\<lambda>p. 0 \<le> p)) g" "grid_total g = 1"
    and "\<And>i j. Q i j \<longleftrightarrow> \<not> P i j"
  shows "max 0 (1 - cells_sum P 0 g) = cells_sum Q 0 g"
proof -
  have "cells_sum P 0 g + cells_sum Q 0 g = 1"
    using cells_sum_disjoint [OF assms(1), of P Q] assms(3,4) cells_sum_all [of g] by auto
  with cells_sum_nonneg [OF assms(2), of Q] show ?thesis by (simp add: max_def)
qed

lemma project_values:
  assumes "grid_shape n n g" "list_all (list_all (\<lambda>p. 0 \<le> p)) g" "grid_total g = 1"
  shows "project_1x2 g = Inr [(''H'', cells_sum (\<lambda>h a. a < h) 0 g), (''D'', cells_sum (\<lambda>h a. h = a) 0 g), (''A'', cells_sum (\<lambda>h a. h < a) 0 g)]"
    and "project_ah_home g = Inr [(''home'', cells_sum (\<lambda>h a. a < h) 0 g), (''away'', cells_sum (\<lambda>h a. h \<le> a) 0 g)]"
    and "project_ou25 g = Inr [(''over'', cells_sum (\<lambda>h a. 3 \<le> h + a) 0 g), (''under'', cells_sum (\<lambda>h a. h + a < 3) 0 g)]"
    and "project_btts g = Inr [(''yes'', cells_sum (\<lambda>h a. 1 \<le> h \<and> 1 \<le> a) 0 g), (''no'', cells_sum (\<lambda>h a. h = 0 \<or> a = 0) 0 g)]"
proof -
  note rem = cells_sum_remainder [OF assms] and sums = project_sums [OF assms(1)]
  have "cells_sum (\<lambda>i j. j < i) 0 g + cells_sum (=) 0 g = cells_sum (\<lambda>i j. j < i \<or> i = j) 0 g"
    by (rule cells_sum_disjoint [OF assms(1)]) auto
  then have "max 0 (1 - cells_sum (\<lambda>i j. j < i) 0 g - cells_sum (=) 0 g) = cells_sum (\<lambda>i j. i < j) 0 g"
    using rem [of "\<lambda>i j. i < j" "\<lambda>i j. j < i \<or> i = j"] by (simp add: diff_diff_eq not_less le_less disj_commute) linarith
  then show "project_1x2 g = Inr [(''H'', cells_sum (\<lambda>h a. a < h) 0 g), (''D'', cells_sum (\<lambda>h a. h = a) 0 g), (''A'', cells_sum (\<lambda>h a. h < a) 0 g)]"
    by (simp add: sums(1) Let_def)
  show "project_ah_home g = Inr [(''home'', cells_sum (\<lambda>h a. a < h) 0 g), (''away'', cells_sum (\<lambda>h a. h \<le> a) 0 g)]"
    using rem [of "\<lambda>i j. i \<le> j" "\<lambda>i j. j < i"] by (simp add: sums(2) Let_def not_less)
  show "project_ou25 g = Inr [(''over'', cells_sum (\<lambda>h a. 3 \<le> h + a) 0 g), (''under'', cells_sum (\<lambda>h a. h + a < 3) 0 g)]"
    using rem [of "\<lambda>i j. i + j < 3" "\<lambda>i j. 3 \<le> i + j"] by (simp add: sums(3) Let_def not_le)
  show "project_btts g = Inr [(''yes'', cells_sum (\<lambda>h a. 1 \<le> h \<and> 1 \<le> a) 0 g), (''no'', cells_sum (\<lambda>h a. h = 0 \<or> a = 0) 0 g)]"
    using rem [of "\<lambda>i j. i = 0 \<or> j = 0" "\<lambda>i j. 1 \<le> i \<and> 1 \<le> j"] by (simp add: sums(4) Let_def not_le disj_commute)
qed

lemma project_pmfs:
  assumes "grid_shape n n g" "list_all (list_all (\<lambda>p. 0 \<le> p)) g" "grid_total g = 1"
    and "(project, market) \<in> {(project_1x2, ''1x2''), (project_ah_home, ''ah''), (project_ou25, ''ou_2_5''), (project_btts, ''btts'')}"
  shows "\<exists>ds. project g = Inr ds \<and> is_pmf market ds"
proof -
  note v = project_values [OF assms(1-3)] and nonneg = cells_sum_nonneg [OF assms(2)] and rem = cells_sum_remainder [OF assms(1-3)]
  have split: "cells_sum P 0 g + cells_sum Q 0 g = 1" if "\<And>i j. Q i j \<longleftrightarrow> \<not> P i j" for P Q
    using cells_sum_disjoint [OF assms(1), of P Q] that cells_sum_all [of g] assms(3) by auto
  have goals: "cells_sum (\<lambda>h a. 1 \<le> h \<and> 1 \<le> a) 0 g + cells_sum (\<lambda>h a. h = 0 \<or> a = 0) 0 g = 1"
    by (rule split) auto
  have "cells_sum (\<lambda>h a. a < h) 0 g + (cells_sum (\<lambda>h a. h = a) 0 g + cells_sum (\<lambda>h a. h < a) 0 g) = 1"
    using cells_sum_disjoint [OF assms(1), of "\<lambda>h a. h = a" "\<lambda>h a. h < a"]
      split [of "\<lambda>h a. h = a \<or> h < a" "\<lambda>h a. a < h"] by fastforce
  then have "is_pmf ''1x2'' [(''H'', cells_sum (\<lambda>h a. a < h) 0 g), (''D'', cells_sum (\<lambda>h a. h = a) 0 g), (''A'', cells_sum (\<lambda>h a. h < a) 0 g)]"
    using nonneg by (intro is_pmfI) (auto simp: market_outcomes_def)
  moreover have "is_pmf ''ah'' [(''home'', cells_sum (\<lambda>h a. a < h) 0 g), (''away'', cells_sum (\<lambda>h a. h \<le> a) 0 g)]"
    using nonneg split [of "\<lambda>h a. h \<le> a" "\<lambda>h a. a < h"] by (intro is_pmfI) (auto simp: market_outcomes_def not_less)
  moreover have "is_pmf ''ou_2_5'' [(''over'', cells_sum (\<lambda>h a. 3 \<le> h + a) 0 g), (''under'', cells_sum (\<lambda>h a. h + a < 3) 0 g)]"
    using nonneg split [of "\<lambda>h a. h + a < 3" "\<lambda>h a. 3 \<le> h + a"] by (intro is_pmfI) (auto simp: market_outcomes_def not_le)
  moreover have "is_pmf ''btts'' [(''yes'', cells_sum (\<lambda>h a. 1 \<le> h \<and> 1 \<le> a) 0 g), (''no'', cells_sum (\<lambda>h a. h = 0 \<or> a = 0) 0 g)]"
    using nonneg goals by (intro is_pmfI) (simp_all add: market_outcomes_def, blast)
  ultimately show ?thesis using assms(4) v by auto
qed

text \<open>
  The projections add up the right cells. On a square grid each of the four loops over rows and
  column ranges computes the sum of the cells of its event: home wins below the diagonal, draws on it, over
  2.5 the scores with at least three goals, both-teams-to-score the scores with no zero; and on a grid that is a
  probability distribution the remainder they take for the last outcome is the sum of the other
  cells, so every projection is a distribution over the outcomes of its market.
\<close>

lemma projections_exact:
  assumes "grid_shape n n g" "list_all (list_all (\<lambda>p. 0 \<le> p)) g" "grid_total g = 1"
  shows "project_1x2 g = Inr [(''H'', cells_sum (\<lambda>h a. a < h) 0 g), (''D'', cells_sum (\<lambda>h a. h = a) 0 g), (''A'', cells_sum (\<lambda>h a. h < a) 0 g)] \<and>
    project_ah_home g = Inr [(''home'', cells_sum (\<lambda>h a. a < h) 0 g), (''away'', cells_sum (\<lambda>h a. h \<le> a) 0 g)] \<and>
    project_ou25 g = Inr [(''over'', cells_sum (\<lambda>h a. 3 \<le> h + a) 0 g), (''under'', cells_sum (\<lambda>h a. h + a < 3) 0 g)] \<and>
    project_btts g = Inr [(''yes'', cells_sum (\<lambda>h a. 1 \<le> h \<and> 1 \<le> a) 0 g), (''no'', cells_sum (\<lambda>h a. h = 0 \<or> a = 0) 0 g)] \<and>
    (\<forall>(project, market) \<in> {(project_1x2, ''1x2''), (project_ah_home, ''ah''), (project_ou25, ''ou_2_5''), (project_btts, ''btts'')}.
      \<exists>ds. project g = Inr ds \<and> is_pmf market ds)"
  using project_values [OF assms] project_pmfs [OF assms] by blast

end
