(* ===== verification/Proofreaders.thy ===== *)
theory Proofreaders
  imports Aggregator Grids
begin

text \<open>
  The proofreader replicas: the three checks of \<open>swarm/agents/proofreader/prediction_checks.py\<close> on a
  final's distribution, and the dispatch shell of \<open>swarm/agents/proofreader/replicas.py\<close> that turns a check's
  result, or its exception, into one verdict. The texts of the details (f-strings with formatted floats) are
  rendered by a parameter from the values they print. Floats are exact reals, so the branches for NaN
  and infinities do not occur; an integer beyond the doubles raises out of a check, whose handlers name only
  \<open>TypeError\<close> and \<open>ValueError\<close>.
\<close>

section \<open>The checks\<close>

datatype check_detail =
    Outcomes_Missing
  | Non_Numeric string jval
  | Outside_Unit string real
  | Bad_Sum real real
  | Above_Cap string real real
  | Grid_Not_List
  | Row_Not_List
  | Bad_Cell nat nat jval
  | Marginal_Differs string real real real

type_synonym check_result = "string \<times> real \<times> check_detail list"

definition details :: "check_detail option list \<Rightarrow> check_detail list" where
  "details = List.map_filter (\<lambda>x. x)"

definition market_of :: "jobj \<Rightarrow> jobj option" where
  "market_of distribution = (case jget_or distribution ''market_outcomes'' JNull of JObj m \<Rightarrow> Some m | _ \<Rightarrow> None)"

text \<open>The loop of \<open>sanity_check\<close>: flags in order, and the sum of the numbers that passed.\<close>

fun sanity_scan :: "pylib \<Rightarrow> jobj \<Rightarrow> (check_detail list \<times> real) res" where
  "sanity_scan L [] = Inr ([], 0)"
| "sanity_scan L ((k, v) # rest) =
     res_bind (float_caught L v) (\<lambda>n.
     res_bind (sanity_scan L rest) (\<lambda>(flags, total). Inr (
      case n of
        None \<Rightarrow> (Non_Numeric k v # flags, total)
      | Some num \<Rightarrow>
          if num < 0 \<or> 1 < num then (Outside_Unit k num # flags, total)
          else (flags, num + total))))"

definition sanity_check :: "pylib \<Rightarrow> real \<Rightarrow> jobj \<Rightarrow> check_result res" where
  "sanity_check L eps distribution =
     (case market_of distribution of
        None \<Rightarrow> Inr (''reject'', 1, [Outcomes_Missing])
      | Some m \<Rightarrow>
          if m = [] then Inr (''reject'', 1, [Outcomes_Missing])
          else
            res_bind (sanity_scan L m) (\<lambda>(flags, total). Inr (
            if flags \<noteq> [] then (''reject'', 1, flags)
            else if eps < \<bar>total - 1\<bar> then (''reject'', 1, [Bad_Sum total eps])
            else (''accept'', 1, []))))"

definition plausibility_flag :: "pylib \<Rightarrow> real \<Rightarrow> string \<times> jval \<Rightarrow> check_detail option res" where
  "plausibility_flag L cap kv =
     res_bind (float_caught L (snd kv)) (\<lambda>n. Inr (case n of
        None \<Rightarrow> None
      | Some num \<Rightarrow> if cap < num then Some (Above_Cap (fst kv) num cap) else None))"

definition plausibility_check :: "pylib \<Rightarrow> real \<Rightarrow> jobj \<Rightarrow> check_result res" where
  "plausibility_check L cap distribution =
     (case market_of distribution of
        None \<Rightarrow> Inr (''accept'', 1, [])
      | Some m \<Rightarrow>
          res_bind (res_map (plausibility_flag L cap) m) (\<lambda>fs.
          let flags = details fs in
          Inr (if flags \<noteq> [] then (''warn'', 7 / 10, flags) else (''accept'', 1, []))))"

text \<open>The marginals of the grid: home wins, draws, away wins; a malformed cell ends the scan.\<close>

record marginals =
  mg_home :: real
  mg_draw :: real
  mg_away :: real

definition add_cell :: "nat \<Rightarrow> nat \<Rightarrow> real \<Rightarrow> marginals \<Rightarrow> marginals" where
  "add_cell i j p m =
     (if j < i then m\<lparr>mg_home := mg_home m + p\<rparr>
      else if i < j then m\<lparr>mg_away := mg_away m + p\<rparr>
      else m\<lparr>mg_draw := mg_draw m + p\<rparr>)"

fun scan_row :: "pylib \<Rightarrow> nat \<Rightarrow> nat \<Rightarrow> jval list \<Rightarrow> marginals \<Rightarrow> (check_detail + marginals) res" where
  "scan_row L i j [] m = Inr (Inr m)"
| "scan_row L i j (cell # cells) m =
     res_bind (float_caught L cell) (\<lambda>n. case n of
        None \<Rightarrow> Inr (Inl (Bad_Cell i j cell))
      | Some p \<Rightarrow> scan_row L i (Suc j) cells (add_cell i j p m))"

fun scan_grid :: "pylib \<Rightarrow> nat \<Rightarrow> jval list \<Rightarrow> marginals \<Rightarrow> (check_detail + marginals) res" where
  "scan_grid L i [] m = Inr (Inr m)"
| "scan_grid L i (row # rows) m =
     (case row of
        JArr cells \<Rightarrow> res_bind (scan_row L i 0 cells m) (\<lambda>r. case r of
            Inl d \<Rightarrow> Inr (Inl d)
          | Inr m' \<Rightarrow> scan_grid L (Suc i) rows m')
      | _ \<Rightarrow> Inr (Inl Row_Not_List))"

definition upper_char :: "char \<Rightarrow> char" where
  "upper_char c = (if 97 \<le> (of_char c :: nat) \<and> (of_char c :: nat) \<le> 122
     then char_of ((of_char c :: nat) - 32) else c)"

definition market_upper :: "jobj \<Rightarrow> jobj" where
  "market_upper m = foldl (\<lambda>d kv. od_set (map upper_char (fst kv)) (snd kv) d) [] m"

definition marginal_flag :: "pylib \<Rightarrow> real \<Rightarrow> jobj \<Rightarrow> string \<times> real \<Rightarrow> check_detail option res" where
  "marginal_flag L tol upper km =
     (let declared = jget_or upper (fst km) JNull in
      if declared = JNull then Inr None
      else
        res_bind (float_caught L declared) (\<lambda>n. Inr (case n of
             None \<Rightarrow> None
           | Some num \<Rightarrow> if tol < \<bar>num - snd km\<bar> then Some (Marginal_Differs (fst km) num (snd km) tol) else None)))"

definition grid_consistency_check :: "pylib \<Rightarrow> real \<Rightarrow> jobj \<Rightarrow> check_result res" where
  "grid_consistency_check L tol distribution =
     (case jget_or distribution ''score_grid'' JNull of
        JNull \<Rightarrow> Inr (''accept'', 1, [])
      | JArr rows \<Rightarrow>
          (case market_of distribution of
             None \<Rightarrow> Inr (''accept'', 1, [])
           | Some m \<Rightarrow>
               res_bind (scan_grid L 0 rows \<lparr>mg_home = 0, mg_draw = 0, mg_away = 0\<rparr>) (\<lambda>r. case r of
                  Inl d \<Rightarrow> Inr (''reject'', 1, [d])
                | Inr mg \<Rightarrow>
                    res_bind (res_map (marginal_flag L tol (market_upper m))
                      [(''H'', mg_home mg), (''D'', mg_draw mg), (''A'', mg_away mg)]) (\<lambda>fs.
                    let flags = details fs in
                    Inr (if flags \<noteq> [] then (''reject'', 1, flags) else (''accept'', 1, [])))))
      | _ \<Rightarrow> Inr (''reject'', 1, [Grid_Not_List]))"

section \<open>The replicas\<close>

record proofreader =
  pf_name :: string
  pf_checks_run :: "string list"
  pf_check :: "predict_final \<Rightarrow> check_result res"

definition sanity_proofreader :: "pylib \<Rightarrow> real \<Rightarrow> proofreader" where
  "sanity_proofreader L eps =
     \<lparr>pf_name = ''proofreader.sanity.v1'', pf_checks_run = [''sanity.probs_well_formed''],
      pf_check = (\<lambda>f. sanity_check L eps (pf_distribution f))\<rparr>"

definition plausibility_proofreader :: "pylib \<Rightarrow> real \<Rightarrow> proofreader" where
  "plausibility_proofreader L cap =
     \<lparr>pf_name = ''proofreader.plausibility.v1'', pf_checks_run = [''plausibility.max_outcome_prob''],
      pf_check = (\<lambda>f. plausibility_check L cap (pf_distribution f))\<rparr>"

definition consistency_proofreader :: "pylib \<Rightarrow> real \<Rightarrow> proofreader" where
  "consistency_proofreader L tol =
     \<lparr>pf_name = ''proofreader.consistency.v1'', pf_checks_run = [''consistency.score_grid_marginals''],
      pf_check = (\<lambda>f. grid_consistency_check L tol (pf_distribution f))\<rparr>"

text \<open>What the shell reads and prints: the clock, rendered details, and an exception's class and text.\<close>

record proofreader_env =
  pe_stamp :: string
  pe_render :: "check_detail \<Rightarrow> string"
  pe_class :: "py_error \<Rightarrow> string"
  pe_text :: "py_error \<Rightarrow> string"
  pe_suffix :: string

definition join_semicolon :: "string list \<Rightarrow> string" where
  "join_semicolon ss = (case ss of [] \<Rightarrow> [] | s # rest \<Rightarrow> s @ concat (map (\<lambda>t. ''; '' @ t) rest))"

definition internal_error_flag :: "proofreader_env \<Rightarrow> proofreader \<Rightarrow> predict_final \<Rightarrow> py_error \<Rightarrow> string \<Rightarrow> emission" where
  "internal_error_flag env r f e trace =
     \<lparr>em_topic = proof_flag_topic,
      em_payload =
        [(''kind'', JStr ''proofreader_internal_error''), (''agent'', JStr (pf_name r)),
         (''prediction_id'', JStr (pf_prediction_id f)), (''match_id'', JStr (pf_match_id f)),
         (''market'', JStr (pf_market f)), (''request_id'', JStr (pf_request_id f)),
         (''exception_type'', JStr (pe_class env e)),
         (''detail'', JStr (truncate_proof_detail (pe_suffix env)
            (Some (pf_name r @ '': '' @ pe_class env e @ '': '' @ pe_text env e)) proof_flag_detail_max_len))],
      em_producer = pf_name r, em_trace = Some trace\<rparr>"

text \<open>The verdict of a check's result, and of an exception: a warning whose score is zero.\<close>

definition final_verdict :: "proofreader_env \<Rightarrow> proofreader \<Rightarrow> predict_final \<Rightarrow> verdict" where
  "final_verdict env r f =
     (let (what, score, details) = (case pf_check r f of
          Inr (what, score, ds) \<Rightarrow> (what, score, map (pe_render env) ds)
        | Inl e \<Rightarrow> (''warn'', 0, [pf_name r @ '': internal check error ('' @ pe_class env e @ '')''])) in
      \<lparr>vd_request_id = pf_request_id f, vd_prediction_id = pf_prediction_id f, vd_match_id = pf_match_id f,
       vd_market = pf_market f, vd_proofreader_id = pf_name r, vd_verdict = what, vd_score = score,
       vd_checked_at = pe_stamp env, vd_flags = (if what \<noteq> ''accept'' then pf_checks_run r else []),
       vd_checks_run = pf_checks_run r, vd_rationale = join_semicolon details,
       vd_calibration_version = pf_calibration_version f\<rparr>)"

definition proofreader_handle :: "pylib \<Rightarrow> proofreader_env \<Rightarrow> proofreader \<Rightarrow> message \<Rightarrow> emission list res" where
  "proofreader_handle L env r msg =
     (if en_topic (msg_envelope msg) \<noteq> predict_final_topic then Inr []
      else
        case predict_final_from_dict L (msg_payload msg) of
          Inl e \<Rightarrow> (if e \<in> {KeyError, TypeError, ValueError} then Inr [] else Inl e)
        | Inr f \<Rightarrow>
            res_bind (verdict_check (final_verdict env r f)) (\<lambda>v.
            let trace = en_trace_id (msg_envelope msg) in
            Inr (\<lparr>em_topic = verdict_topic, em_payload = verdict_as_dict v, em_producer = pf_name r, em_trace = Some trace\<rparr>
                 # (case pf_check r f of Inl e \<Rightarrow> [internal_error_flag env r f e trace] | Inr res \<Rightarrow> []))))"

section \<open>What the checks decide\<close>

lemma sanity_scan_clean:
  "sanity_scan L m = Inr ([], t) \<longleftrightarrow>
     (\<exists>ps. res_map (\<lambda>kv. py_float L (snd kv)) m = Inr ps \<and> list_all (\<lambda>p. 0 \<le> p \<and> p \<le> 1) ps \<and> t = sum_list ps)"
proof (induction m arbitrary: t)
  case Nil
  then show ?case by auto
next
  case (Cons kv m)
  obtain k v where kv: "kv = (k, v)" by (cases kv)
  have "sanity_scan L (kv # m) = Inr ([], t) \<longleftrightarrow>
      (\<exists>p t'. py_float L v = Inr p \<and> 0 \<le> p \<and> p \<le> 1 \<and> sanity_scan L m = Inr ([], t') \<and> t = p + t')"
    by (auto simp: kv res_iffs simp flip: float_caught_Some split: option.splits if_splits)
  also have "\<dots> \<longleftrightarrow> (\<exists>ps. res_map (\<lambda>kv. py_float L (snd kv)) (kv # m) = Inr ps \<and> list_all (\<lambda>p. 0 \<le> p \<and> p \<le> 1) ps \<and> t = sum_list ps)"
    unfolding Cons.IH by (auto simp: kv res_iffs)
  finally show ?case .
qed

lemma sanity_scan_raises: "sanity_scan L m = Inl e \<Longrightarrow> e = OverflowError"
proof (induction m)
  case (Cons kv m)
  obtain k v where kv: "kv = (k, v)" by (cases kv)
  show ?case
  proof (cases "float_caught L v")
    case (Inl x)
    then have "x = OverflowError" by (simp add: float_caught_Inl)
    with Cons.prems Inl kv show ?thesis by simp
  next
    case (Inr n)
    with Cons kv show ?thesis by (cases "sanity_scan L m") auto
  qed
qed simp

text \<open>
  The sanity check accepts exactly the distributions that are probabilities: unless an integer is too large for a
  float its verdict is accept or reject, and it is accept if and only if the outcomes are a non-empty dict whose values all
  read as numbers between zero and one that sum to one within the tolerance.
\<close>

lemma sanity_check_exact:
  "(case sanity_check L eps d of Inl e \<Rightarrow> e = OverflowError | Inr (what, _) \<Rightarrow> what \<in> {''accept'', ''reject''}) \<and>
   (sanity_check L eps d = Inr (''accept'', 1, []) \<longleftrightarrow>
     (\<exists>m ps. market_of d = Some m \<and> m \<noteq> [] \<and> res_map (\<lambda>kv. py_float L (snd kv)) m = Inr ps \<and>
       list_all (\<lambda>p. 0 \<le> p \<and> p \<le> 1) ps \<and> \<bar>sum_list ps - 1\<bar> \<le> eps))"
proof (cases "market_of d")
  case None
  then show ?thesis by (simp add: sanity_check_def)
next
  case (Some m)
  show ?thesis
  proof (cases "sanity_scan L m")
    case (Inl e)
    moreover have "\<nexists>ps. res_map (\<lambda>kv. py_float L (snd kv)) m = Inr ps \<and> list_all (\<lambda>p. 0 \<le> p \<and> p \<le> 1) ps"
      using sanity_scan_clean [of L m] Inl by auto
    ultimately show ?thesis using Some sanity_scan_raises [OF Inl] by (auto simp: sanity_check_def)
  next
    case (Inr r)
    obtain fs t where r: "sanity_scan L m = Inr (fs, t)" using Inr by (cases r) simp
    show ?thesis
    proof (cases "fs = []")
      case True
      with sanity_scan_clean [of L m t] r have
        "\<exists>ps. res_map (\<lambda>kv. py_float L (snd kv)) m = Inr ps \<and> list_all (\<lambda>p. 0 \<le> p \<and> p \<le> 1) ps \<and> t = sum_list ps" by simp
      with Some True r show ?thesis by (auto simp: sanity_check_def)
    next
      case False
      with sanity_scan_clean [of L m] r have
        "\<nexists>ps. res_map (\<lambda>kv. py_float L (snd kv)) m = Inr ps \<and> list_all (\<lambda>p. 0 \<le> p \<and> p \<le> 1) ps" by auto
      with Some False r show ?thesis by (auto simp: sanity_check_def)
    qed
  qed
qed

definition add_marginals :: "real \<Rightarrow> real \<Rightarrow> real \<Rightarrow> marginals \<Rightarrow> marginals" where
  "add_marginals h d a m = \<lparr>mg_home = mg_home m + h, mg_draw = mg_draw m + d, mg_away = mg_away m + a\<rparr>"

lemma add_marginals_add:
  "add_marginals h d a (add_marginals h' d' a' m) = add_marginals (h' + h) (d' + d) (a' + a) m"
  by (simp add: add_marginals_def)

lemma add_cell_marginals:
  "add_cell i j p m = add_marginals (if j < i then p else 0) (if i = j then p else 0) (if i < j then p else 0) m"
  by (simp add: add_cell_def add_marginals_def)

lemma scan_row_sums:
  "scan_row L i j0 (map JFloat row) m = Inr (Inr (add_marginals
     (\<Sum>(j, p) \<leftarrow> enumerate j0 row. if j < i then p else 0)
     (\<Sum>(j, p) \<leftarrow> enumerate j0 row. if i = j then p else 0)
     (\<Sum>(j, p) \<leftarrow> enumerate j0 row. if i < j then p else 0) m))"
  by (induction row arbitrary: j0 m) (simp add: add_marginals_def, simp add: add_cell_marginals add_marginals_add)

lemma scan_grid_sums:
  "scan_grid L i0 (map json_row g) m = Inr (Inr (add_marginals
     (cells_sum (\<lambda>i j. j < i) i0 g) (cells_sum (\<lambda>i j. i = j) i0 g) (cells_sum (\<lambda>i j. i < j) i0 g) m))"
  by (induction g arbitrary: i0 m)
    (simp add: add_marginals_def cells_sum_def, simp add: json_row_def scan_row_sums add_marginals_add cells_sum_def)

lemma market_of_json: "market_of [(''market_outcomes'', JObj m), (''score_grid'', g)] = Some m"
  by (simp add: market_of_def jget_or_def)

definition declares :: "pylib \<Rightarrow> jobj \<Rightarrow> string \<Rightarrow> real \<Rightarrow> bool" where
  "declares L m k p \<longleftrightarrow> jget_or (market_upper m) k JNull \<noteq> JNull \<and> py_float L (jget_or (market_upper m) k JNull) = Inr p"

text \<open>The three probabilities the check reads are not integers too large for a float.\<close>

definition readable_outcomes :: "pylib \<Rightarrow> jobj \<Rightarrow> bool" where
  "readable_outcomes L m \<longleftrightarrow> list_all (\<lambda>k. py_float L (jget_or (market_upper m) k JNull) \<noteq> Inl OverflowError) [''H'', ''D'', ''A'']"

lemma market_upper_sub: "set (market_upper m) \<subseteq> {(map upper_char k, v) | k v. (k, v) \<in> set m}"
proof -
  have "set (foldl (\<lambda>d kv. od_set (map upper_char (fst kv)) (snd kv) d) d m) \<subseteq>
      set d \<union> {(map upper_char k, v) | k v. (k, v) \<in> set m}" for d
  proof (induction m arbitrary: d)
    case (Cons kv m)
    obtain k v where kv: "kv = (k, v)" by (cases kv)
    show ?case using Cons [of "od_set (map upper_char k) v d"] set_od_set_sub [of "map upper_char k" v d] unfolding kv by fastforce
  qed simp
  from this [of "[]"] show ?thesis by (simp add: market_upper_def)
qed

lemma floats_readable: "readable_outcomes L (map (\<lambda>(k, p). (k, JFloat p)) ds)"
proof -
  have "py_float L (jget_or (market_upper (map (\<lambda>(k, p). (k, JFloat p)) ds)) k JNull) \<noteq> Inl OverflowError" for k
  proof (cases "map_of (market_upper (map (\<lambda>(k, p). (k, JFloat p)) ds)) k")
    case (Some v)
    then have "(k, v) \<in> set (market_upper (map (\<lambda>(k, p). (k, JFloat p)) ds))" by (rule map_of_SomeD)
    then obtain p where "v = JFloat p" using market_upper_sub [of "map (\<lambda>(k, p). (k, JFloat p)) ds"] by auto
    with Some show ?thesis by (simp add: jget_or_def)
  qed (simp add: jget_or_def)
  then show ?thesis by (simp add: readable_outcomes_def)
qed

lemma marginal_flag_result:
  assumes "readable_outcomes L m" "k \<in> {''H'', ''D'', ''A''}"
  shows "\<exists>x. marginal_flag L tol (market_upper m) (k, s) = Inr x \<and> (x = None \<longleftrightarrow> (\<forall>p. declares L m k p \<longrightarrow> \<bar>p - s\<bar> \<le> tol))"
proof (cases "float_caught L (jget_or (market_upper m) k JNull)")
  case (Inl e)
  then show ?thesis using assms by (auto simp: float_caught_Inl readable_outcomes_def)
next
  case (Inr n)
  show ?thesis
  proof (cases n)
    case None
    with Inr have "py_float L (jget_or (market_upper m) k JNull) \<noteq> Inr p" for p
      by (auto simp flip: float_caught_Some)
    with Inr None show ?thesis by (auto simp: marginal_flag_def declares_def Let_def)
  next
    case (Some p)
    with Inr have "py_float L (jget_or (market_upper m) k JNull) = Inr p" by (simp flip: float_caught_Some)
    with Inr Some show ?thesis by (auto simp: marginal_flag_def declares_def Let_def)
  qed
qed

definition verdict_of :: "check_result res \<Rightarrow> string res" where
  "verdict_of r = res_bind r (\<lambda>(what, score, ds). Inr what)"

lemma verdict_of_simps [simp]: "verdict_of (Inr (what, score, ds)) = Inr what" "verdict_of (Inl e) = Inl e"
  by (simp_all add: verdict_of_def)

lemma consistency_check_numbers:
  assumes "d = [(''market_outcomes'', JObj m), (''score_grid'', JArr (map json_row g))]" "readable_outcomes L m"
  shows "verdict_of (grid_consistency_check L tol d) =
    Inr (if (\<forall>p. declares L m ''H'' p \<longrightarrow> \<bar>p - cells_sum (\<lambda>i j. j < i) 0 g\<bar> \<le> tol) \<and>
        (\<forall>p. declares L m ''D'' p \<longrightarrow> \<bar>p - cells_sum (\<lambda>i j. i = j) 0 g\<bar> \<le> tol) \<and>
        (\<forall>p. declares L m ''A'' p \<longrightarrow> \<bar>p - cells_sum (\<lambda>i j. i < j) 0 g\<bar> \<le> tol)
     then ''accept'' else ''reject'')"
proof -
  let ?h = "cells_sum (\<lambda>i j. j < i) 0 g" and ?d = "cells_sum (\<lambda>i j. i = j) 0 g" and ?a = "cells_sum (\<lambda>i j. i < j) 0 g"
  obtain x y z where f: "marginal_flag L tol (market_upper m) (''H'', ?h) = Inr x" "marginal_flag L tol (market_upper m) (''D'', ?d) = Inr y"
    "marginal_flag L tol (market_upper m) (''A'', ?a) = Inr z"
    and none: "x = None \<longleftrightarrow> (\<forall>p. declares L m ''H'' p \<longrightarrow> \<bar>p - ?h\<bar> \<le> tol)" "y = None \<longleftrightarrow> (\<forall>p. declares L m ''D'' p \<longrightarrow> \<bar>p - ?d\<bar> \<le> tol)"
    "z = None \<longleftrightarrow> (\<forall>p. declares L m ''A'' p \<longrightarrow> \<bar>p - ?a\<bar> \<le> tol)"
    using marginal_flag_result [OF assms(2), of "''H''" tol ?h] marginal_flag_result [OF assms(2), of "''D''" tol ?d]
      marginal_flag_result [OF assms(2), of "''A''" tol ?a] by blast
  have "grid_consistency_check L tol d =
      Inr (if details [x, y, z] \<noteq> [] then (''reject'', 1, details [x, y, z]) else (''accept'', 1, []))"
    unfolding assms(1) grid_consistency_check_def market_of_json
    by (simp add: jget_or_def scan_grid_sums add_marginals_def f)
  moreover have "details [x, y, z] = [] \<longleftrightarrow> x = None \<and> y = None \<and> z = None"
    by (simp add: details_def map_filter_simps split: option.splits)
  ultimately show ?thesis unfolding none by simp
qed

text \<open>
  The consistency check compares the right cells. On a grid of numbers it accepts exactly
  when each of the home, draw and away probabilities that the market declares (under its name in
  either case) differs by at most the tolerance from the sum of the cells below, on and above the diagonal, and rejects
  otherwise; without a grid, or with outcomes that are not a dict, it accepts.
\<close>

lemma consistency_check_exact:
  "(\<forall>m g. d = [(''market_outcomes'', JObj m), (''score_grid'', JArr (map json_row g))] \<longrightarrow> readable_outcomes L m \<longrightarrow>
     verdict_of (grid_consistency_check L tol d) =
      Inr (if (\<forall>p. declares L m ''H'' p \<longrightarrow> \<bar>p - cells_sum (\<lambda>i j. j < i) 0 g\<bar> \<le> tol) \<and>
          (\<forall>p. declares L m ''D'' p \<longrightarrow> \<bar>p - cells_sum (\<lambda>i j. i = j) 0 g\<bar> \<le> tol) \<and>
          (\<forall>p. declares L m ''A'' p \<longrightarrow> \<bar>p - cells_sum (\<lambda>i j. i < j) 0 g\<bar> \<le> tol)
       then ''accept'' else ''reject'')) \<and>
   (jget_or d ''score_grid'' JNull = JNull \<or> (\<exists>rows. jget_or d ''score_grid'' JNull = JArr rows) \<and> market_of d = None \<longrightarrow>
     verdict_of (grid_consistency_check L tol d) = Inr ''accept'')"
  using consistency_check_numbers [of d] by (auto simp: grid_consistency_check_def)

section \<open>What a replica publishes\<close>

definition result_ok :: "check_result \<Rightarrow> bool" where
  "result_ok r \<longleftrightarrow> (case r of (what, score, ds) \<Rightarrow> what \<in> set allowed_verdicts \<and> 0 \<le> score \<and> score \<le> 1)"

definition proofreader_ok :: "proofreader \<Rightarrow> bool" where
  "proofreader_ok r \<longleftrightarrow> (\<forall>f x. pf_check r f = Inr x \<longrightarrow> result_ok x)"

lemma checks_result_ok:
  "sanity_check L eps d = Inr r \<Longrightarrow> result_ok r" "plausibility_check L cap d = Inr r \<Longrightarrow> result_ok r"
  "grid_consistency_check L tol d = Inr r \<Longrightarrow> result_ok r"
proof -
  note d = result_ok_def allowed_verdicts_def Let_def
  show "sanity_check L eps d = Inr r \<Longrightarrow> result_ok r" "plausibility_check L cap d = Inr r \<Longrightarrow> result_ok r"
    by (auto simp: d sanity_check_def plausibility_check_def res_iffs split: option.split_asm if_split_asm)
  have bind: "P" if "res_bind m f = Inr r" "\<And>a. f a = Inr r \<Longrightarrow> P" for m :: "'a res" and f and r :: check_result and P
    using that by (auto simp: res_iffs)
  show "grid_consistency_check L tol d = Inr r \<Longrightarrow> result_ok r"
    unfolding grid_consistency_check_def d
    by (auto elim!: bind split: option.split_asm jval.split_asm sum.split_asm if_split_asm)
qed

lemma policy_ok:
  "proofreader_ok (sanity_proofreader L eps)" "proofreader_ok (plausibility_proofreader L cap)"
  "proofreader_ok (consistency_proofreader L tol)"
  by (auto simp: proofreader_ok_def sanity_proofreader_def plausibility_proofreader_def consistency_proofreader_def checks_result_ok)

lemma final_verdict_check:
  assumes "proofreader_ok r"
  shows "verdict_check (final_verdict env r f) = Inr (final_verdict env r f)"
proof (cases "pf_check r f")
  case (Inl e)
  then show ?thesis by (simp add: verdict_check_def final_verdict_def allowed_verdicts_def)
next
  case (Inr x)
  with assms have "result_ok x" unfolding proofreader_ok_def by blast
  with Inr show ?thesis by (cases x) (auto simp: verdict_check_def final_verdict_def result_ok_def)
qed

lemma proofreader_handle_final:
  assumes "proofreader_ok r" "en_topic (msg_envelope msg) = predict_final_topic"
    and "predict_final_from_dict L (msg_payload msg) = Inr f"
  shows "proofreader_handle L env r msg =
    Inr (\<lparr>em_topic = verdict_topic, em_payload = verdict_as_dict (final_verdict env r f), em_producer = pf_name r,
           em_trace = Some (en_trace_id (msg_envelope msg))\<rparr>
       # (case pf_check r f of Inl e \<Rightarrow> [internal_error_flag env r f e (en_trace_id (msg_envelope msg))] | Inr res \<Rightarrow> []))"
  using assms by (simp add: proofreader_handle_def final_verdict_check Let_def)

text \<open>
  Every replica answers every candidate with one usable verdict. Whatever its check computes
  or raises, a replica publishes for each decodable final exactly one verdict, which every consumer decodes, under the
  final's prediction id and the replica's name; it flags no rule unless the verdict is not accept, and then the
  rules it ran; a raising check becomes a warning of score zero, never a reject, with a
  flag that says so.
\<close>

lemma replica_answers_every_final:
  assumes "proofreader_ok r" "en_topic (msg_envelope msg) = predict_final_topic"
    and "predict_final_from_dict L (msg_payload msg) = Inr f"
  shows "\<exists>e flags v. proofreader_handle L env r msg = Inr (e # flags) \<and> em_topic e = verdict_topic \<and>
    verdict_from_dict M (em_payload e) = Inr v \<and> vd_prediction_id v = pf_prediction_id f \<and> vd_proofreader_id v = pf_name r \<and>
    vd_match_id v = pf_match_id f \<and> vd_flags v = (if vd_verdict v = ''accept'' then [] else pf_checks_run r) \<and>
    (\<forall>what score ds. pf_check r f = Inr (what, score, ds) \<longrightarrow> vd_verdict v = what \<and> vd_score v = score \<and> flags = []) \<and>
    (\<forall>x. pf_check r f = Inl x \<longrightarrow> vd_verdict v = ''warn'' \<and> vd_score v = 0 \<and>
       (\<exists>g. flags = [g] \<and> em_topic g = proof_flag_topic))"
proof -
  let ?e = "\<lparr>em_topic = verdict_topic, em_payload = verdict_as_dict (final_verdict env r f), em_producer = pf_name r,
           em_trace = Some (en_trace_id (msg_envelope msg))\<rparr>"
  note h = proofreader_handle_final [OF assms, of env]
  show ?thesis
  proof (cases "pf_check r f")
    case (Inl x)
    with h verdict_wire [OF final_verdict_check [OF assms(1)], of M env f] show ?thesis
      by (intro exI [of _ ?e] exI [of _ "[internal_error_flag env r f x (en_trace_id (msg_envelope msg))]"]
            exI [of _ "final_verdict env r f"])
        (simp add: internal_error_flag_def, simp add: final_verdict_def)
  next
    case (Inr x)
    with h verdict_wire [OF final_verdict_check [OF assms(1)], of M env f] show ?thesis
      by (intro exI [of _ ?e] exI [of _ "[]"] exI [of _ "final_verdict env r f"])
        (cases x, simp, simp add: final_verdict_def)
  qed
qed

text \<open>
  An integer too large for a float draws a warning, not a rejection. The handler around \<open>float(val)\<close> does not name
  \<open>OverflowError\<close>, so the sanity check raises on a candidate with such an outcome, and the replica publishes a
  warning of score zero, which the aggregator counts to the quorum.
\<close>

lemma oversized_outcome_only_warned:
  assumes "market_of (pf_distribution f) = Some ((k, JInt i) # m)" "2 ^ 1024 - 2 ^ 970 \<le> \<bar>i\<bar>"
  shows "pf_check (sanity_proofreader L eps) f = Inl OverflowError \<and>
    vd_verdict (final_verdict env (sanity_proofreader L eps) f) = ''warn'' \<and>
    vd_score (final_verdict env (sanity_proofreader L eps) f) = 0 \<and> accept_warn (final_verdict env (sanity_proofreader L eps) f)"
proof -
  have "float_caught L (JInt i) = Inl OverflowError" unfolding float_caught_Inl using assms(2) by (simp only: py_float.simps if_True simp_thms)
  then have "pf_check (sanity_proofreader L eps) f = Inl OverflowError"
    by (simp add: sanity_proofreader_def sanity_check_def assms(1))
  then show ?thesis by (simp add: final_verdict_def accept_warn_def)
qed

definition example_reader_env :: proofreader_env where
  "example_reader_env = \<lparr>pe_stamp = ''t'', pe_render = (\<lambda>_. ''detail''), pe_class = (\<lambda>_. ''Error''), pe_text = (\<lambda>_. ''text''), pe_suffix = ''..''\<rparr>"

end
