(* ===== verification/Predictors.thy ===== *)
theory Predictors
  imports Grids
begin

text \<open>
  The five predictors of the roster (\<open>swarm/agents/predictors/dixon_coles.py\<close>, \<open>xgb_xg.py\<close>, \<open>elo.py\<close>,
  \<open>xgb_form.py\<close>, \<open>lgbm_market.py\<close>): what each computes from a request's features. A trained booster is not part of the
  repository; where the source consults one (\<open>xgb_form\<close>) it is a parameter that returns a row of
  numbers or raises, and the other two never use theirs. The contract the five share is the locale
  \<open>predictor_model\<close>: on features of the size football has, a distribution over the outcomes of the market, except
  that the market model abstains where it has no odds. Outside that size the Elo power overflows, which
  \<open>expected_score\<close> says, and the grid of a huge goal rate is empty (\<^verbatim>\<open>Grids\<close>).
\<close>

section \<open>Features and predictions\<close>

definition feature :: "pylib \<Rightarrow> jobj \<Rightarrow> string \<Rightarrow> real \<Rightarrow> real res" where
  "feature L f k dflt = py_float L (jget_or f k (JFloat dflt))"

definition score_grid_json :: "real list list option \<Rightarrow> jval" where
  "score_grid_json g = (case g of None \<Rightarrow> JNull | Some rows \<Rightarrow> JArr (map json_row rows))"

definition prediction :: "(string, real) odict \<Rightarrow> real list list option \<Rightarrow> jobj" where
  "prediction outcomes grid =
     [(''market_outcomes'', JObj (map (\<lambda>(k, p). (k, JFloat p)) outcomes)), (''score_grid'', score_grid_json grid)]"

definition no_prediction :: "jobj \<times> jval" where
  "no_prediction = ([(''market_outcomes'', JObj [])], JFloat 0)"

section \<open>Dixon-Coles and expected goals\<close>

definition grid_outcomes :: "string \<Rightarrow> real list list \<Rightarrow> (string, real) odict option res" where
  "grid_outcomes market grid =
     (if market = ''1x2'' then res_bind (project_1x2 grid) (\<lambda>ds. Inr (Some ds))
      else if market = ''ah'' then res_bind (project_ah_home grid) (\<lambda>ds. Inr (Some ds))
      else if market = ''ou_2_5'' then res_bind (project_ou25 grid) (\<lambda>ds. Inr (Some ds))
      else if market = ''btts'' then res_bind (project_btts grid) (\<lambda>ds. Inr (Some ds))
      else Inr None)"

definition grid_prediction :: "string \<Rightarrow> real list list \<Rightarrow> (jobj \<times> jval) res" where
  "grid_prediction market grid =
     res_bind (modal_mass grid) (\<lambda>mass.
     let confidence = max (1 / 20) (min 1 (mass * 4)) in
     res_bind (grid_outcomes market grid) (\<lambda>outcomes. Inr (case outcomes of
        None \<Rightarrow> no_prediction
      | Some ds \<Rightarrow> (prediction ds (Some grid), JFloat confidence))))"

definition dixon_coles_predict :: "pylib \<Rightarrow> predict_request \<Rightarrow> jobj \<Rightarrow> (jobj \<times> jval) res" where
  "dixon_coles_predict L req f =
     res_bind (feature L f ''home_xg'' (14 / 10)) (\<lambda>home_xg.
     res_bind (feature L f ''away_xg'' (11 / 10)) (\<lambda>away_xg.
     res_bind (feature L f ''dixon_coles_rho'' (- 1 / 10)) (\<lambda>rho.
     let lam_h = max (1 / 20) home_xg;
         lam_a = max (1 / 20) away_xg in
     grid_prediction (rq_market req) (score_grid lam_h lam_a (Some rho) max_goals_default))))"

definition expected_goals :: "pylib \<Rightarrow> jobj \<Rightarrow> (real \<times> real) res" where
  "expected_goals L f =
     res_bind (feature L f ''home_xg_per_match'' (14 / 10)) (\<lambda>home_xg.
     res_bind (feature L f ''away_xg_per_match'' (11 / 10)) (\<lambda>away_xg.
     res_bind (feature L f ''home_shot_quality'' (1 / 10)) (\<lambda>home_q.
     res_bind (feature L f ''away_shot_quality'' (9 / 100)) (\<lambda>away_q.
     res_bind (feature L f ''home_advantage'' (1 / 10)) (\<lambda>ha.
     Inr (max (1 / 20) (home_xg * (1 + 2 * (home_q - 1 / 10)) + ha),
          max (1 / 20) (away_xg * (1 + 2 * (away_q - 1 / 10)))))))))"

definition xgb_xg_predict :: "pylib \<Rightarrow> predict_request \<Rightarrow> jobj \<Rightarrow> (jobj \<times> jval) res" where
  "xgb_xg_predict L req f =
     res_bind (expected_goals L f) (\<lambda>(lam_h, lam_a).
     grid_prediction (rq_market req) (score_grid lam_h lam_a None max_goals_default))"

section \<open>Elo\<close>

text \<open>\<open>math.pow\<close> raises when its result rounds beyond the largest double.\<close>

definition expected_score :: "real \<Rightarrow> real \<Rightarrow> real \<Rightarrow> real res" where
  "expected_score home_elo away_elo ha =
     (let power = 10 powr ((away_elo - home_elo - ha) / 400) in
      if 2 ^ 1024 - 2 ^ 970 \<le> power then Inl OverflowError else Inr (1 / (1 + power)))"

definition clamp :: "real \<Rightarrow> real \<Rightarrow> real \<Rightarrow> real" where
  "clamp lo hi x = max lo (min hi x)"

definition elo_outcomes :: "string \<Rightarrow> real \<Rightarrow> (string, real) odict option" where
  "elo_outcomes market e_home =
     (let non_draw = 1 - 27 / 100;
          p_h = max 0 (min non_draw (non_draw * e_home));
          p_a = max 0 (non_draw - p_h);
          p_d = 27 / 100 in
      if market = ''1x2'' then Some [(''H'', p_h), (''D'', p_d), (''A'', p_a)]
      else if market = ''ah'' then Some [(''home'', p_h), (''away'', 1 - p_h)]
      else if market = ''ou_2_5'' then
        let over = clamp (5 / 100) (95 / 100) (1 / 2 + 2 / 10 * (e_home - 1 / 2)) in
        Some [(''over'', over), (''under'', 1 - over)]
      else if market = ''btts'' then
        let evenness = 1 - \<bar>2 * e_home - 1\<bar>;
            yes = clamp (5 / 100) (95 / 100) (4 / 10 + 3 / 10 * evenness) in
        Some [(''yes'', yes), (''no'', 1 - yes)]
      else None)"

definition elo_predict :: "pylib \<Rightarrow> predict_request \<Rightarrow> jobj \<Rightarrow> (jobj \<times> jval) res" where
  "elo_predict L req f =
     res_bind (feature L f ''home_elo'' 1500) (\<lambda>home_elo.
     res_bind (feature L f ''away_elo'' 1500) (\<lambda>away_elo.
     res_bind (feature L f ''home_advantage'' 65) (\<lambda>ha.
     res_bind (expected_score home_elo away_elo ha) (\<lambda>e_home.
     let confidence = max 0 (min 1 (\<bar>home_elo + ha - away_elo\<bar> / 200)) in
     Inr (case elo_outcomes (rq_market req) e_home of
        None \<Rightarrow> no_prediction
      | Some ds \<Rightarrow> (prediction ds None, JFloat confidence))))))"

section \<open>Recent form\<close>

definition form_score :: "pylib \<Rightarrow> jobj \<Rightarrow> (string, real) odict res" where
  "form_score L f =
     res_bind (feature L f ''home_form_5'' (3 / 2)) (\<lambda>home_form.
     res_bind (feature L f ''away_form_5'' (3 / 2)) (\<lambda>away_form.
     res_bind (feature L f ''home_gd_5'' 0) (\<lambda>home_gd.
     res_bind (feature L f ''away_gd_5'' 0) (\<lambda>away_gd.
     res_bind (feature L f ''home_advantage'' (1 / 2)) (\<lambda>ha.
     let score_h = 55 / 100 * home_form + 20 / 100 * home_gd + 40 / 100 * ha;
         score_a = - 55 / 100 * away_form + - 20 / 100 * away_gd + - 40 / 100 * ha;
         score_d = - 30 / 100 - 5 / 10 * \<bar>score_h - score_a\<bar> in
     Inr [(''H'', score_h), (''D'', score_d), (''A'', score_a)])))))"

text \<open>The booster's row, if it has three entries: normalised when their sum is positive.\<close>

definition booster_pmf :: "(jobj \<Rightarrow> real list res) \<Rightarrow> jobj \<Rightarrow> (string, real) odict res" where
  "booster_pmf booster f =
     res_bind (booster f) (\<lambda>raw. case take 3 raw of
        [p_h, p_d, p_a] \<Rightarrow>
          let z = p_h + p_d + p_a in
          Inr (if 0 < z then [(''H'', p_h / z), (''D'', p_d / z), (''A'', p_a / z)]
               else [(''H'', p_h), (''D'', p_d), (''A'', p_a)])
      | _ \<Rightarrow> Inl ValueError)"

definition form_pmf :: "pylib \<Rightarrow> (jobj \<Rightarrow> real list res) option \<Rightarrow> jobj \<Rightarrow> (string, real) odict res" where
  "form_pmf L booster f =
     (let fallback = res_bind (form_score L f) (\<lambda>s. Inr (softmax s)) in
      case booster of
        None \<Rightarrow> fallback
      | Some b \<Rightarrow> (case booster_pmf b f of Inl e \<Rightarrow> fallback | Inr pmf \<Rightarrow> Inr pmf))"

definition pmf_at :: "(string, real) odict \<Rightarrow> string \<Rightarrow> real res" where
  "pmf_at pmf k = (case map_of pmf k of None \<Rightarrow> Inl KeyError | Some p \<Rightarrow> Inr p)"

definition form_outcomes :: "string \<Rightarrow> (string, real) odict \<Rightarrow> (string, real) odict option res" where
  "form_outcomes market pmf =
     (if market = ''1x2'' then Inr (Some pmf)
      else if market = ''ah'' then
        res_bind (pmf_at pmf ''H'') (\<lambda>h. res_bind (pmf_at pmf ''D'') (\<lambda>d. res_bind (pmf_at pmf ''A'') (\<lambda>a.
        Inr (Some [(''home'', h), (''away'', d + a)]))))
      else if market = ''ou_2_5'' then
        res_bind (pmf_at pmf ''H'') (\<lambda>h. res_bind (pmf_at pmf ''A'') (\<lambda>a.
        let over = clamp (5 / 100) (95 / 100) (50 / 100 + 25 / 100 * \<bar>h - a\<bar>) in
        Inr (Some [(''over'', over), (''under'', 1 - over)])))
      else if market = ''btts'' then
        res_bind (pmf_at pmf ''H'') (\<lambda>h. res_bind (pmf_at pmf ''A'') (\<lambda>a.
        let yes = clamp (5 / 100) (95 / 100) (45 / 100 + 20 / 100 * (1 - \<bar>h - a\<bar>)) in
        Inr (Some [(''yes'', yes), (''no'', 1 - yes)])))
      else Inr None)"

definition xgb_form_predict ::
  "pylib \<Rightarrow> (jobj \<Rightarrow> real list res) option \<Rightarrow> predict_request \<Rightarrow> jobj \<Rightarrow> (jobj \<times> jval) res" where
  "xgb_form_predict L booster req f =
     res_bind (form_pmf L booster f) (\<lambda>pmf.
     res_bind (py_max (map snd pmf)) (\<lambda>max_p.
     let confidence = max 0 (min 1 ((max_p - 1 / 3) / (2 / 3))) in
     res_bind (form_outcomes (rq_market req) pmf) (\<lambda>outcomes. Inr (case outcomes of
        None \<Rightarrow> no_prediction
      | Some ds \<Rightarrow> (prediction ds None, JFloat confidence)))))"

section \<open>Market odds\<close>

definition devig_two :: "real \<Rightarrow> real \<Rightarrow> real \<times> real" where
  "devig_two p1 p2 = (let z = p1 + p2 in if z \<le> 0 then (1 / 2, 1 / 2) else (p1 / z, p2 / z))"

definition devig_three :: "real \<Rightarrow> real \<Rightarrow> real \<Rightarrow> real \<times> real \<times> real" where
  "devig_three p1 p2 p3 =
     (let z = p1 + p2 + p3 in if z \<le> 0 then (1 / 3, 1 / 3, 1 / 3) else (p1 / z, p2 / z, p3 / z))"

definition odds :: "pylib \<Rightarrow> jobj \<Rightarrow> string \<Rightarrow> real res" where
  "odds L f k = (let j = jget_or f k (JFloat 0) in if py_bool j then py_float L j else Inr 0)"

definition odds_pair :: "pylib \<Rightarrow> jobj \<Rightarrow> string \<Rightarrow> string \<Rightarrow> string \<Rightarrow> string \<Rightarrow> (string, real) odict option res" where
  "odds_pair L f odds_a odds_b a b =
     res_bind (odds L f odds_a) (\<lambda>oa. res_bind (odds L f odds_b) (\<lambda>ob.
     if min oa ob \<le> 1 then Inr None
     else let (pa, pb) = devig_two (1 / oa) (1 / ob) in Inr (Some [(a, pa), (b, pb)])))"

definition market_odds :: "pylib \<Rightarrow> string \<Rightarrow> jobj \<Rightarrow> (string, real) odict option res" where
  "market_odds L market f =
     (if market = ''1x2'' then
        res_bind (odds L f ''odds_home'') (\<lambda>oh. res_bind (odds L f ''odds_draw'') (\<lambda>od. res_bind (odds L f ''odds_away'') (\<lambda>oa.
        if min oh (min od oa) \<le> 1 then Inr None
        else let (ph, pd, pa) = devig_three (1 / oh) (1 / od) (1 / oa) in
          Inr (Some [(''H'', ph), (''D'', pd), (''A'', pa)]))))
      else if market = ''ah'' then odds_pair L f ''odds_home'' ''odds_away'' ''home'' ''away''
      else if market = ''ou_2_5'' then odds_pair L f ''odds_over_2_5'' ''odds_under_2_5'' ''over'' ''under''
      else if market = ''btts'' then odds_pair L f ''odds_btts_yes'' ''odds_btts_no'' ''yes'' ''no''
      else Inr None)"

definition lgbm_market_predict :: "pylib \<Rightarrow> predict_request \<Rightarrow> jobj \<Rightarrow> (jobj \<times> jval) res" where
  "lgbm_market_predict L req f =
     res_bind (market_odds L (rq_market req) f) (\<lambda>outcomes. case outcomes of
        None \<Rightarrow> Inr no_prediction
      | Some ds \<Rightarrow>
          res_bind (py_max (map snd ds)) (\<lambda>modal. Inr (prediction ds None, JFloat (max 0 (min 1 modal)))))"

section \<open>The contract of the roster\<close>

text \<open>What a vote promises: a distribution over the market's outcomes, a confidence in the unit interval
  and, if there is a grid, a distribution over scores that agrees with the 1X2 outcomes.\<close>

definition grid_ok :: "string \<Rightarrow> (string, real) odict \<Rightarrow> real list list \<Rightarrow> bool" where
  "grid_ok market ds g \<longleftrightarrow>
     list_all (list_all (\<lambda>p. 0 \<le> p \<and> p \<le> 1)) g \<and> grid_total g = 1 \<and>
     (market = ''1x2'' \<longrightarrow> ds = [(''H'', cells_sum (\<lambda>h a. a < h) 0 g), (''D'', cells_sum (\<lambda>h a. h = a) 0 g),
        (''A'', cells_sum (\<lambda>h a. h < a) 0 g)])"

definition prediction_ok :: "string \<Rightarrow> jobj \<Rightarrow> jval \<Rightarrow> bool" where
  "prediction_ok market d c \<longleftrightarrow>
     (\<exists>ds g conf. d = prediction ds g \<and> c = JFloat conf \<and> 0 \<le> conf \<and> conf \<le> 1 \<and> is_pmf market ds \<and>
        (case g of None \<Rightarrow> True | Some cells \<Rightarrow> grid_ok market ds cells))"

text \<open>Features of the size football has: all of them numbers, the ones below within their bounds. A feature that is
  absent has the source's default, which is within the bounds too.\<close>

definition numeric :: "pylib \<Rightarrow> jobj \<Rightarrow> bool" where
  "numeric L f \<longleftrightarrow> (\<forall>k v. map_of f k = Some v \<longrightarrow> (\<exists>x. py_float L v = Inr x))"

definition football_bounds :: "(string \<times> real) list" where
  "football_bounds =
     [(''home_elo'', 10000), (''away_elo'', 10000), (''home_advantage'', 150),
      (''home_xg'', 200), (''away_xg'', 200), (''dixon_coles_rho'', 10),
      (''home_xg_per_match'', 10), (''away_xg_per_match'', 10), (''home_shot_quality'', 2), (''away_shot_quality'', 2),
      (''home_form_5'', 1000), (''away_form_5'', 1000), (''home_gd_5'', 1000), (''away_gd_5'', 1000)]"

definition football_features :: "pylib \<Rightarrow> jobj \<Rightarrow> bool" where
  "football_features L f \<longleftrightarrow> numeric L f \<and>
     (\<forall>(k, b) \<in> set football_bounds. \<forall>v x. map_of f k = Some v \<longrightarrow> py_float L v = Inr x \<longrightarrow> \<bar>x\<bar> \<le> b)"

locale predictor_model =
  fixes L :: pylib and predict :: "predict_request \<Rightarrow> jobj \<Rightarrow> (jobj \<times> jval) res" and votes_on :: "string \<Rightarrow> jobj \<Rightarrow> bool"
  assumes predict_ok: "football_features L f \<Longrightarrow> rq_market req \<in> set allowed_markets \<Longrightarrow>
    \<exists>d c. predict req f = Inr (d, c) \<and> (if votes_on (rq_market req) f then prediction_ok (rq_market req) d c else (d, c) = no_prediction)"

lemma prediction_okI:
  assumes "is_pmf market ds" "0 \<le> conf" "conf \<le> 1" "\<And>cells. g = Some cells \<Longrightarrow> grid_ok market ds cells"
  shows "prediction_ok market (prediction ds g) (JFloat conf)"
  unfolding prediction_ok_def using assms
  by (intro exI [of _ ds] exI [of _ g] exI [of _ conf]) (simp split: option.splits)

lemma feature_numeric: "numeric L f \<Longrightarrow> \<exists>x. feature L f k dflt = Inr x"
  by (auto simp: feature_def jget_or_def numeric_def split: option.splits)

lemma football_feature:
  assumes "football_features L f" "(k, b) \<in> set football_bounds" "\<bar>dflt\<bar> \<le> b"
  shows "\<exists>x. feature L f k dflt = Inr x \<and> \<bar>x\<bar> \<le> b"
proof (cases "map_of f k")
  case None
  then show ?thesis using assms(3) by (simp add: feature_def jget_or_def)
next
  case (Some v)
  obtain x where "py_float L v = Inr x" using Some assms(1) unfolding football_features_def numeric_def by blast
  with Some assms(1,2) show ?thesis by (auto simp: feature_def jget_or_def football_features_def)
qed

lemma modal_mass_square:
  assumes "grid_shape n n g" "0 < n"
  shows "\<exists>m. modal_mass g = Inr m"
proof -
  have "res_map py_max g = Inr (map (\<lambda>row. Max (set row)) g)"
    using assms by (intro res_map_Inr) (auto simp: py_max_def grid_shape_def)
  then show ?thesis using assms by (auto simp: modal_mass_def py_max_def grid_shape_def)
qed

lemma grid_prediction_ok:
  assumes "grid_shape n n g" "0 < n" "list_all (list_all (\<lambda>p. 0 \<le> p \<and> p \<le> 1)) g" "grid_total g = 1"
    and "market \<in> set allowed_markets"
  shows "\<exists>d c. grid_prediction market g = Inr (d, c) \<and> prediction_ok market d c"
proof -
  have nonneg: "list_all (list_all (\<lambda>p. 0 \<le> p)) g" using assms(3) by (auto simp: list_all_iff)
  note pmfs = project_pmfs [OF assms(1) nonneg assms(4)] and vals = project_values [OF assms(1) nonneg assms(4)]
  obtain m where m: "modal_mass g = Inr m" using modal_mass_square [OF assms(1,2)] by blast
  let ?c = "max (1 / 20) (min 1 (m * 4))"
  obtain ds where ds: "grid_outcomes market g = Inr (Some ds)" "is_pmf market ds"
    using assms(5) pmfs [of project_1x2 "''1x2''"] pmfs [of project_ah_home "''ah''"] pmfs [of project_ou25 "''ou_2_5''"] pmfs [of project_btts "''btts''"]
    by (auto simp: grid_outcomes_def allowed_markets_def)
  have "ds = [(''H'', cells_sum (\<lambda>h a. a < h) 0 g), (''D'', cells_sum (\<lambda>h a. h = a) 0 g), (''A'', cells_sum (\<lambda>h a. h < a) 0 g)]"
    if "market = ''1x2''"
    using ds(1) that by (simp add: grid_outcomes_def vals(1))
  then have "prediction_ok market (prediction ds (Some g)) (JFloat ?c)"
    using ds(2) assms(3,4) by (intro prediction_okI) (auto simp: grid_ok_def)
  then show ?thesis
    using m ds(1) by (simp add: grid_prediction_def Let_def)
qed

lemma score_grid_prediction:
  assumes "lam_h \<le> 200" "lam_a \<le> 200" "market \<in> set allowed_markets"
  shows "\<exists>d c. grid_prediction market (score_grid (max (1 / 20) lam_h) (max (1 / 20) lam_a) rho max_goals_default) = Inr (d, c) \<and>
    prediction_ok market d c"
proof -
  have "in_range (max (1 / 20) lam_h) max_goals_default" "in_range (max (1 / 20) lam_a) max_goals_default"
    using assms(1,2) by (auto simp: max_goals_default_def intro!: football_rates)
  from score_grid_pmf [OF this, of rho] assms(3) show ?thesis
    by (intro grid_prediction_ok [of "max_goals_default + 1"]) (auto simp: max_goals_default_def)
qed

interpretation dixon_coles: predictor_model L "dixon_coles_predict L" "\<lambda>_ _. True" for L
proof unfold_locales
  fix f and req :: predict_request assume f: "football_features L f" and m: "rq_market req \<in> set allowed_markets"
  obtain h a rho where "feature L f ''home_xg'' (14 / 10) = Inr h" "\<bar>h\<bar> \<le> 200" "feature L f ''away_xg'' (11 / 10) = Inr a" "\<bar>a\<bar> \<le> 200"
    "feature L f ''dixon_coles_rho'' (- 1 / 10) = Inr rho"
    using football_feature [OF f, of "''home_xg''" 200 "14 / 10"] football_feature [OF f, of "''away_xg''" 200 "11 / 10"]
      football_feature [OF f, of "''dixon_coles_rho''" 10 "- 1 / 10"] by (auto simp: football_bounds_def)
  with score_grid_prediction [OF _ _ m, of h a "Some rho"]
  show "\<exists>d c. dixon_coles_predict L req f = Inr (d, c) \<and> (if True then prediction_ok (rq_market req) d c else (d, c) = no_prediction)"
    by (simp add: dixon_coles_predict_def Let_def abs_le_iff)
qed

lemma quality_factor:
  fixes x q :: real
  assumes "\<bar>x\<bar> \<le> 10" "\<bar>q\<bar> \<le> 2"
  shows "x * (1 + 2 * (q - 1 / 10)) \<le> 48"
proof -
  have "\<bar>1 + 2 * (q - 1 / 10)\<bar> \<le> 48 / 10"
    using abs_le_D1 [OF assms(2)] abs_le_D2 [OF assms(2)] by (intro abs_leI) (simp_all add: right_diff_distrib)
  then have "\<bar>x * (1 + 2 * (q - 1 / 10))\<bar> \<le> 10 * (48 / 10)"
    unfolding abs_mult using assms by (intro mult_mono) simp_all
  then show ?thesis by simp
qed

interpretation xgb_xg: predictor_model L "xgb_xg_predict L" "\<lambda>_ _. True" for L
proof unfold_locales
  fix f and req :: predict_request assume f: "football_features L f" and m: "rq_market req \<in> set allowed_markets"
  obtain a b c d e where v: "feature L f ''home_xg_per_match'' (14 / 10) = Inr a" "\<bar>a\<bar> \<le> 10" "feature L f ''away_xg_per_match'' (11 / 10) = Inr b" "\<bar>b\<bar> \<le> 10"
    "feature L f ''home_shot_quality'' (1 / 10) = Inr c" "\<bar>c\<bar> \<le> 2" "feature L f ''away_shot_quality'' (9 / 100) = Inr d" "\<bar>d\<bar> \<le> 2"
    "feature L f ''home_advantage'' (1 / 10) = Inr e" "\<bar>e\<bar> \<le> 150"
    using football_feature [OF f, of "''home_xg_per_match''" 10 "14 / 10"] football_feature [OF f, of "''away_xg_per_match''" 10 "11 / 10"]
      football_feature [OF f, of "''home_shot_quality''" 2 "1 / 10"] football_feature [OF f, of "''away_shot_quality''" 2 "9 / 100"]
      football_feature [OF f, of "''home_advantage''" 150 "1 / 10"] by (auto simp: football_bounds_def)
  have "a * (1 + 2 * (c - 1 / 10)) + e \<le> 200" "b * (1 + 2 * (d - 1 / 10)) \<le> 200"
    using quality_factor [OF v(2,6)] quality_factor [OF v(4,8)] v(10) by (auto simp: abs_le_iff)
  from score_grid_prediction [OF this m, of None] v(1,3,5,7,9)
  show "\<exists>d c. xgb_xg_predict L req f = Inr (d, c) \<and> (if True then prediction_ok (rq_market req) d c else (d, c) = no_prediction)"
    by (simp add: xgb_xg_predict_def expected_goals_def)
qed

lemma expected_score_unit: "expected_score h a ha = Inr e \<Longrightarrow> 0 < e \<and> e < 1"
  by (auto simp: expected_score_def Let_def add_pos_pos split: if_splits)

text \<open>\<open>2^1024 - 2^970\<close>, the first number that rounds beyond the largest double, lies between \<open>2^1023\<close> and \<open>10^309\<close>.\<close>

lemma double_overflow_bounds: "(2 :: real) ^ 1023 \<le> 2 ^ 1024 - 2 ^ 970" "(2 :: real) ^ 1024 - 2 ^ 970 \<le> 10 ^ 309"
proof -
  have lower: "c \<le> a - b" if "b \<le> c" "a = 2 * c" for a b c :: real using that by linarith
  have upper: "a - b \<le> c" if "0 \<le> b" "a \<le> c" for a b c :: real using that by linarith
  show "(2 :: real) ^ 1023 \<le> 2 ^ 1024 - 2 ^ 970"
  proof (rule lower)
    show "(2 :: real) ^ 970 \<le> 2 ^ 1023" by (rule power_increasing) simp_all
    have "(2 :: real) ^ (1 + 1023) = 2 * 2 ^ 1023" by (simp only: power_add power_one_right)
    then show "(2 :: real) ^ 1024 = 2 * 2 ^ 1023" by (simp only: numeral_One [symmetric] numeral_plus_numeral add_num_simps)
  qed
  show "(2 :: real) ^ 1024 - 2 ^ 970 \<le> 10 ^ 309"
  proof (rule upper)
    have "(2 :: nat) ^ 1024 \<le> 10 ^ 309" by simp
    then have "real (2 ^ 1024) \<le> real (10 ^ 309)" by (rule of_nat_mono)
    then show "(2 :: real) ^ 1024 \<le> 10 ^ 309" by (simp only: of_nat_power of_nat_numeral)
  qed (rule zero_le_power, simp)
qed

lemma expected_score_returns:
  assumes "\<bar>h\<bar> \<le> 10000" "\<bar>a\<bar> \<le> 10000" "\<bar>ha\<bar> \<le> 150"
  shows "\<exists>e. expected_score h a ha = Inr e"
proof -
  have "(10 :: real) powr ((a - h - ha) / 400) \<le> 10 powr 51"
    using assms by (intro powr_mono) (auto simp: abs_le_iff)
  also have "\<dots> = 10 ^ 51" by (simp add: powr_numeral)
  also have "\<dots> \<le> 16 ^ 51" by (rule power_mono) simp_all
  also have "\<dots> = ((2 :: real) ^ 4) ^ 51" by simp
  also have "\<dots> = 2 ^ 204" by (simp only: power_mult [symmetric]) simp
  also have "\<dots> < (2 :: real) ^ 1023" by (rule power_strict_increasing) simp_all
  also note double_overflow_bounds(1)
  finally show ?thesis unfolding expected_score_def Let_def by (metis not_le)
qed

text \<open>The power raises as soon as the away side is rated 123600 points above the home side and its advantage.\<close>

lemma expected_score_overflows:
  assumes "home + ha + 123600 \<le> away"
  shows "expected_score home away ha = Inl OverflowError"
proof -
  have "(10 :: real) ^ 309 = 10 powr 309" by (simp only: powr_numeral zero_less_numeral)
  also have "\<dots> \<le> 10 powr ((away - home - ha) / 400)" using assms by (intro powr_mono) auto
  finally have "(2 :: real) ^ 1024 - 2 ^ 970 \<le> 10 powr ((away - home - ha) / 400)"
    by (rule order_trans [OF double_overflow_bounds(2)])
  then show ?thesis unfolding expected_score_def Let_def by (simp only: if_True)
qed

lemma clamp_unit: "0 \<le> clamp (5 / 100) (95 / 100) x \<and> clamp (5 / 100) (95 / 100) x \<le> 1"
  by (auto simp: clamp_def le_max_iff_disj min_le_iff_disj)

lemma elo_outcomes_pmf:
  assumes "0 \<le> e" "e \<le> 1" "market \<in> set allowed_markets"
  shows "\<exists>ds. elo_outcomes market e = Some ds \<and> is_pmf market ds"
proof -
  have "min (73 / 100) (73 / 100 * e) = 73 / 100 * e" "0 \<le> 73 / 100 * e" using assms by auto
  moreover have "73 / 100 * e \<le> 73 / 100" using assms by simp
  ultimately have "is_pmf ''1x2'' [(''H'', max 0 (min (73 / 100) (73 / 100 * e))), (''D'', 27 / 100),
      (''A'', max 0 (73 / 100 - max 0 (min (73 / 100) (73 / 100 * e))))]"
    "is_pmf ''ah'' [(''home'', max 0 (min (73 / 100) (73 / 100 * e))), (''away'', 1 - max 0 (min (73 / 100) (73 / 100 * e)))]"
    by (simp_all add: is_pmf_def market_outcomes_def)
  moreover have "is_pmf ''ou_2_5'' [(''over'', clamp (5 / 100) (95 / 100) x), (''under'', 1 - clamp (5 / 100) (95 / 100) x)]"
    "is_pmf ''btts'' [(''yes'', clamp (5 / 100) (95 / 100) x), (''no'', 1 - clamp (5 / 100) (95 / 100) x)]" for x
    using clamp_unit [of x] by (simp_all add: is_pmf_def market_outcomes_def)
  ultimately show ?thesis
    using assms(3) by (auto simp: elo_outcomes_def Let_def allowed_markets_def)
qed

interpretation elo: predictor_model L "elo_predict L" "\<lambda>_ _. True" for L
proof unfold_locales
  fix f and req :: predict_request assume f: "football_features L f" and m: "rq_market req \<in> set allowed_markets"
  obtain h a ha where v: "feature L f ''home_elo'' 1500 = Inr h" "\<bar>h\<bar> \<le> 10000" "feature L f ''away_elo'' 1500 = Inr a" "\<bar>a\<bar> \<le> 10000"
    "feature L f ''home_advantage'' 65 = Inr ha" "\<bar>ha\<bar> \<le> 150"
    using football_feature [OF f, of "''home_elo''" 10000 1500] football_feature [OF f, of "''away_elo''" 10000 1500]
      football_feature [OF f, of "''home_advantage''" 150 65] by (auto simp: football_bounds_def)
  obtain e where e: "expected_score h a ha = Inr e" using expected_score_returns [OF v(2,4,6)] ..
  obtain ds where "elo_outcomes (rq_market req) e = Some ds" "is_pmf (rq_market req) ds"
    using elo_outcomes_pmf [OF _ _ m, of e] expected_score_unit [OF e] by auto
  with v e show "\<exists>d c. elo_predict L req f = Inr (d, c) \<and> (if True then prediction_ok (rq_market req) d c else (d, c) = no_prediction)"
    by (auto simp: elo_predict_def Let_def intro!: prediction_okI)
qed

text \<open>Without a booster the form predictor votes the softmax of its linear scores.\<close>

lemma softmax_three:
  assumes "scores = [(''H'', a), (''D'', b), (''A'', c)]"
  shows "\<exists>p q r. softmax scores = [(''H'', p), (''D'', q), (''A'', r)] \<and> 0 < p \<and> 0 < q \<and> 0 < r \<and> p + q + r = 1"
proof -
  let ?z = "exp a + (exp b + exp c)"
  have "0 < ?z" by (simp add: add_pos_pos)
  then show ?thesis
    by (intro exI [of _ "exp a / ?z"] exI [of _ "exp b / ?z"] exI [of _ "exp c / ?z"])
      (simp add: assms softmax_eq flip: add_divide_distrib)
qed

lemma form_score_three: "form_score L f = Inr s \<Longrightarrow> \<exists>a b c. s = [(''H'', a), (''D'', b), (''A'', c)]"
  by (auto simp: form_score_def res_iffs Let_def)

lemma form_outcomes_pmf:
  assumes "0 \<le> p" "0 \<le> q" "0 \<le> r" "p + q + r = 1" "market \<in> set allowed_markets"
  shows "\<exists>ds. form_outcomes market [(''H'', p), (''D'', q), (''A'', r)] = Inr (Some ds) \<and> is_pmf market ds"
proof -
  have "is_pmf ''1x2'' [(''H'', p), (''D'', q), (''A'', r)]" "is_pmf ''ah'' [(''home'', p), (''away'', q + r)]"
    using assms by (simp_all add: is_pmf_def market_outcomes_def)
  moreover have "is_pmf ''ou_2_5'' [(''over'', clamp (5 / 100) (95 / 100) x), (''under'', 1 - clamp (5 / 100) (95 / 100) x)]"
    "is_pmf ''btts'' [(''yes'', clamp (5 / 100) (95 / 100) x), (''no'', 1 - clamp (5 / 100) (95 / 100) x)]" for x
    using clamp_unit [of x] by (simp_all add: is_pmf_def market_outcomes_def)
  ultimately show ?thesis
    using assms(5) by (auto simp: form_outcomes_def pmf_at_def Let_def allowed_markets_def)
qed

interpretation xgb_form: predictor_model L "xgb_form_predict L None" "\<lambda>_ _. True" for L
proof unfold_locales
  fix f and req :: predict_request assume f: "football_features L f" and m: "rq_market req \<in> set allowed_markets"
  note feature_numeric [of L f] f
  then obtain a b c d e where "feature L f ''home_form_5'' (3 / 2) = Inr a" "feature L f ''away_form_5'' (3 / 2) = Inr b"
    "feature L f ''home_gd_5'' 0 = Inr c" "feature L f ''away_gd_5'' 0 = Inr d" "feature L f ''home_advantage'' (1 / 2) = Inr e"
    unfolding football_features_def by metis
  then obtain s where s: "form_score L f = Inr s" by (simp add: form_score_def Let_def)
  from form_score_three [OF this] softmax_three [of s] obtain p q r where
    pmf: "form_pmf L None f = Inr [(''H'', p), (''D'', q), (''A'', r)]" "0 < p" "0 < q" "0 < r" "p + q + r = 1"
    using s by (force simp: form_pmf_def)
  then obtain ds where "form_outcomes (rq_market req) [(''H'', p), (''D'', q), (''A'', r)] = Inr (Some ds)" "is_pmf (rq_market req) ds"
    using form_outcomes_pmf [of p q r] m by auto
  then show "\<exists>d c. xgb_form_predict L None req f = Inr (d, c) \<and> (if True then prediction_ok (rq_market req) d c else (d, c) = no_prediction)"
    by (auto simp: xgb_form_predict_def pmf(1) py_max_def Let_def intro!: prediction_okI)
qed

lemma devig_pmf:
  assumes "1 < oa" "1 < ob"
  shows "\<exists>p. devig_two (1 / oa) (1 / ob) = (p, 1 - p) \<and> 0 \<le> p \<and> p \<le> 1"
proof -
  have "0 < 1 / oa" "0 < 1 / ob" using assms by simp_all
  then show ?thesis
    by (intro exI [of _ "(1 / oa) / (1 / oa + 1 / ob)"]) (auto simp: devig_two_def Let_def field_simps)
qed

lemma devig_three_pmf:
  assumes "1 < a" "1 < b" "1 < c"
  shows "\<exists>p q r. devig_three (1 / a) (1 / b) (1 / c) = (p, q, r) \<and> 0 \<le> p \<and> 0 \<le> q \<and> 0 \<le> r \<and> p + q + r = 1"
proof -
  have "\<exists>p q r. devig_three x y z = (p, q, r) \<and> 0 \<le> p \<and> 0 \<le> q \<and> 0 \<le> r \<and> p + q + r = 1"
    if "0 < x" "0 < y" "0 < z" for x y z
    using that by (auto simp: devig_three_def Let_def simp flip: add_divide_distrib)
  from this [of "1 / a" "1 / b" "1 / c"] assms show ?thesis by simp
qed

lemma odds_numeric: "numeric L f \<Longrightarrow> \<exists>x. odds L f k = Inr x"
  by (auto simp: odds_def jget_or_def numeric_def Let_def split: option.splits)

text \<open>The odds a market needs are all there when each is above one.\<close>

definition market_quoted :: "pylib \<Rightarrow> string \<Rightarrow> jobj \<Rightarrow> bool" where
  "market_quoted L market f \<longleftrightarrow> list_all (\<lambda>k. case odds L f k of Inl _ \<Rightarrow> False | Inr x \<Rightarrow> 1 < x)
     (if market = ''1x2'' then [''odds_home'', ''odds_draw'', ''odds_away'']
      else if market = ''ah'' then [''odds_home'', ''odds_away'']
      else if market = ''ou_2_5'' then [''odds_over_2_5'', ''odds_under_2_5''] else [''odds_btts_yes'', ''odds_btts_no''])"

lemma odds_pair_pmf:
  assumes "odds L f k1 = Inr oa" "odds L f k2 = Inr ob"
  shows "if 1 < oa \<and> 1 < ob then \<exists>p. odds_pair L f k1 k2 a b = Inr (Some [(a, p), (b, 1 - p)]) \<and> 0 \<le> p \<and> p \<le> 1
    else odds_pair L f k1 k2 a b = Inr None"
  using assms devig_pmf [of oa ob] by (auto simp: odds_pair_def)

lemma market_odds_pmf:
  assumes "numeric L f" "market \<in> set allowed_markets"
  shows "if market_quoted L market f then \<exists>ds. market_odds L market f = Inr (Some ds) \<and> is_pmf market ds
    else market_odds L market f = Inr None"
proof (cases "market = ''1x2''")
  case True
  obtain a b c where v: "odds L f ''odds_home'' = Inr a" "odds L f ''odds_draw'' = Inr b" "odds L f ''odds_away'' = Inr c"
    using odds_numeric [OF assms(1)] by metis
  with devig_three_pmf [of a b c] True show ?thesis
    by (auto simp: market_quoted_def market_odds_def is_pmf_def market_outcomes_def)
next
  case False
  obtain a b k1 k2 where k: "market_odds L market f = odds_pair L f k1 k2 a b" "market_outcomes market = [a, b]"
    "market_quoted L market f \<longleftrightarrow> list_all (\<lambda>k. case odds L f k of Inl _ \<Rightarrow> False | Inr x \<Rightarrow> 1 < x) [k1, k2]"
  proof -
    note d = market_odds_def market_quoted_def market_outcomes_def
    from assms(2) False consider "market = ''ah''" | "market = ''ou_2_5''" | "market = ''btts''"
      by (auto simp: allowed_markets_def)
    then show thesis
    proof cases
      case 1
      show thesis by (rule that [of "''odds_home''" "''odds_away''" "''home''" "''away''"]) (simp_all add: 1 d)
    next
      case 2
      show thesis by (rule that [of "''odds_over_2_5''" "''odds_under_2_5''" "''over''" "''under''"]) (simp_all add: 2 d)
    next
      case 3
      show thesis by (rule that [of "''odds_btts_yes''" "''odds_btts_no''" "''yes''" "''no''"]) (simp_all add: 3 d)
    qed
  qed
  obtain oa ob where v: "odds L f k1 = Inr oa" "odds L f k2 = Inr ob"
    using odds_numeric [OF assms(1)] by metis
  with odds_pair_pmf [OF v, of a b] k show ?thesis by (auto simp: is_pmf_def split: if_splits)
qed

interpretation lgbm_market: predictor_model L "lgbm_market_predict L" "market_quoted L" for L
proof unfold_locales
  fix f and req :: predict_request assume f: "football_features L f" and m: "rq_market req \<in> set allowed_markets"
  then have o: "if market_quoted L (rq_market req) f
    then \<exists>ds. market_odds L (rq_market req) f = Inr (Some ds) \<and> is_pmf (rq_market req) ds else market_odds L (rq_market req) f = Inr None"
    by (intro market_odds_pmf) (simp_all add: football_features_def)
  show "\<exists>d c. lgbm_market_predict L req f = Inr (d, c) \<and>
      (if market_quoted L (rq_market req) f then prediction_ok (rq_market req) d c else (d, c) = no_prediction)"
  proof (cases "market_quoted L (rq_market req) f")
    case True
    with o obtain ds where ds: "market_odds L (rq_market req) f = Inr (Some ds)" "is_pmf (rq_market req) ds" by auto
    then have "ds \<noteq> []" by (auto simp: is_pmf_def)
    with ds True show ?thesis by (auto simp: lgbm_market_predict_def py_max_def intro!: prediction_okI)
  next
    case False
    with o show ?thesis by (simp add: lgbm_market_predict_def no_prediction_def)
  qed
qed

section \<open>Behind the shell\<close>

text \<open>The shell turns a prediction into one vote, or abstains when it has no outcomes.\<close>

lemma vote_of_prediction:
  assumes "predict_request_from_dict L payload = Inr req" "rq_market req \<in> set (pr_supported_markets a)" "pr_predictor_id a \<noteq> []"
    and "predict req (rq_features req) = Inr (prediction ds g, JFloat conf)"
    and "is_pmf (rq_market req) ds" "rq_market req \<in> set allowed_markets"
  shows "\<exists>vote. predictor_vote L predict ts a payload = Inr (Some vote) \<and> predict_vote_check vote = Inr vote \<and>
    pv_distribution vote = prediction ds g \<and> pv_market vote = rq_market req \<and> pv_request_id vote = rq_request_id req"
proof -
  have "res_map (\<lambda>p. py_float L (snd p)) (map (\<lambda>(k, p). (k, JFloat p)) ds) = Inr (map snd ds)"
    by (induction ds) auto
  moreover have "ds \<noteq> []" "sum_list (map snd ds) = 1"
    using assms(5,6) by (auto simp: is_pmf_def market_outcomes_def allowed_markets_def)
  ultimately show ?thesis
    using assms by (simp add: predictor_vote_def prediction_def jget_or_def predict_vote_check_def require_def)
qed

context predictor_model
begin

lemma vote_total:
  assumes "predict_request_from_dict L payload = Inr req" "football_features L (rq_features req)" "pr_predictor_id a \<noteq> []"
  shows "if rq_market req \<in> set (pr_supported_markets a) \<and> votes_on (rq_market req) (rq_features req)
    then \<exists>vote ds g. predictor_vote L predict ts a payload = Inr (Some vote) \<and> predict_vote_check vote = Inr vote \<and>
      pv_market vote = rq_market req \<and> pv_request_id vote = rq_request_id req \<and> pv_market vote \<in> set allowed_markets \<and>
      pv_distribution vote = prediction ds g \<and> is_pmf (pv_market vote) ds \<and>
      (case g of None \<Rightarrow> True | Some cells \<Rightarrow> grid_ok (pv_market vote) ds cells)
    else predictor_vote L predict ts a payload = Inr None"
proof (cases "rq_market req \<in> set (pr_supported_markets a)")
  case False
  then show ?thesis by (simp add: predictor_vote_def assms(1))
next
  case True
  have m: "rq_market req \<in> set allowed_markets"
    using assms(1) by (auto simp: predict_request_from_dict_def predict_request_check_def res_iffs)
  from predict_ok [OF assms(2) m] obtain d c where p: "predict req (rq_features req) = Inr (d, c)" and
    ok: "if votes_on (rq_market req) (rq_features req) then prediction_ok (rq_market req) d c else (d, c) = no_prediction" by blast
  show ?thesis
  proof (cases "votes_on (rq_market req) (rq_features req)")
    case False
    with ok p True show ?thesis
      by (simp add: predictor_vote_def assms(1) no_prediction_def jget_or_def)
  next
    case votes: True
    with ok obtain ds g conf where "d = prediction ds g" "c = JFloat conf" and
      ds: "is_pmf (rq_market req) ds" "case g of None \<Rightarrow> True | Some cells \<Rightarrow> grid_ok (rq_market req) ds cells"
      by (auto simp: prediction_ok_def)
    with vote_of_prediction [OF assms(1) True assms(3), of predict ds g conf ts] p m obtain vote where
      "predictor_vote L predict ts a payload = Inr (Some vote)" "predict_vote_check vote = Inr vote"
      "pv_distribution vote = prediction ds g" "pv_market vote = rq_market req" "pv_request_id vote = rq_request_id req"
      by auto
    with ds m True votes show ?thesis by (auto cong: option.case_cong)
  qed
qed

end

text \<open>The predictors that \<open>swarm/bootstrap.py\<close> starts, the last one behind a flag.\<close>

definition roster :: "pylib \<Rightarrow> bool \<Rightarrow> (predict_request \<Rightarrow> jobj \<Rightarrow> (jobj \<times> jval) res) list" where
  "roster L market_features =
     [elo_predict L, dixon_coles_predict L, xgb_form_predict L None, xgb_xg_predict L] @
     (if market_features then [lgbm_market_predict L] else [])"

text \<open>Where each of them votes: everywhere, the last one where the market is quoted.\<close>

definition roster_votes_on :: "pylib \<Rightarrow> nat \<Rightarrow> string \<Rightarrow> jobj \<Rightarrow> bool" where
  "roster_votes_on L i market f \<longleftrightarrow> (i = 4 \<longrightarrow> market_quoted L market f)"

lemma roster_models:
  assumes "i < length (roster L b)"
  shows "predictor_model L (roster L b ! i) (roster_votes_on L i)"
proof -
  have "i \<in> {0, 1, 2, 3} \<or> b \<and> i = 4"
    using assms by (auto simp: roster_def less_Suc_eq numeral_eq_Suc split: if_splits)
  then show ?thesis
    using elo.predictor_model_axioms dixon_coles.predictor_model_axioms xgb_form.predictor_model_axioms
      xgb_xg.predictor_model_axioms lgbm_market.predictor_model_axioms
    by (auto simp: roster_def roster_votes_on_def [abs_def] nth_Cons' )
qed

text \<open>
  The Elo predictor ranks by rating. A stronger home side (or a larger home advantage) never
  gets a smaller home-win probability nor a larger away-win probability, the draw is always 27 percent, and two sides that are equal once the
  advantage is counted get equal odds; but the split is not the one the comment states: the home share plus half the draw is the
  expected score only when that score is one half.
\<close>

lemma elo_ranks_by_rating:
  assumes "expected_score home away ha = Inr e" "elo_outcomes ''1x2'' e = Some [(''H'', h), (''D'', d), (''A'', a)]"
    and "expected_score home' away ha' = Inr e'" "elo_outcomes ''1x2'' e' = Some [(''H'', h'), (''D'', d'), (''A'', a')]"
  shows "(home + ha \<le> home' + ha' \<longrightarrow> h \<le> h' \<and> a' \<le> a) \<and> d = 27 / 100 \<and> h + d + a = 1 \<and> (home + ha = away \<longrightarrow> h = a) \<and>
    (h + d / 2 = e \<longleftrightarrow> home + ha = away)"
proof -
  have vals: "h = 73 / 100 * e \<and> d = 27 / 100 \<and> a = 73 / 100 - 73 / 100 * e"
    if "elo_outcomes ''1x2'' e = Some [(''H'', h), (''D'', d), (''A'', a)]" "0 < e" "e < 1" for e h d a
  proof -
    have "73 / 100 * e < 73 / 100" "0 < 73 / 100 * e" using that(2,3) by simp_all
    with that(1) show ?thesis by (auto simp: elo_outcomes_def Let_def min_def max_def split: if_splits)
  qed
  note v = vals [OF assms(2)] vals [OF assms(4)]
  have e: "e = 1 / (1 + 10 powr ((away - home - ha) / 400))" "e' = 1 / (1 + 10 powr ((away - home' - ha') / 400))"
    using assms(1,3) by (auto simp: expected_score_def Let_def split: if_splits)
  have mono: "e \<le> e'" if "home + ha \<le> home' + ha'"
  proof -
    have "10 powr ((away - home' - ha') / 400) \<le> (10 :: real) powr ((away - home - ha) / 400)"
      using that by (intro powr_mono) auto
    then show ?thesis by (simp add: e frac_le add_pos_pos)
  qed
  have "e = 1 / 2 \<longleftrightarrow> 10 powr ((away - home - ha) / 400) = (1 :: real)"
    unfolding e by (auto simp: field_simps)
  also have "\<dots> \<longleftrightarrow> home + ha = away" by auto
  finally have half: "e = 1 / 2 \<longleftrightarrow> home + ha = away" .
  show ?thesis
    using v mono half expected_score_unit [OF assms(1)] expected_score_unit [OF assms(3)] by auto
qed

end
