(* ===== verification/Storage.thy ===== *)
theory Storage
  imports Reactors Wire_Ops
begin

text \<open>
  The storage agent of \<open>swarm/agents/storage.py\<close>: the in-memory record store with its upsert and diff, and
  the handler that announces what was stored, what changed and how a match ended; with the event ids of
  \<open>FreshnessEvent.derive_event_id\<close>. SHA-256 and the canonical JSON text of a diff are parameters. A diff
  is collected over a set of keys, whose order Python leaves open; the model takes the old keys first.
\<close>

section \<open>Equality of payloads\<close>

text \<open>Python's \<open>==\<close> on JSON values: numbers by value (\<open>True == 1 == 1.0\<close>), dicts without regard to order.\<close>

fun py_number :: "jval \<Rightarrow> real option" where
  "py_number (JBool b) = Some (if b then 1 else 0)"
| "py_number (JInt i) = Some (real_of_int i)"
| "py_number (JFloat r) = Some r"
| "py_number j = None"

fun py_eq :: "jval \<Rightarrow> jval \<Rightarrow> bool" and
  py_eqs :: "jval list \<Rightarrow> jval list \<Rightarrow> bool" and
  py_within :: "(string \<times> jval) list \<Rightarrow> jobj \<Rightarrow> bool"
where
  "py_eq (JArr xs) j = (case j of JArr ys \<Rightarrow> py_eqs xs ys | _ \<Rightarrow> False)"
| "py_eq (JObj a) j = (case j of JObj b \<Rightarrow> length a = length b \<and> py_within a b | _ \<Rightarrow> False)"
| "py_eq (JStr s) j = (j = JStr s)"
| "py_eq JNull j = (j = JNull)"
| "py_eq (JBool b) j = (py_number j = Some (if b then 1 else 0))"
| "py_eq (JInt i) j = (py_number j = Some (real_of_int i))"
| "py_eq (JFloat r) j = (py_number j = Some r)"
| "py_eqs [] ys = (ys = [])"
| "py_eqs (x # xs) ys = (case ys of [] \<Rightarrow> False | y # ys' \<Rightarrow> py_eq x y \<and> py_eqs xs ys')"
| "py_within [] b = True"
| "py_within ((k, v) # a) b = ((case map_of b k of None \<Rightarrow> False | Some w \<Rightarrow> py_eq v w) \<and> py_within a b)"

text \<open>The values a dict can hold: no key twice, at any depth.\<close>

fun wf_json :: "jval \<Rightarrow> bool" where
  "wf_json (JArr xs) = list_all wf_json xs"
| "wf_json (JObj d) = (distinct (map fst d) \<and> list_all (\<lambda>p. wf_json (snd p)) d)"
| "wf_json _ = True"

lemma py_within_iff: "py_within a b \<longleftrightarrow> (\<forall>(k, v) \<in> set a. \<exists>w. map_of b k = Some w \<and> py_eq v w)"
  by (induction a) (auto split: option.splits)

lemma py_eqs_iff: "py_eqs xs ys \<longleftrightarrow> list_all2 py_eq xs ys"
  by (induction xs arbitrary: ys) (auto split: list.splits)

lemma py_eq_refl: "wf_json j \<Longrightarrow> py_eq j j"
proof (induction j)
  case (JArr xs)
  then show ?case by (auto simp: py_eqs_iff list_all2_conv_all_nth list_all_length)
next
  case (JObj d)
  have "py_eq v v" if "(k, v) \<in> set d" for k v
    using JObj that by (force simp: list_all_iff)
  then show ?case using JObj.prems by (auto simp: py_within_iff)
qed auto

section \<open>The record store\<close>

record store_outcome =
  so_record_id :: int
  so_change_kind :: string
  so_diff :: jobj

record mem_store =
  st_next_id :: int
  st_rows :: "(string \<times> string \<times> string, int \<times> jobj \<times> int) odict"

definition mem_store_init :: mem_store where
  "mem_store_init = \<lparr>st_next_id = 1, st_rows = []\<rparr>"

definition shallow_diff :: "jobj \<Rightarrow> jobj \<Rightarrow> jobj" where
  "shallow_diff before after =
     List.map_filter (\<lambda>k. let b = jget_or before k JNull; a = jget_or after k JNull in
         if py_eq b a then None else Some (k, JArr [b, a]))
       (map fst before @ filter (\<lambda>k. k \<notin> fst ` set before) (map fst after))"

definition summarize_diff_for_telemetry :: "jobj \<Rightarrow> nat \<Rightarrow> jobj" where
  "summarize_diff_for_telemetry diff max_fields =
     (if length diff \<le> max_fields then diff
      else [(''_truncated'', JBool True), (''n_changed'', JInt (int (length diff)))])"

definition record_key :: "normalized_record \<Rightarrow> string \<times> string \<times> string" where
  "record_key rec = (nr_source rec, nr_source_match_id rec, nr_record_type rec)"

definition upsert :: "normalized_record \<Rightarrow> mem_store \<Rightarrow> store_outcome \<times> mem_store" where
  "upsert rec s =
     (let key = record_key rec in
      case map_of (st_rows s) key of
        None \<Rightarrow>
          (\<lparr>so_record_id = st_next_id s, so_change_kind = ''created'', so_diff = []\<rparr>,
           \<lparr>st_next_id = st_next_id s + 1,
            st_rows = od_set key (st_next_id s, nr_payload rec, nr_canonical_version rec) (st_rows s)\<rparr>)
      | Some (row_id, prev_payload, prev_ver) \<Rightarrow>
          if py_eq (JObj prev_payload) (JObj (nr_payload rec))
          then (\<lparr>so_record_id = row_id, so_change_kind = ''unchanged'', so_diff = []\<rparr>, s)
          else
            (\<lparr>so_record_id = row_id, so_change_kind = ''updated'', so_diff = shallow_diff prev_payload (nr_payload rec)\<rparr>,
             s\<lparr>st_rows := od_set key (row_id, nr_payload rec, nr_canonical_version rec) (st_rows s)\<rparr>))"

definition store_get :: "string \<Rightarrow> string \<Rightarrow> string \<Rightarrow> mem_store \<Rightarrow> jobj option" where
  "store_get source source_match_id record_type s =
     map_option (\<lambda>row. fst (snd row)) (map_of (st_rows s) (source, source_match_id, record_type))"

definition all_rows :: "mem_store \<Rightarrow> (int \<times> jobj) list" where
  "all_rows s = map (\<lambda>(k, rid, payload, ver). (rid, payload)) (st_rows s)"

section \<open>Match outcomes\<close>

definition terminal_match_statuses :: "string list" where
  "terminal_match_statuses =
     [''final'', ''finished'', ''ft'', ''full_time'', ''full-time'', ''completed'', ''ended'']"

definition final_scores :: "jobj \<Rightarrow> jval \<times> jval" where
  "final_scores payload =
     (let final_home = jget_or payload ''final_home'' JNull;
          final_away = jget_or payload ''final_away'' JNull in
      if final_home = JNull \<or> final_away = JNull then
        case jget_or payload ''score'' JNull of
          JObj score \<Rightarrow>
            (if final_home \<noteq> JNull then final_home else jget_or score ''home'' JNull,
             if final_away \<noteq> JNull then final_away else jget_or score ''away'' JNull)
        | _ \<Rightarrow> (final_home, final_away)
      else (final_home, final_away))"

definition status_raw :: "pylib \<Rightarrow> jobj \<Rightarrow> string" where
  "status_raw L payload =
     (let j = jget_or payload ''status'' JNull in
      py_lower (py_strip (if py_bool j then py_str L j else [])))"

definition maybe_match_outcome :: "pylib \<Rightarrow> normalized_record \<Rightarrow> int \<Rightarrow> string \<Rightarrow> match_outcome option res" where
  "maybe_match_outcome L rec record_id settled_at =
     (if nr_record_type rec \<noteq> ''match_detail'' then Inr None
      else if status_raw L (nr_payload rec) \<notin> set terminal_match_statuses then Inr None
      else
        let (final_home, final_away) = final_scores (nr_payload rec) in
        if final_home = JNull \<or> final_away = JNull then Inr None
        else
          case (py_int L final_home, py_int L final_away) of
            (Inr fh, Inr fa) \<Rightarrow>
              let outcomes = derive_match_outcome fh fa in
              res_bind (match_outcome_check
                \<lparr>mo_match_id = nr_source_match_id rec, mo_stable_id = nr_stable_id rec, mo_source = nr_source rec,
                 mo_final_home = fh, mo_final_away = fa, mo_outcome_1x2 = mr_outcome_1x2 outcomes,
                 mo_settled_at = settled_at, mo_league_id = nr_league_id rec, mo_competition_id = nr_competition_id rec,
                 mo_outcome_ou_2_5 = JStr (mr_outcome_ou_2_5 outcomes), mo_outcome_btts = JStr (mr_outcome_btts outcomes),
                 mo_record_id = Some record_id\<rparr>) (\<lambda>mo. Inr (Some mo))
          | _ \<Rightarrow> Inr None)"

section \<open>The agent\<close>

definition match_stored_topic :: topic where
  "match_stored_topic = ''match.stored''"

definition match_outcome_topic :: topic where
  "match_outcome_topic = ''match.outcome.v1''"

text \<open>\<open>derive_event_id\<close>: \<open>dumps\<close> is canonical JSON, \<open>H\<close> the hexadecimal SHA-256.\<close>

definition derive_event_id ::
  "(string \<Rightarrow> string) \<Rightarrow> (jobj \<Rightarrow> string) \<Rightarrow> string \<Rightarrow> string \<Rightarrow> string \<Rightarrow> string \<Rightarrow> jobj \<Rightarrow> string" where
  "derive_event_id H dumps source stable_id record_type change_kind diff =
     take 32 (H (source @ ''|'' @ stable_id @ ''|'' @ record_type @ ''|'' @ change_kind @ ''|'' @ dumps diff))"

record storage_env =
  se_hash :: "string \<Rightarrow> string"
  se_dumps :: "jobj \<Rightarrow> string"
  se_now :: string

definition storage_emission :: "topic \<Rightarrow> jobj \<Rightarrow> message \<Rightarrow> emission" where
  "storage_emission topic payload msg =
     \<lparr>em_topic = topic, em_payload = payload, em_producer = ''storage.v1'', em_trace = Some (en_trace_id (msg_envelope msg))\<rparr>"

definition stored_notice :: "storage_env \<Rightarrow> normalized_record \<Rightarrow> store_outcome \<Rightarrow> match_stored" where
  "stored_notice env rec oc =
     \<lparr>ms_record_id = so_record_id oc, ms_record_type = nr_record_type rec, ms_plane = nr_plane rec,
      ms_source = nr_source rec, ms_stable_id = nr_stable_id rec, ms_change_kind = so_change_kind oc,
      ms_stored_at = se_now env\<rparr>"

definition change_event :: "storage_env \<Rightarrow> normalized_record \<Rightarrow> store_outcome \<Rightarrow> freshness_event" where
  "change_event env rec oc =
     \<lparr>fe_event_id = derive_event_id (se_hash env) (se_dumps env) (nr_source rec) (nr_stable_id rec)
        (nr_record_type rec) (so_change_kind oc) (so_diff oc),
      fe_record_id = so_record_id oc, fe_source = nr_source rec, fe_stable_id = nr_stable_id rec,
      fe_record_type = nr_record_type rec, fe_plane = nr_plane rec, fe_change_kind = so_change_kind oc,
      fe_diff = so_diff oc, fe_emitted_at = se_now env\<rparr>"

definition storage_handle :: "pylib \<Rightarrow> storage_env \<Rightarrow> message \<Rightarrow> mem_store \<Rightarrow> emission list res \<times> mem_store" where
  "storage_handle L env msg s =
     (case normalized_record_from_dict L (msg_payload msg) of
        Inl e \<Rightarrow> (if e \<in> {KeyError, TypeError, ValueError} then Inr [] else Inl e, s)
      | Inr rec \<Rightarrow>
          let (oc, s') = upsert rec s;
              stored = storage_emission match_stored_topic (match_stored_as_dict (stored_notice env rec oc)) msg in
          if so_change_kind oc \<in> {''created'', ''updated''} then
            (res_bind (maybe_match_outcome L rec (so_record_id oc) (se_now env)) (\<lambda>mo.
               Inr (stored # storage_emission freshness_events (freshness_event_as_dict (change_event env rec oc)) msg
                 # (case mo of None \<Rightarrow> [] | Some m \<Rightarrow> [storage_emission match_outcome_topic (match_outcome_as_dict m) msg]))), s')
          else (Inr [stored], s'))"

section \<open>What the store keeps\<close>

text \<open>The contract the agent relies on (\<open>RecordStore\<close>): a record reads back as it was last written, other records are untouched.\<close>

locale record_store =
  fixes put :: "normalized_record \<Rightarrow> 's \<Rightarrow> 's" and get :: "string \<times> string \<times> string \<Rightarrow> 's \<Rightarrow> jobj option"
  assumes get_put: "wf_json (JObj (nr_payload rec)) \<Longrightarrow> \<exists>d. get (record_key rec) (put rec s) = Some d \<and> py_eq (JObj d) (JObj (nr_payload rec))"
    and get_put_other: "k \<noteq> record_key rec \<Longrightarrow> get k (put rec s) = get k s"
begin

lemma get_puts_other: "k \<notin> record_key ` set recs \<Longrightarrow> get k (foldl (\<lambda>s r. put r s) s recs) = get k s"
  by (induction recs arbitrary: s) (auto simp: get_put_other)

lemma get_last_put:
  assumes "record_key rec \<notin> record_key ` set later" "wf_json (JObj (nr_payload rec))"
  shows "\<exists>d. get (record_key rec) (foldl (\<lambda>s r. put r s) s (earlier @ rec # later)) = Some d \<and> py_eq (JObj d) (JObj (nr_payload rec))"
  using get_puts_other [OF assms(1)] get_put [OF assms(2)] by simp

end

definition store_row :: "string \<times> string \<times> string \<Rightarrow> mem_store \<Rightarrow> jobj option" where
  "store_row k s = (case k of (source, source_match_id, record_type) \<Rightarrow> store_get source source_match_id record_type s)"

lemma store_row_map: "store_row k s = map_option (\<lambda>row. fst (snd row)) (map_of (st_rows s) k)"
  by (cases k) (simp add: store_row_def store_get_def)

interpretation mem_store: record_store "\<lambda>rec s. snd (upsert rec s)" store_row
  by unfold_locales
    (auto simp: upsert_def store_row_map od_simps Let_def split: option.splits simp del: py_eq.simps wf_json.simps intro: py_eq_refl)

text \<open>Row ids: no two rows share one, and the next one is free.\<close>

definition row_id :: "mem_store \<Rightarrow> string \<times> string \<times> string \<Rightarrow> int option" where
  "row_id s k = map_option fst (map_of (st_rows s) k)"

definition store_ok :: "mem_store \<Rightarrow> bool" where
  "store_ok s \<longleftrightarrow> (\<forall>k i. row_id s k = Some i \<longrightarrow> i < st_next_id s) \<and>
     (\<forall>j k i. row_id s j = Some i \<longrightarrow> row_id s k = Some i \<longrightarrow> j = k)"

lemma row_id_upsert:
  "row_id (snd (upsert rec s)) = (if row_id s (record_key rec) = None then (row_id s)(record_key rec \<mapsto> st_next_id s) else row_id s)"
  "st_next_id (snd (upsert rec s)) = (if row_id s (record_key rec) = None then st_next_id s + 1 else st_next_id s)"
  "Some (so_record_id (fst (upsert rec s))) = row_id (snd (upsert rec s)) (record_key rec)"
  by (auto simp: row_id_def upsert_def od_simps Let_def fun_eq_iff split: option.splits simp del: py_eq.simps split_paired_All)

lemma store_ok_init: "store_ok mem_store_init"
  by (simp add: store_ok_def mem_store_init_def row_id_def)

lemma store_ok_upsert:
  assumes "store_ok s"
  shows "store_ok (snd (upsert rec s))"
proof (cases "row_id s (record_key rec)")
  case None
  have fresh: "row_id s k \<noteq> Some (st_next_id s)" for k using assms unfolding store_ok_def by (metis less_irrefl)
  have below: "row_id s k = Some i \<Longrightarrow> i < st_next_id s + 1" for k i
    using assms unfolding store_ok_def by (metis less_add_one order_less_trans)
  show ?thesis
    unfolding store_ok_def row_id_upsert using None fresh below assms
    by (simp add: store_ok_def del: split_paired_All) metis
next
  case (Some i)
  with assms show ?thesis by (simp add: store_ok_def row_id_upsert del: split_paired_All)
qed

interpretation mem_store: invariant_steps "\<lambda>s rec. snd (upsert rec s)" store_ok
  by unfold_locales (rule store_ok_upsert)

text \<open>
  The store is idempotent and gives each record one identity. From an empty store, over any
  run of upserts: every key keeps the row id of its first upsert and no other key has it; a key reads back as
  the payload last written for it; and writing that payload again is reported as unchanged, with that
  id and no diff, and leaves the store as it is.
\<close>

lemma store_idempotent:
  assumes "s = foldl (\<lambda>s r. snd (upsert r s)) mem_store_init (earlier @ rec # later)"
    and "record_key rec \<notin> record_key ` set later" "wf_json (JObj (nr_payload rec))"
  shows "store_ok s \<and>
    (\<exists>d. store_row (record_key rec) s = Some d \<and> py_eq (JObj d) (JObj (nr_payload rec))) \<and>
    (\<exists>i ver d. map_of (st_rows s) (record_key rec) = Some (i, d, ver) \<and>
      upsert rec s = (\<lparr>so_record_id = i, so_change_kind = ''unchanged'', so_diff = []\<rparr>, s) \<and>
      (\<forall>other. let (oc, s') = upsert other s in store_ok s' \<and> (so_record_id oc = i \<longrightarrow> record_key other = record_key rec)))"
proof -
  have ok: "store_ok s" unfolding assms(1) by (rule mem_store.inv_run [OF store_ok_init])
  obtain d where d: "store_row (record_key rec) s = Some d" "py_eq (JObj d) (JObj (nr_payload rec))"
    using mem_store.get_last_put [OF assms(2,3), of mem_store_init earlier] unfolding assms(1) by blast
  obtain i ver where row: "map_of (st_rows s) (record_key rec) = Some (i, d, ver)"
    using d(1) by (auto simp: store_row_map)
  have "upsert rec s = (\<lparr>so_record_id = i, so_change_kind = ''unchanged'', so_diff = []\<rparr>, s)"
    using row d(2) by (simp add: upsert_def Let_def)
  moreover have "let (oc, s') = upsert other s in store_ok s' \<and> (so_record_id oc = i \<longrightarrow> record_key other = record_key rec)" for other
  proof -
    let ?s' = "snd (upsert other s)"
    note ok' = store_ok_upsert [OF ok, of other]
    have "row_id s (record_key rec) = Some i" using row by (simp add: row_id_def)
    then have "row_id ?s' (record_key rec) = Some i" by (auto simp: row_id_upsert(1))
    moreover have "row_id ?s' (record_key other) = Some i" if "so_record_id (fst (upsert other s)) = i"
      using row_id_upsert(3) [of other s] that by simp
    ultimately have "so_record_id (fst (upsert other s)) = i \<longrightarrow> record_key other = record_key rec"
      using ok' unfolding store_ok_def by blast
    with ok' show ?thesis by (simp add: case_prod_unfold)
  qed
  ultimately show ?thesis using ok d row by blast
qed

definition example_record :: "string \<Rightarrow> jval \<Rightarrow> normalized_record" where
  "example_record kind v =
     \<lparr>nr_record_type = kind, nr_plane = ''live'', nr_source = ''tff'', nr_source_match_id = ''m1'', nr_stable_id = ''s1'',
      nr_extractor_version = ''v1'', nr_payload = [(''a'', v)], nr_league_id = JNull, nr_competition_id = JNull,
      nr_canonical_version = 1, nr_raw_sha256 = [], nr_captured_at = ''t''\<rparr>"

lemma example_record_wf: "wf_json v \<Longrightarrow> wf_json (JObj (nr_payload (example_record kind v)))"
  by (simp add: example_record_def)

text \<open>The diff lists exactly the keys that read differently, with both readings.\<close>

lemma map_of_map_filter:
  "map_of (List.map_filter (\<lambda>k. if P k then None else Some (k, f k)) ks) k =
     (if k \<in> set ks \<and> \<not> P k then Some (f k) else None)"
  by (induction ks) (auto simp: map_filter_simps)

lemma map_of_shallow_diff:
  "map_of (shallow_diff before after) k =
    (if py_eq (jget_or before k JNull) (jget_or after k JNull) then None
     else Some (JArr [jget_or before k JNull, jget_or after k JNull]))"
proof -
  let ?ks = "map fst before @ filter (\<lambda>k. k \<notin> fst ` set before) (map fst after)"
  from map_of_map_filter [of "\<lambda>k. py_eq (jget_or before k JNull) (jget_or after k JNull)"
      "\<lambda>k. JArr [jget_or before k JNull, jget_or after k JNull]" ?ks k]
  have "map_of (shallow_diff before after) k =
      (if k \<in> set ?ks \<and> \<not> py_eq (jget_or before k JNull) (jget_or after k JNull)
       then Some (JArr [jget_or before k JNull, jget_or after k JNull]) else None)"
    by (simp add: shallow_diff_def Let_def)
  moreover have "k \<notin> set ?ks \<Longrightarrow> jget_or before k JNull = JNull \<and> jget_or after k JNull = JNull"
    by (auto simp: jget_or_def map_of_None_keys split: option.splits dest!: map_of_SomeD intro: rev_image_eqI)
  ultimately show ?thesis by auto
qed

section \<open>What the agent announces\<close>

lemma upsert_kind: "so_change_kind (fst (upsert rec s)) \<in> {''created'', ''updated'', ''unchanged''}"
  by (auto simp: upsert_def Let_def split: option.splits)

lemma maybe_match_outcome_Some:
  assumes "maybe_match_outcome L rec i t = Inr (Some mo)"
  shows "match_outcome_check mo = Inr mo" "mo_record_id mo = Some i" "nr_record_type rec = ''match_detail''"
    "status_raw L (nr_payload rec) \<in> set terminal_match_statuses"
  using assms
  by (auto simp: maybe_match_outcome_def res_iffs match_outcome_check_def Let_def derive_match_outcome_def split: if_splits prod.splits sum.splits)

text \<open>The change a payload makes to what was stored.\<close>

definition change_of :: "jobj option \<Rightarrow> jobj \<Rightarrow> string" where
  "change_of before payload = (case before of
     None \<Rightarrow> ''created''
   | Some prev \<Rightarrow> if py_eq (JObj prev) (JObj payload) then ''unchanged'' else ''updated'')"

lemma upsert_effect:
  assumes "upsert rec s = (oc, s')"
  shows "row_id s' (record_key rec) = Some (so_record_id oc)"
    and "row_id s (record_key rec) \<noteq> None \<Longrightarrow> row_id s (record_key rec) = Some (so_record_id oc)"
    and "so_change_kind oc = change_of (store_row (record_key rec) s) (nr_payload rec)"
    and "store_row (record_key rec) s' =
      (if so_change_kind oc = ''unchanged'' then store_row (record_key rec) s else Some (nr_payload rec))"
    and "k \<noteq> record_key rec \<Longrightarrow> map_of (st_rows s') k = map_of (st_rows s) k"
    and "map_of (so_diff oc) f = (case store_row (record_key rec) s of
        None \<Rightarrow> None
      | Some prev \<Rightarrow>
          if py_eq (JObj prev) (JObj (nr_payload rec)) \<or> py_eq (jget_or prev f JNull) (jget_or (nr_payload rec) f JNull) then None
          else Some (JArr [jget_or prev f JNull, jget_or (nr_payload rec) f JNull]))"
  using assms
  by (auto simp: upsert_def row_id_def store_row_map change_of_def od_simps map_of_shallow_diff Let_def
      split: option.splits if_splits simp del: py_eq.simps)

lemma maybe_match_outcome_fails:
  assumes "maybe_match_outcome L rec i t = Inl e"
  shows "e = ValueError" "nr_record_type rec = ''match_detail''" "status_raw L (nr_payload rec) \<in> set terminal_match_statuses"
  using assms
  by (auto simp: maybe_match_outcome_def res_iffs match_outcome_check_def Let_def require_def split: if_splits prod.splits sum.splits)


definition example_storage_env :: "string \<Rightarrow> storage_env" where
  "example_storage_env now = \<lparr>se_hash = (\<lambda>s. s), se_dumps = (\<lambda>d. show_nat (length d)), se_now = now\<rparr>"

definition record_message :: "normalized_record \<Rightarrow> message" where
  "record_message rec = message_new \<lparr>fr_message_id = ''i'', fr_trace_id = ''t'', fr_now = ''n''\<rparr> ''match.normalized''
     (normalized_record_as_dict rec) ''processor'' None"

lemma record_message_decodes:
  "normalized_record_check rec = Inr rec \<Longrightarrow> normalized_record_from_dict L (msg_payload (record_message rec)) = Inr rec"
  by (simp add: record_message_def message_new_def normalized_record_wire)

lemma example_record_valid: "kind \<in> {''odds'', ''match_detail''} \<Longrightarrow> normalized_record_check (example_record kind v) = Inr (example_record kind v)"
  by (auto simp: normalized_record_check_def example_record_def allowed_planes_def allowed_record_types_def)


section \<open>What goes unnoticed\<close>

lemma storage_update:
  assumes "normalized_record_from_dict L (msg_payload msg) = Inr rec" "map_of (st_rows s) (record_key rec) = Some (i, prev, ver)"
    and "\<not> py_eq (JObj prev) (JObj (nr_payload rec))" "nr_record_type rec \<noteq> ''match_detail''"
  shows "\<exists>s'. storage_handle L env msg s =
      (Inr [storage_emission match_stored_topic (match_stored_as_dict (stored_notice env rec
              \<lparr>so_record_id = i, so_change_kind = ''updated'', so_diff = shallow_diff prev (nr_payload rec)\<rparr>)) msg,
            storage_emission freshness_events (freshness_event_as_dict (change_event env rec
              \<lparr>so_record_id = i, so_change_kind = ''updated'', so_diff = shallow_diff prev (nr_payload rec)\<rparr>)) msg], s') \<and>
    map_of (st_rows s') (record_key rec) = Some (i, nr_payload rec, nr_canonical_version rec)"
  using assms by (auto simp: storage_handle_def upsert_def Let_def maybe_match_outcome_def od_simps simp del: py_eq.simps)

lemma freshness_sealed: "freshness_event_from_dict L (msg_payload (seal fr (storage_emission t (freshness_event_as_dict ev) msg))) = Inr ev"
  by (simp add: seal_def message_new_def storage_emission_def freshness_event_wire)

text \<open>
  A change that repeats is lost. The id of a freshness event is a digest of the record's identity,
  the kind of change and the diff, so when a value goes from one state to another, back, and to the other again, the
  third announcement has the id of the first: a reactor that reacted to the first drops the
  third as a duplicate (its ledger has room for the second), for instance the one that would invalidate the cached record.
\<close>

lemma repeated_change_is_dropped:
  assumes "normalized_record_from_dict L (msg_payload m1) = Inr new" "normalized_record_from_dict L (msg_payload m2) = Inr old"
    and "normalized_record_from_dict L (msg_payload m3) = Inr new"
    and "record_key new = record_key old" "nr_stable_id new = nr_stable_id old" "nr_plane new = nr_plane old" "nr_record_type new \<noteq> ''match_detail''"
    and "map_of (st_rows s) (record_key old) = Some (i, nr_payload old, ver)"
    and "\<not> py_eq (JObj (nr_payload old)) (JObj (nr_payload new))" "\<not> py_eq (JObj (nr_payload new)) (JObj (nr_payload old))"
    and "ledger_ok (ra_ledger r)" "1 < ledger_room (ra_ledger r)" "nr_plane new \<in> set (ra_allowed_planes r)"
  shows "\<exists>a1 e1 s1 a2 e2 s2 a3 e3 s3. storage_handle L (env\<lparr>se_now := t1\<rparr>) m1 s = (Inr [a1, e1], s1) \<and>
    storage_handle L (env\<lparr>se_now := t2\<rparr>) m2 s1 = (Inr [a2, e2], s2) \<and>
    storage_handle L (env\<lparr>se_now := t3\<rparr>) m3 s2 = (Inr [a3, e3], s3) \<and>
    store_row (record_key new) s3 = Some (nr_payload new) \<and> store_row (record_key new) s2 = Some (nr_payload old) \<and>
    (\<forall>id out r1 h r2. reactor_handle L parse_ts react now1 env1 (seal fr e1) r = (Reacted id out, r1) \<longrightarrow>
      reactor_handle L parse_ts react now2 env2 (seal fr e2) r1 = (h, r2) \<longrightarrow>
      reactor_handle L parse_ts react now3 env3 (seal fr e3) r2 \<in> {(Duplicate, r2), (Stale, r2)})"
proof -
  have odd: "nr_record_type old \<noteq> ''match_detail''" "nr_source new = nr_source old" "nr_record_type new = nr_record_type old"
    using assms(4,7) by (simp_all add: record_key_def)
  let ?up = "\<lparr>so_record_id = i, so_change_kind = ''updated'', so_diff = shallow_diff (nr_payload old) (nr_payload new)\<rparr>"
  let ?down = "\<lparr>so_record_id = i, so_change_kind = ''updated'', so_diff = shallow_diff (nr_payload new) (nr_payload old)\<rparr>"
  let ?ev = "\<lambda>t rec oc msg. storage_emission freshness_events (freshness_event_as_dict (change_event (env\<lparr>se_now := t\<rparr>) rec oc)) msg"
  obtain a1 s1 where 1: "storage_handle L (env\<lparr>se_now := t1\<rparr>) m1 s = (Inr [a1, ?ev t1 new ?up m1], s1)"
    "map_of (st_rows s1) (record_key old) = Some (i, nr_payload new, nr_canonical_version new)"
    using storage_update [OF assms(1), of s i "nr_payload old" ver] assms(4,7-9) by metis
  obtain a2 s2 where 2: "storage_handle L (env\<lparr>se_now := t2\<rparr>) m2 s1 = (Inr [a2, ?ev t2 old ?down m2], s2)"
    "map_of (st_rows s2) (record_key old) = Some (i, nr_payload old, nr_canonical_version old)"
    using storage_update [OF assms(2) 1(2) assms(10) odd(1)] by blast
  obtain a3 s3 where 3: "storage_handle L (env\<lparr>se_now := t3\<rparr>) m3 s2 = (Inr [a3, ?ev t3 new ?up m3], s3)"
    "map_of (st_rows s3) (record_key new) = Some (i, nr_payload new, nr_canonical_version new)"
    using storage_update [OF assms(3), of s2 i "nr_payload old" "nr_canonical_version old"] 2(2) assms(4,7,9) by metis
  have ids: "fe_event_id (change_event (env\<lparr>se_now := t\<rparr>) new ?up) = fe_event_id (change_event (env\<lparr>se_now := t1\<rparr>) new ?up)" for t
    by (simp add: change_event_def)
  have "reactor_handle L parse_ts react now3 env3 (seal fr (?ev t3 new ?up m3)) r2 \<in> {(Duplicate, r2), (Stale, r2)}"
    if "reactor_handle L parse_ts react now1 env1 (seal fr (?ev t1 new ?up m1)) r = (Reacted id out, r1)"
      "reactor_handle L parse_ts react now2 env2 (seal fr (?ev t2 old ?down m2)) r1 = (h, r2)" for id out r1 h r2
  proof -
    let ?k = "(ra_name r, fe_event_id (change_event (env\<lparr>se_now := t1\<rparr>) new ?up))"
    have r1: "ra_ledger r1 = mark_processed (ra_ledger r) ?k" "ra_name r1 = ra_name r" "ra_allowed_planes r1 = ra_allowed_planes r"
      using that(1) by (auto simp: reactor_handle_def freshness_sealed split: if_splits sum.splits prod.splits)
    have ok: "ledger_ok (ra_ledger r1)" "0 < ledger_room (ra_ledger r1)" "already_processed (ra_ledger r1) ?k"
      using mem.ok_mark [OF assms(11)] mem.room_mark [OF assms(11), of ?k] mem.seen_mark [OF assms(11)] assms(12) by (simp_all add: r1)
    have "already_processed (ra_ledger r2) ?k"
      using that(2) ok mem.seen_keep [OF ok(1,2,3)]
      by (auto simp: reactor_handle_def freshness_sealed split: if_splits sum.splits prod.splits)
    moreover have "ra_name r2 = ra_name r" "ra_allowed_planes r2 = ra_allowed_planes r"
      using reactor_handle_frame [OF that(2)] r1 by simp_all
    moreover have "fe_plane (change_event (env\<lparr>se_now := t3\<rparr>) new ?up) \<in> set (ra_allowed_planes r)"
      using assms(13) by (simp add: change_event_def)
    ultimately show ?thesis
      by (simp add: reactor_handle_def freshness_sealed ids [of t3])
  qed
  note drop = this
  have rows: "store_row (record_key new) s3 = Some (nr_payload new)" "store_row (record_key new) s2 = Some (nr_payload old)"
    using 2(2) 3(2) assms(4) by (simp_all add: store_row_map)
  show ?thesis
    by (rule exI [of _ a1], rule exI [of _ "?ev t1 new ?up m1"], rule exI [of _ s1], rule exI [of _ a2],
        rule exI [of _ "?ev t2 old ?down m2"], rule exI [of _ s2], rule exI [of _ a3], rule exI [of _ "?ev t3 new ?up m3"],
        rule exI [of _ s3], rule conjI [OF 1(1)], rule conjI [OF 2(1)], rule conjI [OF 3(1)], rule conjI [OF rows(1)],
        rule conjI [OF rows(2)], intro allI impI, rule drop)
qed

lemma upsert_again:
  assumes "wf_json (JObj (nr_payload rec))"
  shows "\<exists>i. upsert rec (snd (upsert rec s)) = (\<lparr>so_record_id = i, so_change_kind = ''unchanged'', so_diff = []\<rparr>, snd (upsert rec s))"
proof -
  obtain d where "store_row (record_key rec) (snd (upsert rec s)) = Some d" "py_eq (JObj d) (JObj (nr_payload rec))"
    using mem_store.get_put [OF assms] by blast
  then show ?thesis by (auto simp: store_row_map upsert_def [of rec "snd (upsert rec s)"] Let_def simp del: py_eq.simps)
qed

text \<open>
  An outcome that cannot be built loses the change. The record is written before the outcome is derived; a
  finished match with a negative score makes the outcome's check raise, so nothing of the first delivery is published, and
  the redelivery finds the record unchanged and publishes only that: the freshness event of the change never appears.
\<close>

lemma raising_outcome_loses_event:
  assumes "normalized_record_from_dict L (msg_payload msg) = Inr rec" "wf_json (JObj (nr_payload rec))"
    and "nr_record_type rec = ''match_detail''" "status_raw L (nr_payload rec) \<in> set terminal_match_statuses"
    and "final_scores (nr_payload rec) = (JInt h, JInt a)" "h < 0 \<or> a < 0"
    and "so_change_kind (fst (upsert rec s)) \<noteq> ''unchanged''"
  shows "\<exists>s' st. storage_handle L env msg s = (Inl ValueError, s') \<and> storage_handle L env2 msg s' = (Inr [st], s') \<and>
    em_topic st = match_stored_topic \<and> (\<exists>d. store_row (record_key rec) s' = Some d \<and> py_eq (JObj d) (JObj (nr_payload rec)))"
proof -
  obtain oc s' where u: "upsert rec s = (oc, s')" by force
  have "maybe_match_outcome L rec (so_record_id oc) (se_now env) = Inl ValueError"
    using assms(3-6) by (auto simp: maybe_match_outcome_def match_outcome_check_def Let_def require_def)
  then have 1: "storage_handle L env msg s = (Inl ValueError, s')"
    using u assms(1,7) upsert_kind [of rec s] by (auto simp: storage_handle_def Let_def)
  obtain i where "upsert rec s' = (\<lparr>so_record_id = i, so_change_kind = ''unchanged'', so_diff = []\<rparr>, s')"
    using upsert_again [OF assms(2), of s] u by auto
  then have 2: "storage_handle L env2 msg s' = (Inr [storage_emission match_stored_topic (match_stored_as_dict
      (stored_notice env2 rec \<lparr>so_record_id = i, so_change_kind = ''unchanged'', so_diff = []\<rparr>)) msg], s')"
    using assms(1) by (simp add: storage_handle_def)
  show ?thesis
    using 1 2 mem_store.get_put [OF assms(2), of s] u by (auto simp: storage_emission_def)
qed

text \<open>A later change of any other field of a finished match announces its outcome again.\<close>

lemma outcome_republished:
  assumes "normalized_record_from_dict L (msg_payload msg) = Inr rec" "so_change_kind (fst (upsert rec s)) \<noteq> ''unchanged''"
    and "nr_record_type rec = ''match_detail''" "status_raw L (nr_payload rec) \<in> set terminal_match_statuses"
    and "final_scores (nr_payload rec) = (JInt h, JInt a)" "0 \<le> h" "0 \<le> a"
  shows "\<exists>st ev mo s'. storage_handle L env msg s = (Inr [st, ev, mo], s') \<and> em_topic mo = match_outcome_topic"
proof -
  obtain oc s' where u: "upsert rec s = (oc, s')" by force
  have "\<exists>mo. maybe_match_outcome L rec (so_record_id oc) (se_now env) = Inr (Some mo)"
    using assms(3-7) by (auto simp: maybe_match_outcome_def match_outcome_check_def Let_def require_def derive_match_outcome_def)
  then show ?thesis
    using u assms(1,2) upsert_kind [of rec s] by (auto simp: storage_handle_def Let_def storage_emission_def)
qed

end
