(* ===== verification/Intake.thy ===== *)
theory Intake
  imports Storage Consensus "HOL-Library.Sublist"
begin

text \<open>
  From scraped bytes to normalized records: the rule classifier and categorizer agent of
  \<open>swarm/agents/categorizer.py\<close> and the four processors of \<open>swarm/agents/processor.py\<close>. What base64 and UTF-8
  decoding, Unicode lower-casing, \<open>json.loads\<close>, SHA-1, the regular-expression engine and \<open>str(exc)\<close> return is collected in
  the parameter \<open>intake_lib\<close>; everything done with their results is modelled.
\<close>

record intake_lib =
  il_decode :: "string \<Rightarrow> string + string"
  il_lower :: "string \<Rightarrow> string"
  il_json :: "string \<Rightarrow> jval option"
  il_sha1 :: "string \<Rightarrow> string"
  il_rows :: "string \<Rightarrow> (string \<times> string) list"
  il_score :: "string \<Rightarrow> (string \<times> string \<times> string \<times> string) option"
  il_players :: "string \<Rightarrow> string list"
  il_odds :: "string \<Rightarrow> (string \<times> string \<times> string) option"
  il_error :: "py_error \<Rightarrow> string"
  il_suffix :: string
  il_now :: string

section \<open>The rule classifier\<close>

text \<open>\<open>needle in text\<close>.\<close>

fun contains :: "string \<Rightarrow> string \<Rightarrow> bool" where
  "contains needle [] = (needle = [])"
| "contains needle (c # text) = (prefix needle (c # text) \<or> contains needle text)"

text \<open>The rules, in their order; letters outside ASCII are their UTF-8 bytes.\<close>

definition rules :: "(string \<times> string list) list" where
  "rules =
     [(''lineup'', [''lineup'', ''kadro'', ''ilk-11'', ''ilk11'', ''kadrolar'']),
      (''odds'', [''odds'', ''oran'', ''iddaa'', ''bulten'', ''b'' @ [CHR 0xC3, CHR 0xBC] @ ''lten'']),
      (''match_detail'', [''match-detail'', ''macdetay'', ''ma'' @ [CHR 0xC3, CHR 0xA7] @ ''-detay'',
         ''match/'', ''/maclar/'', ''/match/'']),
      (''fixture_list'', [''fixtures'', ''fikstur'', ''fikst'' @ [CHR 0xC3, CHR 0xBC] @ ''r'', ''schedule'',
         ''puan-durumu'', ''standings''])]"

definition hits :: "string list \<Rightarrow> string \<Rightarrow> nat" where
  "hits needles text = length (filter (\<lambda>n. contains n text) needles)"

fun apply_rules :: "(string \<times> string list) list \<Rightarrow> string \<Rightarrow> string \<Rightarrow> (string \<times> real) option" where
  "apply_rules [] target body = None"
| "apply_rules ((label, needles) # rs) target body =
     (let target_hits = hits needles target; body_hits = hits needles body in
      if 1 \<le> target_hits then Some (label, if body_hits \<noteq> 0 then 85 / 100 else 7 / 10)
      else if 2 \<le> body_hits then Some (label, 6 / 10)
      else apply_rules rs target body)"

definition json_markers :: "string list" where
  "json_markers = map (\<lambda>s. CHR 0x22 # s @ [CHR 0x22]) [''matches'', ''fixtures'', ''rounds'']"

definition rules_classify :: "intake_lib \<Rightarrow> scrape_raw \<Rightarrow> string \<Rightarrow> string \<times> real" where
  "rules_classify I raw body_text =
     (let target = il_lower I (sw_target raw); body_low = il_lower I body_text in
      case apply_rules rules target body_low of
        Some verdict \<Rightarrow> verdict
      | None \<Rightarrow>
          if prefix ''application/json'' (sw_content_type raw) \<and> list_ex (\<lambda>k. contains k body_low) json_markers
          then (''fixture_list'', 75 / 100)
          else (''irrelevant'', 4 / 10))"

section \<open>The categorizer\<close>

definition scrape_classified_topic :: topic where
  "scrape_classified_topic = ''scrape.classified''"

definition categorizer_emission :: "topic \<Rightarrow> jobj \<Rightarrow> message \<Rightarrow> emission" where
  "categorizer_emission topic payload msg =
     \<lparr>em_topic = topic, em_payload = payload, em_producer = ''categorizer.v1'', em_trace = Some (en_trace_id (msg_envelope msg))\<rparr>"

definition decode_body :: "intake_lib \<Rightarrow> string \<Rightarrow> string + string" where
  "decode_body I b64 = (if b64 = [] then Inr [] else il_decode I b64)"

definition categorizer_handle ::
  "pylib \<Rightarrow> intake_lib \<Rightarrow> (scrape_raw \<Rightarrow> string \<Rightarrow> string \<times> real) \<Rightarrow> string \<Rightarrow> real \<Rightarrow> message \<Rightarrow> emission list res" where
  "categorizer_handle L I classify classifier_id threshold msg =
     (case scrape_raw_from_dict L (msg_payload msg) of
        Inl e \<Rightarrow> (if e \<in> {KeyError, TypeError, ValueError} then Inr [] else Inl e)
      | Inr raw \<Rightarrow>
          (case decode_body I (sw_bytes_b64 raw) of
             Inl err \<Rightarrow> Inr [categorizer_emission proof_flag_topic
               [(''kind'', JStr ''decode_failed''), (''source'', JStr (sw_source raw)), (''target'', JStr (sw_target raw)),
                (''detail'', JStr (truncate_proof_detail (il_suffix I) (Some err) proof_flag_detail_max_len)),
                (''agent'', JStr ''categorizer.v1'')] msg]
           | Inr body_text \<Rightarrow>
               let (label, conf) = classify raw body_text in
               if conf < threshold \<or> label = ''irrelevant'' then
                 Inr [categorizer_emission proof_flag_topic
                   [(''kind'', JStr ''low_confidence_classification''), (''source'', JStr (sw_source raw)),
                    (''target'', JStr (sw_target raw)), (''label'', JStr label), (''confidence'', JFloat conf),
                    (''classifier_id'', JStr classifier_id), (''threshold'', JFloat threshold)] msg]
               else
                 Inr [categorizer_emission scrape_classified_topic (scrape_classified_as_dict
                   \<lparr>sc_raw = raw, sc_label = label, sc_confidence = conf, sc_classifier_id = classifier_id\<rparr>) msg]))"

section \<open>The processors\<close>

definition plane_by_type :: "(string \<times> string) list" where
  "plane_by_type = [(''fixture'', ''schedule''), (''match_detail'', ''live''), (''lineup'', ''live''), (''odds'', ''market'')]"

definition match_normalized_topic :: topic where
  "match_normalized_topic = ''match.normalized''"

record processor =
  ps_label :: string
  ps_record_type :: string
  ps_parse :: "string \<Rightarrow> scrape_classified \<Rightarrow> (string \<times> jobj) list res"

definition processor_init :: "string \<Rightarrow> string \<Rightarrow> (string \<Rightarrow> scrape_classified \<Rightarrow> (string \<times> jobj) list res) \<Rightarrow> processor res" where
  "processor_init label record_type parse =
     require (label \<noteq> [] \<and> record_type \<noteq> []) (Inr \<lparr>ps_label = label, ps_record_type = record_type, ps_parse = parse\<rparr>)"

definition processor_name :: "processor \<Rightarrow> string" where
  "processor_name p = ''processor.'' @ ps_record_type p @ ''.v1''"

definition record_stable_id :: "intake_lib \<Rightarrow> string \<Rightarrow> string \<Rightarrow> string" where
  "record_stable_id I source source_match_id = take 16 (il_sha1 I (source @ '':'' @ source_match_id))"

definition processor_emission :: "processor \<Rightarrow> topic \<Rightarrow> jobj \<Rightarrow> message \<Rightarrow> emission" where
  "processor_emission p topic payload msg =
     \<lparr>em_topic = topic, em_payload = payload, em_producer = processor_name p, em_trace = Some (en_trace_id (msg_envelope msg))\<rparr>"

definition processor_flag :: "intake_lib \<Rightarrow> processor \<Rightarrow> message \<Rightarrow> scrape_classified \<Rightarrow> string \<Rightarrow> string \<Rightarrow> emission" where
  "processor_flag I p msg classified kind detail = processor_emission p proof_flag_topic
     [(''kind'', JStr kind),
      (''detail'', JStr (truncate_proof_detail (il_suffix I) (Some detail) proof_flag_detail_max_len)),
      (''source'', JStr (sw_source (sc_raw classified))), (''target'', JStr (sw_target (sc_raw classified))),
      (''label'', JStr (sc_label classified)), (''processor'', JStr (processor_name p))] msg"

definition processed_record :: "intake_lib \<Rightarrow> processor \<Rightarrow> scrape_classified \<Rightarrow> string \<times> jobj \<Rightarrow> normalized_record res" where
  "processed_record I p classified item =
     (case map_of plane_by_type (ps_record_type p) of
        None \<Rightarrow> Inl KeyError
      | Some plane \<Rightarrow>
          normalized_record_check
            \<lparr>nr_record_type = ps_record_type p, nr_plane = plane, nr_source = sw_source (sc_raw classified),
             nr_source_match_id = fst item, nr_stable_id = record_stable_id I (sw_source (sc_raw classified)) (fst item),
             nr_extractor_version = ''phase4.v1'', nr_payload = snd item,
             nr_league_id = sw_league_id (sc_raw classified), nr_competition_id = sw_competition_id (sc_raw classified),
             nr_canonical_version = 1, nr_raw_sha256 = sw_bytes_sha256 (sc_raw classified), nr_captured_at = il_now I\<rparr>)"

definition processed_message :: "intake_lib \<Rightarrow> processor \<Rightarrow> message \<Rightarrow> scrape_classified \<Rightarrow> string \<times> jobj \<Rightarrow> emission res" where
  "processed_message I p msg classified item =
     (case processed_record I p classified item of
        Inl e \<Rightarrow> (if e = ValueError then Inr (processor_flag I p msg classified ''invalid_record'' (il_error I e)) else Inl e)
      | Inr rec \<Rightarrow> Inr (processor_emission p match_normalized_topic (normalized_record_as_dict rec) msg))"

definition processor_handle :: "pylib \<Rightarrow> intake_lib \<Rightarrow> processor \<Rightarrow> message \<Rightarrow> emission list res" where
  "processor_handle L I p msg =
     (case scrape_classified_from_dict L (msg_payload msg) of
        Inl e \<Rightarrow> (if e \<in> {KeyError, TypeError, ValueError} then Inr [] else Inl e)
      | Inr classified \<Rightarrow>
          if sc_label classified \<noteq> ps_label p then Inr []
          else
            (case decode_body I (sw_bytes_b64 (sc_raw classified)) of
               Inl err \<Rightarrow> Inr [processor_flag I p msg classified ''decode_failed'' err]
             | Inr body \<Rightarrow>
                 (case ps_parse p body classified of
                    Inl e \<Rightarrow> Inr [processor_flag I p msg classified ''parser_exception'' (il_error I e)]
                  | Inr parsed \<Rightarrow>
                      if parsed = [] then Inr [processor_flag I p msg classified ''empty_parse''
                        (''label='' @ sc_label classified @ '' target='' @ sw_target (sc_raw classified))]
                      else res_map (processed_message I p msg classified) parsed)))"

text \<open>\<open>_iter_openfootball_matches\<close>: the dicts of \<open>matches\<close>, then those of every round.\<close>

definition dicts_of :: "jobj \<Rightarrow> string \<Rightarrow> jobj list" where
  "dicts_of d k =
     (case jget_or d k JNull of
        JArr items \<Rightarrow> List.map_filter (\<lambda>j. case j of JObj m \<Rightarrow> Some m | _ \<Rightarrow> None) items
      | _ \<Rightarrow> [])"

definition iter_openfootball_matches :: "jval \<Rightarrow> jobj list" where
  "iter_openfootball_matches data =
     (case data of
        JObj d \<Rightarrow> dicts_of d ''matches'' @ concat (map (\<lambda>rd. dicts_of rd ''matches'') (dicts_of d ''rounds''))
      | _ \<Rightarrow> [])"

definition fixture_item :: "pylib \<Rightarrow> jobj \<Rightarrow> string \<times> jobj" where
  "fixture_item L m =
     (py_str L (jget_or m ''date'' (JStr ''?'')) @ ''_'' @ py_str L (jget_or m ''team1'' (JStr ''?'')) @ ''_vs_'' @
        py_str L (jget_or m ''team2'' (JStr ''?'')),
      [(''date'', jget_or m ''date'' JNull), (''home_team'', jget_or m ''team1'' JNull), (''away_team'', jget_or m ''team2'' JNull),
       (''score'', let sc = jget_or m ''score'' JNull in if py_bool sc then sc else JObj [])])"

definition fixture_parse :: "pylib \<Rightarrow> intake_lib \<Rightarrow> string \<Rightarrow> scrape_classified \<Rightarrow> (string \<times> jobj) list res" where
  "fixture_parse L I body classified =
     (if prefix ''application/json'' (sw_content_type (sc_raw classified)) then
        (case il_json I body of
           None \<Rightarrow> Inr []
         | Some data \<Rightarrow> Inr (map (fixture_item L) (iter_openfootball_matches data)))
      else
        Inr (map (\<lambda>(idx, h, a). let home = py_strip h; away = py_strip a in
            (''row_'' @ show_int (int idx) @ ''_'' @ home @ ''_vs_'' @ away,
             [(''home_team'', JStr home), (''away_team'', JStr away), (''raw_html_index'', JInt (int idx))]))
          (enumerate 0 (il_rows I body))))"

definition match_detail_parse :: "pylib \<Rightarrow> intake_lib \<Rightarrow> string \<Rightarrow> scrape_classified \<Rightarrow> (string \<times> jobj) list res" where
  "match_detail_parse L I body classified =
     (case il_score I body of
        None \<Rightarrow> Inr []
      | Some (h, hs, as, a) \<Rightarrow>
          let home = py_strip h; away = py_strip a in
          res_bind (py_int L (JStr hs)) (\<lambda>home_score.
          res_bind (py_int L (JStr as)) (\<lambda>away_score.
          Inr [(home @ ''_vs_'' @ away,
            [(''home_team'', JStr home), (''away_team'', JStr away), (''home_score'', JInt home_score), (''away_score'', JInt away_score)])])))"

definition lineup_parse :: "intake_lib \<Rightarrow> string \<Rightarrow> scrape_classified \<Rightarrow> (string \<times> jobj) list res" where
  "lineup_parse I body classified =
     (let names = il_players I body in
      if length names < 11 then Inr []
      else Inr [(''lineup_'' @ sw_target (sc_raw classified), [(''players'', JArr (map JStr (take 22 names)))])])"

definition odds_parse :: "pylib \<Rightarrow> intake_lib \<Rightarrow> string \<Rightarrow> scrape_classified \<Rightarrow> (string \<times> jobj) list res" where
  "odds_parse L I body classified =
     (case il_odds I body of
        None \<Rightarrow> Inr []
      | Some (o1, ox, o2) \<Rightarrow>
          res_bind (py_float L (JStr o1)) (\<lambda>p1.
          res_bind (py_float L (JStr ox)) (\<lambda>px.
          res_bind (py_float L (JStr o2)) (\<lambda>p2.
          Inr [(''odds_'' @ sw_target (sc_raw classified), [(''1'', JFloat p1), (''X'', JFloat px), (''2'', JFloat p2)])]))))"

definition fixture_processor :: "pylib \<Rightarrow> intake_lib \<Rightarrow> processor" where
  "fixture_processor L I = \<lparr>ps_label = ''fixture_list'', ps_record_type = ''fixture'', ps_parse = fixture_parse L I\<rparr>"

definition match_detail_processor :: "pylib \<Rightarrow> intake_lib \<Rightarrow> processor" where
  "match_detail_processor L I = \<lparr>ps_label = ''match_detail'', ps_record_type = ''match_detail'', ps_parse = match_detail_parse L I\<rparr>"

definition lineup_processor :: "intake_lib \<Rightarrow> processor" where
  "lineup_processor I = \<lparr>ps_label = ''lineup'', ps_record_type = ''lineup'', ps_parse = lineup_parse I\<rparr>"

definition odds_processor :: "pylib \<Rightarrow> intake_lib \<Rightarrow> processor" where
  "odds_processor L I = \<lparr>ps_label = ''odds'', ps_record_type = ''odds'', ps_parse = odds_parse L I\<rparr>"

definition processors :: "pylib \<Rightarrow> intake_lib \<Rightarrow> processor list" where
  "processors L I = [fixture_processor L I, match_detail_processor L I, lineup_processor I, odds_processor L I]"

section \<open>Every document is accounted for\<close>

lemma apply_rules_label: "apply_rules rs target body = Some (l, c) \<Longrightarrow> l \<in> fst ` set rs \<and> c \<in> {6 / 10, 7 / 10, 85 / 100}"
  by (induction rs target body rule: apply_rules.induct) (auto simp: Let_def split: if_splits)

lemma rules_labels: "(label, needles) \<in> set rules \<Longrightarrow> label \<in> {''lineup'', ''odds'', ''match_detail'', ''fixture_list''}"
  by (auto simp: rules_def)

lemma rules_classify_label:
  "rules_classify I raw body = (label, conf) \<Longrightarrow>
    (label, conf) = (''irrelevant'', 4 / 10) \<or>
    label \<in> {''lineup'', ''odds'', ''match_detail'', ''fixture_list''} \<and> conf \<in> {6 / 10, 7 / 10, 75 / 100, 85 / 100}"
  unfolding rules_classify_def Let_def
  by (auto split: option.splits if_splits dest!: apply_rules_label rules_labels)

lemma processor_other: "scrape_classified_from_dict L (msg_payload msg) = Inr c \<Longrightarrow> sc_label c \<noteq> ps_label p \<Longrightarrow> processor_handle L I p msg = Inr []"
  by (simp add: processor_handle_def)

definition known_processor :: "processor \<Rightarrow> bool" where
  "known_processor p \<longleftrightarrow> ps_record_type p \<in> fst ` set plane_by_type"

text \<open>A processor turns an item into a message that decodes to the record of that item.\<close>

lemma processed_message_record:
  assumes "known_processor p"
  shows "\<exists>rec. processed_record I p c item = Inr rec \<and> normalized_record_check rec = Inr rec \<and>
    processed_message I p msg c item = Inr (processor_emission p match_normalized_topic (normalized_record_as_dict rec) msg) \<and>
    nr_record_type rec = ps_record_type p \<and> nr_source_match_id rec = fst item \<and> nr_payload rec = snd item \<and>
    nr_source rec = sw_source (sc_raw c)"
proof -
  obtain plane where p: "map_of plane_by_type (ps_record_type p) = Some plane" "plane \<in> set allowed_planes" "ps_record_type p \<in> set allowed_record_types"
    using assms by (auto simp: known_processor_def plane_by_type_def allowed_planes_def allowed_record_types_def)
  show ?thesis
    by (simp add: processed_message_def processed_record_def p normalized_record_check_def)
qed

lemma processor_answers:
  assumes "known_processor p" "scrape_classified_from_dict L (msg_payload msg) = Inr c" "sc_label c = ps_label p"
  shows "\<exists>out. processor_handle L I p msg = Inr out \<and> out \<noteq> [] \<and>
    (\<forall>e \<in> set out. em_topic e = proof_flag_topic \<or> em_topic e = match_normalized_topic \<and>
      (\<exists>rec body items item. normalized_record_from_dict M (em_payload e) = Inr rec \<and> decode_body I (sw_bytes_b64 (sc_raw c)) = Inr body \<and>
        ps_parse p body c = Inr items \<and> item \<in> set items \<and> nr_payload rec = snd item \<and> nr_record_type rec = ps_record_type p))"
proof -
  have flag: "em_topic (processor_flag I p msg c k d) = proof_flag_topic" for k d
    by (simp add: processor_flag_def processor_emission_def)
  show ?thesis
  proof (cases "decode_body I (sw_bytes_b64 (sc_raw c))")
    case (Inl err)
    with assms(2,3) flag show ?thesis by (simp add: processor_handle_def)
  next
    case body: (Inr body)
    show ?thesis
    proof (cases "ps_parse p body c")
      case (Inl e)
      with assms(2,3) body flag show ?thesis by (simp add: processor_handle_def)
    next
      case items: (Inr items)
      show ?thesis
      proof (cases "items = []")
        case True
        with assms(2,3) body items flag show ?thesis by (simp add: processor_handle_def)
      next
        case False
        define f where "f item = (case processed_message I p msg c item of Inr e \<Rightarrow> e | Inl x \<Rightarrow> undefined)" for item
        have f: "processed_message I p msg c item = Inr (f item)" for item
          using processed_message_record [OF assms(1), of I c item msg] by (auto simp: f_def)
        have sound: "em_topic (f item) = match_normalized_topic \<and> (\<exists>rec. normalized_record_from_dict M (em_payload (f item)) = Inr rec \<and>
            nr_payload rec = snd item \<and> nr_record_type rec = ps_record_type p)" for item
          using processed_message_record [OF assms(1), of I c item msg] f [of item]
          by (auto simp: processor_emission_def normalized_record_wire)
        have out: "processor_handle L I p msg = Inr (map f items)"
          using assms(2,3) body items False res_map_Inr [of items "processed_message I p msg c" f] f by (simp add: processor_handle_def)
        show ?thesis
        proof (intro exI [of _ "map f items"] conjI ballI out)
          show "map f items \<noteq> []" using False by simp
          fix e assume "e \<in> set (map f items)"
          then obtain item where "e = f item" "item \<in> set items" by auto
          with sound [of item] body items show "em_topic e = proof_flag_topic \<or> em_topic e = match_normalized_topic \<and>
            (\<exists>rec body items item. normalized_record_from_dict M (em_payload e) = Inr rec \<and> decode_body I (sw_bytes_b64 (sc_raw c)) = Inr body \<and>
              ps_parse p body c = Inr items \<and> item \<in> set items \<and> nr_payload rec = snd item \<and> nr_record_type rec = ps_record_type p)"
            by blast
        qed
      qed
    qed
  qed
qed

lemma processors_known: "p \<in> set (processors L I) \<Longrightarrow> known_processor p"
  by (auto simp: processors_def known_processor_def plane_by_type_def fixture_processor_def match_detail_processor_def
      lineup_processor_def odds_processor_def)

lemma processors_labels: "map ps_label (processors L I) = [''fixture_list'', ''match_detail'', ''lineup'', ''odds'']"
  by (simp add: processors_def fixture_processor_def match_detail_processor_def lineup_processor_def odds_processor_def)

text \<open>
  C13: every scraped document is accounted for. With the rule classifier and any threshold the
  categorizer answers a decodable document with exactly one message: a flag, or a classification that decodes to that
  document; and to a classification exactly one of the four processors answers, the others stay silent, it never raises whatever
  its parser meets, and each of its messages is a flag or a record that decodes, of that processor's type.
\<close>

theorem documents_accounted_for:
  assumes "scrape_raw_from_dict L (msg_payload msg) = Inr raw"
  shows "\<exists>e. categorizer_handle L I (rules_classify I) ''rules.v1'' threshold msg = Inr [e] \<and>
    (em_topic e = proof_flag_topic \<or>
     (\<exists>c. em_topic e = scrape_classified_topic \<and> scrape_classified_from_dict L (em_payload e) = Inr c \<and> sc_raw c = raw \<and>
       threshold \<le> sc_confidence c \<and>
       distinct (map ps_label (processors L I)) \<and> sc_label c \<in> set (map ps_label (processors L I)) \<and>
       (\<forall>p \<in> set (processors L I). \<exists>out. processor_handle L I p (seal fr e) = Inr out \<and>
          (out \<noteq> [] \<longleftrightarrow> ps_label p = sc_label c) \<and>
          (\<forall>x \<in> set out. em_topic x = proof_flag_topic \<or>
             (\<exists>rec. normalized_record_from_dict M (em_payload x) = Inr rec \<and> nr_record_type rec = ps_record_type p)))))"
proof (cases "decode_body I (sw_bytes_b64 raw)")
  case (Inl err)
  with assms show ?thesis by (simp add: categorizer_handle_def categorizer_emission_def)
next
  case (Inr body)
  obtain label conf where lc: "rules_classify I raw body = (label, conf)" by force
  show ?thesis
  proof (cases "conf < threshold \<or> label = ''irrelevant''")
    case True
    with assms Inr lc show ?thesis by (simp add: categorizer_handle_def categorizer_emission_def)
  next
    case False
    let ?c = "\<lparr>sc_raw = raw, sc_label = label, sc_confidence = conf, sc_classifier_id = ''rules.v1''\<rparr>"
    let ?e = "categorizer_emission scrape_classified_topic (scrape_classified_as_dict ?c) msg"
    have h: "categorizer_handle L I (rules_classify I) ''rules.v1'' threshold msg = Inr [?e]"
      using assms Inr lc False by (simp add: categorizer_handle_def)
    have d: "scrape_classified_from_dict L (msg_payload (seal fr ?e)) = Inr ?c"
      by (simp add: seal_def message_new_def categorizer_emission_def scrape_classified_wire)
    have "\<exists>out. processor_handle L I p (seal fr ?e) = Inr out \<and> (out \<noteq> [] \<longleftrightarrow> ps_label p = label) \<and>
        (\<forall>x \<in> set out. em_topic x = proof_flag_topic \<or>
           (\<exists>rec. normalized_record_from_dict M (em_payload x) = Inr rec \<and> nr_record_type rec = ps_record_type p))"
      if p: "p \<in> set (processors L I)" for p
    proof (cases "ps_label p = label")
      case True
      with processor_answers [OF processors_known [OF p] d, of I M] show ?thesis by simp blast
    next
      case False
      with processor_other [OF d, of p I] show ?thesis by simp
    qed
    moreover have "label \<in> set (map ps_label (processors L I))"
      using rules_classify_label [OF lc] False unfolding processors_labels by auto
    moreover have "distinct (map ps_label (processors L I))" by (simp add: processors_labels)
    ultimately show ?thesis
      using h False by (intro exI [of _ ?e]) (simp add: categorizer_emission_def scrape_classified_wire)
  qed
qed

definition example_intake :: intake_lib where
  "example_intake = \<lparr>il_decode = Inr, il_lower = (\<lambda>s. s), il_json = (\<lambda>_. None), il_sha1 = (\<lambda>s. s), il_rows = (\<lambda>_. []),
     il_score = (\<lambda>_. Some (''Galatasaray'', ''2'', ''1'', ''Fenerbahce'')), il_players = (\<lambda>_. []), il_odds = (\<lambda>_. None),
     il_error = (\<lambda>_. ''error''), il_suffix = ''..'', il_now = ''now''\<rparr>"

definition example_raw :: scrape_raw where
  "example_raw = \<lparr>sw_source = ''tff'', sw_target = ''/match/7'', sw_bytes_sha256 = [], sw_http_status = 200, sw_content_type = ''text/html'',
     sw_bytes_b64 = [], sw_bytes_ref = [], sw_league_id = JNull, sw_competition_id = JNull, sw_fetched_at = [], sw_wire_bytes = 0,
     sw_decoded_bytes = 0\<rparr>"

definition raw_message :: message where
  "raw_message = message_new \<lparr>fr_message_id = ''i'', fr_trace_id = ''t'', fr_now = ''n''\<rparr> ''scrape.raw''
     (scrape_raw_as_dict example_raw) ''scraper'' None"

theorem documents_accounted_for_witness:
  "\<exists>e. categorizer_handle example_lib example_intake (rules_classify example_intake) ''rules.v1'' (55 / 100) raw_message = Inr [e]"
proof -
  have "scrape_raw_from_dict example_lib (msg_payload raw_message) = Inr example_raw"
    by (simp add: raw_message_def message_new_def scrape_raw_wire)
  from documents_accounted_for [OF this, of example_intake "55 / 100"] show ?thesis by blast
qed

text \<open>
  No match is ever settled from a scraped page. Storage takes every record the processors publish, without raising; but the payload of
  the match-detail processor carries no status (and its scores under names storage does not read), so whatever the
  page says, storage publishes no match outcome for any record of the four processors.
\<close>

lemma processed_records_never_settle:
  assumes "p \<in> set (processors L I)" "processor_handle L I p msg = Inr out" "e \<in> set out" "em_topic e = match_normalized_topic"
  shows "\<exists>stored s'. storage_handle M env (seal fr e) s = (Inr stored, s') \<and> stored \<noteq> [] \<and>
    (\<forall>x \<in> set stored. em_topic x \<in> {match_stored_topic, freshness_events})"
proof -
  obtain c where c: "scrape_classified_from_dict L (msg_payload msg) = Inr c" "sc_label c = ps_label p"
    using assms(2,3) by (auto simp: processor_handle_def split: sum.splits if_splits)
  have topics: "match_normalized_topic \<noteq> proof_flag_topic"
    by (simp add: match_normalized_topic_def proof_flag_topic_def)
  from processor_answers [OF processors_known [OF assms(1)] c, of I M] assms(2-4) topics
  obtain rec body items item where rec: "normalized_record_from_dict M (em_payload e) = Inr rec" "ps_parse p body c = Inr items"
    "item \<in> set items" "nr_payload rec = snd item" "nr_record_type rec = ps_record_type p"
    by auto
  have "nr_record_type rec = ''match_detail'' \<Longrightarrow> status_raw M (nr_payload rec) \<notin> set terminal_match_statuses"
  proof -
    assume "nr_record_type rec = ''match_detail''"
    then have "p = match_detail_processor L I"
      using assms(1) rec(5) by (auto simp: processors_def fixture_processor_def lineup_processor_def odds_processor_def)
    then have "jget_or (nr_payload rec) ''status'' JNull = JNull"
      using rec(2-4) by (auto simp: match_detail_processor_def match_detail_parse_def res_iffs Let_def jget_or_def split: option.splits)
    then have "status_raw M (nr_payload rec) = []" by (simp add: status_raw_def py_strip_def py_lower_def)
    then show "status_raw M (nr_payload rec) \<notin> set terminal_match_statuses" by (simp add: terminal_match_statuses_def)
  qed
  then have none: "maybe_match_outcome M rec i t = Inr None" for i t
    by (simp add: maybe_match_outcome_def)
  have d: "normalized_record_from_dict M (msg_payload (seal fr e)) = Inr rec"
    using rec(1) by (simp add: seal_def message_new_def)
  obtain oc s' where u: "upsert rec s = (oc, s')" by force
  show ?thesis
    using d u none by (auto simp: storage_handle_def storage_emission_def Let_def)
qed

end
