(* ===== verification/Drift.thy ===== *)
theory Drift
  imports Storage
begin

text \<open>
  The drift agent of \<open>swarm/agents/drift.py\<close>: approved predictions wait for their match outcome, each settled one adds a Brier
  score to the rolling window of its league and market, and a full window whose mean breaches the ceiling asks for a
  retraining of every model in it, once until it recovers. The \<open>frozenset\<close> of an entry's models is a sorted list without
  repetitions, the \<open>Counter\<close> of model references an association list.
\<close>

section \<open>Brier scores\<close>

definition brier_score :: "(string, real) odict \<Rightarrow> string \<Rightarrow> real" where
  "brier_score probs realized =
     (\<Sum>o1 \<leftarrow> [''H'', ''D'', ''A'']. ((case map_of probs o1 of None \<Rightarrow> 0 | Some p \<Rightarrow> p) - (if o1 = realized then 1 else 0)) ^ 2)"

section \<open>Windows\<close>

record window =
  wi_entries :: "(real \<times> string list) list"
  wi_refs :: "(string, int) odict"
  wi_sum :: real

definition window_init :: window where
  "window_init = \<lparr>wi_entries = [], wi_refs = [], wi_sum = 0\<rparr>"

definition ref_count :: "(string, int) odict \<Rightarrow> string \<Rightarrow> int" where
  "ref_count refs m = (case map_of refs m of None \<Rightarrow> 0 | Some n \<Rightarrow> n)"

definition ref_inc :: "string \<Rightarrow> (string, int) odict \<Rightarrow> (string, int) odict" where
  "ref_inc m refs = od_set m (ref_count refs m + 1) refs"

definition ref_dec :: "string \<Rightarrow> (string, int) odict \<Rightarrow> (string, int) odict" where
  "ref_dec m refs =
     (let n = ref_count refs m - 1 in if n \<le> 0 then od_del m (od_set m n refs) else od_set m n refs)"

definition window_append :: "real \<Rightarrow> string list \<Rightarrow> window \<Rightarrow> window" where
  "window_append brier models w =
     (let frozen = sort (remdups models) in
      w\<lparr>wi_entries := wi_entries w @ [(brier, frozen)], wi_sum := wi_sum w + brier, wi_refs := fold ref_inc frozen (wi_refs w)\<rparr>)"

definition window_popleft :: "window \<Rightarrow> window" where
  "window_popleft w =
     (case wi_entries w of
        [] \<Rightarrow> w
      | (brier, evicted) # rest \<Rightarrow>
          w\<lparr>wi_entries := rest, wi_sum := wi_sum w - brier, wi_refs := fold ref_dec evicted (wi_refs w)\<rparr>)"

definition window_mean :: "window \<Rightarrow> real" where
  "window_mean w = (if wi_entries w = [] then 0 else wi_sum w / real (length (wi_entries w)))"

definition models_in_window :: "window \<Rightarrow> string list" where
  "models_in_window w = map fst (filter (\<lambda>p. 0 < snd p) (wi_refs w))"

section \<open>The agent\<close>

record drift_pending =
  dp_prediction_id :: string
  dp_match_id :: string
  dp_market :: string
  dp_league_id :: jval
  dp_outcomes :: "(string, real) odict"
  dp_models :: "string list"

type_synonym bucket = "jval \<times> string"

record drift =
  dr_window_size :: nat
  dr_floor :: real
  dr_max_pending :: nat
  dr_max_settled :: nat
  dr_pending :: "(string \<times> string, drift_pending) odict"
  dr_windows :: "(bucket, window) odict"
  dr_settled :: "(string \<times> string, unit) odict"
  dr_tripped :: "bucket set"

definition drift_init :: "int \<Rightarrow> real \<Rightarrow> int \<Rightarrow> int \<Rightarrow> drift res" where
  "drift_init window_size accuracy_floor max_pending max_settled =
     require (1 \<le> window_size) (
     require (1 \<le> max_pending \<and> 1 \<le> max_settled) (
     Inr \<lparr>dr_window_size = nat window_size, dr_floor = accuracy_floor, dr_max_pending = nat max_pending, dr_max_settled = nat max_settled,
          dr_pending = [], dr_windows = [], dr_settled = [], dr_tripped = {}\<rparr>))"

definition window_size :: "bucket \<Rightarrow> drift \<Rightarrow> nat" where
  "window_size b s = (case map_of (dr_windows s) b of None \<Rightarrow> 0 | Some w \<Rightarrow> length (wi_entries w))"

definition mean_brier :: "bucket \<Rightarrow> drift \<Rightarrow> real option" where
  "mean_brier b s =
     (case map_of (dr_windows s) b of None \<Rightarrow> None | Some w \<Rightarrow> if wi_entries w = [] then None else Some (window_mean w))"

definition approval_record :: "pylib \<Rightarrow> approved \<Rightarrow> drift_pending option res" where
  "approval_record L a =
     (let final = ap_final a in
      res_bind (as_dict_or AttributeError (jget_or final ''distribution'' (JObj []))) (\<lambda>dist.
      case jget_or dist ''market_outcomes'' JNull of
        JObj outcomes \<Rightarrow>
          (case jget_or final ''contributing_models'' JNull of
             JArr contributing \<Rightarrow>
               if contributing = [] then Inr None
               else
                 res_bind (res_map (\<lambda>(k, v). res_bind (py_float L v) (\<lambda>x. Inr (k, x))) outcomes) (\<lambda>probs.
                 Inr (Some \<lparr>dp_prediction_id = ap_prediction_id a, dp_match_id = ap_match_id a, dp_market = ap_market a,
                   dp_league_id = jget_or final ''league_id'' JNull, dp_outcomes = probs,
                   dp_models = map (py_str L) contributing\<rparr>))
           | _ \<Rightarrow> Inr None)
      | _ \<Rightarrow> Inr None))"

definition drift_approved :: "pylib \<Rightarrow> message \<Rightarrow> drift \<Rightarrow> emission list res \<times> drift" where
  "drift_approved L msg s =
     (case approved_from_dict L (msg_payload msg) of
        Inl e \<Rightarrow> (if e \<in> {KeyError, TypeError, ValueError} then Inr [] else Inl e, s)
      | Inr a \<Rightarrow>
          (case approval_record L a of
             Inl e \<Rightarrow> (Inl e, s)
           | Inr None \<Rightarrow> (Inr [], s)
           | Inr (Some r) \<Rightarrow>
               let p = (if dr_max_pending s \<le> length (dr_pending s) then tl (dr_pending s) else dr_pending s) in
               (Inr [], s\<lparr>dr_pending := od_set (ap_match_id a, ap_market a) r p\<rparr>)))"

definition drift_topic :: topic where
  "drift_topic = maint_event_topic"

definition retrain_request :: "string \<Rightarrow> real \<Rightarrow> bucket \<Rightarrow> window \<Rightarrow> real \<Rightarrow> string \<Rightarrow> string \<Rightarrow> emission res" where
  "retrain_request produced_at brier_ceiling bucket w metric_value trace target =
     res_bind (maint_event_check
       \<lparr>me_kind = ''retrain_request'', me_target = target, me_reason = ''brier_floor'', me_league_id = fst bucket,
        me_market = JStr (snd bucket), me_metric = ''brier'', me_metric_value = metric_value, me_threshold = brier_ceiling,
        me_sample_size = int (length (wi_entries w)), me_produced_at = produced_at\<rparr>) (\<lambda>event.
     Inr \<lparr>em_topic = drift_topic, em_payload = maint_event_as_dict event, em_producer = ''drift.v1'', em_trace = Some trace\<rparr>)"

definition emit_retrain_requests :: "string \<Rightarrow> real \<Rightarrow> bucket \<Rightarrow> window \<Rightarrow> real \<Rightarrow> string \<Rightarrow> emission list res" where
  "emit_retrain_requests produced_at brier_ceiling bucket w metric_value trace =
     res_map (retrain_request produced_at brier_ceiling bucket w metric_value trace) (sort (models_in_window w))"

text \<open>The window of a settled prediction after its score, and what a full window makes of it.\<close>

definition scored_window :: "nat \<Rightarrow> real \<Rightarrow> string list \<Rightarrow> window \<Rightarrow> window" where
  "scored_window cap brier models w =
     window_append brier models (if cap \<le> length (wi_entries w) then window_popleft w else w)"

definition trip_check :: "string \<Rightarrow> string \<Rightarrow> bucket \<Rightarrow> window \<Rightarrow> drift \<Rightarrow> emission list res \<times> drift" where
  "trip_check produced_at trace bucket w s =
     (if dr_window_size s \<le> length (wi_entries w) then
        let mean_b = window_mean w in
        if dr_floor s < mean_b \<and> bucket \<notin> dr_tripped s then
          (case emit_retrain_requests produced_at (dr_floor s) bucket w mean_b trace of
             Inl e \<Rightarrow> (Inl e, s)
           | Inr out \<Rightarrow> (Inr out, s\<lparr>dr_tripped := insert bucket (dr_tripped s)\<rparr>))
        else if mean_b \<le> dr_floor s \<and> bucket \<in> dr_tripped s then
          (Inr [], s\<lparr>dr_tripped := dr_tripped s - {bucket}\<rparr>)
        else (Inr [], s)
      else (Inr [], s))"

definition drift_outcome :: "pylib \<Rightarrow> string \<Rightarrow> message \<Rightarrow> drift \<Rightarrow> emission list res \<times> drift" where
  "drift_outcome L produced_at msg s =
     (case match_outcome_from_dict L (msg_payload msg) of
        Inl e \<Rightarrow> (if e \<in> {KeyError, TypeError, ValueError} then Inr [] else Inl e, s)
      | Inr oc \<Rightarrow>
          let key = (mo_match_id oc, ''1x2'') in
          case map_of (dr_pending s) key of
            None \<Rightarrow> (Inr [], s)
          | Some p \<Rightarrow>
              let s1 = s\<lparr>dr_pending := od_del key (dr_pending s)\<rparr> in
              if map_of (dr_settled s1) key \<noteq> None then (Inr [], s1)
              else
                let settled = od_set key () (dr_settled s1);
                    s2 = s1\<lparr>dr_settled := (if dr_max_settled s1 < length settled then tl settled else settled)\<rparr>;
                    brier = brier_score (dp_outcomes p) (mo_outcome_1x2 oc);
                    bucket = (dp_league_id p, dp_market p) in
                if \<not> hashable (dp_league_id p) then (Inl TypeError, s2)
                else
                  let w = (case map_of (dr_windows s2) bucket of None \<Rightarrow> window_init | Some w \<Rightarrow> w);
                      w' = scored_window (dr_window_size s2) brier (dp_models p) w in
                  trip_check produced_at (en_trace_id (msg_envelope msg)) bucket w' (s2\<lparr>dr_windows := od_set bucket w' (dr_windows s2)\<rparr>))"

definition drift_handle :: "pylib \<Rightarrow> string \<Rightarrow> message \<Rightarrow> drift \<Rightarrow> emission list res \<times> drift" where
  "drift_handle L produced_at msg s =
     (let topic = en_topic (msg_envelope msg) in
      if topic = ''predict.approved.v1'' then drift_approved L msg s
      else if topic = match_outcome_topic then drift_outcome L produced_at msg s
      else (Inr [], s))"

section \<open>The window's bookkeeping\<close>

text \<open>The counters, the running sum and the cap against a recount of the entries.\<close>

definition window_ok :: "nat \<Rightarrow> window \<Rightarrow> bool" where
  "window_ok cap w \<longleftrightarrow>
     od_wf (wi_refs w) \<and> list_all (\<lambda>p. 0 < snd p) (wi_refs w) \<and>
     (\<forall>m. ref_count (wi_refs w) m = int (length (filter (\<lambda>e. m \<in> set (snd e)) (wi_entries w)))) \<and>
     wi_sum w = sum_list (map fst (wi_entries w)) \<and> length (wi_entries w) \<le> cap \<and>
     list_all (\<lambda>e. distinct (snd e)) (wi_entries w)"

definition refs_ok :: "(string, int) odict \<Rightarrow> bool" where
  "refs_ok refs \<longleftrightarrow> od_wf refs \<and> list_all (\<lambda>p. 0 < snd p) refs"

lemma ref_count_nonneg: "refs_ok refs \<Longrightarrow> 0 \<le> ref_count refs m"
  by (auto simp: refs_ok_def ref_count_def list_all_iff dest!: map_of_SomeD split: option.splits)

lemma refs_keys:
  assumes "refs_ok refs"
  shows "m \<in> fst ` set refs \<longleftrightarrow> 0 < ref_count refs m"
proof (cases "map_of refs m")
  case None
  then show ?thesis by (simp add: ref_count_def flip: map_of_None_keys)
next
  case (Some n)
  then have "0 < n" "m \<in> fst ` set refs"
    using assms by (auto simp: refs_ok_def list_all_iff dest!: map_of_SomeD intro: rev_image_eqI)
  with Some show ?thesis by (simp add: ref_count_def)
qed

lemma set_od_set: "p \<in> set (od_set k v d) \<Longrightarrow> p = (k, v) \<or> p \<in> set d"
  by (induction k v d rule: od_set.induct) (auto split: if_splits)

lemma ref_inc_ok: "refs_ok refs \<Longrightarrow> refs_ok (ref_inc m refs)"
  using ref_count_nonneg [of refs m] by (auto simp: refs_ok_def ref_inc_def list_all_iff dest!: set_od_set)

lemma ref_dec_ok: "refs_ok refs \<Longrightarrow> refs_ok (ref_dec m refs)"
  by (auto simp: refs_ok_def ref_dec_def Let_def list_all_iff od_del_od_set dest!: set_od_set)
    (auto simp: od_del_def)

lemma ref_count_inc: "ref_count (ref_inc m refs) k = ref_count refs k + (if k = m then 1 else 0)"
  by (simp add: ref_inc_def ref_count_def od_simps)

lemma ref_count_dec: "0 < ref_count refs m \<Longrightarrow> ref_count (ref_dec m refs) k = ref_count refs k - (if k = m then 1 else 0)"
  by (auto simp: ref_dec_def Let_def ref_count_def od_simps split: option.splits)

lemma refs_inc:
  "distinct ms \<Longrightarrow> refs_ok refs \<Longrightarrow> refs_ok (fold ref_inc ms refs) \<and>
     (\<forall>k. ref_count (fold ref_inc ms refs) k = ref_count refs k + (if k \<in> set ms then 1 else 0))"
  by (induction ms arbitrary: refs) (auto simp: ref_inc_ok ref_count_inc)

lemma refs_dec:
  "distinct ms \<Longrightarrow> refs_ok refs \<Longrightarrow> \<forall>m \<in> set ms. 0 < ref_count refs m \<Longrightarrow> refs_ok (fold ref_dec ms refs) \<and>
     (\<forall>k. ref_count (fold ref_dec ms refs) k = ref_count refs k - (if k \<in> set ms then 1 else 0))"
  by (induction ms arbitrary: refs) (auto simp: ref_dec_ok ref_count_dec)

lemma window_ok_init: "window_ok cap window_init"
  by (simp add: window_ok_def window_init_def ref_count_def)

lemma window_ok_append:
  assumes "window_ok cap w" "length (wi_entries w) < cap"
  shows "window_ok cap (window_append brier models w)"
  using assms refs_inc [of "sort (remdups models)" "wi_refs w"]
  by (simp add: window_ok_def window_append_def Let_def refs_ok_def)

lemma window_ok_popleft:
  assumes "window_ok cap w"
  shows "window_ok cap (window_popleft w)"
proof (cases "wi_entries w")
  case Nil
  with assms show ?thesis by (simp add: window_popleft_def)
next
  case (Cons e rest)
  obtain b ms where e: "e = (b, ms)" by force
  have "\<forall>m \<in> set ms. 0 < ref_count (wi_refs w) m" "distinct ms" "refs_ok (wi_refs w)"
    using assms Cons e by (simp_all add: window_ok_def refs_ok_def)
  from refs_dec [OF this(2,3,1)] assms Cons e show ?thesis
    by (simp add: window_ok_def window_popleft_def refs_ok_def)
qed

lemma window_ok_scored: "window_ok cap w \<Longrightarrow> 0 < cap \<Longrightarrow> window_ok cap (scored_window cap b ms w)"
proof -
  assume w: "window_ok cap w" "0 < cap"
  have "window_ok cap (window_popleft w) \<and> length (wi_entries (window_popleft w)) < cap"
    if "cap \<le> length (wi_entries w)"
    using window_ok_popleft [OF w(1)] w that
    by (cases "wi_entries w") (auto simp: window_popleft_def window_ok_def)
  with w show ?thesis
    by (auto simp: scored_window_def not_le intro: window_ok_append)
qed

lemma scored_entries:
  "0 < cap \<Longrightarrow> length (wi_entries w) \<le> cap \<Longrightarrow>
    wi_entries (scored_window cap b ms w) = drop (Suc (length (wi_entries w)) - cap) (wi_entries w @ [(b, sort (remdups ms))])"
  by (cases "wi_entries w") (auto simp: scored_window_def window_append_def window_popleft_def Let_def le_Suc_eq)

lemma drop_drop_snoc:
  assumes "0 < cap" "length xs = n"
  shows "drop (Suc (min n cap) - cap) (drop (n - cap) xs @ [y]) = drop (Suc n - cap) (xs @ [y])"
proof (cases "cap \<le> n")
  case True
  with assms have "drop 1 (drop (n - cap) xs @ [y]) = drop (Suc (n - cap)) xs @ [y]" by simp
  also have "\<dots> = drop (Suc n - cap) (xs @ [y])" using True assms by (simp add: Suc_diff_le)
  finally show ?thesis using True by simp
qed (use assms in simp)

lemma scored_run:
  assumes "0 < cap"
  shows "window_ok cap (foldl (\<lambda>w p. scored_window cap (fst p) (snd p) w) window_init ps) \<and>
    wi_entries (foldl (\<lambda>w p. scored_window cap (fst p) (snd p) w) window_init ps) =
      drop (length ps - cap) (map (\<lambda>p. (fst p, sort (remdups (snd p)))) ps)"
proof (induction ps rule: rev_induct)
  case Nil
  then show ?case by (simp add: window_ok_init) (simp add: window_init_def)
next
  case (snoc p ps)
  let ?w = "foldl (\<lambda>w p. scored_window cap (fst p) (snd p) w) window_init ps"
  let ?all = "map (\<lambda>p. (fst p, sort (remdups (snd p)))) ps"
  have e: "wi_entries ?w = drop (length ps - cap) ?all" using snoc by simp
  then have len: "length (wi_entries ?w) = min (length ps) cap" by simp
  have "wi_entries (scored_window cap (fst p) (snd p) ?w) =
      drop (Suc (length (wi_entries ?w)) - cap) (wi_entries ?w @ [(fst p, sort (remdups (snd p)))])"
    by (rule scored_entries [OF assms]) (simp add: len)
  also have "\<dots> = drop (Suc (min (length ps) cap) - cap) (drop (length ps - cap) ?all @ [(fst p, sort (remdups (snd p)))])"
    by (intro arg_cong2 [where f = "\<lambda>n xs. drop (Suc n - cap) (xs @ [(fst p, sort (remdups (snd p)))])"] len e)
  also have "\<dots> = drop (Suc (length ps) - cap) (?all @ [(fst p, sort (remdups (snd p)))])"
    by (rule drop_drop_snoc [OF assms]) simp
  finally show ?case
    using snoc window_ok_scored [of cap ?w "fst p" "snd p"] assms by simp
qed

text \<open>
  The rolling window is what its bookkeeping says. After any sequence of scored predictions the
  window holds exactly the last \<open>cap\<close> of them; its running mean is the average of their scores, and the models its
  reference counters name are exactly those that contributed to one of them, each once: the constant-time bookkeeping agrees with a
  recount from scratch, and a model that only evicted predictions used is never named.
\<close>

lemma window_bookkeeping_exact:
  assumes "0 < cap" "w = foldl (\<lambda>w p. scored_window cap (fst p) (snd p) w) window_init ps" "recent = drop (length ps - cap) ps"
  shows "length (wi_entries w) = min (length ps) cap \<and>
    window_mean w = (if ps = [] then 0 else sum_list (map fst recent) / real (length recent)) \<and>
    distinct (models_in_window w) \<and> set (models_in_window w) = (\<Union>p \<in> set recent. set (snd p))"
proof -
  have ok: "window_ok cap w" and entries: "wi_entries w = map (\<lambda>p. (fst p, sort (remdups (snd p)))) recent"
    using scored_run [OF assms(1), of ps] by (simp_all add: assms(2,3) drop_map)
  have mean: "window_mean w = (if ps = [] then 0 else sum_list (map fst recent) / real (length recent))"
  proof -
    have "wi_sum w = sum_list (map fst recent)" using ok by (simp add: window_ok_def entries o_def)
    moreover have "recent = [] \<longleftrightarrow> ps = []" using assms(1,3) by (cases ps) auto
    ultimately show ?thesis by (simp add: window_mean_def entries)
  qed
  have wf: "od_wf (wi_refs w)" "list_all (\<lambda>p. 0 < snd p) (wi_refs w)" using ok by (simp_all add: window_ok_def)
  have all: "filter (\<lambda>p. 0 < snd p) (wi_refs w) = wi_refs w" using wf(2) by (auto simp: list_all_iff intro: filter_True)
  have "m \<in> fst ` set (wi_refs w) \<longleftrightarrow> 0 < ref_count (wi_refs w) m" for m
    using wf by (intro refs_keys) (simp add: refs_ok_def)
  moreover have "0 < ref_count (wi_refs w) m \<longleftrightarrow> (\<exists>p \<in> set recent. m \<in> set (snd p))" for m
  proof -
    have "ref_count (wi_refs w) m = int (length (filter (\<lambda>e. m \<in> set (snd e)) (wi_entries w)))" using ok by (simp add: window_ok_def)
    then have "0 < ref_count (wi_refs w) m \<longleftrightarrow> filter (\<lambda>e. m \<in> set (snd e)) (wi_entries w) \<noteq> []" by simp
    also have "\<dots> \<longleftrightarrow> (\<exists>p \<in> set recent. m \<in> set (snd p))" by (auto simp: entries filter_empty_conv)
    finally show ?thesis .
  qed
  ultimately have "set (models_in_window w) = (\<Union>p \<in> set recent. set (snd p))"
    unfolding models_in_window_def all by auto
  moreover have "distinct (models_in_window w)"
    using wf(1) unfolding models_in_window_def all by (simp add: od_wf_def)
  ultimately show ?thesis using mean by (simp add: entries assms(3))
qed

section \<open>When retraining is asked for\<close>

definition requests_for :: "bucket \<Rightarrow> emission \<Rightarrow> bool" where
  "requests_for b e \<longleftrightarrow> em_topic e = drift_topic \<and> map_of (em_payload e) ''league_id'' = Some (fst b) \<and>
     map_of (em_payload e) ''market'' = Some (JStr (snd b))"

definition full_window :: "bucket \<Rightarrow> window \<Rightarrow> drift \<Rightarrow> bool" where
  "full_window b w s \<longleftrightarrow> map_of (dr_windows s) b = Some w \<and> dr_window_size s \<le> length (wi_entries w)"

definition recovered :: "bucket \<Rightarrow> drift \<Rightarrow> bool" where
  "recovered b s \<longleftrightarrow> (\<exists>w. full_window b w s \<and> window_mean w \<le> dr_floor s)"

lemma requests_for_unique: "requests_for b e \<Longrightarrow> requests_for c e \<Longrightarrow> b = c"
  by (cases b; cases c) (simp add: requests_for_def)

lemma retrain_request_for:
  "retrain_request t c b w x trace target = Inr e \<Longrightarrow> requests_for b e \<and> map_of (em_payload e) ''target'' = Some (JStr target)"
  by (auto simp: retrain_request_def res_iffs requests_for_def maint_event_as_dict_def maint_event_check_def)

lemma res_map_mem: "res_map f xs = Inr ys \<Longrightarrow> y \<in> set ys \<Longrightarrow> \<exists>x \<in> set xs. f x = Inr y"
  by (metis in_set_conv_nth res_map_length res_map_nth)

lemma emit_requests:
  "emit_retrain_requests t c b w x trace = Inr out \<Longrightarrow> e \<in> set out \<Longrightarrow>
    requests_for b e \<and> (\<exists>m \<in> set (models_in_window w). map_of (em_payload e) ''target'' = Some (JStr m))"
  unfolding emit_retrain_requests_def by (drule (1) res_map_mem) (auto dest!: retrain_request_for)

text \<open>What one step does to the tripped buckets, and the requests it makes.\<close>

definition request_ok :: "bucket \<Rightarrow> window \<Rightarrow> drift \<Rightarrow> emission \<Rightarrow> bool" where
  "request_ok b w s e \<longleftrightarrow> requests_for b e \<and> full_window b w s \<and> dr_floor s < window_mean w \<and>
     (\<exists>m \<in> set (models_in_window w). map_of (em_payload e) ''target'' = Some (JStr m))"

definition sound_step :: "bucket set \<Rightarrow> emission list res \<Rightarrow> drift \<Rightarrow> bool" where
  "sound_step before r s \<longleftrightarrow>
     (\<forall>c \<in> before - dr_tripped s. recovered c s) \<and>
     (case r of Inl e \<Rightarrow> True | Inr out \<Rightarrow> \<forall>e \<in> set out. \<exists>b w. b \<notin> before \<and> b \<in> dr_tripped s \<and> request_ok b w s e)"

lemma sound_step_quiet: "dr_tripped s = before \<Longrightarrow> r = Inr [] \<or> (\<exists>e. r = Inl e) \<Longrightarrow> sound_step before r s"
  by (auto simp: sound_step_def)

lemma trip_check_step:
  assumes "trip_check t trace b w s = (r, s')" "map_of (dr_windows s) b = Some w"
  shows "sound_step (dr_tripped s) r s'"
proof -
  consider (short) "length (wi_entries w) < dr_window_size s"
    | (breach) "dr_window_size s \<le> length (wi_entries w)" "dr_floor s < window_mean w" "b \<notin> dr_tripped s"
    | (healed) "dr_window_size s \<le> length (wi_entries w)" "window_mean w \<le> dr_floor s" "b \<in> dr_tripped s"
    | (same) "dr_window_size s \<le> length (wi_entries w)" "(dr_floor s < window_mean w) = (b \<in> dr_tripped s)"
    by linarith
  then show ?thesis
  proof cases
    case short
    with assms(1) have "r = Inr []" "s' = s" by (simp_all add: trip_check_def)
    then show ?thesis by (simp add: sound_step_quiet)
  next
    case breach
    show ?thesis
    proof (cases "emit_retrain_requests t (dr_floor s) b w (window_mean w) trace")
      case (Inl e)
      with assms breach have "r = Inl e" "s' = s" by (simp_all add: trip_check_def)
      then show ?thesis by (simp add: sound_step_quiet)
    next
      case (Inr out)
      with assms breach have rs: "r = Inr out" "s' = s\<lparr>dr_tripped := insert b (dr_tripped s)\<rparr>"
        by (simp_all add: trip_check_def)
      have "request_ok b w s' e" if "e \<in> set out" for e
        using emit_requests [OF Inr that] breach assms(2) by (simp add: rs(2) request_ok_def full_window_def)
      moreover have "b \<in> dr_tripped s'" "dr_tripped s - dr_tripped s' = {}" by (auto simp: rs(2))
      ultimately show ?thesis using breach(3) unfolding sound_step_def rs(1) sum.case by blast
    qed
  next
    case healed
    with assms(1) have rs: "r = Inr []" "s' = s\<lparr>dr_tripped := dr_tripped s - {b}\<rparr>" by (simp_all add: trip_check_def)
    have "recovered b s'" using healed assms(2) by (simp add: recovered_def full_window_def rs(2))
    moreover have "dr_tripped s - dr_tripped s' \<subseteq> {b}" by (auto simp: rs(2))
    ultimately show ?thesis by (auto simp: sound_step_def rs(1) simp del: split_paired_All split_paired_Ex)
  next
    case same
    with assms(1) have "r = Inr []" "s' = s" by (auto simp: trip_check_def)
    then show ?thesis by (simp add: sound_step_quiet)
  qed
qed

lemma drift_approved_quiet:
  "drift_approved L msg s = (r, s') \<Longrightarrow> dr_tripped s' = dr_tripped s \<and> (r = Inr [] \<or> (\<exists>e. r = Inl e))"
  by (auto simp: drift_approved_def Let_def split: sum.splits option.splits if_splits)

lemma drift_outcome_sound:
  assumes h: "drift_outcome L t msg s = (r, s')"
  shows "sound_step (dr_tripped s) r s'"
proof (cases "match_outcome_from_dict L (msg_payload msg)")
  case (Inl e)
  with h show ?thesis by (auto simp: drift_outcome_def sound_step_quiet split: if_splits)
next
  case (Inr oc)
  let ?key = "(mo_match_id oc, ''1x2'')"
  show ?thesis
  proof (cases "map_of (dr_pending s) ?key")
    case None
    with h Inr show ?thesis by (auto simp: drift_outcome_def Let_def sound_step_quiet)
  next
    case (Some p)
    show ?thesis
    proof (cases "map_of (dr_settled s) ?key = None \<and> hashable (dp_league_id p)")
      case False
      with h Inr Some show ?thesis by (auto simp: drift_outcome_def Let_def sound_step_quiet split: if_splits)
    next
      case True
      let ?b = "(dp_league_id p, dp_market p)"
      obtain w s2 trace where "trip_check t trace ?b w s2 = (r, s')" "map_of (dr_windows s2) ?b = Some w" "dr_tripped s2 = dr_tripped s"
      proof
        show "trip_check t (en_trace_id (msg_envelope msg)) ?b
            (scored_window (dr_window_size s) (brier_score (dp_outcomes p) (mo_outcome_1x2 oc)) (dp_models p)
              (case map_of (dr_windows s) ?b of None \<Rightarrow> window_init | Some w \<Rightarrow> w))
            (s\<lparr>dr_pending := od_del ?key (dr_pending s),
               dr_settled := (let settled = od_set ?key () (dr_settled s) in
                 if dr_max_settled s < length settled then tl settled else settled),
               dr_windows := od_set ?b (scored_window (dr_window_size s) (brier_score (dp_outcomes p) (mo_outcome_1x2 oc)) (dp_models p)
                 (case map_of (dr_windows s) ?b of None \<Rightarrow> window_init | Some w \<Rightarrow> w)) (dr_windows s)\<rparr>) = (r, s')"
          using h Inr Some True by (simp add: drift_outcome_def Let_def)
      qed (simp_all add: od_simps)
      then show ?thesis using trip_check_step by metis
    qed
  qed
qed

lemma drift_step:
  assumes "drift_handle L t msg s = (r, s')"
  shows "sound_step (dr_tripped s) r s'"
  using assms drift_approved_quiet [of L msg s r s'] drift_outcome_sound [of L t msg s r s']
  by (auto simp: drift_handle_def Let_def sound_step_quiet split: if_splits)

definition drift_after :: "pylib \<Rightarrow> drift \<Rightarrow> (string \<times> message) list \<Rightarrow> drift" where
  "drift_after L s ins = foldl (\<lambda>s i. snd (drift_handle L (fst i) (snd i) s)) s ins"

lemma untripped_recovered:
  assumes "b \<in> dr_tripped s" "b \<notin> dr_tripped (drift_after L s ins)"
  shows "\<exists>earlier later. ins = earlier @ later \<and> earlier \<noteq> [] \<and> recovered b (drift_after L s earlier)"
  using assms(2)
proof (induction ins rule: rev_induct)
  case Nil
  with assms(1) show ?case by (simp add: drift_after_def)
next
  case (snoc i ins)
  show ?case
  proof (cases "b \<in> dr_tripped (drift_after L s ins)")
    case True
    obtain r s' where h: "drift_handle L (fst i) (snd i) (drift_after L s ins) = (r, s')" by force
    then have s': "drift_after L s (ins @ [i]) = s'" by (simp add: drift_after_def)
    with drift_step [OF h] True snoc.prems have "recovered b s'" unfolding sound_step_def by blast
    with s' show ?thesis by (intro exI [of _ "ins @ [i]"] exI [of _ "[]"]) simp
  next
    case False
    from snoc.IH [OF False] show ?thesis by force
  qed
qed

text \<open>
  One alarm per breach. Every retraining request is made by a full window whose mean Brier score is above the
  ceiling and names a model of that window; and after a request for a league and market, over any
  sequence of approvals and outcomes, no other one follows for them unless their full window has been at or below the
  ceiling in between.
\<close>

lemma drift_asks_once:
  assumes "drift_handle L t1 m1 s = (Inr out1, s1)" "e1 \<in> set out1" "requests_for b e1"
    and "drift_handle L t2 m2 (drift_after L s1 ins) = (Inr out2, s2)" "e2 \<in> set out2" "requests_for b e2"
  shows "(\<exists>w. request_ok b w s1 e1) \<and>
    (\<exists>earlier later. ins = earlier @ later \<and> earlier \<noteq> [] \<and> recovered b (drift_after L s1 earlier))"
proof -
  from drift_step [OF assms(1)] assms(2) obtain b1 w1 where 1: "b1 \<in> dr_tripped s1" "request_ok b1 w1 s1 e1"
    unfolding sound_step_def sum.case by blast
  from drift_step [OF assms(4)] assms(5) obtain b2 w2 where 2: "b2 \<notin> dr_tripped (drift_after L s1 ins)" "request_ok b2 w2 s2 e2"
    unfolding sound_step_def sum.case by blast
  from 1(2) 2(2) have "requests_for b1 e1" "requests_for b2 e2" by (simp_all add: request_ok_def)
  with assms(3,6) have "b1 = b" "b2 = b" by (blast intro: requests_for_unique)+
  with 1 2 untripped_recovered [of b s1 L ins] show ?thesis by blast
qed

text \<open>Three settled matches over a window of one: a breach, a recovery, a second breach.\<close>

definition settled_outcome :: "string \<Rightarrow> match_outcome" where
  "settled_outcome m = \<lparr>mo_match_id = m, mo_stable_id = ''s1'', mo_source = ''tff'', mo_final_home = 2, mo_final_away = 1,
     mo_outcome_1x2 = ''H'', mo_settled_at = ''t'', mo_league_id = JNull, mo_competition_id = JNull,
     mo_outcome_ou_2_5 = JNull, mo_outcome_btts = JNull, mo_record_id = None\<rparr>"

definition outcome_message :: "string \<Rightarrow> message" where
  "outcome_message m = message_new \<lparr>fr_message_id = ''i'', fr_trace_id = ''t'', fr_now = ''n''\<rparr> match_outcome_topic
     (match_outcome_as_dict (settled_outcome m)) ''storage.v1'' None"

lemma outcome_message_decodes: "match_outcome_from_dict L (msg_payload (outcome_message m)) = Inr (settled_outcome m)"
  by (simp add: outcome_message_def message_new_def match_outcome_wire match_outcome_check_def settled_outcome_def)

lemma outcome_message_topic: "en_topic (msg_envelope (outcome_message m)) = match_outcome_topic"
  by (simp add: outcome_message_def message_new_def)

definition example_waiting :: "string \<Rightarrow> real \<Rightarrow> drift_pending" where
  "example_waiting m p = \<lparr>dp_prediction_id = ''p1'', dp_match_id = m, dp_market = ''1x2'', dp_league_id = JNull,
     dp_outcomes = [(''H'', p), (''D'', 0), (''A'', 1 - p)], dp_models = [''elo'']\<rparr>"

definition example_drift :: drift where
  "example_drift = \<lparr>dr_window_size = 1, dr_floor = 1 / 2, dr_max_pending = 9, dr_max_settled = 9,
     dr_pending = [((''m1'', ''1x2''), example_waiting ''m1'' 0), ((''m2'', ''1x2''), example_waiting ''m2'' 1),
       ((''m3'', ''1x2''), example_waiting ''m3'' 0)],
     dr_windows = [], dr_settled = [], dr_tripped = {}\<rparr>"

lemmas example_drift_defs =
  example_drift_def example_waiting_def drift_handle_def outcome_message_topic outcome_message_decodes match_outcome_topic_def
  drift_outcome_def Let_def brier_score_def scored_window_def window_append_def window_popleft_def window_init_def
  window_mean_def trip_check_def emit_retrain_requests_def models_in_window_def ref_inc_def ref_dec_def ref_count_def
  od_del_def

lemma settled_outcome_fields: "mo_match_id (settled_outcome m) = m" "mo_outcome_1x2 (settled_outcome m) = ''H''"
  by (simp_all add: settled_outcome_def)

lemma example_retrain_request:
  "\<exists>f. \<forall>w trace. retrain_request ''t'' (1 / 2) (JNull, ''1x2'') w 2 trace ''elo'' = Inr (f w trace) \<and>
     requests_for (JNull, ''1x2'') (f w trace)"
  by (rule exI [of _ "\<lambda>w trace. projr (retrain_request ''t'' (1 / 2) (JNull, ''1x2'') w 2 trace ''elo'')"])
    (simp add: retrain_request_def requests_for_def maint_event_check_def maint_event_as_dict_def drift_topic_def require_def
      allowed_drift_reasons_def allowed_maint_kinds_def)

section \<open>Predictions asked for by the live reactor\<close>

lemma live_request_match:
  assumes "live_predictor_react printed ev m0 u = (Inr reqs, w)" "e \<in> set reqs" "predict_request_from_dict L (em_payload e) = Inr q"
  shows "rq_match_id q = fe_stable_id ev"
proof -
  obtain ps where ps: "res_map (\<lambda>m. predict_request_check (live_request (printed m) ev m)) (plane_markets (fe_plane ev)) = Inr ps"
      "reqs = map (request_emission m0) ps"
    using assms(1) by (auto simp: live_predictor_react_def res_iffs)
  with assms(2) obtain r where r: "r \<in> set ps" "e = request_emission m0 r" by auto
  from res_map_mem [OF ps(1) r(1)] obtain m where "predict_request_check (live_request (printed m) ev m) = Inr r" by blast
  then have "predict_request_check r = Inr r" "rq_match_id r = fe_stable_id ev"
    by (auto simp: predict_request_check_def res_iffs live_request_def split: if_splits)
  with r(2) assms(3) show ?thesis by (simp add: request_emission_def predict_request_wire)
qed

lemma trip_check_pending: "dr_pending (snd (trip_check t trace b w s)) = dr_pending s"
  by (auto simp: trip_check_def Let_def split: sum.splits)

lemma other_outcome_keeps_pending:
  assumes "match_outcome_from_dict L (msg_payload msg) = Inr oc" "en_topic (msg_envelope msg) = match_outcome_topic" "mo_match_id oc \<noteq> m"
  shows "map_of (dr_pending (snd (drift_handle L t msg s))) (m, k) = map_of (dr_pending s) (m, k)"
  using assms by (auto simp: drift_handle_def match_outcome_topic_def drift_outcome_def Let_def trip_check_pending od_simps split: option.splits)

lemma storage_outcome_match:
  assumes "storage_handle L env msg s = (Inr out, s')" "normalized_record_from_dict L (msg_payload msg) = Inr rec"
    and "o1 \<in> set out" "em_topic o1 = match_outcome_topic"
  shows "\<exists>oc. match_outcome_from_dict M (em_payload o1) = Inr oc \<and> mo_match_id oc = nr_source_match_id rec \<and> mo_stable_id oc = nr_stable_id rec"
proof -
  obtain oc st where u: "upsert rec s = (oc, st)" by force
  with assms obtain mo where mo: "maybe_match_outcome L rec (so_record_id oc) (se_now env) = Inr (Some mo)" "em_payload o1 = match_outcome_as_dict mo"
    by (auto simp: storage_handle_def Let_def res_iffs storage_emission_def match_stored_topic_def match_outcome_topic_def freshness_events_def split: if_splits option.splits)
  moreover have "mo_match_id mo = nr_source_match_id rec \<and> mo_stable_id mo = nr_stable_id rec"
    using mo(1) by (auto simp: maybe_match_outcome_def res_iffs match_outcome_check_def Let_def split: if_splits prod.splits sum.splits)
  ultimately show ?thesis using maybe_match_outcome_Some(1) [OF mo(1)] by (simp add: match_outcome_wire)
qed

text \<open>
  The accuracy of a live prediction is never measured. The live reactor asks with the stable id of the
  freshness event as the match id and the approved prediction keeps it; the outcome that the storage agent announces for the same
  match carries the source's match id. Where the two differ, the outcome leaves the approved prediction waiting, and
  the drift agent does nothing at all unless something waits under the source's id.
\<close>

lemma live_predictions_never_settle:
  assumes "live_predictor_react printed ev m0 () = (Inr reqs, w)" "e \<in> set reqs" "predict_request_from_dict L (em_payload e) = Inr q"
    and "drift_approved L am s = (Inr [], s1)" "approved_from_dict L (msg_payload am) = Inr a" "approval_record L a = Inr (Some p)"
    and "ap_match_id a = rq_match_id q"
    and "normalized_record_from_dict L (msg_payload rm) = Inr rec" "nr_stable_id rec = fe_stable_id ev" "nr_source_match_id rec \<noteq> nr_stable_id rec"
    and "storage_handle L env rm store = (Inr out, store')" "o1 \<in> set out" "em_topic o1 = match_outcome_topic"
    and "msg_payload om = em_payload o1" "en_topic (msg_envelope om) = match_outcome_topic"
  shows "map_of (dr_pending (snd (drift_handle L t om s1))) (ap_match_id a, ap_market a) = Some p \<and>
    (map_of (dr_pending s1) (nr_source_match_id rec, ''1x2'') = None \<longrightarrow> drift_handle L t om s1 = (Inr [], s1))"
proof -
  obtain oc where oc: "match_outcome_from_dict L (msg_payload om) = Inr oc" "mo_match_id oc = nr_source_match_id rec"
    using storage_outcome_match [OF assms(11,8,12,13)] assms(14) by metis
  have "map_of (dr_pending s1) (ap_match_id a, ap_market a) = Some p"
    using assms(4-6) by (auto simp: drift_approved_def Let_def od_simps)
  moreover have "rq_match_id q = fe_stable_id ev"
    using assms(1-3) live_request_match by blast
  ultimately show ?thesis
    using other_outcome_keeps_pending [OF oc(1) assms(15), of "ap_match_id a" t s1] assms(7,9,10,15) oc
    by (auto simp: drift_handle_def match_outcome_topic_def drift_outcome_def)
qed

end
