(* ===== verification/Fair_Queue.thy ===== *)
theory Fair_Queue
  imports Wire_Ops
begin

text \<open>
  The intake queue of \<open>nlp/intake_fair_queue.py\<close>: one queue per tenant, account or address, served
  round-robin with a cap on what each key has in flight, and a watch on each key's arrival rate. The callbacks
  are taken as configured; what they are told is the list of \<open>intake_event\<close>s of an enqueue. The lock is not modelled.
\<close>

section \<open>The queue\<close>

record 'a fair_queue =
  fq_fairness_key :: string
  fq_inflight_max :: int
  fq_max_tracked :: int
  fq_qps_threshold :: real
  fq_abuse_window :: int
  fq_queues :: "(string, 'a list) odict"
  fq_rr :: "string list"
  fq_inflight :: "(string, int) odict"
  fq_tracked :: "(string, unit) odict"
  fq_intake :: "(string, real list) odict"
  fq_last_alert :: "(string, real) odict"

datatype intake_event = KeyEvicted string | IntakeRate string real | AbuseDetected string real

definition allowed_fairness_keys :: "string list" where
  "allowed_fairness_keys = [''tenant_id'', ''account_id'', ''ip_bucket'']"

definition abuse_alert_debounce :: real where
  "abuse_alert_debounce = 300"

definition fair_queue_init :: "string \<Rightarrow> int \<Rightarrow> int \<Rightarrow> real \<Rightarrow> int \<Rightarrow> 'a fair_queue res" where
  "fair_queue_init fairness_key inflight_max max_tracked qps_threshold abuse_window =
     require (fairness_key \<in> set allowed_fairness_keys) (
     require (1 \<le> inflight_max) (
     require (1 \<le> max_tracked) (
     require (0 < qps_threshold) (
     require (1 \<le> abuse_window) (
     Inr \<lparr>fq_fairness_key = fairness_key, fq_inflight_max = inflight_max, fq_max_tracked = max_tracked,
          fq_qps_threshold = qps_threshold, fq_abuse_window = abuse_window,
          fq_queues = [], fq_rr = [], fq_inflight = [], fq_tracked = [], fq_intake = [], fq_last_alert = []\<rparr>)))))"

definition attr_text :: "pylib \<Rightarrow> jobj \<Rightarrow> string \<Rightarrow> string" where
  "attr_text L attrs k = (let v = jget_or attrs k JNull in if v = JNull then [] else py_strip (py_str L v))"

definition text_or :: "string \<Rightarrow> string \<Rightarrow> string" where
  "text_or s t = (if s \<noteq> [] then s else t)"

definition resolve_key :: "pylib \<Rightarrow> string \<Rightarrow> jobj \<Rightarrow> string" where
  "resolve_key L fairness_key attrs =
     (let tenant_id = attr_text L attrs ''tenant_id''; account_id = attr_text L attrs ''account_id'';
          ip_bucket = text_or (attr_text L attrs ''ip_bucket'') ''ip:unknown'' in
      if fairness_key = ''tenant_id'' then text_or tenant_id (text_or account_id ip_bucket)
      else if fairness_key = ''account_id'' then text_or account_id ip_bucket
      else ip_bucket)"

definition resolve_key_class :: "pylib \<Rightarrow> jobj \<Rightarrow> string" where
  "resolve_key_class L attrs =
     (let text = \<lambda>k. (let v = jget_or attrs k JNull in py_strip (if py_bool v then py_str L v else [])) in
      if text ''account_id'' \<noteq> [] then
        (if py_bool (jget_or attrs ''is_paid'' JNull) \<or>
            py_lower (text ''account_tier'') \<in> {''paid'', ''pro'', ''premium'', ''enterprise''}
         then ''account_paid'' else ''account_free'')
      else if py_bool (jget_or attrs ''ip_known_proxy'' JNull) then ''ip_known_proxy''
      else ''ip_anonymous'')"

definition track_key :: "string \<Rightarrow> 'a fair_queue \<Rightarrow> intake_event list \<times> 'a fair_queue" where
  "track_key key q =
     (if map_of (fq_tracked q) key \<noteq> None then ([], q\<lparr>fq_tracked := od_touch key (fq_tracked q)\<rparr>)
      else
        let tracked = od_set key () (fq_tracked q) in
        if fq_max_tracked q < int (length tracked) then
          ([KeyEvicted (fst (hd tracked))],
           q\<lparr>fq_tracked := tl tracked, fq_intake := od_del (fst (hd tracked)) (fq_intake q)\<rparr>)
        else ([], q\<lparr>fq_tracked := tracked\<rparr>))"

definition queue_of :: "string \<Rightarrow> 'a fair_queue \<Rightarrow> 'a list" where
  "queue_of key q = (case map_of (fq_queues q) key of None \<Rightarrow> [] | Some xs \<Rightarrow> xs)"

definition push_item :: "string \<Rightarrow> 'a \<Rightarrow> 'a fair_queue \<Rightarrow> 'a fair_queue" where
  "push_item key item q =
     q\<lparr>fq_queues := od_set key (queue_of key q @ [item]) (fq_queues q),
       fq_rr := (if queue_of key q = [] then fq_rr q @ [key] else fq_rr q)\<rparr>"

text \<open>The stamps of a key after a request at \<open>now\<close>, and whether they amount to an alert.\<close>

definition intake_stamps :: "string \<Rightarrow> real \<Rightarrow> 'a fair_queue \<Rightarrow> real list" where
  "intake_stamps key now q =
     dropWhile (\<lambda>t. t < now - real_of_int (fq_abuse_window q))
       ((case map_of (fq_intake q) key of None \<Rightarrow> [] | Some ts \<Rightarrow> ts) @ [now])"

definition observed_qps :: "real list \<Rightarrow> 'a fair_queue \<Rightarrow> real" where
  "observed_qps stamps q = real (length stamps) / real_of_int (fq_abuse_window q)"

definition abuse_alert_due :: "string \<Rightarrow> real \<Rightarrow> real list \<Rightarrow> 'a fair_queue \<Rightarrow> bool" where
  "abuse_alert_due key_class now stamps q \<longleftrightarrow>
     stamps \<noteq> [] \<and> real_of_int (fq_abuse_window q) \<le> now - hd stamps \<and> fq_qps_threshold q < observed_qps stamps q \<and>
     (case map_of (fq_last_alert q) key_class of None \<Rightarrow> True | Some last_emit \<Rightarrow> abuse_alert_debounce \<le> now - last_emit)"

definition enqueue :: "pylib \<Rightarrow> string list \<Rightarrow> real \<Rightarrow> 'a \<Rightarrow> jobj \<Rightarrow> 'a fair_queue \<Rightarrow> string \<times> intake_event list \<times> 'a fair_queue" where
  "enqueue L tenant_classes now item attrs q =
     (let key = resolve_key L (fq_fairness_key q) attrs;
          key_class = resolve_key_class L attrs;
          (evicted, q1) = track_key key q;
          q2 = push_item key item q1;
          stamps = intake_stamps key now q2;
          q3 = q2\<lparr>fq_intake := od_set key stamps (fq_intake q2)\<rparr>;
          qps = observed_qps stamps q3;
          alert = abuse_alert_due key_class now stamps q3;
          q4 = (if alert then q3\<lparr>fq_last_alert := od_set key_class now (fq_last_alert q3)\<rparr> else q3) in
      (key, evicted @ (if key_class \<in> set tenant_classes then [IntakeRate key_class qps] else [])
        @ (if alert then [AbuseDetected key_class qps] else []), q4))"

definition inflight_for :: "string \<Rightarrow> 'a fair_queue \<Rightarrow> int" where
  "inflight_for key q = (case map_of (fq_inflight q) key of None \<Rightarrow> 0 | Some n \<Rightarrow> n)"

text \<open>The rotations of \<open>dequeue\<close>: at most one look at each key that was waiting when the call began.\<close>

fun rotate_keys :: "nat \<Rightarrow> 'a fair_queue \<Rightarrow> (string \<times> 'a) option res \<times> 'a fair_queue" where
  "rotate_keys 0 q = (Inr None, q)"
| "rotate_keys (Suc n) q =
     (case fq_rr q of
        [] \<Rightarrow> (Inl IndexError, q)
      | key # rr \<Rightarrow>
          (case queue_of key q of
             [] \<Rightarrow> rotate_keys n (q\<lparr>fq_rr := rr\<rparr>)
           | item # rest \<Rightarrow>
               if fq_inflight_max q \<le> inflight_for key q then rotate_keys n (q\<lparr>fq_rr := rr @ [key]\<rparr>)
               else (Inr (Some (key, item)),
                 q\<lparr>fq_rr := (if rest = [] then rr else rr @ [key]), fq_queues := od_set key rest (fq_queues q),
                   fq_inflight := od_set key (inflight_for key q + 1) (fq_inflight q)\<rparr>)))"

definition dequeue :: "'a fair_queue \<Rightarrow> (string \<times> 'a) option res \<times> 'a fair_queue" where
  "dequeue q = (if fq_rr q = [] then (Inr None, q) else rotate_keys (length (fq_rr q)) q)"

definition complete_key :: "string \<Rightarrow> 'a fair_queue \<Rightarrow> 'a fair_queue" where
  "complete_key key q =
     (if 0 < inflight_for key q then q\<lparr>fq_inflight := od_set key (inflight_for key q - 1) (fq_inflight q)\<rparr> else q)"

definition pending_for :: "string \<Rightarrow> 'a fair_queue \<Rightarrow> nat" where
  "pending_for key q = length (queue_of key q)"

definition tracked_key_count :: "'a fair_queue \<Rightarrow> nat" where
  "tracked_key_count q = length (fq_tracked q)"

section \<open>Runs\<close>

datatype 'a intake_op = Enqueue real 'a jobj | Dequeue | Complete string

fun intake_step :: "pylib \<Rightarrow> string list \<Rightarrow> 'a fair_queue \<Rightarrow> 'a intake_op \<Rightarrow> (string \<times> 'a) list \<times> intake_event list \<times> 'a fair_queue" where
  "intake_step L classes q (Enqueue now item attrs) = (let (_, evs, q') = enqueue L classes now item attrs q in ([], evs, q'))"
| "intake_step L classes q Dequeue =
     (case dequeue q of (Inr (Some d), q') \<Rightarrow> ([d], [], q') | (_, q') \<Rightarrow> ([], [], q'))"
| "intake_step L classes q (Complete key) = ([], [], complete_key key q)"

fun intake_run :: "pylib \<Rightarrow> string list \<Rightarrow> 'a fair_queue \<Rightarrow> 'a intake_op list \<Rightarrow> (string \<times> 'a) list \<times> intake_event list \<times> 'a fair_queue" where
  "intake_run L classes q [] = ([], [], q)"
| "intake_run L classes q (op1 # ops) =
     (let (out1, evs1, q1) = intake_step L classes q op1; (out2, evs2, q2) = intake_run L classes q1 ops in
      (out1 @ out2, evs1 @ evs2, q2))"

definition queue_ok :: "'a fair_queue \<Rightarrow> bool" where
  "queue_ok q \<longleftrightarrow> distinct (fq_rr q) \<and> (\<forall>k. k \<in> set (fq_rr q) \<longleftrightarrow> queue_of k q \<noteq> []) \<and>
     1 \<le> fq_inflight_max q \<and> 1 \<le> fq_abuse_window q \<and> (\<forall>k. 0 \<le> inflight_for k q \<and> inflight_for k q \<le> fq_inflight_max q)"

definition at_cap :: "string \<Rightarrow> 'a fair_queue \<Rightarrow> bool" where
  "at_cap k q \<longleftrightarrow> fq_inflight_max q \<le> inflight_for k q"

lemma queue_of_cong [simp]:
  "queue_of k (q\<lparr>fq_rr := rr\<rparr>) = queue_of k q" "inflight_for k (q\<lparr>fq_rr := rr\<rparr>) = inflight_for k q"
  "at_cap k (q\<lparr>fq_rr := rr\<rparr>) = at_cap k q"
  "queue_of k (q\<lparr>fq_intake := t\<rparr>) = queue_of k q" "inflight_for k (q\<lparr>fq_intake := t\<rparr>) = inflight_for k q"
  "queue_of k (q\<lparr>fq_last_alert := a\<rparr>) = queue_of k q" "inflight_for k (q\<lparr>fq_last_alert := a\<rparr>) = inflight_for k q"
  by (simp_all add: queue_of_def inflight_for_def at_cap_def)

lemma fair_queue_init_ok:
  assumes "fair_queue_init fk m t th w = Inr q"
  shows "queue_ok q" "queue_of k q = []" "fq_rr q = []" "fq_fairness_key q = fk" "fq_intake q = []" "fq_abuse_window q = w"
  using assms by (auto simp: fair_queue_init_def res_iffs queue_ok_def queue_of_def inflight_for_def)

section \<open>One dequeue\<close>

lemma rotate_blocked:
  "fq_rr q = pre @ post \<Longrightarrow> \<forall>k \<in> set pre. queue_of k q \<noteq> [] \<and> at_cap k q \<Longrightarrow>
     rotate_keys (length pre + n) q = rotate_keys n (q\<lparr>fq_rr := post @ pre\<rparr>)"
proof (induction pre arbitrary: q post)
  case Nil
  then show ?case by (cases q) simp
next
  case (Cons k pre)
  have "rotate_keys (length (k # pre) + n) q = rotate_keys (length pre + n) (q\<lparr>fq_rr := (pre @ post) @ [k]\<rparr>)"
    using Cons.prems by (auto simp: at_cap_def neq_Nil_conv)
  also have "\<dots> = rotate_keys n (q\<lparr>fq_rr := (post @ [k]) @ pre\<rparr>)"
    using Cons.prems Cons.IH [of "q\<lparr>fq_rr := (pre @ post) @ [k]\<rparr>" "post @ [k]"] by simp
  finally show ?case by simp
qed

text \<open>The state after key \<open>k\<close> was served: keys that were passed over go behind those not yet looked at.\<close>

definition served_state :: "string \<Rightarrow> string list \<Rightarrow> string list \<Rightarrow> 'a fair_queue \<Rightarrow> 'a fair_queue" where
  "served_state k pre post q =
     q\<lparr>fq_rr := post @ pre @ (if tl (queue_of k q) = [] then [] else [k]),
       fq_queues := od_set k (tl (queue_of k q)) (fq_queues q),
       fq_inflight := od_set k (inflight_for k q + 1) (fq_inflight q)\<rparr>"

lemma dequeue_cases:
  assumes ok: "queue_ok q"
  obtains (idle) "\<forall>k \<in> set (fq_rr q). at_cap k q" "dequeue q = (Inr None, q)"
    | (serve) k pre post where "fq_rr q = pre @ k # post" "\<forall>j \<in> set pre. at_cap j q" "\<not> at_cap k q" "queue_of k q \<noteq> []"
        "dequeue q = (Inr (Some (k, hd (queue_of k q))), served_state k pre post q)"
proof (cases "\<forall>k \<in> set (fq_rr q). at_cap k q")
  case True
  then have "\<forall>k \<in> set (fq_rr q). queue_of k q \<noteq> [] \<and> at_cap k q" using ok by (simp add: queue_ok_def)
  with rotate_blocked [of q "fq_rr q" "[]" 0] have "dequeue q = (Inr None, q)" by (simp add: dequeue_def)
  with True idle show ?thesis by blast
next
  case False
  then obtain pre k post where split: "fq_rr q = pre @ k # post" "\<not> at_cap k q" "\<forall>j \<in> set pre. at_cap j q"
    using split_list_first_propE [of "fq_rr q" "\<lambda>k. \<not> at_cap k q"] by (metis (no_types, lifting))
  then have ne: "\<forall>j \<in> set pre. queue_of j q \<noteq> [] \<and> at_cap j q" "queue_of k q \<noteq> []"
    using ok by (auto simp: queue_ok_def)
  have "dequeue q = rotate_keys (length pre + Suc (length post)) q" by (simp add: dequeue_def split(1))
  also have "\<dots> = rotate_keys (Suc (length post)) (q\<lparr>fq_rr := (k # post) @ pre\<rparr>)" by (rule rotate_blocked [OF split(1) ne(1)])
  also have "\<dots> = (Inr (Some (k, hd (queue_of k q))), served_state k pre post q)"
    using split(2) ne(2) by (auto simp: at_cap_def served_state_def neq_Nil_conv)
  finally show ?thesis using serve split ne by blast
qed

lemma served_state_fields:
  "queue_of j (served_state k pre post q) = (if j = k then tl (queue_of k q) else queue_of j q)"
  "inflight_for j (served_state k pre post q) = (if j = k then inflight_for k q + 1 else inflight_for j q)"
  "fq_inflight_max (served_state k pre post q) = fq_inflight_max q" "fq_intake (served_state k pre post q) = fq_intake q"
  "fq_abuse_window (served_state k pre post q) = fq_abuse_window q" "fq_fairness_key (served_state k pre post q) = fq_fairness_key q"
  by (auto simp: served_state_def queue_of_def inflight_for_def od_simps)

lemma served_state_ok:
  assumes "queue_ok q" "fq_rr q = pre @ k # post" "\<not> at_cap k q"
  shows "queue_ok (served_state k pre post q)"
proof -
  have rr: "fq_rr (served_state k pre post q) = post @ pre @ (if tl (queue_of k q) = [] then [] else [k])"
    by (simp add: served_state_def)
  have "distinct (pre @ k # post)" "\<forall>j. j \<in> set (pre @ k # post) \<longleftrightarrow> queue_of j q \<noteq> []"
    using assms(1,2) by (simp_all add: queue_ok_def)
  moreover from this have "distinct (fq_rr (served_state k pre post q))" unfolding rr by auto
  moreover have "j \<in> set (fq_rr (served_state k pre post q)) \<longleftrightarrow> queue_of j (served_state k pre post q) \<noteq> []" for j
    using calculation unfolding rr served_state_fields by (cases "j = k") auto
  ultimately show ?thesis
    using assms(1,3) by (auto simp: queue_ok_def served_state_fields at_cap_def)
qed

section \<open>Every step\<close>

lemma track_key_fields:
  assumes "track_key key q = (evs, q')"
  shows "queue_of k q' = queue_of k q" "inflight_for k q' = inflight_for k q" "fq_rr q' = fq_rr q" "fq_inflight_max q' = fq_inflight_max q"
    "fq_fairness_key q' = fq_fairness_key q" "fq_abuse_window q' = fq_abuse_window q" "fq_last_alert q' = fq_last_alert q"
    "map_of (fq_intake q') k = Some ts \<Longrightarrow> map_of (fq_intake q) k = Some ts" "AbuseDetected c r \<notin> set evs"
  using assms by (auto simp: track_key_def queue_of_def inflight_for_def Let_def od_simps split: if_splits)

lemma push_item_fields:
  "queue_of k (push_item key item q) = (if k = key then queue_of key q @ [item] else queue_of k q)"
  "inflight_for k (push_item key item q) = inflight_for k q" "fq_intake (push_item key item q) = fq_intake q"
  "fq_rr (push_item key item q) = (if queue_of key q = [] then fq_rr q @ [key] else fq_rr q)"
  "fq_inflight_max (push_item key item q) = fq_inflight_max q" "fq_fairness_key (push_item key item q) = fq_fairness_key q"
  "fq_abuse_window (push_item key item q) = fq_abuse_window q" "fq_last_alert (push_item key item q) = fq_last_alert q"
  by (auto simp: push_item_def queue_of_def inflight_for_def od_simps)

lemma enqueue_fields:
  assumes "enqueue L classes now item attrs q = (key, evs, q')"
  shows "key = resolve_key L (fq_fairness_key q) attrs"
    "queue_of k q' = (if k = key then queue_of key q @ [item] else queue_of k q)" "inflight_for k q' = inflight_for k q"
    "fq_rr q' = (if queue_of key q = [] then fq_rr q @ [key] else fq_rr q)" "fq_inflight_max q' = fq_inflight_max q"
    "fq_fairness_key q' = fq_fairness_key q" "fq_abuse_window q' = fq_abuse_window q"
proof -
  obtain evicted q1 where t: "track_key (resolve_key L (fq_fairness_key q) attrs) q = (evicted, q1)" by force
  note f = track_key_fields [OF t] push_item_fields
  show "key = resolve_key L (fq_fairness_key q) attrs"
    "queue_of k q' = (if k = key then queue_of key q @ [item] else queue_of k q)" "inflight_for k q' = inflight_for k q"
    "fq_rr q' = (if queue_of key q = [] then fq_rr q @ [key] else fq_rr q)" "fq_inflight_max q' = fq_inflight_max q"
    "fq_fairness_key q' = fq_fairness_key q" "fq_abuse_window q' = fq_abuse_window q"
    using assms by (auto simp: enqueue_def Let_def t f split: if_splits)
qed

lemma enqueue_ok:
  assumes "queue_ok q" "enqueue L classes now item attrs q = (key, evs, q')"
  shows "queue_ok q'"
  using assms(1) by (auto simp: queue_ok_def enqueue_fields [OF assms(2)])

lemma complete_key_fields:
  "queue_of k (complete_key key q) = queue_of k q" "fq_rr (complete_key key q) = fq_rr q" "fq_inflight_max (complete_key key q) = fq_inflight_max q"
  "fq_intake (complete_key key q) = fq_intake q" "fq_abuse_window (complete_key key q) = fq_abuse_window q"
  "fq_fairness_key (complete_key key q) = fq_fairness_key q"
  "inflight_for k (complete_key key q) = (if k = key \<and> 0 < inflight_for k q then inflight_for k q - 1 else inflight_for k q)"
  by (auto simp: complete_key_def queue_of_def inflight_for_def od_simps)

lemma complete_key_ok: "queue_ok q \<Longrightarrow> queue_ok (complete_key key q)"
  by (simp add: queue_ok_def complete_key_fields) (smt (verit))

lemma intake_step_ok:
  assumes "queue_ok q"
  shows "queue_ok (snd (snd (intake_step L classes q op1)))"
proof (cases op1)
  case (Enqueue now item attrs)
  obtain key evs q' where "enqueue L classes now item attrs q = (key, evs, q')" by (metis prod_cases3)
  then show ?thesis using enqueue_ok [OF assms] by (simp add: Enqueue)
next
  case Dequeue
  show ?thesis
  proof (rule dequeue_cases [OF assms])
    assume "dequeue q = (Inr None, q)"
    then show ?thesis using assms by (simp add: Dequeue)
  next
    fix k pre post
    assume "fq_rr q = pre @ k # post" "\<not> at_cap k q" "dequeue q = (Inr (Some (k, hd (queue_of k q))), served_state k pre post q)"
    then show ?thesis using served_state_ok [OF assms] by (simp add: Dequeue)
  qed
next
  case (Complete key)
  then show ?thesis using complete_key_ok [OF assms] by simp
qed

interpretation intake: invariant_steps "\<lambda>q. \<lambda>op1. snd (snd (intake_step L classes q op1))" queue_ok
  by unfold_locales (rule intake_step_ok)

lemma intake_run_foldl: "snd (snd (intake_run L classes q ops)) = foldl (\<lambda>q op1. snd (snd (intake_step L classes q op1))) q ops"
  by (induction ops arbitrary: q) (auto simp: split_beta)

lemma intake_step_config:
  assumes "queue_ok q"
  shows "fq_fairness_key (snd (snd (intake_step L classes q op1))) = fq_fairness_key q"
    "fq_abuse_window (snd (snd (intake_step L classes q op1))) = fq_abuse_window q"
    "fq_inflight_max (snd (snd (intake_step L classes q op1))) = fq_inflight_max q"
proof -
  have "fq_fairness_key (snd (snd (intake_step L classes q op1))) = fq_fairness_key q \<and>
    fq_abuse_window (snd (snd (intake_step L classes q op1))) = fq_abuse_window q \<and>
    fq_inflight_max (snd (snd (intake_step L classes q op1))) = fq_inflight_max q"
  proof (cases op1)
    case (Enqueue now item attrs)
    obtain key evs q' where "enqueue L classes now item attrs q = (key, evs, q')" by (metis prod_cases3)
    then show ?thesis using enqueue_fields(5-7) by (fastforce simp: Enqueue)
  next
    case Dequeue
    then show ?thesis by (rule_tac dequeue_cases [OF assms]) (simp_all add: served_state_fields)
  next
    case (Complete key)
    then show ?thesis by (simp add: complete_key_fields)
  qed
  then show "fq_fairness_key (snd (snd (intake_step L classes q op1))) = fq_fairness_key q"
    "fq_abuse_window (snd (snd (intake_step L classes q op1))) = fq_abuse_window q"
    "fq_inflight_max (snd (snd (intake_step L classes q op1))) = fq_inflight_max q" by simp_all
qed

section \<open>No key starves\<close>

definition ahead :: "string \<Rightarrow> 'a fair_queue \<Rightarrow> nat" where
  "ahead k q = length (takeWhile (\<lambda>j. j \<noteq> k) (fq_rr q))"

definition servable :: "string \<Rightarrow> 'a fair_queue \<Rightarrow> bool" where
  "servable k q \<longleftrightarrow> queue_of k q \<noteq> [] \<and> \<not> at_cap k q"

fun is_dequeue :: "'a intake_op \<Rightarrow> bool" where
  "is_dequeue Dequeue = True"
| "is_dequeue _ = False"

lemma position_less: "k \<in> set ks \<Longrightarrow> length (takeWhile (\<lambda>j. j \<noteq> k) ks) < length ks"
  by (induction ks) auto

lemma position_skip: "k \<notin> set pre \<Longrightarrow> takeWhile (\<lambda>j. j \<noteq> k) (pre @ ks) = pre @ takeWhile (\<lambda>j. j \<noteq> k) ks"
  by (induction pre) auto

lemma waits_unless_served:
  assumes ok: "queue_ok q" and k: "servable k q" and step: "intake_step L classes q op1 = (out, evs, q')"
  shows "out = [(k, hd (queue_of k q))] \<or>
    k \<notin> fst ` set out \<and> servable k q' \<and> hd (queue_of k q') = hd (queue_of k q) \<and>
    (if is_dequeue op1 then length out = 1 \<and> ahead k q' < ahead k q else out = [] \<and> ahead k q' = ahead k q)"
proof (cases op1)
  case (Enqueue now item attrs)
  obtain key where e: "enqueue L classes now item attrs q = (key, evs, q')" and out: "out = []"
    using step by (auto simp: Enqueue Let_def split: prod.splits)
  note f = enqueue_fields [OF e]
  have "k \<in> set (fq_rr q)" using ok k by (simp add: queue_ok_def servable_def)
  then have "ahead k q' = ahead k q" by (simp add: ahead_def f takeWhile_append1)
  then show ?thesis using k out by (auto simp: Enqueue servable_def at_cap_def f)
next
  case (Complete key)
  then have "out = []" "q' = complete_key key q" using step by simp_all
  then show ?thesis using k by (auto simp: Complete servable_def at_cap_def complete_key_fields ahead_def)
next
  case Dequeue
  have kin: "k \<in> set (fq_rr q)" using ok k by (simp add: queue_ok_def servable_def)
  show ?thesis
  proof (rule dequeue_cases [OF ok])
    assume "\<forall>k \<in> set (fq_rr q). at_cap k q"
    with kin k show ?thesis by (simp add: servable_def)
  next
    fix j pre post
    assume d: "fq_rr q = pre @ j # post" "\<forall>i \<in> set pre. at_cap i q" "queue_of j q \<noteq> []"
      "dequeue q = (Inr (Some (j, hd (queue_of j q))), served_state j pre post q)"
    then have out: "out = [(j, hd (queue_of j q))]" "q' = served_state j pre post q" using step by (simp_all add: Dequeue)
    show ?thesis
    proof (cases "j = k")
      case True
      with out show ?thesis by simp
    next
      case False
      have "k \<notin> set pre" using d(2) k by (auto simp: servable_def)
      with kin d(1) False have "k \<in> set post" by auto
      then have "ahead k q' < ahead k q"
        using d(1) False \<open>k \<notin> set pre\<close> by (simp add: ahead_def out served_state_def takeWhile_append1 position_skip)
      moreover have "servable k q'" "queue_of k q' = queue_of k q"
        using False k by (simp_all add: servable_def at_cap_def out served_state_fields)
      ultimately show ?thesis using False out by (simp add: Dequeue)
    qed
  qed
qed

text \<open>
  C19: no key starves. A key with something waiting and a free slot is served after at most as many other
  dispatches as there are keys ahead of it in the rotation, whatever is enqueued for others, completed or
  dispatched in between, and what it is served is its oldest item.
\<close>

theorem no_key_starves:
  assumes "queue_ok q" "servable k q" "intake_run L classes q ops = (out, evs, q')"
    and "ahead k q < length (filter is_dequeue ops)"
  shows "\<exists>before after. out = before @ (k, hd (queue_of k q)) # after \<and> k \<notin> fst ` set before \<and>
    length before \<le> ahead k q \<and> ahead k q < length (fq_rr q)"
  using assms
proof (induction ops arbitrary: q out evs)
  case Nil
  then show ?case by simp
next
  case (Cons op1 ops)
  obtain out1 evs1 q1 where 1: "intake_step L classes q op1 = (out1, evs1, q1)" by (metis prod_cases3)
  obtain out2 evs2 where 2: "intake_run L classes q1 ops = (out2, evs2, q')" and out: "out = out1 @ out2"
    using Cons.prems(3) 1 by (auto split: prod.splits)
  have "k \<in> set (fq_rr q)" using Cons.prems(1,2) by (simp add: queue_ok_def servable_def)
  then have len: "ahead k q < length (fq_rr q)" unfolding ahead_def by (rule position_less)
  from waits_unless_served [OF Cons.prems(1,2) 1] show ?case
  proof
    assume "out1 = [(k, hd (queue_of k q))]"
    with out len show ?thesis by (intro exI [of _ "[]"] exI [of _ out2]) simp
  next
    assume w: "k \<notin> fst ` set out1 \<and> servable k q1 \<and> hd (queue_of k q1) = hd (queue_of k q) \<and>
      (if is_dequeue op1 then length out1 = 1 \<and> ahead k q1 < ahead k q else out1 = [] \<and> ahead k q1 = ahead k q)"
    have ok1: "queue_ok q1" using intake_step_ok [OF Cons.prems(1), of L classes op1] 1 by simp
    have "ahead k q1 < length (filter is_dequeue ops)" using w Cons.prems(4) by (auto split: if_splits)
    then obtain before after where "out2 = before @ (k, hd (queue_of k q1)) # after" "k \<notin> fst ` set before" "length before \<le> ahead k q1"
      using Cons.IH [OF ok1 _ 2] w by blast
    then show ?thesis using w out len by (intro exI [of _ "out1 @ before"] exI [of _ after]) (auto split: if_splits)
  qed
qed

section \<open>Nothing is lost, repeated or reordered\<close>

fun arrivals :: "pylib \<Rightarrow> string \<Rightarrow> string \<Rightarrow> 'a intake_op list \<Rightarrow> 'a list" where
  "arrivals L fairness_key k [] = []"
| "arrivals L fairness_key k (Enqueue now item attrs # ops) =
     (if resolve_key L fairness_key attrs = k then item # arrivals L fairness_key k ops else arrivals L fairness_key k ops)"
| "arrivals L fairness_key k (op1 # ops) = arrivals L fairness_key k ops"

definition served_items :: "string \<Rightarrow> (string \<times> 'a) list \<Rightarrow> 'a list" where
  "served_items k out = map snd (filter (\<lambda>p. fst p = k) out)"

lemma intake_step_flow:
  assumes "queue_ok q" "intake_step L classes q op1 = (out, evs, q')"
  shows "queue_of k q @ arrivals L (fq_fairness_key q) k [op1] = served_items k out @ queue_of k q'"
proof (cases op1)
  case (Enqueue now item attrs)
  obtain key where e: "enqueue L classes now item attrs q = (key, evs, q')" and "out = []"
    using assms(2) by (auto simp: Enqueue Let_def split: prod.splits)
  then show ?thesis using enqueue_fields [OF e] by (simp add: Enqueue served_items_def)
next
  case Dequeue
  then show ?thesis
    using assms(2) by (rule_tac dequeue_cases [OF assms(1)]) (auto simp: served_items_def served_state_fields)
next
  case (Complete key)
  then show ?thesis using assms(2) by (auto simp: served_items_def complete_key_fields)
qed

lemma count_distinct: "distinct ks \<Longrightarrow> count_list ks k = (if k \<in> set ks then 1 else 0)"
  by (induction ks) auto

lemma arrivals_Cons: "arrivals L fk k (op1 # ops) = arrivals L fk k [op1] @ arrivals L fk k ops"
  by (cases op1) auto

lemma intake_run_flow:
  assumes "queue_ok q" "intake_run L classes q ops = (out, evs, q')"
  shows "queue_of k q @ arrivals L (fq_fairness_key q) k ops = served_items k out @ queue_of k q'"
  using assms
proof (induction ops arbitrary: q out evs)
  case Nil
  then show ?case by (simp add: served_items_def)
next
  case (Cons op1 ops)
  obtain out1 evs1 q1 where 1: "intake_step L classes q op1 = (out1, evs1, q1)" by (metis prod_cases3)
  obtain out2 evs2 where 2: "intake_run L classes q1 ops = (out2, evs2, q')" and out: "out = out1 @ out2"
    using Cons.prems(2) 1 by (auto split: prod.splits)
  have ok1: "queue_ok q1" "fq_fairness_key q1 = fq_fairness_key q"
    using intake_step_ok [OF Cons.prems(1), of L classes op1] intake_step_config(1) [OF Cons.prems(1), of L classes op1] 1 by simp_all
  have "queue_of k q @ arrivals L (fq_fairness_key q) k (op1 # ops) = (queue_of k q @ arrivals L (fq_fairness_key q) k [op1]) @ arrivals L (fq_fairness_key q1) k ops"
    by (simp add: arrivals_Cons [of _ _ _ op1 ops] ok1(2))
  also have "\<dots> = served_items k out1 @ served_items k out2 @ queue_of k q'"
    using intake_step_flow [OF Cons.prems(1) 1] Cons.IH [OF ok1(1) 2] by simp
  finally show ?case by (simp add: out served_items_def)
qed

text \<open>What each operation of a run dispatched, and how many dispatches of a key are open: a completion closes one, if there is one.\<close>

fun dispatch_log :: "pylib \<Rightarrow> string list \<Rightarrow> 'a fair_queue \<Rightarrow> 'a intake_op list \<Rightarrow> ('a intake_op \<times> (string \<times> 'a) list) list" where
  "dispatch_log L classes q [] = []"
| "dispatch_log L classes q (op1 # ops) =
     (let (out, evs, q1) = intake_step L classes q op1 in (op1, out) # dispatch_log L classes q1 ops)"

fun completes :: "string \<Rightarrow> 'a intake_op \<Rightarrow> bool" where
  "completes k (Complete key) = (key = k)"
| "completes k op1 = False"

fun outstanding :: "string \<Rightarrow> nat \<Rightarrow> ('a intake_op \<times> (string \<times> 'a) list) list \<Rightarrow> nat" where
  "outstanding k n [] = n"
| "outstanding k n ((op1, out) # rest) =
     outstanding k (if completes k op1 then n - 1 else n + length (served_items k out)) rest"

lemma intake_step_inflight:
  assumes "queue_ok q" "intake_step L classes q op1 = (out, evs, q')"
  shows "inflight_for k q' = int (if completes k op1 then nat (inflight_for k q) - 1 else nat (inflight_for k q) + length (served_items k out)) \<and>
    (completes k op1 \<longrightarrow> served_items k out = [])"
proof (cases op1)
  case (Enqueue now item attrs)
  obtain key where e: "enqueue L classes now item attrs q = (key, evs, q')" and "out = []"
    using assms(2) by (auto simp: Enqueue Let_def split: prod.splits)
  then show ?thesis using enqueue_fields(3) [OF e] assms(1) by (simp add: Enqueue served_items_def queue_ok_def)
next
  case Dequeue
  have "0 \<le> inflight_for k q" using assms(1) by (simp add: queue_ok_def)
  with assms(2) show ?thesis by (rule_tac dequeue_cases [OF assms(1)]) (auto simp: Dequeue served_items_def served_state_fields)
next
  case (Complete key)
  have "0 \<le> inflight_for k q" using assms(1) by (simp add: queue_ok_def)
  then show ?thesis using assms(2) by (auto simp: Complete served_items_def complete_key_fields)
qed

lemma intake_run_inflight:
  assumes "queue_ok q" "intake_run L classes q ops = (out, evs, q')"
  shows "inflight_for k q' = int (outstanding k (nat (inflight_for k q)) (dispatch_log L classes q ops)) \<and>
    fq_inflight_max q' = fq_inflight_max q \<and>
    int (length (served_items k out)) + inflight_for k q \<le> inflight_for k q' + int (length (filter (completes k) ops))"
  using assms
proof (induction ops arbitrary: q out evs)
  case Nil
  then show ?case by (simp add: served_items_def queue_ok_def)
next
  case (Cons op1 ops)
  obtain out1 evs1 q1 where 1: "intake_step L classes q op1 = (out1, evs1, q1)" by (metis prod_cases3)
  obtain out2 evs2 where 2: "intake_run L classes q1 ops = (out2, evs2, q')" and out: "out = out1 @ out2"
    using Cons.prems(2) 1 by (auto split: prod.splits)
  have ok: "queue_ok q1" "0 \<le> inflight_for k q"
    using intake_step_ok [OF Cons.prems(1), of L classes op1] 1 Cons.prems(1) by (simp_all add: queue_ok_def)
  have cap: "fq_inflight_max q1 = fq_inflight_max q" using intake_step_config(3) [OF Cons.prems(1), of L classes op1] 1 by simp
  note st = intake_step_inflight [OF Cons.prems(1) 1, of k]
  have len: "length (served_items k out) = length (served_items k out1) + length (served_items k out2)"
    by (simp add: out served_items_def)
  obtain n where n: "inflight_for k q = int n" using ok(2) nonneg_int_cases by blast
  let ?n = "if completes k op1 then n - 1 else n + length (served_items k out1)"
  have q1: "inflight_for k q1 = int ?n" using st by (simp add: n)
  have none: "completes k op1 \<Longrightarrow> served_items k out1 = []" using st by blast
  from Cons.IH [OF ok(1) 2] show ?case
    unfolding q1 nat_int by (cases "completes k op1") (auto simp: 1 len cap n none)
qed

text \<open>
  C20: every key has its own first-in first-out queue. From a new queue, over any sequence of arrivals,
  dispatches and completions, what was dispatched for a key followed by what waits for it is exactly what arrived for it, in order;
  a key is in the rotation once if something waits for it and not otherwise. The dispatches of a key that no later completion has closed are at most the
  cap it was made with, and are what the queue takes to be in flight; so a key is dispatched at most as often as the cap and its completions allow.
\<close>

theorem per_key_fifo:
  assumes "fair_queue_init fk m t th w = Inr q" "intake_run L classes q ops = (out, evs, q')"
  shows "arrivals L fk k ops = served_items k out @ queue_of k q' \<and> pending_for k q' = length (arrivals L fk k ops) - length (served_items k out) \<and>
    count_list (fq_rr q') k = (if queue_of k q' = [] then 0 else 1) \<and>
    int (outstanding k 0 (dispatch_log L classes q ops)) \<le> m \<and> inflight_for k q' = int (outstanding k 0 (dispatch_log L classes q ops)) \<and>
    int (length (served_items k out)) \<le> m + int (length (filter (completes k) ops))"
proof -
  note i = fair_queue_init_ok [OF assms(1)]
  have new: "inflight_for k q = 0" "fq_inflight_max q = m" using assms(1) by (auto simp: fair_queue_init_def inflight_for_def require_Inr_iff)
  have flow: "arrivals L fk k ops = served_items k out @ queue_of k q'" using intake_run_flow [OF i(1) assms(2), of k] i by simp
  have "queue_ok q'" using intake.inv_run [OF i(1), of L classes ops] intake_run_foldl [of L classes q ops] assms(2) by simp
  then have ok: "distinct (fq_rr q')" "k \<in> set (fq_rr q') \<longleftrightarrow> queue_of k q' \<noteq> []" "inflight_for k q' \<le> fq_inflight_max q'"
    by (simp_all add: queue_ok_def)
  have "count_list (fq_rr q') k = (if k \<in> set (fq_rr q') then 1 else 0)"
    using ok(1) by (rule count_distinct)
  with ok flow intake_run_inflight [OF i(1) assms(2), of k] show ?thesis by (simp add: pending_for_def new)
qed

section \<open>The arrival-rate alert\<close>

definition stamped :: "real \<Rightarrow> 'a fair_queue \<Rightarrow> bool" where
  "stamped t q \<longleftrightarrow> (\<exists>k ts. map_of (fq_intake q) k = Some ts \<and> t \<in> set ts)"

fun arrival_times :: "'a intake_op list \<Rightarrow> real list" where
  "arrival_times [] = []"
| "arrival_times (Enqueue now item attrs # ops) = now # arrival_times ops"
| "arrival_times (op1 # ops) = arrival_times ops"

lemma dropWhile_last_kept: "\<not> P y \<Longrightarrow> \<exists>ys. dropWhile P (xs @ [y]) = ys @ [y] \<and> set ys \<subseteq> set xs"
  by (induction xs) auto

lemma hd_dropWhile_less: "ts \<noteq> [] \<Longrightarrow> ts = dropWhile (\<lambda>t. t < c) xs \<Longrightarrow> c \<le> hd ts"
  for c :: real
  by (metis hd_dropWhile not_le)

lemma enqueue_stamps:
  assumes "enqueue L classes now item attrs q = (key, evs, q')" "1 \<le> fq_abuse_window q"
  shows "stamped t q' \<Longrightarrow> stamped t q \<or> t = now"
    "AbuseDetected c r \<in> set evs \<Longrightarrow> \<exists>t. stamped t q \<and> now - t = real_of_int (fq_abuse_window q)"
proof -
  obtain evicted q1 where t: "track_key key q = (evicted, q1)" by force
  note f = track_key_fields [OF t] push_item_fields
  define q2 where "q2 = push_item key item q1"
  define stamps where "stamps = intake_stamps key now q2"
  have in2: "map_of (fq_intake q2) k = Some us \<Longrightarrow> map_of (fq_intake q) k = Some us" for k us
    using f(8) by (simp add: q2_def f)
  have w2: "fq_abuse_window q2 = fq_abuse_window q" by (simp add: q2_def f)
  obtain old where stamps: "stamps = old @ [now]" and old: "\<And>u. u \<in> set old \<Longrightarrow> stamped u q"
  proof -
    obtain ys where "stamps = ys @ [now]" "set ys \<subseteq> set (case map_of (fq_intake q2) key of None \<Rightarrow> [] | Some ts \<Rightarrow> ts)"
      using dropWhile_last_kept [of "\<lambda>t. t < now - real_of_int (fq_abuse_window q2)" now] assms(2) w2
      by (fastforce simp: stamps_def intake_stamps_def)
    moreover from this have "stamped u q" if "u \<in> set ys" for u
      using that in2 [of key] unfolding stamped_def by (cases "map_of (fq_intake q2) key") (simp, auto)
    ultimately show thesis using that by blast
  qed
  have key: "key = resolve_key L (fq_fairness_key q) attrs" using enqueue_fields(1) [OF assms(1)] .
  have q': "fq_intake q' = od_set key stamps (fq_intake q2)"
    and evs: "AbuseDetected c r \<in> set evs \<Longrightarrow> abuse_alert_due (resolve_key_class L attrs) now stamps (q2\<lparr>fq_intake := od_set key stamps (fq_intake q2)\<rparr>)"
    using assms(1) f(9) by (auto simp: enqueue_def Let_def t q2_def stamps_def simp flip: key split: if_splits)
  have "stamped u q" if "stamped u q2" for u using that in2 unfolding stamped_def by blast
  moreover have "u \<in> set stamps \<or> stamped u q2" if "stamped u q'" for u
    using that by (auto simp: stamped_def q' od_simps split: if_splits)
  ultimately show "stamped t q \<or> t = now" if "stamped t q'" using that old [of t] stamps by fastforce
  show "\<exists>t. stamped t q \<and> now - t = real_of_int (fq_abuse_window q)" if "AbuseDetected c r \<in> set evs"
  proof -
    have "real_of_int (fq_abuse_window q) \<le> now - hd stamps" using evs [OF that] w2 by (simp add: abuse_alert_due_def)
    moreover have "now - real_of_int (fq_abuse_window q) \<le> hd stamps"
      by (rule hd_dropWhile_less [OF _ stamps_def [unfolded intake_stamps_def w2]]) (simp add: stamps)
    ultimately have eq: "now - hd stamps = real_of_int (fq_abuse_window q)" by simp
    with assms(2) have "hd stamps \<noteq> now" by auto
    with stamps have "hd stamps \<in> set old" by (cases old) auto
    with old eq show ?thesis by blast
  qed
qed

lemma alert_needs_exact_pair:
  assumes "queue_ok q" "intake_run L classes q ops = (out, evs, q')" "AbuseDetected c r \<in> set evs" "\<And>t. stamped t q \<Longrightarrow> t \<in> T"
  shows "\<exists>t1 \<in> T \<union> set (arrival_times ops). \<exists>t2 \<in> set (arrival_times ops). t2 - t1 = real_of_int (fq_abuse_window q)"
  using assms
proof (induction ops arbitrary: q out evs T)
  case Nil
  then show ?case by simp
next
  case (Cons op1 ops)
  obtain out1 evs1 q1 where 1: "intake_step L classes q op1 = (out1, evs1, q1)" by (metis prod_cases3)
  obtain out2 evs2 where 2: "intake_run L classes q1 ops = (out2, evs2, q')" and evs: "evs = evs1 @ evs2"
    using Cons.prems(2) 1 by (auto split: prod.splits)
  have ok1: "queue_ok q1" "fq_abuse_window q1 = fq_abuse_window q"
    using intake_step_ok [OF Cons.prems(1), of L classes op1] intake_step_config(2) [OF Cons.prems(1), of L classes op1] 1 by simp_all
  show ?case
  proof (cases op1)
    case (Enqueue now item attrs)
    obtain key where e: "enqueue L classes now item attrs q = (key, evs1, q1)"
      using 1 by (auto simp: Enqueue Let_def split: prod.splits)
    note s = enqueue_stamps [OF e] Cons.prems(1) [unfolded queue_ok_def]
    show ?thesis
    proof (cases "AbuseDetected c r \<in> set evs1")
      case True
      then obtain t where "stamped t q" "now - t = real_of_int (fq_abuse_window q)" using s by blast
      with Cons.prems(4) show ?thesis by (auto simp: Enqueue)
    next
      case False
      have st: "t \<in> insert now T" if "stamped t q1" for t using s(1) [of t] s(3) Cons.prems(4) [of t] that by auto
      have "AbuseDetected c r \<in> set evs2" using False Cons.prems(3) evs by simp
      from Cons.IH [OF ok1(1) 2 this st] ok1(2) obtain t1 t2 where "t1 \<in> insert now T \<union> set (arrival_times ops)"
        "t2 \<in> set (arrival_times ops)" "t2 - t1 = real_of_int (fq_abuse_window q)" by metis
      then show ?thesis by (intro bexI [of _ t1] bexI [of _ t2]) (auto simp: Enqueue)
    qed
  next
    case Dequeue
    have "fq_intake q1 = fq_intake q \<and> evs1 = []"
    proof (rule dequeue_cases [OF Cons.prems(1)])
      assume "dequeue q = (Inr None, q)"
      with 1 show ?thesis by (simp add: Dequeue)
    next
      fix k pre post
      assume "dequeue q = (Inr (Some (k, hd (queue_of k q))), served_state k pre post q)"
      with 1 show ?thesis by (auto simp: Dequeue served_state_fields)
    qed
    then have i: "fq_intake q1 = fq_intake q" "evs1 = []" by simp_all
    then have st: "t \<in> T" if "stamped t q1" for t using that Cons.prems(4) [of t] by (simp add: stamped_def)
    have "AbuseDetected c r \<in> set evs2" using Cons.prems(3) evs i by simp
    from Cons.IH [OF ok1(1) 2 this st] show ?thesis unfolding ok1(2) by (simp add: Dequeue)
  next
    case (Complete key)
    then have i: "fq_intake q1 = fq_intake q" "evs1 = []" using 1 by (auto simp: complete_key_fields)
    have st: "t \<in> T" if "stamped t q1" for t using that Cons.prems(4) [of t] by (simp add: stamped_def i)
    have "AbuseDetected c r \<in> set evs2" using Cons.prems(3) evs i by simp
    from Cons.IH [OF ok1(1) 2 this st] show ?thesis unfolding ok1(2) by (simp add: Complete)
  qed
qed

text \<open>
  The abuse alert practically never fires. A stamp older than the window is dropped before the test
  that the oldest stamp is at least as old as the window, so both hold only when two requests are apart by
  exactly the window: without such a pair no sequence of requests, however fast and however long, raises the alert.
\<close>

lemma abuse_alert_needs_exact_window:
  assumes "fair_queue_init fk m t th w = Inr q" "intake_run L classes q ops = (out, evs, q')"
    and "\<And>t1 t2. t1 \<in> set (arrival_times ops) \<Longrightarrow> t2 \<in> set (arrival_times ops) \<Longrightarrow> t2 - t1 \<noteq> real_of_int w"
  shows "AbuseDetected c r \<notin> set evs"
proof
  assume a: "AbuseDetected c r \<in> set evs"
  note i = fair_queue_init_ok [OF assms(1)]
  have "t \<in> {}" if "stamped t q" for t using that i by (simp add: stamped_def)
  from alert_needs_exact_pair [OF i(1) assms(2) a this] assms(3) i(6) show False by auto
qed

section \<open>Examples\<close>

definition example_queue :: "nat fair_queue" where
  "example_queue = \<lparr>fq_fairness_key = ''tenant_id'', fq_inflight_max = 1, fq_max_tracked = 9, fq_qps_threshold = 1 / 2, fq_abuse_window = 1,
     fq_queues = [], fq_rr = [], fq_inflight = [], fq_tracked = [], fq_intake = [], fq_last_alert = []\<rparr>"

lemma example_queue_init: "fair_queue_init ''tenant_id'' 1 9 (1 / 2) 1 = Inr example_queue"
  by (simp add: fair_queue_init_def example_queue_def allowed_fairness_keys_def)

definition tenant_request :: "real \<Rightarrow> nat \<Rightarrow> char \<Rightarrow> nat intake_op" where
  "tenant_request now item tenant = Enqueue now item [(''tenant_id'', JStr [tenant])]"

lemma example_keys:
  "resolve_key example_lib ''tenant_id'' [(''tenant_id'', JStr ''a'')] = ''a''"
  "resolve_key example_lib ''tenant_id'' [(''tenant_id'', JStr ''b'')] = ''b''"
  "resolve_key_class example_lib [(''tenant_id'', JStr c)] = ''ip_anonymous''"
  by (simp_all add: resolve_key_def resolve_key_class_def attr_text_def jget_or_def Let_def py_strip_def is_space_def text_or_def)

lemmas run_simps = tenant_request_def enqueue_def track_key_def push_item_def intake_stamps_def
  observed_qps_def abuse_alert_due_def od_touch_def od_del_def queue_of_def inflight_for_def dequeue_def example_keys

definition two_tenants :: "nat fair_queue" where
  "two_tenants = snd (snd (intake_run example_lib [] example_queue
     [tenant_request 0 1 (CHR ''a''), tenant_request 0 2 (CHR ''a''), tenant_request 0 3 (CHR ''b'')]))"

lemma two_tenants_state:
  "fq_rr two_tenants = [''a'', ''b'']" "fq_queues two_tenants = [(''a'', [1, 2]), (''b'', [3])]" "fq_inflight two_tenants = []"
  "fq_inflight_max two_tenants = 1"
  by (simp_all add: two_tenants_def example_queue_def run_simps Let_def)

theorem no_key_starves_witness:
  "(''b'', 3) \<in> set (fst (intake_run example_lib [] two_tenants [Dequeue, tenant_request 1 4 (CHR ''a''), Dequeue]))"
proof -
  have ok: "queue_ok two_tenants"
    unfolding two_tenants_def intake_run_foldl by (rule intake.inv_run) (rule fair_queue_init_ok [OF example_queue_init])
  have k: "servable ''b'' two_tenants" "hd (queue_of ''b'' two_tenants) = 3" "ahead ''b'' two_tenants = 1"
    by (simp_all add: servable_def at_cap_def queue_of_def inflight_for_def two_tenants_state ahead_def)
  obtain out evs q' where r: "intake_run example_lib [] two_tenants [Dequeue, tenant_request 1 4 (CHR ''a''), Dequeue] = (out, evs, q')"
    by (metis prod_cases3)
  have "(''b'', 3) \<in> set out" using no_key_starves [OF ok k(1) r] by (auto simp: k tenant_request_def)
  then show ?thesis by (simp only: r fst_conv)
qed

theorem per_key_fifo_witness:
  "\<exists>out evs q'. intake_run example_lib [] example_queue
      [tenant_request 0 1 (CHR ''a''), tenant_request 0 2 (CHR ''a''), Dequeue, tenant_request 0 3 (CHR ''b''), Dequeue] = (out, evs, q') \<and>
    out = [(''a'', 1), (''b'', 3)] \<and> [1, 2] = served_items ''a'' out @ queue_of ''a'' q'"
proof -
  let ?ops = "[tenant_request 0 1 (CHR ''a''), tenant_request 0 2 (CHR ''a''), Dequeue, tenant_request 0 3 (CHR ''b''), Dequeue]"
  obtain out evs q' where r: "intake_run example_lib [] example_queue ?ops = (out, evs, q')" by (metis prod_cases3)
  have "fst (intake_run example_lib [] example_queue ?ops) = [(''a'', 1), (''b'', 3)]"
    by (simp add: example_queue_def run_simps Let_def numeral_2_eq_2)
  with r per_key_fifo [OF example_queue_init r, of "''a''"] show ?thesis
    by (auto simp: tenant_request_def example_keys)
qed

end
