(* ===== verification/Audit_Chain.thy ===== *)
theory Audit_Chain
  imports Wire_Ops
begin

text \<open>
  The operator audit log of \<open>xops/opsctl/_audit.py\<close> and \<open>xops/opsctl/audit_chain.py\<close>: rows appended to a CSV file that is
  rotated by size, chained by an HMAC over the previous row's, and the verifier that walks the files. A file is the list of its
  parsed CSV rows (the \<open>csv\<close> module reads back what it writes), a directory the active file and the rotated ones,
  newest first. HMAC-SHA256, SHA-256 and the size of a file on disk are parameters; \<open>fsync\<close>, file modes and failing
  reads are not modelled.
\<close>

section \<open>Rows\<close>

type_synonym csv_row = "string list"

record audit_lib =
  al_hmac :: "string \<Rightarrow> string \<Rightarrow> string"
  al_sha256 :: "string \<Rightarrow> string"
  al_bytes :: "csv_row list \<Rightarrow> int"

definition genesis_prev_hmac :: "audit_lib \<Rightarrow> string" where
  "genesis_prev_hmac A = take 32 (al_sha256 A ''negelir-audit-chain-v1'')"

definition audit_header :: csv_row where
  "audit_header = [''timestamp_utc'', ''host'', ''user'', ''op'', ''target'', ''request_id'', ''exit_code'', ''expected_acks'',
     ''received_acks'', ''note'', ''prev_hmac'', ''row_hmac'']"

definition idx_prev_hmac :: nat where
  "idx_prev_hmac = 10"

definition idx_row_hmac :: nat where
  "idx_row_hmac = 11"

record audit_row =
  au_timestamp_utc :: string
  au_host :: string
  au_user :: string
  au_op :: string
  au_target :: string
  au_request_id :: string
  au_exit_code :: int
  au_expected_acks :: int
  au_received_acks :: int
  au_note :: string
  au_prev_hmac :: string
  au_row_hmac :: string

definition audit_record :: "audit_row \<Rightarrow> csv_row" where
  "audit_record r = [au_timestamp_utc r, au_host r, au_user r, au_op r, au_target r, au_request_id r, show_int (au_exit_code r),
     show_int (au_expected_acks r), show_int (au_received_acks r), au_note r, au_prev_hmac r, au_row_hmac r]"

definition signed_fields :: "audit_row \<Rightarrow> string" where
  "signed_fields r = au_timestamp_utc r @ ''|'' @ au_user r @ ''|'' @ au_host r @ ''|'' @ au_op r @ ''|'' @ au_target r @ ''|'' @ au_request_id r"

definition compute_row_hmac :: "audit_lib \<Rightarrow> string \<Rightarrow> string \<Rightarrow> audit_row \<Rightarrow> string" where
  "compute_row_hmac A key prev_hmac r = al_hmac A key (prev_hmac @ ''|'' @ signed_fields r)"

section \<open>Appending\<close>

record audit_dir =
  ad_active :: "csv_row list option"
  ad_rotated :: "csv_row list list"

definition empty_dir :: audit_dir where
  "empty_dir = \<lparr>ad_active = None, ad_rotated = []\<rparr>"

definition read_last_row_hmac :: "audit_lib \<Rightarrow> csv_row list option \<Rightarrow> string" where
  "read_last_row_hmac A file =
     (case file of
        None \<Rightarrow> genesis_prev_hmac A
      | Some rows \<Rightarrow>
          if rows = [] \<or> last rows = audit_header then genesis_prev_hmac A
          else if idx_row_hmac < length (last rows) then
            (let h = py_strip (last rows ! idx_row_hmac) in if h \<noteq> [] then h else genesis_prev_hmac A)
          else genesis_prev_hmac A)"

definition rotate_audit_file :: "audit_dir \<Rightarrow> audit_dir" where
  "rotate_audit_file d =
     (case ad_active d of None \<Rightarrow> d | Some rows \<Rightarrow> d\<lparr>ad_active := None, ad_rotated := rows # ad_rotated d\<rparr>)"

definition append_audit_row :: "audit_lib \<Rightarrow> string option \<Rightarrow> int \<Rightarrow> audit_row \<Rightarrow> audit_dir \<Rightarrow> audit_dir" where
  "append_audit_row A hmac_key max_bytes r d =
     (let prev = (case hmac_key of None \<Rightarrow> [] | Some key \<Rightarrow> read_last_row_hmac A (ad_active d));
          d1 = (case ad_active d of
                  None \<Rightarrow> d
                | Some rows \<Rightarrow> if 0 < max_bytes \<and> max_bytes \<le> al_bytes A rows then rotate_audit_file d else d);
          r1 = (case hmac_key of
                  None \<Rightarrow> r
                | Some key \<Rightarrow> r\<lparr>au_prev_hmac := prev, au_row_hmac := compute_row_hmac A key prev r\<rparr>) in
      d1\<lparr>ad_active := Some ((case ad_active d1 of None \<Rightarrow> [audit_header] | Some rows \<Rightarrow> rows) @ [audit_record r1])\<rparr>)"

section \<open>Verifying\<close>

datatype chain_break = ShortRow nat | PrevMismatch string string | HmacMismatch string string

record chain_result =
  cv_ok :: bool
  cv_rows_checked :: nat
  cv_first_break_row :: "nat option"
  cv_break_reason :: "chain_break option"

definition broken_at :: "nat \<Rightarrow> chain_break \<Rightarrow> chain_result" where
  "broken_at n why = \<lparr>cv_ok = False, cv_rows_checked = n, cv_first_break_row = Some n, cv_break_reason = Some why\<rparr>"

definition reconstructed :: "csv_row \<Rightarrow> audit_row" where
  "reconstructed row = \<lparr>au_timestamp_utc = row ! 0, au_host = row ! 1, au_user = row ! 2, au_op = row ! 3, au_target = row ! 4,
     au_request_id = row ! 5, au_exit_code = 0, au_expected_acks = 0, au_received_acks = 0, au_note = [],
     au_prev_hmac = py_strip (row ! idx_prev_hmac), au_row_hmac = py_strip (row ! idx_row_hmac)\<rparr>"

text \<open>One data row: the running HMAC and the row counter, or the break.\<close>

definition verify_row :: "audit_lib \<Rightarrow> string \<Rightarrow> csv_row \<Rightarrow> string \<times> nat \<Rightarrow> chain_result + (string \<times> nat)" where
  "verify_row A key row st =
     (let (running_prev, n) = st in
      if length row \<le> idx_row_hmac then Inl (broken_at (n + 1) (ShortRow (length row)))
      else
        let row_hmac = py_strip (row ! idx_row_hmac); prev_hmac = py_strip (row ! idx_prev_hmac) in
        if row_hmac = [] then Inr (running_prev, n + 1)
        else if prev_hmac \<noteq> running_prev then Inl (broken_at (n + 1) (PrevMismatch running_prev prev_hmac))
        else
          let expected = compute_row_hmac A key running_prev (reconstructed row) in
          if row_hmac \<noteq> expected then Inl (broken_at (n + 1) (HmacMismatch expected row_hmac))
          else Inr (row_hmac, n + 1))"

fun verify_rows :: "audit_lib \<Rightarrow> string \<Rightarrow> csv_row list \<Rightarrow> string \<times> nat \<Rightarrow> chain_result + (string \<times> nat)" where
  "verify_rows A key [] st = Inr st"
| "verify_rows A key (row # rows) st =
     (case verify_row A key row st of Inl b \<Rightarrow> Inl b | Inr st' \<Rightarrow> verify_rows A key rows st')"

definition data_rows :: "csv_row list \<Rightarrow> csv_row list" where
  "data_rows rows = (case rows of [] \<Rightarrow> [] | row # rest \<Rightarrow> if row = audit_header then rest else rows)"

fun verify_files :: "audit_lib \<Rightarrow> string \<Rightarrow> csv_row list list \<Rightarrow> string \<times> nat \<Rightarrow> chain_result + (string \<times> nat)" where
  "verify_files A key [] st = Inr st"
| "verify_files A key (file # files) st =
     (case verify_rows A key (data_rows file) st of Inl b \<Rightarrow> Inl b | Inr st' \<Rightarrow> verify_files A key files st')"

definition audit_files :: "bool \<Rightarrow> audit_dir \<Rightarrow> csv_row list list" where
  "audit_files include_rotated d =
     (if include_rotated then rev (ad_rotated d) else []) @ (case ad_active d of None \<Rightarrow> [] | Some rows \<Rightarrow> [rows])"

definition verify_audit_chain :: "audit_lib \<Rightarrow> string \<Rightarrow> bool \<Rightarrow> audit_dir \<Rightarrow> chain_result" where
  "verify_audit_chain A key include_rotated d =
     (case verify_files A key (audit_files include_rotated d) (genesis_prev_hmac A, 0) of
        Inl b \<Rightarrow> b
      | Inr (running_prev, n) \<Rightarrow> \<lparr>cv_ok = True, cv_rows_checked = n, cv_first_break_row = None, cv_break_reason = None\<rparr>)"

section \<open>The chain as one list of rows\<close>

definition chain_rows :: "audit_dir \<Rightarrow> csv_row list" where
  "chain_rows d = concat (map data_rows (audit_files True d))"

lemma verify_rows_append:
  "verify_rows A key (xs @ ys) st = (case verify_rows A key xs st of Inl b \<Rightarrow> Inl b | Inr st' \<Rightarrow> verify_rows A key ys st')"
  by (induction xs arbitrary: st) (auto split: sum.splits)

lemma verify_files_rows: "verify_files A key files st = verify_rows A key (concat (map data_rows files)) st"
  by (induction files arbitrary: st) (auto simp: verify_rows_append split: sum.splits)

lemma verify_chain:
  "verify_audit_chain A key True d =
     (case verify_rows A key (chain_rows d) (genesis_prev_hmac A, 0) of
        Inl b \<Rightarrow> b
      | Inr (running_prev, n) \<Rightarrow> \<lparr>cv_ok = True, cv_rows_checked = n, cv_first_break_row = None, cv_break_reason = None\<rparr>)"
  by (simp add: verify_audit_chain_def verify_files_rows chain_rows_def)

lemma verify_row_not_ok: "verify_row A key row st = Inl b \<Longrightarrow> \<not> cv_ok b"
  by (auto simp: verify_row_def broken_at_def Let_def split: prod.splits if_splits)

lemma verify_rows_not_ok: "verify_rows A key rows st = Inl b \<Longrightarrow> \<not> cv_ok b"
  by (induction rows arbitrary: st) (auto dest: verify_row_not_ok split: sum.splits)

lemma verify_chain_ok:
  "cv_ok (verify_audit_chain A key True d) \<longleftrightarrow> (\<exists>st. verify_rows A key (chain_rows d) (genesis_prev_hmac A, 0) = Inr st)"
  by (auto simp: verify_chain dest: verify_rows_not_ok split: sum.splits)

text \<open>What SHA-256 prints: 64 hexadecimal digits.\<close>

definition hex_text :: "string \<Rightarrow> bool" where
  "hex_text s \<longleftrightarrow> set s \<subseteq> set ''0123456789abcdef''"

definition digests_ok :: "audit_lib \<Rightarrow> bool" where
  "digests_ok A \<longleftrightarrow> (\<forall>k m. length (al_hmac A k m) = 64 \<and> hex_text (al_hmac A k m)) \<and>
     (\<forall>m. length (al_sha256 A m) = 64 \<and> hex_text (al_sha256 A m))"

lemma hex_strip: "hex_text s \<Longrightarrow> py_strip s = s"
proof -
  have keep: "dropWhile is_space t = t" if "set t \<subseteq> set ''0123456789abcdef''" for t
    using that by (cases t) (auto simp: is_space_def)
  show "hex_text s \<Longrightarrow> py_strip s = s"
    unfolding py_strip_def hex_text_def by (simp only: keep set_rev rev_rev_ident)
qed

lemma hex_no_bar: "hex_text s \<Longrightarrow> CHR ''|'' \<notin> set s"
  by (auto simp: hex_text_def)

lemma digests:
  assumes "digests_ok A"
  shows "hex_text (al_hmac A k m)" "length (al_hmac A k m) = 64" "hex_text (genesis_prev_hmac A)" "length (genesis_prev_hmac A) = 32"
proof -
  have "hex_text (take n s)" if "hex_text s" for n s
    using that set_take_subset [of n s] unfolding hex_text_def by (rule order_trans [rotated])
  then show "hex_text (al_hmac A k m)" "length (al_hmac A k m) = 64" "hex_text (genesis_prev_hmac A)" "length (genesis_prev_hmac A) = 32"
    using assms by (simp_all add: digests_ok_def genesis_prev_hmac_def)
qed

lemma hmac_nonempty: "digests_ok A \<Longrightarrow> al_hmac A k m \<noteq> []"
  using digests(2) [of A k m] by auto

section \<open>What is written verifies\<close>

definition after_header :: "csv_row list \<Rightarrow> bool" where
  "after_header rows \<longleftrightarrow> (\<exists>rs. rows = audit_header # rs \<and> rs \<noteq> [])"

lemma record_not_header: "audit_record r \<noteq> audit_header"
proof
  assume "audit_record r = audit_header"
  then have e: "show_int (au_exit_code r) = ''exit_code''" by (simp add: audit_record_def audit_header_def)
  have "c \<in> set (show_int i) \<Longrightarrow> c = CHR ''-'' \<or> (\<exists>k < 10. c = digit_char k)" for c i
    by (auto simp: show_int_def dest: show_nat_chars split: if_splits)
  from this [of "CHR ''x''" "au_exit_code r"] obtain k where k: "k < 10" "CHR ''x'' = digit_char k" unfolding e by auto
  then have "of_char (CHR ''x'') = (48 + k :: nat)" by (simp add: digit_char_def)
  with k(1) show False by simp
qed

text \<open>The row as it goes to the file, and where it goes.\<close>

definition chained_row :: "audit_lib \<Rightarrow> string option \<Rightarrow> audit_dir \<Rightarrow> audit_row \<Rightarrow> audit_row" where
  "chained_row A k d r =
     (case k of
        None \<Rightarrow> r
      | Some key \<Rightarrow> r\<lparr>au_prev_hmac := read_last_row_hmac A (ad_active d), au_row_hmac := compute_row_hmac A key (read_last_row_hmac A (ad_active d)) r\<rparr>)"

definition headed :: "audit_dir \<Rightarrow> bool" where
  "headed d \<longleftrightarrow> (ad_active d = None \<longrightarrow> ad_rotated d = []) \<and> (\<forall>rows. ad_active d = Some rows \<longrightarrow> after_header rows)"

lemma append_chain:
  assumes "headed d"
  shows "headed (append_audit_row A k m r d)"
    "chain_rows (append_audit_row A k m r d) = chain_rows d @ [audit_record (chained_row A k d r)]"
    "\<exists>rows. ad_active (append_audit_row A k m r d) = Some rows \<and> rows \<noteq> [] \<and> last rows = audit_record (chained_row A k d r)"
  using assms
  by (auto simp: headed_def append_audit_row_def Let_def chain_rows_def audit_files_def rotate_audit_file_def data_rows_def after_header_def
      chained_row_def split: option.splits list.splits if_splits)

lemma headed_empty: "headed empty_dir"
  by (simp add: headed_def empty_dir_def)

lemma read_last_record:
  assumes "ad_active d = Some rows" "rows \<noteq> []" "last rows = audit_record r"
  shows "read_last_row_hmac A (ad_active d) =
    (if py_strip (au_row_hmac r) = [] then genesis_prev_hmac A else py_strip (au_row_hmac r))"
  using assms record_not_header [of r]
  by (simp add: read_last_row_hmac_def Let_def idx_row_hmac_def) (simp add: audit_record_def)

lemma verify_chained_row:
  assumes "digests_ok A" "hex_text prev"
  shows "verify_row A key (audit_record (r\<lparr>au_prev_hmac := prev, au_row_hmac := compute_row_hmac A key prev r\<rparr>)) (prev, n) =
    Inr (compute_row_hmac A key prev r, n + 1)"
proof -
  have "py_strip (compute_row_hmac A key prev r) = compute_row_hmac A key prev r" "compute_row_hmac A key prev r \<noteq> []"
    using digests(1) [OF assms(1)] hmac_nonempty [OF assms(1)] by (simp_all add: compute_row_hmac_def hex_strip)
  then show ?thesis
    using hex_strip [OF assms(2)]
    by (simp add: verify_row_def audit_record_def reconstructed_def idx_row_hmac_def idx_prev_hmac_def Let_def)
      (simp add: compute_row_hmac_def signed_fields_def)
qed

definition written :: "audit_lib \<Rightarrow> string \<Rightarrow> nat \<Rightarrow> audit_dir \<Rightarrow> bool" where
  "written A key n d \<longleftrightarrow> headed d \<and> hex_text (read_last_row_hmac A (ad_active d)) \<and>
     verify_rows A key (chain_rows d) (genesis_prev_hmac A, 0) = Inr (read_last_row_hmac A (ad_active d), n)"

lemma written_append:
  assumes A: "digests_ok A" and w: "written A key n d"
  shows "written A key (n + 1) (append_audit_row A (Some key) m r d)"
    "read_last_row_hmac A (ad_active (append_audit_row A (Some key) m r d)) = compute_row_hmac A key (read_last_row_hmac A (ad_active d)) r"
proof -
  let ?prev = "read_last_row_hmac A (ad_active d)" and ?d = "append_audit_row A (Some key) m r d"
  have h: "headed d" "hex_text ?prev" "verify_rows A key (chain_rows d) (genesis_prev_hmac A, 0) = Inr (?prev, n)"
    using w by (simp_all add: written_def)
  have hm: "hex_text (compute_row_hmac A key ?prev r)" "compute_row_hmac A key ?prev r \<noteq> []"
    using digests(1) [OF A] hmac_nonempty [OF A] by (simp_all add: compute_row_hmac_def)
  obtain rows where rows: "ad_active ?d = Some rows" "rows \<noteq> []" "last rows = audit_record (chained_row A (Some key) d r)"
    using append_chain(3) [OF h(1)] by blast
  show last: "read_last_row_hmac A (ad_active ?d) = compute_row_hmac A key ?prev r"
    using read_last_record [OF rows] hm hex_strip by (simp add: chained_row_def)
  show "written A key (n + 1) ?d"
    using append_chain(1) [OF h(1)] h(3) hm verify_chained_row [OF A h(2), of key r n]
    by (simp add: written_def last append_chain(2) [OF h(1)] verify_rows_append chained_row_def)
qed

definition append_all :: "audit_lib \<Rightarrow> string \<Rightarrow> (int \<times> audit_row) list \<Rightarrow> audit_dir" where
  "append_all A key rows = foldl (\<lambda>d p. append_audit_row A (Some key) (fst p) (snd p) d) empty_dir rows"

lemma append_all_written: "digests_ok A \<Longrightarrow> written A key (length rows) (append_all A key rows)"
proof (induction rows rule: rev_induct)
  case Nil
  then show ?case
    using digests(3) by (simp add: append_all_def written_def headed_empty chain_rows_def audit_files_def)
      (simp add: empty_dir_def read_last_row_hmac_def)
next
  case (snoc p rows)
  then show ?case using written_append(1) [of A key "length rows" "append_all A key rows" "fst p" "snd p"] by (simp add: append_all_def)
qed

text \<open>
  C22: an audit log that was written with one key verifies, whatever the rows and wherever it was rotated: the verifier walks all
  files, counts every row and reports no break.
\<close>

theorem written_log_verifies:
  assumes "digests_ok A"
  shows "verify_audit_chain A key True (append_all A key rows) =
    \<lparr>cv_ok = True, cv_rows_checked = length rows, cv_first_break_row = None, cv_break_reason = None\<rparr>"
  using append_all_written [OF assms, of key rows] by (simp add: verify_chain written_def)

section \<open>What the last HMAC commits to\<close>

definition protected_row :: "csv_row \<Rightarrow> bool" where
  "protected_row row \<longleftrightarrow> py_strip (row ! idx_row_hmac) \<noteq> []"

text \<open>What is signed of a row: time, user, host, operation, target and request, by their columns, joined by bars.\<close>

definition signed_text :: "csv_row \<Rightarrow> string" where
  "signed_text row = row ! 0 @ ''|'' @ row ! 2 @ ''|'' @ row ! 1 @ ''|'' @ row ! 3 @ ''|'' @ row ! 4 @ ''|'' @ row ! 5"

definition signed_texts :: "csv_row list \<Rightarrow> string list" where
  "signed_texts rows = map signed_text (filter protected_row rows)"

lemma signed_fields_text: "signed_fields (reconstructed row) = signed_text row"
  by (simp add: signed_fields_def reconstructed_def signed_text_def)

text \<open>The joined text determines the fields if no field before the last has a bar.\<close>

definition bar_free :: "csv_row \<Rightarrow> bool" where
  "bar_free row \<longleftrightarrow> (\<forall>i < 5. CHR ''|'' \<notin> set (row ! i))"

lemma signed_text_inject:
  assumes "signed_text row = signed_text row'" "bar_free row" "bar_free row'" "6 \<le> length row" "6 \<le> length row'"
  shows "take 6 row = take 6 row'"
proof -
  have bars: "CHR ''|'' \<notin> set (row ! i)" "CHR ''|'' \<notin> set (row' ! i)" if "i < 5" for i
    using assms(2,3) that by (simp_all add: bar_free_def)
  have cut: "i < 5 \<Longrightarrow> j < 5 \<Longrightarrow> row ! i @ ''|'' @ s = row' ! j @ ''|'' @ t \<Longrightarrow> row ! i = row' ! j \<and> s = t" for i j s t
    using append_sep_inject [of "CHR ''|''" "row ! i" "row' ! j" s t] bars by simp
  have 0: "row ! 0 = row' ! 0 \<and> row ! 2 @ ''|'' @ row ! 1 @ ''|'' @ row ! 3 @ ''|'' @ row ! 4 @ ''|'' @ row ! 5 =
      row' ! 2 @ ''|'' @ row' ! 1 @ ''|'' @ row' ! 3 @ ''|'' @ row' ! 4 @ ''|'' @ row' ! 5"
    by (rule cut [OF _ _ assms(1) [unfolded signed_text_def]]) simp_all
  have 2: "row ! 2 = row' ! 2 \<and> row ! 1 @ ''|'' @ row ! 3 @ ''|'' @ row ! 4 @ ''|'' @ row ! 5 = row' ! 1 @ ''|'' @ row' ! 3 @ ''|'' @ row' ! 4 @ ''|'' @ row' ! 5"
    by (rule cut [OF _ _ conjunct2 [OF 0]]) simp_all
  have 1: "row ! 1 = row' ! 1 \<and> row ! 3 @ ''|'' @ row ! 4 @ ''|'' @ row ! 5 = row' ! 3 @ ''|'' @ row' ! 4 @ ''|'' @ row' ! 5"
    by (rule cut [OF _ _ conjunct2 [OF 2]]) simp_all
  have 3: "row ! 3 = row' ! 3 \<and> row ! 4 @ ''|'' @ row ! 5 = row' ! 4 @ ''|'' @ row' ! 5"
    by (rule cut [OF _ _ conjunct2 [OF 1]]) simp_all
  have 4: "row ! 4 = row' ! 4 \<and> row ! 5 = row' ! 5"
    by (rule cut [OF _ _ conjunct2 [OF 3]]) simp_all
  have "[row ! 0, row ! 1, row ! 2, row ! 3, row ! 4, row ! 5] = [row' ! 0, row' ! 1, row' ! 2, row' ! 3, row' ! 4, row' ! 5]"
    using 0 1 2 3 4 by blast
  moreover have "take 6 xs = [xs ! 0, xs ! 1, xs ! 2, xs ! 3, xs ! 4, xs ! 5]" if "6 \<le> length xs" for xs :: csv_row
  proof (rule nth_equalityI)
    show "take 6 xs ! i = [xs ! 0, xs ! 1, xs ! 2, xs ! 3, xs ! 4, xs ! 5] ! i" if "i < length (take 6 xs)" for i
      using that by (auto simp: less_Suc_eq numeral_eq_Suc)
  qed (use that in simp)
  ultimately show ?thesis using assms(4,5) by simp
qed

text \<open>The HMAC over a history of signed texts, and the messages that go into it.\<close>

definition chain_hmac :: "audit_lib \<Rightarrow> string \<Rightarrow> string \<Rightarrow> string list \<Rightarrow> string" where
  "chain_hmac A key = foldl (\<lambda>prev t. al_hmac A key (prev @ ''|'' @ t))"

definition chain_messages :: "audit_lib \<Rightarrow> string \<Rightarrow> string list \<Rightarrow> string set" where
  "chain_messages A key ts = {chain_hmac A key (genesis_prev_hmac A) (take i ts) @ ''|'' @ ts ! i | i. i < length ts}"

definition log_hmac :: "audit_lib \<Rightarrow> audit_dir \<Rightarrow> string" where
  "log_hmac A d =
     (case filter protected_row (chain_rows d) of [] \<Rightarrow> genesis_prev_hmac A | rows \<Rightarrow> py_strip (last rows ! idx_row_hmac))"

lemma verify_rows_hmac:
  "verify_rows A key rows (prev, n) = Inr (h, k) \<Longrightarrow>
     h = chain_hmac A key prev (signed_texts rows) \<and>
     h = (case filter protected_row rows of [] \<Rightarrow> prev | rs \<Rightarrow> py_strip (last rs ! idx_row_hmac))"
proof (induction rows arbitrary: prev n)
  case Nil
  then show ?case by (simp add: chain_hmac_def signed_texts_def)
next
  case (Cons row rows)
  then obtain prev' n' where 1: "verify_row A key row (prev, n) = Inr (prev', n')" and 2: "verify_rows A key rows (prev', n') = Inr (h, k)"
    by (auto split: sum.splits)
  show ?case
  proof (cases "protected_row row")
    case False
    then have "prev' = prev" using 1 by (auto simp: verify_row_def protected_row_def Let_def split: if_splits)
    with 2 have "verify_rows A key rows (prev, n') = Inr (h, k)" by simp
    from Cons.IH [OF this] False show ?thesis by (auto simp: signed_texts_def)
  next
    case True
    then have "prev' = al_hmac A key (prev @ ''|'' @ signed_fields (reconstructed row))" "prev' = py_strip (row ! idx_row_hmac)"
      using 1 by (auto simp: verify_row_def protected_row_def Let_def compute_row_hmac_def split: if_splits)
    with Cons.IH [OF 2] True show ?thesis by (auto simp: signed_texts_def chain_hmac_def signed_fields_text split: list.splits)
  qed
qed

lemma chain_hmac_shape:
  assumes "digests_ok A"
  shows "hex_text (chain_hmac A key (genesis_prev_hmac A) ts)"
    "length (chain_hmac A key (genesis_prev_hmac A) ts) = (if ts = [] then 32 else 64)"
proof -
  have "hex_text (chain_hmac A key (genesis_prev_hmac A) ts) \<and>
    length (chain_hmac A key (genesis_prev_hmac A) ts) = (if ts = [] then 32 else 64)"
    by (cases ts rule: rev_cases) (simp_all add: chain_hmac_def digests [OF assms])
  then show "hex_text (chain_hmac A key (genesis_prev_hmac A) ts)"
    "length (chain_hmac A key (genesis_prev_hmac A) ts) = (if ts = [] then 32 else 64)" by simp_all
qed

lemma chain_messages_snoc:
  "chain_messages A key (ts @ [t]) = insert (chain_hmac A key (genesis_prev_hmac A) ts @ ''|'' @ t) (chain_messages A key ts)"
proof -
  have "{..<length (ts @ [t])} = insert (length ts) {..<length ts}" by auto
  moreover have "chain_messages A key xs =
      (\<lambda>i. chain_hmac A key (genesis_prev_hmac A) (take i xs) @ ''|'' @ xs ! i) ` {..<length xs}" for xs
    by (auto simp: chain_messages_def)
  ultimately show ?thesis by (auto simp: nth_append)
qed

lemma chain_hmac_inject:
  assumes A: "digests_ok A"
  shows "inj_on (al_hmac A key) (chain_messages A key ts \<union> chain_messages A key us) \<Longrightarrow>
    chain_hmac A key (genesis_prev_hmac A) ts = chain_hmac A key (genesis_prev_hmac A) us \<Longrightarrow> ts = us"
proof (induction ts arbitrary: us rule: rev_induct)
  case Nil
  then have "length (chain_hmac A key (genesis_prev_hmac A) us) = 32" unfolding Nil.prems(2) [symmetric] by (simp add: chain_hmac_shape(2) [OF A])
  then show ?case by (simp add: chain_hmac_shape(2) [OF A] split: if_splits)
next
  case (snoc t ts)
  show ?case
  proof (cases us rule: rev_cases)
    case Nil
    have "length (chain_hmac A key (genesis_prev_hmac A) (ts @ [t])) = 32" unfolding snoc.prems(2) Nil by (simp add: chain_hmac_shape(2) [OF A])
    then show ?thesis by (simp add: chain_hmac_shape(2) [OF A])
  next
    case (snoc us' u)
    let ?h = "chain_hmac A key (genesis_prev_hmac A)"
    have eq: "al_hmac A key (?h ts @ ''|'' @ t) = al_hmac A key (?h us' @ ''|'' @ u)"
      using snoc.prems(2) snoc by (simp add: chain_hmac_def)
    have "?h ts @ ''|'' @ t = ?h us' @ ''|'' @ u"
      by (rule inj_onD [OF snoc.prems(1) eq]) (simp_all add: snoc chain_messages_snoc)
    then have "?h ts = ?h us'" "t = u"
      using append_sep_inject [of "CHR ''|''" "?h ts" "?h us'" t u]
        hex_no_bar [OF chain_hmac_shape(1) [OF A, of key ts]] hex_no_bar [OF chain_hmac_shape(1) [OF A, of key us']] by simp_all
    moreover have "inj_on (al_hmac A key) (chain_messages A key ts \<union> chain_messages A key us')"
      using snoc.prems(1) unfolding snoc chain_messages_snoc by (rule inj_on_subset) auto
    ultimately show ?thesis using snoc.IH [of us'] snoc by simp
  qed
qed

lemma verify_rows_long:
  "verify_rows A key rows st = Inr st' \<Longrightarrow> row \<in> set rows \<Longrightarrow> idx_row_hmac < length row"
  by (induction rows arbitrary: st) (auto simp: verify_row_def Let_def split: sum.splits if_splits prod.splits)

text \<open>
  C21: the last HMAC commits to the history. Two logs that verify under one key and end in the same HMAC have the same number of protected rows, and row by
  row the same text of time, user, host, operation, target and request joined by bars, provided that the HMAC does not collide on the messages of the two. If
  none of the first five columns of these rows has a bar in it, then the six columns are the same.
\<close>

theorem last_hmac_commits_history:
  assumes "digests_ok A" "cv_ok (verify_audit_chain A key True d)" "cv_ok (verify_audit_chain A key True e)"
    and "inj_on (al_hmac A key) (chain_messages A key (signed_texts (chain_rows d)) \<union> chain_messages A key (signed_texts (chain_rows e)))"
    and "log_hmac A d = log_hmac A e"
  shows "map (\<lambda>row. row ! 0 @ ''|'' @ row ! 2 @ ''|'' @ row ! 1 @ ''|'' @ row ! 3 @ ''|'' @ row ! 4 @ ''|'' @ row ! 5) (filter protected_row (chain_rows d)) =
      map (\<lambda>row. row ! 0 @ ''|'' @ row ! 2 @ ''|'' @ row ! 1 @ ''|'' @ row ! 3 @ ''|'' @ row ! 4 @ ''|'' @ row ! 5) (filter protected_row (chain_rows e)) \<and>
    ((\<forall>row \<in> set (filter protected_row (chain_rows d @ chain_rows e)). \<forall>i < 5. CHR ''|'' \<notin> set (row ! i)) \<longrightarrow>
      map (take 6) (filter protected_row (chain_rows d)) = map (take 6) (filter protected_row (chain_rows e)))"
proof -
  have hmac: "log_hmac A f = chain_hmac A key (genesis_prev_hmac A) (signed_texts (chain_rows f))"
    if "cv_ok (verify_audit_chain A key True f)" for f
    using that verify_rows_hmac [of A key "chain_rows f" "genesis_prev_hmac A" 0] by (auto simp: verify_chain_ok log_hmac_def)
  let ?d = "filter protected_row (chain_rows d)" and ?e = "filter protected_row (chain_rows e)"
  have same: "map signed_text ?d = map signed_text ?e"
    using chain_hmac_inject [OF assms(1,4)] hmac [OF assms(2)] hmac [OF assms(3)] assms(5) by (simp add: signed_texts_def)
  have long: "6 \<le> length row" if "row \<in> set (chain_rows d) \<union> set (chain_rows e)" for row
    using that assms(2,3) by (auto simp: verify_chain_ok idx_row_hmac_def dest!: verify_rows_long)
  have fields: "map (take 6) ?d = map (take 6) ?e" if bars: "\<forall>row \<in> set (filter protected_row (chain_rows d @ chain_rows e)). \<forall>i < 5. CHR ''|'' \<notin> set (row ! i)"
  proof (rule nth_equalityI)
    show len: "length (map (take 6) ?d) = length (map (take 6) ?e)" using arg_cong [OF same, of length] by simp
    fix i assume "i < length (map (take 6) ?d)"
    then have i: "i < length ?d" "i < length ?e" using len by simp_all
    have "?d ! i \<in> set ?d" "?e ! i \<in> set ?e" using i by (simp_all only: nth_mem)
    moreover have "signed_text (?d ! i) = signed_text (?e ! i)" using arg_cong [OF same, of "\<lambda>xs. xs ! i"] i by simp
    ultimately have "take 6 (?d ! i) = take 6 (?e ! i)"
      using bars by (intro signed_text_inject long) (auto simp: bar_free_def)
    then show "map (take 6) ?d ! i = map (take 6) ?e ! i" using i by simp
  qed
  have written: "map (\<lambda>row. row ! 0 @ ''|'' @ row ! 2 @ ''|'' @ row ! 1 @ ''|'' @ row ! 3 @ ''|'' @ row ! 4 @ ''|'' @ row ! 5) rows = map signed_text rows" for rows
    by (simp add: signed_text_def)
  show ?thesis unfolding written using same fields by blast
qed

section \<open>What the chain does not protect\<close>

lemma data_rows_append: "xs \<noteq> [] \<Longrightarrow> data_rows (xs @ ys) = data_rows xs @ ys"
  by (cases xs) (simp_all add: data_rows_def)

lemma chain_rows_active:
  "xs \<noteq> [] \<Longrightarrow> chain_rows (d\<lparr>ad_active := Some (xs @ ys)\<rparr>) = chain_rows (d\<lparr>ad_active := Some xs\<rparr>) @ ys"
  by (simp add: chain_rows_def audit_files_def data_rows_append)

definition rewritten_outcome :: "string \<Rightarrow> string \<Rightarrow> string \<Rightarrow> string \<Rightarrow> csv_row \<Rightarrow> csv_row" where
  "rewritten_outcome code expected received note row = row[6 := code, 7 := expected, 8 := received, 9 := note]"

lemma verify_rewritten: "verify_row A key (rewritten_outcome a b c e row) st = verify_row A key row st"
  by (cases st) (simp add: verify_row_def rewritten_outcome_def reconstructed_def idx_row_hmac_def idx_prev_hmac_def Let_def)

lemma verify_unprotected:
  "idx_row_hmac < length row \<Longrightarrow> \<not> protected_row row \<Longrightarrow> verify_row A key row (prev, n) = Inr (prev, n + 1)"
  by (simp add: verify_row_def protected_row_def Let_def)

text \<open>The counter of rows does not influence what is accepted.\<close>

lemma verify_row_counter:
  "verify_row A key row (prev, n) = Inr (prev', n') \<Longrightarrow> verify_row A key row (prev, m) = Inr (prev', m + 1)"
  by (auto simp: verify_row_def Let_def split: if_splits)

lemma verify_rows_counter:
  "verify_rows A key rows (prev, n) = Inr st \<Longrightarrow> \<exists>st'. verify_rows A key rows (prev, m) = Inr st'"
proof (induction rows arbitrary: prev n m)
  case Nil
  then show ?case by simp
next
  case (Cons row rows)
  then obtain prev' n' where 1: "verify_row A key row (prev, n) = Inr (prev', n')" and 2: "verify_rows A key rows (prev', n') = Inr st"
    by (auto split: sum.splits)
  from Cons.IH [OF 2] verify_row_counter [OF 1] show ?case by simp
qed

text \<open>
  Tampering that verifies. In a log that verifies, the exit code, the acknowledgement counts and the note of any row of
  the active file can be rewritten, any row without an HMAC can be slipped in, and any tail of the active file can be
  cut off, and the log still verifies.
\<close>

lemma chain_blind_spots:
  assumes "cv_ok (verify_audit_chain A key True (d\<lparr>ad_active := Some (xs @ row # ys)\<rparr>))" "xs \<noteq> []"
  shows "cv_ok (verify_audit_chain A key True (d\<lparr>ad_active := Some (xs @ rewritten_outcome code expected received note row # ys)\<rparr>)) \<and>
    (idx_row_hmac < length forged \<and> \<not> protected_row forged \<longrightarrow>
       cv_ok (verify_audit_chain A key True (d\<lparr>ad_active := Some (xs @ forged # row # ys)\<rparr>))) \<and>
    cv_ok (verify_audit_chain A key True (d\<lparr>ad_active := Some xs\<rparr>))"
proof -
  obtain st where ok: "verify_rows A key (chain_rows (d\<lparr>ad_active := Some xs\<rparr>) @ row # ys) (genesis_prev_hmac A, 0) = Inr st"
    using assms(1) unfolding verify_chain_ok chain_rows_active [OF assms(2)] by blast
  then obtain prev n where before: "verify_rows A key (chain_rows (d\<lparr>ad_active := Some xs\<rparr>)) (genesis_prev_hmac A, 0) = Inr (prev, n)"
    and after: "verify_rows A key (row # ys) (prev, n) = Inr st"
    by (auto simp: verify_rows_append split: sum.splits)
  have "verify_rows A key (rewritten_outcome code expected received note row # ys) (prev, n) = Inr st"
    using after by (simp add: verify_rewritten)
  moreover have "\<exists>st'. verify_rows A key (forged # row # ys) (prev, n) = Inr st'"
    if "idx_row_hmac < length forged" "\<not> protected_row forged"
    using verify_rows_counter [OF after, of "n + 1"] verify_unprotected [OF that] by simp
  ultimately show ?thesis
    using before unfolding verify_chain_ok chain_rows_active [OF assms(2)] verify_rows_append by auto
qed

text \<open>
  A gap in the key breaks an untouched log. After rows written with a key, one row written while no key is
  configured and one more with the key again, the writer restarts from the genesis value, while the verifier expects the last HMAC:
  the log that nobody touched is reported as broken at that row.
\<close>

lemma key_gap_breaks_untouched_log:
  assumes "digests_ok A" "rows \<noteq> []" "au_row_hmac r = []"
  shows "\<exists>h. h \<noteq> genesis_prev_hmac A \<and>
    verify_audit_chain A key True (append_audit_row A (Some key) m2 r2 (append_audit_row A None m r (append_all A key rows))) =
      broken_at (length rows + 2) (PrevMismatch h (genesis_prev_hmac A))"
proof -
  let ?d = "append_all A key rows"
  let ?e = "append_audit_row A None m r ?d"
  let ?h = "read_last_row_hmac A (ad_active ?d)"
  have w: "headed ?d" "verify_rows A key (chain_rows ?d) (genesis_prev_hmac A, 0) = Inr (?h, length rows)"
    using append_all_written [OF assms(1), of key rows] by (simp_all add: written_def)
  have "?h = chain_hmac A key (genesis_prev_hmac A) (signed_texts (chain_rows ?d))" "signed_texts (chain_rows ?d) \<noteq> []"
  proof -
    show hc: "?h = chain_hmac A key (genesis_prev_hmac A) (signed_texts (chain_rows ?d))" using verify_rows_hmac [OF w(2)] by simp
    obtain p rows' where rows: "rows = rows' @ [p]" using assms(2) by (cases rows rule: rev_cases) auto
    have "?h = compute_row_hmac A key (read_last_row_hmac A (ad_active (append_all A key rows'))) (snd p)"
      using written_append(2) [OF assms(1) append_all_written [OF assms(1), of key rows'], of "fst p" "snd p"]
      by (simp add: rows append_all_def)
    then have "length ?h = 64" by (simp add: compute_row_hmac_def digests [OF assms(1)])
    then show "signed_texts (chain_rows ?d) \<noteq> []" unfolding hc by (auto simp: chain_hmac_shape(2) [OF assms(1)])
  qed
  then have "length ?h = 64" by (simp add: chain_hmac_shape(2) [OF assms(1)])
  then have ne: "?h \<noteq> genesis_prev_hmac A" using digests(4) [OF assms(1)] by auto
  have e: "headed ?e" "chain_rows ?e = chain_rows ?d @ [audit_record r]"
    using append_chain(1,2) [OF w(1), of A None m r] by (simp_all add: chained_row_def)
  obtain es where es: "ad_active ?e = Some es" "es \<noteq> []" "last es = audit_record r"
    using append_chain(3) [OF w(1), of A None m r] by (auto simp: chained_row_def)
  have g: "read_last_row_hmac A (ad_active ?e) = genesis_prev_hmac A"
    unfolding read_last_record [OF es] by (simp add: assms(3) py_strip_def)
  let ?r2 = "r2\<lparr>au_prev_hmac := genesis_prev_hmac A, au_row_hmac := compute_row_hmac A key (genesis_prev_hmac A) r2\<rparr>"
  have rows2: "chain_rows (append_audit_row A (Some key) m2 r2 ?e) = chain_rows ?d @ [audit_record r, audit_record ?r2]"
    using append_chain(2) [OF e(1), of A "Some key" m2 r2] e(2) g by (simp add: chained_row_def)
  have "verify_row A key (audit_record r) (?h, length rows) = Inr (?h, length rows + 1)"
    using assms(3) by (intro verify_unprotected) (simp_all add: audit_record_def idx_row_hmac_def protected_row_def py_strip_def)
  moreover have "verify_row A key (audit_record ?r2) (?h, length rows + 1) = Inl (broken_at (length rows + 2) (PrevMismatch ?h (genesis_prev_hmac A)))"
    using ne hex_strip [OF digests(3) [OF assms(1)]] hex_strip [OF digests(1) [OF assms(1)]] hmac_nonempty [OF assms(1)]
    by (simp add: verify_row_def audit_record_def idx_row_hmac_def idx_prev_hmac_def Let_def compute_row_hmac_def)
  ultimately show ?thesis using ne w(2) by (intro exI [of _ ?h]) (simp add: verify_chain rows2 verify_rows_append)
qed

section \<open>Examples\<close>

text \<open>A stand-in for the digests that tells messages apart by their length.\<close>

definition example_audit :: audit_lib where
  "example_audit = \<lparr>al_hmac = (\<lambda>k m. if even (length m) then replicate 64 (CHR ''0'') else replicate 64 (CHR ''1'')),
     al_sha256 = (\<lambda>m. replicate 64 (CHR ''a'')), al_bytes = (\<lambda>rows. int (length rows))\<rparr>"

definition example_audit_row :: "string \<Rightarrow> int \<Rightarrow> audit_row" where
  "example_audit_row op1 code = \<lparr>au_timestamp_utc = ''t'', au_host = ''h'', au_user = ''u'', au_op = op1, au_target = ''x'', au_request_id = ''r'',
     au_exit_code = code, au_expected_acks = 1, au_received_acks = 1, au_note = [], au_prev_hmac = [], au_row_hmac = []\<rparr>"

lemma example_audit_digests: "digests_ok example_audit"
  by (simp add: digests_ok_def example_audit_def hex_text_def set_replicate_conv_if)

theorem written_log_verifies_witness:
  "cv_ok (verify_audit_chain example_audit ''k'' True
     (append_all example_audit ''k'' [(1, example_audit_row ''a'' 0), (1, example_audit_row ''b'' 1), (0, example_audit_row ''c'' 0)]))"
  by (simp add: written_log_verifies [OF example_audit_digests])

text \<open>Two logs of one row each whose HMACs agree: the rows differ in their outcome only.\<close>

lemma example_audit_rows:
  "chain_rows (append_all example_audit key [(m, example_audit_row op1 code)]) =
     [audit_record (chained_row example_audit (Some key) empty_dir (example_audit_row op1 code))]"
  using append_chain(2) [OF headed_empty, of example_audit "Some key" m "example_audit_row op1 code"]
  by (simp add: append_all_def chain_rows_def audit_files_def empty_dir_def)

lemma example_audit_protected: "protected_row (audit_record (chained_row example_audit (Some key) empty_dir r))"
  using hex_strip [OF digests(1) [OF example_audit_digests]] hmac_nonempty [OF example_audit_digests]
  by (simp add: protected_row_def audit_record_def chained_row_def idx_row_hmac_def compute_row_hmac_def)

lemma example_audit_signed:
  "signed_texts (chain_rows (append_all example_audit key [(m, example_audit_row op1 code)])) = [signed_fields (example_audit_row op1 code)]"
  by (simp add: example_audit_rows signed_texts_def example_audit_protected)
    (simp add: signed_text_def audit_record_def chained_row_def signed_fields_def)

lemma chain_messages_single: "chain_messages A key [t] = {genesis_prev_hmac A @ ''|'' @ t}"
  using chain_messages_snoc [of A key "[]" t] by (simp add: chain_hmac_def chain_messages_def)

lemma example_audit_hmac:
  "log_hmac example_audit (append_all example_audit key [(m, example_audit_row op1 code)]) =
     py_strip (compute_row_hmac example_audit key (genesis_prev_hmac example_audit) (example_audit_row op1 code))"
  by (simp add: log_hmac_def example_audit_rows example_audit_protected)
    (simp add: audit_record_def chained_row_def idx_row_hmac_def empty_dir_def read_last_row_hmac_def)

theorem last_hmac_commits_history_witness:
  "map (take 6) (filter protected_row (chain_rows (append_all example_audit ''k'' [(0, example_audit_row ''a'' 0)]))) =
   map (take 6) (filter protected_row (chain_rows (append_all example_audit ''k'' [(0, example_audit_row ''a'' 1)])))"
proof (rule last_hmac_commits_history [where A = example_audit and key = "''k''", THEN conjunct2, THEN mp])
  show "cv_ok (verify_audit_chain example_audit ''k'' True (append_all example_audit ''k'' [(0, example_audit_row ''a'' n)]))" for n
    using append_all_written [OF example_audit_digests] by (auto simp: verify_chain_ok written_def)
  then show "cv_ok (verify_audit_chain example_audit ''k'' True (append_all example_audit ''k'' [(0, example_audit_row ''a'' 1)]))" .
  show "\<forall>row \<in> set (filter protected_row (chain_rows (append_all example_audit ''k'' [(0, example_audit_row ''a'' 0)]) @
      chain_rows (append_all example_audit ''k'' [(0, example_audit_row ''a'' 1)]))). \<forall>i < 5. CHR ''|'' \<notin> set (row ! i)"
    unfolding example_audit_rows by (auto simp: audit_record_def chained_row_def example_audit_row_def less_Suc_eq numeral_eq_Suc)
qed (simp_all add: example_audit_digests example_audit_signed chain_messages_single example_audit_hmac,
   simp_all add: example_audit_row_def signed_fields_def compute_row_hmac_def)

end
