(* ===== verification/Spool.thy ===== *)
theory Spool
  imports Wire_Ops Bus_Types
begin

text \<open>
  The spool directories of the agents and of the operator tool: file names, reading an entry back, and the two
  scans of \<open>swarm/sdk/spool_aging.py\<close>. A directory is the list of its \<open>*.envelope.json\<close> files in the order in
  which it is listed; the body of a file is the JSON value it holds, \<^const>\<open>None\<close> when it is not JSON. Moving and deleting a
  file that was listed succeeds. The fields of an envelope have their declared types: an entry with an envelope
  field of another type, or whose payload is not an object, is taken as unreadable.
\<close>

record spool_entry =
  se_name :: string
  se_mtime :: real
  se_body :: "jval option"

section \<open>File names\<close>

text \<open>\<open>f"{ms:016d}-{msg_id}.envelope.json"\<close>.\<close>

definition pad16 :: "nat \<Rightarrow> string" where
  "pad16 n = replicate (16 - length (show_nat n)) (CHR ''0'') @ show_nat n"

definition spool_name :: "nat \<Rightarrow> string \<Rightarrow> string" where
  "spool_name ms msg_id = pad16 ms @ ''-'' @ msg_id @ ''.envelope.json''"

definition extract_ms :: "pylib \<Rightarrow> string \<Rightarrow> int option" where
  "extract_ms L name = pl_int L (takeWhile (\<lambda>c. c \<noteq> CHR ''-'') name)"

text \<open>\<open>path.stem\<close> drops the last suffix only.\<close>

definition stem_id :: "string \<Rightarrow> string" where
  "stem_id name =
     (let stem = take (length name - 5) name in
      case dropWhile (\<lambda>c. c \<noteq> CHR ''-'') stem of [] \<Rightarrow> stem | _ # rest \<Rightarrow> rest)"

definition write_file :: "string \<Rightarrow> real \<Rightarrow> jval \<Rightarrow> spool_entry list \<Rightarrow> spool_entry list res" where
  "write_file name mtime body spool =
     (if CHR ''/'' \<in> set name \<or> 255 < length name \<or> name \<in> se_name ` set spool then Inl OSError
      else Inr (spool @ [\<lparr>se_name = name, se_mtime = mtime, se_body = Some body\<rparr>]))"

section \<open>Reading an entry back\<close>

definition envelope_fields :: "string list" where
  "envelope_fields = [''message_id'', ''trace_id'', ''topic'', ''producer'', ''created_at'', ''schema_version'', ''attempt'']"

definition str_field :: "jobj \<Rightarrow> string \<Rightarrow> string \<Rightarrow> string option" where
  "str_field d k dflt = (case jget_or d k (JStr dflt) of JStr s \<Rightarrow> Some s | _ \<Rightarrow> None)"

definition int_field :: "jobj \<Rightarrow> string \<Rightarrow> int \<Rightarrow> int option" where
  "int_field d k dflt = (case jget_or d k (JInt dflt) of JInt i \<Rightarrow> Some i | _ \<Rightarrow> None)"

text \<open>\<open>Envelope(**d)\<close>: an unknown key raises, a missing one takes the field's default.\<close>

definition envelope_of :: "fresh \<Rightarrow> jobj \<Rightarrow> envelope option" where
  "envelope_of fr d =
     (if \<not> fst ` set d \<subseteq> set envelope_fields then None
      else
        case (str_field d ''message_id'' (fr_message_id fr), str_field d ''trace_id'' (fr_trace_id fr), str_field d ''topic'' [],
              str_field d ''producer'' [], str_field d ''created_at'' (fr_now fr),
              int_field d ''schema_version'' envelope_schema_version, int_field d ''attempt'' 0) of
          (Some message_id, Some trace_id, Some topic, Some producer, Some created_at, Some schema_version, Some attempt) \<Rightarrow>
            Some \<lparr>en_message_id = message_id, en_trace_id = trace_id, en_topic = topic, en_producer = producer,
                  en_created_at = created_at, en_schema_version = schema_version, en_attempt = attempt\<rparr>
        | _ \<Rightarrow> None)"

definition load_message :: "fresh \<Rightarrow> spool_entry \<Rightarrow> message option" where
  "load_message fr e =
     (case se_body e of
        Some (JObj data) \<Rightarrow>
          (case map_of data ''envelope'' of
             Some (JObj d) \<Rightarrow>
               (case (envelope_of fr d, or_empty data ''payload'') of
                  (Some env, JObj payload) \<Rightarrow> Some \<lparr>msg_envelope = env, msg_payload = payload\<rparr>
                | _ \<Rightarrow> None)
           | _ \<Rightarrow> None)
      | _ \<Rightarrow> None)"

section \<open>Aged entries\<close>

text \<open>\<open>round(x, 2)\<close>, \<open>f"{x:.1f}"\<close> and the time stamp of a scan.\<close>

record aging_lib =
  ag_round :: "real \<Rightarrow> real"
  ag_show :: "real \<Rightarrow> string"
  ag_iso :: string

definition entry_labels :: "pylib \<Rightarrow> spool_entry \<Rightarrow> string \<times> string" where
  "entry_labels L e =
     (case se_body e of
        Some (JObj data) \<Rightarrow>
          (case or_empty data ''payload'' of
             JObj payload \<Rightarrow>
               (py_str L (jget_or payload ''kind'' (JStr ''unknown'')),
                case map_of payload ''request_id'' of None \<Rightarrow> stem_id (se_name e) | Some j \<Rightarrow> py_str L j)
           | _ \<Rightarrow> (''unknown'', stem_id (se_name e)))
      | _ \<Rightarrow> (''unknown'', stem_id (se_name e)))"

record prune_result =
  pr_pruned :: "string list"
  pr_events :: "emission list"
  pr_alerts :: "emission list"

definition aged_event :: "aging_lib \<Rightarrow> string \<Rightarrow> string \<Rightarrow> string \<Rightarrow> real \<Rightarrow> string \<times> string \<Rightarrow> emission" where
  "aged_event G target producer label age_h kr =
     \<lparr>em_topic = maint_event_topic,
      em_payload =
        [(''kind'', JStr ''spool_entry_aged_out''), (''kind_schema_version'', JInt 1), (''produced_at'', JStr (ag_iso G)),
         (''target'', JStr target), (''request_id'', JStr (snd kr)), (''age_h'', JFloat (ag_round G age_h)),
         (''entry_kind'', JStr (fst kr)), (''spool'', JStr label)],
      em_producer = producer, em_trace = None\<rparr>"

definition aged_alert :: "aging_lib \<Rightarrow> string \<Rightarrow> string \<Rightarrow> real \<Rightarrow> string \<Rightarrow> emission" where
  "aged_alert G target producer age_h entry_kind =
     \<lparr>em_topic = sec_alert_topic,
      em_payload =
        [(''kind'', JStr ''spool_entry_aged_out''), (''severity'', JStr ''warn''), (''source'', JStr producer), (''subject'', JStr target),
         (''ts'', JStr (ag_iso G)),
         (''note'', JStr (''spool entry aged out: target='' @ target @ '' age_h='' @ ag_show G age_h @ '' entry_kind='' @ entry_kind))],
      em_producer = producer, em_trace = None\<rparr>"

fun prune_entries ::
  "pylib \<Rightarrow> aging_lib \<Rightarrow> int \<Rightarrow> int \<Rightarrow> string \<Rightarrow> string \<Rightarrow> string \<Rightarrow> spool_entry list \<Rightarrow> prune_result \<times> spool_entry list \<Rightarrow>
     prune_result \<times> spool_entry list" where
  "prune_entries L G max_age_ms now_ms target producer label [] st = st"
| "prune_entries L G max_age_ms now_ms target producer label (e # es) (r, spool) =
     (case extract_ms L (se_name e) of
        None \<Rightarrow> prune_entries L G max_age_ms now_ms target producer label es (r, spool)
      | Some entry_ms \<Rightarrow>
          let age_ms = now_ms - entry_ms; age_h = real_of_int age_ms / 3600000; kr = entry_labels L e in
          if age_ms \<le> max_age_ms then prune_entries L G max_age_ms now_ms target producer label es (r, spool)
          else
            prune_entries L G max_age_ms now_ms target producer label es
              (\<lparr>pr_pruned = pr_pruned r @ [se_name e],
                pr_events = pr_events r @ [aged_event G target producer label age_h kr],
                pr_alerts = (if pr_alerts r = [] then [aged_alert G target producer age_h (fst kr)] else pr_alerts r)\<rparr>,
               filter (\<lambda>x. se_name x \<noteq> se_name e) spool))"

definition prune_aged ::
  "pylib \<Rightarrow> aging_lib \<Rightarrow> int \<Rightarrow> real \<Rightarrow> string \<Rightarrow> string \<Rightarrow> string \<Rightarrow> spool_entry list \<Rightarrow> prune_result \<times> spool_entry list" where
  "prune_aged L G max_age_h now_s target producer label spool =
     (let r0 = \<lparr>pr_pruned = [], pr_events = [], pr_alerts = []\<rparr> in
      if max_age_h \<le> 0 then (r0, spool)
      else prune_entries L G (max_age_h * 3600 * 1000) (Json.truncate (now_s * 1000)) target producer label (sort_key se_name spool) (r0, spool))"

section \<open>Retired kinds\<close>

record retired_result =
  rt_retired :: "(string \<times> jval) list"
  rt_sidecars :: "(string, jobj) odict"
  rt_alerted :: "(string \<times> string) list"
  rt_alerts :: "emission list"

definition retired_alert :: "aging_lib \<Rightarrow> string \<Rightarrow> string \<Rightarrow> string \<Rightarrow> string \<Rightarrow> emission" where
  "retired_alert G target producer entry_kind reason =
     \<lparr>em_topic = sec_alert_topic,
      em_payload =
        [(''kind'', JStr ''spool_entry_retired_kind''), (''kind_schema_version'', JInt 1), (''severity'', JStr ''warn''), (''source'', JStr producer),
         (''subject'', JStr target), (''ts'', JStr (ag_iso G)), (''entry_kind'', JStr entry_kind), (''reason'', JStr reason),
         (''note'', JStr (''spool entry quarantined: target='' @ target @ '' entry_kind='' @ entry_kind @ '' reason='' @ reason))],
      em_producer = producer, em_trace = None\<rparr>"

definition retired_sidecar :: "aging_lib \<Rightarrow> string \<Rightarrow> string \<Rightarrow> int \<Rightarrow> int \<Rightarrow> string \<times> string \<Rightarrow> string \<Rightarrow> jobj" where
  "retired_sidecar G current_version label min_version version kr reason =
     [(''kind'', JStr (fst kr)), (''reason'', JStr reason), (''retired_at_version'', JStr current_version),
      (''current_version'', JStr current_version), (''request_id'', JStr (snd kr)), (''quarantined_at'', JStr (ag_iso G)), (''spool'', JStr label)] @
     (if reason = ''schema_outdated'' then
        [(''envelope_schema_version'', JInt version), (''min_supported_schema_version'', JInt min_version)] else [])"

text \<open>What the scan reads off an entry, raising as the code does: kind, request id and schema version.\<close>

definition retired_labels :: "pylib \<Rightarrow> string \<Rightarrow> jval \<Rightarrow> ((string \<times> string) \<times> int) res" where
  "retired_labels L name body =
     (case body of
        JObj data \<Rightarrow>
          (case or_empty data ''payload'' of
             JObj payload \<Rightarrow>
               (case or_empty data ''envelope'' of
                  JObj env \<Rightarrow>
                    res_bind (py_int L (jget_or env ''schema_version'' (JInt 1))) (\<lambda>version.
                    Inr ((py_str L (jget_or payload ''kind'' (JStr ''unknown'')),
                          case map_of payload ''request_id'' of None \<Rightarrow> stem_id name | Some j \<Rightarrow> py_str L j), version))
                | _ \<Rightarrow> Inl AttributeError)
           | _ \<Rightarrow> Inl AttributeError)
      | _ \<Rightarrow> Inl AttributeError)"

definition retire_reason :: "string list \<Rightarrow> int \<Rightarrow> string \<Rightarrow> int \<Rightarrow> string option" where
  "retire_reason known min_version entry_kind version =
     (if entry_kind \<notin> set known then Some ''unknown_kind''
      else if 1 < min_version \<and> version < min_version then Some ''schema_outdated'' else None)"

text \<open>One retired entry: moved, described by a sidecar when that file can be created, announced once for its kind and reason.\<close>

definition retire ::
  "aging_lib \<Rightarrow> int \<Rightarrow> string \<Rightarrow> string \<Rightarrow> string \<Rightarrow> string \<Rightarrow> string \<Rightarrow> jval \<Rightarrow> string \<times> string \<Rightarrow> int \<Rightarrow> string \<Rightarrow> retired_result \<Rightarrow> retired_result" where
  "retire G min_version target producer current_version label name body kr version reason r =
     \<lparr>rt_retired = rt_retired r @ [(name, body)],
      rt_sidecars =
        (let file = snd kr @ ''.retired.json'' in
         if CHR ''/'' \<in> set file \<or> 255 < length file then rt_sidecars r
         else od_set file (retired_sidecar G current_version label min_version version kr reason) (rt_sidecars r)),
      rt_alerted = (if (fst kr, reason) \<in> set (rt_alerted r) then rt_alerted r else rt_alerted r @ [(fst kr, reason)]),
      rt_alerts = (if (fst kr, reason) \<in> set (rt_alerted r) then rt_alerts r
                   else rt_alerts r @ [retired_alert G target producer (fst kr) reason])\<rparr>"

fun retire_entries ::
  "pylib \<Rightarrow> aging_lib \<Rightarrow> string list \<Rightarrow> int \<Rightarrow> string \<Rightarrow> string \<Rightarrow> string \<Rightarrow> string \<Rightarrow> spool_entry list \<Rightarrow> retired_result \<times> spool_entry list \<Rightarrow>
     unit res \<times> retired_result \<times> spool_entry list" where
  "retire_entries L G known min_version target producer current_version label [] st = (Inr (), st)"
| "retire_entries L G known min_version target producer current_version label (e # es) (r, spool) =
     (case se_body e of
        None \<Rightarrow> retire_entries L G known min_version target producer current_version label es (r, spool)
      | Some body \<Rightarrow>
          (case retired_labels L (se_name e) body of
             Inl err \<Rightarrow> (Inl err, r, spool)
           | Inr (kr, version) \<Rightarrow>
               (case retire_reason known min_version (fst kr) version of
                  None \<Rightarrow> retire_entries L G known min_version target producer current_version label es (r, spool)
                | Some reason \<Rightarrow>
                    retire_entries L G known min_version target producer current_version label es
                      (retire G min_version target producer current_version label (se_name e) body kr version reason r,
                       filter (\<lambda>x. se_name x \<noteq> se_name e) spool))))"

definition quarantine_retired ::
  "pylib \<Rightarrow> aging_lib \<Rightarrow> string list \<Rightarrow> int \<Rightarrow> string \<Rightarrow> string \<Rightarrow> string \<Rightarrow> string \<Rightarrow> spool_entry list \<Rightarrow>
     unit res \<times> retired_result \<times> spool_entry list" where
  "quarantine_retired L G known min_version target producer current_version label spool =
     retire_entries L G known min_version target producer current_version label (sort_key se_name spool)
       (\<lparr>rt_retired = [], rt_sidecars = [], rt_alerted = [], rt_alerts = []\<rparr>, spool)"

section \<open>Names sort by time\<close>

lemma read_nat_snoc: "read_nat (xs @ [c]) = 10 * read_nat xs + char_digit c"
  by (simp add: read_nat_def)

lemma read_nat_Cons: "read_nat (c # xs) = char_digit c * 10 ^ length xs + read_nat xs"
  by (induction xs rule: rev_induct) (simp_all add: read_nat_snoc flip: append_Cons, simp_all add: read_nat_def)

definition all_digits :: "string \<Rightarrow> bool" where
  "all_digits s \<longleftrightarrow> (\<forall>c \<in> set s. \<exists>d < 10. c = digit_char d)"

lemma read_nat_bound: "all_digits s \<Longrightarrow> read_nat s < 10 ^ length s"
  by (induction s rule: rev_induct) (auto simp: all_digits_def read_nat_snoc, simp add: read_nat_def)

lemma digit_char_less: "d < 10 \<Longrightarrow> e < 10 \<Longrightarrow> digit_char d < digit_char e \<longleftrightarrow> d < e"
  by (simp add: digit_char_def less_char_def)

lemma digits_less:
  "all_digits xs \<Longrightarrow> all_digits ys \<Longrightarrow> length xs = length ys \<Longrightarrow> read_nat xs < read_nat ys \<Longrightarrow> xs @ us < ys @ vs"
proof (induction xs arbitrary: ys)
  case Nil
  then show ?case by simp
next
  case (Cons c xs)
  then obtain d ys' where ys: "ys = d # ys'" "length ys' = length xs" by (cases ys) auto
  with Cons.prems obtain i j where ij: "i < 10" "c = digit_char i" "j < 10" "d = digit_char j" "all_digits xs" "all_digits ys'"
    by (auto simp: all_digits_def)
  have less: "i * 10 ^ length xs + read_nat xs < j * 10 ^ length xs + read_nat ys'"
    using Cons.prems(4) ys ij by (simp add: read_nat_Cons)
  consider "i < j" | "i = j" | "j < i" by linarith
  then show ?case
  proof cases
    case 1
    then show ?thesis using ij ys digit_char_less [of i j] by simp
  next
    case 2
    then show ?thesis using less Cons.IH [of ys'] ij ys by simp
  next
    case 3
    then have "(j + 1) * 10 ^ length xs \<le> i * 10 ^ length xs" by (intro mult_right_mono) auto
    then show ?thesis using less read_nat_bound [OF ij(6)] ys(2) by (simp add: algebra_simps)
  qed
qed

lemma show_nat_length: "n < 10 ^ k \<Longrightarrow> 0 < k \<Longrightarrow> length (show_nat n) \<le> k"
proof (induction n arbitrary: k rule: show_nat.induct)
  case (1 n)
  show ?case
  proof (cases "n < 10")
    case True
    then show ?thesis using "1.prems" by (simp add: show_nat.simps [of n])
  next
    case False
    then obtain j where k: "k = Suc j" "0 < j" using "1.prems" by (cases k; cases "k - 1") auto
    then have "n div 10 < 10 ^ j" using "1.prems"(1) by (simp add: less_mult_imp_div_less mult.commute)
    then show ?thesis using "1.IH" [OF False _ k(2)] False k(1) by (simp add: show_nat.simps [of n])
  qed
qed

lemma pad16:
  assumes "n < 10 ^ 16"
  shows "length (pad16 n) = 16" "all_digits (pad16 n)" "read_nat (pad16 n) = n"
proof -
  have zero: "\<exists>d < 10. CHR ''0'' = digit_char d" by (intro exI [of _ 0]) (simp add: digit_char_def, simp add: char_of_def bit_iff_odd)
  show "length (pad16 n) = 16" using show_nat_length [of n 16] assms by (simp add: pad16_def)
  show "all_digits (pad16 n)"
    using show_nat_chars [of _ n] zero by (auto simp: pad16_def all_digits_def)
  have "read_nat (replicate k (CHR ''0'') @ show_nat n) = n" for k
    by (induction k) (simp_all add: read_nat_Cons char_digit_def)
  then show "read_nat (pad16 n) = n" by (simp add: pad16_def)
qed

lemma spool_name_less: "m < n \<Longrightarrow> n < 10 ^ 16 \<Longrightarrow> spool_name m a < spool_name n b"
  unfolding spool_name_def by (rule digits_less) (simp_all add: pad16)

lemma spool_name_prefix: "n < 10 ^ 16 \<Longrightarrow> takeWhile (\<lambda>c. c \<noteq> CHR ''-'') (spool_name n a) = pad16 n"
proof -
  assume "n < 10 ^ 16"
  then have "\<forall>c \<in> set (pad16 n). c \<noteq> CHR ''-''" using pad16(2) [of n] digit_char_neq(1) unfolding all_digits_def by metis
  then show ?thesis by (simp add: spool_name_def takeWhile_append2)
qed

section \<open>What is written reads back\<close>

lemma load_written: "se_body e = Some (codec_encode m) \<Longrightarrow> load_message fr e = Some m"
proof (cases m)
  case (fields v p)
  then show "se_body e = Some (codec_encode m) \<Longrightarrow> load_message fr e = Some m"
    by (cases v) (simp add: load_message_def codec_encode_def envelope_of_def envelope_as_dict_def envelope_fields_def
        str_field_def int_field_def or_empty_def json_simps)
qed

section \<open>What a scan removes\<close>

definition aged_out :: "pylib \<Rightarrow> int \<Rightarrow> real \<Rightarrow> spool_entry \<Rightarrow> bool" where
  "aged_out L max_age_h now_s e \<longleftrightarrow> 0 < max_age_h \<and>
     (case extract_ms L (se_name e) of None \<Rightarrow> False | Some ms \<Rightarrow> max_age_h * 3600 * 1000 < Json.truncate (now_s * 1000) - ms)"

definition age_hours :: "pylib \<Rightarrow> real \<Rightarrow> spool_entry \<Rightarrow> real" where
  "age_hours L now_s e =
     (case extract_ms L (se_name e) of None \<Rightarrow> 0 | Some ms \<Rightarrow> real_of_int (Json.truncate (now_s * 1000) - ms) / 3600000)"

lemma prune_step:
  assumes "0 < h" "M = h * 3600 * 1000" "N = Json.truncate (now_s * 1000)"
  shows "prune_entries L G M N target producer label (e # es) (r, spool) =
    (if aged_out L h now_s e then
       prune_entries L G M N target producer label es
         (\<lparr>pr_pruned = pr_pruned r @ [se_name e],
           pr_events = pr_events r @ [aged_event G target producer label (age_hours L now_s e) (entry_labels L e)],
           pr_alerts =
             (if pr_alerts r = [] then [aged_alert G target producer (age_hours L now_s e) (fst (entry_labels L e))] else pr_alerts r)\<rparr>,
          filter (\<lambda>x. se_name x \<noteq> se_name e) spool)
     else prune_entries L G M N target producer label es (r, spool))"
  using assms(1) by (simp add: assms(2,3) aged_out_def age_hours_def Let_def not_less split: option.splits)

lemma prune_entries_exact:
  assumes "0 < h" "M = h * 3600 * 1000" "N = Json.truncate (now_s * 1000)"
  shows "prune_entries L G M N target producer label es (r, spool) =
    (\<lparr>pr_pruned = pr_pruned r @ map se_name (filter (aged_out L h now_s) es),
      pr_events = pr_events r @ map (\<lambda>e. aged_event G target producer label (age_hours L now_s e) (entry_labels L e)) (filter (aged_out L h now_s) es),
      pr_alerts =
        (if pr_alerts r \<noteq> [] then pr_alerts r
         else map (\<lambda>e. aged_alert G target producer (age_hours L now_s e) (fst (entry_labels L e))) (take 1 (filter (aged_out L h now_s) es)))\<rparr>,
     filter (\<lambda>x. se_name x \<notin> se_name ` set (filter (aged_out L h now_s) es)) spool)"
proof (induction es arbitrary: r spool)
  case Nil
  then show ?case by simp
next
  case (Cons e es)
  show ?case
    unfolding prune_step [OF assms] by (simp add: Cons.IH conj_commute)
qed

text \<open>
  Pruning removes exactly the aged entries. An entry goes when the time in its name is more than the maximal age ago, whatever it
  holds; each one that goes is announced by an event, oldest name first, one alert at most is raised, and the rest
  of the directory is as it was. An entry whose name carries no time never goes.
\<close>

lemma prune_removes_aged:
  "prune_aged L G h now_s target producer label spool =
     (let aged = filter (aged_out L h now_s) (sort_key se_name spool) in
      (\<lparr>pr_pruned = map se_name aged,
        pr_events = map (\<lambda>e. aged_event G target producer label (age_hours L now_s e) (entry_labels L e)) aged,
        pr_alerts = map (\<lambda>e. aged_alert G target producer (age_hours L now_s e) (fst (entry_labels L e))) (take 1 aged)\<rparr>,
       filter (\<lambda>e. \<not> aged_out L h now_s e) spool))"
proof (cases "0 < h")
  case False
  then show ?thesis by (simp add: prune_aged_def aged_out_def)
next
  case True
  have "aged_out L h now_s x \<longleftrightarrow> se_name x \<in> se_name ` set (filter (aged_out L h now_s) (sort_key se_name spool))" if "x \<in> set spool" for x
    using that by (auto simp: aged_out_def)
  then have "filter (\<lambda>x. se_name x \<notin> se_name ` set (filter (aged_out L h now_s) (sort_key se_name spool))) spool =
      filter (\<lambda>e. \<not> aged_out L h now_s e) spool"
    by (intro filter_cong) simp_all
  then show ?thesis unfolding prune_aged_def Let_def prune_entries_exact [OF True refl refl] using True by simp
qed

section \<open>What is quarantined\<close>

definition retirable :: "pylib \<Rightarrow> string list \<Rightarrow> int \<Rightarrow> spool_entry \<Rightarrow> ((string \<times> string) \<times> string) option" where
  "retirable L known min_version e =
     (case se_body e of
        None \<Rightarrow> None
      | Some body \<Rightarrow>
          (case retired_labels L (se_name e) body of
             Inl _ \<Rightarrow> None
           | Inr (kr, version) \<Rightarrow> map_option (\<lambda>reason. (kr, reason)) (retire_reason known min_version (fst kr) version)))"

definition scannable :: "pylib \<Rightarrow> spool_entry \<Rightarrow> bool" where
  "scannable L e \<longleftrightarrow> (\<forall>body. se_body e = Some body \<longrightarrow> (\<exists>x. retired_labels L (se_name e) body = Inr x))"

definition alert_keys :: "pylib \<Rightarrow> string list \<Rightarrow> int \<Rightarrow> spool_entry list \<Rightarrow> (string \<times> string) list" where
  "alert_keys L known min_version es = map (\<lambda>(kr, reason). (fst kr, reason)) (List.map_filter (retirable L known min_version) es)"

lemma retire_step:
  assumes "scannable L e"
  shows "retire_entries L G known min_version target producer cv label (e # es) (r, spool) =
    (case retirable L known min_version e of
       None \<Rightarrow> retire_entries L G known min_version target producer cv label es (r, spool)
     | Some (kr, reason) \<Rightarrow>
         retire_entries L G known min_version target producer cv label es
           (retire G min_version target producer cv label (se_name e) (the (se_body e)) kr
              (snd (projr (retired_labels L (se_name e) (the (se_body e))))) reason r,
            filter (\<lambda>x. se_name x \<noteq> se_name e) spool))"
  using assms by (auto simp: scannable_def retirable_def split: option.splits)

lemma retire_entries_exact:
  assumes "\<forall>e \<in> set es. scannable L e" "distinct (rt_alerted r)" "length (rt_alerts r) = length (rt_alerted r)"
  shows "\<exists>r'. retire_entries L G known min_version target producer cv label es (r, spool) =
      (Inr (), r', filter (\<lambda>x. se_name x \<notin> se_name ` {e \<in> set es. retirable L known min_version e \<noteq> None}) spool) \<and>
    rt_retired r' = rt_retired r @ map (\<lambda>e. (se_name e, the (se_body e))) (filter (\<lambda>e. retirable L known min_version e \<noteq> None) es) \<and>
    distinct (rt_alerted r') \<and> length (rt_alerts r') = length (rt_alerted r') \<and>
    set (rt_alerted r') = set (rt_alerted r) \<union> set (alert_keys L known min_version es)"
  using assms
proof (induction es arbitrary: r spool)
  case Nil
  then show ?case by (simp add: alert_keys_def List.map_filter_simps)
next
  case (Cons e es)
  then have e: "scannable L e" and es: "\<forall>e \<in> set es. scannable L e" by simp_all
  show ?case
  proof (cases "retirable L known min_version e")
    case None
    then have same: "{x \<in> set (e # es). retirable L known min_version x \<noteq> None} = {x \<in> set es. retirable L known min_version x \<noteq> None}" by auto
    show ?thesis
      unfolding retire_step [OF e] same using Cons.IH [OF es Cons.prems(2,3), of spool] None by (simp add: alert_keys_def List.map_filter_simps)
  next
    case (Some x)
    then obtain k i reason where x: "x = ((k, i), reason)" by (metis prod.collapse)
    let ?r = "retire G min_version target producer cv label (se_name e) (the (se_body e)) (k, i)
              (snd (projr (retired_labels L (se_name e) (the (se_body e))))) reason r"
    have r: "distinct (rt_alerted ?r)" "length (rt_alerts ?r) = length (rt_alerted ?r)"
      "set (rt_alerted ?r) = insert (k, reason) (set (rt_alerted r))" "rt_retired ?r = rt_retired r @ [(se_name e, the (se_body e))]"
      using Cons.prems(2,3) by (auto simp: retire_def)
    have set: "se_name ` {x \<in> set (e # es). retirable L known min_version x \<noteq> None} =
        insert (se_name e) (se_name ` {x \<in> set es. retirable L known min_version x \<noteq> None})"
      using Some unfolding image_insert [symmetric] by (intro arg_cong [where f = "image se_name"]) (auto simp del: not_None_eq)
    obtain r' where "retire_entries L G known min_version target producer cv label es (?r, filter (\<lambda>x. se_name x \<noteq> se_name e) spool) =
        (Inr (), r', filter (\<lambda>x. se_name x \<notin> se_name ` {e \<in> set es. retirable L known min_version e \<noteq> None})
           (filter (\<lambda>x. se_name x \<noteq> se_name e) spool))"
      and "rt_retired r' = rt_retired ?r @ map (\<lambda>e. (se_name e, the (se_body e))) (filter (\<lambda>e. retirable L known min_version e \<noteq> None) es)"
      "distinct (rt_alerted r')" "length (rt_alerts r') = length (rt_alerted r')"
      "set (rt_alerted r') = set (rt_alerted ?r) \<union> set (alert_keys L known min_version es)"
      using Cons.IH [OF es r(1,2)] by blast
    then show ?thesis
      unfolding retire_step [OF e] set using Some x r(3,4)
      by (intro exI [of _ r']) (auto simp: alert_keys_def List.map_filter_simps conj_commute)
  qed
qed

text \<open>
  The quarantine sorts the spool. When every JSON entry can be read, the scan leaves exactly the entries of a known kind and a
  supported schema version (and those that are not JSON), moves every other with its content, oldest name first,
  and raises one alert for each kind and reason.
\<close>

lemma quarantine_sorts_spool:
  assumes "\<forall>e \<in> set spool. scannable L e" "distinct (map se_name spool)"
  shows "\<exists>r. quarantine_retired L G known min_version target producer cv label spool =
      (Inr (), r, filter (\<lambda>e. retirable L known min_version e = None) spool) \<and>
    rt_retired r = map (\<lambda>e. (se_name e, the (se_body e))) (filter (\<lambda>e. retirable L known min_version e \<noteq> None) (sort_key se_name spool)) \<and>
    distinct (rt_alerted r) \<and> length (rt_alerts r) = length (rt_alerted r) \<and> set (rt_alerted r) = set (alert_keys L known min_version spool)"
proof -
  let ?out = "{e \<in> set spool. retirable L known min_version e \<noteq> None}"
  have inj: "inj_on se_name (set spool)" using assms(2) by (simp add: distinct_map)
  have "se_name x \<in> se_name ` ?out \<longleftrightarrow> retirable L known min_version x \<noteq> None" if "x \<in> set spool" for x
    using inj_on_image_mem_iff [OF inj that, of ?out] that by simp
  then have keep: "filter (\<lambda>x. se_name x \<notin> se_name ` ?out) spool = filter (\<lambda>e. retirable L known min_version e = None) spool"
    by (intro filter_cong refl) blast
  have keys: "set (alert_keys L known min_version (sort_key se_name spool)) = set (alert_keys L known min_version spool)"
    by (simp add: alert_keys_def List.map_filter_def)
  have all: "\<forall>e \<in> set (sort_key se_name spool). scannable L e" using assms(1) by simp
  show ?thesis
    unfolding quarantine_retired_def
    using retire_entries_exact [OF all, of "\<lparr>rt_retired = [], rt_sidecars = [], rt_alerted = [], rt_alerts = []\<rparr>"
        G known min_version target producer cv label spool]
    unfolding set_sort keep keys by simp
qed

text \<open>
  One odd file stops the quarantine. A file of the spool that holds JSON other than an object makes the scan raise: no entry
  with a later name is moved, whatever its kind.
\<close>

lemma odd_file_stops_quarantine:
  assumes "sort_key se_name spool = before @ e # rest" "\<forall>x \<in> set before. scannable L x \<and> retirable L known min_version x = None"
    and "se_body e = Some j" "\<forall>d. j \<noteq> JObj d"
  shows "quarantine_retired L G known min_version target producer cv label spool =
    (Inl AttributeError, \<lparr>rt_retired = [], rt_sidecars = [], rt_alerted = [], rt_alerts = []\<rparr>, spool)"
proof -
  have "retire_entries L G known min_version target producer cv label (before @ xs) (r, spool) =
      retire_entries L G known min_version target producer cv label xs (r, spool)" for xs r
    using assms(2) by (induction before) (simp_all add: retire_step del: retire_entries.simps)
  moreover have "retired_labels L (se_name e) j = Inl AttributeError"
    using assms(4) by (cases j) (simp_all add: retired_labels_def)
  ultimately show ?thesis using assms(3) by (simp add: quarantine_retired_def assms(1))
qed

section \<open>Examples\<close>

definition digits_lib :: pylib where
  "digits_lib = \<lparr>pl_repr = (\<lambda>_. ''?''),
     pl_int = (\<lambda>s. if s \<noteq> [] \<and> (\<forall>c \<in> set s. (of_char c :: nat) \<in> {48..57}) then Some (int (read_nat s)) else None),
     pl_float = (\<lambda>_. None), pl_dict = (\<lambda>_. Inl ValueError)\<rparr>"

lemma digits_lib_pad16: "n < 10 ^ 16 \<Longrightarrow> pl_int digits_lib (pad16 n) = Some (int n)"
proof -
  assume n: "n < 10 ^ 16"
  then have "pad16 n \<noteq> []" using pad16(1) [OF n] by auto
  moreover have "\<forall>c \<in> set (pad16 n). (of_char c :: nat) \<in> {48..57}"
    using pad16(2) [OF n] by (auto simp: all_digits_def digit_char_def)
  ultimately show ?thesis by (simp add: digits_lib_def pad16(3) [OF n])
qed

definition example_aging :: aging_lib where
  "example_aging = \<lparr>ag_round = (\<lambda>x. x), ag_show = (\<lambda>_. ''?''), ag_iso = ''t''\<rparr>"

end
