(* ===== verification/Breakers.thy ===== *)
theory Breakers
  imports Spool "HOL-Library.Multiset"
begin

text \<open>
  The circuit breakers around the bus, \<open>swarm/agents/maint/_bus_circuit_breaker.py\<close> and
  \<open>swarm/agents/nlp/_bus_circuit_breaker.py\<close>: they count failing publications, open, spool to disk and (the first one) replay.
  The wrapped \<open>publish_fn\<close> is the list of its answers, one for each call, with what it accepted; clocks and ids of a
  call are its \<open>breaker_env\<close>. The flush lock is always free: two drains of one directory at a time, log lines and
  file modes are not modelled.
\<close>

section \<open>The bus behind the breaker\<close>

text \<open>A message that was handed in, or one that the breaker makes with \<open>Message.new\<close>.\<close>

datatype outgoing = Forwarded message | Made emission

record bus_feed =
  bf_answers :: "bool list"
  bf_sent :: "outgoing list"

definition publish_fn :: "outgoing \<Rightarrow> bus_feed \<Rightarrow> bool \<times> bus_feed" where
  "publish_fn m f =
     (case bf_answers f of
        [] \<Rightarrow> (False, f)
      | ok # rest \<Rightarrow> (ok, f\<lparr>bf_answers := rest, bf_sent := (if ok then bf_sent f @ [m] else bf_sent f)\<rparr>))"

record breaker_env =
  ev_clock_s :: real
  ev_clock_ms :: nat
  ev_mtime :: real
  ev_new_id :: string
  ev_iso :: string
  ev_aging :: aging_lib
  ev_fresh :: fresh

record circuit =
  ci_agent :: string
  ci_threshold :: int
  ci_spool_max :: int
  ci_degraded :: bool
  ci_failures :: int
  ci_last_failure :: "real option"
  ci_spool :: "spool_entry list"

text \<open>\<open>payload.get(k1) or payload.get(k2) or new_id()\<close>.\<close>

fun spool_id :: "pylib \<Rightarrow> string list \<Rightarrow> string \<Rightarrow> jobj \<Rightarrow> string" where
  "spool_id L [] new_id payload = new_id"
| "spool_id L (k # ks) new_id payload =
     (let j = jget_or payload k JNull in if py_bool j then py_str L j else spool_id L ks new_id payload)"

declare spool_id.simps [simp del]

section \<open>The maintenance breaker\<close>

record maint_circuit = circuit +
  mc_window :: real
  mc_max_age_h :: int
  mc_self_isolated :: bool
  mc_last_aged_alert :: "real option"
  mc_malformed :: "string list"

definition maint_circuit_init :: "string \<Rightarrow> int \<Rightarrow> real \<Rightarrow> int \<Rightarrow> int \<Rightarrow> spool_entry list \<Rightarrow> maint_circuit" where
  "maint_circuit_init agent_name fail_threshold fail_window_s spool_max max_age_h spool =
     \<lparr>ci_agent = agent_name, ci_threshold = max 1 fail_threshold, ci_spool_max = max 1 spool_max, ci_degraded = False, ci_failures = 0,
      ci_last_failure = None, ci_spool = spool, mc_window = max 1 fail_window_s, mc_max_age_h = max_age_h, mc_self_isolated = False,
      mc_last_aged_alert = None, mc_malformed = []\<rparr>"

definition is_critical :: "pylib \<Rightarrow> message \<Rightarrow> bool" where
  "is_critical L msg \<longleftrightarrow> py_lower (py_str L (jget_or (msg_payload msg) ''severity'' (JStr []))) = ''critical''"

definition maint_spool_write :: "pylib \<Rightarrow> breaker_env \<Rightarrow> int \<Rightarrow> message \<Rightarrow> spool_entry list \<Rightarrow> bool res \<times> spool_entry list" where
  "maint_spool_write L env max_entries msg spool =
     (if max_entries \<le> int (length spool) then (Inr False, spool)
      else
        (case write_file (spool_name (ev_clock_ms env) (spool_id L [''request_id''] (ev_new_id env) (msg_payload msg)))
                (ev_mtime env) (codec_encode msg) spool of
           Inl e \<Rightarrow> (Inl e, spool)
         | Inr spool' \<Rightarrow> (Inr True, spool')))"

definition self_isolated_alert :: "breaker_env \<Rightarrow> string \<Rightarrow> emission" where
  "self_isolated_alert env agent_name =
     \<lparr>em_topic = sec_alert_topic,
      em_payload =
        [(''kind'', JStr ''maint_self_isolated''), (''severity'', JStr ''critical''), (''source'', JStr agent_name),
         (''reason'', JStr ''critical_emit_failed_during_bus_outage''), (''ts'', JStr (ev_iso env))],
      em_producer = agent_name, em_trace = None\<rparr>"

definition bus_probe :: "breaker_env \<Rightarrow> string \<Rightarrow> emission" where
  "bus_probe env agent_name =
     \<lparr>em_topic = sec_alert_topic,
      em_payload =
        [(''kind'', JStr ''bus_probe''), (''severity'', JStr ''info''), (''source'', JStr (agent_name @ ''.circuit_breaker'')),
         (''ts'', JStr (ev_iso env))],
      em_producer = agent_name, em_trace = None\<rparr>"

definition maint_publish_degraded ::
  "pylib \<Rightarrow> breaker_env \<Rightarrow> message \<Rightarrow> maint_circuit \<times> bus_feed \<Rightarrow> emission list res \<times> maint_circuit \<times> bus_feed" where
  "maint_publish_degraded L env msg st =
     (let (c, f) = st in
      if is_critical L msg then
        (let (ok, f') = publish_fn (Forwarded msg) f in
         if ok then (Inr [], c, f') else (Inr [self_isolated_alert env (ci_agent c)], c\<lparr>mc_self_isolated := True\<rparr>, f'))
      else
        (case maint_spool_write L env (ci_spool_max c) msg (ci_spool c) of
           (Inl e, _) \<Rightarrow> (Inl e, c, f)
         | (Inr _, spool) \<Rightarrow> (Inr [], c\<lparr>ci_spool := spool\<rparr>, f)))"

definition maint_publish_closed ::
  "pylib \<Rightarrow> breaker_env \<Rightarrow> message \<Rightarrow> maint_circuit \<times> bus_feed \<Rightarrow> emission list res \<times> maint_circuit \<times> bus_feed" where
  "maint_publish_closed L env msg st =
     (let (c, f) = st; (ok, f1) = publish_fn (Forwarded msg) f; now = ev_clock_s env in
      if ok then (Inr [], c\<lparr>ci_failures := 0, ci_last_failure := None\<rparr>, f1)
      else
        let streak = (case ci_last_failure c of None \<Rightarrow> ci_failures c | Some t \<Rightarrow> if mc_window c < now - t then 0 else ci_failures c);
            c1 = c\<lparr>ci_failures := streak + 1, ci_last_failure := Some now\<rparr> in
        if ci_threshold c \<le> streak + 1 then maint_publish_degraded L env msg (c1\<lparr>ci_degraded := True\<rparr>, f1)
        else (Inr [], c1, f1))"

definition maint_publish ::
  "pylib \<Rightarrow> breaker_env \<Rightarrow> message \<Rightarrow> maint_circuit \<times> bus_feed \<Rightarrow> emission list res \<times> maint_circuit \<times> bus_feed" where
  "maint_publish L env msg st =
     (if ci_degraded (fst st) then maint_publish_degraded L env msg st else maint_publish_closed L env msg st)"

section \<open>Replay\<close>

text \<open>Publishing without looking at the answer.\<close>

fun send_all :: "emission list \<Rightarrow> bus_feed \<Rightarrow> bus_feed" where
  "send_all [] f = f"
| "send_all (e # es) f = send_all es (snd (publish_fn (Made e) f))"

text \<open>\<open>sorted(paths, key=mtime, reverse=True)\<close>: entries of one time stay in the order of the listing.\<close>

definition newest_first :: "spool_entry list \<Rightarrow> spool_entry list" where
  "newest_first spool = sort_key (\<lambda>e. - se_mtime e) spool"

definition drop_entry :: "string \<Rightarrow> maint_circuit \<Rightarrow> maint_circuit" where
  "drop_entry name c = c\<lparr>ci_spool := filter (\<lambda>e. se_name e \<noteq> name) (ci_spool c)\<rparr>"

fun drain_entries :: "fresh \<Rightarrow> spool_entry list \<Rightarrow> maint_circuit \<times> bus_feed \<Rightarrow> message list \<times> maint_circuit \<times> bus_feed" where
  "drain_entries fr [] st = ([], st)"
| "drain_entries fr (e # es) (c, f) =
     (case load_message fr e of
        None \<Rightarrow>
          drain_entries fr es ((drop_entry (se_name e) c)\<lparr>mc_malformed := mc_malformed c @ [take (length (se_name e) - 5) (se_name e) @ ''.malformed'']\<rparr>, f)
      | Some m \<Rightarrow>
          (let (ok, f1) = publish_fn (Forwarded m) f in
           if ok then (let (drained, st) = drain_entries fr es (drop_entry (se_name e) c, f1) in (m # drained, st))
           else ([], c\<lparr>ci_degraded := True, ci_failures := 1\<rparr>, f1)))"

definition drain_spool :: "pylib \<Rightarrow> breaker_env \<Rightarrow> maint_circuit \<times> bus_feed \<Rightarrow> message list \<times> maint_circuit \<times> bus_feed" where
  "drain_spool L env st =
     (let (c, f) = st; now_s = real (ev_clock_ms env) / 1000;
          (r, spool) = prune_aged L (ev_aging env) (mc_max_age_h c) now_s (ci_agent c) (ci_agent c) ''agent'' (ci_spool c);
          f1 = send_all (pr_events r) f;
          alert = (pr_alerts r \<noteq> [] \<and> (case mc_last_aged_alert c of None \<Rightarrow> True | Some t \<Rightarrow> 3600 \<le> now_s - t));
          f2 = (if alert then send_all (pr_alerts r) f1 else f1);
          c1 = c\<lparr>ci_spool := spool, mc_last_aged_alert := (if alert then Some now_s else mc_last_aged_alert c)\<rparr> in
      drain_entries (ev_fresh env) (newest_first spool) (c1, f2))"

definition maint_tick :: "pylib \<Rightarrow> breaker_env \<Rightarrow> maint_circuit \<times> bus_feed \<Rightarrow> message list \<times> maint_circuit \<times> bus_feed" where
  "maint_tick L env st =
     (let (c, f) = st in
      if \<not> ci_degraded c then ([], c, f)
      else
        let (ok, f1) = publish_fn (Made (bus_probe env (ci_agent c))) f in
        if \<not> ok then ([], c, f1)
        else drain_spool L env (c\<lparr>ci_degraded := False, ci_failures := 0, mc_self_isolated := False\<rparr>, f1))"

section \<open>The NLP breaker\<close>

definition nlp_circuit_init :: "string \<Rightarrow> int \<Rightarrow> int \<Rightarrow> spool_entry list \<Rightarrow> circuit" where
  "nlp_circuit_init agent_name fail_threshold spool_max spool =
     \<lparr>ci_agent = agent_name, ci_threshold = max 1 fail_threshold, ci_spool_max = max 1 spool_max, ci_degraded = False, ci_failures = 0,
      ci_last_failure = None, ci_spool = spool\<rparr>"

definition spool_payload_for_disk :: "(string \<Rightarrow> string) \<Rightarrow> bool \<Rightarrow> message \<Rightarrow> jobj" where
  "spool_payload_for_disk sha256 pii_strip msg =
     (case map_of (msg_payload msg) ''sanitized_text'' of
        Some (JStr text1) \<Rightarrow>
          if pii_strip \<and> en_topic (msg_envelope msg) = ''qa.intent.v1''
          then od_set ''sanitized_text_sha256'' (JStr (sha256 text1)) (od_del ''sanitized_text'' (msg_payload msg))
          else msg_payload msg
      | _ \<Rightarrow> msg_payload msg)"

definition restore_spool_payload :: "(string \<Rightarrow> string) \<Rightarrow> jobj \<Rightarrow> string option \<Rightarrow> jobj option" where
  "restore_spool_payload sha256 payload original =
     (case (map_of payload ''sanitized_text_sha256'', map_of payload ''sanitized_text'') of
        (Some (JStr text_sha), None) \<Rightarrow>
          (case original of
             None \<Rightarrow> None
           | Some text1 \<Rightarrow> if sha256 text1 \<noteq> text_sha then None else Some (od_set ''sanitized_text'' (JStr text1) payload))
      | _ \<Rightarrow> Some payload)"

definition disk_message :: "(string \<Rightarrow> string) \<Rightarrow> bool \<Rightarrow> message \<Rightarrow> message" where
  "disk_message sha256 pii_strip msg = \<lparr>msg_envelope = msg_envelope msg, msg_payload = spool_payload_for_disk sha256 pii_strip msg\<rparr>"

text \<open>A full spool loses its oldest entry first; the write may still fail after that.\<close>

definition nlp_spool_write ::
  "pylib \<Rightarrow> (string \<Rightarrow> string) \<Rightarrow> bool \<Rightarrow> breaker_env \<Rightarrow> int \<Rightarrow> message \<Rightarrow> spool_entry list \<Rightarrow> bool res \<times> spool_entry list" where
  "nlp_spool_write L sha256 pii_strip env max_entries msg spool =
     (let kept =
            (if max_entries \<le> int (length spool) \<and> spool \<noteq> []
             then filter (\<lambda>e. se_name e \<noteq> se_name (hd (sort_key se_name spool))) spool else spool) in
      case write_file (spool_name (ev_clock_ms env) (spool_id L [''request_id'', ''qa_correlation_id''] (ev_new_id env) (msg_payload msg)))
             (ev_mtime env) (codec_encode (disk_message sha256 pii_strip msg)) kept of
        Inl e \<Rightarrow> (Inl e, kept)
      | Inr spool' \<Rightarrow> (Inr True, spool'))"

definition spool_overflow_alert :: "breaker_env \<Rightarrow> int \<Rightarrow> string \<Rightarrow> emission" where
  "spool_overflow_alert env max_entries agent_name =
     \<lparr>em_topic = ''nlp.alert.v1'',
      em_payload =
        [(''kind'', JStr ''nlp_spool_overflow''), (''severity'', JStr ''critical''), (''source'', JStr agent_name),
         (''reason'', JStr (''spool_cap_exceeded_at_'' @ show_int max_entries)), (''emitted_at'', JStr (ev_iso env))],
      em_producer = agent_name, em_trace = None\<rparr>"

definition nlp_publish_degraded ::
  "pylib \<Rightarrow> (string \<Rightarrow> string) \<Rightarrow> bool \<Rightarrow> breaker_env \<Rightarrow> message \<Rightarrow> circuit \<times> bus_feed \<Rightarrow> emission list res \<times> circuit \<times> bus_feed" where
  "nlp_publish_degraded L sha256 pii_strip env msg st =
     (let (c, f) = st; (r, spool) = nlp_spool_write L sha256 pii_strip env (ci_spool_max c) msg (ci_spool c); c1 = c\<lparr>ci_spool := spool\<rparr> in
      case r of
        Inl e \<Rightarrow> (Inl e, c1, f)
      | Inr written \<Rightarrow> (Inr (if written then [] else [spool_overflow_alert env (ci_spool_max c) (ci_agent c)]), c1, f))"

definition nlp_publish_closed ::
  "pylib \<Rightarrow> (string \<Rightarrow> string) \<Rightarrow> bool \<Rightarrow> breaker_env \<Rightarrow> message \<Rightarrow> circuit \<times> bus_feed \<Rightarrow> emission list res \<times> circuit \<times> bus_feed" where
  "nlp_publish_closed L sha256 pii_strip env msg st =
     (let (c, f) = st; (ok, f1) = publish_fn (Forwarded msg) f in
      if ok then (Inr [], c\<lparr>ci_failures := 0\<rparr>, f1)
      else
        let c1 = c\<lparr>ci_failures := ci_failures c + 1, ci_last_failure := Some (ev_clock_s env)\<rparr> in
        if ci_threshold c \<le> ci_failures c + 1
        then nlp_publish_degraded L sha256 pii_strip env msg (c1\<lparr>ci_degraded := True\<rparr>, f1)
        else (Inr [], c1, f1))"

definition nlp_publish ::
  "pylib \<Rightarrow> (string \<Rightarrow> string) \<Rightarrow> bool \<Rightarrow> breaker_env \<Rightarrow> message \<Rightarrow> circuit \<times> bus_feed \<Rightarrow> emission list res \<times> circuit \<times> bus_feed" where
  "nlp_publish L sha256 pii_strip env msg st =
     (if ci_degraded (fst st) then nlp_publish_degraded L sha256 pii_strip env msg st else nlp_publish_closed L sha256 pii_strip env msg st)"

definition nlp_tick :: "circuit \<Rightarrow> message list" where
  "nlp_tick c = []"

section \<open>When the maintenance breaker opens\<close>

lemmas maint_defs = maint_publish_def maint_publish_closed_def maint_publish_degraded_def Let_def

definition maint_run ::
  "pylib \<Rightarrow> (breaker_env \<times> message \<times> bool) list \<Rightarrow> maint_circuit \<times> bus_feed \<Rightarrow> maint_circuit \<times> bus_feed" where
  "maint_run L ys st = foldl (\<lambda>st (env, msg, ok). snd (maint_publish L env msg st)) st ys"

text \<open>The specification: how many of the latest attempts, newest first, failed in a row, each within the window of the one before.\<close>

fun streak :: "real \<Rightarrow> (real \<times> bool) list \<Rightarrow> int" where
  "streak w [] = 0"
| "streak w [(t, ok)] = (if ok then 0 else 1)"
| "streak w ((t, ok) # (u, ok') # h) = (if ok then 0 else if ok' \<or> w < t - u then 1 else 1 + streak w ((u, ok') # h))"

definition history :: "(breaker_env \<times> message \<times> bool) list \<Rightarrow> (real \<times> bool) list" where
  "history ys = rev (map (\<lambda>(env, msg, ok). (ev_clock_s env, ok)) ys)"

definition failed_at :: "(real \<times> bool) list \<Rightarrow> real option" where
  "failed_at h = (case h of [] \<Rightarrow> None | (t, ok) # _ \<Rightarrow> if ok then None else Some t)"

lemma streak_step:
  "streak w ((t, ok) # h) =
     (if ok then 0 else 1 + (case failed_at h of None \<Rightarrow> 0 | Some u \<Rightarrow> if w < t - u then 0 else streak w h))"
  by (cases h) (auto simp: failed_at_def)

lemma streak_failed: "failed_at h = None \<Longrightarrow> streak w h = 0"
  by (cases "(w, h)" rule: streak.cases) (auto simp: failed_at_def split: if_splits)

lemma maint_degraded_stays: "ci_degraded (fst st) \<Longrightarrow> ci_degraded (fst (snd (maint_publish L env msg st)))"
  by (cases st) (auto simp: maint_defs split: prod.splits sum.splits)

lemma maint_run_degraded: "ci_degraded (fst st) \<Longrightarrow> ci_degraded (fst (maint_run L ys st))"
proof (induction ys arbitrary: st)
  case Nil
  then show ?case by (simp add: maint_run_def)
next
  case (Cons y ys)
  then show ?case
    using Cons.IH [OF maint_degraded_stays [OF Cons.prems, of L "fst y" "fst (snd y)"]] by (simp add: maint_run_def split_beta)
qed

lemma maint_run_append: "maint_run L (xs @ ys) st = maint_run L ys (maint_run L xs st)"
  by (simp add: maint_run_def)

text \<open>While no attempt has brought the streak to the threshold, the breaker is closed and counts the streak.\<close>

definition counting :: "int \<Rightarrow> real \<Rightarrow> (breaker_env \<times> message \<times> bool) list \<Rightarrow> bool list \<Rightarrow> maint_circuit \<times> bus_feed \<Rightarrow> bool" where
  "counting th w ys rest st \<longleftrightarrow> \<not> ci_degraded (fst st) \<and> ci_failures (fst st) = streak w (history ys) \<and>
     ci_last_failure (fst st) = failed_at (history ys) \<and> ci_threshold (fst st) = th \<and> mc_window (fst st) = w \<and> bf_answers (snd st) = rest"

lemma counting_step:
  assumes "counting th w ys (ok # rest) st"
  shows "if th \<le> streak w (history (ys @ [(env, msg, ok)])) \<and> \<not> ok
    then ci_degraded (fst (snd (maint_publish L env msg st)))
    else counting th w (ys @ [(env, msg, ok)]) rest (snd (maint_publish L env msg st))"
proof (cases st)
  case (Pair c f)
  have h: "history (ys @ [(env, msg, ok)]) = (ev_clock_s env, ok) # history ys" by (simp add: history_def)
  have c: "\<not> ci_degraded c" "ci_failures c = streak w (history ys)" "ci_last_failure c = failed_at (history ys)" "ci_threshold c = th"
    "mc_window c = w" "bf_answers f = ok # rest" using assms by (simp_all add: counting_def Pair)
  show ?thesis
  proof (cases ok)
    case True
    have "history (ys @ [(env, msg, True)]) = (ev_clock_s env, True) # history ys" using h True by simp
    then show ?thesis using c True by (simp add: Pair counting_def streak_step maint_defs publish_fn_def) (simp add: failed_at_def)
  next
    case False
    let ?h = "history (ys @ [(env, msg, False)])" and ?f = "f\<lparr>bf_answers := rest\<rparr>"
    let ?c = "c\<lparr>ci_failures := streak w ?h, ci_last_failure := Some (ev_clock_s env)\<rparr>"
    have hF: "?h = (ev_clock_s env, False) # history ys" using h False by simp
    have s: "(case ci_last_failure c of None \<Rightarrow> ci_failures c | Some t \<Rightarrow> if mc_window c < ev_clock_s env - t then 0 else ci_failures c) + 1 = streak w ?h"
      using c(2,3,5) streak_failed [of "history ys" w] by (auto simp: hF streak_step split: option.splits)
    have l: "failed_at ?h = Some (ev_clock_s env)" unfolding hF by (simp add: failed_at_def)
    have pub: "maint_publish L env msg (c, f) =
        (if th \<le> streak w ?h then maint_publish_degraded L env msg (?c\<lparr>ci_degraded := True\<rparr>, ?f) else (Inr [], ?c, ?f))"
      using c(1,4,6) False by (simp add: maint_publish_def maint_publish_closed_def publish_fn_def Let_def s)
    have "ci_degraded (fst (snd (maint_publish_degraded L env msg (?c\<lparr>ci_degraded := True\<rparr>, ?f))))"
      using maint_degraded_stays [of "(?c\<lparr>ci_degraded := True\<rparr>, ?f)" L env msg] by (simp add: maint_publish_def)
    then show ?thesis using c False l by (simp add: Pair pub counting_def)
  qed
qed

lemma counting_run:
  assumes "counting th w [] (map (snd \<circ> snd) ys @ rest) st" "0 < th"
  shows "if \<exists>n \<le> length ys. th \<le> streak w (history (take n ys)) then ci_degraded (fst (maint_run L ys st))
    else counting th w ys rest (maint_run L ys st)"
  using assms(1)
proof (induction ys arbitrary: rest rule: rev_induct)
  case Nil
  then show ?case using assms(2) by (simp add: maint_run_def history_def)
next
  case (snoc y ys)
  obtain env msg ok where y: "y = (env, msg, ok)" by (cases y)
  have IH: "if \<exists>n \<le> length ys. th \<le> streak w (history (take n ys)) then ci_degraded (fst (maint_run L ys st))
      else counting th w ys (ok # rest) (maint_run L ys st)"
    using snoc.IH [of "ok # rest"] snoc.prems by (simp add: y)
  have last_run: "maint_run L (ys @ [y]) st = snd (maint_publish L env msg (maint_run L ys st))" by (simp add: maint_run_def y)
  have ex: "(\<exists>n \<le> length (ys @ [y]). th \<le> streak w (history (take n (ys @ [y])))) \<longleftrightarrow>
      (\<exists>n \<le> length ys. th \<le> streak w (history (take n ys))) \<or> th \<le> streak w (history (ys @ [y]))"
    by (auto simp: le_Suc_eq)
  show ?case
  proof (cases "\<exists>n \<le> length ys. th \<le> streak w (history (take n ys))")
    case True
    with IH show ?thesis unfolding ex last_run by (simp add: maint_degraded_stays)
  next
    case False
    then have c: "counting th w ys (ok # rest) (maint_run L ys st)" using IH by simp
    have "ok \<Longrightarrow> streak w (history (ys @ [y])) = 0"
      by (simp add: y history_def streak_step)
    then show ?thesis using False counting_step [OF c, of env msg L] assms(2) unfolding ex last_run unfolding y by (cases ok) auto
  qed
qed

text \<open>
  The maintenance breaker opens exactly on a streak. Whatever is published from a fresh breaker, it is open at the end if and only
  if at some point the latest attempts that failed in a row, each no later than the window after the one before, were
  as many as the threshold; a success, or a longer pause, starts the count again.
\<close>

lemma breaker_opens_on_streak:
  "ci_degraded (fst (maint_run L ys (maint_circuit_init agent_name th w cap age_h spool, \<lparr>bf_answers = map (snd \<circ> snd) ys, bf_sent = []\<rparr>))) \<longleftrightarrow>
     (\<exists>n \<le> length ys. max 1 th \<le> streak (max 1 w) (history (take n ys)))"
proof -
  let ?st = "(maint_circuit_init agent_name th w cap age_h spool, \<lparr>bf_answers = map (snd \<circ> snd) ys, bf_sent = []\<rparr>)"
  have c: "counting (max 1 th) (max 1 w) [] (map (snd \<circ> snd) ys @ []) ?st"
    by (simp add: counting_def maint_circuit_init_def history_def failed_at_def)
  have "0 < max 1 th" by simp
  from counting_run [OF c this, of L] show ?thesis
    by (cases "\<exists>n \<le> length ys. max 1 th \<le> streak (max 1 w) (history (take n ys))") (simp_all only: counting_def if_True if_False)
qed

section \<open>An outage\<close>

definition spooled :: "pylib \<Rightarrow> string list \<Rightarrow> breaker_env \<Rightarrow> message \<Rightarrow> message \<Rightarrow> spool_entry" where
  "spooled L keys env msg stored =
     \<lparr>se_name = spool_name (ev_clock_ms env) (spool_id L keys (ev_new_id env) (msg_payload msg)), se_mtime = ev_mtime env,
      se_body = Some (codec_encode stored)\<rparr>"

text \<open>The file name of a message is one the file system takes.\<close>

definition nameable :: "pylib \<Rightarrow> string list \<Rightarrow> breaker_env \<times> message \<Rightarrow> bool" where
  "nameable L keys x \<longleftrightarrow> ev_clock_ms (fst x) < 10 ^ 16 \<and> CHR ''/'' \<notin> set (spool_id L keys (ev_new_id (fst x)) (msg_payload (snd x))) \<and>
     length (spool_id L keys (ev_new_id (fst x)) (msg_payload (snd x))) \<le> 224"

definition in_time_order :: "(breaker_env \<times> message) list \<Rightarrow> bool" where
  "in_time_order xs \<longleftrightarrow> sorted_wrt (\<lambda>x y. ev_clock_ms (fst x) < ev_clock_ms (fst y) \<and> ev_mtime (fst x) < ev_mtime (fst y)) xs"

lemma in_time_order_snoc:
  "in_time_order (xs @ [y]) \<longleftrightarrow> in_time_order xs \<and> (\<forall>x \<in> set xs. ev_clock_ms (fst x) < ev_clock_ms (fst y) \<and> ev_mtime (fst x) < ev_mtime (fst y))"
  by (simp add: in_time_order_def sorted_wrt_append)

lemma write_spooled:
  assumes "nameable L keys (env, msg)" "\<forall>e \<in> set spool. se_name e < se_name (spooled L keys env msg stored)"
  shows "write_file (spool_name (ev_clock_ms env) (spool_id L keys (ev_new_id env) (msg_payload msg))) (ev_mtime env) (codec_encode stored) spool =
    Inr (spool @ [spooled L keys env msg stored])"
proof -
  have "CHR ''/'' \<noteq> digit_char d" if "d < 10" for d
    using that by (auto simp: digit_char_def dest!: arg_cong [where f = "of_char :: char \<Rightarrow> nat"])
  then have "CHR ''/'' \<notin> set (pad16 (ev_clock_ms env))"
    using pad16(2) [of "ev_clock_ms env"] assms(1) unfolding nameable_def all_digits_def by auto
  then show ?thesis
    using assms by (auto simp: write_file_def nameable_def spooled_def spool_name_def pad16)
qed

definition maint_publish_all :: "pylib \<Rightarrow> (breaker_env \<times> message) list \<Rightarrow> maint_circuit \<times> bus_feed \<Rightarrow> maint_circuit \<times> bus_feed" where
  "maint_publish_all L xs st = foldl (\<lambda>st (env, msg). snd (maint_publish L env msg st)) st xs"

lemma maint_spools_all:
  assumes "ci_degraded c" "ci_spool c = []"
  shows "in_time_order xs \<Longrightarrow> \<forall>x \<in> set xs. nameable L [''request_id''] x \<and> \<not> is_critical L (snd x) \<Longrightarrow> int (length xs) \<le> ci_spool_max c \<Longrightarrow>
    maint_publish_all L xs (c, f) = (c\<lparr>ci_spool := map (\<lambda>(env, msg). spooled L [''request_id''] env msg msg) xs\<rparr>, f)"
proof (induction xs rule: rev_induct)
  case Nil
  then show ?case using assms by (simp add: maint_publish_all_def)
next
  case (snoc x xs)
  obtain env msg where x: "x = (env, msg)" by (cases x)
  let ?spool = "map (\<lambda>(env, msg). spooled L [''request_id''] env msg msg) xs"
  have "se_name e < se_name (spooled L [''request_id''] env msg msg)" if "e \<in> set ?spool" for e
    using that snoc.prems(1,2) by (fastforce simp: in_time_order_snoc x spooled_def nameable_def intro!: spool_name_less)
  then have w: "write_file (spool_name (ev_clock_ms env) (spool_id L [''request_id''] (ev_new_id env) (msg_payload msg))) (ev_mtime env)
      (codec_encode msg) ?spool = Inr (?spool @ [spooled L [''request_id''] env msg msg])"
    using snoc.prems(2) by (intro write_spooled) (simp_all add: x)
  have "maint_publish_all L xs (c, f) = (c\<lparr>ci_spool := ?spool\<rparr>, f)"
    using snoc by (simp add: in_time_order_snoc)
  then show ?case
    using assms(1) snoc.prems(2,3) w
    by (simp add: maint_publish_all_def x maint_publish_def maint_publish_degraded_def maint_spool_write_def)
qed

lemma drain_good_bus:
  "\<forall>e \<in> set es. load_message fr e = Some (m e) \<Longrightarrow> bf_answers f = replicate (length es) True @ rest \<Longrightarrow>
     drain_entries fr es (c, f) =
       (map m es, c\<lparr>ci_spool := filter (\<lambda>x. se_name x \<notin> se_name ` set es) (ci_spool c)\<rparr>,
        f\<lparr>bf_answers := rest, bf_sent := bf_sent f @ map (Forwarded \<circ> m) es\<rparr>)"
  by (induction es arbitrary: c f) (simp_all add: publish_fn_def drop_entry_def conj_commute)

lemma newest_first_rev:
  assumes "in_time_order xs"
  shows "newest_first (map (\<lambda>(env, msg). spooled L keys env msg msg) xs) = rev (map (\<lambda>(env, msg). spooled L keys env msg msg) xs)"
proof -
  let ?es = "map (\<lambda>(env, msg). spooled L keys env msg msg) xs"
  have t: "map se_mtime ?es = map (ev_mtime \<circ> fst) xs" by (auto simp: spooled_def)
  have "sorted_wrt (<) (map (ev_mtime \<circ> fst) xs)"
    using assms unfolding in_time_order_def sorted_wrt_map by (rule sorted_wrt_mono_rel [rotated]) simp
  then have s: "sorted_wrt (<) (map se_mtime ?es)" unfolding t .
  then have inj: "inj_on (\<lambda>e. - se_mtime e) (set ?es)"
    using s unfolding strict_sorted_iff distinct_map by (auto simp: inj_on_def)
  have "sorted (map (\<lambda>e. - se_mtime e) (rev ?es))"
    using s unfolding sorted_wrt_map rev_map [symmetric] sorted_wrt_rev by (rule sorted_wrt_mono_rel [rotated]) simp
  then show ?thesis unfolding newest_first_def by (intro sort_key_inj_key_eq inj) simp_all
qed

lemma nothing_aged:
  assumes "\<forall>e \<in> set spool. \<not> aged_out L h now_s e"
  shows "prune_aged L G h now_s target producer label spool = (\<lparr>pr_pruned = [], pr_events = [], pr_alerts = []\<rparr>, spool)"
proof -
  have "filter (aged_out L h now_s) (sort_key se_name spool) = []" "filter (\<lambda>e. \<not> aged_out L h now_s e) spool = spool"
    using assms by (simp_all add: filter_id_conv)
  then show ?thesis
    unfolding prune_aged_def using prune_entries_exact [OF _ refl refl, of h L G now_s target producer label "sort_key se_name spool"]
    by (simp add: Let_def)
qed


section \<open>No spooled message is lost\<close>

datatype circuit_op = Publish breaker_env message | Tick breaker_env

definition maint_step :: "pylib \<Rightarrow> maint_circuit \<times> bus_feed \<Rightarrow> circuit_op \<Rightarrow> maint_circuit \<times> bus_feed" where
  "maint_step L st op1 = (case op1 of Publish env msg \<Rightarrow> snd (maint_publish L env msg st) | Tick env \<Rightarrow> snd (maint_tick L env st))"

definition held :: "message \<Rightarrow> maint_circuit \<times> bus_feed \<Rightarrow> bool" where
  "held m st \<longleftrightarrow> (\<exists>e \<in> set (ci_spool (fst st)). se_body e = Some (codec_encode m)) \<or> Forwarded m \<in> set (bf_sent (snd st))"

definition spool_ok :: "maint_circuit \<times> bus_feed \<Rightarrow> bool" where
  "spool_ok st \<longleftrightarrow> distinct (map se_name (ci_spool (fst st))) \<and> mc_max_age_h (fst st) \<le> 0"

lemma publish_fn_sent: "publish_fn x f = (ok, f') \<Longrightarrow> bf_sent f' = (if ok then bf_sent f @ [x] else bf_sent f)"
  by (auto simp: publish_fn_def split: list.splits)

lemma held_publish: "held m (c, f) \<Longrightarrow> publish_fn x f = (ok, f') \<Longrightarrow> held m (c, f')"
  by (auto simp: held_def publish_fn_sent)

lemma held_spool: "held m (c, f) \<Longrightarrow> ci_spool c' = ci_spool c \<Longrightarrow> held m (c', f)"
  by (simp add: held_def)

lemma write_file_ok:
  "write_file n t b spool = Inr spool' \<Longrightarrow> distinct (map se_name spool) \<Longrightarrow> distinct (map se_name spool') \<and> set spool \<subseteq> set spool'"
  by (auto simp: write_file_def split: if_splits)

lemma publish_degraded_held:
  assumes "held m st" "spool_ok st"
  shows "held m (snd (maint_publish_degraded L env msg st)) \<and> spool_ok (snd (maint_publish_degraded L env msg st))"
proof (cases st)
  case (Pair c f)
  show ?thesis
  proof (cases "is_critical L msg")
    case True
    obtain ok f' where p: "publish_fn (Forwarded msg) f = (ok, f')" by force
    then show ?thesis using held_publish [OF _ p, of m c] assms by (auto simp: Pair True maint_publish_degraded_def spool_ok_def held_spool)
  next
    case False
    obtain r spool where w: "maint_spool_write L env (ci_spool_max c) msg (ci_spool c) = (r, spool)" by force
    have "distinct (map se_name spool) \<and> set (ci_spool c) \<subseteq> set spool"
      using w assms(2) write_file_ok by (auto simp: maint_spool_write_def Pair spool_ok_def split: if_splits sum.splits)
    then show ?thesis using assms by (auto simp: Pair False maint_publish_degraded_def w spool_ok_def held_def split: sum.splits)
  qed
qed

lemma publish_held:
  assumes "held m st" "spool_ok st"
  shows "held m (snd (maint_publish L env msg st)) \<and> spool_ok (snd (maint_publish L env msg st))"
proof (cases st)
  case (Pair c f)
  obtain ok f' where p: "publish_fn (Forwarded msg) f = (ok, f')" by force
  have h: "held m (c', f') \<and> spool_ok (c', f')" if "ci_spool c' = ci_spool c" "mc_max_age_h c' = mc_max_age_h c" for c'
    using held_publish [OF _ p] assms that by (auto simp: Pair spool_ok_def held_def)
  have d: "held m (snd (maint_publish_degraded L env msg (c', f'))) \<and> spool_ok (snd (maint_publish_degraded L env msg (c', f')))"
    if "ci_spool c' = ci_spool c" "mc_max_age_h c' = mc_max_age_h c" for c'
    using h [OF that] by (intro publish_degraded_held) simp_all
  show ?thesis
    using publish_degraded_held [OF assms, of L env msg]
    by (auto simp: Pair maint_publish_def maint_publish_closed_def p Let_def h d)
qed

lemma drain_held:
  "held m (c, f) \<Longrightarrow> spool_ok (c, f) \<Longrightarrow> set es \<subseteq> set (ci_spool c) \<Longrightarrow> distinct (map se_name es) \<Longrightarrow>
     held m (snd (drain_entries fr es (c, f))) \<and> spool_ok (snd (drain_entries fr es (c, f)))"
proof (induction es arbitrary: c f)
  case Nil
  then show ?case by simp
next
  case (Cons e es)
  let ?c = "drop_entry (se_name e) c"
  have one: "x = e" if "x \<in> set (ci_spool c)" "se_name x = se_name e" for x
    using Cons.prems(2,3) that unfolding spool_ok_def distinct_map by (auto dest: inj_onD)
  have ok: "spool_ok (?c, g)" "spool_ok (?c\<lparr>mc_malformed := l\<rparr>, g)" for l g
    using Cons.prems(2) by (simp_all add: spool_ok_def drop_entry_def distinct_map_filter)
  have other: "\<forall>x \<in> set es. se_name x \<noteq> se_name e" using Cons.prems(4) by (auto intro: rev_image_eqI)
  have es: "set es \<subseteq> set (ci_spool ?c)" "set es \<subseteq> set (ci_spool (?c\<lparr>mc_malformed := l\<rparr>))" "distinct (map se_name es)" for l
    using Cons.prems(3,4) other by (auto simp: drop_entry_def)
  show ?case
  proof (cases "load_message fr e")
    case None
    then have "se_body e \<noteq> Some (codec_encode m)" using load_written [of e m fr] None by auto
    then have "held m (?c, f)" using Cons.prems(1) one by (auto simp: held_def drop_entry_def)
    from Cons.IH [OF held_spool [OF this] ok(2) es(2,3)] show ?thesis by (simp add: None)
  next
    case (Some m')
    obtain ok1 f1 where p: "publish_fn (Forwarded m') f = (ok1, f1)" by force
    show ?thesis
    proof (cases ok1)
      case True
      have "se_body e = Some (codec_encode m) \<Longrightarrow> m' = m" using load_written [of e m fr] Some by auto
      then have "held m (?c, f1)" using Cons.prems(1) one publish_fn_sent [OF p] True by (auto simp: held_def drop_entry_def)
      from Cons.IH [OF this ok(1) es(1,3)] True show ?thesis by (simp add: Some p split_beta)
    next
      case False
      have "held m (c, f1)" using held_publish [OF Cons.prems(1) p] .
      then show ?thesis using False Cons.prems(2) by (auto simp: Some p held_def spool_ok_def)
    qed
  qed
qed

lemma tick_held:
  assumes "held m st" "spool_ok st"
  shows "held m (snd (maint_tick L env st)) \<and> spool_ok (snd (maint_tick L env st))"
proof (cases st)
  case (Pair c f)
  obtain ok f1 where p: "publish_fn (Made (bus_probe env (ci_agent c))) f = (ok, f1)" by force
  let ?c = "c\<lparr>ci_degraded := False, ci_failures := 0, mc_self_isolated := False, mc_last_aged_alert := mc_last_aged_alert c\<rparr>"
  have h: "held m (c, f1)" using held_publish [OF _ p] assms(1) by (simp add: Pair)
  have "held m (?c, f1)" "spool_ok (?c, f1)" using h assms(2) by (simp_all add: Pair held_def spool_ok_def)
  moreover have "set (newest_first (ci_spool c)) \<subseteq> set (ci_spool ?c)" "distinct (map se_name (newest_first (ci_spool c)))"
    using assms(2) by (simp_all add: newest_first_def spool_ok_def Pair distinct_map distinct_sort)
  ultimately have d: "held m (snd (drain_entries fr (newest_first (ci_spool c)) (?c, f1))) \<and>
      spool_ok (snd (drain_entries fr (newest_first (ci_spool c)) (?c, f1)))" for fr by (rule drain_held)
  have a: "mc_max_age_h c \<le> 0" using assms(2) by (simp add: Pair spool_ok_def)
  show ?thesis
    using d assms h by (simp add: Pair maint_tick_def p drain_spool_def prune_aged_def a Let_def) (simp add: spool_ok_def)
qed

interpretation breaker_spool: invariant_steps "maint_step L" "\<lambda>st. held m st \<and> spool_ok st"
  by unfold_locales (auto simp: maint_step_def publish_held tick_held split: circuit_op.splits)

text \<open>
  What is spooled is never lost. With ageing switched off, a message that is in the spool, or has been published, is in the spool or
  published after any further publications and ticks, however often the bus fails in between, also in the middle of a replay.
\<close>

lemma spooled_messages_conserved:
  assumes "held m (c, f)" "distinct (map se_name (ci_spool c))" "mc_max_age_h c \<le> 0"
  shows "held m (foldl (maint_step L) (c, f) ops)"
proof -
  have "held m (c, f) \<and> spool_ok (c, f)" using assms by (simp add: spool_ok_def)
  from breaker_spool.inv_run [OF this] show ?thesis by simp
qed

section \<open>What a breaker loses\<close>

text \<open>
  The first failures lose their messages. While a breaker is closed and its count stays below the threshold, a message that the bus refuses is
  neither published nor spooled nor reported, whatever its severity, by both breakers.
\<close>

lemma early_failures_lose_messages:
  assumes "\<not> ci_degraded c" "0 \<le> ci_failures c" "ci_failures c + 1 < ci_threshold c" "bf_answers f = False # rest"
    and "\<not> ci_degraded d" "ci_failures d + 1 < ci_threshold d"
  shows "\<exists>c' d'. maint_publish L env msg (c, f) = (Inr [], c', f\<lparr>bf_answers := rest\<rparr>) \<and> ci_spool c' = ci_spool c \<and> \<not> ci_degraded c' \<and>
    nlp_publish L sha256 pii_strip env msg (d, f) = (Inr [], d', f\<lparr>bf_answers := rest\<rparr>) \<and> ci_spool d' = ci_spool d \<and> \<not> ci_degraded d'"
  using assms
  by (auto simp: maint_publish_def maint_publish_closed_def nlp_publish_def nlp_publish_closed_def publish_fn_def Let_def split: option.splits)

text \<open>
  The alerts about an outage cannot be read. None of the messages that the breaker and the spool scans put on the alert topic, the isolation of
  an agent, the probe, aged and retired entries, decodes as an alert: the field \<open>alert_id\<close> is missing from all of them.
\<close>

lemma outage_alerts_undecodable:
  "\<forall>e \<in> {self_isolated_alert env a, bus_probe env a, aged_alert G a p h k, retired_alert G a p k why}.
     em_topic e = sec_alert_topic \<and> sec_alert_from_dict hexdigest L (em_payload e) = Inl KeyError"
  by (simp add: self_isolated_alert_def bus_probe_def aged_alert_def retired_alert_def sec_alert_from_dict_def get_str_def jget_def)

section \<open>The NLP breaker stays open\<close>

definition nlp_publish_all ::
  "pylib \<Rightarrow> (string \<Rightarrow> string) \<Rightarrow> bool \<Rightarrow> (breaker_env \<times> message) list \<Rightarrow> circuit \<times> bus_feed \<Rightarrow> circuit \<times> bus_feed" where
  "nlp_publish_all L sha256 strip xs st = foldl (\<lambda>st (env, msg). snd (nlp_publish L sha256 strip env msg st)) st xs"

abbreviation nlp_keys :: "string list" where
  "nlp_keys \<equiv> [''request_id'', ''qa_correlation_id'']"

definition nlp_entry :: "pylib \<Rightarrow> (string \<Rightarrow> string) \<Rightarrow> bool \<Rightarrow> breaker_env \<times> message \<Rightarrow> spool_entry" where
  "nlp_entry L sha256 strip x = spooled L nlp_keys (fst x) (snd x) (disk_message sha256 strip (snd x))"

lemma nlp_entry_less:
  "nameable L nlp_keys y \<Longrightarrow> ev_clock_ms (fst x) < ev_clock_ms (fst y) \<Longrightarrow> se_name (nlp_entry L sha256 strip x) < se_name (nlp_entry L sha256 strip y)"
  by (auto simp: nlp_entry_def spooled_def nameable_def intro!: spool_name_less)

lemma nlp_entries_sorted:
  assumes "in_time_order xs" "\<forall>x \<in> set xs. nameable L nlp_keys x"
  shows "sorted_wrt (<) (map (se_name \<circ> nlp_entry L sha256 strip) xs)"
  using assms unfolding in_time_order_def sorted_wrt_map
  by (elim sorted_wrt_mono_rel [rotated]) (simp add: nlp_entry_less)

lemma oldest_dropped:
  assumes "sorted_wrt (<) (map se_name es)"
  shows "filter (\<lambda>e. se_name e \<noteq> se_name (hd (sort_key se_name es))) es = tl es"
proof (cases es)
  case Nil
  then show ?thesis by simp
next
  case (Cons e es')
  have "sort_key se_name es = es" using assms by (intro sort_key_id_if_sorted) (simp add: strict_sorted_iff)
  moreover have "\<forall>x \<in> set es'. se_name e < se_name x" using assms by (simp add: Cons)
  ultimately show ?thesis by (auto simp: Cons filter_id_conv)
qed

lemma nlp_spool_ring:
  assumes "ci_degraded c" "ci_spool c = []" "0 < ci_spool_max c"
  shows "in_time_order xs \<Longrightarrow> \<forall>x \<in> set xs. nameable L nlp_keys x \<Longrightarrow>
    nlp_publish_all L sha256 strip xs (c, f) =
      (c\<lparr>ci_spool := map (nlp_entry L sha256 strip) (drop (length xs - nat (ci_spool_max c)) xs)\<rparr>, f)"
proof (induction xs rule: rev_induct)
  case Nil
  then show ?case using assms by (simp add: nlp_publish_all_def)
next
  case (snoc x xs)
  obtain env msg where x: "x = (env, msg)" by (cases x)
  let ?k = "nat (ci_spool_max c)"
  let ?old = "drop (length xs - ?k) xs"
  let ?es = "map (nlp_entry L sha256 strip) ?old"
  have order: "in_time_order xs" "\<forall>y \<in> set xs. ev_clock_ms (fst y) < ev_clock_ms env"
    using snoc.prems(1) by (auto simp: in_time_order_snoc x)
  then have IH: "nlp_publish_all L sha256 strip xs (c, f) = (c\<lparr>ci_spool := ?es\<rparr>, f)" using snoc by simp
  have old: "in_time_order ?old" "\<forall>x \<in> set ?old. nameable L nlp_keys x"
    using order(1) snoc.prems(2) set_drop_subset [of _ xs] by (auto simp: in_time_order_def sorted_wrt_drop)
  have sorted: "sorted_wrt (<) (map se_name ?es)" using nlp_entries_sorted [OF old] by (simp add: comp_def)
  define kept where "kept = (if ?k \<le> length xs then tl ?es else ?es)"
  have kept: "(if ci_spool_max c \<le> int (length ?es) \<and> ?es \<noteq> []
      then filter (\<lambda>e. se_name e \<noteq> se_name (hd (sort_key se_name ?es))) ?es else ?es) = kept"
    using assms(3) unfolding oldest_dropped [OF sorted] kept_def by (auto simp: nat_le_iff)
  have "se_name e < se_name (nlp_entry L sha256 strip x)" if e: "e \<in> set kept" for e
  proof -
    have "set kept \<subseteq> nlp_entry L sha256 strip ` set xs"
      by (auto simp: kept_def map_tl [symmetric] tl_drop drop_Suc [symmetric] dest!: in_set_dropD)
    with e obtain y where "y \<in> set xs" "e = nlp_entry L sha256 strip y" by auto
    then show ?thesis using order(2) snoc.prems(2) by (auto simp: x intro!: nlp_entry_less)
  qed
  then have less: "\<forall>e \<in> set kept. se_name e < se_name (nlp_entry L sha256 strip x)" by blast
  have entry: "nlp_entry L sha256 strip x = spooled L nlp_keys env msg (disk_message sha256 strip msg)" by (simp add: nlp_entry_def x)
  have w: "write_file (spool_name (ev_clock_ms env) (spool_id L nlp_keys (ev_new_id env) (msg_payload msg))) (ev_mtime env)
      (codec_encode (disk_message sha256 strip msg)) kept = Inr (kept @ [nlp_entry L sha256 strip x])"
    using snoc.prems(2) less unfolding entry by (intro write_spooled) (simp_all add: x)
  have es: "kept @ [nlp_entry L sha256 strip x] = map (nlp_entry L sha256 strip) (drop (length (xs @ [x]) - ?k) (xs @ [x]))"
    using assms(3) by (auto simp: kept_def map_tl [symmetric] tl_drop drop_Suc [symmetric] Suc_diff_le)
  have "nlp_spool_write L sha256 strip env (ci_spool_max c) msg ?es = (Inr True, kept @ [nlp_entry L sha256 strip x])"
    unfolding nlp_spool_write_def kept Let_def w by simp
  then have step: "nlp_publish L sha256 strip env msg (c\<lparr>ci_spool := ?es\<rparr>, f) = (Inr [], c\<lparr>ci_spool := kept @ [nlp_entry L sha256 strip x]\<rparr>, f)"
    using assms(1) by (simp add: nlp_publish_def nlp_publish_degraded_def)
  have "nlp_publish_all L sha256 strip (xs @ [x]) (c, f) = snd (nlp_publish L sha256 strip env msg (nlp_publish_all L sha256 strip xs (c, f)))"
    by (simp add: nlp_publish_all_def x)
  then show ?case unfolding IH step es by simp
qed

text \<open>
  The NLP breaker never closes again. Once it is open, whatever the bus does, the bus is not asked again: messages only go to the
  spool, which holds exactly the newest ones up to its cap, with personal text replaced by its digest, and a tick
  returns nothing and changes nothing.
\<close>

lemma nlp_outage_is_final:
  assumes "ci_degraded c" "ci_spool c = []" "0 < ci_spool_max c" "in_time_order xs" "\<forall>x \<in> set xs. nameable L nlp_keys x"
  shows "\<exists>c'. nlp_publish_all L sha256 strip xs (c, f) = (c', f) \<and> ci_degraded c' \<and> nlp_tick c' = [] \<and>
    map (load_message fr) (ci_spool c') =
      map (\<lambda>x. Some (disk_message sha256 strip (snd x))) (drop (length xs - nat (ci_spool_max c)) xs)"
  using assms(1) by (auto simp: nlp_spool_ring [OF assms] nlp_tick_def nlp_entry_def spooled_def load_written)

text \<open>
  Replaying a stripped message restores it. The digest written in place of the text of an intent leads back to the payload that was
  published, key by key, from the original text, and to nothing from a text with another digest or from none.
\<close>

lemma stripped_payload_restored:
  assumes "map_of (msg_payload msg) ''sanitized_text'' = Some (JStr text1)" "map_of (msg_payload msg) ''sanitized_text_sha256'' = None"
    and "en_topic (msg_envelope msg) = ''qa.intent.v1''"
  shows "let stored = spool_payload_for_disk sha256 True msg in
    map_of stored ''sanitized_text'' = None \<and> restore_spool_payload sha256 stored None = None \<and>
    (sha256 other \<noteq> sha256 text1 \<longrightarrow> restore_spool_payload sha256 stored (Some other) = None) \<and>
    (\<exists>p. restore_spool_payload sha256 stored (Some text1) = Some p \<and>
       (\<forall>k. k \<noteq> ''sanitized_text_sha256'' \<longrightarrow> map_of p k = map_of (msg_payload msg) k))"
  using assms by (simp add: spool_payload_for_disk_def restore_spool_payload_def od_simps Let_def) (auto simp: map_add_def split: option.splits)

section \<open>Examples\<close>

definition breaker_example_env :: "nat \<Rightarrow> breaker_env" where
  "breaker_example_env ms = \<lparr>ev_clock_s = real ms / 1000, ev_clock_ms = ms, ev_mtime = real ms, ev_new_id = ''id'', ev_iso = ''t'', ev_aging = example_aging,
     ev_fresh = \<lparr>fr_message_id = ''m'', fr_trace_id = ''t'', fr_now = ''t''\<rparr>\<rparr>"

definition example_msg :: "string \<Rightarrow> message" where
  "example_msg s = message_new (ev_fresh (breaker_example_env 0)) ''qa.intent.v1'' [(''sanitized_text'', JStr s)] ''a'' None"

definition open_breaker :: maint_circuit where
  "open_breaker = (maint_circuit_init ''maint.scaler.v1'' 3 60 512 168 [])\<lparr>ci_degraded := True\<rparr>"

lemma example_names:
  "nameable L [''request_id''] (breaker_example_env 2, example_msg s)" "nameable L [''request_id''] (breaker_example_env 3, example_msg s)"
  "nameable L nlp_keys (breaker_example_env 2, example_msg s)" "nameable L nlp_keys (breaker_example_env 3, example_msg s)" "\<not> is_critical L (example_msg s)"
  by (simp_all add: nameable_def breaker_example_env_def example_msg_def message_new_def spool_id.simps jget_or_def is_critical_def py_lower_def)

lemma example_order: "in_time_order [(breaker_example_env 2, example_msg s), (breaker_example_env 3, example_msg t)]"
  by (simp add: in_time_order_def breaker_example_env_def)


end
