(* ===== verification/Watchdogs.thy ===== *)
theory Watchdogs
  imports Wire_Ops Bus_Types
begin

text \<open>
  The small state machines of the maintenance plane: pausing an agent (\<open>swarm/agents/maint/_pause_state.py\<close>), the
  dead-letter throttle (\<open>_dlq_throttle.py\<close>), the consumer-lag watchdog (\<open>_lag_watchdog.py\<close>) with the shed state it
  leaves to the next leader (\<open>swarm/sdk/shed_state.py\<close>), and the lag watchdog of the alert plane with its
  policy (\<open>maint/sec.py\<close>). Every time is an argument; the \<open>deque\<close>s are lists, oldest first.
\<close>

section \<open>Pausing\<close>

record pause_state =
  ps_paused :: bool
  ps_self_isolated :: bool
  ps_deadline_ns :: "int option"

record pause_ack =
  pa_accepted :: bool
  pa_reason :: string
  pa_paused :: bool
  pa_self_isolated :: bool
  pa_deadline_ns :: "int option"
  pa_requested_ttl_s :: int
  pa_effective_ttl_s :: int

definition pause_init :: pause_state where
  "pause_init = \<lparr>ps_paused = False, ps_self_isolated = False, ps_deadline_ns = None\<rparr>"

definition apply_pause :: "int \<Rightarrow> int \<Rightarrow> pause_state \<Rightarrow> pause_ack \<times> pause_state" where
  "apply_pause ttl_s now_ns s =
     (if ps_self_isolated s then
        (\<lparr>pa_accepted = False, pa_reason = ''requires_resume_first'', pa_paused = ps_paused s, pa_self_isolated = True,
          pa_deadline_ns = ps_deadline_ns s, pa_requested_ttl_s = 0, pa_effective_ttl_s = 0\<rparr>, s)
      else
        let new_deadline = now_ns + max 1 ttl_s * 1000000000 in
        if ps_paused s then
          let current = (case ps_deadline_ns s of None \<Rightarrow> 0 | Some d \<Rightarrow> d);
              s1 = (if current < new_deadline then s\<lparr>ps_deadline_ns := Some new_deadline\<rparr> else s) in
          (\<lparr>pa_accepted = True, pa_reason = (if current < new_deadline then ''ttl_refreshed'' else ''already_paused''), pa_paused = True,
            pa_self_isolated = False, pa_deadline_ns = ps_deadline_ns s1, pa_requested_ttl_s = ttl_s,
            pa_effective_ttl_s = (if current < new_deadline then ttl_s else max 0 ((current - now_ns) div 1000000000))\<rparr>, s1)
        else
          (\<lparr>pa_accepted = True, pa_reason = ''paused'', pa_paused = True, pa_self_isolated = False, pa_deadline_ns = Some new_deadline,
            pa_requested_ttl_s = ttl_s, pa_effective_ttl_s = ttl_s\<rparr>,
           s\<lparr>ps_paused := True, ps_deadline_ns := Some new_deadline\<rparr>))"

definition apply_resume :: "pause_state \<Rightarrow> pause_ack \<times> pause_state" where
  "apply_resume s =
     (let ack = \<lambda>reason. \<lparr>pa_accepted = True, pa_reason = reason, pa_paused = False, pa_self_isolated = False, pa_deadline_ns = None,
                pa_requested_ttl_s = 0, pa_effective_ttl_s = 0\<rparr> in
      (if \<not> ps_paused s \<and> \<not> ps_self_isolated s then ack ''already_running''
       else if ps_self_isolated s then ack ''resumed_from_isolation'' else ack ''resumed'',
       s\<lparr>ps_paused := False, ps_deadline_ns := None, ps_self_isolated := False\<rparr>))"

definition expire_if_due :: "int \<Rightarrow> pause_state \<Rightarrow> bool \<times> pause_state" where
  "expire_if_due now_ns s =
     (case ps_deadline_ns s of
        Some d \<Rightarrow> if ps_paused s \<and> d \<le> now_ns then (True, s\<lparr>ps_paused := False, ps_deadline_ns := None\<rparr>) else (False, s)
      | None \<Rightarrow> (False, s))"

section \<open>The dead-letter throttle\<close>

record dlq_throttle =
  dt_samples :: "(real \<times> int) list"
  dt_throttled :: bool
  dt_non_positive_since :: "real option"

definition dlq_throttle_init :: dlq_throttle where
  "dlq_throttle_init = \<lparr>dt_samples = [], dt_throttled = False, dt_non_positive_since = None\<rparr>"

definition growth_window :: real where
  "growth_window = 60"

definition growth_per_min :: "real \<Rightarrow> (real \<times> int) list \<Rightarrow> real" where
  "growth_per_min now_s samples =
     (let window = filter (\<lambda>(t, d). now_s - growth_window \<le> t) samples in
      if length window < 2 then 0
      else
        let elapsed = fst (last window) - fst (hd window) in
        if elapsed < 1 / 10 then 0 else real_of_int (snd (last window) - snd (hd window)) / (elapsed / 60))"

definition note_depth :: "int \<Rightarrow> int \<Rightarrow> int \<Rightarrow> real \<Rightarrow> dlq_throttle \<Rightarrow> dlq_throttle" where
  "note_depth growth_alert recovery depth t s =
     (let samples = dropWhile (\<lambda>p. fst p < t - growth_window * 2) (dt_samples s @ [(t, depth)]);
          growth = growth_per_min t samples; s1 = s\<lparr>dt_samples := samples\<rparr> in
      if real_of_int growth_alert < growth then s1\<lparr>dt_throttled := True, dt_non_positive_since := None\<rparr>
      else if growth \<le> 0 then
        (if \<not> dt_throttled s then s1
         else
           (case dt_non_positive_since s of
              None \<Rightarrow> s1\<lparr>dt_non_positive_since := Some t\<rparr>
            | Some u \<Rightarrow> if real_of_int recovery \<le> t - u then s1\<lparr>dt_throttled := False, dt_non_positive_since := None\<rparr> else s1))
      else s1\<lparr>dt_non_positive_since := None\<rparr>)"

definition rate_factor :: "dlq_throttle \<Rightarrow> real" where
  "rate_factor s = (if dt_throttled s then 1 / 2 else 1)"

section \<open>The shed state\<close>

record shed_record =
  sh_tier :: int
  sh_since_utc :: string
  sh_reason :: string
  sh_pod :: string

datatype shed_file = NoFile | NotJson | JsonFile jval

definition shed_write :: "string \<Rightarrow> int \<Rightarrow> string \<Rightarrow> string \<Rightarrow> shed_file" where
  "shed_write now_iso tier reason pod =
     JsonFile (JObj [(''tier'', JInt tier), (''since_utc'', JStr now_iso), (''reason'', JStr reason), (''pod_instance_id'', JStr pod), (''_schema'', JInt 1)])"

text \<open>\<open>KeyError\<close> and \<open>TypeError\<close> make the record absent; \<open>int\<close> of a text that is no number raises \<open>ValueError\<close>.\<close>

definition shed_read :: "pylib \<Rightarrow> shed_file \<Rightarrow> shed_record option res" where
  "shed_read L f =
     (case f of
        JsonFile (JObj d) \<Rightarrow>
          (case res_bind (get_int L d ''tier'') (\<lambda>tier.
                res_bind (get_str L d ''since_utc'') (\<lambda>since.
                res_bind (get_str L d ''reason'') (\<lambda>reason.
                res_bind (get_str L d ''pod_instance_id'') (\<lambda>pod.
                Inr \<lparr>sh_tier = tier, sh_since_utc = since, sh_reason = reason, sh_pod = pod\<rparr>)))) of
             Inr r \<Rightarrow> Inr (Some r)
           | Inl e \<Rightarrow> if e = KeyError \<or> e = TypeError then Inr None else Inl e)
      | _ \<Rightarrow> Inr None)"

definition shed_clear :: shed_file where
  "shed_clear = NoFile"

section \<open>The consumer-lag watchdog\<close>

record lag_cfg =
  lg_alert_ms :: int
  lg_alert_window :: int
  lg_recovery_window :: int

record lag_watchdog =
  lw_samples :: "(real \<times> real) list"
  lw_tier :: int
  lw_emitted :: "int list"
  lw_recovery_start :: "real option"
  lw_store :: "shed_file option"
  lw_pod :: string
  lw_inherit_lock :: "real option"
  lw_inherited_pending :: bool
  lw_prior_pod :: "string option"

definition tier2_lag :: real where
  "tier2_lag = 15"

definition tier3_lag :: real where
  "tier3_lag = 60"

definition recovery_floor :: real where
  "recovery_floor = 1"

definition lag_producer :: string where
  "lag_producer = ''maint.lag_watchdog.v1''"

definition lag_alert :: "string \<Rightarrow> string \<Rightarrow> string \<Rightarrow> int \<Rightarrow> emission" where
  "lag_alert iso1 kind severity tier =
     \<lparr>em_topic = sec_alert_topic,
      em_payload = [(''kind'', JStr kind), (''severity'', JStr severity), (''source'', JStr lag_producer), (''tier'', JInt tier), (''ts'', JStr iso1)],
      em_producer = lag_producer, em_trace = None\<rparr>"

definition lag_event :: "string \<Rightarrow> string \<Rightarrow> int \<Rightarrow> emission" where
  "lag_event iso1 kind tier =
     \<lparr>em_topic = maint_event_topic,
      em_payload = [(''kind'', JStr kind), (''tier'', JInt tier), (''source'', JStr lag_producer), (''ts'', JStr iso1)],
      em_producer = lag_producer, em_trace = None\<rparr>"

definition inherited_event :: "string \<Rightarrow> int \<Rightarrow> string option \<Rightarrow> emission" where
  "inherited_event iso1 tier prior =
     \<lparr>em_topic = maint_event_topic,
      em_payload = [(''kind'', JStr ''maint_plane_throttled''), (''tier'', JInt tier), (''action'', JStr ''inherited_from_lease''),
        (''prior_leader_pod_instance_id'', JStr (case prior of None \<Rightarrow> [] | Some p \<Rightarrow> p)), (''source'', JStr lag_producer), (''ts'', JStr iso1)],
      em_producer = lag_producer, em_trace = None\<rparr>"

definition fresh_watchdog :: "string \<Rightarrow> shed_file option \<Rightarrow> lag_watchdog" where
  "fresh_watchdog pod store =
     \<lparr>lw_samples = [], lw_tier = 0, lw_emitted = [], lw_recovery_start = None, lw_store = store, lw_pod = pod,
      lw_inherit_lock = None, lw_inherited_pending = False, lw_prior_pod = None\<rparr>"

definition lag_watchdog_init :: "pylib \<Rightarrow> lag_cfg \<Rightarrow> real \<Rightarrow> string \<Rightarrow> shed_file option \<Rightarrow> lag_watchdog res" where
  "lag_watchdog_init L C now_s pod store =
     (case store of
        None \<Rightarrow> Inr (fresh_watchdog pod None)
      | Some f \<Rightarrow>
          res_bind (shed_read L f) (\<lambda>r.
            case r of
              None \<Rightarrow> Inr (fresh_watchdog pod (Some f))
            | Some rec1 \<Rightarrow>
                if sh_tier rec1 \<le> 0 then Inr (fresh_watchdog pod (Some f))
                else Inr ((fresh_watchdog pod (Some f))
                  \<lparr>lw_tier := sh_tier rec1, lw_inherit_lock := Some (now_s + real_of_int (lg_recovery_window C)),
                   lw_inherited_pending := True, lw_prior_pod := Some (sh_pod rec1)\<rparr>)))"

definition note_lag :: "lag_cfg \<Rightarrow> real \<Rightarrow> real \<Rightarrow> lag_watchdog \<Rightarrow> lag_watchdog" where
  "note_lag C lag t w =
     w\<lparr>lw_samples := dropWhile (\<lambda>p. real_of_int (lg_alert_window C * 2 + 1) < t - fst p) (lw_samples w @ [(t, lag)]),
       lw_recovery_start :=
         (if lag < recovery_floor
          then (if 0 < lw_tier w \<and> lw_recovery_start w = None then Some t else lw_recovery_start w)
          else None)\<rparr>"

definition lag_sustained :: "real \<Rightarrow> int \<Rightarrow> real \<Rightarrow> (real \<times> real) list \<Rightarrow> bool" where
  "lag_sustained threshold window now_s samples =
     (let recent = filter (\<lambda>p. now_s - real_of_int window \<le> fst p) samples in
      samples \<noteq> [] \<and> (if recent = [] then threshold < snd (last samples) else (\<forall>p \<in> set recent. threshold < snd p)))"

definition lag_tier :: "real \<Rightarrow> real \<Rightarrow> real \<Rightarrow> real \<Rightarrow> int" where
  "lag_tier t2 t3 threshold lag = (if t3 < lag then 3 else if t2 < lag then 2 else if threshold < lag then 1 else 0)"

definition tier_events :: "string \<Rightarrow> int \<Rightarrow> emission list" where
  "tier_events iso1 tier =
     (if tier = 1 then [lag_alert iso1 ''maint_plane_lag_high'' ''warn'' 1] else []) @
     (if tier = 2 then [lag_event iso1 ''maint_plane_throttled'' 2] else []) @
     (if tier = 3 then [lag_event iso1 ''maint_plane_throttled'' 3] else [])"

fun enter_tiers :: "string \<Rightarrow> int list \<Rightarrow> int list \<Rightarrow> emission list \<times> int list" where
  "enter_tiers iso1 [] emitted = ([], emitted)"
| "enter_tiers iso1 (tier # tiers) emitted =
     (if tier \<in> set emitted then enter_tiers iso1 tiers emitted
      else let (out, emitted') = enter_tiers iso1 tiers (emitted @ [tier]) in (tier_events iso1 tier @ out, emitted'))"

definition lag_tick :: "lag_cfg \<Rightarrow> string \<Rightarrow> real \<Rightarrow> lag_watchdog \<Rightarrow> emission list \<times> lag_watchdog" where
  "lag_tick C iso1 t w =
     (if lw_samples w = [] then ([], w)
      else
        let latest = snd (last (lw_samples w));
            announce = (lw_inherited_pending w \<and> 0 < lw_tier w);
            out = (if announce then [inherited_event iso1 (lw_tier w) (lw_prior_pod w)] else []);
            w1 = (if announce then w\<lparr>lw_inherited_pending := False\<rparr> else w);
            locked = (case lw_inherit_lock w of None \<Rightarrow> False | Some u \<Rightarrow> t < u);
            threshold = real_of_int (lg_alert_ms C) / 1000 in
        if latest < recovery_floor then
          (if locked then (out, w1)
           else
             let w2 = w1\<lparr>lw_inherit_lock := None\<rparr> in
             if 0 < lw_tier w \<and> (case lw_recovery_start w of None \<Rightarrow> False | Some u \<Rightarrow> real_of_int (lg_recovery_window C) \<le> t - u)
             then (out @ [lag_event iso1 ''maint_plane_recovered'' 0],
                   w2\<lparr>lw_tier := 0, lw_emitted := [], lw_recovery_start := None, lw_store := map_option (\<lambda>_. shed_clear) (lw_store w)\<rparr>)
             else (out, w2))
        else if \<not> lag_sustained threshold (lg_alert_window C) t (lw_samples w) then (out, w1)
        else
          let new_tier = lag_tier tier2_lag tier3_lag threshold latest in
          if lw_tier w < new_tier then
            let (entered, emitted) = enter_tiers iso1 [lw_tier w + 1 .. new_tier] (lw_emitted w) in
            (out @ entered,
             w1\<lparr>lw_tier := new_tier, lw_emitted := emitted,
                lw_store := map_option (\<lambda>_. shed_write iso1 new_tier (''tier'' @ show_int new_tier @ ''_from_lag'') (lw_pod w)) (lw_store w)\<rparr>)
          else (out, w1))"

section \<open>The alert plane\<close>

record sec_lag =
  sl_samples :: "(real \<times> real) list"
  sl_tier :: int
  sl_emitted :: "int list"

definition sec_lag_init :: sec_lag where
  "sec_lag_init = \<lparr>sl_samples = [], sl_tier = 0, sl_emitted = []\<rparr>"

definition sec_note_lag :: "int \<Rightarrow> real \<Rightarrow> real \<Rightarrow> sec_lag \<Rightarrow> sec_lag" where
  "sec_note_lag window lag t w =
     w\<lparr>sl_samples := dropWhile (\<lambda>p. real_of_int (window * 2 + 1) < t - fst p) (sl_samples w @ [(t, lag)])\<rparr>"

fun sec_enter :: "int list \<Rightarrow> int list \<Rightarrow> int list \<times> int list" where
  "sec_enter [] emitted = ([], emitted)"
| "sec_enter (tier # tiers) emitted =
     (if tier \<in> set emitted then sec_enter tiers emitted
      else let (entered, emitted') = sec_enter tiers (emitted @ [tier]) in (tier # entered, emitted'))"

definition sec_tick :: "int \<Rightarrow> int \<Rightarrow> real \<Rightarrow> sec_lag \<Rightarrow> int list \<times> sec_lag" where
  "sec_tick alert_ms window t w =
     (if sl_samples w = [] then ([], w)
      else
        let threshold = real_of_int alert_ms / 1000; latest = snd (last (sl_samples w)) in
        if \<not> lag_sustained threshold window t (sl_samples w) then ([], w)
        else
          let new_tier = lag_tier tier2_lag tier3_lag threshold latest in
          if new_tier \<le> 0 then ([], w\<lparr>sl_tier := 0, sl_emitted := []\<rparr>)
          else if sl_tier w < new_tier then
            let (entered, emitted) = sec_enter [sl_tier w + 1 .. new_tier] (sl_emitted w) in
            (entered, w\<lparr>sl_tier := new_tier, sl_emitted := emitted\<rparr>)
          else ([], w))"

record sec_policy =
  sp_consume_non_emergency :: bool
  sp_consume_emergency :: bool

definition cross_plane_policy :: "int \<Rightarrow> int \<Rightarrow> sec_policy" where
  "cross_plane_policy maint_tier sec_tier = \<lparr>sp_consume_non_emergency = (max 0 sec_tier < 3), sp_consume_emergency = True\<rparr>"

section \<open>Reachable pause states\<close>

datatype pause_cmd = Pause int int | Resume | Expire int | Isolate

inductive pause_step :: "pause_state \<Rightarrow> pause_cmd \<Rightarrow> pause_state \<Rightarrow> bool" where
  pause: "pause_step s (Pause ttl now) (snd (apply_pause ttl now s))"
| resume: "pause_step s Resume (snd (apply_resume s))"
| expire: "pause_step s (Expire now) (snd (expire_if_due now s))"
| isolate: "pause_step s Isolate (s\<lparr>ps_self_isolated := True\<rparr>)"

inductive pause_reachable :: "pause_state \<Rightarrow> bool" where
  start: "pause_reachable pause_init"
| step: "pause_reachable s \<Longrightarrow> pause_step s cmd s' \<Longrightarrow> pause_reachable s'"

inductive_cases pause_stepE: "pause_step s cmd s'"

lemma pause_deadline: "pause_reachable s \<Longrightarrow> ps_paused s \<longleftrightarrow> ps_deadline_ns s \<noteq> None"
proof (induction rule: pause_reachable.induct)
  case start
  then show ?case by (simp add: pause_init_def)
next
  case (step s cmd s')
  from step(2,3) show ?case
    by (elim pause_stepE) (auto simp: apply_pause_def apply_resume_def expire_if_due_def Let_def split: option.splits)
qed

text \<open>
  The pause contract. In every state an agent can reach: an isolated one refuses a pause and is not changed by it; otherwise a pause is
  accepted, and the deadline is the later of the old and the new one, so a pause never ends earlier than was promised; a
  resume always leads back to the initial state; and every pause has a deadline at which it ends by itself.
\<close>

lemma pause_contract:
  assumes "pause_reachable s"
  shows "(let (ack, s') = apply_pause ttl now s; new = now + max 1 ttl * 1000000000 in
      if ps_self_isolated s then \<not> pa_accepted ack \<and> s' = s
      else pa_accepted ack \<and> ps_paused s' \<and> ps_deadline_ns s' = Some (case ps_deadline_ns s of None \<Rightarrow> new | Some d \<Rightarrow> max d new)) \<and>
    pa_accepted (fst (apply_resume s)) \<and> snd (apply_resume s) = pause_init \<and>
    (if ps_paused s then \<exists>d. ps_deadline_ns s = Some d \<and> fst (expire_if_due d s) \<and> \<not> ps_paused (snd (expire_if_due d s)) else ps_deadline_ns s = None)"
proof -
  have "snd (apply_resume s) = pause_init" by (cases s) (simp add: apply_resume_def pause_init_def)
  then show ?thesis
    using pause_deadline [OF assms]
    by (auto simp: apply_pause_def apply_resume_def expire_if_due_def Let_def max_def split: option.splits)
qed

section \<open>Announcements of the lag watchdog\<close>

datatype lag_op = Note real real | Tick string real

fun lag_step :: "lag_cfg \<Rightarrow> lag_watchdog \<Rightarrow> lag_op \<Rightarrow> emission list \<times> lag_watchdog" where
  "lag_step C w (Note t lag) = ([], note_lag C lag t w)"
| "lag_step C w (Tick iso1 t) = lag_tick C iso1 t w"

fun lag_run :: "lag_cfg \<Rightarrow> lag_op list \<Rightarrow> lag_watchdog \<Rightarrow> emission list \<times> lag_watchdog" where
  "lag_run C [] w = ([], w)"
| "lag_run C (op1 # ops) w =
     (let (out1, w1) = lag_step C w op1; (out2, w2) = lag_run C ops w1 in (out1 @ out2, w2))"

definition is_recovery :: "emission \<Rightarrow> bool" where
  "is_recovery e \<longleftrightarrow> map_of (em_payload e) ''kind'' = Some (JStr ''maint_plane_recovered'')"

definition announced_tier :: "emission \<Rightarrow> int option" where
  "announced_tier e =
     (if is_recovery e \<or> map_of (em_payload e) ''action'' \<noteq> None then None
      else case map_of (em_payload e) ''tier'' of Some (JInt i) \<Rightarrow> Some i | _ \<Rightarrow> None)"

text \<open>Between two recoveries no tier is announced twice.\<close>

fun once_per_episode :: "int list \<Rightarrow> emission list \<Rightarrow> bool" where
  "once_per_episode seen [] = True"
| "once_per_episode seen (e # es) =
     (if is_recovery e then once_per_episode [] es
      else case announced_tier e of None \<Rightarrow> once_per_episode seen es | Some i \<Rightarrow> i \<notin> set seen \<and> once_per_episode (i # seen) es)"

lemma tier_events_token:
  "e \<in> set (tier_events iso1 i) \<Longrightarrow> \<not> is_recovery e \<and> announced_tier e = Some i" "length (tier_events iso1 i) \<le> 1"
  by (auto simp: tier_events_def is_recovery_def announced_tier_def lag_alert_def lag_event_def)

lemma enter_tiers_once:
  "enter_tiers iso1 tiers emitted = (out, emitted') \<Longrightarrow> set seen \<subseteq> set emitted \<Longrightarrow>
     (\<And>seen'. set seen' \<subseteq> set emitted' \<Longrightarrow> once_per_episode seen' rest) \<Longrightarrow> once_per_episode seen (out @ rest)"
proof (induction iso1 tiers emitted arbitrary: out emitted' seen rule: enter_tiers.induct)
  case (1 iso1 emitted)
  then show ?case by simp
next
  case (2 iso1 tier tiers emitted)
  show ?case
  proof (cases "tier \<in> set emitted")
    case True
    then show ?thesis using "2.IH"(1) [OF True _ "2.prems"(2,3)] "2.prems"(1) by simp
  next
    case False
    obtain out2 em2 where e: "enter_tiers iso1 tiers (emitted @ [tier]) = (out2, em2)" by force
    then have out: "out = tier_events iso1 tier @ out2" "emitted' = em2" using "2.prems"(1) False by simp_all
    have IH: "once_per_episode seen' (out2 @ rest)" if "set seen' \<subseteq> set (emitted @ [tier])" for seen'
      using "2.IH"(2) [OF False e that] "2.prems"(3) unfolding out(2) by blast
    show ?thesis
    proof (cases "tier_events iso1 tier")
      case Nil
      then show ?thesis using IH [of seen] "2.prems"(2) by (auto simp: out)
    next
      case (Cons x xs)
      then have "xs = []" using tier_events_token(2) [of iso1 tier] by simp
      then show ?thesis
        using IH [of "tier # seen"] "2.prems"(2) False tier_events_token(1) [of x iso1 tier] by (auto simp: out Cons)
    qed
  qed
qed

lemma inherited_token: "\<not> is_recovery (inherited_event iso1 i p)" "announced_tier (inherited_event iso1 i p) = None"
  by (simp_all add: is_recovery_def announced_tier_def inherited_event_def)

lemma recovered_token: "is_recovery (lag_event iso1 ''maint_plane_recovered'' 0)"
  by (simp add: is_recovery_def lag_event_def)

lemma lag_tick_once:
  assumes "lag_tick C iso1 t w = (out, w')" "set seen \<subseteq> set (lw_emitted w)"
    and "\<And>seen'. set seen' \<subseteq> set (lw_emitted w') \<Longrightarrow> once_per_episode seen' rest"
  shows "once_per_episode seen (out @ rest)"
proof -
  let ?pre = "if lw_inherited_pending w \<and> 0 < lw_tier w then [inherited_event iso1 (lw_tier w) (lw_prior_pod w)] else []"
  have pre: "once_per_episode seen (?pre @ xs) = once_per_episode seen xs" for xs by (simp add: inherited_token)
  consider (silent) "out = [] \<or> out = ?pre" "lw_emitted w' = lw_emitted w"
    | (recovered) "out = ?pre @ [lag_event iso1 ''maint_plane_recovered'' 0]"
    | (raised) entered tiers where "out = ?pre @ entered" "enter_tiers iso1 tiers (lw_emitted w) = (entered, lw_emitted w')"
    using assms(1) by (auto simp: lag_tick_def Let_def split: if_splits prod.splits)
  then show ?thesis
  proof cases
    case silent
    then show ?thesis using assms(2,3) pre [of rest] by auto
  next
    case recovered
    then show ?thesis using assms(3) [of "[]"] by (simp add: inherited_token recovered_token)
  next
    case raised
    then show ?thesis using enter_tiers_once [OF raised(2) assms(2,3)] pre [of "entered @ rest"] by simp
  qed
qed

lemma lag_run_once: "set seen \<subseteq> set (lw_emitted w) \<Longrightarrow> once_per_episode seen (fst (lag_run C ops w))"
proof (induction ops arbitrary: w seen)
  case Nil
  then show ?case by simp
next
  case (Cons op1 ops)
  show ?case
  proof (cases op1)
    case (Note t lag)
    then show ?thesis using Cons by (simp add: split_beta note_lag_def)
  next
    case (Tick iso1 t)
    obtain out w' where t: "lag_tick C iso1 t w = (out, w')" by force
    show ?thesis using lag_tick_once [OF t Cons.prems Cons.IH] by (simp add: Tick t split_beta)
  qed
qed

text \<open>
  Each tier is announced once. Over any observations and ticks of a watchdog, fresh or started from a shed state, no tier is announced a
  second time before the plane has been announced as recovered.
\<close>

lemma tiers_announced_once:
  "once_per_episode [] (fst (lag_run C ops w))"
  by (rule lag_run_once) simp

section \<open>Recovery and hand-over\<close>

definition lag_state :: "lag_cfg \<Rightarrow> lag_op list \<Rightarrow> lag_watchdog \<Rightarrow> lag_watchdog" where
  "lag_state C ops w = foldl (\<lambda>w op1. snd (lag_step C w op1)) w ops"

text \<open>Since a low observation at \<open>u\<close> all have been low.\<close>

definition quiet_since :: "lag_op list \<Rightarrow> real \<Rightarrow> bool" where
  "quiet_since ops u \<longleftrightarrow> (\<exists>before lag after. ops = before @ Note u lag # after \<and> lag < recovery_floor \<and>
     (\<forall>t l. Note t l \<in> set after \<longrightarrow> l < recovery_floor))"

lemma quiet_since_snoc: "quiet_since ops u \<Longrightarrow> (\<And>t l. op1 = Note t l \<Longrightarrow> l < recovery_floor) \<Longrightarrow> quiet_since (ops @ [op1]) u"
  unfolding quiet_since_def by (elim exE conjE) (rule exI, rule exI, rule exI [of _ "_ @ [op1]"], auto)

lemma quiet_since_Note: "l < recovery_floor \<Longrightarrow> quiet_since (ops @ [Note u l]) u"
  unfolding quiet_since_def by (rule exI [of _ ops], rule exI [of _ l], rule exI [of _ "[]"]) simp

lemma lag_tick_recovery_start:
  "lw_recovery_start (snd (lag_tick C iso1 t w)) = Some u \<Longrightarrow> lw_recovery_start w = Some u"
  by (auto simp: lag_tick_def Let_def split: if_splits prod.splits)

lemma recovery_start_quiet:
  "lw_recovery_start w = None \<Longrightarrow> lw_recovery_start (lag_state C ops w) = Some u \<Longrightarrow> quiet_since ops u"
proof (induction ops arbitrary: u rule: rev_induct)
  case Nil
  then show ?case by (simp add: lag_state_def)
next
  case (snoc op1 ops)
  let ?w = "lag_state C ops w"
  have st: "lag_state C (ops @ [op1]) w = snd (lag_step C ?w op1)" by (simp add: lag_state_def)
  show ?case
  proof (cases op1)
    case (Note t lag)
    then have low: "lag < recovery_floor" and "lw_recovery_start ?w = Some u \<or> t = u"
      using snoc.prems(2) unfolding st by (auto simp: note_lag_def split: if_splits)
    from this(2) show ?thesis
    proof
      assume "lw_recovery_start ?w = Some u"
      from snoc.IH [OF snoc.prems(1) this] show ?thesis by (rule quiet_since_snoc) (use low Note in simp)
    next
      assume "t = u"
      then show ?thesis unfolding Note using quiet_since_Note [OF low] by simp
    qed
  next
    case (Tick iso1 t)
    then have "lw_recovery_start ?w = Some u" using snoc.prems(2) unfolding st by - (rule lag_tick_recovery_start [of C iso1 t], simp)
    from snoc.IH [OF snoc.prems(1) this] show ?thesis by (rule quiet_since_snoc) (simp add: Tick)
  qed
qed

lemma enter_tiers_tier: "lw_tier (snd (lag_tick C iso1 t w)) < lw_tier w \<Longrightarrow>
    lw_tier (snd (lag_tick C iso1 t w)) = 0 \<and> (\<exists>u. lw_recovery_start w = Some u \<and> real_of_int (lg_recovery_window C) \<le> t - u) \<and>
    (case lw_inherit_lock w of None \<Rightarrow> True | Some v \<Rightarrow> v \<le> t)"
  by (auto simp: lag_tick_def Let_def not_less split: if_splits prod.splits option.splits)

text \<open>
  Shedding ends only after a quiet time. A tick that lowers the tier lowers it to zero, and does so only when every observation since one
  that is at least the recovery window old was below the floor; and not within the recovery window after the tier
  was taken over from another leader.
\<close>

lemma recovery_needs_quiet:
  assumes "lag_watchdog_init L C boot pod store = Inr w0" "w = lag_state C ops w0"
    and "lw_tier (snd (lag_tick C iso1 t w)) < lw_tier w"
  shows "lw_tier (snd (lag_tick C iso1 t w)) = 0 \<and> (\<exists>u. quiet_since ops u \<and> real_of_int (lg_recovery_window C) \<le> t - u) \<and>
    (case lw_inherit_lock w of None \<Rightarrow> True | Some v \<Rightarrow> v \<le> t)"
proof -
  have "lw_recovery_start w0 = None"
    using assms(1) by (auto simp: lag_watchdog_init_def fresh_watchdog_def res_iffs split: option.splits if_splits)
  then show ?thesis
    using enter_tiers_tier [OF assms(3)] recovery_start_quiet [of w0 C ops] unfolding assms(2) by blast
qed

text \<open>The tier under the lock of a take-over.\<close>

lemma locked_tick:
  assumes "lw_inherit_lock w = Some v" "t < v" "n \<le> lw_tier w"
  shows "n \<le> lw_tier (snd (lag_tick C iso1 t w))" "lw_inherit_lock (snd (lag_tick C iso1 t w)) = Some v"
  using assms by (auto simp: lag_tick_def Let_def split: if_splits prod.splits)

lemma locked_run:
  "lw_inherit_lock w = Some v \<Longrightarrow> n \<le> lw_tier w \<Longrightarrow> \<forall>iso1 u. Tick iso1 u \<in> set ops \<longrightarrow> u < v \<Longrightarrow> n \<le> lw_tier (lag_state C ops w)"
proof (induction ops arbitrary: w)
  case Nil
  then show ?case by (simp add: lag_state_def)
next
  case (Cons op1 ops)
  have "lw_inherit_lock (snd (lag_step C w op1)) = Some v \<and> n \<le> lw_tier (snd (lag_step C w op1))"
  proof (cases op1)
    case (Note t lag)
    then show ?thesis using Cons.prems by (simp add: note_lag_def)
  next
    case (Tick iso1 t)
    then have "t < v" using Cons.prems(3) by auto
    then show ?thesis using locked_tick [OF Cons.prems(1) _ Cons.prems(2)] Tick by simp
  qed
  then show ?case using Cons.IH [of "snd (lag_step C w op1)"] Cons.prems(3) by (simp add: lag_state_def)
qed

text \<open>
  A tier survives the hand-over. The tier that a watchdog with a store enters is the tier from which the next leader starts, and whatever
  lag it observes, it does not go below that tier before the recovery window after its start has passed.
\<close>

lemma shed_tier_inherited:
  assumes "lw_store w = Some f" "0 \<le> lw_tier w" "lag_tick C iso1 t w = (out, w')" "lw_tier w < lw_tier w'"
  shows "\<exists>v. lag_watchdog_init L C boot pod (lw_store w') = Inr v \<and> lw_tier v = lw_tier w' \<and>
    (\<forall>ops. (\<forall>iso2 u. Tick iso2 u \<in> set ops \<longrightarrow> u < boot + real_of_int (lg_recovery_window C)) \<longrightarrow> lw_tier w' \<le> lw_tier (lag_state C ops v))"
proof -
  obtain reason where store: "lw_store w' = Some (shed_write iso1 (lw_tier w') reason (lw_pod w))" and pos: "0 < lw_tier w'"
    using assms by (auto simp: lag_tick_def Let_def split: if_splits prod.splits)
  have "shed_read L (shed_write iso1 n reason p) = Inr (Some \<lparr>sh_tier = n, sh_since_utc = iso1, sh_reason = reason, sh_pod = p\<rparr>)" for n p
    by (simp add: shed_read_def shed_write_def get_int_def get_str_def jget_def)
  then obtain v where v: "lag_watchdog_init L C boot pod (lw_store w') = Inr v" "lw_tier v = lw_tier w'"
    "lw_inherit_lock v = Some (boot + real_of_int (lg_recovery_window C))"
    using pos by (auto simp: lag_watchdog_init_def store fresh_watchdog_def)
  show ?thesis using v locked_run [OF v(3), of "lw_tier w'" _ C] by auto
qed

lemma first_tick:
  assumes "lw_samples w = [p]" "lw_tier w = 0" "lw_emitted w = []" "\<not> lw_inherited_pending w" "\<not> snd p < recovery_floor"
    and "lag_sustained (real_of_int (lg_alert_ms C) / 1000) (lg_alert_window C) now_s [p]"
    and "lag_tier tier2_lag tier3_lag (real_of_int (lg_alert_ms C) / 1000) (snd p) = 3"
  shows "fst (lag_tick C iso1 now_s w) = fst (enter_tiers iso1 [1, 2, 3] [])" "lw_tier (snd (lag_tick C iso1 now_s w)) = 3"
proof -
  have "[1 .. 3 :: int] = [1, 2, 3]" by (simp add: upto_rec1)
  then show "fst (lag_tick C iso1 now_s w) = fst (enter_tiers iso1 [1, 2, 3] [])" "lw_tier (snd (lag_tick C iso1 now_s w)) = 3"
    using assms by (simp_all add: lag_tick_def Let_def split_beta)
qed

text \<open>
  One slow message is enough. A single observation above the highest limit makes a fresh watchdog announce all three tiers at the next
  tick, although nothing has lasted for the alert window.
\<close>

lemma one_sample_sheds:
  assumes "0 \<le> lg_alert_window C" "lg_alert_ms C \<le> 60000" "60 < lag"
  shows "fst (lag_tick C iso1 now_s (note_lag C lag t (fresh_watchdog pod store))) =
      [lag_alert iso1 ''maint_plane_lag_high'' ''warn'' 1, lag_event iso1 ''maint_plane_throttled'' 2, lag_event iso1 ''maint_plane_throttled'' 3] \<and>
    lw_tier (snd (lag_tick C iso1 now_s (note_lag C lag t (fresh_watchdog pod store)))) = 3"
proof -
  let ?w = "note_lag C lag t (fresh_watchdog pod store)" and ?th = "real_of_int (lg_alert_ms C) / 1000"
  have w: "lw_samples ?w = [(t, lag)]" "lw_tier ?w = 0" "lw_emitted ?w = []" "\<not> lw_inherited_pending ?w"
    using assms(1) by (simp_all add: note_lag_def fresh_watchdog_def)
  have th: "?th < lag" using assms(2,3) by linarith
  have "lag_sustained ?th (lg_alert_window C) now_s [(t, lag)]" using th by (simp add: lag_sustained_def)
  moreover have "lag_tier tier2_lag tier3_lag ?th (snd (t, lag)) = 3" "\<not> snd (t, lag) < recovery_floor"
    using assms(3) by (simp_all add: lag_tier_def tier3_lag_def recovery_floor_def)
  ultimately have "fst (lag_tick C iso1 now_s ?w) = fst (enter_tiers iso1 [1, 2, 3] [])" "lw_tier (snd (lag_tick C iso1 now_s ?w)) = 3"
    using first_tick [OF w, of C now_s iso1] by blast+
  then show ?thesis by (simp add: tier_events_def)
qed

section \<open>The alert plane never recovers\<close>

fun sec_step :: "int \<Rightarrow> int \<Rightarrow> sec_lag \<Rightarrow> lag_op \<Rightarrow> sec_lag" where
  "sec_step alert_ms window w (Note t lag) = sec_note_lag window lag t w"
| "sec_step alert_ms window w (Tick iso1 t) = snd (sec_tick alert_ms window t w)"

definition sec_state :: "int \<Rightarrow> int \<Rightarrow> lag_op list \<Rightarrow> sec_lag \<Rightarrow> sec_lag" where
  "sec_state alert_ms window ops w = foldl (sec_step alert_ms window) w ops"

definition note_times :: "lag_op list \<Rightarrow> real list" where
  "note_times ops = concat (map (\<lambda>op1. case op1 of Note t lag \<Rightarrow> [t] | Tick iso1 t \<Rightarrow> []) ops)"

lemma sustained_latest:
  assumes "sorted (map fst samples)" "lag_sustained threshold window now_s samples"
  shows "threshold < snd (last samples)"
proof (cases "filter (\<lambda>p. now_s - real_of_int window \<le> fst p) samples = []")
  case True
  then show ?thesis using assms(2) by (simp add: lag_sustained_def Let_def)
next
  case False
  then obtain p where p: "p \<in> set samples" "now_s - real_of_int window \<le> fst p" by (auto simp: filter_empty_conv)
  then have ne: "samples \<noteq> []" by auto
  then have "samples = butlast samples @ [last samples]" by simp
  then have "sorted (map fst (butlast samples @ [last samples]))" "p \<in> set (butlast samples @ [last samples])"
    using assms(1) p(1) by simp_all
  then have "fst p \<le> fst (last samples)" by (auto simp: sorted_append)
  then have "last samples \<in> set (filter (\<lambda>p. now_s - real_of_int window \<le> fst p) samples)" using p(2) ne by simp
  moreover have "\<forall>p \<in> set (filter (\<lambda>p. now_s - real_of_int window \<le> fst p) samples). threshold < snd p"
    using assms(2) False by (simp only: lag_sustained_def Let_def if_False) (elim conjE)
  ultimately show ?thesis by blast
qed

lemma sec_tick_mono: "sorted (map fst (sl_samples w)) \<Longrightarrow> sl_tier w \<le> sl_tier (snd (sec_tick alert_ms window t w))"
  using sustained_latest [of "sl_samples w" "real_of_int alert_ms / 1000" window t] by (auto simp: sec_tick_def Let_def lag_tier_def split_beta)

lemma sec_samples:
  "sorted (map fst (sl_samples w) @ note_times ops) \<Longrightarrow>
     sorted (map fst (sl_samples (sec_state alert_ms window ops w))) \<and> sl_tier w \<le> sl_tier (sec_state alert_ms window ops w)"
proof (induction ops arbitrary: w)
  case Nil
  then show ?case by (simp add: sec_state_def note_times_def)
next
  case (Cons op1 ops)
  let ?w = "sec_step alert_ms window w op1"
  have "sorted (map fst (sl_samples ?w) @ note_times ops) \<and> sl_tier w \<le> sl_tier ?w"
  proof (cases op1)
    case (Note t lag)
    have s: "sorted (map fst (sl_samples w @ [(t, lag)]) @ note_times ops)"
      using Cons.prems by (simp add: Note note_times_def)
    let ?P = "\<lambda>p :: real \<times> real. real_of_int (window * 2 + 1) < t - fst p"
    have "set (dropWhile ?P (sl_samples w @ [(t, lag)])) \<subseteq> set (sl_samples w @ [(t, lag)])" by (metis set_dropWhileD subsetI)
    then have "sorted (map fst (dropWhile ?P (sl_samples w @ [(t, lag)])) @ note_times ops)"
      using s sorted_dropWhile_map [of fst "sl_samples w @ [(t, lag)]" ?P] unfolding sorted_append by fastforce
    then show ?thesis by (simp add: Note sec_note_lag_def)
  next
    case (Tick iso1 t)
    have "sl_samples (snd (sec_tick alert_ms window t w)) = sl_samples w" by (auto simp: sec_tick_def Let_def split_beta)
    then show ?thesis
      using Cons.prems sec_tick_mono [of w alert_ms window t] by (simp add: Tick note_times_def sorted_append)
  qed
  with Cons.IH [of ?w] show ?case by (simp add: sec_state_def)
qed

text \<open>
  The alert plane never recovers. With observations in the order of time, the shed tier of the alert plane never falls, whatever the lag
  comes back to; once it has reached three, alerts that are no emergency are dropped for good.
\<close>

lemma alert_plane_never_recovers:
  assumes "sorted (note_times (ops1 @ ops2))"
  shows "sl_tier (sec_state alert_ms window ops1 sec_lag_init) \<le> sl_tier (sec_state alert_ms window (ops1 @ ops2) sec_lag_init) \<and>
    (sl_tier (sec_state alert_ms window ops1 sec_lag_init) = 3 \<longrightarrow>
       \<not> sp_consume_non_emergency (cross_plane_policy maint_tier (sl_tier (sec_state alert_ms window (ops1 @ ops2) sec_lag_init))))"
proof -
  have subset: "set (map fst (sl_samples (sec_state alert_ms window ops sec_lag_init))) \<subseteq> set (note_times ops)" for ops
  proof (induction ops rule: rev_induct)
    case Nil
    then show ?case by (simp add: sec_state_def sec_lag_init_def)
  next
    case (snoc op1 ops)
    let ?w = "sec_state alert_ms window ops sec_lag_init"
    have "set (map fst (sl_samples (sec_step alert_ms window ?w op1))) \<subseteq> set (map fst (sl_samples ?w)) \<union> set (note_times [op1])"
      by (cases op1) (auto simp: sec_note_lag_def sec_tick_def Let_def split_beta note_times_def dest!: set_dropWhileD)
    then show ?case using snoc by (auto simp: sec_state_def note_times_def)
  qed
  let ?w = "sec_state alert_ms window ops1 sec_lag_init"
  have n: "note_times (ops1 @ ops2) = note_times ops1 @ note_times ops2" by (simp add: note_times_def)
  have "sorted (map fst (sl_samples ?w))"
    using sec_samples [of sec_lag_init ops1] assms by (simp add: n sorted_append sec_lag_init_def)
  then have "sorted (map fst (sl_samples ?w) @ note_times ops2)"
    using assms subset [of ops1] unfolding n sorted_append by blast
  from conjunct2 [OF sec_samples [OF this, of alert_ms window]]
  have "sl_tier ?w \<le> sl_tier (sec_state alert_ms window (ops1 @ ops2) sec_lag_init)" by (simp add: sec_state_def)
  then show ?thesis by (auto simp: cross_plane_policy_def)
qed

section \<open>What the throttle sees\<close>

definition dlq_run :: "int \<Rightarrow> int \<Rightarrow> (real \<times> int) list \<Rightarrow> dlq_throttle" where
  "dlq_run growth_alert recovery obs = foldl (\<lambda>s (t, d). note_depth growth_alert recovery d t s) dlq_throttle_init obs"

text \<open>The same machine with all samples kept.\<close>

definition note_depth_all :: "int \<Rightarrow> int \<Rightarrow> (real \<times> int) list \<Rightarrow> dlq_throttle \<Rightarrow> dlq_throttle" where
  "note_depth_all growth_alert recovery obs s =
     (let t = fst (last obs); growth = growth_per_min t obs in
      if real_of_int growth_alert < growth then s\<lparr>dt_throttled := True, dt_non_positive_since := None\<rparr>
      else if growth \<le> 0 then
        (if \<not> dt_throttled s then s
         else
           (case dt_non_positive_since s of
              None \<Rightarrow> s\<lparr>dt_non_positive_since := Some t\<rparr>
            | Some u \<Rightarrow> if real_of_int recovery \<le> t - u then s\<lparr>dt_throttled := False, dt_non_positive_since := None\<rparr> else s))
      else s\<lparr>dt_non_positive_since := None\<rparr>)"

fun dlq_reference :: "int \<Rightarrow> int \<Rightarrow> (real \<times> int) list \<Rightarrow> nat \<Rightarrow> dlq_throttle" where
  "dlq_reference growth_alert recovery obs 0 = dlq_throttle_init"
| "dlq_reference growth_alert recovery obs (Suc n) = note_depth_all growth_alert recovery (take (Suc n) obs) (dlq_reference growth_alert recovery obs n)"

definition prunes_to :: "(real \<times> int) list \<Rightarrow> dlq_throttle \<Rightarrow> dlq_throttle \<Rightarrow> bool" where
  "prunes_to obs r s \<longleftrightarrow> dt_throttled s = dt_throttled r \<and> dt_non_positive_since s = dt_non_positive_since r \<and>
     (\<exists>old. obs = old @ dt_samples s \<and> (\<forall>p \<in> set old. fst p < fst (last obs) - growth_window * 2))"

lemma growth_pruned:
  assumes "\<forall>p \<in> set old. fst p < t - growth_window"
  shows "growth_per_min t (old @ samples) = growth_per_min t samples"
proof -
  have "filter (\<lambda>(u, d). t - growth_window \<le> u) old = []" using assms by (auto simp: filter_empty_conv)
  then show ?thesis by (simp add: growth_per_min_def)
qed

lemma prunes_step:
  assumes "prunes_to obs r s" "\<forall>p \<in> set obs. fst p \<le> t"
  shows "prunes_to (obs @ [(t, d)]) (note_depth_all ga rec (obs @ [(t, d)]) r) (note_depth ga rec d t s)"
proof -
  obtain old where old: "obs = old @ dt_samples s" "\<forall>p \<in> set old. fst p < fst (last obs) - growth_window * 2"
    using assms(1) by (auto simp: prunes_to_def)
  have older: "\<forall>p \<in> set old. fst p < t - growth_window * 2"
  proof
    fix p assume p: "p \<in> set old"
    then have "obs \<noteq> []" using old(1) by auto
    then have "fst (last obs) \<le> t" using assms(2) by simp
    then show "fst p < t - growth_window * 2" using old(2) p by fastforce
  qed
  let ?P = "\<lambda>p :: real \<times> int. fst p < t - growth_window * 2"
  let ?new = "dropWhile ?P (dt_samples s @ [(t, d)])" and ?gone = "takeWhile ?P (dt_samples s @ [(t, d)])"
  have split: "obs @ [(t, d)] = (old @ ?gone) @ ?new" using old(1) by simp
  have gone: "\<forall>p \<in> set (old @ ?gone). ?P p" using older by (auto dest: set_takeWhileD)
  then have "\<forall>p \<in> set (old @ ?gone). fst p < t - growth_window" by (fastforce simp: growth_window_def)
  from growth_pruned [OF this, of ?new] have growth: "growth_per_min t ?new = growth_per_min t (obs @ [(t, d)])" unfolding split by (rule sym)
  have samples: "dt_samples (note_depth ga rec d t s) = ?new" by (simp add: note_depth_def Let_def split: option.splits)
  have "dt_throttled (note_depth ga rec d t s) = dt_throttled (note_depth_all ga rec (obs @ [(t, d)]) r) \<and>
      dt_non_positive_since (note_depth ga rec d t s) = dt_non_positive_since (note_depth_all ga rec (obs @ [(t, d)]) r)"
    using assms(1) by (auto simp: note_depth_def note_depth_all_def Let_def growth prunes_to_def split: option.splits)
  moreover have "\<exists>old'. obs @ [(t, d)] = old' @ dt_samples (note_depth ga rec d t s) \<and>
      (\<forall>p \<in> set old'. fst p < fst (last (obs @ [(t, d)])) - growth_window * 2)"
    unfolding samples last_snoc fst_conv by (rule exI [of _ "old @ ?gone"], rule conjI [OF split gone])
  ultimately show ?thesis by (simp add: prunes_to_def)
qed

text \<open>
  Forgetting samples changes nothing. With observations in the order of time, the throttle that drops samples after two windows is
  engaged, and counts down to recovery, exactly like one that keeps every sample.
\<close>

lemma throttle_forgets_safely:
  assumes "sorted (map fst obs)"
  shows "dt_throttled (dlq_run ga rec obs) = dt_throttled (dlq_reference ga rec obs (length obs)) \<and>
    dt_non_positive_since (dlq_run ga rec obs) = dt_non_positive_since (dlq_reference ga rec obs (length obs))"
proof -
  have take: "n \<le> length xs \<Longrightarrow> dlq_reference ga rec (xs @ ys) n = dlq_reference ga rec xs n" for n xs ys
    by (induction n) simp_all
  have "prunes_to obs (dlq_reference ga rec obs (length obs)) (dlq_run ga rec obs)"
    using assms
  proof (induction obs rule: rev_induct)
    case Nil
    then show ?case by (simp add: prunes_to_def dlq_run_def dlq_throttle_init_def)
  next
    case (snoc x xs)
    then have "prunes_to xs (dlq_reference ga rec xs (length xs)) (dlq_run ga rec xs)" "\<forall>p \<in> set xs. fst p \<le> fst x"
      by (auto simp: sorted_append)
    from prunes_step [OF this, of "snd x" ga rec] show ?case by (simp add: dlq_run_def take split_beta)
  qed
  then show ?thesis by (simp add: prunes_to_def)
qed

text \<open>
  Sparse observations never throttle. When the depth is observed less often than once a minute, the throttle is never engaged, however
  fast the queue grows.
\<close>

lemma sparse_growth_unseen:
  assumes "sorted_wrt (\<lambda>a b. fst a + growth_window < fst b) obs" "0 \<le> growth_alert"
  shows "\<not> dt_throttled (dlq_run growth_alert recovery obs) \<and> rate_factor (dlq_run growth_alert recovery obs) = 1"
proof -
  have "\<not> dt_throttled (dlq_run growth_alert recovery obs) \<and> set (dt_samples (dlq_run growth_alert recovery obs)) \<subseteq> set obs"
    using assms(1)
  proof (induction obs rule: rev_induct)
    case Nil
    then show ?case by (simp add: dlq_run_def dlq_throttle_init_def)
  next
    case (snoc x xs)
    let ?s = "dlq_run growth_alert recovery xs"
    obtain t d where x: "x = (t, d)" by (cases x)
    have IH: "\<not> dt_throttled ?s" "set (dt_samples ?s) \<subseteq> set xs" using snoc by (simp_all add: sorted_wrt_append)
    have "\<forall>p \<in> set xs. fst p < t - growth_window" using snoc.prems by (fastforce simp: sorted_wrt_append x)
    moreover have sub: "set (dropWhile P (dt_samples ?s @ [(t, d)])) \<subseteq> insert (t, d) (set xs)" for P
      using IH(2) by (auto dest!: set_dropWhileD)
    ultimately have old: "\<forall>p \<in> set (dt_samples ?s). fst p < t - growth_window" using IH(2) by blast
    have "length (filter (\<lambda>(u, d). t - growth_window \<le> u) (dropWhile P (dt_samples ?s @ [(t, d)]))) < 2" for P
    proof -
      have "length (filter (\<lambda>(u, d). t - growth_window \<le> u) (dropWhile P (dt_samples ?s @ [(t, d)]))) \<le>
          length (filter (\<lambda>(u, d). t - growth_window \<le> u) (dt_samples ?s @ [(t, d)]))"
        by (subst (2) takeWhile_dropWhile_id [of P, symmetric]) (simp only: filter_append length_append le_add2)
      moreover have "filter (\<lambda>(u, d). t - growth_window \<le> u) (dt_samples ?s) = []" using old by (auto simp: filter_empty_conv)
      ultimately show ?thesis by (simp add: growth_window_def)
    qed
    then have "growth_per_min t (dropWhile P (dt_samples ?s @ [(t, d)])) = 0" for P by (simp add: growth_per_min_def)
    then show ?case
      using IH(1) assms(2) sub by (simp add: dlq_run_def x note_depth_def Let_def)
  qed
  then show ?thesis by (simp add: rate_factor_def)
qed

section \<open>Examples\<close>

end
