(* ===== verification/Cron.thy ===== *)
theory Cron
  imports Wire_Ops
begin

text \<open>
  The cron evaluator of \<open>xops/backup/cron.py\<close>: parsing five fields, matching a minute and searching the next one that
  fires. A UTC \<open>datetime\<close> is its fields down to the minute (the search drops seconds first, and a rest below a
  minute does not change how many candidates lie within the horizon); the calendar is the proleptic Gregorian one
  of the standard library. \<open>int\<close> of a text is the \<open>pylib\<close> parameter; digits outside ASCII are not modelled.
\<close>

datatype cron_error = CronSyntaxError | OverflowError

section \<open>The calendar\<close>

record date_time =
  dt_year :: int
  dt_month :: int
  dt_day :: int
  dt_hour :: int
  dt_minute :: int

definition leap_year :: "int \<Rightarrow> bool" where
  "leap_year y \<longleftrightarrow> y mod 4 = 0 \<and> (y mod 100 \<noteq> 0 \<or> y mod 400 = 0)"

definition days_in_month :: "int \<Rightarrow> int \<Rightarrow> int" where
  "days_in_month y m =
     (if m = 2 then (if leap_year y then 29 else 28) else if m = 4 \<or> m = 6 \<or> m = 9 \<or> m = 11 then 30 else 31)"

definition days_before_year :: "int \<Rightarrow> int" where
  "days_before_year y = (y - 1) * 365 + (y - 1) div 4 - (y - 1) div 100 + (y - 1) div 400"

definition days_before_month :: "int \<Rightarrow> int \<Rightarrow> int" where
  "days_before_month y m = sum_list (map (days_in_month y) [1 .. m - 1])"

definition toordinal :: "date_time \<Rightarrow> int" where
  "toordinal d = days_before_year (dt_year d) + days_before_month (dt_year d) (dt_month d) + dt_day d"

definition weekday :: "date_time \<Rightarrow> int" where
  "weekday d = (toordinal d + 6) mod 7"

text \<open>\<open>candidate + timedelta(minutes=1)\<close>.\<close>

definition next_day :: "date_time \<Rightarrow> date_time" where
  "next_day d =
     (if dt_day d < days_in_month (dt_year d) (dt_month d) then d\<lparr>dt_day := dt_day d + 1\<rparr>
      else if dt_month d < 12 then d\<lparr>dt_day := 1, dt_month := dt_month d + 1\<rparr>
      else d\<lparr>dt_day := 1, dt_month := 1, dt_year := dt_year d + 1\<rparr>)"

definition minute_after :: "date_time \<Rightarrow> date_time" where
  "minute_after d =
     (if dt_minute d < 59 then d\<lparr>dt_minute := dt_minute d + 1\<rparr>
      else if dt_hour d < 23 then d\<lparr>dt_minute := 0, dt_hour := dt_hour d + 1\<rparr>
      else next_day (d\<lparr>dt_minute := 0, dt_hour := 0\<rparr>))"

section \<open>Parsing\<close>

record cron_expr =
  cx_minutes :: "int set"
  cx_hours :: "int set"
  cx_doms :: "int set"
  cx_months :: "int set"
  cx_dows :: "int set"
  cx_raw :: string
  cx_dom_was_star :: bool
  cx_dow_was_star :: bool

record cron_field =
  cf_lo :: int
  cf_hi :: int
  cf_is_dow :: bool

definition field_bounds :: "cron_field list" where
  "field_bounds =
     [\<lparr>cf_lo = 0, cf_hi = 59, cf_is_dow = False\<rparr>, \<lparr>cf_lo = 0, cf_hi = 23, cf_is_dow = False\<rparr>, \<lparr>cf_lo = 1, cf_hi = 31, cf_is_dow = False\<rparr>,
      \<lparr>cf_lo = 1, cf_hi = 12, cf_is_dow = False\<rparr>, \<lparr>cf_lo = 0, cf_hi = 6, cf_is_dow = True\<rparr>]"

definition fires_every_minute :: "cron_expr \<Rightarrow> bool" where
  "fires_every_minute e \<longleftrightarrow> card (cx_minutes e) = 60 \<and> card (cx_hours e) = 24 \<and> card (cx_months e) = 12 \<and> cx_dom_was_star e \<and> cx_dow_was_star e"

text \<open>\<open>s.split(c)\<close> and \<open>s.partition(c)\<close> on a text with \<open>c\<close>.\<close>

fun split_on :: "char \<Rightarrow> string \<Rightarrow> string list" where
  "split_on c [] = [[]]"
| "split_on c (x # xs) = (if x = c then [] # split_on c xs else (x # hd (split_on c xs)) # tl (split_on c xs))"

definition before_char :: "char \<Rightarrow> string \<Rightarrow> string" where
  "before_char c s = takeWhile (\<lambda>x. x \<noteq> c) s"

definition after_char :: "char \<Rightarrow> string \<Rightarrow> string" where
  "after_char c s = tl (dropWhile (\<lambda>x. x \<noteq> c) s)"

text \<open>\<open>s.split()\<close>: the maximal runs without white space.\<close>

definition split_words :: "string \<Rightarrow> string list" where
  "split_words s = filter (\<lambda>w. w \<noteq> []) (split_on (CHR '' '') (map (\<lambda>c. if is_space c then CHR '' '' else c) s))"

definition cron_int :: "pylib \<Rightarrow> string \<Rightarrow> cron_error + int" where
  "cron_int L s = (case pl_int L s of None \<Rightarrow> Inl CronSyntaxError | Some i \<Rightarrow> Inr i)"

definition fold_seven :: "cron_field \<Rightarrow> int \<Rightarrow> int" where
  "fold_seven F v = (if cf_is_dow F \<and> v = 7 then 0 else v)"

definition piece_step :: "pylib \<Rightarrow> string \<Rightarrow> cron_error + (string \<times> int)" where
  "piece_step L piece =
     (if CHR ''/'' \<in> set piece then
        (case cron_int L (after_char (CHR ''/'') piece) of
           Inl e \<Rightarrow> Inl e
         | Inr step \<Rightarrow> if step < 1 then Inl CronSyntaxError else Inr (before_char (CHR ''/'') piece, step))
      else Inr (piece, 1))"

definition piece_range :: "pylib \<Rightarrow> cron_field \<Rightarrow> string \<Rightarrow> cron_error + (int \<times> int)" where
  "piece_range L F piece =
     (if piece = ''*'' then Inr (cf_lo F, cf_hi F)
      else if CHR ''-'' \<in> set piece then
        (case (cron_int L (before_char (CHR ''-'') piece), cron_int L (after_char (CHR ''-'') piece)) of
           (Inr start0, Inr end0) \<Rightarrow>
             (let start = fold_seven F start0; end1 = fold_seven F end0 in
              if \<not> (cf_lo F \<le> start \<and> start \<le> cf_hi F) \<or> \<not> (cf_lo F \<le> end1 \<and> end1 \<le> cf_hi F) then Inl CronSyntaxError
              else if end1 < start then Inl CronSyntaxError
              else Inr (start, end1))
         | _ \<Rightarrow> Inl CronSyntaxError)
      else
        (case cron_int L piece of
           Inl e \<Rightarrow> Inl e
         | Inr value0 \<Rightarrow>
             (let value = fold_seven F value0 in
              if \<not> (cf_lo F \<le> value \<and> value \<le> cf_hi F) then Inl CronSyntaxError else Inr (value, value))))"

text \<open>\<open>range(start, end + 1, step)\<close>.\<close>

definition step_range :: "int \<Rightarrow> int \<Rightarrow> int \<Rightarrow> int list" where
  "step_range start end1 step = filter (\<lambda>v. (v - start) mod step = 0) [start .. end1]"

definition parse_piece :: "pylib \<Rightarrow> cron_field \<Rightarrow> string \<Rightarrow> cron_error + int list" where
  "parse_piece L F piece0 =
     (let piece = py_strip piece0 in
      if piece = [] then Inl CronSyntaxError
      else
        (case piece_step L piece of
           Inl e \<Rightarrow> Inl e
         | Inr (head, step) \<Rightarrow>
             (case piece_range L F head of
                Inl e \<Rightarrow> Inl e
              | Inr (start, end1) \<Rightarrow> Inr (step_range start end1 step))))"

fun parse_pieces :: "pylib \<Rightarrow> cron_field \<Rightarrow> string list \<Rightarrow> int list \<Rightarrow> cron_error + int list" where
  "parse_pieces L F [] out = Inr out"
| "parse_pieces L F (piece # pieces) out =
     (case parse_piece L F piece of Inl e \<Rightarrow> Inl e | Inr vs \<Rightarrow> parse_pieces L F pieces (out @ vs))"

definition parse_field :: "pylib \<Rightarrow> cron_field \<Rightarrow> string \<Rightarrow> cron_error + int set" where
  "parse_field L F token =
     (if token = [] then Inl CronSyntaxError
      else
        (case parse_pieces L F (split_on (CHR '','') token) [] of
           Inl e \<Rightarrow> Inl e
         | Inr out \<Rightarrow> if out = [] then Inl CronSyntaxError else Inr (set out)))"

definition cron_char :: "char \<Rightarrow> bool" where
  "cron_char c \<longleftrightarrow> c \<in> set ''0123456789*,-/''"

definition parse_cron :: "pylib \<Rightarrow> string \<Rightarrow> cron_error + cron_expr" where
  "parse_cron L expr =
     (case split_words expr of
        [minute_tok, hour_tok, dom_tok, month_tok, dow_tok] \<Rightarrow>
          if \<not> (\<forall>tok \<in> {minute_tok, hour_tok, dom_tok, month_tok, dow_tok}. \<forall>c \<in> set tok. cron_char c) then Inl CronSyntaxError
          else
            (case parse_field L (field_bounds ! 0) minute_tok of Inl e \<Rightarrow> Inl e | Inr minutes \<Rightarrow>
            (case parse_field L (field_bounds ! 1) hour_tok of Inl e \<Rightarrow> Inl e | Inr hours \<Rightarrow>
            (case parse_field L (field_bounds ! 2) dom_tok of Inl e \<Rightarrow> Inl e | Inr doms \<Rightarrow>
            (case parse_field L (field_bounds ! 3) month_tok of Inl e \<Rightarrow> Inl e | Inr months \<Rightarrow>
            (case parse_field L (field_bounds ! 4) dow_tok of Inl e \<Rightarrow> Inl e | Inr dows \<Rightarrow>
               Inr \<lparr>cx_minutes = minutes, cx_hours = hours, cx_doms = doms, cx_months = months, cx_dows = dows, cx_raw = expr,
                    cx_dom_was_star = (dom_tok = ''*''), cx_dow_was_star = (dow_tok = ''*'')\<rparr>)))))
      | _ \<Rightarrow> Inl CronSyntaxError)"

section \<open>Firing\<close>

definition cron_matches :: "cron_expr \<Rightarrow> date_time \<Rightarrow> bool" where
  "cron_matches e w \<longleftrightarrow>
     dt_minute w \<in> cx_minutes e \<and> dt_hour w \<in> cx_hours e \<and> dt_month w \<in> cx_months e \<and>
     (let cron_dow = (weekday w + 1) mod 7; dom_match = (dt_day w \<in> cx_doms e); dow_match = (cron_dow \<in> cx_dows e) in
      if cx_dom_was_star e \<and> cx_dow_was_star e then True
      else if cx_dom_was_star e then dow_match
      else if cx_dow_was_star e then dom_match
      else dom_match \<or> dow_match)"

definition next_fire_max_days :: nat where
  "next_fire_max_days = 366 * 4"

text \<open>\<open>datetime.max\<close> is on day 3652059.\<close>

definition max_ordinal :: int where
  "max_ordinal = 3652059"

fun fire_search :: "cron_expr \<Rightarrow> nat \<Rightarrow> date_time \<Rightarrow> date_time option" where
  "fire_search e 0 candidate = None"
| "fire_search e (Suc n) candidate = (if cron_matches e candidate then Some candidate else fire_search e n (minute_after candidate))"

definition next_fire_after :: "cron_expr \<Rightarrow> date_time \<Rightarrow> cron_error + date_time" where
  "next_fire_after e after =
     (if max_ordinal < toordinal after + int next_fire_max_days then Inl OverflowError
      else
        (case fire_search e (next_fire_max_days * 1440) (minute_after after) of
           None \<Rightarrow> Inl CronSyntaxError
         | Some c \<Rightarrow> Inr c))"

section \<open>Minutes as numbers\<close>

definition valid_time :: "date_time \<Rightarrow> bool" where
  "valid_time d \<longleftrightarrow> 1 \<le> dt_month d \<and> dt_month d \<le> 12 \<and> 1 \<le> dt_day d \<and> dt_day d \<le> days_in_month (dt_year d) (dt_month d) \<and>
     0 \<le> dt_hour d \<and> dt_hour d \<le> 23 \<and> 0 \<le> dt_minute d \<and> dt_minute d \<le> 59"

definition minutes_of :: "date_time \<Rightarrow> int" where
  "minutes_of d = toordinal d * 1440 + dt_hour d * 60 + dt_minute d"

lemma div_step: "0 < k \<Longrightarrow> y div k = (y - 1) div k + (if y mod k = 0 then 1 else 0)" for y :: int
proof -
  assume k: "0 < k"
  show ?thesis
  proof (cases "y mod k = 0")
    case True
    then obtain q where "y = k * q" by auto
    moreover from this have "(y - 1) div k = q - 1"
      using k by (intro int_div_pos_eq [of _ _ _ "k - 1"]) (simp_all add: algebra_simps)
    ultimately show ?thesis using k by simp
  next
    case False
    have "y - 1 = k * (y div k) + (y mod k - 1)" by (simp add: mult_div_mod_eq)
    moreover have "0 \<le> y mod k - 1" "y mod k - 1 < k" using k False pos_mod_bound [OF k, of y] pos_mod_sign [OF k, of y] by linarith+
    ultimately have "(y - 1) div k = y div k" by (intro int_div_pos_eq) simp_all
    then show ?thesis using False by simp
  qed
qed

lemma days_before_next_year: "days_before_year (y + 1) = days_before_year y + (if leap_year y then 366 else 365)"
proof -
  define i where "i k = (if y mod k = 0 then 1 else 0 :: int)" for k :: int
  have s: "y div 4 = (y - 1) div 4 + i 4" "y div 100 = (y - 1) div 100 + i 100" "y div 400 = (y - 1) div 400 + i 400"
    unfolding i_def by (rule div_step, simp)+
  have "days_before_year (y + 1) = y * 365 + y div 4 - y div 100 + y div 400" by (simp add: days_before_year_def)
  moreover have "Y * 365 + (A + a) - (B + b) + (C + c) = (Y - 1) * 365 + A - B + C + 365 + (a - b + c)" for Y A B C a b c :: int
    by simp
  ultimately have "days_before_year (y + 1) = days_before_year y + 365 + (i 4 - i 100 + i 400)"
    unfolding days_before_year_def [of y] s by (simp only:)
  moreover have "y mod 400 = 0 \<Longrightarrow> y mod 100 = 0" "y mod 100 = 0 \<Longrightarrow> y mod 4 = 0"
    using mod_mod_cancel [of 100 400 y] mod_mod_cancel [of 4 100 y] by simp_all
  then have "i 4 - i 100 + i 400 = (if leap_year y then 1 else 0)"
    unfolding i_def leap_year_def
    by (cases "y mod 400 = 0"; cases "y mod 100 = 0"; cases "y mod 4 = 0") (simp_all only: if_True if_False simp_thms, simp_all)
  ultimately show ?thesis by simp
qed

lemma days_before_next_month: "1 \<le> m \<Longrightarrow> days_before_month y (m + 1) = days_before_month y m + days_in_month y m"
  using upto_rec2 [of 1 m] by (simp add: days_before_month_def)

lemma days_before_year_end: "days_before_month y 12 = (if leap_year y then 335 else 334)" "days_before_month y 1 = 0"
  by (simp_all add: days_before_month_def days_in_month_def upto_rec1)

lemma days_in_month_bounds: "28 \<le> days_in_month y m" "days_in_month y m \<le> 31"
  by (simp_all add: days_in_month_def)

lemma next_day:
  assumes "valid_time d"
  shows "valid_time (next_day d)" "toordinal (next_day d) = toordinal d + 1" "dt_hour (next_day d) = dt_hour d" "dt_minute (next_day d) = dt_minute d"
proof -
  show "valid_time (next_day d)" using assms days_in_month_bounds(1) [of "dt_year d" "dt_month d + 1"]
    by (auto simp: valid_time_def next_day_def days_in_month_def)
  have "dt_month d = 12 \<Longrightarrow> days_in_month (dt_year d) (dt_month d) = 31" by (simp add: days_in_month_def)
  then show "toordinal (next_day d) = toordinal d + 1"
    using assms days_before_next_month [of "dt_month d" "dt_year d"]
    by (auto simp: next_day_def toordinal_def valid_time_def days_before_next_year days_before_year_end)
  show "dt_hour (next_day d) = dt_hour d" "dt_minute (next_day d) = dt_minute d" by (simp_all add: next_day_def)
qed

lemma minute_after:
  assumes "valid_time d"
  shows "valid_time (minute_after d)" "minutes_of (minute_after d) = minutes_of d + 1"
proof -
  let ?d = "d\<lparr>dt_minute := 0, dt_hour := 0\<rparr>"
  have v: "valid_time ?d" "toordinal ?d = toordinal d" using assms by (simp_all add: valid_time_def toordinal_def)
  show "valid_time (minute_after d)"
    using assms next_day(1) [OF v(1)] by (auto simp: minute_after_def valid_time_def)
  have "toordinal (d\<lparr>dt_minute := a\<rparr>) = toordinal d" "toordinal (d\<lparr>dt_minute := a, dt_hour := b\<rparr>) = toordinal d" for a b
    by (simp_all add: toordinal_def)
  then show "minutes_of (minute_after d) = minutes_of d + 1"
    using assms next_day(2-4) [OF v(1)] by (auto simp: minute_after_def minutes_of_def valid_time_def)
qed

lemma minutes_after:
  "valid_time d \<Longrightarrow> valid_time ((minute_after ^^ k) d) \<and> minutes_of ((minute_after ^^ k) d) = minutes_of d + int k"
  by (induction k) (simp_all add: minute_after)

lemma days_before_month_mono: "m < m' \<Longrightarrow> 1 \<le> m \<Longrightarrow> days_before_month y m + days_in_month y m \<le> days_before_month y m'"
proof (induction m' rule: int_gr_induct [where k = m])
  case base
  then show ?case by (simp add: days_before_next_month)
next
  case (step i)
  then show ?case using days_before_next_month [of i y] days_in_month_bounds(1) [of y i] by simp
qed

lemma days_before_year_mono: "y < y' \<Longrightarrow> days_before_year y + (if leap_year y then 366 else 365) \<le> days_before_year y'"
proof (induction y' rule: int_gr_induct [where k = y])
  case base
  then show ?case by (simp add: days_before_next_year)
next
  case (step i)
  then show ?case using days_before_next_year [of i] by (simp split: if_splits)
qed

lemma day_of_year:
  assumes "valid_time d"
  shows "1 \<le> days_before_month (dt_year d) (dt_month d) + dt_day d"
    "days_before_month (dt_year d) (dt_month d) + dt_day d \<le> (if leap_year (dt_year d) then 366 else 365)"
proof -
  have m: "1 \<le> dt_month d" "dt_month d \<le> 12" "1 \<le> dt_day d" "dt_day d \<le> days_in_month (dt_year d) (dt_month d)"
    using assms by (simp_all add: valid_time_def)
  have "days_before_month (dt_year d) 1 \<le> days_before_month (dt_year d) (dt_month d)"
    using m(1) days_before_month_mono [of 1 "dt_month d" "dt_year d"] days_in_month_bounds(1) [of "dt_year d" 1] by (cases "dt_month d = 1") auto
  then show "1 \<le> days_before_month (dt_year d) (dt_month d) + dt_day d" using m(3) by (simp add: days_before_year_end)
  have "days_before_month (dt_year d) (dt_month d) + days_in_month (dt_year d) (dt_month d) \<le> days_before_month (dt_year d) 12 + 31"
    using m(1,2) days_before_month_mono [of "dt_month d" 12 "dt_year d"] days_in_month_bounds(2) [of "dt_year d" 12]
    by (cases "dt_month d = 12") (auto simp: days_in_month_def)
  then show "days_before_month (dt_year d) (dt_month d) + dt_day d \<le> (if leap_year (dt_year d) then 366 else 365)"
    using m(4) by (simp add: days_before_year_end split: if_splits)
qed

lemma toordinal_year:
  assumes "valid_time d"
  shows "days_before_year (dt_year d) < toordinal d" "toordinal d \<le> days_before_year (dt_year d + 1)"
  using day_of_year [OF assms] by (simp_all add: toordinal_def days_before_next_year)

lemma toordinal_inject:
  assumes "valid_time a" "valid_time b" "toordinal a = toordinal b"
  shows "dt_year a = dt_year b \<and> dt_month a = dt_month b \<and> dt_day a = dt_day b"
proof -
  have less: "\<not> dt_year c < dt_year d" if "valid_time c" "valid_time d" "toordinal c = toordinal d" for c d
    using that toordinal_year(2) [OF that(1)] toordinal_year(1) [OF that(2)] days_before_year_mono [of "dt_year c" "dt_year d"] days_before_next_year [of "dt_year c"]
    by auto
  then have y: "dt_year a = dt_year b" using assms less [of b a] less [of a b] by fastforce
  have "\<not> dt_month c < dt_month d"
    if "valid_time c" "valid_time d" "toordinal c = toordinal d" "dt_year c = dt_year d" for c d
    using that days_before_month_mono [of "dt_month c" "dt_month d" "dt_year d"] by (auto simp: toordinal_def valid_time_def)
  then have m: "dt_month a = dt_month b" using assms y by (metis linorder_neqE)
  show ?thesis using assms(3) y m by (simp add: toordinal_def)
qed

lemma minutes_of_inject:
  assumes "valid_time a" "valid_time b" "minutes_of a = minutes_of b"
  shows "a = b"
proof -
  have digits: "(q * 1440 + h * 60 + m) div 1440 = q \<and> (q * 1440 + h * 60 + m) mod 1440 div 60 = h \<and> (q * 1440 + h * 60 + m) mod 60 = m"
    if "0 \<le> h" "h \<le> 23" "0 \<le> m" "m \<le> 59" for q h m :: int
  proof -
    have "(q * 1440 + (h * 60 + m)) div 1440 = q" using that by (intro int_div_pos_eq [of _ _ _ "h * 60 + m"]) simp_all
    moreover have "(q * 1440 + (h * 60 + m)) mod 1440 = h * 60 + m" using that by (intro int_mod_pos_eq [of _ _ q]) simp_all
    moreover have "(h * 60 + m) div 60 = h" using that by (intro int_div_pos_eq [of _ _ _ m]) simp_all
    moreover have "(q * 1440 + h * 60 + m) mod 60 = m" using that by (intro int_mod_pos_eq [of _ _ "q * 24 + h"]) simp_all
    ultimately show ?thesis by (simp add: add.assoc)
  qed
  have "toordinal a = toordinal b \<and> dt_hour a = dt_hour b \<and> dt_minute a = dt_minute b"
    using digits [of "dt_hour a" "dt_minute a" "toordinal a"] digits [of "dt_hour b" "dt_minute b" "toordinal b"] assms
    by (simp add: minutes_of_def valid_time_def)
  then show ?thesis using toordinal_inject [OF assms(1,2)] by (cases a; cases b) simp
qed

lemma reached:
  assumes "valid_time a" "valid_time b" "minutes_of a \<le> minutes_of b"
  shows "(minute_after ^^ nat (minutes_of b - minutes_of a)) a = b"
  using minutes_after [OF assms(1)] assms by (intro minutes_of_inject) simp_all

section \<open>The search\<close>

lemma fire_search_Some:
  "fire_search e n c = Some d \<Longrightarrow> \<exists>k < n. d = (minute_after ^^ k) c \<and> cron_matches e d \<and> (\<forall>j < k. \<not> cron_matches e ((minute_after ^^ j) c))"
proof (induction n arbitrary: c)
  case 0
  then show ?case by simp
next
  case (Suc n)
  show ?case
  proof (cases "cron_matches e c")
    case True
    then show ?thesis using Suc.prems by (intro exI [of _ 0]) simp
  next
    case False
    then obtain k where k: "k < n" "d = (minute_after ^^ k) (minute_after c)" "cron_matches e d"
      "\<forall>j < k. \<not> cron_matches e ((minute_after ^^ j) (minute_after c))"
      using Suc.IH [of "minute_after c"] Suc.prems by auto
    have "\<not> cron_matches e ((minute_after ^^ j) c)" if "j < Suc k" for j
      using that False k(4) by (cases j) (auto simp: funpow_swap1)
    then show ?thesis using k by (intro exI [of _ "Suc k"]) (simp add: funpow_swap1)
  qed
qed

lemma fire_search_None: "fire_search e n c = None \<Longrightarrow> k < n \<Longrightarrow> \<not> cron_matches e ((minute_after ^^ k) c)"
proof (induction n arbitrary: c k)
  case 0
  then show ?case by simp
next
  case (Suc n)
  then show ?case by (cases k) (auto simp: funpow_swap1 split: if_splits)
qed

text \<open>Between two times lie the candidates of the search.\<close>

lemma candidate:
  assumes "valid_time a" "valid_time w" "minutes_of a < minutes_of w"
  shows "w = (minute_after ^^ nat (minutes_of w - minutes_of a - 1)) (minute_after a)"
proof -
  have "nat (minutes_of w - minutes_of a) = Suc (nat (minutes_of w - minutes_of a - 1))" using assms(3) by simp
  then show ?thesis using reached [OF assms(1,2)] assms(3) by (simp add: funpow_swap1)
qed

definition within_horizon :: "date_time \<Rightarrow> date_time \<Rightarrow> bool" where
  "within_horizon a w \<longleftrightarrow> valid_time w \<and> minutes_of a < minutes_of w \<and> minutes_of w \<le> minutes_of a + int next_fire_max_days * 1440"

lemma next_fire_Inl:
  assumes "valid_time after" "toordinal after + int next_fire_max_days \<le> max_ordinal" "next_fire_after e after = Inl err"
  shows "err = CronSyntaxError \<and> (\<forall>w. within_horizon after w \<longrightarrow> \<not> cron_matches e w)"
proof -
  have None: "fire_search e (next_fire_max_days * 1440) (minute_after after) = None" "err = CronSyntaxError"
    using assms(2,3) by (auto simp: next_fire_after_def split: option.splits)
  have "\<not> cron_matches e w" if "within_horizon after w" for w
  proof -
    have w: "valid_time w" "minutes_of after < minutes_of w" "minutes_of w \<le> minutes_of after + int next_fire_max_days * 1440"
      using that by (simp_all add: within_horizon_def)
    then have "nat (minutes_of w - minutes_of after - 1) < next_fire_max_days * 1440" by linarith
    from fire_search_None [OF None(1) this] show ?thesis using candidate [OF assms(1) w(1,2)] by simp
  qed
  then show ?thesis using None(2) by blast
qed

lemma next_fire_Inr:
  assumes "valid_time after" "toordinal after + int next_fire_max_days \<le> max_ordinal" "next_fire_after e after = Inr c"
  shows "within_horizon after c" "cron_matches e c"
    "valid_time w \<Longrightarrow> minutes_of after < minutes_of w \<Longrightarrow> minutes_of w < minutes_of c \<Longrightarrow> \<not> cron_matches e w"
proof -
  have "fire_search e (next_fire_max_days * 1440) (minute_after after) = Some c"
    using assms(2,3) by (auto simp: next_fire_after_def split: option.splits)
  from fire_search_Some [OF this] obtain k where k: "k < next_fire_max_days * 1440" "c = (minute_after ^^ k) (minute_after after)" "cron_matches e c"
    "\<forall>j < k. \<not> cron_matches e ((minute_after ^^ j) (minute_after after))" by blast
  have c: "valid_time c" "minutes_of c = minutes_of after + 1 + int k"
    using minutes_after [OF minute_after(1) [OF assms(1)], of k] minute_after(2) [OF assms(1)] by (simp_all add: k(2))
  show "within_horizon after c" using c k(1) by (simp add: within_horizon_def)
  show "cron_matches e c" by (rule k(3))
  assume w: "valid_time w" "minutes_of after < minutes_of w" "minutes_of w < minutes_of c"
  then have "nat (minutes_of w - minutes_of after - 1) < k" using c(2) by linarith
  then show "\<not> cron_matches e w" using k(4) candidate [OF assms(1) w(1,2)] by metis
qed

text \<open>
  C23: the next fire is the next one. The search returns the earliest minute after the given one that matches, and when it gives up, no
  minute within its horizon matches.
\<close>

theorem next_fire_is_least:
  assumes "valid_time after" "toordinal after + int next_fire_max_days \<le> max_ordinal"
  shows "case next_fire_after e after of
      Inr c \<Rightarrow> within_horizon after c \<and> cron_matches e c \<and>
        (\<forall>w. valid_time w \<and> minutes_of after < minutes_of w \<and> minutes_of w < minutes_of c \<longrightarrow> \<not> cron_matches e w)
    | Inl err \<Rightarrow> err = CronSyntaxError \<and> (\<forall>w. within_horizon after w \<longrightarrow> \<not> cron_matches e w)"
  using next_fire_Inl [OF assms] next_fire_Inr [OF assms] by (auto split: sum.split)

section \<open>What parses\<close>

lemma step_range_set: "set (step_range a b k) \<subseteq> {a..b}"
  by (auto simp: step_range_def)

lemma piece_range_bounds: "piece_range L F piece = Inr (a, b) \<Longrightarrow> cf_lo F \<le> cf_hi F \<Longrightarrow> cf_lo F \<le> a \<and> b \<le> cf_hi F"
  by (auto simp: piece_range_def Let_def split: if_splits sum.splits)

lemma parse_piece_bounds: "parse_piece L F piece = Inr vs \<Longrightarrow> cf_lo F \<le> cf_hi F \<Longrightarrow> set vs \<subseteq> {cf_lo F..cf_hi F}"
  using piece_range_bounds step_range_set by (fastforce simp: parse_piece_def Let_def split: if_splits sum.splits)

lemma parse_pieces_bounds:
  "parse_pieces L F pieces out = Inr out' \<Longrightarrow> cf_lo F \<le> cf_hi F \<Longrightarrow> set out \<subseteq> {cf_lo F..cf_hi F} \<Longrightarrow> set out' \<subseteq> {cf_lo F..cf_hi F}"
proof (induction pieces arbitrary: out)
  case Nil
  then show ?case by simp
next
  case (Cons piece pieces)
  then obtain vs where vs: "parse_piece L F piece = Inr vs" "parse_pieces L F pieces (out @ vs) = Inr out'"
    by (auto split: sum.splits)
  then show ?case using Cons.IH [OF vs(2)] Cons.prems parse_piece_bounds [OF vs(1)] by simp
qed

lemma parse_field_bounds: "parse_field L F token = Inr vs \<Longrightarrow> cf_lo F \<le> cf_hi F \<Longrightarrow> vs \<noteq> {} \<and> vs \<subseteq> {cf_lo F..cf_hi F}"
  using parse_pieces_bounds [of L F "split_on (CHR '','') token" "[]"] by (auto simp: parse_field_def split: if_splits sum.splits)

lemma parse_cron_bounds:
  assumes "parse_cron L s = Inr e"
  shows "cx_minutes e \<noteq> {} \<and> cx_minutes e \<subseteq> {0..59}" "cx_hours e \<noteq> {} \<and> cx_hours e \<subseteq> {0..23}" "cx_doms e \<noteq> {} \<and> cx_doms e \<subseteq> {1..31}"
    "cx_months e \<noteq> {} \<and> cx_months e \<subseteq> {1..12}" "cx_dows e \<noteq> {} \<and> cx_dows e \<subseteq> {0..6}"
proof -
  obtain a b c d w where "parse_field L (field_bounds ! 0) a = Inr (cx_minutes e)" "parse_field L (field_bounds ! 1) b = Inr (cx_hours e)"
    "parse_field L (field_bounds ! 2) c = Inr (cx_doms e)" "parse_field L (field_bounds ! 3) d = Inr (cx_months e)"
    "parse_field L (field_bounds ! 4) w = Inr (cx_dows e)"
    using assms unfolding parse_cron_def by (auto split: list.splits sum.splits if_splits)
  note p = this [THEN parse_field_bounds]
  show "cx_minutes e \<noteq> {} \<and> cx_minutes e \<subseteq> {0..59}" using p(1) by (simp add: field_bounds_def)
  show "cx_hours e \<noteq> {} \<and> cx_hours e \<subseteq> {0..23}" using p(2) by (simp add: field_bounds_def)
  show "cx_doms e \<noteq> {} \<and> cx_doms e \<subseteq> {1..31}" using p(3) by (simp add: field_bounds_def)
  show "cx_months e \<noteq> {} \<and> cx_months e \<subseteq> {1..12}" using p(4) by (simp add: field_bounds_def eval_nat_numeral)
  show "cx_dows e \<noteq> {} \<and> cx_dows e \<subseteq> {0..6}" using p(5) by (simp add: field_bounds_def eval_nat_numeral)
qed

section \<open>Every expression but impossible dates fires\<close>

lemma weekday_in_first_week:
  assumes "0 \<le> t" "t \<le> 6"
  shows "\<exists>d \<in> {1..7}. (b + d + 7) mod 7 = (t :: int)"
proof -
  let ?d = "(t - b - 1) mod 7 + 1"
  have "(b + ?d + 7) mod 7 = ((t - b - 1) mod 7 + (b + 1) + 7) mod 7" by (rule arg_cong [where f = "\<lambda>x. x mod 7"]) simp
  also have "\<dots> = ((t - b - 1) mod 7 + (b + 1)) mod 7" by (rule mod_add_self2)
  also have "\<dots> = t mod 7" unfolding mod_add_left_eq by simp
  also have "\<dots> = t" using assms by simp
  finally have "(b + ?d + 7) mod 7 = t" .
  moreover have "?d \<in> {1..7}" using pos_mod_bound [of 7 "t - b - 1"] by simp
  ultimately show ?thesis by blast
qed

lemma target_in_horizon:
  assumes "valid_time after" "valid_time t" "dt_year t = dt_year after + 1"
  shows "minutes_of after < minutes_of t" "minutes_of t \<le> minutes_of after + 732 * 1440"
proof -
  have "toordinal after \<le> days_before_year (dt_year t)" "days_before_year (dt_year t) < toordinal t"
    "toordinal t \<le> days_before_year (dt_year t) + 366" "days_before_year (dt_year t) \<le> days_before_year (dt_year after) + 366"
    "days_before_year (dt_year after) < toordinal after"
    using toordinal_year [OF assms(1)] toordinal_year [OF assms(2)] days_before_next_year [of "dt_year t"] days_before_next_year [of "dt_year after"]
    by (simp_all add: assms(3) split: if_splits)
  then have o: "toordinal after + 1 \<le> toordinal t" "toordinal t \<le> toordinal after + 731" by linarith+
  have v: "0 \<le> dt_hour after" "dt_hour after \<le> 23" "0 \<le> dt_minute after" "dt_minute after \<le> 59"
    "0 \<le> dt_hour t" "dt_hour t \<le> 23" "0 \<le> dt_minute t" "dt_minute t \<le> 59"
    using assms(1,2) by (simp_all add: valid_time_def)
  show "minutes_of after < minutes_of t" "minutes_of t \<le> minutes_of after + 732 * 1440"
    using o v unfolding minutes_of_def by linarith+
qed


text \<open>
  The leap day given up (\<open>cron.py:63\<close> holds four years longer than any leap cycle). From a minute of 2097 to 2099 an expression for 29
  February alone is refused as impossible, although 29 February 2104 fires it.
\<close>

lemma leap_day_given_up:
  assumes "valid_time after" "2097 \<le> dt_year after" "dt_year after \<le> 2099"
    and "cx_months e = {2}" "cx_doms e = {29}" "\<not> cx_dom_was_star e" "cx_dow_was_star e"
    and "h \<in> cx_hours e" "mi \<in> cx_minutes e"
  shows "next_fire_after e after = Inl CronSyntaxError \<and>
    cron_matches e \<lparr>dt_year = 2104, dt_month = 2, dt_day = 29, dt_hour = h, dt_minute = mi\<rparr>"
proof -
  have o: "toordinal after \<le> days_before_year 2100"
    using toordinal_year(2) [OF assms(1)] assms(2,3) days_before_year_mono [of "dt_year after + 1" 2100]
    by (cases "dt_year after = 2099") (auto split: if_splits)
  have fits: "toordinal after + int next_fire_max_days \<le> max_ordinal"
    using o by (simp add: next_fire_max_days_def max_ordinal_def days_before_year_def)
  have no: "\<not> cron_matches e w" if "within_horizon after w" for w
  proof
    assume m: "cron_matches e w"
    have w: "valid_time w" "minutes_of after < minutes_of w" "minutes_of w \<le> minutes_of after + 1464 * 1440"
      using that by (simp_all add: within_horizon_def next_fire_max_days_def)
    have "dt_month w = 2" "dt_day w = 29" using m assms(4-7) by (simp_all add: cron_matches_def Let_def)
    then have leap: "leap_year (dt_year w)" using w(1) by (simp add: valid_time_def days_in_month_def split: if_splits)
    have t: "0 \<le> dt_hour after" "dt_hour after \<le> 23" "0 \<le> dt_minute after" "dt_minute after \<le> 59"
      "0 \<le> dt_hour w" "dt_hour w \<le> 23" "0 \<le> dt_minute w" "dt_minute w \<le> 59"
      using assms(1) w(1) by (simp_all add: valid_time_def)
    have near: "toordinal after \<le> toordinal w" "toordinal w \<le> toordinal after + 1465"
      using w(2,3) t unfolding minutes_of_def by linarith+
    have "2097 \<le> dt_year w"
    proof (rule ccontr)
      assume "\<not> 2097 \<le> dt_year w"
      then have "days_before_year (dt_year w + 1) \<le> days_before_year 2097"
        using days_before_year_mono [of "dt_year w + 1" 2097] by (cases "dt_year w = 2096") (auto split: if_splits)
      moreover have "days_before_year 2097 \<le> days_before_year (dt_year after)"
        using assms(2) days_before_year_mono [of 2097 "dt_year after"] by (cases "dt_year after = 2097") (auto split: if_splits)
      ultimately show False using toordinal_year(2) [OF w(1)] toordinal_year(1) [OF assms(1)] near(1) by linarith
    qed
    moreover have "dt_year w < 2104"
    proof (rule ccontr)
      assume "\<not> dt_year w < 2104"
      then have "days_before_year 2104 \<le> days_before_year (dt_year w)"
        using days_before_year_mono [of 2104 "dt_year w"] by (cases "dt_year w = 2104") (auto split: if_splits)
      moreover have "days_before_year 2104 \<ge> days_before_year 2100 + 1461 - 1" by (simp add: days_before_year_def)
      moreover have "toordinal w = days_before_year (dt_year w) + days_before_month (dt_year w) 2 + 29"
        by (simp add: toordinal_def \<open>dt_month w = 2\<close> \<open>dt_day w = 29\<close>)
      moreover have "days_before_month (dt_year w) 2 = 31" by (simp add: days_before_month_def days_in_month_def upto_rec1)
      ultimately show False using near(2) o by linarith
    qed
    ultimately have "dt_year w \<in> {2097, 2098, 2099, 2100, 2101, 2102, 2103}" by auto
    then show False using leap by (auto simp: leap_year_def)
  qed
  have "next_fire_after e after = Inl CronSyntaxError"
  proof (cases "next_fire_after e after")
    case (Inl err)
    then show ?thesis using next_fire_Inl [OF assms(1) fits] by blast
  next
    case (Inr c)
    then show ?thesis using next_fire_Inr(1,2) [OF assms(1) fits] no by blast
  qed
  then show ?thesis using assms(4-9) by (simp add: cron_matches_def Let_def)
qed

section \<open>Printed expressions\<close>

fun join_with :: "char \<Rightarrow> string list \<Rightarrow> string" where
  "join_with c [] = []"
| "join_with c [x] = x"
| "join_with c (x # y # ys) = x @ c # join_with c (y # ys)"

definition show_numbers :: "nat list \<Rightarrow> string" where
  "show_numbers ns = join_with (CHR '','') (map show_nat ns)"

definition show_cron :: "nat list \<times> nat list \<times> nat list \<times> nat list \<times> nat list \<Rightarrow> string" where
  "show_cron = (\<lambda>(ms, hs, ds, mos, ws). join_with (CHR '' '') (map show_numbers [ms, hs, ds, mos, ws]))"

text \<open>The library reads back the numbers the expression prints.\<close>

definition reads_numbers :: "pylib \<Rightarrow> bool" where
  "reads_numbers L \<longleftrightarrow> (\<forall>n < 60. pl_int L (show_nat n) = Some (int n))"

lemma split_on_append: "c \<notin> set x \<Longrightarrow> split_on c (x @ c # s) = x # split_on c s"
  by (induction x) auto

lemma split_on_none: "c \<notin> set x \<Longrightarrow> split_on c x = [x]"
  by (induction x) auto

lemma split_on_join: "xs \<noteq> [] \<Longrightarrow> \<forall>x \<in> set xs. c \<notin> set x \<Longrightarrow> split_on c (join_with c xs) = xs"
  by (induction c xs rule: join_with.induct) (simp_all add: split_on_append split_on_none)

lemma join_with_chars: "set (join_with c xs) \<subseteq> insert c (\<Union> (set ` set xs))"
  by (induction c xs rule: join_with.induct) auto

lemma show_nat_plain:
  assumes "c \<in> set (show_nat n)"
  shows "c \<in> set ''0123456789''"
proof -
  obtain d where d: "d < 10" "c = digit_char d" using show_nat_chars [OF assms] by blast
  then have "d \<in> {0, 1, 2, 3, 4, 5, 6, 7, 8, 9}" by auto
  then show ?thesis using d(2) by (auto simp: digit_char_def char_of_eq_iff)
qed

lemma show_nat_strip: "py_strip (show_nat n) = show_nat n"
proof -
  have keep: "dropWhile is_space t = t" if "set t \<subseteq> set ''0123456789''" for t
    using that by (cases t) (auto simp: is_space_def)
  have "set (show_nat n) \<subseteq> set ''0123456789''" using show_nat_plain by blast
  then show ?thesis unfolding py_strip_def by (simp only: keep set_rev rev_rev_ident)
qed

lemma show_numbers_chars: "set (show_numbers ns) \<subseteq> set ''0123456789,''"
proof -
  have "\<Union> (set ` set (map show_nat ns)) \<subseteq> set ''0123456789''" using show_nat_plain by fastforce
  moreover have "set ''0123456789'' \<subseteq> set ''0123456789,''" "CHR '','' \<in> set ''0123456789,''" by auto
  ultimately show ?thesis using join_with_chars [of "CHR '',''" "map show_nat ns"] unfolding show_numbers_def by blast
qed

lemma show_numbers_nonempty: "ns \<noteq> [] \<Longrightarrow> show_numbers ns \<noteq> []"
  by (cases ns; cases "tl ns") (auto simp: show_numbers_def)

lemma parse_piece_number:
  assumes "pl_int L (show_nat n) = Some (int n)" "cf_lo F \<le> int n" "int n \<le> cf_hi F" "\<not> (cf_is_dow F \<and> n = 7)"
  shows "parse_piece L F (show_nat n) = Inr [int n]"
proof -
  have "CHR ''/'' \<notin> set (show_nat n)" "CHR ''-'' \<notin> set (show_nat n)" "show_nat n \<noteq> ''*''"
    using show_nat_plain [of _ n] by force+
  then have "piece_step L (show_nat n) = Inr (show_nat n, 1)" "piece_range L F (show_nat n) = Inr (int n, int n)"
    using assms by (simp_all add: piece_step_def piece_range_def cron_int_def fold_seven_def Let_def)
  moreover have "step_range (int n) (int n) 1 = [int n]" by (simp add: step_range_def)
  ultimately show ?thesis by (simp add: parse_piece_def show_nat_strip)
qed

lemma parse_pieces_numbers:
  "\<forall>n \<in> set ns. parse_piece L F (show_nat n) = Inr [int n] \<Longrightarrow> parse_pieces L F (map show_nat ns) out = Inr (out @ map int ns)"
  by (induction ns arbitrary: out) simp_all

lemma parse_field_numbers:
  assumes "reads_numbers L" "ns \<noteq> []" "set (map int ns) \<subseteq> {cf_lo F..cf_hi F}" "cf_hi F < 60" "cf_is_dow F \<Longrightarrow> cf_hi F < 7"
  shows "parse_field L F (show_numbers ns) = Inr (int ` set ns)"
proof -
  have "parse_piece L F (show_nat n) = Inr [int n]" if "n \<in> set ns" for n
    using assms that by (intro parse_piece_number) (fastforce simp: reads_numbers_def)+
  moreover have "split_on (CHR '','') (show_numbers ns) = map show_nat ns"
    unfolding show_numbers_def using assms(2) show_nat_plain by (intro split_on_join) fastforce+
  ultimately show ?thesis
    using assms(2) show_numbers_nonempty [OF assms(2)] parse_pieces_numbers [of ns L F "[]"] by (simp add: parse_field_def)
qed

lemma split_words_join:
  assumes "xs \<noteq> []" "\<forall>x \<in> set xs. x \<noteq> [] \<and> (\<forall>c \<in> set x. \<not> is_space c)"
  shows "split_words (join_with (CHR '' '') xs) = xs"
proof -
  have "is_space (CHR '' '')" by (simp add: is_space_def)
  then have "map (\<lambda>c. if is_space c then CHR '' '' else c) (join_with (CHR '' '') xs) = join_with (CHR '' '') xs"
    using join_with_chars [of "CHR '' ''" xs] assms(2) by (intro map_idI) auto
  moreover have "split_on (CHR '' '') (join_with (CHR '' '') xs) = xs"
    using assms \<open>is_space (CHR '' '')\<close> by (intro split_on_join) auto
  ultimately show ?thesis using assms(2) by (simp add: split_words_def filter_id_conv)
qed

lemma show_numbers_plain: "c \<in> set (show_numbers ns) \<Longrightarrow> cron_char c"
proof -
  have "\<forall>c \<in> set ''0123456789,''. cron_char c" by (simp add: cron_char_def)
  then show "c \<in> set (show_numbers ns) \<Longrightarrow> cron_char c" using show_numbers_chars [of ns] by blast
qed

lemma show_numbers_nonspace: "c \<in> set (show_numbers ns) \<Longrightarrow> \<not> is_space c"
proof -
  have "\<forall>c \<in> set ''0123456789,''. \<not> is_space c" by (simp add: is_space_def)
  then show "c \<in> set (show_numbers ns) \<Longrightarrow> \<not> is_space c" using show_numbers_chars [of ns] by blast
qed

lemma show_numbers_not_star: "show_numbers ns \<noteq> ''*''"
proof
  assume "show_numbers ns = ''*''"
  then have "CHR ''*'' \<in> set (show_numbers ns)" by simp
  then have "CHR ''*'' \<in> set ''0123456789,''" using show_numbers_chars [of ns] by blast
  then show False by simp
qed

text \<open>
  C25: printed schedules are read back. An expression printed from lists of numbers within the five fields' bounds parses to exactly the sets of
  those numbers, with no field a star.
\<close>

theorem parse_show_cron:
  assumes "reads_numbers L" "ms \<noteq> []" "hs \<noteq> []" "ds \<noteq> []" "mos \<noteq> []" "ws \<noteq> []"
    and "set ms \<subseteq> {..59}" "set hs \<subseteq> {..23}" "set ds \<subseteq> {1..31}" "set mos \<subseteq> {1..12}" "set ws \<subseteq> {..6}"
  shows "parse_cron L (show_cron (ms, hs, ds, mos, ws)) =
    Inr \<lparr>cx_minutes = int ` set ms, cx_hours = int ` set hs, cx_doms = int ` set ds, cx_months = int ` set mos, cx_dows = int ` set ws,
         cx_raw = show_cron (ms, hs, ds, mos, ws), cx_dom_was_star = False, cx_dow_was_star = False\<rparr>"
proof -
  have words: "split_words (show_cron (ms, hs, ds, mos, ws)) = map show_numbers [ms, hs, ds, mos, ws]"
    unfolding show_cron_def prod.case using assms(2-6) show_numbers_nonspace
    by (intro split_words_join) (simp_all add: show_numbers_nonempty)
  have bounds: "cf_lo (field_bounds ! 0) = 0" "cf_hi (field_bounds ! 0) = 59" "cf_lo (field_bounds ! 1) = 0" "cf_hi (field_bounds ! 1) = 23"
    "cf_lo (field_bounds ! 2) = 1" "cf_hi (field_bounds ! 2) = 31" "cf_lo (field_bounds ! 3) = 1" "cf_hi (field_bounds ! 3) = 12"
    "cf_lo (field_bounds ! 4) = 0" "cf_hi (field_bounds ! 4) = 6" "\<not> cf_is_dow (field_bounds ! 0)" "\<not> cf_is_dow (field_bounds ! 1)"
    "\<not> cf_is_dow (field_bounds ! 2)" "\<not> cf_is_dow (field_bounds ! 3)"
    by (simp_all add: field_bounds_def eval_nat_numeral)
  have "parse_field L (field_bounds ! 0) (show_numbers ms) = Inr (int ` set ms)"
    using assms(1,2,7) by (intro parse_field_numbers) (auto simp: bounds)
  moreover have "parse_field L (field_bounds ! 1) (show_numbers hs) = Inr (int ` set hs)"
    using assms(1,3,8) by (intro parse_field_numbers) (auto simp: bounds simp del: One_nat_def)
  moreover have "parse_field L (field_bounds ! 2) (show_numbers ds) = Inr (int ` set ds)"
    using assms(1,4,9) by (intro parse_field_numbers) (fastforce simp: bounds)+
  moreover have "parse_field L (field_bounds ! 3) (show_numbers mos) = Inr (int ` set mos)"
    using assms(1,5,10) by (intro parse_field_numbers) (fastforce simp: bounds)+
  moreover have "parse_field L (field_bounds ! 4) (show_numbers ws) = Inr (int ` set ws)"
    using assms(1,6,11) by (intro parse_field_numbers) (auto simp: bounds)
  ultimately show ?thesis unfolding parse_cron_def words list.map list.case by (simp add: show_numbers_not_star show_numbers_plain)
qed

text \<open>Sunday written 7 (\<open>cron.py:21\<close> accepts it): a range that ends on it is refused or loses every other day.\<close>

lemma seven_ends_range:
  assumes "pl_int L ''0'' = Some 0" "pl_int L ''5'' = Some 5" "pl_int L ''7'' = Some 7"
  shows "parse_field L (field_bounds ! 4) ''0-7'' = Inr {0}" "parse_field L (field_bounds ! 4) ''5-7'' = Inl CronSyntaxError"
  using assms
  by (simp_all add: parse_field_def parse_piece_def piece_step_def piece_range_def cron_int_def fold_seven_def field_bounds_def
      before_char_def after_char_def py_strip_def is_space_def step_range_def eval_nat_numeral)

section \<open>Witnesses\<close>

definition cron_lib :: pylib where
  "cron_lib = \<lparr>pl_repr = (\<lambda>_. ''?''), pl_int = (\<lambda>s. Some (int (read_nat s))), pl_float = (\<lambda>_. None), pl_dict = (\<lambda>_. Inl ValueError)\<rparr>"

definition example_leap :: cron_expr where
  "example_leap = \<lparr>cx_minutes = {0}, cx_hours = {3}, cx_doms = {29}, cx_months = {2}, cx_dows = {0..6}, cx_raw = ''0 3 29 2 *'',
     cx_dom_was_star = False, cx_dow_was_star = True\<rparr>"

definition example_time :: "int \<Rightarrow> date_time" where
  "example_time y = \<lparr>dt_year = y, dt_month = 2, dt_day = 28, dt_hour = 23, dt_minute = 59\<rparr>"

lemma example_time_valid: "valid_time (example_time y)"
  by (simp add: valid_time_def example_time_def days_in_month_def)

lemma example_time_fits: "toordinal (example_time 2024) + int next_fire_max_days \<le> max_ordinal"
  by (simp add: toordinal_def example_time_def days_before_year_def days_before_month_def days_in_month_def upto_rec1
      next_fire_max_days_def max_ordinal_def)

theorem next_fire_is_least_witness:
  "case next_fire_after example_leap (example_time 2024) of
      Inr c \<Rightarrow> within_horizon (example_time 2024) c \<and> cron_matches example_leap c \<and>
        (\<forall>w. valid_time w \<and> minutes_of (example_time 2024) < minutes_of w \<and> minutes_of w < minutes_of c \<longrightarrow> \<not> cron_matches example_leap w)
    | Inl err \<Rightarrow> err = CronSyntaxError \<and> (\<forall>w. within_horizon (example_time 2024) w \<longrightarrow> \<not> cron_matches example_leap w)"
  by (rule next_fire_is_least [OF example_time_valid example_time_fits])


theorem parse_show_cron_witness:
  "parse_cron cron_lib (show_cron ([0, 30], [3], [2], [4], [0, 6])) =
    Inr \<lparr>cx_minutes = {0, 30}, cx_hours = {3}, cx_doms = {2}, cx_months = {4}, cx_dows = {0, 6},
         cx_raw = show_cron ([0, 30], [3], [2], [4], [0, 6]), cx_dom_was_star = False, cx_dow_was_star = False\<rparr>"
  using parse_show_cron [of cron_lib "[0, 30]" "[3]" "[2]" "[4]" "[0, 6]"] by (simp add: reads_numbers_def cron_lib_def)

end
