(* ===== verification/Singleflight.thy ===== *)
theory Singleflight
  imports Prelude
begin

text \<open>
  The single-flight table of \<open>swarm/sdk/singleflight.py\<close> under concurrent callers. A caller is the program counter of one thread inside
  \<open>do\<close>; every read or write of a flight outside the lock is a step of its own, a critical section is one step (the sweeper's
  included). Flights are a list and a flight is its index; what \<open>fn\<close> does is an argument of the step that runs it, as the clocks are.
  The callbacks are the lists of the counts they were called with.
\<close>

section \<open>State\<close>

datatype sf_error = FnError string | FlightOrphaned real | FlightOverflow | RaisedNone

datatype 'r sf_outcome = Returned "'r option" | Raised sf_error

record 'r flight =
  fl_created :: real
  fl_event :: bool
  fl_result :: "'r option"
  fl_error :: "sf_error option"

datatype 'r caller =
    Ready string
  | Working string nat
  | Storing string nat "string + 'r"
  | Stored string nat "string + 'r"
  | Popped nat "string + 'r"
  | Led nat "string + 'r"
  | Waiting nat
  | Testing nat
  | Raising nat
  | Reading nat
  | Joined nat "'r sf_outcome"
  | Refused sf_error

record 'r singleflight =
  sf_max_inflight :: "int option"
  sf_max_age :: "real option"
  sf_inflight :: "(string, nat) odict"
  sf_flights :: "'r flight list"
  sf_callers :: "'r caller list"
  sf_overflows :: "nat list"
  sf_swept :: "nat list"

definition singleflight_init :: "real option \<Rightarrow> real option \<Rightarrow> int option \<Rightarrow> py_error + 'r singleflight" where
  "singleflight_init sweep_interval max_age max_inflight =
     (if sweep_interval \<noteq> None \<and> max_age = None then Inl ValueError
      else Inr \<lparr>sf_max_inflight = max_inflight, sf_max_age = (if sweep_interval = None then None else max_age),
                sf_inflight = [], sf_flights = [], sf_callers = [], sf_overflows = [], sf_swept = []\<rparr>)"

section \<open>One call\<close>

abbreviation put_caller :: "nat \<Rightarrow> 'r caller \<Rightarrow> 'r singleflight \<Rightarrow> 'r singleflight" where
  "put_caller i c s \<equiv> s\<lparr>sf_callers := (sf_callers s)[i := c]\<rparr>"

abbreviation put_flight :: "nat \<Rightarrow> 'r flight \<Rightarrow> 'r singleflight \<Rightarrow> 'r singleflight" where
  "put_flight f fl s \<equiv> s\<lparr>sf_flights := (sf_flights s)[f := fl]\<rparr>"

text \<open>The critical section that a call starts with.\<close>

definition sf_enter :: "real \<Rightarrow> nat \<Rightarrow> string \<Rightarrow> 'r singleflight \<Rightarrow> 'r singleflight" where
  "sf_enter created i key s =
     (if (case sf_max_inflight s of None \<Rightarrow> False | Some m \<Rightarrow> m \<le> int (length (sf_inflight s))) then
        put_caller i (Refused FlightOverflow) s\<lparr>sf_overflows := sf_overflows s @ [length (sf_inflight s)]\<rparr>
      else
        (case map_of (sf_inflight s) key of
           Some f \<Rightarrow> put_caller i (Waiting f) s
         | None \<Rightarrow>
             put_caller i (Working key (length (sf_flights s))) s
               \<lparr>sf_flights := sf_flights s @ [\<lparr>fl_created = created, fl_event = False, fl_result = None, fl_error = None\<rparr>],
                sf_inflight := od_set key (length (sf_flights s)) (sf_inflight s)\<rparr>))"

text \<open>The next step of one caller, \<open>None\<close> when it is blocked or has returned.\<close>

definition sf_advance :: "real \<Rightarrow> string + 'r \<Rightarrow> nat \<Rightarrow> 'r singleflight \<Rightarrow> 'r singleflight option" where
  "sf_advance created out i s =
     (case sf_callers s ! i of
        Ready key \<Rightarrow> Some (sf_enter created i key s)
      | Working key f \<Rightarrow>
          Some (put_caller i (Storing key f out)
            (put_flight f ((sf_flights s ! f)\<lparr>fl_result := (case out of Inr r \<Rightarrow> Some r | Inl _ \<Rightarrow> None)\<rparr>) s))
      | Storing key f out \<Rightarrow>
          Some (put_caller i (Stored key f out)
            (put_flight f ((sf_flights s ! f)\<lparr>fl_error := (case out of Inr _ \<Rightarrow> None | Inl e \<Rightarrow> Some (FnError e))\<rparr>) s))
      | Stored key f out \<Rightarrow> Some (put_caller i (Popped f out) s\<lparr>sf_inflight := od_del key (sf_inflight s)\<rparr>)
      | Popped f out \<Rightarrow> Some (put_caller i (Led f out) (put_flight f ((sf_flights s ! f)\<lparr>fl_event := True\<rparr>) s))
      | Waiting f \<Rightarrow> if fl_event (sf_flights s ! f) then Some (put_caller i (Testing f) s) else None
      | Testing f \<Rightarrow> Some (put_caller i (if fl_error (sf_flights s ! f) \<noteq> None then Raising f else Reading f) s)
      | Raising f \<Rightarrow>
          Some (put_caller i (Joined f (Raised (case fl_error (sf_flights s ! f) of Some e \<Rightarrow> e | None \<Rightarrow> RaisedNone))) s)
      | Reading f \<Rightarrow> Some (put_caller i (Joined f (Returned (fl_result (sf_flights s ! f)))) s)
      | Led f out \<Rightarrow> None
      | Joined f out \<Rightarrow> None
      | Refused e \<Rightarrow> None)"

definition inflight_count :: "'r singleflight \<Rightarrow> nat" where
  "inflight_count s = length (sf_inflight s)"

section \<open>The sweeper\<close>

definition orphaned :: "real \<Rightarrow> real \<Rightarrow> 'r flight \<Rightarrow> bool" where
  "orphaned max_age now fl \<longleftrightarrow> max_age \<le> now - fl_created fl"

fun sweep_flights :: "real \<Rightarrow> real \<Rightarrow> (string \<times> nat) list \<Rightarrow> 'r singleflight \<Rightarrow> nat \<times> 'r singleflight" where
  "sweep_flights max_age now [] s = (0, s)"
| "sweep_flights max_age now ((key, f) # items) s =
     (let fl = sf_flights s ! f in
      if orphaned max_age now fl then
        (let (n, s') = sweep_flights max_age now items
           (put_flight f (fl\<lparr>fl_error := Some (FlightOrphaned (now - fl_created fl)), fl_event := True\<rparr>)
             s\<lparr>sf_inflight := od_del key (sf_inflight s)\<rparr>)
         in (Suc n, s'))
      else sweep_flights max_age now items s)"

text \<open>One round of the sweeper thread, when there is one.\<close>

definition sf_sweep :: "real \<Rightarrow> 'r singleflight \<Rightarrow> 'r singleflight" where
  "sf_sweep now s =
     (case sf_max_age s of
        None \<Rightarrow> s
      | Some max_age \<Rightarrow>
          (let (n, s') = sweep_flights max_age now (sf_inflight s) s in
           if 0 < n then s'\<lparr>sf_swept := sf_swept s' @ [n]\<rparr> else s'))"

section \<open>Runs\<close>

text \<open>Threads call at any time, and any caller may move next; the sweeper runs when it is configured.\<close>

inductive sf_reachable :: "int option \<Rightarrow> real option \<Rightarrow> 'r singleflight \<Rightarrow> bool" for limit age where
  start: "singleflight_init interval max_age limit = Inr s \<Longrightarrow> sf_max_age s = age \<Longrightarrow> sf_reachable limit age s"
| call: "sf_reachable limit age s \<Longrightarrow> sf_reachable limit age (s\<lparr>sf_callers := sf_callers s @ [Ready key]\<rparr>)"
| advance: "sf_reachable limit age s \<Longrightarrow> i < length (sf_callers s) \<Longrightarrow>
    sf_advance created out i s = Some s' \<Longrightarrow> sf_reachable limit age s'"
| sweep: "sf_reachable limit age s \<Longrightarrow> sf_reachable limit age (sf_sweep now s)"

definition sf_move :: "'r singleflight \<Rightarrow> 'r singleflight \<Rightarrow> bool" where
  "sf_move s s' \<longleftrightarrow> (\<exists>i created out. i < length (sf_callers s) \<and> sf_advance created out i s = Some s')"

fun has_returned :: "'r caller \<Rightarrow> bool" where
  "has_returned (Led f out) = True"
| "has_returned (Joined f out) = True"
| "has_returned (Refused e) = True"
| "has_returned c = False"

section \<open>The invariant of every table\<close>

fun leads :: "'r caller \<Rightarrow> nat option" where
  "leads (Working key f) = Some f"
| "leads (Storing key f out) = Some f"
| "leads (Stored key f out) = Some f"
| "leads (Popped f out) = Some f"
| "leads (Led f out) = Some f"
| "leads c = None"

fun joins :: "'r caller \<Rightarrow> nat option" where
  "joins (Waiting f) = Some f"
| "joins (Testing f) = Some f"
| "joins (Raising f) = Some f"
| "joins (Reading f) = Some f"
| "joins (Joined f out) = Some f"
| "joins c = None"

fun executes :: "'r caller \<Rightarrow> (string \<times> nat) option" where
  "executes (Working key f) = Some (key, f)"
| "executes (Storing key f out) = Some (key, f)"
| "executes (Stored key f out) = Some (key, f)"
| "executes c = None"

text \<open>Every flight has one leader, and as long as its event is unset the leader has not returned.\<close>

definition valid_flights :: "'r singleflight \<Rightarrow> bool" where
  "valid_flights s \<longleftrightarrow>
     (\<forall>i < length (sf_callers s). \<forall>f. leads (sf_callers s ! i) = Some f \<or> joins (sf_callers s ! i) = Some f \<longrightarrow> f < length (sf_flights s)) \<and>
     (\<forall>p \<in> set (sf_inflight s). snd p < length (sf_flights s))"

definition one_leader :: "'r singleflight \<Rightarrow> bool" where
  "one_leader s \<longleftrightarrow>
     (\<forall>i < length (sf_callers s). \<forall>j < length (sf_callers s). \<forall>f.
        leads (sf_callers s ! i) = Some f \<and> leads (sf_callers s ! j) = Some f \<longrightarrow> i = j)"

definition all_led :: "'r singleflight \<Rightarrow> bool" where
  "all_led s \<longleftrightarrow>
     (\<forall>f < length (sf_flights s). \<exists>i < length (sf_callers s). leads (sf_callers s ! i) = Some f \<and>
        (fl_event (sf_flights s ! f) \<or> \<not> has_returned (sf_callers s ! i)))"

definition flights_led :: "'r singleflight \<Rightarrow> bool" where
  "flights_led s \<longleftrightarrow> valid_flights s \<and> one_leader s \<and> all_led s"

lemma nth_list_update_cases: "i < length xs \<Longrightarrow> (xs[i := x]) ! j = (if i = j then x else xs ! j)"
  by (cases "i = j") simp_all

text \<open>A caller that moves on with the flight it leads, a flight whose event is not reset, and a caller that arrives.\<close>

lemma flights_led_put:
  assumes inv: "flights_led s" and i: "i < length (sf_callers s)" and same: "leads c = leads (sf_callers s ! i)"
    and joined: "\<And>f. joins c = Some f \<Longrightarrow> f < length (sf_flights s)"
    and finished: "\<And>f. has_returned c \<Longrightarrow> leads c = Some f \<Longrightarrow> fl_event (sf_flights s ! f)"
  shows "flights_led (put_caller i c s)"
proof -
  have l: "leads ((sf_callers s)[i := c] ! j) = leads (sf_callers s ! j)" for j
    using i same by (simp add: nth_list_update_cases)
  have "valid_flights (put_caller i c s)"
    using inv i joined by (simp add: flights_led_def valid_flights_def l) (simp add: nth_list_update_cases)
  moreover have "one_leader (put_caller i c s)" using inv by (simp add: flights_led_def one_leader_def l)
  moreover have "fl_event (sf_flights s ! f) \<or> \<not> has_returned ((sf_callers s)[i := c] ! j)"
    if "leads (sf_callers s ! j) = Some f" "fl_event (sf_flights s ! f) \<or> \<not> has_returned (sf_callers s ! j)" for f j
    using that i same finished by (cases "i = j") auto
  then have "all_led (put_caller i c s)" using inv unfolding flights_led_def all_led_def by (simp add: l) blast
  ultimately show ?thesis by (simp add: flights_led_def)
qed

lemma flights_led_flight:
  assumes inv: "flights_led s" and keep: "fl_event (sf_flights s ! f) \<Longrightarrow> fl_event fl"
  shows "flights_led (put_flight f fl s)"
proof -
  have "fl_event ((sf_flights s)[f := fl] ! g)" if "fl_event (sf_flights s ! g)" "g < length (sf_flights s)" for g
    using that keep by (cases "f = g") auto
  then have "all_led (put_flight f fl s)" using inv unfolding flights_led_def all_led_def by simp blast
  then show ?thesis using inv by (simp add: flights_led_def valid_flights_def one_leader_def)
qed

lemma flights_led_inflight:
  "flights_led s \<Longrightarrow> set d \<subseteq> set (sf_inflight s) \<Longrightarrow> flights_led (s\<lparr>sf_inflight := d\<rparr>)"
  by (auto simp: flights_led_def valid_flights_def one_leader_def all_led_def)

lemma flights_led_call: "flights_led s \<Longrightarrow> flights_led (s\<lparr>sf_callers := sf_callers s @ [Ready key]\<rparr>)"
  unfolding flights_led_def valid_flights_def one_leader_def all_led_def
  by (auto simp: nth_append less_Suc_eq split: if_splits)

lemma flights_led_sweep: "flights_led s \<Longrightarrow> flights_led (snd (sweep_flights max_age now items s))"
proof (induction max_age now items s rule: sweep_flights.induct)
  case (2 max_age now key f items s)
  have "set (od_del key (sf_inflight s)) \<subseteq> set (sf_inflight s)" by (auto simp: od_del_def)
  then have "flights_led (put_flight f ((sf_flights s ! f)\<lparr>fl_error := e, fl_event := True\<rparr>) s\<lparr>sf_inflight := od_del key (sf_inflight s)\<rparr>)" for e
    using flights_led_inflight [OF flights_led_flight [OF "2.prems", of f "(sf_flights s ! f)\<lparr>fl_error := e, fl_event := True\<rparr>"]] by simp
  then show ?case using 2 by (simp add: Let_def split_beta)
qed simp

lemma flights_led_new:
  assumes inv: "flights_led s" and i: "i < length (sf_callers s)" "leads (sf_callers s ! i) = None"
  shows "flights_led (put_caller i (Working key (length (sf_flights s))) s
    \<lparr>sf_flights := sf_flights s @ [fl], sf_inflight := od_set key (length (sf_flights s)) (sf_inflight s)\<rparr>)"
    (is "flights_led ?t")
proof -
  let ?F = "length (sf_flights s)"
  have l: "leads ((sf_callers s)[i := Working key ?F] ! j) = (if i = j then Some ?F else leads (sf_callers s ! j))"
    "joins ((sf_callers s)[i := Working key ?F] ! j) = (if i = j then None else joins (sf_callers s ! j))" for j
    using i by (simp_all add: nth_list_update_cases)
  have old: "leads (sf_callers s ! j) = Some f \<or> joins (sf_callers s ! j) = Some f \<Longrightarrow> j < length (sf_callers s) \<Longrightarrow> f < ?F" for j f
    using inv by (auto simp: flights_led_def valid_flights_def)
  have "set (od_set key ?F d) \<subseteq> insert (key, ?F) (set d)" for d
    by (induction key ?F d rule: od_set.induct) auto
  then have "snd p < Suc ?F" if "p \<in> set (od_set key ?F (sf_inflight s))" for p
    using that inv unfolding flights_led_def valid_flights_def by fastforce
  moreover have "f < Suc ?F" if "j < length (sf_callers s)"
    "(if i = j then Some ?F else leads (sf_callers s ! j)) = Some f \<or> (if i = j then None else joins (sf_callers s ! j)) = Some f" for j f
    using that old [of j f] by (auto split: if_splits)
  ultimately have "valid_flights ?t" by (simp add: valid_flights_def l)
  moreover have "j = k" if "j < length (sf_callers s)" "k < length (sf_callers s)"
    "(if i = j then Some ?F else leads (sf_callers s ! j)) = Some f" "(if i = k then Some ?F else leads (sf_callers s ! k)) = Some f" for j k f
    using that inv old [of j f] old [of k f] unfolding flights_led_def one_leader_def by (auto split: if_splits)
  then have "one_leader ?t" by (simp add: one_leader_def l)
  moreover have "\<exists>j < length (sf_callers s). leads ((sf_callers s)[i := Working key ?F] ! j) = Some f \<and>
      (fl_event ((sf_flights s @ [fl]) ! f) \<or> \<not> has_returned ((sf_callers s)[i := Working key ?F] ! j))" if f: "f < Suc ?F" for f
  proof (cases "f = ?F")
    case True
    then show ?thesis using i(1) by (intro exI [of _ i]) simp
  next
    case False
    then obtain j where "j < length (sf_callers s)" "leads (sf_callers s ! j) = Some f"
      "fl_event (sf_flights s ! f) \<or> \<not> has_returned (sf_callers s ! j)"
      using inv f False by (auto simp: flights_led_def all_led_def less_Suc_eq)
    moreover from this have "i \<noteq> j" using i(2) by auto
    ultimately show ?thesis using False f by (intro exI [of _ j]) (auto simp: nth_append)
  qed
  then have "all_led ?t" by (simp add: all_led_def)
  ultimately show ?thesis by (simp add: flights_led_def)
qed

lemma sf_enter_led:
  assumes "flights_led s" "i < length (sf_callers s)" "leads (sf_callers s ! i) = None"
  shows "flights_led (sf_enter created i key s)"
proof -
  have over: "flights_led t \<Longrightarrow> flights_led (t\<lparr>sf_overflows := xs\<rparr>)" for t :: "'a singleflight" and xs
    by (simp add: flights_led_def valid_flights_def one_leader_def all_led_def)
  have refuse: "flights_led (put_caller i (Refused e) s\<lparr>sf_overflows := xs\<rparr>)" for e xs
    using over [OF flights_led_put [OF assms(1,2), of "Refused e"]] assms(3) by simp
  have join: "flights_led (put_caller i (Waiting f) s)" if "map_of (sf_inflight s) key = Some f" for f
  proof -
    have "\<forall>p \<in> set (sf_inflight s). snd p < length (sf_flights s)" using assms(1) by (simp add: flights_led_def valid_flights_def)
    then have "f < length (sf_flights s)" using map_of_SomeD [OF that] by fastforce
    then show ?thesis using flights_led_put [OF assms(1,2), of "Waiting f"] assms(3) by simp
  qed
  let ?over = "case sf_max_inflight s of None \<Rightarrow> False | Some m \<Rightarrow> m \<le> int (length (sf_inflight s))"
  show ?thesis
  proof (cases ?over)
    case True
    then show ?thesis by (simp only: sf_enter_def if_True refuse)
  next
    case False
    then show ?thesis
      unfolding sf_enter_def using join flights_led_new [OF assms] by (cases "map_of (sf_inflight s) key") (simp_all only: if_False option.case)
  qed
qed

lemma sf_advance_led:
  assumes inv: "flights_led s" and i: "i < length (sf_callers s)" and moved: "sf_advance created out i s = Some s'"
  shows "flights_led s'"
proof -
  have valid: "leads (sf_callers s ! i) = Some f \<or> joins (sf_callers s ! i) = Some f \<Longrightarrow> f < length (sf_flights s)" for f
    using inv i by (auto simp: flights_led_def valid_flights_def)
  have lead: "flights_led (put_caller i c (put_flight f fl s))"
    if "leads (sf_callers s ! i) = Some f" "leads c = Some f" "\<not> has_returned c \<or> fl_event fl" "fl_event (sf_flights s ! f) \<Longrightarrow> fl_event fl" for c f fl
    using flights_led_put [where c = c and i = i, OF flights_led_flight [OF inv that(4)]] i that valid [of f] by (cases c) auto
  have join: "flights_led (put_caller i c s)" if "joins (sf_callers s ! i) = Some f" "joins c = Some f" for c f
  proof -
    have "leads c = None" using that by (cases c) simp_all
    moreover have "leads (sf_callers s ! i) = None" using that by (cases "sf_callers s ! i") simp_all
    ultimately show ?thesis using flights_led_put [OF inv i, of c] that valid [of f] by simp
  qed
  show ?thesis
  proof (cases "sf_callers s ! i")
    case (Ready key)
    then show ?thesis using moved sf_enter_led [OF inv i] by (auto simp: sf_advance_def)
  next
    case (Stored key f out')
    have "set (od_del key (sf_inflight s)) \<subseteq> set (sf_inflight s)" by (auto simp: od_del_def)
    then have "flights_led (put_caller i (Popped f out') s\<lparr>sf_inflight := od_del key (sf_inflight s)\<rparr>)"
      using flights_led_inflight [OF flights_led_put [OF inv i, of "Popped f out'"]] Stored by simp
    then show ?thesis using moved Stored by (simp add: sf_advance_def)
  next
    case (Popped f out')
    then show ?thesis using moved lead [of f "Led f out'"] by (auto simp: sf_advance_def)
  next
    case (Working key f)
    then show ?thesis using moved lead [of f "Storing key f out"] by (auto simp: sf_advance_def)
  next
    case (Storing key f out')
    then show ?thesis using moved lead [of f "Stored key f out'"] by (auto simp: sf_advance_def)
  qed (use moved join in \<open>auto simp: sf_advance_def split: if_splits\<close>)
qed

lemma sf_sweep_led: "flights_led s \<Longrightarrow> flights_led (sf_sweep now s)"
  using flights_led_sweep [of s _ now "sf_inflight s"]
  by (auto simp: sf_sweep_def split_beta Let_def flights_led_def valid_flights_def one_leader_def all_led_def split: option.split)

lemma reachable_led: "sf_reachable limit age s \<Longrightarrow> flights_led s"
proof (induction rule: sf_reachable.induct)
  case (start interval max_age s)
  then show ?case
    by (auto simp: singleflight_init_def flights_led_def valid_flights_def one_leader_def all_led_def split: if_splits)
qed (auto intro: flights_led_call sf_advance_led sf_sweep_led)

section \<open>Every call returns\<close>

fun steps_left :: "'r caller \<Rightarrow> nat" where
  "steps_left (Ready key) = 5"
| "steps_left (Working key f) = 4"
| "steps_left (Storing key f out) = 3"
| "steps_left (Stored key f out) = 2"
| "steps_left (Popped f out) = 1"
| "steps_left (Waiting f) = 3"
| "steps_left (Testing f) = 2"
| "steps_left (Raising f) = 1"
| "steps_left (Reading f) = 1"
| "steps_left c = 0"

definition total_left :: "'r singleflight \<Rightarrow> nat" where
  "total_left s = sum_list (map steps_left (sf_callers s))"

lemma sum_list_update_less:
  "i < length xs \<Longrightarrow> g y < g (xs ! i) \<Longrightarrow> sum_list (map g (xs[i := y])) < sum_list (map g xs)" for g :: "'a \<Rightarrow> nat"
  by (induction xs arbitrary: i) (auto split: nat.splits)

lemma sf_advance_caller:
  assumes "sf_advance created out i s = Some s'"
  shows "\<exists>c. sf_callers s' = (sf_callers s)[i := c] \<and> steps_left c < steps_left (sf_callers s ! i)"
  using assms
  by (cases "sf_callers s ! i")
    (fastforce simp: sf_advance_def sf_enter_def split: if_splits option.splits)+

lemma sf_move_decreases: "sf_move s s' \<Longrightarrow> total_left s' < total_left s"
  using sf_advance_caller sum_list_update_less [where g = steps_left] by (fastforce simp: sf_move_def total_left_def)

lemma moves_bounded: "(sf_move ^^ n) s t \<Longrightarrow> n + total_left t \<le> total_left s"
proof (induction n arbitrary: t)
  case (Suc n)
  then obtain u where "(sf_move ^^ n) s u" "sf_move u t" by auto
  then show ?case using Suc.IH [of u] sf_move_decreases [of u t] by simp
qed simp

lemma sf_move_led: "sf_move s s' \<Longrightarrow> flights_led s \<Longrightarrow> flights_led s'"
  using sf_advance_led by (auto simp: sf_move_def)

lemma unblocked_moves: "\<not> has_returned (sf_callers s ! i) \<Longrightarrow> (\<forall>f. sf_callers s ! i = Waiting f \<longrightarrow> fl_event (sf_flights s ! f)) \<Longrightarrow>
    i < length (sf_callers s) \<Longrightarrow> \<exists>s'. sf_move s s'"
proof -
  assume a: "\<not> has_returned (sf_callers s ! i)" "\<forall>f. sf_callers s ! i = Waiting f \<longrightarrow> fl_event (sf_flights s ! f)" "i < length (sf_callers s)"
  then have "\<exists>s'. sf_advance 0 (Inl []) i s = Some s'" by (cases "sf_callers s ! i") (auto simp: sf_advance_def)
  then show ?thesis using a(3) unfolding sf_move_def by blast
qed

lemma some_caller_moves:
  assumes "flights_led s" "i < length (sf_callers s)" "\<not> has_returned (sf_callers s ! i)"
  shows "\<exists>s'. sf_move s s'"
proof (cases "\<exists>f. sf_callers s ! i = Waiting f \<and> \<not> fl_event (sf_flights s ! f)")
  case True
  then obtain f where f: "sf_callers s ! i = Waiting f" "\<not> fl_event (sf_flights s ! f)" by blast
  then have "f < length (sf_flights s)" using assms by (fastforce simp: flights_led_def valid_flights_def)
  then obtain j where j: "j < length (sf_callers s)" "leads (sf_callers s ! j) = Some f" "\<not> has_returned (sf_callers s ! j)"
    using assms(1) f(2) unfolding flights_led_def all_led_def by blast
  then have "\<forall>g. sf_callers s ! j \<noteq> Waiting g" by auto
  then show ?thesis using unblocked_moves [OF j(3) _ j(1)] by blast
next
  case False
  then show ?thesis using unblocked_moves [OF assms(3) _ assms(2)] by blast
qed

text \<open>
  C9: no call waits for ever, with or without the sweeper. From every reachable table the callers make at most \<open>total_left\<close> more steps in
  whatever order they are scheduled, and when none of them can move every one has returned.
\<close>

theorem every_call_returns:
  assumes "sf_reachable limit age s"
  shows "(\<forall>n t. (sf_move ^^ n) s t \<longrightarrow> n \<le> total_left s) \<and>
    (\<forall>t. sf_move\<^sup>*\<^sup>* s t \<and> (\<nexists>u. sf_move t u) \<longrightarrow> (\<forall>c \<in> set (sf_callers t). has_returned c))"
proof (intro conjI allI impI ballI)
  show "(sf_move ^^ n) s t \<Longrightarrow> n \<le> total_left s" for n t using moves_bounded [of n s t] by simp
next
  fix t c
  assume t: "sf_move\<^sup>*\<^sup>* s t \<and> (\<nexists>u. sf_move t u)" and c: "c \<in> set (sf_callers t)"
  from t have "sf_move\<^sup>*\<^sup>* s t" by simp
  then have "flights_led t" using reachable_led [OF assms] by (induction rule: rtranclp_induct) (auto intro: sf_move_led)
  then show "has_returned c" using some_caller_moves t c by (metis in_set_conv_nth)
qed

section \<open>Without the sweeper\<close>

text \<open>What a flight holds depends on how far its leader is, what a joiner has read on the flight.\<close>

definition result_of :: "string + 'r \<Rightarrow> 'r option" where
  "result_of out = (case out of Inr r \<Rightarrow> Some r | Inl e \<Rightarrow> None)"

definition error_of :: "string + 'r \<Rightarrow> sf_error option" where
  "error_of out = (case out of Inr r \<Rightarrow> None | Inl e \<Rightarrow> Some (FnError e))"

definition outcome_of :: "string + 'r \<Rightarrow> 'r sf_outcome" where
  "outcome_of out = (case out of Inr r \<Rightarrow> Returned (Some r) | Inl e \<Rightarrow> Raised (FnError e))"

fun leader_ok :: "'r flight \<Rightarrow> 'r caller \<Rightarrow> bool" where
  "leader_ok fl (Working key f) \<longleftrightarrow> \<not> fl_event fl \<and> fl_result fl = None \<and> fl_error fl = None"
| "leader_ok fl (Storing key f out) \<longleftrightarrow> \<not> fl_event fl \<and> fl_result fl = result_of out \<and> fl_error fl = None"
| "leader_ok fl (Stored key f out) \<longleftrightarrow> \<not> fl_event fl \<and> fl_result fl = result_of out \<and> fl_error fl = error_of out"
| "leader_ok fl (Popped f out) \<longleftrightarrow> \<not> fl_event fl \<and> fl_result fl = result_of out \<and> fl_error fl = error_of out"
| "leader_ok fl (Led f out) \<longleftrightarrow> fl_event fl \<and> fl_result fl = result_of out \<and> fl_error fl = error_of out"
| "leader_ok fl c \<longleftrightarrow> True"

fun joiner_ok :: "'r flight \<Rightarrow> 'r caller \<Rightarrow> bool" where
  "joiner_ok fl (Testing f) \<longleftrightarrow> fl_event fl"
| "joiner_ok fl (Raising f) \<longleftrightarrow> fl_event fl \<and> fl_error fl \<noteq> None"
| "joiner_ok fl (Reading f) \<longleftrightarrow> fl_event fl \<and> fl_error fl = None"
| "joiner_ok fl (Joined f out) \<longleftrightarrow> fl_event fl \<and> out = (case fl_error fl of Some e \<Rightarrow> Raised e | None \<Rightarrow> Returned (fl_result fl))"
| "joiner_ok fl c \<longleftrightarrow> True"

definition roles_ok :: "'r singleflight \<Rightarrow> bool" where
  "roles_ok s \<longleftrightarrow>
     (\<forall>i < length (sf_callers s). \<forall>f. (leads (sf_callers s ! i) = Some f \<longrightarrow> leader_ok (sf_flights s ! f) (sf_callers s ! i)) \<and>
        (joins (sf_callers s ! i) = Some f \<longrightarrow> joiner_ok (sf_flights s ! f) (sf_callers s ! i)))"

text \<open>The table holds exactly the flights whose leader has not taken them out.\<close>

definition table_inv :: "'r singleflight \<Rightarrow> bool" where
  "table_inv s \<longleftrightarrow> od_wf (sf_inflight s) \<and>
     (\<forall>key f. map_of (sf_inflight s) key = Some f \<longleftrightarrow> (\<exists>i < length (sf_callers s). executes (sf_callers s ! i) = Some (key, f)))"

definition table_bounded :: "'r singleflight \<Rightarrow> bool" where
  "table_bounded s \<longleftrightarrow> (\<forall>m. sf_max_inflight s = Some m \<longrightarrow> int (length (sf_inflight s)) \<le> max 0 m)"

lemma executes_leads: "executes c = Some (key, f) \<Longrightarrow> leads c = Some f"
  by (cases c) simp_all

lemma executor_unique:
  assumes "one_leader s" "table_inv s" "i < length (sf_callers s)" "j < length (sf_callers s)"
    "executes (sf_callers s ! i) = Some (key, f)" "executes (sf_callers s ! j) = Some (key, g)"
  shows "i = j"
proof -
  have "map_of (sf_inflight s) key = Some f" "map_of (sf_inflight s) key = Some g" using assms(2-6) unfolding table_inv_def by blast+
  then have "f = g" by simp
  then show ?thesis using assms executes_leads unfolding one_leader_def by metis
qed

text \<open>A leader moves: its flight changes while the event is unset, when only waiting callers are on it.\<close>

lemma roles_ok_lead:
  assumes led: "flights_led s" and roles: "roles_ok s" and i: "i < length (sf_callers s)"
    and f: "leads (sf_callers s ! i) = Some f" "leads c = Some f"
    and unset: "\<not> fl_event (sf_flights s ! f)" and c: "leader_ok fl c"
  shows "roles_ok (put_caller i c (put_flight f fl s))"
proof -
  have F: "f < length (sf_flights s)" using led i f(1) by (auto simp: flights_led_def valid_flights_def)
  have "leader_ok ((sf_flights s)[f := fl] ! g) ((sf_callers s)[i := c] ! j)"
    if j: "j < length (sf_callers s)" and g: "leads ((sf_callers s)[i := c] ! j) = Some g" for j g
  proof (cases "i = j")
    case True
    then show ?thesis using i f F c g by simp
  next
    case False
    then have "leads (sf_callers s ! j) = Some g" using g by simp
    moreover from this have "g \<noteq> f" using False f(1) led i j unfolding flights_led_def one_leader_def by blast
    ultimately show ?thesis using roles j False by (simp add: roles_ok_def)
  qed
  moreover have "joiner_ok ((sf_flights s)[f := fl] ! g) ((sf_callers s)[i := c] ! j)"
    if j: "j < length (sf_callers s)" and g: "joins ((sf_callers s)[i := c] ! j) = Some g" for j g
  proof (cases "i = j")
    case True
    then show ?thesis using g f(2) i by (cases c) simp_all
  next
    case False
    then have old: "joiner_ok (sf_flights s ! g) (sf_callers s ! j)" using roles j g by (simp add: roles_ok_def)
    show ?thesis
    proof (cases "g = f")
      case True
      then show ?thesis using old unset False g by (cases "sf_callers s ! j") auto
    next
      case neq: False
      then show ?thesis using old False by simp
    qed
  qed
  ultimately show ?thesis by (simp add: roles_ok_def)
qed

lemma roles_ok_put:
  assumes "roles_ok s" "i < length (sf_callers s)"
    and "\<And>f. leads c = Some f \<Longrightarrow> leader_ok (sf_flights s ! f) c" "\<And>f. joins c = Some f \<Longrightarrow> joiner_ok (sf_flights s ! f) c"
  shows "roles_ok (put_caller i c s)"
proof -
  have "(leads ((sf_callers s)[i := c] ! j) = Some f \<longrightarrow> leader_ok (sf_flights s ! f) ((sf_callers s)[i := c] ! j)) \<and>
      (joins ((sf_callers s)[i := c] ! j) = Some f \<longrightarrow> joiner_ok (sf_flights s ! f) ((sf_callers s)[i := c] ! j))"
    if "j < length (sf_callers s)" for j f
    using assms that by (cases "i = j") (simp_all add: roles_ok_def)
  then show ?thesis by (simp add: roles_ok_def)
qed

lemma table_inv_put:
  assumes "table_inv s" "i < length (sf_callers s)" "executes c = executes (sf_callers s ! i)"
  shows "table_inv (put_caller i c s)"
proof -
  have "executes ((sf_callers s)[i := c] ! j) = executes (sf_callers s ! j)" for j
    using assms(2,3) by (simp add: nth_list_update_cases)
  then show ?thesis using assms(1) by (simp add: table_inv_def)
qed

lemma table_inv_new:
  assumes "table_inv s" "i < length (sf_callers s)" "executes (sf_callers s ! i) = None" "map_of (sf_inflight s) key = None"
  shows "table_inv (put_caller i (Working key f) s\<lparr>sf_flights := fs, sf_inflight := od_set key f (sf_inflight s)\<rparr>)"
proof -
  have e: "executes ((sf_callers s)[i := Working key f] ! j) = (if i = j then Some (key, f) else executes (sf_callers s ! j))" for j
    using assms(2) by (simp add: nth_list_update_cases)
  have none: "executes (sf_callers s ! j) \<noteq> Some (key, g)" if "j < length (sf_callers s)" for j g
    using assms(1,4) that unfolding table_inv_def by (metis option.distinct(1))
  have "map_of (od_set key f (sf_inflight s)) k = Some g \<longleftrightarrow>
      (\<exists>j < length (sf_callers s). executes ((sf_callers s)[i := Working key f] ! j) = Some (k, g))" for k g
  proof (cases "k = key")
    case True
    then show ?thesis using e none assms(2) by (auto simp: od_simps)
  next
    case False
    then have "executes ((sf_callers s)[i := Working key f] ! j) = Some (k, g) \<longleftrightarrow> executes (sf_callers s ! j) = Some (k, g)" for j
      using e assms(3) by auto
    then show ?thesis using assms(1) False by (simp add: od_simps table_inv_def)
  qed
  then show ?thesis using assms(1) by (auto simp: table_inv_def)
qed

lemma table_inv_pop:
  assumes tab: "table_inv s" and one: "one_leader s" and i: "i < length (sf_callers s)" and stored: "sf_callers s ! i = Stored key f out"
  shows "table_inv (put_caller i (Popped f out) s\<lparr>sf_inflight := od_del key (sf_inflight s)\<rparr>)"
proof -
  have e: "executes ((sf_callers s)[i := Popped f out] ! j) = (if i = j then None else executes (sf_callers s ! j))" for j
    using i by (simp add: nth_list_update_cases)
  have only: "j = i" if "j < length (sf_callers s)" "executes (sf_callers s ! j) = Some (key, g)" for j g
    using executor_unique [OF one tab that(1) i that(2)] stored by simp
  have "map_of (od_del key (sf_inflight s)) k = Some g \<longleftrightarrow>
      (\<exists>j < length (sf_callers s). executes ((sf_callers s)[i := Popped f out] ! j) = Some (k, g))" for k g
  proof (cases "k = key")
    case True
    then show ?thesis using only by (auto simp: od_simps e)
  next
    case False
    then have "executes ((sf_callers s)[i := Popped f out] ! j) = Some (k, g) \<longleftrightarrow> executes (sf_callers s ! j) = Some (k, g)" for j
      using e stored by auto
    then show ?thesis using tab False by (simp add: od_simps table_inv_def)
  qed
  then show ?thesis using tab by (auto simp: table_inv_def)
qed

definition single_ok :: "'r singleflight \<Rightarrow> bool" where
  "single_ok s \<longleftrightarrow> roles_ok s \<and> table_inv s"

lemma single_ok_overflows: "single_ok (s\<lparr>sf_overflows := xs\<rparr>) = single_ok s"
  by (simp add: single_ok_def roles_ok_def table_inv_def)

lemma single_ok_put:
  assumes "single_ok s" "i < length (sf_callers s)" "executes c = executes (sf_callers s ! i)"
    and "\<And>f. leads c = Some f \<Longrightarrow> leader_ok (sf_flights s ! f) c" "\<And>f. joins c = Some f \<Longrightarrow> joiner_ok (sf_flights s ! f) c"
  shows "single_ok (put_caller i c s)"
  using assms roles_ok_put [of s i c] table_inv_put [of s i c] by (simp add: single_ok_def)

lemma single_ok_new:
  assumes led: "flights_led s" and ok: "single_ok s" and i: "i < length (sf_callers s)" "sf_callers s ! i = Ready key'" "map_of (sf_inflight s) key = None"
  shows "single_ok (put_caller i (Working key (length (sf_flights s))) s
    \<lparr>sf_flights := sf_flights s @ [\<lparr>fl_created = created, fl_event = False, fl_result = None, fl_error = None\<rparr>],
     sf_inflight := od_set key (length (sf_flights s)) (sf_inflight s)\<rparr>)"
    (is "single_ok (put_caller i ?c s\<lparr>sf_flights := sf_flights s @ [?fl], sf_inflight := _\<rparr>)")
proof -
  let ?F = "length (sf_flights s)"
  have "(leads ((sf_callers s)[i := ?c] ! j) = Some f \<longrightarrow> leader_ok ((sf_flights s @ [?fl]) ! f) ((sf_callers s)[i := ?c] ! j)) \<and>
      (joins ((sf_callers s)[i := ?c] ! j) = Some f \<longrightarrow> joiner_ok ((sf_flights s @ [?fl]) ! f) ((sf_callers s)[i := ?c] ! j))"
    if j: "j < length (sf_callers s)" for j f
  proof (cases "i = j")
    case False
    then have "leads (sf_callers s ! j) = Some f \<or> joins (sf_callers s ! j) = Some f \<Longrightarrow> f < ?F"
      using led j by (auto simp: flights_led_def valid_flights_def)
    then show ?thesis using ok j False by (auto simp: single_ok_def roles_ok_def nth_append)
  qed (use i j in auto)
  moreover have "table_inv (put_caller i ?c s\<lparr>sf_flights := sf_flights s @ [?fl], sf_inflight := od_set key ?F (sf_inflight s)\<rparr>)"
    using ok i by (intro table_inv_new) (simp_all add: single_ok_def)
  ultimately show ?thesis by (simp add: single_ok_def roles_ok_def)
qed

lemma sf_enter_single:
  assumes "flights_led s" "single_ok s" "i < length (sf_callers s)" "sf_callers s ! i = Ready key'"
  shows "single_ok (sf_enter created i key s)"
proof -
  have refuse: "single_ok (put_caller i (Refused e) s\<lparr>sf_overflows := xs\<rparr>)" for e xs
    using single_ok_put [OF assms(2,3), of "Refused e"] assms(4) by (simp add: single_ok_overflows)
  have join: "single_ok (put_caller i (Waiting f) s)" for f
    using single_ok_put [OF assms(2,3), of "Waiting f"] assms(4) by simp
  let ?over = "case sf_max_inflight s of None \<Rightarrow> False | Some m \<Rightarrow> m \<le> int (length (sf_inflight s))"
  show ?thesis
  proof (cases ?over)
    case True
    then show ?thesis by (simp only: sf_enter_def if_True refuse)
  next
    case False
    then show ?thesis
      unfolding sf_enter_def using join single_ok_new [OF assms(1-4)] by (cases "map_of (sf_inflight s) key") (simp_all only: if_False option.case)
  qed
qed

lemma sf_advance_single:
  assumes led: "flights_led s" and ok: "single_ok s" and i: "i < length (sf_callers s)" and moved: "sf_advance created out i s = Some s'"
  shows "single_ok s'"
proof -
  have role: "leads (sf_callers s ! i) = Some f \<Longrightarrow> leader_ok (sf_flights s ! f) (sf_callers s ! i)"
    "joins (sf_callers s ! i) = Some f \<Longrightarrow> joiner_ok (sf_flights s ! f) (sf_callers s ! i)" for f
    using ok i by (auto simp: single_ok_def roles_ok_def)
  have lead: "single_ok (put_caller i c (put_flight f fl s))"
    if "leads (sf_callers s ! i) = Some f" "leads c = Some f" "\<not> fl_event (sf_flights s ! f)" "leader_ok fl c"
      "executes c = executes (sf_callers s ! i)" for c f fl
    using roles_ok_lead [OF led _ i that(1-4)] table_inv_put [of "put_flight f fl s" i c] ok i that(5) by (simp add: single_ok_def table_inv_def)
  have join: "single_ok (put_caller i c s)"
    if "executes c = executes (sf_callers s ! i)" "leads c = None" "joins c = Some f" "joiner_ok (sf_flights s ! f) c" for c f
    using single_ok_put [OF ok i that(1)] that(2-4) by simp
  show ?thesis
  proof (cases "sf_callers s ! i")
    case (Ready key)
    then show ?thesis using moved sf_enter_single [OF led ok i] by (auto simp: sf_advance_def)
  next
    case (Working key f)
    then show ?thesis using moved lead [of f "Storing key f out"] role(1) [of f] by (auto simp: sf_advance_def result_of_def)
  next
    case (Storing key f out')
    then show ?thesis using moved lead [of f "Stored key f out'"] role(1) [of f] by (auto simp: sf_advance_def error_of_def)
  next
    case (Stored key f out')
    have "table_inv (put_caller i (Popped f out') s\<lparr>sf_inflight := od_del key (sf_inflight s)\<rparr>)"
      using table_inv_pop [OF _ _ i Stored] ok led by (simp add: single_ok_def flights_led_def)
    moreover have "roles_ok (put_caller i (Popped f out') s)"
      using roles_ok_put [of s i "Popped f out'"] ok i role(1) [of f] Stored by (simp add: single_ok_def)
    ultimately show ?thesis using moved Stored by (auto simp: sf_advance_def single_ok_def roles_ok_def)
  next
    case (Popped f out')
    then show ?thesis using moved lead [of f "Led f out'"] role(1) [of f] by (auto simp: sf_advance_def)
  qed (use moved join role(2) in \<open>auto simp: sf_advance_def intro!: join split: if_splits option.splits\<close>)
qed

lemma sf_advance_settings:
  "sf_advance created out i s = Some s' \<Longrightarrow> sf_max_age s' = sf_max_age s \<and> sf_max_inflight s' = sf_max_inflight s"
  by (auto simp: sf_advance_def sf_enter_def split: caller.splits if_splits option.splits)

lemma sweep_flights_settings:
  "sf_max_age (snd (sweep_flights a now items s)) = sf_max_age s \<and> sf_max_inflight (snd (sweep_flights a now items s)) = sf_max_inflight s \<and>
    length (sf_inflight (snd (sweep_flights a now items s))) \<le> length (sf_inflight s)"
proof (induction a now items s rule: sweep_flights.induct)
  case (2 max_age now key f items s)
  have "length (od_del key (sf_inflight s)) \<le> length (sf_inflight s)" by (rule length_od_del_le)
  with 2 show ?case by (auto simp: Let_def split_beta intro: order_trans)
qed simp

lemma sf_sweep_settings:
  "sf_max_age (sf_sweep now s) = sf_max_age s" "sf_max_inflight (sf_sweep now s) = sf_max_inflight s"
  "length (sf_inflight (sf_sweep now s)) \<le> length (sf_inflight s)"
  using sweep_flights_settings [of _ now "sf_inflight s" s] by (auto simp: sf_sweep_def Let_def split_beta split: option.split)

lemma reachable_settings: "sf_reachable limit age s \<Longrightarrow> sf_max_age s = age \<and> sf_max_inflight s = limit"
  by (induction rule: sf_reachable.induct)
    (auto simp: sf_advance_settings sf_sweep_settings singleflight_init_def split: if_splits)

lemma reachable_bounded: "sf_reachable limit age s \<Longrightarrow> table_bounded s"
proof (induction rule: sf_reachable.induct)
  case (advance s i created out s')
  have "int (length (od_del key d)) \<le> max 0 m" if "int (length d) \<le> max 0 m" for key d m
    using that length_od_del_le [of key d] by linarith
  then show ?case using advance
    by (auto simp: sf_advance_def sf_enter_def table_bounded_def od_simps split: caller.splits if_splits option.splits)
next
  case (sweep s now)
  then show ?case using sf_sweep_settings [of now s] by (fastforce simp: table_bounded_def)
qed (auto simp: singleflight_init_def table_bounded_def split: if_splits)

lemma reachable_single: "sf_reachable limit age s \<Longrightarrow> age = None \<Longrightarrow> single_ok s"
proof (induction rule: sf_reachable.induct)
  case (start interval max_age s)
  then show ?case by (auto simp: singleflight_init_def single_ok_def roles_ok_def table_inv_def split: if_splits)
next
  case (call s key)
  then show ?case
    by (auto simp: single_ok_def roles_ok_def table_inv_def nth_append less_Suc_eq split: if_splits)
next
  case (advance s i created out s')
  then show ?case using sf_advance_single reachable_led by blast
next
  case (sweep s now)
  then show ?case using reachable_settings [of limit age s] by (simp add: sf_sweep_def)
qed

definition running :: "'r singleflight \<Rightarrow> nat set" where
  "running s = {i. i < length (sf_callers s) \<and> executes (sf_callers s ! i) \<noteq> None}"

lemma running_bounded:
  assumes "one_leader s" "table_inv s"
  shows "card (running s) \<le> length (sf_inflight s)"
proof -
  let ?key = "\<lambda>i. fst (the (executes (sf_callers s ! i)))"
  have "inj_on ?key (running s)"
    using executor_unique [OF assms] by (intro inj_onI) (fastforce simp: running_def)
  moreover have "?key ` running s \<subseteq> fst ` set (sf_inflight s)"
  proof
    fix key assume "key \<in> ?key ` running s"
    then obtain i f where "i < length (sf_callers s)" "executes (sf_callers s ! i) = Some (key, f)" by (auto simp: running_def)
    then have "map_of (sf_inflight s) key = Some f" using assms(2) unfolding table_inv_def by blast
    then show "key \<in> fst ` set (sf_inflight s)" using map_of_SomeD by force
  qed
  ultimately have "card (running s) \<le> card (fst ` set (sf_inflight s))"
    by (intro card_inj_on_le) simp_all
  also have "\<dots> \<le> length (sf_inflight s)" by (metis card_length length_map set_map)
  finally show ?thesis .
qed

text \<open>
  C7: one execution for each key and never more than the limit. Without a sweeper no two callers execute the same key at the same time, and
  the callers that execute are at most \<open>max_inflight\<close>.
\<close>

theorem executions_exclusive:
  assumes "sf_reachable limit None s" "i < length (sf_callers s)" "j < length (sf_callers s)"
    and "executes (sf_callers s ! i) = Some (key, f)" "executes (sf_callers s ! j) = Some (key, g)"
  shows "i = j \<and> (\<forall>m. limit = Some m \<longrightarrow> int (card (running s)) \<le> max 0 m)"
proof
  have inv: "one_leader s" "table_inv s" "table_bounded s" "sf_max_inflight s = limit"
    using reachable_led [OF assms(1)] reachable_single [OF assms(1)] reachable_bounded [OF assms(1)] reachable_settings [OF assms(1)]
    by (simp_all add: flights_led_def single_ok_def)
  show "i = j" by (rule executor_unique [OF inv(1,2) assms(2-5)])
  show "\<forall>m. limit = Some m \<longrightarrow> int (card (running s)) \<le> max 0 m"
    using running_bounded [OF inv(1,2)] inv(3,4) by (fastforce simp: table_bounded_def)
qed

text \<open>
  C8: the shared result. Without a sweeper a caller that joined a flight returns or raises exactly what the caller that executed \<open>fn\<close> returned
  or raised.
\<close>

theorem joiners_share_outcome:
  assumes "sf_reachable limit None s" "i < length (sf_callers s)" "sf_callers s ! i = Joined f o1"
  shows "\<exists>j < length (sf_callers s). \<exists>out. sf_callers s ! j = Led f out \<and> o1 = outcome_of out"
proof -
  have led: "flights_led s" and roles: "roles_ok s"
    using reachable_led [OF assms(1)] reachable_single [OF assms(1)] by (simp_all add: single_ok_def)
  have o1: "fl_event (sf_flights s ! f)" "o1 = (case fl_error (sf_flights s ! f) of Some e \<Rightarrow> Raised e | None \<Rightarrow> Returned (fl_result (sf_flights s ! f)))"
    using roles assms(2,3) by (auto simp: roles_ok_def)
  have "f < length (sf_flights s)" using led assms(2,3) by (fastforce simp: flights_led_def valid_flights_def)
  then obtain j where j: "j < length (sf_callers s)" "leads (sf_callers s ! j) = Some f" using led unfolding flights_led_def all_led_def by blast
  then have "leader_ok (sf_flights s ! f) (sf_callers s ! j)" using roles by (simp add: roles_ok_def)
  then obtain out where "sf_callers s ! j = Led f out" "fl_result (sf_flights s ! f) = result_of out" "fl_error (sf_flights s ! f) = error_of out"
    using j(2) o1(1) by (cases "sf_callers s ! j") auto
  then show ?thesis using j(1) o1(2) by (auto simp: outcome_of_def result_of_def error_of_def split: sum.split)
qed

section \<open>With the sweeper\<close>

text \<open>A schedule of the threads, for concrete runs.\<close>

datatype 'r sf_event = Call string | Step nat real "string + 'r" | Sweep real

fun sf_schedule :: "'r sf_event list \<Rightarrow> 'r singleflight \<Rightarrow> 'r singleflight option" where
  "sf_schedule [] s = Some s"
| "sf_schedule (Call key # es) s = sf_schedule es (s\<lparr>sf_callers := sf_callers s @ [Ready key]\<rparr>)"
| "sf_schedule (Step i created out # es) s =
     (if i < length (sf_callers s) then (case sf_advance created out i s of None \<Rightarrow> None | Some s' \<Rightarrow> sf_schedule es s') else None)"
| "sf_schedule (Sweep now # es) s = sf_schedule es (sf_sweep now s)"

lemma schedule_reachable: "sf_reachable limit age s \<Longrightarrow> sf_schedule es s = Some s' \<Longrightarrow> sf_reachable limit age s'"
proof (induction es arbitrary: s)
  case Nil
  then show ?case by simp
next
  case (Cons e es)
  then show ?case
    by (cases e) (auto split: if_splits option.splits intro: sf_reachable.call sf_reachable.advance sf_reachable.sweep)
qed

definition swept_table :: "real \<Rightarrow> 'r singleflight" where
  "swept_table age = \<lparr>sf_max_inflight = None, sf_max_age = Some age, sf_inflight = [], sf_flights = [], sf_callers = [], sf_overflows = [], sf_swept = []\<rparr>"

lemma swept_table_reachable: "sf_reachable None (Some age) (swept_table age)"
  by (rule sf_reachable.start [of "Some 1" "Some age"]) (simp_all add: singleflight_init_def swept_table_def)

lemmas schedule_simps = swept_table_def sf_advance_def sf_enter_def sf_sweep_def orphaned_def od_del_def

text \<open>
  C39: a swept leader takes out the flight of its successor (\<open>singleflight.py:195\<close> pops the key, whoever holds it). After one sweep two callers
  execute the same key at the same time although neither of their flights has been swept.
\<close>

theorem sweep_breaks_exclusion:
  "\<exists>s :: 'r singleflight. sf_reachable None (Some age) s \<and>
     executes (sf_callers s ! 1) = Some (key, 1) \<and> executes (sf_callers s ! 2) = Some (key, 2) \<and>
     fl_created (sf_flights s ! 1) = age \<and> fl_error (sf_flights s ! 1) = None \<and> fl_created (sf_flights s ! 2) = age \<and>
     map_of (sf_inflight s) key = Some 2"
proof -
  let ?step = "\<lambda>i. Step i age (Inl ''x'')"
  let ?es = "[Call key, Step 0 0 (Inl ''x''), Sweep age, Call key, ?step 1, ?step 0, ?step 0, ?step 0, Call key, ?step 2] :: 'r sf_event list"
  obtain s where s: "sf_schedule ?es (swept_table age :: 'r singleflight) = Some s"
    "executes (sf_callers s ! 1) = Some (key, 1)" "executes (sf_callers s ! 2) = Some (key, 2)"
    "fl_created (sf_flights s ! 1) = age" "fl_error (sf_flights s ! 1) = None" "fl_created (sf_flights s ! 2) = age"
    "map_of (sf_inflight s) key = Some 2"
    by (simp add: schedule_simps)
  show ?thesis using schedule_reachable [OF swept_table_reachable s(1)] s(2-7) by blast
qed

text \<open>
  A sweep between the two assignments of a leader: the joiner sees the sweeper's error, the leader clears it, and the joiner raises \<open>None\<close>, a
  \<open>TypeError\<close>, although \<open>fn\<close> succeeded.
\<close>

lemma sweep_raises_none:
  "\<exists>s. sf_reachable None (Some age) s \<and> sf_callers s ! 0 = Stored key 0 (Inr r) \<and> sf_callers s ! 1 = Joined 0 (Raised RaisedNone)"
proof -
  let ?step = "\<lambda>i. Step i 0 (Inr r)"
  let ?es = "[Call key, Call key, ?step 0, ?step 1, ?step 0, Sweep age, ?step 1, ?step 1, ?step 0, ?step 1]"
  obtain s where s: "sf_schedule ?es (swept_table age) = Some s" "sf_callers s ! 0 = Stored key 0 (Inr r)" "sf_callers s ! 1 = Joined 0 (Raised RaisedNone)"
    by (simp add: schedule_simps)
  show ?thesis using schedule_reachable [OF swept_table_reachable s(1)] s(2,3) by blast
qed

section \<open>Witnesses\<close>

definition plain_table :: "int option \<Rightarrow> 'r singleflight" where
  "plain_table limit = \<lparr>sf_max_inflight = limit, sf_max_age = None, sf_inflight = [], sf_flights = [], sf_callers = [], sf_overflows = [], sf_swept = []\<rparr>"

lemma plain_table_reachable: "sf_reachable limit None (plain_table limit)"
  by (rule sf_reachable.start [of None None]) (simp_all add: singleflight_init_def plain_table_def)

lemma shared_call_run:
  "\<exists>s. sf_schedule [Call ''k'', Call ''k'', Step 0 0 (Inr 7), Step 1 0 (Inr 7), Step 0 0 (Inr 7), Step 0 0 (Inr 7), Step 0 0 (Inr 7), Step 0 0 (Inr 7),
       Step 1 0 (Inr 7), Step 1 0 (Inr 7), Step 1 0 (Inr 7)] (plain_table (Some 2)) = Some s \<and>
     sf_callers s = [Led 0 (Inr 7), Joined 0 (Returned (Some (7 :: int)))]"
  by (simp add: schedule_simps plain_table_def)

theorem joiners_share_outcome_witness:
  "\<exists>s :: int singleflight. sf_callers s ! 1 = Joined 0 (Returned (Some 7)) \<and>
     (\<exists>j < length (sf_callers s). \<exists>out. sf_callers s ! j = Led 0 out \<and> Returned (Some 7) = outcome_of out)"
proof -
  from shared_call_run obtain s where s: "sf_reachable (Some 2) None s" "sf_callers s = [Led 0 (Inr 7), Joined 0 (Returned (Some (7 :: int)))]"
    using schedule_reachable [OF plain_table_reachable] by blast
  show ?thesis using joiners_share_outcome [OF s(1), of 1 0 "Returned (Some 7)"] s(2) by (intro exI [of _ s]) auto
qed

theorem executions_exclusive_witness:
  "\<exists>s :: int singleflight. executes (sf_callers s ! 0) = Some (''k'', 0) \<and> int (card (running s)) \<le> max 0 2"
proof -
  obtain s :: "int singleflight" where s: "sf_schedule [Call ''k'', Step 0 0 (Inr 7)] (plain_table (Some 2)) = Some s"
    "sf_callers s = [Working ''k'' 0]"
    by (simp add: schedule_simps plain_table_def)
  show ?thesis
    using executions_exclusive [OF schedule_reachable [OF plain_table_reachable s(1)], of 0 0 "''k''" 0 0] s(2) by (intro exI [of _ s]) auto
qed

theorem every_call_returns_witness:
  "\<exists>s :: int singleflight. total_left s = 10 \<and> (\<forall>n t. (sf_move ^^ n) s t \<longrightarrow> n \<le> 10)"
proof -
  obtain s :: "int singleflight" where s: "sf_schedule [Call ''k'', Call ''k''] (plain_table None) = Some s" "total_left s = 10"
    by (simp add: schedule_simps plain_table_def total_left_def)
  show ?thesis using every_call_returns [OF schedule_reachable [OF plain_table_reachable s(1)]] s(2) by auto
qed

end
