(* ===== verification/Sec_Rate.thy ===== *)
theory Sec_Rate
  imports Bus_Types Debounce Wire_Ops "HOL-Library.Sublist"
begin

text \<open>
  The rate aggregator of \<open>swarm/agents/sec/rate.py\<close>: it counts abusive alerts by subject over a sliding window, trips a subject at the
  threshold and is the only writer of \<open>sec.denylist.v1\<close>. A subject is any JSON value, used as a dictionary key. The generator bodies of
  the handlers run to their end, as \<open>handle\<close> lists them; the readings of the clocks and the new ids are functions of the emission's
  place in the handler. The lock and the logging are not modelled.
\<close>

section \<open>State\<close>

record rate_config =
  rg_burst_window_ms :: int
  rg_burst_threshold :: int
  rg_denylist_ttl_s :: int
  rg_eviction_alert :: real
  rg_denylist_max :: int
  rg_critical_debounce :: bool
  rg_show_rate :: "real \<Rightarrow> string"

record subject_window =
  sw_hits :: "real list"
  sw_denylisted_at :: "real option"
  sw_last_seen :: real

record rate_agent =
  rg_debouncer :: debouncer
  rg_windows :: "(jval, subject_window) odict"
  rg_max_subjects :: nat
  rg_dedup :: "(jval \<times> string, unit) odict"
  rg_dedup_max :: nat
  rg_evictions :: "real list"
  rg_eviction_window_s :: int

record rate_env =
  ev_mono :: real
  ev_gate :: "nat \<Rightarrow> real"
  ev_id :: "nat \<Rightarrow> string"
  ev_now_iso :: "nat \<Rightarrow> string"

definition rate_agent_init :: "debouncer \<Rightarrow> int \<Rightarrow> int \<Rightarrow> int \<Rightarrow> rate_agent" where
  "rate_agent_init deb max_subjects dedup_window eviction_window_s =
     \<lparr>rg_debouncer = deb, rg_windows = [], rg_max_subjects = nat (max 1 max_subjects), rg_dedup = [],
      rg_dedup_max = nat (max 1 dedup_window), rg_evictions = [], rg_eviction_window_s = max 1 eviction_window_s\<rparr>"

definition rate_name :: string where
  "rate_name = ''sec.rate.v1''"

definition burst_trigger_kinds :: "string list" where
  "burst_trigger_kinds = [''rate_throttled'', ''prompt_injection'', ''homoglyph_attack'', ''language_spoof'']"

definition sec_denylist_topic :: string where
  "sec_denylist_topic = ''sec.denylist.v1''"

text \<open>Numbers that are equal are the same dictionary key.\<close>

fun key_value :: "jval \<Rightarrow> jval" where
  "key_value (JBool b) = JFloat (if b then 1 else 0)"
| "key_value (JInt i) = JFloat (real_of_int i)"
| "key_value j = j"

section \<open>The burst window\<close>

definition empty_window :: subject_window where
  "empty_window = \<lparr>sw_hits = [], sw_denylisted_at = None, sw_last_seen = 0\<rparr>"

definition expire_listing :: "rate_config \<Rightarrow> real \<Rightarrow> subject_window \<Rightarrow> subject_window" where
  "expire_listing C now w =
     (case sw_denylisted_at w of
        None \<Rightarrow> w
      | Some t \<Rightarrow> if real_of_int (max 1 (rg_denylist_ttl_s C)) \<le> now - t then w\<lparr>sw_denylisted_at := None, sw_hits := []\<rparr> else w)"

definition add_hit :: "rate_config \<Rightarrow> real \<Rightarrow> subject_window \<Rightarrow> subject_window" where
  "add_hit C now w =
     (let window_s = real_of_int (max 1 (rg_burst_window_ms C)) / 1000; w1 = expire_listing C now w in
      w1\<lparr>sw_last_seen := now, sw_hits := dropWhile (\<lambda>t. t < now - window_s) (sw_hits w1 @ [now])\<rparr>)"

definition window_trips :: "rate_config \<Rightarrow> subject_window \<Rightarrow> bool" where
  "window_trips C w \<longleftrightarrow> sw_denylisted_at w = None \<and> max 1 (rg_burst_threshold C) \<le> int (length (sw_hits w))"

definition mark_listed :: "rate_config \<Rightarrow> real \<Rightarrow> subject_window \<Rightarrow> subject_window" where
  "mark_listed C now w = (if window_trips C w then w\<lparr>sw_denylisted_at := Some now\<rparr> else w)"

text \<open>The section under the lock: the eviction rate and the trip of an alert that is counted, \<open>None\<close> for a repeated one.\<close>

definition count_hit :: "rate_config \<Rightarrow> real \<Rightarrow> jval \<Rightarrow> string \<Rightarrow> rate_agent \<Rightarrow> (real \<times> bool) option \<times> rate_agent" where
  "count_hit C now key alert_id s =
     (if (key, alert_id) \<in> fst ` set (rg_dedup s) then (None, s)
      else
        (let dedup = od_trim (rg_dedup_max s) (od_set (key, alert_id) () (rg_dedup s));
             window = (case map_of (rg_windows s) key of None \<Rightarrow> empty_window | Some w \<Rightarrow> w);
             touched = (case map_of (rg_windows s) key of None \<Rightarrow> od_set key empty_window (rg_windows s) | Some w \<Rightarrow> od_touch key (rg_windows s));
             counted = add_hit C now window;
             windows = od_set key counted touched;
             kept = od_trim (rg_max_subjects s) windows;
             evictions = dropWhile (\<lambda>t. t < now - real_of_int (rg_eviction_window_s s))
               (rg_evictions s @ replicate (length windows - length kept) now);
             marked = mark_listed C now counted in
         (Some (real (length evictions) / real_of_int (rg_eviction_window_s s), window_trips C counted),
          s\<lparr>rg_dedup := dedup, rg_evictions := evictions,
            rg_windows := (if key \<in> fst ` set kept then od_set key marked kept else kept)\<rparr>)))"

section \<open>Messages\<close>

definition rate_alert :: "(string \<Rightarrow> string) \<Rightarrow> rate_env \<Rightarrow> nat \<Rightarrow> string \<Rightarrow> string \<Rightarrow> jval \<Rightarrow> string \<Rightarrow> emission list res" where
  "rate_alert hexdigest E n kind severity subject reason =
     res_bind (sec_alert_check hexdigest
        \<lparr>sa_alert_id = ev_id E n, sa_kind = kind, sa_severity = severity, sa_source = rate_name, sa_reason = reason,
         sa_produced_at = ev_now_iso E n, sa_subject = subject, sa_request_id = JNull, sa_client_id = JNull, sa_ip = JNull,
         sa_evidence_ref = JNull, sa_event_correlation_id = JNull\<rparr>)
       (\<lambda>a. Inr [\<lparr>em_topic = sec_alert_topic, em_payload = sec_alert_as_dict a, em_producer = rate_name, em_trace = None\<rparr>])"

text \<open>\<open>_maybe_alert\<close>.\<close>

definition maybe_alert ::
  "pylib \<Rightarrow> (string \<Rightarrow> string) \<Rightarrow> rate_env \<Rightarrow> nat \<Rightarrow> string \<Rightarrow> string \<Rightarrow> jval \<Rightarrow> string \<Rightarrow> rate_agent \<Rightarrow> emission list res \<times> rate_agent" where
  "maybe_alert L hexdigest E n kind severity subject reason s =
     (let (d, deb) = decide kind (if py_bool subject then Some (py_str L subject) else None) severity reason (ev_gate E n) (rg_debouncer s) in
      (if dc_emit d then rate_alert hexdigest E n kind severity subject (dc_reason d) else Inr [], s\<lparr>rg_debouncer := deb\<rparr>))"

text \<open>\<open>DenylistEvent\<close> of any subject, as a payload.\<close>

definition denylist_message :: "rate_env \<Rightarrow> nat \<Rightarrow> string \<Rightarrow> jval \<Rightarrow> string \<Rightarrow> int \<Rightarrow> emission list res" where
  "denylist_message E n action subject reason ttl_s =
     require (action \<in> {''add'', ''remove''}) (
     require (py_bool subject) (
     require (\<not> (action = ''add'' \<and> ttl_s \<le> 0)) (
     Inr [\<lparr>em_topic = sec_denylist_topic,
           em_payload = [(''event_id'', JStr (ev_id E n)), (''action'', JStr action), (''subject'', subject), (''reason'', JStr reason),
             (''decided_at'', JStr (ev_now_iso E n)), (''ttl_s'', JInt ttl_s)],
           em_producer = rate_name, em_trace = None\<rparr>])))"

text \<open>Generators one after another; an exception drops everything.\<close>

definition and_then :: "emission list res \<times> 's \<Rightarrow> ('s \<Rightarrow> emission list res \<times> 's) \<Rightarrow> emission list res \<times> 's" where
  "and_then r f =
     (case r of
        (Inl e, s) \<Rightarrow> (Inl e, s)
      | (Inr out, s) \<Rightarrow> (case f s of (Inl e, s') \<Rightarrow> (Inl e, s') | (Inr out', s') \<Rightarrow> (Inr (out @ out'), s')))"

definition at_least :: string where
  "at_least = [CHR 0xE2, CHR 0x89, CHR 0xA5]"

definition rate_trip ::
  "pylib \<Rightarrow> (string \<Rightarrow> string) \<Rightarrow> rate_config \<Rightarrow> rate_env \<Rightarrow> jval \<Rightarrow> string \<Rightarrow> rate_agent \<Rightarrow> emission list res \<times> rate_agent" where
  "rate_trip L hexdigest C E subject trigger s =
     (let ttl_s = max 1 (rg_denylist_ttl_s C) in
      and_then (maybe_alert L hexdigest E 1 ''rate_burst'' ''error'' subject
          (''burst threshold '' @ show_int (rg_burst_threshold C) @ '' hits in '' @ show_int (rg_burst_window_ms C) @ ''ms (trigger='' @ trigger @ '')'') s) (\<lambda>s.
      and_then (denylist_message E 2 ''add'' subject ''rate_burst'' ttl_s, s) (\<lambda>s.
      maybe_alert L hexdigest E 3 ''denylist_added'' ''warn'' subject (''ttl_s='' @ show_int ttl_s) s)))"

section \<open>Handlers\<close>

definition rate_subject :: "sec_alert \<Rightarrow> jval" where
  "rate_subject a = (if py_bool (sa_subject a) then sa_subject a else if py_bool (sa_client_id a) then sa_client_id a else sa_ip a)"

definition churn_alert ::
  "pylib \<Rightarrow> (string \<Rightarrow> string) \<Rightarrow> rate_config \<Rightarrow> rate_env \<Rightarrow> real \<Rightarrow> rate_agent \<Rightarrow> emission list res \<times> rate_agent" where
  "churn_alert L hexdigest C E rate s =
     (if rg_eviction_alert C \<le> rate then
        maybe_alert L hexdigest E 0 ''subject_map_churn'' ''warn'' (JStr ''*'')
          (''eviction rate '' @ rg_show_rate C rate @ ''/s '' @ at_least @ '' '' @ rg_show_rate C (rg_eviction_alert C) @ ''/s'') s
      else (Inr [], s))"

definition handle_alert ::
  "pylib \<Rightarrow> (string \<Rightarrow> string) \<Rightarrow> rate_config \<Rightarrow> rate_env \<Rightarrow> jobj \<Rightarrow> rate_agent \<Rightarrow> emission list res \<times> rate_agent" where
  "handle_alert L hexdigest C E payload s =
     (case sec_alert_from_dict hexdigest L payload of
        Inl e \<Rightarrow> (if e \<in> {KeyError, TypeError, ValueError} then Inr [] else Inl e, s)
      | Inr alert \<Rightarrow>
          if sa_source alert = rate_name then (Inr [], s)
          else if sa_kind alert \<notin> set burst_trigger_kinds then (Inr [], s)
          else
            let subject = rate_subject alert in
            if \<not> py_bool subject then (Inr [], s)
            else if \<not> hashable subject then (Inl TypeError, s)
            else
              (case count_hit C (ev_mono E) (key_value subject) (sa_alert_id alert) s of
                 (None, s1) \<Rightarrow> (Inr [], s1)
               | (Some (rate, tripped), s1) \<Rightarrow>
                   and_then
                     (churn_alert L hexdigest C E rate s1)
                     (\<lambda>s2. if tripped then rate_trip L hexdigest C E subject (sa_kind alert) s2 else (Inr [], s2))))"

definition handle_maint ::
  "pylib \<Rightarrow> (string \<Rightarrow> string) \<Rightarrow> rate_env \<Rightarrow> jobj \<Rightarrow> rate_agent \<Rightarrow> emission list res \<times> rate_agent" where
  "handle_maint L hexdigest E payload s =
     (case maint_event_from_dict L payload of
        Inl e \<Rightarrow> (if e \<in> {KeyError, TypeError, ValueError} then Inr [] else Inl e, s)
      | Inr event \<Rightarrow>
          if me_kind event \<noteq> ''denylist_clear'' then (Inr [], s)
          else
            let target = me_target event in
            if target = [] \<or> target = ''*'' then (Inr [], s)
            else
              let subject = JStr target;
                  was_active = (case map_of (rg_windows s) subject of None \<Rightarrow> False | Some w \<Rightarrow> sw_denylisted_at w \<noteq> None);
                  s1 = s\<lparr>rg_windows := od_del subject (rg_windows s)\<rparr> in
              and_then (denylist_message E 0 ''remove'' subject ''manual_override'' 0, s1)
                (maybe_alert L hexdigest E 1 ''denylist_removed'' ''info'' subject
                   (''manual_override; '' @ (if was_active then ''removed'' else ''already_cleared''))))"

definition rate_handle ::
  "pylib \<Rightarrow> (string \<Rightarrow> string) \<Rightarrow> rate_config \<Rightarrow> rate_env \<Rightarrow> message \<Rightarrow> rate_agent \<Rightarrow> emission list res \<times> rate_agent" where
  "rate_handle L hexdigest C E msg s =
     (let topic = en_topic (msg_envelope msg) in
      if topic = sec_alert_topic then handle_alert L hexdigest C E (msg_payload msg) s
      else if topic = maint_event_topic then handle_maint L hexdigest E (msg_payload msg) s
      else (Inr [], s))"

definition note_denylist_capped ::
  "pylib \<Rightarrow> (string \<Rightarrow> string) \<Rightarrow> rate_config \<Rightarrow> rate_env \<Rightarrow> string \<Rightarrow> int \<Rightarrow> rate_agent \<Rightarrow> emission list res \<times> rate_agent" where
  "note_denylist_capped L hexdigest C E subject current_count s =
     (let reason = ''denylist cardinality cap hit ('' @ show_int current_count @ ''>='' @ show_int (rg_denylist_max C) @
            ''); runaway growth or attacker subnet expansion suspected'' in
      if rg_critical_debounce C then maybe_alert L hexdigest E 0 ''denylist_growth_anomaly'' ''critical'' (JStr subject) reason s
      else (rate_alert hexdigest E 0 ''denylist_growth_anomaly'' ''critical'' (JStr subject) reason, s))"

definition subject_count :: "rate_agent \<Rightarrow> nat" where
  "subject_count s = length (rg_windows s)"

definition is_denylisted :: "string \<Rightarrow> rate_agent \<Rightarrow> bool" where
  "is_denylisted subject s =
     (case map_of (rg_windows s) (JStr subject) of None \<Rightarrow> False | Some w \<Rightarrow> sw_denylisted_at w \<noteq> None)"

section \<open>What the messages leave alone\<close>

definition same_tables :: "rate_agent \<Rightarrow> rate_agent \<Rightarrow> bool" where
  "same_tables s s' \<longleftrightarrow> rg_windows s' = rg_windows s \<and> rg_dedup s' = rg_dedup s \<and> rg_max_subjects s' = rg_max_subjects s \<and>
     rg_dedup_max s' = rg_dedup_max s \<and> rg_eviction_window_s s' = rg_eviction_window_s s"

lemma same_tables_refl [simp]: "same_tables s s"
  by (simp add: same_tables_def)

lemma same_tables_trans: "same_tables s s' \<Longrightarrow> same_tables s' s'' \<Longrightarrow> same_tables s s''"
  by (simp add: same_tables_def)

lemma same_tables_alert [simp]: "same_tables s (snd (maybe_alert L h E n kind sev subject reason s))"
  by (simp add: maybe_alert_def same_tables_def split_beta Let_def)

lemma and_then_same:
  "same_tables s (snd r) \<Longrightarrow> (\<And>t. same_tables t (snd (f t))) \<Longrightarrow> same_tables s (snd (and_then r f))"
  by (auto simp: and_then_def split_beta split: prod.split sum.split intro: same_tables_trans)

lemma same_tables_churn [simp]: "same_tables s (snd (churn_alert L h C E rate s))"
  by (simp add: churn_alert_def)

lemma same_tables_trip [simp]: "same_tables s (snd (rate_trip L h C E subject trigger s))"
  by (simp add: rate_trip_def Let_def and_then_same)

text \<open>The hit a message adds, as \<open>(subject, alert id, time)\<close>.\<close>

type_synonym hit = "jval \<times> string \<times> real"

definition counted_hit :: "pylib \<Rightarrow> (string \<Rightarrow> string) \<Rightarrow> rate_env \<Rightarrow> message \<Rightarrow> rate_agent \<Rightarrow> hit option" where
  "counted_hit L hexdigest E msg s =
     (if en_topic (msg_envelope msg) \<noteq> sec_alert_topic then None
      else
        (case sec_alert_from_dict hexdigest L (msg_payload msg) of
           Inl e \<Rightarrow> None
         | Inr a \<Rightarrow>
             if sa_source a \<noteq> rate_name \<and> sa_kind a \<in> set burst_trigger_kinds \<and> py_bool (rate_subject a) \<and> hashable (rate_subject a) \<and>
               (key_value (rate_subject a), sa_alert_id a) \<notin> fst ` set (rg_dedup s)
             then Some (key_value (rate_subject a), sa_alert_id a, ev_mono E) else None))"

lemma count_hit_dup: "(key, aid) \<in> fst ` set (rg_dedup s) \<Longrightarrow> count_hit C now key aid s = (None, s)"
  by (simp add: count_hit_def)

lemma count_hit_new: "(key, aid) \<notin> fst ` set (rg_dedup s) \<Longrightarrow> \<exists>rate tripped. fst (count_hit C now key aid s) = Some (rate, tripped)"
  by (simp add: count_hit_def Let_def)

lemma rate_handle_counts:
  assumes "counted_hit L h E msg s = Some (key, aid, t)"
  shows "same_tables (snd (count_hit C t key aid s)) (snd (rate_handle L h C E msg s))"
proof -
  obtain a where a: "en_topic (msg_envelope msg) = sec_alert_topic" "sec_alert_from_dict h L (msg_payload msg) = Inr a"
    "sa_source a \<noteq> rate_name" "sa_kind a \<in> set burst_trigger_kinds" "py_bool (rate_subject a)" "hashable (rate_subject a)"
    "key = key_value (rate_subject a)" "aid = sa_alert_id a" "t = ev_mono E" "(key, aid) \<notin> fst ` set (rg_dedup s)"
    using assms by (auto simp: counted_hit_def split: if_splits sum.splits)
  obtain rate tripped s1 where c: "count_hit C t key aid s = (Some (rate, tripped), s1)"
    using count_hit_new [OF a(10), of C t] by (metis prod.collapse)
  have "same_tables s1 (snd (rate_handle L h C E msg s))"
    unfolding rate_handle_def handle_alert_def Let_def using a(1-6) c by (simp add: a(7-9) and_then_same)
  then show ?thesis by (simp add: c)
qed

lemma rate_handle_quiet:
  assumes "counted_hit L h E msg s = None"
  shows "\<exists>s1. (s1 = s \<or> (\<exists>k. s1 = s\<lparr>rg_windows := od_del k (rg_windows s)\<rparr>)) \<and> same_tables s1 (snd (rate_handle L h C E msg s))"
proof (cases "en_topic (msg_envelope msg) = sec_alert_topic")
  case True
  have "snd (handle_alert L h C E (msg_payload msg) s) = s"
  proof (cases "sec_alert_from_dict h L (msg_payload msg)")
    case (Inr a)
    have "count_hit C (ev_mono E) (key_value (rate_subject a)) (sa_alert_id a) s = (None, s)"
      if "sa_source a \<noteq> rate_name" "sa_kind a \<in> set burst_trigger_kinds" "py_bool (rate_subject a)" "hashable (rate_subject a)"
      using that assms True Inr by (intro count_hit_dup) (simp add: counted_hit_def split: if_splits)
    then show ?thesis using Inr by (simp add: handle_alert_def Let_def)
  qed (simp add: handle_alert_def)
  then show ?thesis using True by (auto simp: rate_handle_def)
next
  case False
  have "\<exists>s1. (s1 = s \<or> (\<exists>k. s1 = s\<lparr>rg_windows := od_del k (rg_windows s)\<rparr>)) \<and> same_tables s1 (snd (handle_maint L h E (msg_payload msg) s))"
  proof (cases "maint_event_from_dict L (msg_payload msg)")
    case (Inr event)
    let ?s1 = "s\<lparr>rg_windows := od_del (JStr (me_target event)) (rg_windows s)\<rparr>"
    have "snd (handle_maint L h E (msg_payload msg) s) = s \<or> same_tables ?s1 (snd (handle_maint L h E (msg_payload msg) s))"
      unfolding handle_maint_def using Inr by (auto simp: Let_def intro!: and_then_same)
    then show ?thesis by auto
  qed (auto simp: handle_maint_def)
  then show ?thesis using False by (auto simp: rate_handle_def Let_def)
qed

section \<open>Bounded tables\<close>

definition rate_inv :: "rate_agent \<Rightarrow> bool" where
  "rate_inv s \<longleftrightarrow> od_wf (rg_windows s) \<and> od_wf (rg_dedup s) \<and> 0 < rg_max_subjects s \<and> 0 < rg_dedup_max s \<and>
     length (rg_windows s) \<le> rg_max_subjects s \<and> length (rg_dedup s) \<le> rg_dedup_max s"

lemma rate_inv_same: "same_tables s s' \<Longrightarrow> rate_inv s \<Longrightarrow> rate_inv s'"
  by (simp add: same_tables_def rate_inv_def)

lemma od_set_last: "k \<notin> fst ` set d \<Longrightarrow> od_set k v (d @ [(k, w)]) = d @ [(k, v)]"
  by (induction d) auto

definition known_window :: "jval \<Rightarrow> rate_agent \<Rightarrow> subject_window" where
  "known_window key s = (case map_of (rg_windows s) key of None \<Rightarrow> empty_window | Some w \<Rightarrow> w)"

text \<open>A counted hit, with the table in one piece: the subject moves to the end, and the oldest subject falls out.\<close>

lemma count_hit_tables:
  assumes inv: "rate_inv s" and new: "(key, aid) \<notin> fst ` set (rg_dedup s)"
  shows "rg_windows (snd (count_hit C now key aid s)) =
      od_trim (rg_max_subjects s) (od_del key (rg_windows s) @ [(key, mark_listed C now (add_hit C now (known_window key s)))])"
    "rg_dedup (snd (count_hit C now key aid s)) = od_trim (rg_dedup_max s) (rg_dedup s @ [((key, aid), ())])"
    "rg_max_subjects (snd (count_hit C now key aid s)) = rg_max_subjects s" "rg_dedup_max (snd (count_hit C now key aid s)) = rg_dedup_max s"
    "map_option snd (fst (count_hit C now key aid s)) = Some (window_trips C (add_hit C now (known_window key s)))"
proof -
  let ?counted = "add_hit C now (known_window key s)"
  let ?touched = "case map_of (rg_windows s) key of None \<Rightarrow> od_set key empty_window (rg_windows s) | Some w \<Rightarrow> od_touch key (rg_windows s)"
  have fresh: "key \<notin> fst ` set (od_del key (rg_windows s))" by (simp add: od_simps)
  have "od_set key ?counted ?touched = od_del key (rg_windows s) @ [(key, ?counted)]"
  proof (cases "map_of (rg_windows s) key")
    case None
    then have n: "key \<notin> fst ` set (rg_windows s)" by (rule map_of_None_keys [THEN iffD1])
    show ?thesis unfolding None option.case od_set_fresh [OF n] od_del_fresh [OF n] by (rule od_set_last [OF n])
  next
    case (Some w)
    then show ?thesis using fresh by (simp add: od_touch_def od_set_last)
  qed
  moreover have "od_trim (rg_max_subjects s) (od_del key (rg_windows s) @ [(key, v)]) = od_trim (rg_max_subjects s - 1) (od_del key (rg_windows s)) @ [(key, v)]" for v
    using inv by (simp add: rate_inv_def od_trim_snoc)
  moreover have "key \<notin> fst ` set (od_trim n (od_del key (rg_windows s)))" for n
    using fresh set_od_trim_subset [of n "od_del key (rg_windows s)"] by (metis image_mono subsetD)
  ultimately show "rg_windows (snd (count_hit C now key aid s)) =
      od_trim (rg_max_subjects s) (od_del key (rg_windows s) @ [(key, mark_listed C now ?counted)])"
    using new by (simp add: count_hit_def known_window_def Let_def od_set_last)
  show "rg_dedup (snd (count_hit C now key aid s)) = od_trim (rg_dedup_max s) (rg_dedup s @ [((key, aid), ())])"
    using new by (simp add: count_hit_def Let_def od_set_fresh)
  show "rg_max_subjects (snd (count_hit C now key aid s)) = rg_max_subjects s" "rg_dedup_max (snd (count_hit C now key aid s)) = rg_dedup_max s"
    "map_option snd (fst (count_hit C now key aid s)) = Some (window_trips C ?counted)"
    using new by (simp_all add: count_hit_def known_window_def Let_def)
qed

lemma count_hit_inv: "rate_inv s \<Longrightarrow> rate_inv (snd (count_hit C now key aid s))"
proof (cases "(key, aid) \<in> fst ` set (rg_dedup s)")
  case False
  assume inv: "rate_inv s"
  show ?thesis using inv False unfolding rate_inv_def count_hit_tables [OF inv False]
    by (auto simp: od_simps)
qed (simp add: count_hit_dup)

lemma rate_handle_inv: "rate_inv s \<Longrightarrow> rate_inv (snd (rate_handle L h C E msg s))"
proof (cases "counted_hit L h E msg s")
  case None
  assume inv: "rate_inv s"
  have "rate_inv (s\<lparr>rg_windows := od_del k (rg_windows s)\<rparr>)" for k
    using inv length_od_del_le [of k "rg_windows s"] by (auto simp: rate_inv_def)
  then show ?thesis using rate_handle_quiet [OF None, of C] inv rate_inv_same by blast
next
  case (Some hit)
  assume inv: "rate_inv s"
  obtain key aid t where hit: "hit = (key, aid, t)" by (cases hit)
  show ?thesis using rate_inv_same [OF rate_handle_counts count_hit_inv [OF inv]] Some by (simp add: hit)
qed

lemma rate_handle_caps:
  "rg_max_subjects (snd (rate_handle L h C E msg s)) = rg_max_subjects s" "rg_dedup_max (snd (rate_handle L h C E msg s)) = rg_dedup_max s"
proof -
  have "rg_max_subjects (snd (rate_handle L h C E msg s)) = rg_max_subjects s \<and> rg_dedup_max (snd (rate_handle L h C E msg s)) = rg_dedup_max s"
  proof (cases "counted_hit L h E msg s")
    case None
    then show ?thesis using rate_handle_quiet [OF None, of C] by (auto simp: same_tables_def)
  next
    case (Some hit)
    obtain key aid t where hit: "hit = (key, aid, t)" by (cases hit)
    have "rg_max_subjects (snd (count_hit C t key aid s)) = rg_max_subjects s \<and> rg_dedup_max (snd (count_hit C t key aid s)) = rg_dedup_max s"
      by (simp add: count_hit_def Let_def)
    then show ?thesis using rate_handle_counts Some unfolding hit same_tables_def by metis
  qed
  then show "rg_max_subjects (snd (rate_handle L h C E msg s)) = rg_max_subjects s" "rg_dedup_max (snd (rate_handle L h C E msg s)) = rg_dedup_max s"
    by simp_all
qed

abbreviation rate_step :: "pylib \<Rightarrow> (string \<Rightarrow> string) \<Rightarrow> rate_config \<Rightarrow> rate_agent \<Rightarrow> rate_env \<times> message \<Rightarrow> rate_agent" where
  "rate_step L h C s i \<equiv> snd (rate_handle L h C (fst i) (snd i) s)"

interpretation rate_subjects: bounded_table "rate_step L h C" rate_inv subject_count rg_max_subjects for L h C
  by unfold_locales (simp_all add: rate_handle_inv rate_handle_caps subject_count_def, simp add: rate_inv_def)

interpretation rate_ids: bounded_table "rate_step L h C" rate_inv "\<lambda>s. length (rg_dedup s)" rg_dedup_max for L h C
  by unfold_locales (simp_all add: rate_handle_inv rate_handle_caps, simp add: rate_inv_def)

lemma rate_agent_init_inv: "rate_inv (rate_agent_init deb m d e)"
  by (simp add: rate_agent_init_def rate_inv_def less_max_iff_disj)

text \<open>
  A spray of subjects cannot exhaust the agent. Over any sequence of messages the subject windows stay within \<open>sec_rate_max_subjects\<close>
  and the remembered alert ids within \<open>sec_burst_dedup_window\<close> (each at least one).
\<close>

lemma rate_tables_bounded:
  "subject_count (foldl (rate_step L h C) (rate_agent_init deb m d e) inputs) \<le> nat (max 1 m) \<and>
   length (rg_dedup (foldl (rate_step L h C) (rate_agent_init deb m d e) inputs)) \<le> nat (max 1 d)"
  using rate_subjects.bounded_run [OF rate_agent_init_inv, of L h C deb m d e inputs]
    rate_ids.bounded_run [OF rate_agent_init_inv, of L h C deb m d e inputs]
  by (simp add: rate_agent_init_def)

section \<open>Which messages add to the denylist\<close>

definition adds :: "emission \<Rightarrow> bool" where
  "adds x \<longleftrightarrow> em_topic x = sec_denylist_topic \<and> map_of (em_payload x) ''action'' = Some (JStr ''add'')"

lemma rate_topics_differ: "sec_alert_topic \<noteq> sec_denylist_topic" "sec_alert_topic \<noteq> maint_event_topic"
  by (simp_all add: sec_alert_topic_def sec_denylist_topic_def maint_event_topic_def)

lemma alert_adds_not: "fst (maybe_alert L h E n kind sev subject reason s) = Inr out \<Longrightarrow> x \<in> set out \<Longrightarrow> \<not> adds x"
  by (auto simp: maybe_alert_def rate_alert_def adds_def rate_topics_differ Let_def split_beta res_bind_Inr_iff split: if_splits)

lemma churn_adds_not: "fst (churn_alert L h C E rate s) = Inr out \<Longrightarrow> x \<in> set out \<Longrightarrow> \<not> adds x"
  using alert_adds_not by (fastforce simp: churn_alert_def split: if_splits)

lemma and_then_Inr:
  "fst (and_then r f) = Inr out \<longleftrightarrow> (\<exists>a b. fst r = Inr a \<and> fst (f (snd r)) = Inr b \<and> out = a @ b)"
  by (auto simp: and_then_def split: prod.splits sum.splits)

lemma denylist_message_Inr:
  "denylist_message E n action subject reason ttl = Inr out \<Longrightarrow> x \<in> set out \<Longrightarrow>
    em_topic x = sec_denylist_topic \<and> map_of (em_payload x) ''action'' = Some (JStr action) \<and> map_of (em_payload x) ''subject'' = Some subject \<and>
    map_of (em_payload x) ''ttl_s'' = Some (JInt ttl)"
  by (auto simp: denylist_message_def require_Inr_iff)

lemma trip_adds: "fst (rate_trip L h C E subject trigger s) = Inr out \<Longrightarrow> x \<in> set out \<Longrightarrow> adds x \<Longrightarrow>
    map_of (em_payload x) ''subject'' = Some subject \<and> map_of (em_payload x) ''ttl_s'' = Some (JInt (max 1 (rg_denylist_ttl_s C)))"
  unfolding rate_trip_def Let_def and_then_Inr by (auto dest: alert_adds_not denylist_message_Inr)

lemma remove_adds_not: "denylist_message E n ''remove'' subject reason ttl = Inr out \<Longrightarrow> x \<in> set out \<Longrightarrow> \<not> adds x"
  using denylist_message_Inr by (fastforce simp: adds_def)

lemma maint_adds_not: "fst (handle_maint L h E payload s) = Inr out \<Longrightarrow> x \<in> set out \<Longrightarrow> \<not> adds x"
  unfolding handle_maint_def Let_def
  by (auto simp: and_then_Inr split: sum.splits if_splits dest: alert_adds_not remove_adds_not)

definition alert_subject :: "(string \<Rightarrow> string) \<Rightarrow> pylib \<Rightarrow> message \<Rightarrow> jval" where
  "alert_subject h L msg = (case sec_alert_from_dict h L (msg_payload msg) of Inl e \<Rightarrow> JNull | Inr a \<Rightarrow> rate_subject a)"

lemma handle_adds:
  assumes "fst (rate_handle L h C E msg s) = Inr out" "x \<in> set out" "adds x"
  shows "\<exists>aid. counted_hit L h E msg s = Some (key_value (alert_subject h L msg), aid, ev_mono E) \<and>
    map_option snd (fst (count_hit C (ev_mono E) (key_value (alert_subject h L msg)) aid s)) = Some True \<and>
    map_of (em_payload x) ''subject'' = Some (alert_subject h L msg)"
proof -
  have topic: "en_topic (msg_envelope msg) = sec_alert_topic"
    using assms maint_adds_not by (fastforce simp: rate_handle_def Let_def split: if_splits)
  then have out: "fst (handle_alert L h C E (msg_payload msg) s) = Inr out" using assms(1) by (simp add: rate_handle_def)
  then obtain a where a: "sec_alert_from_dict h L (msg_payload msg) = Inr a" "sa_source a \<noteq> rate_name" "sa_kind a \<in> set burst_trigger_kinds"
    "py_bool (rate_subject a)" "hashable (rate_subject a)"
    using assms(2) by (fastforce simp: handle_alert_def Let_def split: sum.splits if_splits)
  have sub: "alert_subject h L msg = rate_subject a" by (simp add: alert_subject_def a(1))
  obtain r s1 where c: "count_hit C (ev_mono E) (key_value (rate_subject a)) (sa_alert_id a) s = (r, s1)" by force
  show ?thesis
  proof (cases r)
    case None
    then show ?thesis using out assms(2) a c by (simp add: handle_alert_def Let_def)
  next
    case (Some v)
    obtain rate tripped where v: "v = (rate, tripped)" by force
    have new: "(key_value (rate_subject a), sa_alert_id a) \<notin> fst ` set (rg_dedup s)"
    proof
      assume "(key_value (rate_subject a), sa_alert_id a) \<in> fst ` set (rg_dedup s)"
      from count_hit_dup [OF this] show False using c Some by simp
    qed
    obtain churn trip where "fst (churn_alert L h C E rate s1) = Inr churn" "out = churn @ trip"
      "\<exists>s2. fst (if tripped then rate_trip L h C E (rate_subject a) (sa_kind a) s2 else (Inr [], s2)) = Inr trip"
      using out a c by (auto simp: handle_alert_def Let_def Some v and_then_Inr)
    then have "tripped \<and> map_of (em_payload x) ''subject'' = Some (rate_subject a)"
      using assms(2,3) churn_adds_not trip_adds by (fastforce split: if_splits)
    then show ?thesis using topic a c new by (auto simp: counted_hit_def sub Some v)
  qed
qed

section \<open>The history behind the windows\<close>

fun rate_history :: "pylib \<Rightarrow> (string \<Rightarrow> string) \<Rightarrow> rate_config \<Rightarrow> (rate_env \<times> message) list \<Rightarrow> rate_agent \<Rightarrow> hit list \<times> rate_agent" where
  "rate_history L h C [] s = ([], s)"
| "rate_history L h C ((E, msg) # inputs) s =
     (let (H, s') = rate_history L h C inputs (snd (rate_handle L h C E msg s)) in
      ((case counted_hit L h E msg s of None \<Rightarrow> [] | Some x \<Rightarrow> [x]) @ H, s'))"

definition hits_of :: "jval \<Rightarrow> hit list \<Rightarrow> real list" where
  "hits_of key H = map (\<lambda>(k, a, t). t) (filter (\<lambda>(k, a, t). k = key) H)"

definition pairs_of :: "hit list \<Rightarrow> (jval \<times> string) list" where
  "pairs_of H = map (\<lambda>(k, a, t). (k, a)) H"

lemma hits_of_append [simp]: "hits_of key (H @ H') = hits_of key H @ hits_of key H'"
  by (simp add: hits_of_def)

lemma pairs_of_append [simp]: "pairs_of (H @ H') = pairs_of H @ pairs_of H'"
  by (simp add: pairs_of_def)

lemma hits_of_one [simp]: "hits_of key [(k, a, t)] = (if k = key then [t] else [])"
  by (simp add: hits_of_def)

lemma pairs_of_one [simp]: "pairs_of [(k, a, t)] = [(k, a)]" "pairs_of [] = []" "length (pairs_of H) = length H"
  by (simp_all add: pairs_of_def)

definition history_ok :: "hit list \<Rightarrow> rate_agent \<Rightarrow> bool" where
  "history_ok H s \<longleftrightarrow>
     (\<forall>(key, w) \<in> set (rg_windows s). suffix (sw_hits w) (hits_of key H)) \<and>
     od_keys (rg_dedup s) = drop (length H - rg_dedup_max s) (pairs_of H)"

lemma history_ok_same: "same_tables s s' \<Longrightarrow> history_ok H s \<Longrightarrow> history_ok H s'"
  by (simp add: same_tables_def history_ok_def)

lemma history_ok_clear: "history_ok H s \<Longrightarrow> history_ok H (s\<lparr>rg_windows := od_del k (rg_windows s)\<rparr>)"
  by (auto simp: history_ok_def od_del_def)

lemma add_hit_suffix: "suffix (sw_hits w) ts \<Longrightarrow> suffix (sw_hits (add_hit C now w)) (ts @ [now])"
proof -
  assume "suffix (sw_hits w) ts"
  then have "suffix (sw_hits (expire_listing C now w) @ [now]) (ts @ [now])"
    by (simp add: expire_listing_def split: option.split)
  moreover have "sw_hits (add_hit C now w) =
      dropWhile (\<lambda>t. t < now - real_of_int (max 1 (rg_burst_window_ms C)) / 1000) (sw_hits (expire_listing C now w) @ [now])"
    by (simp add: add_hit_def Let_def)
  ultimately show ?thesis using suffix_order.trans [OF suffix_dropWhile] by metis
qed

lemma known_window_suffix: "history_ok H s \<Longrightarrow> suffix (sw_hits (known_window key s)) (hits_of key H)"
  by (auto simp: known_window_def history_ok_def empty_window_def split: option.split dest: map_of_SomeD)

lemma mark_listed_hits [simp]: "sw_hits (mark_listed C now w) = sw_hits w"
  by (simp add: mark_listed_def)

lemma recent_keys:
  assumes "od_keys d = drop (length ps - m) ps" "0 < m"
  shows "od_keys (od_trim m (d @ [(x, ())])) = drop (Suc (length ps) - m) (ps @ [x])"
proof -
  have "length d = length (drop (length ps - m) ps)" by (metis assms(1) length_map)
  then have "length d = min (length ps) m" by simp
  moreover have "od_keys (od_trim m (d @ [(x, ())])) = drop (Suc (length d) - m) (drop (length ps - m) ps @ [x])"
    using drop_map [of "Suc (length d) - m" fst "d @ [(x, ())]"] assms(1)
    by (simp only: od_trim_drop length_append list.size map_append list.map fst_conv add_Suc_right add_0_right)
  ultimately show ?thesis using assms(2) by (cases "length ps < m") (auto simp: Suc_diff_le)
qed

lemma history_ok_count:
  assumes ok: "history_ok H s" and inv: "rate_inv s" and new: "(key, aid) \<notin> fst ` set (rg_dedup s)"
  shows "history_ok (H @ [(key, aid, now)]) (snd (count_hit C now key aid s))"
proof -
  let ?w = "mark_listed C now (add_hit C now (known_window key s))"
  have "suffix (sw_hits v) (hits_of k (H @ [(key, aid, now)]))"
    if "(k, v) \<in> set (od_trim n (od_del key (rg_windows s) @ [(key, ?w)]))" for k v n
  proof -
    have "(k, v) \<in> set (od_del key (rg_windows s)) \<or> (k, v) = (key, ?w)" using that set_od_trim_subset by fastforce
    then show ?thesis
      using ok add_hit_suffix [OF known_window_suffix [OF ok, of key], of C now] by (auto simp: history_ok_def od_del_def)
  qed
  moreover have "od_keys (od_trim (rg_dedup_max s) (rg_dedup s @ [((key, aid), ())])) =
      drop (length (H @ [(key, aid, now)]) - rg_dedup_max s) (pairs_of (H @ [(key, aid, now)]))"
    using recent_keys [of "rg_dedup s" "pairs_of H" "rg_dedup_max s" "(key, aid)"] ok inv by (simp add: history_ok_def rate_inv_def)
  ultimately show ?thesis unfolding history_ok_def count_hit_tables [OF inv new] by blast
qed

lemma history_ok_run:
  assumes "rate_inv s" "history_ok H0 s" "rate_history L h C inputs s = (H, s')"
  shows "rate_inv s' \<and> history_ok (H0 @ H) s' \<and> rg_dedup_max s' = rg_dedup_max s"
  using assms
proof (induction inputs arbitrary: s H0 H)
  case Nil
  then show ?case by simp
next
  case (Cons i inputs)
  obtain E msg where i: "i = (E, msg)" by force
  let ?t = "snd (rate_handle L h C E msg s)"
  obtain H1 where H1: "rate_history L h C inputs ?t = (H1, s')" "H = (case counted_hit L h E msg s of None \<Rightarrow> [] | Some x \<Rightarrow> [x]) @ H1"
    using Cons.prems(3) by (auto simp: i split: prod.splits)
  have "history_ok (H0 @ (case counted_hit L h E msg s of None \<Rightarrow> [] | Some x \<Rightarrow> [x])) ?t"
  proof (cases "counted_hit L h E msg s")
    case None
    then show ?thesis using rate_handle_quiet [OF None, of C] Cons.prems(2) history_ok_clear history_ok_same by fastforce
  next
    case (Some x)
    obtain key aid t where x: "x = (key, aid, t)" by (cases x)
    have "(key, aid) \<notin> fst ` set (rg_dedup s)" using Some by (auto simp: x counted_hit_def split: if_splits sum.splits)
    then show ?thesis
      using history_ok_same [OF rate_handle_counts history_ok_count [OF Cons.prems(2,1)]] Some by (simp add: x)
  qed
  from Cons.IH [OF rate_handle_inv [OF Cons.prems(1)] this H1(1)] show ?case by (simp add: H1(2) rate_handle_caps)
qed

lemma history_times:
  "rate_history L h C inputs s = (H, s') \<Longrightarrow> sorted (map (\<lambda>i. ev_mono (fst i)) inputs @ [u]) \<Longrightarrow>
    sorted (map (\<lambda>(k, a, t). t) H @ [u]) \<and> set (map (\<lambda>(k, a, t). t) H) \<subseteq> set (map (\<lambda>i. ev_mono (fst i)) inputs)"
proof (induction inputs arbitrary: s H)
  case Nil
  then show ?case by simp
next
  case (Cons i inputs)
  obtain E msg where i: "i = (E, msg)" by force
  obtain H1 where H1: "rate_history L h C inputs (snd (rate_handle L h C E msg s)) = (H1, s')"
    "H = (case counted_hit L h E msg s of None \<Rightarrow> [] | Some x \<Rightarrow> [x]) @ H1"
    using Cons.prems(1) by (auto simp: i split: prod.splits)
  have IH: "sorted (map (\<lambda>(k, a, t). t) H1 @ [u])" "set (map (\<lambda>(k, a, t). t) H1) \<subseteq> set (map (\<lambda>i. ev_mono (fst i)) inputs)"
    using Cons.IH [OF H1(1)] Cons.prems(2) by (simp_all add: i)
  have le: "\<forall>t \<in> set (map (\<lambda>(k, a, t). t) H1 @ [u]). ev_mono E \<le> t" using Cons.prems(2) IH(2) by (auto simp: i)
  show ?case
  proof (cases "counted_hit L h E msg s")
    case None
    then show ?thesis using IH by (auto simp: H1(2))
  next
    case (Some x)
    obtain k a t where x: "x = (k, a, t)" by (cases x)
    then have "t = ev_mono E" using Some by (auto simp: counted_hit_def split: if_splits sum.splits)
    then show ?thesis using IH le Some by (auto simp: H1(2) x i)
  qed
qed

lemma window_filter_length:
  fixes xs ys :: "real list"
  assumes "suffix xs ys" "sorted ys"
  shows "length (dropWhile (\<lambda>t. t < c) xs) \<le> length (filter (\<lambda>t. c \<le> t) ys)"
proof -
  obtain zs where ys: "ys = zs @ xs" using assms(1) by (auto simp: suffix_def)
  then have "dropWhile (\<lambda>t. t < c) xs = filter (\<lambda>t. c \<le> t) xs"
    using dropWhile_sorted_filter [of "\<lambda>t. t" xs c] assms(2) by (simp add: sorted_append)
  then show ?thesis by (simp add: ys)
qed

text \<open>The hits of one subject that are not older than the burst window.\<close>

definition burst_of :: "rate_config \<Rightarrow> jval \<Rightarrow> real \<Rightarrow> hit list \<Rightarrow> hit list" where
  "burst_of C key now H = filter (\<lambda>(k, a, t). k = key \<and> now - real_of_int (max 1 (rg_burst_window_ms C)) / 1000 \<le> t) H"

lemma burst_length: "length (burst_of C key now H) =
    length (filter (\<lambda>t. now - real_of_int (max 1 (rg_burst_window_ms C)) / 1000 \<le> t) (hits_of key H))"
  unfolding burst_of_def hits_of_def by (induction H) auto

lemma burst_ids: "distinct (pairs_of H) \<Longrightarrow> distinct (map (\<lambda>(k, a, t). a) (burst_of C key now H))"
proof (induction H)
  case (Cons x H)
  obtain k a t where x: "x = (k, a, t)" by (cases x)
  have "(k, a) \<notin> set (pairs_of H)" using Cons.prems by (simp add: x pairs_of_def)
  then have "k = key \<Longrightarrow> a \<notin> set (map (\<lambda>(k, a, t). a) (burst_of C key now H))" by (force simp: pairs_of_def burst_of_def)
  then show ?case using Cons by (auto simp: x burst_of_def pairs_of_def)
qed (simp add: burst_of_def)

lemma trip_burst:
  assumes ok: "history_ok H s" and srt: "sorted (map (\<lambda>(k, a, t). t) H @ [now])" and trips: "window_trips C (add_hit C now (known_window key s))"
  shows "max 1 (rg_burst_threshold C) \<le> int (length (burst_of C key now (H @ [(key, aid, now)])))"
proof -
  let ?c = "now - real_of_int (max 1 (rg_burst_window_ms C)) / 1000"
  let ?w = "expire_listing C now (known_window key s)"
  have "suffix (sw_hits ?w @ [now]) (hits_of key H @ [now])"
    using known_window_suffix [OF ok, of key] by (simp add: expire_listing_def split: option.split)
  moreover have "sorted (hits_of key H @ [now])"
    using srt unfolding hits_of_def by (auto simp: sorted_append intro: sorted_filter)
  ultimately have "length (sw_hits (add_hit C now (known_window key s))) \<le> length (filter (\<lambda>t. ?c \<le> t) (hits_of key H @ [now]))"
    using window_filter_length [of "sw_hits ?w @ [now]" "hits_of key H @ [now]" ?c] by (simp add: add_hit_def Let_def)
  then show ?thesis using trips unfolding burst_length by (simp add: window_trips_def)
qed

lemma history_ids_distinct:
  assumes "history_ok H s" "rate_inv s" "(key, aid) \<notin> fst ` set (rg_dedup s)" "length H < rg_dedup_max s"
  shows "distinct (pairs_of (H @ [(key, aid, now)]))"
proof -
  have keys: "od_keys (rg_dedup s) = pairs_of H" using assms(1,4) by (simp add: history_ok_def)
  then have "distinct (pairs_of H)" using assms(2) by (simp add: rate_inv_def od_wf_def)
  moreover have "(key, aid) \<notin> set (pairs_of H)" using assms(3) keys by (metis list.set_map)
  ultimately show ?thesis by simp
qed

text \<open>
  C17: nobody is denylisted without a burst. Whatever messages came before, an addition to the denylist names the subject of the alert
  in hand, and at least the threshold of alerts of that subject were counted within the burst window; as long as no more alerts were
  counted than the agent remembers, those alerts are pairwise different.
\<close>

theorem additions_justified:
  assumes "rate_history L h C inputs (rate_agent_init deb m d e) = (H, s)"
    and "sorted (map (\<lambda>i. ev_mono (fst i)) inputs @ [ev_mono E])"
    and "fst (rate_handle L h C E msg s) = Inr out" "x \<in> set out" "adds x"
  shows "\<exists>subject aid. map_of (em_payload x) ''subject'' = Some subject \<and> counted_hit L h E msg s = Some (key_value subject, aid, ev_mono E) \<and>
    (let burst = burst_of C (key_value subject) (ev_mono E) (H @ [(key_value subject, aid, ev_mono E)]) in
     max 1 (rg_burst_threshold C) \<le> int (length burst) \<and> (int (length H) < max 1 d \<longrightarrow> distinct (map (\<lambda>(k, a, t). a) burst)))"
proof -
  let ?s0 = "rate_agent_init deb m d e" and ?sub = "alert_subject h L msg"
  have "history_ok [] ?s0" by (simp add: history_ok_def rate_agent_init_def)
  from history_ok_run [OF rate_agent_init_inv this assms(1)] have s: "rate_inv s" "history_ok H s" "rg_dedup_max s = nat (max 1 d)"
    by (simp_all add: rate_agent_init_def)
  obtain aid where aid: "counted_hit L h E msg s = Some (key_value ?sub, aid, ev_mono E)"
    "map_option snd (fst (count_hit C (ev_mono E) (key_value ?sub) aid s)) = Some True" "map_of (em_payload x) ''subject'' = Some ?sub"
    using handle_adds [OF assms(3-5)] by blast
  have new: "(key_value ?sub, aid) \<notin> fst ` set (rg_dedup s)" using aid(1) by (auto simp: counted_hit_def split: if_splits sum.splits)
  let ?burst = "burst_of C (key_value ?sub) (ev_mono E) (H @ [(key_value ?sub, aid, ev_mono E)])"
  have "max 1 (rg_burst_threshold C) \<le> int (length ?burst)"
    using trip_burst [OF s(2)] history_times [OF assms(1,2)] aid(2) count_hit_tables(5) [OF s(1) new] by simp
  moreover have "distinct (map (\<lambda>(k, a, t). a) ?burst)" if "int (length H) < max 1 d"
  proof -
    have "distinct (pairs_of (H @ [(key_value ?sub, aid, ev_mono E)]))" using history_ids_distinct [OF s(2,1) new] that s(3) by simp
    then show ?thesis by (rule burst_ids)
  qed
  ultimately show ?thesis using aid(1,3) by (auto simp: Let_def)
qed

section \<open>A burst is listed\<close>

lemma rate_kinds_checked:
  assumes "kind \<in> {''rate_burst'', ''denylist_added'', ''subject_map_churn'', ''denylist_removed'', ''denylist_growth_anomaly''}"
    and "severity \<in> {''info'', ''warn'', ''error'', ''critical''}"
  shows "\<exists>x. rate_alert h E n kind severity subject reason = Inr [x]"
proof -
  have "open_enum_kind kind" using assms(1) by (auto simp: open_enum_kind_def kind_word_def kind_char_def Let_def)
  moreover have "severity \<in> set allowed_sec_severities" using assms(2) by (auto simp: allowed_sec_severities_def)
  moreover have "rate_name \<in> set sec_alert_producers" "kind_allowed rate_name kind" "kind \<noteq> []"
    using assms(1) by (auto simp: rate_name_def sec_alert_producers_def kind_allowed_def sec_alert_kinds_by_producer_def)
  ultimately show ?thesis by (simp add: rate_alert_def sec_alert_check_def require_def)
qed

lemma maybe_alert_Inr:
  assumes "kind \<in> {''rate_burst'', ''denylist_added'', ''subject_map_churn'', ''denylist_removed'', ''denylist_growth_anomaly''}"
    and "severity \<in> {''info'', ''warn'', ''error'', ''critical''}"
  shows "\<exists>out. fst (maybe_alert L h E n kind severity subject reason s) = Inr out"
proof -
  have "\<exists>out. rate_alert h E n kind severity subject r = Inr out" for r using rate_kinds_checked [OF assms] by blast
  then show ?thesis by (simp add: maybe_alert_def Let_def split_beta)
qed

lemma churn_alert_Inr: "\<exists>out. fst (churn_alert L h C E rate s) = Inr out"
proof -
  have "\<exists>out. fst (maybe_alert L h E 0 ''subject_map_churn'' ''warn'' (JStr ''*'') reason s) = Inr out" for reason
    by (rule maybe_alert_Inr) simp_all
  then show ?thesis by (simp add: churn_alert_def)
qed

text \<open>An output that adds to the denylist once: the subject, for the configured time.\<close>

definition listing :: "rate_config \<Rightarrow> jval \<Rightarrow> emission list \<Rightarrow> bool" where
  "listing C subject out \<longleftrightarrow> (\<exists>x. filter adds out = [x] \<and> map_of (em_payload x) ''subject'' = Some subject \<and>
     map_of (em_payload x) ''ttl_s'' = Some (JInt (max 1 (rg_denylist_ttl_s C))))"

lemma adds_none: "(\<And>x. x \<in> set out \<Longrightarrow> \<not> adds x) \<Longrightarrow> filter adds out = []"
  by (simp add: filter_empty_conv)

lemma rate_trip_lists:
  assumes "py_bool subject"
  shows "\<exists>out. fst (rate_trip L h C E subject trigger s) = Inr out \<and> listing C subject out"
proof -
  obtain x where x: "denylist_message E 2 ''add'' subject ''rate_burst'' (max 1 (rg_denylist_ttl_s C)) = Inr [x]" "adds x"
    using assms by (simp add: denylist_message_def require_def adds_def)
  let ?alert = "maybe_alert L h E 1 ''rate_burst'' ''error'' subject
      (''burst threshold '' @ show_int (rg_burst_threshold C) @ '' hits in '' @ show_int (rg_burst_window_ms C) @ ''ms (trigger='' @ trigger @ '')'') s"
  let ?added = "maybe_alert L h E 3 ''denylist_added'' ''warn'' subject (''ttl_s='' @ show_int (max 1 (rg_denylist_ttl_s C))) (snd ?alert)"
  obtain a where a: "fst ?alert = Inr a" using maybe_alert_Inr by blast
  obtain b where b: "fst ?added = Inr b" using maybe_alert_Inr by blast
  have "filter adds a = []" "filter adds b = []" using alert_adds_not [OF a] alert_adds_not [OF b] by (blast intro: adds_none)+
  then have "filter adds (a @ [x] @ b) = [x]" using x(2) by simp
  moreover have "fst (rate_trip L h C E subject trigger s) = Inr (a @ [x] @ b)"
    using a b x(1) unfolding rate_trip_def Let_def by (auto simp: and_then_Inr)
  ultimately show ?thesis using denylist_message_Inr [OF x(1), of x] by (auto simp: listing_def)
qed

text \<open>A message that counts for the subject.\<close>

definition abusive :: "pylib \<Rightarrow> (string \<Rightarrow> string) \<Rightarrow> jval \<Rightarrow> string \<Rightarrow> message \<Rightarrow> bool" where
  "abusive L hexdigest subject aid msg \<longleftrightarrow> en_topic (msg_envelope msg) = sec_alert_topic \<and>
     (\<exists>a. sec_alert_from_dict hexdigest L (msg_payload msg) = Inr a \<and> sa_source a \<noteq> rate_name \<and> sa_kind a \<in> set burst_trigger_kinds \<and>
        rate_subject a = subject \<and> sa_alert_id a = aid)"

lemma abusive_step:
  assumes ab: "abusive L h subject aid msg" and sub: "py_bool subject" "hashable subject" and inv: "rate_inv s"
    and new: "(key_value subject, aid) \<notin> fst ` set (rg_dedup s)"
    and w: "sw_denylisted_at (known_window (key_value subject) s) = None"
    and young: "\<forall>t \<in> set (sw_hits (known_window (key_value subject) s)). ev_mono E - real_of_int (max 1 (rg_burst_window_ms C)) / 1000 \<le> t"
  shows "sw_hits (known_window (key_value subject) (snd (rate_handle L h C E msg s))) = sw_hits (known_window (key_value subject) s) @ [ev_mono E]"
    "rate_inv (snd (rate_handle L h C E msg s))"
    "fst ` set (rg_dedup (snd (rate_handle L h C E msg s))) \<subseteq> insert (key_value subject, aid) (fst ` set (rg_dedup s))"
    "max 1 (rg_burst_threshold C) > int (Suc (length (sw_hits (known_window (key_value subject) s)))) \<Longrightarrow>
      sw_denylisted_at (known_window (key_value subject) (snd (rate_handle L h C E msg s))) = None"
    "\<exists>out. fst (rate_handle L h C E msg s) = Inr out \<and>
      (if max 1 (rg_burst_threshold C) \<le> int (Suc (length (sw_hits (known_window (key_value subject) s)))) then listing C subject out
         else filter adds out = [])"
proof -
  let ?key = "key_value subject" and ?now = "ev_mono E"
  let ?w = "known_window ?key s" and ?c = "\<lambda>t. t < ?now - real_of_int (max 1 (rg_burst_window_ms C)) / 1000"
  have counted: "counted_hit L h E msg s = Some (?key, aid, ?now)"
    using ab sub new by (auto simp: abusive_def counted_hit_def)
  have same: "same_tables (snd (count_hit C ?now ?key aid s)) (snd (rate_handle L h C E msg s))" by (rule rate_handle_counts [OF counted])
  have hits: "sw_hits (add_hit C ?now ?w) = sw_hits ?w @ [?now]" "sw_denylisted_at (add_hit C ?now ?w) = None"
  proof -
    have "dropWhile ?c (sw_hits ?w @ [?now]) = sw_hits ?w @ [?now]"
      using young by (cases "sw_hits ?w") auto
    then show "sw_hits (add_hit C ?now ?w) = sw_hits ?w @ [?now]" using w by (simp add: add_hit_def expire_listing_def Let_def)
    show "sw_denylisted_at (add_hit C ?now ?w) = None" using w by (simp add: add_hit_def expire_listing_def Let_def)
  qed
  have trips: "window_trips C (add_hit C ?now ?w) \<longleftrightarrow> max 1 (rg_burst_threshold C) \<le> int (Suc (length (sw_hits ?w)))"
    using hits by (simp add: window_trips_def)
  have tab: "rg_windows (snd (rate_handle L h C E msg s)) =
      od_trim (rg_max_subjects s - 1) (od_del ?key (rg_windows s)) @ [(?key, mark_listed C ?now (add_hit C ?now ?w))]"
    using same count_hit_tables(1) [OF inv new] inv by (simp add: same_tables_def rate_inv_def od_trim_snoc)
  have "?key \<notin> fst ` set (od_trim n (od_del ?key (rg_windows s)))" for n
    using set_od_trim_subset [of n "od_del ?key (rg_windows s)"] by (auto simp: od_del_def)
  then have now_known: "known_window ?key (snd (rate_handle L h C E msg s)) = mark_listed C ?now (add_hit C ?now ?w)"
    by (simp add: known_window_def tab map_add_def flip: map_of_None_keys)
  show "sw_hits (known_window ?key (snd (rate_handle L h C E msg s))) = sw_hits ?w @ [?now]" using now_known hits(1) by simp
  show "rate_inv (snd (rate_handle L h C E msg s))" by (rule rate_handle_inv [OF inv])
  show "fst ` set (rg_dedup (snd (rate_handle L h C E msg s))) \<subseteq> insert (?key, aid) (fst ` set (rg_dedup s))"
    using same count_hit_tables(2) [OF inv new, of C ?now] set_od_trim_subset by (fastforce simp: same_tables_def)
  show "sw_denylisted_at (known_window ?key (snd (rate_handle L h C E msg s))) = None"
    if "max 1 (rg_burst_threshold C) > int (Suc (length (sw_hits ?w)))"
    using that trips hits(2) by (simp add: now_known mark_listed_def)
  show "\<exists>out. fst (rate_handle L h C E msg s) = Inr out \<and> 
      (if max 1 (rg_burst_threshold C) \<le> int (Suc (length (sw_hits ?w))) then listing C subject out else filter adds out = [])"
  proof -
    obtain a where a: "en_topic (msg_envelope msg) = sec_alert_topic" "sec_alert_from_dict h L (msg_payload msg) = Inr a" "sa_source a \<noteq> rate_name"
      "sa_kind a \<in> set burst_trigger_kinds" "rate_subject a = subject" "sa_alert_id a = aid" using ab by (auto simp: abusive_def)
    obtain rate s1 where c: "count_hit C ?now ?key aid s = (Some (rate, window_trips C (add_hit C ?now ?w)), s1)"
      using count_hit_tables(5) [OF inv new, of C ?now] by (cases "count_hit C ?now ?key aid s") auto
    obtain churn where churn: "fst (churn_alert L h C E rate s1) = Inr churn"
      using churn_alert_Inr by blast
    obtain out where out: "fst (rate_trip L h C E subject (sa_kind a) (snd (churn_alert L h C E rate s1))) = Inr out" "listing C subject out"
      using rate_trip_lists [OF sub(1)] by blast
    have "fst (rate_handle L h C E msg s) = Inr (churn @ (if window_trips C (add_hit C ?now ?w) then out else []))"
      using a c churn sub out(1) by (auto simp: rate_handle_def handle_alert_def Let_def and_then_Inr)
    moreover have "filter adds churn = []" using churn_adds_not [OF churn] by (blast intro: adds_none)
    ultimately show ?thesis using out(2) trips by (simp add: listing_def)
  qed
qed

fun rate_outputs :: "pylib \<Rightarrow> (string \<Rightarrow> string) \<Rightarrow> rate_config \<Rightarrow> (rate_env \<times> message) list \<Rightarrow> rate_agent \<Rightarrow> emission list res list" where
  "rate_outputs L h C [] s = []"
| "rate_outputs L h C ((E, msg) # inputs) s = fst (rate_handle L h C E msg s) # rate_outputs L h C inputs (snd (rate_handle L h C E msg s))"

text \<open>Alerts of one subject, with different ids that the agent has not seen, in time order and within one burst window.\<close>

definition burst_alerts :: "pylib \<Rightarrow> (string \<Rightarrow> string) \<Rightarrow> rate_config \<Rightarrow> jval \<Rightarrow> (string \<times> rate_env \<times> message) list \<Rightarrow> bool" where
  "burst_alerts L h C subject alerts \<longleftrightarrow> (\<forall>(aid, E, msg) \<in> set alerts. abusive L h subject aid msg) \<and> distinct (map fst alerts) \<and>
     sorted (map (\<lambda>(aid, E, msg). ev_mono E) alerts) \<and>
     (\<forall>(a1, E1, m1) \<in> set alerts. \<forall>(a2, E2, m2) \<in> set alerts. ev_mono E2 - ev_mono E1 \<le> real_of_int (max 1 (rg_burst_window_ms C)) / 1000)"

lemma burst_run:
  assumes "burst_alerts L h C subject alerts" "py_bool subject" "hashable subject" "rate_inv s"
    and "\<forall>(aid, E, msg) \<in> set alerts. (key_value subject, aid) \<notin> fst ` set (rg_dedup s)"
    and "alerts \<noteq> [] \<Longrightarrow> sw_denylisted_at (known_window (key_value subject) s) = None"
    and "\<forall>t \<in> set (sw_hits (known_window (key_value subject) s)). \<forall>(aid, E, msg) \<in> set alerts. ev_mono E - real_of_int (max 1 (rg_burst_window_ms C)) / 1000 \<le> t"
    and "int (length (sw_hits (known_window (key_value subject) s)) + length alerts) \<le> max 1 (rg_burst_threshold C)"
    and "i < length alerts"
  shows "\<exists>out. rate_outputs L h C (map snd alerts) s ! i = Inr out \<and>
    (if int (length (sw_hits (known_window (key_value subject) s)) + i + 1) = max 1 (rg_burst_threshold C) then listing C subject out
     else filter adds out = [])"
  using assms
proof (induction alerts arbitrary: s i)
  case Nil
  then show ?case by simp
next
  case (Cons p alerts)
  obtain aid E msg where p: "p = (aid, E, msg)" by (cases p)
  let ?hits = "sw_hits (known_window (key_value subject) s)" and ?t = "snd (rate_handle L h C E msg s)"
  have ab: "abusive L h subject aid msg" using Cons.prems(1) by (simp add: burst_alerts_def p)
  have new: "(key_value subject, aid) \<notin> fst ` set (rg_dedup s)" using Cons.prems(5) by (simp add: p)
  have young: "\<forall>t \<in> set ?hits. ev_mono E - real_of_int (max 1 (rg_burst_window_ms C)) / 1000 \<le> t" using Cons.prems(7) by (simp add: p)
  have listed: "sw_denylisted_at (known_window (key_value subject) s) = None" using Cons.prems(6) by simp
  note st = abusive_step [OF ab Cons.prems(2,3,4) new listed young]
  show ?case
  proof (cases i)
    case 0
    then show ?thesis using st(5) Cons.prems(8) by (auto simp: p)
  next
    case (Suc j)
    have rest: "burst_alerts L h C subject alerts" using Cons.prems(1) by (auto simp: burst_alerts_def p)
    have fresh: "\<forall>(a, F, m) \<in> set alerts. (key_value subject, a) \<notin> fst ` set (rg_dedup ?t)"
    proof -
      have "a \<noteq> aid \<and> (key_value subject, a) \<notin> fst ` set (rg_dedup s)" if "(a, F, m) \<in> set alerts" for a F m
      proof
        have "aid \<notin> fst ` set alerts" using Cons.prems(1) by (simp add: burst_alerts_def p)
        moreover have "a \<in> fst ` set alerts" using that by (rule image_eqI [rotated]) simp
        ultimately show "a \<noteq> aid" by metis
        show "(key_value subject, a) \<notin> fst ` set (rg_dedup s)" using bspec [OF Cons.prems(5), of "(a, F, m)"] that by simp
      qed
      then show ?thesis using st(3) by blast
    qed
    have quiet: "alerts \<noteq> [] \<Longrightarrow> sw_denylisted_at (known_window (key_value subject) ?t) = None"
      using st(4) Cons.prems(8) by (cases alerts) auto
    have near: "\<forall>t \<in> set (sw_hits (known_window (key_value subject) ?t)). \<forall>(a, F, m) \<in> set alerts. ev_mono F - real_of_int (max 1 (rg_burst_window_ms C)) / 1000 \<le> t"
    proof
      fix t assume "t \<in> set (sw_hits (known_window (key_value subject) ?t))"
      then consider "t \<in> set ?hits" | "t = ev_mono E" using st(1) by auto
      then show "\<forall>(a, F, m) \<in> set alerts. ev_mono F - real_of_int (max 1 (rg_burst_window_ms C)) / 1000 \<le> t"
      proof cases
        case 1
        then show ?thesis using Cons.prems(7) by (auto simp: p)
      next
        case 2
        have "ev_mono F - ev_mono E \<le> real_of_int (max 1 (rg_burst_window_ms C)) / 1000" if "(a, F, m) \<in> set alerts" for a F m
        proof -
          have "\<forall>(a2, E2, m2) \<in> set alerts. ev_mono E2 - ev_mono E \<le> real_of_int (max 1 (rg_burst_window_ms C)) / 1000"
            using Cons.prems(1) by (simp add: burst_alerts_def p)
          from bspec [OF this that] show ?thesis by simp
        qed
        then show ?thesis unfolding 2 by (force simp: algebra_simps)
      qed
    qed
    have "j < length alerts" using Cons.prems(9) Suc by simp
    from Cons.IH [OF rest Cons.prems(2,3) st(2) fresh quiet near _ this] show ?thesis
      using Cons.prems(8) st(1) by (simp add: p Suc)
  qed
qed

text \<open>
  C18: a burst is listed, at once and once. When as many new alerts as the threshold arrive for one subject within the window, and the agent has no
  window for the subject, so no hits and no listing of it, every handler call succeeds: the last one publishes exactly one addition to the denylist, and it names
  this subject and the configured time; no call before it publishes an addition.
\<close>

theorem burst_lists_subject:
  assumes "burst_alerts L h C subject alerts" "int (length alerts) = max 1 (rg_burst_threshold C)"
    and "py_bool subject" "hashable subject" "rate_inv s" "map_of (rg_windows s) (key_value subject) = None"
    and "\<forall>(aid, E, msg) \<in> set alerts. (key_value subject, aid) \<notin> fst ` set (rg_dedup s)" "i < length alerts"
  shows "\<exists>out. rate_outputs L h C (map snd alerts) s ! i = Inr out \<and>
    (if i + 1 = length alerts
     then \<exists>x. filter adds out = [x] \<and> map_of (em_payload x) ''subject'' = Some subject \<and>
       map_of (em_payload x) ''ttl_s'' = Some (JInt (max 1 (rg_denylist_ttl_s C)))
     else filter adds out = [])"
proof -
  have k: "known_window (key_value subject) s = empty_window" by (simp add: known_window_def assms(6))
  show ?thesis using burst_run [OF assms(1,3,4,5,7) _ _ _ assms(8)] assms(2)
    by (simp add: k empty_window_def listing_def [symmetric]) (metis Suc_eq_plus1 of_nat_eq_iff of_nat_Suc)
qed

text \<open>
  The gateway's own alerts do not count: \<open>rate.py:6\<close> names it as the source of \<open>rate_throttled\<close>, but only registered producers decode,
  the gateway is none of them, and an alert under the agent's own name is ignored.
\<close>

lemma unregistered_source_uncounted:
  assumes "en_topic (msg_envelope msg) = sec_alert_topic" "\<And>a. sec_alert_from_dict h L (msg_payload msg) = Inr a \<Longrightarrow> sa_source a \<notin> set sec_alert_producers - {rate_name}"
  shows "counted_hit L h E msg s = None"
proof -
  have "sa_source a \<in> set sec_alert_producers" if "sec_alert_from_dict h L (msg_payload msg) = Inr a" for a
    using sec_alert_decoded [OF that] by (simp add: sec_alert_check_def require_Inr_iff)
  then show ?thesis using assms by (auto simp: counted_hit_def split: sum.splits)
qed

section \<open>Witnesses\<close>

definition rate_lib :: pylib where
  "rate_lib = \<lparr>pl_repr = (\<lambda>_. ''?''), pl_int = (\<lambda>_. None), pl_float = (\<lambda>_. None), pl_dict = (\<lambda>_. Inl ValueError)\<rparr>"

definition injection_alert :: "string \<Rightarrow> sec_alert" where
  "injection_alert aid = \<lparr>sa_alert_id = aid, sa_kind = ''prompt_injection'', sa_severity = ''warn'', sa_source = ''sec.input.v1'', sa_reason = ''r'',
     sa_produced_at = ''t'', sa_subject = JStr ''10.0.0.1'', sa_request_id = JNull, sa_client_id = JNull, sa_ip = JNull,
     sa_evidence_ref = JNull, sa_event_correlation_id = JStr ''c''\<rparr>"

definition injection_message :: "string \<Rightarrow> message" where
  "injection_message aid = message_new \<lparr>fr_message_id = ''m'', fr_trace_id = ''t'', fr_now = ''n''\<rparr> sec_alert_topic
     (sec_alert_as_dict (injection_alert aid)) ''sec.input.v1'' None"

definition rate_example_env :: "real \<Rightarrow> rate_env" where
  "rate_example_env t = \<lparr>ev_mono = t, ev_gate = (\<lambda>n. t), ev_id = (\<lambda>n. ''i''), ev_now_iso = (\<lambda>n. ''t'')\<rparr>"

definition rate_example :: rate_config where
  "rate_example = \<lparr>rg_burst_window_ms = 1000, rg_burst_threshold = 2, rg_denylist_ttl_s = 60, rg_eviction_alert = 5, rg_denylist_max = 9,
     rg_critical_debounce = False, rg_show_rate = (\<lambda>_. ''?'')\<rparr>"

definition quiet_debouncer :: debouncer where
  "quiet_debouncer = \<lparr>db_ttl_s = 60, db_critical_bypass = True, db_max_buckets = 9, db_buckets = []\<rparr>"

lemma injection_abusive: "abusive rate_lib (\<lambda>x. x) (JStr ''10.0.0.1'') aid (injection_message aid)"
proof -
  have "sec_alert_check (\<lambda>x. x) (injection_alert aid) = Inr (injection_alert aid)"
    by (simp add: sec_alert_check_def injection_alert_def require_def allowed_sec_severities_def sec_alert_producers_def open_enum_kind_def
        kind_word_def kind_char_def kind_allowed_def sec_alert_kinds_by_producer_def)
  from sec_alert_wire [OF this, of rate_lib] show ?thesis
    by (simp add: abusive_def injection_message_def message_new_def)
      (simp add: injection_alert_def rate_name_def burst_trigger_kinds_def rate_subject_def)
qed

abbreviation example_burst :: "(string \<times> rate_env \<times> message) list" where
  "example_burst \<equiv> [(''a1'', rate_example_env 0, injection_message ''a1''), (''a2'', rate_example_env (1 / 2), injection_message ''a2'')]"

lemma example_burst_alerts: "burst_alerts rate_lib (\<lambda>x. x) rate_example (JStr ''10.0.0.1'') example_burst"
  by (simp add: burst_alerts_def injection_abusive rate_example_env_def rate_example_def)

theorem burst_lists_subject_witness:
  "\<exists>out. rate_outputs rate_lib (\<lambda>x. x) rate_example (map snd example_burst) (rate_agent_init quiet_debouncer 9 9 60) ! 1 = Inr out \<and>
    (\<exists>x. filter adds out = [x] \<and> map_of (em_payload x) ''subject'' = Some (JStr ''10.0.0.1''))"
  using burst_lists_subject [OF example_burst_alerts _ _ _ rate_agent_init_inv, of quiet_debouncer 9 9 60 1]
  by (auto simp: rate_agent_init_def rate_example_def)

theorem additions_justified_witness:
  "\<exists>H s x aid. rate_history rate_lib (\<lambda>x. x) rate_example [(rate_example_env 0, injection_message ''a1'')] (rate_agent_init quiet_debouncer 9 9 60) = (H, s) \<and>
     adds x \<and> 2 \<le> int (length (burst_of rate_example (JStr ''10.0.0.1'') (1 / 2) (H @ [(JStr ''10.0.0.1'', aid, 1 / 2)])))"
proof -
  let ?s0 = "rate_agent_init quiet_debouncer 9 9 60"
  obtain H s where H: "rate_history rate_lib (\<lambda>x. x) rate_example [(rate_example_env 0, injection_message ''a1'')] ?s0 = (H, s)" by force
  have s: "s = snd (rate_handle rate_lib (\<lambda>x. x) rate_example (rate_example_env 0) (injection_message ''a1'') ?s0)" using H by auto
  have "\<exists>out. rate_outputs rate_lib (\<lambda>x. x) rate_example (map snd example_burst) ?s0 ! 1 = Inr out \<and> (\<exists>x \<in> set out. adds x)"
    using burst_run [OF example_burst_alerts _ _ rate_agent_init_inv, of quiet_debouncer 9 9 60 1]
    by (auto simp: rate_agent_init_def rate_example_def known_window_def empty_window_def listing_def filter_eq_Cons_iff)
  then obtain out x where out: "fst (rate_handle rate_lib (\<lambda>x. x) rate_example (rate_example_env (1 / 2)) (injection_message ''a2'') s) = Inr out" "x \<in> set out" "adds x"
    by (auto simp: s)
  have "alert_subject (\<lambda>x. x) rate_lib (injection_message ''a2'') = JStr ''10.0.0.1''"
    using injection_abusive [of "''a2''"] by (auto simp: abusive_def alert_subject_def)
  then have sub: "map_of (em_payload x) ''subject'' = Some (JStr ''10.0.0.1'')" using handle_adds [OF out] by auto
  show ?thesis
    using additions_justified [OF H _ out] sub out(3) H by (auto simp: rate_example_env_def rate_example_def Let_def)
qed

end
