(* ===== verification/Feeds.thy ===== *)
theory Feeds
  imports Prelude "HOL-Library.Word"
begin

text \<open>
  Parts of the feed emitter under \<open>common/feeds\<close>: the checksum trailer of a line (\<open>crc.py\<close>), the fairness token buckets with the
  admission loop of the writer pool (\<open>fairness.py\<close>, \<open>writer_pool.py\<close>) and the intra-day partitions (\<open>intraday_compaction.py\<close>). The CRC
  itself comes from a library and is a parameter, a function from bytes to 32-bit words; a text is its UTF-8 bytes.
\<close>

section \<open>Checksum trailers\<close>

definition hex_char :: "nat \<Rightarrow> char" where
  "hex_char d = char_of (if d < 10 then 48 + d else 87 + d)"

fun hex_digits :: "nat \<Rightarrow> nat \<Rightarrow> string" where
  "hex_digits 0 n = []"
| "hex_digits (Suc k) n = hex_digits k (n div 16) @ [hex_char (n mod 16)]"

definition is_hex :: "char \<Rightarrow> bool" where
  "is_hex c \<longleftrightarrow> (let n = (of_char c :: nat) in 48 \<le> n \<and> n \<le> 57 \<or> 97 \<le> n \<and> n \<le> 102 \<or> 65 \<le> n \<and> n \<le> 70)"

definition hex_value :: "char \<Rightarrow> nat" where
  "hex_value c = (let n = (of_char c :: nat) in if n \<le> 57 then n - 48 else if n \<le> 70 then n - 55 else n - 87)"

definition read_hex :: "string \<Rightarrow> nat" where
  "read_hex = foldl (\<lambda>n c. 16 * n + hex_value c) 0"

definition append_crc_trailer :: "(string \<Rightarrow> 32 word) \<Rightarrow> string \<Rightarrow> bool \<Rightarrow> string" where
  "append_crc_trailer crc line enabled =
     (if \<not> enabled \<or> line = [] then line else line @ '' '' @ hex_digits 8 (unat (crc line)))"

text \<open>\<open>line.rsplit(" ", 1)\<close>: the text before and after the last space.\<close>

definition rsplit_space :: "string \<Rightarrow> (string \<times> string) option" where
  "rsplit_space line =
     (if CHR '' '' \<in> set line
      then Some (rev (tl (dropWhile (\<lambda>c. c \<noteq> CHR '' '') (rev line))), rev (takeWhile (\<lambda>c. c \<noteq> CHR '' '') (rev line)))
      else None)"

definition verify_crc_trailer :: "(string \<Rightarrow> 32 word) \<Rightarrow> string \<Rightarrow> bool \<Rightarrow> bool \<times> string" where
  "verify_crc_trailer crc line enabled =
     (if \<not> enabled then (True, line)
      else
        (case rsplit_space line of
           None \<Rightarrow> (True, line)
         | Some (json_part, trailer_hex) \<Rightarrow>
             if length trailer_hex \<noteq> 8 \<or> \<not> list_all is_hex trailer_hex then (False, json_part)
             else (unat (crc json_part) = read_hex trailer_hex, json_part)))"

record crc_config =
  cc_enabled :: bool
  cc_total_records :: nat
  cc_total_corrupted :: nat

definition append_trailer :: "(string \<Rightarrow> 32 word) \<Rightarrow> string \<Rightarrow> crc_config \<Rightarrow> string \<times> crc_config" where
  "append_trailer crc line c = (append_crc_trailer crc line (cc_enabled c), c\<lparr>cc_total_records := Suc (cc_total_records c)\<rparr>)"

definition verify_trailer :: "(string \<Rightarrow> 32 word) \<Rightarrow> string \<Rightarrow> crc_config \<Rightarrow> (bool \<times> string) \<times> crc_config" where
  "verify_trailer crc line c =
     (let r = verify_crc_trailer crc line (cc_enabled c) in
      (r, if fst r then c else c\<lparr>cc_total_corrupted := Suc (cc_total_corrupted c)\<rparr>))"

definition corruption_rate :: "crc_config \<Rightarrow> real" where
  "corruption_rate c = (if 0 < cc_total_records c then real (cc_total_corrupted c) / real (cc_total_records c) else 0)"

lemma hex_char_value: "d < 16 \<Longrightarrow> hex_value (hex_char d) = d" "d < 16 \<Longrightarrow> is_hex (hex_char d)" "d < 16 \<Longrightarrow> hex_char d \<noteq> CHR '' ''"
proof -
  assume d: "d < 16"
  have o: "(of_char (hex_char d) :: nat) = (if d < 10 then 48 + d else 87 + d)" using d by (simp add: hex_char_def)
  show "hex_value (hex_char d) = d" using d by (simp add: hex_value_def o)
  show "is_hex (hex_char d)" using d by (simp add: is_hex_def o)
  show "hex_char d \<noteq> CHR '' ''" using d o by (auto dest: arg_cong [where f = "of_char :: char \<Rightarrow> nat"] split: if_splits)
qed

lemma hex_digits_length [simp]: "length (hex_digits k n) = k"
  by (induction k n rule: hex_digits.induct) simp_all

lemma hex_digits_chars: "c \<in> set (hex_digits k n) \<Longrightarrow> is_hex c \<and> c \<noteq> CHR '' ''"
  by (induction k n rule: hex_digits.induct) (auto simp: hex_char_value)

lemma read_hex_digits: "n < 16 ^ k \<Longrightarrow> read_hex (hex_digits k n) = n"
proof (induction k n rule: hex_digits.induct)
  case (2 k n)
  then have "n div 16 < 16 ^ k" by (simp add: div_less_iff_less_mult mult.commute)
  then show ?case using 2 by (simp add: read_hex_def hex_char_value)
qed (simp add: read_hex_def)

lemma takeWhile_stop: "\<forall>x \<in> set xs. P x \<Longrightarrow> \<not> P y \<Longrightarrow> takeWhile P (xs @ y # ys) = xs" "\<forall>x \<in> set xs. P x \<Longrightarrow> \<not> P y \<Longrightarrow> dropWhile P (xs @ y # ys) = y # ys"
  by (induction xs) simp_all

lemma rsplit_last:
  assumes "CHR '' '' \<notin> set t"
  shows "rsplit_space (line @ CHR '' '' # t) = Some (line, t)"
proof -
  have "\<forall>c \<in> set (rev t). c \<noteq> CHR '' ''" using assms by auto
  from takeWhile_stop [OF this, of "CHR '' ''" "rev line"] show ?thesis by (simp add: rsplit_space_def)
qed

lemma crc_bound: "unat (w :: 32 word) < 16 ^ 8"
  by (rule order_less_le_trans [OF unsigned_less]) simp

text \<open>
  What a trailer proves. A line that was written with its trailer verifies and comes back clean; with the text before the trailer replaced
  by another, it verifies exactly when the checksums agree.
\<close>

lemma trailer_round_trip:
  "(line \<noteq> [] \<longrightarrow> verify_crc_trailer crc (append_crc_trailer crc line True) True = (True, line)) \<and>
   (line \<noteq> [] \<longrightarrow> append_crc_trailer crc line True = line @ '' '' @ t \<longrightarrow>
     verify_crc_trailer crc (other @ '' '' @ t) True = (crc other = crc line, other))"
proof -
  let ?t = "hex_digits 8 (unat (crc line))"
  have plain: "CHR '' '' \<notin> set ?t" "list_all is_hex ?t" using hex_digits_chars by (auto simp: list_all_iff)
  have "verify_crc_trailer crc (x @ '' '' @ ?t) True = (crc x = crc line, x)" for x
    using rsplit_last [OF plain(1), of x] plain(2) by (simp add: verify_crc_trailer_def read_hex_digits [OF crc_bound] word_eq_iff_unsigned [symmetric])
  then show ?thesis by (auto simp: append_crc_trailer_def)
qed

text \<open>
  Which torn writes are detected (\<open>crc.py:10\<close> promises every one). Cutting a written line that has no space of its own is noticed exactly
  when the cut leaves the space in front of the trailer; a cut inside the JSON text is accepted as a valid line.
\<close>

lemma torn_line_detected:
  assumes "CHR '' '' \<notin> set line" "line \<noteq> []" "k < length (append_crc_trailer crc line True)"
  shows "verify_crc_trailer crc (take k (append_crc_trailer crc line True)) True = (k \<le> length line, take (min k (length line)) line)"
proof (cases "k \<le> length line")
  case True
  have "CHR '' '' \<notin> set (take k line)" using assms(1) by (metis in_set_takeD)
  then show ?thesis using True assms(2) by (simp add: append_crc_trailer_def verify_crc_trailer_def rsplit_space_def)
next
  case False
  let ?t = "take (k - length line - 1) (hex_digits 8 (unat (crc line)))"
  have "take k (append_crc_trailer crc line True) = line @ '' '' @ ?t"
    using False assms(2) by (simp add: append_crc_trailer_def take_Cons')
  moreover have "CHR '' '' \<notin> set ?t" using hex_digits_chars by (fastforce dest: in_set_takeD)
  moreover have "k - Suc (length line) < 8" using assms(2,3) False by (simp add: append_crc_trailer_def)
  ultimately show ?thesis using False by (simp add: verify_crc_trailer_def rsplit_last)
qed

section \<open>Fairness token buckets\<close>

text \<open>
  \<open>None\<close> is the \<open>ZeroDivisionError\<close> of a zero-length window, which stops the call.
\<close>

record token_bucket =
  tb_source :: string
  tb_floor :: real
  tb_burst :: real
  tb_window :: real
  tb_tokens :: real
  tb_refilled_at :: real
  tb_violations :: nat

definition refill :: "token_bucket \<Rightarrow> real \<Rightarrow> token_bucket option" where
  "refill b now =
     (let elapsed = now - tb_refilled_at b in
      if elapsed \<le> 0 then Some b
      else if tb_window b = 0 then None
      else
        (let rate = tb_burst b / tb_window b in
         Some (b\<lparr>tb_tokens := min (tb_burst b) (tb_tokens b + elapsed * rate), tb_refilled_at := now\<rparr>)))"

definition try_consume :: "token_bucket \<Rightarrow> real \<Rightarrow> bool \<times> token_bucket" where
  "try_consume b amount = (if amount \<le> tb_tokens b then (True, b\<lparr>tb_tokens := tb_tokens b - amount\<rparr>) else (False, b))"

definition can_consume_at_floor :: "token_bucket \<Rightarrow> real \<Rightarrow> bool" where
  "can_consume_at_floor b amount \<longleftrightarrow> amount \<le> tb_floor b"

definition record_violation :: "token_bucket \<Rightarrow> token_bucket" where
  "record_violation b = b\<lparr>tb_violations := Suc (tb_violations b)\<rparr>"

record fairness =
  ff_floor_pct :: real
  ff_burst_factor :: real
  ff_window :: real
  ff_num_sources :: int
  ff_total_capacity :: real
  ff_floor :: real
  ff_burst :: real
  ff_buckets :: "(string, token_bucket) odict"

definition new_fairness :: "real \<Rightarrow> real \<Rightarrow> real \<Rightarrow> int \<Rightarrow> fairness" where
  "new_fairness floor_pct burst_factor window n =
     (let pct = floor_pct / 100; total = 1; floor_capacity = total * pct in
      \<lparr>ff_floor_pct = pct, ff_burst_factor = burst_factor, ff_window = window, ff_num_sources = n, ff_total_capacity = total,
       ff_floor = floor_capacity, ff_burst = floor_capacity * burst_factor, ff_buckets = []\<rparr>)"

text \<open>\<open>born\<close> is the clock a new bucket reads for itself, \<open>now\<close> the reading \<open>allow_write\<close> takes next.\<close>

definition write_cost :: "fairness \<Rightarrow> int \<Rightarrow> real" where
  "write_cost ff n = min ((of_int n / 1000) * ff_burst ff) (ff_burst ff)"

definition bucket_for :: "fairness \<Rightarrow> string \<Rightarrow> real \<Rightarrow> token_bucket" where
  "bucket_for ff source born =
     (case map_of (ff_buckets ff) source of
        Some b \<Rightarrow> b
      | None \<Rightarrow> \<lparr>tb_source = source, tb_floor = ff_floor ff, tb_burst = ff_burst ff, tb_window = ff_window ff,
                 tb_tokens = 0, tb_refilled_at = born, tb_violations = 0\<rparr>)"

definition admit_write :: "token_bucket \<Rightarrow> real \<Rightarrow> bool \<times> token_bucket" where
  "admit_write b cost =
     (case try_consume b cost of
        (True, b') \<Rightarrow> (True, b')
      | (False, b') \<Rightarrow>
          if can_consume_at_floor b' cost then (True, record_violation (b'\<lparr>tb_tokens := tb_tokens b' - cost\<rparr>)) else (False, b'))"

definition allow_write :: "fairness \<Rightarrow> string \<Rightarrow> int \<Rightarrow> real \<Rightarrow> real \<Rightarrow> (bool \<times> fairness) option" where
  "allow_write ff source n born now =
     (case refill (bucket_for ff source born) now of
        None \<Rightarrow> None
      | Some b \<Rightarrow> (let (ok, b') = admit_write b (write_cost ff n) in Some (ok, ff\<lparr>ff_buckets := od_set source b' (ff_buckets ff)\<rparr>)))"

record bucket_state =
  bs_source :: string
  bs_tokens :: real
  bs_floor :: real
  bs_burst :: real
  bs_violations :: nat

definition get_bucket_state :: "fairness \<Rightarrow> string \<Rightarrow> real \<Rightarrow> (bucket_state option \<times> fairness) option" where
  "get_bucket_state ff source now =
     (case map_of (ff_buckets ff) source of
        None \<Rightarrow> Some (None, ff)
      | Some b \<Rightarrow>
          (case refill b now of
             None \<Rightarrow> None
           | Some b' \<Rightarrow>
               Some (Some \<lparr>bs_source = source, bs_tokens = tb_tokens b', bs_floor = tb_floor b', bs_burst = tb_burst b', bs_violations = tb_violations b'\<rparr>,
                     ff\<lparr>ff_buckets := od_set source b' (ff_buckets ff)\<rparr>)))"

fun bucket_states :: "fairness \<Rightarrow> (string \<times> real) list \<Rightarrow> ((string \<times> bucket_state) list \<times> fairness) option" where
  "bucket_states ff [] = Some ([], ff)"
| "bucket_states ff ((s, now) # rest) =
     (case get_bucket_state ff s now of
        None \<Rightarrow> None
      | Some (st, ff1) \<Rightarrow>
          (case bucket_states ff1 rest of
             None \<Rightarrow> None
           | Some (sts, ff2) \<Rightarrow> Some ((case st of None \<Rightarrow> sts | Some x \<Rightarrow> (s, x) # sts), ff2)))"

text \<open>\<open>get_all_bucket_states\<close>: one clock reading per bucket, in the order of the table.\<close>

definition get_all_bucket_states :: "fairness \<Rightarrow> real list \<Rightarrow> ((string \<times> bucket_state) list \<times> fairness) option" where
  "get_all_bucket_states ff clocks = bucket_states ff (zip (od_keys (ff_buckets ff)) clocks)"

definition reset_buckets :: "fairness \<Rightarrow> fairness" where
  "reset_buckets ff = ff\<lparr>ff_buckets := []\<rparr>"

text \<open>A run of \<open>allow_write\<close> calls with their answers.\<close>

fun run_writes :: "fairness \<Rightarrow> (string \<times> int \<times> real \<times> real) list \<Rightarrow> (bool list \<times> fairness) option" where
  "run_writes ff [] = Some ([], ff)"
| "run_writes ff ((s, n, born, now) # cs) =
     (case allow_write ff s n born now of
        None \<Rightarrow> None
      | Some (ok, ff1) \<Rightarrow> (case run_writes ff1 cs of None \<Rightarrow> None | Some (oks, ff2) \<Rightarrow> Some (ok # oks, ff2)))"

definition bucket_ok :: "fairness \<Rightarrow> token_bucket \<Rightarrow> bool" where
  "bucket_ok ff b \<longleftrightarrow> tb_floor b = ff_floor ff \<and> tb_burst b = ff_burst ff \<and> tb_window b = ff_window ff \<and> tb_tokens b \<le> ff_burst ff"

definition fairness_ok :: "fairness \<Rightarrow> bool" where
  "fairness_ok ff \<longleftrightarrow> 0 \<le> ff_burst ff \<and> list_all (\<lambda>kb. bucket_ok ff (snd kb)) (ff_buckets ff)"

lemma bucket_for_ok [intro]: "fairness_ok ff \<Longrightarrow> bucket_ok ff (bucket_for ff s born)"
  by (auto simp: bucket_for_def fairness_ok_def bucket_ok_def list_all_iff split: option.splits dest!: map_of_SomeD)

lemma refill_ok: "bucket_ok ff b \<Longrightarrow> refill b now = Some b' \<Longrightarrow> bucket_ok ff b'"
  by (auto simp: refill_def bucket_ok_def Let_def split: if_splits)

lemma write_cost_nonneg: "0 \<le> ff_burst ff \<Longrightarrow> 0 \<le> n \<Longrightarrow> 0 \<le> write_cost ff n"
  by (simp add: write_cost_def)

lemma admit_write_ok: "bucket_ok ff b \<Longrightarrow> 0 \<le> cost \<Longrightarrow> bucket_ok ff (snd (admit_write b cost))"
  by (auto simp: admit_write_def try_consume_def record_violation_def bucket_ok_def)

lemma store_bucket_ok: "fairness_ok ff \<Longrightarrow> bucket_ok ff b \<Longrightarrow> fairness_ok (ff\<lparr>ff_buckets := od_set s b (ff_buckets ff)\<rparr>)"
  using set_od_set_sub [of s b "ff_buckets ff"] by (auto simp: fairness_ok_def list_all_iff bucket_ok_def)

lemma allow_write_ok:
  assumes "fairness_ok ff" "0 \<le> n" "allow_write ff s n born now = Some (ok, ff')"
  shows "fairness_ok ff' \<and> ff_floor ff' = ff_floor ff \<and> ff_burst ff' = ff_burst ff \<and> ff_window ff' = ff_window ff"
proof -
  obtain b where b: "refill (bucket_for ff s born) now = Some b"
    and ff': "ff' = ff\<lparr>ff_buckets := od_set s (snd (admit_write b (write_cost ff n))) (ff_buckets ff)\<rparr>"
    using assms(3) by (auto simp: allow_write_def Let_def split: option.splits prod.splits)
  have "0 \<le> write_cost ff n" using assms(1,2) by (simp add: write_cost_nonneg fairness_ok_def)
  with refill_ok [OF bucket_for_ok [OF assms(1)] b] have "bucket_ok ff (snd (admit_write b (write_cost ff n)))"
    by (rule admit_write_ok)
  with assms(1) show ?thesis by (simp add: ff' store_bucket_ok)
qed

text \<open>A call is refused exactly when both tests fail; it never is when its cost is within the floor.\<close>

lemma allow_write_within_floor:
  assumes "fairness_ok ff" "ff_window ff \<noteq> 0" "write_cost ff n \<le> ff_floor ff"
  shows "\<exists>ff'. allow_write ff s n born now = Some (True, ff')"
proof -
  have ok: "bucket_ok ff (bucket_for ff s born)" using assms(1) by (rule bucket_for_ok)
  then have "refill (bucket_for ff s born) now \<noteq> None" using assms(2) by (simp add: refill_def bucket_ok_def Let_def)
  then obtain b where b: "refill (bucket_for ff s born) now = Some b" by blast
  then have "bucket_ok ff b" using refill_ok ok by blast
  then have "fst (admit_write b (write_cost ff n))"
    using assms(3) by (simp add: admit_write_def try_consume_def can_consume_at_floor_def bucket_ok_def)
  then show ?thesis by (cases "admit_write b (write_cost ff n)") (simp add: allow_write_def b)
qed

lemma run_writes_within_floor:
  assumes "fairness_ok ff" "ff_window ff \<noteq> 0" "0 \<le> ff_floor ff"
    and "list_all (\<lambda>(s, n, born, now). 0 \<le> n \<and> write_cost ff n \<le> ff_floor ff) cs"
  shows "\<exists>ff'. run_writes ff cs = Some (replicate (length cs) True, ff') \<and> fairness_ok ff' \<and> ff_burst ff' = ff_burst ff"
  using assms
proof (induction cs arbitrary: ff)
  case (Cons c cs)
  obtain s n born now where c: "c = (s, n, born, now)" by (metis prod_cases4)
  have n: "0 \<le> n" "write_cost ff n \<le> ff_floor ff" using Cons.prems(4) by (simp_all add: c)
  obtain ff1 where a: "allow_write ff s n born now = Some (True, ff1)"
    using allow_write_within_floor [OF Cons.prems(1,2) n(2)] by blast
  note k = allow_write_ok [OF Cons.prems(1) n(1) a]
  have "write_cost ff1 m = write_cost ff m" for m using k by (simp add: write_cost_def)
  then have "list_all (\<lambda>(s, n, born, now). 0 \<le> n \<and> write_cost ff1 n \<le> ff_floor ff1) cs"
    using Cons.prems(4) k by (simp add: c)
  with Cons.IH [of ff1] k Cons.prems show ?case by (auto simp: c a)
qed simp

text \<open>
  The throttle the pool never feels. With any floor and any positive window, however many calls came before, a write whose record count times
  the burst factor is at most 1000 is admitted, for every source and every clock; no bucket ever holds more than the burst capacity.
\<close>

lemma small_writes_never_throttled:
  assumes "0 \<le> floor_pct" "0 \<le> burst_factor" "window \<noteq> 0"
    and "list_all (\<lambda>(s, n, born, now). 0 \<le> n \<and> of_int n * burst_factor \<le> 1000) cs"
  shows "\<exists>ff. run_writes (new_fairness floor_pct burst_factor window k) cs = Some (replicate (length cs) True, ff) \<and>
              list_all (\<lambda>(s, b). tb_tokens b \<le> floor_pct / 100 * burst_factor) (ff_buckets ff)"
proof -
  let ?ff = "new_fairness floor_pct burst_factor window k"
  have f: "ff_floor ?ff = floor_pct / 100" "ff_burst ?ff = floor_pct / 100 * burst_factor" "ff_window ?ff = window" "ff_buckets ?ff = []"
    by (simp_all add: new_fairness_def Let_def)
  have "write_cost ?ff n \<le> floor_pct / 100" if "0 \<le> n" "of_int n * burst_factor \<le> 1000" for n
    using mult_left_mono [OF that(2) assms(1)] by (simp add: write_cost_def f min_le_iff_disj field_simps)
  then have "list_all (\<lambda>(s, n, born, now). 0 \<le> n \<and> write_cost ?ff n \<le> ff_floor ?ff) cs"
    using assms(4) by (auto simp: list_all_iff f)
  moreover have "fairness_ok ?ff" using assms by (simp add: fairness_ok_def f)
  ultimately obtain ff where "run_writes ?ff cs = Some (replicate (length cs) True, ff)" "fairness_ok ff" "ff_burst ff = ff_burst ?ff"
    using run_writes_within_floor [of ?ff cs] assms f by auto
  then show ?thesis by (auto simp: fairness_ok_def bucket_ok_def list_all_iff f)
qed

text \<open>The debt has no bound: writes of one record at one instant take the tokens of a new source below any value.\<close>

lemma debt_grows:
  assumes "fairness_ok ff" "0 < ff_burst ff" "ff_burst ff \<le> 1000 * ff_floor ff" "map_of (ff_buckets ff) s = Some b" "tb_tokens b \<le> 0" "now \<le> tb_refilled_at b"
  shows "\<exists>ff' b'. allow_write ff s 1 born now = Some (True, ff') \<and> map_of (ff_buckets ff') s = Some b' \<and>
           tb_tokens b' = tb_tokens b - ff_burst ff / 1000 \<and> tb_refilled_at b' = tb_refilled_at b"
proof -
  have ok: "bucket_ok ff b" using bucket_for_ok [OF assms(1), of s born] assms(4) by (simp add: bucket_for_def)
  show ?thesis using assms ok
    by (simp add: allow_write_def bucket_for_def refill_def Let_def admit_write_def try_consume_def can_consume_at_floor_def
        record_violation_def write_cost_def bucket_ok_def od_simps)
qed

section \<open>Partitions within a day\<close>

record partition =
  pm_date :: string
  pm_number :: nat
  pm_bytes :: int
  pm_records :: nat
  pm_sealed_at :: "real option"

definition is_sealed :: "partition \<Rightarrow> bool" where
  "is_sealed p \<longleftrightarrow> pm_sealed_at p \<noteq> None"

definition filename_stem :: "partition \<Rightarrow> string" where
  "filename_stem p = pm_date p @ ''.part-'' @ (if pm_number p < 10 then ''0'' else '''') @ show_nat (pm_number p)"

definition fresh_partition :: "string \<Rightarrow> nat \<Rightarrow> partition" where
  "fresh_partition d n = \<lparr>pm_date = d, pm_number = n, pm_bytes = 0, pm_records = 0, pm_sealed_at = None\<rparr>"

record part_registry =
  rg_compact :: int
  rg_parts :: "(string, partition list) odict"
  rg_current :: "partition option"
  rg_total_sealed :: nat

definition new_registry :: "int \<Rightarrow> part_registry" where
  "new_registry limit = \<lparr>rg_compact = limit, rg_parts = [], rg_current = None, rg_total_sealed = 0\<rparr>"

abbreviation parts_of :: "part_registry \<Rightarrow> string \<Rightarrow> partition list" where
  "parts_of r d \<equiv> (case map_of (rg_parts r) d of Some ps \<Rightarrow> ps | None \<Rightarrow> [])"

definition current_for :: "part_registry \<Rightarrow> string \<Rightarrow> partition" where
  "current_for r d =
     (case rg_current r of
        Some p \<Rightarrow> if pm_date p = d then p else fresh_partition d (length (parts_of r d))
      | None \<Rightarrow> fresh_partition d (length (parts_of r d)))"

definition add_record :: "part_registry \<Rightarrow> string \<Rightarrow> int \<Rightarrow> (bool \<times> partition option) \<times> part_registry" where
  "add_record r d bytes =
     (let parts = (if d \<in> fst ` set (rg_parts r) then rg_parts r else od_set d [] (rg_parts r));
          p = current_for r d;
          p = p\<lparr>pm_bytes := pm_bytes p + bytes, pm_records := Suc (pm_records p)\<rparr> in
      if rg_compact r \<le> pm_bytes p
      then
        (let sealed = parts_of r d @ [p\<lparr>pm_sealed_at := Some 0\<rparr>]; next_part = fresh_partition d (length sealed) in
         ((True, Some next_part),
          r\<lparr>rg_parts := od_set d sealed parts, rg_current := Some next_part, rg_total_sealed := Suc (rg_total_sealed r)\<rparr>))
      else ((False, None), r\<lparr>rg_parts := parts, rg_current := Some p\<rparr>))"

definition seal_partition :: "part_registry \<Rightarrow> string \<Rightarrow> real \<Rightarrow> py_error + partition option \<times> part_registry" where
  "seal_partition r d now =
     (case rg_current r of
        None \<Rightarrow> Inr (None, r)
      | Some p \<Rightarrow>
          if pm_date p \<noteq> d then Inr (None, r)
          else
            (case map_of (rg_parts r) d of
               None \<Rightarrow> Inl KeyError
             | Some ps \<Rightarrow>
                 (let q = p\<lparr>pm_sealed_at := Some now\<rparr> in
                  Inr (Some q, r\<lparr>rg_parts := od_set d (ps @ [q]) (rg_parts r), rg_current := None, rg_total_sealed := Suc (rg_total_sealed r)\<rparr>))))"

definition get_partitions_for_date :: "part_registry \<Rightarrow> string \<Rightarrow> partition list" where
  "get_partitions_for_date r d =
     sort_key pm_number
       (parts_of r d @ (case rg_current r of Some p \<Rightarrow> if pm_date p = d then [p] else [] | None \<Rightarrow> []))"

record registry_stats =
  rs_dates :: nat
  rs_partitions :: nat
  rs_sealed :: nat
  rs_current_bytes :: int
  rs_threshold :: int

definition registry_statistics :: "part_registry \<Rightarrow> registry_stats" where
  "registry_statistics r =
     \<lparr>rs_dates = length (rg_parts r),
      rs_partitions = sum_list (map (\<lambda>kp. length (snd kp)) (rg_parts r)) + (if rg_current r = None then 0 else 1),
      rs_sealed = rg_total_sealed r,
      rs_current_bytes = (case rg_current r of Some p \<Rightarrow> pm_bytes p | None \<Rightarrow> 0),
      rs_threshold = rg_compact r\<rparr>"

definition should_compact :: "int \<Rightarrow> int \<Rightarrow> bool" where
  "should_compact limit bytes \<longleftrightarrow> limit \<le> bytes"

definition next_partition_number :: "partition list \<Rightarrow> nat" where
  "next_partition_number ps = (if ps = [] then 0 else Max (pm_number ` set ps) + 1)"

text \<open>The records of one day, one after the other.\<close>

fun add_day :: "part_registry \<Rightarrow> string \<Rightarrow> int list \<Rightarrow> part_registry" where
  "add_day r d [] = r"
| "add_day r d (b # bs) = add_day (snd (add_record r d b)) d bs"

text \<open>The partition that holds the records of the sizes \<open>bs\<close>.\<close>

definition part_of :: "string \<Rightarrow> real option \<Rightarrow> nat \<Rightarrow> int list \<Rightarrow> partition" where
  "part_of d sealed n bs = \<lparr>pm_date = d, pm_number = n, pm_bytes = sum_list bs, pm_records = length bs, pm_sealed_at = sealed\<rparr>"

definition sealed_parts :: "string \<Rightarrow> int list list \<Rightarrow> partition list" where
  "sealed_parts d css = map (\<lambda>(n, bs). part_of d (Some 0) n bs) (enumerate 0 css)"

text \<open>A chunk that is not yet sealed: no non-empty prefix of it reaches the threshold; a sealed one reaches it with its last record only.\<close>

definition hot_chunk :: "int \<Rightarrow> int list \<Rightarrow> bool" where
  "hot_chunk c bs \<longleftrightarrow> (\<forall>k. 0 < k \<longrightarrow> k \<le> length bs \<longrightarrow> sum_list (take k bs) < c)"

definition full_chunk :: "int \<Rightarrow> int list \<Rightarrow> bool" where
  "full_chunk c bs \<longleftrightarrow> bs \<noteq> [] \<and> c \<le> sum_list bs \<and> hot_chunk c (butlast bs)"

lemma sealed_parts_snoc: "sealed_parts d (css @ [bs]) = sealed_parts d css @ [part_of d (Some 0) (length css) bs]"
  by (simp add: sealed_parts_def enumerate_append_eq)

lemma length_sealed_parts [simp]: "length (sealed_parts d css) = length css"
  by (simp add: sealed_parts_def)

lemma hot_chunk_snoc: "hot_chunk c (bs @ [b]) \<longleftrightarrow> hot_chunk c bs \<and> sum_list bs + b < c"
proof
  assume h: "hot_chunk c (bs @ [b])"
  have "sum_list (take k bs) < c" if "0 < k" "k \<le> length bs" for k
    using h [unfolded hot_chunk_def, rule_format, of k] that by simp
  moreover have "sum_list (take (Suc (length bs)) (bs @ [b])) < c"
    using h [unfolded hot_chunk_def, rule_format, of "Suc (length bs)"] by simp
  ultimately show "hot_chunk c bs \<and> sum_list bs + b < c" by (simp add: hot_chunk_def)
next
  assume h: "hot_chunk c bs \<and> sum_list bs + b < c"
  show "hot_chunk c (bs @ [b])"
    unfolding hot_chunk_def
  proof (intro allI impI)
    fix k assume "0 < k" "k \<le> length (bs @ [b])"
    then show "sum_list (take k (bs @ [b])) < c"
      using h by (cases "k \<le> length bs") (auto simp: hot_chunk_def not_le le_Suc_eq)
  qed
qed

text \<open>The state of a registry that has seen one day only.\<close>

definition day_state :: "int \<Rightarrow> string \<Rightarrow> int list list \<Rightarrow> int list \<Rightarrow> part_registry \<Rightarrow> bool" where
  "day_state c d css hot r \<longleftrightarrow>
     rg_compact r = c \<and> parts_of r d = sealed_parts d css \<and> list_all (full_chunk c) css \<and> hot_chunk c hot \<and>
     rg_total_sealed r = length css \<and>
     (case rg_current r of None \<Rightarrow> css = [] \<and> hot = [] | Some p \<Rightarrow> p = part_of d None (length css) hot)"

lemma day_state_new: "day_state c d [] [] (new_registry c)"
  by (simp add: day_state_def new_registry_def sealed_parts_def hot_chunk_def)

lemma current_for_day: "day_state c d css hot r \<Longrightarrow> current_for r d = part_of d None (length css) hot"
  by (auto simp: day_state_def current_for_def part_of_def fresh_partition_def split: option.splits)

lemma day_state_step:
  assumes r: "day_state c d css hot r"
  shows "\<exists>css' hot'. day_state c d css' hot' (snd (add_record r d b)) \<and> concat css' @ hot' = concat css @ hot @ [b]"
proof -
  note p = current_for_day [OF r]
  have q: "(part_of d None (length css) hot)\<lparr>pm_bytes := sum_list hot + b, pm_records := Suc (length hot)\<rparr> = part_of d None (length css) (hot @ [b])"
    by (simp add: part_of_def)
  have ps: "parts_of r d = sealed_parts d css" "rg_compact r = c" using r by (simp_all add: day_state_def)
  show ?thesis
  proof (cases "c \<le> sum_list hot + b")
    case True
    then have "day_state c d (css @ [hot @ [b]]) [] (snd (add_record r d b))"
      using r by (auto simp: day_state_def add_record_def Let_def p ps part_of_def fresh_partition_def od_simps sealed_parts_snoc
          full_chunk_def hot_chunk_def)
    then show ?thesis by (intro exI [of _ "css @ [hot @ [b]]"] exI [of _ "[]"]) simp
  next
    case False
    then have "day_state c d css (hot @ [b]) (snd (add_record r d b))"
      using r ps by (auto simp: day_state_def add_record_def Let_def p part_of_def od_simps hot_chunk_snoc
          dest: weak_map_of_SomeI split: option.splits)
    then show ?thesis by (intro exI [of _ css] exI [of _ "hot @ [b]"]) simp
  qed
qed

lemma day_state_run: "day_state c d css hot r \<Longrightarrow> \<exists>css' hot'. day_state c d css' hot' (add_day r d bs) \<and> concat css' @ hot' = concat css @ hot @ bs"
proof (induction bs arbitrary: r css hot)
  case (Cons b bs)
  from day_state_step [OF Cons.prems, of b] obtain css1 hot1
    where "day_state c d css1 hot1 (snd (add_record r d b))" "concat css1 @ hot1 = concat css @ hot @ [b]" by blast
  with Cons.IH [of css1 hot1 "snd (add_record r d b)"] show ?case by (metis add_day.simps(2) append.assoc append_Cons append_Nil)
qed auto

lemma sorted_sealed: "sorted (map pm_number (sealed_parts d css @ [part_of d None (length css) hot]))"
proof -
  have "map pm_number (sealed_parts d css) = [0..<length css]"
    by (rule nth_equalityI) (simp_all add: sealed_parts_def part_of_def nth_enumerate_eq)
  then show ?thesis by (simp add: part_of_def sorted_append)
qed

lemma sealed_numbers: "set (sealed_parts d css) = (\<lambda>n. part_of d (Some 0) n (css ! n)) ` {..<length css}"
  by (auto simp: sealed_parts_def in_set_enumerate_eq image_iff Bex_def)

lemma get_partitions_day:
  assumes "day_state c d css hot r"
  shows "get_partitions_for_date r d = sealed_parts d css @ (if rg_current r = None then [] else [part_of d None (length css) hot])"
proof (cases "rg_current r")
  case None
  then have "css = []" using assms by (simp add: day_state_def)
  then show ?thesis using assms None by (simp add: day_state_def get_partitions_for_date_def sealed_parts_def)
next
  case (Some p)
  then have p: "p = part_of d None (length css) hot" "pm_date p = d" using assms by (simp_all add: day_state_def part_of_def)
  have "parts_of r d = sealed_parts d css" using assms by (simp add: day_state_def)
  then show ?thesis using Some p sorted_sealed [of d css hot]
    by (simp add: get_partitions_for_date_def sort_key_id_if_sorted [OF sorted_sealed])
qed

lemma next_number_day: "next_partition_number (sealed_parts d css) = length css"
proof (cases "css = []")
  case False
  have "pm_number ` set (sealed_parts d css) = {..<length css}" by (simp add: sealed_numbers image_image part_of_def)
  moreover have "Max {..<length css} = length css - 1" using False by (intro Max_eqI) auto
  ultimately show ?thesis using False by (simp add: next_partition_number_def sealed_parts_def enumerate_eq_zip)
qed (simp add: next_partition_number_def sealed_parts_def)

text \<open>
  The partitions of one day are its records in order. Whatever the record sizes, the registry lists parts 0, 1, 2, ... whose counts and sizes
  are those of consecutive runs of the records; a part is sealed exactly by the record that brings it to the threshold, only the last part
  is still hot, and a part number chosen by the compaction strategy from the sealed parts is the one the registry chose.
\<close>

lemma partitions_are_chunks:
  "\<exists>css hot.
     concat css @ hot = bs \<and> list_all (full_chunk c) css \<and> hot_chunk c hot \<and>
     get_partitions_for_date (add_day (new_registry c) d bs) d =
       sealed_parts d css @ (if bs = [] then [] else [part_of d None (length css) hot]) \<and>
     rs_sealed (registry_statistics (add_day (new_registry c) d bs)) = length css \<and>
     next_partition_number (sealed_parts d css) = length css"
proof -
  from day_state_run [OF day_state_new, of c d bs] obtain css hot
    where s: "day_state c d css hot (add_day (new_registry c) d bs)" and bs: "concat css @ hot = bs" by auto
  have "rg_current (add_day (new_registry c) d bs) = None \<longleftrightarrow> bs = []"
  proof
    assume "rg_current (add_day (new_registry c) d bs) = None"
    then show "bs = []" using s bs by (simp add: day_state_def)
  qed (simp add: new_registry_def)
  with s bs get_partitions_day [OF s] show ?thesis
    by (intro exI [of _ css] exI [of _ hot]) (simp add: day_state_def registry_statistics_def next_number_day)
qed

lemma current_for_date: "pm_date (current_for r d) = d"
  by (simp add: current_for_def fresh_partition_def split: option.splits)

lemma add_record_other:
  assumes "e \<noteq> d"
  shows "parts_of (snd (add_record r e b)) d = parts_of r d" "rg_compact (snd (add_record r e b)) = rg_compact r"
    "\<exists>p. rg_current (snd (add_record r e b)) = Some p \<and> pm_date p = e"
  using assms by (simp_all add: add_record_def Let_def od_simps fresh_partition_def current_for_date map_add_def split: option.splits)

lemma add_record_hot:
  assumes "pm_bytes (current_for r d) + b < rg_compact r"
  shows "rg_current (snd (add_record r d b)) = Some ((current_for r d)\<lparr>pm_bytes := pm_bytes (current_for r d) + b, pm_records := Suc (pm_records (current_for r d))\<rparr>)"
    "parts_of (snd (add_record r d b)) d = parts_of r d"
proof -
  show "rg_current (snd (add_record r d b)) = Some ((current_for r d)\<lparr>pm_bytes := pm_bytes (current_for r d) + b, pm_records := Suc (pm_records (current_for r d))\<rparr>)"
    using assms by (simp add: add_record_def Let_def)
  show "parts_of (snd (add_record r d b)) d = parts_of r d"
    using assms by (cases "map_of (rg_parts r) d") (auto simp: add_record_def Let_def od_simps map_add_def split: option.splits)
qed

text \<open>
  A record of another day drops the open part. After any run of records of one day, a record dated on another day (a late extract, or the one
  that crosses midnight and is followed by a late one) makes the registry forget the open part of the first day, with every record in it: the
  next record of that day opens a part under the same number.
\<close>

lemma other_day_drops_records:
  assumes "e \<noteq> d" "b2 < c"
  shows "\<exists>css hot.
     concat css @ hot = bs \<and>
     get_partitions_for_date (add_day (new_registry c) d bs) d = sealed_parts d css @ (if bs = [] then [] else [part_of d None (length css) hot]) \<and>
     get_partitions_for_date (snd (add_record (snd (add_record (add_day (new_registry c) d bs) e b)) d b2)) d =
       sealed_parts d css @ [part_of d None (length css) [b2]]"
proof -
  let ?r = "add_day (new_registry c) d bs"
  from day_state_run [OF day_state_new, of c d bs] obtain css hot
    where s: "day_state c d css hot ?r" and bs: "concat css @ hot = bs" by auto
  have none: "rg_current ?r = None \<longleftrightarrow> bs = []"
  proof
    assume "rg_current ?r = None"
    then show "bs = []" using s bs by (simp add: day_state_def)
  qed (simp add: new_registry_def)
  let ?r1 = "snd (add_record ?r e b)"
  have r: "parts_of ?r d = sealed_parts d css" "rg_compact ?r = c" using s by (simp_all add: day_state_def)
  from add_record_other [OF assms(1), of ?r b] r
  have r1: "parts_of ?r1 d = sealed_parts d css" "rg_compact ?r1 = c" "\<exists>p. rg_current ?r1 = Some p \<and> pm_date p = e" by simp_all
  then have cur: "current_for ?r1 d = fresh_partition d (length css)"
    using assms(1) by (auto simp: current_for_def)
  let ?p = "part_of d None (length css) [b2]"
  from add_record_hot [of ?r1 d b2] assms(2) r1(1,2)
  have r2: "rg_current (snd (add_record ?r1 d b2)) = Some ?p" "parts_of (snd (add_record ?r1 d b2)) d = sealed_parts d css"
    by (simp_all add: cur fresh_partition_def part_of_def)
  have "get_partitions_for_date (snd (add_record ?r1 d b2)) d = sealed_parts d css @ [?p]"
  proof -
    have "pm_date ?p = d" by (simp add: part_of_def)
    then show ?thesis using r2 by (simp add: get_partitions_for_date_def sort_key_id_if_sorted [OF sorted_sealed])
  qed
  with bs get_partitions_day [OF s] none show ?thesis by (intro exI [of _ css] exI [of _ hot]) simp
qed

end
