(* ===== verification/Canonical.thy ===== *)
theory Canonical
  imports Json Feeds "HOL-Library.Multiset"
begin

text \<open>
  The canonical record encoder \<open>common/feeds/canonical.py\<close>. A record is a JSON value (a dataclass or a \<open>datetime\<close> inside one is not modelled); texts
  are their UTF-8 bytes, so that keys sort as their code points do. NFC normalisation and the text of a float come from the Unicode database and
  from \<open>float.__repr__\<close> and are parameters. \<open>\d\<close> of the final substitution is an ASCII digit.
\<close>

record canon_lib =
  cl_nfc :: "string \<Rightarrow> string"
  cl_float :: "real \<Rightarrow> string"

section \<open>The encoder\<close>

text \<open>\<open>{nfc(k): v for k, v in sorted(obj.items())}\<close>: a later key that normalises to an earlier one overwrites its value.\<close>

definition collapse :: "(string \<Rightarrow> string) \<Rightarrow> jobj \<Rightarrow> jobj" where
  "collapse nfc d = foldl (\<lambda>acc kv. od_set (nfc (fst kv)) (snd kv) acc) [] (sort_key fst d)"

fun normalize_recursive :: "canon_lib \<Rightarrow> jval \<Rightarrow> jval" where
  "normalize_recursive L (JStr s) = JStr (cl_nfc L s)"
| "normalize_recursive L (JObj d) = JObj (collapse (cl_nfc L) (map (\<lambda>kv. (fst kv, normalize_recursive L (snd kv))) d))"
| "normalize_recursive L (JArr js) = JArr (map (normalize_recursive L) js)"
| "normalize_recursive L j = j"

definition escape_char :: "char \<Rightarrow> string" where
  "escape_char c =
     (let n = (of_char c :: nat) in
      if n = 34 \<or> n = 92 then [CHR 0x5C, c]
      else if n = 10 then [CHR 0x5C, CHR ''n'']
      else if n = 13 then [CHR 0x5C, CHR ''r'']
      else if n = 9 then [CHR 0x5C, CHR ''t'']
      else if n = 8 then [CHR 0x5C, CHR ''b'']
      else if n = 12 then [CHR 0x5C, CHR ''f'']
      else if n < 32 then [CHR 0x5C, CHR ''u''] @ hex_digits 4 n
      else [c])"

definition json_quote :: "string \<Rightarrow> string" where
  "json_quote s = [CHR 0x22] @ concat (map escape_char s) @ [CHR 0x22]"

fun join_texts :: "char \<Rightarrow> string list \<Rightarrow> string" where
  "join_texts c [] = []"
| "join_texts c [x] = x"
| "join_texts c (x # y # zs) = x @ c # join_texts c (y # zs)"

fun json_dumps :: "canon_lib \<Rightarrow> jval \<Rightarrow> string" where
  "json_dumps L JNull = ''null''"
| "json_dumps L (JBool b) = (if b then ''true'' else ''false'')"
| "json_dumps L (JInt i) = show_int i"
| "json_dumps L (JFloat r) = cl_float L r"
| "json_dumps L (JStr s) = json_quote s"
| "json_dumps L (JArr js) = ''['' @ join_texts (CHR '','') (map (json_dumps L) js) @ '']''"
| "json_dumps L (JObj d) = ''{'' @ join_texts (CHR '','') (map (\<lambda>kv. json_quote (fst kv) @ '':'' @ json_dumps L (snd kv)) d) @ ''}''"

definition ascii_digit :: "char \<Rightarrow> bool" where
  "ascii_digit c \<longleftrightarrow> (let n = (of_char c :: nat) in 48 \<le> n \<and> n \<le> 57)"

definition closes_value :: "char \<Rightarrow> bool" where
  "closes_value c \<longleftrightarrow> c = CHR '','' \<or> c = CHR '']'' \<or> c = CHR ''}''"

text \<open>\<open>re.sub(r'(\d)\.0([,\]\}])', r'\1\2', s)\<close>: leftmost matches, the scan goes on behind each.\<close>

fun drop_point_zero :: "string \<Rightarrow> string" where
  "drop_point_zero (a # b # c # e # s) =
     (if ascii_digit a \<and> b = CHR ''.'' \<and> c = CHR ''0'' \<and> closes_value e then a # e # drop_point_zero s
      else a # drop_point_zero (b # c # e # s))"
| "drop_point_zero s = s"

definition json_encode :: "canon_lib \<Rightarrow> jval \<Rightarrow> string" where
  "json_encode L j = drop_point_zero (json_dumps L j)"

definition encode :: "canon_lib \<Rightarrow> jval \<Rightarrow> string" where
  "encode L j = json_encode L (normalize_recursive L j) @ [CHR 0x0A]"

definition idempotency_key :: "canon_lib \<Rightarrow> (string \<Rightarrow> string) \<Rightarrow> jval \<Rightarrow> string" where
  "idempotency_key L sha payload = sha (encode L (JObj [(''_payload'', payload)]))"

section \<open>One record, one line\<close>

definition no_control :: "string \<Rightarrow> bool" where
  "no_control s \<longleftrightarrow> list_all (\<lambda>c. 32 \<le> (of_char c :: nat)) s"

lemma no_control_simps [simp]:
  "no_control []" "no_control (c # s) \<longleftrightarrow> 32 \<le> (of_char c :: nat) \<and> no_control s" "no_control (s @ t) \<longleftrightarrow> no_control s \<and> no_control t"
  by (simp_all add: no_control_def)

lemma no_control_hex: "no_control (hex_digits k n)"
proof -
  have "32 \<le> (of_char (hex_char d) :: nat)" if "d < 16" for d
    using that by (simp add: hex_char_def)
  then show ?thesis by (induction k n rule: hex_digits.induct) simp_all
qed

lemma no_control_escape: "no_control (escape_char c)"
  by (simp add: escape_char_def Let_def no_control_hex)

lemma no_control_quote: "no_control (json_quote s)"
  by (induction s) (simp_all add: json_quote_def no_control_escape)

lemma no_control_join: "32 \<le> (of_char c :: nat) \<Longrightarrow> list_all no_control xs \<Longrightarrow> no_control (join_texts c xs)"
  by (induction c xs rule: join_texts.induct) auto

lemma no_control_show_nat: "no_control (show_nat n)"
proof -
  have "32 \<le> (of_char c :: nat)" if c: "c \<in> set (show_nat n)" for c
  proof -
    obtain d where "d < 10" "c = digit_char d" using show_nat_chars [OF c] by blast
    then show ?thesis by (simp add: digit_char_def)
  qed
  then show ?thesis by (simp add: no_control_def list_all_iff)
qed

lemma no_control_show_int: "no_control (show_int i)"
  by (simp add: show_int_def no_control_show_nat)

lemma no_control_dumps:
  assumes "\<forall>r. no_control (cl_float L r)"
  shows "no_control (json_dumps L j)"
  using assms
  by (induction L j rule: json_dumps.induct) (auto simp: no_control_show_int no_control_quote list_all_iff intro!: no_control_join)

lemma no_control_drop: "no_control s \<Longrightarrow> no_control (drop_point_zero s)"
  by (induction s rule: drop_point_zero.induct) auto

text \<open>
  C27: one record is one line. Whatever texts a record holds, its encoding has exactly one line feed and it is the last byte, provided the text
  of a float has no control character; a file of encoded records splits at its line feeds into the records.
\<close>

theorem encode_one_line:
  assumes "\<forall>r. no_control (cl_float L r)"
  shows "\<exists>line. encode L j = line @ [CHR 0x0A] \<and> CHR 0x0A \<notin> set line"
proof -
  have "no_control (json_encode L (normalize_recursive L j))"
    unfolding json_encode_def by (rule no_control_drop [OF no_control_dumps [OF assms]])
  then have "CHR 0x0A \<notin> set (json_encode L (normalize_recursive L j))"
    by (auto simp: no_control_def list_all_iff)
  then show ?thesis by (simp add: encode_def)
qed

lemma encode_one_line_witness:
  "\<exists>line. encode \<lparr>cl_nfc = \<lambda>s. s, cl_float = \<lambda>r. ''1.5''\<rparr> (JObj [(''text'', JStr [CHR 0x0A, CHR ''a''])]) = line @ [CHR 0x0A] \<and> CHR 0x0A \<notin> set line"
  by (rule encode_one_line) simp

section \<open>Key order\<close>

text \<open>Two values that differ in the order of the keys only, at any depth.\<close>

inductive reordered :: "jval \<Rightarrow> jval \<Rightarrow> bool" where
  same: "reordered j j"
| in_array: "list_all2 reordered js ks \<Longrightarrow> reordered (JArr js) (JArr ks)"
| in_object:
    "mset d' = mset d \<Longrightarrow> list_all2 (\<lambda>a b. fst a = fst b \<and> reordered (snd a) (snd b)) d' e \<Longrightarrow> reordered (JObj d) (JObj e)"

text \<open>What a Python dict is at every depth: no key twice.\<close>

fun keys_ok :: "jval \<Rightarrow> bool" where
  "keys_ok (JObj d) \<longleftrightarrow> distinct (map fst d) \<and> list_all (\<lambda>kv. keys_ok (snd kv)) d"
| "keys_ok (JArr js) \<longleftrightarrow> list_all keys_ok js"
| "keys_ok j \<longleftrightarrow> True"

lemma sort_key_perm:
  assumes "mset d' = mset d" "distinct (map fst d)"
  shows "sort_key fst d' = sort_key fst (d :: (string \<times> 'a) list)"
proof (rule sort_key_inj_key_eq)
  show "mset d' = mset (sort_key fst d)" using assms(1) by simp
  have "inj_on fst (set d)" using assms(2) by (simp add: distinct_map)
  then show "inj_on fst (set d')" using mset_eq_setD [OF assms(1)] by simp
qed simp

lemma normalize_reordered:
  "reordered v w \<Longrightarrow> keys_ok v \<Longrightarrow> normalize_recursive L v = normalize_recursive L w"
proof (induction v w rule: reordered.induct)
  case (in_array js ks)
  then have "list_all2 (\<lambda>a b. normalize_recursive L a = normalize_recursive L b) js ks"
    by (auto simp: list_all2_conv_all_nth list_all_length)
  then show ?case by (simp add: list_all2_conv_all_nth list_eq_iff_nth_eq)
next
  case (in_object d' d e)
  let ?f = "\<lambda>kv. (fst kv, normalize_recursive L (snd kv))"
  have ok: "keys_ok (snd kv)" if "kv \<in> set d'" for kv
    using that in_object.prems mset_eq_setD [OF in_object.hyps] by (auto simp: list_all_iff)
  have "map ?f d' = map ?f e"
    using in_object.IH ok by (auto simp: list_all2_conv_all_nth list_eq_iff_nth_eq)
  moreover have "sort_key fst (map ?f d') = sort_key fst (map ?f d)"
  proof (rule sort_key_perm)
    show "mset (map ?f d') = mset (map ?f d)" using in_object.hyps by simp
    show "distinct (map fst (map ?f d))" using in_object.prems by (simp add: comp_def)
  qed
  ultimately show ?case by (simp add: collapse_def)
qed simp

text \<open>
  C28: the encoding forgets the order in which a dict was built. Two records that differ in the order of keys only, at any depth, have the same bytes
  and the same idempotency key.
\<close>

theorem encode_key_order:
  assumes "reordered v w" "keys_ok v"
  shows "encode L v = encode L w \<and> idempotency_key L sha v = idempotency_key L sha w"
proof -
  from normalize_reordered [OF assms] have n: "normalize_recursive L v = normalize_recursive L w" .
  then show ?thesis by (simp add: encode_def idempotency_key_def)
qed

lemma encode_key_order_witness:
  "encode \<lparr>cl_nfc = \<lambda>s. s, cl_float = \<lambda>r. ''1.5''\<rparr> (JObj [(''b'', JInt 1), (''a'', JNull)]) =
     encode \<lparr>cl_nfc = \<lambda>s. s, cl_float = \<lambda>r. ''1.5''\<rparr> (JObj [(''a'', JNull), (''b'', JInt 1)]) \<and>
   idempotency_key \<lparr>cl_nfc = \<lambda>s. s, cl_float = \<lambda>r. ''1.5''\<rparr> rev (JObj [(''b'', JInt 1), (''a'', JNull)]) =
     idempotency_key \<lparr>cl_nfc = \<lambda>s. s, cl_float = \<lambda>r. ''1.5''\<rparr> rev (JObj [(''a'', JNull), (''b'', JInt 1)])"
  by (rule encode_key_order, rule in_object [of "[(''a'', JNull), (''b'', JInt 1)]"]) (simp_all add: same)

section \<open>Colliding records\<close>

text \<open>The first character is copied unless a match begins at it.\<close>

lemma drop_point_zero_skip:
  "\<not> (\<exists>e s. t = CHR ''.'' # CHR ''0'' # e # s \<and> ascii_digit a \<and> closes_value e) \<Longrightarrow> drop_point_zero (a # t) = a # drop_point_zero t"
  by (induction "a # t" rule: drop_point_zero.induct) auto

lemma drop_point_zero_match: "ascii_digit a \<Longrightarrow> closes_value e \<Longrightarrow> drop_point_zero (a # CHR ''.'' # CHR ''0'' # e # s) = a # e # drop_point_zero s"
  by simp

lemma digit_not_dot: "ascii_digit a \<Longrightarrow> a \<noteq> CHR ''.'' \<and> \<not> closes_value a"
  by (auto simp: ascii_digit_def closes_value_def)

lemma closes_not_dot: "closes_value e \<Longrightarrow> e \<noteq> CHR ''.'' \<and> e \<noteq> CHR ''0'' \<and> \<not> ascii_digit e"
  by (auto simp: ascii_digit_def closes_value_def)

lemma drop_point_zero_collides:
  assumes "ascii_digit a" "a \<noteq> CHR ''0''" "closes_value e"
  shows "drop_point_zero (p @ a # CHR ''.'' # CHR ''0'' # e # t) = drop_point_zero (p @ a # e # t)"
proof (induction p rule: length_induct)
  case (1 p)
  note a = digit_not_dot [OF assms(1)] and e = closes_not_dot [OF assms(3)]
  have base: "drop_point_zero (a # CHR ''.'' # CHR ''0'' # e # t) = a # e # drop_point_zero t" "drop_point_zero (a # e # t) = a # e # drop_point_zero t"
    using assms a e by (simp_all add: drop_point_zero_skip)
  show ?case
  proof (cases p)
    case Nil
    then show ?thesis using base by simp
  next
    case (Cons x q)
    have q: "drop_point_zero (q @ a # CHR ''.'' # CHR ''0'' # e # t) = drop_point_zero (q @ a # e # t)" using 1 Cons by simp
    show ?thesis
    proof (cases "\<exists>e' q'. q = CHR ''.'' # CHR ''0'' # e' # q' \<and> ascii_digit x \<and> closes_value e'")
      case True
      then obtain e' q' where m: "q = CHR ''.'' # CHR ''0'' # e' # q'" "ascii_digit x" "closes_value e'" by blast
      have "drop_point_zero (q' @ a # CHR ''.'' # CHR ''0'' # e # t) = drop_point_zero (q' @ a # e # t)" using 1 Cons m(1) by simp
      then show ?thesis using m(2,3) by (simp add: Cons m(1))
    next
      case False
      have "\<not> (\<exists>e' s. q @ a # u = CHR ''.'' # CHR ''0'' # e' # s \<and> ascii_digit x \<and> closes_value e')" for u
        using False a assms(2) by (auto simp: append_eq_Cons_conv)
      then show ?thesis using q by (simp add: Cons drop_point_zero_skip)
    qed
  qed
qed

text \<open>
  C40: two payloads, one idempotency key. The substitution that takes \<open>.0\<close> off whole floats runs over the whole line, inside texts too: two payloads
  whose texts differ only in \<open>1.0,\<close> against \<open>1,\<close> have the same bytes and the same key, and a text holding \<open>1.0,\<close> never reaches the feed as it was.
\<close>

theorem point_zero_collides:
  assumes "cl_nfc L k = k" "cl_nfc L (s @ ''1.0,'' @ t) = s @ ''1.0,'' @ t" "cl_nfc L (s @ ''1,'' @ t) = s @ ''1,'' @ t"
  shows "encode L (JObj [(k, JStr (s @ ''1.0,'' @ t))]) = encode L (JObj [(k, JStr (s @ ''1,'' @ t))])"
proof -
  let ?e = "\<lambda>s. concat (map escape_char s)"
  let ?p = "''{'' @ json_quote k @ '':'' @ [CHR 0x22] @ ?e s" and ?q = "?e t @ [CHR 0x22] @ ''}''"
  have c: "escape_char (CHR ''1'') = ''1''" "escape_char (CHR ''.'') = ''.''" "escape_char (CHR ''0'') = ''0''" "escape_char (CHR '','') = '',''"
    by (simp_all add: escape_char_def)
  have "json_dumps L (JObj [(k, JStr (s @ ''1.0,'' @ t))]) = ?p @ CHR ''1'' # CHR ''.'' # CHR ''0'' # CHR '','' # ?q"
    by (simp add: json_quote_def c)
  moreover have "json_dumps L (JObj [(k, JStr (s @ ''1,'' @ t))]) = ?p @ CHR ''1'' # CHR '','' # ?q"
    by (simp add: json_quote_def c)
  ultimately show ?thesis
    using assms drop_point_zero_collides [of "CHR ''1''" "CHR '',''" ?p ?q]
    by (simp add: encode_def json_encode_def collapse_def ascii_digit_def closes_value_def)
qed

lemma point_zero_collides_witness:
  "encode \<lparr>cl_nfc = \<lambda>s. s, cl_float = \<lambda>r. ''1.5''\<rparr> (JObj [(''note'', JStr (''xG '' @ ''1.0,'' @ '' late goal''))]) =
   encode \<lparr>cl_nfc = \<lambda>s. s, cl_float = \<lambda>r. ''1.5''\<rparr> (JObj [(''note'', JStr (''xG '' @ ''1,'' @ '' late goal''))])"
  by (rule point_zero_collides) simp_all

text \<open>
  Keys are sorted before they are normalised: the bytes of a record whose keys are decomposed can differ from those of the same record
  with composed keys.
\<close>

lemma sorted_before_normalised:
  assumes "k < m" "m < cl_nfc L k" "cl_nfc L m = m" "cl_nfc L (cl_nfc L k) = cl_nfc L k"
  shows "normalize_recursive L (JObj [(k, JInt 1), (m, JInt 2)]) = JObj [(cl_nfc L k, JInt 1), (m, JInt 2)] \<and>
         normalize_recursive L (JObj [(cl_nfc L k, JInt 1), (m, JInt 2)]) = JObj [(m, JInt 2), (cl_nfc L k, JInt 1)]"
  using assms by (auto simp: collapse_def)

end
