(* ===== verification/Feed_Writer.thy ===== *)
theory Feed_Writer
  imports Canonical
begin

text \<open>
  The feed writer (\<open>common/feeds/writer.py\<close>), the file rotator (\<open>rotator.py\<close>) and the pool that throttles writers (\<open>writer_pool.py\<close>). The directory
  of one plane and source maps file names to contents; the manifest is the record its JSON holds. The Redis client, the compressor, SHA-256 and
  the canonical encoder's library are parameters. Reads, writes, renames and deletions of files that are there succeed; fsync, logging and spans are
  not modelled.
\<close>

section \<open>Files\<close>

record feed_manifest =
  fm_plane :: string
  fm_source :: string
  fm_writer_id :: string
  fm_lease_holder :: string
  fm_last_rotation_at :: string
  fm_current_date :: string
  fm_files_written :: "string list"
  fm_records_written :: nat
  fm_bytes_written :: nat
  fm_disk_usage_pct :: real
  fm_clock_skew_ms :: int
  fm_fairness_violations :: int
  fm_parts_per_date :: "(string \<times> int) list"
  fm_revision :: string

datatype file_body = Bytes string | ManifestDoc feed_manifest

type_synonym feed_dir = "(string, file_body) odict"

definition file_exists :: "feed_dir \<Rightarrow> string \<Rightarrow> bool" where
  "file_exists dir n \<longleftrightarrow> map_of dir n \<noteq> None"

definition read_bytes :: "feed_dir \<Rightarrow> string \<Rightarrow> string" where
  "read_bytes dir n = (case map_of dir n of Some (Bytes s) \<Rightarrow> s | _ \<Rightarrow> [])"

text \<open>\<open>open(name, "ab")\<close> creates the file, a write through the handle appends to it.\<close>

definition append_bytes :: "feed_dir \<Rightarrow> string \<Rightarrow> string \<Rightarrow> feed_dir" where
  "append_bytes dir n s = od_set n (Bytes (read_bytes dir n @ s)) dir"

definition has_suffix :: "string \<Rightarrow> string \<Rightarrow> bool" where
  "has_suffix suffix n \<longleftrightarrow> length suffix \<le> length n \<and> drop (length n - length suffix) n = suffix"

text \<open>\<open>Path.with_suffix\<close>: the last dot starts the old suffix, unless it is the first or the last character.\<close>

definition with_suffix :: "string \<Rightarrow> string \<Rightarrow> string" where
  "with_suffix n suffix =
     (let tail = takeWhile (\<lambda>c. c \<noteq> CHR ''.'') (rev n); stem = rev (drop (Suc (length tail)) (rev n)) in
      if CHR ''.'' \<notin> set n \<or> tail = [] \<or> stem = [] then n @ suffix else stem @ suffix)"

text \<open>\<open>name.replace(".ndjson", "")\<close>: every occurrence.\<close>

function remove_ndjson :: "string \<Rightarrow> string" where
  "remove_ndjson s =
     (if s = [] then []
      else if take 7 s = ''.ndjson'' then remove_ndjson (drop 7 s)
      else hd s # remove_ndjson (tl s))"
  by pat_completeness auto

termination remove_ndjson
  by (relation "measure length") auto

declare remove_ndjson.simps [simp del]

section \<open>Rotation\<close>

record rotator =
  ro_codec :: string
  ro_level :: int
  ro_last_bytes :: nat
  ro_last_file :: "string option"
  ro_last_checksum :: "string option"

record zlib =
  zl_zstd :: "(int \<Rightarrow> string \<Rightarrow> string) option"
  zl_gzip :: "int \<Rightarrow> string \<Rightarrow> string"
  zl_sha256 :: "string \<Rightarrow> string"

record rotation =
  rt_file :: string
  rt_bytes :: nat
  rt_checksum :: "string option"
  rt_sidecar :: "string option"
  rt_status :: string

text \<open>\<open>_compress_file\<close>: without the \<open>zstandard\<close> package, or with another codec name, the file itself is returned.\<close>

definition compress_file :: "zlib \<Rightarrow> rotator \<Rightarrow> feed_dir \<Rightarrow> string \<Rightarrow> string \<times> feed_dir" where
  "compress_file Z ro dir n =
     (if ro_codec ro = ''zstd'' then
        (case zl_zstd Z of
           None \<Rightarrow> (n, dir)
         | Some z \<Rightarrow> (let m = with_suffix n ''.ndjson.zst.tmp'' in (m, od_set m (Bytes (z (ro_level ro) (read_bytes dir n))) dir)))
      else if ro_codec ro = ''gzip'' then
        (let m = with_suffix n ''.ndjson.gz.tmp'' in (m, od_set m (Bytes (zl_gzip Z (ro_level ro) (read_bytes dir n))) dir))
      else (n, dir))"

definition write_checksum_sidecar :: "zlib \<Rightarrow> feed_dir \<Rightarrow> string \<Rightarrow> (string \<times> string) \<times> feed_dir" where
  "write_checksum_sidecar Z dir n =
     (let checksum = zl_sha256 Z (read_bytes dir n); sidecar = with_suffix n ''.sha256'' in
      ((checksum, sidecar), od_set sidecar (Bytes (checksum @ ''  '' @ n @ [CHR 0x0A])) dir))"

definition rotate_file :: "zlib \<Rightarrow> rotator \<Rightarrow> feed_dir \<Rightarrow> string \<Rightarrow> rotation res \<times> rotator \<times> feed_dir" where
  "rotate_file Z ro dir n =
     (if \<not> file_exists dir n
      then (Inr \<lparr>rt_file = n, rt_bytes = 0, rt_checksum = None, rt_sidecar = None, rt_status = ''not_found''\<rparr>, ro, dir)
      else
        (let original = length (read_bytes dir n);
             (m, dir1) = (if ro_codec ro = ''off'' then (n, dir) else compress_file Z ro dir n);
             ((checksum, sidecar), dir2) = write_checksum_sidecar Z dir1 m;
             done_with = (\<lambda>rotated dir3.
               (Inr \<lparr>rt_file = rotated, rt_bytes = original, rt_checksum = Some checksum, rt_sidecar = Some sidecar, rt_status = ''success''\<rparr>,
                ro\<lparr>ro_last_bytes := original, ro_last_file := Some rotated, ro_last_checksum := Some checksum\<rparr>, dir3)) in
         if ro_codec ro = ''off'' then done_with n dir2
         else
           (let dir3 = (if file_exists dir2 n then od_del n dir2 else dir2) in
            case map_of dir3 m of
              None \<Rightarrow> (Inl OSError, ro, dir3)
            | Some body \<Rightarrow> done_with (with_suffix n ''.ndjson.zst'') (od_set (with_suffix n ''.ndjson.zst'') body (od_del m dir3)))))"

section \<open>Crash recovery\<close>

record half_states =
  hs_tmp_files :: "string list"
  hs_partial_rotations :: "(string \<times> string \<times> string) list"
  hs_missing_sidecars :: "string list"

definition sealed_name :: "string \<Rightarrow> string" where
  "sealed_name n = remove_ndjson n @ ''.ndjson.zst''"

definition detect_half_states :: "feed_dir \<Rightarrow> half_states" where
  "detect_half_states dir =
     \<lparr>hs_tmp_files = filter (\<lambda>n. n = ''manifest.json.tmp'') (od_keys dir),
      hs_partial_rotations =
        map (\<lambda>n. (remove_ndjson n, n, sealed_name n)) (filter (\<lambda>n. file_exists dir (sealed_name n)) (filter (has_suffix ''.ndjson'') (od_keys dir))),
      hs_missing_sidecars = filter (\<lambda>n. \<not> file_exists dir (with_suffix n ''.sha256'')) (filter (has_suffix ''.ndjson.zst'') (od_keys dir))\<rparr>"

definition decide_recovery_action :: "half_states \<Rightarrow> string" where
  "decide_recovery_action h =
     (if hs_tmp_files h \<noteq> [] then ''ROLLBACK''
      else if hs_partial_rotations h \<noteq> [] then ''ROLLBACK''
      else if hs_missing_sidecars h \<noteq> [] then ''ROLLBACK''
      else ''RESUME'')"

definition unlink_all :: "string list \<Rightarrow> feed_dir \<Rightarrow> feed_dir" where
  "unlink_all ns dir = fold od_del ns dir"

definition perform_recovery :: "string \<Rightarrow> half_states \<Rightarrow> feed_dir \<Rightarrow> feed_dir" where
  "perform_recovery action h dir =
     (if action = ''ROLLBACK''
      then unlink_all (hs_missing_sidecars h) (unlink_all (map (\<lambda>(date, live, sealed). live) (hs_partial_rotations h)) (unlink_all (hs_tmp_files h) dir))
      else dir)"

text \<open>The three steps of \<open>open\<close>.\<close>

definition recover :: "feed_dir \<Rightarrow> feed_dir" where
  "recover dir = (let h = detect_half_states dir in perform_recovery (decide_recovery_action h) h dir)"

lemma unlink_all_filter: "unlink_all ns dir = filter (\<lambda>f. fst f \<notin> set ns) dir"
  unfolding unlink_all_def
  by (induction ns arbitrary: dir) (auto simp: od_del_def intro: filter_cong)

text \<open>What the recovery deletes.\<close>

definition doomed :: "feed_dir \<Rightarrow> string \<Rightarrow> bool" where
  "doomed dir n \<longleftrightarrow>
     n = ''manifest.json.tmp'' \<or> has_suffix ''.ndjson'' n \<and> file_exists dir (sealed_name n) \<or>
     has_suffix ''.ndjson.zst'' n \<and> \<not> file_exists dir (with_suffix n ''.sha256'')"

lemma recover_filter: "recover dir = filter (\<lambda>f. \<not> doomed dir (fst f)) dir"
proof -
  have keep: "filter (\<lambda>f. \<not> doomed dir (fst f)) dir = dir" if "\<And>n. n \<in> set (od_keys dir) \<Longrightarrow> \<not> doomed dir n"
    using that by (intro filter_True) auto
  let ?h = "detect_half_states dir"
  show ?thesis
  proof (cases "decide_recovery_action ?h = ''ROLLBACK''")
    case True
    then show ?thesis
      by (auto simp: recover_def Let_def perform_recovery_def unlink_all_filter detect_half_states_def doomed_def image_iff intro!: filter_cong)
  next
    case False
    then have "hs_tmp_files ?h = []" "hs_partial_rotations ?h = []" "hs_missing_sidecars ?h = []"
      by (auto simp: decide_recovery_action_def split: if_splits)
    then have "\<not> doomed dir n" if "n \<in> set (od_keys dir)" for n
      using that by (auto simp: detect_half_states_def doomed_def filter_empty_conv)
    then show ?thesis using False keep by (simp add: recover_def perform_recovery_def)
  qed
qed

lemma map_of_filter_fst: "map_of (filter (\<lambda>f. P (fst f)) d) n = (if P n then map_of d n else None)"
  by (induction d) auto

lemma map_of_recover: "map_of (recover dir) n = (if doomed dir n then None else map_of dir n)"
  using map_of_filter_fst [of "\<lambda>n. \<not> doomed dir n" dir n] by (simp add: recover_filter)

lemma has_suffix_last: "has_suffix (s @ [c]) n \<Longrightarrow> n \<noteq> [] \<and> last n = c"
  by (metis append_is_Nil_conv append_take_drop_id has_suffix_def last_snoc last_append not_Cons_self2 snoc_eq_iff_butlast)

lemma with_suffix_split:
  assumes "CHR ''.'' \<notin> set b" "b \<noteq> []" "a \<noteq> []"
  shows "with_suffix (a @ CHR ''.'' # b) suffix = a @ suffix"
proof -
  have "\<forall>c \<in> set (rev b). c \<noteq> CHR ''.''" using assms(1) by auto
  from takeWhile_stop(1) [OF this, of "CHR ''.''" "rev a"] show ?thesis
    using assms(2,3) by (simp add: with_suffix_def Let_def)
qed

lemma with_suffix_ends: "\<exists>a. with_suffix n suffix = a @ suffix"
  by (auto simp: with_suffix_def Let_def)

lemma sidecar_kept: "\<not> doomed dir (with_suffix n ''.sha256'')"
proof -
  obtain a where n: "with_suffix n ''.sha256'' = a @ ''.sha256''" using with_suffix_ends by blast
  have "last (with_suffix n ''.sha256'') = CHR ''6''" by (simp add: n)
  moreover from this have "with_suffix n ''.sha256'' \<noteq> ''manifest.json.tmp''" by auto
  ultimately have "\<not> has_suffix ''.ndjson'' (with_suffix n ''.sha256'')" "\<not> has_suffix ''.ndjson.zst'' (with_suffix n ''.sha256'')"
    "with_suffix n ''.sha256'' \<noteq> ''manifest.json.tmp''"
    using has_suffix_last [of "''.ndjso''" "CHR ''n''" "with_suffix n ''.sha256''"] has_suffix_last [of "''.ndjson.zs''" "CHR ''t''" "with_suffix n ''.sha256''"]
    by auto
  then show ?thesis by (simp add: doomed_def)
qed

text \<open>
  C29: crash recovery on opening. It deletes exactly an unfinished manifest, every live file whose sealed file is there, and every sealed file without the
  sidecar it looks for, whatever order the directory is listed in; everything else is untouched, and a second opening finds nothing to do.
\<close>

theorem recovery_exact:
  "map_of (recover dir) n = (if doomed dir n then None else map_of dir n) \<and>
   decide_recovery_action (detect_half_states (recover dir)) = ''RESUME'' \<and> recover (recover dir) = recover dir"
proof -
  have ok: "\<not> doomed (recover dir) m" if "m \<in> set (od_keys (recover dir))" for m
  proof
    assume d: "doomed (recover dir) m"
    have m: "\<not> doomed dir m" using that by (auto simp: recover_filter)
    have sub: "file_exists (recover dir) k \<Longrightarrow> file_exists dir k" for k by (simp add: file_exists_def map_of_recover split: if_splits)
    have "file_exists (recover dir) (with_suffix m ''.sha256'') = file_exists dir (with_suffix m ''.sha256'')"
      by (simp add: file_exists_def map_of_recover sidecar_kept)
    with d m sub show False by (auto simp: doomed_def)
  qed
  then have "decide_recovery_action (detect_half_states (recover dir)) = ''RESUME''"
    by (auto simp: decide_recovery_action_def detect_half_states_def doomed_def filter_empty_conv)
  moreover from this have "recover (recover dir) = recover dir"
    by (simp add: recover_def [of "recover dir"] perform_recovery_def Let_def)
  ultimately show ?thesis by (simp add: map_of_recover)
qed

lemma dated_names:
  assumes "CHR ''.'' \<notin> set d" "d \<noteq> []"
  shows "with_suffix (d @ ''.ndjson'') s = d @ s" "with_suffix (d @ ''.ndjson.zst.tmp'') s = d @ ''.ndjson.zst'' @ s"
    "with_suffix (d @ ''.ndjson.zst'') s = d @ ''.ndjson'' @ s"
  using with_suffix_split [of "''ndjson''" d s] with_suffix_split [of "''tmp''" "d @ ''.ndjson.zst''" s] with_suffix_split [of "''zst''" "d @ ''.ndjson''" s] assms
  by simp_all

lemma rotate_zstd:
  assumes d: "CHR ''.'' \<notin> set d" "d \<noteq> []"
    and "map_of dir (d @ ''.ndjson'') = Some (Bytes s)" "ro_codec ro = ''zstd''" "zl_zstd Z = Some z"
  shows "\<exists>r ro' dir'. rotate_file Z ro dir (d @ ''.ndjson'') = (Inr r, ro', dir') \<and> rt_status r = ''success'' \<and>
     map_of dir' = (map_of dir)(d @ ''.ndjson.zst'' \<mapsto> Bytes (z (ro_level ro) s), d @ ''.ndjson'' := None, d @ ''.ndjson.zst.tmp'' := None,
       d @ ''.ndjson.zst.sha256'' \<mapsto> Bytes (zl_sha256 Z (z (ro_level ro) s) @ ''  '' @ (d @ ''.ndjson.zst.tmp'') @ [CHR 0x0A]))"
  using assms(3-5)
  by (simp add: rotate_file_def file_exists_def compress_file_def write_checksum_sidecar_def Let_def dated_names [OF d] od_simps read_bytes_def
      fun_eq_iff)

text \<open>
  C30: a sealed file does not survive the next opening. After a successful rotation of a day's file the data is in \<open><day>.ndjson.zst\<close> alone and its checksum in
  \<open><day>.ndjson.zst.sha256\<close>; recovery looks for \<open><day>.ndjson.sha256\<close>, does not find it, and deletes the sealed file.
\<close>

theorem sealed_file_deleted:
  assumes d: "CHR ''.'' \<notin> set d" "d \<noteq> []"
    and "map_of dir (d @ ''.ndjson'') = Some (Bytes s)" "\<not> file_exists dir (d @ ''.ndjson.sha256'')"
    and "ro_codec ro = ''zstd''" "zl_zstd Z = Some z"
  shows "\<exists>r ro' dir'. rotate_file Z ro dir (d @ ''.ndjson'') = (Inr r, ro', dir') \<and> rt_status r = ''success'' \<and>
     map_of dir' (d @ ''.ndjson.zst'') = Some (Bytes (z (ro_level ro) s)) \<and> map_of dir' (d @ ''.ndjson'') = None \<and>
     file_exists dir' (d @ ''.ndjson.zst.sha256'') \<and>
     map_of (recover dir') (d @ ''.ndjson.zst'') = None \<and> map_of (recover dir') (d @ ''.ndjson'') = None"
proof -
  from rotate_zstd [OF d assms(3,5,6)] obtain r ro' dir' where
    r: "rotate_file Z ro dir (d @ ''.ndjson'') = (Inr r, ro', dir')" "rt_status r = ''success''" and
    dir': "map_of dir' = (map_of dir)(d @ ''.ndjson.zst'' \<mapsto> Bytes (z (ro_level ro) s), d @ ''.ndjson'' := None, d @ ''.ndjson.zst.tmp'' := None,
       d @ ''.ndjson.zst.sha256'' \<mapsto> Bytes (zl_sha256 Z (z (ro_level ro) s) @ ''  '' @ (d @ ''.ndjson.zst.tmp'') @ [CHR 0x0A]))" by blast
  have "doomed dir' (d @ ''.ndjson.zst'')"
    using assms(4) by (simp add: doomed_def file_exists_def dir' dated_names [OF d] has_suffix_def)
  then show ?thesis using r by (simp add: map_of_recover file_exists_def dir')
qed

text \<open>
  Rotating without a compressor destroys the file. With the \<open>zstandard\<close> package absent (no requirements file names it) or an unknown codec name,
  \<open>rotate_file\<close> deletes the live file, has nothing to rename and raises: of the data only a checksum is left.
\<close>

lemma missing_codec_deletes:
  assumes d: "CHR ''.'' \<notin> set d" "d \<noteq> []"
    and "map_of dir (d @ ''.ndjson'') = Some (Bytes s)"
    and "ro_codec ro = ''zstd'' \<and> zl_zstd Z = None \<or> ro_codec ro \<notin> {''off'', ''zstd'', ''gzip''}"
  shows "\<exists>dir'. rotate_file Z ro dir (d @ ''.ndjson'') = (Inl OSError, ro, dir') \<and>
     map_of dir' = (map_of dir)(d @ ''.ndjson'' := None, d @ ''.sha256'' \<mapsto> Bytes (zl_sha256 Z s @ ''  '' @ (d @ ''.ndjson'') @ [CHR 0x0A]))"
proof -
  have "ro_codec ro \<noteq> ''off''" "compress_file Z ro dir' (d @ ''.ndjson'') = (d @ ''.ndjson'', dir')" for dir'
    using assms(4) by (auto simp: compress_file_def)
  with assms(3) show ?thesis
    by (simp add: rotate_file_def file_exists_def write_checksum_sidecar_def Let_def dated_names [OF d] od_simps read_bytes_def fun_eq_iff)
qed

lemma sealed_file_deleted_witness:
  "\<exists>r ro' dir'. rotate_file \<lparr>zl_zstd = Some (\<lambda>l s. rev s), zl_gzip = \<lambda>l s. s, zl_sha256 = \<lambda>s. ''00''\<rparr>
       \<lparr>ro_codec = ''zstd'', ro_level = 9, ro_last_bytes = 0, ro_last_file = None, ro_last_checksum = None\<rparr>
       [(''2026-06-09.ndjson'', Bytes ''{}'')] (''2026-06-09'' @ ''.ndjson'') = (Inr r, ro', dir') \<and> rt_status r = ''success'' \<and>
     map_of dir' (''2026-06-09'' @ ''.ndjson.zst'') = Some (Bytes ''}{'') \<and> map_of (recover dir') (''2026-06-09'' @ ''.ndjson.zst'') = None"
proof -
  let ?Z = "\<lparr>zl_zstd = Some (\<lambda>l s. rev s), zl_gzip = \<lambda>l s. s, zl_sha256 = \<lambda>s. ''00''\<rparr>"
  let ?ro = "\<lparr>ro_codec = ''zstd'', ro_level = 9, ro_last_bytes = 0, ro_last_file = None, ro_last_checksum = None\<rparr>"
  have "\<exists>r ro' dir'. rotate_file ?Z ?ro [(''2026-06-09.ndjson'', Bytes ''{}'')] (''2026-06-09'' @ ''.ndjson'') = (Inr r, ro', dir') \<and>
     rt_status r = ''success'' \<and> map_of dir' (''2026-06-09'' @ ''.ndjson.zst'') = Some (Bytes ((\<lambda>l. rev) (ro_level ?ro) ''{}'')) \<and>
     map_of dir' (''2026-06-09'' @ ''.ndjson'') = None \<and> file_exists dir' (''2026-06-09'' @ ''.ndjson.zst.sha256'') \<and>
     map_of (recover dir') (''2026-06-09'' @ ''.ndjson.zst'') = None \<and> map_of (recover dir') (''2026-06-09'' @ ''.ndjson'') = None"
    by (rule sealed_file_deleted) (simp_all add: file_exists_def)
  then show ?thesis by auto
qed

section \<open>Leases\<close>

text \<open>
  The Redis client: each call takes the server's state and the time. \<open>set\<close> with \<open>nx\<close> or \<open>xx\<close> answers whether it stored; a call may raise.
\<close>

datatype set_mode = NX | XX

record 'r redis_lib =
  rd_get :: "'r \<Rightarrow> real \<Rightarrow> string \<Rightarrow> string option res"
  rd_set :: "'r \<Rightarrow> real \<Rightarrow> string \<Rightarrow> string \<Rightarrow> set_mode \<Rightarrow> int \<Rightarrow> bool res \<times> 'r"
  rd_delete :: "'r \<Rightarrow> real \<Rightarrow> string \<Rightarrow> unit res \<times> 'r"

record writer =
  wr_plane :: string
  wr_source :: string
  wr_id :: string
  wr_renew_ms :: int
  wr_ttl_ms :: int
  wr_file :: "string option"
  wr_handle_closed :: bool
  wr_is_open :: bool
  wr_lease_held :: bool
  wr_last_renewal :: real
  wr_manifest :: "feed_manifest option"

text \<open>What the writers share: the Redis server, if the writer was given a client, and the directory.\<close>

record 'r feed_world =
  fw_redis :: "'r option"
  fw_dir :: feed_dir

definition new_writer :: "string \<Rightarrow> string \<Rightarrow> string \<Rightarrow> int \<Rightarrow> int \<Rightarrow> writer" where
  "new_writer plane source writer_id renew_ms ttl_ms =
     \<lparr>wr_plane = plane, wr_source = source, wr_id = writer_id, wr_renew_ms = renew_ms, wr_ttl_ms = ttl_ms, wr_file = None,
      wr_handle_closed = True, wr_is_open = False, wr_lease_held = False, wr_last_renewal = 0, wr_manifest = None\<rparr>"

definition lease_key :: "writer \<Rightarrow> string" where
  "lease_key w = ''emitter:lease:'' @ wr_plane w @ '':'' @ wr_source w"

definition try_acquire_lease :: "'r redis_lib \<Rightarrow> writer \<Rightarrow> 'r feed_world \<Rightarrow> real \<Rightarrow> bool \<times> 'r feed_world" where
  "try_acquire_lease R w W now =
     (case fw_redis W of
        None \<Rightarrow> (True, W)
      | Some st \<Rightarrow>
          (case rd_set R st now (lease_key w) (wr_id w) NX (wr_ttl_ms w) of
             (Inl e, st') \<Rightarrow> (False, W\<lparr>fw_redis := Some st'\<rparr>)
           | (Inr ok, st') \<Rightarrow> (ok, W\<lparr>fw_redis := Some st'\<rparr>)))"

definition renew_lease_if_needed :: "'r redis_lib \<Rightarrow> writer \<Rightarrow> 'r feed_world \<Rightarrow> real \<Rightarrow> bool \<times> writer \<times> 'r feed_world" where
  "renew_lease_if_needed R w W now =
     (if (now - wr_last_renewal w) * 1000 < of_int (wr_renew_ms w) then (True, w, W)
      else
        (case fw_redis W of
           None \<Rightarrow> (True, w, W)
         | Some st \<Rightarrow>
             (case rd_get R st now (lease_key w) of
                Inl e \<Rightarrow> (False, w, W)
              | Inr holder \<Rightarrow>
                  if (case holder of None \<Rightarrow> False | Some h \<Rightarrow> h \<noteq> [] \<and> h \<noteq> wr_id w) then (False, w, W)
                  else
                    (case rd_set R st now (lease_key w) (wr_id w) XX (wr_ttl_ms w) of
                       (Inl e, st') \<Rightarrow> (False, w, W\<lparr>fw_redis := Some st'\<rparr>)
                     | (Inr ok, st') \<Rightarrow> (True, w\<lparr>wr_last_renewal := now\<rparr>, W\<lparr>fw_redis := Some st'\<rparr>)))))"

definition release_lease :: "'r redis_lib \<Rightarrow> writer \<Rightarrow> 'r feed_world \<Rightarrow> real \<Rightarrow> 'r feed_world" where
  "release_lease R w W now =
     (case fw_redis W of
        None \<Rightarrow> W
      | Some st \<Rightarrow>
          if \<not> wr_lease_held w then W
          else
            (case rd_get R st now (lease_key w) of
               Inr (Some h) \<Rightarrow> if h = wr_id w \<and> h \<noteq> [] then W\<lparr>fw_redis := Some (snd (rd_delete R st now (lease_key w)))\<rparr> else W
             | _ \<Rightarrow> W))"

section \<open>The writer\<close>

text \<open>\<open>_TRACEPARENT_PATTERN\<close>; its \<open>$\<close> also matches before a final line feed.\<close>

definition is_valid_traceparent :: "string \<Rightarrow> bool" where
  "is_valid_traceparent s =
     (let t = (if s \<noteq> [] \<and> last s = CHR 0x0A then butlast s else s) in
      length t = 55 \<and> take 3 t = ''00-'' \<and> list_all is_hex (take 32 (drop 3 t)) \<and> t ! 35 = CHR ''-'' \<and>
      list_all is_hex (take 16 (drop 36 t)) \<and> t ! 52 = CHR ''-'' \<and> list_all is_hex (drop 53 t))"

text \<open>Matching a value that is not a text raises.\<close>

definition extract_trace_context :: "jobj \<Rightarrow> jobj option res" where
  "extract_trace_context r =
     (case jget_or r ''trace_context'' JNull of
        JObj tc \<Rightarrow>
          if tc = [] then Inr None
          else
            (let tp = jget_or tc ''traceparent'' JNull in
             if \<not> py_bool tp then Inr (Some tc)
             else (case tp of JStr s \<Rightarrow> Inr (if is_valid_traceparent s then Some tc else None) | _ \<Rightarrow> Inl TypeError))
      | _ \<Rightarrow> Inr None)"

definition load_or_create_manifest :: "writer \<Rightarrow> feed_dir \<Rightarrow> string \<Rightarrow> string \<Rightarrow> feed_manifest res" where
  "load_or_create_manifest w dir iso_now today =
     (case map_of dir ''manifest.json'' of
        Some (ManifestDoc m) \<Rightarrow> Inr m
      | Some (Bytes s) \<Rightarrow> Inl ValueError
      | None \<Rightarrow>
          Inr \<lparr>fm_plane = wr_plane w, fm_source = wr_source w, fm_writer_id = wr_id w, fm_lease_holder = [], fm_last_rotation_at = iso_now,
               fm_current_date = today, fm_files_written = [], fm_records_written = 0, fm_bytes_written = 0, fm_disk_usage_pct = 0,
               fm_clock_skew_ms = 0, fm_fairness_violations = 0, fm_parts_per_date = [], fm_revision = ''v1''\<rparr>)"

definition manifest_holder :: "'r redis_lib \<Rightarrow> writer \<Rightarrow> 'r feed_world \<Rightarrow> real \<Rightarrow> string \<Rightarrow> string" where
  "manifest_holder R w W now known =
     (if known \<noteq> [] then known
      else
        (case fw_redis W of
           None \<Rightarrow> wr_id w
         | Some st \<Rightarrow> (case rd_get R st now (lease_key w) of Inr (Some h) \<Rightarrow> if h = [] then wr_id w else h | _ \<Rightarrow> wr_id w)))"

definition save_manifest :: "'r redis_lib \<Rightarrow> writer \<Rightarrow> 'r feed_world \<Rightarrow> real \<Rightarrow> string \<Rightarrow> writer \<times> 'r feed_world" where
  "save_manifest R w W now iso_now =
     (case wr_manifest w of
        None \<Rightarrow> (w, W)
      | Some m \<Rightarrow>
          (let m' = m\<lparr>fm_last_rotation_at := iso_now, fm_lease_holder := manifest_holder R w W now (fm_lease_holder m)\<rparr>;
               tmp = with_suffix ''manifest.json'' ''.json.tmp'' in
           (w\<lparr>wr_manifest := Some m'\<rparr>, W\<lparr>fw_dir := od_set ''manifest.json'' (ManifestDoc m') (od_del tmp (fw_dir W))\<rparr>)))"

definition open_writer :: "'r redis_lib \<Rightarrow> writer \<Rightarrow> 'r feed_world \<Rightarrow> real \<Rightarrow> string \<Rightarrow> string \<Rightarrow> unit res \<times> writer \<times> 'r feed_world" where
  "open_writer R w W now iso_now today =
     (if wr_is_open w then (Inl RuntimeError, w, W)
      else
        (case try_acquire_lease R w W now of
           (False, W1) \<Rightarrow> (Inl RuntimeError, w, W1)
         | (True, W1) \<Rightarrow>
             (let w1 = w\<lparr>wr_lease_held := True, wr_last_renewal := now\<rparr>; W2 = W1\<lparr>fw_dir := recover (fw_dir W1)\<rparr> in
              case load_or_create_manifest w1 (fw_dir W2) iso_now today of
                Inl e \<Rightarrow> (Inl e, w1, W2)
              | Inr m \<Rightarrow>
                  (let f = today @ ''.ndjson'' in
                   (Inr (), w1\<lparr>wr_manifest := Some m, wr_file := Some f, wr_handle_closed := False, wr_is_open := True\<rparr>,
                    W2\<lparr>fw_dir := append_bytes (fw_dir W2) f []\<rparr>)))))"

definition close_writer :: "'r redis_lib \<Rightarrow> writer \<Rightarrow> 'r feed_world \<Rightarrow> real \<Rightarrow> string \<Rightarrow> writer \<times> 'r feed_world" where
  "close_writer R w W now iso_now =
     (if \<not> wr_is_open w then (w, W)
      else
        (let (w1, W1) = save_manifest R (w\<lparr>wr_handle_closed := True\<rparr>) W now iso_now in
         (w1\<lparr>wr_is_open := False, wr_lease_held := False\<rparr>, release_lease R w1 W1 now)))"

definition should_rotate :: "writer \<Rightarrow> string \<Rightarrow> bool" where
  "should_rotate w today \<longleftrightarrow> (case wr_manifest w of None \<Rightarrow> False | Some m \<Rightarrow> today \<noteq> fm_current_date m)"

definition rotate_writer :: "writer \<Rightarrow> 'r feed_world \<Rightarrow> string \<Rightarrow> writer \<times> 'r feed_world" where
  "rotate_writer w W today =
     (let m' = (case (wr_manifest w, wr_file w) of
                  (Some m, Some f) \<Rightarrow> Some (m\<lparr>fm_files_written := fm_files_written m @ [f]\<rparr>)
                | (mf, _) \<Rightarrow> mf);
          new_date = (case m' of Some m \<Rightarrow> fm_current_date m | None \<Rightarrow> today);
          f = new_date @ ''.ndjson'' in
      (w\<lparr>wr_manifest := m', wr_file := Some f, wr_handle_closed := False\<rparr>, W\<lparr>fw_dir := append_bytes (fw_dir W) f []\<rparr>))"

text \<open>
  \<open>today\<close> is the date \<open>_should_rotate\<close> reads, \<open>today2\<close> the one \<open>_rotate_file\<close> would read without a manifest. An open writer has a file and a manifest.
\<close>

definition writer_enqueue ::
    "canon_lib \<Rightarrow> 'r redis_lib \<Rightarrow> writer \<Rightarrow> 'r feed_world \<Rightarrow> jobj \<Rightarrow> real \<Rightarrow> string \<Rightarrow> string \<Rightarrow> unit res \<times> writer \<times> 'r feed_world" where
  "writer_enqueue L R w W r now today today2 =
     (if \<not> wr_is_open w then (Inl RuntimeError, w, W)
      else
        (case extract_trace_context r of
           Inl e \<Rightarrow> (Inl e, w, W)
         | Inr tc \<Rightarrow>
             (case renew_lease_if_needed R w W now of
                (False, w1, W1) \<Rightarrow> (Inl RuntimeError, w1, W1)
              | (True, w1, W1) \<Rightarrow>
                  (let (w2, W2) = (if should_rotate w1 today then rotate_writer w1 W1 today2 else (w1, W1));
                       bytes = encode L (JObj r) in
                   case (wr_file w2, wr_manifest w2) of
                     (Some f, Some m) \<Rightarrow>
                       (Inr (),
                        w2\<lparr>wr_manifest := Some (m\<lparr>fm_records_written := Suc (fm_records_written m), fm_bytes_written := fm_bytes_written m + length bytes\<rparr>)\<rparr>,
                        W2\<lparr>fw_dir := append_bytes (fw_dir W2) f bytes\<rparr>)
                   | (None, _) \<Rightarrow> (Inl AttributeError, w2, W2)
                   | (Some f, None) \<Rightarrow> (Inl AttributeError, w2, W2\<lparr>fw_dir := append_bytes (fw_dir W2) f bytes\<rparr>)))))"

definition update_manifest_metrics ::
    "'r redis_lib \<Rightarrow> writer \<Rightarrow> 'r feed_world \<Rightarrow> real \<Rightarrow> string \<Rightarrow> real option \<Rightarrow> int option \<Rightarrow> int option \<Rightarrow> (string \<times> int) list option
       \<Rightarrow> writer \<times> 'r feed_world" where
  "update_manifest_metrics R w W now iso_now disk skew violations parts =
     (case wr_manifest w of
        None \<Rightarrow> (w, W)
      | Some m \<Rightarrow>
          (let holder = (case fw_redis W of
                 None \<Rightarrow> wr_id w
               | Some st \<Rightarrow> (case rd_get R st now (lease_key w) of Inr (Some h) \<Rightarrow> if h = [] then fm_lease_holder m else h | _ \<Rightarrow> fm_lease_holder m));
               m' = m\<lparr>fm_disk_usage_pct := (case disk of Some x \<Rightarrow> x | None \<Rightarrow> fm_disk_usage_pct m),
                      fm_clock_skew_ms := (case skew of Some x \<Rightarrow> x | None \<Rightarrow> fm_clock_skew_ms m),
                      fm_fairness_violations := (case violations of Some x \<Rightarrow> x | None \<Rightarrow> fm_fairness_violations m),
                      fm_parts_per_date := (case parts of Some x \<Rightarrow> x | None \<Rightarrow> fm_parts_per_date m),
                      fm_lease_holder := holder\<rparr> in
           save_manifest R (w\<lparr>wr_manifest := Some m'\<rparr>) W now iso_now))"

section \<open>What reaches the files\<close>

lemma read_append [simp]: "read_bytes (append_bytes dir n s) m = (if m = n then read_bytes dir n @ s else read_bytes dir m)"
  by (simp add: read_bytes_def append_bytes_def od_simps)

lemma map_of_append: "m \<noteq> n \<Longrightarrow> map_of (append_bytes dir n s) m = map_of dir m"
  by (simp add: append_bytes_def od_simps)

lemma renew_lease_frame:
  "renew_lease_if_needed R w W now = (ok, w', W') \<Longrightarrow>
     fw_dir W' = fw_dir W \<and> wr_manifest w' = wr_manifest w \<and> wr_file w' = wr_file w \<and> wr_is_open w' = wr_is_open w"
  by (auto simp: renew_lease_if_needed_def split: if_splits option.splits sum.splits prod.splits)

text \<open>A writer whose open file is the one of its manifest's date, as after an opening on that date.\<close>

definition writing :: "feed_manifest \<Rightarrow> writer \<Rightarrow> bool" where
  "writing m w \<longleftrightarrow> wr_is_open w \<and> wr_manifest w = Some m \<and> wr_file w = Some (fm_current_date m @ ''.ndjson'')"

definition counted :: "feed_manifest \<Rightarrow> nat \<Rightarrow> nat \<Rightarrow> nat \<Rightarrow> feed_manifest" where
  "counted m records bytes rotations =
     m\<lparr>fm_records_written := fm_records_written m + records, fm_bytes_written := fm_bytes_written m + bytes,
       fm_files_written := fm_files_written m @ replicate rotations (fm_current_date m @ ''.ndjson'')\<rparr>"

lemma counted_date [simp]: "fm_current_date (counted m a b c) = fm_current_date m"
  by (simp add: counted_def)

lemma counted_counted: "counted (counted m a b c) a' b' c' = counted m (a + a') (b + b') (c + c')"
  by (simp add: counted_def replicate_add)

lemma enqueue_refused:
  assumes "writing m w" "writer_enqueue L R w W r now today today2 = (Inl e, w', W')"
  shows "writing m w' \<and> fw_dir W' = fw_dir W"
proof (cases "extract_trace_context r")
  case (Inl e')
  then show ?thesis using assms by (auto simp: writer_enqueue_def writing_def)
next
  case (Inr tc)
  obtain ok w1 W1 where rn: "renew_lease_if_needed R w W now = (ok, w1, W1)" by (metis prod_cases3)
  note k = renew_lease_frame [OF rn]
  show ?thesis using assms Inr rn k
    by (cases ok) (auto simp: writer_enqueue_def writing_def rotate_writer_def Let_def split: if_splits)
qed

lemma enqueue_accepted:
  assumes "writing m w" "writer_enqueue L R w W r now today today2 = (Inr (), w', W')"
  defines "f \<equiv> fm_current_date m @ ''.ndjson''"
  shows "writing (counted m 1 (length (encode L (JObj r))) (if today \<noteq> fm_current_date m then 1 else 0)) w' \<and>
         read_bytes (fw_dir W') f = read_bytes (fw_dir W) f @ encode L (JObj r) \<and> (\<forall>g. g \<noteq> f \<longrightarrow> map_of (fw_dir W') g = map_of (fw_dir W) g)"
proof -
  obtain tc where tc: "extract_trace_context r = Inr tc" using assms(1,2) by (auto simp: writer_enqueue_def writing_def split: sum.splits)
  obtain ok w1 W1 where rn: "renew_lease_if_needed R w W now = (ok, w1, W1)" by (metis prod_cases3)
  note k = renew_lease_frame [OF rn]
  from assms(1,2) tc rn have ok by (cases ok) (simp_all add: writer_enqueue_def writing_def)
  show ?thesis
  proof (cases "today = fm_current_date m")
    case True
    then show ?thesis using assms(1,2) tc rn k \<open>ok\<close>
      by (auto simp: writer_enqueue_def writing_def should_rotate_def Let_def counted_def f_def map_of_append)
  next
    case False
    then show ?thesis using assms(1,2) tc rn k \<open>ok\<close>
      by (auto simp: writer_enqueue_def writing_def should_rotate_def rotate_writer_def Let_def counted_def f_def map_of_append)
  qed
qed

fun enqueue_all ::
    "canon_lib \<Rightarrow> 'r redis_lib \<Rightarrow> writer \<Rightarrow> 'r feed_world \<Rightarrow> (jobj \<times> real \<times> string \<times> string) list \<Rightarrow> unit res list \<times> writer \<times> 'r feed_world" where
  "enqueue_all L R w W [] = ([], w, W)"
| "enqueue_all L R w W ((r, now, today, today2) # cs) =
     (let (res, w1, W1) = writer_enqueue L R w W r now today today2; (rs, w2, W2) = enqueue_all L R w1 W1 cs in (res # rs, w2, W2))"

definition accepted :: "(jobj \<times> real \<times> string \<times> string) list \<Rightarrow> unit res list \<Rightarrow> (jobj \<times> string) list" where
  "accepted calls results = map (\<lambda>((r, _, today, _), _). (r, today)) (filter (\<lambda>(_, res). res = Inr ()) (zip calls results))"

lemma accepted_Cons [simp]:
  "accepted ((r, now, today, today2) # cs) (res # rs) = (if res = Inr () then [(r, today)] else []) @ accepted cs rs"
  by (simp add: accepted_def)

lemma accepted_Nil [simp]: "accepted [] rs = []"
  by (simp add: accepted_def)

lemma enqueue_all_accepted:
  assumes "writing m w" "enqueue_all L R w W calls = (results, w', W')"
  defines "f \<equiv> fm_current_date m @ ''.ndjson''"
  shows "writing (counted m (length (accepted calls results)) (length (concat (map (\<lambda>(r, _). encode L (JObj r)) (accepted calls results))))
             (length (filter (\<lambda>(_, today). today \<noteq> fm_current_date m) (accepted calls results)))) w' \<and>
         read_bytes (fw_dir W') f = read_bytes (fw_dir W) f @ concat (map (\<lambda>(r, _). encode L (JObj r)) (accepted calls results)) \<and>
         (\<forall>g. g \<noteq> f \<longrightarrow> map_of (fw_dir W') g = map_of (fw_dir W) g)"
  using assms(1,2) unfolding f_def
proof (induction calls arbitrary: m w W results)
  case Nil
  then show ?case by (simp add: counted_def)
next
  case (Cons c calls)
  obtain r now today today2 where c: "c = (r, now, today, today2)" by (metis prod_cases4)
  obtain res w1 W1 where s: "writer_enqueue L R w W r now today today2 = (res, w1, W1)" by (metis prod_cases3)
  obtain rs where e: "enqueue_all L R w1 W1 calls = (rs, w', W')" "results = res # rs"
    using Cons.prems(2) by (auto simp: c s Let_def split: prod.splits)
  show ?case
  proof (cases res)
    case (Inl x)
    from enqueue_refused [OF Cons.prems(1) s [unfolded Inl]] have "writing m w1" "fw_dir W1 = fw_dir W" by blast+
    with Cons.IH [OF this(1) e(1)] show ?thesis by (simp add: c e(2) Inl)
  next
    case (Inr u)
    let ?m1 = "counted m 1 (length (encode L (JObj r))) (if today \<noteq> fm_current_date m then 1 else 0)"
    from enqueue_accepted [OF Cons.prems(1) s [unfolded Inr, simplified]] have k: "writing ?m1 w1"
      "read_bytes (fw_dir W1) (fm_current_date m @ ''.ndjson'') = read_bytes (fw_dir W) (fm_current_date m @ ''.ndjson'') @ encode L (JObj r)"
      "\<forall>g. g \<noteq> fm_current_date m @ ''.ndjson'' \<longrightarrow> map_of (fw_dir W1) g = map_of (fw_dir W) g" by blast+
    from Cons.IH [OF k(1) e(1)] k(2,3) show ?thesis
      by (cases "today = fm_current_date m") (simp_all add: c e(2) Inr counted_counted)
  qed
qed

text \<open>
  C26: the day never ends. A writer that holds the file of its manifest's date appends every accepted record, in order and canonically encoded, to that
  one file, whatever the date of each call; every accepted call on another date counts as a rotation that records the same file as finished and
  reopens it. Refused records leave no trace, no other file changes, and the manifest's counters are those of the accepted records.
\<close>

theorem midnight_never_rotates:
  assumes "wr_is_open w" "wr_manifest w = Some m" "wr_file w = Some f" "f = fm_current_date m @ ''.ndjson''"
    and "enqueue_all L R w W calls = (results, w', W')" "kept = accepted calls results"
  shows "read_bytes (fw_dir W') f = read_bytes (fw_dir W) f @ concat (map (\<lambda>(r, _). encode L (JObj r)) kept) \<and>
         (\<forall>g. g \<noteq> f \<longrightarrow> map_of (fw_dir W') g = map_of (fw_dir W) g) \<and> wr_file w' = Some f \<and>
         wr_manifest w' =
           Some (m\<lparr>fm_records_written := fm_records_written m + length kept,
                   fm_bytes_written := fm_bytes_written m + length (concat (map (\<lambda>(r, _). encode L (JObj r)) kept)),
                   fm_files_written := fm_files_written m @ replicate (length (filter (\<lambda>(_, today). today \<noteq> fm_current_date m) kept)) f\<rparr>)"
proof -
  have "writing m w" using assms(1-4) by (simp add: writing_def)
  from enqueue_all_accepted [OF this assms(5)] show ?thesis
    by (simp add: assms(4,6) writing_def counted_def)
qed

text \<open>
  C31: a lease that ran out does not stop its writer. When a due renewal finds no holder, the conditional \<open>set\<close> stores nothing and its answer is
  not looked at: the record is written without a lease, the renewal counts as done, and until the next one is due every further record is written as
  well, whoever has taken the lease meanwhile.
\<close>

theorem expired_lease_keeps_writing:
  assumes "wr_is_open w" "wr_manifest w = Some m" "wr_file w = Some f"
    and "extract_trace_context r = Inr tc" "extract_trace_context r2 = Inr tc2"
    and "fw_redis W = Some st" "of_int (wr_renew_ms w) \<le> (now - wr_last_renewal w) * 1000"
    and "rd_get R st now (lease_key w) = Inr None" "rd_set R st now (lease_key w) (wr_id w) XX (wr_ttl_ms w) = (Inr False, st)"
    and "(now2 - now) * 1000 < of_int (wr_renew_ms w)"
  shows "\<exists>w1 W1 f1. writer_enqueue L R w W r now today today2 = (Inr (), w1, W1) \<and> fw_redis W1 = Some st \<and>
           wr_file w1 = Some f1 \<and> read_bytes (fw_dir W1) f1 = read_bytes (fw_dir W) f1 @ encode L (JObj r) \<and>
           (\<forall>W2. \<exists>w2 W3 f2. writer_enqueue L R w1 W2 r2 now2 today today2 = (Inr (), w2, W3) \<and> fw_redis W3 = fw_redis W2 \<and>
              wr_file w2 = Some f2 \<and> read_bytes (fw_dir W3) f2 = read_bytes (fw_dir W2) f2 @ encode L (JObj r2))"
proof -
  have "renew_lease_if_needed R w W now = (True, w\<lparr>wr_last_renewal := now\<rparr>, W\<lparr>fw_redis := Some st\<rparr>)"
    using assms(6-9) by (simp add: renew_lease_if_needed_def)
  moreover have "renew_lease_if_needed R v W2 now2 = (True, v, W2)" if "wr_last_renewal v = now" "wr_renew_ms v = wr_renew_ms w" for v and W2 :: "'a feed_world"
    using that assms(10) by (simp add: renew_lease_if_needed_def)
  ultimately show ?thesis
    using assms(1-6) by (simp add: writer_enqueue_def should_rotate_def rotate_writer_def Let_def)
qed

text \<open>
  A lease held by another keeps a writer out. Opening while the key is taken fails and touches no file; an open writer whose due renewal finds
  another holder, or whose Redis call raises, refuses the record and leaves the directory and its own state alone.
\<close>

lemma foreign_lease_stops_writer:
  "(\<not> wr_is_open w \<longrightarrow> fw_redis W = Some st \<longrightarrow> rd_set R st now (lease_key w) (wr_id w) NX (wr_ttl_ms w) = (Inr False, st') \<longrightarrow>
      open_writer R w W now iso_now today = (Inl RuntimeError, w, W\<lparr>fw_redis := Some st'\<rparr>)) \<and>
   (wr_is_open w \<longrightarrow> extract_trace_context r = Inr tc \<longrightarrow> fw_redis W = Some st \<longrightarrow>
      of_int (wr_renew_ms w) \<le> (now - wr_last_renewal w) * 1000 \<longrightarrow>
      (rd_get R st now (lease_key w) = Inr (Some h) \<and> h \<noteq> [] \<and> h \<noteq> wr_id w \<or> rd_get R st now (lease_key w) = Inl e) \<longrightarrow>
      writer_enqueue L R w W r now today day_b = (Inl RuntimeError, w, W))"
  by (auto simp: open_writer_def try_acquire_lease_def writer_enqueue_def renew_lease_if_needed_def)

section \<open>The writer pool\<close>

record writer_pool =
  po_plane :: string
  po_writers :: "(string, writer) odict"
  po_fairness :: fairness
  po_violations :: "(string, nat) odict"
  po_throttles :: "(string, nat) odict"

definition new_pool :: "string \<Rightarrow> real \<Rightarrow> real \<Rightarrow> real \<Rightarrow> int \<Rightarrow> writer_pool" where
  "new_pool plane floor_pct burst_factor window max_sources =
     \<lparr>po_plane = plane, po_writers = [], po_fairness = new_fairness floor_pct burst_factor window max_sources, po_violations = [], po_throttles = []\<rparr>"

text \<open>A writer of the pool has the default intervals; \<open>writer_id\<close> is the identifier it generates, \<open>now\<close>, \<open>iso_now\<close> and \<open>today\<close> what its \<open>open\<close> reads.\<close>

definition get_writer ::
    "'r redis_lib \<Rightarrow> writer_pool \<Rightarrow> 'r feed_world \<Rightarrow> string \<Rightarrow> string \<Rightarrow> real \<Rightarrow> string \<Rightarrow> string \<Rightarrow> writer res \<times> writer_pool \<times> 'r feed_world" where
  "get_writer R po W source writer_id now iso_now today =
     (case map_of (po_writers po) source of
        Some w \<Rightarrow> (Inr w, po, W)
      | None \<Rightarrow>
          (case open_writer R (new_writer (po_plane po) source writer_id 5000 15000) W now iso_now today of
             (Inl e, w, W') \<Rightarrow> (Inl e, po, W')
           | (Inr u, w, W') \<Rightarrow> (Inr w, po\<lparr>po_writers := od_set source w (po_writers po)\<rparr>, W')))"

datatype admission = Admitted | Timed_out | Still_waiting | Division_by_zero

text \<open>
  The waiting loop: each round takes the two readings of \<open>allow_write\<close> and the one of the timeout test; with the readings used up it still waits.
\<close>

fun admission_loop :: "fairness \<Rightarrow> string \<Rightarrow> real \<Rightarrow> real \<Rightarrow> (real \<times> real \<times> real) list \<Rightarrow> admission \<times> fairness" where
  "admission_loop ff source start max_wait [] = (Still_waiting, ff)"
| "admission_loop ff source start max_wait ((born, now, later) # rounds) =
     (case allow_write ff source 1 born now of
        None \<Rightarrow> (Division_by_zero, ff)
      | Some (True, ff') \<Rightarrow> (Admitted, ff')
      | Some (False, ff') \<Rightarrow> if max_wait < later - start then (Timed_out, ff') else admission_loop ff' source start max_wait rounds)"

datatype pool_outcome = Enqueued | Dropped | Pool_waiting | Pool_raised py_error | Raised_zero_division

definition bump :: "string \<Rightarrow> (string, nat) odict \<Rightarrow> (string, nat) odict" where
  "bump k d = od_set k (Suc (case map_of d k of Some n \<Rightarrow> n | None \<Rightarrow> 0)) d"

definition enqueue_with_fairness ::
    "canon_lib \<Rightarrow> 'r redis_lib \<Rightarrow> writer_pool \<Rightarrow> 'r feed_world \<Rightarrow> string \<Rightarrow> string \<Rightarrow> jobj \<Rightarrow> real \<Rightarrow> real \<Rightarrow> (real \<times> real \<times> real) list
       \<Rightarrow> real \<Rightarrow> string \<Rightarrow> string \<Rightarrow> pool_outcome \<times> writer_pool \<times> 'r feed_world" where
  "enqueue_with_fairness L R po W source writer_id r start max_wait rounds now iso_now today =
     (case get_writer R po W source writer_id start iso_now today of
        (Inl e, po1, W1) \<Rightarrow> (Pool_raised e, po1, W1)
      | (Inr w, po1, W1) \<Rightarrow>
          (case admission_loop (po_fairness po1) source start max_wait rounds of
             (Division_by_zero, ff) \<Rightarrow> (Raised_zero_division, po1\<lparr>po_fairness := ff\<rparr>, W1)
           | (Still_waiting, ff) \<Rightarrow> (Pool_waiting, po1\<lparr>po_fairness := ff\<rparr>, W1)
           | (Timed_out, ff) \<Rightarrow> (Dropped, po1\<lparr>po_fairness := ff, po_throttles := bump source (po_throttles po1)\<rparr>, W1)
           | (Admitted, ff) \<Rightarrow>
               (case writer_enqueue L R w W1 r now today today of
                  (Inl e, w2, W2) \<Rightarrow> (Pool_raised e, po1\<lparr>po_fairness := ff, po_writers := od_set source w2 (po_writers po1)\<rparr>, W2)
                | (Inr u, w2, W2) \<Rightarrow>
                    (Enqueued,
                     po1\<lparr>po_fairness := ff, po_writers := od_set source w2 (po_writers po1),
                         po_violations := (if source \<in> fst ` set (po_violations po1) then po_violations po1 else od_set source 0 (po_violations po1))\<rparr>,
                     W2))))"

definition pool_close_writer :: "'r redis_lib \<Rightarrow> writer_pool \<Rightarrow> 'r feed_world \<Rightarrow> string \<Rightarrow> real \<Rightarrow> string \<Rightarrow> writer_pool \<times> 'r feed_world" where
  "pool_close_writer R po W source now iso_now =
     (case map_of (po_writers po) source of
        None \<Rightarrow> (po, W)
      | Some w \<Rightarrow> (let (w', W') = close_writer R w W now iso_now in (po\<lparr>po_writers := od_del source (po_writers po)\<rparr>, W')))"

fun pool_close_all :: "'r redis_lib \<Rightarrow> writer_pool \<Rightarrow> 'r feed_world \<Rightarrow> (string \<times> real \<times> string) list \<Rightarrow> writer_pool \<times> 'r feed_world" where
  "pool_close_all R po W [] = (po, W)"
| "pool_close_all R po W ((source, now, iso_now) # rest) = (let (po', W') = pool_close_writer R po W source now iso_now in pool_close_all R po' W' rest)"

text \<open>\<open>close_all\<close> passes over a copy of the keys; the readings are the clocks of the single closings.\<close>

definition close_all :: "'r redis_lib \<Rightarrow> writer_pool \<Rightarrow> 'r feed_world \<Rightarrow> (real \<times> string) list \<Rightarrow> writer_pool \<times> 'r feed_world" where
  "close_all R po W clocks = pool_close_all R po W (zip (od_keys (po_writers po)) clocks)"

text \<open>No round is ever refused, so the pool neither waits nor drops a record; the counters of throttles stay empty.\<close>

lemma pool_always_admits:
  assumes "fairness_ok ff" "ff_window ff \<noteq> 0" "ff_burst ff \<le> 1000 * ff_floor ff" "rounds \<noteq> []"
  shows "fst (admission_loop ff source start max_wait rounds) = Admitted"
proof -
  obtain born now later rest where r: "rounds = (born, now, later) # rest" using assms(4) by (metis list.exhaust prod_cases3)
  have "write_cost ff 1 \<le> ff_floor ff" using assms(1,3) by (simp add: write_cost_def fairness_ok_def min_le_iff_disj)
  from allow_write_within_floor [OF assms(1,2) this, of source born now] show ?thesis by (auto simp: r)
qed

lemma close_all_empties:
  "length clocks = length (po_writers po) \<Longrightarrow> po_writers (fst (close_all R po W clocks)) = []"
proof -
  assume a: "length clocks = length (po_writers po)"
  have "po_writers (fst (pool_close_all R po W cs)) = filter (\<lambda>kw. fst kw \<notin> fst ` set cs) (po_writers po)" for cs
  proof (induction R po W cs rule: pool_close_all.induct)
    case (2 R po W source now iso_now rest)
    obtain po' W' where c: "pool_close_writer R po W source now iso_now = (po', W')" by fastforce
    have "po_writers po' = od_del source (po_writers po)"
      using c by (auto simp: pool_close_writer_def od_del_fresh Let_def split: option.splits prod.splits dest: map_of_None_keys [THEN iffD1])
    then show ?case using 2 c by (auto simp: od_del_def intro!: filter_cong)
  qed (simp add: filter_True)
  moreover have "fst ` set (zip (od_keys (po_writers po)) clocks) = fst ` set (po_writers po)"
    using a by (metis length_map map_fst_zip set_map)
  ultimately show ?thesis by (simp add: close_all_def filter_empty_conv)
qed

section \<open>A Redis server for the witnesses\<close>

text \<open>One key: the holder and its expiry.\<close>

definition redis_get_impl :: "(string \<times> real) option \<Rightarrow> real \<Rightarrow> string \<Rightarrow> string option res" where
  "redis_get_impl st now k = Inr (case st of Some (h, end_at) \<Rightarrow> if now < end_at then Some h else None | None \<Rightarrow> None)"

definition redis_set_impl :: "(string \<times> real) option \<Rightarrow> real \<Rightarrow> string \<Rightarrow> string \<Rightarrow> set_mode \<Rightarrow> int \<Rightarrow> bool res \<times> (string \<times> real) option" where
  "redis_set_impl st now k v mode ttl =
     (let held = (case st of Some (h, end_at) \<Rightarrow> now < end_at | None \<Rightarrow> False) in
      if held = (mode = XX) then (Inr True, Some (v, now + of_int ttl / 1000)) else (Inr False, st))"

definition redis_impl :: "(string \<times> real) option redis_lib" where
  "redis_impl = \<lparr>rd_get = redis_get_impl, rd_set = redis_set_impl, rd_delete = \<lambda>st now k. (Inr (), None)\<rparr>"

definition plain_canon :: canon_lib where
  "plain_canon = \<lparr>cl_nfc = \<lambda>s. s, cl_float = \<lambda>r. ''1.5''\<rparr>"

definition day_manifest :: feed_manifest where
  "day_manifest = \<lparr>fm_plane = ''score'', fm_source = ''mackolik'', fm_writer_id = ''pod-a'', fm_lease_holder = [], fm_last_rotation_at = [],
     fm_current_date = ''2026-06-09'', fm_files_written = [], fm_records_written = 0, fm_bytes_written = 0, fm_disk_usage_pct = 0,
     fm_clock_skew_ms = 0, fm_fairness_violations = 0, fm_parts_per_date = [], fm_revision = ''v1''\<rparr>"

definition day_writer :: writer where
  "day_writer = \<lparr>wr_plane = ''score'', wr_source = ''mackolik'', wr_id = ''pod-a'', wr_renew_ms = 5000, wr_ttl_ms = 15000,
     wr_file = Some ''2026-06-09.ndjson'', wr_handle_closed = False, wr_is_open = True, wr_lease_held = True, wr_last_renewal = 0,
     wr_manifest = Some day_manifest\<rparr>"

lemmas day_defs = day_writer_def day_manifest_def redis_impl_def redis_get_impl_def redis_set_impl_def

lemma empty_trace [simp]: "extract_trace_context [] = Inr None"
  by (simp add: extract_trace_context_def jget_or_def)

lemma midnight_never_rotates_witness:
  "\<exists>results w' W'. enqueue_all plain_canon redis_impl day_writer \<lparr>fw_redis = None, fw_dir = []\<rparr>
       [([], 1, ''2026-06-10'', ''2026-06-10''), ([], 2, ''2026-06-10'', ''2026-06-10'')] = (results, w', W') \<and> results = [Inr (), Inr ()] \<and>
     wr_file w' = Some ''2026-06-09.ndjson'' \<and> map_of (fw_dir W') ''2026-06-10.ndjson'' = None"
proof -
  let ?W = "\<lparr>fw_redis = None, fw_dir = []\<rparr> :: (string \<times> real) option feed_world"
  let ?cs = "[([], 1, ''2026-06-10'', ''2026-06-10''), ([], 2, ''2026-06-10'', ''2026-06-10'')] :: (jobj \<times> real \<times> string \<times> string) list"
  obtain results w' W' where e: "enqueue_all plain_canon redis_impl day_writer ?W ?cs = (results, w', W')" by (metis prod_cases3)
  have r: "results = [Inr (), Inr ()]"
    using e by (auto simp: day_defs writer_enqueue_def renew_lease_if_needed_def should_rotate_def rotate_writer_def Let_def)
  have w: "wr_is_open day_writer" "wr_manifest day_writer = Some day_manifest" "wr_file day_writer = Some ''2026-06-09.ndjson''"
    "''2026-06-09.ndjson'' = fm_current_date day_manifest @ ''.ndjson''" by (simp_all add: day_defs)
  from midnight_never_rotates [OF w e refl] have "wr_file w' = Some ''2026-06-09.ndjson''" "map_of (fw_dir W') ''2026-06-10.ndjson'' = map_of (fw_dir ?W) ''2026-06-10.ndjson''"
    by simp_all
  with e r show ?thesis by simp
qed

lemma expired_lease_keeps_writing_witness:
  "\<exists>w1 W1. writer_enqueue plain_canon redis_impl day_writer \<lparr>fw_redis = Some (Some (''pod-a'', 15)), fw_dir = []\<rparr> [] 20 ''2026-06-09'' ''2026-06-09'' = (Inr (), w1, W1) \<and>
     (\<exists>w2 W3. writer_enqueue plain_canon redis_impl w1 \<lparr>fw_redis = Some (Some (''pod-b'', 36)), fw_dir = fw_dir W1\<rparr> [] 22 ''2026-06-09'' ''2026-06-09'' = (Inr (), w2, W3))"
proof -
  have "\<exists>w1 W1 f1. writer_enqueue plain_canon redis_impl day_writer \<lparr>fw_redis = Some (Some (''pod-a'', 15)), fw_dir = []\<rparr> [] 20 ''2026-06-09'' ''2026-06-09'' = (Inr (), w1, W1) \<and>
           fw_redis W1 = Some (Some (''pod-a'', 15)) \<and> wr_file w1 = Some f1 \<and>
           read_bytes (fw_dir W1) f1 = read_bytes (fw_dir \<lparr>fw_redis = Some (Some (''pod-a'', 15 :: real)), fw_dir = []\<rparr>) f1 @ encode plain_canon (JObj []) \<and>
           (\<forall>W2. \<exists>w2 W3 f2. writer_enqueue plain_canon redis_impl w1 W2 [] 22 ''2026-06-09'' ''2026-06-09'' = (Inr (), w2, W3) \<and> fw_redis W3 = fw_redis W2 \<and>
              wr_file w2 = Some f2 \<and> read_bytes (fw_dir W3) f2 = read_bytes (fw_dir W2) f2 @ encode plain_canon (JObj []))"
    by (rule expired_lease_keeps_writing) (simp_all add: day_defs)
  then show ?thesis by blast
qed

end
