(* ===== verification/Competitions.thy ===== *)
theory Competitions
  imports Prelude "HOL-Library.Multiset"
begin

text \<open>
  The life of a competition (\<open>common/competition_fsm.py\<close>) and the simulated group standings (\<open>common/standings_accumulator.py\<close>). The draws of the \<open>random\<close>
  module are arguments, one triple per simulated fixture; \<open>sorted\<close> with a comparison function is a parameter, because the comparison of the code is not
  an order. A tie is \<open>0\<close>, as in the source.
\<close>

section \<open>Life cycle\<close>

datatype competition_status = Planned | Active | Suspended | Completed | Cancelled

definition legal_transitions :: "competition_status \<Rightarrow> competition_status list" where
  "legal_transitions s =
     (case s of
        Planned \<Rightarrow> [Active, Cancelled]
      | Active \<Rightarrow> [Suspended, Completed, Cancelled]
      | Suspended \<Rightarrow> [Active, Cancelled, Completed]
      | Completed \<Rightarrow> []
      | Cancelled \<Rightarrow> [])"

record status_transition =
  st_competition :: string
  st_from :: competition_status
  st_to :: competition_status
  st_reason :: string
  st_timestamp :: string

definition is_legal_transition :: "competition_status \<Rightarrow> competition_status \<Rightarrow> bool" where
  "is_legal_transition a b \<longleftrightarrow> b \<in> set (legal_transitions a)"

datatype transition_check = Transition_ok | Illegal_transition | Inflight_requests int

definition validate_transition :: "competition_status \<Rightarrow> competition_status \<Rightarrow> int \<Rightarrow> transition_check" where
  "validate_transition a b inflight =
     (if \<not> is_legal_transition a b then Illegal_transition
      else if 0 < inflight then (if b = Cancelled then Inflight_requests inflight else Transition_ok)
      else Transition_ok)"

definition can_start :: "competition_status \<Rightarrow> bool" where
  "can_start s \<longleftrightarrow> s = Planned \<and> is_legal_transition s Active"

definition can_suspend :: "competition_status \<Rightarrow> bool" where
  "can_suspend s \<longleftrightarrow> s = Active \<and> is_legal_transition s Suspended"

definition can_resume :: "competition_status \<Rightarrow> bool" where
  "can_resume s \<longleftrightarrow> s = Suspended \<and> is_legal_transition s Active"

definition can_complete :: "competition_status \<Rightarrow> bool" where
  "can_complete s \<longleftrightarrow> is_legal_transition s Completed"

definition can_cancel :: "competition_status \<Rightarrow> bool" where
  "can_cancel s \<longleftrightarrow> is_legal_transition s Cancelled"

text \<open>The checks agree with the table: from each status the two kinds of test say the same.\<close>

lemma checks_agree:
  "can_start s \<longleftrightarrow> s = Planned" "can_suspend s \<longleftrightarrow> s = Active" "can_resume s \<longleftrightarrow> s = Suspended"
  "can_complete s \<longleftrightarrow> s \<in> {Active, Suspended}" "can_cancel s \<longleftrightarrow> s \<in> {Planned, Active, Suspended}"
  by (cases s; simp add: can_start_def can_suspend_def can_resume_def can_complete_def can_cancel_def is_legal_transition_def legal_transitions_def)+

text \<open>A history of accepted transitions, each checked with the requests in flight at the time.\<close>

inductive status_history :: "competition_status \<Rightarrow> (competition_status \<times> int) list \<Rightarrow> competition_status \<Rightarrow> bool" where
  begin_history: "status_history s [] s"
| extend_history: "status_history s ts u \<Longrightarrow> validate_transition u v n = Transition_ok \<Longrightarrow> status_history s (ts @ [(v, n)]) v"

inductive_cases status_history_snocE: "status_history s (ts @ [t]) u"

lemma validate_ok_iff: "validate_transition a b n = Transition_ok \<longleftrightarrow> is_legal_transition a b \<and> \<not> (0 < n \<and> b = Cancelled)"
  by (simp add: validate_transition_def)

lemma final_has_no_successor: "s \<in> {Completed, Cancelled} \<Longrightarrow> \<not> is_legal_transition s v"
  by (auto simp: is_legal_transition_def legal_transitions_def)

lemma status_history_last: "status_history s ts u \<Longrightarrow> ts \<noteq> [] \<Longrightarrow> fst (last ts) = u"
  by (induction rule: status_history.induct) auto

lemma status_history_final: "status_history s ts u \<Longrightarrow> t \<in> set (butlast ts) \<Longrightarrow> fst t \<notin> {Completed, Cancelled}"
proof (induction rule: status_history.induct)
  case (extend_history s ts u v n)
  show ?case
  proof (cases "t \<in> set (butlast ts)")
    case True
    then show ?thesis using extend_history.IH by blast
  next
    case False
    then obtain n' where ts: "ts \<noteq> []" "t = last ts" using extend_history.prems
      by (cases ts rule: rev_cases) (auto simp: butlast_append)
    then have "fst t = u" using status_history_last [OF extend_history.hyps(1)] by simp
    then show ?thesis using extend_history.hyps(2) final_has_no_successor validate_ok_iff by blast
  qed
qed simp

section \<open>Group standings\<close>

record group_team =
  gt_id :: string
  gt_points :: int
  gt_for :: int
  gt_against :: int
  gt_played :: int
  gt_h2h :: "(string, int) odict"

record tiebreaker_rules =
  tr_confederation :: string
  tr_primary :: string
  tr_secondary :: string
  tr_tertiary :: string

definition rules_for :: "string \<Rightarrow> tiebreaker_rules" where
  "rules_for conf =
     (let rules = (\<lambda>a b c. \<lparr>tr_confederation = conf, tr_primary = a, tr_secondary = b, tr_tertiary = c\<rparr>) in
      if conf \<in> {''CAF'', ''AFC'', ''OFC''} then rules ''goals_for'' ''head_to_head'' ''goal_differential''
      else if conf \<in> {''UEFA'', ''CONCACAF''} then rules ''head_to_head'' ''goals_for'' ''goal_differential''
      else if conf = ''CONMEBOL'' then rules ''head_to_head'' ''goal_differential'' ''goals_for''
      else rules ''points'' ''goals_for'' ''goal_differential'')"

definition compare_ints :: "int \<Rightarrow> int \<Rightarrow> int" where
  "compare_ints x y = (if y < x then 1 else if x < y then -1 else 0)"

definition h2h_against :: "group_team \<Rightarrow> string \<Rightarrow> int" where
  "h2h_against t other = (case map_of (gt_h2h t) other of Some n \<Rightarrow> n | None \<Rightarrow> 0)"

definition compare_by_criterion :: "group_team \<Rightarrow> group_team \<Rightarrow> string \<Rightarrow> int" where
  "compare_by_criterion a b criterion =
     (if criterion = ''points'' then compare_ints (gt_points a) (gt_points b)
      else if criterion = ''goals_for'' then compare_ints (gt_for a) (gt_for b)
      else if criterion = ''goal_differential'' then compare_ints (gt_for a - gt_against a) (gt_for b - gt_against b)
      else if criterion = ''head_to_head'' then compare_ints (h2h_against a (gt_id b)) (h2h_against b (gt_id a))
      else 0)"

definition compare_teams :: "tiebreaker_rules \<Rightarrow> group_team \<Rightarrow> group_team \<Rightarrow> int" where
  "compare_teams R a b =
     (let c1 = compare_by_criterion a b (tr_primary R); c2 = compare_by_criterion a b (tr_secondary R) in
      if c1 \<noteq> 0 then c1 else if c2 \<noteq> 0 then c2 else compare_by_criterion a b (tr_tertiary R))"

type_synonym sorter = "(group_team \<Rightarrow> group_team \<Rightarrow> int) \<Rightarrow> group_team list \<Rightarrow> group_team list"

definition rank_teams :: "sorter \<Rightarrow> tiebreaker_rules \<Rightarrow> group_team list \<Rightarrow> group_team list" where
  "rank_teams srt R teams = srt (\<lambda>a b. - compare_teams R a b) teams"

datatype fixture_outcome = Home_win | Draw_result | Away_win

definition update_team :: "string \<Rightarrow> (group_team \<Rightarrow> group_team) \<Rightarrow> (string, group_team) odict \<Rightarrow> (string, group_team) odict" where
  "update_team k f teams = (case map_of teams k of Some t \<Rightarrow> od_set k (f t) teams | None \<Rightarrow> teams)"

definition add_points :: "int \<Rightarrow> group_team \<Rightarrow> group_team" where
  "add_points n t = t\<lparr>gt_points := gt_points t + n\<rparr>"

definition add_goals :: "int \<Rightarrow> int \<Rightarrow> group_team \<Rightarrow> group_team" where
  "add_goals scored conceded t =
     t\<lparr>gt_for := gt_for t + scored, gt_against := gt_against t + conceded, gt_played := gt_played t + 1\<rparr>"

definition add_h2h :: "string \<Rightarrow> int \<Rightarrow> group_team \<Rightarrow> group_team" where
  "add_h2h other n t = t\<lparr>gt_h2h := od_set other (h2h_against t other + n) (gt_h2h t)\<rparr>"

text \<open>One fixture with its draws: the outcome and the two goal draws (a drawn match uses the first for both sides).\<close>

definition play_fixture ::
    "(string, group_team) odict \<Rightarrow> string \<Rightarrow> string \<Rightarrow> fixture_outcome \<Rightarrow> int \<Rightarrow> int \<Rightarrow> py_error + (string, group_team) odict" where
  "play_fixture teams home away outcome g1 g2 =
     (if map_of teams home = None \<or> map_of teams away = None then Inl KeyError
      else
        (let teams1 = (case outcome of
               Home_win \<Rightarrow> update_team home (add_points 3) teams
             | Draw_result \<Rightarrow> update_team away (add_points 1) (update_team home (add_points 1) teams)
             | Away_win \<Rightarrow> update_team away (add_points 3) teams);
             home_goals = g1; away_goals = (if outcome = Draw_result then g1 else g2);
             home_h2h = (case outcome of Home_win \<Rightarrow> 3 | Draw_result \<Rightarrow> 1 | Away_win \<Rightarrow> 0);
             away_h2h = (case outcome of Away_win \<Rightarrow> 3 | Draw_result \<Rightarrow> 1 | Home_win \<Rightarrow> 0) in
         Inr (update_team away (add_h2h home away_h2h) (update_team home (add_h2h away home_h2h)
               (update_team away (add_goals away_goals home_goals) (update_team home (add_goals home_goals away_goals) teams1))))))"

text \<open>The fixtures still to be played; one that is not simulated takes no draw. Without draws left the run is not defined.\<close>

fun play_fixtures ::
    "(string, group_team) odict \<Rightarrow> (string \<times> string \<times> bool) list \<Rightarrow> (fixture_outcome \<times> int \<times> int) list
       \<Rightarrow> (py_error + (string, group_team) odict) option" where
  "play_fixtures teams [] draws = Some (Inr teams)"
| "play_fixtures teams ((home, away, False) # fs) draws = play_fixtures teams fs draws"
| "play_fixtures teams ((home, away, True) # fs) [] = None"
| "play_fixtures teams ((home, away, True) # fs) ((outcome, g1, g2) # draws) =
     (case play_fixture teams home away outcome g1 g2 of
        Inl e \<Rightarrow> Some (Inl e)
      | Inr teams' \<Rightarrow> play_fixtures teams' fs draws)"

type_synonym positions = "(string, (nat, real) odict) odict"

definition count_position :: "positions \<Rightarrow> string \<Rightarrow> nat \<Rightarrow> py_error + positions" where
  "count_position pd team pos =
     (case map_of pd team of
        None \<Rightarrow> Inl KeyError
      | Some d \<Rightarrow> Inr (od_set team (od_set pos ((case map_of d pos of Some x \<Rightarrow> x | None \<Rightarrow> 0) + 1) d) pd))"

fun count_ranking :: "positions \<Rightarrow> nat \<Rightarrow> group_team list \<Rightarrow> py_error + positions" where
  "count_ranking pd pos [] = Inr pd"
| "count_ranking pd pos (t # ts) =
     (case count_position pd (gt_id t) pos of Inl e \<Rightarrow> Inl e | Inr pd' \<Rightarrow> count_ranking pd' (Suc pos) ts)"

fun simulate_iterations ::
    "sorter \<Rightarrow> tiebreaker_rules \<Rightarrow> (string, group_team) odict \<Rightarrow> (string \<times> string \<times> bool) list \<Rightarrow> (fixture_outcome \<times> int \<times> int) list list
       \<Rightarrow> positions \<Rightarrow> (py_error + positions) option" where
  "simulate_iterations srt R teams fs [] pd = Some (Inr pd)"
| "simulate_iterations srt R teams fs (draws # rest) pd =
     (case play_fixtures teams fs draws of
        None \<Rightarrow> None
      | Some (Inl e) \<Rightarrow> Some (Inl e)
      | Some (Inr sim) \<Rightarrow>
          (case count_ranking pd 1 (rank_teams srt R (map snd sim)) of
             Inl e \<Rightarrow> Some (Inl e)
           | Inr pd' \<Rightarrow> simulate_iterations srt R teams fs rest pd'))"

definition simulate_group_stage_standings ::
    "sorter \<Rightarrow> string \<Rightarrow> (string, group_team) odict \<Rightarrow> (string \<times> string \<times> bool) list \<Rightarrow> (fixture_outcome \<times> int \<times> int) list list
       \<Rightarrow> (py_error + positions) option" where
  "simulate_group_stage_standings srt conf teams fs draws =
     (case simulate_iterations srt (rules_for conf) teams fs draws (map (\<lambda>kt. (fst kt, [])) teams) of
        Some (Inr pd) \<Rightarrow> Some (Inr (map (\<lambda>(team, d). (team, map (\<lambda>(pos, x). (pos, x / real (length draws))) d)) pd))
      | r \<Rightarrow> r)"

text \<open>What is relied on of \<open>sorted\<close>: it permutes.\<close>

definition permutes_teams :: "sorter \<Rightarrow> bool" where
  "permutes_teams srt \<longleftrightarrow> (\<forall>c ts. mset (srt c ts) = mset ts)"

definition teams_wf :: "(string, group_team) odict \<Rightarrow> bool" where
  "teams_wf teams \<longleftrightarrow> od_wf teams \<and> list_all (\<lambda>kt. gt_id (snd kt) = fst kt) teams"

lemma update_team_wf:
  assumes "teams_wf teams" "\<And>t. gt_id (f t) = gt_id t"
  shows "teams_wf (update_team k f teams) \<and> od_keys (update_team k f teams) = od_keys teams"
proof (cases "map_of teams k")
  case (Some t)
  have k: "k \<in> fst ` set teams" using Some by (force dest: map_of_SomeD)
  have "gt_id t = k" using Some assms(1) by (auto simp: teams_wf_def list_all_iff dest!: map_of_SomeD)
  then have "list_all (\<lambda>kt. gt_id (snd kt) = fst kt) (od_set k (f t) teams)"
    using assms set_od_set_sub [of k "f t" teams] by (auto simp: teams_wf_def list_all_iff)
  then show ?thesis using Some k assms(1) by (simp add: update_team_def teams_wf_def od_wf_set keys_od_set)
qed (simp add: update_team_def assms(1))

lemma play_fixture_wf:
  assumes "teams_wf teams" "play_fixture teams home away outcome g1 g2 = Inr teams'"
  shows "teams_wf teams' \<and> od_keys teams' = od_keys teams"
proof -
  have p: "gt_id (add_points n t) = gt_id t" "gt_id (add_goals a b t) = gt_id t" "gt_id (add_h2h x n t) = gt_id t" for n t a b x
    by (simp_all add: add_points_def add_goals_def add_h2h_def)
  show ?thesis using assms
    by (auto simp: play_fixture_def Let_def update_team_wf p split: if_splits fixture_outcome.splits)
qed

lemma play_fixtures_wf: "teams_wf teams \<Longrightarrow> play_fixtures teams fs draws = Some (Inr sim) \<Longrightarrow> teams_wf sim \<and> od_keys sim = od_keys teams"
proof (induction teams fs draws rule: play_fixtures.induct)
  case (4 teams home away fs outcome g1 g2 draws)
  then obtain teams' where t: "play_fixture teams home away outcome g1 g2 = Inr teams'" by (auto split: sum.splits)
  then show ?case using 4 play_fixture_wf [OF 4(2) t] by auto
qed auto

text \<open>A row of the table: the counts of one team.\<close>

definition row_total :: "positions \<Rightarrow> string \<Rightarrow> real" where
  "row_total pd team = (case map_of pd team of Some d \<Rightarrow> sum_list (map snd d) | None \<Rightarrow> 0)"

definition cell :: "positions \<Rightarrow> string \<Rightarrow> nat \<Rightarrow> real" where
  "cell pd team pos = (case map_of pd team of Some d \<Rightarrow> (case map_of d pos of Some x \<Rightarrow> x | None \<Rightarrow> 0) | None \<Rightarrow> 0)"

definition row_ok :: "nat \<Rightarrow> (nat, real) odict \<Rightarrow> bool" where
  "row_ok k d \<longleftrightarrow> od_wf d \<and> list_all (\<lambda>px. 1 \<le> fst px \<and> fst px \<le> k \<and> 0 \<le> snd px) d"

definition positions_ok :: "nat \<Rightarrow> positions \<Rightarrow> bool" where
  "positions_ok k pd \<longleftrightarrow> list_all (\<lambda>td. row_ok k (snd td)) pd"

lemma sum_od_set: "od_wf d \<Longrightarrow> sum_list (map snd (od_set k (v::real) d)) = sum_list (map snd d) - (case map_of d k of Some x \<Rightarrow> x | None \<Rightarrow> 0) + v"
proof (induction k v d rule: od_set.induct)
  case (2 k v a b d)
  have "od_wf d" using 2(2) by (simp add: od_wf_def)
  with 2 show ?case by (auto simp: od_wf_def split: option.splits)
qed simp

lemma count_position_row:
  assumes "positions_ok k pd" "team \<in> fst ` set pd" "1 \<le> pos" "pos \<le> k"
  shows "\<exists>pd'. count_position pd team pos = Inr pd' \<and> positions_ok k pd' \<and> od_keys pd' = od_keys pd \<and>
           (\<forall>t. row_total pd' t = row_total pd t + (if t = team then 1 else 0)) \<and>
           (\<forall>t p. cell pd' t p = cell pd t p + (if t = team \<and> p = pos then 1 else 0))"
proof -
  obtain d where d: "map_of pd team = Some d" using assms(2) by (metis map_of_None_keys option.exhaust)
  then have r: "row_ok k d" using assms(1) by (auto simp: positions_ok_def list_all_iff dest!: map_of_SomeD)
  then have ok: "od_wf d" by (simp add: row_ok_def)
  let ?x = "case map_of d pos of Some x \<Rightarrow> x | None \<Rightarrow> 0"
  let ?d = "od_set pos (?x + 1) d"
  have "0 \<le> ?x" using r by (auto simp: row_ok_def list_all_iff split: option.splits dest!: map_of_SomeD)
  then have "row_ok k ?d"
    using r assms(3,4) set_od_set_sub [of pos "?x + 1" d] by (auto simp: row_ok_def list_all_iff od_wf_set)
  then have "positions_ok k (od_set team ?d pd)"
    using assms(1) set_od_set_sub [of team ?d pd] by (auto simp: positions_ok_def list_all_iff)
  moreover have "od_keys (od_set team ?d pd) = od_keys pd" using assms(2) by (simp add: keys_od_set)
  moreover have "row_total (od_set team ?d pd) t = row_total pd t + (if t = team then 1 else 0)" for t
    by (simp add: row_total_def od_simps d sum_od_set [OF ok])
  moreover have "cell (od_set team ?d pd) t p = cell pd t p + (if t = team \<and> p = pos then 1 else 0)" for t p
    by (simp add: cell_def od_simps d split: option.splits)
  ultimately show ?thesis by (simp add: count_position_def d)
qed

definition placed :: "nat \<Rightarrow> string list \<Rightarrow> string \<Rightarrow> nat \<Rightarrow> bool" where
  "placed pos ids t p \<longleftrightarrow> pos \<le> p \<and> p < pos + length ids \<and> ids ! (p - pos) = t"

lemma placed_Cons: "placed pos (i # ids) t p \<longleftrightarrow> p = pos \<and> t = i \<or> placed (Suc pos) ids t p"
proof (cases "p - pos")
  case (Suc n)
  then have "p - Suc pos = n" by simp
  with Suc show ?thesis by (auto simp: placed_def)
qed (auto simp: placed_def)

lemma count_ranking_counts:
  assumes "positions_ok k pd" "gt_id ` set ts \<subseteq> fst ` set pd" "1 \<le> pos" "pos + length ts \<le> Suc k"
  shows "\<exists>pd'. count_ranking pd pos ts = Inr pd' \<and> positions_ok k pd' \<and> od_keys pd' = od_keys pd \<and>
           (\<forall>t. row_total pd' t = row_total pd t + real (count (mset (map gt_id ts)) t)) \<and>
           (\<forall>t p. cell pd' t p = cell pd t p + (if placed pos (map gt_id ts) t p then 1 else 0))"
  using assms
proof (induction ts arbitrary: pd pos)
  case (Cons x ts)
  from count_position_row [OF Cons.prems(1), of "gt_id x" pos] Cons.prems obtain pd1
    where c: "count_position pd (gt_id x) pos = Inr pd1" "positions_ok k pd1" "od_keys pd1 = od_keys pd"
      "\<forall>t. row_total pd1 t = row_total pd t + (if t = gt_id x then 1 else 0)"
      "\<forall>t p. cell pd1 t p = cell pd t p + (if t = gt_id x \<and> p = pos then 1 else 0)" by auto
  have "fst ` set pd1 = fst ` set pd" using c(3) by (metis set_map)
  then obtain pd2 where d: "count_ranking pd1 (Suc pos) ts = Inr pd2" "positions_ok k pd2" "od_keys pd2 = od_keys pd1"
      "\<forall>t. row_total pd2 t = row_total pd1 t + real (count (mset (map gt_id ts)) t)"
      "\<forall>t p. cell pd2 t p = cell pd1 t p + (if placed (Suc pos) (map gt_id ts) t p then 1 else 0)"
    using Cons.IH [OF c(2), of "Suc pos"] Cons.prems by auto
  have "\<not> placed (Suc pos) (map gt_id ts) t pos" for t by (simp add: placed_def)
  with c d show ?case by (auto simp: placed_Cons)
qed (simp add: placed_def)

text \<open>A list of rankings, each a permutation of the teams.\<close>

lemma simulate_counts:
  assumes "permutes_teams srt" "teams_wf teams" "positions_ok (length teams) pd" "od_keys pd = od_keys teams"
    and "simulate_iterations srt R teams fs draws pd = Some (Inr pd')"
  shows "\<exists>rankings. length rankings = length draws \<and> (\<forall>ids \<in> set rankings. mset ids = mset (od_keys teams)) \<and>
           positions_ok (length teams) pd' \<and> od_keys pd' = od_keys teams \<and>
           (\<forall>t \<in> fst ` set teams. row_total pd' t = row_total pd t + real (length draws)) \<and>
           (\<forall>t p. cell pd' t p = cell pd t p + real (length (filter (\<lambda>ids. placed 1 ids t p) rankings)))"
  using assms(3-5)
proof (induction draws arbitrary: pd)
  case Nil
  then show ?case by (intro exI [of _ "[]"]) simp
next
  case (Cons dr draws)
  obtain sim pd1 where s: "play_fixtures teams fs dr = Some (Inr sim)" and
    c: "count_ranking pd 1 (rank_teams srt R (map snd sim)) = Inr pd1" and
    r: "simulate_iterations srt R teams fs draws pd1 = Some (Inr pd')"
    using Cons.prems(3) by (auto split: option.splits sum.splits)
  from play_fixtures_wf [OF assms(2) s] have w: "teams_wf sim" "od_keys sim = od_keys teams" by auto
  let ?ts = "rank_teams srt R (map snd sim)"
  have m: "mset ?ts = mset (map snd sim)" using assms(1) by (simp add: permutes_teams_def rank_teams_def)
  have "map (gt_id \<circ> snd) sim = od_keys sim" using w(1) by (auto simp: teams_wf_def list_all_iff intro!: map_cong)
  then have ids: "mset (map gt_id ?ts) = mset (od_keys teams)"
    using m w(2) by (metis mset_map map_map)
  then have sub: "gt_id ` set ?ts = fst ` set pd" and len: "length ?ts = length teams"
    using mset_eq_setD [OF ids] Cons.prems(2) by (metis set_map, metis length_map mset_eq_length ids)
  from count_ranking_counts [OF Cons.prems(1), of ?ts 1] sub len c
  have k: "positions_ok (length teams) pd1" "od_keys pd1 = od_keys pd"
    "\<forall>t. row_total pd1 t = row_total pd t + real (count (mset (map gt_id ?ts)) t)"
    "\<forall>t p. cell pd1 t p = cell pd t p + (if placed 1 (map gt_id ?ts) t p then 1 else 0)" by auto
  from Cons.IH [OF k(1) _ r] k(2) Cons.prems(2) obtain rankings
    where q: "length rankings = length draws" "\<forall>ids \<in> set rankings. mset ids = mset (od_keys teams)"
      "positions_ok (length teams) pd'" "od_keys pd' = od_keys teams"
      "\<forall>t \<in> fst ` set teams. row_total pd' t = row_total pd1 t + real (length draws)"
      "\<forall>t p. cell pd' t p = cell pd1 t p + real (length (filter (\<lambda>ids. placed 1 ids t p) rankings))" by auto
  have "count (mset (map gt_id ?ts)) t = 1" if "t \<in> fst ` set teams" for t
  proof -
    have "distinct (od_keys teams)" using assms(2) by (simp add: teams_wf_def od_wf_def)
    then show ?thesis using that unfolding ids by (simp add: distinct_count_atmost_1)
  qed
  then show ?case using k q ids by (intro exI [of _ "map gt_id ?ts # rankings"]) simp
qed

lemma map_of_map_snd: "map_of (map (\<lambda>(k, v). (k, g v)) d) k = map_option g (map_of d k)"
  by (induction d) auto

lemma sum_list_div: "sum_list (map (\<lambda>x. snd x / (c::real)) d) = sum_list (map snd d) / c"
  by (induction d) (simp_all add: add_divide_distrib)

text \<open>
  Simulated positions are frequencies. When a simulation of at least one iteration succeeds, each iteration ranked every team exactly once, the entry of
  a team at a position is the share of the iterations that ranked it there, the entries of a team sum to one, and every position is between
  first and last.
\<close>

lemma position_probabilities:
  assumes "permutes_teams srt" "teams_wf teams" "draws \<noteq> []"
    and "simulate_group_stage_standings srt conf teams fs draws = Some (Inr pd)"
  shows "\<exists>rankings. length rankings = length draws \<and> (\<forall>ids \<in> set rankings. mset ids = mset (od_keys teams)) \<and>
     (\<forall>t p. cell pd t p = real (length (filter (\<lambda>ids. placed 1 ids t p) rankings)) / real (length draws)) \<and>
     (\<forall>t \<in> fst ` set teams. row_total pd t = 1) \<and> positions_ok (length teams) pd"
proof -
  let ?pd0 = "map (\<lambda>kt. (fst kt, [])) teams" and ?n = "real (length draws)"
  let ?div = "map (\<lambda>(pos, x). (pos, x / ?n))"
  obtain pd1 where s: "simulate_iterations srt (rules_for conf) teams fs draws ?pd0 = Some (Inr pd1)"
    and pd: "pd = map (\<lambda>(team, d). (team, ?div d)) pd1"
    using assms(4) by (auto simp: simulate_group_stage_standings_def split: option.splits sum.splits)
  have "positions_ok (length teams) ?pd0" "od_keys ?pd0 = od_keys teams"
    by (simp_all add: positions_ok_def row_ok_def list_all_iff comp_def)
  from simulate_counts [OF assms(1,2) this s] obtain rankings where
    q: "length rankings = length draws" "\<forall>ids \<in> set rankings. mset ids = mset (od_keys teams)" "positions_ok (length teams) pd1" "od_keys pd1 = od_keys teams"
      "\<forall>t \<in> fst ` set teams. row_total pd1 t = row_total ?pd0 t + ?n"
      "\<forall>t p. cell pd1 t p = cell ?pd0 t p + real (length (filter (\<lambda>ids. placed 1 ids t p) rankings))" by blast
  have zero: "row_total ?pd0 t = 0" "cell ?pd0 t p = 0" for t p
    by (auto simp: row_total_def cell_def split: option.splits dest!: map_of_SomeD)
  have lookup: "map_of pd t = map_option ?div (map_of pd1 t)" for t
    unfolding pd by (rule map_of_map_snd)
  have "row_total pd t = row_total pd1 t / ?n" for t
    by (simp add: row_total_def lookup comp_def case_prod_beta sum_list_div split: option.splits)
  moreover have "cell pd t p = cell pd1 t p / ?n" for t p
    by (simp add: cell_def lookup map_of_map_snd split: option.splits)
  moreover have "positions_ok (length teams) pd"
    using q(3) by (auto simp: pd positions_ok_def row_ok_def od_wf_def list_all_iff comp_def case_prod_beta)
  moreover have "0 < ?n" using assms(3) by simp
  ultimately show ?thesis using q zero by (intro exI [of _ rankings]) simp
qed

text \<open>
  Points do not rank. For each of the six confederations with rules of its own the comparison of two teams is the same whatever their points are;
  under the rules of CAF, AFC and OFC the team with fewer goals scored is below, with any lead in points.
\<close>

lemma points_never_rank:
  fixes a b :: group_team
  assumes "conf \<in> {''CAF'', ''UEFA'', ''CONMEBOL'', ''AFC'', ''CONCACAF'', ''OFC''}"
  shows "compare_teams (rules_for conf) (a\<lparr>gt_points := x\<rparr>) (b\<lparr>gt_points := y\<rparr>) = compare_teams (rules_for conf) a b \<and>
     (conf \<in> {''CAF'', ''AFC'', ''OFC''} \<longrightarrow> gt_for a < gt_for b \<longrightarrow> compare_teams (rules_for conf) (a\<lparr>gt_points := x\<rparr>) b = -1)"
  using assms
  by (auto simp: compare_teams_def rules_for_def Let_def compare_by_criterion_def h2h_against_def compare_ints_def)

end
