(* ===== verification/Op_Signature.thy ===== *)
theory Op_Signature
  imports Wire_Ops
begin

text \<open>
  The gate in front of operator commands: key lifecycle (\<open>swarm/agents/maint/_key_lifecycle.py\<close>), key identity (\<open>xops/maint/key_id.py\<close>) and the
  signature and authorisation checks of \<open>swarm/agents/maint/_op_signature.py\<close>. HMAC, SHA-256, base64, ISO parsing and Unicode lower case are
  parameters. Files are what a call finds: the operators file with its modification time, the authorisation map, the key file, the age of
  the kill switch. An operator entry has text fields.
\<close>

record op_lib =
  ol_hmac :: "string \<Rightarrow> string \<Rightarrow> string"
  ol_sha256 :: "string \<Rightarrow> string"
  ol_base64 :: "string \<Rightarrow> string"
  ol_lower :: "string \<Rightarrow> string"
  ol_iso :: "string \<Rightarrow> real option"

record operator_entry =
  op_email :: string
  op_added_at :: string
  op_revoked_at :: "string option"

record op_config =
  oc_require_signature :: bool
  oc_grace_s :: int
  oc_max_age_days :: int
  oc_grace_days :: int
  oc_kill_max_age_h :: int
  oc_reload_s :: int
  oc_rate_limit :: int

text \<open>\<open>of_operators\<close> is \<^const>\<open>None\<close> without the file; its content is \<^const>\<open>None\<close> when it is not the JSON it should be.\<close>

record op_files =
  of_kill_mtime :: "real option"
  of_operators :: "(real \<times> (string, operator_entry) odict option) option"
  of_authz :: "jobj option"
  of_key :: "string option"

text \<open>The readings of the two clocks, in the order in which one verification takes them.\<close>

record op_clocks =
  ok_kill :: real
  ok_snapshot :: real
  ok_reload :: real
  ok_snapshot2 :: real
  ok_age :: real
  ok_rate :: real

section \<open>Key lifecycle\<close>

definition check_kill_switch :: "op_config \<Rightarrow> op_files \<Rightarrow> real \<Rightarrow> bool" where
  "check_kill_switch C F now =
     (case of_kill_mtime F of None \<Rightarrow> False | Some mtime \<Rightarrow> now - mtime < of_int (oc_kill_max_age_h C) * 3600)"

record operators_cache =
  ch_operators :: "(string, operator_entry) odict"
  ch_prev :: "(string, operator_entry) odict"
  ch_fail_safe :: bool
  ch_last_reload :: real
  ch_last_mtime :: real

definition new_cache :: operators_cache where
  "new_cache = \<lparr>ch_operators = [], ch_prev = [], ch_fail_safe = False, ch_last_reload = 0, ch_last_mtime = -1\<rparr>"

definition do_reload :: "op_files \<Rightarrow> operators_cache \<Rightarrow> operators_cache" where
  "do_reload F c =
     (case of_operators F of
        None \<Rightarrow> c\<lparr>ch_fail_safe := True\<rparr>
      | Some (mtime, content) \<Rightarrow>
          if mtime = ch_last_mtime c then c
          else
            (case content of
               None \<Rightarrow> c\<lparr>ch_fail_safe := True\<rparr>
             | Some ops \<Rightarrow> c\<lparr>ch_prev := ch_operators c, ch_operators := ops, ch_last_mtime := mtime, ch_fail_safe := False\<rparr>))"

definition get_snapshot :: "op_config \<Rightarrow> op_files \<Rightarrow> real \<Rightarrow> operators_cache \<Rightarrow> (string, operator_entry) odict option \<times> operators_cache" where
  "get_snapshot C F now c =
     (let c1 = (if of_int (oc_reload_s C) \<le> now - ch_last_reload c then (do_reload F c)\<lparr>ch_last_reload := now\<rparr> else c) in
      (if ch_fail_safe c1 then None else Some (ch_operators c1), c1))"

definition force_reload :: "op_files \<Rightarrow> real \<Rightarrow> operators_cache \<Rightarrow> operators_cache" where
  "force_reload F now c = (do_reload F c)\<lparr>ch_last_reload := now\<rparr>"

record key_bucket =
  kb_limit :: int
  kb_tokens :: "(string, real \<times> real) odict"

definition bucket_consume :: "string \<Rightarrow> real \<Rightarrow> key_bucket \<Rightarrow> bool \<times> key_bucket" where
  "bucket_consume key now b =
     (if kb_limit b = 0 then (True, b)
      else
        (let tokens = (case map_of (kb_tokens b) key of
               None \<Rightarrow> of_int (kb_limit b)
             | Some (t, at_s) \<Rightarrow> min (of_int (kb_limit b)) (t + (now - at_s) * (of_int (kb_limit b) / 60))) in
         if 1 \<le> tokens then (True, b\<lparr>kb_tokens := od_set key (tokens - 1, now) (kb_tokens b)\<rparr>)
         else (False, b\<lparr>kb_tokens := od_set key (tokens, now) (kb_tokens b)\<rparr>)))"

text \<open>The process-wide bucket is made anew when the configured limit has changed.\<close>

definition get_rate_bucket :: "op_config \<Rightarrow> key_bucket option \<Rightarrow> key_bucket" where
  "get_rate_bucket C b =
     (case b of
        Some b \<Rightarrow> if kb_limit b = oc_rate_limit C then b else \<lparr>kb_limit = oc_rate_limit C, kb_tokens = []\<rparr>
      | None \<Rightarrow> \<lparr>kb_limit = oc_rate_limit C, kb_tokens = []\<rparr>)"

text \<open>\<open>check_rotation_overdue\<close>: one alert per overdue key and day; the readings of the clocks are arguments.\<close>

fun rotation_overdue ::
    "op_lib \<Rightarrow> op_config \<Rightarrow> real \<Rightarrow> real \<Rightarrow> (string \<times> operator_entry) list \<Rightarrow> (string, real) odict \<Rightarrow> (string \<times> real) list \<times> (string, real) odict" where
  "rotation_overdue Li C tick_s now [] seen = ([], seen)"
| "rotation_overdue Li C tick_s now ((key, e) # rest) seen =
     (let skip = rotation_overdue Li C tick_s now rest seen in
      if op_revoked_at e \<noteq> None \<or> op_added_at e = [] then skip
      else
        (case ol_iso Li (op_added_at e) of
           None \<Rightarrow> skip
         | Some added \<Rightarrow>
             (let age_days = (now - added) / 86400 in
              if age_days \<le> of_int (oc_max_age_days C) then skip
              else if (case map_of seen key of None \<Rightarrow> False | Some t \<Rightarrow> tick_s - t < 86400) then skip
              else (let (alerts, seen') = rotation_overdue Li C tick_s now rest (od_set key tick_s seen) in ((key, age_days) # alerts, seen')))))"

definition rate_limit_debounce_expired :: "string \<Rightarrow> real \<Rightarrow> (string, real) odict \<Rightarrow> bool \<times> (string, real) odict" where
  "rate_limit_debounce_expired key now seen =
     (if 300 \<le> now - (case map_of seen key of Some t \<Rightarrow> t | None \<Rightarrow> 0) then (True, od_set key now seen) else (False, seen))"

section \<open>Signatures\<close>

text \<open>\<open>key_id.derive\<close>; \<open>str.strip\<close> is modelled on ASCII white space.\<close>

definition derive_key_id :: "op_lib \<Rightarrow> string \<Rightarrow> string \<Rightarrow> string res" where
  "derive_key_id Li email key =
     (let e = ol_lower Li (py_strip email) in
      if e = [] then Inl ValueError
      else Inr (take 16 (ol_sha256 Li (''negelir-opsctl-key-v1|'' @ e @ ''|'' @ ol_base64 Li key))))"

definition compute_signature :: "op_lib \<Rightarrow> string \<Rightarrow> string \<Rightarrow> string \<Rightarrow> string \<Rightarrow> string \<Rightarrow> string" where
  "compute_signature Li key request_id kind target produced_at =
     ol_hmac Li key (request_id @ ''|'' @ kind @ ''|'' @ target @ ''|'' @ produced_at)"

definition check_revocation_and_age :: "op_lib \<Rightarrow> op_config \<Rightarrow> operator_entry \<Rightarrow> string \<Rightarrow> real \<Rightarrow> bool \<times> string" where
  "check_revocation_and_age Li C e produced_at now =
     (if (case (if op_added_at e = [] then None else ol_iso Li (op_added_at e)) of
            None \<Rightarrow> False
          | Some added \<Rightarrow> of_int (oc_max_age_days C + oc_grace_days C) < (now - added) / 86400)
      then (False, ''key_age_exceeded'')
      else
        (case op_revoked_at e of
           None \<Rightarrow> (True, [])
         | Some r \<Rightarrow>
             (case (if r = [] then None else ol_iso Li r) of
                None \<Rightarrow> (False, ''key_revoked'')
              | Some revoked \<Rightarrow>
                  (let produced = (case (if produced_at = [] then None else ol_iso Li produced_at) of
                         Some t \<Rightarrow> if t = 0 then now else t | None \<Rightarrow> now) in
                   if produced \<le> revoked + of_int (oc_grace_s C) then (True, ''grace_window_pre_revocation'') else (False, ''key_revoked'')))))"

record op_state =
  os_cache :: operators_cache
  os_bucket :: "key_bucket option"

text \<open>\<open>hmac.compare_digest\<close> on texts raises unless both are ASCII.\<close>

definition compare_digest :: "string \<Rightarrow> string \<Rightarrow> bool res" where
  "compare_digest a b =
     (if list_all (\<lambda>c. (of_char c :: nat) < 128) (a @ b) then Inr (a = b) else Inl TypeError)"

text \<open>The last part of \<open>verify_envelope_signature\<close>: key file, key identity and HMAC.\<close>

definition verify_hmac :: "op_lib \<Rightarrow> pylib \<Rightarrow> op_files \<Rightarrow> operator_entry \<Rightarrow> string \<Rightarrow> string \<Rightarrow> jobj \<Rightarrow> string \<Rightarrow> (bool \<times> string) res" where
  "verify_hmac Li L F e key_id sig payload grace =
     (case of_key F of
        None \<Rightarrow> Inr (False, ''op_key_file_missing'')
      | Some file \<Rightarrow>
          (let raw = take 32 file in
           res_bind (derive_key_id Li (op_email e) raw) (\<lambda>own.
           if own \<noteq> key_id then Inr (False, ''op_key_id_unknown'')
           else
             res_bind (compare_digest sig
                 (compute_signature Li raw (py_str L (jget_or payload ''request_id'' (JStr []))) (py_str L (jget_or payload ''kind'' (JStr [])))
                   (py_str L (jget_or payload ''target'' (JStr []))) (py_str L (jget_or payload ''produced_at'' (JStr []))))) (\<lambda>same.
             Inr (if same then (True, grace) else (False, ''op_signature_invalid''))))))"

text \<open>The look-up of the key, reloading once when it is not known; \<open>Inl\<close> is the reason of a refusal.\<close>

definition lookup_operator :: "op_config \<Rightarrow> op_files \<Rightarrow> op_clocks \<Rightarrow> string \<Rightarrow> operators_cache \<Rightarrow> (string + operator_entry) \<times> operators_cache" where
  "lookup_operator C F K key c =
     (case get_snapshot C F (ok_snapshot K) c of
        (None, c1) \<Rightarrow> (Inl ''operators_unreadable'', c1)
      | (Some ops, c1) \<Rightarrow>
          (case map_of ops key of
             Some e \<Rightarrow> (Inr e, c1)
           | None \<Rightarrow>
               (case get_snapshot C F (ok_snapshot2 K) (force_reload F (ok_reload K) c1) of
                  (None, c2) \<Rightarrow> (Inl ''operators_unreadable'', c2)
                | (Some ops2, c2) \<Rightarrow> (case map_of ops2 key of Some e \<Rightarrow> (Inr e, c2) | None \<Rightarrow> (Inl ''op_key_id_unknown'', c2)))))"

definition verify_envelope_signature ::
    "op_lib \<Rightarrow> pylib \<Rightarrow> op_config \<Rightarrow> op_files \<Rightarrow> op_clocks \<Rightarrow> jobj \<Rightarrow> op_state \<Rightarrow> (bool \<times> string) res \<times> op_state" where
  "verify_envelope_signature Li L C F K payload s =
     (if \<not> oc_require_signature C then (Inr (True, []), s)
      else if check_kill_switch C F (ok_kill K) then (Inr (False, ''kill_switch_active''), s)
      else
        (let sig = jget_or payload ''op_signature'' JNull; key = jget_or payload ''op_key_id'' JNull in
         if \<not> py_bool sig then (Inr (False, ''op_signature_missing''), s)
         else if \<not> py_bool key then (Inr (False, ''op_key_id_missing''), s)
         else
           (case lookup_operator C F K (py_str L key) (os_cache s) of
              (Inl reason, c) \<Rightarrow> (Inr (False, reason), s\<lparr>os_cache := c\<rparr>)
            | (Inr e, c) \<Rightarrow>
                (let s1 = s\<lparr>os_cache := c\<rparr> in
                 case check_revocation_and_age Li C e (py_str L (jget_or payload ''produced_at'' (JStr []))) (ok_age K) of
                   (False, reason) \<Rightarrow> (Inr (False, reason), s1)
                 | (True, grace) \<Rightarrow>
                     (case bucket_consume (py_str L key) (ok_rate K) (get_rate_bucket C (os_bucket s1)) of
                        (False, b) \<Rightarrow> (Inr (False, ''key_rate_limited''), s1\<lparr>os_bucket := Some b\<rparr>)
                      | (True, b) \<Rightarrow> (verify_hmac Li L F e (py_str L key) (py_str L sig) payload grace, s1\<lparr>os_bucket := Some b\<rparr>))))))"

definition load_authz :: "op_files \<Rightarrow> jobj" where
  "load_authz F = (case of_authz F of None \<Rightarrow> [(''defaults'', JStr ''*''), (''overrides'', JObj [])] | Some raw \<Rightarrow> raw)"

text \<open>The authorisation map is well-formed: \<open>overrides\<close> is a mapping.\<close>

definition check_authz :: "op_config \<Rightarrow> op_files \<Rightarrow> string \<Rightarrow> string \<Rightarrow> bool \<times> string" where
  "check_authz C F key_id kind =
     (if \<not> oc_require_signature C then (True, [])
      else
        (let authz = load_authz F;
             overrides = (case jget_or authz ''overrides'' (JObj []) of JObj d \<Rightarrow> d | _ \<Rightarrow> []);
             allowed = (case map_of overrides kind of Some a \<Rightarrow> a | None \<Rightarrow> jget_or authz ''defaults'' (JStr ''*'')) in
         if allowed = JStr ''*'' then (True, [])
         else if (case allowed of JArr ids \<Rightarrow> JStr key_id \<in> set ids | _ \<Rightarrow> False) then (True, [])
         else (False, ''op_not_authorized'')))"

definition str_or_empty :: "pylib \<Rightarrow> jobj \<Rightarrow> string \<Rightarrow> string" where
  "str_or_empty L d k = (let v = jget_or d k JNull in if py_bool v then py_str L v else [])"

datatype gate_verdict = Passed | Refused_by string string

definition gate_op_envelope ::
    "op_lib \<Rightarrow> pylib \<Rightarrow> op_config \<Rightarrow> op_files \<Rightarrow> op_clocks \<Rightarrow> jobj \<Rightarrow> op_state \<Rightarrow> gate_verdict res \<times> op_state" where
  "gate_op_envelope Li L C F K payload s =
     (if \<not> (py_bool (jget_or payload ''op_key_id'' JNull) \<or> py_bool (jget_or payload ''op_signature'' JNull)) then (Inr Passed, s)
      else
        (case verify_envelope_signature Li L C F K payload s of
           (Inl e, s1) \<Rightarrow> (Inl e, s1)
         | (Inr (False, reason), s1) \<Rightarrow> (Inr (Refused_by reason ''opsctl_signature_invalid''), s1)
         | (Inr (True, _), s1) \<Rightarrow>
             (case check_authz C F (str_or_empty L payload ''op_key_id'') (str_or_empty L payload ''kind'') of
                (False, reason) \<Rightarrow> (Inr (Refused_by reason ''opsctl_unauthorized''), s1)
              | (True, _) \<Rightarrow> (Inr Passed, s1))))"

section \<open>What a passed gate proves\<close>

lemma get_snapshot_Some: "get_snapshot C F now c = (Some ops, c') \<Longrightarrow> ch_operators c' = ops \<and> \<not> ch_fail_safe c'"
  by (auto simp: get_snapshot_def Let_def split: if_splits)

lemma lookup_operator_Inr:
  "lookup_operator C F K key c = (Inr e, c') \<Longrightarrow> map_of (ch_operators c') key = Some e \<and> \<not> ch_fail_safe c'"
  by (auto simp: lookup_operator_def dest!: get_snapshot_Some split: prod.splits option.splits)

lemma verify_hmac_True:
  "verify_hmac Li L F e key sig payload grace = Inr (True, reason) \<Longrightarrow>
     \<exists>file. of_key F = Some file \<and> derive_key_id Li (op_email e) (take 32 file) = Inr key \<and>
       sig = compute_signature Li (take 32 file) (py_str L (jget_or payload ''request_id'' (JStr []))) (py_str L (jget_or payload ''kind'' (JStr [])))
         (py_str L (jget_or payload ''target'' (JStr []))) (py_str L (jget_or payload ''produced_at'' (JStr [])))"
  by (auto simp: verify_hmac_def compare_digest_def res_iffs Let_def split: option.splits if_splits)

lemma revocation_and_age_True:
  assumes "fst (check_revocation_and_age Li C e produced_at now)"
  shows "op_added_at e \<noteq> [] \<Longrightarrow> ol_iso Li (op_added_at e) = Some added \<Longrightarrow>
      (now - added) / 86400 \<le> of_int (oc_max_age_days C + oc_grace_days C)"
    and "op_revoked_at e = Some r \<Longrightarrow> \<exists>revoked. ol_iso Li r = Some revoked \<and>
      (case (if produced_at = [] then None else ol_iso Li produced_at) of Some t \<Rightarrow> if t = 0 then now else t | None \<Rightarrow> now)
        \<le> revoked + of_int (oc_grace_s C)"
  using assms by (auto simp: check_revocation_and_age_def Let_def split: if_splits option.splits)

lemma verify_True:
  assumes "oc_require_signature C" "verify_envelope_signature Li L C F K payload s = (Inr (True, reason), s')"
  defines "key \<equiv> py_str L (jget_or payload ''op_key_id'' JNull)"
  shows "py_bool (jget_or payload ''op_key_id'' JNull) \<and> py_bool (jget_or payload ''op_signature'' JNull) \<and>
    \<not> check_kill_switch C F (ok_kill K) \<and>
    (\<exists>e file. map_of (ch_operators (os_cache s')) key = Some e \<and> \<not> ch_fail_safe (os_cache s') \<and>
       fst (check_revocation_and_age Li C e (py_str L (jget_or payload ''produced_at'' (JStr []))) (ok_age K)) \<and>
       of_key F = Some file \<and> derive_key_id Li (op_email e) (take 32 file) = Inr key \<and>
       py_str L (jget_or payload ''op_signature'' JNull) =
         compute_signature Li (take 32 file) (py_str L (jget_or payload ''request_id'' (JStr []))) (py_str L (jget_or payload ''kind'' (JStr [])))
           (py_str L (jget_or payload ''target'' (JStr []))) (py_str L (jget_or payload ''produced_at'' (JStr []))))"
proof -
  let ?p = "py_str L (jget_or payload ''produced_at'' (JStr []))" and ?sig = "py_str L (jget_or payload ''op_signature'' JNull)"
  obtain r c where lk: "lookup_operator C F K key (os_cache s) = (r, c)" by fastforce
  have v: "\<not> check_kill_switch C F (ok_kill K)" "\<exists>e. r = Inr e"
    "py_bool (jget_or payload ''op_key_id'' JNull)" "py_bool (jget_or payload ''op_signature'' JNull)"
    using assms(1,2) lk by (auto simp: verify_envelope_signature_def Let_def key_def split: if_splits sum.splits)
  then obtain e where e: "lookup_operator C F K key (os_cache s) = (Inr e, c)" using lk by auto
  obtain ok grace where g: "check_revocation_and_age Li C e ?p (ok_age K) = (ok, grace)" by fastforce
  obtain ok2 b where b: "bucket_consume key (ok_rate K) (get_rate_bucket C (os_bucket s)) = (ok2, b)" by fastforce
  have k: "ok" "ok2" "verify_hmac Li L F e key ?sig payload grace = Inr (True, reason)" "os_cache s' = c"
    using assms(1,2) e g b by (auto simp: verify_envelope_signature_def Let_def key_def split: if_splits bool.splits)
  from verify_hmac_True [OF k(3)] lookup_operator_Inr [OF e] k(1,4) g v show ?thesis by fastforce
qed

lemma gate_Passed:
  assumes "gate_op_envelope Li L C F K payload s = (Inr Passed, s')"
    and "py_bool (jget_or payload ''op_key_id'' JNull) \<or> py_bool (jget_or payload ''op_signature'' JNull)"
  shows "\<exists>reason. verify_envelope_signature Li L C F K payload s = (Inr (True, reason), s') \<and>
    fst (check_authz C F (str_or_empty L payload ''op_key_id'') (str_or_empty L payload ''kind''))"
proof -
  obtain r s1 where v: "verify_envelope_signature Li L C F K payload s = (r, s1)" by fastforce
  obtain ok reason where a: "check_authz C F (str_or_empty L payload ''op_key_id'') (str_or_empty L payload ''kind'') = (ok, reason)" by fastforce
  have "\<exists>reason'. r = Inr (True, reason')" "ok" "s1 = s'"
    using assms v a by (auto simp: gate_op_envelope_def split: sum.splits bool.splits prod.splits)
  with v a show ?thesis by auto
qed


definition gate_lib :: op_lib where
  "gate_lib = \<lparr>ol_hmac = \<lambda>k m. k @ m, ol_sha256 = \<lambda>s. ''00'', ol_base64 = \<lambda>s. s, ol_lower = \<lambda>s. s, ol_iso = \<lambda>s. Some 1\<rparr>"

definition gate_files :: op_files where
  "gate_files = \<lparr>of_kill_mtime = None,
     of_operators = Some (1, Some [(''00'', \<lparr>op_email = ''a'', op_added_at = ''t'', op_revoked_at = None\<rparr>)]), of_authz = None, of_key = Some ''k''\<rparr>"

definition gate_config :: op_config where
  "gate_config = \<lparr>oc_require_signature = True, oc_grace_s = 60, oc_max_age_days = 365, oc_grace_days = 30, oc_kill_max_age_h = 24, oc_reload_s = 60,
     oc_rate_limit = 30\<rparr>"

definition gate_clocks :: op_clocks where
  "gate_clocks = \<lparr>ok_kill = 100, ok_snapshot = 100, ok_reload = 100, ok_snapshot2 = 100, ok_age = 100, ok_rate = 100\<rparr>"

definition signed_payload :: jobj where
  "signed_payload = [(''op_key_id'', JStr ''00''), (''op_signature'', JStr ''kr|dlq_replay|t|p''), (''request_id'', JStr ''r''), (''kind'', JStr ''dlq_replay''),
     (''target'', JStr ''t''), (''produced_at'', JStr ''p'')]"

lemmas gate_defs = gate_lib_def gate_files_def gate_config_def gate_clocks_def signed_payload_def


section \<open>The rate of a key\<close>

text \<open>What a key may spend at a time, and the buckets of a limit at that time.\<close>

definition available :: "string \<Rightarrow> real \<Rightarrow> key_bucket \<Rightarrow> real" where
  "available key now b = (case map_of (kb_tokens b) key of
     None \<Rightarrow> of_int (kb_limit b)
   | Some (t, at_s) \<Rightarrow> min (of_int (kb_limit b)) (t + (now - at_s) * (of_int (kb_limit b) / 60)))"

definition bucket_ok :: "int \<Rightarrow> real \<Rightarrow> key_bucket \<Rightarrow> bool" where
  "bucket_ok limit now b \<longleftrightarrow> 0 < limit \<and> kb_limit b = limit \<and>
     (\<forall>key t at_s. map_of (kb_tokens b) key = Some (t, at_s) \<longrightarrow> 0 \<le> t \<and> at_s \<le> now)"

lemma available_bounds:
  assumes "bucket_ok limit now b"
  shows "0 \<le> available key now b" "available key now b \<le> of_int limit"
  using assms by (auto simp: bucket_ok_def available_def split: option.splits)

lemma bucket_ok_later: "bucket_ok limit now b \<Longrightarrow> now \<le> then_s \<Longrightarrow> bucket_ok limit then_s b"
  by (fastforce simp: bucket_ok_def)

lemma available_later:
  assumes "bucket_ok limit now b" "now \<le> then_s"
  shows "available key then_s b \<le> available key now b + (then_s - now) * (of_int limit / 60)"
proof (cases "map_of (kb_tokens b) key")
  case None
  with assms show ?thesis by (simp add: available_def bucket_ok_def)
next
  case (Some e)
  obtain t at_s where e: "e = (t, at_s)" by force
  have l: "kb_limit b = limit" "0 < limit" using assms(1) by (simp_all add: bucket_ok_def)
  have "t + (then_s - at_s) * (of_int limit / 60) = t + (now - at_s) * (of_int limit / 60) + (then_s - now) * (of_int limit / 60)"
    by (simp add: field_simps)
  moreover have "0 \<le> (then_s - now) * (of_int limit / 60)" using assms(2) l by simp
  ultimately have "min (of_int limit) (t + (then_s - at_s) * (of_int limit / 60)) \<le>
      min (of_int limit) (t + (now - at_s) * (of_int limit / 60)) + (then_s - now) * (of_int limit / 60)" by linarith
  then show ?thesis using Some e l by (simp add: available_def)
qed

lemma bucket_consume_available:
  "bucket_consume key now b =
     (if kb_limit b = 0 then (True, b)
      else (1 \<le> available key now b, b\<lparr>kb_tokens :=
        od_set key (available key now b - (if 1 \<le> available key now b then 1 else 0), now) (kb_tokens b)\<rparr>))"
  by (simp add: bucket_consume_def available_def Let_def)

lemma available_set:
  "available k now (b\<lparr>kb_tokens := od_set key (t, now) (kb_tokens b)\<rparr>) =
     (if k = key then min (of_int (kb_limit b)) t else available k now b)"
  by (auto simp: available_def od_simps split: option.split)

lemma bucket_step:
  assumes "bucket_ok limit now b" "bucket_consume key now b = (passed, b')"
  shows "bucket_ok limit now b'" "available k now b' = available k now b - (if passed \<and> key = k then 1 else 0)"
proof -
  let ?t = "available key now b - (if passed then 1 else 0)"
  have l: "kb_limit b = limit" "0 < limit" using assms(1) by (simp_all add: bucket_ok_def)
  note a = available_bounds [OF assms(1), of key]
  have b': "b' = b\<lparr>kb_tokens := od_set key (?t, now) (kb_tokens b)\<rparr>" and t: "0 \<le> ?t" "?t \<le> of_int limit"
    using assms(2) l a by (auto simp: bucket_consume_available split: if_splits)
  show "bucket_ok limit now b'"
    using assms(1) t(1) unfolding b' by (cases passed) (auto simp: bucket_ok_def od_simps)
  show "available k now b' = available k now b - (if passed \<and> key = k then 1 else 0)"
    unfolding b' available_set using t(2) l by auto
qed

text \<open>One call of the gate takes at most one token of its own key, and takes one when it lets a signed command pass.\<close>

lemma gate_step:
  fixes C :: op_config and K :: op_clocks
  assumes "oc_require_signature C" "gate_op_envelope Li L C F K payload s = (r, s')"
    and "bucket_ok (oc_rate_limit C) (ok_rate K) (get_rate_bucket C (os_bucket s))"
  defines "b' \<equiv> get_rate_bucket C (os_bucket s')"
  shows "bucket_ok (oc_rate_limit C) (ok_rate K) b' \<and>
    available k (ok_rate K) b' \<le> available k (ok_rate K) (get_rate_bucket C (os_bucket s)) -
      (if r = Inr Passed \<and> py_bool (jget_or payload ''op_key_id'' JNull) \<and> py_str L (jget_or payload ''op_key_id'' JNull) = k then 1 else 0)"
proof (cases "py_bool (jget_or payload ''op_key_id'' JNull) \<or> py_bool (jget_or payload ''op_signature'' JNull)")
  case False
  with assms show ?thesis by (simp add: gate_op_envelope_def)
next
  case True
  let ?key = "py_str L (jget_or payload ''op_key_id'' JNull)" and ?b = "get_rate_bucket C (os_bucket s)"
  obtain v s1 where v: "verify_envelope_signature Li L C F K payload s = (v, s1)" by fastforce
  have s1: "s' = s1" using assms(2) v True by (auto simp: gate_op_envelope_def split: sum.splits bool.splits prod.splits)
  have pass: "\<exists>reason. v = Inr (True, reason)" if "r = Inr Passed"
    using gate_Passed [OF assms(2) [unfolded that] True] v by simp
  obtain passed b1 where c: "bucket_consume ?key (ok_rate K) ?b = (passed, b1)" by fastforce
  note st = bucket_step [OF assms(3) c]
  have b1: "get_rate_bucket C (Some b1) = b1" using st(1) by (simp add: get_rate_bucket_def bucket_ok_def)
  consider "os_bucket s' = os_bucket s" "\<nexists>reason. v = Inr (True, reason)" | "os_bucket s' = Some b1" "passed \<or> (\<nexists>reason. v = Inr (True, reason))"
    using v c assms(1) unfolding s1 verify_envelope_signature_def Let_def by (auto split: if_splits sum.splits prod.splits bool.splits)
  then show ?thesis
  proof cases
    case 1
    with assms(3) pass show ?thesis by (auto simp: b'_def)
  next
    case 2
    with st(1) st(2) [of k] pass b1 show ?thesis by (auto simp: b'_def)
  qed
qed

text \<open>A run of the gate: files, clocks and payload of each call, with its answer.\<close>

fun gate_run :: "op_lib \<Rightarrow> pylib \<Rightarrow> op_config \<Rightarrow> (op_files \<times> op_clocks \<times> jobj) list \<Rightarrow> op_state \<Rightarrow> gate_verdict res list \<times> op_state" where
  "gate_run Li L C [] s = ([], s)"
| "gate_run Li L C ((F, K, payload) # calls) s =
     (let (r, s1) = gate_op_envelope Li L C F K payload s; (rs, s2) = gate_run Li L C calls s1 in (r # rs, s2))"

definition passed_with :: "pylib \<Rightarrow> string \<Rightarrow> (op_files \<times> op_clocks \<times> jobj) list \<Rightarrow> gate_verdict res list \<Rightarrow> nat" where
  "passed_with L key calls rs = length (filter (\<lambda>((F, K, payload), r). r = Inr Passed \<and>
     py_bool (jget_or payload ''op_key_id'' JNull) \<and> py_str L (jget_or payload ''op_key_id'' JNull) = key) (zip calls rs))"

definition rate_time :: "op_files \<times> op_clocks \<times> jobj \<Rightarrow> real" where
  "rate_time call = ok_rate (fst (snd call))"

lemma rate_time_simps [simp]: "rate_time (F, K, payload) = ok_rate K"
  by (simp add: rate_time_def)

lemma gate_run_rate:
  assumes "oc_require_signature C" "gate_run Li L C calls s = (rs, s')"
    and "bucket_ok (oc_rate_limit C) from_s (get_rate_bucket C (os_bucket s))"
    and "sorted (from_s # map rate_time calls @ [to_s])"
  shows "bucket_ok (oc_rate_limit C) to_s (get_rate_bucket C (os_bucket s')) \<and>
    real (passed_with L key calls rs) \<le>
      available key from_s (get_rate_bucket C (os_bucket s)) + (to_s - from_s) * (of_int (oc_rate_limit C) / 60)"
  using assms(2-4)
proof (induction calls arbitrary: s rs from_s)
  case Nil
  let ?b = "get_rate_bucket C (os_bucket s)"
  have "0 < oc_rate_limit C" "0 \<le> available key from_s ?b" using Nil.prems(2) available_bounds [OF Nil.prems(2)] by (simp_all add: bucket_ok_def)
  with Nil show ?case by (auto simp: passed_with_def intro: bucket_ok_later)
next
  case (Cons call calls)
  let ?b = "get_rate_bucket C (os_bucket s)" and ?rate = "of_int (oc_rate_limit C) / 60 :: real"
  obtain F K payload where call: "call = (F, K, payload)" by (cases call)
  obtain r s1 where r: "gate_op_envelope Li L C F K payload s = (r, s1)" by fastforce
  obtain rs1 where rs1: "gate_run Li L C calls s1 = (rs1, s')" "rs = r # rs1"
    using Cons.prems(1) r by (auto simp: call split: prod.splits)
  have le: "from_s \<le> ok_rate K" and srt: "sorted (ok_rate K # map rate_time calls @ [to_s])"
    using Cons.prems(3) by (simp_all add: call)
  note ok = bucket_ok_later [OF Cons.prems(2) le]
  note st = gate_step [OF assms(1) r ok, of key]
  note ih = Cons.IH [OF rs1(1) conjunct1 [OF st] srt]
  have "available key (ok_rate K) ?b \<le> available key from_s ?b + (ok_rate K - from_s) * ?rate"
    by (rule available_later [OF Cons.prems(2) le])
  moreover have "(ok_rate K - from_s) * ?rate + (to_s - ok_rate K) * ?rate = (to_s - from_s) * ?rate"
    by (simp only: distrib_right [symmetric]) simp
  moreover have "real (passed_with L key (call # calls) rs) = (if r = Inr Passed \<and> py_bool (jget_or payload ''op_key_id'' JNull) \<and>
      py_str L (jget_or payload ''op_key_id'' JNull) = key then 1 else 0) + real (passed_with L key calls rs1)"
    by (simp add: passed_with_def call rs1(2))
  ultimately show ?case using ih st by linarith
qed

lemma gate_run_append:
  "gate_run Li L C (before @ during) s = (rs, s') \<Longrightarrow> \<exists>rs1 rs2 s1. gate_run Li L C before s = (rs1, s1) \<and>
     gate_run Li L C during s1 = (rs2, s') \<and> rs = rs1 @ rs2 \<and> length rs1 = length before"
  by (induction before arbitrary: s rs) (fastforce split: prod.splits)+

text \<open>
  C35: the rate limit of an operator key. Take any run of the gate from its start, with signatures required and the clock never going back, and any
  span of time within it, wherever it starts: of the commands signed with one key that are checked in the span, at most the limit per minute times
  one minute more than the span pass the gate.
\<close>

theorem key_rate_bounded:
  assumes "oc_require_signature C" "0 < oc_rate_limit C" "os_bucket s = None"
    and "gate_run Li L C (before @ during) s = (rs, s')" "sorted (map rate_time before @ [from_s] @ map rate_time during @ [to_s])"
  shows "real (passed_with L key during (drop (length before) rs)) \<le> of_int (oc_rate_limit C) * (1 + (to_s - from_s) / 60)"
proof -
  obtain rs1 rs2 s1 where run: "gate_run Li L C before s = (rs1, s1)" "gate_run Li L C during s1 = (rs2, s')" "rs = rs1 @ rs2"
    "length rs1 = length before" using gate_run_append [OF assms(4)] by blast
  let ?t0 = "hd (map rate_time before @ [from_s])"
  have "bucket_ok (oc_rate_limit C) ?t0 (get_rate_bucket C (os_bucket s))"
    using assms(2,3) by (simp add: bucket_ok_def get_rate_bucket_def)
  moreover have "sorted (?t0 # map rate_time before @ [from_s])"
    using assms(5) by (cases before) (auto simp: sorted_append)
  ultimately have ok: "bucket_ok (oc_rate_limit C) from_s (get_rate_bucket C (os_bucket s1))"
    using gate_run_rate [OF assms(1) run(1)] by blast
  have "sorted (from_s # map rate_time during @ [to_s])" using assms(5) by (simp add: sorted_append)
  from conjunct2 [OF gate_run_rate [OF assms(1) run(2) ok this, of key]] available_bounds(2) [OF ok, of key]
  show ?thesis by (simp add: run(3,4) algebra_simps)
qed

lemma key_rate_bounded_witness:
  "\<exists>rs s'. gate_run gate_lib example_lib gate_config ([(gate_files, gate_clocks, signed_payload)] @ [(gate_files, gate_clocks, signed_payload)])
      \<lparr>os_cache = new_cache, os_bucket = None\<rparr> = (rs, s') \<and>
    real (passed_with example_lib ''00'' [(gate_files, gate_clocks, signed_payload)] (drop 1 rs)) \<le> 40"
proof -
  let ?c = "(gate_files, gate_clocks, signed_payload)"
  obtain rs s' where r: "gate_run gate_lib example_lib gate_config ([?c] @ [?c]) \<lparr>os_cache = new_cache, os_bucket = None\<rparr> = (rs, s')" by fastforce
  have "oc_require_signature gate_config" "0 < oc_rate_limit gate_config" "os_bucket \<lparr>os_cache = new_cache, os_bucket = None\<rparr> = None"
    "sorted (map rate_time [?c] @ [100] @ map rate_time [?c] @ [120])"
    by (simp_all add: gate_config_def gate_clocks_def)
  from key_rate_bounded [OF this(1-3) r this(4), of "''00''"]
  have "real (passed_with example_lib ''00'' [?c] (drop 1 rs)) \<le> 40" by (simp add: gate_config_def)
  with r show ?thesis by blast
qed

end
