(* ===== verification/Dlq.thy ===== *)
theory Dlq
  imports Op_Signature Watchdogs Cron Sec_Rate Bus
begin

text \<open>
  The dead-letter supervisor of \<open>swarm/agents/maint/dlq/__init__.py\<close> (the package hides the older module \<open>dlq.py\<close> beside it) with its replay
  policy (\<open>dlq/replay_policy.py\<close>) and the acknowledgement reconciler it runs (\<open>_spool_ack_reconciler.py\<close>): operator commands to replay, drop and unfreeze, pausing, the round-robin tick with its
  damping, and the alerts. A call reads each clock once; the ids it draws for its alerts are numbered by a counter in the state. What a
  call emits is topic, payload, producer and trace of its messages; the rest of an envelope is a fresh id, the time and attempt 1. An
  exception in a handler drops its messages and keeps what it has done to the state.
\<close>

section \<open>Settings and state\<close>

record dlq_config =
  dlc_quota :: int
  dlc_backoff_s :: int
  dlc_backoff_factor :: int
  dlc_backoff_lru :: int
  dlc_allow_csv :: string
  dlc_overrides_csv :: string
  dlc_visit_max :: int
  dlc_visit_lru :: int
  dlc_per_min :: int
  dlc_rps :: int
  dlc_per_tick :: int
  dlc_broken_threshold :: int
  dlc_broken_window_s :: int
  dlc_backlog_alert :: int
  dlc_state_max :: int
  dlc_pause_ttl_s :: int
  dlc_lag_ms :: int
  dlc_lag_window_s :: int
  dlc_ack_wait_h :: int
  dlc_op :: op_config

text \<open>What a call finds: the clocks, fresh ids, the files of the gate, whether this replica leads, and the ISO parser.\<close>

record dlq_env =
  dle_leader :: bool
  dle_now :: real
  dle_iso :: string
  dle_id :: "nat \<Rightarrow> string"
  dle_from_iso :: "string \<Rightarrow> real option"
  dle_hex :: "string \<Rightarrow> string"
  dle_op_lib :: op_lib
  dle_op_files :: op_files
  dle_op_clocks :: op_clocks

record dlq_instance =
  drn_replayed :: int
  drn_last_run_at :: real

record rate_count =
  rc_epoch :: int
  rc_count :: nat

text \<open>One flush window of the reconciler; its sets are lists without repetition.\<close>

record ack_window =
  aw_deadline_s :: real
  aw_expected :: "jval list option"
  aw_received :: "string list"
  aw_emitted :: bool

record dlq_state =
  dls_state :: "(string, dlq_instance) odict"
  dls_req_lru :: "(string, unit) odict"
  dls_budgets :: "(string, int) odict"
  dls_disabled :: "string list"
  dls_visits :: "(string \<times> string, int) odict"
  dls_rate :: "(string, rate_count) odict"
  dls_rps :: "(string, rate_count) odict"
  dls_poison :: "(string, (real \<times> string) list) odict"
  dls_frozen :: "(string, string) odict"
  dls_pause :: pause_state
  dls_damped :: "(string, real \<times> real) odict"
  dls_replays :: "(string, nat) odict"
  dls_boot_alerted :: "string list"
  dls_windows :: "(string \<times> string, ack_window) odict"
  dls_incomplete :: "string list"
  dls_sec_lag :: sec_lag
  dls_op :: op_state
  dls_drawn :: nat

definition dlq_init :: dlq_state where
  "dlq_init = \<lparr>dls_state = [], dls_req_lru = [], dls_budgets = [], dls_disabled = [], dls_visits = [], dls_rate = [], dls_rps = [],
     dls_poison = [], dls_frozen = [], dls_pause = pause_init, dls_damped = [], dls_replays = [], dls_boot_alerted = [], dls_windows = [],
     dls_incomplete = [], dls_sec_lag = sec_lag_init, dls_op = \<lparr>os_cache = new_cache, os_bucket = None\<rparr>, dls_drawn = 0\<rparr>"

definition dlq_name :: string where
  "dlq_name = ''maint.dlq.v1''"

definition strict_payload_topics :: "string list" where
  "strict_payload_topics =
     [''freshness.events.v1'', ''maint.ack.v1'', ''match.normalized'', ''match.outcome.v1'', ''match.stored'', ''models.events.v1'',
      ''predict.approved.v1'', ''predict.final'', ''predict.proofreader_verdict.v1'', ''predict.request'', ''predict.vote'', ''qa.request'',
      ''qa.request.v1'', ''scrape.classified'', ''scrape.raw'', ''scrape.request'', ''sec.alert.v1'', ''sec.config.v1'', ''sec.denylist.v1'',
      ''sec.quarantine.v1'', ''source.watch.report.v1'']"

definition maint_ack_topic :: string where
  "maint_ack_topic = ''maint.ack.v1''"

definition dlq_meta_policy :: "string \<Rightarrow> string" where
  "dlq_meta_policy origin = (if origin \<in> set strict_payload_topics then ''out_of_band'' else ''inject'')"

definition dlq_origin :: "string \<Rightarrow> string" where
  "dlq_origin target = (if ends_with target dlq_suffix then take (length target - length dlq_suffix) target else target)"

definition recursion_deny_set :: "string list" where
  "recursion_deny_set =
     [''maint.dlq.v1.dlq'', ''maint.event.v1.dlq'', ''maint.ack.v1.dlq'', ''sec.alert.v1.dlq'', ''sec.quarantine.v1.dlq'', ''qa.request.v1.dlq'']"

definition parse_csv_set :: "string \<Rightarrow> string list" where
  "parse_csv_set raw = remdups (filter (\<lambda>t. t \<noteq> []) (map py_strip (split_on (CHR '','') raw)))"

definition allow_overrides :: "dlq_config \<Rightarrow> string list" where
  "allow_overrides C = filter (\<lambda>t. t \<noteq> []) (map py_strip (split_on (CHR '','') (dlc_overrides_csv C)))"

definition deny_prefixes :: "string list" where
  "deny_prefixes = [''maint.'', ''sec.'', ''auth.'', ''payment.'', ''patcher.'']"

definition deny_suffixes :: "string list" where
  "deny_suffixes = [''.dlq.dlq'']"

text \<open>The layered policy: suffixes and the exact set cannot be overridden, the prefixes can.\<close>

definition deny_reason :: "string list \<Rightarrow> string \<Rightarrow> string option" where
  "deny_reason overrides topic =
     (let t = py_strip topic in
      if t = [] then Some ''invalid_topic''
      else if \<exists>x \<in> set deny_suffixes. ends_with t x then Some ''deny_suffix''
      else if t \<in> set recursion_deny_set then Some ''recursion_deny''
      else if t \<in> set overrides then None
      else if \<exists>x \<in> set deny_prefixes. take (length x) t = x then Some ''recursion_deny''
      else None)"

definition policy_deny_reason :: "dlq_config \<Rightarrow> string \<Rightarrow> string option" where
  "policy_deny_reason C target = deny_reason (allow_overrides C) target"

definition is_allowed_topic :: "dlq_config \<Rightarrow> string \<Rightarrow> bool" where
  "is_allowed_topic C target \<longleftrightarrow>
     policy_deny_reason C target = None \<and> (parse_csv_set (dlc_allow_csv C) = [] \<or> target \<in> set (parse_csv_set (dlc_allow_csv C)))"

section \<open>Messages\<close>

text \<open>A step of a handler: the messages it emits, or the exception, and the state.\<close>

type_synonym dlq_step = "dlq_state \<Rightarrow> emission list res \<times> dlq_state"

definition dlq_alert :: "dlq_env \<Rightarrow> string \<Rightarrow> string \<Rightarrow> string \<Rightarrow> jval \<Rightarrow> string option \<Rightarrow> dlq_step" where
  "dlq_alert E kind severity reason subject trace s =
     (res_bind (sec_alert_check (dle_hex E)
        \<lparr>sa_alert_id = dle_id E (dls_drawn s), sa_kind = kind, sa_severity = severity, sa_source = dlq_name, sa_reason = reason,
         sa_produced_at = dle_iso E, sa_subject = subject, sa_request_id = JNull, sa_client_id = JNull, sa_ip = JNull,
         sa_evidence_ref = JNull, sa_event_correlation_id = JNull\<rparr>)
       (\<lambda>a. Inr [\<lparr>em_topic = sec_alert_topic, em_payload = sec_alert_as_dict a, em_producer = dlq_name, em_trace = trace\<rparr>]),
      s\<lparr>dls_drawn := Suc (dls_drawn s)\<rparr>)"

definition dlq_ack :: "dlq_env \<Rightarrow> message \<Rightarrow> string \<Rightarrow> bool \<Rightarrow> string \<Rightarrow> jobj option \<Rightarrow> emission list res" where
  "dlq_ack E msg request_id accepted reason details =
     (let trace = en_trace_id (msg_envelope msg); attempt = en_attempt (msg_envelope msg) in
      res_bind (maint_ack_check
        \<lparr>ma_request_id = request_id, ma_accepted = accepted, ma_accepted_by = dlq_name, ma_processed_at = dle_iso E,
         ma_attempt = (if attempt = 0 then 1 else attempt), ma_reason = reason, ma_details = details, ma_trace_id = Some trace,
         ma_schema_version = 2\<rparr>)
       (\<lambda>a. Inr [\<lparr>em_topic = maint_ack_topic, em_payload = maint_ack_as_dict a, em_producer = dlq_name, em_trace = Some trace\<rparr>]))"

text \<open>The keys of \<open>extra\<close> are never those of the notification.\<close>

definition dlq_notify :: "dlq_env \<Rightarrow> string \<Rightarrow> string \<Rightarrow> jobj \<Rightarrow> emission" where
  "dlq_notify E kind target extra =
     \<lparr>em_topic = maint_event_topic, em_payload = [(''kind'', JStr kind), (''target'', JStr target), (''produced_at'', JStr (dle_iso E))] @ extra,
      em_producer = dlq_name, em_trace = None\<rparr>"

definition notify_lifecycle :: "dlq_env \<Rightarrow> string \<Rightarrow> jobj \<Rightarrow> emission" where
  "notify_lifecycle E kind extra =
     \<lparr>em_topic = maint_event_topic,
      em_payload = [(''kind'', JStr kind), (''kind_schema_version'', JInt 1), (''agent_id'', JStr dlq_name), (''produced_at'', JStr (dle_iso E))] @ extra,
      em_producer = dlq_name, em_trace = None\<rparr>"

text \<open>An acknowledgement followed by one notification.\<close>

definition ack_and_notify ::
    "dlq_env \<Rightarrow> message \<Rightarrow> string \<Rightarrow> bool \<Rightarrow> string \<Rightarrow> string \<Rightarrow> string \<Rightarrow> jobj \<Rightarrow> emission list res" where
  "ack_and_notify E msg request_id accepted reason kind target extra =
     res_bind (dlq_ack E msg request_id accepted reason None) (\<lambda>out. Inr (out @ [dlq_notify E kind target extra]))"

section \<open>Counters and buckets\<close>

definition bump_visit :: "dlq_config \<Rightarrow> string \<Rightarrow> string \<Rightarrow> dlq_state \<Rightarrow> int \<times> dlq_state" where
  "bump_visit C target request_id s =
     (let key = (target, request_id) in
      case map_of (dls_visits s) key of
        Some n \<Rightarrow> (n + 1, s\<lparr>dls_visits := od_touch key (od_set key (n + 1) (dls_visits s))\<rparr>)
      | None \<Rightarrow> (1, s\<lparr>dls_visits := od_trim (nat (max 1 (dlc_visit_lru C))) (od_set key 1 (dls_visits s))\<rparr>))"

text \<open>\<open>_rate_limited\<close> and \<open>_rps_rate_limited\<close>: a new bucket in a new epoch, a full bucket refuses.\<close>

definition take_token :: "int \<Rightarrow> int \<Rightarrow> string \<Rightarrow> (string, rate_count) odict \<Rightarrow> bool \<times> (string, rate_count) odict" where
  "take_token cap epoch target buckets =
     (let b = (case map_of buckets target of
                 Some b \<Rightarrow> if rc_epoch b = epoch then b else \<lparr>rc_epoch = epoch, rc_count = 0\<rparr>
               | None \<Rightarrow> \<lparr>rc_epoch = epoch, rc_count = 0\<rparr>) in
      if max 1 cap \<le> int (rc_count b) then (False, od_set target b buckets)
      else (True, od_set target (b\<lparr>rc_count := Suc (rc_count b)\<rparr>) buckets))"

definition sec_epoch :: "dlq_env \<Rightarrow> int" where
  "sec_epoch E = Json.truncate (dle_now E)"

definition minute_epoch :: "dlq_env \<Rightarrow> int" where
  "minute_epoch E = Json.truncate (dle_now E) div 60"

definition rps_rate_limited :: "dlq_config \<Rightarrow> dlq_env \<Rightarrow> string \<Rightarrow> dlq_state \<Rightarrow> bool \<times> dlq_state" where
  "rps_rate_limited C E target s =
     (let (ok, buckets) = take_token (dlc_rps C) (sec_epoch E) target (dls_rps s) in (\<not> ok, s\<lparr>dls_rps := buckets\<rparr>))"

definition rate_limited :: "dlq_config \<Rightarrow> dlq_env \<Rightarrow> string \<Rightarrow> dlq_state \<Rightarrow> bool \<times> dlq_state" where
  "rate_limited C E target s =
     (let (ok, buckets) = take_token (dlc_per_min C) (minute_epoch E) target (dls_rate s) in (\<not> ok, s\<lparr>dls_rate := buckets\<rparr>))"

text \<open>The probe of the tick takes no token.\<close>

definition bucket_full :: "int \<Rightarrow> int \<Rightarrow> string \<Rightarrow> (string, rate_count) odict \<Rightarrow> bool" where
  "bucket_full cap epoch target buckets =
     (case map_of buckets target of None \<Rightarrow> False | Some b \<Rightarrow> rc_epoch b = epoch \<and> max 1 cap \<le> int (rc_count b))"

definition state_pressure_alert :: "dlq_config \<Rightarrow> dlq_env \<Rightarrow> dlq_step" where
  "state_pressure_alert C E =
     dlq_alert E ''dlq_state_pressure'' ''warn'' (''state cap '' @ show_int (max 1 (dlc_state_max C)) @ '' hit; fill rate outpaces backoff window'') JNull None"

text \<open>The eviction loop of \<open>_bump_state\<close>, over the entries from the oldest.\<close>

fun evict_runs :: "dlq_config \<Rightarrow> dlq_env \<Rightarrow> (string, dlq_instance) odict \<Rightarrow> dlq_step" where
  "evict_runs C E [] s = (Inr [], s\<lparr>dls_state := []\<rparr>)"
| "evict_runs C E (p # rest) s =
     (if int (length (p # rest)) \<le> max 1 (dlc_state_max C) then (Inr [], s\<lparr>dls_state := p # rest\<rparr>)
      else
        and_then
          (if dle_now E - drn_last_run_at (snd p) < of_int (max 1 (dlc_backoff_s C) * max 1 (dlc_backoff_factor C) * 3)
           then state_pressure_alert C E s else (Inr [], s))
          (evict_runs C E rest))"

definition bump_state :: "dlq_config \<Rightarrow> dlq_env \<Rightarrow> string \<Rightarrow> dlq_step" where
  "bump_state C E topic s =
     (case map_of (dls_state s) topic of
        Some run \<Rightarrow> (Inr [], s\<lparr>dls_state := od_touch topic (od_set topic (run\<lparr>drn_last_run_at := dle_now E\<rparr>) (dls_state s))\<rparr>)
      | None \<Rightarrow> evict_runs C E (od_set topic \<lparr>drn_replayed = 0, drn_last_run_at = dle_now E\<rparr> (dls_state s)) s)"

definition distinct_ids :: "(real \<times> string) list \<Rightarrow> int" where
  "distinct_ids entries = int (card (set (map snd entries)))"

definition record_escalation :: "dlq_config \<Rightarrow> dlq_env \<Rightarrow> string \<Rightarrow> string \<Rightarrow> dlq_state \<Rightarrow> bool \<times> dlq_state" where
  "record_escalation C E topic request_id s =
     (let window_s = max 1 (dlc_broken_window_s C); threshold = max 2 (dlc_broken_threshold C);
          entries = (case map_of (dls_poison s) topic of None \<Rightarrow> [] | Some es \<Rightarrow> es);
          kept = dropWhile (\<lambda>e. fst e < dle_now E - of_int window_s) entries;
          new = kept @ [(dle_now E, request_id)] in
      (distinct_ids kept < threshold \<and> threshold \<le> distinct_ids new \<and> topic \<notin> fst ` set (dls_frozen s),
       s\<lparr>dls_poison := od_set topic new (dls_poison s)\<rparr>))"

definition backlog_alert :: "dlq_config \<Rightarrow> dlq_env \<Rightarrow> string \<Rightarrow> int \<Rightarrow> dlq_step" where
  "backlog_alert C E topic depth s =
     and_then
       (dlq_alert E ''dlq_backlog_high'' ''warn'' (''depth='' @ show_int depth @ '' > cfg.maint_dlq_backlog_alert='' @ show_int (dlc_backlog_alert C))
         (JStr topic) None s)
       (\<lambda>s1. (Inr [dlq_notify E ''dlq_backlog_high'' topic
          [(''depth'', JInt depth), (''threshold'', JInt (dlc_backlog_alert C)), (''damped_budget_factor'', JInt 4)]], s1))"

definition consumer_broken_alert :: "dlq_config \<Rightarrow> dlq_env \<Rightarrow> string \<Rightarrow> int \<Rightarrow> dlq_step" where
  "consumer_broken_alert C E topic n s =
     (let window_s = max 1 (dlc_broken_window_s C) in
      and_then
        (dlq_alert E ''consumer_likely_broken'' ''error''
          (''distinct_escalations='' @ show_int n @ '' >= cfg.maint_dlq_consumer_broken_threshold='' @ show_int (dlc_broken_threshold C) @
           '' within '' @ show_int window_s @ ''s window'') (JStr topic) None s)
        (\<lambda>s1. (Inr [dlq_notify E ''dlq_consumer_broken'' topic
           [(''reason'', JStr ''poison_pattern''), (''distinct_request_ids'', JInt n), (''window_s'', JInt window_s)]], s1)))"

section \<open>The acknowledgement reconciler\<close>

text \<open>A frozen set of JSON values: the first of equal values stays.\<close>

fun frozenset_of :: "jval list \<Rightarrow> jval list" where
  "frozenset_of [] = []"
| "frozenset_of (j # js) = j # filter (\<lambda>k. key_value k \<noteq> key_value j) (frozenset_of js)"

text \<open>\<open>sorted\<close> of a set: texts compare with texts, numbers with numbers.\<close>

fun text_of :: "jval \<Rightarrow> string" where
  "text_of (JStr s) = s"
| "text_of _ = []"

fun number_of :: "jval \<Rightarrow> real" where
  "number_of (JBool b) = (if b then 1 else 0)"
| "number_of (JInt i) = real_of_int i"
| "number_of (JFloat r) = r"
| "number_of _ = 0"

definition is_text :: "jval \<Rightarrow> bool" where
  "is_text j = (case j of JStr _ \<Rightarrow> True | _ \<Rightarrow> False)"

definition is_number :: "jval \<Rightarrow> bool" where
  "is_number j = (case j of JBool _ \<Rightarrow> True | JInt _ \<Rightarrow> True | JFloat _ \<Rightarrow> True | _ \<Rightarrow> False)"

definition sorted_set :: "jval list \<Rightarrow> jval list res" where
  "sorted_set js =
     (if length js \<le> 1 then Inr js
      else if list_all is_text js then Inr (sort_key text_of js)
      else if list_all is_number js then Inr (sort_key number_of js)
      else Inl TypeError)"

definition all_received :: "ack_window \<Rightarrow> bool" where
  "all_received w = (case aw_expected w of None \<Rightarrow> False | Some js \<Rightarrow> set js \<subseteq> JStr ` set (aw_received w))"

fun comma_join :: "string list \<Rightarrow> string" where
  "comma_join [] = []"
| "comma_join [x] = x"
| "comma_join (x # xs) = x @ '', '' @ comma_join xs"

definition join_missing :: "jval list \<Rightarrow> string res" where
  "join_missing js = (if list_all is_text js then Inr (comma_join (map text_of js)) else Inl TypeError)"

definition missing_acks :: "ack_window \<Rightarrow> bool \<Rightarrow> jval list res" where
  "missing_acks w whole =
     (case aw_expected w of
        None \<Rightarrow> Inr []
      | Some js \<Rightarrow> if whole then Inr [] else sorted_set (filter (\<lambda>j. j \<notin> JStr ` set (aw_received w)) js))"

definition reconciled_payload :: "dlq_env \<Rightarrow> string \<Rightarrow> string \<Rightarrow> ack_window \<Rightarrow> bool \<Rightarrow> jval list \<Rightarrow> jobj" where
  "reconciled_payload E flush request_id w whole missing =
     [(''kind'', JStr ''spool_flush_acks_reconciled''), (''kind_schema_version'', JInt 1), (''target'', JStr ''opsctl''),
      (''produced_at'', JStr (dle_iso E)), (''flush_invocation_id'', JStr flush), (''request_id'', JStr request_id),
      (''expected_ack_count'', JInt (case aw_expected w of None \<Rightarrow> 0 | Some js \<Rightarrow> int (length js))),
      (''received_ack_count'', JInt (int (length (aw_received w)))), (''complete'', JBool whole)]
     @ (if missing = [] then [] else [(''missing_ack_consumers'', JArr missing)])"

definition incomplete_reason :: "pylib \<Rightarrow> dlq_config \<Rightarrow> string \<Rightarrow> ack_window \<Rightarrow> jval list \<Rightarrow> string \<Rightarrow> string" where
  "incomplete_reason L C flush w missing joined =
     take 1024 (''spool-flush '' @ pl_repr L (JStr flush) @ '': '' @ show_int (int (length missing)) @ '' of '' @
       show_int (case aw_expected w of None \<Rightarrow> 0 | Some js \<Rightarrow> int (length js)) @
       '' expected acks not received within cfg.opsctl_spool_ack_max_wait_h='' @ show_int (dlc_ack_wait_h C) @ ''h. Missing: '' @
       (if joined = [] then ''unknown'' else joined))"

text \<open>\<open>_emit_reconciled\<close> of the window of a key.\<close>

definition emit_reconciled ::
    "pylib \<Rightarrow> dlq_config \<Rightarrow> dlq_env \<Rightarrow> string \<times> string \<Rightarrow> ack_window \<Rightarrow> bool \<Rightarrow> dlq_step" where
  "emit_reconciled L C E key w whole s =
     (let s1 = s\<lparr>dls_windows := od_set key (w\<lparr>aw_emitted := True\<rparr>) (dls_windows s)\<rparr>; flush = fst key in
      case missing_acks w whole of
        Inl e \<Rightarrow> (Inl e, s1)
      | Inr missing \<Rightarrow>
          (let event = \<lparr>em_topic = maint_event_topic, em_payload = reconciled_payload E flush (snd key) w whole missing,
                        em_producer = dlq_name, em_trace = Some (snd key)\<rparr> in
           and_then (Inr [event], s1) (\<lambda>s1.
             if whole \<or> flush \<in> set (dls_incomplete s1) then (Inr [], s1)
             else
               (let s2 = s1\<lparr>dls_incomplete := flush # dls_incomplete s1\<rparr> in
                case join_missing missing of
                  Inl e \<Rightarrow> (Inl e, s2)
                | Inr joined \<Rightarrow>
                    dlq_alert E ''spool_flush_acks_incomplete'' ''warn'' (incomplete_reason L C flush w missing joined) (JStr flush)
                      (Some (snd key)) s2))))"

definition reconcile ::
    "pylib \<Rightarrow> dlq_config \<Rightarrow> dlq_env \<Rightarrow> string \<Rightarrow> string \<Rightarrow> string \<Rightarrow> jval list option \<Rightarrow> dlq_step" where
  "reconcile L C E flush request_id accepted_by expected s =
     (let key = (flush, request_id);
          w = (case map_of (dls_windows s) key of
                 Some w \<Rightarrow> w
               | None \<Rightarrow> \<lparr>aw_deadline_s = dle_now E + of_int (max 1 (dlc_ack_wait_h C) * 3600), aw_expected = expected, aw_received = [],
                          aw_emitted = False\<rparr>);
          w1 = w\<lparr>aw_received := aw_received w @ [accepted_by]\<rparr> in
      if aw_emitted w \<or> accepted_by \<in> set (aw_received w) then (Inr [], s\<lparr>dls_windows := od_set key w (dls_windows s)\<rparr>)
      else if all_received w1 then emit_reconciled L C E key w1 True (s\<lparr>dls_windows := od_set key w1 (dls_windows s)\<rparr>)
      else (Inr [], s\<lparr>dls_windows := od_set key w1 (dls_windows s)\<rparr>))"

fun sweep_windows :: "pylib \<Rightarrow> dlq_config \<Rightarrow> dlq_env \<Rightarrow> ((string \<times> string) \<times> ack_window) list \<Rightarrow> dlq_step" where
  "sweep_windows L C E [] s = (Inr [], s)"
| "sweep_windows L C E ((key, w) # rest) s =
     and_then
       (if \<not> aw_emitted w \<and> aw_deadline_s w \<le> dle_now E then emit_reconciled L C E key w (all_received w) s else (Inr [], s))
       (sweep_windows L C E rest)"

definition ack_sweep :: "pylib \<Rightarrow> dlq_config \<Rightarrow> dlq_env \<Rightarrow> dlq_step" where
  "ack_sweep L C E s = sweep_windows L C E (dls_windows s) s"

section \<open>Handlers\<close>

text \<open>\<open>_created_at_to_epoch_s\<close> up to \<open>datetime.fromisoformat\<close>.\<close>

definition created_at_to_epoch_s :: "dlq_env \<Rightarrow> string \<Rightarrow> real option" where
  "created_at_to_epoch_s E created_at =
     (let raw = py_strip created_at in
      if raw = [] then None else dle_from_iso E (if ends_with raw ''Z'' then butlast raw @ ''+00:00'' else raw))"

definition sec_plane_lag_events :: "dlq_config \<Rightarrow> dlq_env \<Rightarrow> message \<Rightarrow> dlq_state \<Rightarrow> emission list \<times> int \<times> dlq_state" where
  "sec_plane_lag_events C E msg s =
     (let lag_s = (case created_at_to_epoch_s E (en_created_at (msg_envelope msg)) of None \<Rightarrow> 0 | Some t \<Rightarrow> max 0 (dle_now E - t));
          (entered, w) = sec_tick (dlc_lag_ms C) (dlc_lag_window_s C) (dle_now E)
            (sec_note_lag (dlc_lag_window_s C) lag_s (dle_now E) (dls_sec_lag s)) in
      (map (\<lambda>tier. dlq_notify E ''maint_plane_throttled'' sec_alert_topic
          [(''tier'', JInt tier), (''lag_s'', JFloat lag_s), (''action'', JStr ''sec_plane_shed'')]) entered,
       sl_tier w, s\<lparr>dls_sec_lag := w\<rparr>))"

definition handle_sec_alert :: "pylib \<Rightarrow> dlq_config \<Rightarrow> dlq_env \<Rightarrow> message \<Rightarrow> dlq_step" where
  "handle_sec_alert L C E msg s =
     (if \<not> dle_leader E then (Inr [], s)
      else
        (let (events, tier, s1) = sec_plane_lag_events C E msg s; payload = msg_payload msg;
             target = py_strip (str_or_empty L payload ''subject'') in
         if str_or_empty L payload ''kind'' \<noteq> ''consumer_likely_broken'' \<or> str_or_empty L payload ''severity'' \<notin> {''error'', ''critical''}
         then (Inr events, s1)
         else if \<not> sp_consume_non_emergency (cross_plane_policy 0 tier) then (Inr events, s1)
         else if target = [] \<or> target \<in> fst ` set (dls_frozen s1) then (Inr events, s1)
         else
           (Inr (events @ [dlq_notify E ''dlq_consumer_broken'' target
              [(''reason'', JStr ''sec_alert_consume''), (''alert_id'', JStr (py_strip (str_or_empty L payload ''alert_id'')))]]),
            s1\<lparr>dls_frozen := od_set target ''sec_alert_consumer_broken'' (dls_frozen s1)\<rparr>)))"

text \<open>\<open>details.get\<close> raises when \<open>details\<close> is no mapping; a set of consumers raises on a value that cannot be hashed.\<close>

definition handle_spool_ack :: "pylib \<Rightarrow> dlq_config \<Rightarrow> dlq_env \<Rightarrow> message \<Rightarrow> dlq_step" where
  "handle_spool_ack L C E msg s =
     (case or_empty (msg_payload msg) ''details'' of
        JObj details \<Rightarrow>
          (let flush = py_strip (str_or_empty L details ''flush_invocation_id'');
               request_id = py_strip (str_or_empty L (msg_payload msg) ''request_id'');
               accepted_by = py_strip (str_or_empty L (msg_payload msg) ''accepted_by'') in
           if flush = [] \<or> request_id = [] \<or> accepted_by = [] then ack_sweep L C E s
           else
             (case jget_or details ''expected_ack_consumers'' JNull of
                JArr js \<Rightarrow>
                  if list_all hashable js
                  then and_then (reconcile L C E flush request_id accepted_by (Some (frozenset_of js)) s) (ack_sweep L C E)
                  else (Inl TypeError, s)
              | _ \<Rightarrow> and_then (reconcile L C E flush request_id accepted_by None s) (ack_sweep L C E)))
      | _ \<Rightarrow> (Inl AttributeError, s))"

definition refuse_replay :: "dlq_env \<Rightarrow> message \<Rightarrow> string \<Rightarrow> string \<Rightarrow> string \<Rightarrow> emission list res" where
  "refuse_replay E msg request_id target reason =
     ack_and_notify E msg request_id False reason ''dlq_dropped'' target [(''reason'', JStr reason), (''request_id'', JStr request_id)]"

definition deny_replay :: "dlq_env \<Rightarrow> message \<Rightarrow> string \<Rightarrow> string \<Rightarrow> string \<Rightarrow> emission list res" where
  "deny_replay E msg request_id target reason =
     ack_and_notify E msg request_id False reason ''dlq_topic_disabled_drained'' target
       [(''deny_reason'', JStr reason), (''request_id'', JStr request_id)]"

text \<open>The end of \<open>_handle_replay\<close>: the request is accepted.\<close>

definition qa_correlation :: "pylib \<Rightarrow> message \<Rightarrow> jobj" where
  "qa_correlation L msg =
     (let q = str_or_empty L (msg_payload msg) ''qa_correlation_id'' in if q = [] then [] else [(''qa_correlation_id'', JStr q)])"

definition accept_replay :: "pylib \<Rightarrow> dlq_config \<Rightarrow> dlq_env \<Rightarrow> message \<Rightarrow> string \<Rightarrow> string \<Rightarrow> int \<Rightarrow> dlq_step" where
  "accept_replay L C E msg request_id target visit_count s =
     (let wanted = jget_or (msg_payload msg) ''max_msgs'' JNull; quota = max 1 (dlc_quota C) in
      case (if py_bool wanted then py_int L wanted else Inr 0) of
        Inl e \<Rightarrow> (Inl e, s)
      | Inr n \<Rightarrow>
          (let max_msgs = min (if n = 0 then quota else n) (quota * 10) in
           and_then (bump_state C E target s) (\<lambda>s1.
             (res_bind (dlq_ack E msg request_id True ''replayed'' (Some ([(''replayed_count'', JInt 0), (''visit_count'', JInt visit_count)] @ qa_correlation L msg)))
                (\<lambda>ack. Inr ([dlq_notify E ''dlq_replayed'' target
                   ([(''replayed_count'', JInt 0), (''max_msgs'', JInt max_msgs), (''request_id'', JStr request_id),
                    (''visit_count'', JInt visit_count)] @ qa_correlation L msg)] @ ack)),
              s1\<lparr>dls_state := (case map_of (dls_state s1) target of None \<Rightarrow> dls_state s1 | Some run \<Rightarrow> od_set target (run\<lparr>drn_replayed := 0\<rparr>) (dls_state s1)),
                 dls_replays := od_set target (Suc (case map_of (dls_replays s1) target of None \<Rightarrow> 0 | Some k \<Rightarrow> k)) (dls_replays s1)\<rparr>))))"

definition escalate_replay :: "dlq_config \<Rightarrow> dlq_env \<Rightarrow> message \<Rightarrow> string \<Rightarrow> string \<Rightarrow> int \<Rightarrow> dlq_step" where
  "escalate_replay C E msg request_id target visit_count s =
     and_then
       (ack_and_notify E msg request_id False ''dlq_escalated'' ''dlq_escalated'' target
          [(''request_id'', JStr request_id), (''visit_count'', JInt visit_count), (''reason'', JStr ''visit_max_exceeded'')], s)
       (\<lambda>s. case record_escalation C E target request_id s of
          (False, s1) \<Rightarrow> (Inr [], s1)
        | (True, s1) \<Rightarrow>
            consumer_broken_alert C E target (distinct_ids (the (map_of (dls_poison s1) target)))
              (s1\<lparr>dls_frozen := od_set target ''poison_pattern'' (dls_frozen s1)\<rparr>))"

text \<open>The back-off memory; a bound of 0 turns it off.\<close>

definition remember_request :: "dlq_config \<Rightarrow> string \<Rightarrow> dlq_state \<Rightarrow> dlq_state" where
  "remember_request C request_id s =
     (if 0 < dlc_backoff_lru C then s\<lparr>dls_req_lru := od_trim (nat (dlc_backoff_lru C)) (od_set request_id () (dls_req_lru s))\<rparr> else s)"

definition handle_replay :: "pylib \<Rightarrow> dlq_config \<Rightarrow> dlq_env \<Rightarrow> message \<Rightarrow> dlq_step" where
  "handle_replay L C E msg s =
     (let request_id = str_or_empty L (msg_payload msg) ''request_id''; target = str_or_empty L (msg_payload msg) ''target'' in
      if request_id = [] \<or> target = [] then (Inr [], s)
      else if \<not> dle_leader E then (dlq_ack E msg request_id True ''leader_skip'' None, s)
      else if policy_deny_reason C target \<noteq> None then (deny_replay E msg request_id target (the (policy_deny_reason C target)), s)
      else if \<not> is_allowed_topic C target then (deny_replay E msg request_id target ''allow_list_excluded'', s)
      else if 0 < dlc_backoff_lru C \<and> request_id \<in> fst ` set (dls_req_lru s) then (refuse_replay E msg request_id target ''backoff_dedup'', s)
      else
        (case rps_rate_limited C E target (remember_request C request_id s) of
           (True, s1) \<Rightarrow> (refuse_replay E msg request_id target ''rate_limited'', s1)
         | (False, s1) \<Rightarrow>
             (case rate_limited C E target s1 of
                (True, s2) \<Rightarrow> (refuse_replay E msg request_id target ''rate_limited'', s2)
              | (False, s2) \<Rightarrow>
                  if target \<in> fst ` set (dls_frozen s2) then (refuse_replay E msg request_id target ''topic_frozen'', s2)
                  else
                    (let (n, s3) = bump_visit C target request_id s2 in
                     if max 1 (dlc_visit_max C) < n then escalate_replay C E msg request_id target n s3
                     else accept_replay L C E msg request_id target n s3))))"

definition now_ns :: "dlq_env \<Rightarrow> int" where
  "now_ns E = Json.truncate (dle_now E * 1000000000)"

definition handle_unfreeze :: "pylib \<Rightarrow> dlq_env \<Rightarrow> message \<Rightarrow> dlq_step" where
  "handle_unfreeze L E msg s =
     (let request_id = str_or_empty L (msg_payload msg) ''request_id''; target = str_or_empty L (msg_payload msg) ''target'' in
      if request_id = [] \<or> target = [] then (Inr [], s)
      else if \<not> dle_leader E then (dlq_ack E msg request_id True ''non_leader_noop'' None, s)
      else
        (let pause = snd (expire_if_due (now_ns E) (dls_pause s)); was_frozen = target \<in> fst ` set (dls_frozen s);
             reason = (if was_frozen then ''unfrozen'' else if ps_paused pause then ''paused_not_blocked''
                       else if ps_self_isolated pause then ''already_unfrozen'' else ''already_running'') in
         (ack_and_notify E msg request_id True reason ''dlq_topic_unfrozen'' target
            [(''request_id'', JStr request_id), (''was_frozen'', JBool was_frozen)],
          s\<lparr>dls_pause := pause, dls_frozen := od_del target (dls_frozen s), dls_poison := od_del target (dls_poison s)\<rparr>)))"

definition text_field_or :: "pylib \<Rightarrow> jobj \<Rightarrow> string \<Rightarrow> string \<Rightarrow> string" where
  "text_field_or L d k v = (let j = jget_or d k JNull in if py_bool j then py_str L j else v)"

definition handle_drop_request :: "pylib \<Rightarrow> dlq_env \<Rightarrow> message \<Rightarrow> dlq_step" where
  "handle_drop_request L E msg s =
     (let payload = msg_payload msg; request_id = str_or_empty L payload ''request_id''; target = str_or_empty L payload ''target'' in
      if \<not> dle_leader E then (dlq_ack E msg request_id True ''leader_skip'' None, s)
      else if target \<in> set recursion_deny_set then (dlq_ack E msg request_id False ''recursion_deny'' None, s)
      else
        (ack_and_notify E msg request_id True ''dropped'' ''dlq_dropped'' target
           [(''reason'', JStr ''operator_drop''), (''topic'', JStr (dlq_origin target)), (''dlq_entry_id'', JStr (str_or_empty L payload ''dlq_entry_id'')),
            (''original_request_id'', JStr (str_or_empty L payload ''original_request_id'')),
            (''original_envelope_summary'', or_empty payload ''original_envelope_summary''),
            (''dropped_by'', JStr (text_field_or L payload ''dropped_by'' (text_field_or L payload ''op_key_id'' ''unknown''))),
            (''drop_reason'', JStr (text_field_or L payload ''drop_reason'' ''operator_explicit_drop''))], s))"

definition pause_details :: "int \<Rightarrow> pause_ack \<Rightarrow> jobj option" where
  "pause_details now ack =
     (case pa_deadline_ns ack of
        None \<Rightarrow> None
      | Some d \<Rightarrow> Some [(''ttl_s'', JInt ((d - now) div 1000000000)), (''requested_ttl_s'', JInt (pa_requested_ttl_s ack)),
                       (''effective_ttl_s'', JInt (pa_effective_ttl_s ack))])"

definition paused_extra :: "string \<Rightarrow> jobj" where
  "paused_extra reason =
     (if reason = ''ttl_refreshed'' then [(''action'', JStr ''ttl_refresh'')]
      else if reason = ''already_paused'' then [(''action'', JStr ''no_op'')] else [])"

text \<open>The time to live, its default when it is missing or zero.\<close>

definition pause_ttl :: "pylib \<Rightarrow> dlq_config \<Rightarrow> jobj \<Rightarrow> int res" where
  "pause_ttl L C payload =
     (let v = jget_or payload ''ttl_s'' JNull in
      res_bind (if py_bool v then py_int L v else Inr 0) (\<lambda>n. Inr (if n = 0 then dlc_pause_ttl_s C else n)))"

definition answer_pause :: "dlq_env \<Rightarrow> message \<Rightarrow> string \<Rightarrow> bool \<Rightarrow> pause_ack \<Rightarrow> dlq_step" where
  "answer_pause E msg request_id paused ack s =
     and_then (dlq_ack E msg request_id (pa_accepted ack) (pa_reason ack) (pause_details (now_ns E) ack), s) (\<lambda>s.
       if paused \<and> \<not> pa_accepted ack
       then dlq_alert E ''maint_pause_rejected'' ''warn'' ''self_isolated'' (JStr request_id) (Some (en_trace_id (msg_envelope msg))) s
       else (Inr (if paused then [notify_lifecycle E ''maint_paused'' (paused_extra (pa_reason ack))] else []), s))"

definition handle_pause :: "pylib \<Rightarrow> dlq_config \<Rightarrow> dlq_env \<Rightarrow> message \<Rightarrow> bool \<Rightarrow> dlq_step" where
  "handle_pause L C E msg paused s =
     (let payload = msg_payload msg; request_id = str_or_empty L payload ''request_id'' in
      if request_id = [] then (Inr [], s)
      else if str_or_empty L payload ''target'' \<notin> {''all'', dlq_name} then (dlq_ack E msg request_id True ''not_targeted'' None, s)
      else
        (let (expired, pause) = expire_if_due (now_ns E) (dls_pause s); s1 = s\<lparr>dls_pause := pause\<rparr> in
         and_then (Inr (if expired then [notify_lifecycle E ''maint_resumed'' [(''reason'', JStr ''ttl_expired'')]] else []), s1) (\<lambda>s1.
           if paused then
             (case pause_ttl L C payload of
                Inl e \<Rightarrow> (Inl e, s1)
              | Inr ttl \<Rightarrow> (let (ack, p) = apply_pause ttl (now_ns E) (dls_pause s1) in answer_pause E msg request_id True ack (s1\<lparr>dls_pause := p\<rparr>)))
           else (let (ack, p) = apply_resume (dls_pause s1) in answer_pause E msg request_id False ack (s1\<lparr>dls_pause := p\<rparr>)))))"

definition refuse_command :: "pylib \<Rightarrow> dlq_env \<Rightarrow> message \<Rightarrow> string \<Rightarrow> string \<Rightarrow> dlq_step" where
  "refuse_command L E msg reason kind s =
     and_then (dlq_ack E msg (text_field_or L (msg_payload msg) ''request_id'' (en_message_id (msg_envelope msg))) False reason None, s)
       (dlq_alert E kind ''critical'' reason (JStr (text_field_or L (msg_payload msg) ''op_key_id'' ''unknown'')) (Some (en_trace_id (msg_envelope msg))))"

definition dlq_command :: "pylib \<Rightarrow> dlq_config \<Rightarrow> dlq_env \<Rightarrow> message \<Rightarrow> dlq_step" where
  "dlq_command L C E msg s =
     (let kind = jget_or (msg_payload msg) ''kind'' JNull in
      if kind = JStr ''dlq_replay'' then handle_replay L C E msg s
      else if kind = JStr ''dlq_unfreeze'' then handle_unfreeze L E msg s
      else if kind = JStr ''dlq_drop_request'' then handle_drop_request L E msg s
      else if kind = JStr ''maint_pause'' then handle_pause L C E msg True s
      else if kind = JStr ''maint_resume'' then handle_pause L C E msg False s
      else (Inr [], s))"

definition dlq_handle :: "pylib \<Rightarrow> dlq_config \<Rightarrow> dlq_env \<Rightarrow> message \<Rightarrow> dlq_step" where
  "dlq_handle L C E msg s =
     (let topic = en_topic (msg_envelope msg) in
      if topic = sec_alert_topic then handle_sec_alert L C E msg s
      else if topic = maint_ack_topic then handle_spool_ack L C E msg s
      else if topic \<noteq> maint_event_topic then (Inr [], s)
      else
        (case gate_op_envelope (dle_op_lib E) L (dlc_op C) (dle_op_files E) (dle_op_clocks E) (msg_payload msg) (dls_op s) of
           (Inl e, p) \<Rightarrow> (Inl e, s\<lparr>dls_op := p\<rparr>)
         | (Inr (Refused_by reason kind), p) \<Rightarrow> refuse_command L E msg reason kind (s\<lparr>dls_op := p\<rparr>)
         | (Inr Passed, p) \<Rightarrow> dlq_command L C E msg (s\<lparr>dls_op := p\<rparr>)))"

section \<open>The check at boot\<close>

definition boot_reason :: "pylib \<Rightarrow> string \<Rightarrow> string" where
  "boot_reason L topic =
     take 1024 (''allow-list entry '' @ pl_repr L (JStr topic) @ '' is in RECURSION_DENY_SET and will never be replayed; '' @
       ''remove it from cfg.maint_dlq_replay_topics_allow_csv'')"

fun boot_alerts :: "pylib \<Rightarrow> dlq_env \<Rightarrow> string list \<Rightarrow> dlq_step" where
  "boot_alerts L E [] s = (Inr [], s)"
| "boot_alerts L E (t # ts) s =
     and_then
       (if t \<in> set recursion_deny_set \<and> t \<notin> set (dls_boot_alerted s)
        then dlq_alert E ''dlq_recursion_blocked'' ''warn'' (boot_reason L t) (JStr t) (Some ''boot-check'') (s\<lparr>dls_boot_alerted := t # dls_boot_alerted s\<rparr>)
        else (Inr [], s))
       (boot_alerts L E ts)"

definition boot_check_allow_list :: "pylib \<Rightarrow> dlq_config \<Rightarrow> dlq_env \<Rightarrow> dlq_step" where
  "boot_check_allow_list L C E s = boot_alerts L E (sort (parse_csv_set (dlc_allow_csv C))) s"

definition policy_loaded :: "dlq_config \<Rightarrow> dlq_env \<Rightarrow> emission" where
  "policy_loaded C E =
     \<lparr>em_topic = maint_event_topic,
      em_payload = [(''kind'', JStr ''dlq_replay_policy_loaded''), (''kind_schema_version'', JInt 1), (''target'', JStr dlq_name),
        (''produced_at'', JStr (dle_iso E)), (''deny_prefixes'', JArr (map JStr deny_prefixes)), (''deny_suffixes'', JArr (map JStr deny_suffixes)),
        (''allow_overrides'', JArr (map JStr (allow_overrides C)))],
      em_producer = dlq_name, em_trace = Some ''boot-check''\<rparr>"

definition boot_replay_policy_messages :: "pylib \<Rightarrow> dlq_config \<Rightarrow> dlq_env \<Rightarrow> dlq_step" where
  "boot_replay_policy_messages L C E s = and_then (Inr [policy_loaded C E], s) (boot_check_allow_list L C E)"

section \<open>The tick\<close>

text \<open>\<open>_update_backlog_damping\<close> for one topic: whether it is damped now.\<close>

definition damp_topic :: "dlq_config \<Rightarrow> dlq_env \<Rightarrow> string \<Rightarrow> int \<Rightarrow> dlq_state \<Rightarrow> bool \<times> emission list res \<times> dlq_state" where
  "damp_topic C E topic depth s =
     (let before = (case map_of (dls_damped s) topic of
                      Some (trip, at_s) \<Rightarrow> if real_of_int depth \<le> trip / 2 then None else Some (trip, at_s)
                    | None \<Rightarrow> None);
          s1 = (if before = None then s\<lparr>dls_damped := od_del topic (dls_damped s)\<rparr> else s) in
      if max 1 (dlc_backlog_alert C) < depth then
        (case before of
           None \<Rightarrow> (True, backlog_alert C E topic depth (s1\<lparr>dls_damped := od_set topic (real_of_int depth, dle_now E) (dls_damped s1)\<rparr>))
         | Some (trip, at_s) \<Rightarrow>
             if of_int (max 1 (dlc_backoff_s C)) \<le> dle_now E - at_s
             then (True, backlog_alert C E topic depth (s1\<lparr>dls_damped := od_set topic (trip, dle_now E) (dls_damped s1)\<rparr>))
             else (True, (Inr [], s1)))
      else (before \<noteq> None, (Inr [], s1)))"

fun update_backlog_damping ::
    "dlq_config \<Rightarrow> dlq_env \<Rightarrow> (string \<times> int) list \<Rightarrow> dlq_state \<Rightarrow> string list \<times> emission list res \<times> dlq_state" where
  "update_backlog_damping C E [] s = ([], Inr [], s)"
| "update_backlog_damping C E ((topic, depth) # rest) s =
     (if topic \<in> set recursion_deny_set then update_backlog_damping C E rest s
      else
        (case damp_topic C E topic depth s of
           (d, Inl e, s1) \<Rightarrow> ([], Inl e, s1)
         | (d, Inr out, s1) \<Rightarrow>
             (case update_backlog_damping C E rest s1 of
                (ds, Inl e, s2) \<Rightarrow> (ds, Inl e, s2)
              | (ds, Inr out', s2) \<Rightarrow> (if d then topic # ds else ds, Inr (out @ out'), s2))))"

definition probe_limited :: "dlq_config \<Rightarrow> dlq_env \<Rightarrow> dlq_state \<Rightarrow> string \<Rightarrow> bool" where
  "probe_limited C E s t \<longleftrightarrow> bucket_full (dlc_per_min C) (minute_epoch E) t (dls_rate s) \<or> bucket_full (dlc_rps C) (sec_epoch E) t (dls_rps s)"

definition exclusion :: "dlq_config \<Rightarrow> string \<Rightarrow> string" where
  "exclusion C t = (case policy_deny_reason C t of Some reason \<Rightarrow> reason | None \<Rightarrow> ''allow_list_excluded'')"

text \<open>Topics with a budget from the last tick that the settings exclude now.\<close>

fun removed_topics :: "dlq_config \<Rightarrow> dlq_env \<Rightarrow> string list \<Rightarrow> (string \<times> int) list \<Rightarrow> string list \<Rightarrow> emission list \<times> string list" where
  "removed_topics C E active [] disabled = ([], disabled)"
| "removed_topics C E active ((t, budget) # rest) disabled =
     (if t \<in> set active \<and> t \<notin> set disabled \<and> \<not> is_allowed_topic C t then
        (let (out, disabled') = removed_topics C E active rest (t # disabled) in
         (dlq_notify E ''dlq_topic_disabled_drained'' t [(''deny_reason'', JStr (exclusion C t)), (''in_flight_count'', JInt budget)] # out, disabled'))
      else removed_topics C E active rest disabled)"

definition excluded_notes :: "dlq_config \<Rightarrow> dlq_env \<Rightarrow> string list \<Rightarrow> emission list" where
  "excluded_notes C E active =
     map (\<lambda>t. dlq_notify E ''dlq_topic_disabled_drained'' t [(''deny_reason'', JStr (exclusion C t))])
       (filter (\<lambda>t. \<not> is_allowed_topic C t) active)"

definition limited_notes :: "dlq_config \<Rightarrow> dlq_env \<Rightarrow> dlq_state \<Rightarrow> string list \<Rightarrow> emission list" where
  "limited_notes C E s active =
     map (\<lambda>t. dlq_notify E ''dlq_dropped'' t [(''reason'', JStr ''rate_limited''), (''scheduler'', JStr ''round_robin'')])
       (filter (\<lambda>t. is_allowed_topic C t \<and> probe_limited C E s t) active)"

definition tick_note :: "dlq_env \<Rightarrow> string \<Rightarrow> int \<Rightarrow> nat \<Rightarrow> bool \<Rightarrow> emission" where
  "tick_note E t budget n damped =
     dlq_notify E ''dlq_replayed'' t
       ([(''replayed_count'', JInt 0), (''max_msgs'', JInt budget), (''request_id'', JStr (''tick:'' @ t)), (''budget_per_topic'', JInt budget),
         (''active_topic_count'', JInt (int n)), (''scheduler'', JStr ''round_robin'')] @ (if damped then [(''backlog_damped'', JBool True)] else []))"

definition topic_budget :: "int \<Rightarrow> string list \<Rightarrow> string \<Rightarrow> int" where
  "topic_budget per_topic damped t = (if t \<in> set damped then max 1 (per_topic div 4) else per_topic)"

fun tick_topics :: "dlq_config \<Rightarrow> dlq_env \<Rightarrow> int \<Rightarrow> nat \<Rightarrow> string list \<Rightarrow> string list \<Rightarrow> dlq_step" where
  "tick_topics C E per_topic n damped [] s = (Inr [], s)"
| "tick_topics C E per_topic n damped (t # ts) s =
     and_then (bump_state C E t s) (\<lambda>s1.
     and_then
       (Inr [tick_note E t (topic_budget per_topic damped t) n (t \<in> set damped)],
        s1\<lparr>dls_state := (case map_of (dls_state s1) t of None \<Rightarrow> dls_state s1 | Some run \<Rightarrow> od_set t (run\<lparr>drn_replayed := 0\<rparr>) (dls_state s1)),
           dls_disabled := removeAll t (dls_disabled s1)\<rparr>)
       (tick_topics C E per_topic n damped ts))"

definition tick_budgets :: "int \<Rightarrow> string list \<Rightarrow> string list \<Rightarrow> (string, int) odict" where
  "tick_budgets per_topic damped eligible = foldl (\<lambda>d t. od_set t (topic_budget per_topic damped t) d) [] eligible"

definition per_topic_budget :: "dlq_config \<Rightarrow> int \<Rightarrow> nat \<Rightarrow> int" where
  "per_topic_budget C shed n =
     (let total = max 1 (dlc_per_tick C) in max 1 ((if 1 \<le> shed then max 1 (total div 2) else total) div int n))"

definition replay_round :: "dlq_config \<Rightarrow> dlq_env \<Rightarrow> (string \<times> int) list \<Rightarrow> int \<Rightarrow> string list \<Rightarrow> dlq_step" where
  "replay_round C E depths shed eligible s =
     (case update_backlog_damping C E depths s of
        (damped, r, s1) \<Rightarrow>
          (let per_topic = per_topic_budget C shed (length eligible) in
           and_then (r, s1) (\<lambda>s1.
           and_then (tick_topics C E per_topic (length eligible) damped eligible s1) (\<lambda>s2.
             (Inr [], s2\<lparr>dls_budgets := tick_budgets per_topic damped eligible\<rparr>)))))"

text \<open>No depths are an empty list.\<close>

definition dlq_tick :: "dlq_config \<Rightarrow> dlq_env \<Rightarrow> string list \<Rightarrow> (string \<times> int) list \<Rightarrow> int \<Rightarrow> dlq_step" where
  "dlq_tick C E active depths shed s =
     (if 3 \<le> shed \<or> active = [] \<or> \<not> dle_leader E then (Inr [], s)
      else
        (let s1 = s\<lparr>dls_pause := snd (expire_if_due (now_ns E) (dls_pause s))\<rparr> in
         if ps_paused (dls_pause s1) \<or> ps_self_isolated (dls_pause s1) then (Inr [], s1)
         else
           (let eligible = filter (\<lambda>t. is_allowed_topic C t \<and> \<not> probe_limited C E s1 t) active;
                (removed, disabled) = removed_topics C E active (dls_budgets s1) (dls_disabled s1) in
            and_then
              (Inr (removed @ excluded_notes C E active @ limited_notes C E s1 active), s1\<lparr>dls_disabled := disabled\<rparr>)
              (\<lambda>s2. if eligible = [] \<or> 2 \<le> shed then (Inr [], s2) else replay_round C E depths shed eligible s2))))"

section \<open>What a step emits and keeps\<close>

text \<open>Every message of the step satisfies \<open>P\<close>, and the state it leaves, also after an exception, satisfies \<open>Q\<close>.\<close>

definition keeps :: "(emission \<Rightarrow> bool) \<Rightarrow> ('s \<Rightarrow> bool) \<Rightarrow> emission list res \<times> 's \<Rightarrow> bool" where
  "keeps P Q r \<longleftrightarrow> (case fst r of Inl _ \<Rightarrow> True | Inr out \<Rightarrow> \<forall>e \<in> set out. P e) \<and> Q (snd r)"

named_theorems step_rules

lemma keeps_Inr [simp]: "keeps P Q (Inr out, s) \<longleftrightarrow> (\<forall>e \<in> set out. P e) \<and> Q s"
  by (simp add: keeps_def)

lemma keeps_Inl [simp]: "keeps P Q (Inl e, s) \<longleftrightarrow> Q s"
  by (simp add: keeps_def)

lemma keeps_weaken: "keeps P Q r \<Longrightarrow> (\<And>e. P e \<Longrightarrow> P' e) \<Longrightarrow> (\<And>s. Q s \<Longrightarrow> Q' s) \<Longrightarrow> keeps P' Q' r"
  by (auto simp: keeps_def split: sum.splits)

lemma keeps_and_then [step_rules]:
  "keeps P Q r \<Longrightarrow> (\<And>t. Q t \<Longrightarrow> keeps P Q (f t)) \<Longrightarrow> keeps P Q (and_then r f)"
  by (cases "fst r") (auto simp: keeps_def and_then_def split: prod.splits sum.splits, fastforce+)

definition replay_note :: "string \<Rightarrow> emission \<Rightarrow> bool" where
  "replay_note t e \<longleftrightarrow> em_topic e = maint_event_topic \<and> jget_or (em_payload e) ''kind'' JNull = JStr ''dlq_replayed'' \<and>
     jget_or (em_payload e) ''target'' JNull = JStr t"

lemma replay_note_notify [simp]: "replay_note t (dlq_notify E kind target extra) \<longleftrightarrow> kind = ''dlq_replayed'' \<and> target = t"
  by (simp add: replay_note_def dlq_notify_def jget_or_def)

lemma replay_note_lifecycle [simp]: "replay_note t (notify_lifecycle E kind extra) \<longleftrightarrow> kind = ''dlq_replayed'' \<and> jget_or extra ''target'' JNull = JStr t"
  by (simp add: replay_note_def notify_lifecycle_def jget_or_def)

lemmas topic_defs = maint_event_topic_def sec_alert_topic_def maint_ack_topic_def

text \<open>The tables that the replay of a topic touches.\<close>

definition replay_tables :: "dlq_state \<Rightarrow> (string, rate_count) odict \<times> (string, rate_count) odict \<times> (string, nat) odict \<times> (string, int) odict \<times> (string, unit) odict" where
  "replay_tables s = (dls_rate s, dls_rps s, dls_replays s, dls_budgets s, dls_req_lru s)"

lemma replay_tables_update [simp]:
  "replay_tables (s\<lparr>dls_state := v0\<rparr>) = replay_tables s"
  "replay_tables (s\<lparr>dls_disabled := v2\<rparr>) = replay_tables s"
  "replay_tables (s\<lparr>dls_visits := v3\<rparr>) = replay_tables s"
  "replay_tables (s\<lparr>dls_poison := v4\<rparr>) = replay_tables s"
  "replay_tables (s\<lparr>dls_frozen := v5\<rparr>) = replay_tables s"
  "replay_tables (s\<lparr>dls_pause := v6\<rparr>) = replay_tables s"
  "replay_tables (s\<lparr>dls_damped := v7\<rparr>) = replay_tables s"
  "replay_tables (s\<lparr>dls_boot_alerted := v8\<rparr>) = replay_tables s"
  "replay_tables (s\<lparr>dls_windows := v9\<rparr>) = replay_tables s"
  "replay_tables (s\<lparr>dls_incomplete := v10\<rparr>) = replay_tables s"
  "replay_tables (s\<lparr>dls_sec_lag := v11\<rparr>) = replay_tables s"
  "replay_tables (s\<lparr>dls_op := v12\<rparr>) = replay_tables s"
  "replay_tables (s\<lparr>dls_drawn := v13\<rparr>) = replay_tables s"
  by (simp_all add: replay_tables_def)

text \<open>A step that replays no topic and leaves these tables alone.\<close>

abbreviation quiet :: "dlq_state \<Rightarrow> emission list res \<times> dlq_state \<Rightarrow> bool" where
  "quiet s \<equiv> keeps (\<lambda>e. \<forall>t. \<not> replay_note t e) (\<lambda>s'. replay_tables s' = replay_tables s)"

lemma quiet_alert [step_rules]: "replay_tables s1 = replay_tables s \<Longrightarrow> quiet s (dlq_alert E kind severity reason subject trace s1)"
  by (auto simp: dlq_alert_def keeps_def replay_note_def topic_defs replay_tables_def res_iffs split: sum.splits)

lemma ack_not_replay: "dlq_ack E msg request_id accepted reason details = Inr out \<Longrightarrow> e \<in> set out \<Longrightarrow> \<not> replay_note t e"
  by (auto simp: dlq_ack_def replay_note_def topic_defs res_iffs Let_def)

lemma keeps_ack:
  "(\<And>e. \<forall>t. \<not> replay_note t e \<Longrightarrow> P e) \<Longrightarrow> Q s \<Longrightarrow> keeps P Q (dlq_ack E msg request_id accepted reason details, s)"
  by (cases "dlq_ack E msg request_id accepted reason details") (auto dest: ack_not_replay)

lemma keeps_ack_notify:
  assumes "kind \<noteq> ''dlq_replayed''" "\<And>e. \<forall>t. \<not> replay_note t e \<Longrightarrow> P e" "Q s"
  shows "keeps P Q (ack_and_notify E msg request_id accepted reason kind target extra, s)"
  using assms by (cases "dlq_ack E msg request_id accepted reason None") (auto simp: ack_and_notify_def res_bind_def dest: ack_not_replay)

lemma quiet_ack [step_rules]:
  "replay_tables s1 = replay_tables s \<Longrightarrow> quiet s (dlq_ack E msg request_id accepted reason details, s1)"
  by (rule keeps_ack) simp_all

lemma quiet_ack_notify [step_rules]:
  "replay_tables s1 = replay_tables s \<Longrightarrow> kind \<noteq> ''dlq_replayed'' \<Longrightarrow> quiet s (ack_and_notify E msg request_id accepted reason kind target extra, s1)"
  by (rule keeps_ack_notify) simp_all

lemma reconciled_note [simp]:
  "\<not> replay_note t \<lparr>em_topic = topic, em_payload = reconciled_payload E flush request_id w whole missing, em_producer = p, em_trace = tr\<rparr>"
  by (simp add: replay_note_def reconciled_payload_def jget_or_def)

lemma quiet_evict: "replay_tables s1 = replay_tables s \<Longrightarrow> quiet s (evict_runs C E runs s1)"
proof (induction C E runs s1 rule: evict_runs.induct)
  case (2 C E p rest s1)
  then show ?case
    by (auto intro!: step_rules simp: state_pressure_alert_def)
qed simp

lemma quiet_bump [step_rules]: "replay_tables s1 = replay_tables s \<Longrightarrow> quiet s (bump_state C E topic s1)"
  by (auto simp: bump_state_def quiet_evict split: option.splits)

lemma quiet_consumer_broken [step_rules]: "replay_tables s1 = replay_tables s \<Longrightarrow> quiet s (consumer_broken_alert C E topic n s1)"
  by (auto simp: consumer_broken_alert_def Let_def intro!: step_rules)

lemma quiet_escalate [step_rules]: "replay_tables s1 = replay_tables s \<Longrightarrow> quiet s (escalate_replay C E msg request_id target n s1)"
  by (auto simp: escalate_replay_def record_escalation_def Let_def intro!: step_rules quiet_consumer_broken
      split: prod.splits bool.splits)

lemma quiet_emit_reconciled [step_rules]: "replay_tables s1 = replay_tables s \<Longrightarrow> quiet s (emit_reconciled L C E key w whole s1)"
  by (auto simp: emit_reconciled_def Let_def reconciled_note intro!: step_rules split: sum.splits)

lemma quiet_sweep_windows: "replay_tables s1 = replay_tables s \<Longrightarrow> quiet s (sweep_windows L C E ws s1)"
  by (induction L C E ws s1 rule: sweep_windows.induct) (auto intro!: step_rules)

lemma quiet_reconcile [step_rules]:
  "replay_tables s1 = replay_tables s \<Longrightarrow> quiet s (reconcile L C E flush request_id accepted_by expected s1)"
  by (auto simp: reconcile_def Let_def intro!: step_rules)

lemma quiet_spool_ack: "quiet s (handle_spool_ack L C E msg s)"
  by (auto simp: handle_spool_ack_def ack_sweep_def Let_def quiet_sweep_windows intro!: step_rules split: jval.splits)

lemma quiet_sec_alert: "quiet s (handle_sec_alert L C E msg s)"
  by (auto simp: handle_sec_alert_def sec_plane_lag_events_def Let_def split: prod.splits)

lemma quiet_unfreeze: "quiet s (handle_unfreeze L E msg s)"
  by (auto simp: handle_unfreeze_def Let_def intro!: step_rules)

lemma quiet_drop: "quiet s (handle_drop_request L E msg s)"
  by (auto simp: handle_drop_request_def Let_def intro!: step_rules)

lemma quiet_answer_pause [step_rules]: "replay_tables s1 = replay_tables s \<Longrightarrow> quiet s (answer_pause E msg request_id paused ack s1)"
  by (auto simp: answer_pause_def intro!: step_rules)

lemma quiet_pause: "quiet s (handle_pause L C E msg paused s)"
  by (auto simp: handle_pause_def Let_def split_beta intro!: step_rules quiet_answer_pause split: sum.splits)

lemma quiet_refuse [step_rules]: "replay_tables s1 = replay_tables s \<Longrightarrow> quiet s (refuse_command L E msg reason kind s1)"
  by (auto simp: refuse_command_def intro!: step_rules)

lemma quiet_boot: "replay_tables s1 = replay_tables s \<Longrightarrow> quiet s (boot_alerts L E ts s1)"
proof (induction L E ts s1 rule: boot_alerts.induct)
  case (2 L E t ts s1)
  then show ?case by (auto intro!: step_rules)
qed simp

section \<open>Runs\<close>

datatype dlq_input = Handled message | Ticked "string list" "(string \<times> int) list" int | Booted

definition dlq_do :: "pylib \<Rightarrow> dlq_config \<times> dlq_env \<times> dlq_input \<Rightarrow> dlq_step" where
  "dlq_do L x =
     (case x of (C, E, input) \<Rightarrow>
        (case input of
           Handled msg \<Rightarrow> dlq_handle L C E msg
         | Ticked active depths shed \<Rightarrow> dlq_tick C E active depths shed
         | Booted \<Rightarrow> boot_replay_policy_messages L C E))"

text \<open>The calls of a process one after another; one that raises emits nothing.\<close>

fun dlq_calls :: "pylib \<Rightarrow> (dlq_config \<times> dlq_env \<times> dlq_input) list \<Rightarrow> dlq_state \<Rightarrow> emission list \<times> dlq_state" where
  "dlq_calls L [] s = ([], s)"
| "dlq_calls L (x # xs) s =
     (let (r, s1) = dlq_do L x s; (out, s2) = dlq_calls L xs s1 in ((case r of Inl _ \<Rightarrow> [] | Inr ms \<Rightarrow> ms) @ out, s2))"

lemma keeps_calls:
  assumes "\<And>x s. x \<in> set xs \<Longrightarrow> Q s \<Longrightarrow> keeps P Q (dlq_do L x s)" "Q s"
  shows "(\<forall>e \<in> set (fst (dlq_calls L xs s)). P e) \<and> Q (snd (dlq_calls L xs s))"
  using assms
proof (induction xs arbitrary: s)
  case (Cons x xs)
  obtain r s1 where r: "dlq_do L x s = (r, s1)" by fastforce
  have "keeps P Q (dlq_do L x s)" using Cons.prems by simp
  then have k: "Q s1" "\<forall>e \<in> set (case r of Inl _ \<Rightarrow> [] | Inr ms \<Rightarrow> ms). P e"
    by (auto simp: r keeps_def split: sum.splits)
  have "(\<forall>e \<in> set (fst (dlq_calls L xs s1)). P e) \<and> Q (snd (dlq_calls L xs s1))"
    using Cons.IH [OF _ k(1)] Cons.prems(1) by simp
  with k(2) show ?case by (simp add: r case_prod_beta Let_def ball_Un)
qed simp

definition replays_of :: "string \<Rightarrow> dlq_state \<Rightarrow> nat" where
  "replays_of t s = (case map_of (dls_replays s) t of None \<Rightarrow> 0 | Some n \<Rightarrow> n)"

text \<open>An accepted request counts one replay of its topic and notifies of no other topic.\<close>

lemma accept_replay_tables:
  "keeps (\<lambda>e. \<forall>t. t \<noteq> target \<longrightarrow> \<not> replay_note t e)
     (\<lambda>s'. replay_tables s' = replay_tables s \<or>
        replay_tables s' = (dls_rate s, dls_rps s, od_set target (Suc (replays_of target s)) (dls_replays s), dls_budgets s, dls_req_lru s))
     (accept_replay L C E msg request_id target n s)"
proof -
  obtain r s1 where b: "bump_state C E target s = (r, s1)" by fastforce
  have q: "quiet s (r, s1)" using quiet_bump [of s s C E target] by (simp add: b)
  then have t: "replay_tables s1 = replay_tables s" by (simp add: keeps_def)
  show ?thesis
  proof (cases r)
    case (Inl e)
    then show ?thesis using t by (auto simp: accept_replay_def Let_def b and_then_def split: sum.splits)
  next
    case (Inr out)
    then have "\<forall>e \<in> set out. \<forall>t. \<not> replay_note t e" using q by simp
    then show ?thesis
      using t unfolding accept_replay_def Let_def b Inr
      by (auto simp: and_then_def replay_tables_def replays_of_def res_bind_def ack_not_replay split: sum.splits)
  qed
qed

lemma quiet_backlog_alert [step_rules]: "replay_tables s1 = replay_tables s \<Longrightarrow> quiet s (backlog_alert C E topic depth s1)"
  by (auto simp: backlog_alert_def intro!: step_rules)

lemma quiet_damp_topic: "quiet s (snd (damp_topic C E topic depth s))"
  by (auto simp: damp_topic_def Let_def intro!: step_rules split: option.splits)

lemma quiet_damping: "replay_tables s1 = replay_tables s \<Longrightarrow> quiet s (snd (update_backlog_damping C E depths s1))"
proof (induction C E depths s1 rule: update_backlog_damping.induct)
  case (2 C E topic depth rest s1)
  show ?case
  proof (cases "topic \<in> set recursion_deny_set")
    case True
    then show ?thesis using 2 by simp
  next
    case False
    obtain d r s2 where d: "damp_topic C E topic depth s1 = (d, r, s2)" by (metis prod_cases3)
    have q: "quiet s (r, s2)" using quiet_damp_topic [of s1 C E topic depth] 2(3) by (simp add: d)
    show ?thesis
    proof (cases r)
      case (Inl e)
      then show ?thesis using False q by (simp add: d)
    next
      case (Inr out)
      obtain ds r' s3 where u: "update_backlog_damping C E rest s2 = (ds, r', s3)" by (metis prod_cases3)
      have "quiet s (r', s3)" using 2(2) [OF False d [symmetric]] Inr q by (simp add: u)
      then show ?thesis using False q by (cases r') (auto simp: d Inr u)
    qed
  qed
qed simp

lemma tick_topics_tables:
  "replay_tables s1 = replay_tables s \<Longrightarrow>
   keeps (\<lambda>e. \<forall>t. t \<notin> set ts \<longrightarrow> \<not> replay_note t e) (\<lambda>s'. replay_tables s' = replay_tables s) (tick_topics C E per_topic n damped ts s1)"
proof (induction ts arbitrary: s1)
  case (Cons t ts)
  have "keeps (\<lambda>e. \<forall>t'. t' \<notin> set (t # ts) \<longrightarrow> \<not> replay_note t' e) (\<lambda>s'. replay_tables s' = replay_tables s) (bump_state C E t s1)"
    using quiet_bump [OF Cons.prems] by (rule keeps_weaken) auto
  then show ?case
    unfolding tick_topics.simps
    by (rule keeps_and_then) (auto simp: tick_note_def intro!: step_rules intro: keeps_weaken [OF Cons.IH])
qed simp

lemma keys_tick_budgets: "fst ` set (tick_budgets per_topic damped eligible) = set eligible"
proof -
  have "fst ` set (foldl (\<lambda>d t. od_set t (f t) d) d0 ts) = fst ` set d0 \<union> set ts" for f :: "string \<Rightarrow> int" and d0 ts
    by (induction ts arbitrary: d0) (auto simp: od_simps)
  then show ?thesis by (simp add: tick_budgets_def)
qed

text \<open>A tick replays allowed topics only.\<close>

lemma quiet_removed: "e \<in> set (fst (removed_topics C E active bs disabled)) \<Longrightarrow> \<not> replay_note t e"
  by (induction C E active bs disabled rule: removed_topics.induct) (auto simp: case_prod_beta Let_def split: if_splits)

definition tick_kept :: "string list \<Rightarrow> dlq_state \<Rightarrow> emission list res \<times> dlq_state \<Rightarrow> bool" where
  "tick_kept eligible s r \<longleftrightarrow>
     keeps (\<lambda>e. \<forall>t. t \<notin> set eligible \<longrightarrow> \<not> replay_note t e)
       (\<lambda>s'. dls_rate s' = dls_rate s \<and> dls_rps s' = dls_rps s \<and> dls_replays s' = dls_replays s \<and> dls_req_lru s' = dls_req_lru s \<and>
          (dls_budgets s' = dls_budgets s \<or> fst ` set (dls_budgets s') = set eligible)) r"

lemma replay_round_tables:
  assumes "replay_tables s1 = replay_tables s"
  shows "tick_kept eligible s (replay_round C E depths shed eligible s1)"
proof -
  obtain damped r s2 where d: "update_backlog_damping C E depths s1 = (damped, r, s2)" by (metis prod_cases3)
  let ?k = "keeps (\<lambda>e. \<forall>t. t \<notin> set eligible \<longrightarrow> \<not> replay_note t e) (\<lambda>s'. replay_tables s' = replay_tables s)"
  have q: "?k (r, s2)"
    using quiet_damping [OF assms, of C E depths] unfolding d snd_conv by (rule keeps_weaken) auto
  let ?n = "per_topic_budget C shed (length eligible)"
  have "?k (and_then (r, s2) (tick_topics C E ?n (length eligible) damped eligible))"
    by (rule keeps_and_then [OF q tick_topics_tables])
  then have "keeps (\<lambda>e. \<forall>t. t \<notin> set eligible \<longrightarrow> \<not> replay_note t e)
     (\<lambda>s'. dls_rate s' = dls_rate s \<and> dls_rps s' = dls_rps s \<and> dls_replays s' = dls_replays s \<and> dls_req_lru s' = dls_req_lru s \<and>
          (dls_budgets s' = dls_budgets s \<or> fst ` set (dls_budgets s') = set eligible))
     (and_then (and_then (r, s2) (tick_topics C E ?n (length eligible) damped eligible))
       (\<lambda>s2. (Inr [], s2\<lparr>dls_budgets := tick_budgets ?n damped eligible\<rparr>)))"
    by (auto simp: keeps_def and_then_def replay_tables_def keys_tick_budgets split: prod.splits sum.splits)
  moreover have "and_then (and_then (r, s2) f) g = and_then (r, s2) (\<lambda>s. and_then (f s) g)" for f g
    by (auto simp: and_then_def split: prod.splits sum.splits)
  ultimately show ?thesis by (simp add: tick_kept_def replay_round_def d Let_def)
qed

lemma tick_kept_and_then:
  assumes "\<forall>e \<in> set out. \<forall>t. \<not> replay_note t e" "tick_kept eligible s (f s1)"
  shows "tick_kept eligible s (and_then (Inr out, s1) f)"
  using assms by (cases "f s1"; cases "fst (f s1)") (auto simp: tick_kept_def and_then_def simp del: image_iff)

lemma tick_tables: "\<exists>eligible. (\<forall>t \<in> set eligible. is_allowed_topic C t) \<and> tick_kept eligible s (dlq_tick C E active depths shed s)"
proof -
  let ?s1 = "s\<lparr>dls_pause := snd (expire_if_due (now_ns E) (dls_pause s))\<rparr>"
  let ?el = "filter (\<lambda>t. is_allowed_topic C t \<and> \<not> probe_limited C E ?s1 t) active"
  obtain removed disabled where r: "removed_topics C E active (dls_budgets s) (dls_disabled s) = (removed, disabled)" by fastforce
  have q: "\<forall>e \<in> set (removed @ excluded_notes C E active @ limited_notes C E ?s1 active). \<forall>t. \<not> replay_note t e"
    using quiet_removed [of _ C E active "dls_budgets s" "dls_disabled s"] r by (auto simp: excluded_notes_def limited_notes_def)
  have "tick_kept ?el s (if ?el = [] \<or> 2 \<le> shed then (Inr [], ?s1\<lparr>dls_disabled := disabled\<rparr>)
      else replay_round C E depths shed ?el (?s1\<lparr>dls_disabled := disabled\<rparr>))"
    by (simp del: filter_empty_conv add: replay_round_tables) (simp add: tick_kept_def)
  with q have "tick_kept ?el s (and_then (Inr (removed @ excluded_notes C E active @ limited_notes C E ?s1 active), ?s1\<lparr>dls_disabled := disabled\<rparr>)
      (\<lambda>s2. if ?el = [] \<or> 2 \<le> shed then (Inr [], s2) else replay_round C E depths shed ?el s2))"
    by (intro tick_kept_and_then)
  moreover have "tick_kept ?el s (Inr [], s)" "tick_kept ?el s (Inr [], ?s1)" by (simp_all add: tick_kept_def)
  ultimately show ?thesis by (intro exI [of _ ?el]) (simp add: dlq_tick_def Let_def r del: filter_empty_conv)
qed

section \<open>Denied topics\<close>

definition never_replayed :: "string \<Rightarrow> dlq_state \<Rightarrow> bool" where
  "never_replayed t s \<longleftrightarrow> map_of (dls_replays s) t = None \<and> map_of (dls_budgets s) t = None"

lemma never_replayed_tables: "replay_tables s' = replay_tables s \<Longrightarrow> never_replayed t s \<Longrightarrow> never_replayed t s'"
  by (simp add: never_replayed_def replay_tables_def)

lemma quiet_never: "quiet s r \<Longrightarrow> never_replayed t s \<Longrightarrow> keeps (\<lambda>e. \<not> replay_note t e) (never_replayed t) r"
  by (erule keeps_weaken) (auto intro: never_replayed_tables)

lemma replay_never:
  assumes "\<not> is_allowed_topic C t" "never_replayed t s"
  shows "keeps (\<lambda>e. \<not> replay_note t e) (never_replayed t) (handle_replay L C E msg s)"
proof -
  let ?id = "str_or_empty L (msg_payload msg) ''request_id''" and ?target = "str_or_empty L (msg_payload msg) ''target''"
  let ?k = "keeps (\<lambda>e. \<not> replay_note t e) (never_replayed t)"
  obtain r s1 where r: "rps_rate_limited C E ?target (remember_request C ?id s) = (r, s1)" by fastforce
  obtain r' s2 where r': "rate_limited C E ?target s1 = (r', s2)" by fastforce
  obtain n s3 where n: "bump_visit C ?target ?id s2 = (n, s3)" by fastforce
  have k: "never_replayed t s1" "never_replayed t s2" "never_replayed t s3"
    using assms(2) r r' n
    by (auto simp: never_replayed_def rps_rate_limited_def rate_limited_def bump_visit_def remember_request_def Let_def split: prod.splits option.splits if_splits)
  have a: "?k (accept_replay L C E msg ?id ?target n s3)" if "?target \<noteq> t"
    using accept_replay_tables by (rule keeps_weaken) (use that k(3) in \<open>auto simp: never_replayed_def replay_tables_def od_simps\<close>)
  have e: "?k (escalate_replay C E msg ?id ?target n s3)"
    by (rule quiet_never [OF quiet_escalate k(3)]) simp
  have "?k (dlq_ack E msg i acc reason d, s)" for i acc reason d by (rule keeps_ack) (simp_all add: assms(2))
  moreover have "?k (refuse_replay E msg i x reason, s')" if "never_replayed t s'" for i x reason s'
    unfolding refuse_replay_def by (rule keeps_ack_notify) (simp_all add: that)
  moreover have "?k (deny_replay E msg i x reason, s)" for i x reason
    unfolding deny_replay_def by (rule keeps_ack_notify) (simp_all add: assms(2))
  ultimately show ?thesis
    using assms k a e by (auto simp: handle_replay_def r r' n Let_def split: bool.splits)
qed

lemmas quiet_handlers = quiet_sec_alert quiet_spool_ack quiet_unfreeze quiet_drop quiet_pause quiet_refuse [OF refl] quiet_boot [OF refl]

lemma handle_never:
  assumes "\<not> is_allowed_topic C t" "never_replayed t s"
  shows "keeps (\<lambda>e. \<not> replay_note t e) (never_replayed t) (dlq_handle L C E msg s)"
proof -
  have u: "never_replayed t (s\<lparr>dls_op := p\<rparr>)" for p using assms(2) by (simp add: never_replayed_def)
  show ?thesis
    unfolding dlq_handle_def dlq_command_def Let_def
    by (auto intro!: quiet_handlers [THEN quiet_never] replay_never assms u split: prod.splits sum.splits gate_verdict.splits)
qed

lemma tick_never:
  assumes "\<not> is_allowed_topic C t" "never_replayed t s"
  shows "keeps (\<lambda>e. \<not> replay_note t e) (never_replayed t) (dlq_tick C E active depths shed s)"
proof -
  obtain eligible where el: "\<forall>t \<in> set eligible. is_allowed_topic C t" "tick_kept eligible s (dlq_tick C E active depths shed s)"
    using tick_tables by blast
  from el(2) [unfolded tick_kept_def] show ?thesis
  proof (rule keeps_weaken)
    show "\<not> replay_note t e" if "\<forall>t. t \<notin> set eligible \<longrightarrow> \<not> replay_note t e" for e using that el(1) assms(1) by blast
    show "never_replayed t s'" if "dls_rate s' = dls_rate s \<and> dls_rps s' = dls_rps s \<and> dls_replays s' = dls_replays s \<and> dls_req_lru s' = dls_req_lru s \<and>
        (dls_budgets s' = dls_budgets s \<or> fst ` set (dls_budgets s') = set eligible)" for s'
      using that assms el(1) by (auto simp: never_replayed_def map_of_None_keys)
  qed
qed

lemma policy_loaded_note [simp]: "\<not> replay_note t (policy_loaded C E)"
  by (simp add: replay_note_def policy_loaded_def jget_or_def)

lemma quiet_booted: "quiet s (boot_replay_policy_messages L C E s)"
  unfolding boot_replay_policy_messages_def boot_check_allow_list_def
  by (rule keeps_and_then) (auto intro: quiet_boot)

text \<open>
  C14: a denied topic is never replayed. Take a topic of the exact deny set or with a denied suffix, whatever the settings, or one that the policy of every call
  denies. Whatever commands, alerts, acknowledgements and ticks a supervisor handles from its start: it emits no replay of the
  topic, counts none and gives it no budget.
\<close>

theorem denied_topics_never_replayed:
  assumes "t \<in> set recursion_deny_set \<or> ends_with (py_strip t) ''.dlq.dlq'' \<or> (\<forall>(C, E, input) \<in> set xs. policy_deny_reason C t \<noteq> None)"
  shows "(\<forall>e \<in> set (fst (dlq_calls L xs dlq_init)). \<not> replay_note t e) \<and> never_replayed t (snd (dlq_calls L xs dlq_init))"
proof (rule keeps_calls)
  have exact: "py_strip t = t" if "t \<in> set recursion_deny_set"
    using that by (auto simp: recursion_deny_set_def py_strip_def is_space_def)
  have fixed: "policy_deny_reason C t \<noteq> None" if "t \<in> set recursion_deny_set \<or> ends_with (py_strip t) ''.dlq.dlq''" for C
    using that exact by (auto simp: policy_deny_reason_def deny_reason_def deny_suffixes_def Let_def)
  have deny: "\<not> is_allowed_topic C t" if "(C, E, input) \<in> set xs" for C E input
    using assms that fixed [of C] by (fastforce simp: is_allowed_topic_def)
  show "never_replayed t dlq_init" by (simp add: never_replayed_def dlq_init_def)
  show "keeps (\<lambda>e. \<not> replay_note t e) (never_replayed t) (dlq_do L x s)" if "x \<in> set xs" "never_replayed t s" for x s
    using that deny
    by (auto simp: dlq_do_def intro!: handle_never tick_never quiet_handlers [THEN quiet_never] quiet_booted [THEN quiet_never] split: prod.splits dlq_input.splits)
qed

lemma denied_topics_never_replayed_witness:
  "\<forall>L xs. never_replayed ''maint.event.v1.dlq'' (snd (dlq_calls L xs dlq_init))"
  using denied_topics_never_replayed [of "''maint.event.v1.dlq''"] by (simp add: recursion_deny_set_def)

section \<open>Replays in a minute and in a second\<close>

definition tokens :: "(string, rate_count) odict \<Rightarrow> int \<Rightarrow> string \<Rightarrow> nat" where
  "tokens buckets epoch t = (case map_of buckets t of None \<Rightarrow> 0 | Some b \<Rightarrow> if rc_epoch b = epoch then rc_count b else 0)"

lemma tokens_od_set: "tokens (od_set k b buckets) epoch t = (if t = k then if rc_epoch b = epoch then rc_count b else 0 else tokens buckets epoch t)"
  by (simp add: tokens_def od_simps)

lemma take_token_tokens:
  assumes "take_token cap epoch target buckets = (ok, buckets')"
  shows "tokens buckets' epoch t = tokens buckets epoch t + (if ok \<and> t = target then 1 else 0)"
    and "ok \<Longrightarrow> int (tokens buckets' epoch target) \<le> max 1 cap"
proof -
  obtain b where b: "(case map_of buckets target of Some b \<Rightarrow> if rc_epoch b = epoch then b else \<lparr>rc_epoch = epoch, rc_count = 0\<rparr>
               | None \<Rightarrow> \<lparr>rc_epoch = epoch, rc_count = 0\<rparr>) = b" by blast
  then have e: "rc_epoch b = epoch" "rc_count b = tokens buckets epoch target"
    by (auto simp: tokens_def split: option.splits if_splits)
  have "(ok, buckets') = (if max 1 cap \<le> int (rc_count b) then (False, od_set target b buckets)
      else (True, od_set target (b\<lparr>rc_count := Suc (rc_count b)\<rparr>) buckets))"
    using assms unfolding take_token_def Let_def b by simp
  then show "tokens buckets' epoch t = tokens buckets epoch t + (if ok \<and> t = target then 1 else 0)"
    and "ok \<Longrightarrow> int (tokens buckets' epoch target) \<le> max 1 cap"
    using e by (auto simp: tokens_od_set split: if_splits)
qed

text \<open>From one state to the next: each replay of the topic costs a token of the epoch, and a token is taken only below the cap.\<close>

definition paid :: "(dlq_state \<Rightarrow> (string, rate_count) odict) \<Rightarrow> int \<Rightarrow> int \<Rightarrow> string \<Rightarrow> dlq_state \<Rightarrow> dlq_state \<Rightarrow> bool" where
  "paid buckets cap epoch t s s' \<longleftrightarrow>
     replays_of t s' + tokens (buckets s) epoch t \<le> replays_of t s + tokens (buckets s') epoch t \<and>
     (tokens (buckets s') epoch t = tokens (buckets s) epoch t \<or> int (tokens (buckets s') epoch t) \<le> max 1 cap)"

lemma paid_trans: "paid b cap epoch t s s1 \<Longrightarrow> paid b cap epoch t s1 s2 \<Longrightarrow> paid b cap epoch t s s2"
  by (auto simp: paid_def)

lemma paid_tables: "replay_tables s' = replay_tables s \<Longrightarrow> b \<in> {dls_rate, dls_rps} \<Longrightarrow> paid b cap epoch t s s'"
  by (auto simp: paid_def replay_tables_def replays_of_def)

lemma paid_bound: "paid b cap epoch t s s' \<Longrightarrow> int (replays_of t s') \<le> int (replays_of t s) + max 1 cap"
  by (auto simp: paid_def)

lemma quiet_paid: "quiet s r \<Longrightarrow> b \<in> {dls_rate, dls_rps} \<Longrightarrow> keeps (\<lambda>_. True) (paid b cap epoch t s) r"
  by (erule keeps_weaken) (auto intro: paid_tables)

text \<open>The settings and the clock of a run whose calls fall in one epoch of the bucket.\<close>

definition same_epoch :: "(dlq_state \<Rightarrow> (string, rate_count) odict) \<Rightarrow> int \<Rightarrow> int \<Rightarrow> dlq_config \<Rightarrow> dlq_env \<Rightarrow> bool" where
  "same_epoch b cap epoch C E \<longleftrightarrow>
     b = dls_rate \<and> cap = dlc_per_min C \<and> epoch = minute_epoch E \<or> b = dls_rps \<and> cap = dlc_rps C \<and> epoch = sec_epoch E"

lemma accept_paid:
  assumes "b \<in> {dls_rate, dls_rps}" "replay_tables s3 = (dls_rate s2, dls_rps s2, dls_replays s, dls_budgets s, lru)"
    and "\<And>t. tokens (b s2) epoch t = tokens (b s) epoch t + (if t = target then 1 else 0)" "int (tokens (b s2) epoch target) \<le> max 1 cap"
  shows "keeps (\<lambda>_. True) (paid b cap epoch t s) (accept_replay L C E msg request_id target n s3)"
  using accept_replay_tables
proof (rule keeps_weaken)
  show "paid b cap epoch t s s'"
    if "replay_tables s' = replay_tables s3 \<or>
        replay_tables s' = (dls_rate s3, dls_rps s3, od_set target (Suc (replays_of target s3)) (dls_replays s3), dls_budgets s3, dls_req_lru s3)" for s'
    using that assms by (auto simp: paid_def replay_tables_def replays_of_def od_simps split: option.splits)
qed simp

lemma rate_steps:
  assumes "same_epoch b cap epoch C E" "rps_rate_limited C E target (remember_request C i s) = (r, s1)" "rate_limited C E target s1 = (r', s2)"
  shows "replay_tables s1 = (dls_rate s, dls_rps s1, dls_replays s, dls_budgets s, dls_req_lru (remember_request C i s))"
    and "replay_tables s2 = (dls_rate s2, dls_rps s1, dls_replays s, dls_budgets s, dls_req_lru (remember_request C i s))"
    and "paid b cap epoch t s s1" and "paid b cap epoch t s s2"
    and "\<not> r \<Longrightarrow> \<not> r' \<Longrightarrow> tokens (b s2) epoch t = tokens (b s) epoch t + (if t = target then 1 else 0)"
    and "\<not> r \<Longrightarrow> \<not> r' \<Longrightarrow> int (tokens (b s2) epoch target) \<le> max 1 cap"
proof -
  have same: "dls_rps (remember_request C i s) = dls_rps s" "dls_rate (remember_request C i s) = dls_rate s"
    "dls_replays (remember_request C i s) = dls_replays s" "dls_budgets (remember_request C i s) = dls_budgets s"
    by (simp_all add: remember_request_def)
  obtain p where p: "take_token (dlc_rps C) (sec_epoch E) target (dls_rps s) = (\<not> r, p)" "s1 = (remember_request C i s)\<lparr>dls_rps := p\<rparr>"
    using assms(2) by (auto simp: rps_rate_limited_def same split: prod.splits)
  obtain q where q: "take_token (dlc_per_min C) (minute_epoch E) target (dls_rate s) = (\<not> r', q)" "s2 = s1\<lparr>dls_rate := q\<rparr>"
    using assms(3) by (auto simp: rate_limited_def p(2) same split: prod.splits)
  show tables: "replay_tables s1 = (dls_rate s, dls_rps s1, dls_replays s, dls_budgets s, dls_req_lru (remember_request C i s))"
    "replay_tables s2 = (dls_rate s2, dls_rps s1, dls_replays s, dls_budgets s, dls_req_lru (remember_request C i s))"
    by (simp_all add: replay_tables_def p(2) q(2) same)
  note tk = take_token_tokens [OF p(1)] take_token_tokens [OF q(1)]
  show "paid b cap epoch t s s1" "paid b cap epoch t s s2"
    "\<not> r \<Longrightarrow> \<not> r' \<Longrightarrow> tokens (b s2) epoch t = tokens (b s) epoch t + (if t = target then 1 else 0)"
    "\<not> r \<Longrightarrow> \<not> r' \<Longrightarrow> int (tokens (b s2) epoch target) \<le> max 1 cap"
    using assms(1) tk by (auto simp: same_epoch_def paid_def replays_of_def p(2) q(2) same)
qed

lemma replay_paid:
  assumes "same_epoch b cap epoch C E"
  shows "keeps (\<lambda>_. True) (paid b cap epoch t s) (handle_replay L C E msg s)"
proof -
  let ?id = "str_or_empty L (msg_payload msg) ''request_id''" and ?target = "str_or_empty L (msg_payload msg) ''target''"
  let ?k = "keeps (\<lambda>_. True) (paid b cap epoch t s)"
  have b: "b \<in> {dls_rate, dls_rps}" using assms by (auto simp: same_epoch_def)
  obtain r s1 where r: "rps_rate_limited C E ?target (remember_request C ?id s) = (r, s1)" by fastforce
  obtain r' s2 where r': "rate_limited C E ?target s1 = (r', s2)" by fastforce
  obtain n s3 where n: "bump_visit C ?target ?id s2 = (n, s3)" by fastforce
  note st = rate_steps [OF assms r r']
  have s3: "replay_tables s3 = replay_tables s2"
    using n by (auto simp: bump_visit_def Let_def split: option.splits)
  have p3: "paid b cap epoch t s s3" using paid_trans [OF st(4) paid_tables [OF s3 b]] .
  have a: "?k (accept_replay L C E msg ?id ?target n s3)" if "\<not> r" "\<not> r'"
    using s3 st(2) by (intro accept_paid [OF b _ st(5,6)] that) (auto simp: replay_tables_def)
  have "keeps (\<lambda>_. True) (\<lambda>s'. replay_tables s' = replay_tables s3) (escalate_replay C E msg ?id ?target n s3)"
    by (rule keeps_weaken [OF quiet_escalate [OF refl]]) simp_all
  then have e: "?k (escalate_replay C E msg ?id ?target n s3)"
    by (rule keeps_weaken) (auto intro: paid_trans [OF p3] paid_tables [OF _ b])
  have 0: "paid b cap epoch t s s" by (rule paid_tables [OF refl b])
  have "?k (dlq_ack E msg i acc reason d, s)" for i acc reason d by (rule keeps_ack) (simp_all add: 0)
  moreover have "?k (refuse_replay E msg i x reason, s')" if "paid b cap epoch t s s'" for i x reason s'
    unfolding refuse_replay_def by (rule keeps_ack_notify) (simp_all add: that)
  moreover have "?k (deny_replay E msg i x reason, s)" for i x reason
    unfolding deny_replay_def by (rule keeps_ack_notify) (simp_all add: 0)
  ultimately show ?thesis
    using 0 st(3,4) a e by (auto simp: handle_replay_def r r' n Let_def split: bool.splits)
qed

lemma do_paid:
  assumes "same_epoch b cap epoch C E"
  shows "keeps (\<lambda>_. True) (paid b cap epoch t s) (dlq_do L (C, E, input) s)"
proof -
  have b: "b \<in> {dls_rate, dls_rps}" using assms by (auto simp: same_epoch_def)
  have op: "paid b cap epoch t s (s\<lparr>dls_op := p\<rparr>)" for p by (rule paid_tables [OF _ b]) simp
  have q: "keeps (\<lambda>_. True) (paid b cap epoch t s) r" if "quiet s' r" "paid b cap epoch t s s'" for r s'
    using quiet_paid [OF that(1) b] by (rule keeps_weaken) (auto intro: paid_trans [OF that(2)])
  have h: "keeps (\<lambda>_. True) (paid b cap epoch t s) (dlq_handle L C E msg s)" for msg
    unfolding dlq_handle_def dlq_command_def Let_def
    by (auto intro!: quiet_handlers [THEN q] keeps_weaken [OF replay_paid [OF assms]] op paid_tables [OF refl b] intro: paid_trans [OF op]
        split: prod.splits sum.splits gate_verdict.splits)
  have "keeps (\<lambda>_. True) (paid b cap epoch t s) (dlq_tick C E active depths shed s)" for active depths shed
    using tick_tables [of C s E active depths shed] b
    by (auto simp: tick_kept_def paid_def replays_of_def elim!: keeps_weaken)
  with h show ?thesis
    by (auto simp: dlq_do_def intro!: quiet_booted [THEN q] paid_tables [OF refl b] split: dlq_input.splits)
qed

text \<open>
  C16: replays are capped. From any state, while the calls fall in one minute the supervisor accepts at most
  the configured number of replays of a topic, and at most the number per second while they fall in one second.
\<close>

theorem replays_capped:
  assumes "\<forall>(C, E, input) \<in> set xs. same_epoch b cap epoch C E"
    and "b \<in> {dls_rate, dls_rps}"
  shows "int (replays_of t (snd (dlq_calls L xs s))) \<le> int (replays_of t s) + max 1 cap"
proof (rule paid_bound)
  have "keeps (\<lambda>_. True) (paid b cap epoch t s) (dlq_do L x s')" if "x \<in> set xs" "paid b cap epoch t s s'" for x s'
    using that assms(1) by (cases x) (auto intro!: keeps_weaken [OF do_paid] intro: paid_trans)
  then show "paid b cap epoch t s (snd (dlq_calls L xs s))"
    using keeps_calls [of xs "paid b cap epoch t s" "\<lambda>_. True" L s] paid_tables [OF refl assms(2)] by blast
qed

definition quiet_day :: "dlq_config" where
  "quiet_day = \<lparr>dlc_quota = 100, dlc_backoff_s = 60, dlc_backoff_factor = 2, dlc_backoff_lru = 1024, dlc_allow_csv = [], dlc_overrides_csv = [], dlc_visit_max = 2,
     dlc_visit_lru = 4096, dlc_per_min = 60, dlc_rps = 1, dlc_per_tick = 50, dlc_broken_threshold = 5, dlc_broken_window_s = 600,
     dlc_backlog_alert = 1000, dlc_state_max = 100000, dlc_pause_ttl_s = 3600, dlc_lag_ms = 5000, dlc_lag_window_s = 60, dlc_ack_wait_h = 24,
     dlc_op = gate_config\<rparr>"

definition at_second :: "real \<Rightarrow> dlq_env" where
  "at_second now = \<lparr>dle_leader = True, dle_now = now, dle_iso = ''t'', dle_id = (\<lambda>n. ''i''), dle_from_iso = (\<lambda>s. None), dle_hex = (\<lambda>s. s),
     dle_op_lib = gate_lib, dle_op_files = gate_files, dle_op_clocks = gate_clocks\<rparr>"

definition command :: "string \<Rightarrow> string \<Rightarrow> message" where
  "command kind request_id =
     \<lparr>msg_envelope = \<lparr>en_message_id = ''m'', en_trace_id = ''tr'', en_topic = maint_event_topic, en_producer = ''p'', en_created_at = ''t'',
        en_schema_version = 1, en_attempt = 1\<rparr>,
      msg_payload = [(''kind'', JStr kind), (''request_id'', JStr request_id), (''target'', JStr ''x.dlq'')]\<rparr>"

lemma replays_capped_witness:
  "\<forall>L. int (replays_of ''x.dlq'' (snd (dlq_calls L
     [(quiet_day, at_second 0, Handled (command ''dlq_replay'' ''r1'')), (quiet_day, at_second (1 / 2), Handled (command ''dlq_replay'' ''r2''))] dlq_init))) \<le> 1"
proof
  fix L
  have "Json.truncate (1 / 2) = 0" "Json.truncate 0 = 0" by (simp_all add: Json.truncate_def)
  then have "\<forall>(C, E, input) \<in> set [(quiet_day, at_second 0, Handled (command ''dlq_replay'' ''r1'')), (quiet_day, at_second (1 / 2), Handled (command ''dlq_replay'' ''r2''))].
      same_epoch dls_rps 1 0 C E"
    by (simp add: same_epoch_def quiet_day_def sec_epoch_def at_second_def)
  from replays_capped [OF this, of "''x.dlq''" L dlq_init] show "int (replays_of ''x.dlq'' (snd (dlq_calls L
     [(quiet_day, at_second 0, Handled (command ''dlq_replay'' ''r1'')), (quiet_day, at_second (1 / 2), Handled (command ''dlq_replay'' ''r2''))] dlq_init))) \<le> 1"
    by (simp add: replays_of_def dlq_init_def)
qed

section \<open>Commands without a signature, and requests refused once\<close>

text \<open>
  C33: an unsigned command is obeyed. Whatever the settings of the signature gate, a command without the two operator fields is dispatched as if there were no
  gate; so anyone who can publish lifts a freeze, and the answer is an acceptance.
\<close>

theorem unsigned_command_obeyed:
  assumes "en_topic (msg_envelope msg) = maint_event_topic" "0 \<le> en_attempt (msg_envelope msg)" "dle_iso E \<noteq> []" "dle_leader E"
    and "\<not> py_bool (jget_or (msg_payload msg) ''op_key_id'' JNull)" "\<not> py_bool (jget_or (msg_payload msg) ''op_signature'' JNull)"
  shows "dlq_handle L C E msg s = dlq_command L C E msg s \<and>
    (jget_or (msg_payload msg) ''kind'' JNull = JStr ''dlq_unfreeze'' \<longrightarrow> str_or_empty L (msg_payload msg) ''request_id'' \<noteq> [] \<longrightarrow>
     str_or_empty L (msg_payload msg) ''target'' = t \<longrightarrow> t \<noteq> [] \<longrightarrow> t \<in> fst ` set (dls_frozen s) \<longrightarrow>
       (\<exists>ack note s'. dlq_handle L C E msg s = (Inr [ack, note], s') \<and> t \<notin> fst ` set (dls_frozen s') \<and>
          em_topic ack = maint_ack_topic \<and> jget (em_payload ack) ''accepted'' = Inr (JBool True) \<and> jget (em_payload ack) ''reason'' = Inr (JStr ''unfrozen'')))"
proof -
  have d: "dlq_handle L C E msg s = dlq_command L C E msg s"
    using assms(1,5,6) by (simp add: dlq_handle_def gate_op_envelope_def topic_defs)
  show ?thesis
    using assms(2-4) unfolding d
    by (auto simp: dlq_command_def handle_unfreeze_def ack_and_notify_def dlq_ack_def maint_ack_check_def maint_ack_as_dict_def dlq_name_def jget_def
        od_simps Let_def)
qed

lemma unsigned_command_obeyed_witness:
  "\<forall>L. \<exists>ack note s'. dlq_handle L quiet_day (at_second 0) (command ''dlq_unfreeze'' ''r'') (dlq_init\<lparr>dls_frozen := [(''x.dlq'', ''poison_pattern'')]\<rparr>) =
     (Inr [ack, note], s') \<and> ''x.dlq'' \<notin> fst ` set (dls_frozen s')"
proof
  fix L
  show "\<exists>ack note s'. dlq_handle L quiet_day (at_second 0) (command ''dlq_unfreeze'' ''r'') (dlq_init\<lparr>dls_frozen := [(''x.dlq'', ''poison_pattern'')]\<rparr>) =
     (Inr [ack, note], s') \<and> ''x.dlq'' \<notin> fst ` set (dls_frozen s')"
    using unsigned_command_obeyed [of "command ''dlq_unfreeze'' ''r''" "at_second 0" L quiet_day
        "dlq_init\<lparr>dls_frozen := [(''x.dlq'', ''poison_pattern'')]\<rparr>" "''x.dlq''", THEN conjunct2]
    by (simp add: command_def at_second_def jget_or_def str_or_empty_def) (elim exE conjE, intro exI conjI)
qed

text \<open>The last \<open>n\<close> request ids remembered.\<close>

definition recent_requests :: "nat \<Rightarrow> dlq_state \<Rightarrow> string set" where
  "recent_requests n s = set (take n (rev (map fst (dls_req_lru s))))"

lemma recent_requests_remember:
  assumes "i \<in> recent_requests n s" "request_id \<notin> fst ` set (dls_req_lru s)" "int n < dlc_backoff_lru C"
  shows "i \<in> recent_requests (Suc n) (remember_request C request_id s)"
proof -
  obtain m where m: "nat (dlc_backoff_lru C) = Suc m" "n \<le> m" using assms(3) by (cases "nat (dlc_backoff_lru C)") auto
  have "take (length d - (length d - m)) (rev d) = take m (rev d)" for d :: "(string, unit) odict"
    by (cases "m \<le> length d") simp_all
  then have "rev (map fst (dls_req_lru (remember_request C request_id s))) = request_id # take m (rev (map fst (dls_req_lru s)))"
    using assms(2,3) m(1) by (simp add: remember_request_def od_simps od_trim_snoc) (simp add: od_trim_drop rev_map drop_map rev_drop take_map)
  then show ?thesis using assms(1) m(2) by (simp add: recent_requests_def min_def)
qed

lemma recent_requests_mono: "i \<in> recent_requests n s \<Longrightarrow> n \<le> m \<Longrightarrow> i \<in> recent_requests m s"
  by (auto simp: recent_requests_def dest: subsetD [OF set_take_subset_set_take])

lemma recent_requests_tables: "replay_tables s' = replay_tables s \<Longrightarrow> recent_requests n s' = recent_requests n s"
  by (simp add: recent_requests_def replay_tables_def)

text \<open>A request adds at most its own id, and only as a new one.\<close>

lemma replay_lru:
  defines "request_id \<equiv> \<lambda>L msg. str_or_empty L (msg_payload msg) ''request_id''"
  shows "keeps (\<lambda>_. True) (\<lambda>s'. dls_req_lru s' = dls_req_lru s \<or> 0 < dlc_backoff_lru C \<and> request_id L msg \<notin> fst ` set (dls_req_lru s) \<and>
      dls_req_lru s' = dls_req_lru (remember_request C (request_id L msg) s)) (handle_replay L C E msg s)" (is "keeps _ ?Q _")
proof -
  let ?id = "str_or_empty L (msg_payload msg) ''request_id''" and ?target = "str_or_empty L (msg_payload msg) ''target''"
  obtain r s1 where r: "rps_rate_limited C E ?target (remember_request C ?id s) = (r, s1)" by fastforce
  obtain r' s2 where r': "rate_limited C E ?target s1 = (r', s2)" by fastforce
  obtain n s3 where n: "bump_visit C ?target ?id s2 = (n, s3)" by fastforce
  show ?thesis
  proof (cases "0 < dlc_backoff_lru C \<and> ?id \<in> fst ` set (dls_req_lru s)")
    case True
    have "keeps (\<lambda>_. True) ?Q (dlq_ack E msg i acc reason d, s)" "keeps (\<lambda>_. True) ?Q (refuse_replay E msg i x reason, s)"
      "keeps (\<lambda>_. True) ?Q (deny_replay E msg i x reason, s)" for i acc reason d x
      by (auto simp: keeps_def split: sum.splits)
    with True show ?thesis by (auto simp: handle_replay_def Let_def)
  next
    case False
    have lru: "dls_req_lru s1 = dls_req_lru (remember_request C ?id s)" "dls_req_lru s2 = dls_req_lru (remember_request C ?id s)"
      "dls_req_lru s3 = dls_req_lru (remember_request C ?id s)"
      using r r' n by (auto simp: rps_rate_limited_def rate_limited_def bump_visit_def Let_def split: prod.splits option.splits)
    have q: "?Q s'" if "dls_req_lru s' = dls_req_lru (remember_request C ?id s)" for s'
      using that False by (cases "0 < dlc_backoff_lru C") (auto simp: request_id_def remember_request_def)
    have "keeps (\<lambda>_. True) ?Q (accept_replay L C E msg ?id ?target n s3)"
      using accept_replay_tables by (rule keeps_weaken) (simp, rule q, auto simp: replay_tables_def lru(3))
    moreover have "keeps (\<lambda>_. True) ?Q (escalate_replay C E msg ?id ?target n s3)"
      using quiet_escalate [OF refl] by (rule keeps_weaken) (simp, rule q, auto simp: replay_tables_def lru(3))
    moreover have "keeps (\<lambda>_. True) ?Q (dlq_ack E msg i acc reason d, s)" "keeps (\<lambda>_. True) ?Q (deny_replay E msg i x reason, s)"
      "keeps (\<lambda>_. True) ?Q (refuse_replay E msg i x reason, s1)" "keeps (\<lambda>_. True) ?Q (refuse_replay E msg i x reason, s2)" for i acc reason d x
      using q [OF lru(1)] q [OF lru(2)] by (auto simp: keeps_def split: sum.splits)
    ultimately show ?thesis using False by (auto simp: handle_replay_def r r' n Let_def split: bool.splits)
  qed
qed

fun is_message :: "dlq_config \<times> dlq_env \<times> dlq_input \<Rightarrow> bool" where
  "is_message (C, E, Handled msg) = True"
| "is_message _ = False"

lemma handle_steps:
  assumes "\<And>r s'. quiet s' r \<Longrightarrow> replay_tables s' = replay_tables s \<Longrightarrow> keeps P Q r"
    and "\<And>s'. replay_tables s' = replay_tables s \<Longrightarrow> keeps P Q (handle_replay L C E msg s')" and "Q s"
    and "\<And>p. Q (s\<lparr>dls_op := p\<rparr>)"
  shows "keeps P Q (dlq_handle L C E msg s)"
  unfolding dlq_handle_def dlq_command_def Let_def
  by (auto intro!: quiet_handlers [THEN assms(1)] assms(2-4) split: prod.splits sum.splits gate_verdict.splits)

lemma do_recent:
  assumes "i \<in> recent_requests n s" "is_message (C, E, input) \<Longrightarrow> int n < dlc_backoff_lru C"
  shows "i \<in> recent_requests (if is_message (C, E, input) then Suc n else n) (snd (dlq_do L (C, E, input) s))"
proof (cases input)
  case (Handled msg)
  let ?Q = "\<lambda>s'. i \<in> recent_requests (Suc n) s'"
  have n: "int n < dlc_backoff_lru C" using assms(2) Handled by simp
  have same: "?Q s'" if "replay_tables s' = replay_tables s" for s'
    using recent_requests_mono [OF assms(1), of "Suc n"] recent_requests_tables [OF that] by simp
  have q: "keeps (\<lambda>_. True) ?Q r" if "quiet s' r" "replay_tables s' = replay_tables s" for r s'
    using that(1) by (rule keeps_weaken) (simp_all add: same that(2))
  have h: "keeps (\<lambda>_. True) ?Q (handle_replay L C E msg s')" if "replay_tables s' = replay_tables s" for s'
    using replay_lru
  proof (rule keeps_weaken)
    show "?Q s2" if "dls_req_lru s2 = dls_req_lru s' \<or> 0 < dlc_backoff_lru C \<and> str_or_empty L (msg_payload msg) ''request_id'' \<notin> fst ` set (dls_req_lru s') \<and>
        dls_req_lru s2 = dls_req_lru (remember_request C (str_or_empty L (msg_payload msg) ''request_id'') s')" for s2
      using that
    proof (elim disjE conjE)
      assume "dls_req_lru s2 = dls_req_lru s'"
      with same [OF \<open>replay_tables s' = replay_tables s\<close>] show ?thesis by (simp add: recent_requests_def)
    next
      assume f: "str_or_empty L (msg_payload msg) ''request_id'' \<notin> fst ` set (dls_req_lru s')"
        and s2: "dls_req_lru s2 = dls_req_lru (remember_request C (str_or_empty L (msg_payload msg) ''request_id'') s')"
      have "i \<in> recent_requests n s'" using assms(1) recent_requests_tables [OF \<open>replay_tables s' = replay_tables s\<close>] by simp
      from recent_requests_remember [OF this f n] s2 show ?thesis by (simp add: recent_requests_def)
    qed
  qed simp
  have "keeps (\<lambda>_. True) ?Q (dlq_handle L C E msg s)"
  proof (rule handle_steps)
    show "keeps (\<lambda>_. True) ?Q r" if "quiet s' r" "replay_tables s' = replay_tables s" for r s' using that by (rule q)
    show "keeps (\<lambda>_. True) ?Q (handle_replay L C E msg s')" if "replay_tables s' = replay_tables s" for s' using that by (rule h)
  qed (simp_all add: same)
  then show ?thesis by (simp add: Handled dlq_do_def keeps_def)
next
  case (Ticked active depths shed)
  obtain eligible where "tick_kept eligible s (dlq_tick C E active depths shed s)" using tick_tables by blast
  then have "dls_req_lru (snd (dlq_tick C E active depths shed s)) = dls_req_lru s" unfolding tick_kept_def keeps_def by blast
  then show ?thesis using assms(1) by (simp add: Ticked dlq_do_def recent_requests_def)
next
  case Booted
  have "replay_tables (snd (boot_replay_policy_messages L C E s)) = replay_tables s" using quiet_booted by (simp add: keeps_def)
  from recent_requests_tables [OF this] assms(1) show ?thesis by (simp add: Booted dlq_do_def)
qed

lemma calls_recent:
  assumes "i \<in> recent_requests n s" "\<forall>x \<in> set xs. int (n + length (filter is_message xs)) \<le> dlc_backoff_lru (fst x)"
  shows "i \<in> recent_requests (n + length (filter is_message xs)) (snd (dlq_calls L xs s))"
  using assms
proof (induction xs arbitrary: n s)
  case (Cons x xs)
  obtain C E input where x: "x = (C, E, input)" by (cases x)
  let ?n = "if is_message x then Suc n else n"
  have "i \<in> recent_requests ?n (snd (dlq_do L x s))"
    using do_recent [OF Cons.prems(1), of C E input L] Cons.prems(2) by (cases "is_message x") (simp_all add: x)
  moreover have "?n + length (filter is_message xs) = n + length (filter is_message (x # xs))" by simp
  ultimately have "i \<in> recent_requests (n + length (filter is_message (x # xs))) (snd (dlq_calls L xs (snd (dlq_do L x s))))"
    using Cons.IH [of ?n "snd (dlq_do L x s)"] Cons.prems(2) by (simp split: if_splits)
  then show ?case by (simp add: case_prod_beta Let_def)
qed simp



section \<open>Further behaviour\<close>

text \<open>A topic whose backlog has halved but is above the threshold trips again in the same pass: it stays damped, and its alert is not debounced.\<close>

lemma recovery_trips_again:
  assumes "map_of (dls_damped s) topic = Some (trip, at_s)" "real_of_int depth \<le> trip / 2" "max 1 (dlc_backlog_alert C) < depth"
  shows "damp_topic C E topic depth s =
    (True, backlog_alert C E topic depth (s\<lparr>dls_damped := od_del topic (dls_damped s) @ [(topic, real_of_int depth, dle_now E)]\<rparr>))"
  using assms by (simp add: damp_topic_def od_simps)

text \<open>A topic below the threshold is damped exactly while its backlog is above half the depth at which it tripped.\<close>

lemma damped_until_half:
  assumes "depth \<le> max 1 (dlc_backlog_alert C)"
  shows "fst (damp_topic C E topic depth s) \<longleftrightarrow> (\<exists>trip at_s. map_of (dls_damped s) topic = Some (trip, at_s) \<and> trip / 2 < real_of_int depth)"
  using assms by (auto simp: damp_topic_def Let_def split: option.splits)

lemma drop_without_id_raises:
  assumes "str_or_empty L (msg_payload msg) ''request_id'' = []" "dle_leader E"
  shows "fst (handle_drop_request L E msg s) = Inl ValueError"
  using assms by (simp add: handle_drop_request_def ack_and_notify_def dlq_ack_def maint_ack_check_def Let_def require_def res_bind_def)

end
