(* ===== verification/Scaler.thy ===== *)
theory Scaler
  imports Dlq Reactors
begin

text \<open>
  The scaler of \<open>swarm/agents/maint/scaler.py\<close>: smoothed load signals, the decision of a target with its hysteresis, the tick with its
  guards (lag tiers, decision interval, roster cap, video memory and processor budgets, noise windows, changes per tick), pins, pauses, the
  registry of model footprints and the one-shot alerts. The configuration is fixed, the reading of each clock, the answer of the runtime controller and
  its time are what a call finds. Alerts are dictionaries, as the source builds them. \<open>metrics_snapshot\<close>, a rendering of the
  counters as text, is not modelled.
\<close>

section \<open>Settings\<close>

record scaler_config =
  scc_pod :: string
  scc_controller :: string
  scc_window_ms :: int
  scc_max_targets :: int
  scc_max_replicas :: int
  scc_default_max :: int
  scc_min_replicas :: int
  scc_up_depth :: real
  scc_down_depth :: real
  scc_up_age_s :: real
  scc_hysteresis_windows :: int
  scc_max_changes :: int
  scc_pin_ttl_s :: int
  scc_overrides_csv :: string
  scc_self_scaling_csv :: string
  scc_noise :: "jval option"
  scc_global_max :: int
  scc_min_interval_s :: real
  scc_vram_headroom_mb :: real
  scc_vram_threshold :: real
  scc_predictor_vram_mb :: real
  scc_cpu_budget_pct :: real
  scc_cpu_count :: int
  scc_grace_windows :: int
  scc_signal_window :: int
  scc_load_per_replica :: int
  scc_max_step :: int
  scc_history_max :: int
  scc_buckets_csv :: string
  scc_pause_ttl_s :: int
  scc_lag_ms :: int
  scc_lag_window_s :: int
  scc_op :: op_config

record scaler_env =
  sce_leader :: bool
  sce_ns :: int
  sce_utc :: date_time
  sce_utc_iso :: string
  sce_iso :: string
  sce_id :: "nat \<Rightarrow> string"
  sce_from_iso :: "string \<Rightarrow> real option"
  sce_apply :: "string \<Rightarrow> int \<Rightarrow> bool res"
  sce_elapsed_s :: real
  sce_op_lib :: op_lib
  sce_op_files :: op_files
  sce_op_clocks :: op_clocks

definition scaler_name :: string where
  "scaler_name = ''maint.scaler.v1''"

text \<open>\<open>str.partition\<close> at the first \<open>=\<close>, \<open>None\<close> without one.\<close>

fun partition_eq :: "string \<Rightarrow> (string \<times> string) option" where
  "partition_eq [] = None"
| "partition_eq (c # cs) =
     (if c = CHR ''='' then Some ([], cs) else map_option (\<lambda>(a, b). (c # a, b)) (partition_eq cs))"

definition parse_override :: "pylib \<Rightarrow> string \<Rightarrow> (string \<times> int) option" where
  "parse_override L tok =
     (case partition_eq (py_strip tok) of
        None \<Rightarrow> None
      | Some (name, v) \<Rightarrow>
          (case pl_int L (py_strip v) of
             None \<Rightarrow> None
           | Some n \<Rightarrow> if py_strip name \<noteq> [] \<and> 0 < n then Some (py_strip name, n) else None))"

definition parse_overrides_csv :: "pylib \<Rightarrow> string \<Rightarrow> (string, int) odict" where
  "parse_overrides_csv L raw =
     foldl (\<lambda>d tok. case parse_override L tok of None \<Rightarrow> d | Some (name, n) \<Rightarrow> od_set name n d) [] (split_on (CHR '','') raw)"

text \<open>The windows of a JSON array of expressions; \<open>None\<close> stands for a blank or malformed setting.\<close>

fun parse_windows :: "pylib \<Rightarrow> jval list \<Rightarrow> cron_expr list" where
  "parse_windows L [] = []"
| "parse_windows L (j # js) =
     (case j of
        JStr e \<Rightarrow> (case parse_cron L e of Inr w \<Rightarrow> w # parse_windows L js | Inl _ \<Rightarrow> parse_windows L js)
      | _ \<Rightarrow> parse_windows L js)"

definition parse_noise_windows :: "pylib \<Rightarrow> jval option \<Rightarrow> cron_expr list" where
  "parse_noise_windows L raw = (case raw of Some (JArr js) \<Rightarrow> parse_windows L js | _ \<Rightarrow> [])"

text \<open>A window covers the whole hour; minutes do not count.\<close>

definition window_covers :: "date_time \<Rightarrow> cron_expr \<Rightarrow> bool" where
  "window_covers d w \<longleftrightarrow> dt_hour d \<in> cx_hours w \<and> (weekday d + 1) mod 7 \<in> cx_dows w \<and> dt_day d \<in> cx_doms w \<and> dt_month d \<in> cx_months w"

definition active_noise_window :: "cron_expr list \<Rightarrow> date_time \<Rightarrow> string option" where
  "active_noise_window ws d = map_option cx_raw (find (window_covers d) ws)"

definition fallback_buckets :: "real list" where
  "fallback_buckets = [5 / 1000, 1 / 100, 25 / 1000, 5 / 100, 1 / 10, 25 / 100, 5 / 10, 1, 25 / 10, 5, 10]"

definition parse_buckets :: "pylib \<Rightarrow> string \<Rightarrow> real list" where
  "parse_buckets L raw =
     sort (remdups (filter (\<lambda>v. 0 < v) (List.map_filter (\<lambda>tok. if tok = [] then None else pl_float L tok) (map py_strip (split_on (CHR '','') raw)))))"

definition self_scaling_targets :: "scaler_config \<Rightarrow> string list" where
  "self_scaling_targets C = remdups (filter (\<lambda>t. t \<noteq> []) (map py_strip (split_on (CHR '','') (scc_self_scaling_csv C))))"

section \<open>State\<close>

record sketch =
  sk_window :: int
  sk_samples :: "real list"

record target_state =
  tgt_window_ns :: int
  tgt_decided_ns :: int
  tgt_replicas :: int
  tgt_history :: "int list"
  tgt_pin :: "int option"
  tgt_pin_until_ns :: "int option"
  tgt_signals :: "(string, sketch) odict"
  tgt_low :: int

record device_probe =
  dp_total_mb :: real
  dp_used_mb :: real
  dp_per_replica_mb :: real
  dp_observed_ns :: int
  dp_host :: string

record footprint =
  fp_mb :: real
  fp_class :: string

record runtime_histogram =
  rh_counts :: "nat list"
  rh_sum :: real
  rh_total :: nat

record decision_record =
  dr_target :: string
  dr_replicas :: int
  dr_prev :: int
  dr_reason :: string
  dr_window_id :: string

datatype noise_seen = At_start | Outside | Inside string

record scaler_state =
  scs_targets :: "(string, target_state) odict"
  scs_pause :: pause_state
  scs_warmups :: "(string, unit) odict"
  scs_unknown_kinds :: "jval list"
  scs_probes :: "(string, device_probe) odict"
  scs_hints :: "(string, footprint) odict"
  scs_cpu_counts :: "(string, int) odict"
  scs_versions :: "(string, (string, footprint) odict) odict"
  scs_unknown_footprints :: "string list"
  scs_counters :: "(string \<times> string, nat) odict"
  scs_decisions :: "(string \<times> string, nat) odict"
  scs_desired :: "(string, int) odict"
  scs_vram_budget :: "(string, real) odict"
  scs_runtime :: "(string \<times> string, runtime_histogram) odict"
  scs_unconfigured :: "string list"
  scs_orphans :: "string list"
  scs_forbidden :: "string list"
  scs_history :: "(string, decision_record) odict"
  scs_noise_seen :: noise_seen
  scs_noise_notified :: "(string, string) odict"
  scs_feedback :: "(string, unit) odict"
  scs_sec_lag :: sec_lag
  scs_op :: op_state
  scs_drawn :: nat

definition new_target :: target_state where
  "new_target = \<lparr>tgt_window_ns = 0, tgt_decided_ns = 0, tgt_replicas = 1, tgt_history = [], tgt_pin = None, tgt_pin_until_ns = None,
     tgt_signals = [], tgt_low = 0\<rparr>"

definition scaler_init :: scaler_state where
  "scaler_init = \<lparr>scs_targets = [], scs_pause = pause_init, scs_warmups = [], scs_unknown_kinds = [], scs_probes = [], scs_hints = [],
     scs_cpu_counts = [], scs_versions = [], scs_unknown_footprints = [], scs_counters = [], scs_decisions = [], scs_desired = [],
     scs_vram_budget = [], scs_runtime = [], scs_unconfigured = [], scs_orphans = [], scs_forbidden = [], scs_history = [],
     scs_noise_seen = At_start, scs_noise_notified = [], scs_feedback = [], scs_sec_lag = sec_lag_init,
     scs_op = \<lparr>os_cache = new_cache, os_bucket = None\<rparr>, scs_drawn = 0\<rparr>"

type_synonym scaler_step = "scaler_state \<Rightarrow> emission list res \<times> scaler_state"

definition target_of :: "string \<Rightarrow> scaler_state \<Rightarrow> target_state" where
  "target_of t s = (case map_of (scs_targets s) t of None \<Rightarrow> new_target | Some st \<Rightarrow> st)"

definition put_target :: "string \<Rightarrow> target_state \<Rightarrow> scaler_state \<Rightarrow> scaler_state" where
  "put_target t st s = s\<lparr>scs_targets := od_set t st (scs_targets s)\<rparr>"

text \<open>\<open>_evict_and_get\<close>: the target is in the table afterwards, as the latest.\<close>

definition max_targets :: "scaler_config \<Rightarrow> nat" where
  "max_targets C = nat (max 16 (scc_max_targets C))"

definition evict_and_get :: "scaler_config \<Rightarrow> string \<Rightarrow> scaler_state \<Rightarrow> scaler_state" where
  "evict_and_get C t s =
     (case map_of (scs_targets s) t of
        Some _ \<Rightarrow> s\<lparr>scs_targets := od_touch t (scs_targets s)\<rparr>
      | None \<Rightarrow> s\<lparr>scs_targets := (if max_targets C \<le> length (scs_targets s) then tl (scs_targets s) else scs_targets s) @ [(t, new_target)]\<rparr>)"

section \<open>Counters and messages\<close>

definition known_reasons :: "string list" where
  "known_reasons =
     [''queue_depth_high'', ''head_age_high'', ''queue_depth_low'', ''manual_pin'', ''max_replicas_cap'', ''min_replicas_floor'',
      ''hysteresis_block'', ''manual_pin_active'', ''manual_pause'', ''max_changes_per_window'', ''min_decision_interval'',
      ''global_max_replicas'', ''vram_budget_exceeded'', ''vram_telemetry_stale'', ''vram_footprint_unknown'', ''runtime_failed'',
      ''scale_down_grace'', ''backpressure_tier1'', ''backpressure_tier2'', ''self_scaling_target'', ''noise_window_active'',
      ''cpu_budget_exceeded'']"

definition count_up :: "'k \<Rightarrow> ('k, nat) odict \<Rightarrow> ('k, nat) odict" where
  "count_up k d = od_set k (Suc (case map_of d k of None \<Rightarrow> 0 | Some n \<Rightarrow> n)) d"

definition bump_counter :: "string \<Rightarrow> string \<Rightarrow> scaler_state \<Rightarrow> scaler_state" where
  "bump_counter kind reason s = s\<lparr>scs_counters := count_up (kind, reason) (scs_counters s)\<rparr>"

text \<open>The outcomes it is called with are the three known ones.\<close>

definition record_decision :: "string \<Rightarrow> string \<Rightarrow> scaler_state \<Rightarrow> scaler_state" where
  "record_decision reason outcome s =
     s\<lparr>scs_decisions := count_up (if reason \<in> set known_reasons then reason else ''unknown'', outcome) (scs_decisions s)\<rparr>"

definition observe :: "real list \<Rightarrow> real \<Rightarrow> runtime_histogram option \<Rightarrow> runtime_histogram" where
  "observe buckets v h =
     (let h0 = (case h of None \<Rightarrow> \<lparr>rh_counts = map (\<lambda>_. 0) buckets, rh_sum = 0, rh_total = 0\<rparr> | Some h \<Rightarrow> h) in
      \<lparr>rh_counts = map2 (\<lambda>b n. if v \<le> b then Suc n else n) buckets (rh_counts h0), rh_sum = rh_sum h0 + v, rh_total = Suc (rh_total h0)\<rparr>)"

text \<open>\<open>_invoke_runtime\<close>; a controller that raises is observed and raises on.\<close>

definition runtime_buckets :: "pylib \<Rightarrow> scaler_config \<Rightarrow> real list" where
  "runtime_buckets L C = (let bs = parse_buckets L (scc_buckets_csv C) in if bs = [] then fallback_buckets else bs)"

definition invoke_runtime :: "pylib \<Rightarrow> scaler_config \<Rightarrow> scaler_env \<Rightarrow> string \<Rightarrow> int \<Rightarrow> scaler_state \<Rightarrow> bool res \<times> scaler_state" where
  "invoke_runtime L C E target replicas s =
     (let r = sce_apply E target replicas; key = (scc_controller C, if r = Inr True then ''success'' else ''error'') in
      (r, s\<lparr>scs_runtime := od_set key (observe (runtime_buckets L C) (sce_elapsed_s E) (map_of (scs_runtime s) key)) (scs_runtime s)\<rparr>))"

definition scaler_alert :: "scaler_env \<Rightarrow> string \<Rightarrow> string \<Rightarrow> string \<Rightarrow> string \<Rightarrow> scaler_step" where
  "scaler_alert E kind severity subject reason s =
     (Inr [\<lparr>em_topic = sec_alert_topic,
            em_payload = [(''alert_id'', JStr (sce_id E (scs_drawn s))), (''kind'', JStr kind), (''severity'', JStr severity),
              (''source'', JStr scaler_name), (''reason'', JStr (take 1024 reason)), (''subject'', JStr subject), (''request_id'', JNull),
              (''client_id'', JNull), (''ip'', JNull), (''evidence_ref'', JNull), (''produced_at'', JStr (sce_iso E))],
            em_producer = scaler_name, em_trace = None\<rparr>],
      s\<lparr>scs_drawn := Suc (scs_drawn s)\<rparr>)"

definition scaler_ack :: "scaler_env \<Rightarrow> message \<Rightarrow> string \<Rightarrow> bool \<Rightarrow> string \<Rightarrow> jobj option \<Rightarrow> emission list res" where
  "scaler_ack E msg request_id accepted reason details =
     (let trace = en_trace_id (msg_envelope msg); attempt = en_attempt (msg_envelope msg) in
      res_bind (maint_ack_check
        \<lparr>ma_request_id = request_id, ma_accepted = accepted, ma_accepted_by = scaler_name, ma_processed_at = sce_iso E,
         ma_attempt = (if attempt = 0 then 1 else attempt), ma_reason = reason, ma_details = details, ma_trace_id = Some trace,
         ma_schema_version = 2\<rparr>)
       (\<lambda>a. Inr [\<lparr>em_topic = maint_ack_topic, em_payload = maint_ack_as_dict a, em_producer = scaler_name, em_trace = Some trace\<rparr>]))"

definition scaler_event :: "scaler_env \<Rightarrow> string \<Rightarrow> jobj \<Rightarrow> emission" where
  "scaler_event E kind rest =
     \<lparr>em_topic = maint_event_topic, em_payload = [(''kind'', JStr kind), (''kind_schema_version'', JInt 1)] @ rest, em_producer = scaler_name,
      em_trace = None\<rparr>"

definition scaler_notify :: "scaler_env \<Rightarrow> string \<Rightarrow> string \<Rightarrow> jobj \<Rightarrow> emission" where
  "scaler_notify E kind target extra = scaler_event E kind ([(''target'', JStr target), (''produced_at'', JStr (sce_iso E))] @ extra)"

definition notify_agent_event :: "scaler_env \<Rightarrow> string \<Rightarrow> emission" where
  "notify_agent_event E kind = scaler_event E kind [(''agent_id'', JStr scaler_name), (''produced_at'', JStr (sce_iso E))]"

definition notify_unknown_kind :: "scaler_env \<Rightarrow> string \<Rightarrow> emission" where
  "notify_unknown_kind E kind =
     scaler_event E ''maint_unknown_kind'' [(''produced_at'', JStr (sce_iso E)), (''unknown_kind'', JStr kind), (''source'', JStr scaler_name)]"

definition anchor_of :: "scaler_config \<Rightarrow> scaler_env \<Rightarrow> int" where
  "anchor_of C E = (let width = max 1 (scc_window_ms C) * 1000000 in sce_ns E div width * width)"

definition decision_window :: "scaler_config \<Rightarrow> scaler_env \<Rightarrow> string" where
  "decision_window C E = scc_pod C @ '':'' @ show_int (anchor_of C E)"

text \<open>A refused decision: its note and its counters.\<close>

definition throttle :: "scaler_config \<Rightarrow> scaler_env \<Rightarrow> string \<Rightarrow> int \<Rightarrow> string \<Rightarrow> jobj \<Rightarrow> jobj \<Rightarrow> scaler_step" where
  "throttle C E target would_be reason mid rest s =
     (Inr [scaler_notify E ''scale_throttled'' target
        ([(''would_be'', JInt would_be), (''reason'', JStr reason)] @ mid @ [(''decision_window_id'', JStr (decision_window C E))] @ rest)],
      record_decision reason ''throttled'' (bump_counter ''scale_throttled'' reason s))"

section \<open>The decision of a target\<close>

definition sketch_add :: "int \<Rightarrow> real \<Rightarrow> sketch option \<Rightarrow> sketch" where
  "sketch_add window v k =
     (let samples = (case k of Some k \<Rightarrow> if sk_window k = window then sk_samples k else [] | None \<Rightarrow> []) in
      if window \<le> 0 then \<lparr>sk_window = window, sk_samples = [v]\<rparr>
      else \<lparr>sk_window = window, sk_samples = (let new = samples @ [v] in drop (length new - nat window) new)\<rparr>)"

definition sketch_mean :: "sketch \<Rightarrow> real" where
  "sketch_mean k = (if sk_samples k = [] then 0 else sum_list (sk_samples k) / real (length (sk_samples k)))"

text \<open>\<open>_smooth_signals\<close>: a value that is no number is skipped, an integer beyond the doubles raises and leaves the
  sketches it has reached.\<close>

fun smooth_signals :: "pylib \<Rightarrow> int \<Rightarrow> jobj \<Rightarrow> (string, sketch) odict \<Rightarrow> (string, real) odict res \<times> (string, sketch) odict" where
  "smooth_signals L window [] sketches = (Inr [], sketches)"
| "smooth_signals L window ((name, j) # rest) sketches =
     (case float_caught L j of
        Inl e \<Rightarrow> (Inl e, sketches)
      | Inr None \<Rightarrow> smooth_signals L window rest sketches
      | Inr (Some v) \<Rightarrow>
          (let k = sketch_add window v (map_of sketches name);
               (view, sketches') = smooth_signals L window rest (od_set name k sketches) in
           (res_bind view (\<lambda>view. Inr ((name, if 0 < window then sketch_mean k else v) # view)), sketches')))"

definition smoothed_of :: "(string, real) odict \<Rightarrow> string \<Rightarrow> real" where
  "smoothed_of view name = (case map_of view name of None \<Rightarrow> 0 | Some v \<Rightarrow> v)"

definition max_replicas_for :: "pylib \<Rightarrow> scaler_config \<Rightarrow> string \<Rightarrow> int" where
  "max_replicas_for L C target =
     (case map_of (parse_overrides_csv L (scc_overrides_csv C)) target of
        Some n \<Rightarrow> max 1 n
      | None \<Rightarrow>
          if 0 < scc_default_max C then min (max 2 (scc_default_max C)) (max 1 (scc_max_replicas C)) else max 1 (scc_max_replicas C))"

definition min_replicas :: "scaler_config \<Rightarrow> int" where
  "min_replicas C = max 0 (scc_min_replicas C)"

definition max_step :: "scaler_config \<Rightarrow> int" where
  "max_step C = max 1 (scc_max_step C)"

definition hysteresis_ok :: "scaler_config \<Rightarrow> target_state \<Rightarrow> int \<Rightarrow> int \<Rightarrow> bool" where
  "hysteresis_ok C st new current =
     (let windows = nat (max 1 (scc_hysteresis_windows C)) in
      if length (tgt_history st) < windows then True
      else
        (let up = current < new;
             recent = drop (length (tgt_history st) - windows) (tgt_history st);
             prev_up = tgt_replicas st < last recent;
             same = length (filter (\<lambda>r. (tgt_replicas st < r) = up) recent) in
         same < windows \<or> up \<noteq> prev_up))"

datatype scale_verdict = Hold | Throttled string | Move int | Raised py_error

definition desired_replicas :: "pylib \<Rightarrow> scaler_config \<Rightarrow> string \<Rightarrow> real \<Rightarrow> int \<Rightarrow> int" where
  "desired_replicas L C target load current =
     (let per = max 0 (scc_load_per_replica C) in
      if 0 < per then max (min_replicas C) (min (max_replicas_for L C target) (max 1 \<lceil>load / of_int per\<rceil>)) else current)"

text \<open>The part of \<open>_decide\<close> after the smoothing.\<close>

definition decide_view :: "pylib \<Rightarrow> scaler_config \<Rightarrow> string \<Rightarrow> target_state \<Rightarrow> (string, real) odict \<Rightarrow> scale_verdict \<times> target_state" where
  "decide_view L C target st view =
     (let depth = smoothed_of view ''queue_depth''; in_flight = smoothed_of view ''in_flight''; age = smoothed_of view ''head_age_s'';
          per = max 0 (scc_load_per_replica C); current = tgt_replicas st;
          desired = desired_replicas L C target (max depth in_flight) current;
          wants_up = (scc_up_depth C \<le> depth \<or> scc_up_age_s C \<le> age \<or> 0 < per \<and> current < desired);
          wants_down = (depth \<le> scc_down_depth C \<and> in_flight \<le> scc_down_depth C \<and> (per = 0 \<or> desired < current)) in
      if wants_up then
        (let st1 = st\<lparr>tgt_low := 0\<rparr> in
         if max_replicas_for L C target \<le> current then (Throttled ''max_replicas_cap'', st1)
         else
           (let new = min (max_replicas_for L C target) (current + (if 0 < per then min (max_step C) (max 1 (desired - current)) else 1)) in
            (if hysteresis_ok C st1 new current then Move new else Throttled ''hysteresis_block'', st1)))
      else if wants_down then
        (let st1 = st\<lparr>tgt_low := tgt_low st + 1\<rparr> in
         if tgt_low st1 \<le> max 0 (scc_grace_windows C) then (Throttled ''scale_down_grace'', st1)
         else if current \<le> min_replicas C then (Throttled ''min_replicas_floor'', st1)
         else
           (let new = max (min_replicas C) (current - (if 0 < per then min (max_step C) (max 1 (current - desired)) else 1)) in
            (if hysteresis_ok C st1 new current then Move new else Throttled ''hysteresis_block'', st1)))
      else (Hold, st\<lparr>tgt_low := 0\<rparr>))"

definition decide_target :: "pylib \<Rightarrow> scaler_config \<Rightarrow> string \<Rightarrow> target_state \<Rightarrow> jobj \<Rightarrow> scale_verdict \<times> target_state" where
  "decide_target L C target st0 signals =
     (case smooth_signals L (max 0 (scc_signal_window C)) signals (tgt_signals st0) of
        (Inl e, sketches) \<Rightarrow> (Raised e, st0\<lparr>tgt_signals := sketches\<rparr>)
      | (Inr view, sketches) \<Rightarrow> decide_view L C target (st0\<lparr>tgt_signals := sketches\<rparr>) view)"

lemma decide_target_cases:
  assumes "\<And>e sk. P (Raised e, st\<lparr>tgt_signals := sk\<rparr>)" "\<And>sk view. P (decide_view L C target (st\<lparr>tgt_signals := sk\<rparr>) view)"
  shows "P (decide_target L C target st signals)"
  using assms by (auto simp: decide_target_def split: prod.split sum.split)

section \<open>Budgets\<close>

definition cpu_class :: "footprint \<Rightarrow> bool" where
  "cpu_class f \<longleftrightarrow> py_lower (fp_class f) = ''cpu''"

text \<open>Replicas of the other processor-class targets.\<close>

definition cpu_load :: "string \<Rightarrow> scaler_state \<Rightarrow> int" where
  "cpu_load target s =
     sum_list (map (\<lambda>(a, st). if a \<noteq> target \<and> (case map_of (scs_hints s) a of Some f \<Rightarrow> cpu_class f | None \<Rightarrow> False)
                              then (case map_of (scs_cpu_counts s) a of Some n \<Rightarrow> n | None \<Rightarrow> tgt_replicas st) else 0) (scs_targets s))"

definition vram_budget :: "scaler_config \<Rightarrow> real \<Rightarrow> real" where
  "vram_budget C total_mb = max 0 (total_mb - scc_vram_headroom_mb C)"

text \<open>The part of \<open>_check_vram_budget\<close> for video memory, with the registered footprint if there is one.\<close>

definition check_gpu_budget ::
    "scaler_config \<Rightarrow> scaler_env \<Rightarrow> string \<Rightarrow> int \<Rightarrow> footprint option \<Rightarrow> scaler_state \<Rightarrow> string option \<times> bool \<times> scaler_state" where
  "check_gpu_budget C E target projected hint s =
     (case map_of (scs_probes s) target of
        None \<Rightarrow> (None, False, s)
      | Some p \<Rightarrow>
          if 5 * max 1 (scc_window_ms C) * 1000000 < sce_ns E - dp_observed_ns p then (Some ''vram_telemetry_stale'', False, s)
          else
            (let budget = vram_budget C (dp_total_mb p);
                 s1 = s\<lparr>scs_vram_budget := od_set (dp_host p) budget (scs_vram_budget s)\<rparr>;
                 unknown = (hint = None);
                 per = (case hint of Some f \<Rightarrow> fp_mb f | None \<Rightarrow> scc_predictor_vram_mb C);
                 baseline = max 0 (dp_used_mb p - per * of_int (max 1 (tgt_replicas (target_of target s)))) in
             if unknown \<and> 0 < budget \<and> scc_vram_threshold C * budget < dp_used_mb p then (Some ''vram_footprint_unknown'', True, s1)
             else if budget < baseline + per * of_int projected then (Some ''vram_budget_exceeded'', unknown, s1)
             else (None, unknown, s1)))"

text \<open>\<open>_check_vram_budget\<close>: the reason of a refusal, whether the footprint is unknown, and the state with the gauge.\<close>

definition check_vram_budget :: "scaler_config \<Rightarrow> scaler_env \<Rightarrow> string \<Rightarrow> int \<Rightarrow> scaler_state \<Rightarrow> string option \<times> bool \<times> scaler_state" where
  "check_vram_budget C E target projected s =
     (case map_of (scs_hints s) target of
        Some f \<Rightarrow>
          if cpu_class f then
            (if scc_cpu_budget_pct C * of_int (scc_cpu_count C) < of_int (projected + cpu_load target s) then Some ''cpu_budget_exceeded'' else None, False, s)
          else check_gpu_budget C E target projected (Some f) s
      | None \<Rightarrow> check_gpu_budget C E target projected None s)"

section \<open>The tick\<close>

definition unconfigured_alerts :: "pylib \<Rightarrow> scaler_config \<Rightarrow> scaler_env \<Rightarrow> string \<Rightarrow> scaler_step" where
  "unconfigured_alerts L C E target s =
     (if scc_default_max C \<le> 0 \<or> target \<in> fst ` set (parse_overrides_csv L (scc_overrides_csv C)) \<or> target \<in> set (scs_unconfigured s)
      then (Inr [], s)
      else
        (let applied = max_replicas_for L C target in
         and_then
           (scaler_alert E ''maint_scaler_unconfigured_agent'' ''warn'' target
              (''agent '' @ pl_repr L (JStr target) @ '' has no entry in maint_scaler_max_replicas_overrides_csv; applied default ceiling='' @ show_int applied)
              (s\<lparr>scs_unconfigured := target # scs_unconfigured s\<rparr>))
           (\<lambda>s. (Inr [scaler_notify E ''maint_scaler_default_applied'' target
              [(''applied'', JInt applied), (''default_max_replicas'', JInt (scc_default_max C))]], s))))"

definition self_scaling_step :: "pylib \<Rightarrow> scaler_config \<Rightarrow> scaler_env \<Rightarrow> string \<Rightarrow> scaler_step" where
  "self_scaling_step L C E target s =
     and_then (throttle C E target (tgt_replicas (target_of target s)) ''self_scaling_target'' [] [] s) (\<lambda>s.
       if target \<in> set (scs_forbidden s) then (Inr [], s)
       else scaler_alert E ''scaler_target_forbidden'' ''warn'' target
         (''auto-scaler attempted to decide replicas for '' @ pl_repr L (JStr target) @
          '' which is in maint_scaler_self_scaling_targets; target is the sole writer of its own replica count'')
         (s\<lparr>scs_forbidden := target # scs_forbidden s\<rparr>))"

text \<open>\<open>_classify_decision_reason\<close>.\<close>

definition decision_reason :: "pylib \<Rightarrow> scaler_config \<Rightarrow> int \<Rightarrow> int \<Rightarrow> jobj \<Rightarrow> string res" where
  "decision_reason L C prev new signals =
     (if prev < new
      then res_bind (py_float L (jget_or signals ''head_age_s'' (JInt 0))) (\<lambda>age. Inr (if scc_up_age_s C \<le> age then ''head_age_high'' else ''queue_depth_high''))
      else Inr ''queue_depth_low'')"

text \<open>The locals of a running tick: the decisions it has made and the size of the roster.\<close>

type_synonym tick_state = "scaler_state \<times> nat \<times> int"

definition lift_step :: "scaler_step \<Rightarrow> tick_state \<Rightarrow> emission list res \<times> tick_state" where
  "lift_step f = (\<lambda>(s, k). let (r, s') = f s in (r, (s', k)))"

definition apply_move :: "target_state \<Rightarrow> int \<Rightarrow> int \<Rightarrow> int \<Rightarrow> target_state" where
  "apply_move st n anchor now =
     (let hist = tgt_history st @ [n] in
      st\<lparr>tgt_replicas := n, tgt_history := drop (length hist - 8) hist, tgt_window_ns := anchor, tgt_decided_ns := now\<rparr>)"

definition remember_decision :: "scaler_config \<Rightarrow> decision_record \<Rightarrow> scaler_state \<Rightarrow> scaler_state" where
  "remember_decision C d s =
     (let key = dr_target d @ '':'' @ dr_window_id d in
      s\<lparr>scs_history := od_trim (nat (max 1 (scc_history_max C))) (od_set key d (od_touch key (scs_history s)))\<rparr>)"

definition commit_move :: "pylib \<Rightarrow> scaler_config \<Rightarrow> scaler_env \<Rightarrow> string \<Rightarrow> jobj \<Rightarrow> int \<Rightarrow> tick_state \<Rightarrow> emission list res \<times> tick_state" where
  "commit_move L C E target signals n = (\<lambda>(s, emitted, roster).
     (let st = target_of target s; prev = tgt_replicas st; (r, s1) = invoke_runtime L C E target n s in
      case r of
        Inl e \<Rightarrow> (Inl e, (s1, emitted, roster))
      | Inr accepted \<Rightarrow>
          (case decision_reason L C prev n signals of
             Inl e \<Rightarrow> (Inl e, (s1, emitted, roster))
           | Inr reason \<Rightarrow>
               (let s2 = record_decision reason (if accepted then ''applied'' else ''error'') (bump_counter ''scale_decision'' reason s1);
                    s3 = s2\<lparr>scs_desired := od_set target n (scs_desired s2),
                       scs_cpu_counts := (if (case map_of (scs_hints s2) target of Some f \<Rightarrow> cpu_class f | None \<Rightarrow> False)
                          then od_set target n (scs_cpu_counts s2) else scs_cpu_counts s2)\<rparr>;
                    s4 = put_target target (apply_move st n (anchor_of C E) (sce_ns E)) s3;
                    s5 = remember_decision C \<lparr>dr_target = target, dr_replicas = n, dr_prev = prev, dr_reason = reason, dr_window_id = decision_window C E\<rparr> s4 in
                (Inr [scaler_notify E ''scale_decision'' target
                   [(''replicas'', JInt n), (''prev'', JInt prev), (''next'', JInt n), (''reason'', JStr reason), (''observed'', JObj signals),
                    (''source'', JStr ''auto''), (''controller'', JStr (scc_controller C)), (''controller_accepted'', JBool accepted),
                    (''decision_window_id'', JStr (decision_window C E)), (''signals'', JObj signals)]],
                 (s5, Suc emitted, roster - prev + n))))))"

text \<open>A window that is active holds the decision back and says so once.\<close>

definition noise_hold :: "scaler_config \<Rightarrow> scaler_env \<Rightarrow> string \<Rightarrow> string \<Rightarrow> int \<Rightarrow> scaler_step" where
  "noise_hold C E window target n s =
     (if map_of (scs_noise_notified s) target = Some window then (Inr [], s)
      else throttle C E target n ''noise_window_active'' [(''observed'', JObj [(''noise_window'', JStr window)])] []
        (s\<lparr>scs_noise_notified := od_set target window (scs_noise_notified s)\<rparr>))"

definition last_guards ::
    "pylib \<Rightarrow> scaler_config \<Rightarrow> scaler_env \<Rightarrow> string option \<Rightarrow> string \<Rightarrow> jobj \<Rightarrow> int \<Rightarrow> tick_state \<Rightarrow> emission list res \<times> tick_state" where
  "last_guards L C E active target signals n ts =
     (case active of
        Some w \<Rightarrow> lift_step (noise_hold C E w target n) ts
      | None \<Rightarrow>
          if max 1 (scc_max_changes C) \<le> int (fst (snd ts))
          then lift_step (throttle C E target n ''max_changes_per_window'' [(''max_changes'', JInt (max 1 (scc_max_changes C)))] []) ts
          else commit_move L C E target signals n ts)"

text \<open>The budgets are asked on the way up only.\<close>

definition unknown_footprint_alert :: "scaler_env \<Rightarrow> string \<Rightarrow> bool \<Rightarrow> scaler_step" where
  "unknown_footprint_alert E target unknown s =
     (if unknown \<and> target \<notin> set (scs_unknown_footprints s)
      then scaler_alert E ''vram_footprint_unknown'' ''info'' target ''no model_registered footprint; using legacy predictor_max_vram_mb projection''
        (s\<lparr>scs_unknown_footprints := target # scs_unknown_footprints s\<rparr>)
      else (Inr [], s))"

definition budget_guard ::
    "pylib \<Rightarrow> scaler_config \<Rightarrow> scaler_env \<Rightarrow> string option \<Rightarrow> string \<Rightarrow> jobj \<Rightarrow> int \<Rightarrow> tick_state \<Rightarrow> emission list res \<times> tick_state" where
  "budget_guard L C E active target signals n ts =
     (if tgt_replicas (target_of target (fst ts)) < n then
        (case check_vram_budget C E target n (fst ts) of
           (refusal, unknown, s1) \<Rightarrow>
             and_then (lift_step (unknown_footprint_alert E target unknown) (s1, snd ts)) (\<lambda>ts.
               case refusal of
                 Some reason \<Rightarrow> lift_step (throttle C E target n reason [] []) ts
               | None \<Rightarrow> last_guards L C E active target signals n ts))
      else last_guards L C E active target signals n ts)"

definition interval_blocked :: "scaler_config \<Rightarrow> scaler_env \<Rightarrow> target_state \<Rightarrow> bool" where
  "interval_blocked C E st \<longleftrightarrow>
     (let min_ns = Json.truncate (scc_min_interval_s C * 1000000000) in 0 < min_ns \<and> 0 < tgt_decided_ns st \<and> sce_ns E - tgt_decided_ns st < min_ns)"

definition move_target ::
    "pylib \<Rightarrow> scaler_config \<Rightarrow> scaler_env \<Rightarrow> int \<Rightarrow> string option \<Rightarrow> string \<Rightarrow> jobj \<Rightarrow> int \<Rightarrow> tick_state \<Rightarrow> emission list res \<times> tick_state" where
  "move_target L C E shed active target signals n ts =
     (let st = target_of target (fst ts); prev = tgt_replicas st; roster = snd (snd ts); cap = max 1 (scc_global_max C) in
      if 1 \<le> shed \<and> n < prev then lift_step (throttle C E target n (if 2 \<le> shed then ''backpressure_tier2'' else ''backpressure_tier1'') [] []) ts
      else if interval_blocked C E st then
        lift_step (throttle C E target n ''min_decision_interval'' [(''min_decision_interval_s'', JFloat (scc_min_interval_s C))] []) ts
      else if prev < n \<and> cap < roster - prev + n then
        lift_step (throttle C E target n ''global_max_replicas'' [(''global_max_replicas'', JInt cap)] []) ts
      else budget_guard L C E active target signals n ts)"

definition load_step ::
    "pylib \<Rightarrow> scaler_config \<Rightarrow> scaler_env \<Rightarrow> int \<Rightarrow> string option \<Rightarrow> string \<Rightarrow> jobj \<Rightarrow> tick_state \<Rightarrow> emission list res \<times> tick_state" where
  "load_step L C E shed active target signals = (\<lambda>(s0, k).
     (let s = evict_and_get C target s0; st = target_of target s in
      if anchor_of C E \<le> tgt_window_ns st then (Inr [], (s, k))
      else
        (case tgt_pin st of
           Some p \<Rightarrow> lift_step (throttle C E target p ''manual_pin_active'' [] []) (s, k)
         | None \<Rightarrow>
             (case decide_target L C target st signals of
                (v, st1) \<Rightarrow>
                  (let ts = (put_target target st1 s, k) in
                   case v of
                     Hold \<Rightarrow> (Inr [], ts)
                   | Throttled reason \<Rightarrow>
                       lift_step (throttle C E target (tgt_replicas st1) reason []
                         (if reason = ''max_replicas_cap'' then [(''max_replicas'', JInt (max_replicas_for L C target))] else [])) ts
                   | Move n \<Rightarrow> move_target L C E shed active target signals n ts
                   | Raised e \<Rightarrow> (Inl e, ts))))))"

definition tick_target ::
    "pylib \<Rightarrow> scaler_config \<Rightarrow> scaler_env \<Rightarrow> int \<Rightarrow> string option \<Rightarrow> string \<times> jobj \<Rightarrow> tick_state \<Rightarrow> emission list res \<times> tick_state" where
  "tick_target L C E shed active x ts =
     and_then (lift_step (unconfigured_alerts L C E (fst x)) ts) (\<lambda>ts.
       if fst x \<in> set (self_scaling_targets C) then lift_step (self_scaling_step L C E (fst x)) ts
       else load_step L C E shed active (fst x) (snd x) ts)"

fun tick_loads ::
    "pylib \<Rightarrow> scaler_config \<Rightarrow> scaler_env \<Rightarrow> int \<Rightarrow> string option \<Rightarrow> (string \<times> jobj) list \<Rightarrow> tick_state \<Rightarrow> emission list res \<times> tick_state" where
  "tick_loads L C E shed active [] ts = (Inr [], ts)"
| "tick_loads L C E shed active (x # xs) ts = and_then (tick_target L C E shed active x ts) (tick_loads L C E shed active xs)"

text \<open>\<open>_expire_pins\<close>, over the targets in their order.\<close>

definition pin_due :: "scaler_env \<Rightarrow> target_state \<Rightarrow> bool" where
  "pin_due E st \<longleftrightarrow> (case tgt_pin_until_ns st of Some t \<Rightarrow> t \<le> sce_ns E | None \<Rightarrow> False)"

definition unpin :: "target_state \<Rightarrow> target_state" where
  "unpin st = st\<lparr>tgt_pin := None, tgt_pin_until_ns := None\<rparr>"

definition expire_pins :: "scaler_env \<Rightarrow> scaler_step" where
  "expire_pins E s =
     (Inr (map (\<lambda>(t, st). scaler_notify E ''manual_scale_pin_expired'' t [(''reason'', JStr ''ttl'')]) (filter (\<lambda>(t, st). pin_due E st) (scs_targets s))),
      s\<lparr>scs_targets := map (\<lambda>(t, st). (t, if pin_due E st then unpin st else st)) (scs_targets s)\<rparr>)"

text \<open>The edge of a noise window: entering one, or leaving one that was seen.\<close>

definition seen_of :: "string option \<Rightarrow> noise_seen" where
  "seen_of active = (case active of None \<Rightarrow> Outside | Some w \<Rightarrow> Inside w)"

definition noise_edge :: "pylib \<Rightarrow> scaler_env \<Rightarrow> string option \<Rightarrow> scaler_step" where
  "noise_edge L E active s =
     (if seen_of active = scs_noise_seen s then (Inr [], s)
      else
        (let s1 = s\<lparr>scs_noise_seen := seen_of active, scs_noise_notified := []\<rparr>;
             alert = \<lambda>edge verb cron. scaler_alert E ''scaler_noise_window_active'' ''info'' cron
               (''noise window '' @ edge @ '': '' @ verb @ '' cron='' @ pl_repr L (JStr cron) @ '' at '' @ sce_utc_iso E) s1 in
         case active of
           Some w \<Rightarrow> alert ''entry'' ''entered'' w
         | None \<Rightarrow> (case scs_noise_seen s of Inside w \<Rightarrow> alert ''exit'' ''exited'' w | _ \<Rightarrow> (Inr [], s1))))"

fun paused_notes :: "scaler_config \<Rightarrow> scaler_env \<Rightarrow> string list \<Rightarrow> scaler_step" where
  "paused_notes C E [] s = (Inr [], s)"
| "paused_notes C E (t # ts) s =
     (let s1 = evict_and_get C t s in
      and_then (throttle C E t (tgt_replicas (target_of t s1)) ''manual_pause'' [] [] s1) (paused_notes C E ts))"

definition roster_total :: "scaler_state \<Rightarrow> int" where
  "roster_total s = sum_list (map (\<lambda>(t, st). tgt_replicas st) (scs_targets s))"

definition decision_round ::
    "pylib \<Rightarrow> scaler_config \<Rightarrow> scaler_env \<Rightarrow> (string \<times> jobj) list \<Rightarrow> int \<Rightarrow> scaler_step" where
  "decision_round L C E signals shed s =
     (let active = active_noise_window (parse_noise_windows L (scc_noise C)) (sce_utc E) in
      and_then (expire_pins E s) (\<lambda>s1.
      and_then (noise_edge L E active s1) (\<lambda>s2.
        (let (r, (s3, _)) = tick_loads L C E shed active signals (s2, 0, roster_total s1) in (r, s3)))))"

text \<open>A pause that has just run out emits one event, also on a replica that does not lead.\<close>

definition idle_tick :: "scaler_config \<Rightarrow> scaler_env \<Rightarrow> (string \<times> jobj) list \<Rightarrow> scaler_step" where
  "idle_tick C E signals s =
     (let (expired, p) = expire_if_due (sce_ns E) (scs_pause s) in
      if expired then (Inr [notify_agent_event E ''maint_resumed''], s\<lparr>scs_pause := p\<rparr>)
      else if ps_paused (scs_pause s) \<and> sce_leader E then paused_notes C E (map fst signals) s
      else (Inr [], s))"

definition scaler_tick :: "pylib \<Rightarrow> scaler_config \<Rightarrow> scaler_env \<Rightarrow> (string \<times> jobj) list \<Rightarrow> int \<Rightarrow> scaler_step" where
  "scaler_tick L C E signals shed s =
     (if 3 \<le> shed then (Inr [], s)
      else if ps_paused (scs_pause s) \<or> ps_self_isolated (scs_pause s) \<or> \<not> sce_leader E then idle_tick C E signals s
      else decision_round L C E signals shed s)"

section \<open>Handlers\<close>

definition scaler_lag_events :: "scaler_config \<Rightarrow> scaler_env \<Rightarrow> message \<Rightarrow> scaler_state \<Rightarrow> emission list \<times> int \<times> scaler_state" where
  "scaler_lag_events C E msg s =
     (let now = of_int (sce_ns E) / 1000000000; raw = py_strip (en_created_at (msg_envelope msg));
          created = (if raw = [] then None else sce_from_iso E (if ends_with raw ''Z'' then butlast raw @ ''+00:00'' else raw));
          lag_s = (case created of None \<Rightarrow> 0 | Some t \<Rightarrow> max 0 (now - t));
          (entered, w) = sec_tick (scc_lag_ms C) (scc_lag_window_s C) now (sec_note_lag (scc_lag_window_s C) lag_s now (scs_sec_lag s)) in
      (map (\<lambda>tier. scaler_notify E ''maint_plane_throttled'' sec_alert_topic
          [(''tier'', JInt tier), (''lag_s'', JFloat lag_s), (''action'', JStr ''sec_plane_shed'')]) entered,
       sl_tier w, s\<lparr>scs_sec_lag := w\<rparr>))"

definition scaler_sec_alert :: "pylib \<Rightarrow> scaler_config \<Rightarrow> scaler_env \<Rightarrow> message \<Rightarrow> scaler_step" where
  "scaler_sec_alert L C E msg s =
     (if \<not> sce_leader E then (Inr [], s)
      else
        (let (events, tier, s1) = scaler_lag_events C E msg s; payload = msg_payload msg; subject = py_strip (str_or_empty L payload ''subject'') in
         if str_or_empty L payload ''kind'' \<noteq> ''scale_throttled'' \<or> str_or_empty L payload ''severity'' \<notin> {''warn'', ''error'', ''critical''}
         then (Inr events, s1)
         else if \<not> sp_consume_non_emergency (cross_plane_policy 0 tier) \<or> subject = [] then (Inr events, s1)
         else (Inr events, s1\<lparr>scs_feedback := od_trim (max_targets C) (od_touch subject (od_set subject () (scs_feedback s1)))\<rparr>)))"

definition pin_ttl :: "pylib \<Rightarrow> scaler_config \<Rightarrow> jobj \<Rightarrow> int res" where
  "pin_ttl L C payload =
     (let v = jget_or payload ''ttl_s'' JNull in
      res_bind (if py_bool v then py_int L v else Inr 0) (\<lambda>n. Inr (max 1 (min (if n = 0 then scc_pin_ttl_s C else n) 86400))))"

definition set_pin :: "pylib \<Rightarrow> scaler_config \<Rightarrow> scaler_env \<Rightarrow> message \<Rightarrow> string \<Rightarrow> string \<Rightarrow> int \<Rightarrow> scaler_step" where
  "set_pin L C E msg request_id target n s =
     (case pin_ttl L C (msg_payload msg) of
        Inl e \<Rightarrow> (Inl e, s)
      | Inr ttl_s \<Rightarrow>
          (let st = (target_of target s)\<lparr>tgt_pin := Some n, tgt_pin_until_ns := Some (sce_ns E + ttl_s * 1000000000)\<rparr>;
               (r, s1) = invoke_runtime L C E target n (put_target target st s) in
           case r of
             Inl e \<Rightarrow> (Inl e, s1)
           | Inr accepted \<Rightarrow>
               (let s2 = record_decision ''manual_pin'' (if accepted then ''applied'' else ''error'') (bump_counter ''scale_decision'' ''manual_pin'' s1);
                    s3 = put_target target (st\<lparr>tgt_replicas := n, tgt_decided_ns := sce_ns E\<rparr>) (s2\<lparr>scs_desired := od_set target n (scs_desired s2)\<rparr>) in
                (res_bind (scaler_ack E msg request_id True ''pin_set'' (Some [(''ttl_s'', JInt ttl_s)])) (\<lambda>ack.
                   Inr ([scaler_notify E ''scale_decision'' target
                      [(''replicas'', JInt n), (''prev'', JInt (tgt_replicas st)), (''next'', JInt n), (''reason'', JStr ''manual_pin''),
                       (''observed'', JObj [(''ttl_s'', JInt ttl_s)]), (''source'', JStr ''manual_pin''), (''controller'', JStr (scc_controller C)),
                       (''controller_accepted'', JBool accepted), (''decision_window_id'', JStr (decision_window C E))]] @ ack)), s3))))"

definition handle_pin :: "pylib \<Rightarrow> scaler_config \<Rightarrow> scaler_env \<Rightarrow> message \<Rightarrow> scaler_step" where
  "handle_pin L C E msg s =
     (let payload = msg_payload msg; request_id = str_or_empty L payload ''request_id''; target = str_or_empty L payload ''target'' in
      case py_int L (jget_or payload ''replicas'' JNull) of
        Inl _ \<Rightarrow> (scaler_ack E msg request_id False ''bad_replicas'' None, s)
      | Inr n \<Rightarrow>
          if request_id = [] \<or> target = [] then (Inr [], s)
          else if \<not> sce_leader E then (scaler_ack E msg request_id True ''leader_skip'' None, s)
          else
            (let s1 = evict_and_get C target s; st = target_of target s1 in
             if n = -1 then
               (res_bind (scaler_ack E msg request_id True ''pin_cleared'' None) (\<lambda>ack.
                  Inr ((if tgt_pin st = None then [] else [scaler_notify E ''manual_scale_pin_expired'' target [(''reason'', JStr ''operator_cancel'')]]) @ ack)),
                put_target target (unpin st) s1)
             else set_pin L C E msg request_id target n s1))"

definition scaler_pause_ttl :: "pylib \<Rightarrow> scaler_config \<Rightarrow> jobj \<Rightarrow> int res" where
  "scaler_pause_ttl L C payload =
     (let v = jget_or payload ''ttl_s'' JNull in
      res_bind (if py_bool v then py_int L v else Inr 0) (\<lambda>n. Inr (if n = 0 then scc_pause_ttl_s C else n)))"

definition answer_scaler_pause :: "scaler_env \<Rightarrow> message \<Rightarrow> string \<Rightarrow> pause_ack \<times> pause_state \<Rightarrow> scaler_step" where
  "answer_scaler_pause E msg request_id = (\<lambda>(ack, p) s.
     (scaler_ack E msg request_id (pa_accepted ack) (pa_reason ack)
        (case pa_deadline_ns ack of
           Some d \<Rightarrow> if d = 0 then None else Some [(''ttl_s'', JInt ((d - sce_ns E) div 1000000000))] | None \<Rightarrow> None),
      s\<lparr>scs_pause := p\<rparr>))"

definition handle_scaler_pause :: "pylib \<Rightarrow> scaler_config \<Rightarrow> scaler_env \<Rightarrow> message \<Rightarrow> bool \<Rightarrow> scaler_step" where
  "handle_scaler_pause L C E msg paused s =
     (let payload = msg_payload msg; request_id = str_or_empty L payload ''request_id'' in
      if request_id = [] then (Inr [], s)
      else if str_or_empty L payload ''target'' \<notin> {''all'', scaler_name} then (scaler_ack E msg request_id True ''not_targeted'' None, s)
      else
        (let s1 = s\<lparr>scs_pause := snd (expire_if_due (sce_ns E) (scs_pause s))\<rparr> in
         if paused then
           (case scaler_pause_ttl L C payload of
              Inl e \<Rightarrow> (Inl e, s1)
            | Inr ttl \<Rightarrow> answer_scaler_pause E msg request_id (apply_pause ttl (sce_ns E) (scs_pause s1)) s1)
         else answer_scaler_pause E msg request_id (apply_resume (scs_pause s1)) s1))"

definition handle_retrain :: "pylib \<Rightarrow> scaler_config \<Rightarrow> scaler_env \<Rightarrow> message \<Rightarrow> scaler_step" where
  "handle_retrain L C E msg s =
     (let payload = msg_payload msg; key = en_message_id (msg_envelope msg) @ '':trainer.v1'' in
      if str_or_empty L payload ''target'' = [] \<or> \<not> sce_leader E \<or> key \<in> fst ` set (scs_warmups s) then (Inr [], s)
      else
        (Inr [scaler_notify E ''trainer_warmup_hint'' ''trainer.v1''
           [(''retrain_request_id'', JStr (text_field_or L payload ''request_id'' (en_message_id (msg_envelope msg)))),
            (''projected_window_s'', JFloat (of_int (max 1 (scc_window_ms C)) / 1000))]],
         s\<lparr>scs_warmups := od_trim 1024 (od_set key () (scs_warmups s))\<rparr>))"

definition register_hint :: "string \<Rightarrow> footprint \<Rightarrow> scaler_state \<Rightarrow> scaler_state" where
  "register_hint target f s =
     s\<lparr>scs_hints := od_set target f (scs_hints s), scs_unknown_footprints := removeAll target (scs_unknown_footprints s)\<rparr>"

definition register_model_vram_hint :: "string \<Rightarrow> real \<Rightarrow> string \<Rightarrow> scaler_state \<Rightarrow> scaler_state" where
  "register_model_vram_hint target mb device_class = register_hint target \<lparr>fp_mb = max 0 mb, fp_class = device_class\<rparr>"

definition handle_models_event :: "pylib \<Rightarrow> message \<Rightarrow> scaler_step" where
  "handle_models_event L msg s =
     (let payload = msg_payload msg; agent = py_strip (str_or_empty L payload ''agent_id''); version = py_strip (str_or_empty L payload ''version'') in
      if jget_or payload ''kind'' JNull \<noteq> JStr ''model_registered'' then (Inr [], s)
      else
        (case res_bind (jget payload ''vram_footprint_mb'') (py_float L) of
           Inl e \<Rightarrow> (if e \<in> {KeyError, TypeError, ValueError} then Inr [] else Inl e, s)
         | Inr mb \<Rightarrow>
             if agent = [] \<or> version = [] then (Inr [], s)
             else
               (let f = \<lparr>fp_mb = max 0 mb, fp_class = py_strip (text_field_or L payload ''device_class'' ''gpu_inference'')\<rparr>;
                    known = (case map_of (scs_versions s) agent of None \<Rightarrow> [] | Some vs \<Rightarrow> vs) in
                (Inr [], register_hint agent f (s\<lparr>scs_versions := od_set agent (od_set version f known) (scs_versions s)\<rparr>)))))"

definition set_active_model_version :: "string \<Rightarrow> string \<Rightarrow> scaler_state \<Rightarrow> bool \<times> scaler_state" where
  "set_active_model_version agent version s =
     (case map_of (case map_of (scs_versions s) agent of None \<Rightarrow> [] | Some vs \<Rightarrow> vs) version of
        None \<Rightarrow> (False, s)
      | Some f \<Rightarrow> (True, register_hint agent f s))"

text \<open>A missing time is the clock, a missing host the target.\<close>

definition update_device_probe ::
    "scaler_config \<Rightarrow> scaler_env \<Rightarrow> string \<Rightarrow> real \<Rightarrow> real \<Rightarrow> real \<Rightarrow> int option \<Rightarrow> string option \<Rightarrow> scaler_state \<Rightarrow> scaler_state" where
  "update_device_probe C E target total_mb used_mb per_replica_mb observed_ns host s =
     (let label = (case host of None \<Rightarrow> target | Some h \<Rightarrow> h) in
      s\<lparr>scs_probes := od_set target \<lparr>dp_total_mb = total_mb, dp_used_mb = used_mb, dp_per_replica_mb = per_replica_mb,
           dp_observed_ns = (case observed_ns of None \<Rightarrow> sce_ns E | Some t \<Rightarrow> t), dp_host = label\<rparr> (scs_probes s),
        scs_vram_budget := od_set label (vram_budget C total_mb) (scs_vram_budget s)\<rparr>)"

definition refuse_scaler_command :: "pylib \<Rightarrow> scaler_env \<Rightarrow> message \<Rightarrow> string \<Rightarrow> string \<Rightarrow> scaler_step" where
  "refuse_scaler_command L E msg reason kind s =
     and_then (scaler_ack E msg (text_field_or L (msg_payload msg) ''request_id'' (en_message_id (msg_envelope msg))) False reason None, s)
       (scaler_alert E kind ''critical'' (text_field_or L (msg_payload msg) ''op_key_id'' ''unknown'') reason)"

text \<open>A kind that cannot be hashed raises in the look-up of the known kinds.\<close>

definition scaler_command :: "pylib \<Rightarrow> scaler_config \<Rightarrow> scaler_env \<Rightarrow> message \<Rightarrow> scaler_step" where
  "scaler_command L C E msg s =
     (let kind = jget_or (msg_payload msg) ''kind'' JNull in
      if kind = JStr ''manual_scale_pin'' then handle_pin L C E msg s
      else if kind = JStr ''maint_pause'' then handle_scaler_pause L C E msg True s
      else if kind = JStr ''maint_resume'' then handle_scaler_pause L C E msg False s
      else if kind = JStr ''retrain_request'' then handle_retrain L C E msg s
      else if \<not> py_bool kind then (Inr [], s)
      else if \<not> hashable kind then (Inl TypeError, s)
      else if kind \<in> JStr ` set known_maint_event_kinds \<or> key_value kind \<in> set (scs_unknown_kinds s) then (Inr [], s)
      else (Inr [notify_unknown_kind E (py_str L kind)], s\<lparr>scs_unknown_kinds := key_value kind # scs_unknown_kinds s\<rparr>))"

definition scaler_handle :: "pylib \<Rightarrow> scaler_config \<Rightarrow> scaler_env \<Rightarrow> message \<Rightarrow> scaler_step" where
  "scaler_handle L C E msg s =
     (let topic = en_topic (msg_envelope msg) in
      if topic = sec_alert_topic then scaler_sec_alert L C E msg s
      else if topic = model_trained_topic then handle_models_event L msg s
      else if topic \<noteq> maint_event_topic then (Inr [], s)
      else
        (case gate_op_envelope (sce_op_lib E) L (scc_op C) (sce_op_files E) (sce_op_clocks E) (msg_payload msg) (scs_op s) of
           (Inl e, p) \<Rightarrow> (Inl e, s\<lparr>scs_op := p\<rparr>)
         | (Inr (Refused_by reason kind), p) \<Rightarrow> refuse_scaler_command L E msg reason kind (s\<lparr>scs_op := p\<rparr>)
         | (Inr Passed, p) \<Rightarrow> scaler_command L C E msg (s\<lparr>scs_op := p\<rparr>)))"

section \<open>Registered agents\<close>

fun orphan_alerts :: "pylib \<Rightarrow> scaler_env \<Rightarrow> string list \<Rightarrow> string list \<Rightarrow> scaler_step" where
  "orphan_alerts L E registered [] s = (Inr [], s)"
| "orphan_alerts L E registered (k # ks) s =
     and_then
       (if k \<in> set registered \<or> k \<in> set (scs_orphans s) then (Inr [], s)
        else scaler_alert E ''maint_scaler_orphan_cfg'' ''info'' k
          (''cfg.maint_scaler_max_replicas_overrides_csv has entry for '' @ pl_repr L (JStr k) @
           '' but no live agent of that name is registered; entry is ignored. Remove the cfg entry after the agent has been retired.'')
          (s\<lparr>scs_orphans := k # scs_orphans s\<rparr>))
       (orphan_alerts L E registered ks)"

fun forbidden_alerts :: "pylib \<Rightarrow> scaler_env \<Rightarrow> string list \<Rightarrow> string list \<Rightarrow> scaler_step" where
  "forbidden_alerts L E registered [] s = (Inr [], s)"
| "forbidden_alerts L E registered (k # ks) s =
     and_then
       (if k \<in> set registered \<or> k \<in> set (scs_forbidden s) then (Inr [], s)
        else scaler_alert E ''scaler_target_forbidden'' ''warn'' k
          (''cfg.maint_scaler_self_scaling_targets has entry for '' @ pl_repr L (JStr k) @
           '' but no live agent of that name is registered; entry may be stale. Remove the cfg entry after the agent has been retired.'')
          (s\<lparr>scs_forbidden := k # scs_forbidden s\<rparr>))
       (forbidden_alerts L E registered ks)"

definition report_registered_agents :: "pylib \<Rightarrow> scaler_config \<Rightarrow> scaler_env \<Rightarrow> string list \<Rightarrow> scaler_step" where
  "report_registered_agents L C E names s =
     and_then (orphan_alerts L E names (sort (map fst (parse_overrides_csv L (scc_overrides_csv C)))) s)
       (forbidden_alerts L E names (sort (self_scaling_targets C)))"

section \<open>What a tick decides\<close>

text \<open>An automatic decision among the messages: target, replicas before and after.\<close>

definition auto_move :: "emission \<Rightarrow> (string \<times> int \<times> int) option" where
  "auto_move e =
     (if em_topic e = maint_event_topic \<and> jget_or (em_payload e) ''kind'' JNull = JStr ''scale_decision'' \<and>
         jget_or (em_payload e) ''source'' JNull = JStr ''auto''
      then (case (jget_or (em_payload e) ''target'' JNull, jget_or (em_payload e) ''prev'' JNull, jget_or (em_payload e) ''next'' JNull) of
              (JStr t, JInt a, JInt b) \<Rightarrow> Some (t, a, b)
            | _ \<Rightarrow> None)
      else None)"

definition moves_of :: "emission list res \<times> 's \<Rightarrow> (string \<times> int \<times> int) list" where
  "moves_of r = (case fst r of Inl _ \<Rightarrow> [] | Inr out \<Rightarrow> List.map_filter auto_move out)"

lemma moves_of_simps [simp]:
  "moves_of (Inl e, s) = []" "moves_of (Inr out, s) = List.map_filter auto_move out"
  by (simp_all add: moves_of_def)

lemma auto_move_notify [simp]: "kind \<noteq> ''scale_decision'' \<Longrightarrow> auto_move (scaler_notify E kind target extra) = None"
  by (simp add: auto_move_def scaler_notify_def scaler_event_def jget_or_def)

lemma auto_move_agent [simp]: "kind \<noteq> ''scale_decision'' \<Longrightarrow> auto_move (notify_agent_event E kind) = None"
  by (simp add: auto_move_def notify_agent_event_def scaler_event_def jget_or_def)

text \<open>A step without a decision that leaves the table of targets alone.\<close>

abbreviation calm :: "(string, target_state) odict \<Rightarrow> emission list res \<times> scaler_state \<Rightarrow> bool" where
  "calm tbl \<equiv> keeps (\<lambda>e. auto_move e = None) (\<lambda>s. scs_targets s = tbl)"

abbreviation calm_tick :: "(string, target_state) odict \<Rightarrow> emission list res \<times> tick_state \<Rightarrow> bool" where
  "calm_tick tbl \<equiv> keeps (\<lambda>e. auto_move e = None) (\<lambda>ts. scs_targets (fst ts) = tbl)"

lemma calm_lift: "calm tbl (f (fst ts)) \<Longrightarrow> calm_tick tbl (lift_step f ts)"
  by (cases ts; cases "f (fst ts)") (auto simp: lift_step_def keeps_def split: sum.splits)

lemma calm_alert [simp]: "scs_targets s = tbl \<Longrightarrow> calm tbl (scaler_alert E kind severity subject reason s)"
  by (simp add: scaler_alert_def auto_move_def topic_defs)

lemma calm_throttle [simp]: "scs_targets s = tbl \<Longrightarrow> calm tbl (throttle C E target would_be reason mid rest s)"
  by (simp add: throttle_def record_decision_def bump_counter_def)

lemma calm_unconfigured: "scs_targets s = tbl \<Longrightarrow> calm tbl (unconfigured_alerts L C E target s)"
  by (auto simp: unconfigured_alerts_def Let_def intro!: step_rules)

lemma calm_self_scaling: "scs_targets s = tbl \<Longrightarrow> calm tbl (self_scaling_step L C E target s)"
  by (auto simp: self_scaling_step_def intro!: step_rules)

lemma calm_noise_hold: "scs_targets s = tbl \<Longrightarrow> calm tbl (noise_hold C E w target n s)"
  by (auto simp: noise_hold_def)

lemma calm_unknown: "scs_targets s = tbl \<Longrightarrow> calm tbl (unknown_footprint_alert E target unknown s)"
  by (auto simp: unknown_footprint_alert_def)

lemma calm_noise_edge: "scs_targets s = tbl \<Longrightarrow> calm tbl (noise_edge L E active s)"
  by (auto simp: noise_edge_def Let_def split: option.splits noise_seen.splits)

lemma map_filter_none: "\<forall>e \<in> set out. f e = None \<Longrightarrow> List.map_filter f out = []"
  by (induction out) (auto simp: List.map_filter_simps)

lemma calm_moves: "keeps (\<lambda>e. auto_move e = None) Q r \<Longrightarrow> moves_of r = []"
  by (auto simp: keeps_def moves_of_def map_filter_none split: sum.splits)

lemma map_filter_append: "List.map_filter f (xs @ ys) = List.map_filter f xs @ List.map_filter f ys"
  by (induction xs) (auto simp: List.map_filter_simps split: option.splits)

text \<open>Messages of a later step are lost when an exception follows, but not the state.\<close>

lemma moves_and_then:
  "moves_of (and_then r f) =
     (case r of (Inl e, s) \<Rightarrow> [] | (Inr out, s) \<Rightarrow> (case fst (f s) of Inl e \<Rightarrow> [] | Inr out' \<Rightarrow> moves_of r @ moves_of (f s)))"
  by (auto simp: and_then_def moves_of_def map_filter_append split: prod.splits sum.splits)

lemma snd_and_then: "snd (and_then r f) = (case r of (Inl e, s) \<Rightarrow> s | (Inr out, s) \<Rightarrow> snd (f s))"
  by (auto simp: and_then_def split: prod.splits sum.splits)

text \<open>Between the guards and the end of a target: nothing, or one decision that is entered in the table.\<close>

definition decided ::
    "scaler_config \<Rightarrow> scaler_env \<Rightarrow> string \<Rightarrow> int \<Rightarrow> (string, target_state) odict \<Rightarrow> emission list res \<times> tick_state \<Rightarrow> bool" where
  "decided C E target n tbl r \<longleftrightarrow>
     (let st = (case map_of tbl target of None \<Rightarrow> new_target | Some st \<Rightarrow> st) in
      moves_of r = [] \<and> scs_targets (fst (snd r)) = tbl \<or>
      moves_of r = [(target, tgt_replicas st, n)] \<and> scs_targets (fst (snd r)) = od_set target (apply_move st n (anchor_of C E) (sce_ns E)) tbl)"

lemma calm_decided: "calm_tick tbl r \<Longrightarrow> decided C E target n tbl r"
  using calm_moves [of _ r] by (auto simp: decided_def keeps_def)

lemma decided_and_then:
  assumes "calm_tick tbl r" "\<And>ts. scs_targets (fst ts) = tbl \<Longrightarrow> decided C E target n tbl (f ts)"
  shows "decided C E target n tbl (and_then r f)"
proof (cases "fst r")
  case (Inl e)
  then have "and_then r f = r" by (auto simp: and_then_def split: prod.splits)
  with calm_decided [OF assms(1)] show ?thesis by simp
next
  case (Inr out)
  obtain ts where r: "r = (Inr out, ts)" using Inr by (cases r) simp
  have d: "decided C E target n tbl (f ts)" "moves_of r = []"
    using assms(1) assms(2) [of ts] calm_moves [OF assms(1)] by (simp_all add: r)
  have "moves_of (and_then r f) = moves_of (f ts)"
    using d(2) by (cases "f ts"; cases "fst (f ts)") (auto simp: r and_then_def map_filter_append)
  moreover have "snd (and_then r f) = snd (f ts)" by (simp add: r snd_and_then)
  ultimately show ?thesis using d(1) by (simp add: decided_def)
qed

lemma invoke_targets: "invoke_runtime L C E target n s = (r, s1) \<Longrightarrow> scs_targets s1 = scs_targets s"
  by (auto simp: invoke_runtime_def Let_def)

lemma decided_commit:
  assumes "scs_targets (fst ts) = tbl"
  shows "decided C E target n tbl (commit_move L C E target signals n ts)"
proof -
  obtain s k m where ts: "ts = (s, k, m)" by (cases ts) auto
  obtain r s1 where r: "invoke_runtime L C E target n s = (r, s1)" by fastforce
  have t: "target_of target s = (case map_of tbl target of None \<Rightarrow> new_target | Some st \<Rightarrow> st)"
    using assms by (simp add: target_of_def ts)
  show ?thesis
    using assms invoke_targets [OF r]
    by (auto simp: commit_move_def ts r t decided_def Let_def put_target_def remember_decision_def record_decision_def bump_counter_def auto_move_def
        scaler_notify_def scaler_event_def jget_or_def List.map_filter_simps split: sum.splits)
qed

lemma decided_last:
  assumes "scs_targets (fst ts) = tbl"
  shows "decided C E target n tbl (last_guards L C E active target signals n ts)"
  using assms by (auto simp: last_guards_def intro!: calm_decided calm_lift calm_noise_hold decided_commit split: option.splits)

lemma check_budget_targets: "check_vram_budget C E target n s = (r, u, s1) \<Longrightarrow> scs_targets s1 = scs_targets s"
  by (auto simp: check_vram_budget_def check_gpu_budget_def Let_def split: option.splits if_splits)

lemma decided_budget:
  assumes "scs_targets (fst ts) = tbl"
  shows "decided C E target n tbl (budget_guard L C E active target signals n ts)"
proof (cases "tgt_replicas (target_of target (fst ts)) < n")
  case True
  obtain r u s1 where b: "check_vram_budget C E target n (fst ts) = (r, u, s1)" by (metis prod_cases3)
  have s1: "scs_targets s1 = tbl" using check_budget_targets [OF b] assms by simp
  have c: "calm_tick tbl (lift_step (unknown_footprint_alert E target u) (s1, snd ts))"
    by (rule calm_lift) (simp add: calm_unknown s1)
  have "decided C E target n tbl (case r of Some reason \<Rightarrow> lift_step (throttle C E target n reason [] []) ts'
      | None \<Rightarrow> last_guards L C E active target signals n ts')" if "scs_targets (fst ts') = tbl" for ts'
    using that by (auto intro!: calm_decided calm_lift decided_last split: option.split)
  from decided_and_then [OF c this] show ?thesis using True by (simp add: budget_guard_def b)
next
  case False
  then show ?thesis using decided_last [OF assms] by (simp add: budget_guard_def)
qed

lemma decided_move:
  assumes "scs_targets (fst ts) = tbl"
  shows "decided C E target n tbl (move_target L C E shed active target signals n ts)"
  using assms by (auto simp: move_target_def Let_def intro!: calm_decided calm_lift decided_budget)

text \<open>The fields of a target that only a decision changes.\<close>

definition still :: "target_state \<Rightarrow> target_state \<Rightarrow> bool" where
  "still st st' \<longleftrightarrow> tgt_window_ns st' = tgt_window_ns st \<and> tgt_replicas st' = tgt_replicas st \<and> tgt_history st' = tgt_history st \<and> tgt_pin st' = tgt_pin st"

lemma still_refl [simp]: "still st st"
  by (simp add: still_def)

lemma still_if: "(c \<Longrightarrow> still st (snd a)) \<Longrightarrow> (\<not> c \<Longrightarrow> still st (snd b)) \<Longrightarrow> still st (snd (if c then a else b))"
  by simp

lemma decide_still: "still st (snd (decide_target L C target st signals))"
proof (rule decide_target_cases)
  show "still st (snd (decide_view L C target (st\<lparr>tgt_signals := sk\<rparr>) view))" for sk view
    unfolding decide_view_def Let_def by (intro still_if) (simp_all add: still_def)
qed (simp add: still_def)

text \<open>What a target that is asked for its load does: nothing visible, or one decision of its own.\<close>

definition step_of ::
    "pylib \<Rightarrow> scaler_config \<Rightarrow> scaler_env \<Rightarrow> string \<Rightarrow> jobj \<Rightarrow> target_state \<Rightarrow> target_state \<Rightarrow> (string \<times> int \<times> int) list \<Rightarrow> bool" where
  "step_of L C E target signals st st' moves \<longleftrightarrow>
     moves = [] \<and> still st st' \<or>
     (\<exists>n st1. moves = [(target, tgt_replicas st, n)] \<and> decide_target L C target st signals = (Move n, st1) \<and> tgt_window_ns st < anchor_of C E \<and>
        tgt_pin st = None \<and> st' = apply_move st1 n (anchor_of C E) (sce_ns E))"

lemma step_of_idle [simp]: "step_of L C E target signals st st []"
  by (simp add: step_of_def)

lemma target_of_put: "target_of t (put_target target st s) = (if t = target then st else target_of t s)"
  by (simp add: target_of_def put_target_def od_simps)

lemma target_of_table: "scs_targets s = tbl \<Longrightarrow> target_of t s = (case map_of tbl t of None \<Rightarrow> new_target | Some st \<Rightarrow> st)"
  by (simp add: target_of_def)

lemma load_step_cases:
  fixes L :: pylib and C :: scaler_config and E :: scaler_env and s :: scaler_state and target :: string and k :: "nat \<times> int" and shed :: int
    and active :: "string option" and signals :: jobj
  defines "s1 \<equiv> evict_and_get C target s"
  defines "r \<equiv> load_step L C E shed active target signals (s, k)"
  shows "step_of L C E target signals (target_of target s1) (target_of target (fst (snd r))) (moves_of r) \<and>
    (\<forall>t. t \<noteq> target \<longrightarrow> target_of t (fst (snd r)) = target_of t s1) \<and> fst ` set (scs_targets (fst (snd r))) \<subseteq> insert target (fst ` set (scs_targets s1)) \<and>
    (od_wf (scs_targets s1) \<longrightarrow> od_wf (scs_targets (fst (snd r))))"
proof -
  let ?st = "target_of target s1"
  let ?goal = "\<lambda>r. step_of L C E target signals ?st (target_of target (fst (snd r))) (moves_of r) \<and>
    (\<forall>t. t \<noteq> target \<longrightarrow> target_of t (fst (snd r)) = target_of t s1) \<and> fst ` set (scs_targets (fst (snd r))) \<subseteq> insert target (fst ` set (scs_targets s1)) \<and>
    (od_wf (scs_targets s1) \<longrightarrow> od_wf (scs_targets (fst (snd r))))"
  have calm_goal: "?goal r" if "calm_tick (scs_targets (put_target target st1 s1)) r" "still ?st st1" for st1 and r :: "emission list res \<times> tick_state"
  proof -
    have m: "moves_of r = []" using calm_moves [OF that(1)] .
    have tb: "scs_targets (fst (snd r)) = od_set target st1 (scs_targets s1)" using that(1) by (simp add: keeps_def put_target_def)
    then have "target_of t (fst (snd r)) = (if t = target then st1 else target_of t s1)" for t
      by (simp add: target_of_def od_simps)
    with m tb that(2) show ?thesis by (auto simp: step_of_def od_simps)
  qed
  have idle: "?goal r" if "calm_tick (scs_targets s1) r" for r :: "emission list res \<times> tick_state"
  proof -
    have "moves_of r = []" "scs_targets (fst (snd r)) = scs_targets s1" using calm_moves [OF that] that by (simp_all add: keeps_def)
    then show ?thesis by (auto simp: step_of_def target_of_def)
  qed
  show ?thesis
  proof (cases "anchor_of C E \<le> tgt_window_ns ?st \<or> tgt_pin ?st \<noteq> None")
    case True
    then show ?thesis
      unfolding r_def load_step_def s1_def [symmetric] Let_def case_prod_conv
      by (auto intro!: idle calm_lift split: option.splits)
  next
    case False
    obtain v st1 where d: "decide_target L C target ?st signals = (v, st1)" by fastforce
    have still: "still ?st st1" using decide_still [of ?st L C target signals] by (simp add: d)
    let ?s2 = "put_target target st1 s1"
    have eq: "r = (case v of Hold \<Rightarrow> (Inr [], ?s2, k)
        | Throttled reason \<Rightarrow> lift_step (throttle C E target (tgt_replicas st1) reason []
            (if reason = ''max_replicas_cap'' then [(''max_replicas'', JInt (max_replicas_for L C target))] else [])) (?s2, k)
        | Move n \<Rightarrow> move_target L C E shed active target signals n (?s2, k)
        | Raised e \<Rightarrow> (Inl e, ?s2, k))"
      using False unfolding r_def load_step_def s1_def [symmetric] Let_def case_prod_conv by (simp add: d)
    show ?thesis
    proof (cases v)
      case Hold
      have "r = (Inr [], ?s2, k)" using eq by (simp add: Hold)
      then show ?thesis by (simp only:) (rule calm_goal [OF _ still], simp)
    next
      case (Raised e)
      have "r = (Inl e, ?s2, k)" using eq by (simp add: Raised)
      then show ?thesis by (simp only:) (rule calm_goal [OF _ still], simp)
    next
      case (Throttled reason)
      show ?thesis unfolding eq Throttled scale_verdict.case
        by (rule calm_goal [OF calm_lift still]) simp
    next
      case (Move n)
      have dd: "decided C E target n (scs_targets ?s2) r" unfolding eq Move by (simp add: decided_move)
      have st1: "(case map_of (scs_targets ?s2) target of None \<Rightarrow> new_target | Some st \<Rightarrow> st) = st1"
        by (simp add: put_target_def od_simps)
      have tbl: "scs_targets ?s2 = od_set target st1 (scs_targets s1)" by (simp add: put_target_def)
      from dd [unfolded decided_def st1 Let_def] show ?thesis
      proof (elim disjE conjE)
        assume m: "moves_of r = []" and t: "scs_targets (fst (snd r)) = scs_targets ?s2"
        have "target_of t (fst (snd r)) = (if t = target then st1 else target_of t s1)" for t
          using t tbl by (simp add: target_of_def od_simps)
        with m t tbl still show ?thesis by (auto simp: step_of_def od_simps)
      next
        assume m: "moves_of r = [(target, tgt_replicas st1, n)]"
          and t: "scs_targets (fst (snd r)) = od_set target (apply_move st1 n (anchor_of C E) (sce_ns E)) (scs_targets ?s2)"
        have "target_of t (fst (snd r)) = (if t = target then apply_move st1 n (anchor_of C E) (sce_ns E) else target_of t s1)" for t
          using t tbl by (simp add: target_of_def od_simps)
        moreover have "tgt_replicas st1 = tgt_replicas ?st" using still by (simp add: still_def)
        ultimately show ?thesis using m t tbl d Move False by (auto simp: step_of_def od_simps)
      qed
    qed
  qed
qed

text \<open>The size of a decision, and its place between the two bounds.\<close>

definition bounded_move :: "pylib \<Rightarrow> scaler_config \<Rightarrow> string \<times> int \<times> int \<Rightarrow> bool" where
  "bounded_move L C = (\<lambda>(t, p, n). t \<notin> set (self_scaling_targets C) \<and>
     (p < n \<and> n \<le> max_replicas_for L C t \<and> n \<le> p + max_step C \<or> n < p \<and> min_replicas C \<le> n \<and> p - max_step C \<le> n))"

definition verdict_within :: "int \<Rightarrow> int \<Rightarrow> int \<Rightarrow> int \<Rightarrow> scale_verdict \<Rightarrow> bool" where
  "verdict_within lo hi step cur v =
     (case v of Move n \<Rightarrow> cur < n \<and> n \<le> hi \<and> n \<le> cur + step \<or> n < cur \<and> lo \<le> n \<and> cur - step \<le> n | _ \<Rightarrow> True)"

lemma verdict_if:
  "(c \<Longrightarrow> verdict_within lo hi step cur (fst a)) \<Longrightarrow> (\<not> c \<Longrightarrow> verdict_within lo hi step cur (fst b)) \<Longrightarrow>
   verdict_within lo hi step cur (fst (if c then a else b))"
  by simp

lemma step_size:
  "1 \<le> (if b then min (max_step C) (max 1 x) else 1) \<and> (if b then min (max_step C) (max 1 (x :: int)) else 1) \<le> max_step C"
  by (simp add: max_step_def)

lemma verdict_up:
  "\<not> hi \<le> cur \<Longrightarrow> verdict_within lo hi (max_step C) cur
     (fst (if h then Move (min hi (cur + (if b then min (max_step C) (max 1 x) else 1))) else Throttled reason, st))"
proof (cases h)
  case True
  assume "\<not> hi \<le> cur"
  then have "cur < min hi (cur + k) \<and> min hi (cur + k) \<le> hi \<and> min hi (cur + k) \<le> cur + max_step C" if "1 \<le> k \<and> k \<le> max_step C" for k
    using that by linarith
  from this [OF step_size] True show ?thesis by (simp add: verdict_within_def)
qed (simp add: verdict_within_def)

lemma verdict_down:
  "\<not> cur \<le> lo \<Longrightarrow> verdict_within lo hi (max_step C) cur
     (fst (if h then Move (max lo (cur - (if b then min (max_step C) (max 1 x) else 1))) else Throttled reason, st))"
proof (cases h)
  case True
  assume "\<not> cur \<le> lo"
  then have "max lo (cur - k) < cur \<and> lo \<le> max lo (cur - k) \<and> cur - max_step C \<le> max lo (cur - k)" if "1 \<le> k \<and> k \<le> max_step C" for k
    using that by linarith
  from this [OF step_size] True show ?thesis by (simp add: verdict_within_def)
qed (simp add: verdict_within_def)

lemma decide_within:
  "verdict_within (min_replicas C) (max_replicas_for L C target) (max_step C) (tgt_replicas st) (fst (decide_target L C target st signals))"
proof -
  have simple: "verdict_within lo hi step cur (fst (Throttled reason, st'))" "verdict_within lo hi step cur (fst (Hold, st'))"
    for lo hi step cur reason and st' :: target_state
    by (simp_all add: verdict_within_def)
  have same: "tgt_replicas (st\<lparr>tgt_signals := x\<rparr>) = tgt_replicas st" for x
    by simp
  show ?thesis
  proof (rule decide_target_cases)
    show "verdict_within (min_replicas C) (max_replicas_for L C target) (max_step C) (tgt_replicas st)
        (fst (decide_view L C target (st\<lparr>tgt_signals := sk\<rparr>) view))" for sk view
      unfolding decide_view_def Let_def same
      by (intro verdict_if) (rule simple verdict_up verdict_down; assumption?)+
  qed (simp add: verdict_within_def)
qed

lemma decide_bounds:
  "decide_target L C target st signals = (Move n, st') \<Longrightarrow>
   tgt_replicas st < n \<and> n \<le> max_replicas_for L C target \<and> n \<le> tgt_replicas st + max_step C \<or>
   n < tgt_replicas st \<and> min_replicas C \<le> n \<and> tgt_replicas st - max_step C \<le> n"
  using decide_within [of C L target st signals] by (simp add: verdict_within_def)

lemma moves_and_then_subset: "set (moves_of (and_then r f)) \<subseteq> set (moves_of r) \<union> set (moves_of (f (snd r)))"
  by (cases r; cases "fst r") (auto simp: moves_and_then split: sum.splits)

lemma load_step_bounded:
  assumes "target \<notin> set (self_scaling_targets C)"
  shows "\<forall>m \<in> set (moves_of (load_step L C E shed active target signals ts)). bounded_move L C m"
proof -
  obtain s k where ts: "ts = (s, k)" by (cases ts)
  have "step_of L C E target signals (target_of target (evict_and_get C target s))
      (target_of target (fst (snd (load_step L C E shed active target signals (s, k)))))
      (moves_of (load_step L C E shed active target signals (s, k)))"
    using load_step_cases by blast
  then show ?thesis
    using assms by (auto simp: ts step_of_def bounded_move_def dest: decide_bounds)
qed

lemma tick_target_bounded: "\<forall>m \<in> set (moves_of (tick_target L C E shed active x ts)). bounded_move L C m"
proof -
  have a: "moves_of (lift_step (unconfigured_alerts L C E (fst x)) ts) = []"
    by (rule calm_moves [OF calm_lift [OF calm_unconfigured]]) simp
  have b: "moves_of (lift_step (self_scaling_step L C E (fst x)) ts') = []" for ts'
    by (rule calm_moves [OF calm_lift [OF calm_self_scaling]]) simp
  have c: "\<forall>m \<in> set (moves_of (if fst x \<in> set (self_scaling_targets C) then lift_step (self_scaling_step L C E (fst x)) ts'
      else load_step L C E shed active (fst x) (snd x) ts')). bounded_move L C m" for ts'
    using load_step_bounded [of "fst x"] by (simp add: b)
  show ?thesis
    unfolding tick_target_def
    using moves_and_then_subset [of "lift_step (unconfigured_alerts L C E (fst x)) ts"] a c by fastforce
qed

lemma tick_loads_bounded: "\<forall>m \<in> set (moves_of (tick_loads L C E shed active xs ts)). bounded_move L C m"
proof (induction xs arbitrary: ts)
  case (Cons x xs)
  show ?case
    unfolding tick_loads.simps
    using moves_and_then_subset [of "tick_target L C E shed active x ts"] tick_target_bounded [of L C E shed active x ts] Cons.IH by blast
qed simp

lemma bounded_and_then:
  "\<forall>m \<in> set (moves_of r). bounded_move L C m \<Longrightarrow> \<forall>m \<in> set (moves_of (f (snd r))). bounded_move L C m \<Longrightarrow>
   \<forall>m \<in> set (moves_of (and_then r f)). bounded_move L C m"
  using moves_and_then_subset [of r f] by blast

lemma expire_moves: "moves_of (expire_pins E s) = []"
  by (auto simp: expire_pins_def intro!: map_filter_none)

lemma edge_moves: "moves_of (noise_edge L E active s) = []"
  by (rule calm_moves [OF calm_noise_edge]) simp

lemma moves_and_then_none: "moves_of r = [] \<Longrightarrow> moves_of (f (snd r)) = [] \<Longrightarrow> moves_of (and_then r f) = []"
  using moves_and_then_subset [of r f] by simp

lemma paused_moves: "moves_of (paused_notes C E ts s) = []"
proof (induction ts arbitrary: s)
  case (Cons t ts)
  show ?case
    unfolding paused_notes.simps Let_def
    by (rule moves_and_then_none [OF calm_moves [OF calm_throttle [OF refl]] Cons.IH])
qed simp

lemma idle_moves: "moves_of (idle_tick C E signals s) = []"
  by (auto simp: idle_tick_def paused_moves List.map_filter_simps split: prod.splits)

lemma round_result:
  "decision_round L C E signals shed s =
     and_then (expire_pins E s) (\<lambda>s1. and_then (noise_edge L E (active_noise_window (parse_noise_windows L (scc_noise C)) (sce_utc E)) s1) (\<lambda>s2.
       map_prod (\<lambda>r. r) fst (tick_loads L C E shed (active_noise_window (parse_noise_windows L (scc_noise C)) (sce_utc E)) signals (s2, 0, roster_total s1))))"
  by (simp add: decision_round_def Let_def split_beta map_prod_def)

lemma moves_map_prod [simp]: "moves_of (map_prod (\<lambda>r. r) g r) = moves_of r"
  by (simp add: moves_of_def)

text \<open>
  C0: An automatic decision of a tick concerns a target that the scaler may scale, moves it by at least one and at most \<open>max_step\<close>
  replicas, and ends inside the bounds: not above the target's maximum on the way up, not below the minimum on the way down.
\<close>

theorem decisions_bounded:
  "list_all (\<lambda>(t, p, n). t \<notin> set (self_scaling_targets C) \<and>
       (p < n \<and> n \<le> max_replicas_for L C t \<and> n \<le> p + max_step C \<or> n < p \<and> min_replicas C \<le> n \<and> p - max_step C \<le> n))
     (moves_of (scaler_tick L C E signals shed s))"
proof -
  let ?active = "active_noise_window (parse_noise_windows L (scc_noise C)) (sce_utc E)"
  have loads: "\<forall>m \<in> set (moves_of (map_prod (\<lambda>r. r) fst (tick_loads L C E shed ?active signals ts))). bounded_move L C m"
    for ts :: tick_state
    by (simp add: tick_loads_bounded)
  have "\<forall>m \<in> set (moves_of (decision_round L C E signals shed s)). bounded_move L C m"
    unfolding round_result by (intro bounded_and_then loads) (simp_all add: expire_moves edge_moves)
  then have "\<forall>m \<in> set (moves_of (scaler_tick L C E signals shed s)). bounded_move L C m"
    by (simp add: scaler_tick_def idle_moves)
  then show ?thesis by (simp add: bounded_move_def list_all_iff case_prod_beta)
qed

section \<open>Runs of ticks\<close>

text \<open>The table has room for every target that is ever asked for, so that none is forgotten.\<close>

definition roomy :: "scaler_config \<Rightarrow> string set \<Rightarrow> scaler_state \<Rightarrow> bool" where
  "roomy C K s \<longleftrightarrow> od_wf (scs_targets s) \<and> fst ` set (scs_targets s) \<subseteq> K \<and> finite K \<and> card K \<le> max_targets C"

lemma evict_roomy:
  assumes "roomy C K s" and "x \<in> K"
  shows "roomy C K (evict_and_get C x s)" and "target_of t (evict_and_get C x s) = target_of t s"
proof -
  have "roomy C K (evict_and_get C x s) \<and> target_of t (evict_and_get C x s) = target_of t s"
  proof (cases "map_of (scs_targets s) x")
    case None
    then have fresh: "x \<notin> fst ` set (scs_targets s)" by (simp add: map_of_eq_None_iff)
    have "fst ` set (scs_targets s) \<subset> K" using assms fresh by (auto simp: roomy_def)
    then have "card (fst ` set (scs_targets s)) < card K" using assms(1) by (intro psubset_card_mono) (auto simp: roomy_def)
    then have "length (scs_targets s) < card K"
      using assms(1) by (metis distinct_card length_map od_wf_def roomy_def set_map)
    then have room: "length (scs_targets s) < max_targets C" using assms(1) by (simp add: roomy_def)
    have "od_wf (scs_targets s @ [(x, new_target)])" using assms(1) fresh by (intro od_wf_snoc) (auto simp: roomy_def)
    moreover have "target_of t (s\<lparr>scs_targets := scs_targets s @ [(x, new_target)]\<rparr>) = target_of t s"
      using None by (simp add: target_of_def map_add_def split: option.split)
    ultimately show ?thesis using assms None room by (simp add: evict_and_get_def roomy_def)
  next
    case (Some st)
    then show ?thesis using assms by (auto simp: evict_and_get_def roomy_def target_of_def od_simps)
  qed
  then show "roomy C K (evict_and_get C x s)" and "target_of t (evict_and_get C x s) = target_of t s" by simp_all
qed

lemma roomy_table: "scs_targets s' = scs_targets s \<Longrightarrow> roomy C K s' = roomy C K s"
  by (simp add: roomy_def)

text \<open>The fields of a target that only a decision or a pin changes.\<close>

definition alike :: "target_state \<Rightarrow> target_state \<Rightarrow> bool" where
  "alike st st' \<longleftrightarrow> tgt_window_ns st' = tgt_window_ns st \<and> tgt_replicas st' = tgt_replicas st \<and> tgt_history st' = tgt_history st"

lemma alike_refl [simp]: "alike st st"
  by (simp add: alike_def)

lemma still_alike: "still st st' \<Longrightarrow> alike st st'"
  by (simp add: still_def alike_def)

definition own :: "string \<Rightarrow> emission list res \<times> 's \<Rightarrow> (string \<times> int \<times> int) list" where
  "own t r = filter (\<lambda>m. fst m = t) (moves_of r)"

lemma own_none [simp]: "moves_of r = [] \<Longrightarrow> own t r = []"
  by (simp add: own_def)

lemma own_map_prod [simp]: "own t (map_prod (\<lambda>r. r) g r) = own t r"
  by (simp add: own_def)

lemma own_and_then:
  "own t (and_then r f) = own t r @ own t (f (snd r)) \<and> snd (and_then r f) = snd (f (snd r)) \<or>
   own t (and_then r f) = [] \<and> (snd (and_then r f) = snd (f (snd r)) \<or> snd (and_then r f) = snd r)"
  by (cases r; cases "fst r"; cases "fst (f (snd r))") (auto simp: own_def moves_and_then snd_and_then)

text \<open>
  What a relation between a target before, its decisions and the target after must satisfy for the scaler to carry it over a tick: it holds
  where nothing is decided, it composes, it survives the loss of the messages, and it holds for one decision.
\<close>

locale target_law =
  fixes C :: scaler_config
    and ok :: "scaler_env \<Rightarrow> bool"
    and T :: "target_state \<Rightarrow> (string \<times> int \<times> int) list \<Rightarrow> target_state \<Rightarrow> bool"
  assumes calm_law: "alike st st' \<Longrightarrow> T st [] st'"
    and compose: "T st ms st' \<Longrightarrow> T st' ms' st'' \<Longrightarrow> T st (ms @ ms') st''"
    and lose: "T st ms st' \<Longrightarrow> T st [] st'"
    and decide: "ok E \<Longrightarrow> decide_target L C t st signals = (Move n, st1) \<Longrightarrow> alike st st1 \<Longrightarrow> tgt_window_ns st < anchor_of C E \<Longrightarrow>
      T st [(t, tgt_replicas st, n)] (apply_move st1 n (anchor_of C E) (sce_ns E))"
begin

definition carried :: "string set \<Rightarrow> string \<Rightarrow> ('s \<Rightarrow> scaler_state) \<Rightarrow> scaler_state \<Rightarrow> emission list res \<times> 's \<Rightarrow> bool" where
  "carried K t g s r \<longleftrightarrow> (roomy C K s \<longrightarrow> roomy C K (g (snd r)) \<and> T (target_of t s) (own t r) (target_of t (g (snd r))))"

lemma carried_and_then:
  assumes "carried K t g s r" and "carried K t g (g (snd r)) (f (snd r))"
  shows "carried K t g s (and_then r f)"
  using assms own_and_then [of t r f] by (auto simp: carried_def intro: compose lose lose [OF compose])

lemma carried_same:
  assumes "moves_of r = []" and "scs_targets (g (snd r)) = scs_targets s"
  shows "carried K t g s r"
  using assms by (auto simp: carried_def roomy_def target_of_def intro: calm_law)

lemma carried_calm_tick: "calm_tick (scs_targets (fst ts)) r \<Longrightarrow> carried K t fst (fst ts) r"
  by (intro carried_same) (auto simp: calm_moves keeps_def)

lemma carried_step_of:
  assumes "ok E" and "step_of L C E x signals st st' ms"
  shows "T st (filter (\<lambda>m. fst m = x) ms) st'"
  using assms(2) unfolding step_of_def
proof (elim disjE exE conjE)
  assume "ms = []" and "still st st'"
  then show ?thesis using calm_law [OF still_alike] by simp
next
  fix n st1
  assume m: "ms = [(x, tgt_replicas st, n)]" and d: "decide_target L C x st signals = (Move n, st1)"
    and w: "tgt_window_ns st < anchor_of C E" and e: "st' = apply_move st1 n (anchor_of C E) (sce_ns E)"
  have "alike st st1" using still_alike [OF decide_still [of st L C x signals]] by (simp add: d)
  from decide [OF assms(1) d this w] show ?thesis by (simp add: m e)
qed

lemma carried_load:
  assumes "ok E" and "x \<in> K"
  shows "carried K t fst (fst ts) (load_step L C E shed active x signals ts)"
proof -
  obtain s k where ts: "ts = (s, k)" by (cases ts)
  let ?r = "load_step L C E shed active x signals (s, k)"
  let ?s1 = "evict_and_get C x s"
  from load_step_cases [of L C E x signals s shed active k]
  have step: "step_of L C E x signals (target_of x ?s1) (target_of x (fst (snd ?r))) (moves_of ?r)"
    and others: "\<forall>t. t \<noteq> x \<longrightarrow> target_of t (fst (snd ?r)) = target_of t ?s1"
    and keys: "fst ` set (scs_targets (fst (snd ?r))) \<subseteq> insert x (fst ` set (scs_targets ?s1))"
    and wf: "od_wf (scs_targets ?s1) \<longrightarrow> od_wf (scs_targets (fst (snd ?r)))" by blast+
  have "roomy C K (fst (snd ?r)) \<and> T (target_of t s) (own t ?r) (target_of t (fst (snd ?r)))" if room: "roomy C K s"
  proof
    show "roomy C K (fst (snd ?r))"
      using evict_roomy(1) [OF room assms(2)] keys wf assms(2) by (auto simp: roomy_def)
    show "T (target_of t s) (own t ?r) (target_of t (fst (snd ?r)))"
    proof (cases "t = x")
      case True
      then show ?thesis
        using carried_step_of [OF assms(1) step] evict_roomy(2) [OF room assms(2), of x] by (simp add: own_def)
    next
      case False
      have "own t ?r = []"
        using step False by (auto simp: step_of_def own_def)
      then show ?thesis
        using others False evict_roomy(2) [OF room assms(2), of t] by (simp add: calm_law)
    qed
  qed
  then show ?thesis by (simp add: carried_def ts)
qed

lemma carried_target:
  assumes "ok E" and "fst x \<in> K"
  shows "carried K t fst (fst ts) (tick_target L C E shed active x ts)"
  unfolding tick_target_def
proof (rule carried_and_then)
  show "carried K t fst (fst ts) (lift_step (unconfigured_alerts L C E (fst x)) ts)"
    by (rule carried_calm_tick [OF calm_lift [OF calm_unconfigured]]) simp
  have "carried K t fst (fst ts') (lift_step (self_scaling_step L C E (fst x)) ts')" for ts'
    by (rule carried_calm_tick [OF calm_lift [OF calm_self_scaling]]) simp
  then show "carried K t fst (fst (snd (lift_step (unconfigured_alerts L C E (fst x)) ts)))
     (if fst x \<in> set (self_scaling_targets C)
      then lift_step (self_scaling_step L C E (fst x)) (snd (lift_step (unconfigured_alerts L C E (fst x)) ts))
      else load_step L C E shed active (fst x) (snd x) (snd (lift_step (unconfigured_alerts L C E (fst x)) ts)))"
    using carried_load [OF assms] by simp
qed

lemma carried_loads:
  assumes "ok E" and "fst ` set xs \<subseteq> K"
  shows "carried K t fst (fst ts) (tick_loads L C E shed active xs ts)"
  using assms(2)
proof (induction xs arbitrary: ts)
  case Nil
  show ?case by (auto intro: carried_same)
next
  case (Cons x xs)
  show ?case
    unfolding tick_loads.simps
    by (intro carried_and_then carried_target assms(1) Cons.IH) (use Cons.prems in auto)
qed

lemma carried_round:
  assumes "ok E" and "fst ` set signals \<subseteq> K"
  shows "carried K t (\<lambda>s. s) s (decision_round L C E signals shed s)"
  unfolding round_result
proof (intro carried_and_then)
  have "target_of t (snd (expire_pins E s)) = (if pin_due E (target_of t s) then unpin (target_of t s) else target_of t s) \<or>
      target_of t (snd (expire_pins E s)) = target_of t s"
    by (auto simp: target_of_def expire_pins_def map_of_map split: option.split)
  then have "alike (target_of t s) (target_of t (snd (expire_pins E s)))"
    by (auto simp: alike_def unpin_def)
  moreover have "roomy C K (snd (expire_pins E s)) = roomy C K s"
    by (simp add: roomy_def expire_pins_def od_wf_def comp_def split_beta image_image)
  ultimately show "carried K t (\<lambda>s. s) s (expire_pins E s)"
    by (simp add: carried_def expire_moves calm_law)
next
  fix s
  have "keeps (\<lambda>e. auto_move e = None) (\<lambda>s'. scs_targets s' = scs_targets s) (noise_edge L E active s)" for active
    by (rule calm_noise_edge) simp
  then show "carried K t (\<lambda>s. s) s (noise_edge L E (active_noise_window (parse_noise_windows L (scc_noise C)) (sce_utc E)) s)"
    by (intro carried_same) (auto simp: edge_moves keeps_def)
next
  fix s1 s2 :: scaler_state
  let ?r = "tick_loads L C E shed (active_noise_window (parse_noise_windows L (scc_noise C)) (sce_utc E)) signals (s2, 0, roster_total s1)"
  have "carried K t fst s2 ?r" using carried_loads [OF assms, of t "(s2, 0, roster_total s1)"] by simp
  then show "carried K t (\<lambda>s. s) s2 (map_prod (\<lambda>r. r) fst ?r)" by (simp add: carried_def)
qed

lemma carried_paused:
  assumes "set ts \<subseteq> K"
  shows "carried K t (\<lambda>s. s) s (paused_notes C E ts s)"
  using assms
proof (induction ts arbitrary: s)
  case Nil
  show ?case by (auto intro: carried_same)
next
  case (Cons x ts)
  let ?s1 = "evict_and_get C x s"
  have k: "calm (scs_targets ?s1) (throttle C E x n ''manual_pause'' [] [] ?s1)" for n
    by simp
  have tb: "scs_targets (snd (throttle C E x n ''manual_pause'' [] [] ?s1)) = scs_targets ?s1" for n
    using k by (simp add: keeps_def)
  have "carried K t (\<lambda>s. s) s (throttle C E x n ''manual_pause'' [] [] ?s1)" for n
    unfolding carried_def roomy_table [OF tb] own_none [OF calm_moves [OF k]]
  proof
    assume room: "roomy C K s"
    have x: "x \<in> K" using Cons.prems by simp
    have "target_of t (snd (throttle C E x n ''manual_pause'' [] [] ?s1)) = target_of t s"
      using evict_roomy(2) [OF room x, of t] tb [of n] by (simp only: target_of_def)
    then show "roomy C K ?s1 \<and> T (target_of t s) [] (target_of t (snd (throttle C E x n ''manual_pause'' [] [] ?s1)))"
      using evict_roomy(1) [OF room x] by (simp add: calm_law)
  qed
  then show ?case
    unfolding paused_notes.simps Let_def
    by (intro carried_and_then Cons.IH) (use Cons.prems in auto)
qed

theorem carried_tick:
  assumes "ok E" and "fst ` set signals \<subseteq> K"
  shows "carried K t (\<lambda>s. s) s (scaler_tick L C E signals shed s)"
proof -
  have "carried K t (\<lambda>s. s) s (Inr out, s\<lparr>scs_pause := p\<rparr>)" if "moves_of (Inr out, s) = []" for out p
    using that by (intro carried_same) (simp_all add: moves_of_def)
  moreover have "carried K t (\<lambda>s. s) s (Inr [], s)" by (rule carried_same) simp_all
  ultimately show ?thesis
    using carried_round [OF assms] carried_paused [of "map fst signals" K] assms(2)
    by (auto simp: scaler_tick_def idle_tick_def List.map_filter_simps split: prod.split)
qed

end

text \<open>Several ticks in a row, each with its own clock, load and shed tier; the decisions of all of them.\<close>

fun scaler_run ::
    "pylib \<Rightarrow> scaler_config \<Rightarrow> (scaler_env \<times> (string \<times> jobj) list \<times> int) list \<Rightarrow> scaler_state \<Rightarrow> (string \<times> int \<times> int) list \<times> scaler_state" where
  "scaler_run L C [] s = ([], s)"
| "scaler_run L C ((E, signals, shed) # xs) s =
     (let r = scaler_tick L C E signals shed s; (ms, s') = scaler_run L C xs (snd r) in (moves_of r @ ms, s'))"

context target_law
begin

theorem carried_run:
  assumes "roomy C K s" and "\<forall>(E, signals, shed) \<in> set xs. ok E \<and> fst ` set signals \<subseteq> K"
  shows "T (target_of t s) (filter (\<lambda>m. fst m = t) (fst (scaler_run L C xs s))) (target_of t (snd (scaler_run L C xs s)))"
  using assms
proof (induction xs arbitrary: s)
  case Nil
  show ?case by (simp add: calm_law)
next
  case (Cons x xs)
  obtain E signals shed where x: "x = (E, signals, shed)" by (metis prod_cases3)
  let ?r = "scaler_tick L C E signals shed s"
  have "carried K t (\<lambda>s. s) s ?r" using Cons.prems(2) by (intro carried_tick) (auto simp: x)
  then have one: "roomy C K (snd ?r)" "T (target_of t s) (own t ?r) (target_of t (snd ?r))"
    using Cons.prems(1) by (auto simp: carried_def)
  from compose [OF one(2) Cons.IH [OF one(1)]] Cons.prems(2) show ?case
    by (simp add: x Let_def split_beta own_def)
qed

end

text \<open>
  A target whose last decisions, as many as the hysteresis looks at, all ended at or below its present size: where it stands after that many
  decisions upwards.
\<close>

definition climbed :: "scaler_config \<Rightarrow> target_state \<Rightarrow> bool" where
  "climbed C st \<longleftrightarrow>
     (let w = nat (max 1 (scc_hysteresis_windows C)); h = tgt_history st in
      w \<le> 8 \<and> w \<le> length h \<and> list_all (\<lambda>r. r \<le> tgt_replicas st) (drop (length h - w) h))"

definition climbs :: "scaler_config \<Rightarrow> target_state \<Rightarrow> (string \<times> int \<times> int) list \<Rightarrow> target_state \<Rightarrow> bool" where
  "climbs C st ms st' \<longleftrightarrow>
     (climbed C st \<longrightarrow> climbed C st' \<and> tgt_replicas st \<le> tgt_replicas st' \<and> (\<forall>(t, p, n) \<in> set ms. p < n))"

definition asked :: "scaler_config \<Rightarrow> target_state \<Rightarrow> scale_verdict \<Rightarrow> bool" where
  "asked C st v = (case v of Move n \<Rightarrow> hysteresis_ok C st n (tgt_replicas st) | _ \<Rightarrow> True)"

lemma asked_if:
  "(c \<Longrightarrow> asked C st (fst a)) \<Longrightarrow> (\<not> c \<Longrightarrow> asked C st (fst b)) \<Longrightarrow> asked C st (fst (if c then a else b))"
  by simp

lemma hysteresis_unchanged:
  "hysteresis_ok C (st\<lparr>tgt_signals := x\<rparr>) n cur = hysteresis_ok C st n cur" "hysteresis_ok C (st\<lparr>tgt_low := y\<rparr>) n cur = hysteresis_ok C st n cur"
  by (simp_all add: hysteresis_ok_def)

lemma decide_asked: "asked C st (fst (decide_target L C target st signals))"
proof -
  have leaf: "asked C st (fst (if hysteresis_ok C st n (tgt_replicas st) then Move n else Throttled reason, st'))"
    "asked C st (fst (Throttled reason, st'))" "asked C st (fst (Hold, st'))" for n reason and st' :: target_state
    by (simp_all add: asked_def)
  have same: "tgt_replicas (st\<lparr>tgt_signals := x\<rparr>) = tgt_replicas st" for x
    by simp
  show ?thesis
  proof (rule decide_target_cases)
    show "asked C st (fst (decide_view L C target (st\<lparr>tgt_signals := sk\<rparr>) view))" for sk view
      unfolding decide_view_def Let_def same hysteresis_unchanged
      by (intro asked_if leaf)
  qed (simp add: asked_def)
qed

lemma climbed_blocks_down:
  assumes "climbed C st" and "n < tgt_replicas st"
  shows "\<not> hysteresis_ok C st n (tgt_replicas st)"
proof -
  let ?w = "nat (max 1 (scc_hysteresis_windows C))" and ?h = "tgt_history st"
  let ?recent = "drop (length ?h - ?w) ?h"
  have le: "\<forall>r \<in> set ?recent. r \<le> tgt_replicas st" and len: "?w \<le> length ?h"
    using assms(1) by (auto simp: climbed_def Let_def list_all_iff)
  have "length ?recent = ?w" using len by simp
  moreover have "filter (\<lambda>r. (tgt_replicas st < r) = False) ?recent = ?recent" using le by (auto simp: filter_id_conv)
  moreover have "0 < ?w" by simp
  ultimately have "last ?recent \<in> set ?recent" by (metis last_in_set length_greater_0_conv)
  then have "\<not> tgt_replicas st < last ?recent" using le by (meson linorder_not_le)
  moreover have "length (filter (\<lambda>r. \<not> tgt_replicas st < r) ?recent) = ?w"
    using \<open>length ?recent = ?w\<close> \<open>filter _ ?recent = ?recent\<close> by simp
  ultimately show ?thesis using assms(2) len by (simp add: hysteresis_ok_def Let_def)
qed

lemma climbed_move:
  assumes "climbed C st" and "alike st st1" and "tgt_replicas st < n"
  shows "climbed C (apply_move st1 n anchor now)"
proof -
  let ?w = "nat (max 1 (scc_hysteresis_windows C))" and ?h = "tgt_history st"
  let ?h' = "drop (length (?h @ [n]) - 8) (?h @ [n])"
  have w: "1 \<le> ?w" "?w \<le> 8" "?w \<le> length ?h" and le: "\<forall>r \<in> set (drop (length ?h - ?w) ?h). r \<le> tgt_replicas st"
    using assms(1) by (auto simp: climbed_def Let_def list_all_iff)
  have "length ?h' = min 8 (length ?h + 1)" by auto
  moreover have "?w \<le> min 8 (length ?h + 1)" using w(2,3) by (intro min.boundedI) linarith+
  ultimately have len: "?w \<le> length ?h'" by simp
  have "drop (length ?h' - ?w) ?h' = drop (length ?h + 1 - ?w) (?h @ [n])"
    using w by auto
  also have "\<dots> = drop (length ?h + 1 - ?w) ?h @ [n]" using w by auto
  finally have tail: "drop (length ?h' - ?w) ?h' = drop (length ?h + 1 - ?w) ?h @ [n]" .
  have "set (drop (length ?h + 1 - ?w) ?h) \<subseteq> set (drop (length ?h - ?w) ?h)"
    by (rule set_drop_subset_set_drop) simp
  then have "\<forall>r \<in> set (drop (length ?h' - ?w) ?h'). r \<le> n" using le assms(3) unfolding tail by fastforce
  then show ?thesis
    using len w(2) assms(2) by (simp add: climbed_def apply_move_def Let_def alike_def list_all_iff)
qed

lemma climbs_decide:
  assumes d: "decide_target L C t st signals = (Move n, st1)" and a: "alike st st1"
  shows "climbs C st [(t, tgt_replicas st, n)] (apply_move st1 n anchor now)"
proof -
  have "tgt_replicas st < n" if "climbed C st"
    using climbed_blocks_down [OF that, of n] decide_asked [of C st L t signals] decide_bounds [OF d] by (auto simp: d asked_def)
  then show ?thesis
    using climbed_move [OF _ a] by (auto simp: climbs_def apply_move_def Let_def)
qed

lemma climbed_alike: "alike st st' \<Longrightarrow> climbed C st' = climbed C st"
  by (simp add: climbed_def alike_def)

interpretation climb: target_law C "\<lambda>_. True" "climbs C" for C
proof (unfold_locales, goal_cases)
  case (1 st st')
  then show ?case using climbed_alike [OF 1] by (simp add: climbs_def alike_def)
next
  case (2 st ms st' ms' st'')
  then show ?case by (auto simp: climbs_def)
next
  case (3 st ms st')
  then show ?case by (simp add: climbs_def)
next
  case (4 E L t st signals n st1)
  then show ?case by (intro climbs_decide)
qed

text \<open>How many decisions a target may still get in the window that starts at \<open>a\<close>.\<close>

definition allowance :: "int \<Rightarrow> target_state \<Rightarrow> nat" where
  "allowance a st = (if tgt_window_ns st < a then 1 else 0)"

interpretation window: target_law C "\<lambda>E. anchor_of C E = a" "\<lambda>st ms st'. length ms + allowance a st' \<le> allowance a st" for C a
  by unfold_locales (auto simp: allowance_def alike_def apply_move_def Let_def)



text \<open>
  C37: A target gets at most one automatic decision in a window, in whatever number of ticks of that window and whatever they report, as long as
  the table of targets has room for all of them.
\<close>

theorem one_decision_per_window:
  assumes "finite K" and "card K \<le> max_targets C" and "od_wf (scs_targets s)" and "fst ` set (scs_targets s) \<subseteq> K"
    and "\<forall>(E, signals, shed) \<in> set xs. anchor_of C E = a \<and> fst ` set signals \<subseteq> K"
  shows "length (filter (\<lambda>m. fst m = t) (fst (scaler_run L C xs s))) \<le> 1"
proof -
  have "roomy C K s" using assms(1-4) by (simp add: roomy_def)
  from window.carried_run [OF this, of xs a t L] assms(5) show ?thesis
    by (simp add: allowance_def split: if_splits)
qed

lemma one_decision_per_window_witness:
  "\<forall>L C E. length (filter (\<lambda>m. fst m = ''scout'') (fst (scaler_run L C [(E, [(''scout'', [])], 0), (E, [(''scout'', [])], 0)] scaler_init))) \<le> 1"
proof (intro allI)
  fix L :: pylib and C :: scaler_config and E :: scaler_env
  show "length (filter (\<lambda>m. fst m = ''scout'') (fst (scaler_run L C [(E, [(''scout'', [])], 0), (E, [(''scout'', [])], 0)] scaler_init))) \<le> 1"
    by (rule one_decision_per_window [of "{''scout''}" C scaler_init _ "anchor_of C E"]) (simp_all add: max_targets_def od_wf_def scaler_init_def)
qed

text \<open>On a concrete target: load takes it from one replica to two; at four replicas, reached by three such decisions, no load is not enough to go down.\<close>

definition example_scaler :: "scaler_config \<Rightarrow> scaler_config" where
  "example_scaler C = C\<lparr>scc_max_replicas := 8, scc_default_max := 8, scc_min_replicas := 1, scc_up_depth := 10, scc_down_depth := 0,
     scc_up_age_s := 30, scc_hysteresis_windows := 3, scc_overrides_csv := [], scc_grace_windows := 0, scc_signal_window := 0, scc_load_per_replica := 0\<rparr>"

lemma example_verdicts:
  "fst (decide_target plain_lib (example_scaler C) ''scout'' new_target [(''queue_depth'', JInt 50)]) = Move 2"
  "fst (decide_target plain_lib (example_scaler C) ''scout'' (new_target\<lparr>tgt_replicas := 4, tgt_history := [2, 3, 4]\<rparr>) []) = Throttled ''hysteresis_block''"
  "fst (decide_target plain_lib (example_scaler C) ''scout'' (new_target\<lparr>tgt_replicas := 4, tgt_history := [3, 4]\<rparr>) []) = Move 3"
proof -
  have "max_replicas_for plain_lib (example_scaler C) ''scout'' = 8"
    by (simp add: max_replicas_for_def example_scaler_def parse_overrides_csv_def parse_override_def py_strip_def split_on.simps)
  note this [simp]
  have "scc_up_depth (example_scaler C) = 10" "scc_down_depth (example_scaler C) = 0" "scc_up_age_s (example_scaler C) = 30" "scc_hysteresis_windows (example_scaler C) = 3"
    "scc_grace_windows (example_scaler C) = 0" "scc_signal_window (example_scaler C) = 0" "scc_load_per_replica (example_scaler C) = 0" "min_replicas (example_scaler C) = 1"
    by (simp_all add: example_scaler_def min_replicas_def)
  note this [simp]
  have "float_caught plain_lib (JInt 50) = Inr (Some 50)" by (simp add: float_caught_def)
  note this [simp]
  show "fst (decide_target plain_lib (example_scaler C) ''scout'' new_target [(''queue_depth'', JInt 50)]) = Move 2"
    by (simp add: decide_target_def decide_view_def new_target_def smoothed_of_def hysteresis_ok_def Let_def desired_replicas_def)
  show "fst (decide_target plain_lib (example_scaler C) ''scout'' (new_target\<lparr>tgt_replicas := 4, tgt_history := [2, 3, 4]\<rparr>) []) = Throttled ''hysteresis_block''"
    by (simp add: decide_target_def decide_view_def new_target_def smoothed_of_def hysteresis_ok_def Let_def desired_replicas_def)
  show "fst (decide_target plain_lib (example_scaler C) ''scout'' (new_target\<lparr>tgt_replicas := 4, tgt_history := [3, 4]\<rparr>) []) = Move 3"
    by (simp add: decide_target_def decide_view_def new_target_def smoothed_of_def hysteresis_ok_def Let_def desired_replicas_def)
qed

end
