(* ===== verification/Spec2Isabelle.thy ===== *)
theory Spec2Isabelle
  imports Dedup Debounce Ledger Wire_Records Wire_Predict Wire_Ops Bus Runner Cache Reactors Calibration
    Fusion Consensus Aggregator Proofreaders Grids Predictors Storage Intake Drift Fair_Queue Audit_Chain
    Spool Breakers Watchdogs Cron Singleflight Sec_Rate Feeds Canonical Feed_Writer Competitions Op_Signature Dlq Scaler
begin

text \<open>
  A model of the agent plane of this repository: the bus and its messages, the agents that turn scraped bytes into records and
  predictions, the ones that keep the system running, and the library code they rest on. Everything here is translated from the Python
  sources named below; a definition carries the name of the function it translates where that name is free.

  \<^bold>\<open>How the program works.\<close> Agents subscribe to topics. A runner polls the bus, hands each message to the handler of its agent,
  publishes what the handler returns, acknowledges the message, retries a failure and moves a message that keeps failing to the dead-letter
  topic. On the prediction path, scraped documents are classified and normalised (\<open>categorizer.py\<close>, \<open>processor.py\<close>), stored and announced
  (\<open>storage.py\<close>), and a change makes the freshness reactors (\<open>reactor.py\<close>) ask for predictions; five predictors vote, the consensus agent
  (\<open>consensus.py\<close>) fuses the votes of a request into one final prediction, three proofreader replicas judge it and the aggregator
  publishes it as approved or not. The maintenance plane scales agents (\<open>maint/scaler.py\<close>), replays dead letters (\<open>maint/dlq\<close>), pauses and sheds
  under lag, and obeys signed operator commands; the security plane counts alerts and lists offenders (\<open>sec/rate.py\<close>). Feeds are written
  as canonical JSON lines into files that rotate and seal (\<open>common/feeds\<close>).

  \<^bold>\<open>Theories.\<close> Paths are below \<open>swarm/\<close> unless they start with another top directory.
  \<^item> \<^verbatim>\<open>Prelude\<close>: errors as sums, ordered dictionaries (\<open>od_set\<close>, \<open>od_del\<close>, \<open>od_touch\<close>, \<open>od_trim\<close>) and their laws in the collection
    \<open>od_simps\<close>, Python's division, truthiness and lists. \<^verbatim>\<open>Json\<close>: payload values, field access and conversions.
  \<^item> \<^verbatim>\<open>Bus_Types\<close> (\<open>sdk/types.py\<close>, \<open>sdk/codec.py\<close>), \<^verbatim>\<open>Wire_Records\<close>, \<^verbatim>\<open>Wire_Predict\<close>, \<^verbatim>\<open>Wire_Ops\<close> (\<open>agents/payloads.py\<close>): envelope, codec and
    payload classes, with their checks in the order of the code, their round trips and the identity of a prediction.
  \<^item> \<^verbatim>\<open>Bus\<close> (\<open>sdk/bus.py\<close>), \<^verbatim>\<open>Runner\<close> (\<open>sdk/runner.py\<close>): the in-process transport, refined to an abstract claim queue of every consumer group, and the
    fate of a message that always fails. \<^verbatim>\<open>Dedup\<close>, \<^verbatim>\<open>Debounce\<close>, \<^verbatim>\<open>Ledger\<close>, \<^verbatim>\<open>Cache\<close>, \<^verbatim>\<open>Singleflight\<close>: the small tables of the SDK. Single
    flight is a step relation on callers with a program counter; exclusion and shared outcomes are invariants of its reachable tables.
  \<^item> \<^verbatim>\<open>Reactors\<close>, \<^verbatim>\<open>Intake\<close>, \<^verbatim>\<open>Storage\<close>, \<^verbatim>\<open>Calibration\<close>, \<^verbatim>\<open>Grids\<close>, \<^verbatim>\<open>Predictors\<close>, \<^verbatim>\<open>Fusion\<close>, \<^verbatim>\<open>Consensus\<close>, \<^verbatim>\<open>Proofreaders\<close>, \<^verbatim>\<open>Aggregator\<close>,
    \<^verbatim>\<open>Drift\<close>: the prediction path, one theory an agent. Consensus and aggregator interpret one locale for agents that publish once per key.
  \<^item> \<^verbatim>\<open>Fair_Queue\<close> (\<open>nlp/intake_fair_queue.py\<close>): fairness and order per key. \<^verbatim>\<open>Sec_Rate\<close> (\<open>agents/sec/rate.py\<close>): windows, denylist and allow-list.
  \<^item> \<^verbatim>\<open>Ack_Routing\<close>, \<^verbatim>\<open>Watchdogs\<close>, \<^verbatim>\<open>Breakers\<close>, \<^verbatim>\<open>Spool\<close>, \<^verbatim>\<open>Op_Signature\<close>, \<^verbatim>\<open>Dlq\<close>, \<^verbatim>\<open>Scaler\<close> (\<open>agents/maint\<close>, \<open>sdk/spool_aging.py\<close>, \<open>sdk/shed_state.py\<close>): the
    maintenance plane. \<^verbatim>\<open>Dlq\<close> proves its handlers with the rule \<open>keeps\<close> for a step that emits only some messages and keeps a predicate of the
    state; \<^verbatim>\<open>Scaler\<close> carries a relation on one target over every tick with the locale \<open>target_law\<close>, interpreted for the hysteresis and for
    the decision window.
  \<^item> \<^verbatim>\<open>Audit_Chain\<close> (\<open>xops/opsctl\<close>), \<^verbatim>\<open>Cron\<close> (\<open>xops/backup/cron.py\<close>): the signed operator log, and the search for the next fire.
  \<^item> \<^verbatim>\<open>Canonical\<close>, \<^verbatim>\<open>Feeds\<close>, \<^verbatim>\<open>Feed_Writer\<close> (\<open>common/feeds\<close>), \<^verbatim>\<open>Competitions\<close> (\<open>common/competition_fsm.py\<close>, \<open>common/standings_accumulator.py\<close>).
  \<^item> This theory composes components: votes through fusion, proofreading and aggregation to an approval, and the votes of the roster
    through the checks.

  \<^bold>\<open>What the lemmas show.\<close> For each component: its state invariant and that every operation keeps it; what each operation returns on
  every branch, errors included; and over runs of operations the promise of the component, which the blocks numbered C1 to C40 state in words.
  Several properties state what the code does against its own description (a sweep that breaks exclusion, a lease that expires without
  stopping the writer, an unsigned command that is obeyed, a target that never shrinks again).

  \<^bold>\<open>How Python is rendered.\<close> \<open>str\<close> is the list of its UTF-8 bytes, \<open>int\<close> is \<open>int\<close>, \<open>float\<close> an exact real number (no rounding, and no infinity or NaN).
  A payload is an ordered association list of JSON values; a field the source reads with \<open>get\<close> and does not check stays such a value.
  A dictionary whose order matters is an ordered dictionary, the others maps. An exception is the left of a sum, with the class of the error;
  an agent is a function from a message and its state to emissions or an error, and the new state: an exception loses the messages of
  the call and keeps the changes made before it. Clocks, random ids, ISO stamps, leadership and the contents of files are arguments, one reading of each clock
  per call. Directories are lists of files. SHA-256, HMAC, CRC, compressors, \<open>json.loads\<close>, the regular-expression engine, Unicode case, the printing of
  floats, brokers and the runtime controller are parameters, with what the code relies on as named hypotheses where a theorem needs them;
  \<open>json.dumps\<close> is written out in \<^verbatim>\<open>Canonical\<close>. Locks are not modelled: single flight has one step per critical section, every other
  component one step per call. Logging and \<open>fsync\<close> are left out.

  \<^bold>\<open>Bounds.\<close> Loops are structural over the data they consume. The cron search takes as fuel the candidates the source allows, a horizon of
  1464 days of 1440 minutes; it is proved that an expression which can fire at all does so within it. A run of the runner, of an agent or of the
  scaler is a list of calls of any length.

  \<^bold>\<open>Not modelled.\<close> The settings table (each component takes what it reads as a parameter); the Turkish language plane \<open>nlp/\<close>, \<open>tqu/\<close>, \<open>trc/\<close> and
  \<open>qid/\<close>, apart from the intake queue, because it is built on Unicode tables, regular expressions and lexicon files; scrapers, which drive HTML
  parsers and the network; training, features and evaluation, which drive numerical libraries; the maintenance agents for backups, schemas,
  lineage, dead men and runtimes, the input and scrape guards, readers and snapshots of feeds; telemetry, registries and start-up; the operations tooling in
  \<open>xops/\<close> apart from cron, key identity and the audit log; the Redis transport; and the Go server. Of the partly modelled parts: the transport and the
  runner without their broker, lock and thread code, the cache without its remote backend, the roster without the boosted models, which are
  parameters, and the watchdogs without their metrics.
\<close>

section \<open>From votes to an approval\<close>

lemma market_outcomes_nonempty: "market \<in> set allowed_markets \<Longrightarrow> market_outcomes market \<noteq> []"
  by (auto simp: allowed_markets_def market_outcomes_def)

lemma final_payload_distribution:
  "pf_distribution (final_payload s p pid cal ts ds g) =
     [(''market_outcomes'', JObj (map (\<lambda>(o1, q). (o1, JFloat q)) ds)), (''score_grid'', grid_json g)]"
  by (simp add: final_payload_def)

lemma pmf_passes_sanity:
  assumes "is_pmf market ds" "market \<in> set allowed_markets" "0 \<le> eps"
    and "d = [(''market_outcomes'', JObj (map (\<lambda>(o1, q). (o1, JFloat q)) ds)), (''score_grid'', g)]"
  shows "sanity_check L eps d = Inr (''accept'', 1, [])"
proof -
  let ?m = "map (\<lambda>(o1, q). (o1, JFloat q)) ds"
  have "res_map (\<lambda>kv. py_float L (snd kv)) ?m = Inr (map snd ds)"
    by (induction ds) auto
  moreover have "list_all (\<lambda>p. 0 \<le> p \<and> p \<le> 1) (map snd ds)" "sum_list (map snd ds) = 1"
    using assms(1) by (simp_all add: is_pmf_def)
  ultimately have "sanity_scan L ?m = Inr ([], 1)" by (auto simp: sanity_scan_clean)
  moreover have "ds \<noteq> []"
    using assms(1) market_outcomes_nonempty [OF assms(2)] by (auto simp: is_pmf_def)
  ultimately show ?thesis
    using assms(3) by (simp add: sanity_check_def assms(4) market_of_json)
qed

lemma no_grid_consistent:
  "d = [(''market_outcomes'', m), (''score_grid'', JNull)] \<Longrightarrow> grid_consistency_check L tol d = Inr (''accept'', 1, [])"
  by (simp add: grid_consistency_check_def jget_or_def)

text \<open>Two accepting verdicts after a candidate, with a quorum of two.\<close>

lemma two_accepts_approve:
  assumes "ag_quorum s = 2" "\<not> already_processed (ag_ledger s) (aggregator_name, pf_prediction_id f)"
    and "map_of (ag_pending s) (pf_prediction_id f) = None" "int (length (ag_pending s)) < ag_max_pending s"
    and "vd_prediction_id v = pf_prediction_id f" "vd_prediction_id w = pf_prediction_id f"
    and "vd_proofreader_id v \<noteq> vd_proofreader_id w" "accept_warn v" "accept_warn w"
    and "ae_key env (pf_prediction_id f) = Inr (key, key_id)"
  shows "\<exists>s1 s2 s3 o1 o2 flags a. handle_final env t1 f s = (o1, s1) \<and> handle_verdict env t2 v s1 = (o2, s2) \<and>
    handle_verdict env t3 w s2 = ([Notes flags, Closed (pf_prediction_id f)
      (Inr [agg_emission predict_approved_topic (approved_as_dict a) (Some t3)])], s3) \<and>
    approved_check a = Inr a \<and> ap_approved_by a = sort [vd_proofreader_id v, vd_proofreader_id w] \<and>
    ap_final a = predict_final_as_dict f \<and> ap_match_id a = pf_match_id f"
proof -
  let ?pid = "pf_prediction_id f"
  let ?n = "new_candidate ?pid (pf_request_id f) (pf_match_id f) (pf_market f) (ae_now_ms env)"
  let ?c1 = "?n\<lparr>ca_final := Some f\<rparr>"
  let ?c2 = "set_verdict v ?c1"
  let ?c3 = "set_verdict w ?c2"
  note nr = accept_not_reject [OF assms(8)] accept_not_reject [OF assms(9)]
  have c1: "tally_ok ?c1" "ca_accept_warn ?c1 = 0" "ca_rejects ?c1 = 0" "ca_verdicts ?c1 = []" "ca_prediction_id ?c1 = ?pid"
    "ca_final ?c1 = Some f" "ca_match_id ?c1 = pf_match_id f"
    using new_candidate_tally by (simp_all add: tally_ok_def new_candidate_def)
  have c2: "ca_accept_warn ?c2 = 1" "ca_rejects ?c2 = 0" "ca_verdicts ?c2 = [(vd_proofreader_id v, v)]"
    using c1 assms(8) nr by (simp_all add: set_verdict_def uncount_def Let_def)
  have c3: "ca_accept_warn ?c3 = 2" "ca_rejects ?c3 = 0" "ca_verdicts ?c3 = [(vd_proofreader_id v, v), (vd_proofreader_id w, w)]"
    using c2 assms(7,9) nr by (simp_all add: set_verdict_def uncount_def Let_def)
  note f2 = set_verdict_fields [of v ?c1] and f3 = set_verdict_fields [of w ?c2]
  have 1: "handle_final env t1 f s = ([Notes (map (\<lambda>x. candidate_overflow_flag x (Some t1)) (ag_overflow s)), Notes []],
      s\<lparr>ag_pending := od_set ?pid ?c1 (ag_pending s), ag_overflow := []\<rparr>)" (is "_ = (_, ?s1)")
    using assms(1-4) c1 by (simp add: handle_final_def open_candidate_def evict_if_full_def new_candidate_def settle_def
        maybe_finalize_def has_reject_def)
  have 2: "handle_verdict env t2 v ?s1 = ([Notes [], Notes []],
      ?s1\<lparr>ag_pending := od_set ?pid ?c2 (ag_pending ?s1)\<rparr>)" (is "_ = (_, ?s2)")
    using assms(1,2,5) c1 c2 f2
    by (simp add: handle_verdict_def open_candidate_def settle_def maybe_finalize_def has_reject_def od_simps new_candidate_def)
  have t: "tally_ok ?c3" by (intro set_verdict_tally c1)
  have r: "\<not> has_reject ?c3" "ca_final ?c3 = Some f" "2 \<le> ca_accept_warn ?c3" "ca_prediction_id ?c3 = ?pid"
    using c3 f2 f3 c1 by (simp_all add: has_reject_def)
  have key: "ae_key env (ca_prediction_id ?c3) = Inr (key, key_id)" using assms(10) r(4) by simp
  have two: "1 \<le> (2 :: int)" by simp
  obtain a where a: "approval env 2 ?c3 f = Inr a"
    using approval_sound [OF t two r(1-3) key] by blast
  then have fields: "ap_approved_by a = approvers ?c3" "ap_final a = predict_final_as_dict f" "ap_match_id a = ca_match_id ?c3"
    and check: "approved_check a = Inr a"
    using key approved_check_idem by (auto simp: approval_def res_iffs approved_check_def Let_def)
  have names: "approvers ?c3 = sort [vd_proofreader_id v, vd_proofreader_id w]"
    using c3 assms(8,9) by (simp add: approvers_def)
  have "decide_candidate env (Some t3) 2 ?c3 = Inr [agg_emission predict_approved_topic (approved_as_dict a) (Some t3)]"
    using a r by (simp add: decide_candidate_def)
  then have "\<exists>s3. handle_verdict env t3 w ?s2 = ([Notes [], Closed ?pid
      (Inr [agg_emission predict_approved_topic (approved_as_dict a) (Some t3)])], s3)"
    using assms(1,2,6) r f2 c1
    by (simp add: handle_verdict_def open_candidate_def od_simps new_candidate_def settle_decides Let_def)
  then show ?thesis
    using 1 2 check fields names f2 f3 c1 by fastforce
qed

text \<open>The messages between the agents, sealed with fresh ids, and what an agent gets to see of them.\<close>

lemma seal_fields [simp]:
  "en_topic (msg_envelope (seal fr e)) = em_topic e" "msg_payload (seal fr e) = em_payload e"
  by (simp_all add: seal_def message_new_def)

lemma aggregator_sees:
  "predict_final_from_dict L (em_payload e) = Inr f \<Longrightarrow> em_topic e = predict_final_topic \<Longrightarrow>
     aggregator_handle L env (seal fr e) s = handle_final env (en_trace_id (msg_envelope (seal fr e))) f s"
  "verdict_from_dict L (em_payload e) = Inr v \<Longrightarrow> em_topic e = verdict_topic \<Longrightarrow>
     aggregator_handle L env (seal fr e) s = handle_verdict env (en_trace_id (msg_envelope (seal fr e))) v s"
  by (simp_all add: aggregator_handle_def Let_def verdict_topic_def predict_final_topic_def)


lemma example_window_fuses:
  "pn_votes example_pending \<noteq> []" "pn_market example_pending \<in> set allowed_markets"
  "fusible L (vote_weights (cs_weights example_consensus) (pn_votes example_pending)) (pn_votes example_pending) (pn_market example_pending)"
  "fuse_score_grids L (pn_votes example_pending) = Inr (None, [])"
  "pn_calibration_table example_pending = Some (empty_table (JStr ''default'') ''btts'')"
proof -
  have votes: "pn_votes example_pending = [example_vote ''a'' (1 / 4), example_vote ''b'' (3 / 4)]" "pn_market example_pending = ''btts''"
    by (simp_all add: example_pending_def new_pending_def)
  show "pn_votes example_pending \<noteq> []" "pn_market example_pending \<in> set allowed_markets"
    by (simp_all add: votes allowed_markets_def)
  show "fusible L (vote_weights (cs_weights example_consensus) (pn_votes example_pending)) (pn_votes example_pending) (pn_market example_pending)"
    unfolding example_weights unfolding votes by (rule example_fusible)
  show "fuse_score_grids L (pn_votes example_pending) = Inr (None, [])"
    unfolding votes by (rule example_grids)
  show "pn_calibration_table example_pending = Some (empty_table (JStr ''default'') ''btts'')"
    by (simp add: example_pending_def)
qed


section \<open>The roster before the proofreaders\<close>

lemma market_upper_hda:
  "market_upper [(''H'', h), (''D'', d), (''A'', a)] = [(''H'', h), (''D'', d), (''A'', a)]"
proof -
  have "upper_char (CHR ''H'') = CHR ''H''" "upper_char (CHR ''D'') = CHR ''D''" "upper_char (CHR ''A'') = CHR ''A''"
    by (simp_all add: upper_char_def)
  then show ?thesis by (simp add: market_upper_def)
qed

lemma declares_hda:
  "declares L [(''H'', JFloat h), (''D'', JFloat d), (''A'', JFloat a)] ''H'' p \<longleftrightarrow> p = h"
  "declares L [(''H'', JFloat h), (''D'', JFloat d), (''A'', JFloat a)] ''D'' p \<longleftrightarrow> p = d"
  "declares L [(''H'', JFloat h), (''D'', JFloat d), (''A'', JFloat a)] ''A'' p \<longleftrightarrow> p = a"
  by (auto simp: declares_def market_upper_hda jget_or_def)

lemma two_outcomes_declare_nothing:
  "declares L [(''home'', v), (''away'', w)] k x \<Longrightarrow> k \<notin> {''H'', ''D'', ''A''}"
  "declares L [(''over'', v), (''under'', w)] k x \<Longrightarrow> k \<notin> {''H'', ''D'', ''A''}"
  "declares L [(''yes'', v), (''no'', w)] k x \<Longrightarrow> k \<notin> {''H'', ''D'', ''A''}"
  by (auto simp: declares_def market_upper_def jget_or_def split: option.splits if_splits)

lemma prediction_consistent:
  assumes "is_pmf market ds" "market \<in> set allowed_markets" "0 \<le> tol"
    and "case g of None \<Rightarrow> True | Some cells \<Rightarrow> grid_ok market ds cells"
  shows "verdict_of (grid_consistency_check L tol (prediction ds g)) = Inr ''accept''"
proof (cases g)
  case None
  then show ?thesis
    using no_grid_consistent by (simp add: prediction_def score_grid_json_def)
next
  case (Some cells)
  have d: "prediction ds g = [(''market_outcomes'', JObj (map (\<lambda>(k, p). (k, JFloat p)) ds)), (''score_grid'', JArr (map json_row cells))]"
    by (simp add: prediction_def score_grid_json_def Some)
  have ok: "grid_ok market ds cells" using assms(4) Some by simp
  show ?thesis
  proof (cases "market = ''1x2''")
    case True
    with ok have ds: "ds = [(''H'', cells_sum (\<lambda>h a. a < h) 0 cells), (''D'', cells_sum (\<lambda>h a. h = a) 0 cells), (''A'', cells_sum (\<lambda>h a. h < a) 0 cells)]"
      by (simp add: grid_ok_def)
    show ?thesis
      unfolding consistency_check_numbers [OF d floats_readable] unfolding ds using assms(3) by (simp add: declares_hda)
  next
    case False
    obtain a b p q where "ds = [(a, p), (b, q)]" "(a, b) \<in> {(''home'', ''away''), (''over'', ''under''), (''yes'', ''no'')}"
      using assms(1,2) False by (auto simp: is_pmf_def market_outcomes_def allowed_markets_def split: if_splits)
    then have "\<not> declares L (map (\<lambda>(k, p). (k, JFloat p)) ds) k x" if "k \<in> {''H'', ''D'', ''A''}" for k x
      using that two_outcomes_declare_nothing [of L _ _ k x] by auto
    then show ?thesis by (simp add: consistency_check_numbers [OF d floats_readable])
  qed
qed

context predictor_model
begin

text \<open>Behind the shell, a request with features of the size of football ends in a vote that passes, or in an abstention
  where the market is not served.\<close>

lemma vote_passes:
  assumes "predict_request_from_dict L (msg_payload msg) = Inr req" "football_features L (rq_features req)" "pr_predictor_id a \<noteq> []"
    and "0 \<le> eps" "0 \<le> tol"
  shows "if rq_market req \<in> set (pr_supported_markets a) \<and> votes_on (rq_market req) (rq_features req)
    then \<exists>e vote ms. predictor_handle L predict ts a msg = Inr [e] \<and> em_topic e = predict_vote_topic \<and>
      predict_vote_from_dict M (em_payload e) = Inr vote \<and> pv_request_id vote = rq_request_id req \<and> pv_market vote = rq_market req \<and>
      map_of (pv_distribution vote) ''market_outcomes'' = Some (JObj ms) \<and> map fst ms = market_outcomes (rq_market req) \<and>
      sanity_check M eps (pv_distribution vote) = Inr (''accept'', 1, []) \<and>
      verdict_of (grid_consistency_check M tol (pv_distribution vote)) = Inr ''accept''
    else predictor_handle L predict ts a msg = Inr []"
proof (cases "rq_market req \<in> set (pr_supported_markets a) \<and> votes_on (rq_market req) (rq_features req)")
  case False
  with vote_total [OF assms(1-3), of ts] show ?thesis by (simp add: predictor_handle_def)
next
  case True
  with vote_total [OF assms(1-3), of ts] obtain vote ds g where
    v: "predictor_vote L predict ts a (msg_payload msg) = Inr (Some vote)" "predict_vote_check vote = Inr vote"
    "pv_market vote = rq_market req" "pv_request_id vote = rq_request_id req" "pv_market vote \<in> set allowed_markets"
    "pv_distribution vote = prediction ds g" "is_pmf (pv_market vote) ds"
    "case g of None \<Rightarrow> True | Some cells \<Rightarrow> grid_ok (pv_market vote) ds cells" by auto
  have "sanity_check M eps (prediction ds g) = Inr (''accept'', 1, [])"
    by (rule pmf_passes_sanity [OF v(7,5) assms(4)]) (simp add: prediction_def)
  moreover have "map_of (prediction ds g) ''market_outcomes'' = Some (JObj (map (\<lambda>(k, p). (k, JFloat p)) ds))"
    "map fst (map (\<lambda>(k, p). (k, JFloat p)) ds) = market_outcomes (rq_market req)"
    using v(3,7) by (simp_all add: prediction_def is_pmf_def o_def case_prod_unfold)
  ultimately show ?thesis
    using True prediction_consistent [OF v(7,5) assms(5) v(8), of M] predict_vote_wire [OF v(2), of M] v by (simp add: predictor_handle_def)
qed

end



section \<open>A vote without a grid\<close>

text \<open>Two votes of weight one fuse to the mean of their outcomes.\<close>

lemma prediction_probs:
  assumes "pv_distribution v = prediction [(''H'', h), (''D'', d), (''A'', a)] g"
  shows "outcome_prob L v ''H'' = Inr h" "outcome_prob L v ''D'' = Inr d" "outcome_prob L v ''A'' = Inr a"
  by (simp_all add: outcome_prob_def vote_pmf_def assms prediction_def jget_or_def)

lemma two_votes_mean:
  assumes "pv_distribution v1 = prediction [(''H'', h1), (''D'', d1), (''A'', a1)] g1" "h1 + d1 + a1 = 1"
    and "pv_distribution v2 = prediction [(''H'', h2), (''D'', d2), (''A'', a2)] g2" "h2 + d2 + a2 = 1"
    and "weight_of weights v1 = 1" "weight_of weights v2 = 1"
  shows "fuse_distributions L [v1, v2] weights ''1x2'' =
    Inr [(''H'', (h1 + h2) / 2), (''D'', (d1 + d2) / 2), (''A'', (a1 + a2) / 2)]"
proof -
  have "(h1 + h2) + ((d1 + d2) + (a1 + a2)) = 2" using assms(2,4) by linarith
  then have "(h1 + h2) / 2 + ((d1 + d2) / 2 + (a1 + a2) / 2) = 1" by (simp flip: add_divide_distrib)
  then show ?thesis
    by (simp add: fuse_distributions_def market_outcomes_def assms(5,6) prediction_probs [OF assms(1)] prediction_probs [OF assms(3)]
        normalized_def Let_def)
qed

lemma add_grid_zero: "grid_shape r c g \<Longrightarrow> g \<noteq> [] \<Longrightarrow> add_grid (zero_grid g) g = g"
  by (auto simp: add_grid_def zero_grid_def grid_shape_def map2_map_map intro!: nth_equalityI)

text \<open>The only grid among the votes is fused to itself.\<close>

lemma one_grid_fused:
  assumes "pv_distribution v1 = prediction ds1 (Some g)" "grid_shape r c g" "g \<noteq> []" "grid_total g = 1"
    and "pv_distribution v2 = prediction ds2 None"
  shows "fuse_score_grids L [v1, v2] = Inr (Some g, [])"
proof -
  obtain row rows where g: "g = row # rows" using assms(3) by (cases g) auto
  have u: "usable_grid v1 = Some (map json_row g)" "usable_grid v2 = None"
    by (simp_all add: usable_grid_def assms(1,5) prediction_def jget_or_def score_grid_json_def g json_row_def)
  have "\<not> list_ex (\<lambda>x. row_length x \<noteq> Some (length (row_cells (hd (map json_row g))))) (map json_row g)"
    using assms(2) by (auto simp: list_ex_iff row_length_def json_row_def row_cells_def grid_shape_def g)
  then have c: "collect_grids None [v1, v2] = ([map row_cells (map json_row g)], [])"
    by (simp add: u Let_def)
  have cells: "map row_cells (map json_row g) = map (map JFloat) g" by (simp add: row_cells_def json_row_def)
  have num: "res_map (py_float L) (map JFloat xs) = Inr xs" for xs
    by (induction xs) auto
  have "res_map (res_map (py_float L)) (map (map JFloat) hs) = Inr hs" for hs
    by (induction hs) (auto simp: num)
  moreover have "zero_grid (map (map JFloat) g) = zero_grid g" by (simp add: zero_grid_def g)
  ultimately show ?thesis
    unfolding fuse_score_grids_def c cells using assms(4) add_grid_zero [OF assms(2,3)]
    by (simp add: Let_def del: collect_grids.simps)
qed

lemma calibrate_identity:
  assumes "ct_x cal = []" "sum_list (map snd ds) = 1"
  shows "calibrate cal ds = Inr ds"
proof -
  have "res_map f xs = Inr xs" if "\<And>x. f x = Inr x" for f and xs :: "(string \<times> real) list"
    using res_map_Inr [of xs f "\<lambda>x. x"] that by simp
  with assms show ?thesis
    by (simp add: calibrate_def table_apply_def case_prod_unfold Let_def)
qed

text \<open>
  A predictor without a grid makes the swarm veto itself. Consensus averages the outcomes over
  all votes but the score grid over the votes that have one, so a vote with a grid and a vote without one (the Elo and
  form predictors have none), each of which passes the consistency check at any tolerance, fuse with default weights and no calibration to a candidate that
  the consistency replica rejects as soon as the two disagree on an outcome by more than twice its tolerance; and
  one reject is fatal.
\<close>

lemma gridless_vote_breaks_consistency:
  assumes "pn_votes p = [v1, v2]" "pv_predictor_id v1 \<noteq> pv_predictor_id v2" "pn_market p = ''1x2''" "cs_weights s = []"
    and "pn_calibration_table p = Some cal" "ct_x cal = []"
    and "pv_distribution v1 = prediction [(''H'', h1), (''D'', d1), (''A'', a1)] (Some g)" "is_pmf ''1x2'' [(''H'', h1), (''D'', d1), (''A'', a1)]"
    and "grid_ok ''1x2'' [(''H'', h1), (''D'', d1), (''A'', a1)] g" "grid_shape r c g" "g \<noteq> []"
    and "pv_distribution v2 = prediction [(''H'', h2), (''D'', d2), (''A'', a2)] None" "is_pmf ''1x2'' [(''H'', h2), (''D'', d2), (''A'', a2)]"
    and "0 \<le> tol" "2 * tol < max \<bar>h1 - h2\<bar> (max \<bar>d1 - d2\<bar> \<bar>a1 - a2\<bar>)"
  shows "verdict_of (grid_consistency_check L tol (pv_distribution v1)) = Inr ''accept'' \<and>
    verdict_of (grid_consistency_check L tol (pv_distribution v2)) = Inr ''accept'' \<and>
    (\<exists>e v. fuse_window L ts trace s p pid = Inr [e] \<and>
      proofreader_handle L penv (consistency_proofreader L tol) (seal fr e) = Inr [v] \<and>
      (\<exists>w. verdict_from_dict M (em_payload v) = Inr w \<and> rejects w \<and> vd_prediction_id w = pid))"
proof (intro conjI)
  have m: "''1x2'' \<in> set allowed_markets" by (simp add: allowed_markets_def)
  show "verdict_of (grid_consistency_check L tol (pv_distribution v1)) = Inr ''accept''"
    "verdict_of (grid_consistency_check L tol (pv_distribution v2)) = Inr ''accept''"
    using prediction_consistent [OF assms(8) m assms(14), of "Some g"] prediction_consistent [OF assms(13) m assms(14), of None]
    by (simp_all add: assms(7,9,12))
  let ?ds = "[(''H'', (h1 + h2) / 2), (''D'', (d1 + d2) / 2), (''A'', (a1 + a2) / 2)]"
  let ?f = "final_payload s p pid cal ts ?ds (Some g)" and ?r = "consistency_proofreader L tol"
  have sums: "h1 + d1 + a1 = 1" "h2 + d2 + a2 = 1" using assms(8,13) by (simp_all add: is_pmf_def)
  have w: "weight_of (vote_weights [] [v1, v2]) v = 1" if "v \<in> {v1, v2}" for v
    using that assms(2) by (auto simp: weight_of_def vote_weights_def)
  have fused: "fuse_distributions L [v1, v2] (vote_weights [] [v1, v2]) ''1x2'' = Inr ?ds"
    by (rule two_votes_mean [OF assms(7) sums(1) assms(12) sums(2)]) (simp_all add: w)
  have "(h1 + h2) + ((d1 + d2) + (a1 + a2)) = 2" using sums by linarith
  then have "sum_list (map snd ?ds) = 1" by (simp flip: add_divide_distrib)
  note cal = calibrate_identity [OF assms(6) this]
  have total: "grid_total g = 1" using assms(9) by (simp add: grid_ok_def)
  have check: "predict_final_check ?f = Inr ?f"
    using m by (simp add: predict_final_check_def final_payload_def assms(3))
  have fw: "fuse_window L ts trace s p pid = Inr [final_emission ?f trace]"
    unfolding fuse_window_def assms(1,3-5) fused using check cal one_grid_fused [OF assms(7,10,11) total assms(12)]
    by (simp add: final_emission_def)
  let ?e = "final_emission ?f trace"
  have d: "pf_distribution ?f = [(''market_outcomes'', JObj [(''H'', JFloat ((h1 + h2) / 2)), (''D'', JFloat ((d1 + d2) / 2)),
      (''A'', JFloat ((a1 + a2) / 2))]), (''score_grid'', JArr (map json_row g))]"
    by (simp add: final_payload_distribution grid_json_def json_row_def [abs_def])
  have g: "cells_sum (\<lambda>i j. j < i) 0 g = h1" "cells_sum (\<lambda>i j. i = j) 0 g = d1" "cells_sum (\<lambda>i j. i < j) 0 g = a1"
    using assms(9) by (simp_all add: grid_ok_def)
  have half: "\<bar>(x + y) / 2 - x\<bar> = \<bar>x - y\<bar> / 2" for x y :: real by (simp add: field_simps abs_if)
  have rd: "readable_outcomes L [(''H'', JFloat ((h1 + h2) / 2)), (''D'', JFloat ((d1 + d2) / 2)), (''A'', JFloat ((a1 + a2) / 2))]"
    using floats_readable [of L ?ds] by simp
  have rej: "verdict_of (grid_consistency_check L tol (pf_distribution ?f)) = Inr ''reject''"
    using assms(15) unfolding consistency_check_numbers [OF d rd] declares_hda g simp_thms half by (auto simp: less_max_iff_disj)
  then obtain score ds where res: "pf_check ?r ?f = Inr (''reject'', score, ds)"
    by (auto simp: consistency_proofreader_def verdict_of_def res_iffs)
  have e: "en_topic (msg_envelope (seal fr ?e)) = predict_final_topic" "predict_final_from_dict L (msg_payload (seal fr ?e)) = Inr ?f"
    using predict_final_wire [OF check] by (simp_all add: final_emission_def)
  have v: "vd_prediction_id (final_verdict penv ?r ?f) = pid" "rejects (final_verdict penv ?r ?f)"
    using res by (simp_all add: final_verdict_def rejects_def) (simp add: final_payload_def)
  show "\<exists>e v. fuse_window L ts trace s p pid = Inr [e] \<and> proofreader_handle L penv ?r (seal fr e) = Inr [v] \<and>
      (\<exists>w. verdict_from_dict M (em_payload v) = Inr w \<and> rejects w \<and> vd_prediction_id w = pid)"
    using fw proofreader_handle_final [OF policy_ok(3) e, of penv] res v verdict_wire [OF final_verdict_check [OF policy_ok(3)], of M]
    by simp
qed

text \<open>A goalless game for the grid predictor, an even game for Elo.\<close>

end
